(* ===== verification/Prelude.thy ===== *)
theory Prelude
  imports Complex_Main "HOL-Library.AList" "HOL-Library.Sublist" "HOL-Library.Char_ord"
    "HOL-Library.List_Lexorder"
begin

text \<open>
  Shared vocabulary of the development: results of Python code that may raise, dictionaries
  that keep insertion order, the string primitives of Python that the sources use
  (\<open>split\<close>, \<open>partition\<close>, \<open>lower\<close>, \<open>startswith\<close>, \<open>isdigit\<close>, \<open>int(s, 10)\<close>, \<open>str(n)\<close>),
  and the generic lemmas on them.  Strings are lists of ASCII characters; clock readings and
  durations, floating point in the source, are real numbers.
\<close>

subsection \<open>Rule collections\<close>

named_theorems dict_simps \<open>reading a dictionary after an update\<close>
named_theorems str_simps \<open>executable string primitives\<close>

subsection \<open>Results\<close>

type_synonym ('e, 'a) result = "'e + 'a"

definition bind_result :: "('e, 'a) result \<Rightarrow> ('a \<Rightarrow> ('e, 'b) result) \<Rightarrow> ('e, 'b) result" where
  "bind_result r f = (case r of Inl e \<Rightarrow> Inl e | Inr x \<Rightarrow> f x)"

lemma bind_result_simps [simp]:
  "bind_result (Inl e) f = Inl e"
  "bind_result (Inr x) f = f x"
  by (simp_all add: bind_result_def)

lemma bind_result_Inr:
  "bind_result r f = Inr y \<longleftrightarrow> (\<exists>x. r = Inr x \<and> f x = Inr y)"
  by (cases r) simp_all

text \<open>A Python loop whose body may raise stops at the first exception.\<close>

fun map_result :: "('a \<Rightarrow> ('e, 'b) result) \<Rightarrow> 'a list \<Rightarrow> ('e, 'b list) result" where
  "map_result f [] = Inr []"
| "map_result f (x # xs) =
     bind_result (f x) (\<lambda>y. bind_result (map_result f xs) (\<lambda>ys. Inr (y # ys)))"

lemma map_result_Inr:
  "map_result f xs = Inr ys \<Longrightarrow> list_all2 (\<lambda>x y. f x = Inr y) xs ys"
  by (induction xs arbitrary: ys) (auto simp: bind_result_Inr)

lemma map_result_pure: "(\<forall>x \<in> set xs. f x = Inr (g x)) \<Longrightarrow> map_result f xs = Inr (map g xs)"
  by (induction xs) auto

subsection \<open>Dictionaries with insertion order\<close>

text \<open>
  A Python \<open>dict\<close> is an association list: a lookup reads the first (only) binding, an
  assignment overwrites in place or appends at the end.
\<close>

type_synonym 'v dict = "(string \<times> 'v) list"

abbreviation dict_get :: "'v dict \<Rightarrow> string \<Rightarrow> 'v option" where
  "dict_get d k \<equiv> map_of d k"

abbreviation dict_set :: "string \<Rightarrow> 'v \<Rightarrow> 'v dict \<Rightarrow> 'v dict" where
  "dict_set k v d \<equiv> AList.update k v d"

abbreviation dict_keys :: "'v dict \<Rightarrow> string list" where
  "dict_keys d \<equiv> map fst d"

abbreviation wf_dict :: "'v dict \<Rightarrow> bool" where
  "wf_dict d \<equiv> distinct (map fst d)"

lemma dict_get_set [dict_simps, simp]:
  "dict_get (dict_set k v d) k' = (if k' = k then Some v else dict_get d k')"
  by (simp add: update_conv')

lemma dict_set_get_same: "dict_get d k = Some v \<Longrightarrow> dict_set k v d = d"
  by (induction d) (auto split: if_splits)

lemma wf_dict_set [simp]: "wf_dict d \<Longrightarrow> wf_dict (dict_set k v d)"
  by (simp add: distinct_update)

lemma dict_keys_set:
  "dict_keys (dict_set k v d) = (if k \<in> set (dict_keys d) then dict_keys d else dict_keys d @ [k])"
  by (induction d) auto

lemma dict_get_Some_mem: "wf_dict d \<Longrightarrow> dict_get d k = Some v \<longleftrightarrow> (k, v) \<in> set d"
  by (simp add: map_of_eq_Some_iff)

lemma dict_get_None_iff: "dict_get d k = None \<longleftrightarrow> k \<notin> set (dict_keys d)"
  by (simp add: map_of_eq_None_iff)

lemma dict_get_map_val:
  "dict_get (map (\<lambda>(k, v). (k, f k v)) d) k = map_option (f k) (dict_get d k)"
  by (induction d) auto

text \<open>A dict comprehension: the last binding of a key wins, at the place of its first.\<close>

definition dict_of :: "(string \<times> 'v) list \<Rightarrow> 'v dict" where
  "dict_of kvs = fold (\<lambda>(k, v) d. dict_set k v d) kvs []"

lemma dict_of_append:
  "distinct (map fst (d @ kvs)) \<Longrightarrow> fold (\<lambda>(k, v) d. dict_set k v d) kvs d = d @ kvs"
proof (induction kvs arbitrary: d)
  case (Cons kv kvs)
  have "dict_set (fst kv) (snd kv) d = d @ [kv]" if "fst kv \<notin> fst ` set d" for d
    using that by (induction d) auto
  with Cons.prems have "dict_set (fst kv) (snd kv) d = d @ [kv]" by auto
  with Cons show ?case by (simp add: case_prod_unfold)
qed simp

lemma dict_of_distinct [simp]: "distinct (map fst kvs) \<Longrightarrow> dict_of kvs = kvs"
  using dict_of_append [of "[]" kvs] by (simp add: dict_of_def)

subsection \<open>JSON values and document writes\<close>

text \<open>Integers and finite floats are told apart; non-finite floats are not values of the model.\<close>

datatype json =
  JNull | JBool bool | JInt int | JNum real | JString string | JArray "json list"
| JObject "(string \<times> json) list"

text \<open>What the transform of a read-modify-write asks the store to do with the document.\<close>

datatype 'a doc_write = DOC_KEEP | DOC_DELETE | DOC_PUT 'a

primrec written :: "'a option \<Rightarrow> 'a doc_write \<Rightarrow> 'a option" where
  "written old DOC_KEEP = old"
| "written old DOC_DELETE = None"
| "written old (DOC_PUT new) = Some new"

subsection \<open>Splitting strings\<close>

text \<open>\<open>text.split(sep)\<close> for a one-character separator: never empty, keeps empty items.\<close>

fun split_on :: "char \<Rightarrow> string \<Rightarrow> string list" where
  "split_on c [] = [[]]"
| "split_on c (x # xs) =
     (if x = c then [] # split_on c xs
      else (case split_on c xs of [] \<Rightarrow> [[x]] | w # ws \<Rightarrow> (x # w) # ws))"

text \<open>\<open>sep.join(items)\<close>.\<close>

fun join_with :: "char \<Rightarrow> string list \<Rightarrow> string" where
  "join_with c [] = []"
| "join_with c [w] = w"
| "join_with c (w # v # ws) = w @ c # join_with c (v # ws)"

lemma split_on_ne [simp]: "split_on c s \<noteq> []"
  by (induction s) (auto split: list.splits)

lemma split_on_items: "w \<in> set (split_on c s) \<Longrightarrow> c \<notin> set w"
proof (induction s arbitrary: w)
  case Nil
  then show ?case by simp
next
  case (Cons x s)
  then show ?case by (auto split: if_splits list.splits)
qed

lemma split_on_chars: "w \<in> set (split_on c s) \<Longrightarrow> set w \<subseteq> set s"
proof (induction s arbitrary: w)
  case Nil
  then show ?case by simp
next
  case (Cons x s)
  then show ?case by (fastforce split: if_splits list.splits)
qed

lemma split_on_append_sep:
  "c \<notin> set w \<Longrightarrow> split_on c (w @ c # s) = w # split_on c s"
  by (induction w) auto

lemma split_on_none: "c \<notin> set w \<Longrightarrow> split_on c w = [w]"
  by (induction w) auto

lemma split_join:
  "ws \<noteq> [] \<Longrightarrow> \<forall>w \<in> set ws. c \<notin> set w \<Longrightarrow> split_on c (join_with c ws) = ws"
  by (induction c ws rule: join_with.induct) (auto simp: split_on_append_sep split_on_none)

lemma join_split: "join_with c (split_on c s) = s"
proof (induction s)
  case Nil
  then show ?case by simp
next
  case (Cons x s)
  obtain w ws where sp: "split_on c s = w # ws"
    by (cases "split_on c s") auto
  with Cons have "join_with c (w # ws) = s" by simp
  then show ?case using sp by (cases ws) auto
qed

text \<open>\<open>text.partition(sep)\<close>: head, whether the separator was found, tail.\<close>

definition partition_at :: "char \<Rightarrow> string \<Rightarrow> string \<times> bool \<times> string" where
  "partition_at c s =
     (let h = takeWhile (\<lambda>x. x \<noteq> c) s; r = dropWhile (\<lambda>x. x \<noteq> c) s
      in (h, r \<noteq> [], tl r))"

text \<open>\<open>text.split()\<close>: the maximal runs of non-blank characters.\<close>

definition is_space :: "char \<Rightarrow> bool" where
  "is_space c \<longleftrightarrow> c \<in> {CHR '' '', CHR 0x09, CHR 0x0A, CHR 0x0B, CHR 0x0C, CHR 0x0D,
                        CHR 0x1C, CHR 0x1D, CHR 0x1E, CHR 0x1F}"

fun words_acc :: "string \<Rightarrow> string \<Rightarrow> string list" where
  "words_acc w [] = (if w = [] then [] else [rev w])"
| "words_acc w (x # xs) =
     (if is_space x then (if w = [] then words_acc [] xs else rev w # words_acc [] xs)
      else words_acc (x # w) xs)"

definition split_ws :: "string \<Rightarrow> string list" where
  "split_ws s = words_acc [] s"

lemma words_acc_word:
  "list_all (\<lambda>x. \<not> is_space x) v \<Longrightarrow> words_acc w (v @ xs) = words_acc (rev v @ w) xs"
  by (induction v arbitrary: w) auto

definition is_word :: "string \<Rightarrow> bool" where
  "is_word w \<longleftrightarrow> w \<noteq> [] \<and> list_all (\<lambda>x. \<not> is_space x) w"

lemma split_ws_words:
  "list_all (\<lambda>x. \<not> is_space x) w \<Longrightarrow> list_all is_word (words_acc w s)"
  by (induction s arbitrary: w) (auto simp: is_word_def)

lemma split_ws_items:
  "v \<in> set (split_ws s) \<Longrightarrow> is_word v"
  using split_ws_words [of "[]" s] by (simp add: split_ws_def list_all_iff)

lemma split_ws_join:
  "list_all is_word ws \<Longrightarrow> split_ws (join_with CHR '' '' ws) = ws"
proof (induction "CHR '' ''" ws rule: join_with.induct)
  case 1
  then show ?case by (simp add: split_ws_def)
next
  case (2 w)
  then show ?case
    using words_acc_word [of w "[]" "[]"] by (simp add: split_ws_def is_word_def)
next
  case (3 w v ws)
  then have "split_ws (join_with CHR '' '' (v # ws)) = v # ws" by simp
  moreover have "words_acc [] (w @ CHR '' '' # join_with CHR '' '' (v # ws)) =
      w # words_acc [] (join_with CHR '' '' (v # ws))"
    using 3 words_acc_word [of w "[]" "CHR '' '' # join_with CHR '' '' (v # ws)"]
    by (simp add: is_word_def is_space_def)
  ultimately show ?case by (simp add: split_ws_def)
qed

subsection \<open>Characters and decimal integers\<close>

abbreviation code_of :: "char \<Rightarrow> nat" where
  "code_of c \<equiv> (of_char c :: nat)"

definition is_digit :: "char \<Rightarrow> bool" where
  "is_digit c \<longleftrightarrow> 48 \<le> code_of c \<and> code_of c \<le> 57"

definition lower_char :: "char \<Rightarrow> char" where
  "lower_char c = (if 65 \<le> code_of c \<and> code_of c \<le> 90 then char_of (code_of c + 32) else c)"

definition lower :: "string \<Rightarrow> string" where
  "lower s = map lower_char s"

text \<open>\<open>s.isdigit()\<close> / \<open>s.isdecimal()\<close>, which agree on ASCII.\<close>

definition isdigit :: "string \<Rightarrow> bool" where
  "isdigit s \<longleftrightarrow> s \<noteq> [] \<and> list_all is_digit s"

fun digits_value :: "int \<Rightarrow> string \<Rightarrow> int" where
  "digits_value a [] = a"
| "digits_value a (c # cs) = digits_value (10 * a + (int (code_of c) - 48)) cs"

text \<open>
  \<open>int(s, 10)\<close>: an optional sign, then groups of digits separated by single underscores;
  anything else raises \<open>ValueError\<close>.  Blanks cannot occur in the tokens it is applied to.
\<close>

definition py_int_body :: "string \<Rightarrow> int option" where
  "py_int_body s =
     (let gs = split_on CHR ''_'' s
      in if list_all isdigit gs then Some (digits_value 0 (concat gs)) else None)"

definition py_int :: "string \<Rightarrow> int option" where
  "py_int s =
     (case s of
        [] \<Rightarrow> None
      | c # cs \<Rightarrow>
          if c = CHR ''-'' then map_option uminus (py_int_body cs)
          else if c = CHR ''+'' then py_int_body cs
          else py_int_body s)"

text \<open>\<open>str(n)\<close> for a non-negative integer.\<close>

fun show_nat :: "nat \<Rightarrow> string" where
  "show_nat n =
     (if n < 10 then [char_of (48 + n)] else show_nat (n div 10) @ [char_of (48 + n mod 10)])"

declare show_nat.simps [simp del]

lemma is_digit_char_of [simp]: "n < 10 \<Longrightarrow> is_digit (char_of (48 + n :: nat))"
  by (simp add: is_digit_def)

lemma show_nat_digits: "list_all is_digit (show_nat n)"
proof (induction n rule: show_nat.induct)
  case (1 n)
  then show ?case by (subst show_nat.simps) auto
qed

lemma show_nat_ne [simp]: "show_nat n \<noteq> []"
  by (subst show_nat.simps) simp

lemma digits_value_append: "digits_value a (s @ t) = digits_value (digits_value a s) t"
  by (induction a s rule: digits_value.induct) auto

lemma digits_value_show_nat: "digits_value 0 (show_nat n) = int n"
proof (induction n rule: show_nat.induct)
  case (1 n)
  show ?case
  proof (cases "n < 10")
    case True
    then show ?thesis by (subst show_nat.simps) simp
  next
    case False
    with 1 have "digits_value 0 (show_nat (n div 10)) = int (n div 10)" by simp
    moreover have "10 * int (n div 10) + int (n mod 10) = int n"
      by (metis mult_div_mod_eq of_nat_add of_nat_mult of_nat_numeral)
    ultimately show ?thesis using False
      by (subst show_nat.simps) (simp add: digits_value_append del: of_nat_mod of_nat_div)
  qed
qed

lemma digit_not_special:
  "is_digit c \<Longrightarrow> c \<noteq> CHR ''-'' \<and> c \<noteq> CHR ''+'' \<and> c \<noteq> CHR ''_'' \<and> c \<noteq> CHR '','' \<and>
     c \<noteq> CHR ''/'' \<and> c \<noteq> CHR ''#'' \<and> c \<noteq> CHR ''*'' \<and> c \<noteq> CHR ''h'' \<and> c \<noteq> CHR ''l'' \<and> c \<noteq> CHR ''w''
     \<and> \<not> is_space c"
  by (auto simp: is_digit_def is_space_def)

lemma py_int_digits:
  assumes "isdigit s"
  shows "py_int s = Some (digits_value 0 s)"
proof -
  from assms obtain c cs where s: "s = c # cs" and d: "list_all is_digit s"
    by (cases s) (auto simp: isdigit_def)
  then have "CHR ''_'' \<notin> set s" and "c \<noteq> CHR ''-''" and "c \<noteq> CHR ''+''"
    using digit_not_special by (auto simp: list_all_iff)
  then show ?thesis
    using assms s split_on_none [of "CHR ''_''" s] by (simp add: py_int_def py_int_body_def)
qed

lemma isdigit_show_nat: "isdigit (show_nat n)"
  by (simp add: isdigit_def show_nat_digits)

lemma py_int_show_nat: "py_int (show_nat n) = Some (int n)"
  by (simp add: py_int_digits isdigit_show_nat digits_value_show_nat)

lemma show_nat_inj: "show_nat m = show_nat n \<Longrightarrow> m = n"
  by (metis digits_value_show_nat of_nat_eq_iff)

lemma digits_value_nonneg: "0 \<le> a \<Longrightarrow> list_all is_digit s \<Longrightarrow> 0 \<le> digits_value a s"
  by (induction s arbitrary: a) (auto simp: is_digit_def)

lemma lower_length [simp]: "length (lower s) = length s"
  by (simp add: lower_def)

end
