(* ===== verification/Calendar.thy ===== *)
theory Calendar
  imports Prelude "HOL-Library.Product_Lexorder"
begin

text \<open>
  The part of Python's \<open>datetime\<close> and \<open>calendar\<close> that the cron engine computes with: the
  proleptic Gregorian calendar (\<open>calendar.monthrange\<close>, \<open>date.weekday\<close>, \<open>date.toordinal\<close>),
  naive datetimes with their field-wise order, and the one-second steps with which
  \<open>CronTab._next_civil\<close> and \<open>CronTab._prev_civil\<close> make a search strict.
\<close>

subsection \<open>Dates, times of day, naive datetimes\<close>

datatype date = Date (d_year: int) (d_month: int) (d_day: int)

datatype tod = Time (t_hour: int) (t_minute: int) (t_second: int)

datatype datetime = DateTime (dt_date: date) (dt_time: tod) (dt_micro: int)

text \<open>Naive dates, times and datetimes compare field by field.\<close>

definition date_key :: "date \<Rightarrow> int \<times> int \<times> int" where
  "date_key d = (d_year d, d_month d, d_day d)"

definition tod_key :: "tod \<Rightarrow> int \<times> int \<times> int" where
  "tod_key t = (t_hour t, t_minute t, t_second t)"

instantiation date :: linorder
begin

definition less_eq_date :: "date \<Rightarrow> date \<Rightarrow> bool" where
  "less_eq_date a b \<longleftrightarrow> date_key a \<le> date_key b"

definition less_date :: "date \<Rightarrow> date \<Rightarrow> bool" where
  "less_date a b \<longleftrightarrow> date_key a < date_key b"

instance
  by standard
    (auto simp: less_eq_date_def less_date_def date_key_def less_le_not_le date.expand)

end

instantiation tod :: linorder
begin

definition less_eq_tod :: "tod \<Rightarrow> tod \<Rightarrow> bool" where
  "less_eq_tod a b \<longleftrightarrow> tod_key a \<le> tod_key b"

definition less_tod :: "tod \<Rightarrow> tod \<Rightarrow> bool" where
  "less_tod a b \<longleftrightarrow> tod_key a < tod_key b"

instance
  by standard
    (auto simp: less_eq_tod_def less_tod_def tod_key_def less_le_not_le tod.expand)

end

definition datetime_key :: "datetime \<Rightarrow> date \<times> tod \<times> int" where
  "datetime_key x = (dt_date x, dt_time x, dt_micro x)"

instantiation datetime :: linorder
begin

definition less_eq_datetime :: "datetime \<Rightarrow> datetime \<Rightarrow> bool" where
  "less_eq_datetime a b \<longleftrightarrow> datetime_key a \<le> datetime_key b"

definition less_datetime :: "datetime \<Rightarrow> datetime \<Rightarrow> bool" where
  "less_datetime a b \<longleftrightarrow> datetime_key a < datetime_key b"

instance
  by standard
    (auto simp: less_eq_datetime_def less_datetime_def datetime_key_def less_le_not_le
      datetime.expand)

end

lemma date_le_iff [simp]:
  "Date y m d \<le> Date y' m' d' \<longleftrightarrow> y < y' \<or> y = y' \<and> (m < m' \<or> m = m' \<and> d \<le> d')"
  by (auto simp: less_eq_date_def date_key_def)

lemma date_less_iff [simp]:
  "Date y m d < Date y' m' d' \<longleftrightarrow> y < y' \<or> y = y' \<and> (m < m' \<or> m = m' \<and> d < d')"
  by (auto simp: less_date_def date_key_def)

lemma tod_le_iff [simp]:
  "Time h m s \<le> Time h' m' s' \<longleftrightarrow> h < h' \<or> h = h' \<and> (m < m' \<or> m = m' \<and> s \<le> s')"
  by (auto simp: less_eq_tod_def tod_key_def)

lemma tod_less_iff [simp]:
  "Time h m s < Time h' m' s' \<longleftrightarrow> h < h' \<or> h = h' \<and> (m < m' \<or> m = m' \<and> s < s')"
  by (auto simp: less_tod_def tod_key_def)

lemma datetime_le_iff [simp]:
  "DateTime d t u \<le> DateTime d' t' u' \<longleftrightarrow> d < d' \<or> d = d' \<and> (t < t' \<or> t = t' \<and> u \<le> u')"
  by (auto simp: less_eq_datetime_def datetime_key_def)

lemma datetime_less_iff [simp]:
  "DateTime d t u < DateTime d' t' u' \<longleftrightarrow> d < d' \<or> d = d' \<and> (t < t' \<or> t = t' \<and> u < u')"
  by (auto simp: less_datetime_def datetime_key_def)

subsection \<open>The Gregorian calendar\<close>

definition is_leap :: "int \<Rightarrow> bool" where
  "is_leap y \<longleftrightarrow> y mod 4 = 0 \<and> (y mod 100 \<noteq> 0 \<or> y mod 400 = 0)"

text \<open>\<open>calendar.monthrange(year, month)[1]\<close>.\<close>

definition days_in_month :: "int \<Rightarrow> int \<Rightarrow> int" where
  "days_in_month y m =
     (if m = 2 then (if is_leap y then 29 else 28)
      else if m = 4 \<or> m = 6 \<or> m = 9 \<or> m = 11 then 30 else 31)"

definition days_before_year :: "int \<Rightarrow> int" where
  "days_before_year y = (y - 1) * 365 + (y - 1) div 4 - (y - 1) div 100 + (y - 1) div 400"

definition days_before_month :: "int \<Rightarrow> int \<Rightarrow> int" where
  "days_before_month y m = (\<Sum>i \<in> {1..<m}. days_in_month y i)"

text \<open>\<open>date.toordinal()\<close> and \<open>date.weekday()\<close> (Monday is 0).\<close>

definition toordinal :: "date \<Rightarrow> int" where
  "toordinal d = days_before_year (d_year d) + days_before_month (d_year d) (d_month d) + d_day d"

definition weekday :: "int \<Rightarrow> int \<Rightarrow> int \<Rightarrow> int" where
  "weekday y m d = (toordinal (Date y m d) + 6) mod 7"

definition valid_date :: "date \<Rightarrow> bool" where
  "valid_date d \<longleftrightarrow> 1 \<le> d_year d \<and> d_year d \<le> 9999 \<and> 1 \<le> d_month d \<and> d_month d \<le> 12 \<and>
     1 \<le> d_day d \<and> d_day d \<le> days_in_month (d_year d) (d_month d)"

definition valid_tod :: "tod \<Rightarrow> bool" where
  "valid_tod t \<longleftrightarrow> 0 \<le> t_hour t \<and> t_hour t \<le> 23 \<and> 0 \<le> t_minute t \<and> t_minute t \<le> 59 \<and>
     0 \<le> t_second t \<and> t_second t \<le> 59"

definition valid_datetime :: "datetime \<Rightarrow> bool" where
  "valid_datetime x \<longleftrightarrow> valid_date (dt_date x) \<and> valid_tod (dt_time x) \<and>
     0 \<le> dt_micro x \<and> dt_micro x < 1000000"

lemma days_in_month_bounds [simp]: "28 \<le> days_in_month y m" "days_in_month y m \<le> 31"
  by (auto simp: days_in_month_def)

lemma days_in_month_ge1 [simp]: "1 \<le> days_in_month y m" "0 < days_in_month y m"
  using days_in_month_bounds(1) [of y m] by linarith+

lemma weekday_range: "0 \<le> weekday y m d" "weekday y m d < 7"
  by (simp_all add: weekday_def)

lemma weekday_shift: "weekday y m (d + k) = (weekday y m d + k) mod 7"
  by (simp add: weekday_def toordinal_def algebra_simps mod_simps)

subsection \<open>Ordinals are monotone\<close>

lemma month_interval_Suc: "1 \<le> m \<Longrightarrow> {1..<m + 1} = insert m {1..<m}" for m :: int
  by auto

lemma days_before_month_Suc:
  "1 \<le> m \<Longrightarrow> days_before_month y (m + 1) = days_before_month y m + days_in_month y m"
  by (simp add: days_before_month_def month_interval_Suc)

lemma days_before_month_mono:
  "m \<le> m' \<Longrightarrow> days_before_month y m \<le> days_before_month y m'"
  unfolding days_before_month_def
  by (rule sum_mono2) (auto intro: order_trans [OF _ days_in_month_bounds(1)])

lemma months_upto:
  "{1..<13} = {1, 2, 3, 4, 5, 6, 7, 8, 9, 10, 11, 12 :: int}"
proof -
  have "{1..<13 :: int} = int ` {1..<13}" by (simp add: image_int_atLeastLessThan)
  also have "{1..<13 :: nat} = {1, 2, 3, 4, 5, 6, 7, 8, 9, 10, 11, 12}" by code_simp
  finally show ?thesis by simp
qed

lemma days_of_year: "days_before_month y 13 = (if is_leap y then 366 else 365)"
  by (simp add: days_before_month_def months_upto days_in_month_def)

lemma leap_cases:
  "(p400 \<Longrightarrow> p100) \<Longrightarrow> (p100 \<Longrightarrow> p4) \<Longrightarrow>
     a + (if p4 then 1 else 0) - (b + (if p100 then 1 else 0)) + (c + (if p400 then 1 else 0)) =
     a - b + c + (if p4 \<and> (\<not> p100 \<or> p400) then 1 else 0)" for a b c :: int
  by (cases p4; cases p100; cases p400) simp_all

lemma leap_count_Suc:
  "y div 4 - y div 100 + y div 400 =
     (y - 1) div 4 - (y - 1) div 100 + (y - 1) div 400 + (if is_leap y then 1 else 0)"
  for y :: int
proof -
  have step: "y div k = (y - 1) div k + (if y mod k = 0 then 1 else 0)" if "0 < k" for k :: int
  proof (cases "y mod k = 0")
    case True
    then obtain q where y: "y = k * q" by auto
    have "((k - 1) + k * (q - 1)) div k = q - 1" using that by simp
    moreover have "(k - 1) + k * (q - 1) = k * q - 1" by (simp add: algebra_simps)
    ultimately have "(k * q - 1) div k = q - 1" by metis
    with y that True show ?thesis by simp
  next
    case False
    have r: "0 < y mod k" "y mod k < k"
      using False that pos_mod_sign [of k y] pos_mod_bound [of k y] by linarith+
    have z: "(y mod k - 1) div k = 0"
      by (rule div_pos_pos_trivial) (use r in linarith)+
    have "y - 1 = (y mod k - 1) + k * (y div k)" by (simp add: algebra_simps)
    moreover have "((y mod k - 1) + k * (y div k)) div k = y div k"
      using that z by simp
    ultimately have "(y - 1) div k = y div k" by metis
    with False show ?thesis by simp
  qed
  have m: "y mod 100 = 0 \<Longrightarrow> y mod 4 = 0" "y mod 400 = 0 \<Longrightarrow> y mod 100 = 0"
    unfolding mod_eq_0_iff_dvd using dvd_trans [of 4 100 y] dvd_trans [of 100 400 y] by simp_all
  show ?thesis
    unfolding step [OF zero_less_numeral] is_leap_def
    by (rule leap_cases) (fact m)+
qed

lemma year_sum:
  "a' - b' + c' = a - b + c + e \<Longrightarrow>
     y * 365 + a' - b' + c' = (y - 1) * 365 + a - b + c + (365 + e)" for a b c e y :: int
  by simp

lemma days_before_year_Suc:
  "days_before_year (y + 1) = days_before_year y + days_before_month y 13"
proof -
  have "days_before_month y 13 = 365 + (if is_leap y then 1 else 0)"
    by (simp add: days_of_year)
  then show ?thesis
    using year_sum [OF leap_count_Suc, of y] by (simp only: days_before_year_def add_diff_cancel)
qed

lemma days_before_year_mono: "y \<le> y' \<Longrightarrow> days_before_year y \<le> days_before_year y'"
proof (induction "nat (y' - y)" arbitrary: y')
  case 0
  then show ?case by simp
next
  case (Suc n)
  then have "y < y'" by linarith
  with Suc have "days_before_year y \<le> days_before_year (y' - 1)" by simp
  moreover have "days_before_year (y' - 1) \<le> days_before_year y'"
    using days_before_year_Suc [of "y' - 1"] days_before_month_mono [of 1 13 "y' - 1"]
    by (simp add: days_of_year split: if_splits)
  ultimately show ?case by linarith
qed

lemma toordinal_less:
  assumes "valid_date a" and "valid_date b" and "a < b"
  shows "toordinal a < toordinal b"
proof -
  obtain y m d where a: "a = Date y m d" by (cases a)
  obtain y' m' d' where b: "b = Date y' m' d'" by (cases b)
  have va: "1 \<le> m" "m \<le> 12" "d \<le> days_in_month y m" and vb: "1 \<le> d'" "1 \<le> m'"
    using assms(1,2) by (simp_all add: a b valid_date_def)
  have end_month: "days_before_month y m + d \<le> days_before_month y (m + 1)"
    using va days_before_month_Suc [of m y] by simp
  show ?thesis
  proof (cases "y = y'")
    case True
    show ?thesis
    proof (cases "m = m'")
      case True
      with \<open>y = y'\<close> assms(3) show ?thesis by (simp add: a b toordinal_def)
    next
      case False
      with \<open>y = y'\<close> assms(3) have "m + 1 \<le> m'" by (simp add: a b)
      then have "days_before_month y (m + 1) \<le> days_before_month y m'"
        by (rule days_before_month_mono)
      with end_month vb \<open>y = y'\<close> show ?thesis by (simp add: a b toordinal_def)
    qed
  next
    case False
    with assms(3) have "y + 1 \<le> y'" by (simp add: a b)
    then have "days_before_year (y + 1) \<le> days_before_year y'"
      by (rule days_before_year_mono)
    moreover have "days_before_month y (m + 1) \<le> days_before_month y 13"
      using va by (intro days_before_month_mono) simp
    moreover have "0 \<le> days_before_month y' m'"
      using days_before_month_mono [of 1 m' y'] vb by (simp add: days_before_month_def)
    ultimately show ?thesis
      using end_month vb days_before_year_Suc [of y] by (simp add: a b toordinal_def)
  qed
qed

subsection \<open>Neighbouring days and seconds\<close>

datatype datetime_error = OverflowError

definition next_date :: "date \<Rightarrow> date" where
  "next_date d =
     (if d_day d < days_in_month (d_year d) (d_month d)
      then Date (d_year d) (d_month d) (d_day d + 1)
      else if d_month d < 12 then Date (d_year d) (d_month d + 1) 1
      else Date (d_year d + 1) 1 1)"

definition prev_date :: "date \<Rightarrow> date" where
  "prev_date d =
     (if 1 < d_day d then Date (d_year d) (d_month d) (d_day d - 1)
      else if 1 < d_month d
      then Date (d_year d) (d_month d - 1) (days_in_month (d_year d) (d_month d - 1))
      else Date (d_year d - 1) 12 31)"

text \<open>
  \<open>x.replace(microsecond=0) + timedelta(seconds=1)\<close> and \<open>x - timedelta(seconds=1)\<close>; the
  arithmetic leaves the years 1 to 9999 only with an \<open>OverflowError\<close>.
\<close>

definition plus_second :: "datetime \<Rightarrow> (datetime_error, datetime) result" where
  "plus_second x =
     (let d = dt_date x; t = dt_time x
      in if t_second t < 59 then Inr (DateTime d (Time (t_hour t) (t_minute t) (t_second t + 1)) 0)
         else if t_minute t < 59 then Inr (DateTime d (Time (t_hour t) (t_minute t + 1) 0) 0)
         else if t_hour t < 23 then Inr (DateTime d (Time (t_hour t + 1) 0 0) 0)
         else if d = Date 9999 12 31 then Inl OverflowError
         else Inr (DateTime (next_date d) (Time 0 0 0) 0))"

definition minus_second :: "datetime \<Rightarrow> (datetime_error, datetime) result" where
  "minus_second x =
     (let d = dt_date x; t = dt_time x; u = dt_micro x
      in if 0 < t_second t then Inr (DateTime d (Time (t_hour t) (t_minute t) (t_second t - 1)) u)
         else if 0 < t_minute t then Inr (DateTime d (Time (t_hour t) (t_minute t - 1) 59) u)
         else if 0 < t_hour t then Inr (DateTime d (Time (t_hour t - 1) 59 59) u)
         else if d = Date 1 1 1 then Inl OverflowError
         else Inr (DateTime (prev_date d) (Time 23 59 59) u))"

text \<open>\<open>(a - b).total_seconds()\<close> for naive datetimes, here in microseconds.\<close>

definition microseconds_of :: "datetime \<Rightarrow> int" where
  "microseconds_of x =
     ((toordinal (dt_date x) * 24 + t_hour (dt_time x)) * 60 + t_minute (dt_time x)) * 60 * 1000000
     + t_second (dt_time x) * 1000000 + dt_micro x"

definition total_seconds :: "datetime \<Rightarrow> datetime \<Rightarrow> real" where
  "total_seconds a b = real_of_int (microseconds_of a - microseconds_of b) / 1000000"

lemma microseconds_less:
  assumes "valid_datetime a" and "valid_datetime b" and "a < b"
  shows "microseconds_of a < microseconds_of b"
proof -
  obtain d h mi s u where a: "a = DateTime d (Time h mi s) u"
    by (metis datetime.exhaust tod.exhaust)
  obtain d' h' mi' s' u' where b: "b = DateTime d' (Time h' mi' s') u'"
    by (metis datetime.exhaust tod.exhaust)
  have va: "0 \<le> h" "h \<le> 23" "0 \<le> mi" "mi \<le> 59" "0 \<le> s" "s \<le> 59" "0 \<le> u" "u < 1000000"
    and vb: "0 \<le> h'" "h' \<le> 23" "0 \<le> mi'" "mi' \<le> 59" "0 \<le> s'" "s' \<le> 59" "0 \<le> u'" "u' < 1000000"
    using assms(1,2) by (auto simp: a b valid_datetime_def valid_tod_def)
  have ord: "d < d' \<Longrightarrow> toordinal d + 1 \<le> toordinal d'"
    using toordinal_less [of d d'] assms(1,2) by (auto simp: a b valid_datetime_def)
  from assms(3) consider "d < d'" | "d = d'" "h < h'" | "d = d'" "h = h'" "mi < mi'"
    | "d = d'" "h = h'" "mi = mi'" "s < s'" | "d = d'" "h = h'" "mi = mi'" "s = s'" "u < u'"
    by (auto simp: a b)
  then show ?thesis
  proof cases
    case 1
    then show ?thesis using ord va vb by (simp add: a b microseconds_of_def)
  qed (use va vb in \<open>simp_all add: a b microseconds_of_def\<close>)
qed

end
