(* ===== verification/CronMatch.thy ===== *)
theory CronMatch
  imports Calendar
begin

text \<open>
  The parsed form of a cron expression (\<open>class CronTab\<close> of \<open>cronexpr.py\<close>) and its matching
  side: \<open>_shift_to_weekday\<close>, \<open>_dom_matches\<close>, \<open>_dow_matches\<close>, \<open>_day_matches\<close>, \<open>test\<close> and
  \<open>__eq__\<close>.  The lemmas characterise the business-day forms (\<open>W\<close>, \<open>LW\<close>, \<open>L-n\<close>, \<open>d#n\<close>).
\<close>

record crontab =
  ct_source :: string
  ct_resolved :: string
  ct_seconds :: "int set"
  ct_minutes :: "int set"
  ct_hours :: "int set"
  ct_dom :: "int set"
  ct_dom_last_offsets :: "int set"
  ct_dom_nearest :: "int set"
  ct_dom_last_weekday :: bool
  ct_months :: "int set"
  ct_dow :: "int set"
  ct_dow_last :: "int set"
  ct_dow_nth :: "(int \<times> int) set"
  ct_years :: "int set option"

text \<open>The tuples the constructor derives from the sets with \<open>tuple(sorted(...))\<close>.\<close>

definition seconds_sorted :: "crontab \<Rightarrow> int list" where
  "seconds_sorted ct = sorted_list_of_set (ct_seconds ct)"

definition minutes_sorted :: "crontab \<Rightarrow> int list" where
  "minutes_sorted ct = sorted_list_of_set (ct_minutes ct)"

definition hours_sorted :: "crontab \<Rightarrow> int list" where
  "hours_sorted ct = sorted_list_of_set (ct_hours ct)"

definition months_sorted :: "crontab \<Rightarrow> int list" where
  "months_sorted ct = sorted_list_of_set (ct_months ct)"

definition years_sorted :: "crontab \<Rightarrow> int list option" where
  "years_sorted ct = map_option sorted_list_of_set (ct_years ct)"

text \<open>What the constructor guarantees of the fields it parsed.\<close>

definition field_in :: "int \<Rightarrow> int \<Rightarrow> int set \<Rightarrow> bool" where
  "field_in lo hi A \<longleftrightarrow> finite A \<and> A \<noteq> {} \<and> A \<subseteq> {lo..hi}"

definition wf_crontab :: "crontab \<Rightarrow> bool" where
  "wf_crontab ct \<longleftrightarrow>
     field_in 0 59 (ct_seconds ct) \<and> field_in 0 59 (ct_minutes ct) \<and> field_in 0 23 (ct_hours ct) \<and>
     field_in 1 12 (ct_months ct) \<and>
     (case ct_years ct of None \<Rightarrow> True | Some ys \<Rightarrow> field_in 1970 2099 ys)"

text \<open>\<open>CronTab.__eq__\<close>: every parsed field, never the source text.\<close>

definition crontab_eq :: "crontab \<Rightarrow> crontab \<Rightarrow> bool" where
  "crontab_eq a b \<longleftrightarrow>
     ct_seconds a = ct_seconds b \<and> ct_minutes a = ct_minutes b \<and> ct_hours a = ct_hours b \<and>
     ct_dom a = ct_dom b \<and> ct_dom_last_offsets a = ct_dom_last_offsets b \<and>
     ct_dom_nearest a = ct_dom_nearest b \<and> ct_dom_last_weekday a = ct_dom_last_weekday b \<and>
     ct_months a = ct_months b \<and> ct_dow a = ct_dow b \<and> ct_dow_last a = ct_dow_last b \<and>
     ct_dow_nth a = ct_dow_nth b \<and> ct_years a = ct_years b"

subsection \<open>Matching\<close>

definition shift_to_weekday :: "int \<Rightarrow> int \<Rightarrow> int \<Rightarrow> int \<Rightarrow> int" where
  "shift_to_weekday y m target month_end =
     (let wd = weekday y m target
      in if wd = 5 then (if target > 1 then target - 1 else target + 2)
         else if wd = 6 then (if target < month_end then target + 1 else target - 2)
         else target)"

definition dom_matches :: "crontab \<Rightarrow> int \<Rightarrow> int \<Rightarrow> int \<Rightarrow> int \<Rightarrow> bool" where
  "dom_matches ct y m d month_end \<longleftrightarrow>
     d \<in> ct_dom ct \<or>
     month_end - d \<in> ct_dom_last_offsets ct \<or>
     ct_dom_last_weekday ct \<and> d = shift_to_weekday y m month_end month_end \<or>
     (\<exists>target \<in> ct_dom_nearest ct.
        target \<le> month_end \<and> d = shift_to_weekday y m target month_end)"

definition dow_matches :: "crontab \<Rightarrow> int \<Rightarrow> int \<Rightarrow> int \<Rightarrow> bool" where
  "dow_matches ct dow d month_end \<longleftrightarrow>
     dow \<in> ct_dow ct \<or>
     dow \<in> ct_dow_last ct \<and> d > month_end - 7 \<or>
     (dow, (d - 1) div 7 + 1) \<in> ct_dow_nth ct"

text \<open>Python counts weekdays from Monday, cron from Sunday.\<close>

definition cron_dow :: "int \<Rightarrow> int \<Rightarrow> int \<Rightarrow> int" where
  "cron_dow y m d = (weekday y m d + 1) mod 7"

definition day_matches :: "crontab \<Rightarrow> int \<Rightarrow> int \<Rightarrow> int \<Rightarrow> int \<Rightarrow> bool" where
  "day_matches ct y m d month_end \<longleftrightarrow>
     dom_matches ct y m d month_end \<and> dow_matches ct (cron_dow y m d) d month_end"

definition test :: "crontab \<Rightarrow> datetime \<Rightarrow> bool" where
  "test ct x \<longleftrightarrow>
     (let y = d_year (dt_date x); m = d_month (dt_date x); d = d_day (dt_date x)
      in t_second (dt_time x) \<in> ct_seconds ct \<and>
         t_minute (dt_time x) \<in> ct_minutes ct \<and>
         t_hour (dt_time x) \<in> ct_hours ct \<and>
         m \<in> ct_months ct \<and>
         (case ct_years ct of None \<Rightarrow> True | Some ys \<Rightarrow> y \<in> ys) \<and>
         day_matches ct y m d (days_in_month y m))"

subsection \<open>The nearest weekday\<close>

definition is_weekday :: "int \<Rightarrow> int \<Rightarrow> int \<Rightarrow> bool" where
  "is_weekday y m d \<longleftrightarrow> weekday y m d < 5"

lemma weekday_plus:
  "weekday y m (d + 1) = (weekday y m d + 1) mod 7"
  "weekday y m (d + 2) = (weekday y m d + 2) mod 7"
  "weekday y m (d - 1) = (weekday y m d - 1) mod 7"
  "weekday y m (d - 2) = (weekday y m d - 2) mod 7"
  using weekday_shift [of y m d 1] weekday_shift [of y m d 2]
    weekday_shift [of y m d "- 1"] weekday_shift [of y m d "- 2"]
  by simp_all

lemma shift_to_weekday_cases [consumes 2, case_names weekday sat sat1 sun sun_end]:
  assumes "1 \<le> target" and "target \<le> month_end"
  obtains (weekday) "is_weekday y m target" "shift_to_weekday y m target month_end = target"
  | (sat) "weekday y m target = 5" "1 < target" "shift_to_weekday y m target month_end = target - 1"
  | (sat1) "weekday y m target = 5" "target = 1" "shift_to_weekday y m target month_end = 3"
  | (sun) "weekday y m target = 6" "target < month_end"
      "shift_to_weekday y m target month_end = target + 1"
  | (sun_end) "weekday y m target = 6" "target = month_end"
      "shift_to_weekday y m target month_end = target - 2"
proof -
  consider "weekday y m target < 5" | "weekday y m target = 5" | "weekday y m target = 6"
    using weekday_range [of y m target] by linarith
  then show thesis
    using that assms
    by cases (auto simp: shift_to_weekday_def is_weekday_def Let_def less_le)
qed

lemma shift_is_weekday:
  assumes "1 \<le> target" and "target \<le> month_end"
  shows "is_weekday y m (shift_to_weekday y m target month_end)"
  using assms
proof (cases rule: shift_to_weekday_cases [where y = y and m = m])
  case sat1
  then show ?thesis using weekday_plus(2) [of y m 1] by (simp add: is_weekday_def)
qed (simp_all add: is_weekday_def weekday_plus)

lemma shift_in_month:
  assumes "1 \<le> target" and "target \<le> month_end" and "28 \<le> month_end"
  shows "1 \<le> shift_to_weekday y m target month_end"
    and "shift_to_weekday y m target month_end \<le> month_end"
  using assms(1,2)
  by (cases rule: shift_to_weekday_cases [where y = y and m = m]; use assms in simp)+

text \<open>No weekday of the month lies nearer to the target day.\<close>

lemma shift_nearest:
  assumes "1 \<le> target" and "target \<le> month_end"
    and "1 \<le> d" and "d \<le> month_end" and "is_weekday y m d"
  shows "\<bar>shift_to_weekday y m target month_end - target\<bar> \<le> \<bar>d - target\<bar>"
  using assms(1,2)
proof (cases rule: shift_to_weekday_cases [where y = y and m = m])
  case sat1
  have "d \<noteq> 1" "d \<noteq> 2"
    using assms(5) sat1 weekday_plus(1) [of y m 1] by (auto simp: is_weekday_def)
  with sat1 assms(3) show ?thesis by simp
next
  case sun_end
  have "d \<noteq> target" "d \<noteq> target - 1"
    using assms(5) sun_end weekday_plus(3) [of y m target] by (auto simp: is_weekday_def)
  with sun_end assms(4) show ?thesis by simp
next
  case sat
  then have "d \<noteq> target" using assms(5) by (auto simp: is_weekday_def)
  with sat show ?thesis by simp
next
  case sun
  then have "d \<noteq> target" using assms(5) by (auto simp: is_weekday_def)
  with sun show ?thesis by simp
qed simp

subsection \<open>Semantic equality\<close>

lemma crontab_eq_test: "crontab_eq a b \<Longrightarrow> test a x = test b x"
  by (simp add: crontab_eq_def test_def day_matches_def dom_matches_def dow_matches_def)

end
