(* ===== verification/CronSearch.thy ===== *)
theory CronSearch
  imports CronMatch
begin

text \<open>
  The civil searches of \<open>cronexpr.py\<close>: \<open>_first_time\<close>, \<open>_next_in\<close>, \<open>_next_civil\<close> and their
  mirrors \<open>_last_time\<close>, \<open>_prev_in\<close>, \<open>_prev_civil\<close>; \<open>next\<close>, \<open>prev\<close> and \<open>occurrences\<close> on naive
  datetimes are built on them.  The loops of the source are recursive functions with a measure;
  an access to the first or last element of an empty tuple is an \<open>IndexError\<close>.  The lemmas show
  that each search returns the extremal matching instant, and \<open>None\<close> exactly when there is
  none up to the year horizon.
\<close>

datatype search_error = IndexError | SearchOverflow

definition YEAR_HORIZON :: int where
  "YEAR_HORIZON = 2099"

definition YEAR_FLOOR :: int where
  "YEAR_FLOOR = 1970"

definition index_first :: "int list \<Rightarrow> (search_error, int) result" where
  "index_first xs = (case xs of [] \<Rightarrow> Inl IndexError | x # _ \<Rightarrow> Inr x)"

definition index_last :: "int list \<Rightarrow> (search_error, int) result" where
  "index_last xs = index_first (rev xs)"

subsection \<open>Forward search\<close>

definition next_in :: "int list \<Rightarrow> int \<Rightarrow> int option" where
  "next_in ordered current = find (\<lambda>v. current < v) ordered"

fun first_minute ::
  "int list \<Rightarrow> int \<Rightarrow> tod \<Rightarrow> int list \<Rightarrow> (search_error, tod option) result" where
  "first_minute secs h a [] = Inr None"
| "first_minute secs h a (mi # mis) =
     (if mi < t_minute a then first_minute secs h a mis
      else if t_minute a < mi
      then bind_result (index_first secs) (\<lambda>s. Inr (Some (Time h mi s)))
      else (case find (\<lambda>s. t_second a \<le> s) secs of
              Some s \<Rightarrow> Inr (Some (Time h mi s))
            | None \<Rightarrow> first_minute secs h a mis))"

fun first_hour ::
  "int list \<Rightarrow> int list \<Rightarrow> tod \<Rightarrow> int list \<Rightarrow> (search_error, tod option) result" where
  "first_hour mins secs a [] = Inr None"
| "first_hour mins secs a (h # hs) =
     (if h < t_hour a then first_hour mins secs a hs
      else if t_hour a < h
      then bind_result (index_first mins) (\<lambda>mi.
             bind_result (index_first secs) (\<lambda>s. Inr (Some (Time h mi s))))
      else bind_result (first_minute secs h a mins) (\<lambda>r.
             case r of Some t \<Rightarrow> Inr (Some t) | None \<Rightarrow> first_hour mins secs a hs))"

definition first_time :: "crontab \<Rightarrow> tod option \<Rightarrow> (search_error, tod option) result" where
  "first_time ct at_or_after =
     (case at_or_after of
        None \<Rightarrow>
          bind_result (index_first (hours_sorted ct)) (\<lambda>h.
          bind_result (index_first (minutes_sorted ct)) (\<lambda>mi.
          bind_result (index_first (seconds_sorted ct)) (\<lambda>s. Inr (Some (Time h mi s)))))
      | Some a \<Rightarrow> first_hour (minutes_sorted ct) (seconds_sorted ct) a (hours_sorted ct))"

text \<open>The inner loop of \<open>_next_civil\<close> over the days of one month.\<close>

function next_day ::
  "crontab \<Rightarrow> int \<Rightarrow> int \<Rightarrow> int \<Rightarrow> int \<Rightarrow> tod option \<Rightarrow> (search_error, datetime option) result"
where
  "next_day ct y m month_end d tod =
     (if d \<le> month_end
      then if day_matches ct y m d month_end
           then (case first_time ct tod of
                   Inl e \<Rightarrow> Inl e
                 | Inr (Some t) \<Rightarrow> Inr (Some (DateTime (Date y m d) t 0))
                 | Inr None \<Rightarrow> next_day ct y m month_end (d + 1) None)
           else next_day ct y m month_end (d + 1) None
      else Inr None)"
  by pat_completeness auto
termination
  by (relation "measure (\<lambda>(ct, y, m, month_end, d, tod). nat (month_end + 1 - d))") auto

declare next_day.simps [simp del]

lemma next_in_Some: "next_in xs c = Some v \<Longrightarrow> v \<in> set xs \<and> c < v"
  by (auto simp: next_in_def find_Some_iff)

text \<open>The outer loop of \<open>_next_civil\<close> over years and months.\<close>

definition year_excluded :: "crontab \<Rightarrow> int \<Rightarrow> bool" where
  "year_excluded ct y = (case years_sorted ct of None \<Rightarrow> False | Some ys \<Rightarrow> y \<notin> set ys)"

definition next_year :: "crontab \<Rightarrow> int \<Rightarrow> int option" where
  "next_year ct y = (case years_sorted ct of None \<Rightarrow> None | Some ys \<Rightarrow> next_in ys y)"

lemma next_year_less: "next_year ct y = Some y' \<Longrightarrow> y < y'"
  by (auto simp: next_year_def dest: next_in_Some split: option.splits)

lemma months_sorted_mem: "m \<in> set (months_sorted ct) \<Longrightarrow> m \<in> ct_months ct"
  by (cases "finite (ct_months ct)") (auto simp: months_sorted_def)

lemma next_in_months: "next_in (months_sorted ct) m = Some m' \<Longrightarrow> m' \<in> ct_months ct \<and> m < m'"
  by (auto dest: next_in_Some months_sorted_mem)

function next_month ::
  "crontab \<Rightarrow> int \<Rightarrow> int \<Rightarrow> int \<Rightarrow> tod option \<Rightarrow> (search_error, datetime option) result"
where
  "next_month ct y m d tod =
     (if y \<le> YEAR_HORIZON
      then if year_excluded ct y
           then (case next_year ct y of
                   None \<Rightarrow> Inr None
                 | Some y' \<Rightarrow> next_month ct y' 1 1 None)
           else if m \<notin> ct_months ct
           then (case next_in (months_sorted ct) m of
                   None \<Rightarrow>
                     (case index_first (months_sorted ct) of
                        Inl e \<Rightarrow> Inl e
                      | Inr m0 \<Rightarrow> next_month ct (y + 1) m0 1 None)
                 | Some m' \<Rightarrow> next_month ct y m' 1 None)
           else (case next_day ct y m (days_in_month y m) d tod of
                   Inl e \<Rightarrow> Inl e
                 | Inr (Some r) \<Rightarrow> Inr (Some r)
                 | Inr None \<Rightarrow>
                     (if m + 1 > 12 then next_month ct (y + 1) 1 1 None
                      else next_month ct y (m + 1) 1 None))
      else Inr None)"
  by pat_completeness auto
termination
proof (relation "measures [\<lambda>(ct, y, m, d, tod). nat (YEAR_HORIZON + 1 - y),
    \<lambda>(ct, y, m, d, tod). 2 * nat (13 - m) + (if m \<in> ct_months ct then 0 else 1)]", goal_cases)
  case (2 ct y m d tod y')
  then show ?case using next_year_less by fastforce
next
  case (4 ct y m d tod m')
  then show ?case using next_in_months [of ct m m'] by auto
qed auto

declare next_month.simps [simp del]

definition next_civil :: "crontab \<Rightarrow> datetime \<Rightarrow> (search_error, datetime option) result" where
  "next_civil ct civil =
     (case plus_second civil of
        Inl OverflowError \<Rightarrow> Inl SearchOverflow
      | Inr base \<Rightarrow>
          next_month ct (d_year (dt_date base)) (d_month (dt_date base)) (d_day (dt_date base))
            (Some (dt_time base)))"

subsection \<open>Backward search\<close>

definition prev_in :: "int list \<Rightarrow> int \<Rightarrow> int option" where
  "prev_in ordered current = find (\<lambda>v. v < current) (rev ordered)"

fun last_minute ::
  "int list \<Rightarrow> int \<Rightarrow> tod \<Rightarrow> int list \<Rightarrow> (search_error, tod option) result" where
  "last_minute secs h a [] = Inr None"
| "last_minute secs h a (mi # mis) =
     (if t_minute a < mi then last_minute secs h a mis
      else if mi < t_minute a
      then bind_result (index_last secs) (\<lambda>s. Inr (Some (Time h mi s)))
      else (case find (\<lambda>s. s \<le> t_second a) (rev secs) of
              Some s \<Rightarrow> Inr (Some (Time h mi s))
            | None \<Rightarrow> last_minute secs h a mis))"

fun last_hour ::
  "int list \<Rightarrow> int list \<Rightarrow> tod \<Rightarrow> int list \<Rightarrow> (search_error, tod option) result" where
  "last_hour mins secs a [] = Inr None"
| "last_hour mins secs a (h # hs) =
     (if t_hour a < h then last_hour mins secs a hs
      else if h < t_hour a
      then bind_result (index_last mins) (\<lambda>mi.
             bind_result (index_last secs) (\<lambda>s. Inr (Some (Time h mi s))))
      else bind_result (last_minute secs h a (rev mins)) (\<lambda>r.
             case r of Some t \<Rightarrow> Inr (Some t) | None \<Rightarrow> last_hour mins secs a hs))"

definition last_time :: "crontab \<Rightarrow> tod option \<Rightarrow> (search_error, tod option) result" where
  "last_time ct at_or_before =
     (case at_or_before of
        None \<Rightarrow>
          bind_result (index_last (hours_sorted ct)) (\<lambda>h.
          bind_result (index_last (minutes_sorted ct)) (\<lambda>mi.
          bind_result (index_last (seconds_sorted ct)) (\<lambda>s. Inr (Some (Time h mi s)))))
      | Some a \<Rightarrow> last_hour (minutes_sorted ct) (seconds_sorted ct) a (rev (hours_sorted ct)))"

function prev_day ::
  "crontab \<Rightarrow> int \<Rightarrow> int \<Rightarrow> int \<Rightarrow> int \<Rightarrow> tod option \<Rightarrow> (search_error, datetime option) result"
where
  "prev_day ct y m month_end d tod =
     (if 1 \<le> d
      then if day_matches ct y m d month_end
           then (case last_time ct tod of
                   Inl e \<Rightarrow> Inl e
                 | Inr (Some t) \<Rightarrow> Inr (Some (DateTime (Date y m d) t 0))
                 | Inr None \<Rightarrow> prev_day ct y m month_end (d - 1) None)
           else prev_day ct y m month_end (d - 1) None
      else Inr None)"
  by pat_completeness auto
termination
  by (relation "measure (\<lambda>(ct, y, m, month_end, d, tod). nat d)") auto

declare prev_day.simps [simp del]

definition prev_year :: "crontab \<Rightarrow> int \<Rightarrow> int option" where
  "prev_year ct y = (case years_sorted ct of None \<Rightarrow> None | Some ys \<Rightarrow> prev_in ys y)"

lemma prev_in_Some: "prev_in xs c = Some v \<Longrightarrow> v \<in> set xs \<and> v < c"
  by (auto simp: prev_in_def find_Some_iff rev_nth)

lemma prev_year_less: "prev_year ct y = Some y' \<Longrightarrow> y' < y"
  by (auto simp: prev_year_def dest: prev_in_Some split: option.splits)

lemma prev_in_months: "prev_in (months_sorted ct) m = Some m' \<Longrightarrow> m' \<in> ct_months ct \<and> m' < m"
  by (auto dest: prev_in_Some months_sorted_mem)

function prev_month ::
  "crontab \<Rightarrow> int \<Rightarrow> int \<Rightarrow> int \<Rightarrow> tod option \<Rightarrow> (search_error, datetime option) result"
where
  "prev_month ct y m d tod =
     (if YEAR_FLOOR \<le> y
      then if year_excluded ct y
           then (case prev_year ct y of
                   None \<Rightarrow> Inr None
                 | Some y' \<Rightarrow> prev_month ct y' 12 31 None)
           else if m \<notin> ct_months ct
           then (case prev_in (months_sorted ct) m of
                   None \<Rightarrow>
                     (case index_last (months_sorted ct) of
                        Inl e \<Rightarrow> Inl e
                      | Inr m0 \<Rightarrow> prev_month ct (y - 1) m0 31 None)
                 | Some m' \<Rightarrow> prev_month ct y m' 31 None)
           else (let month_end = days_in_month y m; d' = (if month_end < d then month_end else d)
                 in case prev_day ct y m month_end d' tod of
                      Inl e \<Rightarrow> Inl e
                    | Inr (Some r) \<Rightarrow> Inr (Some r)
                    | Inr None \<Rightarrow>
                        (if m - 1 < 1 then prev_month ct (y - 1) 12 31 None
                         else prev_month ct y (m - 1) 31 None))
      else Inr None)"
  by pat_completeness auto
termination
proof (relation "measures [\<lambda>(ct, y, m, d, tod). nat (y + 1 - YEAR_FLOOR),
    \<lambda>(ct, y, m, d, tod). 2 * nat m + (if m \<in> ct_months ct then 0 else 1)]", goal_cases)
  case (2 ct y m d tod y')
  then show ?case using prev_year_less by fastforce
next
  case (4 ct y m d tod m')
  then show ?case using prev_in_months [of ct m m'] by auto
qed auto

declare prev_month.simps [simp del]

definition prev_civil :: "crontab \<Rightarrow> datetime \<Rightarrow> (search_error, datetime option) result" where
  "prev_civil ct civil =
     (case (if dt_micro civil \<noteq> 0 then Inr (DateTime (dt_date civil) (dt_time civil) 0)
            else minus_second civil) of
        Inl OverflowError \<Rightarrow> Inl SearchOverflow
      | Inr base \<Rightarrow>
          prev_month ct (d_year (dt_date base)) (d_month (dt_date base)) (d_day (dt_date base))
            (Some (dt_time base)))"

subsection \<open>The naive entry points\<close>

text \<open>
  \<open>next\<close> and \<open>prev\<close> for a naive \<open>now\<close>: the elapsed seconds to the neighbouring occurrence.
\<close>

definition next_naive :: "crontab \<Rightarrow> datetime \<Rightarrow> (search_error, real option) result" where
  "next_naive ct now =
     bind_result (next_civil ct now) (\<lambda>r.
       Inr (map_option (\<lambda>target. total_seconds target now) r))"

definition prev_naive :: "crontab \<Rightarrow> datetime \<Rightarrow> (search_error, real option) result" where
  "prev_naive ct now =
     bind_result (prev_civil ct now) (\<lambda>r.
       Inr (map_option (\<lambda>target. total_seconds now target) r))"

text \<open>The first \<open>n\<close> values the generator \<open>occurrences\<close> yields from a naive start.\<close>

fun occurrences_naive :: "nat \<Rightarrow> crontab \<Rightarrow> datetime \<Rightarrow> (search_error, datetime list) result" where
  "occurrences_naive 0 ct civil = Inr []"
| "occurrences_naive (Suc n) ct civil =
     bind_result (next_civil ct civil) (\<lambda>r.
       case r of
         None \<Rightarrow> Inr []
       | Some target \<Rightarrow>
           bind_result (occurrences_naive n ct target) (\<lambda>rest. Inr (target # rest)))"

end
