(* ===== verification/CronNext.thy ===== *)
theory CronNext
  imports CronSearch
begin

text \<open>
  Correctness of the civil searches.  \<open>extremal le P live c r\<close> says that the result \<open>r\<close> of a
  search from the cursor \<open>c\<close> is the nearest candidate in the direction \<open>le\<close>, or that no live
  candidate is left.  Each loop moves its cursor only past instants that do not occur
  (\<open>extremal_skip\<close>), so the property of the final cursor carries back to the first one.
\<close>

definition extremal ::
  "('a \<Rightarrow> 'a \<Rightarrow> bool) \<Rightarrow> ('a \<Rightarrow> bool) \<Rightarrow> ('a \<Rightarrow> bool) \<Rightarrow> 'a \<Rightarrow> 'a option \<Rightarrow> bool" where
  "extremal le P live c r \<longleftrightarrow>
     (case r of
        Some t \<Rightarrow> P t \<and> live t \<and> le c t \<and> (\<forall>t'. P t' \<and> le c t' \<longrightarrow> le t t')
      | None \<Rightarrow> \<forall>t'. P t' \<and> le c t' \<longrightarrow> \<not> live t')"

lemma extremal_None [simp]: "extremal le P live c None \<longleftrightarrow> (\<forall>t'. P t' \<and> le c t' \<longrightarrow> \<not> live t')"
  by (simp add: extremal_def)

lemma extremal_Some [simp]:
  "extremal le P live c (Some t) \<longleftrightarrow> P t \<and> live t \<and> le c t \<and> (\<forall>t'. P t' \<and> le c t' \<longrightarrow> le t t')"
  by (simp add: extremal_def)

text \<open>Both directions of time are orders a search can run along.\<close>

locale search_direction =
  fixes le :: "'a \<Rightarrow> 'a \<Rightarrow> bool"
  assumes le_trans: "le a b \<Longrightarrow> le b c \<Longrightarrow> le a c"
    and le_antisym: "le a b \<Longrightarrow> le b a \<Longrightarrow> a = b"
begin

lemma extremal_skip:
  assumes "extremal le P live c' r" and "le c c'"
    and "\<And>t. P t \<Longrightarrow> le c t \<Longrightarrow> live t \<Longrightarrow> le c' t"
    and "\<And>t t'. P t \<Longrightarrow> le c t \<Longrightarrow> \<not> live t \<Longrightarrow> live t' \<Longrightarrow> le t' t"
  shows "extremal le P live c r"
proof (cases r)
  case None
  with assms(1) have "\<not> live t'" if "P t'" "le c' t'" for t' using that by simp
  with None assms(3) show ?thesis by (simp, blast)
next
  case (Some t)
  then have t: "P t" "live t" "le c' t" "\<And>t'. P t' \<Longrightarrow> le c' t' \<Longrightarrow> le t t'"
    using assms(1) by auto
  have "le t t'" if "P t'" "le c t'" for t'
    using that t assms(3,4) by (cases "live t'") auto
  with t Some assms(2) show ?thesis by (auto intro: le_trans)
qed

lemma extremal_cong_from:
  assumes "extremal le P live c r" and "\<And>t. le c t \<Longrightarrow> P' t \<longleftrightarrow> P t"
  shows "extremal le P' live c r"
  using assms by (cases r) (simp, blast)+

lemma extremal_unique:
  "extremal le P live c (Some a) \<Longrightarrow> extremal le P live c (Some b) \<Longrightarrow> a = b"
  by (auto intro: le_antisym)

end

interpretation forward: search_direction "(\<le>) :: 'a::order \<Rightarrow> 'a \<Rightarrow> bool"
  by unfold_locales auto

interpretation backward: search_direction "\<lambda>a b :: 'a::order. b \<le> a"
  by unfold_locales auto

subsection \<open>Scanning sorted tuples\<close>

lemma index_first_Inr:
  "index_first xs = Inr x \<Longrightarrow> sorted xs \<Longrightarrow> x \<in> set xs \<and> (\<forall>y \<in> set xs. x \<le> y)"
  by (cases xs) (auto simp: index_first_def)

lemma index_last_Inr:
  "index_last xs = Inr x \<Longrightarrow> sorted xs \<Longrightarrow> x \<in> set xs \<and> (\<forall>y \<in> set xs. y \<le> x)"
  by (cases xs rule: rev_cases) (auto simp: index_first_def index_last_def sorted_append)

lemma index_total: "xs \<noteq> [] \<Longrightarrow> \<exists>x. index_first xs = Inr x"
  "xs \<noteq> [] \<Longrightarrow> \<exists>x. index_last xs = Inr x"
  by (cases xs; simp add: index_first_def) (cases xs rule: rev_cases; simp add: index_first_def index_last_def)

lemma find_sorted_least:
  "find Q xs = Some x \<Longrightarrow> sorted xs \<Longrightarrow> x \<in> set xs \<and> Q x \<and> (\<forall>y \<in> set xs. Q y \<longrightarrow> x \<le> y)"
  by (induction xs) (auto split: if_splits)

lemma find_sorted_greatest:
  assumes "find Q (rev xs) = Some x" and "sorted xs"
  shows "x \<in> set xs \<and> Q x \<and> (\<forall>y \<in> set xs. Q y \<longrightarrow> y \<le> x)"
  using assms
proof (induction xs rule: rev_induct)
  case Nil
  then show ?case by simp
next
  case (snoc z xs)
  then show ?case by (auto simp: sorted_append split: if_splits)
qed

lemma find_none: "find Q xs = None \<Longrightarrow> \<forall>y \<in> set xs. \<not> Q y"
  by (auto simp: find_None_iff)

subsection \<open>Times of day\<close>

definition times_of :: "int list \<Rightarrow> int list \<Rightarrow> int list \<Rightarrow> tod \<Rightarrow> bool" where
  "times_of hs mis secs t \<longleftrightarrow> t_hour t \<in> set hs \<and> t_minute t \<in> set mis \<and> t_second t \<in> set secs"

lemma times_of_Time [simp]:
  "times_of hs mis secs (Time h mi s) \<longleftrightarrow> h \<in> set hs \<and> mi \<in> set mis \<and> s \<in> set secs"
  by (simp add: times_of_def)

lemma times_of_Nil [simp]: "\<not> times_of [] mis secs t"
  by (simp add: times_of_def)

lemma times_of_Cons_minute:
  "times_of hs (mi # mis) secs t \<longleftrightarrow>
     times_of hs mis secs t \<or> t_hour t \<in> set hs \<and> t_minute t = mi \<and> t_second t \<in> set secs"
  by (auto simp: times_of_def)

lemma times_of_Cons_hour:
  "times_of (h # hs) mis secs t \<longleftrightarrow>
     times_of hs mis secs t \<or> t_hour t = h \<and> t_minute t \<in> set mis \<and> t_second t \<in> set secs"
  by (auto simp: times_of_def)

lemma tod_le_sel: "a \<le> b \<longleftrightarrow> t_hour a < t_hour b \<or> t_hour a = t_hour b \<and>
    (t_minute a < t_minute b \<or> t_minute a = t_minute b \<and> t_second a \<le> t_second b)" for a b :: tod
  by (cases a; cases b) simp

lemma all_tod: "(\<forall>t. P t) \<longleftrightarrow> (\<forall>h mi s. P (Time h mi s))"
  by (metis tod.exhaust)

lemma first_minute_least:
  assumes "first_minute secs h a mis = Inr r" and "sorted mis" and "sorted secs" and "t_hour a = h"
  shows "extremal (\<le>) (times_of [h] mis secs) (\<lambda>_. True) a r"
  using assms
proof (induction secs h a mis rule: first_minute.induct)
  case (1 secs h a)
  then show ?case by (auto simp: times_of_def)
next
  case (2 secs h a mi mis)
  obtain ah am as where a: "a = Time ah am as" by (cases a)
  have later: "\<forall>x \<in> set mis. mi \<le> x" and sm: "sorted mis" using 2(4) by auto
  consider "mi < am" | "am < mi" | "mi = am" "find (\<lambda>s. as \<le> s) secs = None"
    | s where "mi = am" "find (\<lambda>s. as \<le> s) secs = Some s"
    by (metis not_less_iff_gr_or_eq not_None_eq)
  then show ?case
  proof cases
    case 1
    with 2 a sm have "extremal (\<le>) (times_of [h] mis secs) (\<lambda>_. True) a r" by simp
    then show ?thesis
      by (rule forward.extremal_cong_from)
        (use 1 2(6) a in \<open>auto simp: times_of_Cons_minute tod_le_sel\<close>)
  next
    case c: 2
    with 2(3) a obtain s where s: "index_first secs = Inr s" and r: "r = Some (Time h mi s)"
      by (auto simp: bind_result_Inr)
    show ?thesis
      using index_first_Inr [OF s 2(5)] c later 2(6) a by (auto simp: r all_tod)
  next
    case 3
    with 2(1-3) a sm 2(5,6) have "extremal (\<le>) (times_of [h] mis secs) (\<lambda>_. True) a r" by simp
    then show ?thesis
      by (rule forward.extremal_cong_from)
        (use 3 find_none [OF 3(2)] 2(6) a in \<open>auto simp: times_of_Cons_minute tod_le_sel\<close>)
  next
    case 4
    with 2(3) a have r: "r = Some (Time h mi s)" by simp
    show ?thesis
      using find_sorted_least [OF 4(2) 2(5)] 4(1) later 2(6) a by (auto simp: r all_tod)
  qed
qed

lemma first_hour_least:
  assumes "first_hour mis secs a hs = Inr r" and "sorted hs" and "sorted mis" and "sorted secs"
  shows "extremal (\<le>) (times_of hs mis secs) (\<lambda>_. True) a r"
  using assms
proof (induction mis secs a hs rule: first_hour.induct)
  case (1 mis secs a)
  then show ?case by (auto simp: times_of_def)
next
  case (2 mis secs a h hs)
  have later: "\<forall>x \<in> set hs. h \<le> x" and sh: "sorted hs" using 2(4) by auto
  consider "h < t_hour a" | "t_hour a < h" | "h = t_hour a" by linarith
  then show ?case
  proof cases
    case 1
    with 2 sh have "extremal (\<le>) (times_of hs mis secs) (\<lambda>_. True) a r" by simp
    then show ?thesis
      by (rule forward.extremal_cong_from)
        (use 1 in \<open>auto simp: times_of_Cons_hour times_of_def tod_le_sel\<close>)
  next
    case c: 2
    with 2(3) obtain mi s where mi: "index_first mis = Inr mi" and s: "index_first secs = Inr s"
      and r: "r = Some (Time h mi s)"
      by (auto simp: bind_result_Inr)
    show ?thesis
      using index_first_Inr [OF mi 2(5)] index_first_Inr [OF s 2(6)] c later
      by (auto simp: r tod_le_sel times_of_def less_le)
  next
    case c: 3
    with 2(3) obtain r' where r': "first_minute secs h a mis = Inr r'"
      and rr: "(case r' of None \<Rightarrow> first_hour mis secs a hs | Some t \<Rightarrow> Inr (Some t)) = Inr r"
      by (auto simp: bind_result_Inr)
    have m: "extremal (\<le>) (times_of [h] mis secs) (\<lambda>_. True) a r'"
      using first_minute_least [OF r' 2(5,6)] c by simp
    show ?thesis
    proof (cases r')
      case None
      with rr have "first_hour mis secs a hs = Inr r" by simp
      then have "extremal (\<le>) (times_of hs mis secs) (\<lambda>_. True) a r"
        using 2(2) c sh 2(5,6) by auto
      then show ?thesis
        by (rule forward.extremal_cong_from)
          (use m None in \<open>auto simp: times_of_Cons_hour\<close>)
    next
      case (Some t)
      with rr have r: "r = Some t" by simp
      from m Some have t: "times_of [h] mis secs t" "a \<le> t"
        and least: "\<And>t'. times_of [h] mis secs t' \<Longrightarrow> a \<le> t' \<Longrightarrow> t \<le> t'" by auto
      have "t \<le> t'" if "times_of hs mis secs t'" "a \<le> t'" for t'
        using that later least [of t'] t(1) by (auto simp: times_of_def tod_le_sel less_le)
      with t least show ?thesis
        by (auto simp: r times_of_Cons_hour)
    qed
  qed
qed

definition cron_time :: "crontab \<Rightarrow> tod \<Rightarrow> bool" where
  "cron_time ct t \<longleftrightarrow>
     t_hour t \<in> ct_hours ct \<and> t_minute t \<in> ct_minutes ct \<and> t_second t \<in> ct_seconds ct"

definition after_tod :: "tod option \<Rightarrow> tod" where
  "after_tod tod = (case tod of None \<Rightarrow> Time 0 0 0 | Some a \<Rightarrow> a)"

lemma wf_sorted:
  assumes "wf_crontab ct"
  shows "set (hours_sorted ct) = ct_hours ct" "set (minutes_sorted ct) = ct_minutes ct"
    "set (seconds_sorted ct) = ct_seconds ct" "set (months_sorted ct) = ct_months ct"
    "hours_sorted ct \<noteq> []" "minutes_sorted ct \<noteq> []" "seconds_sorted ct \<noteq> []"
    "months_sorted ct \<noteq> []"
  using assms
  by (auto simp: wf_crontab_def field_in_def hours_sorted_def minutes_sorted_def
      seconds_sorted_def months_sorted_def)

lemma sorted_fields [simp]:
  "sorted (hours_sorted ct)" "sorted (minutes_sorted ct)" "sorted (seconds_sorted ct)"
  "sorted (months_sorted ct)"
  by (simp_all add: hours_sorted_def minutes_sorted_def seconds_sorted_def months_sorted_def)

lemma cron_time_times_of:
  "wf_crontab ct \<Longrightarrow>
     cron_time ct = times_of (hours_sorted ct) (minutes_sorted ct) (seconds_sorted ct)"
  by (auto simp: fun_eq_iff cron_time_def times_of_def wf_sorted)

lemma cron_time_valid: "wf_crontab ct \<Longrightarrow> cron_time ct t \<Longrightarrow> valid_tod t"
  by (auto simp: wf_crontab_def field_in_def cron_time_def valid_tod_def)

lemma first_time_least:
  assumes "first_time ct tod = Inr r" and "wf_crontab ct"
  shows "extremal (\<le>) (cron_time ct) (\<lambda>_. True) (after_tod tod) r"
proof (cases tod)
  case (Some a)
  with assms show ?thesis
    using first_hour_least [of "minutes_sorted ct" "seconds_sorted ct" a "hours_sorted ct" r]
    by (simp add: first_time_def after_tod_def cron_time_times_of)
next
  case None
  with assms(1) obtain h mi s where h: "index_first (hours_sorted ct) = Inr h"
    and mi: "index_first (minutes_sorted ct) = Inr mi"
    and s: "index_first (seconds_sorted ct) = Inr s" and r: "r = Some (Time h mi s)"
    by (auto simp: first_time_def bind_result_Inr)
  have f: "cron_time ct (Time h mi s)" "\<And>t. cron_time ct t \<Longrightarrow> Time h mi s \<le> t"
    using index_first_Inr [OF h] index_first_Inr [OF mi] index_first_Inr [OF s]
      cron_time_times_of [OF assms(2)]
    by (auto simp: times_of_def tod_le_sel less_le)
  have "Time 0 0 0 \<le> Time h mi s"
    using cron_time_valid [OF assms(2) f(1)] by (auto simp: valid_tod_def)
  with f show ?thesis by (simp add: r None after_tod_def)
qed

lemma first_minute_total: "secs \<noteq> [] \<Longrightarrow> \<exists>r. first_minute secs h a mis = Inr r"
  by (induction secs h a mis rule: first_minute.induct)
    (auto simp: index_first_def split: option.splits list.splits)

lemma first_hour_total:
  "secs \<noteq> [] \<Longrightarrow> mis \<noteq> [] \<Longrightarrow> \<exists>r. first_hour mis secs a hs = Inr r"
proof (induction mis secs a hs rule: first_hour.induct)
  case (2 mis secs a h hs)
  obtain r where "first_minute secs h a mis = Inr r"
    using first_minute_total [OF 2(3)] by blast
  with 2 show ?case
    by (cases r) (auto simp: index_first_def split: list.splits)
qed simp

lemma first_time_total: "wf_crontab ct \<Longrightarrow> \<exists>r. first_time ct tod = Inr r"
  using first_hour_total [OF wf_sorted(7,6)] wf_sorted(5,6,7)
  by (auto simp: first_time_def index_first_def split: option.splits list.splits)

subsection \<open>Days, months and years\<close>

text \<open>A whole-second civil instant the schedule matches.\<close>

definition occurs :: "crontab \<Rightarrow> datetime \<Rightarrow> bool" where
  "occurs ct x \<longleftrightarrow> valid_datetime x \<and> dt_micro x = 0 \<and> test ct x"

definition within_horizon :: "datetime \<Rightarrow> bool" where
  "within_horizon x \<longleftrightarrow> d_year (dt_date x) \<le> YEAR_HORIZON"

definition cursor :: "int \<Rightarrow> int \<Rightarrow> int \<Rightarrow> tod option \<Rightarrow> datetime" where
  "cursor y m d tod = DateTime (Date y m d) (after_tod tod) 0"

definition year_ok :: "crontab \<Rightarrow> int \<Rightarrow> bool" where
  "year_ok ct y \<longleftrightarrow> (case ct_years ct of None \<Rightarrow> True | Some ys \<Rightarrow> y \<in> ys)"

lemma year_excluded_iff: "wf_crontab ct \<Longrightarrow> year_excluded ct y \<longleftrightarrow> \<not> year_ok ct y"
  by (auto simp: year_excluded_def year_ok_def years_sorted_def wf_crontab_def field_in_def
      split: option.splits)

lemma occurs_iff:
  "occurs ct (DateTime (Date y m d) t u) \<longleftrightarrow>
     valid_date (Date y m d) \<and> valid_tod t \<and> u = 0 \<and> year_ok ct y \<and> m \<in> ct_months ct \<and>
     day_matches ct y m d (days_in_month y m) \<and> cron_time ct t"
  by (auto simp: occurs_def valid_datetime_def test_def cron_time_def year_ok_def Let_def)

lemma occursE:
  assumes "occurs ct x"
  obtains y m d t where "x = DateTime (Date y m d) t 0" "valid_date (Date y m d)" "valid_tod t"
    "year_ok ct y" "m \<in> ct_months ct" "day_matches ct y m d (days_in_month y m)" "cron_time ct t"
proof -
  obtain y m d t u where x: "x = DateTime (Date y m d) t u"
    by (metis date.exhaust datetime.exhaust)
  with assms that [of y m d t] show thesis by (auto simp: occurs_iff)
qed

lemma midnight_le: "valid_tod t \<Longrightarrow> Time 0 0 0 \<le> t"
  by (auto simp: valid_tod_def tod_le_sel)

lemma cursor_None_le:
  "valid_tod t \<Longrightarrow> cursor y m d None \<le> DateTime (Date y' m' d') t 0 \<longleftrightarrow> Date y m d \<le> Date y' m' d'"
  using midnight_le [of t] by (auto simp: cursor_def after_tod_def)

lemma cursor_le_date: "cursor y m d tod \<le> DateTime e t u \<Longrightarrow> Date y m d \<le> e"
  by (cases e) (auto simp: cursor_def)

text \<open>The instants of one month, and the part of it the day loop still has ahead.\<close>

definition occurs_in_month :: "crontab \<Rightarrow> int \<Rightarrow> int \<Rightarrow> datetime \<Rightarrow> bool" where
  "occurs_in_month ct y m x \<longleftrightarrow> occurs ct x \<and> d_year (dt_date x) = y \<and> d_month (dt_date x) = m"

lemma next_day_least:
  assumes "next_day ct y m (days_in_month y m) d tod = Inr r" and "wf_crontab ct"
    and "year_ok ct y" and "m \<in> ct_months ct" and "1 \<le> y" and "y \<le> 9999" and "1 \<le> d"
    and "valid_tod (after_tod tod)"
  shows "extremal (\<le>) (occurs_in_month ct y m) (\<lambda>_. True) (cursor y m d tod) r"
  using assms(1,7,8)
proof (induction "nat (days_in_month y m + 1 - d)" arbitrary: d tod rule: less_induct)
  case (less d tod)
  note unfold = next_day.simps [of ct y m "days_in_month y m" d tod]
  have IH: "extremal (\<le>) (occurs_in_month ct y m) (\<lambda>_. True) (cursor y m (d + 1) None) r"
    if "d \<le> days_in_month y m" "next_day ct y m (days_in_month y m) (d + 1) None = Inr r"
    by (rule less.hyps) (use that less.prems in \<open>auto simp: after_tod_def valid_tod_def\<close>)
  have m: "1 \<le> m" "m \<le> 12" using assms(2,4) by (auto simp: wf_crontab_def field_in_def)
  have skip: ?case
    if rec: "extremal (\<le>) (occurs_in_month ct y m) (\<lambda>_. True) (cursor y m (d + 1) None) r"
      and none: "\<And>t. occurs ct (DateTime (Date y m d) t 0) \<Longrightarrow> after_tod tod \<le> t \<Longrightarrow> False"
  proof (rule forward.extremal_skip [OF rec])
    show "cursor y m d tod \<le> cursor y m (d + 1) None" by (simp add: cursor_def)
    show "cursor y m (d + 1) None \<le> x" if occ: "occurs_in_month ct y m x" "cursor y m d tod \<le> x" for x
    proof -
      obtain d' t where x: "x = DateTime (Date y m d') t 0" and t: "valid_tod t"
        using occ(1) by (auto simp: occurs_in_month_def elim!: occursE)
      have "d' \<noteq> d" using none [of t] occ by (auto simp: x occurs_in_month_def cursor_def order_less_imp_le)
      with occ(2) have "Date y m (d + 1) \<le> Date y m d'" by (auto simp: x cursor_def)
      with t show ?thesis by (simp add: x cursor_None_le)
    qed
  qed simp
  show ?case
  proof (cases "d \<le> days_in_month y m")
    case False
    with less.prems have "r = None" by (simp add: unfold)
    with False show ?thesis
      by (auto simp: occurs_in_month_def valid_date_def cursor_def elim!: occursE)
  next
    case le: True
    show ?thesis
    proof (cases "day_matches ct y m d (days_in_month y m)")
      case False
      with le less.prems(1) have "next_day ct y m (days_in_month y m) (d + 1) None = Inr r"
        by (simp add: unfold)
      then show ?thesis by (intro skip IH le) (use False in \<open>auto simp: occurs_iff\<close>)
    next
      case dm: True
      obtain r' where r': "first_time ct tod = Inr r'"
        using first_time_total [OF assms(2)] by blast
      note ft = first_time_least [OF r' assms(2)]
      show ?thesis
      proof (cases r')
        case None
        with le dm less.prems(1) r' have "next_day ct y m (days_in_month y m) (d + 1) None = Inr r"
          by (simp add: unfold)
        then show ?thesis by (intro skip IH le) (use ft None in \<open>auto simp: occurs_iff\<close>)
      next
        case (Some t)
        with le dm less.prems(1) r' have r: "r = Some (DateTime (Date y m d) t 0)"
          by (simp add: unfold)
        have "cron_time ct t" "after_tod tod \<le> t" using ft Some by auto
        moreover have "valid_tod t" using cron_time_valid [OF assms(2)] calculation by blast
        moreover have "DateTime (Date y m d) t 0 \<le> x"
          if "occurs_in_month ct y m x" "cursor y m d tod \<le> x" for x
          using that ft Some by (auto simp: occurs_in_month_def cursor_def less_le elim!: occursE)
        ultimately show ?thesis
          using le dm assms(3-6) less.prems(2) m
          by (auto simp: r occurs_in_month_def occurs_iff valid_date_def cursor_def)
      qed
    qed
  qed
qed

lemma next_day_total: "wf_crontab ct \<Longrightarrow> \<exists>r. next_day ct y m e d tod = Inr r"
proof (induction "nat (e + 1 - d)" arbitrary: d tod rule: less_induct)
  case (less d tod)
  then have "\<exists>r. next_day ct y m e (d + 1) None = Inr r" if "d \<le> e" using that by simp
  with less.prems first_time_total [of ct tod] show ?case
    by (auto simp: next_day.simps [of ct y m e d tod] split: option.splits)
qed

lemma next_in_least:
  assumes "sorted xs"
  shows "next_in xs c = Some v \<Longrightarrow> v \<in> set xs \<and> c < v \<and> (\<forall>x \<in> set xs. c < x \<longrightarrow> v \<le> x)"
    and "next_in xs c = None \<Longrightarrow> \<forall>x \<in> set xs. x \<le> c"
  using find_sorted_least [of "\<lambda>v. c < v" xs v] assms find_none [of "\<lambda>v. c < v" xs]
  by (auto simp: next_in_def not_less)

lemma next_year_least:
  assumes "wf_crontab ct" and "year_excluded ct y"
  shows "next_year ct y = Some y' \<Longrightarrow>
      year_ok ct y' \<and> y' \<le> YEAR_HORIZON \<and> 1 \<le> y' \<and> y < y' \<and> (\<forall>z. year_ok ct z \<and> y < z \<longrightarrow> y' \<le> z)"
    and "next_year ct y = None \<Longrightarrow> \<forall>z. year_ok ct z \<longrightarrow> z < y"
proof -
  obtain ys where ys: "ct_years ct = Some ys" and f: "field_in 1970 2099 ys" and y: "y \<notin> ys"
    using assms
    by (auto simp: year_excluded_def years_sorted_def wf_crontab_def field_in_def
        split: option.splits)
  then have s: "years_sorted ct = Some (sorted_list_of_set ys)" "set (sorted_list_of_set ys) = ys"
    by (auto simp: years_sorted_def field_in_def)
  show "next_year ct y = Some y' \<Longrightarrow>
      year_ok ct y' \<and> y' \<le> YEAR_HORIZON \<and> 1 \<le> y' \<and> y < y' \<and> (\<forall>z. year_ok ct z \<and> y < z \<longrightarrow> y' \<le> z)"
    using next_in_least(1) [of "sorted_list_of_set ys" y y'] s f
    by (auto simp: next_year_def year_ok_def ys field_in_def YEAR_HORIZON_def)
  show "next_year ct y = None \<Longrightarrow> \<forall>z. year_ok ct z \<longrightarrow> z < y"
    using next_in_least(2) [of "sorted_list_of_set ys" y] s y
    by (auto simp: next_year_def year_ok_def ys less_le)
qed

lemma horizon_later:
  "\<not> within_horizon a \<Longrightarrow> within_horizon b \<Longrightarrow> b \<le> a"
  by (cases a; cases b; cases "dt_date a"; cases "dt_date b")
    (auto simp: within_horizon_def less_eq_datetime_def datetime_key_def)

lemma next_month_skip:
  assumes "extremal (\<le>) (occurs ct) within_horizon (cursor y' m' 1 None) r"
    and "Date y m d < Date y' m' 1"
    and "\<And>y1 m1 d1 t. occurs ct (DateTime (Date y1 m1 d1) t 0) \<Longrightarrow> cursor y m d tod \<le> DateTime (Date y1 m1 d1) t 0
      \<Longrightarrow> 1 \<le> d1 \<Longrightarrow> 1 \<le> m1 \<Longrightarrow> y1 \<le> YEAR_HORIZON \<Longrightarrow> Date y' m' 1 \<le> Date y1 m1 d1"
  shows "extremal (\<le>) (occurs ct) within_horizon (cursor y m d tod) r"
proof (rule forward.extremal_skip [OF assms(1)])
  show "cursor y m d tod \<le> cursor y' m' 1 None" using assms(2) by (simp add: cursor_def)
  show "cursor y' m' 1 None \<le> x"
    if occ: "occurs ct x" and le: "cursor y m d tod \<le> x" and live: "within_horizon x" for x
    using occ
  proof (cases rule: occursE)
    case (1 y1 m1 d1 t)
    then have "Date y' m' 1 \<le> Date y1 m1 d1"
      using assms(3) [of y1 m1 d1 t] occ le live by (auto simp: valid_date_def within_horizon_def)
    with 1 show ?thesis by (simp add: cursor_None_le)
  qed
qed (auto intro: horizon_later)

lemma next_month_least:
  assumes "next_month ct y m d tod = Inr r" and "wf_crontab ct"
    and "1 \<le> y" and "1 \<le> m" and "m \<le> 12" and "1 \<le> d" and "valid_tod (after_tod tod)"
  shows "extremal (\<le>) (occurs ct) within_horizon (cursor y m d tod) r"
  using assms
proof (induction ct y m d tod rule: next_month.induct)
  case (1 ct y m d tod)
  note wf = \<open>wf_crontab ct\<close> and unfold = next_month.simps [of ct y m d tod]
  have v0: "valid_tod (after_tod None)" by (simp add: after_tod_def valid_tod_def)
  have mrange: "1 \<le> z \<and> z \<le> 12" if "z \<in> ct_months ct" for z
    using wf that by (auto simp: wf_crontab_def field_in_def)
  show ?case
  proof (cases "y \<le> YEAR_HORIZON")
    case False
    with "1.prems"(1) have "r = None" by (simp add: unfold)
    with False show ?thesis
      by (auto simp: within_horizon_def elim!: occursE dest!: cursor_le_date)
  next
    case hor: True
    consider (year) "year_excluded ct y"
      | (month) "\<not> year_excluded ct y" "m \<notin> ct_months ct"
      | (day) "\<not> year_excluded ct y" "m \<in> ct_months ct" by blast
    then show ?thesis
    proof cases
      case year
      show ?thesis
      proof (cases "next_year ct y")
        case None
        with "1.prems"(1) hor year have "r = None" by (simp add: unfold)
        with next_year_least(2) [OF wf year None] show ?thesis
          by (auto elim!: occursE dest!: cursor_le_date)
      next
        case (Some y')
        note ny = next_year_least(1) [OF wf year Some]
        with Some "1.prems"(1) hor year have "next_month ct y' 1 1 None = Inr r" by (simp add: unfold)
        then have "extremal (\<le>) (occurs ct) within_horizon (cursor y' 1 1 None) r"
          using "1.IH"(1) [OF hor year Some] wf ny v0 by simp
        then show ?thesis
          by (rule next_month_skip)
            (use ny year wf in \<open>auto simp: occurs_iff year_excluded_iff less_le dest!: cursor_le_date\<close>)
      qed
    next
      case month
      show ?thesis
      proof (cases "next_in (months_sorted ct) m")
        case None
        obtain m0 where m0: "index_first (months_sorted ct) = Inr m0"
          using index_total(1) [OF wf_sorted(8) [OF wf]] by blast
        with None "1.prems"(1) hor month have "next_month ct (y + 1) m0 1 None = Inr r"
          by (simp add: unfold)
        moreover have least: "m0 \<in> ct_months ct" "\<And>z. z \<in> ct_months ct \<Longrightarrow> m0 \<le> z"
          using index_first_Inr [OF m0] wf_sorted(4) [OF wf] by auto
        ultimately have "extremal (\<le>) (occurs ct) within_horizon (cursor (y + 1) m0 1 None) r"
          using "1.IH"(2) [OF hor month None m0] wf "1.prems"(3) v0 mrange by simp
        moreover have "z \<notin> ct_months ct" if "m \<le> z" for z
          using next_in_least(2) [OF sorted_fields(4) None] wf_sorted(4) [OF wf] month that by force
        ultimately show ?thesis
          by (elim next_month_skip) (use least in \<open>auto simp: occurs_iff less_le dest!: cursor_le_date\<close>)
      next
        case (Some m')
        note nm = next_in_least(1) [OF sorted_fields(4) Some, unfolded wf_sorted(4) [OF wf]]
        with Some "1.prems"(1) hor month have "next_month ct y m' 1 None = Inr r" by (simp add: unfold)
        then have "extremal (\<le>) (occurs ct) within_horizon (cursor y m' 1 None) r"
          using "1.IH"(3) [OF hor month Some] wf "1.prems"(3) v0 mrange nm by simp
        then show ?thesis
          by (rule next_month_skip)
            (use nm month in \<open>auto simp: occurs_iff less_le dest!: cursor_le_date\<close>)
      qed
    next
      case day
      obtain r' where r': "next_day ct y m (days_in_month y m) d tod = Inr r'"
        using next_day_total [OF wf] by blast
      have nd: "extremal (\<le>) (occurs_in_month ct y m) (\<lambda>_. True) (cursor y m d tod) r'"
        using next_day_least [OF r' wf] day hor wf "1.prems"
        by (simp add: year_excluded_iff YEAR_HORIZON_def)
      show ?thesis
      proof (cases r')
        case None
        have none: "\<not> occurs ct (DateTime (Date y m d1) t 0)"
          if "cursor y m d tod \<le> DateTime (Date y m d1) t 0" for d1 t
          using nd None that by (auto simp: occurs_in_month_def)
        have other: "y < y1 \<or> y = y1 \<and> m < m1" and months: "m1 \<in> ct_months ct"
          if "occurs ct (DateTime (Date y1 m1 d1) t 0)"
            "cursor y m d tod \<le> DateTime (Date y1 m1 d1) t 0" for y1 m1 d1 t
          using none [of d1 t] cursor_le_date [OF that(2)] that by (auto simp: occurs_iff)
        show ?thesis
        proof (cases "m + 1 > 12")
          case True
          with None r' "1.prems"(1) hor day have "next_month ct (y + 1) 1 1 None = Inr r"
            by (simp add: unfold)
          then have "extremal (\<le>) (occurs ct) within_horizon (cursor (y + 1) 1 1 None) r"
            using "1.IH"(4) [OF hor _ _ r' None True] day wf "1.prems"(3) v0 by simp
          then show ?thesis
          proof (rule next_month_skip)
            fix y1 m1 d1 t
            assume o: "occurs ct (DateTime (Date y1 m1 d1) t 0)"
              "cursor y m d tod \<le> DateTime (Date y1 m1 d1) t 0" and "1 \<le> d1" "1 \<le> m1"
            moreover have "y < y1" using other [OF o] mrange [OF months [OF o]] True by linarith
            ultimately show "Date (y + 1) 1 1 \<le> Date y1 m1 d1" by auto
          qed simp
        next
          case False
          with None r' "1.prems"(1) hor day have "next_month ct y (m + 1) 1 None = Inr r"
            by (simp add: unfold)
          then have "extremal (\<le>) (occurs ct) within_horizon (cursor y (m + 1) 1 None) r"
            using "1.IH"(5) [OF hor _ _ r' None False] day wf "1.prems"(3,4) v0 False by simp
          then show ?thesis
            by (rule next_month_skip) (auto dest: other)
        qed
      next
        case (Some x)
        with r' "1.prems"(1) hor day have r: "r = Some x" by (simp add: unfold)
        have x: "occurs ct x" "d_year (dt_date x) = y" "d_month (dt_date x) = m" "cursor y m d tod \<le> x"
          and least: "\<And>z. occurs_in_month ct y m z \<Longrightarrow> cursor y m d tod \<le> z \<Longrightarrow> x \<le> z"
          using nd Some by (auto simp: occurs_in_month_def)
        have "x \<le> z" if z: "occurs ct z" "cursor y m d tod \<le> z" for z
        proof (cases "occurs_in_month ct y m z")
          case True
          with least z show ?thesis by blast
        next
          case False
          with z x(1-3) show ?thesis
            by (auto simp: occurs_in_month_def elim!: occursE dest!: cursor_le_date)
        qed
        with x hor show ?thesis by (simp add: r within_horizon_def)
      qed
    qed
  qed
qed

lemma next_month_total: "wf_crontab ct \<Longrightarrow> \<exists>r. next_month ct y m d tod = Inr r"
proof (induction ct y m d tod rule: next_month.induct)
  case (1 ct y m d tod)
  note wf = "1.prems" and unfold = next_month.simps [of ct y m d tod]
  obtain m0 where "index_first (months_sorted ct) = Inr m0"
    using index_total(1) [OF wf_sorted(8) [OF wf]] by blast
  moreover obtain r' where "next_day ct y m (days_in_month y m) d tod = Inr r'"
    using next_day_total [OF wf] by blast
  ultimately show ?case
    using 1 by (auto simp: unfold split: option.splits)
qed

subsection \<open>Whole seconds\<close>

lemma valid_next_date:
  "valid_date d \<Longrightarrow> d \<noteq> Date 9999 12 31 \<Longrightarrow> valid_date (next_date d)"
  by (cases d) (auto simp: valid_date_def next_date_def days_in_month_def)

lemma next_date_least:
  assumes "valid_date d" and "valid_date e" and "d < e"
  shows "next_date d \<le> e"
  using assms by (cases d; cases e) (auto simp: valid_date_def next_date_def)

lemma next_date_greater: "d < next_date d"
  by (cases d) (auto simp: next_date_def)

lemma plus_second_least:
  assumes "plus_second x = Inr b" and "valid_datetime x"
  shows "valid_datetime b" and "x < b" and "dt_micro b = 0"
    and "valid_datetime z \<Longrightarrow> dt_micro z = 0 \<Longrightarrow> x < z \<longleftrightarrow> b \<le> z"
proof -
  obtain d h mi s u where x: "x = DateTime d (Time h mi s) u"
    by (metis datetime.exhaust tod.exhaust)
  have vx: "valid_date d" "0 \<le> h" "h \<le> 23" "0 \<le> mi" "mi \<le> 59" "0 \<le> s" "s \<le> 59" "0 \<le> u" "u < 1000000"
    using assms(2) by (auto simp: x valid_datetime_def valid_tod_def)
  note next_date = valid_next_date [OF vx(1)] next_date_greater [of d]
  show vb: "valid_datetime b" and gt: "x < b" and b0: "dt_micro b = 0"
    using assms(1) vx next_date
    by (auto simp: x plus_second_def Let_def valid_datetime_def valid_tod_def split: if_splits)
  show "x < z \<longleftrightarrow> b \<le> z" if z0: "valid_datetime z" "dt_micro z = 0"
  proof
    assume "x < z"
    moreover obtain e h' mi' s' where z: "z = DateTime e (Time h' mi' s') 0"
      using z0 by (metis datetime.exhaust datetime.sel(3) tod.exhaust)
    moreover have "valid_date e" "0 \<le> h'" "h' \<le> 23" "0 \<le> mi'" "mi' \<le> 59" "0 \<le> s'" "s' \<le> 59"
      using z0 by (auto simp: z valid_datetime_def valid_tod_def)
    ultimately show "b \<le> z"
      using assms(1) vx next_date_least [OF vx(1), of e]
      by (auto simp: x plus_second_def Let_def less_le split: if_splits)
  next
    assume "b \<le> z"
    with gt show "x < z" by simp
  qed
qed

subsection \<open>The next civil occurrence\<close>

lemma next_civil_cases:
  assumes "next_civil ct civil = Inr r" and "wf_crontab ct" and "valid_datetime civil"
  shows "r = Some t \<Longrightarrow> occurs ct t \<and> civil < t \<and> within_horizon t \<and>
      (\<forall>t'. occurs ct t' \<and> civil < t' \<longrightarrow> t \<le> t')"
    and "r = None \<Longrightarrow> occurs ct t' \<Longrightarrow> civil < t' \<Longrightarrow> \<not> within_horizon t'"
proof -
  obtain base where b: "plus_second civil = Inr base"
    and nm: "next_month ct (d_year (dt_date base)) (d_month (dt_date base)) (d_day (dt_date base))
      (Some (dt_time base)) = Inr r"
    using assms(1)
    by (auto simp: next_civil_def split: sum.splits datetime_error.splits)
  note ps = plus_second_least [OF b assms(3)]
  have c: "cursor (d_year (dt_date base)) (d_month (dt_date base)) (d_day (dt_date base))
      (Some (dt_time base)) = base"
    using ps(3) by (cases base; cases "dt_date base") (auto simp: cursor_def after_tod_def)
  have ext: "extremal (\<le>) (occurs ct) within_horizon base r"
    using next_month_least [OF nm assms(2)] ps(1)
    by (auto simp: c valid_datetime_def valid_date_def after_tod_def)
  have after: "civil < z \<longleftrightarrow> base \<le> z" if "occurs ct z" for z
    using ps(4) that by (simp add: occurs_def)
  show "r = Some t \<Longrightarrow> occurs ct t \<and> civil < t \<and> within_horizon t \<and>
      (\<forall>t'. occurs ct t' \<and> civil < t' \<longrightarrow> t \<le> t')"
    using ext after by auto
  show "r = None \<Longrightarrow> occurs ct t' \<Longrightarrow> civil < t' \<Longrightarrow> \<not> within_horizon t'"
    using ext after by auto
qed

lemma next_civil_total:
  assumes "wf_crontab ct" and "d_year (dt_date civil) < 9999"
  shows "\<exists>r. next_civil ct civil = Inr r"
proof -
  obtain b where "plus_second civil = Inr b"
    using assms(2) by (cases "plus_second civil") (auto simp: plus_second_def Let_def split: if_splits)
  with next_month_total [OF assms(1)] show ?thesis by (simp add: next_civil_def)
qed

end
