(* ===== verification/CronPrev.thy ===== *)
theory CronPrev
  imports CronNext
begin

text \<open>
  Correctness of the backward civil search \<open>_prev_civil\<close>, the mirror of theory \<open>CronNext\<close>:
  it returns the greatest occurrence strictly before an instant, down to the year floor.
\<close>

subsection \<open>Times of day\<close>

lemma last_minute_greatest:
  assumes "last_minute secs h a mis = Inr r" and "sorted (rev mis)" and "sorted secs"
    and "t_hour a = h"
  shows "extremal (\<ge>) (times_of [h] mis secs) (\<lambda>_. True) a r"
  using assms
proof (induction secs h a mis rule: last_minute.induct)
  case (1 secs h a)
  then show ?case by (auto simp: times_of_def)
next
  case (2 secs h a mi mis)
  obtain ah am as where a: "a = Time ah am as" by (cases a)
  have later: "\<forall>x \<in> set mis. x \<le> mi" and sm: "sorted (rev mis)"
    using 2(4) by (auto simp: sorted_append)
  consider "am < mi" | "mi < am" | "mi = am" "find (\<lambda>s. s \<le> as) (rev secs) = None"
    | s where "mi = am" "find (\<lambda>s. s \<le> as) (rev secs) = Some s"
    by (metis not_less_iff_gr_or_eq not_None_eq)
  then show ?case
  proof cases
    case 1
    with 2 a sm have "extremal (\<ge>) (times_of [h] mis secs) (\<lambda>_. True) a r" by simp
    then show ?thesis
      by (rule backward.extremal_cong_from)
        (use 1 2(6) a in \<open>auto simp: times_of_Cons_minute tod_le_sel\<close>)
  next
    case c: 2
    with 2(3) a obtain s where s: "index_last secs = Inr s" and r: "r = Some (Time h mi s)"
      by (auto simp: bind_result_Inr)
    show ?thesis
      using index_last_Inr [OF s 2(5)] c later 2(6) a by (auto simp: r all_tod)
  next
    case 3
    with 2(1-3) a sm 2(5,6) have "extremal (\<ge>) (times_of [h] mis secs) (\<lambda>_. True) a r" by simp
    then show ?thesis
      by (rule backward.extremal_cong_from)
        (use 3 find_none [OF 3(2)] 2(6) a in \<open>auto simp: times_of_Cons_minute tod_le_sel\<close>)
  next
    case 4
    with 2(3) a have r: "r = Some (Time h mi s)" by simp
    show ?thesis
      using find_sorted_greatest [OF 4(2) 2(5)] 4(1) later 2(6) a by (auto simp: r all_tod)
  qed
qed

lemma last_hour_greatest:
  assumes "last_hour mis secs a hs = Inr r" and "sorted (rev hs)" and "sorted mis" and "sorted secs"
  shows "extremal (\<ge>) (times_of hs mis secs) (\<lambda>_. True) a r"
  using assms
proof (induction mis secs a hs rule: last_hour.induct)
  case (1 mis secs a)
  then show ?case by (auto simp: times_of_def)
next
  case (2 mis secs a h hs)
  have later: "\<forall>x \<in> set hs. x \<le> h" and sh: "sorted (rev hs)"
    using 2(4) by (auto simp: sorted_append)
  consider "t_hour a < h" | "h < t_hour a" | "h = t_hour a" by linarith
  then show ?case
  proof cases
    case 1
    with 2 sh have "extremal (\<ge>) (times_of hs mis secs) (\<lambda>_. True) a r" by simp
    then show ?thesis
      by (rule backward.extremal_cong_from)
        (use 1 in \<open>auto simp: times_of_Cons_hour times_of_def tod_le_sel\<close>)
  next
    case c: 2
    with 2(3) obtain mi s where mi: "index_last mis = Inr mi" and s: "index_last secs = Inr s"
      and r: "r = Some (Time h mi s)"
      by (auto simp: bind_result_Inr)
    show ?thesis
      using index_last_Inr [OF mi 2(5)] index_last_Inr [OF s 2(6)] c later
      by (auto simp: r tod_le_sel times_of_def less_le)
  next
    case c: 3
    with 2(3) obtain r' where r': "last_minute secs h a (rev mis) = Inr r'"
      and rr: "(case r' of None \<Rightarrow> last_hour mis secs a hs | Some t \<Rightarrow> Inr (Some t)) = Inr r"
      by (auto simp: bind_result_Inr)
    have m: "extremal (\<ge>) (times_of [h] (rev mis) secs) (\<lambda>_. True) a r'"
      using last_minute_greatest [OF r'] 2(5,6) c by simp
    show ?thesis
    proof (cases r')
      case None
      with rr have "last_hour mis secs a hs = Inr r" by simp
      then have "extremal (\<ge>) (times_of hs mis secs) (\<lambda>_. True) a r"
        using 2(2) c sh 2(5,6) by auto
      then show ?thesis
        by (rule backward.extremal_cong_from) (use m None in \<open>auto simp: times_of_Cons_hour\<close>)
    next
      case (Some t)
      with rr have r: "r = Some t" by simp
      from m Some have t: "times_of [h] (rev mis) secs t" "t \<le> a"
        and least: "\<And>t'. times_of [h] (rev mis) secs t' \<Longrightarrow> t' \<le> a \<Longrightarrow> t' \<le> t" by auto
      have "t' \<le> t" if "times_of hs mis secs t'" "t' \<le> a" for t'
        using that later least [of t'] t(1) by (auto simp: times_of_def tod_le_sel less_le)
      with t least show ?thesis by (auto simp: r times_of_Cons_hour)
    qed
  qed
qed

definition before_tod :: "tod option \<Rightarrow> tod" where
  "before_tod tod = (case tod of None \<Rightarrow> Time 23 59 59 | Some a \<Rightarrow> a)"

lemma times_of_rev [simp]: "times_of (rev hs) mis secs = times_of hs mis secs"
  by (simp add: times_of_def fun_eq_iff)

lemma last_time_greatest:
  assumes "last_time ct tod = Inr r" and "wf_crontab ct"
  shows "extremal (\<ge>) (cron_time ct) (\<lambda>_. True) (before_tod tod) r"
proof (cases tod)
  case (Some a)
  with assms show ?thesis
    using last_hour_greatest [of "minutes_sorted ct" "seconds_sorted ct" a "rev (hours_sorted ct)" r]
    by (simp add: last_time_def before_tod_def cron_time_times_of)
next
  case None
  with assms(1) obtain h mi s where h: "index_last (hours_sorted ct) = Inr h"
    and mi: "index_last (minutes_sorted ct) = Inr mi"
    and s: "index_last (seconds_sorted ct) = Inr s" and r: "r = Some (Time h mi s)"
    by (auto simp: last_time_def bind_result_Inr)
  have f: "cron_time ct (Time h mi s)" "\<And>t. cron_time ct t \<Longrightarrow> t \<le> Time h mi s"
    using index_last_Inr [OF h] index_last_Inr [OF mi] index_last_Inr [OF s]
      cron_time_times_of [OF assms(2)]
    by (auto simp: times_of_def tod_le_sel less_le)
  have "Time h mi s \<le> Time 23 59 59"
    using cron_time_valid [OF assms(2) f(1)] by (auto simp: valid_tod_def)
  with f show ?thesis by (simp add: r None before_tod_def)
qed

lemma last_minute_total: "secs \<noteq> [] \<Longrightarrow> \<exists>r. last_minute secs h a mis = Inr r"
  by (induction secs h a mis rule: last_minute.induct)
    (use index_total(2) in \<open>fastforce split: option.splits\<close>)+

lemma last_hour_total:
  "secs \<noteq> [] \<Longrightarrow> mis \<noteq> [] \<Longrightarrow> \<exists>r. last_hour mis secs a hs = Inr r"
proof (induction mis secs a hs rule: last_hour.induct)
  case (2 mis secs a h hs)
  obtain r where "last_minute secs h a (rev mis) = Inr r"
    using last_minute_total [OF 2(3)] by blast
  with 2 index_total(2) [OF 2(3)] index_total(2) [OF 2(4)] show ?case
    by (cases r) auto
qed simp

lemma last_time_total: "wf_crontab ct \<Longrightarrow> \<exists>r. last_time ct tod = Inr r"
  using last_hour_total [OF wf_sorted(7,6)] index_total(2) [OF wf_sorted(5)]
    index_total(2) [OF wf_sorted(6)] index_total(2) [OF wf_sorted(7)]
  by (fastforce simp: last_time_def split: option.splits)

subsection \<open>Days, months and years\<close>

definition within_floor :: "datetime \<Rightarrow> bool" where
  "within_floor x \<longleftrightarrow> YEAR_FLOOR \<le> d_year (dt_date x)"

definition back_cursor :: "int \<Rightarrow> int \<Rightarrow> int \<Rightarrow> tod option \<Rightarrow> datetime" where
  "back_cursor y m d tod = DateTime (Date y m d) (before_tod tod) 0"

lemma day_end_ge: "valid_tod t \<Longrightarrow> t \<le> Time 23 59 59"
  by (auto simp: valid_tod_def tod_le_sel)

lemma back_cursor_None_ge:
  "valid_tod t \<Longrightarrow> DateTime (Date y' m' d') t 0 \<le> back_cursor y m d None \<longleftrightarrow> Date y' m' d' \<le> Date y m d"
  using day_end_ge [of t] by (auto simp: back_cursor_def before_tod_def)

lemma back_cursor_ge_date: "DateTime e t u \<le> back_cursor y m d tod \<Longrightarrow> e \<le> Date y m d"
  by (cases e) (auto simp: back_cursor_def)

lemma prev_day_greatest:
  assumes "prev_day ct y m (days_in_month y m) d tod = Inr r" and "wf_crontab ct"
    and "year_ok ct y" and "m \<in> ct_months ct" and "1 \<le> y" and "y \<le> 9999"
    and "d \<le> days_in_month y m"
  shows "extremal (\<ge>) (occurs_in_month ct y m) (\<lambda>_. True) (back_cursor y m d tod) r"
  using assms(1,7)
proof (induction "nat d" arbitrary: d tod rule: less_induct)
  case (less d tod)
  note unfold = prev_day.simps [of ct y m "days_in_month y m" d tod]
  have IH: "extremal (\<ge>) (occurs_in_month ct y m) (\<lambda>_. True) (back_cursor y m (d - 1) None) r"
    if "1 \<le> d" "prev_day ct y m (days_in_month y m) (d - 1) None = Inr r"
    by (rule less.hyps) (use that less.prems in auto)
  have m: "1 \<le> m" "m \<le> 12" using assms(2,4) by (auto simp: wf_crontab_def field_in_def)
  have skip: ?case
    if rec: "extremal (\<ge>) (occurs_in_month ct y m) (\<lambda>_. True) (back_cursor y m (d - 1) None) r"
      and none: "\<And>t. occurs ct (DateTime (Date y m d) t 0) \<Longrightarrow> t \<le> before_tod tod \<Longrightarrow> False"
  proof (rule backward.extremal_skip [OF rec])
    show "back_cursor y m (d - 1) None \<le> back_cursor y m d tod" by (simp add: back_cursor_def)
    show "x \<le> back_cursor y m (d - 1) None"
      if occ: "occurs_in_month ct y m x" "x \<le> back_cursor y m d tod" for x
    proof -
      obtain d' t where x: "x = DateTime (Date y m d') t 0" and t: "valid_tod t"
        using occ(1) by (auto simp: occurs_in_month_def elim!: occursE)
      have "d' \<noteq> d" using none [of t] occ
        by (auto simp: x occurs_in_month_def back_cursor_def order_less_imp_le)
      with occ(2) have "Date y m d' \<le> Date y m (d - 1)" by (auto simp: x back_cursor_def)
      with t show ?thesis by (simp add: x back_cursor_None_ge)
    qed
  qed simp
  show ?case
  proof (cases "1 \<le> d")
    case False
    with less.prems have "r = None" by (simp add: unfold)
    with False show ?thesis
      by (auto simp: occurs_in_month_def valid_date_def back_cursor_def elim!: occursE)
  next
    case le: True
    show ?thesis
    proof (cases "day_matches ct y m d (days_in_month y m)")
      case False
      with le less.prems(1) have "prev_day ct y m (days_in_month y m) (d - 1) None = Inr r"
        by (simp add: unfold)
      then show ?thesis by (intro skip IH le) (use False in \<open>auto simp: occurs_iff\<close>)
    next
      case dm: True
      obtain r' where r': "last_time ct tod = Inr r'"
        using last_time_total [OF assms(2)] by blast
      note ft = last_time_greatest [OF r' assms(2)]
      show ?thesis
      proof (cases r')
        case None
        with le dm less.prems(1) r' have "prev_day ct y m (days_in_month y m) (d - 1) None = Inr r"
          by (simp add: unfold)
        then show ?thesis by (intro skip IH le) (use ft None in \<open>auto simp: occurs_iff\<close>)
      next
        case (Some t)
        with le dm less.prems(1) r' have r: "r = Some (DateTime (Date y m d) t 0)"
          by (simp add: unfold)
        have "cron_time ct t" "t \<le> before_tod tod" using ft Some by auto
        moreover have "valid_tod t" using cron_time_valid [OF assms(2)] calculation by blast
        moreover have "x \<le> DateTime (Date y m d) t 0"
          if "occurs_in_month ct y m x" "x \<le> back_cursor y m d tod" for x
          using that ft Some by (auto simp: occurs_in_month_def back_cursor_def less_le elim!: occursE)
        ultimately show ?thesis
          using le dm assms(3-6) less.prems(2) m
          by (auto simp: r occurs_in_month_def occurs_iff valid_date_def back_cursor_def)
      qed
    qed
  qed
qed

lemma prev_day_total: "wf_crontab ct \<Longrightarrow> \<exists>r. prev_day ct y m e d tod = Inr r"
proof (induction "nat d" arbitrary: d tod rule: less_induct)
  case (less d tod)
  then have "\<exists>r. prev_day ct y m e (d - 1) None = Inr r" if "1 \<le> d" using that by simp
  with less.prems last_time_total [of ct tod] show ?case
    by (auto simp: prev_day.simps [of ct y m e d tod] split: option.splits)
qed

lemma prev_in_greatest:
  assumes "sorted xs"
  shows "prev_in xs c = Some v \<Longrightarrow> v \<in> set xs \<and> v < c \<and> (\<forall>x \<in> set xs. x < c \<longrightarrow> x \<le> v)"
    and "prev_in xs c = None \<Longrightarrow> \<forall>x \<in> set xs. c \<le> x"
  using find_sorted_greatest [of "\<lambda>v. v < c" xs v] assms find_none [of "\<lambda>v. v < c" "rev xs"]
  by (auto simp: prev_in_def not_less)

lemma prev_year_greatest:
  assumes "wf_crontab ct" and "year_excluded ct y"
  shows "prev_year ct y = Some y' \<Longrightarrow>
      year_ok ct y' \<and> YEAR_FLOOR \<le> y' \<and> y' < y \<and> (\<forall>z. year_ok ct z \<and> z < y \<longrightarrow> z \<le> y')"
    and "prev_year ct y = None \<Longrightarrow> \<forall>z. year_ok ct z \<longrightarrow> y < z"
proof -
  obtain ys where ys: "ct_years ct = Some ys" and f: "field_in 1970 2099 ys" and y: "y \<notin> ys"
    using assms
    by (auto simp: year_excluded_def years_sorted_def wf_crontab_def field_in_def
        split: option.splits)
  then have s: "years_sorted ct = Some (sorted_list_of_set ys)" "set (sorted_list_of_set ys) = ys"
    by (auto simp: years_sorted_def field_in_def)
  show "prev_year ct y = Some y' \<Longrightarrow>
      year_ok ct y' \<and> YEAR_FLOOR \<le> y' \<and> y' < y \<and> (\<forall>z. year_ok ct z \<and> z < y \<longrightarrow> z \<le> y')"
    using prev_in_greatest(1) [of "sorted_list_of_set ys" y y'] s f
    by (auto simp: prev_year_def year_ok_def ys field_in_def YEAR_FLOOR_def)
  show "prev_year ct y = None \<Longrightarrow> \<forall>z. year_ok ct z \<longrightarrow> y < z"
    using prev_in_greatest(2) [of "sorted_list_of_set ys" y] s y
    by (auto simp: prev_year_def year_ok_def ys less_le)
qed

lemma floor_earlier: "\<not> within_floor a \<Longrightarrow> within_floor b \<Longrightarrow> a \<le> b"
  by (cases a; cases b; cases "dt_date a"; cases "dt_date b")
    (auto simp: within_floor_def less_eq_datetime_def datetime_key_def)

lemma prev_month_skip:
  assumes "extremal (\<ge>) (occurs ct) within_floor (back_cursor y' m' 31 None) r"
    and "Date y' m' 31 < Date y m d"
    and "\<And>y1 m1 d1 t. occurs ct (DateTime (Date y1 m1 d1) t 0) \<Longrightarrow> DateTime (Date y1 m1 d1) t 0 \<le> back_cursor y m d tod
      \<Longrightarrow> d1 \<le> 31 \<Longrightarrow> m1 \<le> 12 \<Longrightarrow> YEAR_FLOOR \<le> y1 \<Longrightarrow> Date y1 m1 d1 \<le> Date y' m' 31"
  shows "extremal (\<ge>) (occurs ct) within_floor (back_cursor y m d tod) r"
proof (rule backward.extremal_skip [OF assms(1)])
  show "back_cursor y' m' 31 None \<le> back_cursor y m d tod"
    using assms(2) by (simp add: back_cursor_def)
  show "x \<le> back_cursor y' m' 31 None"
    if occ: "occurs ct x" and le: "x \<le> back_cursor y m d tod" and live: "within_floor x" for x
    using occ
  proof (cases rule: occursE)
    case (1 y1 m1 d1 t)
    then have "d1 \<le> days_in_month y1 m1" by (simp add: valid_date_def)
    then have "d1 \<le> 31" by (rule order_trans) simp
    with 1 have "Date y1 m1 d1 \<le> Date y' m' 31"
      using assms(3) [of y1 m1 d1 t] occ le live by (auto simp: valid_date_def within_floor_def)
    with 1 show ?thesis by (simp add: back_cursor_None_ge)
  qed
qed (auto intro: floor_earlier)

lemma prev_day_clamped:
  assumes "prev_day ct y m (days_in_month y m)
      (if days_in_month y m < d then days_in_month y m else d) tod = Inr r"
    and "wf_crontab ct" and "year_ok ct y" and "m \<in> ct_months ct" and "1 \<le> y" and "y \<le> 9999"
    and "d \<le> days_in_month y m \<or> tod = None"
  shows "extremal (\<ge>) (occurs_in_month ct y m) (\<lambda>_. True) (back_cursor y m d tod) r"
proof (cases "days_in_month y m < d")
  case False
  with assms show ?thesis using prev_day_greatest [of ct y m d tod r] by simp
next
  case True
  with assms have ext: "extremal (\<ge>) (occurs_in_month ct y m) (\<lambda>_. True)
      (back_cursor y m (days_in_month y m) None) r" and "tod = None"
    using prev_day_greatest [of ct y m "days_in_month y m" tod r] by auto
  show ?thesis
    unfolding \<open>tod = None\<close>
  proof (rule backward.extremal_skip [OF ext])
    show "back_cursor y m (days_in_month y m) None \<le> back_cursor y m d None"
      using True by (simp add: back_cursor_def)
    show "x \<le> back_cursor y m (days_in_month y m) None" if "occurs_in_month ct y m x" for x
      using that
      by (auto simp: occurs_in_month_def valid_date_def back_cursor_None_ge elim!: occursE)
  qed simp
qed

lemma prev_month_greatest:
  assumes "prev_month ct y m d tod = Inr r" and "wf_crontab ct"
    and "y \<le> 9999" and "1 \<le> m" and "m \<le> 12" and "1 \<le> d"
    and "d \<le> days_in_month y m \<or> tod = None"
  shows "extremal (\<ge>) (occurs ct) within_floor (back_cursor y m d tod) r"
  using assms
proof (induction ct y m d tod rule: prev_month.induct)
  case (1 ct y m d tod)
  note wf = \<open>wf_crontab ct\<close> and unfold = prev_month.simps [of ct y m d tod]
  have mrange: "1 \<le> z \<and> z \<le> 12" if "z \<in> ct_months ct" for z
    using wf that by (auto simp: wf_crontab_def field_in_def)
  show ?case
  proof (cases "YEAR_FLOOR \<le> y")
    case False
    with "1.prems"(1) have "r = None" by (simp add: unfold)
    with False show ?thesis
      by (auto simp: within_floor_def elim!: occursE dest!: back_cursor_ge_date)
  next
    case fl: True
    consider (year) "year_excluded ct y"
      | (month) "\<not> year_excluded ct y" "m \<notin> ct_months ct"
      | (day) "\<not> year_excluded ct y" "m \<in> ct_months ct" by blast
    then show ?thesis
    proof cases
      case year
      show ?thesis
      proof (cases "prev_year ct y")
        case None
        with "1.prems"(1) fl year have "r = None" by (simp add: unfold)
        with prev_year_greatest(2) [OF wf year None] show ?thesis
          by (auto elim!: occursE dest!: back_cursor_ge_date)
      next
        case (Some y')
        note ny = prev_year_greatest(1) [OF wf year Some]
        with Some "1.prems"(1) fl year have "prev_month ct y' 12 31 None = Inr r"
          by (simp add: unfold)
        then have "extremal (\<ge>) (occurs ct) within_floor (back_cursor y' 12 31 None) r"
          using "1.IH"(1) [OF fl year Some] wf ny "1.prems"(3) by simp
        then show ?thesis
          by (rule prev_month_skip)
            (use ny year wf in \<open>auto simp: occurs_iff year_excluded_iff less_le dest!: back_cursor_ge_date\<close>)
      qed
    next
      case month
      show ?thesis
      proof (cases "prev_in (months_sorted ct) m")
        case None
        obtain m0 where m0: "index_last (months_sorted ct) = Inr m0"
          using index_total(2) [OF wf_sorted(8) [OF wf]] by blast
        with None "1.prems"(1) fl month have "prev_month ct (y - 1) m0 31 None = Inr r"
          by (simp add: unfold)
        moreover have least: "m0 \<in> ct_months ct" "\<And>z. z \<in> ct_months ct \<Longrightarrow> z \<le> m0"
          using index_last_Inr [OF m0] wf_sorted(4) [OF wf] by auto
        ultimately have "extremal (\<ge>) (occurs ct) within_floor (back_cursor (y - 1) m0 31 None) r"
          using "1.IH"(2) [OF fl month None m0] wf "1.prems"(3) mrange by simp
        moreover have "z \<notin> ct_months ct" if "z \<le> m" for z
          using prev_in_greatest(2) [OF sorted_fields(4) None] wf_sorted(4) [OF wf] month that by force
        ultimately show ?thesis
          by (elim prev_month_skip) (use least in \<open>auto simp: occurs_iff less_le dest!: back_cursor_ge_date\<close>)
      next
        case (Some m')
        note nm = prev_in_greatest(1) [OF sorted_fields(4) Some, unfolded wf_sorted(4) [OF wf]]
        with Some "1.prems"(1) fl month have "prev_month ct y m' 31 None = Inr r"
          by (simp add: unfold)
        then have "extremal (\<ge>) (occurs ct) within_floor (back_cursor y m' 31 None) r"
          using "1.IH"(3) [OF fl month Some] wf "1.prems"(3) mrange nm by simp
        then show ?thesis
          by (rule prev_month_skip)
            (use nm month in \<open>auto simp: occurs_iff less_le dest!: back_cursor_ge_date\<close>)
      qed
    next
      case day
      define d' where "d' = (if days_in_month y m < d then days_in_month y m else d)"
      obtain r' where r': "prev_day ct y m (days_in_month y m) d' tod = Inr r'"
        using prev_day_total [OF wf] by blast
      have nd: "extremal (\<ge>) (occurs_in_month ct y m) (\<lambda>_. True) (back_cursor y m d tod) r'"
        using prev_day_clamped [OF r' [unfolded d'_def] wf] day fl wf "1.prems"
        by (simp add: year_excluded_iff YEAR_FLOOR_def)
      show ?thesis
      proof (cases r')
        case None
        have none: "\<not> occurs ct (DateTime (Date y m d1) t 0)"
          if "DateTime (Date y m d1) t 0 \<le> back_cursor y m d tod" for d1 t
          using nd None that by (auto simp: occurs_in_month_def)
        have other: "y1 < y \<or> y1 = y \<and> m1 < m" and months: "m1 \<in> ct_months ct"
          if "occurs ct (DateTime (Date y1 m1 d1) t 0)"
            "DateTime (Date y1 m1 d1) t 0 \<le> back_cursor y m d tod" for y1 m1 d1 t
          using none [of d1 t] back_cursor_ge_date [OF that(2)] that by (auto simp: occurs_iff)
        show ?thesis
        proof (cases "m - 1 < 1")
          case True
          with None r' "1.prems"(1) fl day have "prev_month ct (y - 1) 12 31 None = Inr r"
            by (simp add: unfold Let_def d'_def)
          then have "extremal (\<ge>) (occurs ct) within_floor (back_cursor (y - 1) 12 31 None) r"
            using "1.IH"(4) [OF fl _ _ refl d'_def r' None True] day wf "1.prems"(3) by simp
          then show ?thesis
          proof (rule prev_month_skip)
            fix y1 m1 d1 t
            assume o: "occurs ct (DateTime (Date y1 m1 d1) t 0)"
              "DateTime (Date y1 m1 d1) t 0 \<le> back_cursor y m d tod" and "d1 \<le> 31" "m1 \<le> 12"
            moreover have "y1 < y" using other [OF o] mrange [OF months [OF o]] True by linarith
            ultimately show "Date y1 m1 d1 \<le> Date (y - 1) 12 31" by auto
          qed simp
        next
          case False
          with None r' "1.prems"(1) fl day have "prev_month ct y (m - 1) 31 None = Inr r"
            by (simp add: unfold Let_def d'_def)
          then have "extremal (\<ge>) (occurs ct) within_floor (back_cursor y (m - 1) 31 None) r"
            using "1.IH"(5) [OF fl _ _ refl d'_def r' None False] day wf "1.prems"(3,5) False by simp
          then show ?thesis
            by (rule prev_month_skip) (auto dest: other)
        qed
      next
        case (Some x)
        with r' "1.prems"(1) fl day have r: "r = Some x" by (simp add: unfold Let_def d'_def)
        have x: "occurs ct x" "d_year (dt_date x) = y" "d_month (dt_date x) = m" "x \<le> back_cursor y m d tod"
          and least: "\<And>z. occurs_in_month ct y m z \<Longrightarrow> z \<le> back_cursor y m d tod \<Longrightarrow> z \<le> x"
          using nd Some by (auto simp: occurs_in_month_def)
        have "z \<le> x" if z: "occurs ct z" "z \<le> back_cursor y m d tod" for z
        proof (cases "occurs_in_month ct y m z")
          case True
          with least z show ?thesis by blast
        next
          case False
          with z x(1-3) show ?thesis
            by (auto simp: occurs_in_month_def elim!: occursE dest!: back_cursor_ge_date)
        qed
        with x fl show ?thesis by (simp add: r within_floor_def)
      qed
    qed
  qed
qed

lemma prev_month_total: "wf_crontab ct \<Longrightarrow> \<exists>r. prev_month ct y m d tod = Inr r"
proof (induction ct y m d tod rule: prev_month.induct)
  case (1 ct y m d tod)
  note wf = "1.prems" and unfold = prev_month.simps [of ct y m d tod]
  obtain m0 where "index_last (months_sorted ct) = Inr m0"
    using index_total(2) [OF wf_sorted(8) [OF wf]] by blast
  moreover obtain r' where "prev_day ct y m (days_in_month y m)
      (if days_in_month y m < d then days_in_month y m else d) tod = Inr r'"
    using prev_day_total [OF wf] by blast
  ultimately show ?case
    using 1 by (auto simp: unfold Let_def split: option.splits)
qed

subsection \<open>Whole seconds\<close>

lemma valid_prev_date: "valid_date d \<Longrightarrow> d \<noteq> Date 1 1 1 \<Longrightarrow> valid_date (prev_date d)"
  by (cases d) (auto simp: valid_date_def prev_date_def days_in_month_def)

lemma prev_date_greatest:
  assumes "valid_date d" and "valid_date e" and "e < d"
  shows "e \<le> prev_date d"
  using assms by (cases d; cases e) (auto simp: valid_date_def prev_date_def days_in_month_def)

lemma prev_date_less: "prev_date d < d"
  by (cases d) (auto simp: prev_date_def)

definition back_base :: "datetime \<Rightarrow> (datetime_error, datetime) result" where
  "back_base civil =
     (if dt_micro civil \<noteq> 0 then Inr (DateTime (dt_date civil) (dt_time civil) 0)
      else minus_second civil)"

lemma back_base_greatest:
  assumes "back_base x = Inr b" and "valid_datetime x"
  shows "valid_datetime b" and "b < x" and "dt_micro b = 0"
    and "valid_datetime z \<Longrightarrow> dt_micro z = 0 \<Longrightarrow> z < x \<longleftrightarrow> z \<le> b"
proof -
  obtain d h mi s u where x: "x = DateTime d (Time h mi s) u"
    by (metis datetime.exhaust tod.exhaust)
  have vx: "valid_date d" "0 \<le> h" "h \<le> 23" "0 \<le> mi" "mi \<le> 59" "0 \<le> s" "s \<le> 59" "0 \<le> u" "u < 1000000"
    using assms(2) by (auto simp: x valid_datetime_def valid_tod_def)
  note prev_date = valid_prev_date [OF vx(1)] prev_date_less [of d]
  show vb: "valid_datetime b" and lt: "b < x" and b0: "dt_micro b = 0"
    using assms(1) vx prev_date
    by (auto simp: x back_base_def minus_second_def Let_def valid_datetime_def valid_tod_def
        split: if_splits)
  show "z < x \<longleftrightarrow> z \<le> b" if z0: "valid_datetime z" "dt_micro z = 0"
  proof
    assume "z < x"
    moreover obtain e h' mi' s' where z: "z = DateTime e (Time h' mi' s') 0"
      using z0 by (metis datetime.exhaust datetime.sel(3) tod.exhaust)
    moreover have "valid_date e" "0 \<le> h'" "h' \<le> 23" "0 \<le> mi'" "mi' \<le> 59" "0 \<le> s'" "s' \<le> 59"
      using z0 by (auto simp: z valid_datetime_def valid_tod_def)
    ultimately show "z \<le> b"
      using assms(1) vx prev_date_greatest [OF vx(1), of e]
      by (auto simp: x back_base_def minus_second_def Let_def less_le split: if_splits)
  next
    assume "z \<le> b"
    with lt show "z < x" by simp
  qed
qed

lemma prev_civil_cases:
  assumes "prev_civil ct civil = Inr r" and "wf_crontab ct" and "valid_datetime civil"
  shows "r = Some t \<Longrightarrow> occurs ct t \<and> t < civil \<and> within_floor t \<and>
      (\<forall>t'. occurs ct t' \<and> t' < civil \<longrightarrow> t' \<le> t)"
    and "r = None \<Longrightarrow> occurs ct t' \<Longrightarrow> t' < civil \<Longrightarrow> \<not> within_floor t'"
proof -
  obtain base where b: "back_base civil = Inr base"
    and nm: "prev_month ct (d_year (dt_date base)) (d_month (dt_date base)) (d_day (dt_date base))
      (Some (dt_time base)) = Inr r"
    using assms(1) unfolding prev_civil_def back_base_def [symmetric]
    by (auto split: sum.splits datetime_error.splits)
  note ps = back_base_greatest [OF b assms(3)]
  have c: "back_cursor (d_year (dt_date base)) (d_month (dt_date base)) (d_day (dt_date base))
      (Some (dt_time base)) = base"
    using ps(3) by (cases base; cases "dt_date base") (auto simp: back_cursor_def before_tod_def)
  have ext: "extremal (\<ge>) (occurs ct) within_floor base r"
    using prev_month_greatest [OF nm assms(2)] ps(1)
    by (auto simp: c valid_datetime_def valid_date_def)
  have before: "z < civil \<longleftrightarrow> z \<le> base" if "occurs ct z" for z
    using ps(4) that by (simp add: occurs_def)
  show "r = Some t \<Longrightarrow> occurs ct t \<and> t < civil \<and> within_floor t \<and>
      (\<forall>t'. occurs ct t' \<and> t' < civil \<longrightarrow> t' \<le> t)"
    using ext before by auto
  show "r = None \<Longrightarrow> occurs ct t' \<Longrightarrow> t' < civil \<Longrightarrow> \<not> within_floor t'"
    using ext before by auto
qed

lemma prev_civil_total:
  assumes "wf_crontab ct" and "1 < d_year (dt_date civil)"
  shows "\<exists>r. prev_civil ct civil = Inr r"
proof -
  obtain b where "back_base civil = Inr b"
    using assms(2)
    by (cases "back_base civil") (auto simp: back_base_def minus_second_def Let_def split: if_splits)
  with prev_month_total [OF assms(1)] show ?thesis
    unfolding prev_civil_def back_base_def [symmetric] by simp
qed

end
