(* ===== verification/CronParse.thy ===== *)
theory CronParse
  imports CronMatch
begin

text \<open>
  The parser of \<open>cronexpr.py\<close>: hashed items (\<open>_expand_hash_item\<close>, \<open>_expand_hash_field\<close>), the
  item grammar (\<open>_resolve\<close>, \<open>_parse_item\<close>, \<open>_parse_plain\<close>, \<open>_parse_dom\<close>, \<open>_parse_dow\<close>), the dialect
  hints (\<open>_quartz_hint\<close>) and the constructor \<open>CronTab.__init__\<close>.  Every \<open>raise ValueError\<close> is a
  constructor of \<open>cron_error\<close>.  SHA-256 is a parameter: a function from the hashed text to the
  bytes of its digest.
\<close>

subsection \<open>Field layouts\<close>

record field_spec =
  fs_label :: string
  fs_lo :: int
  fs_hi :: int
  fs_step_end :: int
  fs_names :: "int dict option"

definition MACROS :: "string dict" where
  "MACROS =
     [(''@yearly'', ''0 0 1 1 *''), (''@annually'', ''0 0 1 1 *''), (''@monthly'', ''0 0 1 * *''),
      (''@weekly'', ''0 0 * * 0''), (''@daily'', ''0 0 * * *''), (''@hourly'', ''0 * * * *'')]"

definition MONTH_NAMES :: "int dict" where
  "MONTH_NAMES =
     [(''jan'', 1), (''feb'', 2), (''mar'', 3), (''apr'', 4), (''may'', 5), (''jun'', 6),
      (''jul'', 7), (''aug'', 8), (''sep'', 9), (''oct'', 10), (''nov'', 11), (''dec'', 12)]"

definition DOW_NAMES :: "int dict" where
  "DOW_NAMES =
     [(''sun'', 0), (''mon'', 1), (''tue'', 2), (''wed'', 3), (''thu'', 4), (''fri'', 5),
      (''sat'', 6)]"

definition SECOND :: field_spec where
  "SECOND = \<lparr>fs_label = ''second'', fs_lo = 0, fs_hi = 59, fs_step_end = 59, fs_names = None\<rparr>"

definition MINUTE :: field_spec where
  "MINUTE = \<lparr>fs_label = ''minute'', fs_lo = 0, fs_hi = 59, fs_step_end = 59, fs_names = None\<rparr>"

definition HOUR :: field_spec where
  "HOUR = \<lparr>fs_label = ''hour'', fs_lo = 0, fs_hi = 23, fs_step_end = 23, fs_names = None\<rparr>"

definition DOM :: field_spec where
  "DOM = \<lparr>fs_label = ''day-of-month'', fs_lo = 1, fs_hi = 31, fs_step_end = 31, fs_names = None\<rparr>"

definition MONTH :: field_spec where
  "MONTH = \<lparr>fs_label = ''month'', fs_lo = 1, fs_hi = 12, fs_step_end = 12,
     fs_names = Some MONTH_NAMES\<rparr>"

definition DOW :: field_spec where
  "DOW = \<lparr>fs_label = ''day-of-week'', fs_lo = 0, fs_hi = 7, fs_step_end = 6,
     fs_names = Some DOW_NAMES\<rparr>"

definition YEAR :: field_spec where
  "YEAR = \<lparr>fs_label = ''year'', fs_lo = 1970, fs_hi = 2099, fs_step_end = 2099, fs_names = None\<rparr>"

text \<open>\<open>_LAYOUTS\<close>, for the counts 5, 6 and 7 the constructor admits.\<close>

definition layout_for :: "nat \<Rightarrow> field_spec list" where
  "layout_for n =
     (if n = 7 then [SECOND, MINUTE, HOUR, DOM, MONTH, DOW, YEAR]
      else if n = 6 then [MINUTE, HOUR, DOM, MONTH, DOW, YEAR]
      else [MINUTE, HOUR, DOM, MONTH, DOW])"

definition HASH_DOM_END :: int where
  "HASH_DOM_END = 28"

subsection \<open>Errors and hints\<close>

datatype cron_error =
    HashInYear
  | HashMalformed string string
  | HashKeyMissing string
  | ValueOutOfRange string int
  | RangeReversed string int int
  | StepNotPositive string int
  | StepTooLarge string int
  | HashStepExceedsSpan string int int
  | InvalidField string string
  | MoreThanOneSlash string string
  | InvalidStep string string
  | StepEscapes string int int
  | LNotInField string
  | DomOffsetNotDigits string
  | DomOffsetOutOfRange int
  | DomLForm string
  | DomWNotDigits string
  | DowBareL
  | DowLForm string
  | DowMoreThanOneHash string
  | DowOrdinalNotDigits string
  | DowOrdinalOutOfRange int
  | FieldCount nat

datatype quartz_hint =
    HintSecondsFirst | HintNthWeekday | HintNearestWeekday | HintTrailingL | HintQuestionMark

definition starts_with :: "char \<Rightarrow> string \<Rightarrow> bool" where
  "starts_with c s \<longleftrightarrow> (case s of [] \<Rightarrow> False | x # _ \<Rightarrow> x = c)"

definition ends_with :: "char \<Rightarrow> string \<Rightarrow> bool" where
  "ends_with c s \<longleftrightarrow> s \<noteq> [] \<and> last s = c"

definition is_quartz_w :: "string \<Rightarrow> bool" where
  "is_quartz_w item \<longleftrightarrow>
     ends_with CHR ''w'' item \<and> (butlast item = ''l'' \<or> isdigit (butlast item))"

definition is_trailing_l :: "string \<Rightarrow> bool" where
  "is_trailing_l item \<longleftrightarrow> ends_with CHR ''l'' item \<and> isdigit (butlast item)"

text \<open>The first hint, in source order, that one item of a field calls for.\<close>

fun item_hint :: "bool \<Rightarrow> bool \<Rightarrow> string list \<Rightarrow> quartz_hint option" where
  "item_hint is_dom is_dow [] = None"
| "item_hint is_dom is_dow (item # rest) =
     (if CHR ''#'' \<in> set item \<and> \<not> is_dow then Some HintNthWeekday
      else if is_quartz_w item \<and> \<not> is_dom then Some HintNearestWeekday
      else if is_dow \<and> is_trailing_l item then Some HintTrailingL
      else item_hint is_dom is_dow rest)"

fun field_hints :: "nat option \<Rightarrow> nat option \<Rightarrow> nat \<Rightarrow> string list \<Rightarrow> quartz_hint option" where
  "field_hints dom_index dow_index i [] = None"
| "field_hints dom_index dow_index i (f # fs) =
     (case item_hint (dom_index = Some i) (dow_index = Some i) (split_on CHR '','' f) of
        Some h \<Rightarrow> Some h
      | None \<Rightarrow> field_hints dom_index dow_index (Suc i) fs)"

definition day_indexes :: "nat \<Rightarrow> nat option \<times> nat option" where
  "day_indexes n =
     (if n = 5 \<or> n = 6 then (Some 2, Some 4) else if n = 7 then (Some 3, Some 5) else (None, None))"

definition quartz_hint_for :: "string list \<Rightarrow> quartz_hint option" where
  "quartz_hint_for flds =
     (if ''?'' \<in> set flds \<and> length flds = 6 then Some HintSecondsFirst
      else (case field_hints (fst (day_indexes (length flds))) (snd (day_indexes (length flds)))
                  0 flds of
              Some h \<Rightarrow> Some h
            | None \<Rightarrow> if ''?'' \<in> set flds then Some HintQuestionMark else None))"

subsection \<open>Hashed items\<close>

text \<open>\<open>range(start, stop, step)\<close> for a positive step.\<close>

definition py_range :: "int \<Rightarrow> int \<Rightarrow> int \<Rightarrow> int list" where
  "py_range start stop step =
     map (\<lambda>i. start + int i * step) [0..<nat ((stop - start + step - 1) div step)]"

definition from_bytes_big :: "int list \<Rightarrow> int" where
  "from_bytes_big bs = foldl (\<lambda>a b. a * 256 + b) 0 bs"

definition hash_value :: "(string \<Rightarrow> int list) \<Rightarrow> string \<Rightarrow> string \<Rightarrow> int" where
  "hash_value sha256 hash_key label =
     from_bytes_big (take 8 (sha256 (label @ [CHR 0x0A] @ hash_key)))"

text \<open>
  The regular expression \<open>h(?:\((\d+)-(\d+)\))?(?:/(\d+))?\Z\<close> on the lowered item: the optional
  range and the optional step.
\<close>

definition hash_item_range :: "string \<Rightarrow> ((string \<times> string) option \<times> string) option" where
  "hash_item_range s =
     (if starts_with CHR ''('' s
      then (let a = takeWhile is_digit (tl s); r = dropWhile is_digit (tl s)
            in if a \<noteq> [] \<and> starts_with CHR ''-'' r
               then (let b = takeWhile is_digit (tl r); q = dropWhile is_digit (tl r)
                     in if b \<noteq> [] \<and> starts_with CHR '')'' q then Some (Some (a, b), tl q) else None)
               else None)
      else Some (None, s))"

definition hash_item_match ::
  "string \<Rightarrow> ((string \<times> string) option \<times> string option) option" where
  "hash_item_match low =
     (if starts_with CHR ''h'' low
      then (case hash_item_range (tl low) of
              None \<Rightarrow> None
            | Some (rng, r) \<Rightarrow>
                if r = [] then Some (rng, None)
                else if starts_with CHR ''/'' r \<and> isdigit (tl r) then Some (rng, Some (tl r))
                else None)
      else None)"

definition hash_bounds ::
  "field_spec \<Rightarrow> (string \<times> string) option \<Rightarrow> (cron_error, int \<times> int) result" where
  "hash_bounds spec rng =
     (case rng of
        Some (a, b) \<Rightarrow>
          (let start = digits_value 0 a; stop = digits_value 0 b
           in if \<not> (fs_lo spec \<le> start \<and> start \<le> fs_hi spec)
              then Inl (ValueOutOfRange (fs_label spec) start)
              else if \<not> (fs_lo spec \<le> stop \<and> stop \<le> fs_hi spec)
              then Inl (ValueOutOfRange (fs_label spec) stop)
              else if start > stop then Inl (RangeReversed (fs_label spec) start stop)
              else Inr (start, stop))
      | None \<Rightarrow>
          Inr (fs_lo spec, if spec = DOM then HASH_DOM_END else fs_step_end spec))"

definition expand_hash_item ::
  "(string \<Rightarrow> int list) \<Rightarrow> string option \<Rightarrow> string \<Rightarrow> string \<Rightarrow> field_spec \<Rightarrow> (cron_error, string) result"
where
  "expand_hash_item sha256 hash_key item low spec =
     (if fs_label spec = ''year'' then Inl HashInYear
      else (case hash_item_match low of
              None \<Rightarrow> Inl (HashMalformed (fs_label spec) item)
            | Some (rng, step_text) \<Rightarrow>
                (case hash_key of
                   None \<Rightarrow> Inl (HashKeyMissing (fs_label spec))
                 | Some key \<Rightarrow>
                     bind_result (hash_bounds spec rng) (\<lambda>(start, stop).
                       let span = stop - start + 1; value = hash_value sha256 key (fs_label spec)
                       in (case step_text of
                             None \<Rightarrow> Inr (show_nat (nat (start + value mod span)))
                           | Some st \<Rightarrow>
                               (let step = digits_value 0 st
                                in if step \<le> 0 then Inl (StepNotPositive (fs_label spec) step)
                                   else if step > span
                                   then Inl (HashStepExceedsSpan (fs_label spec) step span)
                                   else Inr (join_with CHR '',''
                                          (map (\<lambda>v. show_nat (nat v))
                                            (py_range (start + value mod step) (stop + 1) step)))))))))"

definition expand_item ::
  "(string \<Rightarrow> int list) \<Rightarrow> string option \<Rightarrow> field_spec \<Rightarrow> string \<Rightarrow> (cron_error, string) result" where
  "expand_item sha256 hash_key spec item =
     (if starts_with CHR ''h'' (lower item)
      then expand_hash_item sha256 hash_key item (lower item) spec else Inr item)"

definition expand_hash_field ::
  "(string \<Rightarrow> int list) \<Rightarrow> string option \<Rightarrow> field_spec \<Rightarrow> string \<Rightarrow> (cron_error, string) result" where
  "expand_hash_field sha256 hash_key spec txt =
     (let items = split_on CHR '','' txt;
          changed = list_ex (\<lambda>item. starts_with CHR ''h'' (lower item)) items
      in bind_result (map_result (expand_item sha256 hash_key spec) items) (\<lambda>out.
           Inr (if changed then join_with CHR '','' out else txt)))"

subsection \<open>Items\<close>

definition resolve :: "string \<Rightarrow> field_spec \<Rightarrow> string \<Rightarrow> (cron_error, int) result" where
  "resolve token spec item =
     (case (case fs_names spec of None \<Rightarrow> None | Some ns \<Rightarrow> dict_get ns token) of
        Some v \<Rightarrow>
          if fs_lo spec \<le> v \<and> v \<le> fs_hi spec then Inr v else Inl (ValueOutOfRange (fs_label spec) v)
      | None \<Rightarrow>
          (case py_int token of
             None \<Rightarrow> Inl (InvalidField (fs_label spec) item)
           | Some v \<Rightarrow>
               if fs_lo spec \<le> v \<and> v \<le> fs_hi spec then Inr v
               else Inl (ValueOutOfRange (fs_label spec) v)))"

definition parse_step :: "field_spec \<Rightarrow> string \<Rightarrow> bool \<Rightarrow> string \<Rightarrow> (cron_error, int) result" where
  "parse_step spec item slash step_text =
     (if \<not> slash then Inr 1
      else if CHR ''/'' \<in> set step_text then Inl (MoreThanOneSlash (fs_label spec) item)
      else (case py_int step_text of
              None \<Rightarrow> Inl (InvalidStep (fs_label spec) item)
            | Some step \<Rightarrow>
                if step \<le> 0 then Inl (StepNotPositive (fs_label spec) step)
                else if step > fs_hi spec then Inl (StepTooLarge (fs_label spec) step)
                else Inr step))"

text \<open>Start and end of the head of an item; a bare value without a step is its own end.\<close>

definition parse_head :: "field_spec \<Rightarrow> string \<Rightarrow> bool \<Rightarrow> string \<Rightarrow> (cron_error, int \<times> int) result" where
  "parse_head spec item slash head =
     (if head = ''*'' then Inr (fs_lo spec, fs_step_end spec)
      else if CHR ''-'' \<in> set head
      then (case partition_at CHR ''-'' head of
              (a, _, b) \<Rightarrow>
                bind_result (resolve a spec item) (\<lambda>start.
                bind_result (resolve b spec item) (\<lambda>stop0.
                  let stop = (if stop0 = 0 \<and> spec = DOW then 7 else stop0)
                  in if start > stop then Inl (RangeReversed (fs_label spec) start stop)
                     else Inr (start, stop))))
      else bind_result (resolve head spec item) (\<lambda>start.
             if \<not> slash then Inr (start, start)
             else if start > fs_step_end spec
             then Inl (RangeReversed (fs_label spec) start (fs_step_end spec))
             else Inr (start, fs_step_end spec)))"

definition parse_item :: "string \<Rightarrow> field_spec \<Rightarrow> (cron_error, int list) result" where
  "parse_item item spec =
     (case partition_at CHR ''/'' item of
        (head, slash, step_text) \<Rightarrow>
          bind_result (parse_step spec item slash step_text) (\<lambda>step.
          bind_result (parse_head spec item slash head) (\<lambda>(start, stop).
            if slash \<and> \<not> (fs_lo spec \<le> start + step \<and> start + step \<le> fs_hi spec)
            then Inl (StepEscapes (fs_label spec) step start)
            else Inr (py_range start (stop + 1) step))))"

definition parse_plain_item :: "field_spec \<Rightarrow> string \<Rightarrow> (cron_error, int list) result" where
  "parse_plain_item spec item =
     (if starts_with CHR ''l'' item then Inl (LNotInField (fs_label spec)) else parse_item item spec)"

definition parse_plain :: "string \<Rightarrow> field_spec \<Rightarrow> (cron_error, int set) result" where
  "parse_plain txt spec =
     bind_result (map_result (parse_plain_item spec) (split_on CHR '','' txt)) (\<lambda>vs.
       Inr (set (concat vs)))"

subsection \<open>Day of month\<close>

record dom_fields =
  df_values :: "int set"
  df_last_offsets :: "int set"
  df_nearest :: "int set"
  df_last_weekday :: bool

definition empty_dom :: dom_fields where
  "empty_dom = \<lparr>df_values = {}, df_last_offsets = {}, df_nearest = {}, df_last_weekday = False\<rparr>"

definition parse_dom_item :: "dom_fields \<Rightarrow> string \<Rightarrow> (cron_error, dom_fields) result" where
  "parse_dom_item acc item =
     (if item = ''l'' then Inr (acc\<lparr>df_last_offsets := insert 0 (df_last_offsets acc)\<rparr>)
      else if item = ''lw'' then Inr (acc\<lparr>df_last_weekday := True\<rparr>)
      else if take 2 item = ''l-''
      then (let offset_text = drop 2 item
            in if \<not> isdigit offset_text then Inl (DomOffsetNotDigits item)
               else (let offset = digits_value 0 offset_text
                     in if \<not> (1 \<le> offset \<and> offset \<le> 30) then Inl (DomOffsetOutOfRange offset)
                        else Inr (acc\<lparr>df_last_offsets := insert offset (df_last_offsets acc)\<rparr>)))
      else if starts_with CHR ''l'' item then Inl (DomLForm item)
      else if ends_with CHR ''w'' item
      then (let day_text = butlast item
            in if \<not> isdigit day_text then Inl (DomWNotDigits item)
               else (let d = digits_value 0 day_text
                     in if \<not> (1 \<le> d \<and> d \<le> 31) then Inl (ValueOutOfRange ''day-of-month'' d)
                        else Inr (acc\<lparr>df_nearest := insert d (df_nearest acc)\<rparr>)))
      else bind_result (parse_item item DOM) (\<lambda>vs.
             Inr (acc\<lparr>df_values := df_values acc \<union> set vs\<rparr>)))"

fun parse_dom_items :: "dom_fields \<Rightarrow> string list \<Rightarrow> (cron_error, dom_fields) result" where
  "parse_dom_items acc [] = Inr acc"
| "parse_dom_items acc (item # rest) =
     bind_result (parse_dom_item acc item) (\<lambda>acc'. parse_dom_items acc' rest)"

definition parse_dom :: "string \<Rightarrow> (cron_error, dom_fields) result" where
  "parse_dom txt = parse_dom_items empty_dom (split_on CHR '','' txt)"

subsection \<open>Day of week\<close>

record dow_fields =
  wf_values :: "int set"
  wf_last :: "int set"
  wf_nth :: "(int \<times> int) set"

definition empty_dow :: dow_fields where
  "empty_dow = \<lparr>wf_values = {}, wf_last = {}, wf_nth = {}\<rparr>"

definition parse_dow_last :: "dow_fields \<Rightarrow> string \<Rightarrow> (cron_error, dow_fields) result" where
  "parse_dow_last acc item =
     (case partition_at CHR ''-'' (tl item) of
        (a, dash, b) \<Rightarrow>
          if \<not> isdigit a \<or> (dash \<and> \<not> isdigit b) then Inl (DowLForm item)
          else (let lo = digits_value 0 a; hi = (if dash then digits_value 0 b else lo)
                in if \<not> (0 \<le> lo \<and> lo \<le> 7) then Inl (ValueOutOfRange ''day-of-week'' lo)
                   else if \<not> (0 \<le> hi \<and> hi \<le> 7) then Inl (ValueOutOfRange ''day-of-week'' hi)
                   else Inr (acc\<lparr>wf_last := wf_last acc \<union> set (py_range lo (hi + 1) 1)\<rparr>)))"

definition parse_dow_nth :: "dow_fields \<Rightarrow> string \<Rightarrow> (cron_error, dow_fields) result" where
  "parse_dow_nth acc item =
     (case partition_at CHR ''#'' item of
        (day_text, _, ordinal_text) \<Rightarrow>
          if CHR ''#'' \<in> set ordinal_text then Inl (DowMoreThanOneHash item)
          else bind_result (resolve day_text DOW item) (\<lambda>d.
                 if \<not> isdigit ordinal_text then Inl (DowOrdinalNotDigits item)
                 else (let ordinal = digits_value 0 ordinal_text
                       in if \<not> (1 \<le> ordinal \<and> ordinal \<le> 5) then Inl (DowOrdinalOutOfRange ordinal)
                          else Inr (acc\<lparr>wf_nth := insert (d mod 7, ordinal) (wf_nth acc)\<rparr>))))"

definition parse_dow_item :: "dow_fields \<Rightarrow> string \<Rightarrow> (cron_error, dow_fields) result" where
  "parse_dow_item acc item =
     (if item = ''l'' then Inl DowBareL
      else if starts_with CHR ''l'' item then parse_dow_last acc item
      else if CHR ''#'' \<in> set item then parse_dow_nth acc item
      else bind_result (parse_item item DOW) (\<lambda>vs.
             Inr (acc\<lparr>wf_values := wf_values acc \<union> set vs\<rparr>)))"

fun parse_dow_items :: "dow_fields \<Rightarrow> string list \<Rightarrow> (cron_error, dow_fields) result" where
  "parse_dow_items acc [] = Inr acc"
| "parse_dow_items acc (item # rest) =
     bind_result (parse_dow_item acc item) (\<lambda>acc'. parse_dow_items acc' rest)"

definition parse_dow :: "string \<Rightarrow> (cron_error, dow_fields) result" where
  "parse_dow txt =
     bind_result (parse_dow_items empty_dow (split_on CHR '','' txt)) (\<lambda>acc.
       Inr \<lparr>wf_values = (\<lambda>v. v mod 7) ` wf_values acc, wf_last = (\<lambda>v. v mod 7) ` wf_last acc,
            wf_nth = wf_nth acc\<rparr>)"

subsection \<open>The constructor\<close>

text \<open>The columns after the second and year columns are sliced away.\<close>

definition second_text :: "string list \<Rightarrow> string" where
  "second_text flds = (if length flds = 7 then hd flds else ''0'')"

definition day_columns :: "string list \<Rightarrow> string list" where
  "day_columns flds = (if length flds = 7 then tl flds else flds)"

definition year_text :: "string list \<Rightarrow> string option" where
  "year_text flds =
     (let cols = day_columns flds
      in if length cols = 6 \<and> cols ! 5 \<noteq> ''*'' then Some (cols ! 5) else None)"

definition question_as_star :: "string \<Rightarrow> string" where
  "question_as_star s = (if s = ''?'' then ''*'' else s)"

definition parse_columns ::
  "string \<Rightarrow> string \<Rightarrow> string list \<Rightarrow> (cron_error, crontab) result" where
  "parse_columns source resolved flds =
     (let cols = day_columns flds
      in bind_result (parse_plain (second_text flds) SECOND) (\<lambda>secs.
         bind_result (parse_plain (cols ! 0) MINUTE) (\<lambda>mins.
         bind_result (parse_plain (cols ! 1) HOUR) (\<lambda>hrs.
         bind_result (parse_dom (question_as_star (cols ! 2))) (\<lambda>dom.
         bind_result (parse_plain (cols ! 3) MONTH) (\<lambda>mons.
         bind_result (parse_dow (question_as_star (cols ! 4))) (\<lambda>dow.
         bind_result (case year_text flds of
                        None \<Rightarrow> Inr None
                      | Some t \<Rightarrow> bind_result (parse_plain t YEAR) (\<lambda>ys. Inr (Some ys))) (\<lambda>yrs.
           Inr \<lparr>ct_source = source, ct_resolved = resolved, ct_seconds = secs, ct_minutes = mins,
                ct_hours = hrs, ct_dom = df_values dom, ct_dom_last_offsets = df_last_offsets dom,
                ct_dom_nearest = df_nearest dom, ct_dom_last_weekday = df_last_weekday dom,
                ct_months = mons, ct_dow = wf_values dow, ct_dow_last = wf_last dow,
                ct_dow_nth = wf_nth dow, ct_years = yrs\<rparr>))))))))"

definition with_hint ::
  "string list \<Rightarrow> (cron_error, 'a) result \<Rightarrow> (cron_error \<times> quartz_hint option, 'a) result" where
  "with_hint raw r = (case r of Inl e \<Rightarrow> Inl (e, quartz_hint_for raw) | Inr x \<Rightarrow> Inr x)"

definition expand_fields ::
  "(string \<Rightarrow> int list) \<Rightarrow> string option \<Rightarrow> string list \<Rightarrow> (cron_error, string list) result" where
  "expand_fields sha256 hash_key display =
     map_result (\<lambda>(txt, spec). expand_hash_field sha256 hash_key spec txt)
       (zip display (layout_for (length display)))"

definition CronTab_init ::
  "(string \<Rightarrow> int list) \<Rightarrow> string option \<Rightarrow> string \<Rightarrow> (cron_error \<times> quartz_hint option, crontab) result"
where
  "CronTab_init sha256 hash_key txt =
     (let display = split_ws txt; source = join_with CHR '' '' display; raw = split_ws (lower txt)
      in case (if length raw = 1 then dict_get MACROS (hd raw) else None) of
           Some expansion \<Rightarrow>
             with_hint (split_ws expansion) (parse_columns (hd raw) (hd raw) (split_ws expansion))
         | None \<Rightarrow>
             if \<not> (5 \<le> length raw \<and> length raw \<le> 7) then Inl (FieldCount (length raw), None)
             else with_hint raw
                    (bind_result (expand_fields sha256 hash_key display) (\<lambda>expanded.
                       parse_columns source (join_with CHR '' '' expanded) (map lower expanded))))"

end
