(* ===== verification/CronParseFacts.thy ===== *)
theory CronParseFacts
  imports CronParse
begin

text \<open>
  What the parser of theory \<open>CronParse\<close> guarantees: every parsed value lies in the range of its
  field and no second, minute, hour, month or year set is empty, so the searches never index
  an empty tuple; and the resolved source, in which every hashed item is replaced by its
  values, parses without a hash key to the same fields.
\<close>

subsection \<open>Ranges\<close>

lemma py_range_mem:
  assumes "x \<in> set (py_range a b s)" and "0 < s"
  shows "a \<le> x" and "x < b"
proof -
  have "x \<in> (\<lambda>i. a + int i * s) ` {0..<nat ((b - a + s - 1) div s)}"
    using assms(1) by (simp add: py_range_def)
  then obtain i where x: "x = a + int i * s" and "i \<in> {0..<nat ((b - a + s - 1) div s)}"
    by blast
  then have i: "int i + 1 \<le> (b - a + s - 1) div s" by (simp add: zless_nat_eq_int_zless)
  have "(int i + 1) * s \<le> ((b - a + s - 1) div s) * s"
    using i assms(2) by (intro mult_right_mono) auto
  also have "\<dots> \<le> b - a + s - 1"
    using assms(2) by (metis add.commute le_add_same_cancel2 mult_div_mod_eq mult.commute pos_mod_sign)
  finally show "x < b" by (simp add: x algebra_simps)
  show "a \<le> x" using assms(2) by (simp add: x)
qed

lemma py_range_within: "v \<in> set (py_range a (b + 1) 1) \<Longrightarrow> a \<le> v \<and> v \<le> b"
  using py_range_mem [of v a "b + 1" 1] by simp

lemma py_range_first:
  assumes "a < b" and "0 < s"
  shows "a \<in> set (py_range a b s)"
proof -
  have "1 \<le> (b - a + s - 1) div s"
    using assms by (simp add: pos_imp_zdiv_pos_iff int_one_le_iff_zero_less)
  then have "0 < nat ((b - a + s - 1) div s)" by linarith
  then show ?thesis by (auto simp: py_range_def image_iff intro!: bexI [of _ "0::nat"])
qed

definition spec_ok :: "field_spec \<Rightarrow> bool" where
  "spec_ok spec \<longleftrightarrow> 0 \<le> fs_lo spec \<and> fs_lo spec \<le> fs_step_end spec \<and> fs_step_end spec \<le> fs_hi spec"

lemma specs_ok [simp]:
  "spec_ok SECOND" "spec_ok MINUTE" "spec_ok HOUR" "spec_ok DOM" "spec_ok MONTH" "spec_ok DOW"
  "spec_ok YEAR"
  by (simp_all add: spec_ok_def SECOND_def MINUTE_def HOUR_def DOM_def MONTH_def DOW_def YEAR_def)

lemma resolve_bounds: "resolve token spec item = Inr v \<Longrightarrow> fs_lo spec \<le> v \<and> v \<le> fs_hi spec"
  by (auto simp: resolve_def split: option.splits if_splits)

lemma parse_step_pos: "parse_step spec item slash st = Inr step \<Longrightarrow> 0 < step"
  by (auto simp: parse_step_def split: if_splits option.splits)

lemma parse_head_bounds:
  assumes "parse_head spec item slash head = Inr (start, stop)" and "spec_ok spec"
  shows "fs_lo spec \<le> start \<and> start \<le> stop \<and> stop \<le> fs_hi spec"
  using assms
  by (auto simp: parse_head_def spec_ok_def bind_result_Inr Let_def DOW_def
      split: if_splits prod.splits dest!: resolve_bounds)

lemma parse_item_bounds:
  assumes "parse_item item spec = Inr vs" and "spec_ok spec"
  shows "vs \<noteq> []" and "v \<in> set vs \<Longrightarrow> fs_lo spec \<le> v \<and> v \<le> fs_hi spec"
proof -
  obtain head slash st where p: "partition_at CHR ''/'' item = (head, slash, st)"
    by (metis prod_cases3)
  obtain step start stop where st: "parse_step spec item slash st = Inr step"
    and hd: "parse_head spec item slash head = Inr (start, stop)"
    and vs: "vs = py_range start (stop + 1) step"
    using assms(1) by (auto simp: parse_item_def p bind_result_Inr split: if_splits)
  note b = parse_head_bounds [OF hd assms(2)] and pos = parse_step_pos [OF st]
  from b pos have "start \<in> set vs" by (auto simp: vs intro: py_range_first)
  then show "vs \<noteq> []" by auto
  show "v \<in> set vs \<Longrightarrow> fs_lo spec \<le> v \<and> v \<le> fs_hi spec"
    using py_range_mem [of v start "stop + 1" step] b pos by (auto simp: vs)
qed

lemma parse_plain_field_in:
  assumes "parse_plain txt spec = Inr A" and "spec_ok spec"
  shows "field_in (fs_lo spec) (fs_hi spec) A"
proof -
  obtain vss where m: "map_result (parse_plain_item spec) (split_on CHR '','' txt) = Inr vss"
    and A: "A = set (concat vss)"
    using assms(1) by (auto simp: parse_plain_def bind_result_Inr)
  have l: "list_all2 (\<lambda>x y. parse_plain_item spec x = Inr y) (split_on CHR '','' txt) vss"
    by (rule map_result_Inr [OF m])
  have "length vss = length (split_on CHR '','' txt)" using l by (simp add: list_all2_lengthD)
  then have "vss \<noteq> []" by (metis length_0_conv split_on_ne)
  moreover have "\<forall>vs \<in> set vss. vs \<noteq> [] \<and> (\<forall>v \<in> set vs. fs_lo spec \<le> v \<and> v \<le> fs_hi spec)"
  proof
    fix vs
    assume vs: "vs \<in> set vss"
    then obtain k where "k < length vss" "vss ! k = vs" by (auto simp: in_set_conv_nth)
    then obtain x where "parse_plain_item spec x = Inr vs" using list_all2_nthD2 [OF l] by blast
    then have "parse_item x spec = Inr vs" by (simp add: parse_plain_item_def split: if_splits)
    with parse_item_bounds [OF _ assms(2)]
    show "vs \<noteq> [] \<and> (\<forall>v \<in> set vs. fs_lo spec \<le> v \<and> v \<le> fs_hi spec)" by blast
  qed
  ultimately show ?thesis
    by (cases vss) (auto simp: A field_in_def)
qed

subsection \<open>Day fields\<close>

definition dom_ok :: "dom_fields \<Rightarrow> bool" where
  "dom_ok a \<longleftrightarrow>
     (\<forall>v \<in> df_values a. 1 \<le> v \<and> v \<le> 31) \<and> (\<forall>v \<in> df_last_offsets a. 0 \<le> v \<and> v \<le> 30) \<and>
     (\<forall>v \<in> df_nearest a. 1 \<le> v \<and> v \<le> 31)"

definition dow_ok :: "dow_fields \<Rightarrow> bool" where
  "dow_ok a \<longleftrightarrow>
     (\<forall>v \<in> wf_values a. 0 \<le> v \<and> v \<le> 7) \<and> (\<forall>v \<in> wf_last a. 0 \<le> v \<and> v \<le> 7) \<and>
     wf_nth a \<subseteq> {0..6} \<times> {1..5}"

lemma parse_item_days:
  "parse_item item DOM = Inr vs \<Longrightarrow> \<forall>v \<in> set vs. 1 \<le> v \<and> v \<le> 31"
  "parse_item item DOW = Inr vs \<Longrightarrow> \<forall>v \<in> set vs. 0 \<le> v \<and> v \<le> 7"
  using parse_item_bounds(2) [of item DOM vs] parse_item_bounds(2) [of item DOW vs]
  by (simp_all add: DOM_def DOW_def spec_ok_def)

lemma parse_dom_item_ok: "parse_dom_item a item = Inr a' \<Longrightarrow> dom_ok a \<Longrightarrow> dom_ok a'"
  by (auto simp: parse_dom_item_def dom_ok_def bind_result_Inr Let_def split: if_splits
      dest!: parse_item_days(1))

lemma parse_dom_items_ok: "parse_dom_items a items = Inr a' \<Longrightarrow> dom_ok a \<Longrightarrow> dom_ok a'"
  by (induction items arbitrary: a) (auto simp: bind_result_Inr dest: parse_dom_item_ok)

lemma parse_dow_last_ok: "parse_dow_last a item = Inr a' \<Longrightarrow> dow_ok a \<Longrightarrow> dow_ok a'"
  by (auto simp: parse_dow_last_def dow_ok_def Let_def split: if_splits prod.splits
      dest!: py_range_within)

lemma mod_7_range: "v mod 7 \<in> {0..6}" for v :: int
  using pos_mod_sign [of 7 v] pos_mod_bound [of 7 v] by simp

lemma parse_dow_nth_ok:
  assumes "parse_dow_nth a item = Inr a'" and "dow_ok a"
  shows "dow_ok a'"
proof -
  obtain d ordinal where "a' = a\<lparr>wf_nth := insert (d mod 7, ordinal) (wf_nth a)\<rparr>"
    and "1 \<le> ordinal" and "ordinal \<le> 5"
    using assms(1)
    by (auto simp: parse_dow_nth_def Let_def bind_result_Inr split: if_splits prod.splits)
  with assms(2) mod_7_range [of d] show ?thesis by (simp add: dow_ok_def)
qed

lemma parse_dow_item_ok: "parse_dow_item a item = Inr a' \<Longrightarrow> dow_ok a \<Longrightarrow> dow_ok a'"
  using parse_dow_last_ok [of a item a'] parse_dow_nth_ok [of a item a']
  by (auto simp: parse_dow_item_def dow_ok_def bind_result_Inr split: if_splits
      dest!: parse_item_days(2))

lemma parse_dow_items_ok: "parse_dow_items a items = Inr a' \<Longrightarrow> dow_ok a \<Longrightarrow> dow_ok a'"
  by (induction items arbitrary: a) (auto simp: bind_result_Inr dest: parse_dow_item_ok)

definition wf_days :: "crontab \<Rightarrow> bool" where
  "wf_days ct \<longleftrightarrow>
     ct_dom ct \<subseteq> {1..31} \<and> ct_dom_last_offsets ct \<subseteq> {0..30} \<and> ct_dom_nearest ct \<subseteq> {1..31} \<and>
     ct_dow ct \<subseteq> {0..6} \<and> ct_dow_last ct \<subseteq> {0..6} \<and> ct_dow_nth ct \<subseteq> {0..6} \<times> {1..5}"

lemma parse_dom_ok: "parse_dom txt = Inr d \<Longrightarrow> dom_ok d"
  using parse_dom_items_ok [of empty_dom _ d] by (simp add: parse_dom_def dom_ok_def empty_dom_def)

lemma parse_dow_ok:
  assumes "parse_dow txt = Inr d"
  shows "wf_values d \<subseteq> {0..6} \<and> wf_last d \<subseteq> {0..6} \<and> wf_nth d \<subseteq> {0..6} \<times> {1..5}"
proof -
  obtain a where a: "parse_dow_items empty_dow (split_on CHR '','' txt) = Inr a"
    and d: "d = \<lparr>wf_values = (\<lambda>v. v mod 7) ` wf_values a, wf_last = (\<lambda>v. v mod 7) ` wf_last a,
            wf_nth = wf_nth a\<rparr>"
    using assms by (auto simp: parse_dow_def bind_result_Inr)
  have "dow_ok a"
    using parse_dow_items_ok [OF a] by (simp add: dow_ok_def empty_dow_def)
  moreover have "(\<lambda>v. v mod 7) ` A \<subseteq> {0..6}" for A :: "int set" using mod_7_range by blast
  ultimately show ?thesis by (simp add: d dow_ok_def)
qed

lemma parse_columns_wf:
  assumes "parse_columns src res flds = Inr ct"
  shows "wf_crontab ct" and "wf_days ct"
proof -
  let ?cols = "day_columns flds"
  obtain secs mins hrs dom mons dow yrs where
    p: "parse_plain (second_text flds) SECOND = Inr secs" "parse_plain (?cols ! 0) MINUTE = Inr mins"
      "parse_plain (?cols ! 1) HOUR = Inr hrs" "parse_plain (?cols ! 3) MONTH = Inr mons"
    and days: "parse_dom (question_as_star (?cols ! 2)) = Inr dom"
      "parse_dow (question_as_star (?cols ! 4)) = Inr dow"
    and y: "(case year_text flds of None \<Rightarrow> Inr None
       | Some t \<Rightarrow> bind_result (parse_plain t YEAR) (\<lambda>ys. Inr (Some ys))) = Inr yrs"
    and ct: "ct_seconds ct = secs" "ct_minutes ct = mins" "ct_hours ct = hrs" "ct_months ct = mons"
      "ct_years ct = yrs" "ct_dom ct = df_values dom" "ct_dom_last_offsets ct = df_last_offsets dom"
      "ct_dom_nearest ct = df_nearest dom" "ct_dow ct = wf_values dow" "ct_dow_last ct = wf_last dow"
      "ct_dow_nth ct = wf_nth dow"
    using assms by (auto simp: parse_columns_def Let_def bind_result_Inr)
  have "case yrs of None \<Rightarrow> True | Some ys \<Rightarrow> field_in 1970 2099 ys"
    using y parse_plain_field_in [of _ YEAR]
    by (auto simp: bind_result_Inr YEAR_def spec_ok_def split: option.splits)
  then show "wf_crontab ct"
    using p [THEN parse_plain_field_in]
    by (simp add: wf_crontab_def ct SECOND_def MINUTE_def HOUR_def MONTH_def spec_ok_def)
  show "wf_days ct"
    using parse_dom_ok [OF days(1)] parse_dow_ok [OF days(2)]
    by (simp add: wf_days_def dom_ok_def ct subset_iff)
qed

text \<open>The day-of-month field names some day: each of its items adds one, and none takes one away.\<close>

definition dom_named :: "dom_fields \<Rightarrow> bool" where
  "dom_named a \<longleftrightarrow> df_values a \<noteq> {} \<or> df_last_offsets a \<noteq> {} \<or> df_nearest a \<noteq> {} \<or> df_last_weekday a"

definition names_day :: "crontab \<Rightarrow> bool" where
  "names_day ct \<longleftrightarrow> ct_dom ct \<noteq> {} \<or> ct_dom_last_offsets ct \<noteq> {} \<or> ct_dom_nearest ct \<noteq> {} \<or> ct_dom_last_weekday ct"

lemma parse_dom_item_named: "parse_dom_item a item = Inr a' \<Longrightarrow> dom_named a'"
  using parse_item_bounds(1) [of item DOM]
  by (fastforce simp: parse_dom_item_def dom_named_def bind_result_Inr Let_def DOM_def spec_ok_def split: if_splits)

lemma parse_dom_items_named: "parse_dom_items a items = Inr a' \<Longrightarrow> items \<noteq> [] \<or> dom_named a \<Longrightarrow> dom_named a'"
  by (induction items arbitrary: a) (auto simp: bind_result_Inr dest: parse_dom_item_named)

lemma CronTab_init_names_day:
  assumes "CronTab_init sha256 key txt = Inr ct"
  shows "names_day ct"
proof -
  obtain src res flds where "parse_columns src res flds = Inr ct"
    using assms by (auto simp: CronTab_init_def Let_def bind_result_Inr with_hint_def split: option.splits if_splits sum.splits)
  then obtain dom where d: "parse_dom (question_as_star (day_columns flds ! 2)) = Inr dom"
    and ct: "ct_dom ct = df_values dom" "ct_dom_last_offsets ct = df_last_offsets dom"
      "ct_dom_nearest ct = df_nearest dom" "ct_dom_last_weekday ct = df_last_weekday dom"
    by (auto simp: parse_columns_def Let_def bind_result_Inr)
  have "dom_named dom" using d parse_dom_items_named [OF d [unfolded parse_dom_def]] split_on_ne by blast
  then show ?thesis by (simp add: names_day_def dom_named_def ct)
qed

lemma with_hint_Inr [simp]: "with_hint raw r = Inr x \<longleftrightarrow> r = Inr x"
  by (cases r) (auto simp: with_hint_def)

lemma CronTab_init_wf:
  assumes "CronTab_init sha256 key txt = Inr ct"
  shows "wf_crontab ct" and "wf_days ct"
  using assms parse_columns_wf
  by (auto simp: CronTab_init_def Let_def bind_result_Inr split: option.splits if_splits)

subsection \<open>The resolved source\<close>

text \<open>An item that the second expansion leaves alone.\<close>

definition plain_item :: "string \<Rightarrow> bool" where
  "plain_item item \<longleftrightarrow> \<not> starts_with CHR ''h'' (lower item)"

lemma show_nat_plain: "plain_item (show_nat n)" "CHR '','' \<notin> set (show_nat n)"
  "\<forall>c \<in> set (show_nat n). \<not> is_space c"
proof -
  have d: "is_digit c" if "c \<in> set (show_nat n)" for c
    using show_nat_digits [of n] that by (auto simp: list_all_iff)
  then show "CHR '','' \<notin> set (show_nat n)" "\<forall>c \<in> set (show_nat n). \<not> is_space c"
    using digit_not_special by blast+
  show "plain_item (show_nat n)"
  proof (cases "show_nat n")
    case (Cons c cs)
    then have "is_digit c" using d by simp
    then have "lower_char c \<noteq> CHR ''h''" by (auto simp: lower_char_def is_digit_def)
    with Cons show ?thesis by (simp add: plain_item_def starts_with_def lower_def)
  qed simp
qed

lemma expand_field_plain:
  assumes "list_all plain_item (split_on CHR '','' t)"
  shows "expand_hash_field sha256 key spec t = Inr t"
proof -
  have "expand_item sha256 key spec item = Inr item" if "item \<in> set (split_on CHR '','' t)" for item
    using assms that by (auto simp: expand_item_def plain_item_def list_all_iff)
  then have "map_result (expand_item sha256 key spec) (split_on CHR '','' t) = Inr (split_on CHR '','' t)"
    using map_result_pure [of "split_on CHR '','' t" "expand_item sha256 key spec" id] by simp
  then show ?thesis
    by (simp add: expand_hash_field_def join_split Let_def)
qed

text \<open>What one item expands to: a comma-separated list of items of that kind.\<close>

definition plain_text :: "string \<Rightarrow> bool" where
  "plain_text t \<longleftrightarrow> list_all plain_item (split_on CHR '','' t) \<and> list_all (\<lambda>c. \<not> is_space c) t"

lemma join_concat_split:
  assumes "ws \<noteq> []"
  shows "split_on c (join_with c ws) = concat (map (split_on c) ws)"
  using assms
proof (induction c ws rule: join_with.induct)
  case (3 c w v ws)
  have "split_on c (w @ c # s) = split_on c w @ split_on c s" for s
    by (induction w) (auto split: list.splits)
  with 3 show ?case by simp
qed simp_all

lemma join_set: "set (join_with c ws) \<subseteq> insert c (\<Union> (set ` set ws))"
  by (induction c ws rule: join_with.induct) auto

lemma join_plain_text:
  assumes "ws \<noteq> []" and "list_all plain_text ws"
  shows "plain_text (join_with CHR '','' ws)"
proof -
  have "list_all (\<lambda>c. \<not> is_space c) (join_with CHR '','' ws)"
    using assms(2) join_set [of "CHR '',''" ws]
    by (fastforce simp: plain_text_def list_all_iff is_space_def)
  moreover have "list_all plain_item (concat (map (split_on CHR '','') ws))"
    using assms(2) by (auto simp: plain_text_def list_all_iff)
  ultimately show ?thesis by (simp add: plain_text_def join_concat_split assms(1))
qed

lemma show_nat_plain_text: "plain_text (show_nat n)"
  using show_nat_plain [of n] by (simp add: plain_text_def split_on_none list_all_iff)

lemma hash_bounds_span: "hash_bounds spec rng = Inr (a, b) \<Longrightarrow> spec_ok spec \<Longrightarrow> a \<le> b"
  by (auto simp: hash_bounds_def spec_ok_def DOM_def HASH_DOM_END_def Let_def
      split: option.splits if_splits prod.splits)

lemma expand_hash_item_shape:
  assumes "expand_hash_item sha256 key item low spec = Inr out"
  shows "(\<exists>n. out = show_nat n) \<or>
    (\<exists>start stop step. \<not> step \<le> 0 \<and> \<not> stop - start + 1 < step \<and>
       out = join_with CHR '','' (map (\<lambda>v. show_nat (nat v))
         (py_range (start + hash_value sha256 (the key) (fs_label spec) mod step) (stop + 1) step)))"
  using assms
  apply (simp add: expand_hash_item_def bind_result_Inr split_beta Let_def
      split: if_splits option.splits)
  apply blast
  done

lemma expand_hash_item_plain_text:
  assumes "expand_hash_item sha256 key item low spec = Inr out"
  shows "plain_text out \<and> out \<noteq> []"
  using expand_hash_item_shape [OF assms]
proof (elim disjE exE conjE)
  fix n
  assume "out = show_nat n"
  then show ?thesis using show_nat_plain_text by simp
next
  fix start stop step :: int
  let ?v = "hash_value sha256 (the key) (fs_label spec)"
  let ?r = "py_range (start + ?v mod step) (stop + 1) step"
  assume neg: "\<not> step \<le> 0" "\<not> stop - start + 1 < step"
    and out: "out = join_with CHR '','' (map (\<lambda>v. show_nat (nat v)) ?r)"
  have step: "0 < step" "step \<le> stop - start + 1" using neg by simp_all
  have "start + ?v mod step < stop + 1"
    using step pos_mod_bound [of step ?v] by linarith
  then have "?r \<noteq> []" using py_range_first [OF _ step(1)] by fastforce
  moreover have "join_with CHR '','' (map (\<lambda>v. show_nat (nat v)) ?r) \<noteq> []"
    using calculation by (cases ?r; cases "tl ?r") auto
  ultimately show ?thesis
    by (simp add: out list_all_iff show_nat_plain_text join_plain_text)
qed

lemma expand_item_plain_text:
  assumes "expand_item sha256 key spec item = Inr out"
    and "CHR '','' \<notin> set item" and "list_all (\<lambda>c. \<not> is_space c) item"
  shows "plain_text out \<and> (item \<noteq> [] \<longrightarrow> out \<noteq> [])"
proof (cases "starts_with CHR ''h'' (lower item)")
  case False
  then have "out = item" using assms(1) by (simp add: expand_item_def)
  moreover have "plain_text item"
    using False assms(2,3) by (simp add: plain_text_def split_on_none plain_item_def)
  ultimately show ?thesis by simp
next
  case True
  then show ?thesis
    using assms expand_hash_item_plain_text by (simp add: expand_item_def)
qed

lemma expand_hash_field_word:
  assumes "expand_hash_field sha256 key spec t = Inr out" and "is_word t"
  shows "plain_text out" and "is_word out"
proof -
  let ?items = "split_on CHR '','' t"
  obtain outs where m: "map_result (expand_item sha256 key spec) ?items = Inr outs"
    and o: "out = (if list_ex (\<lambda>item. starts_with CHR ''h'' (lower item)) ?items
                   then join_with CHR '','' outs else t)"
    using assms(1) by (auto simp: expand_hash_field_def Let_def bind_result_Inr)
  have l: "list_all2 (\<lambda>x y. expand_item sha256 key spec x = Inr y) ?items outs"
    by (rule map_result_Inr [OF m])
  have len: "length outs = length ?items" using l by (simp add: list_all2_lengthD)
  have item: "plain_text (outs ! i) \<and> (?items ! i \<noteq> [] \<longrightarrow> outs ! i \<noteq> [])" if "i < length outs" for i
  proof (rule expand_item_plain_text)
    have mem: "?items ! i \<in> set ?items" using that len by simp
    show "expand_item sha256 key spec (?items ! i) = Inr (outs ! i)"
      using list_all2_nthD2 [OF l that] .
    show "CHR '','' \<notin> set (?items ! i)" by (rule split_on_items [OF mem])
    show "list_all (\<lambda>c. \<not> is_space c) (?items ! i)"
      using split_on_chars [OF mem] assms(2) by (auto simp: is_word_def list_all_iff)
  qed
  have pt: "plain_text (join_with CHR '','' outs)"
    using item len by (intro join_plain_text) (auto simp: list_all_length)
  have ne: "join_with CHR '','' outs \<noteq> []"
  proof
    assume "join_with CHR '','' outs = []"
    then have "outs = [[]]" using len by (cases "(CHR '','', outs)" rule: join_with.cases) auto
    then have "?items = [[]]" using item [of 0] len by (cases ?items) auto
    then have "t = []" using join_split [of "CHR '',''" t] by simp
    then show False using assms(2) by (simp add: is_word_def)
  qed
  show p: "plain_text out"
    using pt assms(2) by (auto simp: o plain_text_def plain_item_def list_all_iff list_ex_iff is_word_def)
  then show "is_word out" using ne assms(2) by (auto simp: o plain_text_def is_word_def split: if_splits)
qed

lemma space_code: "is_space c \<Longrightarrow> code_of c \<le> 32"
  by (auto simp: is_space_def)

lemma lower_space: "is_space (lower_char c) = is_space c"
proof (cases "65 \<le> code_of c \<and> code_of c \<le> 90")
  case True
  then have "code_of (lower_char c) = code_of c + 32" by (simp add: lower_char_def)
  with True show ?thesis using space_code [of c] space_code [of "lower_char c"] by auto
next
  case False
  then have "lower_char c = c" by (auto simp: lower_char_def)
  then show ?thesis by simp
qed

lemma words_acc_lower: "words_acc (lower w) (lower s) = map lower (words_acc w s)"
proof (induction s arbitrary: w)
  case Nil
  then show ?case by (simp add: lower_def rev_map)
next
  case (Cons c s)
  from Cons [of "[]"] Cons [of "c # w"] show ?case by (simp add: lower_def lower_space rev_map)
qed

lemma split_ws_lower: "split_ws (lower s) = map lower (split_ws s)"
  using words_acc_lower [of "[]" s] by (simp add: split_ws_def lower_def)

lemma expand_fields_words:
  assumes "expand_fields sha256 key display = Inr expanded" and "list_all is_word display"
    and "length display = length (layout_for (length display))"
  shows "list_all plain_text expanded" and "list_all is_word expanded"
    and "length expanded = length display"
proof -
  have l: "list_all2 (\<lambda>(t, spec) y. expand_hash_field sha256 key spec t = Inr y)
      (zip display (layout_for (length display))) expanded"
    using map_result_Inr [OF assms(1) [unfolded expand_fields_def]]
    by (simp add: case_prod_unfold)
  then show len: "length expanded = length display"
    using assms(3) by (simp add: list_all2_lengthD [symmetric])
  have "plain_text (expanded ! i) \<and> is_word (expanded ! i)" if "i < length expanded" for i
  proof -
    have "expand_hash_field sha256 key (layout_for (length display) ! i) (display ! i) = Inr (expanded ! i)"
      using list_all2_nthD2 [OF l that] that len assms(3) by simp
    then show ?thesis
      using expand_hash_field_word assms(2) that len by (auto simp: list_all_length)
  qed
  then show "list_all plain_text expanded" "list_all is_word expanded"
    by (simp_all add: list_all_length)
qed

lemma expand_fields_plain:
  assumes "list_all plain_text ts" and "length ts = length (layout_for (length ts))"
  shows "expand_fields sha256 key ts = Inr ts"
proof -
  let ?z = "zip ts (layout_for (length ts))"
  have "\<forall>x \<in> set ?z. (case x of (t, spec) \<Rightarrow> expand_hash_field sha256 key spec t) = Inr (fst x)"
    using assms(1) set_zip_leftD [of _ _ ts]
    by (fastforce simp: list_all_iff plain_text_def intro!: expand_field_plain)
  from map_result_pure [OF this] assms(2) show ?thesis by (simp add: expand_fields_def)
qed

lemma layout_length: "5 \<le> n \<Longrightarrow> n \<le> 7 \<Longrightarrow> length (layout_for n) = n"
  by (auto simp: layout_for_def)

lemma parse_columns_source:
  assumes "parse_columns src res flds = Inr ct"
  shows "\<exists>ct'. parse_columns src' res' flds = Inr ct' \<and> crontab_eq ct ct'" and "ct_resolved ct = res"
  using assms by (auto simp: parse_columns_def Let_def bind_result_Inr crontab_eq_def)

lemma macro_words:
  assumes "dict_get MACROS m = Some e"
  shows "split_ws (lower m) = [m]"
  using assms
  by (auto simp: MACROS_def split_ws_def lower_def lower_char_def is_space_def split: if_splits)

lemma CronTab_init_resolved:
  assumes "CronTab_init sha256 key src = Inr ct"
  shows "\<exists>ct'. CronTab_init sha256 None (ct_resolved ct) = Inr ct' \<and> crontab_eq ct ct'"
proof (cases "if length (split_ws (lower src)) = 1 then dict_get MACROS (hd (split_ws (lower src))) else None")
  case (Some e)
  let ?m = "hd (split_ws (lower src))"
  have m: "dict_get MACROS ?m = Some e" using Some by (simp split: if_splits)
  have p: "parse_columns ?m ?m (split_ws e) = Inr ct"
    using assms Some by (simp add: CronTab_init_def Let_def)
  then have "ct_resolved ct = ?m" by (rule parse_columns_source(2))
  then have "CronTab_init sha256 None (ct_resolved ct) = Inr ct"
    using p m by (simp add: CronTab_init_def Let_def macro_words [OF m])
  then show ?thesis by (auto simp: crontab_eq_def)
next
  case None
  let ?d = "split_ws src"
  obtain expanded where len: "5 \<le> length ?d" "length ?d \<le> 7"
    and e: "expand_fields sha256 key ?d = Inr expanded"
    and p: "parse_columns (join_with CHR '' '' ?d) (join_with CHR '' '' expanded) (map lower expanded) = Inr ct"
    using assms None by (auto simp: CronTab_init_def Let_def bind_result_Inr split_ws_lower split: if_splits)
  have w: "list_all is_word ?d" using split_ws_items by (simp add: list_all_iff)
  note ex = expand_fields_words [OF e w layout_length [OF len, symmetric]]
  have r: "split_ws (ct_resolved ct) = expanded"
    using parse_columns_source(2) [OF p] split_ws_join [OF ex(2)] by simp
  have "expand_fields sha256 None expanded = Inr expanded"
    by (rule expand_fields_plain [OF ex(1)]) (simp add: ex(3) layout_length [OF len])
  with len show ?thesis
    using parse_columns_source(1) [OF p, of "join_with CHR '' '' expanded" "join_with CHR '' '' expanded"]
    by (simp add: CronTab_init_def Let_def r split_ws_lower ex(3))
qed

end
