(* ===== verification/CronProps.thy ===== *)
theory CronProps
  imports CronPrev CronParseFacts
begin

text \<open>
  The properties of the cron engine: every expression the constructor accepts can be searched,
  the searches return the neighbouring occurrence, the generator enumerates the occurrences, and
  the resolved source of a hashed expression stands for it.
\<close>

subsection \<open>A parsed expression\<close>

definition no_hash :: "string \<Rightarrow> int list" where
  "no_hash s = replicate 32 7"

definition workdays :: crontab where
  "workdays = (case CronTab_init no_hash None ''30 9 * * mon-fri'' of Inr ct \<Rightarrow> ct | Inl _ \<Rightarrow> undefined)"

lemma workdays_parsed: "CronTab_init no_hash None ''30 9 * * mon-fri'' = Inr workdays"
proof -
  have "\<not> isl (CronTab_init no_hash None ''30 9 * * mon-fri'')" by code_simp
  then show ?thesis by (cases "CronTab_init no_hash None ''30 9 * * mon-fri''") (auto simp: workdays_def)
qed

lemma workdays_wf: "wf_crontab workdays"
  by (rule CronTab_init_wf(1) [OF workdays_parsed])

abbreviation friday :: datetime where
  "friday \<equiv> DateTime (Date 2024 3 1) (Time 9 30 0) 0"

abbreviation monday :: datetime where
  "monday \<equiv> DateTime (Date 2024 3 4) (Time 9 30 0) 0"

subsection \<open>The constructor\<close>

text \<open>
  C34. Every expression the constructor accepts has non-empty second, minute, hour and month sets
  inside their ranges, a non-empty year set within 1970 to 2099 (if it has one), and a day-of-month
  field that names a day, with days of month within 1 to 31 and days of week within 0 to 6.  The
  day-of-week sets may all be empty: a reversed range of last weekdays names no day.
\<close>

theorem accepted_expression_in_range:
  assumes "CronTab_init sha256 hash_key expression = Inr ct"
  shows "wf_crontab ct \<and> wf_days ct \<and> names_day ct"
  using CronTab_init_wf [OF assms] CronTab_init_names_day [OF assms] by simp

theorem accepted_expression_in_range_witness: "wf_crontab workdays \<and> wf_days workdays \<and> names_day workdays"
  by (rule accepted_expression_in_range [OF workdays_parsed])

lemma reversed_last_range_names_nothing:
  "case CronTab_init no_hash None ''0 0 * * L5-2'' of
     Inl _ \<Rightarrow> False | Inr ct \<Rightarrow> ct_dow ct = {} \<and> ct_dow_last ct = {} \<and> ct_dow_nth ct = {}"
  by code_simp

text \<open>
  C25. The resolved source of an accepted expression, in which every hashed item is replaced by
  the values it hashes to, is accepted without a hash key and denotes an equal schedule.
\<close>

theorem resolved_source_reparses:
  assumes "CronTab_init sha256 hash_key expression = Inr ct"
  shows "\<exists>ct'. CronTab_init sha256 None (ct_resolved ct) = Inr ct' \<and> crontab_eq ct ct'"
  by (rule CronTab_init_resolved [OF assms])

text \<open>A hashed minute and a hashed hour step.\<close>

theorem resolved_source_reparses_witness:
  "\<exists>ct ct'. CronTab_init no_hash (Some ''job'') ''H H/6 * * *'' = Inr ct \<and>
     ct_resolved ct \<noteq> ''H H/6 * * *'' \<and>
     CronTab_init no_hash None (ct_resolved ct) = Inr ct' \<and> crontab_eq ct ct'"
proof -
  let ?r = "CronTab_init no_hash (Some ''job'') ''H H/6 * * *''"
  have ok: "\<not> isl ?r" and res: "ct_resolved (projr ?r) \<noteq> ''H H/6 * * *''" by code_simp+
  then obtain ct where ct: "?r = Inr ct" by (cases ?r) auto
  with res have "ct_resolved ct \<noteq> ''H H/6 * * *''" by simp
  with resolved_source_reparses [OF ct] ct show ?thesis by blast
qed

subsection \<open>The civil searches\<close>

text \<open>
  C1. For an accepted expression the forward search returns, from every instant before the year
  9999, the least matching whole second strictly after it; it returns nothing only when no
  matching second is left up to the 2099 horizon.
\<close>

theorem next_civil_is_least_occurrence:
  assumes "CronTab_init sha256 hash_key expression = Inr ct" and "valid_datetime civil"
    and "d_year (dt_date civil) < 9999"
  shows "(\<exists>t. next_civil ct civil = Inr (Some t) \<and> occurs ct t \<and> civil < t \<and> within_horizon t \<and>
            (\<forall>t'. occurs ct t' \<and> civil < t' \<longrightarrow> t \<le> t')) \<or>
         (next_civil ct civil = Inr None \<and> (\<forall>t'. occurs ct t' \<and> civil < t' \<longrightarrow> \<not> within_horizon t'))"
proof -
  note wf = CronTab_init_wf(1) [OF assms(1)]
  obtain r where r: "next_civil ct civil = Inr r" using next_civil_total [OF wf assms(3)] by blast
  show ?thesis
  proof (cases r)
    case None
    then show ?thesis using next_civil_cases(2) [OF r wf assms(2)] r by blast
  next
    case (Some t)
    then show ?thesis using next_civil_cases(1) [OF r wf assms(2)] r by blast
  qed
qed

theorem next_civil_is_least_occurrence_witness:
  "next_civil workdays friday = Inr (Some monday) \<and> occurs workdays monday \<and>
   \<not> (\<exists>t'. occurs workdays t' \<and> friday < t' \<and> t' < monday)"
proof -
  have v: "valid_datetime friday" by (simp add: valid_datetime_def valid_date_def valid_tod_def days_in_month_def)
  have n: "next_civil workdays friday = Inr (Some monday)" by code_simp
  from next_civil_is_least_occurrence [OF workdays_parsed v] n
  have "occurs workdays monday \<and> (\<forall>t'. occurs workdays t' \<and> friday < t' \<longrightarrow> monday \<le> t')" by auto
  with n show ?thesis by (meson not_le)
qed

text \<open>
  C24. The backward search mirrors it: from every instant after the year 1 it returns the greatest
  matching whole second strictly before it, or nothing when none is left down to 1970.
\<close>

theorem prev_civil_is_greatest_occurrence:
  assumes "CronTab_init sha256 hash_key expression = Inr ct" and "valid_datetime civil"
    and "1 < d_year (dt_date civil)"
  shows "(\<exists>t. prev_civil ct civil = Inr (Some t) \<and> occurs ct t \<and> t < civil \<and> within_floor t \<and>
            (\<forall>t'. occurs ct t' \<and> t' < civil \<longrightarrow> t' \<le> t)) \<or>
         (prev_civil ct civil = Inr None \<and> (\<forall>t'. occurs ct t' \<and> t' < civil \<longrightarrow> \<not> within_floor t'))"
proof -
  note wf = CronTab_init_wf(1) [OF assms(1)]
  obtain r where r: "prev_civil ct civil = Inr r" using prev_civil_total [OF wf assms(3)] by blast
  show ?thesis
  proof (cases r)
    case None
    then show ?thesis using prev_civil_cases(2) [OF r wf assms(2)] r by blast
  next
    case (Some t)
    then show ?thesis using prev_civil_cases(1) [OF r wf assms(2)] r by blast
  qed
qed

theorem prev_civil_is_greatest_occurrence_witness:
  "prev_civil workdays monday = Inr (Some friday) \<and> occurs workdays friday \<and>
   \<not> (\<exists>t'. occurs workdays t' \<and> friday < t' \<and> t' < monday)"
proof -
  have v: "valid_datetime monday" by (simp add: valid_datetime_def valid_date_def valid_tod_def days_in_month_def)
  have n: "prev_civil workdays monday = Inr (Some friday)" by code_simp
  from prev_civil_is_greatest_occurrence [OF workdays_parsed v] n
  have "occurs workdays friday \<and> (\<forall>t'. occurs workdays t' \<and> t' < monday \<longrightarrow> t' \<le> friday)" by auto
  with n show ?thesis by (meson not_le)
qed

text \<open>
  The two searches are inverse on occurrences: going forward from an occurrence of 1970 or
  later and then backward from the result comes back to it.
\<close>

theorem prev_after_next_returns:
  assumes "wf_crontab ct" and "occurs ct civil" and "within_floor civil" and "next_civil ct civil = Inr (Some t)"
  shows "prev_civil ct t = Inr (Some civil)"
proof -
  have v: "valid_datetime civil" using assms(2) by (simp add: occurs_def)
  note n = next_civil_cases(1) [OF assms(4,1) v refl]
  have vt: "valid_datetime t" using n by (simp add: occurs_def)
  have "d_year (dt_date civil) \<le> d_year (dt_date t)"
    using n by (cases civil; cases t; cases "dt_date civil"; cases "dt_date t") auto
  then have "1 < d_year (dt_date t)" using assms(3) by (simp add: within_floor_def YEAR_FLOOR_def)
  then obtain r where r: "prev_civil ct t = Inr r" using prev_civil_total [OF assms(1)] by blast
  note p = prev_civil_cases [OF r assms(1) vt]
  show ?thesis
  proof (cases r)
    case None
    then show ?thesis using p(2) assms(2,3) n by blast
  next
    case (Some q)
    then have "civil \<le> q" "occurs ct q" "q < t" using p(1) assms(2) n by auto
    moreover have "\<not> civil < q" using n calculation by auto
    ultimately show ?thesis using r Some by simp
  qed
qed

theorem prev_after_next_returns_witness:
  "next_civil workdays friday = Inr (Some monday) \<and> prev_civil workdays monday = Inr (Some friday)"
proof -
  have o: "occurs workdays friday" by code_simp
  have f: "within_floor friday" by code_simp
  have n: "next_civil workdays friday = Inr (Some monday)" by code_simp
  from prev_after_next_returns [OF workdays_wf o f n] n show ?thesis by blast
qed

subsection \<open>The generator and the delay\<close>

definition enumerates :: "crontab \<Rightarrow> nat \<Rightarrow> datetime \<Rightarrow> datetime list \<Rightarrow> bool" where
  "enumerates ct n civil ts \<longleftrightarrow>
     length ts \<le> n \<and> sorted_wrt (<) ts \<and> (\<forall>t \<in> set ts. occurs ct t \<and> civil < t) \<and>
     (\<forall>t. occurs ct t \<and> civil < t \<and> within_horizon t \<and> (length ts < n \<or> ts \<noteq> [] \<and> t \<le> last ts) \<longrightarrow> t \<in> set ts)"

lemma enumerates_Cons:
  assumes "enumerates ct n t ts" and "occurs ct t" and "civil < t"
    and "\<And>t'. occurs ct t' \<Longrightarrow> civil < t' \<Longrightarrow> t \<le> t'"
  shows "enumerates ct (Suc n) civil (t # ts)"
proof -
  have e: "length ts \<le> n" "sorted_wrt (<) ts" "\<forall>u \<in> set ts. occurs ct u \<and> t < u"
    "\<And>u. occurs ct u \<Longrightarrow> t < u \<Longrightarrow> within_horizon u \<Longrightarrow> length ts < n \<or> ts \<noteq> [] \<and> u \<le> last ts \<Longrightarrow> u \<in> set ts"
    using assms(1) unfolding enumerates_def by blast+
  have all: "u \<in> set (t # ts)" if u: "occurs ct u" "civil < u" "within_horizon u"
    "length (t # ts) < Suc n \<or> u \<le> last (t # ts)" for u
  proof (cases "u = t")
    case False
    then have "t < u" using assms(4) u by fastforce
    then show ?thesis using e(4) [of u] u by (cases "ts = []") auto
  qed simp
  have "civil < u" if "u \<in> set ts" for u using e(3) that assms(3) by (blast intro: less_trans)
  then have mem: "\<forall>u \<in> set (t # ts). occurs ct u \<and> civil < u" using e(3) assms(2,3) by simp
  show ?thesis
    unfolding enumerates_def
  proof (intro conjI allI impI)
    show "length (t # ts) \<le> Suc n" using e(1) by simp
    show "sorted_wrt (<) (t # ts)" using e(2,3) by simp
    show "\<forall>u \<in> set (t # ts). occurs ct u \<and> civil < u" by (rule mem)
    show "u \<in> set (t # ts)" if "occurs ct u \<and> civil < u \<and> within_horizon u \<and>
        (length (t # ts) < Suc n \<or> t # ts \<noteq> [] \<and> u \<le> last (t # ts))" for u
      using all [of u] that by blast
  qed
qed

lemma occurrences_enumerate:
  assumes "wf_crontab ct"
  shows "valid_datetime civil \<Longrightarrow> occurrences_naive n ct civil = Inr ts \<Longrightarrow> enumerates ct n civil ts"
proof (induction n arbitrary: civil ts)
  case (Suc n)
  obtain r where r: "next_civil ct civil = Inr r"
    using Suc.prems(2) by (cases "next_civil ct civil") auto
  note c = next_civil_cases [OF r assms Suc.prems(1)]
  show ?case
  proof (cases r)
    case None
    then have "ts = []" using Suc.prems(2) r by simp
    then show ?thesis using c(2) None by (auto simp: enumerates_def)
  next
    case (Some t)
    then obtain rest where rest: "occurrences_naive n ct t = Inr rest" and ts: "ts = t # rest"
      using Suc.prems(2) r by (auto simp: bind_result_Inr)
    have t: "occurs ct t" "civil < t" "\<And>t'. occurs ct t' \<Longrightarrow> civil < t' \<Longrightarrow> t \<le> t'"
      using c(1) [OF Some] by auto
    have "enumerates ct n t rest" by (rule Suc.IH [OF _ rest]) (use t(1) in \<open>simp add: occurs_def\<close>)
    then show ?thesis unfolding ts by (rule enumerates_Cons [OF _ t])
  qed
qed (auto simp: enumerates_def)

text \<open>
  The first values the generator yields from a naive start are matching seconds strictly
  after it, in strictly increasing order, without a gap: every matching second after the start
  and up to the last value (up to the 2099 horizon when the generator has ended) is among them.
\<close>

theorem occurrences_are_the_occurrences:
  assumes "wf_crontab ct" and "valid_datetime start" and "occurrences_naive n ct start = Inr ts"
  shows "length ts \<le> n \<and> sorted_wrt (<) ts \<and> (\<forall>t \<in> set ts. occurs ct t \<and> start < t) \<and>
    (\<forall>t. occurs ct t \<and> start < t \<and> within_horizon t \<and> (length ts < n \<or> ts \<noteq> [] \<and> t \<le> last ts) \<longrightarrow> t \<in> set ts)"
  using occurrences_enumerate [OF assms] unfolding enumerates_def .

theorem occurrences_are_the_occurrences_witness:
  "occurrences_naive 2 workdays (DateTime (Date 2024 3 1) (Time 0 0 0) 0) = Inr [friday, monday] \<and>
   \<not> (\<exists>t. occurs workdays t \<and> DateTime (Date 2024 3 1) (Time 0 0 0) 0 < t \<and> t \<le> monday \<and> t \<notin> {friday, monday})"
proof -
  let ?s = "DateTime (Date 2024 3 1) (Time 0 0 0) 0"
  have v: "valid_datetime ?s" by (simp add: valid_datetime_def valid_date_def valid_tod_def days_in_month_def)
  have n: "occurrences_naive 2 workdays ?s = Inr [friday, monday]" by code_simp
  have "t \<in> {friday, monday}" if t: "occurs workdays t" "?s < t" "t \<le> monday" for t
  proof -
    have "within_horizon t"
      using t(3) by (cases t; cases "dt_date t") (auto simp: within_horizon_def YEAR_HORIZON_def)
    moreover have "length [friday, monday] < 2 \<or> [friday, monday] \<noteq> [] \<and> t \<le> last [friday, monday]"
      using t(3) by (simp del: datetime_le_iff)
    ultimately have "t \<in> set [friday, monday]"
      using occurrences_are_the_occurrences [OF workdays_wf v n] t(1,2) by blast
    then show ?thesis unfolding list.set .
  qed
  with n show ?thesis by blast
qed

text \<open>
  The delay \<open>next\<close> reports for a naive instant is positive: a schedule never fires again at the
  instant it is asked about.
\<close>

theorem next_delay_positive:
  assumes "wf_crontab ct" and "valid_datetime now" and "next_naive ct now = Inr (Some delay)"
  shows "0 < delay"
proof -
  obtain t where t: "next_civil ct now = Inr (Some t)" and d: "delay = total_seconds t now"
    using assms(3) by (auto simp: next_naive_def bind_result_Inr)
  note c = next_civil_cases(1) [OF t assms(1,2) refl]
  have "microseconds_of now < microseconds_of t"
    using microseconds_less [of now t] c assms(2) by (simp add: occurs_def)
  then show ?thesis by (simp add: d total_seconds_def)
qed

theorem next_delay_positive_witness:
  "next_naive workdays friday = Inr (Some 259200) \<and> (0 :: real) < 259200"
proof -
  have v: "valid_datetime friday" by (simp add: valid_datetime_def valid_date_def valid_tod_def days_in_month_def)
  have n: "next_naive workdays friday = Inr (Some 259200)" by code_simp
  from next_delay_positive [OF workdays_wf v n] n show ?thesis by blast
qed

text \<open>
  The weekday shift of \<open>nW\<close> and \<open>LW\<close> stays in the month, lands on a Monday to Friday, and no
  weekday of the month is nearer to the target day.
\<close>

theorem shift_is_nearest_weekday:
  assumes "1 \<le> target" and "target \<le> days_in_month y m"
  shows "let d = shift_to_weekday y m target (days_in_month y m)
    in 1 \<le> d \<and> d \<le> days_in_month y m \<and> weekday y m d < 5 \<and>
       (\<forall>d'. 1 \<le> d' \<and> d' \<le> days_in_month y m \<and> weekday y m d' < 5 \<longrightarrow> \<bar>d - target\<bar> \<le> \<bar>d' - target\<bar>)"
  using shift_in_month [OF assms, of y m] shift_is_weekday [OF assms, of y m]
    shift_nearest [OF assms, of _ y m]
  by (simp add: Let_def is_weekday_def)

theorem shift_is_nearest_weekday_witness:
  "shift_to_weekday 2024 6 1 (days_in_month 2024 6) = 3 \<and>
   \<not> (\<exists>d'. 1 \<le> d' \<and> d' \<le> days_in_month 2024 6 \<and> weekday 2024 6 d' < 5 \<and>
      \<bar>d' - 1\<bar> < \<bar>shift_to_weekday 2024 6 1 (days_in_month 2024 6) - 1\<bar>)"
proof -
  have s: "shift_to_weekday 2024 6 1 (days_in_month 2024 6) = 3" by code_simp
  have "1 \<le> days_in_month 2024 6" by code_simp
  from shift_is_nearest_weekday [OF _ this] s show ?thesis by (fastforce simp: Let_def)
qed

end
