(* ===== verification/CrontabFile.thy ===== *)
theory CrontabFile
  imports CronParse
begin

text \<open>
  Classic crontab files (\<open>crontabs.py\<close>): recognising them and lowering their entries to job
  dictionaries.  A job dictionary is the record \<open>crontab_job\<close>; an absent key is an empty list or \<open>None\<close>.
  \<open>ZoneInfo\<close> knows the names for which \<open>known_zone\<close> holds.  Errors carry the line number of their message.
\<close>

subsection \<open>Strings\<close>

text \<open>\<open>s.strip()\<close>, and \<open>s.split(None, n)\<close>, whose last item keeps its blanks.\<close>

definition strip :: "string \<Rightarrow> string" where
  "strip s = rev (dropWhile is_space (rev (dropWhile is_space s)))"

primrec split_limit :: "nat \<Rightarrow> string \<Rightarrow> string list" where
  "split_limit 0 s = (let t = dropWhile is_space s in if t = [] then [] else [t])"
| "split_limit (Suc n) s =
     (let t = dropWhile is_space s
      in if t = [] then []
         else takeWhile (\<lambda>c. \<not> is_space c) t # split_limit n (dropWhile (\<lambda>c. \<not> is_space c) t))"

definition basename :: "string \<Rightarrow> string" where
  "basename path = last (split_on CHR ''/'' path)"

text \<open>The extension of \<open>os.path.splitext\<close>: from the last dot on, unless only dots precede it.\<close>

definition extension :: "string \<Rightarrow> string" where
  "extension name =
     (let stem = rev (tl (dropWhile (\<lambda>c. c \<noteq> CHR ''.'') (rev name)))
      in if CHR ''.'' \<in> set name \<and> list_ex (\<lambda>c. c \<noteq> CHR ''.'') stem
         then CHR ''.'' # rev (takeWhile (\<lambda>c. c \<noteq> CHR ''.'') (rev name)) else [])"

subsection \<open>Lines\<close>

definition CRONTAB_EXTENSIONS :: "string list" where
  "CRONTAB_EXTENSIONS = [''.crontab'', ''.cron'']"

definition CRONTAB_BASENAME :: string where
  "CRONTAB_BASENAME = ''crontab''"

definition NICKNAMES :: "string list" where
  "NICKNAMES = [''@reboot'', ''@yearly'', ''@annually'', ''@monthly'', ''@weekly'', ''@daily'', ''@midnight'', ''@hourly'']"

definition is_name_start :: "char \<Rightarrow> bool" where
  "is_name_start c \<longleftrightarrow> (65 \<le> code_of c \<and> code_of c \<le> 90) \<or> (97 \<le> code_of c \<and> code_of c \<le> 122) \<or> c = CHR ''_''"

definition is_name_char :: "char \<Rightarrow> bool" where
  "is_name_char c \<longleftrightarrow> is_name_start c \<or> is_digit c"

text \<open>The match of \<open>_ENV_LINE\<close>: name and value.\<close>

definition env_line :: "string \<Rightarrow> (string \<times> string) option" where
  "env_line line =
     (case line of
        [] \<Rightarrow> None
      | c # _ \<Rightarrow>
          if \<not> is_name_start c then None
          else (case dropWhile is_space (dropWhile is_name_char line) of
                  [] \<Rightarrow> None
                | d # rest \<Rightarrow>
                    if d = CHR ''='' then Some (takeWhile is_name_char line, dropWhile is_space rest) else None))"

definition refused_control :: "char \<Rightarrow> bool" where
  "refused_control c \<longleftrightarrow> code_of c < 32 \<and> code_of c \<noteq> 9 \<and> code_of c \<noteq> 10 \<or> 127 \<le> code_of c \<and> code_of c < 160"

definition physical_lines :: "string \<Rightarrow> string list" where
  "physical_lines data =
     map (\<lambda>line. if line \<noteq> [] \<and> last line = CHR 0x0D then butlast line else line) (split_on CHR 0x0A data)"

definition is_crontab_path :: "string \<Rightarrow> bool" where
  "is_crontab_path path =
     (let name = lower (basename path)
      in name = CRONTAB_BASENAME \<or> extension name \<in> set CRONTAB_EXTENSIONS)"

definition skipped_line :: "string \<Rightarrow> bool" where
  "skipped_line line \<longleftrightarrow> line = [] \<or> hd line = CHR ''#''"

fun sniff_lines :: "(string \<Rightarrow> int list) \<Rightarrow> string list \<Rightarrow> bool" where
  "sniff_lines sha256 [] = False"
| "sniff_lines sha256 (raw # lines) =
     (let line = strip raw
      in if skipped_line line then sniff_lines sha256 lines
         else if env_line line \<noteq> None \<or> hd line = CHR ''@'' then True
         else (let fields = split_limit 5 line
               in length fields \<ge> 6 \<and>
                  (case CronTab_init sha256 (Some []) (join_with CHR '' '' (take 5 fields)) of Inl e \<Rightarrow> False | Inr ct \<Rightarrow> True)))"

definition looks_like_crontab :: "(string \<Rightarrow> int list) \<Rightarrow> string \<Rightarrow> bool" where
  "looks_like_crontab sha256 data = sniff_lines sha256 (physical_lines data)"

subsection \<open>Entries\<close>

datatype crontab_problem =
  ControlCharacter | UnknownTimezone string | UnknownNickname string | NotALine | NoCommand string
| InvalidSchedule string "cron_error \<times> quartz_hint option" | UnescapedPercent

type_synonym crontab_error = "nat \<times> crontab_problem"

record crontab_job =
  cj_name :: string
  cj_schedule :: string
  cj_command :: string
  cj_environment :: "string dict"
  cj_shell :: "string option"
  cj_timezone :: "string option"

definition unquote :: "string \<Rightarrow> string" where
  "unquote value =
     (if length value \<ge> 2 \<and> hd value = last value \<and> hd value \<in> {CHR 0x27, CHR 0x22} then butlast (tl value) else value)"

fun unescape_percent :: "string \<Rightarrow> string option" where
  "unescape_percent [] = Some []"
| "unescape_percent [c] = (if c = CHR ''%'' then None else Some [c])"
| "unescape_percent (c # d # cs) =
     (if c = CHR 0x5C \<and> d = CHR ''%'' then map_option ((#) CHR ''%'') (unescape_percent cs)
      else if c = CHR ''%'' then None
      else map_option ((#) c) (unescape_percent (d # cs)))"

definition truthy_value :: "string dict \<Rightarrow> string \<Rightarrow> string option" where
  "truthy_value env key = (case dict_get env key of Some v \<Rightarrow> if v = [] then None else Some v | None \<Rightarrow> None)"

text \<open>The schedule and the command of an entry.\<close>

definition entry_parts :: "string \<Rightarrow> (crontab_problem, string \<times> string) result" where
  "entry_parts line =
     (if hd line = CHR ''@''
      then (let parts = split_limit 1 line; nickname = hd parts
            in if nickname \<notin> set NICKNAMES then Inl (UnknownNickname nickname)
               else Inr (if nickname = ''@midnight'' then ''@daily'' else nickname,
                         if length parts = 2 then parts ! 1 else []))
      else (let fields = split_limit 5 line
            in if length fields < 6 then Inl NotALine
               else Inr (join_with CHR '' '' (take 5 fields), fields ! 5)))"

definition check_schedule :: "(string \<Rightarrow> int list) \<Rightarrow> string \<Rightarrow> string \<Rightarrow> (crontab_problem, unit) result" where
  "check_schedule sha256 name schedule =
     (if schedule = ''@reboot'' then Inr ()
      else (case CronTab_init sha256 (Some name) schedule of Inl e \<Rightarrow> Inl (InvalidSchedule schedule e) | Inr ct \<Rightarrow> Inr ()))"

definition job_from_line ::
  "(string \<Rightarrow> int list) \<Rightarrow> string \<Rightarrow> nat \<Rightarrow> string dict \<Rightarrow> string \<Rightarrow> (crontab_problem, crontab_job) result" where
  "job_from_line sha256 label lineno environment line =
     bind_result (entry_parts line) (\<lambda>(schedule, command).
       if command = [] then Inl (NoCommand schedule)
       else (let name = label @ '':'' @ show_nat lineno
             in bind_result (check_schedule sha256 name schedule) (\<lambda>_.
                  case unescape_percent command of
                    None \<Rightarrow> Inl UnescapedPercent
                  | Some cmd \<Rightarrow>
                      Inr \<lparr>cj_name = name, cj_schedule = schedule, cj_command = cmd, cj_environment = environment,
                           cj_shell = truthy_value environment ''SHELL'', cj_timezone = truthy_value environment ''CRON_TZ''\<rparr>)))"

fun parse_lines ::
  "(string \<Rightarrow> int list) \<Rightarrow> (string \<Rightarrow> bool) \<Rightarrow> string \<Rightarrow> nat \<Rightarrow> string dict \<Rightarrow> string list \<Rightarrow>
   (crontab_error, crontab_job list) result" where
  "parse_lines sha256 known_zone label lineno environment [] = Inr []"
| "parse_lines sha256 known_zone label lineno environment (raw # lines) =
     (let line = strip raw
      in if skipped_line line then parse_lines sha256 known_zone label (lineno + 1) environment lines
         else if list_ex refused_control line then Inl (lineno, ControlCharacter)
         else (case env_line line of
                 Some (name, text) \<Rightarrow>
                   (let value = unquote text
                    in if name = ''CRON_TZ'' \<and> \<not> known_zone value then Inl (lineno, UnknownTimezone value)
                       else parse_lines sha256 known_zone label (lineno + 1) (dict_set name value environment) lines)
               | None \<Rightarrow>
                   (case job_from_line sha256 label lineno environment line of
                      Inl e \<Rightarrow> Inl (lineno, e)
                    | Inr job \<Rightarrow>
                        bind_result (parse_lines sha256 known_zone label (lineno + 1) environment lines)
                          (\<lambda>jobs. Inr (job # jobs)))))"

definition parse_crontab ::
  "(string \<Rightarrow> int list) \<Rightarrow> (string \<Rightarrow> bool) \<Rightarrow> string \<Rightarrow> string \<Rightarrow> (crontab_error, crontab_job list) result" where
  "parse_crontab sha256 known_zone data path =
     parse_lines sha256 known_zone (if basename path = [] then CRONTAB_BASENAME else basename path) 1 [] (physical_lines data)"

end
