(* ===== verification/CrontabProps.thy ===== *)
theory CrontabProps
  imports CrontabFile
begin

text \<open>
  Properties of crontab files: what is written in crontab syntax is what the parser reads, and what the
  parser returns can be scheduled.
\<close>

subsection \<open>Writing a crontab\<close>

datatype crontab_item =
  Comment string | Assign string string | Entry "string list" string | Nick string string

fun escape_percent :: "string \<Rightarrow> string" where
  "escape_percent [] = []"
| "escape_percent (c # cs) = (if c = CHR ''%'' then CHR 0x5C # CHR ''%'' # escape_percent cs else c # escape_percent cs)"

fun render_item :: "crontab_item \<Rightarrow> string" where
  "render_item (Comment t) = CHR ''#'' # t"
| "render_item (Assign n v) = n @ ''='' @ [CHR 0x22] @ v @ [CHR 0x22]"
| "render_item (Entry columns cmd) = join_with CHR '' '' columns @ CHR '' '' # escape_percent cmd"
| "render_item (Nick n cmd) = n @ CHR '' '' # escape_percent cmd"

definition render_crontab :: "crontab_item list \<Rightarrow> string" where
  "render_crontab items = join_with CHR 0x0A (map render_item items)"

text \<open>What can be written: no line breaks or control characters, a command without blanks at its ends.\<close>

definition plain :: "string \<Rightarrow> bool" where
  "plain s \<longleftrightarrow> CHR 0x0A \<notin> set s \<and> \<not> list_ex refused_control s"

definition proper_command :: "string \<Rightarrow> bool" where
  "proper_command cmd \<longleftrightarrow> plain cmd \<and> cmd \<noteq> [] \<and> \<not> is_space (hd cmd) \<and> \<not> is_space (last cmd)"

definition schedulable :: "(string \<Rightarrow> int list) \<Rightarrow> string \<Rightarrow> string \<Rightarrow> bool" where
  "schedulable sha256 name schedule \<longleftrightarrow>
     schedule = ''@reboot'' \<or> (\<exists>ct. CronTab_init sha256 (Some name) schedule = Inr ct)"

fun item_ok :: "(string \<Rightarrow> int list) \<Rightarrow> (string \<Rightarrow> bool) \<Rightarrow> string \<Rightarrow> crontab_item \<Rightarrow> bool" where
  "item_ok sha256 known_zone name (Comment t) \<longleftrightarrow> CHR 0x0A \<notin> set t"
| "item_ok sha256 known_zone name (Assign n v) \<longleftrightarrow>
     n \<noteq> [] \<and> is_name_start (hd n) \<and> list_all is_name_char n \<and> plain v \<and> (n = ''CRON_TZ'' \<longrightarrow> known_zone v)"
| "item_ok sha256 known_zone name (Entry columns cmd) \<longleftrightarrow>
     length columns = 5 \<and> list_all is_word columns \<and> list_all plain columns \<and> hd (hd columns) \<notin> {CHR ''#'', CHR ''@''} \<and>
     proper_command cmd \<and> env_line (render_item (Entry columns cmd)) = None \<and> schedulable sha256 name (join_with CHR '' '' columns)"
| "item_ok sha256 known_zone name (Nick n cmd) \<longleftrightarrow> n \<in> set NICKNAMES \<and> proper_command cmd"

definition line_name :: "string \<Rightarrow> nat \<Rightarrow> string" where
  "line_name label lineno = label @ '':'' @ show_nat lineno"

text \<open>The jobs that are meant: assignments apply to the entries below them.\<close>

definition meant_job :: "string \<Rightarrow> string dict \<Rightarrow> string \<Rightarrow> string \<Rightarrow> crontab_job" where
  "meant_job name env schedule cmd = \<lparr>cj_name = name, cj_schedule = schedule, cj_command = cmd, cj_environment = env,
     cj_shell = truthy_value env ''SHELL'', cj_timezone = truthy_value env ''CRON_TZ''\<rparr>"

fun meant_jobs :: "string \<Rightarrow> nat \<Rightarrow> string dict \<Rightarrow> crontab_item list \<Rightarrow> crontab_job list" where
  "meant_jobs label k env [] = []"
| "meant_jobs label k env (Comment t # items) = meant_jobs label (k + 1) env items"
| "meant_jobs label k env (Assign n v # items) = meant_jobs label (k + 1) (dict_set n v env) items"
| "meant_jobs label k env (Entry columns cmd # items) =
     meant_job (line_name label k) env (join_with CHR '' '' columns) cmd # meant_jobs label (k + 1) env items"
| "meant_jobs label k env (Nick n cmd # items) =
     meant_job (line_name label k) env (if n = ''@midnight'' then ''@daily'' else n) cmd # meant_jobs label (k + 1) env items"

fun items_ok :: "(string \<Rightarrow> int list) \<Rightarrow> (string \<Rightarrow> bool) \<Rightarrow> string \<Rightarrow> nat \<Rightarrow> crontab_item list \<Rightarrow> bool" where
  "items_ok sha256 known_zone label k [] \<longleftrightarrow> True"
| "items_ok sha256 known_zone label k (item # items) \<longleftrightarrow>
     item_ok sha256 known_zone (line_name label k) item \<and> items_ok sha256 known_zone label (k + 1) items"

subsection \<open>Lemmas on strings\<close>

lemma strip_fits:
  assumes "s \<noteq> []" "\<not> is_space (hd s)" "\<not> is_space (last s)"
  shows "strip s = s"
proof -
  have "dropWhile is_space s = s" using assms(1,2) by (cases s) auto
  moreover have "dropWhile is_space (rev s) = rev s" using assms(1,3) by (cases s rule: rev_cases) auto
  ultimately show ?thesis by (simp add: strip_def)
qed

lemma unescape_step:
  assumes "c \<noteq> CHR ''%''" "c \<noteq> CHR 0x5C \<or> s = [] \<or> hd s \<noteq> CHR ''%''"
  shows "unescape_percent (c # s) = map_option ((#) c) (unescape_percent s)"
  using assms by (cases s) auto

lemma escape_head: "escape_percent s \<noteq> [] \<Longrightarrow> hd (escape_percent s) \<noteq> CHR ''%''"
  by (cases s) auto

lemma unescape_escape: "unescape_percent (escape_percent s) = Some s"
proof (induction s)
  case (Cons c s)
  show ?case
  proof (cases "c = CHR ''%''")
    case True
    then show ?thesis using Cons by simp
  next
    case False
    have "unescape_percent (c # escape_percent s) = map_option ((#) c) (unescape_percent (escape_percent s))"
      by (rule unescape_step) (use False escape_head [of s] in auto)
    then show ?thesis using False Cons by simp
  qed
qed simp

lemma escape_ends: "s \<noteq> [] \<Longrightarrow> escape_percent s \<noteq> [] \<and> (hd (escape_percent s) = hd s \<or> hd (escape_percent s) = CHR 0x5C) \<and>
    last (escape_percent s) = last s"
proof (induction s)
  case (Cons c s)
  then show ?case by (cases s) auto
qed simp

lemma escape_chars: "x \<in> set (escape_percent s) \<Longrightarrow> x \<in> set s \<or> x = CHR 0x5C"
  by (induction s) (auto split: if_splits)

lemma plain_escape: "plain s \<Longrightarrow> plain (escape_percent s)"
  by (auto simp: plain_def list_ex_iff refused_control_def dest!: escape_chars)

lemma drop_word:
  assumes "is_word w" "is_space c"
  shows "dropWhile is_space (w @ c # s) = w @ c # s" "takeWhile (\<lambda>x. \<not> is_space x) (w @ c # s) = w"
    "dropWhile (\<lambda>x. \<not> is_space x) (w @ c # s) = c # s"
proof -
  have w: "\<forall>x \<in> set w. \<not> is_space x" "w \<noteq> []" using assms(1) by (auto simp: is_word_def list_all_iff)
  then show "dropWhile is_space (w @ c # s) = w @ c # s" by (cases w) auto
  show "takeWhile (\<lambda>x. \<not> is_space x) (w @ c # s) = w" "dropWhile (\<lambda>x. \<not> is_space x) (w @ c # s) = c # s"
    using w(1) assms(2) by (auto simp: takeWhile_append dropWhile_append)
qed

lemma split_limit_blank: "is_space c \<Longrightarrow> split_limit n (c # s) = split_limit n s"
  by (cases n) simp_all

lemma split_limit_words:
  assumes "list_all is_word ws" "ws \<noteq> []" "s \<noteq> []" "\<not> is_space (hd s)"
  shows "split_limit (length ws) (join_with CHR '' '' ws @ CHR '' '' # s) = ws @ [s]"
  using assms(1,2)
proof (induction "CHR '' ''" ws rule: join_with.induct)
  case (2 w)
  have blank: "is_space CHR '' ''" by (simp add: is_space_def)
  have "split_limit 0 (CHR '' '' # s) = [s]"
    using assms(3,4) blank by (cases s) (auto simp: Let_def)
  then show ?case using drop_word [OF _ blank, of w s] 2 by (auto simp: is_word_def Let_def)
next
  case (3 w v ws)
  have blank: "is_space CHR '' ''" by (simp add: is_space_def)
  let ?rest = "join_with CHR '' '' (v # ws) @ CHR '' '' # s"
  have "split_limit (length (v # ws)) ?rest = (v # ws) @ [s]" using 3 by simp
  moreover have "split_limit (Suc (length (v # ws))) (w @ CHR '' '' # ?rest) = w # split_limit (length (v # ws)) ?rest"
    using drop_word [OF _ blank, of w ?rest] 3(2) blank
    by (subst split_limit.simps(2)) (auto simp: is_word_def Let_def split_limit_blank)
  ultimately show ?case by simp
qed simp

lemma strip_hd:
  assumes "s \<noteq> []" "\<not> is_space (hd s)"
  shows "strip s \<noteq> [] \<and> hd (strip s) = hd s"
proof -
  obtain c t where s: "s = c # t" "\<not> is_space c" using assms by (cases s) auto
  have "dropWhile is_space (r @ [c]) \<noteq> [] \<and> last (dropWhile is_space (r @ [c])) = c" for r
    using s(2) by (induction r) auto
  then show ?thesis using s by (simp add: strip_def hd_rev)
qed

definition chomp :: "string \<Rightarrow> string" where
  "chomp line = (if line \<noteq> [] \<and> last line = CHR 0x0D then butlast line else line)"

lemma chomp_fits: "\<not> is_space (last line) \<Longrightarrow> chomp line = line"
  by (auto simp: chomp_def is_space_def)

lemma proper_escaped:
  assumes "proper_command cmd"
  shows "escape_percent cmd \<noteq> []" "\<not> is_space (hd (escape_percent cmd))" "\<not> is_space (last (escape_percent cmd))"
    "plain (escape_percent cmd)"
  using assms escape_ends [of cmd] plain_escape [of cmd] by (auto simp: proper_command_def is_space_def)

lemma plain_append [simp]: "plain (a @ b) \<longleftrightarrow> plain a \<and> plain b" "plain []"
  by (auto simp: plain_def)

lemma plain_join: "list_all plain ws \<Longrightarrow> plain (join_with CHR '' '' ws)"
proof (induction "CHR '' ''" ws rule: join_with.induct)
  case (3 w v ws)
  have "plain '' ''" by (simp add: plain_def refused_control_def)
  then show ?case using 3 plain_append(1) [of "'' ''" "join_with CHR '' '' (v # ws)"] by simp
qed simp_all

lemma name_plain:
  assumes "list_all is_name_char n"
  shows "plain n" "dropWhile is_name_char (n @ CHR ''='' # s) = CHR ''='' # s" "takeWhile is_name_char (n @ CHR ''='' # s) = n"
proof -
  have eq: "\<not> is_name_char CHR ''=''" by (simp add: is_name_char_def is_name_start_def is_digit_def)
  have n: "\<forall>x \<in> set n. is_name_char x" using assms by (simp add: list_all_iff)
  then show "dropWhile is_name_char (n @ CHR ''='' # s) = CHR ''='' # s" "takeWhile is_name_char (n @ CHR ''='' # s) = n"
    using eq by (auto simp: takeWhile_append dropWhile_append)
  have "code_of x \<ge> 48 \<and> code_of x < 127" if "x \<in> set n" for x
    using n that by (auto simp: is_name_char_def is_name_start_def is_digit_def)
  then show "plain n" by (fastforce simp: plain_def list_ex_iff refused_control_def)
qed

lemma env_line_assign:
  assumes "n \<noteq> []" "is_name_start (hd n)" "list_all is_name_char n" "\<not> is_space (hd v)" "v \<noteq> []"
  shows "env_line (n @ CHR ''='' # v) = Some (n, v)"
proof -
  have "\<not> is_space CHR ''=''" by (simp add: is_space_def)
  moreover have "dropWhile is_space v = v" using assms(4,5) by (cases v) auto
  ultimately show ?thesis
    using assms(1,2) name_plain(2,3) [OF assms(3), of v] by (cases n) (auto simp: env_line_def)
qed

lemma name_start_not: "is_name_start c \<Longrightarrow> \<not> is_space c \<and> c \<noteq> CHR ''#''"
  by (auto simp: is_name_start_def is_space_def)

subsection \<open>Reading what was written\<close>

text \<open>The line of an item, as the parser meets it.\<close>

lemma line_Comment:
  assumes "CHR 0x0A \<notin> set t"
  shows "skipped_line (strip (chomp (render_item (Comment t))))"
proof -
  have "chomp (CHR ''#'' # t) \<noteq> [] \<and> hd (chomp (CHR ''#'' # t)) = CHR ''#''" by (auto simp: chomp_def)
  then have "strip (chomp (CHR ''#'' # t)) \<noteq> [] \<and> hd (strip (chomp (CHR ''#'' # t))) = CHR ''#''"
    using strip_hd [of "chomp (CHR ''#'' # t)"] by (auto simp: is_space_def)
  then show ?thesis by (simp add: skipped_line_def)
qed

lemma line_Assign:
  assumes "item_ok sha256 known_zone name (Assign n v)"
  defines "line \<equiv> render_item (Assign n v)"
  shows "strip (chomp line) = line" "\<not> skipped_line line" "plain line" "env_line line = Some (n, CHR 0x22 # v @ [CHR 0x22])"
    "unquote (CHR 0x22 # v @ [CHR 0x22]) = v"
proof -
  have n: "n \<noteq> []" "is_name_start (hd n)" "list_all is_name_char n" "plain v" using assms by simp_all
  have l: "line \<noteq> []" "hd line = hd n" "last line = CHR 0x22" using n(1) by (simp_all add: line_def)
  have q: "\<not> is_space CHR 0x22" "plain [CHR 0x22]" "plain ''=''" by (simp_all add: is_space_def plain_def refused_control_def)
  show "strip (chomp line) = line" using strip_fits [of line] chomp_fits [of line] l q(1) name_start_not [OF n(2)] by simp
  show "\<not> skipped_line line" using l name_start_not [OF n(2)] by (simp add: skipped_line_def)
  show "plain line" using name_plain(1) [OF n(3)] n(4) q(2,3) unfolding line_def render_item.simps plain_append(1) by blast
  show "env_line line = Some (n, CHR 0x22 # v @ [CHR 0x22])"
    using env_line_assign [OF n(1-3), of "CHR 0x22 # v @ [CHR 0x22]"] q(1) by (simp add: line_def)
  show "unquote (CHR 0x22 # v @ [CHR 0x22]) = v" by (simp add: unquote_def)
qed

lemma line_Entry:
  assumes "item_ok sha256 known_zone name (Entry columns cmd)"
  defines "line \<equiv> render_item (Entry columns cmd)"
  shows "strip (chomp line) = line" "\<not> skipped_line line" "plain line" "env_line line = None"
    "entry_parts line = Inr (join_with CHR '' '' columns, escape_percent cmd)"
proof -
  have c: "length columns = 5" "list_all is_word columns" "list_all plain columns" "hd (hd columns) \<notin> {CHR ''#'', CHR ''@''}"
    "proper_command cmd" "env_line line = None" using assms by (simp_all add: line_def)
  note e = proper_escaped [OF c(5)]
  obtain w v ws where ws: "columns = w # v # ws" using c(1) by (cases columns; cases "tl columns") auto
  have w: "w \<noteq> []" "\<not> is_space (hd w)" using c(2) ws by (auto simp: is_word_def list_all_iff)
  have l: "line \<noteq> []" "hd line = hd w" "last line = last (escape_percent cmd)" using ws w(1) e(1) by (simp_all add: line_def)
  have sp: "plain '' ''" by (simp add: plain_def refused_control_def)
  show "strip (chomp line) = line" using strip_fits [of line] chomp_fits [of line] l w(2) e(3) by simp
  show "\<not> skipped_line line" using l c(4) ws by (simp add: skipped_line_def)
  have "line = join_with CHR '' '' columns @ '' '' @ escape_percent cmd" by (simp add: line_def)
  then show "plain line" using plain_join [OF c(3)] e(4) sp by (simp only: plain_append(1))
  show "env_line line = None" by (rule c(6))
  have "split_limit 5 line = columns @ [escape_percent cmd]"
    using split_limit_words [OF c(2) _ e(1,2)] ws unfolding c(1) line_def by simp
  then show "entry_parts line = Inr (join_with CHR '' '' columns, escape_percent cmd)"
    using l(2) c(1,4) ws by (simp add: entry_parts_def Let_def nth_append)
qed

lemma nickname_words:
  assumes "n \<in> set NICKNAMES"
  shows "is_word n" "plain n" "hd n = CHR ''@''" "n \<noteq> []"
    "n \<noteq> ''@reboot'' \<Longrightarrow> \<exists>ct. CronTab_init sha256 (Some name) (if n = ''@midnight'' then ''@daily'' else n) = Inr ct"
proof -
  have "list_all (\<lambda>n. is_word n \<and> plain n \<and> hd n = CHR ''@'' \<and> n \<noteq> []) NICKNAMES" by code_simp
  then show "is_word n" "plain n" "hd n = CHR ''@''" "n \<noteq> []" using assms by (auto simp: list_all_iff)
  show "\<exists>ct. CronTab_init sha256 (Some name) (if n = ''@midnight'' then ''@daily'' else n) = Inr ct" if "n \<noteq> ''@reboot''"
  proof -
    have "list_all (\<lambda>n. case CronTab_init sha256 (Some name) n of Inl e \<Rightarrow> False | Inr ct \<Rightarrow> True)
        [''@yearly'', ''@annually'', ''@monthly'', ''@weekly'', ''@daily'', ''@hourly'']" by code_simp
    moreover have "(if n = ''@midnight'' then ''@daily'' else n) \<in> set [''@yearly'', ''@annually'', ''@monthly'', ''@weekly'', ''@daily'', ''@hourly'']"
      using assms that by (auto simp: NICKNAMES_def)
    ultimately have "case CronTab_init sha256 (Some name) (if n = ''@midnight'' then ''@daily'' else n) of Inl e \<Rightarrow> False | Inr ct \<Rightarrow> True"
      unfolding list_all_iff by (rule bspec)
    then show ?thesis by (simp split: sum.splits split del: if_split)
  qed
qed

lemma line_Nick:
  assumes "item_ok sha256 known_zone name (Nick n cmd)"
  defines "line \<equiv> render_item (Nick n cmd)"
  shows "strip (chomp line) = line" "\<not> skipped_line line" "plain line" "env_line line = None"
    "entry_parts line = Inr (if n = ''@midnight'' then ''@daily'' else n, escape_percent cmd)"
proof -
  have c: "n \<in> set NICKNAMES" "proper_command cmd" using assms by (simp_all add: line_def)
  note e = proper_escaped [OF c(2)] and w = nickname_words [OF c(1)]
  have l: "line \<noteq> []" "hd line = CHR ''@''" "last line = last (escape_percent cmd)" using w e(1) by (simp_all add: line_def)
  have sp: "plain '' ''" "\<not> is_space CHR ''@''" "\<not> is_name_start CHR ''@''"
    by (simp_all add: plain_def refused_control_def is_space_def is_name_start_def)
  show "strip (chomp line) = line" using strip_fits [of line] chomp_fits [of line] l sp(2) e(3) by simp
  show "\<not> skipped_line line" using l by (simp add: skipped_line_def)
  have "line = n @ '' '' @ escape_percent cmd" by (simp add: line_def)
  then show "plain line" using w(2) e(4) sp(1) by (simp only: plain_append(1))
  show "env_line line = None" using l(1,2) sp(3) by (cases line) (auto simp: env_line_def)
  have "split_limit 1 line = [n, escape_percent cmd]"
    using split_limit_words [of "[n]", OF _ _ e(1,2)] w(1) by (simp add: line_def)
  then show "entry_parts line = Inr (if n = ''@midnight'' then ''@daily'' else n, escape_percent cmd)"
    using l(2) c(1) by (simp add: entry_parts_def Let_def)
qed

lemma plain_controls: "plain s \<Longrightarrow> \<not> list_ex refused_control s"
  by (simp add: plain_def)

lemma job_meant:
  assumes "entry_parts line = Inr (schedule, escape_percent cmd)" "proper_command cmd"
    "schedulable sha256 (line_name label k) schedule"
  shows "job_from_line sha256 label k env line = Inr (meant_job (line_name label k) env schedule cmd)"
  using assms proper_escaped(1) [OF assms(2)]
  by (auto simp: job_from_line_def bind_result_def check_schedule_def schedulable_def line_name_def meant_job_def
      unescape_escape Let_def)

lemma parse_rendered:
  "items_ok sha256 known_zone label k items \<Longrightarrow>
   parse_lines sha256 known_zone label k env (map (chomp \<circ> render_item) items) = Inr (meant_jobs label k env items)"
proof (induction label k env items rule: meant_jobs.induct)
  case (2 label k env t items)
  then show ?case using line_Comment [of t] by (simp add: Let_def)
next
  case (3 label k env n v items)
  note l = line_Assign [of sha256 known_zone "line_name label k" n v]
  show ?case using 3 l plain_controls [OF l(3)] by (simp del: render_item.simps add: Let_def)
next
  case (4 label k env columns cmd items)
  then have ok: "item_ok sha256 known_zone (line_name label k) (Entry columns cmd)" by simp
  note l = line_Entry [OF ok]
  have "job_from_line sha256 label k env (render_item (Entry columns cmd)) =
      Inr (meant_job (line_name label k) env (join_with CHR '' '' columns) cmd)"
    using job_meant [OF l(5)] ok by simp
  then show ?case using 4 l(1,2,4) plain_controls [OF l(3)] by (simp del: render_item.simps add: Let_def bind_result_def)
next
  case (5 label k env n cmd items)
  then have ok: "item_ok sha256 known_zone (line_name label k) (Nick n cmd)" by simp
  note l = line_Nick [OF ok]
  have "schedulable sha256 (line_name label k) (if n = ''@midnight'' then ''@daily'' else n)"
    using nickname_words(5) [of n sha256 "line_name label k"] ok by (cases "n = ''@reboot''") (auto simp: schedulable_def)
  then have "job_from_line sha256 label k env (render_item (Nick n cmd)) =
      Inr (meant_job (line_name label k) env (if n = ''@midnight'' then ''@daily'' else n) cmd)"
    using job_meant [OF l(5)] ok by simp
  then show ?case using 5 l(1,2,4) plain_controls [OF l(3)] by (simp del: render_item.simps add: Let_def bind_result_def)
qed simp

lemma item_lines: "item_ok sha256 known_zone name item \<Longrightarrow> CHR 0x0A \<notin> set (render_item item)"
  using line_Assign(3) line_Entry(3) line_Nick(3)
  by (cases item) (auto simp: plain_def simp del: render_item.simps(2-4))

lemma items_lines: "items_ok sha256 known_zone label k items \<Longrightarrow> \<forall>w \<in> set (map render_item items). CHR 0x0A \<notin> set w"
  by (induction items arbitrary: k) (auto dest: item_lines)

subsection \<open>The properties\<close>

text \<open>
  C27. What is written is what is read: a crontab of comments, assignments, entries and nicknames, its
  values quoted and the percent signs of its commands escaped, parses to exactly the jobs that are meant,
  with the schedule, the command, the environment in force at the line, and a name of file and line.
\<close>

theorem crontab_round_trip:
  assumes "items \<noteq> []" and "items_ok sha256 known_zone label 1 items"
    and "label = (if basename path = [] then CRONTAB_BASENAME else basename path)"
  shows "parse_crontab sha256 known_zone (render_crontab items) path = Inr (meant_jobs label 1 [] items)"
proof -
  have "physical_lines (render_crontab items) = map (chomp \<circ> render_item) items"
    using split_join [of "map render_item items" "CHR 0x0A"] items_lines [OF assms(2)] assms(1)
    by (simp add: physical_lines_def render_crontab_def chomp_def comp_def)
  then show ?thesis using parse_rendered [OF assms(2)] assms(3) by (simp add: parse_crontab_def)
qed

definition sample_items :: "crontab_item list" where
  "sample_items = [Comment '' nightly'', Assign ''SHELL'' ''/bin/bash'', Entry [''30'', ''2'', ''*'', ''*'', ''1-5''] ''date +%F'',
     Assign ''CRON_TZ'' ''UTC'', Nick ''@midnight'' ''sync'']"

theorem crontab_round_trip_witness:
  "parse_crontab (\<lambda>_. []) (\<lambda>z. z = ''UTC'') (render_crontab sample_items) ''/etc/legacy.crontab'' =
   Inr [\<lparr>cj_name = ''legacy.crontab:3'', cj_schedule = ''30 2 * * 1-5'', cj_command = ''date +%F'',
          cj_environment = [(''SHELL'', ''/bin/bash'')], cj_shell = Some ''/bin/bash'', cj_timezone = None\<rparr>,
        \<lparr>cj_name = ''legacy.crontab:5'', cj_schedule = ''@daily'', cj_command = ''sync'',
          cj_environment = [(''SHELL'', ''/bin/bash''), (''CRON_TZ'', ''UTC'')], cj_shell = Some ''/bin/bash'',
          cj_timezone = Some ''UTC''\<rparr>]"
proof -
  have p: "''legacy.crontab'' = (if basename ''/etc/legacy.crontab'' = [] then CRONTAB_BASENAME else basename ''/etc/legacy.crontab'')"
    "sample_items \<noteq> []" by code_simp+
  have acc: "case CronTab_init (\<lambda>_. []) (Some (line_name ''legacy.crontab'' 3)) (join_with CHR '' '' [''30'', ''2'', ''*'', ''*'', ''1-5''])
    of Inl e \<Rightarrow> False | Inr ct \<Rightarrow> True" by code_simp
  then have s: "schedulable (\<lambda>_. []) (line_name ''legacy.crontab'' 3) (join_with CHR '' '' [''30'', ''2'', ''*'', ''*'', ''1-5''])"
    by (simp add: schedulable_def split: sum.splits)
  have c: "list_all is_word [''30'', ''2'', ''*'', ''*'', ''1-5''] \<and> list_all plain [''30'', ''2'', ''*'', ''*'', ''1-5''] \<and>
    proper_command ''date +%F'' \<and> env_line (render_item (Entry [''30'', ''2'', ''*'', ''*'', ''1-5''] ''date +%F'')) = None"
    "is_name_start (hd ''SHELL'') \<and> list_all is_name_char ''SHELL'' \<and> plain ''/bin/bash''"
    "is_name_start (hd ''CRON_TZ'') \<and> list_all is_name_char ''CRON_TZ'' \<and> plain ''UTC''"
    "''@midnight'' \<in> set NICKNAMES \<and> proper_command ''sync''" by code_simp+
  have "items_ok (\<lambda>_. []) (\<lambda>z. z = ''UTC'') ''legacy.crontab'' 1 sample_items"
    unfolding sample_items_def items_ok.simps item_ok.simps using c s by (simp add: eval_nat_numeral)
  moreover have "show_nat (Suc (Suc (Suc 0))) = ''3''" "show_nat (Suc (Suc (Suc (Suc (Suc 0))))) = ''5''" by code_simp+
  ultimately show ?thesis using crontab_round_trip [OF p(2) _ p(1)]
    by (simp add: sample_items_def meant_job_def line_name_def truthy_value_def)
qed

lemma parsed_jobs:
  "parse_lines sha256 known_zone label k env lines = Inr jobs \<Longrightarrow>
   \<exists>ns. sorted_wrt (<) ns \<and> (\<forall>n \<in> set ns. k \<le> n \<and> n < k + length lines) \<and> map cj_name jobs = map (line_name label) ns \<and>
     (\<forall>job \<in> set jobs. schedulable sha256 (cj_name job) (cj_schedule job))"
proof (induction lines arbitrary: k env jobs)
  case Nil
  then show ?case by (intro exI [of _ "[]"]) simp
next
  case (Cons raw lines)
  let ?line = "strip raw"
  have later: ?case if "parse_lines sha256 known_zone label (k + 1) env' lines = Inr jobs" for env'
    using Cons.IH [OF that] by fastforce
  show ?case
  proof (cases "skipped_line ?line \<or> env_line ?line \<noteq> None")
    case True
    then show ?thesis using Cons.prems later by (auto simp: Let_def split: if_splits option.splits)
  next
    case False
    then obtain job rest where j: "job_from_line sha256 label k env ?line = Inr job"
      and r: "parse_lines sha256 known_zone label (k + 1) env lines = Inr rest" "jobs = job # rest"
      using Cons.prems by (auto simp: Let_def bind_result_def split: if_splits option.splits sum.splits)
    have s: "cj_name job = line_name label k" "schedulable sha256 (cj_name job) (cj_schedule job)"
      using j by (auto simp: job_from_line_def bind_result_def check_schedule_def schedulable_def line_name_def Let_def
          split: sum.splits prod.splits if_splits option.splits)
    obtain ns where "sorted_wrt (<) ns" "\<forall>n \<in> set ns. k + 1 \<le> n \<and> n < k + 1 + length lines" "map cj_name rest = map (line_name label) ns"
      "\<forall>job \<in> set rest. schedulable sha256 (cj_name job) (cj_schedule job)"
      using Cons.IH [OF r(1)] by blast
    then show ?thesis using s r(2) by (intro exI [of _ "k # ns"]) fastforce
  qed
qed

text \<open>
  Whatever the text, a job the parser returns can be scheduled: its name is that of its line, so no two
  jobs of a file share one, and its schedule is \<open>@reboot\<close> or accepted by the cron engine under that name.
\<close>

lemma parsed_jobs_schedulable:
  assumes "parse_crontab sha256 known_zone data path = Inr jobs"
  shows "distinct (map cj_name jobs)" "job \<in> set jobs \<Longrightarrow> schedulable sha256 (cj_name job) (cj_schedule job)"
proof -
  let ?label = "if basename path = [] then CRONTAB_BASENAME else basename path"
  from parsed_jobs [OF assms [unfolded parse_crontab_def]] obtain ns where
    ns: "sorted_wrt (<) ns" "map cj_name jobs = map (line_name ?label) ns"
    and s: "\<forall>job \<in> set jobs. schedulable sha256 (cj_name job) (cj_schedule job)" by blast
  have "inj (line_name ?label)" by (auto simp: inj_def line_name_def dest: show_nat_inj)
  then show "distinct (map cj_name jobs)"
    unfolding ns(2) distinct_map using ns(1) by (auto simp: strict_sorted_iff inj_on_def inj_def)
  show "job \<in> set jobs \<Longrightarrow> schedulable sha256 (cj_name job) (cj_schedule job)" using s by blast
qed

end
