(* ===== verification/Instants.thy ===== *)
theory Instants
  imports Calendar
begin

text \<open>
  Datetime arithmetic: naive datetimes as microseconds and back (\<open>datetime\<close> plus or minus a
  \<open>timedelta\<close>, \<open>date.fromordinal\<close>), and the two conversions of aware datetimes, an instant rendered in
  a zone (\<open>astimezone\<close>) and a wall-clock label resolved in it with \<open>fold=0\<close>.
\<close>

subsection \<open>From ordinals to dates\<close>

definition year_of :: "int \<Rightarrow> int" where
  "year_of n =
     (let y = (n - 1) * 400 div 146097 + 1
      in if days_before_year (y + 1) < n then y + 1 else y)"

fun month_day :: "int \<Rightarrow> int \<Rightarrow> int list \<Rightarrow> int \<Rightarrow> date" where
  "month_day y m [] k = Date y m k"
| "month_day y m (m' # ms) k =
     (if k \<le> days_in_month y m then Date y m k else month_day y m' ms (k - days_in_month y m))"

definition fromordinal :: "int \<Rightarrow> date" where
  "fromordinal n =
     (let y = year_of n in month_day y 1 [2, 3, 4, 5, 6, 7, 8, 9, 10, 11, 12] (n - days_before_year y))"

definition day_us :: int where
  "day_us = 86400000000"

definition hour_us :: int where
  "hour_us = 3600000000"

text \<open>The datetime that lies \<open>u\<close> microseconds after the start of ordinal zero.\<close>

definition datetime_of :: "int \<Rightarrow> datetime" where
  "datetime_of u =
     (let r = u mod day_us
      in DateTime (fromordinal (u div day_us))
           (Time (r div hour_us) (r mod hour_us div 60000000) (r mod 60000000 div 1000000))
           (r mod 1000000))"

lemma div_bounds: "0 < c \<Longrightarrow> c * (k div c) \<le> k" "0 < c \<Longrightarrow> k \<le> c * (k div c) + (c - 1)" for c k :: int
  using mult_div_mod_eq [of c k] pos_mod_sign [of c k] pos_mod_bound [of c k] by linarith+

text \<open>The mean length of a year brackets the days before it.\<close>

lemma days_before_year_bounds:
  "146097 * (y - 1) - 699 \<le> 400 * days_before_year y"
  "400 * days_before_year y \<le> 146097 * (y - 1) + 396"
proof -
  define k a b c where d: "k = y - 1" "a = k div 4" "b = k div 100" "c = k div 400"
  have "4 * a \<le> k" "k \<le> 4 * a + 3" "100 * b \<le> k" "k \<le> 100 * b + 99" "400 * c \<le> k" "k \<le> 400 * c + 399"
    using div_bounds [of 4 k] div_bounds [of 100 k] div_bounds [of 400 k] by (simp_all add: d)
  moreover have "days_before_year y = k * 365 + a - b + c" by (simp add: d days_before_year_def)
  ultimately show "146097 * (y - 1) - 699 \<le> 400 * days_before_year y"
    "400 * days_before_year y \<le> 146097 * (y - 1) + 396"
    unfolding d(1) [symmetric] by linarith+
qed

lemma year_of_brackets:
  "days_before_year (year_of n) < n" "n \<le> days_before_year (year_of n + 1)"
proof -
  define k where "k = (n - 1) * 400 div 146097"
  have k: "146097 * k \<le> (n - 1) * 400" "(n - 1) * 400 < 146097 * k + 146097"
    using div_bounds [of 146097 "(n - 1) * 400"] by (simp_all add: k_def)
  have lo: "days_before_year (k + 1) < n"
  proof -
    have "400 * days_before_year (k + 1) < 400 * n"
      using days_before_year_bounds(2) [of "k + 1"] k by simp
    then show ?thesis by simp
  qed
  have hi: "n \<le> days_before_year (k + 2 + 1)"
  proof -
    have "400 * n \<le> 400 * days_before_year (k + 3)"
      using days_before_year_bounds(1) [of "k + 3"] k by simp
    then show ?thesis by (simp add: add.commute)
  qed
  show "days_before_year (year_of n) < n" "n \<le> days_before_year (year_of n + 1)"
    unfolding year_of_def k_def [symmetric] Let_def using lo hi by (auto simp: add.commute)
qed

text \<open>The month loop: the rest of the year starts with the month \<open>m\<close>.\<close>

lemma month_day_valid:
  assumes "map (\<lambda>i. m + 1 + int i) [0..<length ms] = ms" and "m + int (length ms) = 12" and "1 \<le> m"
    and "1 \<le> k" and "days_before_month y m + k \<le> days_before_month y 13"
  shows "\<exists>m' d. month_day y m ms k = Date y m' d \<and> m \<le> m' \<and> m' \<le> 12 \<and> 1 \<le> d \<and> d \<le> days_in_month y m' \<and>
    days_before_month y m' + d = days_before_month y m + k"
  using assms
proof (induction ms arbitrary: m k)
  case Nil
  then show ?case using days_before_month_Suc [of 12 y] by simp
next
  case (Cons m' ms)
  have m': "m' = m + 1" and rest: "map (\<lambda>i. m' + 1 + int i) [0..<length ms] = ms"
    using Cons.prems(1) by (auto simp: upt_rec [of 0] map_Suc_upt [symmetric] comp_def algebra_simps simp del: upt_Suc)
  note step = days_before_month_Suc [OF Cons.prems(3), of y]
  show ?case
  proof (cases "k \<le> days_in_month y m")
    case True
    then show ?thesis using Cons.prems by simp
  next
    case False
    then have "\<exists>m'' d. month_day y m' ms (k - days_in_month y m) = Date y m'' d \<and> m' \<le> m'' \<and> m'' \<le> 12 \<and> 1 \<le> d \<and>
      d \<le> days_in_month y m'' \<and> days_before_month y m'' + d = days_before_month y m' + (k - days_in_month y m)"
      using Cons.prems step by (intro Cons.IH [OF rest]) (auto simp: m')
    with False step show ?thesis by (fastforce simp: m')
  qed
qed

lemma fromordinal_ok:
  "\<exists>m d. fromordinal n = Date (year_of n) m d \<and> 1 \<le> m \<and> m \<le> 12 \<and> 1 \<le> d \<and> d \<le> days_in_month (year_of n) m"
  "toordinal (fromordinal n) = n"
proof -
  let ?y = "year_of n" and ?k = "n - days_before_year (year_of n)"
  have "1 \<le> ?k" "days_before_month ?y 1 + ?k \<le> days_before_month ?y 13"
    using year_of_brackets [of n] days_before_year_Suc [of ?y] by (simp_all add: days_before_month_def)
  moreover have "map (\<lambda>i. 1 + 1 + int i) [0..<length [2, 3, 4, 5, 6, 7, 8, 9, 10, 11, 12 :: int]] =
      [2, 3, 4, 5, 6, 7, 8, 9, 10, 11, 12]" by (simp add: upt_rec)
  ultimately obtain m d where md: "fromordinal n = Date ?y m d" "1 \<le> m" "m \<le> 12" "1 \<le> d" "d \<le> days_in_month ?y m"
    "days_before_month ?y m + d = days_before_month ?y 1 + ?k"
    using month_day_valid [of 1 "[2, 3, 4, 5, 6, 7, 8, 9, 10, 11, 12]" ?k ?y]
    by (auto simp: fromordinal_def Let_def)
  then show "\<exists>m d. fromordinal n = Date ?y m d \<and> 1 \<le> m \<and> m \<le> 12 \<and> 1 \<le> d \<and> d \<le> days_in_month ?y m" by blast
  show "toordinal (fromordinal n) = n" using md by (simp add: toordinal_def days_before_month_def)
qed

lemma year_of_le: "n \<le> days_before_year (y + 1) \<Longrightarrow> year_of n \<le> y"
  using year_of_brackets(1) [of n] days_before_year_mono [of "y + 1" "year_of n"] by linarith

lemma year_of_ge: "days_before_year y < n \<Longrightarrow> y \<le> year_of n"
  using year_of_brackets(2) [of n] days_before_year_mono [of "year_of n + 1" y] by linarith

subsection \<open>Datetimes and microseconds\<close>

text \<open>The instants that a naive datetime can express.\<close>

definition min_us :: int where
  "min_us = day_us"

definition max_us :: int where
  "max_us = 3652060 * day_us"

definition in_range :: "int \<Rightarrow> bool" where
  "in_range u \<longleftrightarrow> min_us \<le> u \<and> u < max_us"

lemma split_clock:
  "r mod 86400000000 = r mod 86400000000 div 3600000000 * 3600000000
      + r mod 86400000000 mod 3600000000 div 60000000 * 60000000
      + r mod 86400000000 mod 60000000 div 1000000 * 1000000 + r mod 86400000000 mod 1000000" for r :: int
proof -
  let ?r = "r mod 86400000000"
  have "?r mod 3600000000 mod 60000000 = ?r mod 60000000" "?r mod 60000000 mod 1000000 = ?r mod 1000000"
    by (simp_all add: mod_mod_cancel)
  then show ?thesis
    using div_mult_mod_eq [of ?r 3600000000] div_mult_mod_eq [of "?r mod 3600000000" 60000000]
      div_mult_mod_eq [of "?r mod 60000000" 1000000] by linarith
qed

lemma microseconds_datetime [simp]: "microseconds_of (datetime_of u) = u"
proof -
  have "microseconds_of (datetime_of u) = u div 86400000000 * 86400000000 + u mod 86400000000"
    by (subst split_clock) (simp add: microseconds_of_def datetime_of_def Let_def day_us_def hour_us_def fromordinal_ok(2))
  then show ?thesis by simp
qed

lemma datetime_of_tod: "valid_tod (dt_time (datetime_of u))" "0 \<le> dt_micro (datetime_of u)"
    "dt_micro (datetime_of u) < 1000000"
proof -
  have "0 \<le> u mod 86400000000" "u mod 86400000000 < 86400000000" by simp_all
  then show "valid_tod (dt_time (datetime_of u))" "0 \<le> dt_micro (datetime_of u)" "dt_micro (datetime_of u) < 1000000"
    by (auto simp: datetime_of_def Let_def valid_tod_def day_us_def hour_us_def)
qed

lemma year_datetime_of: "d_year (dt_date (datetime_of u)) = year_of (u div day_us)"
  using fromordinal_ok(1) [of "u div day_us"] by (auto simp: datetime_of_def Let_def)

lemma valid_datetime_of: "in_range u \<Longrightarrow> valid_datetime (datetime_of u)"
proof -
  assume "in_range u"
  then have "0 < u div 86400000000" "u div 86400000000 \<le> 3652059" by (auto simp: in_range_def min_us_def max_us_def day_us_def)
  then have "1 \<le> year_of (u div day_us)" "year_of (u div day_us) \<le> 9999"
    by (auto intro!: year_of_ge year_of_le simp: days_before_year_def day_us_def)
  with fromordinal_ok(1) [of "u div day_us"] datetime_of_tod [of u] show ?thesis
    by (auto simp: valid_datetime_def valid_date_def datetime_of_def Let_def)
qed

lemma microseconds_less_iff:
  "valid_datetime a \<Longrightarrow> valid_datetime b \<Longrightarrow> microseconds_of a < microseconds_of b \<longleftrightarrow> a < b"
  using microseconds_less [of a b] microseconds_less [of b a] by (metis less_irrefl not_less_iff_gr_or_eq order_less_trans)

lemma microseconds_le_iff:
  "valid_datetime a \<Longrightarrow> valid_datetime b \<Longrightarrow> microseconds_of a \<le> microseconds_of b \<longleftrightarrow> a \<le> b"
  using microseconds_less_iff [of b a] by (simp add: linorder_not_less [symmetric])

lemma microseconds_inj:
  "valid_datetime a \<Longrightarrow> valid_datetime b \<Longrightarrow> microseconds_of a = microseconds_of b \<Longrightarrow> a = b"
  using microseconds_less_iff [of a b] microseconds_less_iff [of b a] by auto

lemma toordinal_bounds: "valid_date d \<Longrightarrow> 1 \<le> toordinal d \<and> toordinal d \<le> 3652059"
proof -
  assume v: "valid_date d"
  have lo: "valid_date (Date 1 1 1)" and hi: "valid_date (Date 9999 12 31)"
    by (simp_all add: valid_date_def days_in_month_def)
  have "toordinal (Date 1 1 1) = 1" by (simp add: toordinal_def days_before_year_def days_before_month_def)
  moreover have "toordinal (Date 9999 12 31) = 3652059"
  proof -
    have "days_before_month 9999 12 = 334" using days_of_year [of 9999] days_before_month_Suc [of 12 9999]
      by (simp add: is_leap_def days_in_month_def)
    then show ?thesis by (simp add: toordinal_def days_before_year_def)
  qed
  moreover have "Date 1 1 1 \<le> d" "d \<le> Date 9999 12 31"
    using v by (cases d; auto simp: valid_date_def days_in_month_def split: if_splits)+
  ultimately show ?thesis
    using toordinal_less [OF lo v] toordinal_less [OF v hi] by (auto simp: order_le_less)
qed

lemma in_range_microseconds: "valid_datetime x \<Longrightarrow> in_range (microseconds_of x)"
proof -
  assume v: "valid_datetime x"
  then have o: "1 \<le> toordinal (dt_date x)" "toordinal (dt_date x) \<le> 3652059"
    using toordinal_bounds by (auto simp: valid_datetime_def)
  have "0 \<le> t_hour (dt_time x)" "t_hour (dt_time x) \<le> 23" "0 \<le> t_minute (dt_time x)" "t_minute (dt_time x) \<le> 59"
    "0 \<le> t_second (dt_time x)" "t_second (dt_time x) \<le> 59" "0 \<le> dt_micro x" "dt_micro x < 1000000"
    using v by (auto simp: valid_datetime_def valid_tod_def)
  with o show ?thesis by (simp add: in_range_def min_us_def max_us_def day_us_def microseconds_of_def)
qed

lemma datetime_microseconds: "valid_datetime x \<Longrightarrow> datetime_of (microseconds_of x) = x"
  by (rule microseconds_inj [OF valid_datetime_of [OF in_range_microseconds]]) simp_all

end
