(* ===== verification/CronZone.thy ===== *)
theory CronZone
  imports CronNext CronParseFacts Instants
begin

text \<open>
  The time-zone aware entry points of \<open>cronexpr.py\<close>.  An aware datetime is an instant (microseconds of
  UTC) together with its zone; its wall-clock label is what \<open>astimezone\<close> renders.  Durations are
  microseconds.  A loop that the source leaves only by returning is a partial function; that it does
  return is a theorem.
\<close>

subsection \<open>Zones\<close>

text \<open>
  A \<open>datetime.timezone\<close> has one offset; a \<open>ZoneInfo\<close> has a first offset and transitions, each an
  instant and the offset from then on.
\<close>

datatype tzinfo = FixedZone int | ZoneInfo int "(int \<times> int) list"

fun offset_at :: "int \<Rightarrow> (int \<times> int) list \<Rightarrow> int \<Rightarrow> int" where
  "offset_at o1 [] u = o1"
| "offset_at o1 ((a, o2) # ts) u = (if a \<le> u then offset_at o2 ts u else o1)"

text \<open>The offset of a label with \<open>fold=0\<close>: in a gap and in a repeated hour the one before the transition.\<close>

fun offset_of_label :: "int \<Rightarrow> (int \<times> int) list \<Rightarrow> int \<Rightarrow> int" where
  "offset_of_label o1 [] l = o1"
| "offset_of_label o1 ((a, o2) # ts) l = (if a + max o1 o2 \<le> l then offset_of_label o2 ts l else o1)"

fun utcoffset :: "tzinfo \<Rightarrow> int \<Rightarrow> int" where
  "utcoffset (FixedZone c) u = c"
| "utcoffset (ZoneInfo c ts) u = offset_at c ts u"

fun resolve_us :: "tzinfo \<Rightarrow> int \<Rightarrow> int" where
  "resolve_us (FixedZone c) l = l - c"
| "resolve_us (ZoneInfo c ts) l = l - offset_of_label c ts l"

definition label_us :: "tzinfo \<Rightarrow> int \<Rightarrow> int" where
  "label_us z u = u + utcoffset z u"

text \<open>\<open>u.astimezone(z).replace(tzinfo=None)\<close> and \<open>x.replace(tzinfo=z).astimezone(utc)\<close>.\<close>

definition render :: "tzinfo \<Rightarrow> int \<Rightarrow> datetime" where
  "render z u = datetime_of (label_us z u)"

definition resolve_in :: "tzinfo \<Rightarrow> datetime \<Rightarrow> int" where
  "resolve_in z x = resolve_us z (microseconds_of x)"

subsection \<open>The next instant\<close>

definition GAP_PROBE :: int where
  "GAP_PROBE = 26 * hour_us"

definition gap_rewound_seed :: "tzinfo \<Rightarrow> int \<Rightarrow> datetime" where
  "gap_rewound_seed z now =
     (let civil = render z now
      in case z of
           FixedZone _ \<Rightarrow> civil
         | ZoneInfo _ _ \<Rightarrow>
             if \<not> in_range (now - GAP_PROBE) \<or> \<not> in_range (label_us z (now - GAP_PROBE)) then civil
             else (let off_now = utcoffset z now; off_then = utcoffset z (now - GAP_PROBE)
                   in if off_now \<le> off_then then civil
                      else (let jump = off_now - off_then
                            in if utcoffset z (now - jump) = off_now then civil
                               else datetime_of (microseconds_of civil - jump))))"

partial_function (option) next_loop ::
  "tzinfo \<Rightarrow> crontab \<Rightarrow> int \<Rightarrow> datetime \<Rightarrow> (search_error, int option) result option" where
  "next_loop z ct now civil =
     (case next_civil ct civil of
        Inl e \<Rightarrow> Some (Inl e)
      | Inr None \<Rightarrow> Some (Inr None)
      | Inr (Some target) \<Rightarrow>
          if resolve_in z target > now then Some (Inr (Some (resolve_in z target - now)))
          else next_loop z ct now (max target (render z (resolve_in z target))))"

declare next_loop.simps [code]

definition next_aware :: "tzinfo \<Rightarrow> crontab \<Rightarrow> int \<Rightarrow> (search_error, int option) result option" where
  "next_aware z ct now = next_loop z ct now (gap_rewound_seed z now)"

subsection \<open>The generator\<close>

text \<open>What the loop of \<open>occurrences\<close> yields next: the instant, whose label the loop goes on from.\<close>

partial_function (option) yield_loop ::
  "tzinfo \<Rightarrow> crontab \<Rightarrow> int \<Rightarrow> datetime \<Rightarrow> (search_error, int option) result option" where
  "yield_loop z ct start civil =
     (case next_civil ct civil of
        Inl e \<Rightarrow> Some (Inl e)
      | Inr None \<Rightarrow> Some (Inr None)
      | Inr (Some target) \<Rightarrow>
          if resolve_in z target \<le> start
          then yield_loop z ct start (max target (render z (resolve_in z target)))
          else Some (Inr (Some (resolve_in z target))))"

declare yield_loop.simps [code]

fun yields ::
  "nat \<Rightarrow> tzinfo \<Rightarrow> crontab \<Rightarrow> int \<Rightarrow> datetime \<Rightarrow> (search_error, int list) result option" where
  "yields 0 z ct start civil = Some (Inr [])"
| "yields (Suc n) z ct start civil =
     (case yield_loop z ct start civil of
        None \<Rightarrow> None
      | Some (Inl e) \<Rightarrow> Some (Inl e)
      | Some (Inr None) \<Rightarrow> Some (Inr [])
      | Some (Inr (Some u)) \<Rightarrow>
          map_option (\<lambda>r. bind_result r (\<lambda>us. Inr (u # us))) (yields n z ct start (render z u)))"

text \<open>The first \<open>n\<close> instants of the generator.\<close>

definition occurrences_aware ::
  "nat \<Rightarrow> tzinfo \<Rightarrow> crontab \<Rightarrow> int \<Rightarrow> (search_error, int list) result option" where
  "occurrences_aware n z ct start = yields n z ct start (gap_rewound_seed z start)"

end
