(* ===== verification/CronZoneFacts.thy ===== *)
theory CronZoneFacts
  imports CronZone
begin

text \<open>
  Facts on the time-zone aware search: labels and instants of a zone whose transitions are some days
  apart, the seed behind a spring-forward, and the loop, which always returns.
\<close>

subsection \<open>Regular zones\<close>

fun zone_first :: "tzinfo \<Rightarrow> int" where
  "zone_first (FixedZone c) = c"
| "zone_first (ZoneInfo c ts) = c"

fun zone_trans :: "tzinfo \<Rightarrow> (int \<times> int) list" where
  "zone_trans (FixedZone c) = []"
| "zone_trans (ZoneInfo c ts) = ts"

definition small_offset :: "int \<Rightarrow> bool" where
  "small_offset c \<longleftrightarrow> - day_us < c \<and> c < day_us"

text \<open>Every offset is less than a day, as \<open>datetime\<close> demands.\<close>

definition valid_zone :: "tzinfo \<Rightarrow> bool" where
  "valid_zone z \<longleftrightarrow> small_offset (zone_first z) \<and> list_all (small_offset \<circ> snd) (zone_trans z)"

text \<open>The transitions with the offset before and after them; they are four days apart.\<close>

fun jumps :: "int \<Rightarrow> (int \<times> int) list \<Rightarrow> (int \<times> int \<times> int) list" where
  "jumps o1 [] = []"
| "jumps o1 ((a, o2) # ts) = (a, o1, o2) # jumps o2 ts"

fun spaced :: "(int \<times> int) list \<Rightarrow> bool" where
  "spaced ((a, o1) # (b, o2) # ts) \<longleftrightarrow> a + 4 * day_us \<le> b \<and> spaced ((b, o2) # ts)"
| "spaced _ \<longleftrightarrow> True"

lemma utcoffset_eq: "utcoffset z u = offset_at (zone_first z) (zone_trans z) u"
  by (cases z) simp_all

lemma resolve_us_eq: "resolve_us z l = l - offset_of_label (zone_first z) (zone_trans z) l"
  by (cases z) simp_all

definition good :: "int \<Rightarrow> (int \<times> int) list \<Rightarrow> bool" where
  "good o1 ts \<longleftrightarrow> small_offset o1 \<and> list_all (small_offset \<circ> snd) ts \<and> spaced ts"

lemma good_Cons: "good o1 ((a, o2) # ts) \<Longrightarrow> good o2 ts"
  by (cases ts) (auto simp: good_def)

lemma good_small: "good o1 ts \<Longrightarrow> small_offset o1" "good o1 ((a, o2) # ts) \<Longrightarrow> small_offset o2"
  by (simp_all add: good_def)

lemma good_next: "good o1 ((a, o2) # (b, o3) # ts) \<Longrightarrow> a + 4 * day_us \<le> b"
  by (simp add: good_def)

lemma jumps_later: "good o1 ((a, o2) # ts) \<Longrightarrow> (b, ob, oa) \<in> set (jumps o2 ts) \<Longrightarrow> a + 4 * day_us \<le> b"
proof (induction ts arbitrary: o1 o2 a)
  case (Cons t ts)
  obtain c o3 where t: "t = (c, o3)" by (cases t)
  have ac: "a + 4 * day_us \<le> c" using Cons.prems(1) by (simp add: t good_def)
  from Cons.prems(2) consider "b = c" | "(b, ob, oa) \<in> set (jumps o3 ts)" by (auto simp: t)
  then show ?case
  proof cases
    case 2
    from Cons.IH [OF good_Cons [OF Cons.prems(1) [unfolded t]] 2] ac show ?thesis by (simp add: day_us_def)
  qed (use ac in simp)
qed simp

lemma offset_small: "good o1 ts \<Longrightarrow> small_offset (offset_at o1 ts u)" "good o1 ts \<Longrightarrow> small_offset (offset_of_label o1 ts l)"
proof -
  show "good o1 ts \<Longrightarrow> small_offset (offset_at o1 ts u)"
    by (induction o1 ts u rule: offset_at.induct) (auto simp: good_small(1) dest: good_Cons)
  show "good o1 ts \<Longrightarrow> small_offset (offset_of_label o1 ts l)"
    by (induction o1 ts l rule: offset_of_label.induct) (auto simp: good_small(1) dest: good_Cons)
qed

lemma jumps_small:
  "good o1 ts \<Longrightarrow> (a, ob, oa) \<in> set (jumps o1 ts) \<Longrightarrow> small_offset ob \<and> small_offset oa"
  by (induction o1 ts rule: jumps.induct) (auto simp: good_small dest: good_Cons)

text \<open>Around a transition the offsets are the two of it.\<close>

lemma offset_at_before:
  assumes "good o1 ts" and "(a, ob, oa) \<in> set (jumps o1 ts)" and "a - 4 * day_us \<le> v" and "v < a"
  shows "offset_at o1 ts v = ob"
  using assms
proof (induction o1 ts v rule: offset_at.induct)
  case (2 o1 b o2 ts v)
  then show ?case using jumps_later [OF 2(2), of a ob oa] good_Cons [OF 2(2)] by (auto simp: day_us_def)
qed simp

lemma offset_at_head: "good o2 ts \<Longrightarrow> good o1 ((a, o2) # ts) \<Longrightarrow> v < a + 4 * day_us \<Longrightarrow> offset_at o2 ts v = o2"
  by (cases ts) (auto simp: good_def)

lemma offset_at_after:
  assumes "good o1 ts" and "(a, ob, oa) \<in> set (jumps o1 ts)" and "a \<le> v" and "v < a + 4 * day_us"
  shows "offset_at o1 ts v = oa"
  using assms
proof (induction o1 ts v rule: offset_at.induct)
  case (2 o1 b o2 ts v)
  note g = good_Cons [OF 2(2)]
  from 2(3) consider "a = b" "oa = o2" | "(a, ob, oa) \<in> set (jumps o2 ts)" by auto
  then show ?case
  proof cases
    case 1
    then show ?thesis using offset_at_head [OF g 2(2), of v] 2(4,5) by simp
  next
    case 2
    then show ?thesis using "2.IH" [OF _ g 2] jumps_later [OF "2.prems"(1) 2] "2.prems"(3,4) by (simp add: day_us_def)
  qed
qed simp

lemma offset_of_label_before:
  assumes "good o1 ts" and "(a, ob, oa) \<in> set (jumps o1 ts)" and "a - 3 * day_us \<le> l" and "l < a + max ob oa"
  shows "offset_of_label o1 ts l = ob"
  using assms
proof (induction o1 ts l rule: offset_of_label.induct)
  case (2 o1 b o2 ts l)
  note g = good_Cons [OF 2(2)]
  from 2(3) consider "a = b" "ob = o1" "oa = o2" | "(a, ob, oa) \<in> set (jumps o2 ts)" by auto
  then show ?case
  proof cases
    case 2
    have "b + max o1 o2 \<le> l"
      using jumps_later [OF "2.prems"(1) 2] "2.prems"(3) good_small [OF "2.prems"(1)]
      by (simp add: small_offset_def day_us_def max_def split: if_splits)
    then show ?thesis using "2.IH" [OF _ g 2] "2.prems"(3,4) by simp
  qed (use 2(5) in simp)
qed simp

lemma offset_of_label_head:
  "good o2 ts \<Longrightarrow> good o1 ((a, o2) # ts) \<Longrightarrow> l < a + 3 * day_us \<Longrightarrow> offset_of_label o2 ts l = o2"
  by (cases ts) (auto simp: good_def small_offset_def)

lemma offset_of_label_after:
  assumes "good o1 ts" and "(a, ob, oa) \<in> set (jumps o1 ts)" and "a + max ob oa \<le> l" and "l < a + 3 * day_us"
  shows "offset_of_label o1 ts l = oa"
  using assms
proof (induction o1 ts l rule: offset_of_label.induct)
  case (2 o1 b o2 ts l)
  note g = good_Cons [OF 2(2)]
  from 2(3) consider "a = b" "ob = o1" "oa = o2" | "(a, ob, oa) \<in> set (jumps o2 ts)" by auto
  then show ?case
  proof cases
    case 1
    then show ?thesis using offset_of_label_head [OF g 2(2), of l] 2(4,5) by simp
  next
    case 2
    have "b + max o1 o2 \<le> l"
      using jumps_later [OF "2.prems"(1) 2] "2.prems"(3) good_small [OF "2.prems"(1)] jumps_small [OF g 2]
      by (simp add: small_offset_def day_us_def max_def split: if_splits)
    then show ?thesis using "2.IH" [OF _ g 2] "2.prems"(3,4) by simp
  qed
qed simp

subsection \<open>Labels and instants\<close>

text \<open>A label up to that of an instant resolves to it or before it, unless it lies in a gap just passed.\<close>

lemma label_passed:
  assumes "good o1 ts" and "l \<le> u + offset_at o1 ts u"
  shows "l - offset_of_label o1 ts l \<le> u \<or>
    (\<exists>a ob oa. (a, ob, oa) \<in> set (jumps o1 ts) \<and> a + ob \<le> l \<and> l < a + oa \<and> a \<le> u \<and> u < a + (oa - ob))"
  using assms
proof (induction o1 ts u rule: offset_at.induct)
  case (2 o1 a o2 ts u)
  show ?case
  proof (cases "a \<le> u \<and> a + max o1 o2 \<le> l")
    case True
    then have "l - offset_of_label o2 ts l \<le> u \<or>
      (\<exists>a ob oa. (a, ob, oa) \<in> set (jumps o2 ts) \<and> a + ob \<le> l \<and> l < a + oa \<and> a \<le> u \<and> u < a + (oa - ob))"
      using "2.IH" [OF _ good_Cons [OF "2.prems"(1)]] "2.prems"(2) by simp
    with True show ?thesis by auto
  next
    case False
    show ?thesis
    proof (cases "a \<le> u")
      case True
      with False have l: "offset_of_label o1 ((a, o2) # ts) l = o1" "l < a + max o1 o2" by auto
      show ?thesis
      proof (cases "l - o1 \<le> u")
        case ge: False
        then have "(a, o1, o2) \<in> set (jumps o1 ((a, o2) # ts)) \<and> a + o1 \<le> l \<and> l < a + o2 \<and> a \<le> u \<and> u < a + (o2 - o1)"
          using l(2) True by (auto simp: max_def split: if_splits)
        then show ?thesis by blast
      qed (simp only: l(1) simp_thms)
    qed (use "2.prems"(2) in auto)
  qed
qed simp

text \<open>The label at the instant a label resolves to is that label, or a later one behind a gap.\<close>

lemma label_of_resolved:
  assumes "good o1 ts"
  shows "l \<le> l - offset_of_label o1 ts l + offset_at o1 ts (l - offset_of_label o1 ts l)"
  using assms
proof (induction o1 ts l rule: offset_of_label.induct)
  case (2 o1 a o2 ts l)
  note g = good_Cons [OF 2(2)]
  show ?case
  proof (cases "a + max o1 o2 \<le> l")
    case True
    have "a \<le> l - offset_of_label o2 ts l"
    proof (cases "l < a + 3 * day_us")
      case small: True
      then show ?thesis using offset_of_label_head [OF g 2(2)] True by simp
    qed (use offset_small(2) [OF g, of l] in \<open>simp add: small_offset_def day_us_def\<close>)
    then show ?thesis using "2.IH" [OF True g] True by simp
  next
    case False
    have "l - o1 < a + 4 * day_us" using False good_small [OF 2(2)] by (auto simp: small_offset_def day_us_def)
    with False show ?thesis using offset_at_head [OF g 2(2), of "l - o1"] by auto
  qed
qed simp

subsection \<open>The loop returns\<close>

text \<open>Instants between the years 2 and 9993: no step of the search leaves the range of \<open>datetime\<close>.\<close>

definition sane_instant :: "int \<Rightarrow> bool" where
  "sane_instant u \<longleftrightarrow> 366 * day_us \<le> u \<and> u < 3650000 * day_us"

definition sane_label :: "int \<Rightarrow> bool" where
  "sane_label l \<longleftrightarrow> 360 * day_us \<le> l \<and> l < 3650010 * day_us"

lemma sane_label_valid:
  assumes "sane_label l"
  shows "valid_datetime (datetime_of l)" and "d_year (dt_date (datetime_of l)) < 9999"
proof -
  show "valid_datetime (datetime_of l)"
    using assms by (intro valid_datetime_of) (simp add: sane_label_def in_range_def min_us_def max_us_def day_us_def)
  have "l div day_us \<le> days_before_year 9999"
    using assms div_bounds(1) [of day_us l] by (simp add: sane_label_def day_us_def days_before_year_def)
  then have "year_of (l div day_us) \<le> 9998" by (intro year_of_le) simp
  then show "d_year (dt_date (datetime_of l)) < 9999" by (simp add: year_datetime_of)
qed

lemma offsets_small:
  assumes "valid_zone z"
  shows "small_offset (utcoffset z u)" and "small_offset (l - resolve_us z l)"
proof -
  have "small_offset (offset_at c ts u) \<and> small_offset (offset_of_label c ts l)"
    if "small_offset c" "list_all (small_offset \<circ> snd) ts" for c ts
    using that
  proof (induction ts arbitrary: c)
    case (Cons t ts)
    then show ?case by (cases t) (simp add: comp_def)
  qed simp
  with assms show "small_offset (utcoffset z u)" "small_offset (l - resolve_us z l)"
    by (simp_all add: utcoffset_eq resolve_us_eq valid_zone_def)
qed

lemma horizon_us: "occurs ct t \<Longrightarrow> within_horizon t \<Longrightarrow> microseconds_of t < 766645 * day_us"
proof -
  assume "occurs ct t" and h: "within_horizon t"
  then have v: "valid_datetime t" by (simp add: occurs_def)
  let ?x = "DateTime (Date 2100 1 1) (Time 0 0 0) 0"
  have "valid_datetime ?x" by (simp add: valid_datetime_def valid_date_def valid_tod_def days_in_month_def)
  moreover have "t < ?x"
    using h by (cases t; cases "dt_date t") (auto simp: within_horizon_def YEAR_HORIZON_def)
  ultimately have "microseconds_of t < microseconds_of ?x" using microseconds_less [OF v] by simp
  then show ?thesis
    by (simp add: microseconds_of_def toordinal_def days_before_year_def days_before_month_def day_us_def)
qed

text \<open>A label that the loop has looked at, or passed over behind one, without returning.\<close>

definition skipped :: "tzinfo \<Rightarrow> crontab \<Rightarrow> int \<Rightarrow> datetime \<Rightarrow> datetime \<Rightarrow> bool" where
  "skipped z ct now civil t' \<longleftrightarrow>
     (\<exists>t. occurs ct t \<and> civil < t \<and> resolve_in z t \<le> now \<and> t \<le> t' \<and>
        (t' = t \<or> microseconds_of t' \<le> label_us z (resolve_in z t)))"

lemma skipped_mono: "skipped z ct now civil' t' \<Longrightarrow> civil \<le> civil' \<Longrightarrow> skipped z ct now civil t'"
  unfolding skipped_def using order_le_less_trans [of civil civil'] by blast

definition search_answer :: "tzinfo \<Rightarrow> crontab \<Rightarrow> int \<Rightarrow> datetime \<Rightarrow> int option \<Rightarrow> bool" where
  "search_answer z ct now civil r \<longleftrightarrow>
     (case r of
        Some d \<Rightarrow> \<exists>t. occurs ct t \<and> civil < t \<and> within_horizon t \<and> resolve_in z t = now + d \<and> 0 < d \<and>
                    (\<forall>t'. occurs ct t' \<and> civil < t' \<and> t' < t \<longrightarrow> skipped z ct now civil t')
      | None \<Rightarrow> \<forall>t'. occurs ct t' \<and> civil < t' \<and> within_horizon t' \<longrightarrow> skipped z ct now civil t')"

lemma search_answer_step:
  assumes "search_answer z ct now civil' r" and "occurs ct t" and "civil < t" and "resolve_in z t \<le> now"
    and "civil' = max t (render z (resolve_in z t))" and "valid_datetime (render z (resolve_in z t))"
    and "\<And>t'. occurs ct t' \<Longrightarrow> civil < t' \<Longrightarrow> t \<le> t'"
  shows "search_answer z ct now civil r"
proof -
  have le: "civil \<le> civil'" using assms(3) by (simp add: assms(5) le_max_iff_disj order_less_imp_le)
  have now: "skipped z ct now civil t'" if "occurs ct t'" "civil < t'" "t' \<le> civil'" for t'
  proof -
    have "t' = t \<or> microseconds_of t' \<le> label_us z (resolve_in z t)"
    proof (cases "t' \<le> t")
      case True
      with assms(7) [OF that(1,2)] show ?thesis by simp
    next
      case False
      with that(3) have "t' \<le> render z (resolve_in z t)" by (auto simp: assms(5) le_max_iff_disj)
      then have "microseconds_of t' \<le> microseconds_of (render z (resolve_in z t))"
        using microseconds_le_iff assms(6) that(1) by (simp add: occurs_def)
      then show ?thesis by (simp add: render_def)
    qed
    with assms(2-4,7) that(1,2) show ?thesis unfolding skipped_def by blast
  qed
  have both: "skipped z ct now civil t'"
    if "occurs ct t'" "civil < t'" "civil' < t' \<Longrightarrow> skipped z ct now civil' t'" for t'
    using now [OF that(1,2)] that(3) skipped_mono [OF _ le] by (cases "t' \<le> civil'") auto
  show ?thesis
  proof (cases r)
    case None
    with assms(1) both show ?thesis by (simp add: search_answer_def)
  next
    case (Some d)
    with assms(1) obtain u where u: "occurs ct u" "civil' < u" "within_horizon u" "resolve_in z u = now + d" "0 < d"
      "\<And>t'. occurs ct t' \<Longrightarrow> civil' < t' \<Longrightarrow> t' < u \<Longrightarrow> skipped z ct now civil' t'"
      by (auto simp: search_answer_def)
    have "civil < u" using le u(2) by (rule order_le_less_trans)
    with u both Some show ?thesis unfolding search_answer_def by auto
  qed
qed

lemma next_loop_returns:
  assumes "wf_crontab ct" and "valid_zone z" and "valid_datetime civil" and "sane_label (microseconds_of civil)"
  shows "\<exists>r. next_loop z ct now civil = Some (Inr r) \<and> search_answer z ct now civil r"
  using assms(3,4)
proof (induction "nat (766645 * day_us - microseconds_of civil)" arbitrary: civil rule: less_induct)
  case less
  have "d_year (dt_date civil) < 9999"
    using sane_label_valid(2) [OF less.prems(2)] datetime_microseconds [OF less.prems(1)] by simp
  then obtain r where r: "next_civil ct civil = Inr r" using next_civil_total [OF assms(1)] by blast
  note c = next_civil_cases [OF r assms(1) less.prems(1)]
  show ?case
  proof (cases r)
    case None
    then show ?thesis using r c(2) by (auto simp: search_answer_def next_loop.simps [of z ct now civil])
  next
    case (Some t)
    note t = c(1) [OF Some]
    show ?thesis
    proof (cases "resolve_in z t > now")
      case True
      then have "search_answer z ct now civil (Some (resolve_in z t - now))"
        using t by (auto simp: search_answer_def leD intro!: exI [of _ t])
      with True r Some show ?thesis by (simp add: next_loop.simps [of z ct now civil])
    next
      case False
      let ?m = "microseconds_of t" and ?l = "label_us z (resolve_in z t)"
      let ?c = "max t (render z (resolve_in z t))"
      have v: "valid_datetime t" using t by (simp add: occurs_def)
      have m: "microseconds_of civil < ?m" "?m < 766645 * day_us"
        using t microseconds_less [OF less.prems(1) v] horizon_us by blast+
      have lm: "in_range ?l" "?l < 3650010 * day_us" "sane_label ?m"
        using offsets_small [OF assms(2), of "resolve_in z t"] offsets_small(2) [OF assms(2), of ?m] m less.prems(2)
        by (auto simp: sane_label_def label_us_def resolve_in_def small_offset_def day_us_def in_range_def min_us_def max_us_def)
      have v2: "valid_datetime (render z (resolve_in z t))" using valid_datetime_of [OF lm(1)] by (simp add: render_def)
      then have vc: "valid_datetime ?c" "sane_label (microseconds_of ?c)" "?m \<le> microseconds_of ?c"
        using v lm microseconds_le_iff [OF v v2] by (auto simp: max_def render_def sane_label_def)
      have "\<exists>r. next_loop z ct now ?c = Some (Inr r) \<and> search_answer z ct now ?c r"
        by (rule less.hyps [OF _ vc(1,2)]) (use m vc(3) in auto)
      then obtain r' where r': "next_loop z ct now ?c = Some (Inr r')" "search_answer z ct now ?c r'" by blast
      have "search_answer z ct now civil r'"
        by (rule search_answer_step [OF r'(2) _ _ _ refl v2]) (use t False in auto)
      with False r Some r'(1) show ?thesis by (simp add: next_loop.simps [of z ct now civil])
    qed
  qed
qed

subsection \<open>The seed\<close>

definition zone_jumps :: "tzinfo \<Rightarrow> (int \<times> int \<times> int) list" where
  "zone_jumps z = jumps (zone_first z) (zone_trans z)"

text \<open>Transitions are days apart, and none moves the clock by as much as the probe looks back.\<close>

definition regular_zone :: "tzinfo \<Rightarrow> bool" where
  "regular_zone z \<longleftrightarrow> valid_zone z \<and> spaced (zone_trans z) \<and>
     list_all (\<lambda>(a, ob, oa). oa - ob < GAP_PROBE) (zone_jumps z)"

lemma regular_good: "regular_zone z \<Longrightarrow> good (zone_first z) (zone_trans z)"
  by (simp add: regular_zone_def valid_zone_def good_def)

lemma seed_us:
  assumes "valid_zone z" and "sane_instant now"
  obtains m where "gap_rewound_seed z now = datetime_of m" and "sane_label m" and "m \<le> label_us z now"
    and "regular_zone z \<longrightarrow>
      (\<forall>a ob oa. (a, ob, oa) \<in> set (zone_jumps z) \<and> a \<le> now \<and> now < a + (oa - ob) \<longrightarrow> m = now + ob)"
proof -
  define off_now off_then where d: "off_now = utcoffset z now" "off_then = utcoffset z (now - GAP_PROBE)"
  define rewind where "rewind \<longleftrightarrow> off_then < off_now \<and> utcoffset z (now - (off_now - off_then)) \<noteq> off_now"
  have small: "small_offset off_now" "small_offset off_then" using offsets_small(1) [OF assms(1)] by (simp_all add: d)
  have ranges: "in_range (now - GAP_PROBE)" "in_range (label_us z (now - GAP_PROBE))"
    using assms(2) small
    by (auto simp: sane_instant_def in_range_def label_us_def d min_us_def max_us_def GAP_PROBE_def hour_us_def
        day_us_def small_offset_def)
  define m where "m = (if rewind then label_us z now - (off_now - off_then) else label_us z now)"
  have fixed: "off_then = off_now" if "z = FixedZone c" for c using that by (simp add: d)
  have seed: "gap_rewound_seed z now = datetime_of m"
  proof (cases z)
    case (FixedZone c)
    with fixed show ?thesis by (simp add: gap_rewound_seed_def m_def rewind_def render_def)
  next
    case (ZoneInfo c ts)
    have "gap_rewound_seed z now =
      (if off_now \<le> off_then then render z now
       else if utcoffset z (now - (off_now - off_then)) = off_now then render z now
       else datetime_of (label_us z now - (off_now - off_then)))"
      unfolding gap_rewound_seed_def Let_def using ranges ZoneInfo
      by (simp add: d render_def del: utcoffset.simps)
    then show ?thesis by (auto simp: m_def rewind_def render_def)
  qed
  have bounds: "sane_label m" "m \<le> label_us z now"
    using assms(2) small by (auto simp: m_def rewind_def sane_instant_def sane_label_def label_us_def d [symmetric]
        small_offset_def day_us_def)
  have "m = now + ob" if r: "regular_zone z" and j: "(a, ob, oa) \<in> set (zone_jumps z)" "a \<le> now" "now < a + (oa - ob)"
    for a ob oa
  proof -
    note g = regular_good [OF r] and j' = j(1) [unfolded zone_jumps_def]
    have sm: "oa - ob < GAP_PROBE" using r j(1) by (auto simp: regular_zone_def list_all_iff)
    have "off_now = oa" unfolding d utcoffset_eq
      by (rule offset_at_after [OF g j' j(2)]) (use j(3) sm in \<open>simp add: day_us_def GAP_PROBE_def hour_us_def\<close>)
    moreover have "off_then = ob" unfolding d utcoffset_eq
      by (rule offset_at_before [OF g j']) (use j(2,3) sm in \<open>simp_all add: day_us_def GAP_PROBE_def hour_us_def\<close>)
    moreover have "utcoffset z (now - (oa - ob)) = ob" unfolding utcoffset_eq
      by (rule offset_at_before [OF g j']) (use j(2,3) sm in \<open>simp_all add: day_us_def GAP_PROBE_def hour_us_def\<close>)
    ultimately show ?thesis using j(2,3) by (simp add: m_def rewind_def label_us_def d [symmetric])
  qed
  with seed bounds that show thesis by blast
qed

text \<open>Up to the seed, and among what the loop skips, every label lies in the past.\<close>

lemma seed_behind:
  assumes "regular_zone z" and "l \<le> m" and "m \<le> label_us z now"
    and "\<And>a ob oa. (a, ob, oa) \<in> set (zone_jumps z) \<Longrightarrow> a \<le> now \<Longrightarrow> now < a + (oa - ob) \<Longrightarrow> m = now + ob"
  shows "resolve_us z l \<le> now"
proof -
  note g = regular_good [OF assms(1)]
  have "l \<le> now + offset_at (zone_first z) (zone_trans z) now"
    using assms(2,3) by (simp add: label_us_def utcoffset_eq)
  from label_passed [OF g this] consider "resolve_us z l \<le> now"
    | a ob oa where "(a, ob, oa) \<in> set (zone_jumps z)" "a + ob \<le> l" "l < a + oa" "a \<le> now" "now < a + (oa - ob)"
    by (auto simp: resolve_us_eq zone_jumps_def)
  then show ?thesis
  proof cases
    case 2
    then have j: "(a, ob, oa) \<in> set (jumps (zone_first z) (zone_trans z))" by (simp add: zone_jumps_def)
    have "offset_of_label (zone_first z) (zone_trans z) l = ob"
      by (rule offset_of_label_before [OF g j]) (use 2 jumps_small [OF g j] in \<open>simp_all add: small_offset_def day_us_def\<close>)
    with assms(2) assms(4) [OF 2(1,4,5)] show ?thesis by (simp add: resolve_us_eq)
  qed
qed

lemma skipped_behind:
  assumes "regular_zone z" and "m < l" and "l \<le> l'" and "resolve_us z l \<le> now" and "l' \<le> label_us z (resolve_us z l)"
    and "\<And>a ob oa. (a, ob, oa) \<in> set (zone_jumps z) \<Longrightarrow> a \<le> now \<Longrightarrow> now < a + (oa - ob) \<Longrightarrow> m = now + ob"
  shows "resolve_us z l' \<le> now"
proof -
  note g = regular_good [OF assms(1)]
  let ?u = "resolve_us z l"
  have "l' \<le> ?u + offset_at (zone_first z) (zone_trans z) ?u"
    using assms(5) by (simp add: label_us_def utcoffset_eq)
  from label_passed [OF g this] consider "resolve_us z l' \<le> ?u"
    | a ob oa where "(a, ob, oa) \<in> set (zone_jumps z)" "a + ob \<le> l'" "l' < a + oa" "a \<le> ?u"
    by (auto simp: resolve_us_eq zone_jumps_def)
  then show ?thesis
  proof cases
    case 1
    with assms(4) show ?thesis by simp
  next
    case 2
    then have j: "(a, ob, oa) \<in> set (jumps (zone_first z) (zone_trans z))" by (simp add: zone_jumps_def)
    note sm = jumps_small [OF g j]
    have at: "resolve_us z k = k - ob" if "a + ob \<le> k" "k \<le> l'" for k
      unfolding resolve_us_eq using that 2(3) sm
      by (subst offset_of_label_before [OF g j]) (simp_all add: small_offset_def day_us_def)
    show ?thesis
    proof (rule ccontr)
      assume "\<not> resolve_us z l' \<le> now"
      then have "now < a + (oa - ob)" using at [OF 2(2) order_refl] 2(3) by simp
      moreover have "a \<le> now" using 2(4) assms(4) by simp
      ultimately have "m = now + ob" using assms(6) [OF 2(1)] by blast
      with assms(2) \<open>a \<le> now\<close> have "now < l - ob" "a + ob \<le> l" by simp_all
      with at [of l] assms(3,4) show False by simp
    qed
  qed
qed

text \<open>Two labels whose instants come in the other order lie in a gap and behind it.\<close>

lemma inverted_labels:
  assumes "regular_zone z" and "l < l'" and "resolve_us z l' < resolve_us z l"
  obtains a ob oa where "(a, ob, oa) \<in> set (zone_jumps z)" and "a + ob \<le> l" and "l < a + oa" and "a + oa \<le> l'"
    and "resolve_us z l = l - ob" and "resolve_us z l' = l' - oa"
    and "\<And>k. a + ob \<le> k \<Longrightarrow> k < a + oa \<Longrightarrow> resolve_us z k = k - ob"
proof -
  note g = regular_good [OF assms(1)]
  let ?u = "resolve_us z l'"
  have "l \<le> ?u + offset_at (zone_first z) (zone_trans z) ?u"
    using label_of_resolved [OF g, of l'] assms(2) by (simp add: resolve_us_eq)
  from label_passed [OF g this] assms(3) obtain a ob oa where
    j: "(a, ob, oa) \<in> set (jumps (zone_first z) (zone_trans z))" "a + ob \<le> l" "l < a + oa" "a \<le> ?u" "?u < a + (oa - ob)"
    by (auto simp: resolve_us_eq)
  note sm = jumps_small [OF g j(1)]
  have gap: "resolve_us z k = k - ob" if "a + ob \<le> k" "k < a + oa" for k
    unfolding resolve_us_eq using that sm
    by (subst offset_of_label_before [OF g j(1)]) (simp_all add: small_offset_def day_us_def)
  have l': "a + oa \<le> l'"
  proof (rule ccontr)
    assume "\<not> a + oa \<le> l'"
    then have "resolve_us z l' = l' - ob" using gap j(2) assms(2) by simp
    with gap [OF j(2,3)] assms(2,3) show False by simp
  qed
  have "oa - ob < GAP_PROBE" using assms(1) j(1) by (auto simp: regular_zone_def list_all_iff zone_jumps_def)
  then have "l' < a + 3 * day_us"
    using j(5) offset_small(2) [OF g, of l'] by (simp add: resolve_us_eq small_offset_def day_us_def GAP_PROBE_def hour_us_def)
  then have "resolve_us z l' = l' - oa"
    unfolding resolve_us_eq using l' j(2,3) by (subst offset_of_label_after [OF g j(1)]) simp_all
  with that [of a ob oa] j l' gap show thesis by (simp add: zone_jumps_def)
qed

text \<open>
  Where the clock springs forward by a full hour, from a full hour before the last one of a day, the
  hour behind the gap repeats what the gap swallows.
\<close>

definition whole_hours :: "tzinfo \<Rightarrow> bool" where
  "whole_hours z \<longleftrightarrow>
     list_all (\<lambda>(a, ob, oa). ob < oa \<longrightarrow>
       oa - ob = hour_us \<and> (a + ob) mod hour_us = 0 \<and> (a + ob) mod day_us < 23 * hour_us) (zone_jumps z)"

lemma same_hour:
  assumes "h mod hour_us = 0" and "h mod day_us < 23 * hour_us" and "h \<le> l" and "l < h + hour_us"
  shows "l div day_us = h div day_us" and "(l + hour_us) div day_us = h div day_us"
    and "l mod day_us div hour_us = h mod day_us div hour_us"
    and "(l + hour_us) mod day_us div hour_us = h mod day_us div hour_us + 1"
proof -
  define q r where d: "q = h div day_us" "r = h mod day_us"
  have h: "h = q * day_us + r" "0 \<le> r" "r < 23 * hour_us" using assms(2) by (simp_all add: d day_us_def)
  have "r mod hour_us = h mod hour_us" unfolding d(2) by (rule mod_mod_cancel) (simp add: day_us_def hour_us_def)
  then obtain k where k: "r = k * hour_us" using assms(1) by (metis add.right_neutral div_mult_mod_eq)
  then have r: "r \<le> 22 * hour_us" using h(3) by (simp add: hour_us_def)
  have split: "x div day_us = q" "x mod day_us = x - q * day_us" if "q * day_us \<le> x" "x < q * day_us + day_us" for x
  proof -
    show "x div day_us = q" using that by (intro int_div_pos_eq [of _ _ _ "x - q * day_us"]) (simp_all add: algebra_simps)
    then show "x mod day_us = x - q * day_us" by (metis minus_div_mult_eq_mod)
  qed
  have l: "q * day_us \<le> l" "l + hour_us < q * day_us + day_us" using h r assms(3,4) by (simp_all add: day_us_def hour_us_def)
  then show "l div day_us = h div day_us" "(l + hour_us) div day_us = h div day_us"
    by (simp_all add: split d(1) [symmetric] hour_us_def)
  have hr: "(k * hour_us + e) div hour_us = k" if "0 \<le> e" "e < hour_us" for e k
    using that by (simp add: div_pos_pos_trivial hour_us_def)
  have e: "0 \<le> l - h" "l - h < hour_us" using assms(3,4) by simp_all
  have "h mod day_us = k * hour_us + 0" using k by (simp add: d(2))
  moreover have "l mod day_us = k * hour_us + (l - h)" "(l + hour_us) mod day_us = (k + 1) * hour_us + (l - h)"
    using l h k by (simp_all add: split hour_us_def)
  ultimately show "l mod day_us div hour_us = h mod day_us div hour_us"
    "(l + hour_us) mod day_us div hour_us = h mod day_us div hour_us + 1"
    using e by (simp_all only: hr)
qed

lemma repeated_occurrence:
  assumes "occurs ct t" and "occurs ct t'" and "h mod hour_us = 0" and "h mod day_us < 23 * hour_us"
    and "h \<le> microseconds_of t" and "microseconds_of t < h + hour_us"
    and "h + hour_us \<le> microseconds_of t'" and "microseconds_of t' < h + 2 * hour_us"
  obtains t'' where "occurs ct t''" and "microseconds_of t'' = microseconds_of t' - hour_us"
proof -
  have d: "dt_date x = fromordinal (microseconds_of x div day_us)"
    "t_hour (dt_time x) = microseconds_of x mod day_us div hour_us" if "occurs ct x" for x
    using arg_cong [OF datetime_microseconds [of x], of dt_date]
      arg_cong [OF datetime_microseconds [of x], of "\<lambda>x. t_hour (dt_time x)"] that
    by (simp_all add: occurs_def datetime_of_def Let_def)
  note s = same_hour [OF assms(3,4)]
  have "dt_date t = dt_date t'"
    using s(1) [OF assms(5,6)] s(2) [of "microseconds_of t' - hour_us"] assms(7,8)
    by (simp add: d assms(1,2))
  moreover have "t_hour (dt_time t') = t_hour (dt_time t) + 1"
    using s(3) [OF assms(5,6)] s(4) [of "microseconds_of t' - hour_us"] assms(7,8)
    by (simp add: d assms(1,2))
  moreover obtain y m da tm where t: "t = DateTime (Date y m da) tm 0" "occurs ct (DateTime (Date y m da) tm 0)"
    using assms(1) by (metis occursE)
  moreover obtain y' m' da' tm' where t': "t' = DateTime (Date y' m' da') tm' 0" "occurs ct (DateTime (Date y' m' da') tm' 0)"
    using assms(2) by (metis occursE)
  ultimately have eq: "y' = y" "m' = m" "da' = da" "t_hour tm' = t_hour tm + 1" by simp_all
  let ?t = "DateTime (Date y m da) (Time (t_hour tm) (t_minute tm') (t_second tm')) 0"
  have "occurs ct ?t"
    using t(2) t'(2) by (auto simp: occurs_iff eq cron_time_def valid_tod_def)
  moreover have "microseconds_of ?t = microseconds_of t' - hour_us"
    by (simp add: t'(1) eq microseconds_of_def hour_us_def)
  ultimately show thesis by (rule that)
qed

subsection \<open>The search finds the next fire\<close>

lemma passed_label:
  assumes "regular_zone z" and "sane_instant now" and "occurs ct t"
    and "\<not> gap_rewound_seed z now < t \<or> skipped z ct now (gap_rewound_seed z now) t"
  shows "resolve_in z t \<le> now"
proof -
  have vz: "valid_zone z" using assms(1) by (simp add: regular_zone_def)
  obtain m where m: "gap_rewound_seed z now = datetime_of m" "sane_label m" "m \<le> label_us z now"
    "\<And>a ob oa. (a, ob, oa) \<in> set (zone_jumps z) \<Longrightarrow> a \<le> now \<Longrightarrow> now < a + (oa - ob) \<Longrightarrow> m = now + ob"
    using seed_us [OF vz assms(2)] assms(1) by metis
  have less: "gap_rewound_seed z now < x \<longleftrightarrow> m < microseconds_of x" if "occurs ct x" for x
    using microseconds_less_iff [of "datetime_of m" x] sane_label_valid(1) [OF m(2)] that by (simp add: m(1) occurs_def)
  from assms(4) show ?thesis
  proof
    assume "\<not> gap_rewound_seed z now < t"
    then have "microseconds_of t \<le> m" by (simp add: less assms(3))
    from seed_behind [OF assms(1) this m(3,4)] show ?thesis by (simp add: resolve_in_def)
  next
    assume "skipped z ct now (gap_rewound_seed z now) t"
    then obtain t0 where t0: "occurs ct t0" "gap_rewound_seed z now < t0" "resolve_in z t0 \<le> now" "t0 \<le> t"
      "t = t0 \<or> microseconds_of t \<le> label_us z (resolve_in z t0)" by (auto simp: skipped_def)
    from t0(5) show ?thesis
    proof
      assume l: "microseconds_of t \<le> label_us z (resolve_in z t0)"
      have "microseconds_of t0 \<le> microseconds_of t"
        using microseconds_le_iff t0(1,4) assms(3) by (simp add: occurs_def)
      from skipped_behind [OF assms(1) _ this _ _ m(4)] t0 l less show ?thesis by (simp add: resolve_in_def)
    qed (use t0(3) in simp)
  qed
qed

lemma next_aware_spec:
  assumes "wf_crontab ct" and "regular_zone z" and "whole_hours z"
    and "sane_instant now"
  shows "(\<exists>d t. next_aware z ct now = Some (Inr (Some d)) \<and> 0 < d \<and> occurs ct t \<and> within_horizon t \<and> resolve_in z t = now + d \<and>
            (\<forall>t'. occurs ct t' \<and> now < resolve_in z t' \<longrightarrow> now + d \<le> resolve_in z t')) \<or>
         (next_aware z ct now = Some (Inr None) \<and>
            (\<forall>t'. occurs ct t' \<and> within_horizon t' \<longrightarrow> resolve_in z t' \<le> now))"
proof -
  let ?s = "gap_rewound_seed z now"
  have vz: "valid_zone z" using assms(2) by (simp add: regular_zone_def)
  obtain m where m: "?s = datetime_of m" "sane_label m" using seed_us [OF vz assms(4)] by metis
  obtain r where r: "next_aware z ct now = Some (Inr r)" "search_answer z ct now ?s r"
    using next_loop_returns [OF assms(1) vz sane_label_valid(1) [OF m(2)], of now] m
    by (auto simp: next_aware_def)
  note passed = passed_label [OF assms(2,4)]
  show ?thesis
  proof (cases r)
    case None
    then have "resolve_in z t' \<le> now" if "occurs ct t'" "within_horizon t'" for t'
      using passed [of ct t'] r(2) that by (auto simp: search_answer_def)
    with r(1) None show ?thesis by blast
  next
    case (Some d)
    then obtain t where t: "occurs ct t" "resolve_in z t = now + d" "0 < d"
      "\<And>t'. occurs ct t' \<Longrightarrow> ?s < t' \<Longrightarrow> t' < t \<Longrightarrow> skipped z ct now ?s t'" and h: "within_horizon t"
      using r(2) by (auto simp: search_answer_def)
    have early: "resolve_in z t' \<le> now" if "occurs ct t'" "t' < t" for t' using passed [of ct t'] t(4) that by blast
    have "now + d \<le> resolve_in z t'" if t': "occurs ct t'" "now < resolve_in z t'" for t'
    proof (rule ccontr)
      assume lt: "\<not> now + d \<le> resolve_in z t'"
      have us: "x < y \<longleftrightarrow> microseconds_of x < microseconds_of y" if "occurs ct x" "occurs ct y" for x y
        using microseconds_less_iff that by (simp add: occurs_def)
      have "microseconds_of t < microseconds_of t'" using us [OF t(1) t'(1)] early [OF t'(1)] t'(2) lt t(2) by (metis leD linorder_less_linear order_refl)
      moreover have "resolve_us z (microseconds_of t') < resolve_us z (microseconds_of t)"
        using lt t(2) by (simp add: resolve_in_def)
      ultimately obtain a ob oa where j: "(a, ob, oa) \<in> set (zone_jumps z)" "a + ob \<le> microseconds_of t"
        "microseconds_of t < a + oa" "a + oa \<le> microseconds_of t'"
        "resolve_us z (microseconds_of t) = microseconds_of t - ob"
        "resolve_us z (microseconds_of t') = microseconds_of t' - oa"
        "\<And>k. a + ob \<le> k \<Longrightarrow> k < a + oa \<Longrightarrow> resolve_us z k = k - ob"
        by (rule inverted_labels [OF assms(2)]) blast
      have w: "oa - ob = hour_us" "(a + ob) mod hour_us = 0" "(a + ob) mod day_us < 23 * hour_us"
        using assms(3) j(1-3) by (auto simp: whole_hours_def list_all_iff)
      obtain t'' where t'': "occurs ct t''" "microseconds_of t'' = microseconds_of t' - hour_us"
        by (rule repeated_occurrence [OF t(1) t'(1) w(2,3)]) (use j(2-6) lt t(2) w(1) in \<open>simp_all add: resolve_in_def\<close>)
      have "resolve_in z t'' = resolve_in z t'"
        using j(3-6) j(7) [of "microseconds_of t'' "] w(1) lt t(2) t''(2) by (simp add: resolve_in_def)
      moreover have "t'' < t" using us [OF t''(1) t(1)] t''(2) j(5,6) w(1) lt t(2) by (simp add: resolve_in_def)
      ultimately show False using early [OF t''(1)] t'(2) by simp
    qed
    with r(1) Some t(1-3) h show ?thesis by blast
  qed
qed

text \<open>The delay is positive whenever there is one.\<close>

lemma next_loop_positive:
  assumes "next_loop z ct now civil = Some (Inr (Some d))"
  shows "0 < d"
proof -
  have "next_loop z ct now civil = Some r \<Longrightarrow> \<forall>d. r = Inr (Some d) \<longrightarrow> 0 < d" for r
    by (erule next_loop.raw_induct [where P = "\<lambda>z ct now civil r. \<forall>d. r = Inr (Some d) \<longrightarrow> 0 < d", rotated])
      (auto split: sum.splits option.splits if_splits)
  with assms show ?thesis by blast
qed

text \<open>The first instant that the generator yields is the next fire.\<close>

lemma yield_loop_is_next:
  assumes "next_loop z ct now civil = Some r"
  shows "yield_loop z ct now civil = Some (map_sum id (map_option ((+) now)) r)"
  using assms
proof (rule next_loop.raw_induct
    [where P = "\<lambda>z ct now civil r. yield_loop z ct now civil = Some (map_sum id (map_option ((+) now)) r)", rotated])
  fix loop z ct now civil r
  assume "\<And>z ct now civil r. loop z ct now civil = Some r \<Longrightarrow>
      yield_loop z ct now civil = Some (map_sum id (map_option ((+) now)) r)"
    and "(case next_civil ct civil of Inl e \<Rightarrow> Some (Inl e) | Inr None \<Rightarrow> Some (Inr None)
      | Inr (Some target) \<Rightarrow>
          if resolve_in z target > now then Some (Inr (Some (resolve_in z target - now)))
          else loop z ct now (max target (render z (resolve_in z target)))) = Some r"
  then show "yield_loop z ct now civil = Some (map_sum id (map_option ((+) now)) r)"
    by (subst yield_loop.simps) (auto split: sum.splits option.splits if_splits)
qed

end
