(* ===== verification/ZoneProps.thy ===== *)
theory ZoneProps
  imports CronZoneFacts
begin

text \<open>
  Properties of the time-zone aware search: it returns, it finds the next fire, and where it does not:
  a clock that springs by half an hour, and the generator behind a gap.
\<close>

subsection \<open>The search returns the next fire\<close>

text \<open>New York in 2026: the clock springs from 2:00 to 3:00 on 8 March and falls back on 1 November.\<close>

definition new_york :: tzinfo where
  "new_york = ZoneInfo (- 5 * hour_us)
     [(microseconds_of (DateTime (Date 2026 3 8) (Time 7 0 0) 0), - 4 * hour_us),
      (microseconds_of (DateTime (Date 2026 11 1) (Time 6 0 0) 0), - 5 * hour_us)]"

text \<open>Every night at half past two; and the instant 1:59 on the night of the gap.\<close>

definition half_past_two :: crontab where
  "half_past_two = (case CronTab_init (\<lambda>_. []) None ''30 2 * * *'' of Inr ct \<Rightarrow> ct)"

definition before_gap :: int where
  "before_gap = microseconds_of (DateTime (Date 2026 3 8) (Time 6 59 0) 0)"

lemma half_past_two_parsed: "CronTab_init (\<lambda>_. []) None ''30 2 * * *'' = Inr half_past_two"
  unfolding half_past_two_def by code_simp

text \<open>
  C17. The search of an aware \<open>next\<close> ends for every accepted expression, every zone and every instant
  between the years 2 and 9993: its loop, which has no bound of its own, advances the wall-clock label
  it looks at in every round, across gaps and repeated hours, and stops at the year horizon.
\<close>

theorem next_aware_terminates:
  assumes "CronTab_init sha256 hash_key expression = Inr ct" and "valid_zone z" and "sane_instant now"
  shows "\<exists>r. next_aware z ct now = Some (Inr r)"
proof -
  obtain m where m: "gap_rewound_seed z now = datetime_of m" "sane_label m"
    using seed_us [OF assms(2,3)] by metis
  show ?thesis
    using next_loop_returns [OF CronTab_init_wf(1) [OF assms(1)] assms(2) sane_label_valid(1) [OF m(2)], of now] m
    by (auto simp: next_aware_def)
qed

theorem next_aware_terminates_witness:
  "next_aware new_york half_past_two before_gap = Some (Inr (Some (31 * 60000000)))"
proof -
  have z: "valid_zone new_york" "sane_instant before_gap" by code_simp+
  obtain r where "next_aware new_york half_past_two before_gap = Some (Inr r)"
    using next_aware_terminates [OF half_past_two_parsed z] by blast
  moreover have "next_aware new_york half_past_two before_gap = Some (Inr (Some (31 * 60000000)))" by code_simp
  ultimately show ?thesis by simp
qed

text \<open>
  C16. In a zone whose transitions are at least four days apart and less than 26 hours wide and which
  springs forward, if it does, by exactly one hour, on a full hour before 23:00, the search finds the
  next fire from any instant between the years 2 and 9993: the least instant after \<open>now\<close> to which a matching label resolves, where a label
  that a gap swallows counts at its shifted instant and a repeated one only the first time.
\<close>

theorem next_aware_is_next_fire:
  assumes "CronTab_init sha256 hash_key expression = Inr ct" and "regular_zone z" and "whole_hours z"
    and "sane_instant now"
  shows "(\<exists>d t. next_aware z ct now = Some (Inr (Some d)) \<and> 0 < d \<and> occurs ct t \<and> resolve_in z t = now + d \<and>
            (\<forall>t'. occurs ct t' \<and> now < resolve_in z t' \<longrightarrow> now + d \<le> resolve_in z t')) \<or>
         (next_aware z ct now = Some (Inr None) \<and>
            (\<forall>t'. occurs ct t' \<and> within_horizon t' \<longrightarrow> resolve_in z t' \<le> now))"
  using next_aware_spec [OF CronTab_init_wf(1) [OF assms(1)] assms(2-4)] by blast

theorem next_aware_is_next_fire_witness:
  "next_aware new_york half_past_two before_gap = Some (Inr (Some (31 * 60000000))) \<and>
   \<not> (\<exists>t'. occurs half_past_two t' \<and> before_gap < resolve_in new_york t' \<and>
        resolve_in new_york t' < before_gap + 31 * 60000000)"
proof -
  have z: "regular_zone new_york" "whole_hours new_york" "sane_instant before_gap" by code_simp+
  have n: "next_aware new_york half_past_two before_gap = Some (Inr (Some (31 * 60000000)))" by code_simp
  from next_aware_is_next_fire [OF half_past_two_parsed z] n
  have "\<forall>t'. occurs half_past_two t' \<and> before_gap < resolve_in new_york t' \<longrightarrow>
      before_gap + 31 * 60000000 \<le> resolve_in new_york t'" by auto
  with n show ?thesis by (meson leD)
qed

subsection \<open>Where it does not\<close>

text \<open>
  Lord Howe springs by half an hour, from 2:00 to 2:30.  The label 2:15 shifts to 2:45, behind 2:40,
  which is a real label of that night; the search reports 2:45 first, and from there 2:40 is past.
\<close>

definition lord_howe :: tzinfo where
  "lord_howe = ZoneInfo (10 * hour_us + 30 * 60000000)
     [(microseconds_of (DateTime (Date 2026 10 3) (Time 15 30 0) 0), 11 * hour_us)]"

definition two_a_night :: crontab where
  "two_a_night = (case CronTab_init (\<lambda>_. []) None ''15,40 2 * * *'' of Inr ct \<Rightarrow> ct)"

lemma half_hour_gap_loses_fire:
  "let now = microseconds_of (DateTime (Date 2026 10 3) (Time 15 29 0) 0); lost = now + 11 * 60000000
   in resolve_in lord_howe (DateTime (Date 2026 10 4) (Time 2 40 0) 0) = lost \<and>
      test two_a_night (DateTime (Date 2026 10 4) (Time 2 40 0) 0) \<and>
      next_aware lord_howe two_a_night now = Some (Inr (Some (16 * 60000000))) \<and>
      next_aware lord_howe two_a_night (now + 16 * 60000000) =
        Some (Inr (Some (microseconds_of (DateTime (Date 2026 10 4) (Time 15 15 0) 0) - (now + 16 * 60000000))))"
  by code_simp

text \<open>
  The generator goes on from the shifted label of what it yielded, so of the labels that one gap
  swallows it yields the first only; asked instant by instant, as the scheduler does, the search fires
  each of them.
\<close>

definition quarters_of_two :: crontab where
  "quarters_of_two = (case CronTab_init (\<lambda>_. []) None ''0,30 2 * * *'' of Inr ct \<Rightarrow> ct)"

lemma generator_drops_gap_fires:
  "let gap = microseconds_of (DateTime (Date 2026 3 8) (Time 7 0 0) 0)
   in occurrences_aware 2 new_york quarters_of_two before_gap =
        Some (Inr [gap, gap + 23 * hour_us]) \<and>
      next_aware new_york quarters_of_two before_gap = Some (Inr (Some (gap - before_gap))) \<and>
      next_aware new_york quarters_of_two gap = Some (Inr (Some (30 * 60000000)))"
  by code_simp

end
