(* ===== verification/Election.thy ===== *)
theory Election
  imports CronParse "HOL-Library.Product_Lexorder"
begin

text \<open>
  The pure elections of \<open>cluster.py\<close>: \<open>quorum_size\<close>, the lowest-name leader with and without the
  quorum gate, the rendezvous (highest-random-weight) owner of a job and its variant over
  pre-encoded names.  The SHA-256 digest of the standard library is a parameter; names are ASCII, so
  that encoding a name is the identity.

  Two contracts carry the arguments about clusters.  \<open>quorum_system\<close> has the law that any two
  quorums meet, which strict majorities satisfy.  \<open>selector\<close> is what the elections share: out of a
  node and the names it may elect they pick the best in an order that all nodes agree on; the lowest
  name and, for every job, the rendezvous winner satisfy it.
\<close>

text \<open>The policies of a job (\<open>clusterPolicy\<close>) that the gates of all backends distinguish.\<close>

datatype cluster_policy = EveryNode | Leader | PreferLeader

subsection \<open>Elections by name\<close>

definition quorum_size :: "nat \<Rightarrow> nat" where
  "quorum_size cluster_size = cluster_size div 2 + 1"

text \<open>\<open>min\<close> of a list that starts with this node's own name.\<close>

definition lowest :: "string \<Rightarrow> string list \<Rightarrow> string" where
  "lowest node_name names = fold min names node_name"

definition elect_leader ::
  "string \<Rightarrow> string list \<Rightarrow> nat \<Rightarrow> string list option \<Rightarrow> string option" where
  "elect_leader node_name live_peer_names cluster_size candidate_names =
     (if length (node_name # live_peer_names) < quorum_size cluster_size then None
      else (case candidate_names of
              None \<Rightarrow> Some (lowest node_name live_peer_names)
            | Some names \<Rightarrow> Some (lowest node_name names)))"

definition elect_available_leader :: "string \<Rightarrow> string list \<Rightarrow> string" where
  "elect_available_leader node_name agreeing_peer_names = lowest node_name agreeing_peer_names"

subsection \<open>Rendezvous hashing\<close>

definition hrw_score :: "(string \<Rightarrow> int list) \<Rightarrow> string \<Rightarrow> string \<Rightarrow> int" where
  "hrw_score sha256 job_name node_name =
     from_bytes_big (take 8 (sha256 (job_name @ [CHR 0x00] @ node_name)))"

definition hrw_key :: "(string \<Rightarrow> int list) \<Rightarrow> string \<Rightarrow> string \<Rightarrow> int \<times> string" where
  "hrw_key sha256 job_name n = (hrw_score sha256 job_name n, n)"

text \<open>\<open>max(members, key=...)\<close> keeps the first of several maxima; it raises on an empty list.\<close>

fun max_by :: "('a \<Rightarrow> 'k :: linorder) \<Rightarrow> 'a \<Rightarrow> 'a list \<Rightarrow> 'a" where
  "max_by key best [] = best"
| "max_by key best (x # xs) = max_by key (if key best < key x then x else best) xs"

datatype owner_error = EmptyMembers | UnequalLengths

definition hrw_owner ::
  "(string \<Rightarrow> int list) \<Rightarrow> string \<Rightarrow> string list \<Rightarrow> (owner_error, string) result" where
  "hrw_owner sha256 job_name members =
     (case members of
        [] \<Rightarrow> Inl EmptyMembers
      | m # ms \<Rightarrow> Inr (max_by (hrw_key sha256 job_name) m ms))"

text \<open>
  The loop over the names and their bytes, with the best score and name so far; the strict
  \<open>zip\<close> raises when the lists differ in length.
\<close>

fun owner_loop ::
  "(string \<Rightarrow> int list) \<Rightarrow> string \<Rightarrow> int \<Rightarrow> string \<Rightarrow> (string \<times> string) list \<Rightarrow> string" where
  "owner_loop sha256 job_prefix best_score best_name [] = best_name"
| "owner_loop sha256 job_prefix best_score best_name ((name, name_bytes) # rest) =
     (let score = from_bytes_big (take 8 (sha256 (job_prefix @ name_bytes)))
      in if (best_score, best_name) < (score, name)
         then owner_loop sha256 job_prefix score name rest
         else owner_loop sha256 job_prefix best_score best_name rest)"

definition hrw_owner_bytes ::
  "(string \<Rightarrow> int list) \<Rightarrow> string \<Rightarrow> string list \<Rightarrow> string list \<Rightarrow> (owner_error, string) result" where
  "hrw_owner_bytes sha256 job_name members member_bytes =
     (let job_prefix = job_name @ [CHR 0x00]
      in case (members, member_bytes) of
           (m # ms, b # bs) \<Rightarrow>
             if length ms = length bs
             then Inr (owner_loop sha256 job_prefix
                         (from_bytes_big (take 8 (sha256 (job_prefix @ b)))) m (zip ms bs))
             else Inl UnequalLengths
         | _ \<Rightarrow> Inl EmptyMembers)"

definition elect_job_owner ::
  "(string \<Rightarrow> int list) \<Rightarrow> string \<Rightarrow> string \<Rightarrow> string list \<Rightarrow> nat \<Rightarrow> string list option \<Rightarrow>
   (owner_error, string option) result" where
  "elect_job_owner sha256 job_name node_name live_peer_names cluster_size candidate_names =
     (if length (node_name # live_peer_names) < quorum_size cluster_size then Inr None
      else let names = (case candidate_names of None \<Rightarrow> live_peer_names | Some ns \<Rightarrow> ns)
           in bind_result (hrw_owner sha256 job_name (node_name # names)) (\<lambda>n. Inr (Some n)))"

definition elect_available_job_owner ::
  "(string \<Rightarrow> int list) \<Rightarrow> string \<Rightarrow> string \<Rightarrow> string list \<Rightarrow> (owner_error, string) result" where
  "elect_available_job_owner sha256 job_name node_name agreeing_peer_names =
     hrw_owner sha256 job_name (node_name # agreeing_peer_names)"

subsection \<open>Quorums\<close>

locale quorum_system =
  fixes quorum :: "'n set \<Rightarrow> bool"
  assumes meet: "quorum A \<Longrightarrow> quorum B \<Longrightarrow> A \<inter> B \<noteq> {}"
begin

lemma shared_member:
  assumes "quorum A" and "quorum B"
  obtains w where "w \<in> A" and "w \<in> B"
  using meet [OF assms] by blast

end

lemma majorities_meet:
  assumes "finite S" and "A \<subseteq> S" and "B \<subseteq> S"
    and "quorum_size (card S) \<le> card A" and "quorum_size (card S) \<le> card B"
  shows "A \<inter> B \<noteq> {}"
proof
  assume "A \<inter> B = {}"
  then have "card A + card B = card (A \<union> B)"
    using assms(1-3) by (metis card_Un_disjoint finite_subset)
  also have "\<dots> \<le> card S" using assms(1-3) by (intro card_mono) auto
  finally show False using assms(4,5) by (simp add: quorum_size_def)
qed

interpretation majority: quorum_system "\<lambda>A. A \<subseteq> S \<and> finite S \<and> quorum_size (card S) \<le> card A" for S
  using majorities_meet [of S] by unfold_locales blast

subsection \<open>Selectors\<close>

text \<open>
  \<open>better a b\<close>: every node that has both \<open>a\<close> and \<open>b\<close> to choose from prefers \<open>a\<close>.
\<close>

locale selector =
  fixes pick :: "'n \<Rightarrow> 'n list \<Rightarrow> 'n" and better :: "'n \<Rightarrow> 'n \<Rightarrow> bool"
  assumes pick_mem: "pick n ns \<in> set (n # ns)"
    and pick_best: "m \<in> set (n # ns) \<Longrightarrow> m \<noteq> pick n ns \<Longrightarrow> better (pick n ns) m"
    and better_asym: "better a b \<Longrightarrow> \<not> better b a"
begin

lemma pick_eqI:
  assumes "m \<in> set (n # ns)" and "\<And>x. x \<in> set (n # ns) \<Longrightarrow> x \<noteq> m \<Longrightarrow> better m x"
  shows "pick n ns = m"
  by (metis assms better_asym pick_best pick_mem)

lemma pick_set: "set (n # ns) = set (m # ms) \<Longrightarrow> pick n ns = pick m ms"
  by (intro pick_eqI) (metis pick_mem, metis pick_best)

text \<open>Two nodes that each see the other never both pick themselves.\<close>

lemma not_both_self:
  "a \<noteq> b \<Longrightarrow> b \<in> set ns \<Longrightarrow> a \<in> set ms \<Longrightarrow> \<not> (pick a ns = a \<and> pick b ms = b)"
  by (metis better_asym list.set_intros(2) pick_best)

text \<open>A node that is better than everybody else it may elect picks itself.\<close>

lemma pick_self: "(\<And>x. x \<in> set ns \<Longrightarrow> x \<noteq> n \<Longrightarrow> better n x) \<Longrightarrow> pick n ns = n"
  by (rule pick_eqI) auto

text \<open>Out of a finite set of names one is the best, whoever chooses.\<close>

lemma best_exists:
  assumes "finite S" and "S \<noteq> {}"
  shows "\<exists>b \<in> S. \<forall>x \<in> S. x \<noteq> b \<longrightarrow> better b x"
proof -
  obtain n ns where "S = set (n # ns)"
    using assms by (metis finite_list list.exhaust set_empty)
  then show ?thesis using pick_mem [of n ns] pick_best [of _ n ns] by blast
qed

text \<open>
  Membership changes move only what they must: when the choice survives, it stays, and a newcomer
  can only take over itself.
\<close>

lemma pick_leave:
  assumes "pick n ns \<noteq> x" and "set (m # ms) = set (n # ns) - {x}"
  shows "pick m ms = pick n ns"
  by (rule pick_eqI) (use assms pick_mem pick_best in \<open>blast+\<close>)

lemma pick_join:
  assumes "set (m # ms) = insert x (set (n # ns))"
  shows "pick m ms = pick n ns \<or> pick m ms = x"
  by (metis assms better_asym insert_iff pick_best pick_mem)

end

subsection \<open>Elections in a cluster\<close>

text \<open>
  Every node of a cluster picks among itself and its candidates; \<open>runs\<close> are the nodes that act when
  they pick themselves.  Candidates that are all able to run guarantee that somebody does; candidates
  that include every able node guarantee that nobody else does.
\<close>

locale election = selector pick better
  for pick :: "'n \<Rightarrow> 'n list \<Rightarrow> 'n" and better :: "'n \<Rightarrow> 'n \<Rightarrow> bool" +
  fixes nodes :: "'n set" and runs :: "'n \<Rightarrow> bool" and candidates :: "'n \<Rightarrow> 'n list"
  assumes finite_nodes: "finite nodes"
    and sound: "a \<in> nodes \<Longrightarrow> b \<in> set (candidates a) \<Longrightarrow> b \<in> nodes \<and> runs b"
begin

lemma somebody_wins:
  assumes "a \<in> nodes" and "runs a"
  shows "\<exists>w \<in> nodes. runs w \<and> pick w (candidates w) = w"
proof -
  have "finite {x \<in> nodes. runs x}" and "{x \<in> nodes. runs x} \<noteq> {}"
    using finite_nodes assms by auto
  from best_exists [OF this] obtain w where
    w: "w \<in> nodes" "runs w" and best: "\<And>x. x \<in> nodes \<Longrightarrow> runs x \<Longrightarrow> x \<noteq> w \<Longrightarrow> better w x"
    by blast
  have "pick w (candidates w) = w"
    using sound [OF w(1)] best by (intro pick_self) blast
  with w show ?thesis by blast
qed

lemma choice_runs:
  "a \<in> nodes \<Longrightarrow> runs a \<Longrightarrow> pick a (candidates a) \<in> nodes \<and> runs (pick a (candidates a))"
  using pick_mem [of a "candidates a"] sound [of a] by auto

end

locale complete_election = election +
  assumes complete: "a \<in> nodes \<Longrightarrow> b \<in> nodes \<Longrightarrow> runs a \<Longrightarrow> runs b \<Longrightarrow> a \<noteq> b \<Longrightarrow> b \<in> set (candidates a)"
begin

lemma unique_winner:
  assumes "a \<in> nodes" "runs a" "pick a (candidates a) = a"
    and "b \<in> nodes" "runs b" "pick b (candidates b) = b"
  shows "a = b"
  using not_both_self [of a b "candidates a" "candidates b"] complete assms by blast

end

text \<open>
  Two-way agreement within a cluster.  A node is quorate when it and the nodes it agrees with are a
  strict majority; two quorate nodes then agree with each other or share a witness.
\<close>

locale agreement =
  fixes nodes :: "'n set" and edge :: "'n \<Rightarrow> 'n \<Rightarrow> bool"
  assumes finite_members: "finite nodes"
    and edge_sym: "edge a b \<Longrightarrow> edge b a"
    and edge_irrefl: "\<not> edge a a"
    and edge_nodes: "edge a b \<Longrightarrow> b \<in> nodes"
begin

definition live :: "'n \<Rightarrow> 'n set" where
  "live a = insert a {b. edge a b}"

definition quorate :: "'n \<Rightarrow> bool" where
  "quorate a \<longleftrightarrow> quorum_size (card nodes) \<le> card (live a)"

lemma live_subset: "a \<in> nodes \<Longrightarrow> live a \<subseteq> nodes"
  using edge_nodes by (auto simp: live_def)

lemma finite_live: "finite (live a)"
  using finite_members edge_nodes by (auto simp: live_def intro: finite_subset)

lemma card_live: "card (live a) = card {b. edge a b} + 1"
  using finite_live [of a] edge_irrefl [of a] by (simp add: live_def)

lemma quorate_linked:
  assumes "a \<in> nodes" "b \<in> nodes" "quorate a" "quorate b" "a \<noteq> b"
  shows "edge a b \<or> (\<exists>w. edge a w \<and> edge w b)"
proof -
  have "live a \<inter> live b \<noteq> {}"
    using majority.meet [of "live a" nodes "live b"] live_subset finite_members assms
    by (simp add: quorate_def)
  then obtain w where "w \<in> live a" "w \<in> live b" by blast
  then show ?thesis using assms(5) edge_sym by (auto simp: live_def)
qed

end

subsection \<open>The elections are selectors\<close>

lemma fold_min_least:
  fixes n :: "'a :: linorder"
  shows "fold min ns n \<in> set (n # ns) \<and> (\<forall>m \<in> set (n # ns). fold min ns n \<le> m)"
proof (induction ns arbitrary: n)
  case (Cons x ns)
  have "fold min ns (min x n) \<in> set (min x n # ns)" "\<forall>m \<in> set (min x n # ns). fold min ns (min x n) \<le> m"
    using Cons by blast+
  then show ?case by (cases "x \<le> n") auto
qed simp

interpretation leader: selector lowest "(<)"
proof
  fix n m and ns :: "string list"
  show "lowest n ns \<in> set (n # ns)"
    using fold_min_least [of ns n] by (simp add: lowest_def)
  assume "m \<in> set (n # ns)" "m \<noteq> lowest n ns"
  then show "lowest n ns < m"
    using fold_min_least [of ns n] by (auto simp: lowest_def order_less_le)
qed auto

lemma max_by_greatest:
  assumes "inj key"
  shows "max_by key n ns \<in> set (n # ns) \<and>
    (\<forall>m \<in> set (n # ns). m \<noteq> max_by key n ns \<longrightarrow> key m < key (max_by key n ns))"
proof (induction ns arbitrary: n)
  case (Cons x ns)
  let ?b = "if key n < key x then x else n"
  have IH: "max_by key ?b ns \<in> set (?b # ns)"
    "\<forall>m \<in> set (?b # ns). m \<noteq> max_by key ?b ns \<longrightarrow> key m < key (max_by key ?b ns)"
    using Cons by blast+
  moreover have "key m < key ?b" if "m \<in> {n, x}" "m \<noteq> ?b" for m
    using that assms by (auto simp: inj_eq not_less le_less split: if_splits)
  ultimately show ?case by (auto split: if_splits intro: less_trans)
qed simp

lemma inj_hrw_key: "inj (hrw_key sha256 job)"
  by (auto simp: inj_def hrw_key_def)

interpretation owner: selector "max_by (hrw_key sha256 job)"
    "\<lambda>a b. hrw_key sha256 job b < hrw_key sha256 job a" for sha256 job
proof
  fix n m and ns :: "string list"
  note greatest = max_by_greatest [OF inj_hrw_key [of sha256 job], of n ns]
  show "max_by (hrw_key sha256 job) n ns \<in> set (n # ns)"
    using greatest by blast
  assume "m \<in> set (n # ns)" "m \<noteq> max_by (hrw_key sha256 job) n ns"
  then show "hrw_key sha256 job m < hrw_key sha256 job (max_by (hrw_key sha256 job) n ns)"
    using greatest by blast
qed (rule less_not_sym)

subsection \<open>The pre-encoded variant\<close>

lemma owner_loop_max_by:
  "length ms = length bs \<Longrightarrow> bs = ms \<Longrightarrow>
   owner_loop sha256 (job @ [CHR 0x00]) (hrw_score sha256 job best) best (zip ms bs) =
     max_by (hrw_key sha256 job) best ms"
  by (induction ms arbitrary: best bs) (auto simp: Let_def hrw_key_def hrw_score_def)

lemma hrw_owner_bytes_eq: "hrw_owner_bytes sha256 job members members = hrw_owner sha256 job members"
  using owner_loop_max_by [of _ _ sha256 job]
  by (auto simp: hrw_owner_bytes_def hrw_owner_def hrw_score_def split: list.splits)

lemma hrw_owner_Cons [simp]: "hrw_owner sha256 job (n # ns) = Inr (max_by (hrw_key sha256 job) n ns)"
  by (simp add: hrw_owner_def)

end
