(* ===== verification/Schedule.thy ===== *)
theory Schedule
  imports CronZoneFacts Election "HOL-Library.List_Lexorder" "HOL-Library.Char_ord"
begin

text \<open>
  The next-fire index of the scheduler (\<open>cron.py\<close>): every enabled cron job carries its next fire
  instant, mirrored into a heap; a pass pops the jobs that are due, advances each past the slots it
  fires, and launches them.  Instants are microseconds of UTC, readings of the clock are arguments,
  \<open>system_zone\<close> is the zone of the machine.
\<close>

subsection \<open>Jobs and the state of the index\<close>

text \<open>The \<open>schedule\<close> of a job is a \<open>CronTab\<close> or the text \<open>@reboot\<close>; a zone carries its \<open>str\<close>.\<close>

datatype schedule = Crontab crontab | ScheduleText string

datatype missed_policy = SkipMissed | RunOnce | RunAll

datatype concurrency = Allow | Forbid | Replace

text \<open>The \<open>retry\<close> block; \<open>maximumRetries\<close> of -1 is unlimited, of 0 disables retries.\<close>

record retry_config =
  rc_maximum :: int
  rc_initial_delay :: real
  rc_backoff :: real
  rc_maximum_delay :: real

record JobConfig =
  jc_name :: string
  jc_schedule :: schedule
  jc_timezone :: "(string \<times> tzinfo) option"
  jc_has_seconds :: bool
  jc_enabled :: bool
  jc_policy :: cluster_policy
  jc_on_missed :: missed_policy
  jc_deadline :: int
  jc_concurrency :: concurrency
  jc_cluster_scope :: bool
  jc_only_if_last_succeeded :: bool
  jc_retry :: retry_config

record Scheduler =
  cron_jobs :: "JobConfig dict"
  next_fire :: "int dict"
  fire_heap :: "(int \<times> string) list"
  dead_schedules :: "string set"
  last_run_slot :: "int dict"
  sla_due :: "int dict"

definition CATCHUP_LIMIT :: int where
  "CATCHUP_LIMIT = 10 * 1000000"

fun is_crontab :: "schedule \<Rightarrow> bool" where
  "is_crontab (Crontab ct) \<longleftrightarrow> True"
| "is_crontab (ScheduleText s) \<longleftrightarrow> False"

text \<open>Enabled and scheduled by a cron expression: what the index is for.\<close>

definition scheduled :: "JobConfig \<Rightarrow> bool" where
  "scheduled job \<longleftrightarrow> jc_enabled job \<and> is_crontab (jc_schedule job)"

text \<open>
  The next fire strictly after an instant.  A job without a time zone is asked in the frame
  \<open>after.astimezone()\<close>, whose \<open>tzinfo\<close> is a fixed \<open>datetime.timezone\<close> with the offset of that instant.
  Near the last representable date the search raises \<open>OverflowError\<close>, which escapes the method; here that is
  \<open>None\<close> too.  \<open>compute_next_fire_exact\<close> (in \<open>ScheduleFacts\<close>) shows that it is out of reach before the year 9994.
\<close>

definition frame :: "tzinfo \<Rightarrow> JobConfig \<Rightarrow> int \<Rightarrow> tzinfo" where
  "frame system_zone job after =
     (case jc_timezone job of Some (n, z) \<Rightarrow> z | None \<Rightarrow> FixedZone (utcoffset system_zone after))"

definition compute_next_fire :: "tzinfo \<Rightarrow> JobConfig \<Rightarrow> int \<Rightarrow> int option" where
  "compute_next_fire system_zone job after =
     (case jc_schedule job of
        Crontab ct \<Rightarrow>
          (case next_aware (frame system_zone job after) ct after of
             Some (Inr (Some delay)) \<Rightarrow> Some (after + delay)
           | _ \<Rightarrow> None)
      | ScheduleText _ \<Rightarrow> None)"

text \<open>\<open>heapq\<close>: what can be seen of a heap is the order in which it gives its elements.\<close>

definition set_next_fire :: "string \<Rightarrow> int \<Rightarrow> Scheduler \<Rightarrow> Scheduler" where
  "set_next_fire name t s =
     s\<lparr>next_fire := dict_set name t (next_fire s), fire_heap := insort (t, name) (fire_heap s)\<rparr>"

subsection \<open>Seeding and reloading\<close>

definition seed_job :: "tzinfo \<Rightarrow> int \<Rightarrow> string \<Rightarrow> JobConfig \<Rightarrow> Scheduler \<Rightarrow> Scheduler" where
  "seed_job system_zone now name job s =
     (if dict_get (next_fire s) name \<noteq> None then s
      else if scheduled job
      then (case compute_next_fire system_zone job now of
              Some t \<Rightarrow> (set_next_fire name t s)\<lparr>dead_schedules := dead_schedules s - {name}\<rparr>
            | None \<Rightarrow> s\<lparr>dead_schedules := insert name (dead_schedules s)\<rparr>)
      else s)"

definition ensure_seeded :: "tzinfo \<Rightarrow> int \<Rightarrow> Scheduler \<Rightarrow> Scheduler" where
  "ensure_seeded system_zone now s = fold (\<lambda>(name, job). seed_job system_zone now name job) (cron_jobs s) s"

fun schedule_eq :: "schedule \<Rightarrow> schedule \<Rightarrow> bool" where
  "schedule_eq (Crontab a) (Crontab b) \<longleftrightarrow> crontab_eq a b"
| "schedule_eq (ScheduleText a) (ScheduleText b) \<longleftrightarrow> a = b"
| "schedule_eq _ _ \<longleftrightarrow> False"

definition tz_text :: "JobConfig \<Rightarrow> string" where
  "tz_text job = (case jc_timezone job of Some (n, z) \<Rightarrow> n | None \<Rightarrow> ''None'')"

definition same_schedule :: "JobConfig \<Rightarrow> JobConfig \<Rightarrow> bool" where
  "same_schedule a b \<longleftrightarrow> schedule_eq (jc_schedule a) (jc_schedule b) \<and> tz_text a = tz_text b"

text \<open>What the reload keeps of the index, and of the latch of schedules that never fire.\<close>

definition keeps_fire :: "JobConfig dict \<Rightarrow> JobConfig dict \<Rightarrow> string \<Rightarrow> bool" where
  "keeps_fire jobs old_jobs name =
     (case (dict_get jobs name, dict_get old_jobs name) of
        (Some job, Some old) \<Rightarrow> scheduled job \<and> same_schedule old job
      | _ \<Rightarrow> False)"

definition keeps_dead :: "JobConfig dict \<Rightarrow> JobConfig dict \<Rightarrow> string \<Rightarrow> bool" where
  "keeps_dead jobs old_jobs name =
     (case (dict_get jobs name, dict_get old_jobs name) of
        (Some job, Some old) \<Rightarrow> same_schedule old job
      | _ \<Rightarrow> False)"

definition refresh_schedule :: "tzinfo \<Rightarrow> int \<Rightarrow> JobConfig dict \<Rightarrow> Scheduler \<Rightarrow> Scheduler" where
  "refresh_schedule system_zone now old_jobs s =
     ensure_seeded system_zone now
       (s\<lparr>next_fire := filter (\<lambda>(name, t). keeps_fire (cron_jobs s) old_jobs name) (next_fire s),
          dead_schedules := {name \<in> dead_schedules s. keeps_dead (cron_jobs s) old_jobs name}\<rparr>)"

text \<open>
  A reload: the new job set, the slots of jobs that are gone (\<open>running\<close> ones are kept) dropped, and the index
  refreshed.  The other per-job maps that \<open>_apply_reload\<close> prunes are no part of this state.
\<close>

definition prune :: "string set \<Rightarrow> 'v dict \<Rightarrow> 'v dict" where
  [simp]: "prune keep d = filter (\<lambda>(n, t). n \<in> keep) d"

definition apply_reload :: "tzinfo \<Rightarrow> int \<Rightarrow> JobConfig list \<Rightarrow> string set \<Rightarrow> Scheduler \<Rightarrow> Scheduler" where
  "apply_reload system_zone now jobs running s =
     (let jobs' = dict_of (map (\<lambda>j. (jc_name j, j)) jobs);
          keep = set (dict_keys jobs') \<union> running
      in refresh_schedule system_zone now (cron_jobs s)
           (s\<lparr>cron_jobs := jobs',
              last_run_slot := prune keep (last_run_slot s), sla_due := prune keep (sla_due s)\<rparr>))"

subsection \<open>Due jobs\<close>

text \<open>The soonest valid entry; stale ones are popped on the way.\<close>

fun drop_stale :: "int dict \<Rightarrow> (int \<times> string) list \<Rightarrow> (int \<times> string) list" where
  "drop_stale nf [] = []"
| "drop_stale nf ((t, name) # heap) =
     (if dict_get nf name = Some t then (t, name) # heap else drop_stale nf heap)"

definition peek_soonest_fire :: "Scheduler \<Rightarrow> Scheduler \<times> int option" where
  "peek_soonest_fire s =
     (let heap = drop_stale (next_fire s) (fire_heap s)
      in (s\<lparr>fire_heap := heap\<rparr>, case heap of [] \<Rightarrow> None | (t, n) # _ \<Rightarrow> Some t))"

text \<open>
  \<open>next_sleep_interval\<close> to the next whole minute (the microseconds of the clock are kept, as
  \<open>replace(second=0)\<close> does), and the sleep of the loop: \<open>now\<close> and \<open>now'\<close> are its two readings.
\<close>

definition minute_us :: int where
  "minute_us = 60000000"

definition next_sleep_interval :: "bool \<Rightarrow> int \<Rightarrow> int" where
  "next_sleep_interval subminute now =
     (if subminute then now - now mod 1000000 + 1000000 - now
      else now - now mod minute_us + now mod 1000000 + minute_us - now)"

definition sleep_interval :: "int option \<Rightarrow> int \<Rightarrow> int \<Rightarrow> Scheduler \<Rightarrow> Scheduler \<times> int" where
  "sleep_interval dag_wake now now' s =
     (let housekeeping0 = next_sleep_interval False now;
          housekeeping = (case dag_wake of Some w \<Rightarrow> min housekeeping0 (max 0 w) | None \<Rightarrow> housekeeping0)
      in case peek_soonest_fire s of
           (s', None) \<Rightarrow> (s', housekeeping)
         | (s', Some soonest) \<Rightarrow> (s', max 0 (min housekeeping (soonest - now'))))"

text \<open>Pops what is due at \<open>now\<close>; an entry that was superseded is dropped, a name is taken once.\<close>

fun due_loop ::
  "int dict \<Rightarrow> int \<Rightarrow> (int \<times> string) list \<Rightarrow> string set \<Rightarrow> string list \<times> (int \<times> string) list" where
  "due_loop nf now [] seen = ([], [])"
| "due_loop nf now ((t, name) # heap) seen =
     (if t > now then ([], (t, name) # heap)
      else if name \<in> seen then due_loop nf now heap seen
      else if dict_get nf name = Some t
      then (case due_loop nf now heap (insert name seen) of (due, rest) \<Rightarrow> (name # due, rest))
      else due_loop nf now heap seen)"

definition due_names :: "int \<Rightarrow> Scheduler \<Rightarrow> Scheduler \<times> string list" where
  "due_names now s =
     (case due_loop (next_fire s) now (fire_heap s) {} of (due, rest) \<Rightarrow> (s\<lparr>fire_heap := rest\<rparr>, due))"

subsection \<open>Advancing a job\<close>

lemma compute_next_fire_later: "compute_next_fire system_zone job after = Some t \<Longrightarrow> after < t"
  by (auto simp: compute_next_fire_def next_aware_def dest: next_loop_positive
      split: schedule.splits option.splits sum.splits)

text \<open>The walk over the occurrences up to \<open>now\<close>; it ends because each lies after the one before.\<close>

function walk :: "tzinfo \<Rightarrow> JobConfig \<Rightarrow> int \<Rightarrow> int option \<Rightarrow> int list \<times> int option" where
  "walk system_zone job now None = ([], None)"
| "walk system_zone job now (Some t) =
     (if t \<le> now
      then (case walk system_zone job now (compute_next_fire system_zone job t) of (fires, nxt) \<Rightarrow> (t # fires, nxt))
      else ([], Some t))"
  by pat_completeness auto
termination
  by (relation "measure (\<lambda>(z, job, now, nxt). case nxt of None \<Rightarrow> 0 | Some t \<Rightarrow> nat (now - t + 1))")
    (auto split: option.splits dest!: compute_next_fire_later)

text \<open>
  \<open>schedule_slot\<close>: the label of \<open>now\<close> in the frame of the job, cut to its resolution; and the instant
  that \<open>astimezone(utc)\<close> makes of it.  A label in a zone keeps the \<open>fold\<close> of \<open>now\<close>; the naive one of a
  job without zone has none.
\<close>

fun offset_of_fold :: "int \<Rightarrow> (int \<times> int) list \<Rightarrow> int \<Rightarrow> int" where
  "offset_of_fold o1 [] l = o1"
| "offset_of_fold o1 ((a, o2) # ts) l = (if a + min o1 o2 \<le> l then offset_of_fold o2 ts l else o1)"

definition resolve_fold :: "tzinfo \<Rightarrow> bool \<Rightarrow> int \<Rightarrow> int" where
  "resolve_fold z fold_flag l =
     (if fold_flag then l - offset_of_fold (zone_first z) (zone_trans z) l else resolve_us z l)"

definition job_zone :: "tzinfo \<Rightarrow> JobConfig \<Rightarrow> tzinfo" where
  "job_zone system_zone job = (case jc_timezone job of Some (n, z) \<Rightarrow> z | None \<Rightarrow> system_zone)"

definition schedule_slot :: "tzinfo \<Rightarrow> JobConfig \<Rightarrow> int \<Rightarrow> int" where
  "schedule_slot system_zone job now =
     (let l = label_us (job_zone system_zone job) now
      in l - l mod (if jc_has_seconds job then 1000000 else minute_us))"

definition slot_instant :: "tzinfo \<Rightarrow> JobConfig \<Rightarrow> int \<Rightarrow> int" where
  "slot_instant system_zone job now =
     (let z = job_zone system_zone job
      in resolve_fold z (jc_timezone job \<noteq> None \<and> resolve_us z (label_us z now) \<noteq> now)
           (schedule_slot system_zone job now))"

definition slot_matches :: "tzinfo \<Rightarrow> JobConfig \<Rightarrow> int \<Rightarrow> bool" where
  "slot_matches system_zone job now =
     (case jc_schedule job of
        Crontab ct \<Rightarrow> test ct (datetime_of (schedule_slot system_zone job now))
      | ScheduleText _ \<Rightarrow> False)"

text \<open>The slots a due job fires in this pass, and its new next fire.\<close>

definition advance :: "tzinfo \<Rightarrow> JobConfig \<Rightarrow> int \<Rightarrow> int \<Rightarrow> int list \<times> int option" where
  "advance system_zone job fire_slot now =
     (if now - fire_slot \<ge> CATCHUP_LIMIT
      then (if slot_matches system_zone job now then [slot_instant system_zone job now] else [],
            compute_next_fire system_zone job now)
      else (case walk system_zone job now (compute_next_fire system_zone job fire_slot) of
              (fires, nxt) \<Rightarrow> (fire_slot # fires, nxt)))"

subsection \<open>A pass\<close>

definition advance_due :: "tzinfo \<Rightarrow> int \<Rightarrow> string \<Rightarrow> JobConfig \<Rightarrow> int \<Rightarrow> Scheduler \<Rightarrow> Scheduler \<times> int list" where
  "advance_due system_zone now name job slot s =
     (case advance system_zone job slot now of
        (fires, Some t) \<Rightarrow> (set_next_fire name t s, fires)
      | (fires, None) \<Rightarrow>
          (s\<lparr>next_fire := filter (\<lambda>(n, t). n \<noteq> name) (next_fire s),
             dead_schedules := insert name (dead_schedules s)\<rparr>, fires))"

fun plan_loop ::
  "tzinfo \<Rightarrow> int \<Rightarrow> string set \<Rightarrow> JobConfig dict \<Rightarrow> Scheduler \<Rightarrow> Scheduler \<times> (JobConfig \<times> int list) list" where
  "plan_loop system_zone now due [] s = (s, [])"
| "plan_loop system_zone now due ((name, job) # jobs) s =
     (if name \<notin> due then plan_loop system_zone now due jobs s
      else (case dict_get (next_fire s) name of
              None \<Rightarrow> plan_loop system_zone now due jobs s
            | Some slot \<Rightarrow>
                (case advance_due system_zone now name job slot s of
                   (s1, fires) \<Rightarrow>
                     (case plan_loop system_zone now due jobs s1 of (s2, plan) \<Rightarrow> (s2, (job, fires) # plan)))))"

text \<open>The pass up to its launches.\<close>

definition plan_due_jobs :: "tzinfo \<Rightarrow> int \<Rightarrow> Scheduler \<Rightarrow> Scheduler \<times> (JobConfig \<times> int list) list" where
  "plan_due_jobs system_zone now s =
     (case due_names now s of (s1, due) \<Rightarrow> plan_loop system_zone now (set due) (cron_jobs s1) s1)"

text \<open>
  One round of launches: every job that still has a slot records it, and those that the cluster allows
  are launched; a job that is not paused also owes its slot to the lateness check.
\<close>

fun launch_round ::
  "(string \<Rightarrow> bool) \<Rightarrow> (string \<Rightarrow> bool) \<Rightarrow> nat \<Rightarrow> (JobConfig \<times> int list) list \<Rightarrow> Scheduler \<Rightarrow> Scheduler \<times> string list" where
  "launch_round allows paused r [] s = (s, [])"
| "launch_round allows paused r ((job, fires) # plan) s =
     (if r \<ge> length fires then launch_round allows paused r plan s
      else (let s1 = s\<lparr>last_run_slot := dict_set (jc_name job) (fires ! r) (last_run_slot s)\<rparr>
            in if allows (jc_name job)
               then (let s2 = (if paused (jc_name job) then s1
                               else s1\<lparr>sla_due := dict_set (jc_name job) (fires ! r) (sla_due s1)\<rparr>)
                     in (case launch_round allows paused r plan s2 of (s3, names) \<Rightarrow> (s3, jc_name job # names)))
               else launch_round allows paused r plan s1))"

text \<open>The rounds; what the gates answer may change from one to the next.\<close>

fun launch_rounds ::
  "(nat \<Rightarrow> string \<Rightarrow> bool) \<Rightarrow> (nat \<Rightarrow> string \<Rightarrow> bool) \<Rightarrow> nat list \<Rightarrow> (JobConfig \<times> int list) list \<Rightarrow> Scheduler \<Rightarrow>
   Scheduler \<times> string list list" where
  "launch_rounds allows paused [] plan s = (s, [])"
| "launch_rounds allows paused (r # rs) plan s =
     (case launch_round (allows r) (paused r) r plan s of
        (s1, names) \<Rightarrow> (case launch_rounds allows paused rs plan s1 of (s2, rest) \<Rightarrow> (s2, names # rest)))"

definition launch_plan ::
  "(nat \<Rightarrow> string \<Rightarrow> bool) \<Rightarrow> (nat \<Rightarrow> string \<Rightarrow> bool) \<Rightarrow> (JobConfig \<times> int list) list \<Rightarrow> Scheduler \<Rightarrow>
   Scheduler \<times> string list list" where
  "launch_plan allows paused plan s =
     launch_rounds allows paused [0..<fold (\<lambda>(job, fires) n. max n (length fires)) plan 0] plan s"

definition spawn_due_jobs ::
  "tzinfo \<Rightarrow> (nat \<Rightarrow> string \<Rightarrow> bool) \<Rightarrow> (nat \<Rightarrow> string \<Rightarrow> bool) \<Rightarrow> int \<Rightarrow> Scheduler \<Rightarrow> Scheduler \<times> string list list" where
  "spawn_due_jobs system_zone allows paused now s =
     (case plan_due_jobs system_zone now s of (s1, plan) \<Rightarrow> launch_plan allows paused plan s1)"

end
