(* ===== verification/ScheduleFacts.thy ===== *)
theory ScheduleFacts
  imports Schedule
begin

text \<open>
  Facts on the next-fire index: its invariant, the refinement of the heap of all jobs to a machine per
  job, and what that machine fires, which rests on the contract of a source of fires.
\<close>

subsection \<open>A source of fires\<close>

text \<open>
  The contract between the cron engine and the walks of the scheduler: the next fire after an instant
  is the least of the fires behind it, and a walk follows it as long as it is not past \<open>now\<close>.
\<close>

locale fire_walk =
  fixes lawful :: "'j \<Rightarrow> bool" and sane :: "int \<Rightarrow> bool" and fires :: "'j \<Rightarrow> int set"
    and next_of :: "'j \<Rightarrow> int \<Rightarrow> int option" and walk_of :: "'j \<Rightarrow> int \<Rightarrow> int option \<Rightarrow> int list \<times> int option"
  assumes next_least: "lawful j \<Longrightarrow> sane a \<Longrightarrow> next_of j a = Some b \<Longrightarrow>
      b \<in> fires j \<and> a < b \<and> sane b \<and> (\<forall>f \<in> fires j. a < f \<longrightarrow> b \<le> f)"
    and next_none: "lawful j \<Longrightarrow> sane a \<Longrightarrow> next_of j a = None \<Longrightarrow> f \<in> fires j \<Longrightarrow> f \<le> a"
    and walk_none: "walk_of j now None = ([], None)"
    and walk_some: "walk_of j now (Some t) =
      (if t \<le> now then (case walk_of j now (next_of j t) of (fs, nxt) \<Rightarrow> (t # fs, nxt)) else ([], Some t))"
begin

text \<open>What a pass at \<open>now\<close> leaves behind: the next fire is the first one after it.\<close>

definition next_after :: "'j \<Rightarrow> int \<Rightarrow> int option \<Rightarrow> bool" where
  "next_after j now nxt \<longleftrightarrow>
     (case nxt of
        Some b \<Rightarrow> b \<in> fires j \<and> now < b \<and> sane b \<and> (\<forall>f \<in> fires j. now < f \<longrightarrow> b \<le> f)
      | None \<Rightarrow> \<forall>f \<in> fires j. f \<le> now)"

lemma next_of_after: "lawful j \<Longrightarrow> sane a \<Longrightarrow> next_after j a (next_of j a)"
  using next_least [of j a] next_none [of j a] by (auto simp: next_after_def split: option.splits)

lemma walk_enumerates:
  assumes "lawful j" and "sane a" and "a \<le> now" and "walk_of j now (next_of j a) = (fs, nxt)"
  shows "sorted_wrt (<) fs \<and> set fs = {f \<in> fires j. a < f \<and> f \<le> now} \<and> next_after j now nxt"
  using assms(2-4)
proof (induction "nat (now - a)" arbitrary: a fs rule: less_induct)
  case less
  show ?case
  proof (cases "next_of j a")
    case None
    then have "fs = []" "nxt = None" using less.prems(3) by (simp_all add: walk_none)
    then show ?thesis using next_none [OF assms(1) less.prems(1) None] less.prems(2) by (force simp: next_after_def)
  next
    case (Some b)
    note b = next_least [OF assms(1) less.prems(1) Some]
    show ?thesis
    proof (cases "b \<le> now")
      case True
      obtain gs where gs: "walk_of j now (next_of j b) = (gs, nxt)" "fs = b # gs"
        using less.prems(3) Some True by (auto simp: walk_some split: prod.splits)
      have "sorted_wrt (<) gs \<and> set gs = {f \<in> fires j. b < f \<and> f \<le> now} \<and> next_after j now nxt"
        by (rule less.hyps [OF _ _ True gs(1)]) (use b True in auto)
      then show ?thesis using b True unfolding gs(2) by auto
    next
      case False
      then have "fs = []" "nxt = Some b" using less.prems(3) Some by (simp_all add: walk_some)
      then show ?thesis using b False less.prems(2) by (auto simp: next_after_def)
    qed
  qed
qed

end

subsection \<open>Lawful jobs\<close>

fun job_crontab :: "JobConfig \<Rightarrow> crontab option" where
  "job_crontab job = (case jc_schedule job of Crontab ct \<Rightarrow> Some ct | ScheduleText s \<Rightarrow> None)"

text \<open>
  A job with an accepted expression and an explicit zone whose transitions are at least four days apart
  and which springs forward, if it does, by exactly one hour, on a full hour before 23:00.
\<close>

definition lawful_job :: "JobConfig \<Rightarrow> bool" where
  "lawful_job job \<longleftrightarrow>
     (case (jc_schedule job, jc_timezone job) of
        (Crontab ct, Some (n, z)) \<Rightarrow> wf_crontab ct \<and> regular_zone z \<and> whole_hours z
      | _ \<Rightarrow> False)"

text \<open>The instants at which a job is meant to fire: where its matching labels resolve in its zone.\<close>

definition job_fires :: "JobConfig \<Rightarrow> int set" where
  "job_fires job =
     (case (jc_schedule job, jc_timezone job) of
        (Crontab ct, Some (n, z)) \<Rightarrow> {resolve_in z t | t. occurs ct t \<and> within_horizon t}
      | _ \<Rightarrow> {})"

lemma lawful_jobE:
  assumes "lawful_job job"
  obtains ct n z where "jc_schedule job = Crontab ct" and "jc_timezone job = Some (n, z)" and "wf_crontab ct"
    and "regular_zone z" and "whole_hours z" and "job_fires job = {resolve_in z t | t. occurs ct t \<and> within_horizon t}"
  using assms by (auto simp: lawful_job_def job_fires_def split: schedule.splits option.splits)

lemma compute_next_fire_cases:
  assumes "jc_schedule job = Crontab ct" and "jc_timezone job = Some (n, z)" and "wf_crontab ct"
    and "regular_zone z" and "whole_hours z" and "sane_instant a"
  shows "(\<exists>b t. compute_next_fire sz job a = Some b \<and> a < b \<and> occurs ct t \<and> within_horizon t \<and> resolve_in z t = b \<and>
            (\<forall>t'. occurs ct t' \<and> a < resolve_in z t' \<longrightarrow> b \<le> resolve_in z t')) \<or>
         (compute_next_fire sz job a = None \<and> (\<forall>t'. occurs ct t' \<and> within_horizon t' \<longrightarrow> resolve_in z t' \<le> a))"
  using next_aware_spec [OF assms(3-6)]
proof
  assume "\<exists>d t. next_aware z ct a = Some (Inr (Some d)) \<and> 0 < d \<and> occurs ct t \<and> within_horizon t \<and> resolve_in z t = a + d \<and>
      (\<forall>t'. occurs ct t' \<and> a < resolve_in z t' \<longrightarrow> a + d \<le> resolve_in z t')"
  then obtain d t where "next_aware z ct a = Some (Inr (Some d))" "0 < d" "occurs ct t" "within_horizon t" "resolve_in z t = a + d"
    "\<forall>t'. occurs ct t' \<and> a < resolve_in z t' \<longrightarrow> a + d \<le> resolve_in z t'" by blast
  then show ?thesis
    by (intro disjI1 exI [of _ "a + d"] exI [of _ t]) (simp add: compute_next_fire_def frame_def assms(1,2))
qed (simp add: compute_next_fire_def frame_def assms(1,2))

text \<open>Where the search of an accepted expression is total, \<open>None\<close> says that it found no further occurrence.\<close>

lemma compute_next_fire_exact:
  assumes "jc_schedule job = Crontab ct" and "wf_crontab ct" and "valid_zone (frame sz job a)" and "sane_instant a"
  shows "\<exists>r. next_aware (frame sz job a) ct a = Some (Inr r) \<and> compute_next_fire sz job a = map_option ((+) a) r"
proof -
  obtain m where m: "gap_rewound_seed (frame sz job a) a = datetime_of m" "sane_label m"
    using seed_us [OF assms(3,4)] by metis
  obtain r where "next_aware (frame sz job a) ct a = Some (Inr r)"
    using next_loop_returns [OF assms(2,3) sane_label_valid(1) [OF m(2)], of a] m by (auto simp: next_aware_def)
  then show ?thesis using assms(1) by (cases r) (simp_all add: compute_next_fire_def)
qed

lemma sane_fire:
  assumes "regular_zone z" and "occurs ct t" and "within_horizon t" and "366 * day_us \<le> resolve_in z t"
  shows "sane_instant (resolve_in z t)"
  using offsets_small(2) [of z "microseconds_of t"] horizon_us [OF assms(2,3)] assms(1,4)
  by (simp add: sane_instant_def resolve_in_def regular_zone_def small_offset_def day_us_def)

interpretation zoned: fire_walk lawful_job sane_instant job_fires "compute_next_fire system_zone" "walk system_zone"
  for system_zone
proof
  fix j a b
  assume l: "lawful_job j" and s: "sane_instant a" and c: "compute_next_fire system_zone j a = Some b"
  from l show "b \<in> job_fires j \<and> a < b \<and> sane_instant b \<and> (\<forall>f \<in> job_fires j. a < f \<longrightarrow> b \<le> f)"
  proof (rule lawful_jobE)
    fix ct n z
    assume z: "jc_schedule j = Crontab ct" "jc_timezone j = Some (n, z)" "wf_crontab ct" "regular_zone z" "whole_hours z"
      and f: "job_fires j = {resolve_in z t | t. occurs ct t \<and> within_horizon t}"
    obtain t where t: "a < b" "occurs ct t" "within_horizon t" "resolve_in z t = b"
      "\<forall>t'. occurs ct t' \<and> a < resolve_in z t' \<longrightarrow> b \<le> resolve_in z t'"
      using compute_next_fire_cases [OF z s, of system_zone] c by auto
    then have "sane_instant b" using sane_fire [OF z(4) t(2,3)] s by (simp add: sane_instant_def)
    with t show ?thesis unfolding f by blast
  qed
next
  fix j a f
  assume l: "lawful_job j" and s: "sane_instant a" and c: "compute_next_fire system_zone j a = None" and "f \<in> job_fires j"
  from l show "f \<le> a"
  proof (rule lawful_jobE)
    fix ct n z
    assume z: "jc_schedule j = Crontab ct" "jc_timezone j = Some (n, z)" "wf_crontab ct" "regular_zone z" "whole_hours z"
      and "job_fires j = {resolve_in z t | t. occurs ct t \<and> within_horizon t}"
    with \<open>f \<in> job_fires j\<close> compute_next_fire_cases [OF z s, of system_zone] c show ?thesis by auto
  qed
qed simp_all

subsection \<open>The index\<close>

definition index_inv :: "Scheduler \<Rightarrow> bool" where
  "index_inv s \<longleftrightarrow> sorted (fire_heap s) \<and> wf_dict (next_fire s) \<and> wf_dict (cron_jobs s) \<and>
     (\<forall>(n, job) \<in> set (cron_jobs s). jc_name job = n) \<and>
     (\<forall>n t. dict_get (next_fire s) n = Some t \<longrightarrow>
        (t, n) \<in> set (fire_heap s) \<and> (\<exists>job. dict_get (cron_jobs s) n = Some job \<and> scheduled job))"

lemma index_invD:
  assumes "index_inv s"
  shows "sorted (fire_heap s)" and "wf_dict (next_fire s)" and "wf_dict (cron_jobs s)"
    and "\<forall>(n, job) \<in> set (cron_jobs s). jc_name job = n"
    and "dict_get (next_fire s) n = Some t \<Longrightarrow> (t, n) \<in> set (fire_heap s)"
    and "dict_get (next_fire s) n = Some t \<Longrightarrow> \<exists>job. dict_get (cron_jobs s) n = Some job \<and> scheduled job"
  using assms unfolding index_inv_def by blast+

lemma due_loop_spec:
  assumes "sorted heap" and "due_loop nf now heap seen = (due, rest)"
  shows "set due = {n. n \<notin> seen \<and> (\<exists>t. t \<le> now \<and> (t, n) \<in> set heap \<and> dict_get nf n = Some t)}"
    and "distinct due" and "rest = dropWhile (\<lambda>e. fst e \<le> now) heap"
proof -
  have "set due = {n. n \<notin> seen \<and> (\<exists>t. t \<le> now \<and> (t, n) \<in> set heap \<and> dict_get nf n = Some t)} \<and> distinct due \<and>
      rest = dropWhile (\<lambda>e. fst e \<le> now) heap"
    using assms
  proof (induction nf now heap seen arbitrary: due rest rule: due_loop.induct)
    case (2 nf now t name heap seen)
    have later: "now < t'" if "t > now" "(t', n) \<in> set heap" for t' n
      using 2(4) that by (fastforce simp: less_eq_prod_def)
    consider "t > now" | "t \<le> now" "name \<in> seen" | "t \<le> now" "name \<notin> seen" "dict_get nf name = Some t"
      | "t \<le> now" "name \<notin> seen" "dict_get nf name \<noteq> Some t" by linarith
    then show ?case
    proof cases
      case 1
      then show ?thesis using 2(5) later by fastforce
    next
      case 2
      then show ?thesis using "2.IH"(1) "2.prems" by auto
    next
      case 3
      then obtain due' where d: "due_loop nf now heap (insert name seen) = (due', rest)" "due = name # due'"
        using "2.prems"(2) by (auto split: prod.splits)
      have "set due' = {n. n \<notin> insert name seen \<and> (\<exists>t. t \<le> now \<and> (t, n) \<in> set heap \<and> dict_get nf n = Some t)} \<and>
          distinct due' \<and> rest = dropWhile (\<lambda>e. fst e \<le> now) heap"
        using "2.IH"(2) [OF _ 3(2,3) _ d(1)] 3(1) "2.prems"(1) by simp
      then show ?thesis using 3 d(2) by auto
    next
      case 4
      then have "due_loop nf now heap seen = (due, rest)" using "2.prems"(2) by simp
      with "2.IH"(3) 4 "2.prems"(1)
      have "set due = {n. n \<notin> seen \<and> (\<exists>t. t \<le> now \<and> (t, n) \<in> set heap \<and> dict_get nf n = Some t)} \<and>
          distinct due \<and> rest = dropWhile (\<lambda>e. fst e \<le> now) heap" by simp
      moreover have "(t', n) \<in> set ((t, name) # heap) \<and> dict_get nf n = Some t' \<longleftrightarrow>
          (t', n) \<in> set heap \<and> dict_get nf n = Some t'" for t' n
        using 4(3) by auto
      ultimately show ?thesis using 4(1) by simp
    qed
  qed simp
  then show "set due = {n. n \<notin> seen \<and> (\<exists>t. t \<le> now \<and> (t, n) \<in> set heap \<and> dict_get nf n = Some t)}"
    "distinct due" "rest = dropWhile (\<lambda>e. fst e \<le> now) heap" by blast+
qed

lemma due_names_spec:
  assumes "index_inv s" and "due_names now s = (s', due)"
  shows "set due = {n. \<exists>t. t \<le> now \<and> dict_get (next_fire s) n = Some t}" and "distinct due"
    and "s' = s\<lparr>fire_heap := dropWhile (\<lambda>e. fst e \<le> now) (fire_heap s)\<rparr>"
proof -
  obtain rest where r: "due_loop (next_fire s) now (fire_heap s) {} = (due, rest)" "s' = s\<lparr>fire_heap := rest\<rparr>"
    using assms(2) by (auto simp: due_names_def split: prod.splits)
  have "sorted (fire_heap s)" using assms(1) by (simp add: index_inv_def)
  note d = due_loop_spec [OF this r(1)]
  show "set due = {n. \<exists>t. t \<le> now \<and> dict_get (next_fire s) n = Some t}"
    using d(1) assms(1) by (auto simp: index_inv_def)
  show "distinct due" "s' = s\<lparr>fire_heap := dropWhile (\<lambda>e. fst e \<le> now) (fire_heap s)\<rparr>" using d(2,3) r(2) by simp_all
qed

subsection \<open>The soonest fire\<close>

lemma drop_stale_sub: "set (drop_stale nf heap) \<subseteq> set heap" "sorted heap \<Longrightarrow> sorted (drop_stale nf heap)"
  by (induction nf heap rule: drop_stale.induct) (auto simp: sorted_wrt.simps)

lemma drop_stale_keeps: "dict_get nf n = Some t \<Longrightarrow> (t, n) \<in> set heap \<Longrightarrow> (t, n) \<in> set (drop_stale nf heap)"
  by (induction nf heap rule: drop_stale.induct) auto

lemma drop_stale_head: "drop_stale nf heap = (t, n) # rest \<Longrightarrow> dict_get nf n = Some t"
  by (induction nf heap rule: drop_stale.induct) (auto split: if_splits)

lemma peek_soonest_spec:
  assumes "index_inv s" and "peek_soonest_fire s = (s', r)"
  shows "index_inv s'" and "next_fire s' = next_fire s" and "cron_jobs s' = cron_jobs s"
    and "r = Some t \<Longrightarrow> (\<exists>n. dict_get (next_fire s) n = Some t) \<and> (\<forall>n u. dict_get (next_fire s) n = Some u \<longrightarrow> t \<le> u)"
    and "r = None \<Longrightarrow> next_fire s = []"
proof -
  let ?h = "drop_stale (next_fire s) (fire_heap s)"
  have s': "s' = s\<lparr>fire_heap := ?h\<rparr>" and r: "r = (case ?h of [] \<Rightarrow> None | (t, n) # _ \<Rightarrow> Some t)"
    using assms(2) by (auto simp: peek_soonest_fire_def Let_def)
  have mem: "(u, n) \<in> set ?h" if "dict_get (next_fire s) n = Some u" for n u
    using assms(1) that drop_stale_keeps by (fastforce simp: index_inv_def)
  have sorted: "sorted ?h" using assms(1) drop_stale_sub(2) by (simp add: index_inv_def)
  show "index_inv s'" using assms(1) mem sorted by (auto simp: s' index_inv_def)
  show "next_fire s' = next_fire s" "cron_jobs s' = cron_jobs s" by (simp_all add: s')
  show "r = Some t \<Longrightarrow> (\<exists>n. dict_get (next_fire s) n = Some t) \<and> (\<forall>n u. dict_get (next_fire s) n = Some u \<longrightarrow> t \<le> u)"
  proof -
    assume "r = Some t"
    then obtain n rest where h: "?h = (t, n) # rest" using r by (auto split: list.splits)
    have "t \<le> u" if "dict_get (next_fire s) m = Some u" for m u
      using mem [OF that] sorted by (auto simp: h less_eq_prod_def)
    with drop_stale_head [OF h] show ?thesis by blast
  qed
  show "r = None \<Longrightarrow> next_fire s = []"
  proof (rule ccontr)
    assume "r = None" and "next_fire s \<noteq> []"
    then obtain n u where "dict_get (next_fire s) n = Some u"
      by (metis list.exhaust map_of_eq_empty_iff option.exhaust)
    with mem [of n u] \<open>r = None\<close> show False by (auto simp: r split: list.splits)
  qed
qed

subsection \<open>The machine of one job\<close>

text \<open>What a pass means for one job: it is left alone before its next fire, and advanced from then on.\<close>

definition job_pass :: "tzinfo \<Rightarrow> JobConfig \<Rightarrow> int \<Rightarrow> int option \<Rightarrow> int list \<times> int option" where
  "job_pass system_zone job now nxt =
     (case nxt of
        Some slot \<Rightarrow> if slot \<le> now then advance system_zone job slot now else ([], Some slot)
      | None \<Rightarrow> ([], None))"

definition fires_of :: "string \<Rightarrow> (JobConfig \<times> int list) list \<Rightarrow> int list" where
  "fires_of name plan = concat (map snd (filter (\<lambda>(job, fires). jc_name job = name) plan))"

lemma dict_get_filter_key: "dict_get (filter (\<lambda>(n, t). n \<noteq> k) d) n = (if n = k then None else dict_get d n)"
  by (induction d) auto

lemma wf_dict_filter: "wf_dict d \<Longrightarrow> wf_dict (filter P d)"
  by (simp add: distinct_map_filter)

lemma advance_due_spec:
  assumes "advance_due z now name job slot s = (s', fires)"
  shows "fires = fst (advance z job slot now)" and "cron_jobs s' = cron_jobs s"
    and "dict_get (next_fire s') n = (if n = name then snd (advance z job slot now) else dict_get (next_fire s) n)"
    and "sorted (fire_heap s) \<Longrightarrow> sorted (fire_heap s')" and "set (fire_heap s) \<subseteq> set (fire_heap s')"
    and "snd (advance z job slot now) = Some t \<Longrightarrow> (t, name) \<in> set (fire_heap s')"
    and "wf_dict (next_fire s) \<Longrightarrow> wf_dict (next_fire s')"
  using assms
  by (auto simp: advance_due_def set_next_fire_def dict_get_filter_key wf_dict_filter sorted_insort set_insort_key
      split: prod.splits option.splits)

text \<open>After the loop over the jobs each due one has moved on; the heap covers all but the due jobs ahead.\<close>

definition covered :: "string set \<Rightarrow> Scheduler \<Rightarrow> bool" where
  "covered ahead s \<longleftrightarrow> sorted (fire_heap s) \<and> wf_dict (next_fire s) \<and>
     (\<forall>n t. n \<notin> ahead \<and> dict_get (next_fire s) n = Some t \<longrightarrow> (t, n) \<in> set (fire_heap s))"

lemma plan_loop_spec:
  assumes "plan_loop z now due jobs s = (s', plan)" and "wf_dict jobs" and "\<forall>(n, job) \<in> set jobs. jc_name job = n"
    and "covered (due \<inter> set (dict_keys jobs)) s"
  shows "cron_jobs s' = cron_jobs s \<and> covered {} s' \<and>
    (\<forall>n job. dict_get jobs n = Some job \<and> n \<in> due \<and> dict_get (next_fire s) n \<noteq> None \<longrightarrow>
       (fires_of n plan, dict_get (next_fire s') n) = advance z job (the (dict_get (next_fire s) n)) now) \<and>
    (\<forall>n. dict_get jobs n = None \<or> n \<notin> due \<or> dict_get (next_fire s) n = None \<longrightarrow>
       fires_of n plan = [] \<and> dict_get (next_fire s') n = dict_get (next_fire s) n)"
  using assms
proof (induction z now due jobs s arbitrary: s' plan rule: plan_loop.induct)
  case (1 z now due s)
  then show ?case by (simp add: fires_of_def)
next
  case (2 z now due name job jobs s)
  have wf: "wf_dict jobs" "name \<notin> set (dict_keys jobs)" "\<forall>(n, job) \<in> set jobs. jc_name job = n" "jc_name job = name"
    using "2.prems"(2,3) by auto
  then have fresh: "dict_get jobs name = None" by (simp add: dict_get_None_iff)
  show ?case
  proof (cases "name \<in> due \<and> dict_get (next_fire s) name \<noteq> None")
    case False
    then have p: "plan_loop z now due jobs s = (s', plan)" using "2.prems"(1) by (auto split: if_splits option.splits)
    have "n \<notin> due \<inter> set (dict_keys ((name, job) # jobs))"
      if "n \<notin> due \<inter> set (dict_keys jobs)" "dict_get (next_fire s) n = Some t" for n t
      using that False by fastforce
    then have "covered (due \<inter> set (dict_keys jobs)) s" using "2.prems"(4) unfolding covered_def by blast
    with "2.IH"(1) [OF _ p wf(1,3)] "2.IH"(2) [OF _ _ p wf(1,3)] False
    have ih: "cron_jobs s' = cron_jobs s \<and> covered {} s' \<and>
      (\<forall>n job. dict_get jobs n = Some job \<and> n \<in> due \<and> dict_get (next_fire s) n \<noteq> None \<longrightarrow>
         (fires_of n plan, dict_get (next_fire s') n) = advance z job (the (dict_get (next_fire s) n)) now) \<and>
      (\<forall>n. dict_get jobs n = None \<or> n \<notin> due \<or> dict_get (next_fire s) n = None \<longrightarrow>
         fires_of n plan = [] \<and> dict_get (next_fire s') n = dict_get (next_fire s) n)" by blast
    then show ?thesis using False by auto
  next
    case True
    then obtain slot where slot: "dict_get (next_fire s) name = Some slot" by blast
    obtain s1 fires where a: "advance_due z now name job slot s = (s1, fires)" by fastforce
    obtain plan' where p: "plan_loop z now due jobs s1 = (s', plan')" "plan = (job, fires) # plan'"
      using "2.prems"(1) True slot a by (auto split: prod.splits)
    note ad = advance_due_spec [OF a]
    have c: "covered (due \<inter> set (dict_keys jobs)) s1"
      using "2.prems"(4) ad(3-7) unfolding covered_def by (auto split: if_splits)
    note ih = "2.IH"(3) [OF _ slot a [symmetric] p(1) wf(1,3) c]
    have ih: "cron_jobs s' = cron_jobs s1 \<and> covered {} s' \<and>
      (\<forall>n job. dict_get jobs n = Some job \<and> n \<in> due \<and> dict_get (next_fire s1) n \<noteq> None \<longrightarrow>
         (fires_of n plan', dict_get (next_fire s') n) = advance z job (the (dict_get (next_fire s1) n)) now) \<and>
      (\<forall>n. dict_get jobs n = None \<or> n \<notin> due \<or> dict_get (next_fire s1) n = None \<longrightarrow>
         fires_of n plan' = [] \<and> dict_get (next_fire s') n = dict_get (next_fire s1) n)"
      using ih True by simp
    have plan: "fires_of n plan = (if n = name then fires @ fires_of n plan' else fires_of n plan')" for n
      by (simp add: fires_of_def p(2) wf(4))
    from ih fresh have "fires_of name plan' = []" "dict_get (next_fire s') name = dict_get (next_fire s1) name" by auto
    then show ?thesis using ih ad(1-3) fresh slot True unfolding plan by auto
  qed
qed

text \<open>The heap of all jobs refines the machines of the single jobs.\<close>

lemma covered_dropWhile:
  assumes "index_inv s"
  shows "covered {n. \<exists>t. t \<le> now \<and> dict_get (next_fire s) n = Some t} (s\<lparr>fire_heap := dropWhile (\<lambda>e. fst e \<le> now) (fire_heap s)\<rparr>)"
proof -
  let ?h = "fire_heap s"
  have s: "sorted ?h" using assms by (simp add: index_inv_def)
  have "(t, n) \<in> set (dropWhile (\<lambda>e. fst e \<le> now) ?h)" if "(t, n) \<in> set ?h" "\<not> t \<le> now" for t n
  proof -
    have "(t, n) \<in> set (takeWhile (\<lambda>e. fst e \<le> now) ?h) \<union> set (dropWhile (\<lambda>e. fst e \<le> now) ?h)"
      using that(1) by (simp flip: set_append)
    with that(2) show ?thesis by (auto dest: set_takeWhileD)
  qed
  then have "(t, n) \<in> set (dropWhile (\<lambda>e. fst e \<le> now) ?h)"
    if "n \<notin> {n. \<exists>t. t \<le> now \<and> dict_get (next_fire s) n = Some t}" "dict_get (next_fire s) n = Some t" for n t
    using that index_invD(5) [OF assms] by blast
  moreover have "sorted (dropWhile (\<lambda>e. fst e \<le> now) ?h)"
    by (metis s sorted_append takeWhile_dropWhile_id)
  ultimately show ?thesis using index_invD(2) [OF assms] unfolding covered_def by simp
qed

lemma plan_due_jobs_refines:
  assumes "index_inv s" and "plan_due_jobs z now s = (s', plan)"
  shows "index_inv s'" and "cron_jobs s' = cron_jobs s"
    and "dict_get (cron_jobs s) n = Some job \<Longrightarrow>
      (fires_of n plan, dict_get (next_fire s') n) = job_pass z job now (dict_get (next_fire s) n)"
proof -
  let ?due = "{n. \<exists>t. t \<le> now \<and> dict_get (next_fire s) n = Some t}"
  let ?s1 = "s\<lparr>fire_heap := dropWhile (\<lambda>e. fst e \<le> now) (fire_heap s)\<rparr>"
  have p: "plan_loop z now ?due (cron_jobs s) ?s1 = (s', plan)"
  proof -
    obtain s1 due where d: "due_names now s = (s1, due)" by fastforce
    note n = due_names_spec [OF assms(1) d]
    show ?thesis using assms(2) by (simp add: plan_due_jobs_def d n(1,3))
  qed
  note inv = index_invD(3,4,6) [OF assms(1)]
  have "?due \<inter> set (dict_keys (cron_jobs s)) = ?due"
  proof -
    have "n \<in> set (dict_keys (cron_jobs s))" if "dict_get (next_fire s) n = Some t" for n t
      using inv(3) [OF that] dict_get_None_iff [of "cron_jobs s" n] by auto
    then show ?thesis by blast
  qed
  then have c: "covered (?due \<inter> set (dict_keys (cron_jobs s))) ?s1" using covered_dropWhile [OF assms(1)] by simp
  note pl = plan_loop_spec [OF p inv(1,2) c]
  show jobs: "cron_jobs s' = cron_jobs s" using pl by simp
  have keys: "dict_get (next_fire s) n \<noteq> None" if "dict_get (next_fire s') n \<noteq> None" for n
    using pl that by force
  have cov: "sorted (fire_heap s')" "wf_dict (next_fire s')"
    "\<And>n t. dict_get (next_fire s') n = Some t \<Longrightarrow> (t, n) \<in> set (fire_heap s')"
    using pl unfolding covered_def by blast+
  have "\<exists>job. dict_get (cron_jobs s) n = Some job \<and> scheduled job" if "dict_get (next_fire s') n = Some t" for n t
    using keys [of n] that inv(3) [of n] by (cases "dict_get (next_fire s) n") simp_all
  with cov inv(1,2) show "index_inv s'" unfolding index_inv_def jobs by blast
  show "(fires_of n plan, dict_get (next_fire s') n) = job_pass z job now (dict_get (next_fire s) n)"
    if "dict_get (cron_jobs s) n = Some job"
  proof (cases "n \<in> ?due")
    case True
    then show ?thesis using pl that by (auto simp: job_pass_def)
  next
    case False
    then show ?thesis using pl by (auto simp: job_pass_def split: option.splits)
  qed
qed

subsection \<open>Seeding\<close>

lemma seed_job_inv:
  assumes "index_inv s" and "dict_get (cron_jobs s) name = Some job"
  shows "index_inv (seed_job z now name job s)" and "cron_jobs (seed_job z now name job s) = cron_jobs s"
proof -
  let ?s = "seed_job z now name job s"
  show jobs: "cron_jobs ?s = cron_jobs s" by (simp add: seed_job_def set_next_fire_def split: option.splits)
  have heap: "sorted (fire_heap ?s)" "wf_dict (next_fire ?s)" "set (fire_heap s) \<subseteq> set (fire_heap ?s)"
    using index_invD(1,2) [OF assms(1)]
    by (auto simp: seed_job_def set_next_fire_def sorted_insort set_insort_key split: option.splits)
  have "(t, n) \<in> set (fire_heap ?s) \<and> (\<exists>job. dict_get (cron_jobs s) n = Some job \<and> scheduled job)"
    if "dict_get (next_fire ?s) n = Some t" for n t
  proof (cases "dict_get (next_fire s) n = Some t")
    case True
    then show ?thesis using index_invD(5,6) [OF assms(1)] heap(3) by blast
  next
    case False
    then show ?thesis using that assms(2)
      by (auto simp: seed_job_def set_next_fire_def set_insort_key simp del: map_of_eq_Some_iff split: if_splits option.splits)
  qed
  with heap index_invD(3,4) [OF assms(1)] show "index_inv ?s" unfolding index_inv_def jobs by blast
qed

text \<open>What seeding means for one job.\<close>

definition seeded :: "tzinfo \<Rightarrow> int \<Rightarrow> JobConfig \<Rightarrow> int option \<Rightarrow> int option" where
  "seeded z now job nxt =
     (case nxt of Some t \<Rightarrow> Some t | None \<Rightarrow> if scheduled job then compute_next_fire z job now else None)"

lemma seed_job_fire:
  "dict_get (next_fire (seed_job z now name job s)) n =
     (if n = name then seeded z now job (dict_get (next_fire s) n) else dict_get (next_fire s) n)"
  by (auto simp: seed_job_def set_next_fire_def seeded_def split: option.splits)

lemma seed_fold_spec:
  assumes "index_inv s" and "wf_dict jobs" and "set jobs \<subseteq> set (cron_jobs s)"
    and "s' = fold (\<lambda>(name, job). seed_job z now name job) jobs s"
  shows "index_inv s' \<and> cron_jobs s' = cron_jobs s \<and>
    (\<forall>n. dict_get (next_fire s') n =
       (case dict_get jobs n of Some job \<Rightarrow> seeded z now job (dict_get (next_fire s) n) | None \<Rightarrow> dict_get (next_fire s) n))"
  using assms
proof (induction jobs arbitrary: s)
  case (Cons nj jobs)
  obtain name job where nj: "nj = (name, job)" by (cases nj)
  have "wf_dict (cron_jobs s)" using Cons.prems(1) by (simp add: index_inv_def)
  then have g: "dict_get (cron_jobs s) name = Some job" using Cons.prems(3) by (simp add: nj)
  note i = seed_job_inv [OF Cons.prems(1) g, of z now]
  have "index_inv s' \<and> cron_jobs s' = cron_jobs (seed_job z now name job s) \<and>
    (\<forall>n. dict_get (next_fire s') n =
       (case dict_get jobs n of Some job' \<Rightarrow> seeded z now job' (dict_get (next_fire (seed_job z now name job s)) n)
        | None \<Rightarrow> dict_get (next_fire (seed_job z now name job s)) n))"
    by (rule Cons.IH [OF i(1)]) (use Cons.prems(2-4) i(2) in \<open>auto simp: nj\<close>)
  moreover have "dict_get jobs name = None" using Cons.prems(2) by (simp add: nj dict_get_None_iff)
  ultimately show ?case by (auto simp: nj i(2) seed_job_fire split: option.splits)
qed simp

lemma ensure_seeded_spec:
  assumes "index_inv s"
  shows "index_inv (ensure_seeded z now s)" and "cron_jobs (ensure_seeded z now s) = cron_jobs s"
    and "dict_get (next_fire (ensure_seeded z now s)) n =
       (case dict_get (cron_jobs s) n of Some job \<Rightarrow> seeded z now job (dict_get (next_fire s) n) | None \<Rightarrow> dict_get (next_fire s) n)"
proof -
  have "wf_dict (cron_jobs s)" using assms by (simp add: index_inv_def)
  from seed_fold_spec [OF assms this order_refl refl, of z now]
  show "index_inv (ensure_seeded z now s)" "cron_jobs (ensure_seeded z now s) = cron_jobs s"
    "dict_get (next_fire (ensure_seeded z now s)) n =
       (case dict_get (cron_jobs s) n of Some job \<Rightarrow> seeded z now job (dict_get (next_fire s) n) | None \<Rightarrow> dict_get (next_fire s) n)"
    by (simp_all add: ensure_seeded_def)
qed

end
