(* ===== verification/SchedulePasses.thy ===== *)
theory SchedulePasses
  imports ScheduleFacts
begin

text \<open>
  Facts on a sequence of passes: what one job fires when every pass is on time, and what it fires when
  some are late; and on a reload.
\<close>

subsection \<open>Passes on time\<close>

fun passes :: "tzinfo \<Rightarrow> int list \<Rightarrow> Scheduler \<Rightarrow> Scheduler \<times> (JobConfig \<times> int list) list list" where
  "passes z [] s = (s, [])"
| "passes z (now # nows) s =
     (case plan_due_jobs z now s of
        (s1, plan) \<Rightarrow> (case passes z nows s1 of (s2, plans) \<Rightarrow> (s2, plan # plans)))"

fun job_passes :: "tzinfo \<Rightarrow> JobConfig \<Rightarrow> int list \<Rightarrow> int option \<Rightarrow> int list \<times> int option" where
  "job_passes z job [] nxt = ([], nxt)"
| "job_passes z job (now # nows) nxt =
     (case job_pass z job now nxt of
        (fs, nxt1) \<Rightarrow> (case job_passes z job nows nxt1 of (gs, nxt2) \<Rightarrow> (fs @ gs, nxt2)))"

text \<open>No pass comes \<open>CATCHUP_LIMIT\<close> or more after a fire that it finds due.\<close>

fun on_time :: "tzinfo \<Rightarrow> JobConfig \<Rightarrow> int list \<Rightarrow> int option \<Rightarrow> bool" where
  "on_time z job [] nxt \<longleftrightarrow> True"
| "on_time z job (now # nows) nxt \<longleftrightarrow>
     (case nxt of Some slot \<Rightarrow> now - slot < CATCHUP_LIMIT | None \<Rightarrow> True) \<and>
     on_time z job nows (snd (job_pass z job now nxt))"

lemma passes_refine:
  assumes "index_inv s" and "passes z nows s = (s', plans)" and "dict_get (cron_jobs s) n = Some job"
  shows "index_inv s' \<and> cron_jobs s' = cron_jobs s \<and>
    (concat (map (fires_of n) plans), dict_get (next_fire s') n) = job_passes z job nows (dict_get (next_fire s) n)"
  using assms
proof (induction nows arbitrary: s plans)
  case (Cons now nows)
  obtain s1 plan where p: "plan_due_jobs z now s = (s1, plan)" by fastforce
  obtain plans' where ps: "passes z nows s1 = (s', plans')" "plans = plan # plans'"
    using Cons.prems(2) p by (auto split: prod.splits)
  note r = plan_due_jobs_refines [OF Cons.prems(1) p]
  have ih: "index_inv s' \<and> cron_jobs s' = cron_jobs s1 \<and>
      (concat (map (fires_of n) plans'), dict_get (next_fire s') n) = job_passes z job nows (dict_get (next_fire s1) n)"
    by (rule Cons.IH [OF r(1) ps(1)]) (use Cons.prems(3) r(2) in simp)
  have step: "job_pass z job now (dict_get (next_fire s) n) = (fires_of n plan, dict_get (next_fire s1) n)"
    using r(3) [OF Cons.prems(3)] by simp
  obtain gs nxt where g: "job_passes z job nows (dict_get (next_fire s1) n) = (gs, nxt)" by fastforce
  show ?case using ih step g r(2) by (simp add: ps(2))
qed simp

lemma job_pass_on_time:
  assumes "lawful_job job" and "zoned.next_after job before nxt" and "before \<le> now"
    and "case nxt of Some slot \<Rightarrow> now - slot < CATCHUP_LIMIT | None \<Rightarrow> True"
    and "job_pass z job now nxt = (fs, nxt')"
  shows "sorted_wrt (<) fs" and "set fs = {f \<in> job_fires job. before < f \<and> f \<le> now}" and "zoned.next_after job now nxt'"
proof -
  have "sorted_wrt (<) fs \<and> set fs = {f \<in> job_fires job. before < f \<and> f \<le> now} \<and> zoned.next_after job now nxt'"
  proof (cases nxt)
    case None
    then show ?thesis using assms(2,3,5) by (auto simp: job_pass_def zoned.next_after_def)
  next
    case (Some slot)
    then have s: "slot \<in> job_fires job" "before < slot" "sane_instant slot" "\<forall>f \<in> job_fires job. before < f \<longrightarrow> slot \<le> f"
      using assms(2) by (auto simp: zoned.next_after_def)
    show ?thesis
    proof (cases "slot \<le> now")
      case True
      obtain gs where g: "walk z job now (compute_next_fire z job slot) = (gs, nxt')" "fs = slot # gs"
        using assms(4,5) Some True by (auto simp: job_pass_def advance_def split: prod.splits)
      from zoned.walk_enumerates [OF assms(1) s(3) True g(1)] s True show ?thesis unfolding g(2) by auto
    next
      case False
      then have "fs = []" "nxt' = Some slot" using assms(5) Some by (auto simp: job_pass_def)
      then show ?thesis using s False assms(3) by (auto simp: zoned.next_after_def)
    qed
  qed
  then show "sorted_wrt (<) fs" "set fs = {f \<in> job_fires job. before < f \<and> f \<le> now}" "zoned.next_after job now nxt'"
    by blast+
qed

lemma job_passes_on_time:
  assumes "lawful_job job" and "zoned.next_after job before nxt" and "sorted (before # nows)"
    and "on_time z job nows nxt" and "job_passes z job nows nxt = (fs, nxt')"
  shows "sorted_wrt (<) fs \<and> set fs = {f \<in> job_fires job. before < f \<and> f \<le> last (before # nows)}"
  using assms(2-5)
proof (induction nows arbitrary: before nxt fs)
  case (Cons now nows)
  obtain gs nxt1 where g: "job_pass z job now nxt = (gs, nxt1)" by fastforce
  obtain hs where h: "job_passes z job nows nxt1 = (hs, nxt')" "fs = gs @ hs"
    using Cons.prems(4) g by (auto split: prod.splits)
  have "before \<le> now" using Cons.prems(2) by simp
  note p = job_pass_on_time [OF assms(1) Cons.prems(1) this _ g]
  have p: "sorted_wrt (<) gs" "set gs = {f \<in> job_fires job. before < f \<and> f \<le> now}" "zoned.next_after job now nxt1"
    using p Cons.prems(3) by simp_all
  have ih: "sorted_wrt (<) hs \<and> set hs = {f \<in> job_fires job. now < f \<and> f \<le> last (now # nows)}"
    by (rule Cons.IH [OF p(3) _ _ h(1)]) (use Cons.prems(2,3) g in auto)
  have le: "before \<le> now" "now \<le> last (now # nows)" using Cons.prems(2) by (auto simp: last_in_set)
  show ?case
  proof
    show "sorted_wrt (<) fs" using p(1,2) ih unfolding h(2) by (auto simp: sorted_wrt_append)
    show "set fs = {f \<in> job_fires job. before < f \<and> f \<le> last (before # now # nows)}"
      using p(2) ih le unfolding h(2) by auto
  qed
qed simp

subsection \<open>Late passes\<close>

text \<open>A zone that changes its clock at whole minutes and by whole minutes.\<close>

definition minute_zone :: "tzinfo \<Rightarrow> bool" where
  "minute_zone z \<longleftrightarrow> zone_first z mod minute_us = 0 \<and>
     list_all (\<lambda>(a, c). a mod minute_us = 0 \<and> c mod minute_us = 0) (zone_trans z)"

lemma fold_resolves:
  assumes "good o1 ts" and "l = u + offset_at o1 ts u" and "l - offset_of_label o1 ts l \<noteq> u"
  shows "l - offset_of_fold o1 ts l = u"
  using assms
proof (induction o1 ts u rule: offset_at.induct)
  case (2 o1 a o2 ts u)
  note g = good_Cons [OF 2(2)]
  show ?case
  proof (cases "a \<le> u")
    case True
    show ?thesis
    proof (cases "a + max o1 o2 \<le> l")
      case l: True
      then have "a + min o1 o2 \<le> l" by linarith
      with "2.IH" [OF True g] 2(3,4) True l show ?thesis by simp
    next
      case False
      note sm = good_small [OF 2(2)] offset_small(1) [OF g, of u]
      have "u < a + 4 * day_us" using 2(3) False True sm by (simp add: small_offset_def day_us_def max_def split: if_splits)
      then have l: "l = u + o2" using 2(3) True offset_at_head [OF g 2(2)] by simp
      then have "offset_of_fold o2 ts l = o2"
        using 2(2) False sm by (cases ts) (auto simp: good_def small_offset_def day_us_def max_def min_def split: if_splits)
      moreover have "a + min o1 o2 \<le> l" using l True by simp
      ultimately show ?thesis using l by simp
    qed
  qed (use 2(3,4) in auto)
qed simp

text \<open>Cutting to a unit moves no label across a transition.\<close>

lemma cut_le:
  fixes k :: int
  assumes "0 < k" and "x mod k = 0"
  shows "x \<le> l - l mod k \<longleftrightarrow> x \<le> l"
proof
  assume "x \<le> l - l mod k"
  moreover have "0 \<le> l mod k" using assms(1) by simp
  ultimately show "x \<le> l" by linarith
next
  assume "x \<le> l"
  then have "x div k * k \<le> l div k * k" using assms(1) by (intro mult_right_mono zdiv_mono1) simp_all
  moreover have "x div k * k = x" using div_mult_mod_eq [of x k] assms(2) by simp
  ultimately show "x \<le> l - l mod k" by (simp add: minus_mod_eq_div_mult)
qed

lemma minute_multiple: "k = 1000000 \<or> k = minute_us \<Longrightarrow> x mod minute_us = 0 \<Longrightarrow> x mod k = 0"
  by (auto simp: minute_us_def mod_eq_0_iff_dvd intro: dvd_trans [of 1000000 60000000])

lemma cut_offsets:
  assumes "k = 1000000 \<or> k = minute_us" and "o1 mod minute_us = 0"
    and "list_all (\<lambda>(a, c). a mod minute_us = 0 \<and> c mod minute_us = 0) ts"
  shows "offset_of_label o1 ts (l - l mod k) = offset_of_label o1 ts l"
    and "offset_of_fold o1 ts (l - l mod k) = offset_of_fold o1 ts l"
    and "offset_at o1 ts u mod k = 0" and "offset_of_label o1 ts l mod k = 0"
proof -
  have k: "0 < k" using assms(1) by (auto simp: minute_us_def)
  have sum: "(a + c) mod k = 0" if "a mod minute_us = 0" "c mod minute_us = 0" for a c
    using minute_multiple [OF assms(1)] that by (simp add: mod_add_eq [symmetric])
  show "offset_of_label o1 ts (l - l mod k) = offset_of_label o1 ts l"
    using assms(2,3) by (induction ts arbitrary: o1) (auto simp: cut_le [OF k sum] max_def)
  show "offset_of_fold o1 ts (l - l mod k) = offset_of_fold o1 ts l"
    using assms(2,3) by (induction ts arbitrary: o1) (auto simp: cut_le [OF k sum] min_def)
  show "offset_at o1 ts u mod k = 0" "offset_of_label o1 ts l mod k = 0"
    using assms(2,3) by (induction ts arbitrary: o1) (auto simp: minute_multiple [OF assms(1)])
qed

definition resolution :: "JobConfig \<Rightarrow> int" where
  "resolution job = (if jc_has_seconds job then 1000000 else minute_us)"

text \<open>A job that does not ask for seconds fires on whole minutes.\<close>

definition minute_job :: "JobConfig \<Rightarrow> bool" where
  "minute_job job \<longleftrightarrow>
     (case (jc_schedule job, jc_timezone job) of
        (Crontab ct, Some (n, z)) \<Rightarrow> minute_zone z \<and> (jc_has_seconds job \<or> ct_seconds ct = {0})
      | _ \<Rightarrow> False)"

lemma slot_instant_eq:
  assumes "jc_timezone job = Some (n, z)" and "regular_zone z" and "minute_zone z"
  shows "slot_instant sz job now = now - now mod resolution job"
proof -
  let ?k = "resolution job" and ?l = "label_us z now" and ?o = "zone_first z" and ?ts = "zone_trans z"
  note g = regular_good [OF assms(2)]
  have k: "?k = 1000000 \<or> ?k = minute_us" by (simp add: resolution_def)
  note c = cut_offsets [OF k, of ?o ?ts]
  have z: "?o mod minute_us = 0" "list_all (\<lambda>(a, c). a mod minute_us = 0 \<and> c mod minute_us = 0) ?ts"
    using assms(3) by (simp_all add: minute_zone_def)
  have l: "?l = now + offset_at ?o ?ts now" by (simp add: label_us_def utcoffset_eq)
  have m: "?l mod ?k = now mod ?k" unfolding l using c(3) [OF z, of now] by (metis add.right_neutral mod_add_right_eq)
  have "resolve_fold z (resolve_us z ?l \<noteq> now) ?l = now"
    using fold_resolves [OF g l] by (simp add: resolve_fold_def resolve_us_eq)
  moreover have "resolve_fold z b (?l - ?l mod ?k) = resolve_fold z b ?l - ?l mod ?k" for b
    using c(1,2) [OF z, of ?l] by (simp add: resolve_fold_def resolve_us_eq)
  ultimately show ?thesis
    by (simp add: slot_instant_def schedule_slot_def job_zone_def assms(1) m resolution_def [symmetric])
qed

lemma fire_on_resolution:
  assumes "lawful_job job" and "minute_job job" and "f \<in> job_fires job"
  shows "f mod resolution job = 0"
  using assms(1)
proof (rule lawful_jobE)
  fix ct n z
  assume z: "jc_schedule job = Crontab ct" "jc_timezone job = Some (n, z)" "regular_zone z"
    and fires: "job_fires job = {resolve_in z t | t. occurs ct t \<and> within_horizon t}"
  let ?k = "resolution job"
  have k: "?k = 1000000 \<or> ?k = minute_us" by (simp add: resolution_def)
  have mz: "zone_first z mod minute_us = 0" "list_all (\<lambda>(a, c). a mod minute_us = 0 \<and> c mod minute_us = 0) (zone_trans z)"
    and sec: "jc_has_seconds job \<or> ct_seconds ct = {0}"
    using assms(2) z by (auto simp: minute_job_def minute_zone_def)
  obtain t where t: "occurs ct t" "f = resolve_in z t" using assms(3) fires by blast
  obtain y m d tm where tm: "t = DateTime (Date y m d) tm 0" "cron_time ct tm" using t(1) by (metis occursE)
  have "microseconds_of t mod ?k = 0"
  proof (cases "jc_has_seconds job")
    case True
    then show ?thesis by (simp add: tm(1) microseconds_of_def resolution_def mod_eq_0_iff_dvd)
  next
    case False
    then have "t_second tm = 0" using sec tm(2) by (simp add: cron_time_def)
    then show ?thesis using False by (simp add: tm(1) microseconds_of_def resolution_def minute_us_def mod_eq_0_iff_dvd)
  qed
  then show ?thesis
    using cut_offsets(4) [OF k mz, of "microseconds_of t"]
    by (simp add: t(2) resolve_in_def resolve_us_eq mod_eq_0_iff_dvd)
qed

text \<open>Late or not, a pass fires from the next fire on and up to \<open>now\<close>, in order.\<close>

lemma job_pass_in_order:
  assumes "lawful_job job" and "minute_job job" and "zoned.next_after job before nxt" and "before \<le> now"
    and "sane_instant now" and "job_pass z job now nxt = (fs, nxt')"
  shows "sorted_wrt (<) fs" and "\<forall>f \<in> set fs. before < f \<and> f \<le> now" and "zoned.next_after job now nxt'"
proof -
  have "sorted_wrt (<) fs \<and> (\<forall>f \<in> set fs. before < f \<and> f \<le> now) \<and> zoned.next_after job now nxt'"
  proof (cases "case nxt of Some slot \<Rightarrow> now - slot < CATCHUP_LIMIT | None \<Rightarrow> True")
    case True
    from job_pass_on_time [OF assms(1,3,4) True assms(6)] show ?thesis by auto
  next
    case False
    then obtain slot where slot: "nxt = Some slot" "now - slot \<ge> CATCHUP_LIMIT" by (auto split: option.splits)
    then have s: "slot \<in> job_fires job" "before < slot" "slot \<le> now"
      using assms(3) by (auto simp: zoned.next_after_def CATCHUP_LIMIT_def)
    obtain n tz where tz: "jc_timezone job = Some (n, tz)" "regular_zone tz" "minute_zone tz"
      using assms(1,2) by (auto simp: lawful_job_def minute_job_def split: schedule.splits option.splits)
    let ?k = "resolution job"
    have "slot \<le> now - now mod ?k"
      using cut_le [of ?k slot now] fire_on_resolution [OF assms(1,2) s(1)] s(3) by (simp add: resolution_def minute_us_def)
    moreover have "0 \<le> now mod ?k" by (simp add: resolution_def minute_us_def)
    ultimately have "before < slot_instant z job now" "slot_instant z job now \<le> now"
      using s(2) by (simp_all add: slot_instant_eq [OF tz])
    moreover have "fs = (if slot_matches z job now then [slot_instant z job now] else [])"
      "nxt' = compute_next_fire z job now"
      using assms(6) slot s(3) by (auto simp: job_pass_def advance_def)
    ultimately show ?thesis using zoned.next_of_after [OF assms(1,5), of z] by simp
  qed
  then show "sorted_wrt (<) fs" "\<forall>f \<in> set fs. before < f \<and> f \<le> now" "zoned.next_after job now nxt'" by blast+
qed

lemma job_passes_in_order:
  assumes "lawful_job job" and "minute_job job" and "zoned.next_after job before nxt" and "sorted (before # nows)"
    and "\<forall>now \<in> set nows. sane_instant now" and "job_passes z job nows nxt = (fs, nxt')"
  shows "sorted_wrt (<) fs \<and> (\<forall>f \<in> set fs. before < f)"
  using assms(3-6)
proof (induction nows arbitrary: before nxt fs)
  case (Cons now nows)
  obtain gs nxt1 where g: "job_pass z job now nxt = (gs, nxt1)" by fastforce
  obtain hs where h: "job_passes z job nows nxt1 = (hs, nxt')" "fs = gs @ hs"
    using Cons.prems(4) g by (auto split: prod.splits)
  have le: "before \<le> now" "sane_instant now" using Cons.prems(2,3) by simp_all
  note p = job_pass_in_order [OF assms(1,2) Cons.prems(1) le g]
  have ih: "sorted_wrt (<) hs \<and> (\<forall>f \<in> set hs. now < f)"
    by (rule Cons.IH [OF p(3) _ _ h(1)]) (use Cons.prems(2,3) in auto)
  show ?case using p(1,2) ih le(1) unfolding h(2) by (fastforce simp: sorted_wrt_append)
qed simp

subsection \<open>Reloads\<close>

text \<open>What a reload leaves of the next fire of a job.\<close>

definition reloaded :: "tzinfo \<Rightarrow> int \<Rightarrow> JobConfig option \<Rightarrow> JobConfig option \<Rightarrow> int option \<Rightarrow> int option" where
  "reloaded z now old new nxt =
     (case new of
        None \<Rightarrow> None
      | Some job \<Rightarrow>
          if \<not> scheduled job then None
          else if nxt \<noteq> None \<and> (\<exists>o'. old = Some o' \<and> same_schedule o' job) then nxt
          else compute_next_fire z job now)"

lemma dict_get_filter: "dict_get (filter (\<lambda>(n, t). P n) d) n = (if P n then dict_get d n else None)"
  by (induction d) auto

lemma reload_spec:
  assumes "index_inv s" and "distinct (map jc_name jobs)" and "s' = apply_reload z now jobs running s"
  shows "index_inv s'" and "cron_jobs s' = map (\<lambda>j. (jc_name j, j)) jobs"
    and "dict_get (next_fire s') n =
      reloaded z now (dict_get (cron_jobs s) n) (dict_get (cron_jobs s') n) (dict_get (next_fire s) n)"
proof -
  let ?jobs = "map (\<lambda>j. (jc_name j, j)) jobs"
  define s1 where "s1 = s\<lparr>cron_jobs := ?jobs,
      last_run_slot := filter (\<lambda>(n, t). n \<in> jc_name ` set jobs \<union> running) (last_run_slot s),
      sla_due := filter (\<lambda>(n, t). n \<in> jc_name ` set jobs \<union> running) (sla_due s),
      next_fire := filter (\<lambda>(name, t). keeps_fire ?jobs (cron_jobs s) name) (next_fire s),
      dead_schedules := {name \<in> dead_schedules s. keeps_dead ?jobs (cron_jobs s) name}\<rparr>"
  have wf: "wf_dict ?jobs" using assms(2) by (simp add: comp_def)
  then have "dict_of ?jobs = ?jobs" by simp
  then have s': "s' = ensure_seeded z now s1"
    by (simp add: assms(3) apply_reload_def refresh_schedule_def s1_def Let_def comp_def image_image)
  have kept: "(t, m) \<in> set (fire_heap s1) \<and> (\<exists>job. dict_get (cron_jobs s1) m = Some job \<and> scheduled job)"
    if "dict_get (next_fire s1) m = Some t" for m t
  proof -
    have "keeps_fire ?jobs (cron_jobs s) m" "dict_get (next_fire s) m = Some t"
      using that by (simp_all add: s1_def dict_get_filter split: if_splits)
    with index_invD(5) [OF assms(1)] show ?thesis
      by (auto simp: keeps_fire_def s1_def simp del: map_of_eq_Some_iff split: option.splits)
  qed
  have "index_inv s1"
    using index_invD(1,2) [OF assms(1)] wf kept unfolding index_inv_def
    by (auto simp: s1_def wf_dict_filter simp del: map_of_eq_Some_iff)
  note e = ensure_seeded_spec [OF this, of z now]
  show "index_inv s'" using e(1) by (simp add: s')
  show jobs: "cron_jobs s' = ?jobs" using e(2) by (simp add: s' s1_def)
  have nf: "dict_get (next_fire s1) n =
      (if keeps_fire ?jobs (cron_jobs s) n then dict_get (next_fire s) n else None)"
    by (simp add: s1_def dict_get_filter)
  have "dict_get (cron_jobs s1) n = dict_get ?jobs n" by (simp add: s1_def)
  then show "dict_get (next_fire s') n =
      reloaded z now (dict_get (cron_jobs s) n) (dict_get (cron_jobs s') n) (dict_get (next_fire s) n)"
    unfolding jobs unfolding s' e(3) nf
    by (auto simp: reloaded_def seeded_def keeps_fire_def simp del: map_of_eq_Some_iff split: option.splits)
qed

end
