(* ===== verification/ScheduleProps.thy ===== *)
theory ScheduleProps
  imports SchedulePasses ZoneProps
begin

text \<open>
  Properties of the next-fire index: the heap serves every job as if it were alone, every slot fires
  exactly once, a reload keeps what is pending, and where a job without a time zone goes wrong.
\<close>

subsection \<open>A concrete scheduler\<close>

definition night_job :: JobConfig where
  "night_job = \<lparr>jc_name = ''night'', jc_schedule = Crontab half_past_two,
     jc_timezone = Some (''America/New_York'', new_york), jc_has_seconds = False, jc_enabled = True,
     jc_policy = Leader, jc_on_missed = RunAll, jc_deadline = 0, jc_concurrency = Forbid, jc_cluster_scope = False,
     jc_only_if_last_succeeded = False,
     jc_retry = \<lparr>rc_maximum = 2, rc_initial_delay = 1, rc_backoff = 2, rc_maximum_delay = 300\<rparr>\<rparr>"

definition other_job :: JobConfig where
  "other_job = night_job\<lparr>jc_name := ''other'', jc_schedule := Crontab quarters_of_two,
     jc_timezone := Some (''UTC'', FixedZone 0)\<rparr>"

definition two_jobs :: Scheduler where
  "two_jobs = ensure_seeded (FixedZone 0) before_gap
     \<lparr>cron_jobs = [(''night'', night_job), (''other'', other_job)], next_fire = [], fire_heap = [],
      dead_schedules = {}, last_run_slot = [], sla_due = []\<rparr>"

lemma two_jobs_inv: "index_inv two_jobs" and two_jobs_jobs: "cron_jobs two_jobs = [(''night'', night_job), (''other'', other_job)]"
proof -
  let ?s = "\<lparr>cron_jobs = [(''night'', night_job), (''other'', other_job)], next_fire = [], fire_heap = [],
      dead_schedules = {}, last_run_slot = [], sla_due = []\<rparr>"
  have "index_inv ?s" by (simp add: index_inv_def night_job_def other_job_def)
  from ensure_seeded_spec(1,2) [OF this, of "FixedZone 0" before_gap]
  show "index_inv two_jobs" "cron_jobs two_jobs = [(''night'', night_job), (''other'', other_job)]"
    by (simp_all add: two_jobs_def)
qed

lemma night_job_lawful: "lawful_job night_job" and night_job_minute: "minute_job night_job"
proof -
  have "regular_zone new_york" "whole_hours new_york" "minute_zone new_york" "ct_seconds half_past_two = {0}" by code_simp+
  moreover have "wf_crontab half_past_two" by (rule CronTab_init_wf(1) [OF half_past_two_parsed])
  ultimately show "lawful_job night_job" "minute_job night_job"
    by (simp_all add: lawful_job_def minute_job_def night_job_def)
qed

subsection \<open>The index\<close>

text \<open>
  C15. The index and its heap, stale entries included, refine one independent machine per job: a pass
  leaves a job alone before its next fire and advances it, with the fires of the machine, from then on;
  the invariant of the index is kept, and the pass pops no job whose fire is still ahead.
\<close>

theorem heap_refines_jobs:
  assumes "index_inv s" and "plan_due_jobs z now s = (s', plan)" and "dict_get (cron_jobs s) name = Some job"
  shows "index_inv s' \<and> cron_jobs s' = cron_jobs s \<and>
    (fires_of name plan, dict_get (next_fire s') name) = job_pass z job now (dict_get (next_fire s) name)"
  using plan_due_jobs_refines [OF assms(1,2)] assms(3) by blast

definition wake :: int where
  "wake = before_gap + 31 * minute_us + 5 * 1000000"

theorem heap_refines_jobs_witness:
  "fires_of ''night'' (snd (plan_due_jobs (FixedZone 0) wake two_jobs)) = [before_gap + 31 * minute_us]"
proof -
  obtain s' plan where p: "plan_due_jobs (FixedZone 0) wake two_jobs = (s', plan)" by fastforce
  have "dict_get (cron_jobs two_jobs) ''night'' = Some night_job" by (simp add: two_jobs_jobs)
  note r = heap_refines_jobs [OF two_jobs_inv p this]
  have "fst (job_pass (FixedZone 0) night_job wake (dict_get (next_fire two_jobs) ''night'')) = [before_gap + 31 * minute_us]"
    by code_simp
  with r p show ?thesis by (metis fst_conv snd_conv)
qed



text \<open>
  C18. A reload keeps the pending fire of a job whose schedule and zone it leaves as they are, even one
  that is already due; a changed or new job is indexed strictly after the reload; a job that is gone,
  disabled or no longer scheduled by an expression leaves the index, whose invariant is kept.
\<close>

theorem reload_keeps_pending:
  assumes "index_inv s" and "distinct (map jc_name jobs)" and "s' = apply_reload z now jobs running s"
  shows "index_inv s' \<and>
    dict_get (next_fire s') n =
      (case dict_get (map (\<lambda>j. (jc_name j, j)) jobs) n of
         None \<Rightarrow> None
       | Some job \<Rightarrow>
           if \<not> scheduled job then None
           else (case (dict_get (cron_jobs s) n, dict_get (next_fire s) n) of
                   (Some old, Some t) \<Rightarrow> if same_schedule old job then Some t else compute_next_fire z job now
                 | _ \<Rightarrow> compute_next_fire z job now))"
  using reload_spec [OF assms] by (auto simp: reloaded_def simp del: map_of_eq_Some_iff split: option.splits)

theorem reload_keeps_pending_witness:
  "dict_get (next_fire (apply_reload (FixedZone 0) wake [night_job] {} two_jobs)) ''night'' =
     Some (before_gap + 31 * minute_us)"
proof -
  have "distinct (map jc_name [night_job])" by simp
  note r = reload_keeps_pending [OF two_jobs_inv this refl, of "FixedZone 0" wake "{}" "''night''"]
  have "dict_get (next_fire two_jobs) ''night'' = Some (before_gap + 31 * minute_us)" "same_schedule night_job night_job"
    "scheduled night_job" "jc_name night_job = ''night''" by code_simp+
  with r show ?thesis by (simp add: two_jobs_jobs)
qed

text \<open>The loop never sleeps past the soonest fire, nor longer than to the next round of housekeeping.\<close>

lemma sleep_until_soonest:
  assumes "index_inv s" and "sleep_interval dag_wake now now' s = (s', d)"
  shows "0 \<le> d" and "d \<le> minute_us" and "index_inv s'"
    and "dict_get (next_fire s) n = Some t \<Longrightarrow> now' + d \<le> t \<or> d = 0"
proof -
  define hk where "hk = (case dag_wake of Some w \<Rightarrow> min (next_sleep_interval False now) (max 0 w)
    | None \<Rightarrow> next_sleep_interval False now)"
  have "now mod 1000000 \<le> now mod 60000000"
    using mod_mod_cancel [of 1000000 60000000 now] zmod_le_nonneg_dividend [of "now mod 60000000" 1000000] by simp
  moreover have "now mod 60000000 < 60000000" "0 \<le> now mod 1000000" by simp_all
  ultimately have hk: "0 \<le> hk" "hk \<le> minute_us"
    by (auto simp: hk_def next_sleep_interval_def minute_us_def split: option.splits)
  obtain r where r: "peek_soonest_fire s = (s', r)" "d = (case r of None \<Rightarrow> hk | Some t \<Rightarrow> max 0 (min hk (t - now')))"
    using assms(2) by (auto simp: sleep_interval_def hk_def Let_def split: prod.splits option.splits)
  note p = peek_soonest_spec [OF assms(1) r(1)]
  show "0 \<le> d" "d \<le> minute_us" using hk by (auto simp: r(2) minute_us_def split: option.splits)
  show "index_inv s'" by (rule p(1))
  show "now' + d \<le> t \<or> d = 0" if "dict_get (next_fire s) n = Some t"
  proof (cases r)
    case None
    then show ?thesis using p(5) that by simp
  next
    case (Some u)
    then have "u \<le> t" using p(4) [OF Some] that by blast
    then show ?thesis by (simp add: r(2) Some) linarith
  qed
qed

subsection \<open>Jobs without a time zone\<close>

text \<open>
  A job without a time zone is meant to follow the wall clock of the machine.  Its frame is
  \<open>after.astimezone()\<close>, which carries a fixed offset, so the search knows of no transition: on a machine
  in New York the fire of \<open>30 2\<close>, computed the day before the clock falls back, comes an hour early on the
  wall.  With the zone given explicitly it comes at half past two.
\<close>

definition local_job :: JobConfig where
  "local_job = night_job\<lparr>jc_timezone := None\<rparr>"

lemma local_job_ignores_transition:
  "let noon = microseconds_of (DateTime (Date 2026 10 31) (Time 16 0 0) 0)
   in map_option (render new_york) (compute_next_fire new_york local_job noon) =
        Some (DateTime (Date 2026 11 1) (Time 1 30 0) 0) \<and>
      map_option (render new_york) (compute_next_fire new_york night_job noon) =
        Some (DateTime (Date 2026 11 1) (Time 2 30 0) 0)"
  by code_simp

end
