(* ===== verification/CatchUp.thy ===== *)
theory CatchUp
  imports ScheduleFacts
begin

text \<open>
  Missed-run catch-up at start-up (\<open>cron.py\<close>): how many launches a job is owed since its watermark, the
  evaluation pass over the jobs, and the backfill itself.  Watermarks are texts; \<open>parse\<close> is
  \<open>_parse_iso_utc\<close> on them and \<open>isoformat\<close> is that method.  Each durable read is an argument: its answer or
  \<open>StoreTrouble\<close> (an error or a timeout).
\<close>

subsection \<open>Owed occurrences\<close>

definition MAX_CATCHUP_OCCURRENCES :: nat where
  "MAX_CATCHUP_OCCURRENCES = 100"

type_synonym pause_window = "int option \<times> int"

definition in_pause_window :: "int \<Rightarrow> pause_window \<Rightarrow> bool" where
  "in_pause_window t window \<longleftrightarrow>
     t < snd window \<and> (case fst window of None \<Rightarrow> True | Some since \<Rightarrow> since \<le> t)"

function missed_loop :: "tzinfo \<Rightarrow> JobConfig \<Rightarrow> int \<Rightarrow> pause_window option \<Rightarrow> nat \<Rightarrow> int option \<Rightarrow> nat" where
  "missed_loop z job now window count None = count"
| "missed_loop z job now window count (Some t) =
     (if t > now then count
      else (case window of
              Some w \<Rightarrow>
                if in_pause_window t w then missed_loop z job now None count (compute_next_fire z job (snd w - 1))
                else if jc_on_missed job = RunOnce then 1
                else if count + 1 \<ge> MAX_CATCHUP_OCCURRENCES then count + 1
                else missed_loop z job now window (count + 1) (compute_next_fire z job t)
            | None \<Rightarrow>
                if jc_on_missed job = RunOnce then 1
                else if count + 1 \<ge> MAX_CATCHUP_OCCURRENCES then count + 1
                else missed_loop z job now window (count + 1) (compute_next_fire z job t)))"
  by pat_completeness auto
termination
  by (relation "measure (\<lambda>(z, job, now, window, count, nxt). case nxt of None \<Rightarrow> 0 | Some t \<Rightarrow> nat (now - t + 1))")
    (auto simp: in_pause_window_def split: option.splits dest!: compute_next_fire_later)

datatype store_trouble = StoreTrouble

text \<open>The reads of one evaluation: the watermark of the ledger, that of an open cycle, the last real run.\<close>

record catchup_reads =
  cr_last_run :: "(store_trouble, string option) result"
  cr_pending :: "(store_trouble, string option) result"
  cr_window :: "pause_window option"
  cr_completed :: "(store_trouble, string option) result"

definition parsed :: "(string \<Rightarrow> int option) \<Rightarrow> string option \<Rightarrow> int option" where
  "parsed parse text = (case text of None \<Rightarrow> None | Some t \<Rightarrow> parse t)"

text \<open>The instant from which slots are owed and the watermark of the cycle, before the deadline.\<close>

definition hoist_pending ::
  "(string \<Rightarrow> int option) \<Rightarrow> string option \<Rightarrow> string option \<Rightarrow> int option \<times> string option" where
  "hoist_pending parse watermark pending =
     (case (parsed parse watermark, parsed parse pending) of
        (None, Some p) \<Rightarrow> (Some p, pending)
      | (Some a, Some p) \<Rightarrow> if p < a then (Some p, pending) else (Some a, watermark)
      | (a, None) \<Rightarrow> (a, watermark))"

definition apply_deadline :: "JobConfig \<Rightarrow> int \<Rightarrow> int \<Rightarrow> int" where
  "apply_deadline job now after =
     (if jc_deadline job \<noteq> 0 \<and> now - jc_deadline job * 1000000 > after then now - jc_deadline job * 1000000 else after)"

definition owed_since ::
  "(string \<Rightarrow> int option) \<Rightarrow> (int \<Rightarrow> string) \<Rightarrow> catchup_reads \<Rightarrow>
   (store_trouble, (int \<times> string option) option) result" where
  "owed_since parse isoformat reads =
     bind_result (cr_last_run reads) (\<lambda>watermark.
     bind_result (cr_pending reads) (\<lambda>pending.
       case hoist_pending parse watermark pending of
         (None, _) \<Rightarrow> Inr None
       | (Some after, text) \<Rightarrow>
           if cr_window reads = None then Inr (Some (after, text))
           else bind_result (cr_completed reads) (\<lambda>completed.
             case parsed parse completed of
               Some ran_at \<Rightarrow> if ran_at < after then Inr (Some (ran_at, Some (isoformat ran_at))) else Inr (Some (after, text))
             | None \<Rightarrow> Inr (Some (after, text)))))"

definition missed_occurrences ::
  "tzinfo \<Rightarrow> (string \<Rightarrow> int option) \<Rightarrow> (int \<Rightarrow> string) \<Rightarrow> catchup_reads \<Rightarrow> JobConfig \<Rightarrow> int \<Rightarrow>
   (store_trouble, nat \<times> string option) result" where
  "missed_occurrences z parse isoformat reads job now =
     bind_result (owed_since parse isoformat reads) (\<lambda>since.
       case since of
         None \<Rightarrow> Inr (0, None)
       | Some (after, text) \<Rightarrow>
           Inr (missed_loop z job now (cr_window reads) 0 (compute_next_fire z job (apply_deadline job now after)), text))"

subsection \<open>The evaluation\<close>

text \<open>The answers one job meets in an evaluation pass, and what the pass leaves.\<close>

record catchup_io =
  ci_paused :: bool
  ci_allows :: bool
  ci_moved :: bool
  ci_reads :: catchup_reads

record catchup_state =
  cu_reference :: "int option"
  cu_latched :: bool
  cu_done :: "string set"
  cu_opened :: "(string \<times> string option) list"
  cu_scheduled :: "(string \<times> nat) list"

text \<open>A paused job pins the watermark of its last real run, once, before it is deferred.\<close>

definition pin_watermark :: "string \<Rightarrow> catchup_reads \<Rightarrow> catchup_state \<Rightarrow> catchup_state" where
  "pin_watermark name reads s =
     (case (cr_pending reads, cr_completed reads) of
        (Inr None, Inr (Some ran_at)) \<Rightarrow> s\<lparr>cu_opened := cu_opened s @ [(name, Some ran_at)]\<rparr>
      | _ \<Rightarrow> s)"

definition evaluate_job ::
  "tzinfo \<Rightarrow> (string \<Rightarrow> int option) \<Rightarrow> (int \<Rightarrow> string) \<Rightarrow> int \<Rightarrow> catchup_io \<Rightarrow> string \<Rightarrow> JobConfig \<Rightarrow>
   catchup_state \<Rightarrow> catchup_state \<times> bool" where
  "evaluate_job z parse isoformat now io name job s =
     (let finish = s\<lparr>cu_done := insert name (cu_done s)\<rparr>
      in if name \<in> cu_done s then (s, False)
         else if jc_on_missed job = SkipMissed \<or> \<not> jc_enabled job \<or> \<not> is_crontab (jc_schedule job) then (finish, False)
         else if ci_paused io then (pin_watermark name (ci_reads io) s, True)
         else if \<not> ci_allows io then (if ci_moved io then (finish, False) else (s, True))
         else (case missed_occurrences z parse isoformat (ci_reads io) job now of
                 Inl e \<Rightarrow> (s, True)
               | Inr (count, text) \<Rightarrow>
                   if count = 0 then (finish, False)
                   else (finish\<lparr>cu_opened := cu_opened s @ [(name, text)],
                                cu_scheduled := cu_scheduled s @ [(name, count)]\<rparr>, False)))"

fun evaluate_catch_up ::
  "tzinfo \<Rightarrow> (string \<Rightarrow> int option) \<Rightarrow> (int \<Rightarrow> string) \<Rightarrow> int \<Rightarrow> (string \<Rightarrow> catchup_io) \<Rightarrow> JobConfig dict \<Rightarrow>
   catchup_state \<Rightarrow> catchup_state \<times> bool" where
  "evaluate_catch_up z parse isoformat now ios [] s = (s, False)"
| "evaluate_catch_up z parse isoformat now ios ((name, job) # jobs) s =
     (case evaluate_job z parse isoformat now (ios name) name job s of
        (s1, pending) \<Rightarrow>
          (case evaluate_catch_up z parse isoformat now ios jobs s1 of (s2, rest) \<Rightarrow> (s2, pending \<or> rest)))"

text \<open>One attempt at \<open>now\<close>; it is anchored to the instant of the first one.\<close>

definition catch_up ::
  "tzinfo \<Rightarrow> (string \<Rightarrow> int option) \<Rightarrow> (int \<Rightarrow> string) \<Rightarrow> bool \<Rightarrow> bool \<Rightarrow> int \<Rightarrow> (string \<Rightarrow> catchup_io) \<Rightarrow>
   JobConfig dict \<Rightarrow> catchup_state \<Rightarrow> catchup_state" where
  "catch_up z parse isoformat configured running now ios jobs s =
     (if cu_latched s then s
      else (let now' = (case cu_reference s of Some t \<Rightarrow> t | None \<Rightarrow> now); s1 = s\<lparr>cu_reference := Some now'\<rparr>
            in if \<not> configured then s1\<lparr>cu_latched := True\<rparr>
               else if \<not> running then s1
               else (case evaluate_catch_up z parse isoformat now' ios jobs s1 of
                       (s2, unresolved) \<Rightarrow>
                         if unresolved then s2 else s2\<lparr>cu_latched := True, cu_done := {}\<rparr>)))"

subsection \<open>The backfill\<close>

text \<open>
  What a backfill meets before each launch: shutdown while it waits for the job to drain, the job as it
  is configured by then, the gates.
\<close>

record backfill_io =
  bi_stopping :: bool
  bi_live :: "JobConfig option"
  bi_allows :: bool
  bi_paused :: bool

datatype backfill_end = Dropped | Closed

definition still_wanted :: "JobConfig option \<Rightarrow> bool" where
  "still_wanted live =
     (case live of
        None \<Rightarrow> False
      | Some job \<Rightarrow> jc_on_missed job \<noteq> SkipMissed \<and> jc_enabled job \<and> is_crontab (jc_schedule job))"

text \<open>The launches of one cycle, and whether its checkpoint is closed; \<open>final\<close> is the drain at the end.\<close>

fun backfill_loop :: "nat \<Rightarrow> (nat \<Rightarrow> backfill_io) \<Rightarrow> bool \<Rightarrow> JobConfig list \<times> backfill_end" where
  "backfill_loop 0 ios final_stop = ([], if final_stop then Dropped else Closed)"
| "backfill_loop (Suc n) ios final_stop =
     (let io = ios 0
      in if bi_stopping io then ([], Dropped)
         else if \<not> still_wanted (bi_live io) then ([], Dropped)
         else if \<not> bi_allows io then ([], Dropped)
         else if bi_paused io then ([], Dropped)
         else (case backfill_loop n (\<lambda>i. ios (Suc i)) final_stop of
                 (launched, e) \<Rightarrow> (the (bi_live io) # launched, e)))"

definition run_catch_up ::
  "tzinfo \<Rightarrow> (string \<Rightarrow> int option) \<Rightarrow> (int \<Rightarrow> string) \<Rightarrow> backfill_io \<Rightarrow> catchup_reads \<Rightarrow> (nat \<Rightarrow> backfill_io) \<Rightarrow> bool \<Rightarrow>
   int \<Rightarrow> JobConfig list \<times> backfill_end" where
  "run_catch_up z parse isoformat jitter reads ios final_stop now =
     (if bi_stopping jitter then ([], Dropped)
      else if \<not> still_wanted (bi_live jitter) then ([], Dropped)
      else if \<not> bi_allows jitter then ([], Dropped)
      else (case missed_occurrences z parse isoformat reads (the (bi_live jitter)) now of
              Inl e \<Rightarrow> ([], Dropped)
            | Inr (count, text) \<Rightarrow> if count = 0 then ([], Closed) else backfill_loop count ios final_stop))"

end
