(* ===== verification/CatchUpProps.thy ===== *)
theory CatchUpProps
  imports CatchUp ScheduleProps
begin

text \<open>
  Properties of catch-up: a job is owed exactly the fires of its schedule that it missed, capped and
  without the paused ones; and the evaluation forfeits nothing.
\<close>

subsection \<open>What is owed\<close>

definition owed :: "JobConfig \<Rightarrow> pause_window option \<Rightarrow> int \<Rightarrow> int \<Rightarrow> int set" where
  "owed job window after now =
     {f \<in> job_fires job. after < f \<and> f \<le> now \<and> (case window of None \<Rightarrow> True | Some w \<Rightarrow> \<not> in_pause_window f w)}"

lemma finite_owed: "finite (owed job window after now)"
  by (rule finite_subset [of _ "{after<..now}"]) (auto simp: owed_def)

definition launches_for :: "JobConfig \<Rightarrow> nat \<Rightarrow> nat" where
  "launches_for job n = min (if jc_on_missed job = RunOnce then 1 else MAX_CATCHUP_OCCURRENCES) n"

text \<open>A slot inside the pause window moves the walk to the end of the window, and nothing owed is passed.\<close>

lemma owed_jump:
  assumes "\<forall>f \<in> job_fires job. a < f \<longrightarrow> b \<le> f" and "a < b" and "in_pause_window b w"
  shows "owed job (Some w) a now = owed job None (snd w - 1) now"
  using assms by (force simp: owed_def in_pause_window_def split: option.splits)

lemma owed_step:
  assumes "b \<in> job_fires job" and "a < b" and "b \<le> now" and "\<forall>f \<in> job_fires job. a < f \<longrightarrow> b \<le> f"
    and "case window of None \<Rightarrow> True | Some w \<Rightarrow> \<not> in_pause_window b w"
  shows "card (owed job window a now) = Suc (card (owed job window b now))"
proof -
  have "owed job window a now = insert b (owed job window b now)" using assms by (force simp: owed_def)
  moreover have "b \<notin> owed job window b now" by (simp add: owed_def)
  ultimately show ?thesis by (simp add: finite_owed)
qed

lemma missed_loop_counts:
  assumes "lawful_job job" and "sane_instant a" and "sane_instant now" and "jc_on_missed job \<noteq> SkipMissed"
    and "count < MAX_CATCHUP_OCCURRENCES" and "jc_on_missed job = RunOnce \<longrightarrow> count = 0"
  shows "missed_loop z job now window count (compute_next_fire z job a) =
    launches_for job (count + card (owed job window a now))"
  using assms(2,5,6)
proof (induction "nat (now - a)" arbitrary: a window count rule: less_induct)
  case less
  have none: "owed job w a now = {}" if "\<And>f. f \<in> job_fires job \<Longrightarrow> a < f \<Longrightarrow> now < f" for w
    using that by (force simp: owed_def)
  have here: "launches_for job (count + 0) = count"
    using less.prems(2,3) by (auto simp: launches_for_def)
  show ?case
  proof (cases "compute_next_fire z job a")
    case None
    then have "owed job window a now = {}"
      using zoned.next_none [OF assms(1) less.prems(1) None] by (intro none) force
    then show ?thesis using None here by simp
  next
    case (Some b)
    note b = zoned.next_least [OF assms(1) less.prems(1) Some]
    have least: "\<forall>f \<in> job_fires job. a < f \<longrightarrow> b \<le> f" "a < b" "b \<in> job_fires job" "sane_instant b" using b by blast+
    show ?thesis
    proof (cases "b > now")
      case True
      then have "owed job window a now = {}" using least(1) by (intro none) force
      then show ?thesis using Some True here by simp
    next
      case ge: False
      show ?thesis
      proof (cases "\<exists>w. window = Some w \<and> in_pause_window b w")
        case True
        then obtain w where w: "window = Some w" "in_pause_window b w" by blast
        let ?u = "snd w - 1"
        have u: "b \<le> ?u" using w(2) by (simp add: in_pause_window_def)
        have eq: "missed_loop z job now window count (compute_next_fire z job a) =
            missed_loop z job now None count (compute_next_fire z job ?u)"
          using Some ge w by simp
        show ?thesis
        proof (cases "?u < now")
          case True
          then have "sane_instant ?u" using least(4) assms(3) u by (simp add: sane_instant_def)
          have "missed_loop z job now None count (compute_next_fire z job ?u) =
              launches_for job (count + card (owed job None ?u now))"
            by (rule less.hyps [OF _ \<open>sane_instant ?u\<close> less.prems(2,3)]) (use u least(2) True in simp)
          then show ?thesis using eq owed_jump [OF least(1,2) w(2)] by (simp add: w(1))
        next
          case False
          then have "owed job None ?u now = {}" by (auto simp: owed_def)
          moreover have "missed_loop z job now None count (compute_next_fire z job ?u) = count"
            using False compute_next_fire_later [of z job ?u]
            by (cases "compute_next_fire z job ?u") auto
          ultimately show ?thesis using eq here owed_jump [OF least(1,2) w(2)] by (simp add: w(1))
        qed
      next
        case False
        then have out: "case window of None \<Rightarrow> True | Some w \<Rightarrow> \<not> in_pause_window b w" by (auto split: option.splits)
        have card: "card (owed job window a now) = Suc (card (owed job window b now))"
          by (rule owed_step [OF least(3,2) _ least(1) out]) (use ge in simp)
        have eq: "missed_loop z job now window count (compute_next_fire z job a) =
            (if jc_on_missed job = RunOnce then 1
             else if count + 1 \<ge> MAX_CATCHUP_OCCURRENCES then count + 1
             else missed_loop z job now window (count + 1) (compute_next_fire z job b))"
          using Some ge out by (auto split: option.splits)
        have "missed_loop z job now window (count + 1) (compute_next_fire z job b) =
            launches_for job (count + 1 + card (owed job window b now))"
          if "jc_on_missed job \<noteq> RunOnce" "\<not> count + 1 \<ge> MAX_CATCHUP_OCCURRENCES"
          by (rule less.hyps [OF _ least(4)]) (use that ge least(2) in auto)
        then show ?thesis unfolding eq card using less.prems(2,3) by (auto simp: launches_for_def)
      qed
    qed
  qed
qed

text \<open>
  C19. A job with catch-up and a zone of its own is owed exactly what it missed, where the transitions of
  that zone are at least four days apart and spring forward, if they do, by exactly one hour on a full
  hour before 23:00 (a job without a zone counts in the offset of the day it is evaluated, see
  \<open>local_job_ignores_transition\<close>): the number of launches is the number of fires
  of its schedule between its reference instant (pulled back to the watermark of an unfinished cycle and,
  behind a pause, to its last real run; pulled up to its starting deadline) and the first evaluation, not
  counting those inside the pause window, which is half open; \<open>run-once\<close> coalesces them into one launch
  and \<open>run-all\<close> caps them at a hundred.
\<close>

theorem owed_exactly_missed:
  assumes "lawful_job job" and "jc_on_missed job \<noteq> SkipMissed" and "sane_instant now"
    and "owed_since parse isoformat reads = Inr (Some (since, text))"
    and "sane_instant (apply_deadline job now since)"
  shows "missed_occurrences z parse isoformat reads job now =
    Inr (min (if jc_on_missed job = RunOnce then 1 else 100)
           (card {f \<in> job_fires job. apply_deadline job now since < f \<and> f \<le> now \<and>
              (case cr_window reads of None \<Rightarrow> True | Some w \<Rightarrow> \<not> in_pause_window f w)}), text)"
proof -
  have "missed_loop z job now (cr_window reads) 0 (compute_next_fire z job (apply_deadline job now since)) =
      launches_for job (0 + card (owed job (cr_window reads) (apply_deadline job now since) now))"
    by (rule missed_loop_counts [OF assms(1,5,3,2)]) (simp_all add: MAX_CATCHUP_OCCURRENCES_def)
  then show ?thesis
    by (simp add: missed_occurrences_def assms(4) launches_for_def MAX_CATCHUP_OCCURRENCES_def owed_def)
qed

definition cycle_reads :: catchup_reads where
  "cycle_reads = \<lparr>cr_last_run = Inr (Some ''now''), cr_pending = Inr (Some ''then''),
     cr_window = None, cr_completed = Inr None\<rparr>"

definition parse_text :: "string \<Rightarrow> int option" where
  "parse_text t = (if t = ''then'' then Some before_gap else if t = ''now'' then Some wake else None)"

theorem owed_exactly_missed_witness:
  "missed_occurrences (FixedZone 0) parse_text (\<lambda>_. []) cycle_reads night_job wake = Inr (1, Some ''then'') \<and>
   card {f \<in> job_fires night_job. before_gap < f \<and> f \<le> wake} = 1"
proof -
  have c: "jc_on_missed night_job \<noteq> SkipMissed" "jc_on_missed night_job \<noteq> RunOnce" "sane_instant wake"
    "owed_since parse_text (\<lambda>_. []) cycle_reads = Inr (Some (before_gap, Some ''then''))"
    "sane_instant (apply_deadline night_job wake before_gap)" "apply_deadline night_job wake before_gap = before_gap"
    "cr_window cycle_reads = None" by code_simp+
  note t = owed_exactly_missed [OF night_job_lawful c(1,3,4,5), of "FixedZone 0"]
  have m: "missed_occurrences (FixedZone 0) parse_text (\<lambda>_. []) cycle_reads night_job wake = Inr (1, Some ''then'')" by code_simp
  with t have "min 100 (card {f \<in> job_fires night_job. before_gap < f \<and> f \<le> wake}) = 1" by (simp add: c(2,6,7))
  with m show ?thesis by (simp add: min_def split: if_splits)
qed

subsection \<open>Nothing is forfeited\<close>

definition wants_catch_up :: "JobConfig \<Rightarrow> bool" where
  "wants_catch_up job \<longleftrightarrow> jc_on_missed job \<noteq> SkipMissed \<and> jc_enabled job \<and> is_crontab (jc_schedule job)"

text \<open>A pass that could read the ledger as the owner, and one that saw another node own the job.\<close>

definition counted ::
  "tzinfo \<Rightarrow> (string \<Rightarrow> int option) \<Rightarrow> (int \<Rightarrow> string) \<Rightarrow> int \<Rightarrow> catchup_io \<Rightarrow> JobConfig \<Rightarrow> nat \<Rightarrow> bool" where
  "counted z parse isoformat now io job n \<longleftrightarrow> \<not> ci_paused io \<and> ci_allows io \<and>
     (\<exists>text. missed_occurrences z parse isoformat (ci_reads io) job now = Inr (n, text))"

definition owned_elsewhere :: "catchup_io \<Rightarrow> bool" where
  "owned_elsewhere io \<longleftrightarrow> \<not> ci_paused io \<and> \<not> ci_allows io \<and> ci_moved io"

definition resolves ::
  "tzinfo \<Rightarrow> (string \<Rightarrow> int option) \<Rightarrow> (int \<Rightarrow> string) \<Rightarrow> int \<Rightarrow> catchup_io \<Rightarrow> JobConfig \<Rightarrow> bool" where
  "resolves z parse isoformat now io job \<longleftrightarrow>
     \<not> wants_catch_up job \<or> owned_elsewhere io \<or> (\<exists>n. counted z parse isoformat now io job n)"

lemma evaluate_job_cases:
  assumes "evaluate_job z parse isoformat now io name job s = (s', pending)"
  shows "cu_done s' = (if resolves z parse isoformat now io job then insert name (cu_done s) else cu_done s)"
    and "pending \<longleftrightarrow> name \<notin> cu_done s'"
    and "cu_scheduled s' = cu_scheduled s \<or>
      (\<exists>n. n > 0 \<and> name \<notin> cu_done s \<and> wants_catch_up job \<and> counted z parse isoformat now io job n \<and>
         cu_scheduled s' = cu_scheduled s @ [(name, n)])"
    and "name \<notin> cu_done s \<Longrightarrow> name \<in> cu_done s' \<Longrightarrow> wants_catch_up job \<Longrightarrow>
      owned_elsewhere io \<or> counted z parse isoformat now io job 0 \<or> (\<exists>n>0. (name, n) \<in> set (cu_scheduled s'))"
    and "cu_reference s' = cu_reference s" and "cu_latched s' = cu_latched s"
  using assms
  by (auto simp: evaluate_job_def resolves_def wants_catch_up_def owned_elsewhere_def counted_def pin_watermark_def Let_def
      split: if_splits sum.splits option.splits) (metis less_irrefl)

text \<open>What holds between the attempts: \<open>seen\<close> are the answers of the attempts that had a running store.\<close>

definition catch_up_inv ::
  "tzinfo \<Rightarrow> (string \<Rightarrow> int option) \<Rightarrow> (int \<Rightarrow> string) \<Rightarrow> int \<Rightarrow> JobConfig dict \<Rightarrow> (string \<Rightarrow> catchup_io) set \<Rightarrow>
   string set \<Rightarrow> (string \<times> nat) list \<Rightarrow> bool" where
  "catch_up_inv z parse isoformat first jobs seen finished launched \<longleftrightarrow>
     distinct (map fst launched) \<and> set (map fst launched) \<subseteq> finished \<and>
     (\<forall>(name, n) \<in> set launched. n > 0 \<and>
        (\<exists>job ios. dict_get jobs name = Some job \<and> ios \<in> seen \<and> counted z parse isoformat first (ios name) job n)) \<and>
     (\<forall>name job. dict_get jobs name = Some job \<and> name \<in> finished \<and> wants_catch_up job \<longrightarrow>
        (\<exists>n. (name, n) \<in> set launched) \<or>
        (\<exists>ios \<in> seen. owned_elsewhere (ios name) \<or> counted z parse isoformat first (ios name) job 0))"

lemma catch_up_inv_step:
  assumes "catch_up_inv z parse isoformat first jobs seen (cu_done s) (cu_scheduled s)" and "ios \<in> seen"
    and "dict_get jobs name = Some job"
    and "evaluate_job z parse isoformat first (ios name) name job s = (s', pending)"
  shows "catch_up_inv z parse isoformat first jobs seen (cu_done s') (cu_scheduled s')"
proof -
  note e = evaluate_job_cases [OF assms(4)]
  have grow: "cu_done s \<subseteq> cu_done s'" "cu_done s' \<subseteq> insert name (cu_done s)" using e(1) by auto
  have d: "distinct (map fst (cu_scheduled s'))" "set (map fst (cu_scheduled s')) \<subseteq> cu_done s'"
  proof -
    have old: "distinct (map fst (cu_scheduled s))" "set (map fst (cu_scheduled s)) \<subseteq> cu_done s"
      using assms(1) unfolding catch_up_inv_def by blast+
    have "distinct (map fst (cu_scheduled s')) \<and> set (map fst (cu_scheduled s')) \<subseteq> cu_done s'"
      using e(3)
    proof (elim disjE exE conjE)
      fix n
      assume n: "name \<notin> cu_done s" "counted z parse isoformat first (ios name) job n"
        and eq: "cu_scheduled s' = cu_scheduled s @ [(name, n)]"
      have "resolves z parse isoformat first (ios name) job" using n(2) unfolding resolves_def by blast
      then have "cu_done s' = insert name (cu_done s)" using e(1) by simp
      with old n(1) eq show ?thesis by auto
    qed (use old grow(1) in auto)
    then show "distinct (map fst (cu_scheduled s'))" "set (map fst (cu_scheduled s')) \<subseteq> cu_done s'" by blast+
  qed
  have c: "\<forall>(name, n) \<in> set (cu_scheduled s'). n > 0 \<and>
      (\<exists>job ios. dict_get jobs name = Some job \<and> ios \<in> seen \<and> counted z parse isoformat first (ios name) job n)"
    using assms(1-3) e(3) unfolding catch_up_inv_def by fastforce
  have "(\<exists>n. (m, n) \<in> set (cu_scheduled s')) \<or>
      (\<exists>ios \<in> seen. owned_elsewhere (ios m) \<or> counted z parse isoformat first (ios m) j 0)"
    if m: "dict_get jobs m = Some j" "m \<in> cu_done s'" "wants_catch_up j" for m j
  proof (cases "m \<in> cu_done s")
    case True
    then have "(\<exists>n. (m, n) \<in> set (cu_scheduled s)) \<or>
        (\<exists>ios \<in> seen. owned_elsewhere (ios m) \<or> counted z parse isoformat first (ios m) j 0)"
      using assms(1) m(1,3) unfolding catch_up_inv_def by blast
    then show ?thesis using e(3) by auto
  next
    case False
    then have "m = name" using grow(2) m(2) by blast
    with False m assms(2,3) e(4) show ?thesis by auto
  qed
  with d c show ?thesis unfolding catch_up_inv_def by blast
qed

lemma evaluate_catch_up_spec:
  assumes "evaluate_catch_up z parse isoformat first ios jobs' s = (s', unresolved)" and "set jobs' \<subseteq> set jobs" and "wf_dict jobs"
    and "catch_up_inv z parse isoformat first jobs seen (cu_done s) (cu_scheduled s)" and "ios \<in> seen"
  shows "catch_up_inv z parse isoformat first jobs seen (cu_done s') (cu_scheduled s') \<and> cu_done s \<subseteq> cu_done s' \<and>
    (\<not> unresolved \<longrightarrow> set (dict_keys jobs') \<subseteq> cu_done s') \<and> cu_reference s' = cu_reference s \<and> cu_latched s' = cu_latched s"
  using assms(1,2,4)
proof (induction jobs' arbitrary: s unresolved)
  case (Cons nj jobs')
  obtain name job where nj: "nj = (name, job)" by (cases nj)
  obtain s1 p where e: "evaluate_job z parse isoformat first (ios name) name job s = (s1, p)" by fastforce
  obtain r where r: "evaluate_catch_up z parse isoformat first ios jobs' s1 = (s', r)" "unresolved = (p \<or> r)"
    using Cons.prems(1) e by (auto simp: nj split: prod.splits)
  have "dict_get jobs name = Some job" using Cons.prems(2) assms(3) by (simp add: nj)
  note i = catch_up_inv_step [OF Cons.prems(3) assms(5) this e]
  note ej = evaluate_job_cases [OF e]
  have "cu_done s \<subseteq> cu_done s1" using ej(1) by auto
  with Cons.IH [OF r(1) _ i] Cons.prems(2) ej(2,5,6) show ?case by (auto simp: nj r(2))
qed simp

text \<open>
  The attempts of a process, each with its clock, whether the store runs, and the answers of the
  pass; the jobs stay.
\<close>

definition attempts ::
  "tzinfo \<Rightarrow> (string \<Rightarrow> int option) \<Rightarrow> (int \<Rightarrow> string) \<Rightarrow> JobConfig dict \<Rightarrow>
   (int \<times> bool \<times> (string \<Rightarrow> catchup_io)) list \<Rightarrow> catchup_state" where
  "attempts z parse isoformat jobs atts =
     fold (\<lambda>(now, running, ios). catch_up z parse isoformat True running now ios jobs) atts
       \<lparr>cu_reference = None, cu_latched = False, cu_done = {}, cu_opened = [], cu_scheduled = []\<rparr>"

lemma attempts_inv:
  assumes "wf_dict jobs" and "s = attempts z parse isoformat jobs ((first, running, ios) # atts)"
    and "seen = {ios'. \<exists>now. (now, True, ios') \<in> set ((first, running, ios) # atts)}"
  shows "cu_reference s = Some first \<and>
    (\<exists>finished. catch_up_inv z parse isoformat first jobs seen finished (cu_scheduled s) \<and>
       (if cu_latched s then set (dict_keys jobs) \<subseteq> finished else finished = cu_done s))"
  using assms(2,3)
proof (induction atts arbitrary: s seen rule: rev_induct)
  case Nil
  let ?s0 = "\<lparr>cu_reference = Some first, cu_latched = False, cu_done = {}, cu_opened = [], cu_scheduled = []\<rparr>"
  obtain s1 u where e: "evaluate_catch_up z parse isoformat first ios jobs ?s0 = (s1, u)" by fastforce
  have i: "catch_up_inv z parse isoformat first jobs seen (cu_done ?s0) (cu_scheduled ?s0)" by (simp add: catch_up_inv_def)
  show ?case
  proof (cases running)
    case True
    then have "ios \<in> seen" using Nil.prems(2) by auto
    note spec = evaluate_catch_up_spec [OF e order_refl assms(1) i this]
    have "s = (if u then s1 else s1\<lparr>cu_latched := True, cu_done := {}\<rparr>)"
      using Nil.prems(1) e True by (simp add: attempts_def catch_up_def Let_def)
    then show ?thesis using spec by (intro conjI exI [of _ "cu_done s1"]) simp_all
  next
    case False
    then show ?thesis using Nil.prems(1) i by (auto simp: attempts_def catch_up_def Let_def)
  qed
next
  case (snoc att atts)
  obtain now run ios' where att: "att = (now, run, ios')" by (cases att)
  define s0 where "s0 = attempts z parse isoformat jobs ((first, running, ios) # atts)"
  let ?seen0 = "{ios'. \<exists>now. (now, True, ios') \<in> set ((first, running, ios) # atts)}"
  have s: "s = catch_up z parse isoformat True run now ios' jobs s0"
    using snoc.prems(1) by (simp add: attempts_def s0_def att)
  obtain finished where r: "cu_reference s0 = Some first" and
    f: "catch_up_inv z parse isoformat first jobs ?seen0 finished (cu_scheduled s0)"
      "if cu_latched s0 then set (dict_keys jobs) \<subseteq> finished else finished = cu_done s0"
    using snoc.IH [OF s0_def refl] by blast
  have "?seen0 \<subseteq> seen" using snoc.prems(2) by auto
  then have f': "catch_up_inv z parse isoformat first jobs seen finished (cu_scheduled s0)"
    using f(1) unfolding catch_up_inv_def by blast
  show ?case
  proof (cases "cu_latched s0 \<or> \<not> run")
    case True
    then have "cu_scheduled s = cu_scheduled s0" "cu_latched s = cu_latched s0" "cu_done s = cu_done s0" "cu_reference s = Some first"
      using s r by (auto simp: catch_up_def Let_def)
    then show ?thesis using f' f(2) by auto
  next
    case False
    then have fin: "finished = cu_done s0" using f(2) by simp
    have s00: "s0\<lparr>cu_reference := Some first\<rparr> = s0" using r by simp
    obtain s1 u where e: "evaluate_catch_up z parse isoformat first ios' jobs s0 = (s1, u)" by fastforce
    have "ios' \<in> seen" using snoc.prems(2) False by (auto simp: att)
    from evaluate_catch_up_spec [OF e order_refl assms(1) f' [unfolded fin] this] False show ?thesis
      using s r e s00 by (auto simp: catch_up_def Let_def)
  qed
qed

text \<open>
  C20. Catch-up forfeits nothing and repeats nothing.  However often the evaluation has to be deferred
  (store down, ledger unreadable, no owner elected, job paused), each job is given at most one backfill,
  counted as of the first attempt; and when the process stops evaluating, every job that wants catch-up
  has one, or was seen by its owner to be owed nothing, or was positively owned by another node.
\<close>

theorem catch_up_forfeits_nothing:
  assumes "wf_dict jobs" and "s = attempts z parse isoformat jobs ((first, running, ios) # atts)"
    and "seen = {ios'. \<exists>now. (now, True, ios') \<in> set ((first, running, ios) # atts)}"
  shows "distinct (map fst (cu_scheduled s)) \<and>
    (\<forall>name n. (name, n) \<in> set (cu_scheduled s) \<longrightarrow> n > 0 \<and>
       (\<exists>job. \<exists>ios' \<in> seen. dict_get jobs name = Some job \<and> counted z parse isoformat first (ios' name) job n)) \<and>
    (cu_latched s \<longrightarrow> (\<forall>name job. dict_get jobs name = Some job \<and> wants_catch_up job \<longrightarrow>
       (\<exists>n. (name, n) \<in> set (cu_scheduled s)) \<or>
       (\<exists>ios' \<in> seen. owned_elsewhere (ios' name) \<or> counted z parse isoformat first (ios' name) job 0)))"
proof -
  obtain finished where f: "catch_up_inv z parse isoformat first jobs seen finished (cu_scheduled s)"
    "cu_latched s \<longrightarrow> set (dict_keys jobs) \<subseteq> finished"
    using attempts_inv [OF assms] by (meson option.distinct)
  have "name \<in> finished" if "cu_latched s" "dict_get jobs name = Some job" for name job
    using f(2) that dict_get_None_iff [of jobs name] by auto
  with f(1) show ?thesis unfolding catch_up_inv_def by blast
qed

theorem catch_up_forfeits_nothing_witness:
  "cu_scheduled (attempts (FixedZone 0) parse_text (\<lambda>_. []) [(''night'', night_job)]
     [(wake, False, \<lambda>_. \<lparr>ci_paused = False, ci_allows = True, ci_moved = False, ci_reads = cycle_reads\<rparr>),
      (wake + 30, True, \<lambda>_. \<lparr>ci_paused = False, ci_allows = True, ci_moved = False, ci_reads = cycle_reads\<rparr>)]) =
     [(''night'', 1)]"
proof -
  let ?io = "\<lambda>_. \<lparr>ci_paused = False, ci_allows = True, ci_moved = False, ci_reads = cycle_reads\<rparr>"
  let ?s = "attempts (FixedZone 0) parse_text (\<lambda>_. []) [(''night'', night_job)] [(wake, False, ?io), (wake + 30, True, ?io)]"
  have "wf_dict [(''night'', night_job)]" by simp
  from catch_up_forfeits_nothing [OF this refl refl, of "FixedZone 0" parse_text "\<lambda>_. []" wake False ?io "[(wake + 30, True, ?io)]"]
  have "distinct (map fst (cu_scheduled ?s))" by blast
  moreover have "cu_scheduled ?s = [(''night'', 1)]" by code_simp
  ultimately show ?thesis by simp
qed

end
