(* ===== verification/JsonValues.thy ===== *)
theory JsonValues
  imports Prelude
begin

text \<open>
  JSON values as the store sees them: the portability gate of \<open>_json.py\<close> and Python's comparison
  operators on parsed values.  Comparing with \<open>>\<close> raises \<open>TypeError\<close> on values that have no common
  order; that outcome is \<open>None\<close>.
\<close>

text \<open>The body of a stored document or record.\<close>

type_synonym body = "json dict"

subsection \<open>The portability gate\<close>

definition INT_MIN :: int where
  "INT_MIN = - (2 ^ 63)"

definition INT_MAX :: int where
  "INT_MAX = 2 ^ 64 - 1"

definition MAX_DEPTH :: nat where
  "MAX_DEPTH = 128"

text \<open>
  Whether \<open>ensure_portable(obj, depth)\<close> returns: floats of the model are finite, strings of the
  model have no surrogates and keys are strings, so integers and nesting are what it can refuse.
\<close>

fun ensure_portable :: "json \<Rightarrow> nat \<Rightarrow> bool" where
  "ensure_portable JNull d = True"
| "ensure_portable (JBool b) d = True"
| "ensure_portable (JNum r) d = True"
| "ensure_portable (JInt i) d = (\<not> (i < INT_MIN \<or> i > INT_MAX))"
| "ensure_portable (JString s) d = True"
| "ensure_portable (JObject kvs) d =
     (if d \<ge> MAX_DEPTH then False else list_all (\<lambda>kv. ensure_portable (snd kv) (d + 1)) kvs)"
| "ensure_portable (JArray vs) d =
     (if d \<ge> MAX_DEPTH then False else list_all (\<lambda>v. ensure_portable v (d + 1)) vs)"

lemma ensure_portable_shallower:
  "ensure_portable v d \<Longrightarrow> d' \<le> d \<Longrightarrow> ensure_portable v d'"
proof (induction v d arbitrary: d' rule: ensure_portable.induct)
  case (6 kvs d)
  then show ?case by (fastforce simp: list_all_iff split: if_splits)
next
  case (7 vs d)
  then show ?case by (fastforce simp: list_all_iff split: if_splits)
qed auto

subsection \<open>Equality and order\<close>

definition num_of :: "json \<Rightarrow> real option" where
  "num_of v =
     (case v of
        JBool b \<Rightarrow> Some (if b then 1 else 0)
      | JInt i \<Rightarrow> Some (of_int i)
      | JNum r \<Rightarrow> Some r
      | _ \<Rightarrow> None)"

text \<open>\<open>==\<close>: numbers and booleans by value, lists item by item, dicts as finite maps.\<close>

fun py_eq :: "json \<Rightarrow> json \<Rightarrow> bool" where
  "py_eq JNull w = (w = JNull)"
| "py_eq (JBool b) w = (num_of w = num_of (JBool b))"
| "py_eq (JInt i) w = (num_of w = num_of (JInt i))"
| "py_eq (JNum r) w = (num_of w = num_of (JNum r))"
| "py_eq (JString s) w = (w = JString s)"
| "py_eq (JArray vs) w =
     (case w of JArray ws \<Rightarrow> list_all2 py_eq vs ws | _ \<Rightarrow> False)"
| "py_eq (JObject d) w =
     (case w of
        JObject e \<Rightarrow>
          length d = length e \<and>
          list_all (\<lambda>kv. case map_of e (fst kv) of None \<Rightarrow> False | Some v' \<Rightarrow> py_eq (snd kv) v') d
      | _ \<Rightarrow> False)"

text \<open>\<open>>\<close>: numbers, strings, and lists by their first difference.\<close>

function (sequential) py_gt :: "json \<Rightarrow> json \<Rightarrow> bool option"
  and list_gt :: "json list \<Rightarrow> json list \<Rightarrow> bool option"
where
  "py_gt (JString s) (JString t) = Some (s > t)"
| "py_gt (JArray vs) (JArray ws) = list_gt vs ws"
| "py_gt v w =
     (case (num_of v, num_of w) of (Some a, Some b) \<Rightarrow> Some (a > b) | _ \<Rightarrow> None)"
| "list_gt [] ws = Some False"
| "list_gt (v # vs) [] = Some True"
| "list_gt (v # vs) (w # ws) = (if py_eq v w then list_gt vs ws else py_gt v w)"
  by pat_completeness auto
termination
  by (relation "measure (\<lambda>x. case x of Inl (v, w) \<Rightarrow> size v | Inr (vs, ws) \<Rightarrow> size_list size vs)") auto

lemma num_py_gt: "num_of v = Some a \<Longrightarrow> num_of w = Some b \<Longrightarrow> py_gt v w = Some (a > b)"
  by (cases v; cases w) (auto simp: num_of_def)

lemma num_py_eq: "num_of v = Some a \<Longrightarrow> py_eq v w \<longleftrightarrow> num_of w = Some a"
  by (cases v) (auto simp: num_of_def)

lemma py_eq_refl: "py_eq v v" if "\<And>d. JObject d \<noteq> v" "\<And>d. JArray d \<noteq> v"
  using that by (cases v) auto

end
