(* ===== verification/Retry.thy ===== *)
theory Retry
  imports Schedule JsonValues
begin

text \<open>
  Retries of failed jobs (\<open>cron.py\<close>, class \<open>JobRetryState\<close> of \<open>job.py\<close>): launching, the ladder of delays,
  its durable records, and the claim by which another node resumes a ladder on a shared store.
  Everything is about one job.  Instants are microseconds, delays seconds; \<open>parse\<close> is
  \<open>fromisoformat\<close> with its correction to UTC, \<open>isoformat\<close> that method, and \<open>job_digest\<close> the fingerprint of
  a job.  An entry of \<open>retry_state\<close> and the instances that captured it share one object; a running
  instance is \<open>attached\<close> while the object it captured is the entry.
\<close>

subsection \<open>The ladder of delays\<close>

datatype retry_task = Asleep real nat | Ended

record JobRetryState =
  rt_multiplier :: real
  rt_max_delay :: real
  rt_delay :: real
  rt_count :: nat
  rt_task :: "retry_task option"
  rt_next_at :: "int option"
  rt_scheduled_delay :: "real option"
  rt_armed_at :: "int option"

definition new_retry_state :: "retry_config \<Rightarrow> JobRetryState" where
  "new_retry_state retry = \<lparr>rt_multiplier = rc_backoff retry, rt_max_delay = rc_maximum_delay retry,
     rt_delay = rc_initial_delay retry, rt_count = 0, rt_task = None, rt_next_at = None,
     rt_scheduled_delay = None, rt_armed_at = None\<rparr>"

definition next_delay :: "JobRetryState \<Rightarrow> real \<times> JobRetryState" where
  "next_delay s =
     (rt_delay s, s\<lparr>rt_delay := min (rt_delay s * rt_multiplier s) (rt_max_delay s), rt_count := rt_count s + 1\<rparr>)"

primrec replay_delays :: "nat \<Rightarrow> JobRetryState \<Rightarrow> JobRetryState" where
  "replay_delays 0 s = s"
| "replay_delays (Suc n) s = replay_delays n (snd (next_delay s))"

text \<open>\<open>timedelta(seconds=\<dots>)\<close> rounds to microseconds, ties to even.\<close>

definition micros :: "real \<Rightarrow> int" where
  "micros delay =
     (let x = delay * 1000000; f = \<lfloor>x\<rfloor>
      in if x - of_int f < 1 / 2 then f
         else if x - of_int f > 1 / 2 then f + 1
         else if even f then f else f + 1)"

definition seconds_of :: "int \<Rightarrow> real" where
  "seconds_of us = of_int us / 1000000"

subsection \<open>Launching\<close>

record run_instance =
  ri_attached :: bool
  ri_replaced :: bool

record retry_node =
  rn_host :: string
  rn_state :: "JobRetryState option"
  rn_running :: "run_instance list"
  rn_last_completed :: "int option"

definition detach :: "retry_node \<Rightarrow> retry_node" where
  "detach nd = nd\<lparr>rn_state := None, rn_running := map (ri_attached_update (\<lambda>_. False)) (rn_running nd)\<rparr>"

text \<open>Ladder records, as they are written to the retry stream of the job.\<close>

definition settled_record :: "(int \<Rightarrow> string) \<Rightarrow> string \<Rightarrow> string \<Rightarrow> int option \<Rightarrow> int \<Rightarrow> body" where
  "settled_record isoformat host reason attempt now =
     [(''kind'', JString ''settled''), (''reason'', JString reason), (''host'', JString host),
      (''at'', JString (isoformat now))] @ (case attempt of None \<Rightarrow> [] | Some n \<Rightarrow> [(''attempt'', JInt n)])"

definition pending_record ::
  "(int \<Rightarrow> string) \<Rightarrow> (JobConfig \<Rightarrow> string) \<Rightarrow> string \<Rightarrow> JobConfig \<Rightarrow> int \<Rightarrow> int \<Rightarrow> int \<Rightarrow> body" where
  "pending_record isoformat job_digest host job attempt not_before now =
     [(''kind'', JString ''pending''), (''attempt'', JInt attempt), (''notBefore'', JString (isoformat not_before)),
      (''jobDigest'', JString (job_digest job)), (''host'', JString host), (''at'', JString (isoformat now))]"

definition handoff_record ::
  "(int \<Rightarrow> string) \<Rightarrow> (JobConfig \<Rightarrow> string) \<Rightarrow> string \<Rightarrow> JobConfig \<Rightarrow> int \<Rightarrow> int option \<Rightarrow> int \<Rightarrow> body" where
  "handoff_record isoformat job_digest host job attempt armed_at now =
     [(''kind'', JString ''handoff''), (''attempt'', JInt attempt), (''notBefore'', JString (isoformat now)),
      (''jobDigest'', JString (job_digest job)), (''fromHost'', JString host), (''at'', JString (isoformat now)),
      (''armedAt'', JString (isoformat (case armed_at of Some t \<Rightarrow> t | None \<Rightarrow> now)))]"

definition RETRY_STREAM_KEEP :: nat where
  "RETRY_STREAM_KEEP = 8"

text \<open>
  The retry stream, newest record first.  An append lands, fails, or is given up on and lands anyway.
  Pending and settled records are queued (\<open>_queue_retry_write\<close>) and the node goes on: here one lands with
  the change of state that queued it or is \<open>Failed\<close> there, and \<open>RetryLadder\<close> lets it land at a later step.
\<close>

datatype landing = Landed | Failed | LandedLate

definition append_retry_record :: "landing \<Rightarrow> body \<Rightarrow> body list \<Rightarrow> body list" where
  "append_retry_record landing record stream =
     (if landing = Failed then stream else take RETRY_STREAM_KEEP (record # stream))"

definition persist_retry_settled ::
  "(int \<Rightarrow> string) \<Rightarrow> bool \<Rightarrow> landing \<Rightarrow> string \<Rightarrow> string \<Rightarrow> int option \<Rightarrow> int \<Rightarrow> body list \<Rightarrow> body list" where
  "persist_retry_settled isoformat backend landing host reason attempt now stream =
     (if backend then append_retry_record landing (settled_record isoformat host reason attempt now) stream else stream)"

definition cancel_job_retries ::
  "(int \<Rightarrow> string) \<Rightarrow> bool \<Rightarrow> landing \<Rightarrow> string option \<Rightarrow> int \<Rightarrow> retry_node \<Rightarrow> body list \<Rightarrow> retry_node \<times> body list" where
  "cancel_job_retries isoformat backend landing settle now nd stream =
     (case rn_state nd of
        None \<Rightarrow> (nd, stream)
      | Some s \<Rightarrow>
          (detach nd,
           case settle of
             Some reason \<Rightarrow>
               if rt_count s > 0
               then persist_retry_settled isoformat backend landing (rn_host nd) reason (Some (int (rt_count s))) now stream
               else stream
           | None \<Rightarrow> stream))"

text \<open>\<open>slot\<close> is the answer of \<open>_claim_cluster_slot\<close>.\<close>

definition maybe_launch_job :: "JobConfig \<Rightarrow> bool \<Rightarrow> bool \<Rightarrow> retry_node \<Rightarrow> retry_node \<times> bool" where
  "maybe_launch_job job slot with_retries nd =
     (if rn_running nd \<noteq> [] \<and> jc_concurrency job = Forbid then (nd, False)
      else (let nd1 = (if jc_concurrency job = Replace
                       then nd\<lparr>rn_running := map (ri_replaced_update (\<lambda>_. True)) (rn_running nd)\<rparr> else nd)
            in if jc_cluster_scope job \<and> \<not> slot then (nd1, False)
               else (nd1\<lparr>rn_running := rn_running nd1 @
                       [\<lparr>ri_attached = with_retries \<and> rn_state nd1 \<noteq> None, ri_replaced = False\<rparr>]\<rparr>, True)))"

definition launch_scheduled_job ::
  "(int \<Rightarrow> string) \<Rightarrow> bool \<Rightarrow> landing \<Rightarrow> bool \<Rightarrow> bool \<Rightarrow> bool \<Rightarrow> int \<Rightarrow> JobConfig \<Rightarrow> retry_node \<Rightarrow> body list \<Rightarrow>
   retry_node \<times> body list \<times> bool" where
  "launch_scheduled_job isoformat backend landing paused depends_ok slot now job nd stream =
     (if paused \<and> is_crontab (jc_schedule job) then (nd, stream, False)
      else if \<not> depends_ok then (nd, stream, False)
      else (case cancel_job_retries isoformat backend landing (Some ''superseded'') now nd stream of
              (nd1, stream1) \<Rightarrow>
                (let nd2 = (if rc_maximum (jc_retry job) \<noteq> 0
                            then nd1\<lparr>rn_state := Some (new_retry_state (jc_retry job))\<rparr> else nd1)
                 in case maybe_launch_job job slot True nd2 of (nd3, launched) \<Rightarrow> (nd3, stream1, launched))))"

subsection \<open>Arming\<close>

text \<open>The head of \<open>schedule_retry_job\<close>: the pending record, and the fields that show the armed retry.\<close>

definition arm_retry ::
  "(int \<Rightarrow> string) \<Rightarrow> (JobConfig \<Rightarrow> string) \<Rightarrow> bool \<Rightarrow> landing \<Rightarrow> JobConfig option \<Rightarrow> int \<Rightarrow> real \<Rightarrow> nat \<Rightarrow>
   retry_node \<Rightarrow> body list \<Rightarrow> retry_node \<times> body list" where
  "arm_retry isoformat job_digest backend landing pending_job now delay retry_num nd stream =
     (case pending_job of
        None \<Rightarrow> (nd, stream)
      | Some job \<Rightarrow>
          (nd\<lparr>rn_state := map_option (\<lambda>s. s\<lparr>rt_next_at := Some (now + micros delay), rt_scheduled_delay := Some delay,
                                         rt_armed_at := Some now\<rparr>) (rn_state nd)\<rparr>,
           if backend
           then append_retry_record landing
                  (pending_record isoformat job_digest (rn_host nd) job (int retry_num) (now + micros delay) now) stream
           else stream))"

definition start_retry_task ::
  "(int \<Rightarrow> string) \<Rightarrow> (JobConfig \<Rightarrow> string) \<Rightarrow> bool \<Rightarrow> landing \<Rightarrow> JobConfig option \<Rightarrow> int \<Rightarrow> real \<Rightarrow> nat \<Rightarrow>
   JobRetryState \<Rightarrow> retry_node \<Rightarrow> body list \<Rightarrow> retry_node \<times> body list" where
  "start_retry_task isoformat job_digest backend landing pending_job now delay retry_num s nd stream =
     arm_retry isoformat job_digest backend landing pending_job now delay retry_num
       (nd\<lparr>rn_state := Some (s\<lparr>rt_task := Some (Asleep delay retry_num)\<rparr>)\<rparr>) stream"

text \<open>
  The failure of an instance; its captured state is the node's entry when it is attached, and is
  cancelled or absent otherwise.  The flag says whether the failure is permanent.
\<close>

definition handle_job_failure ::
  "(int \<Rightarrow> string) \<Rightarrow> (JobConfig \<Rightarrow> string) \<Rightarrow> bool \<Rightarrow> landing \<Rightarrow> bool \<Rightarrow> JobConfig option \<Rightarrow> int \<Rightarrow> JobConfig \<Rightarrow> bool \<Rightarrow>
   retry_node \<Rightarrow> body list \<Rightarrow> retry_node \<times> body list \<times> bool" where
  "handle_job_failure isoformat job_digest backend landing stopping pending_job now job attached nd stream =
     (if stopping then (nd, stream, False)
      else (case rn_state nd of
              Some s \<Rightarrow>
                if \<not> attached then (nd, stream, True)
                else if int (rt_count s) \<ge> rc_maximum (jc_retry job) \<and> rc_maximum (jc_retry job) \<noteq> -1
                then (case cancel_job_retries isoformat backend landing (Some ''exhausted'') now nd stream of
                        (nd1, stream1) \<Rightarrow> (nd1, stream1, True))
                else (case next_delay s of
                        (delay, s1) \<Rightarrow>
                          (case start_retry_task isoformat job_digest backend landing pending_job now delay (rt_count s1) s1 nd stream of
                             (nd1, stream1) \<Rightarrow> (nd1, stream1, False)))
            | None \<Rightarrow> (nd, stream, True)))"

definition handle_job_success ::
  "(int \<Rightarrow> string) \<Rightarrow> bool \<Rightarrow> landing \<Rightarrow> int \<Rightarrow> retry_node \<Rightarrow> body list \<Rightarrow> retry_node \<times> body list" where
  "handle_job_success isoformat backend landing now nd stream =
     cancel_job_retries isoformat backend landing (Some ''succeeded'') now nd stream"

datatype run_end = Succeeded | FailedRun | CancelledRun

text \<open>The end of the instance at index \<open>i\<close>, with its completion handler.\<close>

definition handle_finished_job ::
  "(int \<Rightarrow> string) \<Rightarrow> (JobConfig \<Rightarrow> string) \<Rightarrow> bool \<Rightarrow> landing \<Rightarrow> bool \<Rightarrow> JobConfig option \<Rightarrow> int \<Rightarrow> JobConfig \<Rightarrow> nat \<Rightarrow>
   run_end \<Rightarrow> retry_node \<Rightarrow> body list \<Rightarrow> retry_node \<times> body list" where
  "handle_finished_job isoformat job_digest backend landing stopping pending_job now job i e nd stream =
     (let r = rn_running nd ! i;
          nd1 = nd\<lparr>rn_running := take i (rn_running nd) @ drop (Suc i) (rn_running nd)\<rparr>
      in if ri_replaced r then (nd1, stream)
         else (let nd2 = nd1\<lparr>rn_last_completed := Some now\<rparr>
               in case e of
                    CancelledRun \<Rightarrow> cancel_job_retries isoformat backend landing (Some ''cancelled'') now nd2 stream
                  | FailedRun \<Rightarrow>
                      (case handle_job_failure isoformat job_digest backend landing stopping pending_job now job (ri_attached r) nd2 stream of
                         (nd3, stream3, _) \<Rightarrow> (nd3, stream3))
                  | Succeeded \<Rightarrow> handle_job_success isoformat backend landing now nd2 stream))"

end
