(* ===== verification/RetryClaim.thy ===== *)
theory RetryClaim
  imports Retry CatchUp
begin

text \<open>
  The durable half of the retries: what a due retry does, how another node claims a ladder, and the
  re-arming at a restart.  The store answers as arguments: \<open>landing\<close> for appends, booleans for reads that
  answered, \<open>StoreTrouble\<close> for reads that did not.
\<close>

subsection \<open>Settings\<close>

record store_config =
  sc_backend :: bool
  sc_configured :: bool
  sc_fail_closed :: bool
  sc_shared :: bool
  sc_elect :: bool
  sc_manager :: bool

definition retry_resume_active :: "store_config \<Rightarrow> bool" where
  "retry_resume_active cfg \<longleftrightarrow> sc_backend cfg \<and> sc_shared cfg \<and> sc_elect cfg \<and> sc_manager cfg"

definition retry_cross_node_eligible :: "store_config \<Rightarrow> JobConfig \<Rightarrow> bool" where
  "retry_cross_node_eligible cfg job \<longleftrightarrow>
     retry_resume_active cfg \<and> jc_policy job \<noteq> EveryNode \<and> is_crontab (jc_schedule job)"

subsection \<open>Consuming a due retry\<close>

definition retry_consume_ok ::
  "(int \<Rightarrow> string) \<Rightarrow> store_config \<Rightarrow> landing \<Rightarrow> string \<Rightarrow> nat \<Rightarrow> int \<Rightarrow> body list \<Rightarrow> bool \<times> body list" where
  "retry_consume_ok isoformat cfg landing host retry_num now stream =
     (if \<not> sc_backend cfg then (\<not> (sc_configured cfg \<and> sc_fail_closed cfg), stream)
      else (landing = Landed \<or> \<not> (sc_configured cfg \<and> sc_fail_closed cfg),
            append_retry_record landing (settled_record isoformat host ''launched'' (Some (int retry_num)) now) stream))"

datatype decision = Launch | Defer | Abort

text \<open>
  \<open>acquired\<close> says whether the claim lease was granted, \<open>observed\<close> whose lease a read found when it was
  not, \<open>read\<close> whether the listing answered.
\<close>

definition foreign_record :: "string \<Rightarrow> body list \<Rightarrow> bool" where
  "foreign_record host recs =
     (case recs of
        [] \<Rightarrow> False
      | rec # _ \<Rightarrow> (case dict_get rec ''host'' of Some (JString h) \<Rightarrow> h \<noteq> host | _ \<Rightarrow> False))"

definition retry_consume_decision ::
  "(int \<Rightarrow> string) \<Rightarrow> store_config \<Rightarrow> JobConfig \<Rightarrow> string \<Rightarrow> bool \<Rightarrow> string option \<Rightarrow> bool \<Rightarrow> landing \<Rightarrow> string \<Rightarrow>
   nat \<Rightarrow> int \<Rightarrow> body list \<Rightarrow> decision \<times> body list" where
  "retry_consume_decision isoformat cfg job slot_holder acquired observed read landing host retry_num now stream =
     (let consume = (case retry_consume_ok isoformat cfg landing host retry_num now stream of
                       (ok, stream1) \<Rightarrow> (if ok then Launch else Defer, stream1))
      in if \<not> retry_cross_node_eligible cfg job then consume
         else if \<not> acquired \<and> (case observed of Some holder \<Rightarrow> holder \<noteq> slot_holder | None \<Rightarrow> sc_fail_closed cfg)
         then (Defer, stream)
         else if \<not> read \<and> sc_fail_closed cfg then (Defer, stream)
         else if foreign_record host (if read then take 1 stream else []) then (Abort, stream)
         else consume)"

subsection \<open>A due retry\<close>

definition RETRY_GATE_RECHECK_FLOOR :: real where
  "RETRY_GATE_RECHECK_FLOOR = 1"

definition abandon_retry ::
  "(int \<Rightarrow> string) \<Rightarrow> (JobConfig \<Rightarrow> string) \<Rightarrow> store_config \<Rightarrow> landing \<Rightarrow> JobConfig \<Rightarrow> nat \<Rightarrow> int \<Rightarrow> retry_node \<Rightarrow>
   body list \<Rightarrow> retry_node \<times> body list" where
  "abandon_retry isoformat job_digest cfg landing job retry_num now nd stream =
     (let nd1 = detach nd;
          armed_at = (case rn_state nd of Some s \<Rightarrow> rt_armed_at s | None \<Rightarrow> None)
      in if retry_cross_node_eligible cfg job
         then (nd1, append_retry_record landing
                      (handoff_record isoformat job_digest (rn_host nd) job (int retry_num) armed_at now) stream)
         else (nd1\<lparr>rn_last_completed := Some now\<rparr>,
               persist_retry_settled isoformat (sc_backend cfg) landing (rn_host nd) ''owner-moved''
                 (Some (int retry_num)) now stream))"

text \<open>What one turn of the loop of \<open>schedule_retry_job\<close> meets.\<close>

record retry_io =
  ro_job :: "JobConfig option"
  ro_paused :: bool
  ro_allows :: bool
  ro_moved :: bool
  ro_stopping :: bool
  ro_acquired :: bool
  ro_observed :: "string option"
  ro_read :: bool
  ro_landing :: landing
  ro_slot :: bool

datatype turn = Wait | Gone | Launched | Denied

definition wait_or_end :: "bool \<Rightarrow> retry_node \<Rightarrow> turn" where
  "wait_or_end stopping nd = (if rn_state nd = None \<or> stopping then Gone else Wait)"

definition end_task :: "retry_node \<Rightarrow> retry_node" where
  "end_task nd = nd\<lparr>rn_state := map_option (rt_task_update (\<lambda>_. Some Ended)) (rn_state nd)\<rparr>"

definition retry_turn ::
  "(int \<Rightarrow> string) \<Rightarrow> (JobConfig \<Rightarrow> string) \<Rightarrow> store_config \<Rightarrow> string \<Rightarrow> retry_io \<Rightarrow> nat \<Rightarrow> int \<Rightarrow> retry_node \<Rightarrow>
   body list \<Rightarrow> retry_node \<times> body list \<times> turn" where
  "retry_turn isoformat job_digest cfg slot_holder io retry_num now nd stream =
     (case ro_job io of
        None \<Rightarrow>
          (nd\<lparr>rn_state := None\<rparr>,
           persist_retry_settled isoformat (sc_backend cfg) (ro_landing io) (rn_host nd) ''job-removed''
             (Some (int retry_num)) now stream, Gone)
      | Some job \<Rightarrow>
          if ro_paused io then (nd, stream, wait_or_end (ro_stopping io) nd)
          else if ro_allows io
          then (case retry_consume_decision isoformat cfg job slot_holder (ro_acquired io) (ro_observed io) (ro_read io)
                       (ro_landing io) (rn_host nd) retry_num now stream of
                  (Launch, stream1) \<Rightarrow>
                    (case maybe_launch_job job (ro_slot io) True (end_task nd) of
                       (nd1, launched) \<Rightarrow> (nd1, stream1, if launched then Launched else Denied))
                | (Abort, stream1) \<Rightarrow> (detach nd, stream1, Gone)
                | (Defer, stream1) \<Rightarrow> (nd, stream1, wait_or_end (ro_stopping io) nd))
          else if ro_moved io
          then (case abandon_retry isoformat job_digest cfg (ro_landing io) job retry_num now nd stream of
                  (nd1, stream1) \<Rightarrow> (nd1, stream1, Gone))
          else (nd, stream, wait_or_end (ro_stopping io) nd))"

definition recheck_delay :: "real \<Rightarrow> real" where
  "recheck_delay delay = max delay RETRY_GATE_RECHECK_FLOOR"

subsection \<open>Claiming\<close>

definition RETRY_CLAIM_GRACE :: real where
  "RETRY_CLAIM_GRACE = 30"

definition parse_iso_utc :: "(string \<Rightarrow> int option) \<Rightarrow> json option \<Rightarrow> int option" where
  "parse_iso_utc parse value = (case value of Some (JString s) \<Rightarrow> parse s | _ \<Rightarrow> None)"

definition or_else :: "'a option \<Rightarrow> 'a option \<Rightarrow> 'a option" where
  "or_else a b = (case a of None \<Rightarrow> b | Some _ \<Rightarrow> a)"

text \<open>The attempt and the deadline of a record, when they are well formed.\<close>

definition attempt_of :: "(string \<Rightarrow> int option) \<Rightarrow> body \<Rightarrow> (nat \<times> int) option" where
  "attempt_of parse rec =
     (case (dict_get rec ''attempt'', parse_iso_utc parse (dict_get rec ''notBefore'')) of
        (Some (JInt n), Some not_before) \<Rightarrow> if n < 1 then None else Some (nat n, not_before)
      | _ \<Rightarrow> None)"

definition armed_instant :: "(string \<Rightarrow> int option) \<Rightarrow> body \<Rightarrow> int \<Rightarrow> int" where
  "armed_instant parse rec not_before =
     (case or_else (parse_iso_utc parse (dict_get rec ''armedAt'')) (parse_iso_utc parse (dict_get rec ''at'')) of
        Some t \<Rightarrow> t | None \<Rightarrow> not_before)"

definition over_budget :: "JobConfig \<Rightarrow> nat \<Rightarrow> bool" where
  "over_budget job attempt \<longleftrightarrow> rc_maximum (jc_retry job) \<noteq> -1 \<and> int attempt > rc_maximum (jc_retry job)"

definition past_deadline :: "JobConfig \<Rightarrow> int \<Rightarrow> int \<Rightarrow> bool" where
  "past_deadline job now not_before \<longleftrightarrow> jc_deadline job \<noteq> 0 \<and> seconds_of (now - not_before) > of_int (jc_deadline job)"

definition resolved_since :: "int option \<Rightarrow> int \<Rightarrow> bool" where
  "resolved_since last_at armed_at = (case last_at of Some t \<Rightarrow> t > armed_at | None \<Rightarrow> False)"

definition retry_record_claimable ::
  "(string \<Rightarrow> int option) \<Rightarrow> (JobConfig \<Rightarrow> string) \<Rightarrow> JobConfig \<Rightarrow> int \<Rightarrow> retry_node \<Rightarrow> body \<Rightarrow> (nat \<times> int) option" where
  "retry_record_claimable parse job_digest job now nd rec =
     (let kind = dict_get rec ''kind''
      in if kind \<noteq> Some (JString ''pending'') \<and> kind \<noteq> Some (JString ''handoff'') then None
         else (case attempt_of parse rec of
                 None \<Rightarrow> None
               | Some (attempt, not_before) \<Rightarrow>
                   (let armed_at = armed_instant parse rec not_before
                    in if dict_get rec ''jobDigest'' \<noteq> Some (JString (job_digest job)) then None
                       else if over_budget job attempt then None
                       else if past_deadline job now not_before then None
                       else if resolved_since (rn_last_completed nd) armed_at then None
                       else if kind = Some (JString ''handoff'') then Some (attempt, max not_before now)
                       else (case dict_get rec ''host'' of
                               Some (JString h) \<Rightarrow>
                                 if h = rn_host nd then None
                                 else if seconds_of (now - max not_before armed_at) \<le> RETRY_CLAIM_GRACE then None
                                 else Some (attempt, not_before)
                             | _ \<Rightarrow> None))))"

text \<open>Python's \<open>or\<close> on values of a record, and the arm time as the text it is compared by.\<close>

fun truthy :: "json \<Rightarrow> bool" where
  "truthy JNull = False"
| "truthy (JBool b) = b"
| "truthy (JInt n) = (n \<noteq> 0)"
| "truthy (JNum x) = (x \<noteq> 0)"
| "truthy (JString s) = (s \<noteq> [])"
| "truthy (JArray xs) = (xs \<noteq> [])"
| "truthy (JObject kvs) = (kvs \<noteq> [])"

definition py_or :: "json option \<Rightarrow> json option \<Rightarrow> json option" where
  "py_or a b = (case a of Some v \<Rightarrow> if truthy v then a else b | None \<Rightarrow> b)"

definition armed_text :: "body \<Rightarrow> json option" where
  "armed_text rec = py_or (dict_get rec ''armedAt'') (py_or (dict_get rec ''at'') (dict_get rec ''notBefore''))"

definition later_text :: "string option \<Rightarrow> json option \<Rightarrow> bool" where
  "later_text last_durable armed_at =
     (case (last_durable, armed_at) of (Some l, Some (JString a)) \<Rightarrow> l > a | _ \<Rightarrow> False)"

definition claim_record ::
  "(int \<Rightarrow> string) \<Rightarrow> (JobConfig \<Rightarrow> string) \<Rightarrow> string \<Rightarrow> JobConfig \<Rightarrow> body \<Rightarrow> nat \<Rightarrow> int \<Rightarrow> int \<Rightarrow> body" where
  "claim_record isoformat job_digest host job rec attempt not_before now =
     pending_record isoformat job_digest host job (int attempt) not_before now @
     [(''claimedFrom'', case py_or (dict_get rec ''host'') (dict_get rec ''fromHost'') of Some v \<Rightarrow> v | None \<Rightarrow> JNull)]"

text \<open>
  The critical section of a claim: \<open>reread\<close> says whether the second listing answered.  An append that
  fails with an error counts as done, since the write task swallows it; one that times out does not.
\<close>

record claim_io =
  cl_allows :: bool
  cl_read :: bool
  cl_acquired :: bool
  cl_reread :: bool
  cl_durable :: "(store_trouble, string option) result"
  cl_settle :: landing
  cl_claim :: landing
  cl_arm :: landing

definition claim_retry_under_lease ::
  "(int \<Rightarrow> string) \<Rightarrow> (JobConfig \<Rightarrow> string) \<Rightarrow> store_config \<Rightarrow> claim_io \<Rightarrow> string \<Rightarrow> JobConfig \<Rightarrow> body \<Rightarrow> nat \<Rightarrow> int \<Rightarrow>
   int \<Rightarrow> body list \<Rightarrow> bool \<times> body list" where
  "claim_retry_under_lease isoformat job_digest cfg io host job rec attempt not_before now stream =
     (if \<not> cl_reread io then (False, stream)
      else if take 1 stream \<noteq> [rec] then (False, stream)
      else (case cl_durable io of
              Inl e \<Rightarrow> (False, stream)
            | Inr last_durable \<Rightarrow>
                if later_text last_durable (armed_text rec)
                then (False, persist_retry_settled isoformat (sc_backend cfg) (cl_settle io) host ''superseded-by-run''
                               (Some (int attempt)) now stream)
                else (cl_claim io \<noteq> LandedLate,
                      append_retry_record (cl_claim io)
                        (claim_record isoformat job_digest host job rec attempt not_before now) stream)))"

definition live_ladder :: "retry_node \<Rightarrow> bool" where
  "live_ladder nd \<longleftrightarrow>
     rn_running nd \<noteq> [] \<or> (case rn_state nd of Some s \<Rightarrow> rt_task s \<noteq> None \<or> rt_count s > 0 | None \<Rightarrow> False)"

text \<open>
  One job of a claim scan: \<open>rec\<close> is what the first listing found, \<open>nd'\<close> the node once the claim is made.
\<close>

definition maybe_claim_retry ::
  "(string \<Rightarrow> int option) \<Rightarrow> (int \<Rightarrow> string) \<Rightarrow> (JobConfig \<Rightarrow> string) \<Rightarrow> store_config \<Rightarrow> claim_io \<Rightarrow> JobConfig option \<Rightarrow>
   JobConfig \<Rightarrow> body option \<Rightarrow> int \<Rightarrow> retry_node \<Rightarrow> retry_node \<Rightarrow> body list \<Rightarrow> retry_node \<times> body list" where
  "maybe_claim_retry parse isoformat job_digest cfg io live_job job rec now nd nd' stream =
     (if \<not> retry_cross_node_eligible cfg job \<or> \<not> jc_enabled job \<or> rc_maximum (jc_retry job) = 0
         \<or> live_ladder nd \<or> \<not> cl_allows io \<or> \<not> cl_read io
      then (nd', stream)
      else (case rec of
              None \<Rightarrow> (nd', stream)
            | Some r \<Rightarrow>
                (case retry_record_claimable parse job_digest job now nd r of
                   None \<Rightarrow> (nd', stream)
                 | Some (attempt, not_before) \<Rightarrow>
                     if \<not> cl_acquired io then (nd', stream)
                     else (case claim_retry_under_lease isoformat job_digest cfg io (rn_host nd) job r attempt not_before now stream of
                             (claimed, stream1) \<Rightarrow>
                               if \<not> claimed \<or> live_ladder nd' then (nd', stream1)
                               else start_retry_task isoformat job_digest (sc_backend cfg) (cl_arm io) live_job now
                                      (max 0 (seconds_of (not_before - now))) attempt
                                      (replay_delays attempt (new_retry_state (jc_retry job))) nd' stream1))))"

subsection \<open>Re-arming at a restart\<close>

text \<open>The reason for which a pending record of this host must not be re-armed, with the attempt it names.\<close>

datatype pending_verdict = Rearm nat int | Settle string "int option"

definition validate_pending_retry ::
  "(string \<Rightarrow> int option) \<Rightarrow> (JobConfig \<Rightarrow> string) \<Rightarrow> JobConfig \<Rightarrow> int \<Rightarrow> int option \<Rightarrow> body \<Rightarrow> pending_verdict" where
  "validate_pending_retry parse job_digest job now last_at rec =
     (case attempt_of parse rec of
        None \<Rightarrow> Settle ''invalid-record'' None
      | Some (attempt, not_before) \<Rightarrow>
          (let n = Some (int attempt)
           in if rc_maximum (jc_retry job) = 0 \<or> dict_get rec ''jobDigest'' \<noteq> Some (JString (job_digest job))
              then Settle ''config-changed'' n
              else if resolved_since last_at (armed_instant parse rec not_before) then Settle ''superseded-by-run'' n
              else if \<not> jc_enabled job then Settle ''disabled'' n
              else if over_budget job attempt then Settle ''exhausted'' n
              else if past_deadline job now not_before then Settle ''deadline-passed'' n
              else Rearm attempt not_before))"

text \<open>\<open>marked\<close> is the answer of the boot marker for an \<open>@reboot\<close> job; \<open>read\<close> whether the listing answered.\<close>

definition rehydrate_retry ::
  "(string \<Rightarrow> int option) \<Rightarrow> (int \<Rightarrow> string) \<Rightarrow> (JobConfig \<Rightarrow> string) \<Rightarrow> store_config \<Rightarrow> bool \<Rightarrow>
   (store_trouble, string option) result \<Rightarrow> bool \<Rightarrow> landing \<Rightarrow> JobConfig option \<Rightarrow> JobConfig \<Rightarrow> int \<Rightarrow> retry_node \<Rightarrow>
   body list \<Rightarrow> retry_node \<times> body list" where
  "rehydrate_retry parse isoformat job_digest cfg read durable marked landing live_job job now nd stream =
     (if \<not> sc_backend cfg \<or> rn_state nd \<noteq> None \<or> rn_running nd \<noteq> [] \<or> \<not> read then (nd, stream)
      else (case stream of
              [] \<Rightarrow> (nd, stream)
            | rec # _ \<Rightarrow>
                if dict_get rec ''kind'' \<noteq> Some (JString ''pending'') \<or> foreign_record (rn_host nd) stream
                then (nd, stream)
                else (let last_at = or_else (rn_last_completed nd)
                            (case durable of Inr text \<Rightarrow> parsed parse text | Inl e \<Rightarrow> None);
                          nd1 = nd\<lparr>rn_last_completed := last_at\<rparr>
                      in case validate_pending_retry parse job_digest job now last_at rec of
                           Settle reason n \<Rightarrow>
                             (nd1, persist_retry_settled isoformat True landing (rn_host nd) reason n now stream)
                         | Rearm attempt not_before \<Rightarrow>
                             if \<not> is_crontab (jc_schedule job) \<and> \<not> marked
                             then (nd1, persist_retry_settled isoformat True landing (rn_host nd) ''superseded-by-reboot''
                                          (Some (int attempt)) now stream)
                             else start_retry_task isoformat job_digest True landing live_job now
                                    (max 0 (seconds_of (not_before - now))) attempt
                                    (replay_delays attempt (new_retry_state (jc_retry job))) nd1 stream)))"

end
