(* ===== verification/LadderMachine.thy ===== *)
theory LadderMachine
  imports Prelude
begin

text \<open>
  Retry ladders across nodes, as an abstract machine: what a node may do with the ladder it is on and
  with the newest ladder record.  Its invariant gives that no attempt is launched twice; the nodes of the
  scheduler refine it in \<open>RetryLadder\<close>.
\<close>

datatype phase = Nothing | Armed nat | Running nat

text \<open>Who wrote the newest record, and the attempt it leaves pending.\<close>

datatype newest = Unowned | Newest string "nat option"

primrec foreign_to :: "string \<Rightarrow> newest \<Rightarrow> bool" where
  "foreign_to h Unowned = False"
| "foreign_to h (Newest g p) = (g \<noteq> h)"

primrec pending_of :: "newest \<Rightarrow> nat option" where
  "pending_of Unowned = None"
| "pending_of (Newest g p) = p"

text \<open>Ladders are numbered: \<open>la_id h\<close> is the ladder of node \<open>h\<close>, \<open>la_top\<close> that of the newest record.\<close>

record ladders =
  la_phase :: "string \<Rightarrow> phase"
  la_id :: "string \<Rightarrow> nat"
  la_newest :: newest
  la_top :: nat
  la_fresh :: nat
  la_launched :: "(nat \<times> nat) list"

inductive ladder_move :: "ladders \<Rightarrow> ladders \<Rightarrow> bool" where
  Stutter: "ladder_move a a"
| NewRun: "p \<in> {Nothing, Running 0} \<Longrightarrow> n \<in> {la_newest a, Newest h None} \<Longrightarrow>
    t \<in> {la_top a, la_id a h} \<Longrightarrow> pending_of n \<noteq> None \<longrightarrow> t = la_top a \<Longrightarrow>
    l \<in> {la_launched a, la_launched a @ [(la_fresh a, 0)]} \<Longrightarrow>
    ladder_move a (a\<lparr>la_phase := (la_phase a)(h := p), la_id := (la_id a)(h := la_fresh a), la_newest := n,
      la_top := t, la_fresh := Suc (la_fresh a), la_launched := l\<rparr>)"
| Stop: "n \<in> {la_newest a, Newest h None} \<Longrightarrow> t \<in> {la_top a, la_id a h} \<Longrightarrow>
    pending_of n \<noteq> None \<longrightarrow> t = la_top a \<Longrightarrow>
    ladder_move a (a\<lparr>la_phase := (la_phase a)(h := Nothing), la_newest := n, la_top := t\<rparr>)"
| Arm: "la_phase a h = Running m \<Longrightarrow>
    (n, t) \<in> {(la_newest a, la_top a), (Newest h (Some (Suc m)), la_id a h)} \<Longrightarrow>
    ladder_move a (a\<lparr>la_phase := (la_phase a)(h := Armed (Suc m)), la_newest := n, la_top := t\<rparr>)"
| Consume: "la_phase a h = Armed m \<Longrightarrow> \<not> foreign_to h (la_newest a) \<Longrightarrow> t \<in> {la_top a, la_id a h} \<Longrightarrow>
    (p, l) \<in> {(Armed m, la_launched a), (Nothing, la_launched a), (Running m, la_launched a @ [(la_id a h, m)])} \<Longrightarrow>
    ladder_move a (a\<lparr>la_phase := (la_phase a)(h := p), la_newest := Newest h None, la_top := t, la_launched := l\<rparr>)"
| Take: "la_phase a h = Nothing \<Longrightarrow> la_newest a = Newest g (Some m) \<Longrightarrow> n \<in> {Newest g (Some m), Newest h (Some m)} \<Longrightarrow>
    (p, i) \<in> {(Nothing, la_id a h), (Armed m, la_top a)} \<Longrightarrow>
    ladder_move a (a\<lparr>la_phase := (la_phase a)(h := p), la_id := (la_id a)(h := i), la_newest := n\<rparr>)"
| Land: "\<not> foreign_to h (la_newest a) \<Longrightarrow>
    (\<exists>m. la_phase a h = Armed m \<and> n = Newest h (Some m)) \<or> n = Newest h None \<Longrightarrow>
    ladder_move a (a\<lparr>la_newest := n, la_top := la_id a h\<rparr>)"

definition launched_below :: "ladders \<Rightarrow> nat \<Rightarrow> nat \<Rightarrow> bool" where
  "launched_below a i m \<longleftrightarrow> (\<forall>k. (i, k) \<in> set (la_launched a) \<longrightarrow> k < m)"

text \<open>A node that may launch: it is armed and sees no foreign record on top.\<close>

definition ready :: "ladders \<Rightarrow> string \<Rightarrow> bool" where
  "ready a h \<longleftrightarrow> (\<exists>m. la_phase a h = Armed m) \<and> \<not> foreign_to h (la_newest a)"

definition fresh_ok :: "ladders \<Rightarrow> bool" where
  "fresh_ok a \<longleftrightarrow> (\<forall>h. la_id a h < la_fresh a) \<and> la_top a < la_fresh a \<and>
     (\<forall>i k. (i, k) \<in> set (la_launched a) \<longrightarrow> i < la_fresh a)"

text \<open>Such a node has an attempt nobody launched, and nobody else is ready on its ladder.\<close>

definition ready_ok :: "ladders \<Rightarrow> bool" where
  "ready_ok a \<longleftrightarrow>
     (\<forall>h m. la_phase a h = Armed m \<longrightarrow> ready a h \<longrightarrow> launched_below a (la_id a h) m) \<and>
     (\<forall>h j. ready a h \<longrightarrow> ready a j \<longrightarrow> la_id a j = la_id a h \<longrightarrow> j = h)"

text \<open>So has whoever takes the pending record; and a ladder with a running attempt is nobody else's.\<close>

definition pending_ok :: "ladders \<Rightarrow> bool" where
  "pending_ok a \<longleftrightarrow> (\<forall>m. pending_of (la_newest a) = Some m \<longrightarrow> launched_below a (la_top a) m)"

definition running_ok :: "ladders \<Rightarrow> bool" where
  "running_ok a \<longleftrightarrow>
     (\<forall>h m. la_phase a h = Running m \<longrightarrow>
        launched_below a (la_id a h) (Suc m) \<and> (pending_of (la_newest a) \<noteq> None \<longrightarrow> la_top a \<noteq> la_id a h) \<and>
        (\<forall>j. la_id a j = la_id a h \<longrightarrow> \<not> ready a j \<and> ((\<exists>k. la_phase a j = Running k) \<longrightarrow> j = h)))"

definition ladder_inv :: "ladders \<Rightarrow> bool" where
  "ladder_inv a \<longleftrightarrow> fresh_ok a \<and> distinct (la_launched a) \<and> ready_ok a \<and> pending_ok a \<and> running_ok a"

lemmas ladder_defs = fresh_ok_def ready_ok_def pending_ok_def running_ok_def launched_below_def ready_def

lemma fresh_okD:
  assumes "fresh_ok a"
  shows "la_id a h < la_fresh a" "la_top a < la_fresh a" "(i, k) \<in> set (la_launched a) \<Longrightarrow> i < la_fresh a"
  using assms unfolding fresh_ok_def by blast+

lemma ready_okD:
  assumes "ready_ok a"
  shows "la_phase a h = Armed m \<Longrightarrow> ready a h \<Longrightarrow> launched_below a (la_id a h) m"
    "ready a h \<Longrightarrow> ready a j \<Longrightarrow> la_id a j = la_id a h \<Longrightarrow> j = h"
  using assms unfolding ready_ok_def by blast+

lemma running_okD:
  assumes "running_ok a" and "la_phase a h = Running m"
  shows "launched_below a (la_id a h) (Suc m)" "pending_of (la_newest a) = Some n \<Longrightarrow> la_top a \<noteq> la_id a h"
    "la_id a j = la_id a h \<Longrightarrow> \<not> ready a j" "la_id a j = la_id a h \<Longrightarrow> la_phase a j = Running k \<Longrightarrow> j = h"
  using assms unfolding running_ok_def by blast+

lemma ladder_invD:
  assumes "ladder_inv a"
  shows "fresh_ok a" "distinct (la_launched a)" "ready_ok a" "pending_ok a" "running_ok a"
  using assms unfolding ladder_inv_def by blast+

lemma running_okI:
  assumes "\<And>h m. la_phase a h = Running m \<Longrightarrow> launched_below a (la_id a h) (Suc m)"
    "\<And>h m n. la_phase a h = Running m \<Longrightarrow> pending_of (la_newest a) = Some n \<Longrightarrow> la_top a \<noteq> la_id a h"
    "\<And>h m j. la_phase a h = Running m \<Longrightarrow> ready a j \<Longrightarrow> la_id a j \<noteq> la_id a h"
    "\<And>h m j k. la_phase a h = Running m \<Longrightarrow> la_phase a j = Running k \<Longrightarrow> la_id a j = la_id a h \<Longrightarrow> j = h"
  shows "running_ok a"
  using assms unfolding running_ok_def by blast

lemma inv_NewRun:
  assumes "ladder_inv a" and p: "p \<in> {Nothing, Running 0}" and n: "n \<in> {la_newest a, Newest h None}"
    and t: "t \<in> {la_top a, la_id a h}" "pending_of n \<noteq> None \<longrightarrow> t = la_top a"
    and l: "l \<in> {la_launched a, la_launched a @ [(la_fresh a, 0)]}"
    and b: "b = a\<lparr>la_phase := (la_phase a)(h := p), la_id := (la_id a)(h := la_fresh a), la_newest := n,
      la_top := t, la_fresh := Suc (la_fresh a), la_launched := l\<rparr>"
  shows "ladder_inv b"
proof -
  note inv = ladder_invD [OF assms(1)]
  note f = fresh_okD [OF inv(1)]
  have 1: "fresh_ok b" using f(1,2) l t by (auto simp: b fresh_ok_def less_Suc_eq dest: f(3))
  have 2: "distinct l" using inv(2) l by (auto dest: f(3))
  have lb: "i < la_fresh a \<Longrightarrow> launched_below b i m = launched_below a i m" for i m
    using l by (auto simp: b launched_below_def)
  have new: "launched_below b (la_fresh a) (Suc 0)" using l by (auto simp: b launched_below_def dest: f(3))
  have rd: "j \<noteq> h" "ready a j" if "ready b j" for j using that p n by (auto simp: b ready_def split: if_splits)
  have id: "la_id b j = (if j = h then la_fresh a else la_id a j)" "la_top b = t" for j by (simp_all add: b)
  have ph: "la_phase b j = (if j = h then p else la_phase a j)" for j by (simp add: b)
  have q: "pending_of (la_newest b) = Some m \<Longrightarrow> pending_of (la_newest a) = Some m \<and> t = la_top a" for m
    using n t by (auto simp: b)
  have 3: "ready_ok b" unfolding ready_ok_def
  proof (intro conjI allI impI)
    show "launched_below b (la_id b k) m" if "la_phase b k = Armed m" "ready b k" for k m
      using that(1) rd [OF that(2)] ready_okD(1) [OF inv(3), of k m] lb f(1) by (simp add: id ph)
    show "j = k" if "ready b k" "ready b j" "la_id b j = la_id b k" for j k
      using that(3) rd [OF that(1)] rd [OF that(2)] ready_okD(2) [OF inv(3), of k j] by (simp add: id)
  qed
  have 4: "pending_ok b" using inv(4) q lb f(2) by (auto simp: pending_ok_def id)
  have other: "la_id a j \<noteq> la_fresh a" "la_top a \<noteq> la_fresh a" for j using f(1) [of j] f(2) by auto
  have 5: "running_ok b"
  proof (rule running_okI)
    show "launched_below b (la_id b k) (Suc m)" if "la_phase b k = Running m" for k m
      using that p new running_okD(1) [OF inv(5), of k m] lb f(1) by (auto simp: id ph split: if_splits)
    show "la_top b \<noteq> la_id b k" if "la_phase b k = Running m" "pending_of (la_newest b) = Some i" for k m i
      using that other running_okD(2) [OF inv(5), of k m i] q by (auto simp: id ph split: if_splits)
    show "la_id b j \<noteq> la_id b k" if "la_phase b k = Running m" "ready b j" for k m j
      using that(1) rd [OF that(2)] other running_okD(3) [OF inv(5), of k m j] by (auto simp: id ph split: if_splits)
    show "j = k" if "la_phase b k = Running m" "la_phase b j = Running i" "la_id b j = la_id b k" for k m j i
      using that other running_okD(4) [OF inv(5), of k m j i] by (auto simp: id ph split: if_splits)
  qed
  show ?thesis using 1 2 3 4 5 by (simp add: ladder_inv_def b)
qed

text \<open>A record of \<open>h\<close> that lands over its own.\<close>

lemma inv_Land:
  assumes "ladder_inv a" and h: "\<not> foreign_to h (la_newest a)"
    and n: "(\<exists>m. la_phase a h = Armed m \<and> n = Newest h (Some m)) \<or> n = Newest h None"
    and b: "b = a\<lparr>la_newest := n, la_top := la_id a h\<rparr>"
  shows "ladder_inv b"
proof -
  note inv = ladder_invD [OF assms(1)]
  have lb: "launched_below b = launched_below a" by (simp add: b launched_below_def fun_eq_iff)
  have rd: "j = h \<and> ready a h" if "ready b j" for j using that n h by (auto simp: ready_def b)
  have p: "la_phase a h = Armed m \<and> ready a h" if "pending_of n = Some m" for m
    using that n h by (auto simp: ready_def)
  have 1: "fresh_ok b" using inv(1) by (simp add: fresh_ok_def b)
  have 3: "ready_ok b" unfolding ready_ok_def
  proof (intro conjI allI impI)
    show "launched_below b (la_id b k) m" if "la_phase b k = Armed m" "ready b k" for k m
      using that(1) rd [OF that(2)] ready_okD(1) [OF inv(3), of h m] by (simp add: lb) (simp add: b)
    show "j = k" if "ready b k" "ready b j" for j k using rd [OF that(1)] rd [OF that(2)] by simp
  qed
  have 4: "pending_ok b" using p ready_okD(1) [OF inv(3)] by (simp add: pending_ok_def lb) (simp add: b)
  have 5: "running_ok b"
  proof (rule running_okI)
    fix k m assume "la_phase b k = Running m"
    then have k: "la_phase a k = Running m" by (simp add: b)
    note run = running_okD [OF inv(5) k]
    show "launched_below b (la_id b k) (Suc m)" using run(1) by (simp add: lb) (simp add: b)
    show "la_top b \<noteq> la_id b k" if "pending_of (la_newest b) = Some i" for i
      using that p [of i] run(3) [of h] by (auto simp: b)
    show "la_id b j \<noteq> la_id b k" if "ready b j" for j using rd [OF that] run(3) [of h] by (auto simp: b)
    show "j = k" if "la_phase b j = Running i" "la_id b j = la_id b k" for j i using that run(4) by (simp add: b)
  qed
  show ?thesis using 1 inv(2) 3 4 5 by (simp add: ladder_inv_def b)
qed

text \<open>A change at \<open>h\<close> that starts no run and keeps the launches.\<close>

lemma inv_change:
  assumes "ladder_inv a" and b: "b = a\<lparr>la_phase := (la_phase a)(h := p), la_id := (la_id a)(h := i), la_newest := n, la_top := t\<rparr>"
    and ids: "i < la_fresh a" "t < la_fresh a" and p: "\<And>m. p \<noteq> Running m"
    and n: "\<And>j. j \<noteq> h \<Longrightarrow> foreign_to j (la_newest a) \<Longrightarrow> foreign_to j n"
    and armed: "\<And>m. p = Armed m \<Longrightarrow> \<not> foreign_to h n \<Longrightarrow> launched_below a i m \<and>
      (\<forall>j. j \<noteq> h \<longrightarrow> ready a j \<longrightarrow> \<not> foreign_to j n \<longrightarrow> la_id a j \<noteq> i) \<and> (\<forall>j k. j \<noteq> h \<longrightarrow> la_phase a j = Running k \<longrightarrow> la_id a j \<noteq> i)"
    and pending: "\<And>m. pending_of n = Some m \<Longrightarrow> launched_below a t m \<and> (\<forall>j k. j \<noteq> h \<longrightarrow> la_phase a j = Running k \<longrightarrow> la_id a j \<noteq> t)"
  shows "ladder_inv b"
proof -
  note inv = ladder_invD [OF assms(1)]
  have lb: "launched_below b = launched_below a" by (simp add: b launched_below_def fun_eq_iff)
  have id: "la_id b j = (if j = h then i else la_id a j)" "la_top b = t" "la_newest b = n" for j by (simp_all add: b)
  have ph: "la_phase b j = (if j = h then p else la_phase a j)" for j by (simp add: b)
  have rd: "ready a j" "\<not> foreign_to j n" if "ready b j" "j \<noteq> h" for j using that n by (auto simp: ready_def id ph)
  have rh: "\<exists>m. p = Armed m \<and> \<not> foreign_to h n" if "ready b h" using that by (auto simp: ready_def id ph)
  have 1: "fresh_ok b" using inv(1) ids by (auto simp: fresh_ok_def b)
  have 3: "ready_ok b" unfolding ready_ok_def
  proof (intro conjI allI impI)
    show "launched_below b (la_id b k) m" if "la_phase b k = Armed m" "ready b k" for k m
      using that armed rh rd(1) [OF that(2)] ready_okD(1) [OF inv(3), of k m] by (auto simp: id ph lb split: if_splits)
    show "j = k" if "ready b k" "ready b j" "la_id b j = la_id b k" for j k
    proof (cases "j = h"; cases "k = h")
      assume "j = h" "k \<noteq> h"
      then show ?thesis using that armed rh rd [of k] by (fastforce simp: id)
    next
      assume "j \<noteq> h" "k = h"
      then show ?thesis using that armed rh rd [of j] by (fastforce simp: id)
    next
      assume "j \<noteq> h" "k \<noteq> h"
      then show ?thesis using that rd [of j] rd [of k] ready_okD(2) [OF inv(3), of k j] by (simp add: id)
    qed simp
  qed
  have 4: "pending_ok b" using pending by (auto simp: pending_ok_def id lb)
  have 5: "running_ok b"
  proof (rule running_okI)
    fix k m assume "la_phase b k = Running m"
    then have k: "k \<noteq> h" "la_phase a k = Running m" using p by (auto simp: ph split: if_splits)
    show "launched_below b (la_id b k) (Suc m)" using running_okD(1) [OF inv(5) k(2)] k(1) by (simp add: id lb)
    show "la_top b \<noteq> la_id b k" if "pending_of (la_newest b) = Some j" for j
      using pending [of j] that k by (auto simp: id)
    show "la_id b j \<noteq> la_id b k" if "ready b j" for j
      using rd [OF that] rh that armed k running_okD(3) [OF inv(5) k(2), of j] by (cases "j = h") (auto simp: id)
    show "j = k" if "la_phase b j = Running q" "la_id b j = la_id b k" for j q
      using that k p running_okD(4) [OF inv(5) k(2), of j q] by (auto simp: id ph split: if_splits)
  qed
  show ?thesis using 1 inv(2) 3 4 5 by (simp add: ladder_inv_def b)
qed

lemma inv_Launch:
  assumes "ladder_inv a" and r: "la_phase a h = Armed m" "\<not> foreign_to h (la_newest a)"
    and t: "t \<in> {la_top a, la_id a h}"
    and b: "b = a\<lparr>la_phase := (la_phase a)(h := Running m), la_newest := Newest h None, la_top := t,
      la_launched := la_launched a @ [(la_id a h, m)]\<rparr>"
  shows "ladder_inv b"
proof -
  note inv = ladder_invD [OF assms(1)]
  note f = fresh_okD [OF inv(1)]
  have h: "ready a h" using r by (auto simp: ready_def)
  note below = ready_okD(1) [OF inv(3) r(1) h]
  have no: "\<not> ready b j" for j by (auto simp: ready_def b)
  have lb: "launched_below b i k" if "launched_below a i k" "i = la_id a h \<Longrightarrow> m < k" for i k
    using that by (auto simp: launched_below_def b)
  have 1: "fresh_ok b" using inv(1) f(1) t by (auto simp: fresh_ok_def b)
  have 2: "distinct (la_launched b)" using below inv(2) by (auto simp: b launched_below_def)
  have 5: "running_ok b"
  proof (rule running_okI)
    show "launched_below b (la_id b k) (Suc q)" if "la_phase b k = Running q" for k q
    proof (cases "k = h")
      case True
      then show ?thesis using that below by (auto simp: b launched_below_def less_Suc_eq)
    next
      case False
      then have k: "la_phase a k = Running q" using that by (simp add: b)
      have "la_id a h \<noteq> la_id a k" using running_okD(3) [OF inv(5) k] h by blast
      then show ?thesis using running_okD(1) [OF inv(5) k] lb by (auto simp: b)
    qed
    show "j = k" if "la_phase b k = Running q" "la_phase b j = Running i" "la_id b j = la_id b k" for k q j i
    proof (cases "j = h"; cases "k = h")
      assume "j = h" "k \<noteq> h"
      then show ?thesis using that running_okD(3) [OF inv(5), of k q h] h by (simp add: b)
    next
      assume "j \<noteq> h" "k = h"
      then show ?thesis using that running_okD(3) [OF inv(5), of j i h] h by (simp add: b)
    next
      assume "j \<noteq> h" "k \<noteq> h"
      then show ?thesis using that running_okD(4) [OF inv(5), of k q j i] by (simp add: b)
    qed simp
  qed (use no in \<open>auto simp: b\<close>)
  show ?thesis using 1 2 5 no by (simp add: ladder_inv_def ready_ok_def) (simp add: pending_ok_def b)
qed

lemma ladder_inv_move:
  assumes "ladder_move a b" and "ladder_inv a"
  shows "ladder_inv b"
  using assms(1)
proof cases
  case Stutter
  then show ?thesis using assms(2) by simp
next
  case (NewRun p n h t l)
  then show ?thesis using inv_NewRun [OF assms(2)] by blast
next
  note inv = ladder_invD [OF assms(2)]
  note f = fresh_okD [OF inv(1)]
  case (Stop n h t)
  show ?thesis
  proof (rule inv_change [OF assms(2), where b = b and h = h and p = Nothing and i = "la_id a h" and n = n and t = t])
    show "launched_below a t m \<and> (\<forall>j k. j \<noteq> h \<longrightarrow> la_phase a j = Running k \<longrightarrow> la_id a j \<noteq> t)"
      if "pending_of n = Some m" for m
      using that Stop inv(4) running_okD(2) [OF inv(5)] by (fastforce simp: pending_ok_def)
  qed (use Stop f in auto)
next
  note inv = ladder_invD [OF assms(2)]
  note f = fresh_okD [OF inv(1)]
  case (Arm h m n t)
  note run = running_okD [OF inv(5) Arm(2)]
  show ?thesis
  proof (rule inv_change [OF assms(2), where b = b and h = h and p = "Armed (Suc m)" and i = "la_id a h" and n = n and t = t])
    show "launched_below a t k \<and> (\<forall>j q. j \<noteq> h \<longrightarrow> la_phase a j = Running q \<longrightarrow> la_id a j \<noteq> t)"
      if "pending_of n = Some k" for k
      using that Arm(3) run inv(4) running_okD(2) [OF inv(5)] by (fastforce simp: pending_ok_def)
    show "launched_below a (la_id a h) k \<and> (\<forall>j. j \<noteq> h \<longrightarrow> ready a j \<longrightarrow> \<not> foreign_to j n \<longrightarrow> la_id a j \<noteq> la_id a h) \<and>
        (\<forall>j q. j \<noteq> h \<longrightarrow> la_phase a j = Running q \<longrightarrow> la_id a j \<noteq> la_id a h)" if "Armed (Suc m) = Armed k" for k
      using that run by auto
  qed (use Arm f in auto)
next
  note inv = ladder_invD [OF assms(2)]
  note f = fresh_okD [OF inv(1)]
  case (Consume h m t p l)
  have h: "ready a h" using Consume by (auto simp: ready_def)
  show ?thesis
  proof (cases "p = Running m")
    case True
    then show ?thesis using inv_Launch [OF assms(2) Consume(2-4)] Consume by auto
  next
    case False
    then have pl: "p \<in> {Armed m, Nothing}" "l = la_launched a" using Consume(5) by auto
    show ?thesis
    proof (rule inv_change [OF assms(2), where b = b and h = h and p = p and i = "la_id a h" and n = "Newest h None" and t = t])
      show "launched_below a (la_id a h) k \<and> (\<forall>j. j \<noteq> h \<longrightarrow> ready a j \<longrightarrow> \<not> foreign_to j (Newest h None) \<longrightarrow> la_id a j \<noteq> la_id a h) \<and>
          (\<forall>j q. j \<noteq> h \<longrightarrow> la_phase a j = Running q \<longrightarrow> la_id a j \<noteq> la_id a h)" if "p = Armed k" for k
        using that pl ready_okD(1) [OF inv(3) Consume(2) h] running_okD(3) [OF inv(5)] h by fastforce
    qed (use Consume pl f in auto)
  qed
next
  note inv = ladder_invD [OF assms(2)]
  note f = fresh_okD [OF inv(1)]
  case (Take h g m n p i)
  have top: "launched_below a (la_top a) m" "\<And>j k. la_phase a j = Running k \<Longrightarrow> la_id a j \<noteq> la_top a"
    using inv(4) running_okD(2) [OF inv(5)] Take(3) by (fastforce simp: pending_ok_def)+
  show ?thesis
  proof (rule inv_change [OF assms(2), where b = b and h = h and p = p and i = i and n = n and t = "la_top a"])
    show "launched_below a i k \<and> (\<forall>j. j \<noteq> h \<longrightarrow> ready a j \<longrightarrow> \<not> foreign_to j n \<longrightarrow> la_id a j \<noteq> i) \<and>
        (\<forall>j q. j \<noteq> h \<longrightarrow> la_phase a j = Running q \<longrightarrow> la_id a j \<noteq> i)" if "p = Armed k" "\<not> foreign_to h n" for k
      using that Take top by auto
    show "launched_below a (la_top a) k \<and> (\<forall>j q. j \<noteq> h \<longrightarrow> la_phase a j = Running q \<longrightarrow> la_id a j \<noteq> la_top a)"
      if "pending_of n = Some k" for k
      using that Take top by auto
  qed (use Take f in auto)
next
  case (Land h n)
  then show ?thesis using inv_Land [OF assms(2)] by blast
qed

end
