(* ===== verification/RetryLadder.thy ===== *)
theory RetryLadder
  imports RetryClaim LadderMachine
begin

text \<open>
  The nodes of the scheduler as steps over one retry stream, and their refinement of \<open>LadderMachine\<close>.
  A critical section under the claim lease is one step.  A queued record lands in the step that queued
  it, in a later \<open>Land\<close> step while it still says what its node is doing, or too late in a \<open>Late\<close> step.
  The numbering of ladders, the list of launches and the mark of a late landing are ghosts.
\<close>

record ladder_world =
  lw_nodes :: "string \<Rightarrow> retry_node"
  lw_stream :: "body list"
  lw_id :: "string \<Rightarrow> nat"
  lw_top :: nat
  lw_fresh :: nat
  lw_launched :: "(nat \<times> nat) list"
  lw_late :: bool

definition put_ladder :: "string \<Rightarrow> retry_node \<Rightarrow> body list \<Rightarrow> nat \<Rightarrow> ladder_world \<Rightarrow> ladder_world" where
  "put_ladder h nd stream i w = w\<lparr>lw_nodes := (lw_nodes w)(h := nd), lw_stream := stream,
     lw_top := if stream = lw_stream w then lw_top w else i\<rparr>"

definition settled_on_top :: "body list \<Rightarrow> bool" where
  "settled_on_top stream \<longleftrightarrow>
     (case stream of [] \<Rightarrow> True
      | rec # _ \<Rightarrow> dict_get rec ''kind'' \<noteq> Some (JString ''pending'') \<and> dict_get rec ''kind'' \<noteq> Some (JString ''handoff''))"

definition ladder_init :: "ladder_world \<Rightarrow> bool" where
  "ladder_init w \<longleftrightarrow>
     (\<forall>h. rn_host (lw_nodes w h) = h \<and> rn_state (lw_nodes w h) = None \<and> rn_running (lw_nodes w h) = []) \<and>
     settled_on_top (lw_stream w) \<and> (\<forall>h. lw_id w h < lw_fresh w) \<and> lw_top w < lw_fresh w \<and> lw_launched w = [] \<and>
     \<not> lw_late w"

text \<open>
  Steps: a scheduled fire, a launch outside the ladder (catch-up), the end of an instance, a turn of an
  armed retry, a claim, a crash, the re-arming after it.  \<open>moves\<close> allows turns that hand a ladder off.
  A queued pending record lands while its node is armed for that attempt, a settled one at any time, each
  over no record of another node; any other record that lands later than its step marks the world late.
\<close>

inductive ladder_step ::
  "(string \<Rightarrow> int option) \<Rightarrow> (int \<Rightarrow> string) \<Rightarrow> (JobConfig \<Rightarrow> string) \<Rightarrow> store_config \<Rightarrow> JobConfig \<Rightarrow> bool \<Rightarrow>
   ladder_world \<Rightarrow> ladder_world \<Rightarrow> bool"
  for parse isoformat job_digest cfg job moves where
  Fire: "launch_scheduled_job isoformat (sc_backend cfg) landing False True slot now job (lw_nodes w h) (lw_stream w) =
      (nd, stream, launched) \<Longrightarrow>
    ladder_step parse isoformat job_digest cfg job moves w
      ((put_ladder h nd stream (lw_id w h) w)\<lparr>lw_id := (lw_id w)(h := lw_fresh w), lw_fresh := Suc (lw_fresh w),
        lw_launched := lw_launched w @ (if launched then [(lw_fresh w, 0)] else [])\<rparr>)"
| Backfill: "maybe_launch_job job slot False (lw_nodes w h) = (nd, launched) \<Longrightarrow>
    ladder_step parse isoformat job_digest cfg job moves w (put_ladder h nd (lw_stream w) (lw_id w h) w)"
| Finish: "i < length (rn_running (lw_nodes w h)) \<Longrightarrow>
    handle_finished_job isoformat job_digest (sc_backend cfg) landing stopping (Some job) now job i e (lw_nodes w h) (lw_stream w) =
      (nd, stream) \<Longrightarrow>
    ladder_step parse isoformat job_digest cfg job moves w (put_ladder h nd stream (lw_id w h) w)"
| Turn: "rn_state (lw_nodes w h) = Some s \<Longrightarrow> rt_task s = Some (Asleep delay n) \<Longrightarrow> ro_job io = Some job \<Longrightarrow>
    ro_moved io \<longrightarrow> moves \<Longrightarrow>
    retry_turn isoformat job_digest cfg slot_holder io n now (lw_nodes w h) (lw_stream w) = (nd, stream, t) \<Longrightarrow>
    ladder_step parse isoformat job_digest cfg job moves w
      ((put_ladder h nd stream (lw_id w h) w)\<lparr>lw_launched := lw_launched w @ (if t = Launched then [(lw_id w h, n)] else [])\<rparr>)"
| Claim: "maybe_claim_retry parse isoformat job_digest cfg io (Some job) job rec now (lw_nodes w h) (lw_nodes w h) (lw_stream w) =
      (nd, stream) \<Longrightarrow>
    ladder_step parse isoformat job_digest cfg job moves w
      ((put_ladder h nd stream (lw_top w) w)\<lparr>lw_id := (lw_id w)(h := if rn_state nd = rn_state (lw_nodes w h) then lw_id w h else lw_top w)\<rparr>)"
| Crash: "rn_host nd = h \<Longrightarrow> rn_state nd = None \<Longrightarrow> rn_running nd = [] \<Longrightarrow>
    ladder_step parse isoformat job_digest cfg job moves w (put_ladder h nd (lw_stream w) (lw_id w h) w)"
| Rehydrate: "rehydrate_retry parse isoformat job_digest cfg read durable marked landing (Some job) job now (lw_nodes w h) (lw_stream w) =
      (nd, stream) \<Longrightarrow>
    ladder_step parse isoformat job_digest cfg job moves w
      ((put_ladder h nd stream (lw_top w) w)\<lparr>lw_id := (lw_id w)(h := if rn_state nd = rn_state (lw_nodes w h) then lw_id w h else lw_top w)\<rparr>)"
| LandPending: "rn_state (lw_nodes w h) = Some s \<Longrightarrow> rt_task s = Some (Asleep delay n) \<Longrightarrow> n \<ge> 1 \<Longrightarrow>
    \<not> foreign_record h (lw_stream w) \<Longrightarrow> rec = pending_record isoformat job_digest h job (int n) not_before armed \<Longrightarrow>
    ladder_step parse isoformat job_digest cfg job moves w
      (w\<lparr>lw_stream := append_retry_record Landed rec (lw_stream w), lw_top := lw_id w h\<rparr>)"
| LandSettled: "\<not> foreign_record h (lw_stream w) \<Longrightarrow> rec = settled_record isoformat h reason k now \<Longrightarrow>
    ladder_step parse isoformat job_digest cfg job moves w
      (w\<lparr>lw_stream := append_retry_record Landed rec (lw_stream w), lw_top := lw_id w h\<rparr>)"
| Late: "ladder_step parse isoformat job_digest cfg job moves w
      (w\<lparr>lw_stream := append_retry_record Landed rec (lw_stream w), lw_top := i, lw_late := True\<rparr>)"

inductive ladder_reachable ::
  "(string \<Rightarrow> int option) \<Rightarrow> (int \<Rightarrow> string) \<Rightarrow> (JobConfig \<Rightarrow> string) \<Rightarrow> store_config \<Rightarrow> JobConfig \<Rightarrow> bool \<Rightarrow>
   ladder_world \<Rightarrow> bool"
  for parse isoformat job_digest cfg job moves where
  Start: "ladder_init w \<Longrightarrow> ladder_reachable parse isoformat job_digest cfg job moves w"
| Step: "ladder_reachable parse isoformat job_digest cfg job moves w \<Longrightarrow>
    ladder_step parse isoformat job_digest cfg job moves w w' \<Longrightarrow>
    ladder_reachable parse isoformat job_digest cfg job moves w'"

subsection \<open>The abstraction\<close>

definition phase_of :: "retry_node \<Rightarrow> phase" where
  "phase_of nd =
     (case rn_state nd of
        None \<Rightarrow> Nothing
      | Some s \<Rightarrow>
          if \<exists>r \<in> set (rn_running nd). ri_attached r then Running (rt_count s)
          else (case rt_task s of Some (Asleep d n) \<Rightarrow> Armed n | _ \<Rightarrow> Nothing))"

definition newest_of :: "body list \<Rightarrow> newest" where
  "newest_of stream =
     (case stream of
        [] \<Rightarrow> Unowned
      | rec # _ \<Rightarrow>
          (case dict_get rec ''host'' of
             Some (JString h) \<Rightarrow>
               Newest h (if dict_get rec ''kind'' = Some (JString ''pending'')
                         then (case dict_get rec ''attempt'' of Some (JInt n) \<Rightarrow> Some (nat n) | _ \<Rightarrow> None) else None)
           | _ \<Rightarrow> Unowned))"

definition ladders_of :: "ladder_world \<Rightarrow> ladders" where
  "ladders_of w = \<lparr>la_phase = (\<lambda>h. phase_of (lw_nodes w h)), la_id = lw_id w, la_newest = newest_of (lw_stream w),
     la_top = lw_top w, la_fresh = lw_fresh w, la_launched = lw_launched w\<rparr>"

text \<open>What holds of a node on its own.\<close>

definition node_ok :: "string \<Rightarrow> retry_node \<Rightarrow> bool" where
  "node_ok h nd \<longleftrightarrow> rn_host nd = h \<and>
     (case rn_state nd of
        None \<Rightarrow> \<forall>r \<in> set (rn_running nd). \<not> ri_attached r
      | Some s \<Rightarrow>
          length (filter ri_attached (rn_running nd)) \<le> 1 \<and>
          (case rt_task s of
             Some (Asleep d n) \<Rightarrow> n = rt_count s \<and> (\<forall>r \<in> set (rn_running nd). \<not> ri_attached r)
           | _ \<Rightarrow> True))"

text \<open>The newest record is no hand-off, and a pending one is well formed.\<close>

definition top_ok :: "body list \<Rightarrow> bool" where
  "top_ok stream \<longleftrightarrow>
     (case stream of
        [] \<Rightarrow> True
      | rec # _ \<Rightarrow>
          dict_get rec ''kind'' \<noteq> Some (JString ''handoff'') \<and>
          (dict_get rec ''kind'' = Some (JString ''pending'') \<longrightarrow>
             (\<exists>h. dict_get rec ''host'' = Some (JString h)) \<and> (\<exists>n \<ge> 1. dict_get rec ''attempt'' = Some (JInt n))))"

subsection \<open>Records\<close>

lemma newest_of_settled [simp]:
  "newest_of (settled_record isoformat h reason n now # stream) = Newest h None"
  by (simp add: newest_of_def settled_record_def split: option.split)

lemma newest_of_pending [simp]:
  "newest_of (pending_record isoformat job_digest h job (int n) t now # stream) = Newest h (Some n)"
  by (simp add: newest_of_def pending_record_def)

lemma newest_of_claim [simp]:
  "newest_of (claim_record isoformat job_digest h job rec n t now # stream) = Newest h (Some n)"
  by (simp add: newest_of_def claim_record_def pending_record_def)

lemma top_ok_settled [simp]: "top_ok (settled_record isoformat h reason n now # stream)"
  by (simp add: top_ok_def settled_record_def)

lemma top_ok_pending [simp]: "n \<ge> 1 \<Longrightarrow> top_ok (pending_record isoformat job_digest h job (int n) t now # stream)"
  by (simp add: top_ok_def pending_record_def)

lemma top_ok_claim [simp]: "n \<ge> 1 \<Longrightarrow> top_ok (claim_record isoformat job_digest h job rec n t now # stream)"
  by (simp add: top_ok_def claim_record_def pending_record_def)

lemma append_retry_record_top:
  "append_retry_record l rec stream = (if l = Failed then stream else rec # take 7 stream)"
  by (simp add: append_retry_record_def RETRY_STREAM_KEEP_def)

lemma foreign_record_newest [simp]: "newest_of (take (Suc 0) stream) = newest_of stream"
  "foreign_record h stream = foreign_to h (newest_of stream)"
  by (cases stream; simp add: foreign_record_def newest_of_def split: option.split json.split)+

subsection \<open>The operations, as moves\<close>

lemma node_okD:
  assumes "node_ok h nd"
  shows "rn_host nd = h" "rn_state nd = None \<Longrightarrow> r \<in> set (rn_running nd) \<Longrightarrow> \<not> ri_attached r"
    "rn_state nd = Some s \<Longrightarrow> rt_task s = Some (Asleep d n) \<Longrightarrow> n = rt_count s \<and> (\<forall>r \<in> set (rn_running nd). \<not> ri_attached r)"
    "length (filter ri_attached (rn_running nd)) \<le> 1"
  using assms by (auto simp: node_ok_def filter_False split: option.splits)

lemma phase_of_None [simp]: "rn_state nd = None \<Longrightarrow> phase_of nd = Nothing"
  by (simp add: phase_of_def)

lemma detach_simps [simp]:
  "rn_state (detach nd) = None" "rn_host (detach nd) = rn_host nd" "r \<in> set (rn_running (detach nd)) \<Longrightarrow> \<not> ri_attached r"
  "rn_running (detach nd) = [] \<longleftrightarrow> rn_running nd = []"
  by (auto simp: detach_def)

lemma node_ok_detach [simp]: "node_ok h (detach nd) \<longleftrightarrow> rn_host nd = h"
  by (auto simp: node_ok_def)

lemma cancel_job_retries_moves:
  assumes "cancel_job_retries isoformat backend l settle now nd stream = (nd', stream')" and "node_ok h nd"
  shows "rn_state nd' = None" "node_ok h nd'" "stream' = stream \<or> newest_of stream' = Newest h None"
    "top_ok stream \<Longrightarrow> top_ok stream'"
  using assms node_okD(1) [OF assms(2)]
  by (auto simp: cancel_job_retries_def persist_retry_settled_def append_retry_record_top split: option.splits if_splits)

lemma maybe_launch_cases:
  assumes "maybe_launch_job job slot retries nd = (nd', launched)"
  obtains rs where "map ri_attached rs = map ri_attached (rn_running nd)"
    "nd' = nd\<lparr>rn_running := rs @ (if launched then [\<lparr>ri_attached = retries \<and> rn_state nd \<noteq> None, ri_replaced = False\<rparr>] else [])\<rparr>"
proof (cases "jc_concurrency job = Replace")
  case True
  then show ?thesis
    using assms by (intro that [of "map (ri_replaced_update (\<lambda>_. True)) (rn_running nd)"])
      (auto simp: maybe_launch_job_def Let_def split: if_splits)
next
  case False
  then show ?thesis
    using assms by (intro that [of "rn_running nd"]) (auto simp: maybe_launch_job_def Let_def split: if_splits)
qed

text \<open>Only the flags of the instances matter.\<close>

lemma attached_flags:
  "(\<exists>r \<in> set rs. ri_attached r) \<longleftrightarrow> True \<in> set (map ri_attached rs)"
  "(\<forall>r \<in> set rs. \<not> ri_attached r) \<longleftrightarrow> True \<notin> set (map ri_attached rs)"
  "length (filter ri_attached rs) = count_list (map ri_attached rs) True"
  by (induction rs) auto

lemma maybe_launch_moves:
  assumes "maybe_launch_job job slot retries nd = (nd', launched)" and "node_ok h nd"
    and "retries \<longrightarrow> (\<forall>r \<in> set (rn_running nd). \<not> ri_attached r) \<and> (\<forall>s d n. rn_state nd = Some s \<longrightarrow> rt_task s \<noteq> Some (Asleep d n))"
  shows "rn_state nd' = rn_state nd" "node_ok h nd'"
    "phase_of nd' = (case rn_state nd of Some s \<Rightarrow> if launched \<and> retries then Running (rt_count s) else phase_of nd | None \<Rightarrow> Nothing)"
proof -
  from assms(1) obtain rs where rs: "map ri_attached rs = map ri_attached (rn_running nd)" and
    nd': "nd' = nd\<lparr>rn_running := rs @ (if launched then [\<lparr>ri_attached = retries \<and> rn_state nd \<noteq> None, ri_replaced = False\<rparr>] else [])\<rparr>"
    by (rule maybe_launch_cases)
  show "rn_state nd' = rn_state nd" by (simp add: nd')
  show "node_ok h nd'"
    using assms(2,3) unfolding node_ok_def attached_flags
    by (auto simp: nd' rs count_notin split: option.splits if_splits retry_task.splits)
  show "phase_of nd' = (case rn_state nd of Some s \<Rightarrow> if launched \<and> retries then Running (rt_count s) else phase_of nd | None \<Rightarrow> Nothing)"
    unfolding phase_of_def attached_flags by (auto simp: nd' rs split: option.splits)
qed

lemma start_retry_task_moves:
  assumes "start_retry_task isoformat job_digest backend l (Some job) now d n s nd stream = (nd', stream')"
    and "rn_host nd = h" "\<forall>r \<in> set (rn_running nd). \<not> ri_attached r" "n = rt_count s" "n \<ge> 1"
  shows "node_ok h nd'" "phase_of nd' = Armed n" "stream' = stream \<or> newest_of stream' = Newest h (Some n)"
    "top_ok stream \<Longrightarrow> top_ok stream'" "\<exists>s'. rn_state nd' = Some s' \<and> rt_task s' = Some (Asleep d n)"
  using assms by (auto simp: start_retry_task_def arm_retry_def node_ok_def phase_of_def append_retry_record_top filter_False)

lemma without_instance:
  assumes "node_ok h nd" "i < length (rn_running nd)" and "nd1 = nd\<lparr>rn_running := take i (rn_running nd) @ drop (Suc i) (rn_running nd)\<rparr>"
  shows "node_ok h nd1" "phase_of nd1 = (if ri_attached (rn_running nd ! i) then Nothing else phase_of nd)"
    "ri_attached (rn_running nd ! i) \<Longrightarrow> r \<in> set (rn_running nd1) \<Longrightarrow> \<not> ri_attached r"
proof -
  let ?bs = "map ri_attached (rn_running nd)" and ?cs = "map ri_attached (rn_running nd1)"
  have b: "?bs = take i ?bs @ ?bs ! i # drop (Suc i) ?bs" by (rule id_take_nth_drop) (simp add: assms(2))
  have c: "?cs = take i ?bs @ drop (Suc i) ?bs" by (simp add: assms(3) take_map drop_map)
  have one: "count_list ?bs True \<le> 1" using node_okD(4) [OF assms(1)] by (simp only: attached_flags)
  have count: "count_list ?bs True = count_list ?cs True + (if ri_attached (rn_running nd ! i) then 1 else 0)"
    using arg_cong [OF b, of "\<lambda>xs. count_list xs True"] assms(2) by (simp add: c)
  have mem: "True \<in> set ?bs \<longleftrightarrow> True \<in> set ?cs \<or> ri_attached (rn_running nd ! i)"
    using arg_cong [OF b, of set] assms(2) by (auto simp: c)
  have none: "ri_attached (rn_running nd ! i) \<Longrightarrow> True \<notin> set ?cs"
    using count one by (metis add_le_same_cancel2 count_list_0_iff le_zero_eq)
  show "ri_attached (rn_running nd ! i) \<Longrightarrow> r \<in> set (rn_running nd1) \<Longrightarrow> \<not> ri_attached r"
    using none by force
  have state: "rn_state nd1 = rn_state nd" "rn_host nd1 = rn_host nd" by (simp_all add: assms(3))
  show "node_ok h nd1"
    using assms(1) one count mem unfolding node_ok_def attached_flags state
    by (auto split: option.splits retry_task.splits)
  show "phase_of nd1 = (if ri_attached (rn_running nd ! i) then Nothing else phase_of nd)"
    using none mem node_okD(3) [OF assms(1)] assms(2) unfolding phase_of_def attached_flags state
    by (auto split: option.splits retry_task.splits)
qed

lemma node_ok_completed [simp]: "node_ok h (nd\<lparr>rn_last_completed := t\<rparr>) = node_ok h nd"
  "phase_of (nd\<lparr>rn_last_completed := t\<rparr>) = phase_of nd"
  by (simp_all add: node_ok_def phase_of_def split: option.split retry_task.split)

lemma handle_job_failure_moves:
  assumes "handle_job_failure isoformat job_digest backend l stopping (Some job) now job attached nd stream = (nd', stream', e)"
    and "node_ok h nd" and "attached \<Longrightarrow> phase_of nd = Nothing \<and> (\<forall>r \<in> set (rn_running nd). \<not> ri_attached r)"
  shows "node_ok h nd'" "top_ok stream \<Longrightarrow> top_ok stream'"
    "phase_of nd' = phase_of nd \<and> stream' = stream \<or>
     phase_of nd' = Nothing \<and> (stream' = stream \<or> newest_of stream' = Newest h None) \<or>
     (\<exists>s. attached \<and> rn_state nd = Some s \<and> phase_of nd' = Armed (Suc (rt_count s)) \<and>
        (stream' = stream \<or> newest_of stream' = Newest h (Some (Suc (rt_count s)))))"
proof -
  have "node_ok h nd' \<and> (top_ok stream \<longrightarrow> top_ok stream') \<and> (phase_of nd' = phase_of nd \<and> stream' = stream \<or>
     phase_of nd' = Nothing \<and> (stream' = stream \<or> newest_of stream' = Newest h None) \<or>
     (\<exists>s. attached \<and> rn_state nd = Some s \<and> phase_of nd' = Armed (Suc (rt_count s)) \<and>
        (stream' = stream \<or> newest_of stream' = Newest h (Some (Suc (rt_count s))))))"
  proof (cases "rn_state nd")
    case None
    then show ?thesis using assms by (auto simp: handle_job_failure_def split: if_splits)
  next
    case (Some s)
    show ?thesis
    proof (cases "stopping \<or> \<not> attached")
      case True
      then show ?thesis using assms Some by (auto simp: handle_job_failure_def split: if_splits)
    next
      case live: False
      show ?thesis
      proof (cases "int (rt_count s) \<ge> rc_maximum (jc_retry job) \<and> rc_maximum (jc_retry job) \<noteq> -1")
        case True
        then have "cancel_job_retries isoformat backend l (Some ''exhausted'') now nd stream = (nd', stream')"
          using assms(1) Some live by (auto simp: handle_job_failure_def split: prod.splits)
        from cancel_job_retries_moves [OF this assms(2)] show ?thesis by auto
      next
        case False
        then have "start_retry_task isoformat job_digest backend l (Some job) now (rt_delay s) (Suc (rt_count s))
            (snd (next_delay s)) nd stream = (nd', stream')"
          using assms(1) Some live by (auto simp: handle_job_failure_def next_delay_def split: prod.splits)
        from start_retry_task_moves [OF this node_okD(1) [OF assms(2)]] assms(3) live Some show ?thesis
          by (auto simp: next_delay_def)
      qed
    qed
  qed
  then show "node_ok h nd'" "top_ok stream \<Longrightarrow> top_ok stream'"
    "phase_of nd' = phase_of nd \<and> stream' = stream \<or>
     phase_of nd' = Nothing \<and> (stream' = stream \<or> newest_of stream' = Newest h None) \<or>
     (\<exists>s. attached \<and> rn_state nd = Some s \<and> phase_of nd' = Armed (Suc (rt_count s)) \<and>
        (stream' = stream \<or> newest_of stream' = Newest h (Some (Suc (rt_count s)))))" by blast+
qed

text \<open>What a finished instance does to its node and the stream.\<close>

definition finish_effect :: "string \<Rightarrow> retry_node \<Rightarrow> body list \<Rightarrow> retry_node \<Rightarrow> body list \<Rightarrow> bool" where
  "finish_effect h nd stream nd' stream' \<longleftrightarrow>
     phase_of nd' = phase_of nd \<and> stream' = stream \<or>
     phase_of nd' = Nothing \<and> (stream' = stream \<or> newest_of stream' = Newest h None) \<or>
     (\<exists>m. phase_of nd = Running m \<and> phase_of nd' = Armed (Suc m) \<and>
        (stream' = stream \<or> newest_of stream' = Newest h (Some (Suc m))))"

lemma handle_finished_moves:
  assumes "handle_finished_job isoformat job_digest backend l stopping (Some job) now job i e nd stream = (nd', stream')"
    and "node_ok h nd" "i < length (rn_running nd)"
  shows "node_ok h nd' \<and> (top_ok stream \<longrightarrow> top_ok stream') \<and> finish_effect h nd stream nd' stream'"
proof -
  define nd1 where "nd1 = nd\<lparr>rn_running := take i (rn_running nd) @ drop (Suc i) (rn_running nd)\<rparr>"
  let ?r = "rn_running nd ! i" and ?nd2 = "nd1\<lparr>rn_last_completed := Some now\<rparr>"
  note w = without_instance [OF assms(2,3) nd1_def]
  have run: "phase_of nd = Running (rt_count s)" if "ri_attached ?r" "rn_state nd = Some s" for s
    using that assms(3) nth_mem by (fastforce simp: phase_of_def)
  have s1: "rn_state nd1 = rn_state nd" by (simp add: nd1_def)
  have ok2: "node_ok h ?nd2" using w(1) by simp
  consider "ri_replaced ?r" | "\<not> ri_replaced ?r" "e = FailedRun" | "\<not> ri_replaced ?r" "e \<noteq> FailedRun"
    by blast
  then show ?thesis
  proof cases
    case 1
    then have "nd' = nd1" "stream' = stream" using assms(1) by (simp_all add: handle_finished_job_def nd1_def)
    then show ?thesis using w(1,2) by (auto simp: finish_effect_def)
  next
    case 2
    then obtain p where "handle_job_failure isoformat job_digest backend l stopping (Some job) now job (ri_attached ?r) ?nd2 stream =
        (nd', stream', p)"
      using assms(1) by (auto simp: handle_finished_job_def Let_def nd1_def split: prod.splits)
    from handle_job_failure_moves [OF this ok2] w show ?thesis by (auto simp: finish_effect_def s1 run)
  next
    case 3
    then obtain settle where "cancel_job_retries isoformat backend l (Some settle) now ?nd2 stream = (nd', stream')"
      using assms(1) by (cases e) (auto simp: handle_finished_job_def handle_job_success_def Let_def nd1_def)
    from cancel_job_retries_moves [OF this ok2] show ?thesis by (auto simp: finish_effect_def)
  qed
qed

lemma launch_scheduled_moves:
  assumes "launch_scheduled_job isoformat backend l False True slot now job nd stream = (nd', stream', launched)" and "node_ok h nd"
  shows "node_ok h nd'" "top_ok stream \<Longrightarrow> top_ok stream'" "phase_of nd' \<in> {Nothing, Running 0}"
    "stream' = stream \<or> newest_of stream' = Newest h None"
proof -
  obtain nd1 stream1 where c: "cancel_job_retries isoformat backend l (Some ''superseded'') now nd stream = (nd1, stream1)"
    by fastforce
  note c' = cancel_job_retries_moves [OF c assms(2)]
  let ?nd2 = "if rc_maximum (jc_retry job) \<noteq> 0 then nd1\<lparr>rn_state := Some (new_retry_state (jc_retry job))\<rparr> else nd1"
  have m: "maybe_launch_job job slot True ?nd2 = (nd', launched)" and st: "stream' = stream1"
    using assms(1) by (auto simp: launch_scheduled_job_def c Let_def split: prod.splits)
  have n2: "node_ok h ?nd2" "\<forall>r \<in> set (rn_running ?nd2). \<not> ri_attached r"
    "\<forall>s d n. rn_state ?nd2 = Some s \<longrightarrow> rt_task s \<noteq> Some (Asleep d n)" "phase_of ?nd2 = Nothing"
    using c'(1,2) by (auto simp: node_ok_def new_retry_state_def filter_False phase_of_def)
  note r = maybe_launch_moves [OF m n2(1)]
  show "node_ok h nd'" using r(2) n2 by blast
  show "top_ok stream \<Longrightarrow> top_ok stream'" "stream' = stream \<or> newest_of stream' = Newest h None" using c'(3,4) by (auto simp: st)
  show "phase_of nd' \<in> {Nothing, Running 0}"
    using r(3) n2 c'(1) by (auto simp: new_retry_state_def split: option.splits if_splits)
qed

text \<open>A turn of an armed retry, where no hand-off happens and the store is required.\<close>

lemma end_task_simps [simp]: "rn_running (end_task nd) = rn_running nd" "rn_host (end_task nd) = rn_host nd"
  by (simp_all add: end_task_def)

lemma retry_turn_moves:
  assumes "retry_turn isoformat job_digest cfg slot_holder io n now nd stream = (nd', stream', t)"
    and job: "ro_job io = Some job" and stay: "\<not> ro_moved io"
    and cfg: "retry_cross_node_eligible cfg job" "sc_configured cfg" "sc_fail_closed cfg"
    and nd: "node_ok h nd" "rn_state nd = Some s" "rt_task s = Some (Asleep d n)"
  shows "node_ok h nd'" "top_ok stream \<Longrightarrow> top_ok stream'"
    "phase_of nd' = Armed n \<and> stream' = stream \<and> t \<noteq> Launched \<or>
     phase_of nd' = Nothing \<and> stream' = stream \<and> t \<noteq> Launched \<or>
     \<not> foreign_to h (newest_of stream) \<and> newest_of stream' = Newest h None \<and>
       (phase_of nd', t = Launched) \<in> {(Armed n, False), (Nothing, False), (Running n, True)}"
proof -
  have armed: "phase_of nd = Armed n" and host: "rn_host nd = h"
    and n: "n = rt_count s" "\<forall>r \<in> set (rn_running nd). \<not> ri_attached r"
    using node_okD(1,3) [OF nd(1)] nd(2,3) by (auto simp: phase_of_def)
  have backend: "sc_backend cfg" using cfg(1) by (simp add: retry_cross_node_eligible_def retry_resume_active_def)
  have "node_ok h nd' \<and> (top_ok stream \<longrightarrow> top_ok stream') \<and>
    (phase_of nd' = Armed n \<and> stream' = stream \<and> t \<noteq> Launched \<or>
     phase_of nd' = Nothing \<and> stream' = stream \<and> t \<noteq> Launched \<or>
     \<not> foreign_to h (newest_of stream) \<and> newest_of stream' = Newest h None \<and>
       (phase_of nd', t = Launched) \<in> {(Armed n, False), (Nothing, False), (Running n, True)})"
  proof (cases "ro_paused io \<or> \<not> ro_allows io")
    case True
    then show ?thesis using assms(1) job stay nd(1) armed
      by (auto simp: retry_turn_def wait_or_end_def split: if_splits)
  next
    case False
    obtain q stream1 where dec: "retry_consume_decision isoformat cfg job slot_holder (ro_acquired io) (ro_observed io) (ro_read io)
        (ro_landing io) h n now stream = (q, stream1)" by fastforce
    let ?settled = "settled_record isoformat h ''launched'' (Some (int n)) now"
    have q: "q = Defer \<and> stream1 = stream \<or> q = Abort \<and> stream1 = stream \<or>
      \<not> foreign_to h (newest_of stream) \<and> (q = Launch \<or> q = Defer) \<and> stream1 = append_retry_record (ro_landing io) ?settled stream \<and>
        (q = Launch \<longrightarrow> ro_landing io = Landed)"
      using dec cfg backend by (auto simp: retry_consume_decision_def retry_consume_ok_def Let_def split: if_splits)
    consider "q = Defer" | "q = Abort" | "q = Launch" by (cases q) auto
    then show ?thesis
    proof cases
      case 1
      then have "nd' = nd" "stream' = stream1" "t \<noteq> Launched"
        using assms(1) job False dec by (auto simp: retry_turn_def host wait_or_end_def split: if_splits)
      then show ?thesis using q 1 nd(1) armed by (auto simp: append_retry_record_top split: if_splits)
    next
      case 2
      then have "nd' = detach nd" "stream' = stream1" "t \<noteq> Launched"
        using assms(1) job False dec by (auto simp: retry_turn_def host)
      then show ?thesis using q 2 host by auto
    next
      case 3
      then obtain launched where m: "maybe_launch_job job (ro_slot io) True (end_task nd) = (nd', launched)"
        and st: "stream' = stream1" "t = Launched \<longleftrightarrow> launched"
        using assms(1) job False dec by (auto simp: retry_turn_def host split: prod.splits if_splits)
      have ended: "node_ok h (end_task nd)" "phase_of (end_task nd) = Nothing"
        "rn_state (end_task nd) = Some (s\<lparr>rt_task := Some Ended\<rparr>)"
        using nd n host by (auto simp: node_ok_def end_task_def phase_of_def filter_False)
      from maybe_launch_moves [OF m ended(1)] n(2) ended(3)
      have "node_ok h nd'" "phase_of nd' = (if launched then Running n else Nothing)"
        using ended(2) n(1) by auto
      then show ?thesis using q 3 st by (auto simp: append_retry_record_top)
    qed
  qed
  then show "node_ok h nd'" "top_ok stream \<Longrightarrow> top_ok stream'"
    "phase_of nd' = Armed n \<and> stream' = stream \<and> t \<noteq> Launched \<or>
     phase_of nd' = Nothing \<and> stream' = stream \<and> t \<noteq> Launched \<or>
     \<not> foreign_to h (newest_of stream) \<and> newest_of stream' = Newest h None \<and>
       (phase_of nd', t = Launched) \<in> {(Armed n, False), (Nothing, False), (Running n, True)}" by blast+
qed

lemma not_live_ladder:
  assumes "\<not> live_ladder nd"
  shows "phase_of nd = Nothing" "rn_running nd = []"
  using assms by (auto simp: live_ladder_def phase_of_def split: option.splits)

lemma attempt_of_Some:
  assumes "attempt_of parse rec = Some (m, t)"
  shows "dict_get rec ''attempt'' = Some (JInt (int m))" "m \<ge> 1"
  using assms by (auto simp: attempt_of_def split: option.splits json.splits if_splits)

lemma replay_delays_count [simp]: "rt_count (replay_delays n s) = rt_count s + n"
  by (induction n arbitrary: s) (auto simp: next_delay_def)

lemma claimable_newest:
  assumes "retry_record_claimable parse job_digest job now nd rec = Some (m, t)" and "top_ok (rec # stream)"
  shows "\<exists>g. newest_of (rec # stream) = Newest g (Some m)" "m \<ge> 1"
  using assms attempt_of_Some [of parse rec m]
  by (auto simp: retry_record_claimable_def top_ok_def newest_of_def Let_def split: option.splits if_splits json.splits)

lemma maybe_claim_moves:
  assumes "maybe_claim_retry parse isoformat job_digest cfg io (Some job) job rec now nd nd stream = (nd', stream')"
    and ok: "node_ok h nd" "top_ok stream"
  shows "node_ok h nd' \<and> top_ok stream' \<and>
    (nd' = nd \<and> stream' = stream \<or>
     nd' = nd \<and> phase_of nd = Nothing \<and> newest_of stream' = Newest h None \<or>
     (\<exists>g m. phase_of nd = Nothing \<and> newest_of stream = Newest g (Some m) \<and>
        newest_of stream' \<in> {Newest g (Some m), Newest h (Some m)} \<and>
        (nd' = nd \<or> phase_of nd' = Armed m \<and> rn_state nd' \<noteq> rn_state nd)))"
proof (cases "nd' = nd \<and> stream' = stream")
  case True
  then show ?thesis using ok by simp
next
  case False
  have host: "rn_host nd = h" using node_okD(1) [OF ok(1)] .
  obtain r m t c stream1 where
    g: "\<not> live_ladder nd" "retry_record_claimable parse job_digest job now nd r = Some (m, t)"
    and sec: "claim_retry_under_lease isoformat job_digest cfg io h job r m t now stream = (c, stream1)"
    and res: "(nd', stream') = (if \<not> c then (nd, stream1)
      else start_retry_task isoformat job_digest (sc_backend cfg) (cl_arm io) (Some job) now
             (max 0 (seconds_of (t - now))) m (replay_delays m (new_retry_state (jc_retry job))) nd stream1)"
    using assms(1) False unfolding maybe_claim_retry_def host
    by (auto split: if_splits option.splits prod.splits)
  note quiet = not_live_ladder [OF g(1)]
  have ph: "rn_state nd' \<noteq> rn_state nd" if "phase_of nd' = Armed m"
    "\<exists>s'. rn_state nd' = Some s' \<and> rt_task s' = Some (Asleep d m)" for d
    using that g(1) by (auto simp: live_ladder_def)
  consider (same) "stream1 = stream" "\<not> c" | (settled) "newest_of stream1 = Newest h None" "top_ok stream1" "\<not> c"
    | (claim) "take 1 stream = [r]" "stream1 = stream \<or> newest_of stream1 = Newest h (Some m) \<and> top_ok stream1"
    using sec attempt_of_Some(2) claimable_newest(2) [OF g(2), of "tl stream"] ok(2)
    by (cases stream)
      (auto simp: claim_retry_under_lease_def persist_retry_settled_def append_retry_record_top split: if_splits sum.splits)
  then show ?thesis
  proof cases
    case same
    then show ?thesis using res False by simp
  next
    case settled
    then show ?thesis using res ok quiet by simp
  next
    case claim
    then obtain rest where st: "stream = r # rest" by (cases stream) auto
    obtain q where q: "newest_of stream = Newest q (Some m)" and m: "m \<ge> 1"
      using claimable_newest [OF g(2)] ok(2) st by blast
    show ?thesis
    proof (cases c)
      case True
      then have "start_retry_task isoformat job_digest (sc_backend cfg) (cl_arm io) (Some job) now
          (max 0 (seconds_of (t - now))) m (replay_delays m (new_retry_state (jc_retry job))) nd stream1 = (nd', stream')"
        using res by simp
      from start_retry_task_moves [OF this host] quiet m
      show ?thesis using ph claim(2) ok(2) q quiet by (auto simp: new_retry_state_def)
    next
      case False
      then show ?thesis using res ok q quiet claim(2) by auto
    qed
  qed
qed

lemma rehydrate_moves:
  assumes "rehydrate_retry parse isoformat job_digest cfg read durable marked landing (Some job) job now nd stream = (nd', stream')"
    and ok: "node_ok h nd" "top_ok stream"
  shows "node_ok h nd' \<and> top_ok stream' \<and>
    (rn_state nd' = rn_state nd \<and> phase_of nd' = phase_of nd \<and> stream' = stream \<or>
     rn_state nd' = rn_state nd \<and> phase_of nd' = Nothing \<and> newest_of stream' = Newest h None \<or>
     (\<exists>m. phase_of nd = Nothing \<and> newest_of stream = Newest h (Some m) \<and> newest_of stream' = Newest h (Some m) \<and>
        phase_of nd' = Armed m \<and> rn_state nd' \<noteq> rn_state nd))"
proof (cases "nd' = nd \<and> stream' = stream")
  case True
  then show ?thesis using ok by simp
next
  case False
  have host: "rn_host nd = h" using node_okD(1) [OF ok(1)] .
  define nd1 where "nd1 = nd\<lparr>rn_last_completed := or_else (rn_last_completed nd)
    (case durable of Inr text \<Rightarrow> parsed parse text | Inl e \<Rightarrow> None)\<rparr>"
  obtain rec rest where st: "stream = rec # rest" "rn_state nd = None" "rn_running nd = []"
    "dict_get rec ''kind'' = Some (JString ''pending'')" "\<not> foreign_to h (newest_of stream)"
    and res: "(nd', stream') =
      (case validate_pending_retry parse job_digest job now (rn_last_completed nd1) rec of
         Settle reason n \<Rightarrow> (nd1, persist_retry_settled isoformat True landing h reason n now stream)
       | Rearm m t \<Rightarrow>
           if \<not> is_crontab (jc_schedule job) \<and> \<not> marked
           then (nd1, persist_retry_settled isoformat True landing h ''superseded-by-reboot'' (Some (int m)) now stream)
           else start_retry_task isoformat job_digest True landing (Some job) now
                  (max 0 (seconds_of (t - now))) m (replay_delays m (new_retry_state (jc_retry job))) nd1 stream)"
    using assms(1) False unfolding rehydrate_retry_def host nd1_def
    by (cases stream) (auto simp: Let_def split: if_splits)
  have nd1: "node_ok h nd1" "phase_of nd1 = Nothing" "rn_state nd1 = None" "rn_host nd1 = h" "rn_running nd1 = []"
    using ok(1) st(2,3) host by (simp_all add: nd1_def)
  show ?thesis
  proof (cases "\<exists>reason n. (nd', stream') = (nd1, persist_retry_settled isoformat True landing h reason n now stream)")
    case True
    then show ?thesis using nd1 ok(2) st(2) by (auto simp: persist_retry_settled_def append_retry_record_top)
  next
    case False
    then obtain m t where v: "attempt_of parse rec = Some (m, t)" and
      task: "start_retry_task isoformat job_digest True landing (Some job) now
          (max 0 (seconds_of (t - now))) m (replay_delays m (new_retry_state (jc_retry job))) nd1 stream = (nd', stream')"
      using res by (auto simp: validate_pending_retry_def Let_def split: pending_verdict.splits if_splits option.splits)
    have "newest_of stream = Newest h (Some m)"
      using st(1,4,5) attempt_of_Some [OF v] ok(2) by (auto simp: newest_of_def top_ok_def)
    with start_retry_task_moves [OF task nd1(4)] nd1 attempt_of_Some [OF v] ok(2) st(2,3)
    show ?thesis by (auto simp: new_retry_state_def)
  qed
qed

subsection \<open>The refinement\<close>

lemma ladders_of_put:
  "ladders_of (put_ladder h nd stream i w) =
     (ladders_of w)\<lparr>la_phase := (la_phase (ladders_of w))(h := phase_of nd), la_newest := newest_of stream,
       la_top := if stream = lw_stream w then lw_top w else i\<rparr>"
  by (auto simp: ladders_of_def put_ladder_def)

lemma ladders_of_ghosts [simp]:
  "ladders_of (w\<lparr>lw_fresh := f\<rparr>) = (ladders_of w)\<lparr>la_fresh := f\<rparr>"
  "ladders_of (w\<lparr>lw_launched := l\<rparr>) = (ladders_of w)\<lparr>la_launched := l\<rparr>"
  "ladders_of (w\<lparr>lw_id := i\<rparr>) = (ladders_of w)\<lparr>la_id := i\<rparr>"
  by (simp_all add: ladders_of_def)

lemma ladders_of_simps [simp]:
  "la_phase (ladders_of w) h = phase_of (lw_nodes w h)" "la_id (ladders_of w) = lw_id w"
  "la_newest (ladders_of w) = newest_of (lw_stream w)" "la_top (ladders_of w) = lw_top w"
  "la_fresh (ladders_of w) = lw_fresh w" "la_launched (ladders_of w) = lw_launched w"
  by (simp_all add: ladders_of_def)

definition nodes_ok :: "ladder_world \<Rightarrow> bool" where
  "nodes_ok w \<longleftrightarrow> (\<forall>h. node_ok h (lw_nodes w h)) \<and> top_ok (lw_stream w)"

lemma nodes_ok_put:
  assumes "nodes_ok w" "node_ok h nd" "top_ok stream"
  shows "nodes_ok (put_ladder h nd stream i w)" "nodes_ok ((put_ladder h nd stream i w)\<lparr>lw_id := j\<rparr>)"
    "nodes_ok ((put_ladder h nd stream i w)\<lparr>lw_launched := l\<rparr>)"
    "nodes_ok ((put_ladder h nd stream i w)\<lparr>lw_id := j, lw_fresh := f, lw_launched := l\<rparr>)"
  using assms by (simp_all add: nodes_ok_def put_ladder_def)

text \<open>Moves in the form the steps produce them.\<close>

lemma move_Stop:
  assumes "phase_of nd = Nothing" "stream = lw_stream w \<or> newest_of stream = Newest h None" "i \<in> {lw_top w, lw_id w h}"
  shows "ladder_move (ladders_of w) (ladders_of (put_ladder h nd stream i w))"
  using ladder_move.Stop [of "newest_of stream" "ladders_of w" h "if stream = lw_stream w then lw_top w else i"] assms
  by (auto simp: ladders_of_put)

lemma move_Stutter:
  assumes "phase_of nd = phase_of (lw_nodes w h)"
  shows "ladder_move (ladders_of w) (ladders_of (put_ladder h nd (lw_stream w) i w))"
proof -
  have "ladders_of (put_ladder h nd (lw_stream w) i w) = ladders_of w"
    using assms by (auto simp: ladders_of_def put_ladder_def)
  then show ?thesis using ladder_move.Stutter by simp
qed

end
