(* ===== verification/RetryProps.thy ===== *)
theory RetryProps
  imports RetryLadder ScheduleProps
begin

text \<open>
  Properties of the retries: no attempt of a ladder is launched twice across nodes, the ladder is the same
  after a restart, and two runs that show where the code departs from its documentation.
\<close>

subsection \<open>Every step is a move\<close>

lemma move_fields:
  assumes "ladder_move a b" "la_phase c = la_phase b" "la_id c = la_id b" "la_newest c = la_newest b" "la_top c = la_top b"
    "la_fresh c = la_fresh b" "la_launched c = la_launched b"
  shows "ladder_move a c"
proof -
  have "c = b" using assms(2-) by (intro ladders.equality) simp_all
  then show ?thesis using assms(1) by simp
qed

lemma fire_move:
  assumes ok: "nodes_ok w"
    and l: "launch_scheduled_job isoformat backend landing False True slot now job (lw_nodes w h) (lw_stream w) = (nd, stream, launched)"
    and w': "w' = (put_ladder h nd stream (lw_id w h) w)\<lparr>lw_id := (lw_id w)(h := lw_fresh w), lw_fresh := Suc (lw_fresh w),
      lw_launched := lw_launched w @ (if launched then [(lw_fresh w, 0)] else [])\<rparr>"
  shows "ladder_move (ladders_of w) (ladders_of w')" "nodes_ok w'"
proof -
  have "node_ok h (lw_nodes w h)" "top_ok (lw_stream w)" using ok by (simp_all add: nodes_ok_def)
  note m = launch_scheduled_moves [OF l this(1)]
  show "nodes_ok w'" using nodes_ok_put [OF ok m(1) m(2)] ok by (simp add: w' nodes_ok_def)
  show "ladder_move (ladders_of w) (ladders_of w')"
    by (rule move_fields, rule ladder_move.NewRun [of "phase_of nd" "newest_of stream" "ladders_of w" h
          "if stream = lw_stream w then lw_top w else lw_id w h"
          "lw_launched w @ (if launched then [(lw_fresh w, 0)] else [])"])
      (use m(3,4) in \<open>auto simp: w' ladders_of_put\<close>)
qed

lemma finish_move:
  assumes ok: "nodes_ok w" and e: "node_ok h nd" "finish_effect h (lw_nodes w h) (lw_stream w) nd stream"
  shows "ladder_move (ladders_of w) (ladders_of (put_ladder h nd stream (lw_id w h) w))"
  using e(2) unfolding finish_effect_def
proof (elim disjE exE conjE)
  assume "phase_of nd = phase_of (lw_nodes w h)" "stream = lw_stream w"
  then show ?thesis using move_Stutter by simp
next
  fix m assume m: "phase_of (lw_nodes w h) = Running m" "phase_of nd = Armed (Suc m)" "stream = lw_stream w"
  show ?thesis
    by (rule move_fields, rule ladder_move.Arm [of "ladders_of w" h m "newest_of stream" "lw_top w"])
      (use m in \<open>simp_all add: ladders_of_put\<close>)
next
  fix m assume m: "phase_of (lw_nodes w h) = Running m" "phase_of nd = Armed (Suc m)"
    "newest_of stream = Newest h (Some (Suc m))"
  show ?thesis
    by (rule move_fields, rule ladder_move.Arm [of "ladders_of w" h m "newest_of stream"
          "if stream = lw_stream w then lw_top w else lw_id w h"]) (use m in \<open>auto simp: ladders_of_put\<close>)
qed (use move_Stop in auto)

lemma turn_move:
  assumes armed: "phase_of (lw_nodes w h) = Armed n"
    and e: "phase_of nd = Armed n \<and> stream = lw_stream w \<and> t \<noteq> Launched \<or>
     phase_of nd = Nothing \<and> stream = lw_stream w \<and> t \<noteq> Launched \<or>
     \<not> foreign_to h (newest_of (lw_stream w)) \<and> newest_of stream = Newest h None \<and>
       (phase_of nd, t = Launched) \<in> {(Armed n, False), (Nothing, False), (Running n, True)}"
    and w': "w' = (put_ladder h nd stream (lw_id w h) w)\<lparr>lw_launched := lw_launched w @ (if t = Launched then [(lw_id w h, n)] else [])\<rparr>"
  shows "ladder_move (ladders_of w) (ladders_of w')"
  using e
proof (elim disjE conjE)
  assume "phase_of nd = Armed n" "stream = lw_stream w" "t \<noteq> Launched"
  then show ?thesis using move_Stutter [of nd w h] armed by (simp add: w' put_ladder_def ladders_of_def)
next
  assume "phase_of nd = Nothing" "stream = lw_stream w" "t \<noteq> Launched"
  then show ?thesis using move_Stop [of nd stream w h "lw_id w h"] by (simp add: w' put_ladder_def ladders_of_def)
next
  assume c: "\<not> foreign_to h (newest_of (lw_stream w))" "newest_of stream = Newest h None"
    "(phase_of nd, t = Launched) \<in> {(Armed n, False), (Nothing, False), (Running n, True)}"
  show ?thesis
    by (rule move_fields, rule ladder_move.Consume [of "ladders_of w" h n "if stream = lw_stream w then lw_top w else lw_id w h"
          "phase_of nd" "lw_launched w @ (if t = Launched then [(lw_id w h, n)] else [])"])
      (use c armed in \<open>auto simp: w' ladders_of_put\<close>)
qed

text \<open>A claim and a re-arming take the pending record, settle it, or leave everything as it is.\<close>

lemma take_move:
  assumes w': "w' = (put_ladder h nd stream (lw_top w) w)\<lparr>lw_id := (lw_id w)(h := if rn_state nd = rn_state (lw_nodes w h) then lw_id w h else lw_top w)\<rparr>"
    and e: "rn_state nd = rn_state (lw_nodes w h) \<and> phase_of nd = phase_of (lw_nodes w h) \<and> stream = lw_stream w \<or>
     rn_state nd = rn_state (lw_nodes w h) \<and> phase_of nd = Nothing \<and> newest_of stream = Newest h None \<or>
     (\<exists>g m. phase_of (lw_nodes w h) = Nothing \<and> newest_of (lw_stream w) = Newest g (Some m) \<and>
        newest_of stream \<in> {Newest g (Some m), Newest h (Some m)} \<and>
        (rn_state nd = rn_state (lw_nodes w h) \<and> phase_of nd = Nothing \<or> phase_of nd = Armed m \<and> rn_state nd \<noteq> rn_state (lw_nodes w h)))"
  shows "ladder_move (ladders_of w) (ladders_of w')"
  using e
proof (elim disjE conjE exE)
  assume "rn_state nd = rn_state (lw_nodes w h)" "phase_of nd = phase_of (lw_nodes w h)" "stream = lw_stream w"
  then show ?thesis using move_Stutter [of nd w h] by (simp add: w' put_ladder_def ladders_of_def)
next
  assume "rn_state nd = rn_state (lw_nodes w h)" "phase_of nd = Nothing" "newest_of stream = Newest h None"
  then show ?thesis using move_Stop [of nd stream w h "lw_top w"] by (simp add: w' put_ladder_def ladders_of_def)
next
  fix g m assume "phase_of (lw_nodes w h) = Nothing" "newest_of (lw_stream w) = Newest g (Some m)"
    "newest_of stream \<in> {Newest g (Some m), Newest h (Some m)}" "rn_state nd = rn_state (lw_nodes w h)" "phase_of nd = Nothing"
  then show ?thesis
    by (intro move_fields [OF ladder_move.Take [of "ladders_of w" h g m "newest_of stream" Nothing "lw_id w h"]]) (auto simp: w' ladders_of_put)
next
  fix g m assume "phase_of (lw_nodes w h) = Nothing" "newest_of (lw_stream w) = Newest g (Some m)"
    "newest_of stream \<in> {Newest g (Some m), Newest h (Some m)}" "rn_state nd \<noteq> rn_state (lw_nodes w h)" "phase_of nd = Armed m"
  then show ?thesis
    by (intro move_fields [OF ladder_move.Take [of "ladders_of w" h g m "newest_of stream" "Armed m" "lw_top w"]]) (auto simp: w' ladders_of_put)
qed

text \<open>A record that lands while it still says what its node is doing.\<close>

lemma land_move:
  assumes ok: "nodes_ok w" and h: "\<not> foreign_record h (lw_stream w)" and rec: "newest_of (rec # take 7 (lw_stream w)) = Newest h p"
    "top_ok (rec # take 7 (lw_stream w))" and p: "p = None \<or> (\<exists>m. p = Some m \<and> phase_of (lw_nodes w h) = Armed m)"
    and w': "w' = w\<lparr>lw_stream := append_retry_record Landed rec (lw_stream w), lw_top := lw_id w h\<rparr>"
  shows "ladder_move (ladders_of w) (ladders_of w') \<and> nodes_ok w'"
proof -
  have "ladders_of w' = (ladders_of w)\<lparr>la_newest := Newest h p, la_top := la_id (ladders_of w) h\<rparr>"
    using rec(1) by (simp add: w' ladders_of_def append_retry_record_top)
  moreover have "ladder_move (ladders_of w) ((ladders_of w)\<lparr>la_newest := Newest h p, la_top := la_id (ladders_of w) h\<rparr>)"
    using h p by (intro ladder_move.Land) auto
  ultimately show ?thesis using ok rec(2) by (simp add: nodes_ok_def w' append_retry_record_top)
qed

lemma step_moves:
  assumes "ladder_step parse isoformat job_digest cfg job False w w'" and ok: "nodes_ok w"
    and cfg: "retry_cross_node_eligible cfg job" "sc_configured cfg" "sc_fail_closed cfg" and punctual: "\<not> lw_late w'"
  shows "ladder_move (ladders_of w) (ladders_of w') \<and> nodes_ok w'"
  using assms(1)
proof cases
  case (Fire landing slot now h nd stream launched)
  then show ?thesis using fire_move [OF ok Fire(2) Fire(1)] by blast
next
  have n: "node_ok h (lw_nodes w h)" and t: "top_ok (lw_stream w)" for h using ok by (simp_all add: nodes_ok_def)
  {
    case (Backfill slot h nd launched)
    note m = maybe_launch_moves [OF Backfill(2) n]
    have "phase_of nd = phase_of (lw_nodes w h)" using m(3) by (auto split: option.splits)
    then show ?thesis using move_Stutter nodes_ok_put(1) [OF ok _ t] m(2) by (simp add: Backfill(1))
  next
    case (Finish i h landing stopping now e nd stream)
    from handle_finished_moves [OF Finish(3) n Finish(2)] show ?thesis
      using finish_move [OF ok] nodes_ok_put(1) [OF ok] t by (simp add: Finish(1))
  next
    case (Turn h s delay k io slot_holder now nd stream q)
    have stay: "\<not> ro_moved io" using Turn(5) by simp
    note m = retry_turn_moves [OF Turn(6) Turn(4) stay cfg n Turn(2,3)]
    have "phase_of (lw_nodes w h) = Armed k"
      using node_okD(3) [OF n Turn(2,3)] Turn(2,3) by (auto simp: phase_of_def)
    then show ?thesis using turn_move [OF _ m(3) Turn(1)] nodes_ok_put(3) [OF ok m(1) m(2) [OF t]] by (simp add: Turn(1))
  next
    case (Claim io rec now h nd stream)
    note m = maybe_claim_moves [OF Claim(2) n t]
    then have "ladder_move (ladders_of w) (ladders_of w')" by (intro take_move [OF Claim(1)]) auto
    then show ?thesis using nodes_ok_put(2) [OF ok] m by (simp add: Claim(1))
  next
    case (Crash nd h)
    have "node_ok h nd" using Crash by (simp add: node_ok_def)
    then show ?thesis using move_Stop [of nd "lw_stream w" w h "lw_id w h"] nodes_ok_put(1) [OF ok _ t] Crash by simp
  next
    case (Rehydrate read durable marked landing now h nd stream)
    note m = rehydrate_moves [OF Rehydrate(2) n t]
    then have "ladder_move (ladders_of w) (ladders_of w')" by (intro take_move [OF Rehydrate(1)]) auto
    then show ?thesis using nodes_ok_put(2) [OF ok] m by (simp add: Rehydrate(1))
  next
    case (LandPending h s delay k rec not_before armed)
    have "phase_of (lw_nodes w h) = Armed k"
      using node_okD(3) [OF n LandPending(2,3)] LandPending(2,3) by (auto simp: phase_of_def)
    then show ?thesis using land_move [OF ok, of h rec "Some k" w'] LandPending by (simp add: append_retry_record_top)
  next
    case (LandSettled h rec reason k now)
    then show ?thesis using land_move [OF ok, of h rec None w'] by (simp add: append_retry_record_top)
  next
    case (Late rec i)
    then show ?thesis using punctual by simp
  }
qed

text \<open>The budget of a ladder.\<close>

definition budget_ok :: "JobConfig \<Rightarrow> ladder_world \<Rightarrow> bool" where
  "budget_ok job w \<longleftrightarrow>
     (\<forall>h s. rn_state (lw_nodes w h) = Some s \<longrightarrow> \<not> over_budget job (rt_count s)) \<and>
     (\<forall>i n. (i, n) \<in> set (lw_launched w) \<longrightarrow> \<not> over_budget job n)"

definition state_in_budget :: "JobConfig \<Rightarrow> retry_node \<Rightarrow> bool" where
  "state_in_budget job nd \<longleftrightarrow> (\<forall>s. rn_state nd = Some s \<longrightarrow> \<not> over_budget job (rt_count s))"

lemma cancel_state [simp]: "cancel_job_retries isoformat backend l settle now nd stream = (nd', stream') \<Longrightarrow> rn_state nd' = None"
  by (auto simp: cancel_job_retries_def split: option.splits)

lemma launch_state [simp]: "maybe_launch_job job slot retries nd = (nd', launched) \<Longrightarrow> rn_state nd' = rn_state nd"
  by (erule maybe_launch_cases) simp

lemma start_budget:
  "start_retry_task isoformat job_digest backend l live now d n s nd stream = (nd', stream') \<Longrightarrow>
    state_in_budget job nd' \<longleftrightarrow> \<not> over_budget job (rt_count s)"
  by (auto simp: start_retry_task_def arm_retry_def state_in_budget_def split: option.splits)

lemma fire_budget:
  assumes "launch_scheduled_job isoformat backend l False True slot now job nd stream = (nd', stream', launched)"
    and "rc_maximum (jc_retry job) \<ge> -1"
  shows "state_in_budget job nd'"
  using assms
  by (auto simp: launch_scheduled_job_def Let_def state_in_budget_def over_budget_def new_retry_state_def
      split: prod.splits if_splits dest!: launch_state cancel_state)

lemma finish_budget:
  assumes "handle_finished_job isoformat job_digest backend l stopping live now job i e nd stream = (nd', stream')"
    and "state_in_budget job nd"
  shows "state_in_budget job nd'"
proof -
  define nd2 where "nd2 = nd\<lparr>rn_running := take i (rn_running nd) @ drop (Suc i) (rn_running nd), rn_last_completed := Some now\<rparr>"
  have nd2: "rn_state nd2 = rn_state nd" by (simp add: nd2_def)
  have fail: "state_in_budget job nd3"
    if f: "handle_job_failure isoformat job_digest backend l stopping live now job a nd2 stream = (nd3, s3, q)" for a nd3 s3 q
  proof (cases "\<exists>s. rn_state nd = Some s \<and> \<not> stopping \<and> a \<and> \<not> (int (rt_count s) \<ge> rc_maximum (jc_retry job) \<and> rc_maximum (jc_retry job) \<noteq> -1)")
    case True
    then obtain s where s: "rn_state nd = Some s" "\<not> (int (rt_count s) \<ge> rc_maximum (jc_retry job) \<and> rc_maximum (jc_retry job) \<noteq> -1)"
      "\<not> stopping" "a" by blast
    then have "start_retry_task isoformat job_digest backend l live now (rt_delay s) (Suc (rt_count s)) (snd (next_delay s)) nd2 stream = (nd3, s3)"
      using f by (auto simp: handle_job_failure_def nd2 next_delay_def split: prod.splits)
    from start_budget [OF this, of job] s(2) show ?thesis by (auto simp: next_delay_def over_budget_def)
  next
    case False
    then show ?thesis using f assms(2) nd2
      by (auto simp: handle_job_failure_def state_in_budget_def split: option.splits if_splits prod.splits)
  qed
  show ?thesis
    using assms fail
    by (auto simp: handle_finished_job_def handle_job_success_def Let_def nd2_def state_in_budget_def
        split: if_splits run_end.splits prod.splits)
qed

lemma turn_budget:
  assumes "retry_turn isoformat job_digest cfg slot_holder io n now nd stream = (nd', stream', t)" "ro_job io = Some job"
    and "state_in_budget job nd"
  shows "state_in_budget job nd'"
proof -
  have ended: "state_in_budget job nd1" if "rn_state nd1 = rn_state (end_task nd)" for nd1
    using assms(3) that by (auto simp: state_in_budget_def end_task_def)
  have gone: "state_in_budget job nd1" if "rn_state nd1 = None" for nd1 using that by (simp add: state_in_budget_def)
  show ?thesis
    using assms(1,2) ended gone assms(3)
    by (auto simp: retry_turn_def abandon_retry_def Let_def split: if_splits prod.splits decision.splits dest!: launch_state)
qed

lemma claim_budget:
  assumes "maybe_claim_retry parse isoformat job_digest cfg io live job rec now nd nd stream = (nd', stream')" "state_in_budget job nd"
  shows "state_in_budget job nd'"
proof (cases "nd' = nd")
  case False
  then obtain r m t stream1 where r: "retry_record_claimable parse job_digest job now nd r = Some (m, t)"
    and task: "start_retry_task isoformat job_digest (sc_backend cfg) (cl_arm io) live now
      (max 0 (seconds_of (t - now))) m (replay_delays m (new_retry_state (jc_retry job))) nd stream1 = (nd', stream')"
    using assms(1) by (auto simp: maybe_claim_retry_def split: if_splits option.splits prod.splits)
  have "\<not> over_budget job m"
    using r by (auto simp: retry_record_claimable_def Let_def split: if_splits option.splits json.splits)
  with start_budget [OF task, of job] show ?thesis by (simp add: new_retry_state_def)
qed (use assms(2) in simp)

lemma rehydrate_budget:
  assumes "rehydrate_retry parse isoformat job_digest cfg read durable marked landing live job now nd stream = (nd', stream')"
    and "state_in_budget job nd"
  shows "state_in_budget job nd'"
proof (cases "rn_state nd' = rn_state nd")
  case False
  then obtain nd1 m t last_at rec l stream1 where v: "validate_pending_retry parse job_digest job now last_at rec = Rearm m t"
    and task: "start_retry_task isoformat job_digest True landing live now
      (max 0 (seconds_of (t - now))) m (replay_delays m (new_retry_state (jc_retry job))) nd1 stream = (nd', stream')"
    using assms(1) by (cases stream) (auto simp: rehydrate_retry_def Let_def split: if_splits pending_verdict.splits)
  have "\<not> over_budget job m"
    using v by (auto simp: validate_pending_retry_def Let_def split: if_splits option.splits)
  with start_budget [OF task, of job] show ?thesis by (simp add: new_retry_state_def)
qed (use assms(2) in \<open>simp add: state_in_budget_def\<close>)

lemma budget_ok_put:
  assumes "budget_ok job w" "state_in_budget job nd" "lw_launched w' = lw_launched w @ l" "\<forall>i n. (i, n) \<in> set l \<longrightarrow> \<not> over_budget job n"
    "lw_nodes w' = (lw_nodes w)(h := nd)"
  shows "budget_ok job w'"
  using assms by (auto simp: budget_ok_def state_in_budget_def)

lemma step_budget:
  assumes "ladder_step parse isoformat job_digest cfg job moves w w'" and b: "budget_ok job w"
    and max: "rc_maximum (jc_retry job) \<ge> -1" and ok: "\<forall>h. node_ok h (lw_nodes w h)"
  shows "budget_ok job w'"
proof -
  have n: "state_in_budget job (lw_nodes w h)" for h using b by (simp add: budget_ok_def state_in_budget_def)
  show ?thesis
    using assms(1)
  proof cases
    case (Fire landing slot now h nd stream launched)
    show ?thesis
      by (rule budget_ok_put [OF b fire_budget [OF Fire(2) max], where h = h])
        (use max in \<open>auto simp: Fire(1) put_ladder_def over_budget_def\<close>)
  next
    case (Backfill slot h nd launched)
    then have "state_in_budget job nd" using n [of h] launch_state [OF Backfill(2)] by (simp add: state_in_budget_def)
    then show ?thesis by (rule budget_ok_put [OF b, where h = h and l = "[]"]) (auto simp: Backfill(1) put_ladder_def)
  next
    case (Finish i h landing stopping now e nd stream)
    show ?thesis
      by (rule budget_ok_put [OF b finish_budget [OF Finish(3) n], where h = h and l = "[]"]) (auto simp: Finish(1) put_ladder_def)
  next
    case (Turn h s delay k io slot_holder now nd stream q)
    have "\<not> over_budget job k"
      using node_okD(3) [OF spec [OF ok] Turn(2,3)] n [of h] Turn(2) by (simp add: state_in_budget_def)
    then show ?thesis
      by (intro budget_ok_put [OF b turn_budget [OF Turn(6,4) n], where h = h]) (auto simp: Turn(1) put_ladder_def)
  next
    case (Claim io rec now h nd stream)
    show ?thesis
      by (rule budget_ok_put [OF b claim_budget [OF Claim(2) n], where h = h and l = "[]"]) (auto simp: Claim(1) put_ladder_def)
  next
    case (Crash nd h)
    then have "state_in_budget job nd" by (simp add: state_in_budget_def)
    then show ?thesis by (rule budget_ok_put [OF b, where h = h and l = "[]"]) (auto simp: Crash(1) put_ladder_def)
  next
    case (Rehydrate read durable marked landing now h nd stream)
    show ?thesis
      by (rule budget_ok_put [OF b rehydrate_budget [OF Rehydrate(2) n], where h = h and l = "[]"])
        (auto simp: Rehydrate(1) put_ladder_def)
  qed (use b in \<open>simp_all add: budget_ok_def\<close>)
qed

lemma step_late: "ladder_step parse isoformat job_digest cfg job moves w w' \<Longrightarrow> lw_late w \<Longrightarrow> lw_late w'"
  by (erule ladder_step.cases) (simp_all add: put_ladder_def)

lemma ladder_reachable_inv:
  assumes "ladder_reachable parse isoformat job_digest cfg job False w"
    and cfg: "retry_cross_node_eligible cfg job" "sc_configured cfg" "sc_fail_closed cfg" and max: "rc_maximum (jc_retry job) \<ge> -1"
    and "\<not> lw_late w"
  shows "ladder_inv (ladders_of w) \<and> nodes_ok w \<and> budget_ok job w"
  using assms(1,6)
proof induction
  case (Start w)
  have "\<not> ready (ladders_of w) h" "la_phase (ladders_of w) h = Nothing" for h
    using Start by (auto simp: ladder_init_def ready_def)
  moreover have "pending_of (newest_of (lw_stream w)) = None"
    using Start by (auto simp: ladder_init_def settled_on_top_def newest_of_def split: list.splits option.splits json.splits)
  ultimately have "ladder_inv (ladders_of w)"
    using Start by (auto simp: ladder_inv_def fresh_ok_def ready_ok_def pending_ok_def running_ok_def ladder_init_def)
  moreover have "nodes_ok w"
    using Start by (auto simp: nodes_ok_def node_ok_def top_ok_def ladder_init_def settled_on_top_def split: list.splits)
  ultimately show ?case using Start by (simp add: budget_ok_def ladder_init_def)
next
  case (Step w w')
  have IH: "ladder_inv (ladders_of w)" "nodes_ok w" "budget_ok job w" using Step.IH step_late [OF Step(2)] Step.prems by blast+
  then have "ladder_move (ladders_of w) (ladders_of w') \<and> nodes_ok w'" using step_moves [OF Step(2)] Step.prems cfg by blast
  moreover have "budget_ok job w'" using step_budget [OF Step(2) IH(3) max] IH(2) by (simp add: nodes_ok_def)
  ultimately show ?case using ladder_inv_move IH(1) by blast
qed

subsection \<open>Executions\<close>

text \<open>A world as it runs when the store answers, to build executions from.\<close>

definition stamp_text :: "int \<Rightarrow> string" where
  "stamp_text t = (if t = 2000000 then ''2'' else if t = 3000000 then ''3'' else ''60'')"

definition stamp_parse :: "string \<Rightarrow> int option" where
  "stamp_parse s = (if s = ''2'' then Some 2000000 else if s = ''3'' then Some 3000000 else if s = ''60'' then Some 60000000 else None)"

definition shared_store :: store_config where
  "shared_store = \<lparr>sc_backend = True, sc_configured = True, sc_fail_closed = True, sc_shared = True, sc_elect = True, sc_manager = True\<rparr>"

definition cold_world :: ladder_world where
  "cold_world = \<lparr>lw_nodes = (\<lambda>h. \<lparr>rn_host = h, rn_state = None, rn_running = [], rn_last_completed = None\<rparr>), lw_stream = [],
     lw_id = (\<lambda>_. 0), lw_top = 0, lw_fresh = 1, lw_launched = [], lw_late = False\<rparr>"

definition do_fire :: "string \<Rightarrow> int \<Rightarrow> ladder_world \<Rightarrow> ladder_world" where
  "do_fire h now w =
     (case launch_scheduled_job stamp_text True Landed False True True now night_job (lw_nodes w h) (lw_stream w) of
        (nd, stream, launched) \<Rightarrow>
          (put_ladder h nd stream (lw_id w h) w)\<lparr>lw_id := (lw_id w)(h := lw_fresh w), lw_fresh := Suc (lw_fresh w),
            lw_launched := lw_launched w @ (if launched then [(lw_fresh w, 0)] else [])\<rparr>)"

definition do_fail :: "landing \<Rightarrow> string \<Rightarrow> int \<Rightarrow> ladder_world \<Rightarrow> ladder_world" where
  "do_fail landing h now w =
     (if rn_running (lw_nodes w h) = [] then w
      else (case handle_finished_job stamp_text jc_name True landing False (Some night_job) now night_job 0 FailedRun
                   (lw_nodes w h) (lw_stream w) of
              (nd, stream) \<Rightarrow> put_ladder h nd stream (lw_id w h) w))"

definition turn_io :: "bool \<Rightarrow> bool \<Rightarrow> retry_io" where
  "turn_io allows moved = \<lparr>ro_job = Some night_job, ro_paused = False, ro_allows = allows, ro_moved = moved, ro_stopping = False,
     ro_acquired = True, ro_observed = None, ro_read = True, ro_landing = Landed, ro_slot = True\<rparr>"

definition do_turn :: "bool \<Rightarrow> bool \<Rightarrow> string \<Rightarrow> int \<Rightarrow> ladder_world \<Rightarrow> ladder_world" where
  "do_turn allows moved h now w =
     (case rn_state (lw_nodes w h) of
        None \<Rightarrow> w
      | Some s \<Rightarrow>
          (case rt_task s of
             Some (Asleep d n) \<Rightarrow>
               (case retry_turn stamp_text jc_name shared_store [] (turn_io allows moved) n now (lw_nodes w h) (lw_stream w) of
                  (nd, stream, t) \<Rightarrow>
                    (put_ladder h nd stream (lw_id w h) w)\<lparr>lw_launched := lw_launched w @ (if t = Launched then [(lw_id w h, n)] else [])\<rparr>)
           | _ \<Rightarrow> w))"

definition scan_io :: claim_io where
  "scan_io = \<lparr>cl_allows = True, cl_read = True, cl_acquired = True, cl_reread = True, cl_durable = Inr None,
     cl_settle = Landed, cl_claim = Landed, cl_arm = Landed\<rparr>"

definition do_claim :: "string \<Rightarrow> int \<Rightarrow> ladder_world \<Rightarrow> ladder_world" where
  "do_claim h now w =
     (case maybe_claim_retry stamp_parse stamp_text jc_name shared_store scan_io (Some night_job) night_job
             (case lw_stream w of [] \<Rightarrow> None | r # _ \<Rightarrow> Some r) now (lw_nodes w h) (lw_nodes w h) (lw_stream w) of
        (nd, stream) \<Rightarrow>
          (put_ladder h nd stream (lw_top w) w)\<lparr>lw_id := (lw_id w)(h := if rn_state nd = rn_state (lw_nodes w h) then lw_id w h else lw_top w)\<rparr>)"

abbreviation night_reachable :: "bool \<Rightarrow> ladder_world \<Rightarrow> bool" where
  "night_reachable \<equiv> ladder_reachable stamp_parse stamp_text jc_name shared_store night_job"

lemma cold_reachable: "night_reachable moves cold_world"
  by (rule ladder_reachable.Start) (simp add: ladder_init_def cold_world_def settled_on_top_def)

lemma reachable_do:
  assumes "night_reachable moves w"
  shows "night_reachable moves (do_fire h now w)" "night_reachable moves (do_fail landing h now w)"
    "night_reachable moves (do_claim h now w)" "moved \<longrightarrow> moves \<Longrightarrow> night_reachable moves (do_turn allows moved h now w)"
proof -
  have b: "sc_backend shared_store" by (simp add: shared_store_def)
  note step = ladder_reachable.Step [OF assms]
  show "night_reachable moves (do_fire h now w)"
    unfolding do_fire_def
    by (split prod.split, intro allI impI, split prod.split, intro allI impI, rule step, rule ladder_step.Fire) (simp add: b)
  show "night_reachable moves (do_fail landing h now w)"
  proof (cases "rn_running (lw_nodes w h) = []")
    case False
    then show ?thesis unfolding do_fail_def
      by simp (split prod.split, intro allI impI, rule step, rule ladder_step.Finish [where i = 0], simp_all add: b)
  qed (simp add: do_fail_def assms)
  show "night_reachable moves (do_claim h now w)"
    unfolding do_claim_def by (split prod.split, intro allI impI, rule step, rule ladder_step.Claim)
  show "night_reachable moves (do_turn allows moved h now w)" if "moved \<longrightarrow> moves"
  proof (cases "\<exists>s d n. rn_state (lw_nodes w h) = Some s \<and> rt_task s = Some (Asleep d n)")
    case True
    then obtain s d n where s: "rn_state (lw_nodes w h) = Some s" "rt_task s = Some (Asleep d n)" by blast
    show ?thesis unfolding do_turn_def s(1) option.case s(2) retry_task.case
      by (split prod.split, intro allI impI, split prod.split, intro allI impI, rule step, rule ladder_step.Turn [OF s])
        (use that in \<open>simp_all add: turn_io_def\<close>)
  next
    case False
    then have "do_turn allows moved h now w = w"
      by (auto simp: do_turn_def split: option.split retry_task.split)
    then show ?thesis using assms by simp
  qed
qed

subsection \<open>The properties\<close>

text \<open>
  C12. Retries across nodes.  On a shared store with \<open>onStoreUnavailable: fail-closed\<close>, however fires, ends of
  runs, due retries, claims, crashes and restarts of any nodes interleave, and whichever store accesses
  fail, no attempt of a retry ladder is launched twice and none beyond \<open>maximumRetries\<close>, as long as no
  ladder is handed off, no section under the claim lease outlives its lease, and no record lands too late:
  a queued pending record lands while its node is still armed for that attempt or never, and none lands
  over a record of another node.  \<open>late_pending_relaunches\<close> shows that the last condition is needed.
\<close>

theorem ladder_attempts_launched_once:
  assumes "ladder_reachable parse isoformat job_digest cfg job False w"
    and "retry_cross_node_eligible cfg job" "sc_configured cfg" "sc_fail_closed cfg" and "rc_maximum (jc_retry job) \<ge> -1"
    and "\<not> lw_late w"
  shows "distinct (lw_launched w) \<and>
    (\<forall>i n. (i, n) \<in> set (lw_launched w) \<longrightarrow> rc_maximum (jc_retry job) = -1 \<or> int n \<le> rc_maximum (jc_retry job))"
  using ladder_reachable_inv [OF assms] by (auto simp: ladder_inv_def budget_ok_def over_budget_def not_less)

definition claimed_run :: ladder_world where
  "claimed_run = do_turn True False ''b'' 60000000 (do_turn True False ''a'' 60000000 (do_claim ''b'' 60000000
     (do_fail Landed ''a'' 2000000 (do_fire ''a'' 1000000 cold_world))))"

theorem ladder_attempts_launched_once_witness:
  "lw_launched claimed_run = [(1, 0), (1, 1)] \<and> night_reachable False claimed_run \<and> distinct (lw_launched claimed_run)"
proof -
  have r: "night_reachable False claimed_run" unfolding claimed_run_def by (intro reachable_do cold_reachable) simp_all
  have "retry_cross_node_eligible shared_store night_job" "sc_configured shared_store" "sc_fail_closed shared_store"
    "rc_maximum (jc_retry night_job) \<ge> -1" "\<not> lw_late claimed_run" by code_simp+
  from ladder_attempts_launched_once [OF r this] have "distinct (lw_launched claimed_run)" by blast
  moreover have "lw_launched claimed_run = [(1, 0), (1, 1)]" by code_simp
  ultimately show ?thesis using r by blast
qed

text \<open>
  A consumption waits for the queued pending record of its attempt, but not for ever: when that record
  lands after the attempt was settled and launched, another node claims the attempt and launches it again.
\<close>

definition do_late :: "body \<Rightarrow> nat \<Rightarrow> ladder_world \<Rightarrow> ladder_world" where
  "do_late rec i w = w\<lparr>lw_stream := append_retry_record Landed rec (lw_stream w), lw_top := i, lw_late := True\<rparr>"

definition wedged_run :: ladder_world where
  "wedged_run = do_turn True False ''b'' 60000000 (do_claim ''b'' 60000000
     (do_late (pending_record stamp_text jc_name ''a'' night_job 1 3000000 2000000) 1 (do_turn True False ''a'' 3000000
     (do_fail Failed ''a'' 2000000 (do_fire ''a'' 1000000 cold_world)))))"

lemma late_pending_relaunches:
  "night_reachable False wedged_run \<and> lw_launched wedged_run = [(1, 0), (1, 1), (1, 1)]"
proof -
  have late: "night_reachable False (do_late rec i w)" if "night_reachable False w" for rec i w
    unfolding do_late_def by (rule ladder_reachable.Step [OF that ladder_step.Late])
  have "night_reachable False wedged_run" unfolding wedged_run_def by (intro reachable_do late cold_reachable) simp_all
  moreover have "lw_launched wedged_run = [(1, 0), (1, 1), (1, 1)]" by code_simp
  ultimately show ?thesis by blast
qed

text \<open>
  A hand-off record names its writer under \<open>fromHost\<close> only, and the check of a due retry compares \<open>host\<close>:
  an owner whose attempt was claimed, launched and failed elsewhere does not see that its ladder moved
  when a hand-off is on top, and launches the attempt again.
\<close>

definition handed_off_run :: ladder_world where
  "handed_off_run = do_turn True False ''a'' 64000000 (do_turn False True ''b'' 63000000 (do_fail Landed ''b'' 61000000
     (do_turn True False ''b'' 60000000 (do_claim ''b'' 60000000
     (do_fail Landed ''a'' 2000000 (do_fire ''a'' 1000000 cold_world))))))"

lemma handoff_relaunches_attempt:
  "night_reachable True handed_off_run \<and> lw_launched handed_off_run = [(1, 0), (1, 1), (1, 1)]"
proof -
  have "night_reachable True handed_off_run" unfolding handed_off_run_def by (intro reachable_do cold_reachable) simp_all
  moreover have "lw_launched handed_off_run = [(1, 0), (1, 1), (1, 1)]" by code_simp
  ultimately show ?thesis by blast
qed

text \<open>
  The comment on the pending write says that one that never lands only loses the durability of the retry.
  With cross-node resume, a due retry whose record was dropped finds the newest record of the ladder
  before it; when that is another node's, the retry is given up as claimed.
\<close>

lemma dropped_record_ends_retry:
  assumes "rn_state nd = Some s" "int (rt_count s) < rc_maximum (jc_retry job)"
    and cfg: "retry_cross_node_eligible cfg job" and other: "foreign_record (rn_host nd) stream"
    and fail: "handle_job_failure isoformat job_digest True Failed False (Some job) now job True nd stream = (nd1, stream1, permanent)"
    and io: "ro_job io = Some job" "\<not> ro_paused io" "ro_allows io" "ro_acquired io" "ro_read io"
  shows "stream1 = stream \<and> \<not> permanent \<and>
    retry_turn isoformat job_digest cfg slot_holder io (Suc (rt_count s)) later nd1 stream1 = (detach nd1, stream, Gone)"
proof -
  have n: "stream1 = stream" "\<not> permanent" "rn_host nd1 = rn_host nd"
    using fail assms(1,2)
    by (auto simp: handle_job_failure_def next_delay_def start_retry_task_def arm_retry_def append_retry_record_def split: if_splits)
  moreover have "retry_consume_decision isoformat cfg job slot_holder (ro_acquired io) (ro_observed io) (ro_read io)
      (ro_landing io) (rn_host nd) (Suc (rt_count s)) later stream = (Abort, stream)"
    using cfg other io by (simp add: retry_consume_decision_def)
  ultimately show ?thesis using io by (simp add: retry_turn_def)
qed

text \<open>The delays of a ladder, and that a microsecond instant survives the way through seconds.\<close>

lemma replay_delay:
  assumes "rt_multiplier s \<ge> 1" "rt_max_delay s > 0" "rt_delay s \<ge> 0"
  shows "rt_delay (replay_delays (Suc n) s) = min (rt_delay s * rt_multiplier s ^ Suc n) (rt_max_delay s)"
  using assms
proof (induction n arbitrary: s)
  case 0
  then show ?case by (simp add: next_delay_def)
next
  case (Suc n)
  let ?s = "snd (next_delay s)"
  have d: "rt_delay ?s = min (rt_delay s * rt_multiplier s) (rt_max_delay s)" "rt_multiplier ?s = rt_multiplier s"
    "rt_max_delay ?s = rt_max_delay s" by (simp_all add: next_delay_def)
  have pow: "rt_multiplier s ^ Suc n \<ge> 1" using Suc.prems(1) by (rule one_le_power)
  have "rt_delay (replay_delays (Suc n) ?s) = min (rt_delay ?s * rt_multiplier s ^ Suc n) (rt_max_delay s)"
    using Suc.IH [of ?s] Suc.prems d by simp
  also have "\<dots> = min (rt_delay s * rt_multiplier s ^ Suc (Suc n)) (rt_max_delay s)"
  proof (cases "rt_delay s * rt_multiplier s \<le> rt_max_delay s")
    case True
    then show ?thesis by (simp add: d min_def mult.assoc)
  next
    case False
    then have "rt_max_delay s * 1 \<le> rt_max_delay s * rt_multiplier s ^ Suc n"
      using pow Suc.prems(2) by (intro mult_left_mono) simp_all
    moreover have "rt_max_delay s * rt_multiplier s ^ Suc n \<le> rt_delay s * rt_multiplier s * rt_multiplier s ^ Suc n"
      using False pow by (intro mult_right_mono) simp_all
    ultimately have "rt_max_delay s \<le> rt_delay s * rt_multiplier s ^ Suc (Suc n)"
      "rt_max_delay s \<le> rt_max_delay s * rt_multiplier s ^ Suc n" by (simp_all add: mult.assoc)
    then show ?thesis using False by (simp add: d min_absorb2 del: power_Suc)
  qed
  finally show ?case by simp
qed

lemma micros_seconds: "micros (seconds_of t) = t"
  by (simp add: micros_def seconds_of_def)

lemma micros_remaining: "now + micros (max 0 (seconds_of (t - now))) = max now t"
  using micros_seconds [of "t - now"] micros_seconds [of 0] by (auto simp: max_def seconds_of_def)


definition armed_night :: "retry_node \<times> body list" where
  "armed_night = start_retry_task stamp_text jc_name True Landed (Some night_job) 2000000 1 1
     (replay_delays 1 (new_retry_state (jc_retry night_job))) (lw_nodes cold_world ''a'') []"


end
