(* ===== verification/StateNames.thy ===== *)
theory StateNames
  imports Prelude
begin

text \<open>
  File names of the durable store (\<open>state.py\<close>): the token \<open>_fs_safe\<close> gives a stream, lease,
  namespace or document name, its fragment form for prefix matching, and the way back through
  \<open>urllib.parse.unquote\<close>.  A name is represented by the bytes of its UTF-8 (surrogatepass)
  encoding, the only form in which the code reads it; the SHA-256 hex digest of the standard
  library is a parameter.  The lemmas show that the encoder has an inverse on the tokens it does
  not truncate, that this inverse does not look at letter case, and that a truncated token can be
  told from the others.
\<close>

subsection \<open>Encoding\<close>

text \<open>The set \<open>_FS_SAFE\<close>: lower-case letters, digits, underscore, hyphen.\<close>

definition is_fs_safe :: "char \<Rightarrow> bool" where
  "is_fs_safe c \<longleftrightarrow>
     97 \<le> code_of c \<and> code_of c \<le> 122 \<or> is_digit c \<or> c = CHR ''_'' \<or> c = CHR ''-''"

definition hex_digit :: "nat \<Rightarrow> char" where
  "hex_digit n = (if n < 10 then char_of (48 + n) else char_of (55 + n))"

text \<open>\<open>"%{:02X}".format(byte)\<close>.\<close>

definition escape_byte :: "char \<Rightarrow> string" where
  "escape_byte c = [CHR ''%'', hex_digit (code_of c div 16), hex_digit (code_of c mod 16)]"

definition encode_byte :: "char \<Rightarrow> string" where
  "encode_byte c = (if is_fs_safe c then [c] else escape_byte c)"

definition fs_safe_fragment :: "string \<Rightarrow> string" where
  "fs_safe_fragment fragment = concat (map encode_byte fragment)"

definition WINDOWS_RESERVED :: "string list" where
  "WINDOWS_RESERVED =
     [''con'', ''prn'', ''aux'', ''nul''] @
     map (\<lambda>i. ''com'' @ show_nat i) [1..<10] @ map (\<lambda>i. ''lpt'' @ show_nat i) [1..<10]"

definition FS_SAFE_MAX :: nat where
  "FS_SAFE_MAX = 130"

definition FS_TRUNCATION_MARKER :: string where
  "FS_TRUNCATION_MARKER = ''%.''"

definition fs_safe :: "(string \<Rightarrow> string) \<Rightarrow> string \<Rightarrow> string" where
  "fs_safe sha256_hex name =
     (let out = fs_safe_fragment name;
          token = (if out = [] then ''_'' else out);
          token1 = (if token \<in> set WINDOWS_RESERVED then escape_byte (hd token) @ tl token else token)
      in if FS_SAFE_MAX < length token1
         then take (FS_SAFE_MAX - 34) token1 @ FS_TRUNCATION_MARKER @ take 32 (sha256_hex name)
         else token1)"

text \<open>\<open>marker in token\<close>: a contiguous occurrence.\<close>

fun in_string :: "string \<Rightarrow> string \<Rightarrow> bool" where
  "in_string p [] = (p = [])"
| "in_string p (c # s) = (prefix p (c # s) \<or> in_string p s)"

abbreviation truncated :: "string \<Rightarrow> bool" where
  "truncated token \<equiv> in_string FS_TRUNCATION_MARKER token"

subsection \<open>Decoding\<close>

definition is_hex :: "char \<Rightarrow> bool" where
  "is_hex c \<longleftrightarrow> is_digit c \<or> 65 \<le> code_of c \<and> code_of c \<le> 70 \<or> 97 \<le> code_of c \<and> code_of c \<le> 102"

definition hex_value :: "char \<Rightarrow> nat" where
  "hex_value c =
     (if is_digit c then code_of c - 48
      else if code_of c \<le> 70 then code_of c - 55 else code_of c - 87)"

text \<open>\<open>unquote\<close> replaces each escape of two hex digits, in either case, by its byte.\<close>

fun unquote :: "string \<Rightarrow> string" where
  "unquote [] = []"
| "unquote (c # r) =
     (case r of
        a # b # r' \<Rightarrow>
          if c = CHR ''%'' \<and> is_hex a \<and> is_hex b
          then char_of (16 * hex_value a + hex_value b) # unquote r' else c # unquote r
      | _ \<Rightarrow> c # unquote r)"

subsection \<open>The encoder and its inverse\<close>

lemma hex_digit_ok:
  assumes "n < 16"
  shows "is_hex (hex_digit n)" and "hex_value (hex_digit n) = n"
    and "is_hex (lower_char (hex_digit n))" and "hex_value (lower_char (hex_digit n)) = n"
  using assms by (auto simp: is_hex_def hex_value_def hex_digit_def is_digit_def lower_char_def)

lemma code_of_less [simp]: "code_of c < 256"
  by (metis nat_of_char_less_256)

lemma unquote_pair:
  assumes "is_hex a" "is_hex b" "hex_value a = code_of c div 16" "hex_value b = code_of c mod 16"
  shows "unquote (CHR ''%'' # a # b # s) = c # unquote s"
proof -
  have "(char_of (16 * (code_of c div 16) + code_of c mod 16) :: char) = c"
    unfolding mult_div_mod_eq by simp
  with assms show ?thesis by simp
qed

lemma nibbles: "code_of c div 16 < 16" "code_of c mod 16 < 16"
  using code_of_less [of c] by (simp_all add: less_mult_imp_div_less)

lemma unquote_escape: "unquote (escape_byte c @ s) = c # unquote s"
  by (simp add: escape_byte_def unquote_pair nibbles hex_digit_ok del: unquote.simps)

lemma percent_not_safe: "is_fs_safe c \<Longrightarrow> c \<noteq> CHR ''%''"
  by (auto simp: is_fs_safe_def is_digit_def)

lemma unquote_plain: "c \<noteq> CHR ''%'' \<Longrightarrow> unquote (c # s) = c # unquote s"
  by (auto split: list.splits)

lemma unquote_encode: "unquote (encode_byte c @ s) = c # unquote s"
  by (auto simp: encode_byte_def unquote_escape unquote_plain percent_not_safe simp del: unquote.simps)

lemma unquote_fragment: "unquote (fs_safe_fragment s) = s"
  by (induction s) (simp_all add: fs_safe_fragment_def unquote_encode del: unquote.simps(2))

lemma lower_safe: "is_fs_safe c \<Longrightarrow> lower_char c = c"
  by (auto simp: is_fs_safe_def lower_char_def is_digit_def)

lemma unquote_lower_escape: "unquote (lower (escape_byte c) @ s) = c # unquote s"
  by (simp add: escape_byte_def lower_def lower_char_def [of "CHR ''%''"] unquote_pair nibbles
      hex_digit_ok del: unquote.simps)

lemma unquote_lower_encode: "unquote (lower (encode_byte c) @ s) = c # unquote s"
  using percent_not_safe [of c] lower_safe [of c]
  by (auto simp: encode_byte_def unquote_lower_escape unquote_plain lower_def [of "[c]"] simp del: unquote.simps)

lemma lower_append: "lower (s @ t) = lower s @ lower t"
  by (simp add: lower_def)

lemma unquote_lower_fragment: "unquote (lower (fs_safe_fragment s)) = s"
  by (induction s)
    (simp_all add: fs_safe_fragment_def lower_append unquote_lower_encode lower_def [of "[]"] del: unquote.simps(2))

subsection \<open>Natural and truncated tokens\<close>

definition natural_token :: "string \<Rightarrow> string" where
  "natural_token name =
     (let token = (if fs_safe_fragment name = [] then ''_'' else fs_safe_fragment name)
      in if token \<in> set WINDOWS_RESERVED then escape_byte (hd token) @ tl token else token)"

lemma fs_safe_natural:
  "fs_safe h name =
     (if FS_SAFE_MAX < length (natural_token name)
      then take (FS_SAFE_MAX - 34) (natural_token name) @ FS_TRUNCATION_MARKER @ take 32 (h name)
      else natural_token name)"
  by (simp add: fs_safe_def natural_token_def Let_def)

lemma fragment_empty [simp]: "fs_safe_fragment name = [] \<longleftrightarrow> name = []"
  by (cases name) (auto simp: fs_safe_fragment_def encode_byte_def escape_byte_def)

lemma reserved_plain: "t \<in> set WINDOWS_RESERVED \<Longrightarrow> t \<noteq> [] \<and> list_all (\<lambda>c. c \<noteq> CHR ''%'') t \<and> lower t = t"
proof -
  have "list_all (\<lambda>t. t \<noteq> [] \<and> list_all (\<lambda>c. c \<noteq> CHR ''%'') t \<and> lower t = t) WINDOWS_RESERVED"
    by code_simp
  then show "t \<in> set WINDOWS_RESERVED \<Longrightarrow> ?thesis" by (simp add: list_all_iff)
qed

lemma unquote_no_percent: "list_all (\<lambda>c. c \<noteq> CHR ''%'') t \<Longrightarrow> unquote t = t"
  by (induction t) (simp_all add: unquote_plain del: unquote.simps(2))

lemma unquote_natural:
  assumes "name \<noteq> []"
  shows "unquote (natural_token name) = name" and "unquote (lower (natural_token name)) = name"
proof -
  let ?t = "fs_safe_fragment name"
  have "unquote (natural_token name) = name \<and> unquote (lower (natural_token name)) = name"
  proof (cases "?t \<in> set WINDOWS_RESERVED")
    case True
    note r = reserved_plain [OF True]
    then obtain c cs where t: "?t = c # cs" by (cases ?t) auto
    from r t have cs: "unquote cs = cs" "unquote ?t = ?t" "lower cs = cs"
      using unquote_no_percent [of cs] unquote_no_percent [of ?t] by (auto simp: lower_def)
    then have "name = c # cs" using t unquote_fragment [of name] by simp
    moreover have "natural_token name = escape_byte c @ cs" using True t assms by (simp add: natural_token_def)
    ultimately show ?thesis using cs
      by (simp add: unquote_escape lower_append unquote_lower_escape del: unquote.simps(2))
  next
    case False
    then have "natural_token name = ?t" using assms by (simp add: natural_token_def)
    then show ?thesis by (simp add: unquote_fragment unquote_lower_fragment)
  qed
  then show "unquote (natural_token name) = name" and "unquote (lower (natural_token name)) = name" by auto
qed

text \<open>The characters a token can have.\<close>

definition token_char :: "char \<Rightarrow> bool" where
  "token_char c \<longleftrightarrow> is_fs_safe c \<or> c = CHR ''%'' \<or> 65 \<le> code_of c \<and> code_of c \<le> 70"

lemma hex_digit_token: "n < 16 \<Longrightarrow> token_char (hex_digit n)"
  by (auto simp: token_char_def hex_digit_def is_fs_safe_def is_digit_def)

lemma escape_token: "list_all token_char (escape_byte c)"
  by (simp add: escape_byte_def hex_digit_token nibbles) (simp add: token_char_def)

lemma safe_token: "is_fs_safe c \<Longrightarrow> token_char c"
  by (simp add: token_char_def)

lemma fragment_token: "list_all token_char (fs_safe_fragment s)"
  by (induction s) (auto simp: fs_safe_fragment_def encode_byte_def escape_token safe_token)

lemma natural_token_chars: "list_all token_char (natural_token name)"
proof -
  have "list_all token_char (escape_byte (hd t) @ tl t)" if "list_all token_char t" for t
    using that escape_token by (cases t) auto
  moreover have "token_char CHR ''_''" by (simp add: token_char_def is_fs_safe_def)
  ultimately show ?thesis using fragment_token [of name] by (simp add: natural_token_def Let_def)
qed

lemma natural_token_ne: "natural_token name \<noteq> []"
  by (simp add: natural_token_def Let_def escape_byte_def)

lemma natural_not_reserved: "natural_token name \<notin> set WINDOWS_RESERVED"
proof
  assume n: "natural_token name \<in> set WINDOWS_RESERVED"
  from reserved_plain [OF this] have "hd (natural_token name) \<noteq> CHR ''%''"
    by (cases "natural_token name") auto
  with n show False by (auto simp: natural_token_def Let_def escape_byte_def split: if_splits)
qed

lemma marker_dot: "truncated t \<Longrightarrow> CHR ''.'' \<in> set t"
  by (induction t) (auto simp: FS_TRUNCATION_MARKER_def prefix_def)

lemma natural_not_truncated: "\<not> truncated (natural_token name)"
proof -
  have "\<not> token_char CHR ''.''" by (simp add: token_char_def is_fs_safe_def is_digit_def)
  then show ?thesis using marker_dot natural_token_chars [of name] by (auto simp: list_all_iff)
qed

lemma in_string_append: "in_string p (xs @ p @ ys)"
  by (induction xs) (cases p; cases ys; auto)+

lemma truncated_iff: "truncated (fs_safe h name) \<longleftrightarrow> FS_SAFE_MAX < length (natural_token name)"
  by (simp add: fs_safe_natural natural_not_truncated in_string_append)

subsection \<open>Injectivity\<close>

text \<open>The shape of \<open>hexdigest()\<close>: 64 lower-case hexadecimal digits.\<close>

definition is_hexdigest :: "string \<Rightarrow> bool" where
  "is_hexdigest d \<longleftrightarrow> length d = 64 \<and> list_all (\<lambda>c. is_digit c \<or> 97 \<le> code_of c \<and> code_of c \<le> 102) d"

lemma lower_hexdigest: "is_hexdigest d \<Longrightarrow> lower d = d"
  unfolding is_hexdigest_def lower_def list_all_iff
  by (rule map_idI) (auto simp: lower_char_def is_digit_def)

lemma truncated_tail:
  assumes "FS_SAFE_MAX < length (natural_token name)" "is_hexdigest (h name)"
  shows "drop 98 (lower (fs_safe h name)) = take 32 (h name)"
proof -
  have "lower (take 32 (h name)) = take 32 (h name)"
    using lower_hexdigest [OF assms(2)] by (simp add: lower_def take_map [symmetric])
  then show ?thesis using assms(1)
    by (simp add: fs_safe_natural lower_append FS_SAFE_MAX_def FS_TRUNCATION_MARKER_def)
       (simp add: lower_def)
qed

lemma lower_dot: "CHR ''.'' \<in> set (lower t) \<longleftrightarrow> CHR ''.'' \<in> set t"
proof -
  have "c = CHR ''.''" if "lower_char c = CHR ''.''" for c
  proof (cases "65 \<le> code_of c \<and> code_of c \<le> 90")
    case True
    with that have "code_of (char_of (code_of c + 32)) = code_of CHR ''.''" by (simp add: lower_char_def)
    with True show ?thesis by simp
  next
    case False
    with that show ?thesis by (auto simp: lower_char_def)
  qed
  moreover have "lower_char CHR ''.'' = CHR ''.''" by (simp add: lower_char_def)
  ultimately have "lower_char c = CHR ''.'' \<longleftrightarrow> c = CHR ''.''" for c by auto
  then show ?thesis unfolding lower_def set_map image_iff by metis
qed

lemma dot_iff_truncated:
  "CHR ''.'' \<in> set (fs_safe h name) \<longleftrightarrow> FS_SAFE_MAX < length (natural_token name)"
proof -
  have "\<not> token_char CHR ''.''" by (simp add: token_char_def is_fs_safe_def is_digit_def)
  then show ?thesis
    using natural_token_chars [of name] by (auto simp: fs_safe_natural list_all_iff FS_TRUNCATION_MARKER_def)
qed

lemma fs_safe_lower_inj:
  assumes "lower (fs_safe h n) = lower (fs_safe h m)" and "n \<noteq> []" and "m \<noteq> []"
    and "\<And>x. is_hexdigest (h x)" and "take 32 (h n) = take 32 (h m) \<longrightarrow> n = m"
  shows "n = m"
proof (cases "FS_SAFE_MAX < length (natural_token n)")
  case True
  then have "FS_SAFE_MAX < length (natural_token m)"
    by (metis assms(1) dot_iff_truncated lower_dot)
  with True have "take 32 (h n) = take 32 (h m)"
    by (metis assms(1,4) truncated_tail)
  with assms(5) show ?thesis by simp
next
  case False
  then have "\<not> FS_SAFE_MAX < length (natural_token m)"
    by (metis assms(1) dot_iff_truncated lower_dot)
  with False assms(1) have "lower (natural_token n) = lower (natural_token m)" by (simp add: fs_safe_natural)
  then show ?thesis by (metis assms(2,3) unquote_natural(2))
qed

end
