(* ===== verification/StateLease.thy ===== *)
theory StateLease
  imports StateNames
begin

text \<open>
  TTL leases of the filesystem store (\<open>state.py\<close>).  A lease is one file, read and rewritten under
  an advisory lock; every operation is given the outcome of its input and output in an \<open>io\<close>
  record, so the fail-closed branches are branches of the model.  The second half is the system
  of holders around one lease: any holder acquires, renews with the lease it was last given,
  releases, and the garbage collector runs.  Its lemmas carry the two promises of a lease: a
  fence value is never given to two holders, and on a common clock two holders never hold the
  lease at once.
\<close>

subsection \<open>Input and output of one store operation\<close>

record io =
  lock_ok :: bool
  read_ok :: bool
  write_ok :: bool
  clock :: real
  file_clock :: real

datatype store_error = StoreOSError | DocumentUnreadable | TransformTypeError

subsection \<open>Lease files\<close>

record Lease =
  l_name :: string
  l_holder :: string
  l_fence :: int
  l_expires_at :: real

text \<open>The file under the lease path: its parsed content (nothing when it is corrupt) and its mtime.\<close>

datatype lease_file = LeaseAbsent | LeaseFile "Lease option" real

datatype lease_unreadable = LeaseUnreadable

definition read_lease_file :: "io \<Rightarrow> bool \<Rightarrow> lease_file \<Rightarrow> (lease_unreadable, Lease option) result" where
  "read_lease_file env strict f =
     (if \<not> read_ok env then (if strict then Inl LeaseUnreadable else Inr None)
      else (case f of
              LeaseAbsent \<Rightarrow> Inr None
            | LeaseFile None _ \<Rightarrow> if strict then Inl LeaseUnreadable else Inr None
            | LeaseFile (Some l) _ \<Rightarrow> Inr (Some l)))"

text \<open>The rewrite is atomic: it lands whole or raises \<open>OSError\<close> and leaves the old file.\<close>

definition write_lease_file :: "io \<Rightarrow> Lease \<Rightarrow> lease_file \<Rightarrow> lease_file \<times> bool" where
  "write_lease_file env l f =
     (if write_ok env then (LeaseFile (Some l) (file_clock env), True) else (f, False))"

subsection \<open>Acquire, renew, release, read\<close>

definition next_fence :: "Lease option \<Rightarrow> string \<Rightarrow> real \<Rightarrow> int" where
  "next_fence current holder now =
     (case current of
        None \<Rightarrow> 1
      | Some c \<Rightarrow> if l_holder c = holder \<and> l_expires_at c > now then l_fence c else l_fence c + 1)"

definition acquire_file ::
  "io \<Rightarrow> string \<Rightarrow> string \<Rightarrow> real \<Rightarrow> lease_file \<Rightarrow> lease_file \<times> Lease option" where
  "acquire_file env name holder ttl f =
     (case read_lease_file env True f of
        Inl _ \<Rightarrow> (f, None)
      | Inr current \<Rightarrow>
          (let now = clock env
           in if (case current of None \<Rightarrow> False | Some c \<Rightarrow> l_holder c \<noteq> holder \<and> l_expires_at c > now)
              then (f, None)
              else (let lease = \<lparr>l_name = name, l_holder = holder, l_fence = next_fence current holder now,
                                 l_expires_at = now + ttl\<rparr>
                    in case write_lease_file env lease f of
                         (f', landed) \<Rightarrow> (f', if landed then Some lease else None))))"

definition renew_file :: "io \<Rightarrow> Lease \<Rightarrow> real \<Rightarrow> lease_file \<Rightarrow> lease_file \<times> Lease option" where
  "renew_file env lease ttl f =
     (case read_lease_file env True f of
        Inl _ \<Rightarrow> (f, None)
      | Inr None \<Rightarrow> (f, None)
      | Inr (Some c) \<Rightarrow>
          if l_holder c \<noteq> l_holder lease \<or> l_fence c \<noteq> l_fence lease \<or> l_expires_at c \<le> 0
          then (f, None)
          else (let renewed = lease\<lparr>l_expires_at := clock env + ttl\<rparr>
                in case write_lease_file env renewed f of
                     (f', landed) \<Rightarrow> (f', if landed then Some renewed else None)))"

definition release_file :: "io \<Rightarrow> Lease \<Rightarrow> lease_file \<Rightarrow> lease_file" where
  "release_file env lease f =
     (case read_lease_file env True f of
        Inr (Some c) \<Rightarrow>
          if l_holder c = l_holder lease \<and> l_fence c = l_fence lease
          then fst (write_lease_file env (lease\<lparr>l_expires_at := 0\<rparr>) f) else f
      | _ \<Rightarrow> f)"

text \<open>The store's lease directory: one file per token.\<close>

type_synonym lease_dir = "string \<Rightarrow> lease_file"

definition acquire_sync ::
  "(string \<Rightarrow> string) \<Rightarrow> io \<Rightarrow> string \<Rightarrow> string \<Rightarrow> real \<Rightarrow> lease_dir \<Rightarrow>
   lease_dir \<times> (store_error, Lease option) result" where
  "acquire_sync sha256_hex env name holder ttl dir =
     (if \<not> lock_ok env then (dir, Inl StoreOSError)
      else (let token = fs_safe sha256_hex name; (f, r) = acquire_file env name holder ttl (dir token)
            in (dir(token := f), Inr r)))"

definition renew_sync ::
  "(string \<Rightarrow> string) \<Rightarrow> io \<Rightarrow> Lease \<Rightarrow> real \<Rightarrow> lease_dir \<Rightarrow>
   lease_dir \<times> (store_error, Lease option) result" where
  "renew_sync sha256_hex env lease ttl dir =
     (if \<not> lock_ok env then (dir, Inl StoreOSError)
      else (let token = fs_safe sha256_hex (l_name lease); (f, r) = renew_file env lease ttl (dir token)
            in (dir(token := f), Inr r)))"

definition release_sync ::
  "(string \<Rightarrow> string) \<Rightarrow> io \<Rightarrow> Lease \<Rightarrow> lease_dir \<Rightarrow> lease_dir \<times> (store_error, unit) result" where
  "release_sync sha256_hex env lease dir =
     (if \<not> lock_ok env then (dir, Inl StoreOSError)
      else (let token = fs_safe sha256_hex (l_name lease)
            in (dir(token := release_file env lease (dir token)), Inr ())))"

definition read_lease :: "(string \<Rightarrow> string) \<Rightarrow> io \<Rightarrow> string \<Rightarrow> lease_dir \<Rightarrow> Lease option" where
  "read_lease sha256_hex env name dir =
     (case read_lease_file env False (dir (fs_safe sha256_hex name)) of
        Inr (Some l) \<Rightarrow> if l_expires_at l \<le> 0 then None else Some l
      | _ \<Rightarrow> None)"

subsection \<open>Garbage collection of ephemeral leases\<close>

definition lease_dead_past_grace :: "io \<Rightarrow> lease_file \<Rightarrow> real \<Rightarrow> bool" where
  "lease_dead_past_grace env f cutoff =
     (case f of
        LeaseAbsent \<Rightarrow> False
      | LeaseFile _ mtime \<Rightarrow>
          (case read_lease_file env True f of
             Inr (Some l) \<Rightarrow> l_expires_at l < cutoff \<and> mtime < cutoff
           | _ \<Rightarrow> False))"

text \<open>
  One round of the sweep: an unlocked look, then the same judgement and the unlink under the lock.
  A lock that cannot be taken raises out of the sweep.
\<close>

definition gc_locked :: "io \<Rightarrow> real \<Rightarrow> lease_file \<Rightarrow> lease_file \<times> nat" where
  "gc_locked env cutoff f =
     (if \<not> lease_dead_past_grace env f cutoff then (f, 0)
      else if write_ok env then (LeaseAbsent, 1) else (f, 0))"

definition gc_lease ::
  "io \<Rightarrow> io \<Rightarrow> real \<Rightarrow> bool \<Rightarrow> string list \<Rightarrow> string \<Rightarrow> lease_file \<Rightarrow>
   lease_file \<times> (store_error, nat) result" where
  "gc_lease look env cutoff dry_run prefix_tokens token f =
     (if \<not> list_ex (\<lambda>p. prefix p token) prefix_tokens then (f, Inr 0)
      else if \<not> lease_dead_past_grace look f cutoff then (f, Inr 0)
      else if dry_run then (f, Inr 1)
      else if \<not> lock_ok env then (f, Inl StoreOSError)
      else (case gc_locked env cutoff f of (f', n) \<Rightarrow> (f', Inr n)))"

fun gc_leases_loop ::
  "(string \<Rightarrow> io \<times> io) \<Rightarrow> real \<Rightarrow> bool \<Rightarrow> string list \<Rightarrow> string list \<Rightarrow> lease_dir \<Rightarrow>
   lease_dir \<times> (store_error, nat) result" where
  "gc_leases_loop envs cutoff dry_run prefix_tokens [] dir = (dir, Inr 0)"
| "gc_leases_loop envs cutoff dry_run prefix_tokens (token # tokens) dir =
     (case gc_lease (fst (envs token)) (snd (envs token)) cutoff dry_run prefix_tokens token (dir token) of
        (f, Inl e) \<Rightarrow> (dir(token := f), Inl e)
      | (f, Inr n) \<Rightarrow>
          (case gc_leases_loop envs cutoff dry_run prefix_tokens tokens (dir(token := f)) of
             (dir', r) \<Rightarrow> (dir', bind_result r (\<lambda>k. Inr (n + k)))))"

definition gc_leases_sync ::
  "(string \<Rightarrow> io \<times> io) \<Rightarrow> real \<Rightarrow> bool \<Rightarrow> string list \<Rightarrow> string list \<Rightarrow> lease_dir \<Rightarrow>
   lease_dir \<times> (store_error, nat) result" where
  "gc_leases_sync envs cutoff dry_run ephemeral_prefixes listing dir =
     (let prefix_tokens = map fs_safe_fragment (filter (\<lambda>p. p \<noteq> []) ephemeral_prefixes)
      in if prefix_tokens = [] then (dir, Inr 0)
         else gc_leases_loop envs cutoff dry_run prefix_tokens listing dir)"

subsection \<open>What an operation can do to the file\<close>

text \<open>A granted acquire wrote the lease it returns; one that is not granted wrote nothing.\<close>

lemma acquire_file_cases:
  assumes "acquire_file env name holder ttl f = (f', r)"
  obtains (denied) "r = None" "f' = f"
  | (granted) current lease where
      "r = Some lease" "f' = LeaseFile (Some lease) (file_clock env)"
      "lease = \<lparr>l_name = name, l_holder = holder, l_fence = next_fence current holder (clock env),
                l_expires_at = clock env + ttl\<rparr>"
      "current = None \<and> f = LeaseAbsent \<or> (\<exists>c m. current = Some c \<and> f = LeaseFile (Some c) m)"
      "\<forall>c. current = Some c \<longrightarrow> l_holder c = holder \<or> l_expires_at c \<le> clock env"
proof (cases "read_lease_file env True f")
  case (Inl e)
  with assms denied show ?thesis by (auto simp: acquire_file_def)
next
  case (Inr current)
  then have cur: "current = None \<and> f = LeaseAbsent \<or> (\<exists>c m. current = Some c \<and> f = LeaseFile (Some c) m)"
    by (auto simp: read_lease_file_def split: if_splits lease_file.splits option.splits)
  show ?thesis
  proof (cases "write_ok env \<and> (\<forall>c. current = Some c \<longrightarrow> l_holder c = holder \<or> l_expires_at c \<le> clock env)")
    case True
    then show ?thesis using assms Inr granted [OF _ _ refl cur]
      by (auto simp: acquire_file_def write_lease_file_def Let_def not_less split: option.splits if_splits)
  next
    case False
    then show ?thesis using assms Inr denied
      by (auto simp: acquire_file_def write_lease_file_def Let_def split: option.splits if_splits)
  qed
qed

lemma renew_file_cases:
  assumes "renew_file env lease ttl f = (f', r)"
  obtains (denied) "r = None" "f' = f"
  | (renewed) c m where
      "r = Some (lease\<lparr>l_expires_at := clock env + ttl\<rparr>)"
      "f' = LeaseFile (Some (lease\<lparr>l_expires_at := clock env + ttl\<rparr>)) (file_clock env)"
      "f = LeaseFile (Some c) m" "l_holder c = l_holder lease" "l_fence c = l_fence lease" "0 < l_expires_at c"
  using assms
  by (auto simp: renew_file_def read_lease_file_def write_lease_file_def Let_def
      split: if_splits lease_file.splits option.splits)

lemma read_strict:
  "read_lease_file env True f = Inr (Some l) \<Longrightarrow> \<exists>m. f = LeaseFile (Some l) m"
  by (auto simp: read_lease_file_def split: if_splits lease_file.splits option.splits)

lemma release_file_cases:
  "release_file env lease f = f \<or>
   release_file env lease f = LeaseFile (Some (lease\<lparr>l_expires_at := 0\<rparr>)) (file_clock env) \<and>
   (\<exists>c m. f = LeaseFile (Some c) m \<and> l_holder c = l_holder lease \<and> l_fence c = l_fence lease)"
  unfolding release_file_def write_lease_file_def
  by (cases "read_lease_file env True f") (auto split: option.splits dest: read_strict)

lemma gc_locked_cases:
  "fst (gc_locked env cutoff f) = f \<or>
   fst (gc_locked env cutoff f) = LeaseAbsent \<and> (\<exists>l m. f = LeaseFile (Some l) m \<and> l_expires_at l < cutoff)"
  unfolding gc_locked_def lease_dead_past_grace_def
  by (cases "read_lease_file env True f"; cases f) (auto split: option.splits dest: read_strict)

text \<open>The sweep leaves every other file alone, and those of non-ephemeral names in any case.\<close>

lemma gc_lease_cases:
  assumes "gc_lease look env cutoff dry_run ps token f = (f', r)"
  shows "f' = f \<or> list_ex (\<lambda>p. prefix p token) ps \<and> f' = LeaseAbsent \<and>
           (\<exists>l m. f = LeaseFile (Some l) m \<and> l_expires_at l < cutoff)"
  using assms gc_locked_cases [of env cutoff f]
  by (cases "gc_locked env cutoff f") (auto simp: gc_lease_def split: if_splits)

lemma gc_leases_loop_file:
  assumes "gc_leases_loop envs cutoff dry_run ps tokens dir = (dir', r)"
  shows "dir' t = dir t \<or> list_ex (\<lambda>p. prefix p t) ps \<and> dir' t = LeaseAbsent \<and>
           (\<exists>l m. dir t = LeaseFile (Some l) m \<and> l_expires_at l < cutoff)"
  using assms
proof (induction tokens arbitrary: dir r)
  case (Cons token tokens)
  obtain f g where g: "gc_lease (fst (envs token)) (snd (envs token)) cutoff dry_run ps token (dir token) = (f, g)"
    by fastforce
  note swept = gc_lease_cases [OF g]
  show ?case
  proof (cases g)
    case (Inl e)
    with Cons.prems g swept show ?thesis by (auto split: if_splits)
  next
    case (Inr n)
    with Cons.prems g obtain r' where
      "gc_leases_loop envs cutoff dry_run ps tokens (dir(token := f)) = (dir', r')"
      by (auto split: prod.splits)
    from Cons.IH [OF this] swept show ?thesis by (auto split: if_splits)
  qed
qed simp

lemma gc_leases_file:
  assumes "gc_leases_sync envs cutoff dry_run eph listing dir = (dir', r)"
  shows "dir' t = dir t \<or>
           list_ex (\<lambda>p. p \<noteq> [] \<and> prefix (fs_safe_fragment p) t) eph \<and> dir' t = LeaseAbsent \<and>
           (\<exists>l m. dir t = LeaseFile (Some l) m \<and> l_expires_at l < cutoff)"
  using assms
    gc_leases_loop_file [of envs cutoff dry_run "map fs_safe_fragment (filter (\<lambda>p. p \<noteq> []) eph)" listing dir dir' r t]
  by (auto simp: gc_leases_sync_def Let_def list_ex_iff split: if_splits)

subsection \<open>The holders of one lease\<close>

text \<open>
  The system around the lease \<open>name\<close>: the directory, the latest clock reading, the lease each
  holder was last given and has not released, and every lease given out so far, newest first.
  With \<open>skew\<close> the clocks of the operations are unrelated; without it they do not run backwards.
\<close>

record lease_sys =
  s_dir :: lease_dir
  s_now :: real
  s_held :: "string \<Rightarrow> Lease option"
  s_grants :: "Lease list"

definition granted :: "Lease option \<Rightarrow> lease_sys \<Rightarrow> lease_sys" where
  "granted r s =
     (case r of
        None \<Rightarrow> s
      | Some l \<Rightarrow> s\<lparr>s_held := (s_held s)(l_holder l := Some l), s_grants := l # s_grants s\<rparr>)"

definition lease_init :: "(string \<Rightarrow> string) \<Rightarrow> string \<Rightarrow> lease_sys \<Rightarrow> bool" where
  "lease_init h name s \<longleftrightarrow>
     s_dir s (fs_safe h name) = LeaseAbsent \<and> s_held s = (\<lambda>_. None) \<and> s_grants s = []"

inductive lease_step ::
  "bool \<Rightarrow> (string \<Rightarrow> string) \<Rightarrow> string list \<Rightarrow> string \<Rightarrow> lease_sys \<Rightarrow> lease_sys \<Rightarrow> bool"
  for skew h eph name
where
  acquire: "skew \<or> s_now s \<le> clock env \<Longrightarrow> acquire_sync h env name holder ttl (s_dir s) = (dir, Inr r) \<Longrightarrow>
    lease_step skew h eph name s (granted r (s\<lparr>s_dir := dir, s_now := clock env\<rparr>))"
| renew: "skew \<or> s_now s \<le> clock env \<Longrightarrow> s_held s holder = Some lease \<Longrightarrow>
    renew_sync h env lease ttl (s_dir s) = (dir, Inr r) \<Longrightarrow>
    lease_step skew h eph name s (granted r (s\<lparr>s_dir := dir, s_now := clock env\<rparr>))"
| release: "s_held s holder = Some lease \<Longrightarrow> release_sync h env lease (s_dir s) = (dir, r) \<Longrightarrow>
    lease_step skew h eph name s (s\<lparr>s_dir := dir, s_held := (s_held s)(holder := None)\<rparr>)"
| collect: "skew \<or> cutoff \<le> s_now s \<Longrightarrow>
    gc_leases_sync envs cutoff dry_run eph listing (s_dir s) = (dir, r') \<Longrightarrow>
    lease_step skew h eph name s (s\<lparr>s_dir := dir\<rparr>)"
| elsewhere: "dir (fs_safe h name) = s_dir s (fs_safe h name) \<Longrightarrow>
    lease_step skew h eph name s (s\<lparr>s_dir := dir\<rparr>)"
| tick: "skew \<or> s_now s \<le> t \<Longrightarrow> lease_step skew h eph name s (s\<lparr>s_now := t\<rparr>)"

definition lease_reachable ::
  "bool \<Rightarrow> (string \<Rightarrow> string) \<Rightarrow> string list \<Rightarrow> string \<Rightarrow> lease_sys \<Rightarrow> bool" where
  "lease_reachable skew h eph name s \<longleftrightarrow>
     (\<exists>s0. lease_init h name s0 \<and> (lease_step skew h eph name)\<^sup>*\<^sup>* s0 s)"

lemma lease_reachable_induct [consumes 1, case_names init step]:
  assumes "lease_reachable skew h eph name s"
    and "\<And>s. lease_init h name s \<Longrightarrow> P s"
    and "\<And>s s'. P s \<Longrightarrow> lease_step skew h eph name s s' \<Longrightarrow> P s'"
  shows "P s"
proof -
  from assms(1) obtain s0 where "lease_init h name s0" and r: "(lease_step skew h eph name)\<^sup>*\<^sup>* s0 s"
    by (auto simp: lease_reachable_def)
  from r assms(2) [OF this(1)] show ?thesis by (induction rule: rtranclp_induct) (auto intro: assms(3))
qed

lemma granted_simps [simp]:
  "s_dir (granted r s) = s_dir s" "s_now (granted r s) = s_now s"
  "granted None s = s"
  "s_held (granted (Some l) s) = (s_held s)(l_holder l := Some l)"
  "s_grants (granted (Some l) s) = l # s_grants s"
  by (auto simp: granted_def split: option.splits)

lemma acquire_sync_file:
  "acquire_sync h env m holder ttl dir = (dir', Inr r) \<Longrightarrow>
   acquire_file env m holder ttl (dir (fs_safe h m)) = (dir' (fs_safe h m), r)"
  by (auto simp: acquire_sync_def Let_def split: if_splits prod.splits)

lemma renew_sync_file:
  "renew_sync h env lease ttl dir = (dir', Inr r) \<Longrightarrow>
   renew_file env lease ttl (dir (fs_safe h (l_name lease))) = (dir' (fs_safe h (l_name lease)), r)"
  by (auto simp: renew_sync_def Let_def split: if_splits prod.splits)

lemma sync_elsewhere:
  "acquire_sync h env m holder ttl dir = (dir', r1) \<Longrightarrow> t \<noteq> fs_safe h m \<Longrightarrow> dir' t = dir t"
  "renew_sync h env lease ttl dir = (dir', r2) \<Longrightarrow> t \<noteq> fs_safe h (l_name lease) \<Longrightarrow> dir' t = dir t"
  by (auto simp: acquire_sync_def renew_sync_def Let_def split: if_splits prod.splits)

lemma release_sync_file:
  assumes "release_sync h env lease dir = (dir', r)"
  shows "dir' t = dir t \<or> t = fs_safe h (l_name lease) \<and> dir' t = release_file env lease (dir t)"
  using assms by (auto simp: release_sync_def Let_def split: if_splits)

subsection \<open>Fencing\<close>

text \<open>
  Newer grants never carry a smaller fence, and an equal one only for the same holder; the file
  carries holder and fence of the newest grant.
\<close>

abbreviation fenced_by :: "Lease \<Rightarrow> Lease \<Rightarrow> bool" where
  "fenced_by newer older \<equiv>
     l_fence older \<le> l_fence newer \<and> (l_fence older = l_fence newer \<longrightarrow> l_holder older = l_holder newer)"

definition fence_inv :: "lease_file \<Rightarrow> Lease list \<Rightarrow> bool" where
  "fence_inv f gs \<longleftrightarrow>
     sorted_wrt fenced_by gs \<and>
     (case f of
        LeaseAbsent \<Rightarrow> gs = []
      | LeaseFile None _ \<Rightarrow> False
      | LeaseFile (Some l) _ \<Rightarrow> gs \<noteq> [] \<and> l_holder l = l_holder (hd gs) \<and> l_fence l = l_fence (hd gs))"

lemma fence_inv_push:
  assumes "fence_inv f gs" and "gs \<noteq> [] \<longrightarrow> fenced_by l (hd gs)"
  shows "fence_inv (LeaseFile (Some l) m) (l # gs)"
proof -
  have "fenced_by l g" if g: "g \<in> set gs" for g
  proof -
    obtain g0 gs' where gs: "gs = g0 # gs'" using g by (cases gs) auto
    with assms(1) have "g = g0 \<or> fenced_by g0 g" using g by (auto simp: fence_inv_def)
    then show ?thesis using assms(2) gs by auto
  qed
  then show ?thesis using assms(1) by (auto simp: fence_inv_def)
qed

lemma fence_inv_acquire:
  assumes "acquire_file env name holder ttl f = (f', r)" and "fence_inv f gs"
  shows "fence_inv f' (case r of None \<Rightarrow> gs | Some l \<Rightarrow> l # gs)"
  using assms(1)
proof (cases rule: acquire_file_cases)
  case denied
  with assms(2) show ?thesis by simp
next
  case (granted current lease)
  have "gs \<noteq> [] \<longrightarrow> fenced_by lease (hd gs)"
  proof (cases current)
    case None
    with granted assms(2) show ?thesis by (auto simp: fence_inv_def)
  next
    case (Some c)
    with granted(4) obtain m where "f = LeaseFile (Some c) m" by auto
    with assms(2) have "l_holder c = l_holder (hd gs)" "l_fence c = l_fence (hd gs)"
      by (auto simp: fence_inv_def)
    with Some granted(3) show ?thesis by (auto simp: next_fence_def)
  qed
  with granted(1,2) fence_inv_push [OF assms(2)] show ?thesis by simp
qed

lemma fence_inv_renew:
  assumes "renew_file env lease ttl f = (f', r)" and "fence_inv f gs"
  shows "fence_inv f' (case r of None \<Rightarrow> gs | Some l \<Rightarrow> l # gs)"
  using assms(1)
proof (cases rule: renew_file_cases)
  case denied
  with assms(2) show ?thesis by simp
next
  case (renewed c m)
  with assms(2) have "fenced_by (lease\<lparr>l_expires_at := clock env + ttl\<rparr>) (hd gs)"
    by (auto simp: fence_inv_def)
  with renewed(1,2) fence_inv_push [OF assms(2)] show ?thesis by simp
qed

lemma fence_inv_release: "fence_inv f gs \<Longrightarrow> fence_inv (release_file env lease f) gs"
  using release_file_cases [of env lease f] by (auto simp: fence_inv_def)

definition ephemeral :: "(string \<Rightarrow> string) \<Rightarrow> string list \<Rightarrow> string \<Rightarrow> bool" where
  "ephemeral h eph name \<longleftrightarrow> list_ex (\<lambda>p. p \<noteq> [] \<and> prefix (fs_safe_fragment p) (fs_safe h name)) eph"

lemma granted_grants: "s_grants (granted r s) = (case r of None \<Rightarrow> s_grants s | Some l \<Rightarrow> l # s_grants s)"
  by (simp add: granted_def split: option.splits)

lemma fence_inv_step:
  assumes "lease_step skew h eph name s s'" and "\<not> ephemeral h eph name"
    and "fence_inv (s_dir s (fs_safe h name)) (s_grants s)"
    and names: "\<And>a l. s_held s a = Some l \<Longrightarrow> l_name l = name"
  shows "fence_inv (s_dir s' (fs_safe h name)) (s_grants s')"
  using assms(1)
proof cases
  case (acquire env holder ttl dir r)
  from fence_inv_acquire [OF acquire_sync_file [OF acquire(3)] assms(3)] show ?thesis
    using acquire(1) by (simp add: granted_grants split: option.splits)
next
  case (renew env holder lease ttl dir r)
  from fence_inv_renew [OF renew_sync_file [OF renew(4)]] assms(3) names [OF renew(3)] show ?thesis
    using renew(1) by (simp add: granted_grants split: option.splits)
next
  case (release holder lease env dir r)
  show ?thesis using release(1) release_sync_file [OF release(3), of "fs_safe h name"] assms(3) fence_inv_release
    by auto
next
  case (collect cutoff envs dry_run listing dir r')
  show ?thesis using collect(1) gc_leases_file [OF collect(3), of "fs_safe h name"] assms(2,3)
    by (auto simp: ephemeral_def)
qed (use assms(3) in auto)

text \<open>Every lease in somebody's hands bears the lease's name and its holder's.\<close>

lemma held_step:
  assumes "lease_step skew h eph name s s'"
    and "\<And>a l. s_held s a = Some l \<Longrightarrow> l_name l = name \<and> l_holder l = a"
  shows "s_held s' a = Some l \<Longrightarrow> l_name l = name \<and> l_holder l = a"
  using assms(1)
proof cases
  case (acquire env holder ttl dir r)
  from acquire_sync_file [OF this(3)] show "s_held s' a = Some l \<Longrightarrow> ?thesis" using acquire(1) assms(2)
    by (cases rule: acquire_file_cases) (auto split: if_splits)
next
  case (renew env holder lease ttl dir r)
  from renew_sync_file [OF this(4)] show "s_held s' a = Some l \<Longrightarrow> ?thesis" using renew(1,3) assms(2)
    by (cases rule: renew_file_cases) (auto split: if_splits)
qed (use assms(2) in \<open>auto split: if_splits\<close>)

lemma reachable_held:
  assumes "lease_reachable skew h eph name s" and "s_held s a = Some l"
  shows "l_name l = name \<and> l_holder l = a"
proof -
  from assms(1) have "\<forall>a l. s_held s a = Some l \<longrightarrow> l_name l = name \<and> l_holder l = a"
    by (induction rule: lease_reachable_induct) (simp add: lease_init_def, blast dest: held_step)
  with assms(2) show ?thesis by blast
qed

lemma reachable_fence_inv:
  assumes "lease_reachable skew h eph name s" and "\<not> ephemeral h eph name"
  shows "fence_inv (s_dir s (fs_safe h name)) (s_grants s)"
proof -
  have "fence_inv (s_dir s (fs_safe h name)) (s_grants s) \<and>
        (\<forall>a l. s_held s a = Some l \<longrightarrow> l_name l = name \<and> l_holder l = a)"
    using assms(1)
  proof (induction rule: lease_reachable_induct)
    case (init s)
    then show ?case by (simp add: lease_init_def fence_inv_def)
  next
    case (step s s')
    then show ?case using fence_inv_step [OF step(2) assms(2)] held_step [OF step(2)] by blast
  qed
  then show ?thesis by simp
qed

subsection \<open>Mutual exclusion\<close>

text \<open>
  On a common clock a lease in somebody's hands that has not run out is the one in the file, and a
  lease in the file that was not released is the last one its holder was given.
\<close>

definition excl_inv :: "string \<Rightarrow> lease_file \<Rightarrow> real \<Rightarrow> (string \<Rightarrow> Lease option) \<Rightarrow> bool" where
  "excl_inv name f now held \<longleftrightarrow>
     (\<forall>a g. held a = Some g \<longrightarrow> l_name g = name \<and> l_holder g = a \<and>
              (now < l_expires_at g \<longrightarrow> (\<exists>m. f = LeaseFile (Some g) m))) \<and>
     (\<forall>l m. f = LeaseFile (Some l) m \<and> 0 < l_expires_at l \<longrightarrow> held (l_holder l) \<in> {None, Some l})"

lemma excl_inv_later: "excl_inv name f now held \<Longrightarrow> now \<le> t \<Longrightarrow> excl_inv name f t held"
  unfolding excl_inv_def by (meson less_le_trans le_less_trans)

text \<open>A lease may be given to a holder when nobody else's is still running.\<close>

lemma excl_inv_grant:
  assumes "excl_inv name f now held" and "l_name l = name"
    and "\<And>a g. held a = Some g \<Longrightarrow> a \<noteq> l_holder l \<Longrightarrow> l_expires_at g \<le> now"
  shows "excl_inv name (LeaseFile (Some l) m) now (held(l_holder l := Some l))"
  using assms unfolding excl_inv_def by (fastforce split: if_splits)

lemma excl_inv_acquire:
  assumes "acquire_file env name holder ttl f = (f', r)" and inv: "excl_inv name f (clock env) held"
  shows "excl_inv name f' (clock env) (case r of None \<Rightarrow> held | Some l \<Rightarrow> held(l_holder l := Some l))"
  using assms(1)
proof (cases rule: acquire_file_cases)
  case denied
  with inv show ?thesis by simp
next
  case (granted current lease)
  have "l_expires_at g \<le> clock env" if g: "held a = Some g" and "a \<noteq> holder" for a g
  proof (rule ccontr)
    assume "\<not> l_expires_at g \<le> clock env"
    with inv g obtain m where "f = LeaseFile (Some g) m" "l_holder g = a"
      unfolding excl_inv_def by (meson not_le)
    with granted(4,5) \<open>a \<noteq> holder\<close> \<open>\<not> l_expires_at g \<le> clock env\<close> show False by auto
  qed
  then show ?thesis using granted(1,2,3) excl_inv_grant [OF inv, of lease "file_clock env"] by simp
qed

lemma excl_inv_renew:
  assumes "renew_file env lease ttl f = (f', r)" and inv: "excl_inv name f (clock env) held"
    and "l_name lease = name"
  shows "excl_inv name f' (clock env) (case r of None \<Rightarrow> held | Some l \<Rightarrow> held(l_holder l := Some l))"
  using assms(1)
proof (cases rule: renew_file_cases)
  case denied
  with inv show ?thesis by simp
next
  case (renewed c m)
  have "l_expires_at g \<le> clock env" if g: "held a = Some g" and "a \<noteq> l_holder lease" for a g
  proof (rule ccontr)
    assume "\<not> l_expires_at g \<le> clock env"
    with inv g obtain m' where "f = LeaseFile (Some g) m'" "l_holder g = a"
      unfolding excl_inv_def by (meson not_le)
    with renewed(3,4) \<open>a \<noteq> l_holder lease\<close> show False by simp
  qed
  then show ?thesis
    using renewed(1,2) assms(3)
      excl_inv_grant [OF inv, of "lease\<lparr>l_expires_at := clock env + ttl\<rparr>" "file_clock env"] by simp
qed

text \<open>A holder releases the lease it was last given: whatever happens to the write, nobody else loses.\<close>

lemma excl_inv_release:
  assumes "excl_inv name f now held" and "held holder = Some lease"
  shows "excl_inv name (release_file env lease f) now (held(holder := None))"
    and "excl_inv name f now (held(holder := None))"
proof -
  have held: "\<And>a g. held a = Some g \<Longrightarrow> l_name g = name \<and> l_holder g = a"
    and valid: "\<And>a g. held a = Some g \<Longrightarrow> now < l_expires_at g \<Longrightarrow> \<exists>m. f = LeaseFile (Some g) m"
    using assms(1) by (auto simp: excl_inv_def)
  show drop: "excl_inv name f now (held(holder := None))"
    using assms(1) by (auto simp: excl_inv_def)
  show "excl_inv name (release_file env lease f) now (held(holder := None))"
    using release_file_cases [of env lease f]
  proof
    assume "release_file env lease f = f"
    with drop show ?thesis by simp
  next
    assume "release_file env lease f = LeaseFile (Some (lease\<lparr>l_expires_at := 0\<rparr>)) (file_clock env) \<and>
      (\<exists>c m. f = LeaseFile (Some c) m \<and> l_holder c = l_holder lease \<and> l_fence c = l_fence lease)"
    then obtain c m where r: "release_file env lease f = LeaseFile (Some (lease\<lparr>l_expires_at := 0\<rparr>)) (file_clock env)"
      and f: "f = LeaseFile (Some c) m" "l_holder c = holder" using held [OF assms(2)] by auto
    have "l_expires_at g \<le> now" if "held a = Some g" "a \<noteq> holder" for a g
      using valid [OF that(1)] held [OF that(1)] that(2) f by (metis lease_file.inject option.inject not_le)
    then show ?thesis unfolding excl_inv_def r using held by (auto simp: not_less [symmetric] split: if_splits)
  qed
qed

lemma granted_held:
  "s_held (granted r s) = (case r of None \<Rightarrow> s_held s | Some l \<Rightarrow> (s_held s)(l_holder l := Some l))"
  by (simp add: granted_def split: option.splits)

abbreviation exclusive :: "(string \<Rightarrow> string) \<Rightarrow> string \<Rightarrow> lease_sys \<Rightarrow> bool" where
  "exclusive h name s \<equiv> excl_inv name (s_dir s (fs_safe h name)) (s_now s) (s_held s)"

lemma excl_inv_step:
  assumes "lease_step False h eph name s s'" and inv: "exclusive h name s"
  shows "exclusive h name s'"
  using assms(1)
proof cases
  case (acquire env holder ttl dir r)
  with excl_inv_later [OF inv, of "clock env"] have "excl_inv name (s_dir s (fs_safe h name)) (clock env) (s_held s)"
    by simp
  from excl_inv_acquire [OF acquire_sync_file [OF acquire(3)] this] acquire(1) show ?thesis
    by (simp add: granted_held split: option.splits)
next
  case (renew env holder lease ttl dir r)
  with inv have n: "l_name lease = name" by (auto simp: excl_inv_def)
  from renew excl_inv_later [OF inv, of "clock env"]
  have "excl_inv name (s_dir s (fs_safe h name)) (clock env) (s_held s)" by simp
  from excl_inv_renew [OF renew_sync_file [OF renew(4)], unfolded n, OF this refl] renew(1) n show ?thesis
    by (simp add: granted_held split: option.splits)
next
  case (release holder lease env dir r)
  from release_sync_file [OF release(3), of "fs_safe h name"] show ?thesis
    using release(1) excl_inv_release [OF inv release(2)] by auto
next
  case (collect cutoff envs dry_run listing dir r')
  from gc_leases_file [OF collect(3), of "fs_safe h name"] show ?thesis
  proof (elim disjE conjE exE)
    fix l m
    assume a: "dir (fs_safe h name) = LeaseAbsent" and f: "s_dir s (fs_safe h name) = LeaseFile (Some l) m"
      and "l_expires_at l < cutoff"
    with collect(2) have "l_expires_at l \<le> s_now s" by simp
    with inv f have "excl_inv name LeaseAbsent (s_now s) (s_held s)" by (fastforce simp: excl_inv_def)
    with a collect(1) show ?thesis by simp
  qed (use collect(1) inv in simp)
next
  case (tick t)
  with excl_inv_later [OF inv, of t] show ?thesis by simp
qed (use inv in simp)

lemma reachable_exclusive:
  assumes "lease_reachable False h eph name s"
  shows "exclusive h name s"
  using assms
  by (induction rule: lease_reachable_induct) (simp add: lease_init_def excl_inv_def, rule excl_inv_step)

end
