(* ===== verification/Slots.thy ===== *)
theory Slots
  imports Retry StateLease
begin

text \<open>
  Cluster-wide concurrency slots (\<open>cron.py\<close>, \<open>concurrencyScope: cluster\<close>): claiming the slot of a job before
  a launch, the renewer that keeps it, the pursuit that asks a holder to yield, and the release when the
  last instance has ended.  Everything is about one job; the slot is the lease \<open>name\<close> of the store.  A
  store call is executed or not, and answered or not: one that is given up on after
  \<open>STATE_OP_TIMEOUT\<close> may have been executed all the same.
\<close>

subsection \<open>State\<close>

record slot_node =
  sn_holder :: string
  sn_lease :: "Lease option"
  sn_renewer :: bool
  sn_refs :: nat
  sn_running :: nat
  sn_releases :: "Lease option list"

record slot_config =
  sl_configured :: bool
  sl_backend :: bool
  sl_fail_closed :: bool
  sl_ttl :: real

record store_call =
  sa_executed :: bool
  sa_answered :: bool
  sa_env :: io

subsection \<open>Store calls\<close>

definition call_acquire ::
  "(string \<Rightarrow> string) \<Rightarrow> store_call \<Rightarrow> string \<Rightarrow> string \<Rightarrow> real \<Rightarrow> lease_dir \<Rightarrow> lease_dir \<times> Lease option" where
  "call_acquire h call name holder ttl dir =
     (if \<not> sa_executed call then (dir, None)
      else (case acquire_sync h (sa_env call) name holder ttl dir of
              (dir', Inl e) \<Rightarrow> (dir', None)
            | (dir', Inr r) \<Rightarrow> (dir', if sa_answered call then r else None)))"

text \<open>Reading answers a lease, or nothing when the call was not answered or found none.\<close>

definition call_read :: "(string \<Rightarrow> string) \<Rightarrow> store_call \<Rightarrow> string \<Rightarrow> lease_dir \<Rightarrow> Lease option" where
  "call_read h call name dir =
     (if sa_executed call \<and> sa_answered call then read_lease h (sa_env call) name dir else None)"

subsection \<open>Claiming\<close>

datatype slot_answer = SlotGranted | SlotDegraded | SlotSkipped | SlotPursued Lease

definition slot_unavailable :: "slot_config \<Rightarrow> slot_node \<Rightarrow> slot_node \<times> slot_answer" where
  "slot_unavailable cfg nd =
     (if sl_fail_closed cfg then (nd, SlotSkipped) else (nd\<lparr>sn_refs := sn_refs nd + 1\<rparr>, SlotDegraded))"

definition install_slot :: "Lease \<Rightarrow> slot_node \<Rightarrow> slot_node" where
  "install_slot got nd = nd\<lparr>sn_lease := Some got, sn_refs := sn_refs nd + 1, sn_renewer := True\<rparr>"

text \<open>
  What a refused claim makes of the lease it reads back.  \<open>fidelity\<close> is the reason for which the locks of
  the store cannot be trusted.
\<close>

definition refused_claim ::
  "slot_config \<Rightarrow> concurrency \<Rightarrow> real \<Rightarrow> Lease option \<Rightarrow> slot_node \<Rightarrow> slot_node \<times> slot_answer" where
  "refused_claim cfg policy now observed nd =
     (case observed of
        None \<Rightarrow> slot_unavailable cfg nd
      | Some l \<Rightarrow>
          if l_holder l = sn_holder nd then (install_slot l nd, SlotGranted)
          else if now > l_expires_at l then slot_unavailable cfg nd
          else if policy = Forbid then (nd, SlotSkipped)
          else (nd, SlotPursued l))"

definition claim_cluster_slot ::
  "(string \<Rightarrow> string) \<Rightarrow> slot_config \<Rightarrow> string \<Rightarrow> concurrency \<Rightarrow> string option \<Rightarrow> store_call \<Rightarrow> store_call \<Rightarrow> real \<Rightarrow>
   slot_node \<Rightarrow> lease_dir \<Rightarrow> slot_node \<times> lease_dir \<times> slot_answer" where
  "claim_cluster_slot h cfg name policy fidelity call look now nd dir =
     (if \<not> sl_configured cfg then (nd, dir, SlotDegraded)
      else if \<not> sl_backend cfg \<or> fidelity \<noteq> None
      then (case slot_unavailable cfg nd of (nd', a) \<Rightarrow> (nd', dir, a))
      else if sn_lease nd \<noteq> None \<and> sn_renewer nd
      then (nd\<lparr>sn_refs := sn_refs nd + 1\<rparr>, dir, SlotGranted)
      else (case call_acquire h call name (sn_holder nd) (sl_ttl cfg) dir of
              (dir', Some got) \<Rightarrow> (install_slot got nd, dir', SlotGranted)
            | (dir', None) \<Rightarrow>
                (case refused_claim cfg policy now (call_read h look name dir') nd of (nd', a) \<Rightarrow> (nd', dir', a))))"

fun slot_launches :: "slot_answer \<Rightarrow> bool" where
  "slot_launches SlotGranted = True"
| "slot_launches SlotDegraded = True"
| "slot_launches SlotSkipped = False"
| "slot_launches (SlotPursued l) = False"

subsection \<open>The renewer\<close>

text \<open>A cycle ends, goes on, or goes on after it has cancelled the local instances for a replacement.\<close>

definition cancel_record :: "(int \<Rightarrow> string) \<Rightarrow> string \<Rightarrow> Lease \<Rightarrow> int \<Rightarrow> body" where
  "cancel_record isoformat host observed now =
     [(''kind'', JString ''cancel''), (''fence'', JInt (l_fence observed)), (''by'', JString host),
      (''at'', JString (isoformat now))]"

definition cancel_requested :: "body list \<Rightarrow> Lease \<Rightarrow> nat \<Rightarrow> bool" where
  "cancel_requested recs lease running =
     (case recs of
        [] \<Rightarrow> False
      | rec # _ \<Rightarrow> dict_get rec ''kind'' = Some (JString ''cancel'') \<and>
          dict_get rec ''fence'' = Some (JInt (l_fence lease)) \<and> running > 0)"

definition call_renew ::
  "(string \<Rightarrow> string) \<Rightarrow> store_call \<Rightarrow> Lease \<Rightarrow> real \<Rightarrow> lease_dir \<Rightarrow> lease_dir \<times> (store_error, Lease option) result" where
  "call_renew h call lease ttl dir =
     (if \<not> sa_executed call then (dir, Inl StoreOSError)
      else (case renew_sync h (sa_env call) lease ttl dir of
              (dir', r) \<Rightarrow> (dir', if sa_answered call then r else Inl StoreOSError)))"

text \<open>\<open>retired\<close>: the release path or a new claim has replaced this renewer while it was waiting.\<close>

definition slot_renewer ::
  "(string \<Rightarrow> string) \<Rightarrow> slot_config \<Rightarrow> string \<Rightarrow> body list \<Rightarrow> store_call \<Rightarrow> bool \<Rightarrow> store_call \<Rightarrow> slot_node \<Rightarrow>
   lease_dir \<Rightarrow> slot_node \<times> lease_dir \<times> bool" where
  "slot_renewer h cfg name recs call retired look nd dir =
     (case sn_lease nd of
        None \<Rightarrow> (nd\<lparr>sn_renewer := False\<rparr>, dir, False)
      | Some lease \<Rightarrow>
          if \<not> sl_backend cfg then (nd\<lparr>sn_renewer := False\<rparr>, dir, False)
          else (let replaced = cancel_requested recs lease (sn_running nd)
                in case call_renew h call lease (sl_ttl cfg) dir of
                     (dir', Inl e) \<Rightarrow> (nd, dir', replaced)
                   | (dir', Inr r) \<Rightarrow>
                       if retired then (nd, dir', replaced)
                       else (case r of
                               Some renewed \<Rightarrow> (nd\<lparr>sn_lease := Some renewed\<rparr>, dir', replaced)
                             | None \<Rightarrow>
                                 (case call_read h look name dir' of
                                    Some l \<Rightarrow>
                                      if l_holder l \<noteq> l_holder lease \<or> l_fence l \<noteq> l_fence lease
                                      then (nd\<lparr>sn_lease := None, sn_renewer := False\<rparr>, dir', replaced)
                                      else (nd, dir', replaced)
                                  | None \<Rightarrow> (nd, dir', replaced)))))"

subsection \<open>The pursuit\<close>

datatype pursuit = KeepWaiting | GiveUp | Attempt

definition pursuit_turn ::
  "(string \<Rightarrow> string) \<Rightarrow> slot_config \<Rightarrow> string \<Rightarrow> bool \<Rightarrow> Lease \<Rightarrow> store_call \<Rightarrow> real \<Rightarrow> real \<Rightarrow> real \<Rightarrow> slot_node \<Rightarrow>
   lease_dir \<Rightarrow> pursuit" where
  "pursuit_turn h cfg name stopping observed look now started elapsed nd dir =
     (let current = (if sa_executed look \<and> sa_answered look then read_lease h (sa_env look) name dir else Some observed)
      in if stopping then GiveUp
         else if (case current of None \<Rightarrow> True | Some l \<Rightarrow> now > l_expires_at l \<or> l_holder l = sn_holder nd) then Attempt
         else if elapsed \<ge> started + 2 * sl_ttl cfg then GiveUp
         else KeepWaiting)"

subsection \<open>Release\<close>

definition release_cluster_slot :: "slot_node \<Rightarrow> slot_node" where
  "release_cluster_slot nd =
     (if sn_refs nd > 1 then nd\<lparr>sn_refs := sn_refs nd - 1\<rparr>
      else if sn_running nd > 0 then nd\<lparr>sn_refs := 0\<rparr>
      else nd\<lparr>sn_refs := 0, sn_renewer := False, sn_lease := None, sn_releases := sn_releases nd @ [sn_lease nd]\<rparr>)"

text \<open>A release that was scheduled, of the lease that was recorded or of a phantom, under the mutex.\<close>

definition release_slot_lease ::
  "(string \<Rightarrow> string) \<Rightarrow> store_call \<Rightarrow> Lease \<Rightarrow> slot_node \<Rightarrow> lease_dir \<Rightarrow> lease_dir" where
  "release_slot_lease h call lease nd dir =
     (if sn_lease nd \<noteq> None then dir
      else if sa_executed call then fst (release_sync h (sa_env call) lease dir) else dir)"

definition release_phantom_slot ::
  "(string \<Rightarrow> string) \<Rightarrow> string \<Rightarrow> store_call \<Rightarrow> store_call \<Rightarrow> slot_node \<Rightarrow> lease_dir \<Rightarrow> lease_dir" where
  "release_phantom_slot h name look call nd dir =
     (if sn_lease nd \<noteq> None then dir
      else (case call_read h look name dir of
              Some l \<Rightarrow>
                if l_holder l = sn_holder nd then release_slot_lease h call l nd dir else dir
            | None \<Rightarrow> dir))"

end
