(* ===== verification/Leadership.thy ===== *)
theory Leadership
  imports Election JsonValues
begin

text \<open>
  The seam between the scheduler and the lease backends (\<open>leadership.py\<close>): the answers every
  single-holder backend derives from its own live reads, the gate of \<open>cron.py\<close> over them, and the set
  of \<open>@reboot\<close> one-shots that a lease backend keeps, scoped to the live job set.  What
  \<open>get_job_set_id()\<close> returns now is the argument \<open>live\<close>.
\<close>

subsection \<open>Answers derived from the live reads\<close>

text \<open>The reads a concrete backend implements.\<close>

record lease_reads =
  lr_node_name :: string
  lr_is_leader :: bool
  lr_leader_name :: "string option"
  lr_is_quorate :: bool
  lr_self_demoted :: bool

text \<open>\<open>x or y\<close> on an optional string: absent and empty are both false.\<close>

definition name_or :: "string option \<Rightarrow> string \<Rightarrow> string" where
  "name_or x y = (case x of Some n \<Rightarrow> if n = [] then y else n | None \<Rightarrow> y)"

definition lb_is_job_owner :: "lease_reads \<Rightarrow> string \<Rightarrow> bool" where
  "lb_is_job_owner r job = lr_is_leader r"

definition lb_job_owner :: "lease_reads \<Rightarrow> string \<Rightarrow> string option" where
  "lb_job_owner r job = lr_leader_name r"

definition lb_has_conflict :: "lease_reads \<Rightarrow> bool" where
  "lb_has_conflict r = False"

definition lb_view_settled :: "lease_reads \<Rightarrow> bool" where
  "lb_view_settled r = True"

definition lb_available_leader_name :: "lease_reads \<Rightarrow> string" where
  "lb_available_leader_name r =
     (if \<not> lr_is_quorate r then lr_node_name r
      else if lr_is_leader r then lr_node_name r
      else name_or (lr_leader_name r) (lr_node_name r))"

definition lb_is_available_leader :: "lease_reads \<Rightarrow> bool" where
  "lb_is_available_leader r =
     (if \<not> lr_is_quorate r then True
      else if lr_is_leader r then True
      else if lr_self_demoted r then True
      else lr_leader_name r = None)"

definition lb_available_job_owner :: "lease_reads \<Rightarrow> string \<Rightarrow> string" where
  "lb_available_job_owner r job =
     (if \<not> lr_is_quorate r then lr_node_name r
      else if lb_is_job_owner r job then lr_node_name r
      else name_or (lb_job_owner r job) (lr_node_name r))"

definition lb_is_available_job_owner :: "lease_reads \<Rightarrow> string \<Rightarrow> bool" where
  "lb_is_available_job_owner r job =
     (if \<not> lr_is_quorate r then True
      else if lb_is_job_owner r job then True
      else lb_job_owner r job = None)"

text \<open>
  The gate of the scheduler asked of a lease backend, whose distribution is always
  \<open>single-leader\<close>; and whether a pending retry has lost its job to another node.
\<close>

definition lease_allows :: "bool \<Rightarrow> lease_reads option \<Rightarrow> cluster_policy \<Rightarrow> bool" where
  "lease_allows elect_leader_configured mgr policy =
     (if \<not> elect_leader_configured then True
      else if policy = EveryNode then True
      else (case mgr of
              None \<Rightarrow> policy = PreferLeader
            | Some r \<Rightarrow>
                if policy = PreferLeader then lb_is_available_leader r
                else if lb_has_conflict r then False
                else lr_is_leader r))"

definition lease_owner_moved :: "lease_reads option \<Rightarrow> bool" where
  "lease_owner_moved mgr =
     (case mgr of
        None \<Rightarrow> False
      | Some r \<Rightarrow>
          if lb_has_conflict r then False
          else if \<not> lr_is_quorate r then False
          else if \<not> lb_view_settled r then False
          else \<not> lb_is_available_leader r)"

text \<open>
  A node gives a \<open>PreferLeader\<close> job away only when it positively sees a holder that is not itself, and
  exactly then a pending retry is abandoned; whoever passes the gate of \<open>Leader\<close> passes this one.
\<close>

lemma prefer_leader_deferred_iff:
  "\<not> lease_allows True (Some r) PreferLeader \<longleftrightarrow>
     lr_is_quorate r \<and> \<not> lr_is_leader r \<and> \<not> lr_self_demoted r \<and> lr_leader_name r \<noteq> None"
  by (simp add: lease_allows_def lb_is_available_leader_def)

lemma owner_moved_iff: "lease_owner_moved (Some r) \<longleftrightarrow> \<not> lease_allows True (Some r) PreferLeader"
  by (auto simp: lease_owner_moved_def lease_allows_def lb_is_available_leader_def lb_has_conflict_def
      lb_view_settled_def)

subsection \<open>The contract of a fenced backend\<close>

text \<open>
  What every lease backend promises: whoever leads is named by the lease store under an identity that
  no other leader has.
\<close>

locale single_holder =
  fixes consistent :: "'s \<Rightarrow> bool"
    and leads :: "'s \<Rightarrow> 'p \<Rightarrow> bool"
    and identity_of :: "'s \<Rightarrow> 'p \<Rightarrow> string"
    and stored_holder :: "'s \<Rightarrow> string option"
  assumes leader_stored: "consistent s \<Longrightarrow> leads s p \<Longrightarrow> stored_holder s = Some (identity_of s p)"
    and distinct_identities:
      "consistent s \<Longrightarrow> leads s p \<Longrightarrow> leads s q \<Longrightarrow> identity_of s p = identity_of s q \<Longrightarrow> p = q"
begin

lemma one_leader:
  assumes "consistent s" and "leads s p" and "leads s q"
  shows "p = q"
proof -
  have "identity_of s p = identity_of s q"
    using leader_stored [OF assms(1,2)] leader_stored [OF assms(1,3)] by simp
  then show ?thesis by (rule distinct_identities [OF assms])
qed

end

subsection \<open>The reboot-ran set\<close>

datatype reboot_unknown = RebootRanUnknownError

record LeaseBackend =
  lb_node_name :: string
  lb_reboot_ran :: "string set"
  lb_reboot_ran_job_set_id :: "string option"
  lb_reboot_ran_local :: "string set"
  lb_reboot_ran_local_job_set_id :: "string option"

definition reconcile_local_reboot_ran :: "string \<Rightarrow> 'a LeaseBackend_scheme \<Rightarrow> 'a LeaseBackend_scheme" where
  "reconcile_local_reboot_ran live b =
     (if lb_reboot_ran_local_job_set_id b \<noteq> Some live
      then b\<lparr>lb_reboot_ran_local := {}, lb_reboot_ran_local_job_set_id := Some live\<rparr> else b)"

definition reconcile_observed_reboot_ran :: "string \<Rightarrow> 'a LeaseBackend_scheme \<Rightarrow> 'a LeaseBackend_scheme" where
  "reconcile_observed_reboot_ran live b =
     (if lb_reboot_ran_job_set_id b \<noteq> Some live
      then b\<lparr>lb_reboot_ran := {}, lb_reboot_ran_job_set_id := None\<rparr> else b)"

definition base_reboot_ran ::
  "string \<Rightarrow> string \<Rightarrow> 'a LeaseBackend_scheme \<Rightarrow> 'a LeaseBackend_scheme \<times> bool" where
  "base_reboot_ran live job b =
     (let b' = reconcile_observed_reboot_ran live (reconcile_local_reboot_ran live b)
      in (b', job \<in> lb_reboot_ran b' \<or> job \<in> lb_reboot_ran_local b'))"

definition observe_reboot_ran ::
  "string \<Rightarrow> string option \<Rightarrow> string set \<Rightarrow> 'a LeaseBackend_scheme \<Rightarrow> 'a LeaseBackend_scheme" where
  "observe_reboot_ran live stored_id stored b =
     b\<lparr>lb_reboot_ran := (if stored_id = Some live then stored else {}),
       lb_reboot_ran_job_set_id := Some live\<rparr>"

text \<open>The stored form: a JSON text, here its parsed value, or a text that is empty or does not parse.\<close>

datatype stored_text = EmptyText | JunkText | JsonText json

definition REBOOT_RAN_KEY :: string where
  "REBOOT_RAN_KEY = ''cronstable.io/reboot-ran''"

definition encode_reboot_ran :: "string \<Rightarrow> string set \<Rightarrow> stored_text" where
  "encode_reboot_ran job_set_id jobs =
     JsonText (JObject [(''jobSetId'', JString job_set_id),
                        (''jobs'', JArray (map JString (sorted_list_of_set jobs)))])"

definition string_items :: "json list \<Rightarrow> string set" where
  "string_items js = set (List.map_filter (\<lambda>j. case j of JString s \<Rightarrow> Some s | _ \<Rightarrow> None) js)"

definition decode_reboot_ran :: "stored_text option \<Rightarrow> string option \<times> string set" where
  "decode_reboot_ran raw =
     (case raw of
        Some (JsonText (JObject data)) \<Rightarrow>
          ((case dict_get data ''jobSetId'' of Some (JString i) \<Rightarrow> Some i | _ \<Rightarrow> None),
           (case dict_get data ''jobs'' of Some (JArray js) \<Rightarrow> string_items js | _ \<Rightarrow> {}))
      | _ \<Rightarrow> (None, {}))"

definition reboot_ran_annotation ::
  "string \<Rightarrow> stored_text dict option \<Rightarrow> 'a LeaseBackend_scheme \<Rightarrow>
   'a LeaseBackend_scheme \<times> stored_text dict option" where
  "reboot_ran_annotation live existing b =
     (let b' = reconcile_local_reboot_ran live b;
          combined = lb_reboot_ran b' \<union> lb_reboot_ran_local b';
          base = (case existing of None \<Rightarrow> [] | Some d \<Rightarrow> d);
          annotations = (if combined = {} then base
                         else dict_set REBOOT_RAN_KEY (encode_reboot_ran live combined) base)
      in (b', if annotations = [] then None else Some annotations))"

lemma string_items_strings [simp]: "string_items (map JString xs) = set xs"
  by (induction xs) (auto simp: string_items_def map_filter_def)

lemma decode_encode_reboot_ran:
  "finite jobs \<Longrightarrow> decode_reboot_ran (Some (encode_reboot_ran i jobs)) = (Some i, jobs)"
  by (simp add: decode_reboot_ran_def encode_reboot_ran_def)

text \<open>
  A mark answers only under the job set it was made or read under, and a store-read set of another job
  set answers nothing.
\<close>

lemma base_reboot_ran_scoped:
  "snd (base_reboot_ran live job b) \<longleftrightarrow>
     lb_reboot_ran_job_set_id b = Some live \<and> job \<in> lb_reboot_ran b \<or>
     lb_reboot_ran_local_job_set_id b = Some live \<and> job \<in> lb_reboot_ran_local b"
  by (auto simp: base_reboot_ran_def reconcile_observed_reboot_ran_def reconcile_local_reboot_ran_def Let_def)

end
