(* ===== verification/SlotProps.thy ===== *)
theory SlotProps
  imports Slots Leadership
begin

text \<open>
  The slot of a job on a cluster of processes: claims, launches, ends, renewals, releases, garbage
  collection and crashes in any order on a common clock, and what the slot excludes.
\<close>

subsection \<open>Processes around one slot\<close>

text \<open>
  A process is named by its holder string, which is unique to it.  \<open>z_until\<close>, a ghost, is the end of the
  lease a process was last given; \<open>z_late\<close> are the releases it has given up on that are still under way.
\<close>

record slot_sys =
  z_dir :: lease_dir
  z_now :: real
  z_node :: "string \<Rightarrow> slot_node"
  z_until :: "string \<Rightarrow> real"
  z_late :: "Lease list"

definition put_slot :: "string \<Rightarrow> slot_node \<Rightarrow> lease_dir \<Rightarrow> slot_sys \<Rightarrow> slot_sys" where
  "put_slot p nd dir s = s\<lparr>z_node := (z_node s)(p := nd), z_dir := dir,
     z_until := (z_until s)(p := case sn_lease nd of Some l \<Rightarrow> l_expires_at l | None \<Rightarrow> z_until s p)\<rparr>"

definition idle_slot :: "string \<Rightarrow> slot_node" where
  "idle_slot p = \<lparr>sn_holder = p, sn_lease = None, sn_renewer = False, sn_refs = 0, sn_running = 0, sn_releases = []\<rparr>"

definition slot_init :: "(string \<Rightarrow> string) \<Rightarrow> string \<Rightarrow> slot_sys \<Rightarrow> bool" where
  "slot_init h name s \<longleftrightarrow> z_dir s (fs_safe h name) = LeaseAbsent \<and> (\<forall>p. z_node s p = idle_slot p) \<and> z_late s = [] \<and> 0 \<le> z_now s"

definition call_at :: "real \<Rightarrow> store_call \<Rightarrow> bool" where
  "call_at now call \<longleftrightarrow> clock (sa_env call) = now"

inductive slot_step ::
  "bool \<Rightarrow> (string \<Rightarrow> string) \<Rightarrow> string list \<Rightarrow> slot_config \<Rightarrow> string \<Rightarrow> concurrency \<Rightarrow> slot_sys \<Rightarrow> slot_sys \<Rightarrow> bool"
  for late h eph cfg name policy where
  Claim: "call_at (z_now s) call \<Longrightarrow>
    claim_cluster_slot h cfg name policy fidelity call look (z_now s) (z_node s p) (z_dir s) = (nd, dir, a) \<Longrightarrow>
    slot_step late h eph cfg name policy s (put_slot p nd dir s)"
| Register: "sn_running (z_node s p) < sn_refs (z_node s p) \<Longrightarrow>
    slot_step late h eph cfg name policy s (put_slot p ((z_node s p)\<lparr>sn_running := sn_running (z_node s p) + 1\<rparr>) (z_dir s) s)"
| Finish: "sn_running (z_node s p) > 0 \<Longrightarrow>
    slot_step late h eph cfg name policy s
      (put_slot p (release_cluster_slot ((z_node s p)\<lparr>sn_running := sn_running (z_node s p) - 1\<rparr>)) (z_dir s) s)"
| SpawnFails: "sn_running (z_node s p) < sn_refs (z_node s p) \<Longrightarrow>
    slot_step late h eph cfg name policy s (put_slot p (release_cluster_slot (z_node s p)) (z_dir s) s)"
| Renew: "call_at (z_now s) call \<Longrightarrow> sn_renewer (z_node s p) \<Longrightarrow>
    slot_renewer h cfg name recs call False look (z_node s p) (z_dir s) = (nd, dir, cancelled) \<Longrightarrow>
    slot_step late h eph cfg name policy s (put_slot p nd dir s)"
| Release: "sn_releases (z_node s p) = Some lease # rest \<Longrightarrow>
    slot_step late h eph cfg name policy s
      (put_slot p ((z_node s p)\<lparr>sn_releases := rest\<rparr>) (release_slot_lease h call lease (z_node s p) (z_dir s)) s)"
| Phantom: "sn_releases (z_node s p) = None # rest \<Longrightarrow>
    slot_step late h eph cfg name policy s
      (put_slot p ((z_node s p)\<lparr>sn_releases := rest\<rparr>) (release_phantom_slot h name look call (z_node s p) (z_dir s)) s)"
| GiveUpRelease: "late \<Longrightarrow> sn_releases (z_node s p) = Some lease # rest \<Longrightarrow> sn_lease (z_node s p) = None \<Longrightarrow>
    slot_step late h eph cfg name policy s
      ((put_slot p ((z_node s p)\<lparr>sn_releases := rest\<rparr>) (z_dir s) s)\<lparr>z_late := lease # z_late s\<rparr>)"
| LateRelease: "lease \<in> set (z_late s) \<Longrightarrow>
    slot_step late h eph cfg name policy s (s\<lparr>z_dir := fst (release_sync h env lease (z_dir s))\<rparr>)"
| LateAcquire: "clock env = z_now s \<Longrightarrow>
    slot_step late h eph cfg name policy s (s\<lparr>z_dir := fst (acquire_sync h env name p (sl_ttl cfg) (z_dir s))\<rparr>)"
| LateRenew: "clock env = z_now s \<Longrightarrow> l_name lease = name \<Longrightarrow>
    slot_step late h eph cfg name policy s (s\<lparr>z_dir := fst (renew_sync h env lease (sl_ttl cfg) (z_dir s))\<rparr>)"
| Collect: "cutoff \<le> z_now s \<Longrightarrow> gc_leases_sync envs cutoff dry_run eph listing (z_dir s) = (dir, r) \<Longrightarrow>
    slot_step late h eph cfg name policy s (s\<lparr>z_dir := dir\<rparr>)"
| Crash: "slot_step late h eph cfg name policy s (put_slot p (idle_slot p) (z_dir s) s)"
| Tick: "z_now s \<le> t \<Longrightarrow> slot_step late h eph cfg name policy s (s\<lparr>z_now := t\<rparr>)"

inductive slot_reachable ::
  "bool \<Rightarrow> (string \<Rightarrow> string) \<Rightarrow> string list \<Rightarrow> slot_config \<Rightarrow> string \<Rightarrow> concurrency \<Rightarrow> slot_sys \<Rightarrow> bool"
  for late h eph cfg name policy where
  Start: "slot_init h name s \<Longrightarrow> slot_reachable late h eph cfg name policy s"
| Step: "slot_reachable late h eph cfg name policy s \<Longrightarrow> slot_step late h eph cfg name policy s s' \<Longrightarrow>
    slot_reachable late h eph cfg name policy s'"

subsection \<open>The invariant\<close>

text \<open>A lease that has not run out is the one on the store, with its fence, at least as long.\<close>

definition backs :: "lease_file \<Rightarrow> Lease \<Rightarrow> bool" where
  "backs f l \<longleftrightarrow> (\<exists>c m. f = LeaseFile (Some c) m \<and> l_holder c = l_holder l \<and> l_fence c = l_fence l \<and> l_expires_at l \<le> l_expires_at c)"

definition file_ok :: "string \<Rightarrow> real \<Rightarrow> lease_file \<Rightarrow> bool" where
  "file_ok name bound f \<longleftrightarrow> (\<forall>c m. f = LeaseFile (Some c) m \<longrightarrow> l_name c = name \<and> l_expires_at c \<le> bound)"

definition slot_ok :: "string \<Rightarrow> real \<Rightarrow> lease_file \<Rightarrow> real \<Rightarrow> string \<Rightarrow> slot_node \<Rightarrow> bool" where
  "slot_ok name ttl f now p nd \<longleftrightarrow>
     sn_holder nd = p \<and> (\<forall>l. Some l \<in> set (sn_releases nd) \<longrightarrow> l_holder l = p \<and> l_name l = name) \<and>
     (\<forall>l. sn_lease nd = Some l \<longrightarrow> l_holder l = p \<and> l_name l = name \<and> l_expires_at l \<le> now + ttl \<and>
        (now < l_expires_at l \<longrightarrow> backs f l))"

definition slot_inv :: "(string \<Rightarrow> string) \<Rightarrow> slot_config \<Rightarrow> string \<Rightarrow> slot_sys \<Rightarrow> bool" where
  "slot_inv h cfg name s \<longleftrightarrow> 0 \<le> z_now s \<and>
     file_ok name (z_now s + sl_ttl cfg) (z_dir s (fs_safe h name)) \<and> z_late s = [] \<and>
     (\<forall>p. slot_ok name (sl_ttl cfg) (z_dir s (fs_safe h name)) (z_now s) p (z_node s p)) \<and>
     (\<forall>p l. sn_lease (z_node s p) = Some l \<longrightarrow> z_until s p = l_expires_at l) \<and>
     (\<forall>p. sn_refs (z_node s p) > 0 \<longrightarrow> sn_lease (z_node s p) \<noteq> None \<or> z_until s p \<le> z_now s)"

text \<open>A file that is rewritten in favour of \<open>p\<close>, when nobody else holds an unexpired lease, harms nobody else.\<close>

definition spares :: "string \<Rightarrow> real \<Rightarrow> lease_file \<Rightarrow> lease_file \<Rightarrow> bool" where
  "spares p now f f' \<longleftrightarrow> (\<forall>l. l_holder l \<noteq> p \<longrightarrow> now < l_expires_at l \<longrightarrow> backs f l \<longrightarrow> backs f' l)"

text \<open>And one rewritten by \<open>p\<close> itself keeps what \<open>p\<close> has in hand, too.\<close>

definition keeps :: "real \<Rightarrow> real \<Rightarrow> lease_file \<Rightarrow> lease_file \<Rightarrow> bool" where
  "keeps now ttl f f' \<longleftrightarrow> (\<forall>l. now < l_expires_at l \<longrightarrow> l_expires_at l \<le> now + ttl \<longrightarrow> backs f l \<longrightarrow> backs f' l)"

lemma keeps_refl [simp]: "keeps now ttl f f" by (simp add: keeps_def)
lemma spares_refl [simp]: "spares p now f f" by (simp add: spares_def)

lemma acquire_keeps:
  assumes "acquire_sync h env name p ttl dir = (dir', r)" "clock env = now" "file_ok name (now + ttl) (dir (fs_safe h name))"
  shows "keeps now ttl (dir (fs_safe h name)) (dir' (fs_safe h name))" "file_ok name (now + ttl) (dir' (fs_safe h name))"
    "r = Inr (Some l) \<Longrightarrow> l_holder l = p \<and> l_name l = name \<and> l_expires_at l = now + ttl \<and> backs (dir' (fs_safe h name)) l"
proof -
  let ?f = "dir (fs_safe h name)" and ?f' = "dir' (fs_safe h name)"
  have "keeps now ttl ?f ?f' \<and> file_ok name (now + ttl) ?f' \<and>
    (\<forall>l. r = Inr (Some l) \<longrightarrow> l_holder l = p \<and> l_name l = name \<and> l_expires_at l = now + ttl \<and> backs ?f' l)"
  proof (cases r)
    case (Inl e)
    then have "dir' = dir" using assms(1) by (auto simp: acquire_sync_def Let_def split: if_splits prod.splits)
    then show ?thesis using assms(3) Inl by simp
  next
    case (Inr q)
    then have "acquire_file env name p ttl ?f = (?f', q)" using acquire_sync_file assms(1) by blast
    then show ?thesis
    proof (cases rule: acquire_file_cases)
      case denied
      then show ?thesis using assms(3) Inr by simp
    next
      case (granted current lease)
      then show ?thesis using assms(2,3) Inr
        by (auto simp: keeps_def backs_def file_ok_def next_fence_def)
    qed
  qed
  then show "keeps now ttl ?f ?f'" "file_ok name (now + ttl) ?f'"
    "r = Inr (Some l) \<Longrightarrow> l_holder l = p \<and> l_name l = name \<and> l_expires_at l = now + ttl \<and> backs ?f' l" by blast+
qed

lemma renew_keeps:
  assumes "renew_sync h env lease ttl dir = (dir', r)" "clock env = now" "l_name lease = name"
    "file_ok name (now + ttl) (dir (fs_safe h name))"
  shows "keeps now ttl (dir (fs_safe h name)) (dir' (fs_safe h name))" "file_ok name (now + ttl) (dir' (fs_safe h name))"
    "r = Inr (Some l) \<Longrightarrow> l = lease\<lparr>l_expires_at := now + ttl\<rparr> \<and> backs (dir' (fs_safe h name)) l"
proof -
  let ?f = "dir (fs_safe h name)" and ?f' = "dir' (fs_safe h name)"
  have "keeps now ttl ?f ?f' \<and> file_ok name (now + ttl) ?f' \<and>
    (\<forall>l. r = Inr (Some l) \<longrightarrow> l = lease\<lparr>l_expires_at := now + ttl\<rparr> \<and> backs ?f' l)"
  proof (cases r)
    case (Inl e)
    then have "dir' = dir" using assms(1) by (auto simp: renew_sync_def Let_def split: if_splits prod.splits)
    then show ?thesis using assms(4) Inl by simp
  next
    case (Inr q)
    then have "renew_file env lease ttl ?f = (?f', q)" using renew_sync_file assms(1,3) by blast
    then show ?thesis
    proof (cases rule: renew_file_cases)
      case denied
      then show ?thesis using assms(4) Inr by simp
    next
      case (renewed c m)
      let ?new = "lease\<lparr>l_expires_at := now + ttl\<rparr>"
      have new: "?f' = LeaseFile (Some ?new) (file_clock env)" "q = Some ?new"
        using renewed(1,2) unfolding assms(2) by blast+
      have "keeps now ttl ?f ?f'" unfolding keeps_def backs_def new(1) renewed(3) using renewed(4,5) by simp
      moreover have "file_ok name (now + ttl) ?f'" unfolding file_ok_def new(1) using assms(3) by simp
      moreover have "backs ?f' ?new" unfolding backs_def new(1) by simp
      moreover have "\<forall>l. r = Inr (Some l) \<longrightarrow> l = ?new" using Inr new(2) by simp
      ultimately show ?thesis by blast
    qed
  qed
  then show "keeps now ttl ?f ?f'" "file_ok name (now + ttl) ?f'"
    "r = Inr (Some l) \<Longrightarrow> l = lease\<lparr>l_expires_at := now + ttl\<rparr> \<and> backs ?f' l" by blast+
qed

lemma release_spares:
  assumes "l_holder lease = p" "l_name lease = name" "file_ok name bound (dir (fs_safe h name))" "0 \<le> bound"
  shows "spares p now (dir (fs_safe h name)) (fst (release_sync h env lease dir) (fs_safe h name))"
    "file_ok name bound (fst (release_sync h env lease dir) (fs_safe h name))"
proof -
  let ?f = "dir (fs_safe h name)" and ?f' = "fst (release_sync h env lease dir) (fs_safe h name)"
  have "?f' = ?f \<or> ?f' = release_file env lease ?f" using assms(2) by (simp add: release_sync_def Let_def)
  then consider "?f' = ?f" | c m where "?f' = LeaseFile (Some (lease\<lparr>l_expires_at := 0\<rparr>)) (file_clock env)"
      "?f = LeaseFile (Some c) m" "l_holder c = p"
    using release_file_cases [of env lease ?f] assms(1) by metis
  then have "spares p now ?f ?f' \<and> file_ok name bound ?f'"
  proof cases
    case 1
    then show ?thesis using assms(3) by simp
  next
    case 2
    then show ?thesis using assms(2,4) 2(3) unfolding spares_def backs_def file_ok_def 2(1,2) by auto
  qed
  then show "spares p now ?f ?f'" "file_ok name bound ?f'" by blast+
qed

lemma collect_keeps:
  assumes "gc_leases_sync envs cutoff dry_run eph listing dir = (dir', r)" "cutoff \<le> now"
  shows "keeps now ttl (dir t) (dir' t)" "file_ok name bound (dir t) \<Longrightarrow> file_ok name bound (dir' t)"
  using gc_leases_file [OF assms(1), of t] assms(2) by (auto simp: keeps_def backs_def file_ok_def)

lemma keeps_spares:
  assumes "keeps now ttl f f'" "file_ok name (now + ttl) f"
  shows "spares p now f f'"
  unfolding spares_def
proof (intro allI impI)
  fix l assume l: "now < l_expires_at l" "backs f l"
  then have "l_expires_at l \<le> now + ttl" using assms(2) by (auto simp: backs_def file_ok_def)
  then show "backs f' l" using assms(1) l by (simp add: keeps_def)
qed

lemma slot_ok_keeps:
  assumes "slot_ok name ttl f now p nd" "keeps now ttl f f'"
  shows "slot_ok name ttl f' now p nd"
  using assms unfolding slot_ok_def keeps_def by blast

lemma slot_ok_spares:
  assumes "slot_ok name ttl f now q nd" "spares p now f f'" "q \<noteq> p \<or> sn_lease nd = None"
  shows "slot_ok name ttl f' now q nd"
  using assms unfolding slot_ok_def spares_def by auto

lemma slot_ok_backs: "slot_ok name ttl f now p nd \<Longrightarrow> sn_lease nd = Some l \<Longrightarrow> now < l_expires_at l \<Longrightarrow> backs f l"
  by (simp add: slot_ok_def)

lemma slot_ok_later: "slot_ok name ttl f now p nd \<Longrightarrow> now \<le> t \<Longrightarrow> slot_ok name ttl f t p nd"
  unfolding slot_ok_def by (metis add_mono_thms_linordered_semiring(3) le_less_trans order_trans)

lemma file_ok_later: "file_ok name bound f \<Longrightarrow> bound \<le> bound' \<Longrightarrow> file_ok name bound' f"
  unfolding file_ok_def by fastforce

lemma slot_invD:
  assumes "slot_inv h cfg name s"
  shows "0 \<le> z_now s" "file_ok name (z_now s + sl_ttl cfg) (z_dir s (fs_safe h name))" "z_late s = []"
    "slot_ok name (sl_ttl cfg) (z_dir s (fs_safe h name)) (z_now s) p (z_node s p)"
    "sn_lease (z_node s p) = Some l \<Longrightarrow> z_until s p = l_expires_at l"
    "sn_refs (z_node s p) > 0 \<Longrightarrow> sn_lease (z_node s p) \<noteq> None \<or> z_until s p \<le> z_now s"
  using assms unfolding slot_inv_def by blast+

lemma slot_inv_put:
  assumes inv: "slot_inv h cfg name s" and f: "file_ok name (z_now s + sl_ttl cfg) (dir (fs_safe h name))"
    and other: "spares p (z_now s) (z_dir s (fs_safe h name)) (dir (fs_safe h name))"
    and ok: "slot_ok name (sl_ttl cfg) (dir (fs_safe h name)) (z_now s) p nd"
    and refs: "sn_refs nd > 0 \<Longrightarrow> sn_lease nd = None \<Longrightarrow> z_until s p \<le> z_now s"
  shows "slot_inv h cfg name (put_slot p nd dir s)"
proof -
  note d = slot_invD [OF inv]
  have q: "slot_ok name (sl_ttl cfg) (dir (fs_safe h name)) (z_now s) q (z_node s q)" if "q \<noteq> p" for q
    using slot_ok_spares [OF d(4) other] that by blast
  show ?thesis
    unfolding slot_inv_def put_slot_def
    using d(1,3) f ok q refs d(5,6) by (auto split: option.splits)
qed

lemma slot_inv_node:
  assumes inv: "slot_inv h cfg name s"
    and ok: "slot_ok name (sl_ttl cfg) (z_dir s (fs_safe h name)) (z_now s) p nd"
    and refs: "sn_refs nd > 0 \<Longrightarrow> sn_lease nd = None \<Longrightarrow> z_until s p \<le> z_now s"
  shows "slot_inv h cfg name (put_slot p nd (z_dir s) s)"
  by (rule slot_inv_put [OF inv]) (use slot_invD(2) [OF inv] ok refs in auto)

lemma slot_inv_dir:
  assumes inv: "slot_inv h cfg name s" and "file_ok name (z_now s + sl_ttl cfg) (dir (fs_safe h name))"
    and "keeps (z_now s) (sl_ttl cfg) (z_dir s (fs_safe h name)) (dir (fs_safe h name))"
  shows "slot_inv h cfg name (s\<lparr>z_dir := dir\<rparr>)"
  using slot_invD [OF inv] assms(2) slot_ok_keeps [OF _ assms(3)] unfolding slot_inv_def by auto

lemma call_read_file:
  "call_read h call name dir = Some l \<Longrightarrow> \<exists>m. dir (fs_safe h name) = LeaseFile (Some l) m"
  by (auto simp: call_read_def read_lease_def read_lease_file_def split: if_splits lease_file.splits option.splits)

lemma claim_moves:
  assumes "claim_cluster_slot h cfg name policy fidelity call look t nd dir = (nd', dir', a)"
    and cfg: "sl_configured cfg" "sl_fail_closed cfg" and now: "call_at now call"
    and f: "file_ok name (now + sl_ttl cfg) (dir (fs_safe h name))"
    and ok: "slot_ok name (sl_ttl cfg) (dir (fs_safe h name)) now p nd"
  shows "file_ok name (now + sl_ttl cfg) (dir' (fs_safe h name)) \<and>
    keeps now (sl_ttl cfg) (dir (fs_safe h name)) (dir' (fs_safe h name)) \<and>
    slot_ok name (sl_ttl cfg) (dir' (fs_safe h name)) now p nd' \<and>
    (sn_refs nd' = sn_refs nd \<and> sn_lease nd' = sn_lease nd \<or> sn_lease nd' \<noteq> None)"
proof -
  have un: "slot_unavailable cfg nd = (nd, SlotSkipped)" using cfg by (simp add: slot_unavailable_def)
  show ?thesis
  proof (cases "\<not> sl_backend cfg \<or> fidelity \<noteq> None \<or> sn_lease nd \<noteq> None \<and> sn_renewer nd")
    case True
    then have "dir' = dir \<and> (nd' = nd \<or> sn_lease nd \<noteq> None \<and> nd' = nd\<lparr>sn_refs := sn_refs nd + 1\<rparr>)"
      using assms(1) cfg un by (auto simp: claim_cluster_slot_def split: if_splits)
    then show ?thesis using f ok by (auto simp: slot_ok_def)
  next
    case False
    obtain r where acq: "call_acquire h call name (sn_holder nd) (sl_ttl cfg) dir = (dir', r)"
      and res: "(nd', a) = (case r of Some got \<Rightarrow> (install_slot got nd, SlotGranted)
        | None \<Rightarrow> refused_claim cfg policy t (call_read h look name dir') nd)"
      using assms(1) cfg False by (auto simp: claim_cluster_slot_def split: prod.splits option.splits)
    have p: "sn_holder nd = p" using ok by (simp add: slot_ok_def)
    have acq': "file_ok name (now + sl_ttl cfg) (dir' (fs_safe h name)) \<and>
        keeps now (sl_ttl cfg) (dir (fs_safe h name)) (dir' (fs_safe h name)) \<and>
        (\<forall>l. r = Some l \<longrightarrow> l_holder l = p \<and> l_name l = name \<and> l_expires_at l = now + sl_ttl cfg \<and> backs (dir' (fs_safe h name)) l)"
    proof (cases "sa_executed call")
      case False
      then show ?thesis using acq f by (auto simp: call_acquire_def)
    next
      case True
      obtain d q where sync: "acquire_sync h (sa_env call) name p (sl_ttl cfg) dir = (d, q)" by fastforce
      then have d: "dir' = d" "\<And>l. r = Some l \<Longrightarrow> q = Inr (Some l)"
        using acq True p by (auto simp: call_acquire_def split: sum.splits if_splits)
      note k = acquire_keeps [where h = h and name = name, OF sync now [unfolded call_at_def] f]
      show ?thesis using k d by blast
    qed
    then have fok: "file_ok name (now + sl_ttl cfg) (dir' (fs_safe h name))"
      and kp: "keeps now (sl_ttl cfg) (dir (fs_safe h name)) (dir' (fs_safe h name))" by blast+
    have got: "l_holder l = p \<and> l_name l = name \<and> l_expires_at l = now + sl_ttl cfg \<and> backs (dir' (fs_safe h name)) l"
      if "r = Some l" for l using acq' that by blast
    note ok' = slot_ok_keeps [OF ok kp]
    have inst: "slot_ok name (sl_ttl cfg) (dir' (fs_safe h name)) now p (install_slot l nd)"
      if "l_holder l = p" "l_name l = name" "l_expires_at l \<le> now + sl_ttl cfg" "backs (dir' (fs_safe h name)) l" for l
      using ok' that by (auto simp: slot_ok_def install_slot_def)
    show ?thesis
    proof (cases r)
      case (Some l)
      then have "nd' = install_slot l nd" using res by simp
      then show ?thesis using fok kp inst got [OF Some] by (simp add: install_slot_def)
    next
      case None
      then consider "nd' = nd" | l where "call_read h look name dir' = Some l" "l_holder l = p" "nd' = install_slot l nd"
        using res un p by (auto simp: refused_claim_def split: option.splits if_splits)
      then show ?thesis
      proof cases
        case 1
        then show ?thesis using fok kp ok' by simp
      next
        case 2
        from call_read_file [OF 2(1)] obtain m where m: "dir' (fs_safe h name) = LeaseFile (Some l) m" by blast
        then have "l_name l = name" "l_expires_at l \<le> now + sl_ttl cfg" "backs (dir' (fs_safe h name)) l"
          using fok by (auto simp: file_ok_def backs_def)
        then show ?thesis using fok kp inst 2 by (simp add: install_slot_def)
      qed
    qed
  qed
qed

lemma renewer_moves:
  assumes "slot_renewer h cfg name recs call False look nd dir = (nd', dir', cancelled)" and now: "call_at now call"
    and f: "file_ok name (now + sl_ttl cfg) (dir (fs_safe h name))"
    and ok: "slot_ok name (sl_ttl cfg) (dir (fs_safe h name)) now p nd"
  shows "file_ok name (now + sl_ttl cfg) (dir' (fs_safe h name)) \<and>
    keeps now (sl_ttl cfg) (dir (fs_safe h name)) (dir' (fs_safe h name)) \<and>
    slot_ok name (sl_ttl cfg) (dir' (fs_safe h name)) now p nd' \<and> sn_refs nd' = sn_refs nd \<and>
    (sn_lease nd' = None \<longrightarrow> (\<forall>l. sn_lease nd = Some l \<longrightarrow> l_expires_at l \<le> now))"
proof (cases "\<exists>lease. sn_lease nd = Some lease \<and> sl_backend cfg")
  case False
  then have "dir' = dir" "nd' = nd\<lparr>sn_renewer := False\<rparr>"
    using assms(1) by (auto simp: slot_renewer_def split: option.splits)
  then show ?thesis using f ok by (auto simp: slot_ok_def)
next
  case True
  then obtain lease where l: "sn_lease nd = Some lease" "sl_backend cfg" by blast
  obtain r where ren: "call_renew h call lease (sl_ttl cfg) dir = (dir', r)"
    and res: "nd' = (case r of Inl e \<Rightarrow> nd | Inr (Some q) \<Rightarrow> nd\<lparr>sn_lease := Some q\<rparr>
      | Inr None \<Rightarrow> (case call_read h look name dir' of
          Some q \<Rightarrow> if l_holder q \<noteq> l_holder lease \<or> l_fence q \<noteq> l_fence lease then nd\<lparr>sn_lease := None, sn_renewer := False\<rparr> else nd
        | None \<Rightarrow> nd))"
    using assms(1) l by (auto simp: slot_renewer_def Let_def split: prod.splits sum.splits option.splits if_splits)
  have lok: "l_holder lease = p" "l_name lease = name" using ok l(1) by (simp_all add: slot_ok_def)
  have new: "file_ok name (now + sl_ttl cfg) (dir' (fs_safe h name)) \<and>
      keeps now (sl_ttl cfg) (dir (fs_safe h name)) (dir' (fs_safe h name)) \<and>
      (\<forall>q. r = Inr (Some q) \<longrightarrow> q = lease\<lparr>l_expires_at := now + sl_ttl cfg\<rparr> \<and> backs (dir' (fs_safe h name)) q)"
  proof (cases "sa_executed call")
    case False
    then show ?thesis using ren f by (auto simp: call_renew_def)
  next
    case True
    obtain d q where sync: "renew_sync h (sa_env call) lease (sl_ttl cfg) dir = (d, q)" by fastforce
    then have d: "dir' = d" "\<And>x. r = Inr (Some x) \<Longrightarrow> q = Inr (Some x)"
      using ren True by (auto simp: call_renew_def split: if_splits)
    note k = renew_keeps [where h = h and name = name, OF sync now [unfolded call_at_def] lok(2) f]
    show ?thesis using k d by blast
  qed
  note ok' = slot_ok_keeps [OF ok, of "dir' (fs_safe h name)"]
  consider (same) "nd' = nd" | (renewed) q where "r = Inr (Some q)" "nd' = nd\<lparr>sn_lease := Some q\<rparr>"
    | (lost) q where "call_read h look name dir' = Some q" "l_holder q \<noteq> l_holder lease \<or> l_fence q \<noteq> l_fence lease"
        "nd' = nd\<lparr>sn_lease := None, sn_renewer := False\<rparr>"
    using res by (auto split: sum.splits option.splits if_splits)
  then show ?thesis
  proof cases
    case same
    then show ?thesis using new ok' l by simp
  next
    case renewed
    then have "l_holder q = p" "l_name q = name" "l_expires_at q = now + sl_ttl cfg" "backs (dir' (fs_safe h name)) q"
      using new lok by auto
    moreover have "slot_ok name (sl_ttl cfg) (dir' (fs_safe h name)) now p nd" using ok' new by blast
    ultimately have "slot_ok name (sl_ttl cfg) (dir' (fs_safe h name)) now p nd'" by (simp add: renewed(2) slot_ok_def)
    then show ?thesis using renewed(2) new by simp
  next
    case lost
    from call_read_file [OF lost(1)] obtain m where m: "dir' (fs_safe h name) = LeaseFile (Some q) m" by blast
    have o: "slot_ok name (sl_ttl cfg) (dir' (fs_safe h name)) now p nd" using ok' new by blast
    have "\<not> now < l_expires_at lease"
    proof
      assume "now < l_expires_at lease"
      from slot_ok_backs [OF o l(1) this] lost(2) show False unfolding backs_def m by auto
    qed
    moreover have "slot_ok name (sl_ttl cfg) (dir' (fs_safe h name)) now p nd'" using o by (simp add: lost(3) slot_ok_def)
    ultimately show ?thesis using lost(3) new l(1) by simp
  qed
qed

lemma scheduled_release_moves:
  assumes f: "file_ok name bound (dir (fs_safe h name))" "0 \<le> bound"
    and l: "l_holder lease = p" "l_name lease = name"
  shows "file_ok name bound (release_slot_lease h call lease nd dir (fs_safe h name)) \<and>
    spares p now (dir (fs_safe h name)) (release_slot_lease h call lease nd dir (fs_safe h name))"
  using release_spares [where h = h and dir = dir and env = "sa_env call", OF l f] f by (auto simp: release_slot_lease_def)

lemma phantom_release_moves:
  assumes f: "file_ok name bound (dir (fs_safe h name))" "0 \<le> bound" and p: "sn_holder nd = p"
  shows "file_ok name bound (release_phantom_slot h name look call nd dir (fs_safe h name)) \<and>
    spares p now (dir (fs_safe h name)) (release_phantom_slot h name look call nd dir (fs_safe h name))"
proof (cases "call_read h look name dir")
  case (Some l)
  from call_read_file [OF Some] f(1) have "l_name l = name" by (auto simp: file_ok_def)
  with scheduled_release_moves [where h = h and dir = dir, OF f, of l p call nd now] Some p f(1) show ?thesis
    by (auto simp: release_phantom_slot_def)
qed (use f in \<open>simp add: release_phantom_slot_def\<close>)

lemma release_cluster_cases:
  "release_cluster_slot nd = nd\<lparr>sn_refs := sn_refs nd - 1\<rparr> \<and> sn_refs nd > 1 \<or>
   release_cluster_slot nd = nd\<lparr>sn_refs := 0\<rparr> \<or>
   release_cluster_slot nd = nd\<lparr>sn_refs := 0, sn_renewer := False, sn_lease := None, sn_releases := sn_releases nd @ [sn_lease nd]\<rparr>"
  by (simp add: release_cluster_slot_def)

lemma release_cluster_ok:
  assumes "slot_ok name ttl f now p nd"
  shows "slot_ok name ttl f now p (release_cluster_slot nd)"
  using release_cluster_cases [of nd] assms by (auto simp: slot_ok_def)

text \<open>Dropping a lease on release leaves no launch behind.\<close>

lemma release_cluster_refs:
  assumes "sn_refs (release_cluster_slot nd) > 0"
  shows "sn_lease (release_cluster_slot nd) = sn_lease nd \<and> sn_refs nd > 0"
  using assms release_cluster_cases [of nd] by auto

lemma slot_inv_step:
  assumes "slot_step False h eph cfg name policy s s'" and inv: "slot_inv h cfg name s"
    and cfg: "sl_configured cfg" "sl_fail_closed cfg" "0 \<le> sl_ttl cfg"
  shows "slot_inv h cfg name s'"
proof -
  note d = slot_invD [OF inv]
  have bound: "0 \<le> z_now s + sl_ttl cfg" using d(1) cfg(3) by simp
  show ?thesis
    using assms(1)
  proof cases
    case (Claim call fidelity look p nd dir a)
    note m = claim_moves [where h = h and name = name, OF Claim(3) cfg(1,2) Claim(2) d(2) d(4)]
    show ?thesis unfolding Claim(1)
      by (rule slot_inv_put [OF inv]) (use m keeps_spares [OF _ d(2)] d(6) [of p] in auto)
  next
    case (Register p)
    show ?thesis unfolding Register(1)
      by (rule slot_inv_node [OF inv]) (use d(4) [of p] d(6) [of p] in \<open>auto simp: slot_ok_def\<close>)
  next
    case (Finish p)
    let ?nd = "(z_node s p)\<lparr>sn_running := sn_running (z_node s p) - 1\<rparr>"
    have "slot_ok name (sl_ttl cfg) (z_dir s (fs_safe h name)) (z_now s) p ?nd" using d(4) [of p] by (simp add: slot_ok_def)
    then show ?thesis unfolding Finish(1)
      by (intro slot_inv_node [OF inv] release_cluster_ok) (use release_cluster_refs [of ?nd] d(6) [of p] in auto)
  next
    case (SpawnFails p)
    show ?thesis unfolding SpawnFails(1)
      by (intro slot_inv_node [OF inv] release_cluster_ok d(4))
        (use release_cluster_refs [of "z_node s p"] d(6) [of p] in auto)
  next
    case (Renew call p recs look nd dir cancelled)
    note m = renewer_moves [where h = h and name = name, OF Renew(4,2) d(2) d(4)]
    show ?thesis unfolding Renew(1)
    proof (rule slot_inv_put [OF inv])
      show "z_until s p \<le> z_now s" if "sn_refs nd > 0" "sn_lease nd = None"
        using m that d(5,6) [of p] by (cases "sn_lease (z_node s p)") auto
    qed (use m keeps_spares [OF _ d(2)] in auto)
  next
    case (Release p lease rest call)
    have l: "l_holder lease = p" "l_name lease = name" using d(4) [of p] Release(2) by (auto simp: slot_ok_def)
    note m = scheduled_release_moves [where h = h and dir = "z_dir s", OF d(2) bound l, of call "z_node s p" "z_now s"]
    show ?thesis unfolding Release(1)
    proof (rule slot_inv_put [OF inv])
      show "slot_ok name (sl_ttl cfg) (release_slot_lease h call lease (z_node s p) (z_dir s) (fs_safe h name)) (z_now s) p
          ((z_node s p)\<lparr>sn_releases := rest\<rparr>)"
        using d(4) [of p] Release(2) m
        by (cases "sn_lease (z_node s p)") (auto simp: slot_ok_def release_slot_lease_def)
    qed (use m d(6) [of p] in auto)
  next
    case (Phantom p rest look call)
    have p: "sn_holder (z_node s p) = p" using d(4) [of p] by (simp add: slot_ok_def)
    note m = phantom_release_moves [where h = h and dir = "z_dir s", OF d(2) bound p, of look call "z_now s"]
    show ?thesis unfolding Phantom(1)
    proof (rule slot_inv_put [OF inv])
      show "slot_ok name (sl_ttl cfg) (release_phantom_slot h name look call (z_node s p) (z_dir s) (fs_safe h name)) (z_now s) p
          ((z_node s p)\<lparr>sn_releases := rest\<rparr>)"
        using d(4) [of p] Phantom(2) m
        by (cases "sn_lease (z_node s p)") (auto simp: slot_ok_def release_phantom_slot_def)
    qed (use m d(6) [of p] in auto)
  next
    case (LateRelease lease env)
    then show ?thesis using d(3) by simp
  next
    case (LateAcquire env p)
    obtain dir r where a: "acquire_sync h env name p (sl_ttl cfg) (z_dir s) = (dir, r)" by fastforce
    from acquire_keeps [where h = h and name = name, OF a LateAcquire(2) d(2)] show ?thesis
      unfolding LateAcquire(1) using slot_inv_dir [OF inv] a by simp
  next
    case (LateRenew env lease)
    obtain dir r where a: "renew_sync h env lease (sl_ttl cfg) (z_dir s) = (dir, r)" by fastforce
    from renew_keeps [where h = h and name = name, OF a LateRenew(2,3) d(2)] show ?thesis
      unfolding LateRenew(1) using slot_inv_dir [OF inv] a by simp
  next
    case (Collect cutoff envs dry_run listing dir r)
    from collect_keeps [OF Collect(3,2)] show ?thesis
      unfolding Collect(1) by (intro slot_inv_dir [OF inv]) (use d(2) in auto)
  next
    case (Crash p)
    show ?thesis unfolding Crash(1)
      by (rule slot_inv_node [OF inv]) (simp_all add: slot_ok_def idle_slot_def)
  next
    case (Tick t)
    have "file_ok name (t + sl_ttl cfg) (z_dir s (fs_safe h name))" by (rule file_ok_later [OF d(2)]) (use Tick(2) in simp)
    moreover have "slot_ok name (sl_ttl cfg) (z_dir s (fs_safe h name)) t p (z_node s p)" for p
      by (rule slot_ok_later [OF d(4) Tick(2)])
    moreover have "sn_lease (z_node s p) \<noteq> None \<or> z_until s p \<le> t" if "sn_refs (z_node s p) > 0" for p
      using d(6) [OF that] Tick(2) by auto
    ultimately show ?thesis unfolding Tick(1) slot_inv_def using Tick(2) d(1,3,5) by simp
  qed simp
qed

lemma slot_reachable_inv:
  assumes "slot_reachable False h eph cfg name policy s" and cfg: "sl_configured cfg" "sl_fail_closed cfg" "0 \<le> sl_ttl cfg"
  shows "slot_inv h cfg name s"
  using assms(1)
proof induction
  case (Start s)
  then have n: "z_node s p = idle_slot p" for p by (simp add: slot_init_def)
  from Start show ?case
    by (simp add: slot_inv_def slot_init_def file_ok_def slot_ok_def n idle_slot_def)
next
  case (Step s s')
  then show ?case using slot_inv_step cfg by blast
qed

text \<open>A process with an unexpired lease in hand is the holder on the store; holder strings are distinct.\<close>

definition slot_in_force :: "slot_sys \<Rightarrow> string \<Rightarrow> bool" where
  "slot_in_force s p \<longleftrightarrow> sn_refs (z_node s p) > 0 \<and> z_now s < z_until s p"

definition slot_holder_on_store :: "(string \<Rightarrow> string) \<Rightarrow> string \<Rightarrow> slot_sys \<Rightarrow> string option" where
  "slot_holder_on_store h name s =
     (case z_dir s (fs_safe h name) of LeaseFile (Some l) _ \<Rightarrow> Some (l_holder l) | _ \<Rightarrow> None)"

interpretation slot_lease: single_holder "slot_inv h cfg name" slot_in_force "\<lambda>s p. p" "slot_holder_on_store h name"
  for h cfg name
proof
  show "slot_holder_on_store h name s = Some p" if inv: "slot_inv h cfg name s" and p: "slot_in_force s p" for s p
  proof -
    from p slot_invD(6) [OF inv, of p] obtain l where l: "sn_lease (z_node s p) = Some l" by (auto simp: slot_in_force_def)
    then have "z_now s < l_expires_at l" "l_holder l = p"
      using p slot_invD(4,5) [OF inv, of p] by (auto simp: slot_in_force_def slot_ok_def)
    with slot_ok_backs [OF slot_invD(4) [OF inv] l] show ?thesis by (auto simp: backs_def slot_holder_on_store_def)
  qed
qed simp

subsection \<open>The properties\<close>

text \<open>
  C13. The cluster slot excludes.  Under \<open>onStoreUnavailable: fail-closed\<close>, on a common clock, two processes have
  launches of the job claimed or running at the same time only when one of them has outlived the lease
  it was last given: whatever claims, ends, renewals, scheduled and phantom releases, garbage
  collections and crashes happen in between, and whichever store calls fail or land after they were
  given up on, releases excepted.
\<close>

theorem slot_excludes_overlap:
  assumes "slot_reachable False h eph cfg name policy s" and "sl_configured cfg" "sl_fail_closed cfg" "0 \<le> sl_ttl cfg"
    and "p \<noteq> q" and "sn_refs (z_node s p) > 0" "sn_refs (z_node s q) > 0"
  shows "z_until s p \<le> z_now s \<or> z_until s q \<le> z_now s"
  using slot_lease.one_leader [OF slot_reachable_inv [OF assms(1-4)], of p q] assms(5-7)
  by (auto simp: slot_in_force_def not_less [symmetric])

definition slot_digest :: "string \<Rightarrow> string" where
  "slot_digest s = s"

definition strict_slots :: slot_config where
  "strict_slots = \<lparr>sl_configured = True, sl_backend = True, sl_fail_closed = True, sl_ttl = 30\<rparr>"

definition good_call :: "real \<Rightarrow> store_call" where
  "good_call t = \<lparr>sa_executed = True, sa_answered = True,
     sa_env = \<lparr>lock_ok = True, read_ok = True, write_ok = True, clock = t, file_clock = t\<rparr>\<rparr>"

definition free_slot :: slot_sys where
  "free_slot = \<lparr>z_dir = (\<lambda>_. LeaseAbsent), z_now = 0, z_node = idle_slot, z_until = (\<lambda>_. 0), z_late = []\<rparr>"

definition claims :: "string \<Rightarrow> slot_sys \<Rightarrow> slot_sys" where
  "claims p s =
     (case claim_cluster_slot slot_digest strict_slots ''job'' Forbid None (good_call (z_now s)) (good_call (z_now s)) (z_now s)
             (z_node s p) (z_dir s) of (nd, dir, a) \<Rightarrow> put_slot p nd dir s)"

abbreviation job_reachable :: "bool \<Rightarrow> slot_sys \<Rightarrow> bool" where
  "job_reachable late \<equiv> slot_reachable late slot_digest [] strict_slots ''job'' Forbid"

lemma free_reachable: "job_reachable late free_slot"
  by (rule slot_reachable.Start) (simp add: slot_init_def free_slot_def)

lemma claims_reachable:
  assumes "job_reachable late s"
  shows "job_reachable late (claims p s)"
proof -
  have "call_at (z_now s) (good_call (z_now s))" by (simp add: call_at_def good_call_def)
  from slot_step.Claim [OF this] show ?thesis
    unfolding claims_def by (auto split: prod.split intro: slot_reachable.Step [OF assms])
qed

text \<open>Two claims, and a third after the first holder has been silent for longer than the lease.\<close>

definition outlived :: slot_sys where
  "outlived = claims ''b'' ((claims ''b'' (claims ''a'' free_slot))\<lparr>z_now := 31\<rparr>)"

theorem slot_excludes_overlap_witness:
  "sn_refs (z_node (claims ''b'' (claims ''a'' free_slot)) ''b'') = 0 \<and>
   sn_refs (z_node outlived ''a'') > 0 \<and> sn_refs (z_node outlived ''b'') > 0 \<and> z_until outlived ''a'' \<le> z_now outlived"
proof -
  let ?s = "claims ''b'' (claims ''a'' free_slot)"
  have "job_reachable False ?s" by (intro claims_reachable free_reachable)
  then have "job_reachable False (?s\<lparr>z_now := 31\<rparr>)"
    by (rule slot_reachable.Step, intro slot_step.Tick) code_simp
  then have r: "job_reachable False outlived" unfolding outlived_def by (rule claims_reachable)
  have c: "sl_configured strict_slots" "sl_fail_closed strict_slots" "0 \<le> sl_ttl strict_slots" "''a'' \<noteq> ''b''"
    "sn_refs (z_node outlived ''a'') > 0" "sn_refs (z_node outlived ''b'') > 0" "\<not> z_until outlived ''b'' \<le> z_now outlived"
    "sn_refs (z_node ?s ''b'') = 0" by code_simp+
  from slot_excludes_overlap [OF r c(1-6)] c show ?thesis by blast
qed

text \<open>
  The mutex around a scheduled release is held only as long as the release is awaited: one that is given
  up on and lands after a new claim of the same process, which keeps the fence, frees the slot under the
  new launch, and another process claims it.
\<close>

definition ends :: "string \<Rightarrow> slot_sys \<Rightarrow> slot_sys" where
  "ends p s = put_slot p (release_cluster_slot (z_node s p)) (z_dir s) s"

definition gives_up :: "string \<Rightarrow> slot_sys \<Rightarrow> slot_sys" where
  "gives_up p s =
     (case sn_releases (z_node s p) of
        Some lease # rest \<Rightarrow>
          if sn_lease (z_node s p) = None
          then (put_slot p ((z_node s p)\<lparr>sn_releases := rest\<rparr>) (z_dir s) s)\<lparr>z_late := lease # z_late s\<rparr> else s
      | _ \<Rightarrow> s)"

definition lands :: "slot_sys \<Rightarrow> slot_sys" where
  "lands s = (case z_late s of [] \<Rightarrow> s
     | lease # _ \<Rightarrow> s\<lparr>z_dir := fst (release_sync slot_digest (sa_env (good_call (z_now s))) lease (z_dir s))\<rparr>)"

definition overlapping :: slot_sys where
  "overlapping = claims ''b'' (lands (claims ''a'' (gives_up ''a'' (ends ''a'' (claims ''a'' free_slot)))))"

lemma late_release_frees_slot:
  "job_reachable True overlapping \<and> slot_in_force overlapping ''a'' \<and> slot_in_force overlapping ''b''"
proof -
  let ?s1 = "claims ''a'' free_slot"
  have 1: "job_reachable True ?s1" by (intro claims_reachable free_reachable)
  have 2: "job_reachable True (ends ''a'' ?s1)"
    unfolding ends_def by (rule slot_reachable.Step [OF 1], rule slot_step.SpawnFails) code_simp
  have 3: "job_reachable True (gives_up p s)" if "job_reachable True s" for p s
    unfolding gives_up_def using that
    by (auto split: list.split option.split intro: slot_reachable.Step [OF that] slot_step.GiveUpRelease)
  have 4: "job_reachable True (lands s)" if "job_reachable True s" for s
  proof (cases "z_late s")
    case (Cons lease rest)
    then have "lands s = s\<lparr>z_dir := fst (release_sync slot_digest (sa_env (good_call (z_now s))) lease (z_dir s))\<rparr>"
      by (simp add: lands_def)
    then show ?thesis using slot_reachable.Step [OF that slot_step.LateRelease] Cons by simp
  qed (use that in \<open>simp add: lands_def\<close>)
  have "job_reachable True overlapping"
    unfolding overlapping_def by (intro claims_reachable 4 3 2)
  moreover have "slot_in_force overlapping ''a''" "slot_in_force overlapping ''b''" by code_simp+
  ultimately show ?thesis by blast
qed

end
