(* ===== verification/DagGraph.thy ===== *)
theory DagGraph
  imports Prelude
begin

text \<open>
  The static DAG of \<open>dag.py\<close>: \<open>ExpandSpec\<close>, \<open>TaskSpec\<close>, \<open>DagSpec\<close>, and the graph check
  \<open>validate_graph\<close> with \<open>_validate_expand\<close> and Kahn's algorithm \<open>_check_acyclic\<close>.  The loop of
  the latter is a terminating function; it accepts a graph exactly when the dependency relation
  is acyclic.
\<close>

subsection \<open>Specification\<close>

datatype task_state =
    PENDING | RUNNING | UP_FOR_RETRY | SUCCESS | FAILED | SKIPPED | UPSTREAM_FAILED | EXPANDED
  | OTHER_STATE string

datatype task_type = TASK | SENSOR | APPROVAL

datatype trigger_rule = ALL_SUCCESS | ALL_DONE

record ExpandSpec =
  from_task :: string
  ex_key :: string

record TaskSpec =
  t_id :: string
  t_type :: task_type
  depends_on :: "string list"
  t_trigger_rule :: trigger_rule
  max_attempts :: int
  retry_delay :: real
  expand :: "ExpandSpec option"
  poke_interval :: real
  poke_timeout :: real
  poke_jitter :: real
  on_reject :: task_state

record DagSpec =
  d_name :: string
  d_tasks :: "TaskSpec list"
  by_id :: "TaskSpec dict"

definition build :: "string \<Rightarrow> TaskSpec list \<Rightarrow> DagSpec" where
  "build name tasks = \<lparr>d_name = name, d_tasks = tasks, by_id = dict_of (map (\<lambda>t. (t_id t, t)) tasks)\<rparr>"

subsection \<open>Validation\<close>

datatype dag_error =
    EmptyTaskId
  | SeparatorInId string
  | ControlCharInId string
  | DuplicateTaskId string
  | UnknownDependency string string
  | SelfDependency string
  | ExpandNotTask string task_type
  | ExpandUnknownSource string string
  | ExpandNotDirect string string
  | ExpandSourceMapped string string
  | CycleInvolving "string list"

definition control_char :: "char \<Rightarrow> bool" where
  "control_char ch \<longleftrightarrow> code_of ch < 0x20 \<or> code_of ch = 0x7F"

fun check_ids :: "TaskSpec list \<Rightarrow> TaskSpec dict \<Rightarrow> (dag_error, TaskSpec dict) result" where
  "check_ids [] seen = Inr seen"
| "check_ids (task # rest) seen =
     (if t_id task = [] then Inl EmptyTaskId
      else if CHR ''#'' \<in> set (t_id task) \<or> CHR ''/'' \<in> set (t_id task)
      then Inl (SeparatorInId (t_id task))
      else if list_ex control_char (t_id task) then Inl (ControlCharInId (t_id task))
      else if dict_get seen (t_id task) \<noteq> None then Inl (DuplicateTaskId (t_id task))
      else check_ids rest (dict_set (t_id task) task seen))"

fun check_deps :: "TaskSpec dict \<Rightarrow> string \<Rightarrow> string list \<Rightarrow> (dag_error, unit) result" where
  "check_deps seen tid [] = Inr ()"
| "check_deps seen tid (dep # rest) =
     (if dict_get seen dep = None then Inl (UnknownDependency tid dep)
      else if dep = tid then Inl (SelfDependency tid)
      else check_deps seen tid rest)"

definition validate_expand ::
  "TaskSpec \<Rightarrow> ExpandSpec \<Rightarrow> TaskSpec dict \<Rightarrow> (dag_error, unit) result" where
  "validate_expand task spec seen =
     (if t_type task \<noteq> TASK then Inl (ExpandNotTask (t_id task) (t_type task))
      else (case dict_get seen (from_task spec) of
              None \<Rightarrow> Inl (ExpandUnknownSource (t_id task) (from_task spec))
            | Some src \<Rightarrow>
                if from_task spec \<notin> set (depends_on task)
                then Inl (ExpandNotDirect (t_id task) (from_task spec))
                else if expand src \<noteq> None
                then Inl (ExpandSourceMapped (t_id task) (from_task spec))
                else Inr ()))"

fun check_edges :: "TaskSpec dict \<Rightarrow> TaskSpec list \<Rightarrow> (dag_error, unit) result" where
  "check_edges seen [] = Inr ()"
| "check_edges seen (task # rest) =
     bind_result (check_deps seen (t_id task) (depends_on task)) (\<lambda>_.
     bind_result (case expand task of None \<Rightarrow> Inr () | Some spec \<Rightarrow> validate_expand task spec seen) (\<lambda>_.
       check_edges seen rest))"

subsection \<open>Kahn's algorithm\<close>

text \<open>One round of the inner loop: the popped task's dependents lose one from their indegree.\<close>

fun kahn_relax ::
  "string list dict \<Rightarrow> string \<Rightarrow> TaskSpec list \<Rightarrow> int dict \<times> string list \<Rightarrow> int dict \<times> string list" where
  "kahn_relax deps tid [] acc = acc"
| "kahn_relax deps tid (task # rest) (indeg, ready) =
     (if tid \<in> set (the (dict_get deps (t_id task)))
      then (let d = the (dict_get indeg (t_id task)) - 1; indeg' = dict_set (t_id task) d indeg
            in kahn_relax deps tid rest (indeg', if d = 0 then ready @ [t_id task] else ready))
      else kahn_relax deps tid rest (indeg, ready))"

definition positive :: "int dict \<Rightarrow> nat" where
  "positive d = length (filter (\<lambda>(_, v). 0 < v) d)"

lemma positive_set:
  "dict_get d k = Some n \<Longrightarrow> positive (dict_set k (n - 1) d) + (if n = 1 then 1 else 0) \<le> positive d"
  by (induction d) (auto simp: positive_def)

lemma dict_get_keys: "k \<in> set (dict_keys d) \<Longrightarrow> dict_get d k = Some (the (dict_get d k))"
  by (cases "dict_get d k") (auto simp: map_of_eq_None_iff)

lemma kahn_relax_keys:
  "\<forall>t \<in> set ts. t_id t \<in> set (dict_keys (fst acc)) \<Longrightarrow>
   dict_keys (fst (kahn_relax deps tid ts acc)) = dict_keys (fst acc)"
  by (induction deps tid ts acc rule: kahn_relax.induct) (auto simp: Let_def dict_keys_set)

lemma dict_keys_set_same: "k \<in> set (dict_keys d) \<Longrightarrow> dict_keys (dict_set k v d) = dict_keys d"
  by (simp add: dict_keys_set)

lemma kahn_relax_measure:
  "\<forall>t \<in> set ts. t_id t \<in> set (dict_keys indeg) \<Longrightarrow>
   length (snd (kahn_relax deps tid ts (indeg, ready))) + positive (fst (kahn_relax deps tid ts (indeg, ready)))
     \<le> length ready + positive indeg"
proof (induction ts arbitrary: indeg ready)
  case (Cons task rest)
  let ?n = "the (dict_get indeg (t_id task))"
  let ?indeg = "dict_set (t_id task) (?n - 1) indeg"
  let ?ready = "if ?n - 1 = 0 then ready @ [t_id task] else ready"
  have mem: "t_id task \<in> set (dict_keys indeg)" using Cons.prems by simp
  have pos: "positive ?indeg + (if ?n = 1 then 1 else 0) \<le> positive indeg"
    by (rule positive_set [OF dict_get_keys [OF mem]])
  have "\<forall>t \<in> set rest. t_id t \<in> set (dict_keys ?indeg)"
    using Cons.prems by (simp only: dict_keys_set_same [OF mem]) simp
  note IH1 = Cons.IH [OF this, of ?ready] 
  have "\<forall>t \<in> set rest. t_id t \<in> set (dict_keys indeg)" using Cons.prems by simp
  note IH2 = Cons.IH [OF this, of ready]
  from IH1 IH2 pos show ?case
    by (cases "?n = 1") (simp_all add: Let_def del: dict_get_set)
qed simp

text \<open>
  The \<open>while ready\<close> loop.  The second guard stands for the \<open>KeyError\<close> of \<open>indeg[task.id]\<close>, which
  the caller excludes: it builds \<open>indeg\<close> from the same tasks.
\<close>

function (sequential) kahn_loop ::
  "TaskSpec list \<Rightarrow> string list dict \<Rightarrow> int dict \<Rightarrow> string list \<Rightarrow> nat \<Rightarrow> int dict \<times> nat" where
  "kahn_loop tasks deps indeg ready ordered =
     (if ready = [] then (indeg, ordered)
      else if \<not> list_all (\<lambda>t. t_id t \<in> set (dict_keys indeg)) tasks then (indeg, ordered)
      else (case kahn_relax deps (last ready) tasks (indeg, butlast ready) of
              (indeg', ready') \<Rightarrow> kahn_loop tasks deps indeg' ready' (Suc ordered)))"
  by pat_completeness auto
termination
proof (relation "measure (\<lambda>(tasks, deps, indeg, ready, ordered). length ready + positive indeg)", goal_cases)
  case (2 tasks deps indeg ready ordered indeg' ready')
  have "\<forall>t \<in> set tasks. t_id t \<in> set (dict_keys indeg)" using 2(2) by (simp add: list_all_iff)
  from kahn_relax_measure [OF this, of deps "last ready" "butlast ready"]
  have "length ready' + positive indeg' \<le> length (butlast ready) + positive indeg"
    unfolding 2(3) [symmetric] by simp
  moreover have "length (butlast ready) < length ready" using 2(1) by simp
  ultimately show ?case by simp
qed simp

declare kahn_loop.simps [simp del]

definition kahn_deps :: "TaskSpec list \<Rightarrow> string list dict" where
  "kahn_deps tasks = dict_of (map (\<lambda>t. (t_id t, remdups (depends_on t))) tasks)"

definition kahn_indeg :: "TaskSpec list \<Rightarrow> int dict" where
  "kahn_indeg tasks =
     dict_of (map (\<lambda>t. (t_id t, int (length (the (dict_get (kahn_deps tasks) (t_id t)))))) tasks)"

definition check_acyclic :: "DagSpec \<Rightarrow> (dag_error, unit) result" where
  "check_acyclic spec =
     (let deps = kahn_deps (d_tasks spec); indeg = kahn_indeg (d_tasks spec);
          ready = map fst (filter (\<lambda>(_, d). d = 0) indeg)
      in case kahn_loop (d_tasks spec) deps indeg ready 0 of
           (indeg', ordered) \<Rightarrow>
             if ordered \<noteq> length (d_tasks spec)
             then Inl (CycleInvolving (sort (map fst (filter (\<lambda>(_, d). 0 < d) indeg'))))
             else Inr ())"

definition validate_graph :: "DagSpec \<Rightarrow> (dag_error, unit) result" where
  "validate_graph spec =
     bind_result (check_ids (d_tasks spec) []) (\<lambda>seen.
     bind_result (check_edges seen (d_tasks spec)) (\<lambda>_. check_acyclic spec))"

subsection \<open>What a validated graph satisfies\<close>

definition good_id :: "string \<Rightarrow> bool" where
  "good_id tid \<longleftrightarrow> tid \<noteq> [] \<and> CHR ''#'' \<notin> set tid \<and> CHR ''/'' \<notin> set tid \<and> \<not> list_ex control_char tid"

definition ids_ok :: "TaskSpec list \<Rightarrow> bool" where
  "ids_ok tasks \<longleftrightarrow> distinct (map t_id tasks) \<and> list_all (\<lambda>t. good_id (t_id t)) tasks"

definition expand_ok :: "TaskSpec list \<Rightarrow> TaskSpec \<Rightarrow> bool" where
  "expand_ok tasks t \<longleftrightarrow>
     (case expand t of
        None \<Rightarrow> True
      | Some ex \<Rightarrow> t_type t = TASK \<and> from_task ex \<in> set (depends_on t) \<and>
          (\<forall>u \<in> set tasks. t_id u = from_task ex \<longrightarrow> expand u = None))"

definition edges_ok :: "TaskSpec list \<Rightarrow> bool" where
  "edges_ok tasks \<longleftrightarrow>
     (\<forall>t \<in> set tasks. set (depends_on t) \<subseteq> set (map t_id tasks) - {t_id t} \<and> expand_ok tasks t)"

text \<open>The dependency relation: \<open>(d, t)\<close> when the task \<open>t\<close> lists \<open>d\<close>.\<close>

definition dep_edges :: "TaskSpec list \<Rightarrow> (string \<times> string) set" where
  "dep_edges tasks = {(d, t_id t) |d t. t \<in> set tasks \<and> d \<in> set (depends_on t)}"

lemma check_ids_iff:
  "(\<exists>seen. check_ids tasks seen0 = Inr seen) \<longleftrightarrow>
   ids_ok tasks \<and> (\<forall>t \<in> set tasks. dict_get seen0 (t_id t) = None)"
proof (induction tasks arbitrary: seen0)
  case (Cons t ts)
  have "t_id t \<notin> t_id ` set ts \<longleftrightarrow> (\<forall>u \<in> set ts. t_id u \<noteq> t_id t)" by (auto simp: image_iff)
  then show ?case
    by (auto simp: Cons ids_ok_def good_id_def)
qed (simp add: ids_ok_def)

lemma check_ids_seen:
  assumes "check_ids tasks seen0 = Inr seen"
  shows "seen = fold (\<lambda>(k, v) d. dict_set k v d) (map (\<lambda>t. (t_id t, t)) tasks) seen0"
  using assms by (induction tasks arbitrary: seen0) (auto split: if_splits)

lemma check_deps_iff:
  "check_deps seen tid deps = Inr () \<longleftrightarrow> (\<forall>d \<in> set deps. dict_get seen d \<noteq> None \<and> d \<noteq> tid)"
  by (induction deps) auto

lemma check_edges_iff:
  "check_edges seen tasks = Inr () \<longleftrightarrow>
   (\<forall>t \<in> set tasks. check_deps seen (t_id t) (depends_on t) = Inr () \<and>
      (case expand t of None \<Rightarrow> True | Some ex \<Rightarrow> validate_expand t ex seen = Inr ()))"
  by (induction tasks) (auto simp: bind_result_Inr split: option.splits)

lemma by_id_index:
  assumes "ids_ok tasks" and "t \<in> set tasks"
  shows "dict_get (dict_of (map (\<lambda>t. (t_id t, t)) tasks)) (t_id t) = Some t"
  using assms by (auto simp: ids_ok_def comp_def map_of_eq_Some_iff)

lemma by_id_mem:
  assumes "ids_ok tasks" and "dict_get (dict_of (map (\<lambda>t. (t_id t, t)) tasks)) k = Some t"
  shows "t \<in> set tasks" and "t_id t = k"
  using assms by (auto simp: ids_ok_def comp_def dest!: map_of_SomeD)

lemma validate_expand_iff:
  assumes "ids_ok tasks" and "seen = dict_of (map (\<lambda>t. (t_id t, t)) tasks)" and "expand t = Some ex"
    and "set (depends_on t) \<subseteq> set (map t_id tasks)"
  shows "validate_expand t ex seen = Inr () \<longleftrightarrow> expand_ok tasks t"
proof (cases "dict_get seen (from_task ex)")
  case None
  then have "from_task ex \<notin> set (map t_id tasks)"
    using by_id_index [OF assms(1)] assms(2) by auto
  with None assms(3,4) show ?thesis by (auto simp: validate_expand_def expand_ok_def)
next
  case (Some src)
  note m = by_id_mem [OF assms(1), of "from_task ex" src]
  have "(\<forall>u \<in> set tasks. t_id u = from_task ex \<longrightarrow> expand u = None) \<longleftrightarrow> expand src = None"
    using m Some assms(1,2) by_id_index [OF assms(1)] by (metis option.inject)
  with Some assms(3) show ?thesis by (auto simp: validate_expand_def expand_ok_def)
qed

lemma check_edges_ok:
  assumes "ids_ok tasks"
  shows "check_edges (dict_of (map (\<lambda>t. (t_id t, t)) tasks)) tasks = Inr () \<longleftrightarrow> edges_ok tasks"
proof -
  let ?seen = "dict_of (map (\<lambda>t. (t_id t, t)) tasks)"
  have known: "dict_get ?seen d \<noteq> None \<longleftrightarrow> d \<in> set (map t_id tasks)" for d
    using assms by (auto simp: ids_ok_def comp_def map_of_eq_None_iff image_image)
  have "(check_deps ?seen (t_id t) (depends_on t) = Inr () \<and>
      (case expand t of None \<Rightarrow> True | Some ex \<Rightarrow> validate_expand t ex ?seen = Inr ())) \<longleftrightarrow>
    set (depends_on t) \<subseteq> set (map t_id tasks) - {t_id t} \<and> expand_ok tasks t" for t
  proof -
    have "check_deps ?seen (t_id t) (depends_on t) = Inr () \<longleftrightarrow>
        set (depends_on t) \<subseteq> set (map t_id tasks) - {t_id t}"
      unfolding check_deps_iff known by auto
    then show ?thesis
      using validate_expand_iff [OF assms refl, of t] by (auto simp: expand_ok_def split: option.splits)
  qed
  then show ?thesis by (simp add: check_edges_iff edges_ok_def)
qed

subsection \<open>Correctness of the cycle check\<close>

lemma kahn_deps_get:
  "ids_ok tasks \<Longrightarrow> t \<in> set tasks \<Longrightarrow> dict_get (kahn_deps tasks) (t_id t) = Some (remdups (depends_on t))"
  by (auto simp: kahn_deps_def ids_ok_def comp_def map_of_eq_Some_iff)

lemma kahn_relax_effect:
  assumes "distinct (map t_id ts)" and "\<forall>t \<in> set ts. t_id t \<in> set (dict_keys indeg)"
    and "\<forall>t \<in> set ts. dict_get deps (t_id t) = Some (remdups (depends_on t))"
  shows "(\<forall>k. dict_get (fst (kahn_relax deps tid ts (indeg, ready))) k =
      (if \<exists>t \<in> set ts. t_id t = k \<and> tid \<in> set (depends_on t)
       then Some (the (dict_get indeg k) - 1) else dict_get indeg k)) \<and>
    snd (kahn_relax deps tid ts (indeg, ready)) =
      ready @ map t_id (filter (\<lambda>t. tid \<in> set (depends_on t) \<and> the (dict_get indeg (t_id t)) = 1) ts)"
  using assms
proof (induction ts arbitrary: indeg ready)
  case (Cons t ts)
  let ?d = "the (dict_get indeg (t_id t)) - 1"
  let ?indeg = "dict_set (t_id t) ?d indeg"
  have mem: "t_id t \<in> set (dict_keys indeg)" using Cons.prems by simp
  have fresh: "\<forall>u \<in> set ts. t_id u \<noteq> t_id t" using Cons.prems by (auto simp: image_iff)
  have pre: "\<forall>t \<in> set ts. t_id t \<in> set (dict_keys ?indeg)"
    using Cons.prems by (simp only: dict_keys_set_same [OF mem]) simp
  have same: "filter (\<lambda>u. tid \<in> set (depends_on u) \<and> the (dict_get ?indeg (t_id u)) = 1) ts =
      filter (\<lambda>u. tid \<in> set (depends_on u) \<and> the (dict_get indeg (t_id u)) = 1) ts"
    using fresh by (intro filter_cong) auto
  have dist: "distinct (map t_id ts)"
    and deps: "\<forall>t \<in> set ts. dict_get deps (t_id t) = Some (remdups (depends_on t))"
    and t: "dict_get deps (t_id t) = Some (remdups (depends_on t))"
    and keys: "\<forall>t \<in> set ts. t_id t \<in> set (dict_keys indeg)"
    using Cons.prems by auto
  show ?case
  proof (cases "tid \<in> set (depends_on t)")
    case True
    note IH = Cons.IH [OF dist pre deps, of "if ?d = 0 then ready @ [t_id t] else ready"]
    have step: "kahn_relax deps tid (t # ts) (indeg, ready) =
        kahn_relax deps tid ts (?indeg, if ?d = 0 then ready @ [t_id t] else ready)"
      using True by (simp add: Let_def t)
    show ?thesis unfolding step using IH [unfolded same] True fresh by auto
  next
    case False
    then show ?thesis using Cons.IH [OF dist keys deps, of ready] by (auto simp: t)
  qed
qed simp

definition kahn_inv :: "TaskSpec list \<Rightarrow> string set \<Rightarrow> int dict \<Rightarrow> string list \<Rightarrow> nat \<Rightarrow> bool" where
  "kahn_inv tasks P indeg ready ordered \<longleftrightarrow>
     set (dict_keys indeg) = set (map t_id tasks) \<and> distinct ready \<and> set ready \<inter> P = {} \<and>
     P \<union> set ready \<subseteq> set (map t_id tasks) \<and> ordered = card P \<and>
     (\<forall>t \<in> set tasks. dict_get indeg (t_id t) = Some (int (card (set (depends_on t) - P)))) \<and>
     (\<forall>t \<in> set tasks. t_id t \<in> P \<union> set ready \<longleftrightarrow> set (depends_on t) \<subseteq> P) \<and>
     P \<subseteq> Wellfounded.acc (dep_edges tasks)"

lemma card_remove_one:
  "finite A \<Longrightarrow> int (card (A - insert x P)) = int (card (A - P)) - (if x \<in> A \<and> x \<notin> P then 1 else 0)"
proof (cases "x \<in> A - P")
  case True
  assume "finite A"
  with True have "card (A - P - {x}) = card (A - P) - 1" and "0 < card (A - P)"
    by (auto simp: card_gt_0_iff)
  moreover have "A - P - {x} = A - insert x P" by auto
  ultimately show ?thesis using True by auto
next
  case False
  then have "A - insert x P = A - P" by auto
  with False show ?thesis by auto
qed

lemma subset_insert_card:
  assumes "finite A" and "x \<notin> P"
  shows "A \<subseteq> insert x P \<longleftrightarrow> A \<subseteq> P \<or> x \<in> A \<and> card (A - P) = 1"
proof
  assume sub: "A \<subseteq> insert x P"
  show "A \<subseteq> P \<or> x \<in> A \<and> card (A - P) = 1"
  proof (cases "x \<in> A")
    case True
    then have "A - P = {x}" using sub assms(2) by auto
    with True show ?thesis by simp
  next
    case False
    with sub show ?thesis by auto
  qed
next
  assume r: "A \<subseteq> P \<or> x \<in> A \<and> card (A - P) = 1"
  have "A - P = {x}" if "x \<in> A" "card (A - P) = 1"
    using that assms(2) by (metis DiffI One_nat_def card_1_singletonE singletonD)
  with r show "A \<subseteq> insert x P" by auto
qed

lemma kahn_inv_step:
  assumes ids: "ids_ok tasks" and inv: "kahn_inv tasks P indeg (rd @ [tid]) ordered"
    and r: "kahn_relax (kahn_deps tasks) tid tasks (indeg, rd) = (indeg', ready')"
  shows "kahn_inv tasks (insert tid P) indeg' ready' (Suc ordered)"
proof -
  have dist: "distinct (map t_id tasks)" using ids by (simp add: ids_ok_def)
  have keys: "set (dict_keys indeg) = set (map t_id tasks)" and rd: "distinct rd" "tid \<notin> set rd" "tid \<notin> P"
    "set rd \<inter> P = {}" and sub: "insert tid P \<union> set rd \<subseteq> set (map t_id tasks)" and ord: "ordered = card P"
    and deg: "\<And>t. t \<in> set tasks \<Longrightarrow> dict_get indeg (t_id t) = Some (int (card (set (depends_on t) - P)))"
    and open_iff: "\<And>t. t \<in> set tasks \<Longrightarrow> t_id t \<in> insert tid (P \<union> set rd) \<longleftrightarrow> set (depends_on t) \<subseteq> P"
    and acc: "P \<subseteq> Wellfounded.acc (dep_edges tasks)"
    using inv by (auto simp: kahn_inv_def)
  let ?new = "filter (\<lambda>t. tid \<in> set (depends_on t) \<and> card (set (depends_on t) - P) = 1) tasks"
  note eff = kahn_relax_effect [OF dist, of indeg "kahn_deps tasks" tid rd, unfolded r]
  have pre: "\<forall>t\<in>set tasks. t_id t \<in> set (dict_keys indeg)"
    "\<forall>t\<in>set tasks. dict_get (kahn_deps tasks) (t_id t) = Some (remdups (depends_on t))"
    using keys kahn_deps_get [OF ids] by auto
  have "filter (\<lambda>t. tid \<in> set (depends_on t) \<and> the (dict_get indeg (t_id t)) = 1) tasks = ?new"
    by (intro filter_cong) (auto simp: deg)
  with eff pre have ready': "ready' = rd @ map t_id ?new" by simp
  have same_id: "t = u" if "t \<in> set tasks" "u \<in> set tasks" "t_id t = t_id u" for t u
    using dist that by (simp add: distinct_map inj_on_def)
  have deg': "dict_get indeg' (t_id t) = Some (int (card (set (depends_on t) - insert tid P)))"
    if t: "t \<in> set tasks" for t
  proof -
    have "(\<exists>u \<in> set tasks. t_id u = t_id t \<and> tid \<in> set (depends_on u)) \<longleftrightarrow> tid \<in> set (depends_on t)"
      using t same_id [OF _ t] by blast
    with eff pre have "dict_get indeg' (t_id t) =
        (if tid \<in> set (depends_on t) then Some (the (dict_get indeg (t_id t)) - 1) else dict_get indeg (t_id t))"
      by simp
    then show ?thesis
      using card_remove_one [of "set (depends_on t)" tid P] rd(3) by (simp add: deg [OF t])
  qed
  have new_iff: "t_id t \<in> set (map t_id ?new) \<longleftrightarrow> tid \<in> set (depends_on t) \<and> card (set (depends_on t) - P) = 1"
    if t: "t \<in> set tasks" for t
  proof
    assume "t_id t \<in> set (map t_id ?new)"
    then obtain u where "u \<in> set ?new" "t_id u = t_id t" by force
    then show "tid \<in> set (depends_on t) \<and> card (set (depends_on t) - P) = 1"
      using same_id [OF _ t, of u] by simp
  next
    assume "tid \<in> set (depends_on t) \<and> card (set (depends_on t) - P) = 1"
    then have "t \<in> set ?new" using t by simp
    then show "t_id t \<in> set (map t_id ?new)" unfolding set_map by (rule imageI)
  qed
  have open': "t_id t \<in> insert tid P \<union> set ready' \<longleftrightarrow> set (depends_on t) \<subseteq> insert tid P" if t: "t \<in> set tasks" for t
  proof -
    have "t_id t \<in> insert tid P \<union> set ready' \<longleftrightarrow>
        t_id t \<in> insert tid (P \<union> set rd) \<or> t_id t \<in> set (map t_id ?new)"
      unfolding ready' set_append by blast
    then show ?thesis
      unfolding open_iff [OF t] new_iff [OF t] subset_insert_card [OF finite_set rd(3)] .
  qed
  have fresh: "set (map t_id ?new) \<inter> insert tid (P \<union> set rd) = {}"
  proof -
    have "t_id t \<notin> insert tid (P \<union> set rd)" if "t \<in> set ?new" for t
      using that open_iff [of t] rd(3) by auto
    then show ?thesis unfolding set_map by blast
  qed
  obtain t where t: "t \<in> set tasks" "t_id t = tid" using sub by auto
  have "tid \<in> Wellfounded.acc (dep_edges tasks)"
  proof (rule accI)
    fix d
    assume "(d, tid) \<in> dep_edges tasks"
    then have "d \<in> set (depends_on t)" using same_id [OF _ t(1)] t(2) by (auto simp: dep_edges_def)
    then show "d \<in> Wellfounded.acc (dep_edges tasks)" using open_iff [OF t(1)] t(2) acc by auto
  qed
  moreover have "set (dict_keys indeg') = set (map t_id tasks)"
    using kahn_relax_keys [of tasks "(indeg, rd)" "kahn_deps tasks" tid] pre(1) keys r by simp
  moreover have "distinct ready'"
    using rd(1) fresh dist by (auto simp: ready' distinct_map inj_on_def)
  moreover have "set ready' \<inter> insert tid P = {}" using rd fresh by (auto simp: ready')
  moreover have "card (insert tid P) = Suc (card P)"
    using rd(3) sub by (meson card_insert_disjoint finite_subset finite_set le_sup_iff insert_subset)
  ultimately show ?thesis
    using sub acc ord deg' open' unfolding kahn_inv_def by (auto simp: ready')
qed

lemma kahn_loop_inv:
  assumes "ids_ok tasks" and "kahn_inv tasks P indeg ready ordered"
  shows "\<exists>P'. kahn_inv tasks P' (fst (kahn_loop tasks (kahn_deps tasks) indeg ready ordered)) []
    (snd (kahn_loop tasks (kahn_deps tasks) indeg ready ordered))"
  using assms(2)
proof (induction "positive indeg + length ready" arbitrary: P indeg ready ordered rule: less_induct)
  case less
  show ?case
  proof (cases ready rule: rev_cases)
    case Nil
    then show ?thesis using less.prems by (auto simp: kahn_loop.simps)
  next
    case (snoc rd tid)
    have keys: "\<forall>t \<in> set tasks. t_id t \<in> set (dict_keys indeg)"
      using less.prems by (auto simp: kahn_inv_def)
    obtain indeg' ready' where r: "kahn_relax (kahn_deps tasks) tid tasks (indeg, rd) = (indeg', ready')"
      by (cases "kahn_relax (kahn_deps tasks) tid tasks (indeg, rd)") auto
    have "kahn_loop tasks (kahn_deps tasks) indeg ready ordered =
        kahn_loop tasks (kahn_deps tasks) indeg' ready' (Suc ordered)"
      using keys by (subst kahn_loop.simps) (simp add: snoc r list_all_iff)
    moreover have "positive indeg' + length ready' < positive indeg + length ready"
      using kahn_relax_measure [OF keys, of "kahn_deps tasks" tid rd] by (simp add: r snoc)
    moreover have "kahn_inv tasks (insert tid P) indeg' ready' (Suc ordered)"
      using kahn_inv_step [OF assms(1) _ r] less.prems snoc by simp
    ultimately show ?thesis using less.hyps by simp
  qed
qed

lemma kahn_inv_init:
  assumes "ids_ok tasks"
  shows "kahn_inv tasks {} (kahn_indeg tasks) (map fst (filter (\<lambda>(_, d). d = 0) (kahn_indeg tasks))) 0"
proof -
  have dist: "distinct (map t_id tasks)" using assms by (simp add: ids_ok_def)
  have ind: "kahn_indeg tasks = map (\<lambda>t. (t_id t, int (card (set (depends_on t))))) tasks"
    using dist kahn_deps_get [OF assms]
    by (simp add: kahn_indeg_def comp_def dict_of_distinct length_remdups_card_conv cong: map_cong)
  have get: "dict_get (kahn_indeg tasks) (t_id t) = Some (int (card (set (depends_on t))))" if "t \<in> set tasks" for t
    using that dist by (auto simp: ind comp_def map_of_eq_Some_iff)
  have rd: "map fst (filter (\<lambda>(_, d). d = 0) (kahn_indeg tasks)) = map t_id (filter (\<lambda>t. depends_on t = []) tasks)"
    by (simp add: ind filter_map comp_def)
  have "t = u" if "t \<in> set tasks" "u \<in> set tasks" "t_id t = t_id u" for t u
    using dist that by (simp add: distinct_map inj_on_def)
  then have "t_id t \<in> t_id ` set (filter (\<lambda>t. depends_on t = []) tasks) \<longleftrightarrow> depends_on t = []"
    if "t \<in> set tasks" for t using that by (auto simp: image_iff)
  moreover have "distinct (map t_id (filter (\<lambda>t. depends_on t = []) tasks))"
    using dist by (rule distinct_map_filter)
  ultimately show ?thesis
    unfolding kahn_inv_def rd using get by (auto simp: ind image_image)
qed

lemma kahn_inv_final:
  assumes "ids_ok tasks" and "edges_ok tasks" and inv: "kahn_inv tasks P indeg [] ordered"
  shows "ordered = length tasks \<longleftrightarrow> acyclic (dep_edges tasks)"
proof -
  let ?ids = "set (map t_id tasks)"
  have len: "card ?ids = length tasks"
    using assms(1) by (metis distinct_card ids_ok_def length_map)
  have "dep_edges tasks \<subseteq> ?ids \<times> ?ids"
    using assms(2) by (fastforce simp: dep_edges_def edges_ok_def)
  then have fin: "finite (dep_edges tasks)" by (rule finite_subset) simp
  have sub: "P \<subseteq> ?ids" and ord: "ordered = card P" and acc: "P \<subseteq> Wellfounded.acc (dep_edges tasks)"
    and closed: "\<And>t. t \<in> set tasks \<Longrightarrow> t_id t \<in> P \<longleftrightarrow> set (depends_on t) \<subseteq> P"
    using inv by (auto simp: kahn_inv_def)
  have all: "P = ?ids" if wf: "wf (dep_edges tasks)"
  proof (rule subset_antisym [OF sub], rule ccontr)
    assume "\<not> ?ids \<subseteq> P"
    then obtain z where "z \<in> ?ids - P" by blast
    from wfE_min [OF wf this] obtain x where x: "x \<in> ?ids - P"
      and min: "\<And>y. (y, x) \<in> dep_edges tasks \<Longrightarrow> y \<notin> ?ids - P" by blast
    from x obtain t where t: "t \<in> set tasks" "t_id t = x" by auto
    have "set (depends_on t) \<subseteq> P"
    proof
      fix y
      assume y: "y \<in> set (depends_on t)"
      then have "y \<in> ?ids" using t(1) assms(2) by (auto simp: edges_ok_def)
      moreover have "(y, x) \<in> dep_edges tasks" using y t by (auto simp: dep_edges_def)
      ultimately show "y \<in> P" using min by blast
    qed
    with closed [OF t(1)] t(2) x show False by simp
  qed
  moreover have "wf (dep_edges tasks)" if "P = ?ids"
  proof (rule acc_wfI, rule)
    fix x
    show "x \<in> Wellfounded.acc (dep_edges tasks)"
    proof (cases "x \<in> ?ids")
      case True
      then show ?thesis using acc that by blast
    next
      case False
      then have "(y, x) \<notin> dep_edges tasks" for y by (auto simp: dep_edges_def)
      then show ?thesis by (blast intro: accI)
    qed
  qed
  moreover have "ordered = length tasks \<longleftrightarrow> P = ?ids"
    using sub len card_subset_eq [of ?ids P] by (metis finite_set ord)
  moreover have "wf (dep_edges tasks) \<longleftrightarrow> acyclic (dep_edges tasks)"
    using finite_acyclic_wf [OF fin] wf_acyclic by blast
  ultimately show ?thesis using all by metis
qed

lemma check_acyclic_iff:
  assumes "ids_ok (d_tasks spec)" and "edges_ok (d_tasks spec)"
  shows "check_acyclic spec = Inr () \<longleftrightarrow> acyclic (dep_edges (d_tasks spec))"
proof -
  obtain P where "kahn_inv (d_tasks spec) P
     (fst (kahn_loop (d_tasks spec) (kahn_deps (d_tasks spec)) (kahn_indeg (d_tasks spec))
        (map fst (filter (\<lambda>(_, d). d = 0) (kahn_indeg (d_tasks spec)))) 0)) []
     (snd (kahn_loop (d_tasks spec) (kahn_deps (d_tasks spec)) (kahn_indeg (d_tasks spec))
        (map fst (filter (\<lambda>(_, d). d = 0) (kahn_indeg (d_tasks spec)))) 0))"
    using kahn_loop_inv [OF assms(1) kahn_inv_init [OF assms(1)]] by blast
  from kahn_inv_final [OF assms this] show ?thesis
    by (simp add: check_acyclic_def Let_def split_beta)
qed

text \<open>The three conditions a graph passes, and only such a graph.\<close>

definition valid_tasks :: "TaskSpec list \<Rightarrow> bool" where
  "valid_tasks tasks \<longleftrightarrow> ids_ok tasks \<and> edges_ok tasks \<and> acyclic (dep_edges tasks)"

lemma validate_graph_iff: "validate_graph spec = Inr () \<longleftrightarrow> valid_tasks (d_tasks spec)"
proof (cases "ids_ok (d_tasks spec)")
  case False
  then show ?thesis
    using check_ids_iff [of "d_tasks spec" "[]"]
    by (cases "check_ids (d_tasks spec) []") (auto simp: validate_graph_def valid_tasks_def)
next
  case True
  then obtain seen where s: "check_ids (d_tasks spec) [] = Inr seen"
    using check_ids_iff [of "d_tasks spec" "[]"] by auto
  have seen: "seen = dict_of (map (\<lambda>t. (t_id t, t)) (d_tasks spec))"
    using check_ids_seen [OF s] by (simp add: dict_of_def)
  have "check_edges seen (d_tasks spec) = Inr () \<longleftrightarrow> edges_ok (d_tasks spec)"
    using check_edges_ok [OF True] by (simp add: seen)
  then show ?thesis
    using True check_acyclic_iff [OF True]
    by (cases "check_edges seen (d_tasks spec)") (auto simp: validate_graph_def s valid_tasks_def)
qed

end
