(* ===== verification/DagRun.thy ===== *)
theory DagRun
  imports DagGraph
begin

text \<open>
  The run document of \<open>dag.py\<close> and its transforms.  A run body is the record \<open>run_body\<close>, its
  \<open>tasks\<close> and \<open>mapped\<close> dictionaries keep insertion order, and a task entry is the record
  \<open>task_entry\<close> with the keys the module reads and writes (a key that may be absent and a key
  that may be \<open>None\<close> are both \<open>None\<close>, as \<open>entry.get\<close> reads them).  Every transform maps the
  stored body to what the read-modify-write does with the document and to its result.  The
  source mutates a deep copy in place; the model passes the body on.
\<close>

subsection \<open>Keys\<close>

definition key_safe :: "char \<Rightarrow> bool" where
  "key_safe c \<longleftrightarrow> is_digit c \<or> (65 \<le> code_of c \<and> code_of c \<le> 90) \<or> (97 \<le> code_of c \<and> code_of c \<le> 122) \<or>
     c \<in> {CHR ''_'', CHR ''.'', CHR '':'', CHR ''-''}"

text \<open>Every maximal run of other characters becomes one underscore.\<close>

fun run_key_acc :: "bool \<Rightarrow> string \<Rightarrow> string" where
  "run_key_acc in_run [] = []"
| "run_key_acc in_run (c # cs) =
     (if key_safe c then c # run_key_acc False cs
      else if in_run then run_key_acc True cs else CHR ''_'' # run_key_acc True cs)"

definition run_key_for_logical :: "string \<Rightarrow> string" where
  "run_key_for_logical logical_iso = run_key_acc False logical_iso"

definition xcom_scope :: "string \<Rightarrow> string \<Rightarrow> string" where
  "xcom_scope dag_name run_id = ''dagxcom/'' @ dag_name @ ''/'' @ run_id"

definition xcom_name :: "string \<Rightarrow> string \<Rightarrow> string" where
  "xcom_name taskkey key = taskkey @ ''/'' @ key"

definition task_display_key :: "string \<Rightarrow> nat option \<Rightarrow> string" where
  "task_display_key task_id map_index =
     (case map_index of None \<Rightarrow> task_id | Some i \<Rightarrow> task_id @ ''#'' @ show_nat i)"

subsection \<open>The document\<close>

record approval_decision =
  decision :: string
  decided_by :: string
  decided_at :: real

record task_entry =
  e_id :: string
  mapIndex :: "nat option"
  e_state :: task_state
  e_attempt :: int
  e_proc :: "string option"
  e_pid :: "int option"
  e_host :: "string option"
  startedAt :: "real option"
  finishedAt :: "real option"
  exitCode :: "int option"
  failReason :: "string option"
  resources :: "json option"
  e_updatedAt :: real
  e_mapped :: bool
  mapItem :: "json option"
  pokeCount :: "int option"
  firstPokeAt :: "real option"
  nextPokeAt :: "real option"
  nextRetryAt :: "real option"
  awaitingApproval :: bool
  approval :: "approval_decision option"

record mapped_info =
  m_items :: "json list"
  expandedAt :: real

record run_body =
  b_dag :: string
  runKey :: string
  runId :: string
  logicalDate :: "string option"
  kind :: string
  b_state :: task_state
  createdAt :: real
  b_updatedAt :: real
  b_tasks :: "task_entry dict"
  b_mapped :: "mapped_info dict"

definition terminal :: "task_state \<Rightarrow> bool" where
  "terminal s \<longleftrightarrow> s \<in> {SUCCESS, FAILED, SKIPPED, UPSTREAM_FAILED}"

fun state_text :: "task_state \<Rightarrow> string" where
  "state_text PENDING = ''pending''"
| "state_text RUNNING = ''running''"
| "state_text UP_FOR_RETRY = ''up_for_retry''"
| "state_text SUCCESS = ''success''"
| "state_text FAILED = ''failed''"
| "state_text SKIPPED = ''skipped''"
| "state_text UPSTREAM_FAILED = ''upstream_failed''"
| "state_text EXPANDED = ''expanded''"
| "state_text (OTHER_STATE s) = s"

fun type_text :: "task_type \<Rightarrow> string" where
  "type_text TASK = ''task''"
| "type_text SENSOR = ''sensor''"
| "type_text APPROVAL = ''approval''"

definition new_task_entry :: "TaskSpec \<Rightarrow> real \<Rightarrow> task_entry" where
  "new_task_entry task now =
     \<lparr>e_id = t_id task, mapIndex = None, e_state = PENDING, e_attempt = 0, e_proc = None, e_pid = None,
      e_host = None, startedAt = None, finishedAt = None, exitCode = None, failReason = None,
      resources = None, e_updatedAt = now, e_mapped = (expand task \<noteq> None), mapItem = None,
      pokeCount = (if t_type task = SENSOR then Some 0 else None), firstPokeAt = None,
      nextPokeAt = None, nextRetryAt = None, awaitingApproval = False, approval = None\<rparr>"

definition new_run_body ::
  "string \<Rightarrow> string \<Rightarrow> string \<Rightarrow> string option \<Rightarrow> string \<Rightarrow> real \<Rightarrow> DagSpec \<Rightarrow> run_body" where
  "new_run_body dag run_key run_id logical_date knd now spec =
     \<lparr>b_dag = dag, runKey = run_key, runId = run_id, logicalDate = logical_date, kind = knd,
      b_state = RUNNING, createdAt = now, b_updatedAt = now,
      b_tasks = dict_of (map (\<lambda>t. (t_id t, new_task_entry t now)) (d_tasks spec)), b_mapped = []\<rparr>"

definition is_terminal_run :: "run_body \<Rightarrow> bool" where
  "is_terminal_run body \<longleftrightarrow> b_state body \<in> {SUCCESS, FAILED}"

subsection \<open>Results of a pass\<close>

record LaunchIntent =
  li_task_id :: string
  li_taskkey :: string
  li_map_index :: "nat option"
  li_map_item :: "json option"
  li_attempt :: int
  li_is_sensor :: bool
  li_poke_number :: int

record AdvanceResult =
  launches :: "LaunchIntent list"
  changed :: bool
  run_terminal :: bool
  deferred :: bool

definition empty_result :: AdvanceResult where
  "empty_result = \<lparr>launches = [], changed = False, run_terminal = False, deferred = False\<rparr>"

record ReconcileAdvanceResult =
  reconciled :: nat
  expansions_needed :: bool
  advance :: "AdvanceResult option"

definition MAX_MAPPED_ITEMS :: nat where
  "MAX_MAPPED_ITEMS = 1000"

definition MAX_CLAIMS_PER_PASS :: nat where
  "MAX_CLAIMS_PER_PASS = 32"

subsection \<open>Dependency resolution\<close>

definition state_at :: "run_body \<Rightarrow> string \<Rightarrow> task_state" where
  "state_at body key = (case dict_get (b_tasks body) key of None \<Rightarrow> PENDING | Some e \<Rightarrow> e_state e)"

definition mapped_group_state :: "run_body \<Rightarrow> string \<Rightarrow> task_state" where
  "mapped_group_state body task_id =
     (case dict_get (b_mapped body) task_id of
        None \<Rightarrow> state_at body task_id
      | Some m \<Rightarrow>
          if m_items m = [] then SUCCESS
          else (let states = map (\<lambda>i. state_at body (task_display_key task_id (Some i)))
                               [0..<length (m_items m)]
                in if \<not> list_all terminal states then RUNNING
                   else if list_ex (\<lambda>s. s \<in> {FAILED, UPSTREAM_FAILED}) states then UPSTREAM_FAILED
                   else if list_ex (\<lambda>s. s = SKIPPED) states then SKIPPED
                   else SUCCESS))"

text \<open>
  \<open>spec.by_id[task_id]\<close> raises \<open>KeyError\<close> for an unknown id; the callers pass a dependency of a
  task, which is a key in every validated graph (lemma \<open>dep_known\<close>).
\<close>

definition effective_state :: "DagSpec \<Rightarrow> run_body \<Rightarrow> string \<Rightarrow> task_state" where
  "effective_state spec body task_id =
     (if expand (the (dict_get (by_id spec) task_id)) \<noteq> None then mapped_group_state body task_id
      else state_at body task_id)"

datatype verdict = V_ready | V_wait | V_fail | V_skip

definition deps_verdict :: "DagSpec \<Rightarrow> run_body \<Rightarrow> TaskSpec \<Rightarrow> verdict" where
  "deps_verdict spec body task =
     (let ups = map (effective_state spec body)
                  (filter (\<lambda>d. dict_get (b_tasks body) d \<noteq> None) (depends_on task))
      in if \<not> list_all terminal ups then V_wait
         else if t_trigger_rule task = ALL_DONE then V_ready
         else if list_ex (\<lambda>s. s \<in> {FAILED, UPSTREAM_FAILED}) ups then V_fail
         else if list_ex (\<lambda>s. s = SKIPPED) ups then V_skip
         else V_ready)"

subsection \<open>Expansion\<close>

definition awaiting_task :: "DagSpec \<Rightarrow> run_body \<Rightarrow> TaskSpec \<Rightarrow> (string \<times> string \<times> string) list" where
  "awaiting_task spec body task =
     (case expand task of
        None \<Rightarrow> []
      | Some ex \<Rightarrow>
          if dict_get (b_mapped body) (t_id task) \<noteq> None then []
          else if (case dict_get (b_tasks body) (t_id task) of
                     None \<Rightarrow> False | Some e \<Rightarrow> e_state e \<noteq> PENDING) then []
          else if effective_state spec body (from_task ex) = SUCCESS
          then [(t_id task, from_task ex, ex_key ex)] else [])"

definition tasks_awaiting_expansion :: "DagSpec \<Rightarrow> run_body \<Rightarrow> (string \<times> string \<times> string) list" where
  "tasks_awaiting_expansion spec body =
     (if is_terminal_run body then [] else concat (map (awaiting_task spec body) (d_tasks spec)))"

definition terminalise_task ::
  "task_entry \<Rightarrow> task_state \<Rightarrow> real \<Rightarrow> AdvanceResult \<Rightarrow> task_entry \<times> AdvanceResult" where
  "terminalise_task entry state now result =
     (entry\<lparr>e_state := state, finishedAt := Some now, e_proc := None, e_pid := None, e_updatedAt := now\<rparr>,
      result\<lparr>changed := True\<rparr>)"

abbreviation put_entry :: "string \<Rightarrow> task_entry \<Rightarrow> run_body \<Rightarrow> run_body" where
  "put_entry key entry body \<equiv> body\<lparr>b_tasks := dict_set key entry (b_tasks body)\<rparr>"

definition instance_entry :: "TaskSpec \<Rightarrow> real \<Rightarrow> nat \<Rightarrow> json \<Rightarrow> task_entry" where
  "instance_entry task now i item =
     (new_task_entry task now)\<lparr>mapIndex := Some i, e_mapped := False, mapItem := Some item\<rparr>"

fun add_instances :: "TaskSpec \<Rightarrow> real \<Rightarrow> nat \<Rightarrow> json list \<Rightarrow> run_body \<Rightarrow> run_body" where
  "add_instances task now i [] body = body"
| "add_instances task now i (item # items) body =
     add_instances task now (Suc i) items
       (put_entry (task_display_key (t_id task) (Some i)) (instance_entry task now i item) body)"

definition apply_expansion ::
  "DagSpec \<Rightarrow> real \<Rightarrow> string \<Rightarrow> json list option \<Rightarrow> run_body \<times> AdvanceResult \<Rightarrow> run_body \<times> AdvanceResult"
where
  "apply_expansion spec now task_id items_opt st =
     (case st of (body, result) \<Rightarrow>
      case items_opt of
        None \<Rightarrow> (body, result)
      | Some items \<Rightarrow>
          (case dict_get (by_id spec) task_id of
             None \<Rightarrow> (body, result)
           | Some task \<Rightarrow>
               (case expand task of
                  None \<Rightarrow> (body, result)
                | Some ex \<Rightarrow>
                    if dict_get (b_mapped body) task_id \<noteq> None then (body, result)
                    else if effective_state spec body (from_task ex) \<noteq> SUCCESS then (body, result)
                    else if length items > MAX_MAPPED_ITEMS
                    then (case dict_get (b_tasks body) task_id of
                            None \<Rightarrow> (body, result)
                          | Some ph \<Rightarrow>
                              if e_state ph \<noteq> PENDING then (body, result)
                              else (case terminalise_task
                                      (ph\<lparr>failReason := Some (''mapped fan-out of '' @ show_nat (length items) @
                                          '' items exceeds the cap of '' @ show_nat MAX_MAPPED_ITEMS)\<rparr>)
                                      FAILED now result of
                                      (ph', result') \<Rightarrow> (put_entry task_id ph' body, result')))
                    else (let body1 = body\<lparr>b_mapped := dict_set task_id
                                        \<lparr>m_items = items, expandedAt = now\<rparr> (b_mapped body)\<rparr>;
                              body2 = (case dict_get (b_tasks body1) task_id of
                                         None \<Rightarrow> body1
                                       | Some ph \<Rightarrow>
                                           put_entry task_id (ph\<lparr>e_state := EXPANDED, e_updatedAt := now\<rparr>) body1)
                          in (add_instances task now 0 items body2, result\<lparr>changed := True\<rparr>)))))"

definition apply_expansions ::
  "DagSpec \<Rightarrow> json list option dict \<Rightarrow> real \<Rightarrow> run_body \<times> AdvanceResult \<Rightarrow> run_body \<times> AdvanceResult"
where
  "apply_expansions spec expansions now st =
     fold (\<lambda>(task_id, items). apply_expansion spec now task_id items) expansions st"

definition instances_of :: "run_body \<Rightarrow> TaskSpec \<Rightarrow> (string \<times> nat option \<times> json option) list" where
  "instances_of body task =
     (if expand task = None then [(t_id task, None, None)]
      else (case dict_get (b_mapped body) (t_id task) of
              None \<Rightarrow> []
            | Some m \<Rightarrow>
                map (\<lambda>i. (task_display_key (t_id task) (Some i), Some i, Some (m_items m ! i)))
                  [0..<length (m_items m)]))"

subsection \<open>Claims\<close>

definition claims_full :: "AdvanceResult \<Rightarrow> bool \<times> AdvanceResult" where
  "claims_full result =
     (if length (launches result) < MAX_CLAIMS_PER_PASS then (False, result)
      else (True, result\<lparr>deferred := True\<rparr>))"

definition sensor_timed_out :: "TaskSpec \<Rightarrow> task_entry \<Rightarrow> real \<Rightarrow> bool" where
  "sensor_timed_out task entry now =
     (case firstPokeAt entry of None \<Rightarrow> False | Some started \<Rightarrow> now - started \<ge> poke_timeout task)"

abbreviation poke_count :: "task_entry \<Rightarrow> int" where
  "poke_count entry \<equiv> (case pokeCount entry of None \<Rightarrow> 0 | Some n \<Rightarrow> n)"

text \<open>\<open>entry.get("startedAt") or now\<close>: a zero instant reads as absent.\<close>

definition started_or :: "real option \<Rightarrow> real \<Rightarrow> real" where
  "started_or t now = (case t of None \<Rightarrow> now | Some s \<Rightarrow> if s = 0 then now else s)"

definition claim_task ::
  "TaskSpec \<Rightarrow> string \<Rightarrow> nat option \<Rightarrow> json option \<Rightarrow> real \<Rightarrow> string \<Rightarrow> string \<Rightarrow>
   task_entry \<times> AdvanceResult \<Rightarrow> task_entry \<times> AdvanceResult" where
  "claim_task task taskkey map_index item now proc host st =
     (case st of (entry, result) \<Rightarrow>
      if t_type task = APPROVAL
      then (entry\<lparr>e_state := RUNNING, startedAt := Some now, awaitingApproval := True, e_updatedAt := now\<rparr>,
            result\<lparr>changed := True\<rparr>)
      else (case claims_full result of (full, result1) \<Rightarrow>
        if full then (entry, result1)
        else (let is_sensor = (t_type task = SENSOR);
                  entry1 = entry\<lparr>e_state := RUNNING, e_proc := Some proc, e_pid := None, e_host := Some host,
                                 startedAt := Some (started_or (startedAt entry) now), e_updatedAt := now\<rparr>;
                  entry2 = (if is_sensor
                            then entry1\<lparr>pokeCount := Some 0, firstPokeAt := Some now, nextPokeAt := None\<rparr>
                            else entry1)
              in (entry2,
                  result1\<lparr>launches := launches result1 @
                    [\<lparr>li_task_id = t_id task, li_taskkey = taskkey, li_map_index = map_index,
                      li_map_item = item, li_attempt = e_attempt entry2, li_is_sensor = is_sensor,
                      li_poke_number = 0\<rparr>], changed := True\<rparr>))))"

definition retyped_reason :: "task_type \<Rightarrow> string" where
  "retyped_reason ty =
     ''task was retyped from sensor to '' @ type_text ty @
     '' across a config reload while idle between pokes; its pre-reload state cannot be '' @
     ''resumed under the new shape, so it is failed to let the run finish (the next run starts cleanly)''"

definition advance_running ::
  "TaskSpec \<Rightarrow> string \<Rightarrow> nat option \<Rightarrow> json option \<Rightarrow> real \<Rightarrow> string \<Rightarrow> string \<Rightarrow>
   task_entry \<times> AdvanceResult \<Rightarrow> task_entry \<times> AdvanceResult" where
  "advance_running task taskkey map_index item now proc host st =
     (case st of (entry, result) \<Rightarrow>
      if t_type task \<noteq> SENSOR
      then (if e_proc entry = None \<and> e_pid entry = None \<and> \<not> awaitingApproval entry
            then terminalise_task (entry\<lparr>failReason := Some (retyped_reason (t_type task))\<rparr>) FAILED now result
            else (entry, result))
      else if e_pid entry \<noteq> None \<or> e_proc entry \<noteq> None then (entry, result)
      else if (case nextPokeAt entry of None \<Rightarrow> False | Some np \<Rightarrow> np > now) then (entry, result)
      else if sensor_timed_out task entry now
      then terminalise_task (entry\<lparr>failReason := Some ''sensor timed out''\<rparr>) FAILED now result
      else (case claims_full result of (full, result1) \<Rightarrow>
        if full then (entry, result1)
        else (entry\<lparr>e_proc := Some proc, e_host := Some host, e_pid := None, nextPokeAt := None,
                    e_updatedAt := now\<rparr>,
              result1\<lparr>launches := launches result1 @
                [\<lparr>li_task_id = t_id task, li_taskkey = taskkey, li_map_index = map_index,
                  li_map_item = item, li_attempt = e_attempt entry, li_is_sensor = True,
                  li_poke_number = poke_count entry\<rparr>], changed := True\<rparr>)))"

definition retry_due :: "task_entry \<Rightarrow> real \<Rightarrow> bool" where
  "retry_due entry now \<longleftrightarrow> (case nextRetryAt entry of None \<Rightarrow> 0 | Some t \<Rightarrow> t) \<le> now"

text \<open>
  One instance.  The verdict is only read for a pending entry, for which the caller has always
  computed it.
\<close>

definition advance_task ::
  "TaskSpec \<Rightarrow> string \<Rightarrow> nat option \<Rightarrow> json option \<Rightarrow> real \<Rightarrow> string \<Rightarrow> string \<Rightarrow> verdict \<Rightarrow>
   task_entry \<times> AdvanceResult \<Rightarrow> task_entry \<times> AdvanceResult" where
  "advance_task task taskkey map_index item now proc host verdict st =
     (case st of (entry, result) \<Rightarrow>
      if terminal (e_state entry) \<or> e_state entry = EXPANDED then st
      else if e_state entry = RUNNING then advance_running task taskkey map_index item now proc host st
      else if e_state entry = UP_FOR_RETRY
      then (if retry_due entry now then claim_task task taskkey map_index item now proc host st else st)
      else if e_state entry \<noteq> PENDING then st
      else (case verdict of
              V_wait \<Rightarrow> st
            | V_fail \<Rightarrow> terminalise_task entry UPSTREAM_FAILED now result
            | V_skip \<Rightarrow> terminalise_task entry SKIPPED now result
            | V_ready \<Rightarrow> claim_task task taskkey map_index item now proc host st))"

definition stale_reason :: "task_state \<Rightarrow> string" where
  "stale_reason state =
     ''task gained expand: across a config reload while parked '' @ state_text state @
     ''; its pre-reload state cannot be resumed under the mapped shape, so it is failed to let '' @
     ''the run finish (the next run expands normally)''"

definition resolve_stale_placeholder ::
  "real \<Rightarrow> task_entry \<times> AdvanceResult \<Rightarrow> task_entry \<times> AdvanceResult" where
  "resolve_stale_placeholder now st =
     (case st of (entry, result) \<Rightarrow>
      if terminal (e_state entry) \<or> e_state entry = EXPANDED then st
      else if e_state entry = RUNNING \<and> (e_proc entry \<noteq> None \<or> awaitingApproval entry) then st
      else terminalise_task (entry\<lparr>failReason := Some (stale_reason (e_state entry))\<rparr>) FAILED now result)"

definition propagate_placeholder ::
  "DagSpec \<Rightarrow> TaskSpec \<Rightarrow> ExpandSpec \<Rightarrow> real \<Rightarrow> run_body \<times> AdvanceResult \<Rightarrow> run_body \<times> AdvanceResult" where
  "propagate_placeholder spec task ex now st =
     (case st of (body, result) \<Rightarrow>
      case dict_get (b_tasks body) (t_id task) of
        None \<Rightarrow> st
      | Some entry \<Rightarrow>
          (let write = (\<lambda>(entry', result'). (put_entry (t_id task) entry' body, result'))
           in if e_state entry \<noteq> PENDING then write (resolve_stale_placeholder now (entry, result))
              else (let src = effective_state spec body (from_task ex)
                    in if src \<in> {FAILED, UPSTREAM_FAILED}
                       then write (terminalise_task entry UPSTREAM_FAILED now result)
                       else if src = SKIPPED then write (terminalise_task entry SKIPPED now result)
                       else (case deps_verdict spec body task of
                               V_fail \<Rightarrow> write (terminalise_task entry UPSTREAM_FAILED now result)
                             | V_skip \<Rightarrow> write (terminalise_task entry SKIPPED now result)
                             | _ \<Rightarrow> st))))"

text \<open>
  The instance loop of one task.  The source computes the verdict lazily, at the first pending
  instance, and keeps it: \<open>verdict\<close> is \<open>None\<close> until then.
\<close>

fun advance_instances ::
  "DagSpec \<Rightarrow> TaskSpec \<Rightarrow> real \<Rightarrow> string \<Rightarrow> string \<Rightarrow> verdict option \<Rightarrow>
   (string \<times> nat option \<times> json option) list \<Rightarrow> run_body \<times> AdvanceResult \<Rightarrow> run_body \<times> AdvanceResult"
where
  "advance_instances spec task now proc host verdict [] st = st"
| "advance_instances spec task now proc host verdict ((taskkey, map_index, item) # rest) (body, result) =
     (case dict_get (b_tasks body) taskkey of
        None \<Rightarrow> advance_instances spec task now proc host verdict rest (body, result)
      | Some entry \<Rightarrow>
          (let verdict' = (if verdict = None \<and> e_state entry = PENDING
                           then Some (deps_verdict spec body task) else verdict)
           in case advance_task task taskkey map_index item now proc host (the verdict') (entry, result) of
                (entry', result') \<Rightarrow>
                  advance_instances spec task now proc host verdict' rest
                    (put_entry taskkey entry' body, result')))"

definition advance_spec_task ::
  "DagSpec \<Rightarrow> real \<Rightarrow> string \<Rightarrow> string \<Rightarrow> TaskSpec \<Rightarrow> run_body \<times> AdvanceResult \<Rightarrow> run_body \<times> AdvanceResult"
where
  "advance_spec_task spec now proc host task st =
     (case st of (body, result) \<Rightarrow>
      case expand task of
        Some ex \<Rightarrow>
          if dict_get (b_mapped body) (t_id task) = None then propagate_placeholder spec task ex now st
          else advance_instances spec task now proc host None (instances_of body task) st
      | None \<Rightarrow> advance_instances spec task now proc host None (instances_of body task) st)"

definition propagate_and_claim ::
  "DagSpec \<Rightarrow> real \<Rightarrow> string \<Rightarrow> string \<Rightarrow> run_body \<times> AdvanceResult \<Rightarrow> run_body \<times> AdvanceResult" where
  "propagate_and_claim spec now proc host st = fold (advance_spec_task spec now proc host) (d_tasks spec) st"

subsection \<open>Terminalising the run\<close>

text \<open>The states one task contributes; \<open>None\<close> is the early return on an unresolved placeholder.\<close>

definition consulted :: "run_body \<Rightarrow> TaskSpec \<Rightarrow> task_state list option" where
  "consulted body task =
     (if expand task \<noteq> None \<and> dict_get (b_mapped body) (t_id task) = None
      then (case dict_get (b_tasks body) (t_id task) of
              None \<Rightarrow> Some []
            | Some e \<Rightarrow> if terminal (e_state e) then Some [e_state e] else None)
      else Some (map e_state (List.map_filter (\<lambda>(key, _, _). dict_get (b_tasks body) key)
                                (instances_of body task))))"

fun consulted_states :: "run_body \<Rightarrow> TaskSpec list \<Rightarrow> task_state list option" where
  "consulted_states body [] = Some []"
| "consulted_states body (task # rest) =
     (case consulted body task of
        None \<Rightarrow> None
      | Some ss \<Rightarrow> map_option (\<lambda>more. ss @ more) (consulted_states body rest))"

definition run_outcome :: "task_state list \<Rightarrow> task_state" where
  "run_outcome states =
     (if list_ex (\<lambda>s. s \<in> {FAILED, UPSTREAM_FAILED}) states then FAILED else SUCCESS)"

definition maybe_terminalise ::
  "DagSpec \<Rightarrow> run_body \<times> AdvanceResult \<Rightarrow> run_body \<times> AdvanceResult" where
  "maybe_terminalise spec st =
     (case st of (body, result) \<Rightarrow>
      case consulted_states body (d_tasks spec) of
        None \<Rightarrow> st
      | Some states \<Rightarrow>
          if \<not> list_all terminal states then st
          else (let run_state = run_outcome states
                in if b_state body \<noteq> run_state
                   then (body\<lparr>b_state := run_state\<rparr>, result\<lparr>changed := True, run_terminal := True\<rparr>)
                   else (body, result\<lparr>run_terminal := True\<rparr>)))"

subsection \<open>The quiescence pre-scan\<close>

datatype q_verdict = Q_ACT | Q_BLOCKED | Q_INERT

definition q_blocked :: "run_body \<Rightarrow> TaskSpec \<Rightarrow> string \<Rightarrow> task_entry \<Rightarrow> q_verdict" where
  "q_blocked body task taskkey entry =
     (if expand task = None then (if taskkey = t_id task then Q_BLOCKED else Q_ACT)
      else (case dict_get (b_mapped body) (t_id task) of
              None \<Rightarrow> Q_ACT
            | Some m \<Rightarrow>
                (case mapIndex entry of
                   None \<Rightarrow> Q_ACT
                 | Some i \<Rightarrow>
                     if i < length (m_items m) \<and> taskkey = task_display_key (t_id task) (Some i)
                     then Q_BLOCKED else Q_ACT)))"

definition entry_quiescence ::
  "DagSpec \<Rightarrow> run_body \<Rightarrow> string \<Rightarrow> task_entry \<Rightarrow> real \<Rightarrow> string \<Rightarrow> q_verdict" where
  "entry_quiescence spec body taskkey entry now proc =
     (if terminal (e_state entry) then Q_INERT
      else (case dict_get (by_id spec) (e_id entry) of
              None \<Rightarrow> Q_ACT
            | Some task \<Rightarrow>
                if e_state entry = EXPANDED then (if expand task = None then Q_ACT else Q_INERT)
                else if e_state entry = UP_FOR_RETRY
                then (if retry_due entry now then Q_ACT else q_blocked body task taskkey entry)
                else if e_state entry = RUNNING
                then (if awaitingApproval entry then q_blocked body task taskkey entry
                      else (case e_proc entry of
                              Some p \<Rightarrow> if p \<noteq> proc then Q_ACT else q_blocked body task taskkey entry
                            | None \<Rightarrow>
                                if t_type task \<noteq> SENSOR \<or> e_pid entry \<noteq> None then Q_ACT
                                else (case nextPokeAt entry of
                                        None \<Rightarrow> Q_ACT
                                      | Some np \<Rightarrow>
                                          if np \<le> now then Q_ACT else q_blocked body task taskkey entry)))
                else Q_ACT))"

definition is_quiescent ::
  "DagSpec \<Rightarrow> run_body \<Rightarrow> real \<Rightarrow> string \<Rightarrow> json list option dict \<Rightarrow> bool" where
  "is_quiescent spec body now proc expansions \<longleftrightarrow>
     \<not> list_ex (\<lambda>(_, items). items \<noteq> None) expansions \<and>
     tasks_awaiting_expansion spec body = [] \<and>
     list_all (\<lambda>(key, e). entry_quiescence spec body key e now proc \<noteq> Q_ACT) (b_tasks body) \<and>
     list_ex (\<lambda>(key, e). entry_quiescence spec body key e now proc = Q_BLOCKED) (b_tasks body)"

subsection \<open>The advance transform\<close>

definition claim_pass ::
  "DagSpec \<Rightarrow> real \<Rightarrow> string \<Rightarrow> string \<Rightarrow> run_body \<times> AdvanceResult \<Rightarrow> run_body \<times> AdvanceResult" where
  "claim_pass spec now proc host st = maybe_terminalise spec (propagate_and_claim spec now proc host st)"

definition full_pass ::
  "DagSpec \<Rightarrow> real \<Rightarrow> string \<Rightarrow> string \<Rightarrow> json list option dict \<Rightarrow> run_body \<Rightarrow> run_body \<times> AdvanceResult"
where
  "full_pass spec now proc host expansions body =
     claim_pass spec now proc host (apply_expansions spec expansions now (body, empty_result))"

definition plan_and_claim ::
  "DagSpec \<Rightarrow> real \<Rightarrow> string \<Rightarrow> string \<Rightarrow> json list option dict \<Rightarrow> run_body option \<Rightarrow>
   run_body doc_write \<times> AdvanceResult" where
  "plan_and_claim spec now proc host expansions body_opt =
     (case body_opt of
        None \<Rightarrow> (DOC_KEEP, empty_result)
      | Some body \<Rightarrow>
          if is_terminal_run body then (DOC_KEEP, empty_result)
          else if is_quiescent spec body now proc expansions then (DOC_KEEP, empty_result)
          else (case full_pass spec now proc host expansions body of
                  (working, result) \<Rightarrow>
                    if \<not> changed result then (DOC_KEEP, result)
                    else (DOC_PUT (working\<lparr>b_updatedAt := now\<rparr>), result)))"

subsection \<open>Recording pids\<close>

record pid_mark =
  pm_taskkey :: string
  pm_proc :: string
  pm_pid :: "int option"
  pm_attempt :: "int option"

definition pid_fence :: "pid_mark \<Rightarrow> task_entry \<Rightarrow> bool" where
  "pid_fence m entry \<longleftrightarrow>
     e_state entry = RUNNING \<and> e_proc entry = Some (pm_proc m) \<and>
     (case pm_attempt m of None \<Rightarrow> True | Some a \<Rightarrow> e_attempt entry = a)"

definition set_task_pid :: "pid_mark \<Rightarrow> real \<Rightarrow> run_body option \<Rightarrow> run_body doc_write \<times> bool" where
  "set_task_pid m now body_opt =
     (case body_opt of
        None \<Rightarrow> (DOC_KEEP, False)
      | Some body \<Rightarrow>
          (case dict_get (b_tasks body) (pm_taskkey m) of
             None \<Rightarrow> (DOC_KEEP, False)
           | Some entry \<Rightarrow>
               if \<not> pid_fence m entry then (DOC_KEEP, False)
               else (DOC_PUT ((put_entry (pm_taskkey m) (entry\<lparr>e_pid := pm_pid m, e_updatedAt := now\<rparr>) body)
                       \<lparr>b_updatedAt := now\<rparr>), True)))"

fun apply_pids :: "real \<Rightarrow> pid_mark list \<Rightarrow> task_entry dict \<times> nat \<Rightarrow> task_entry dict \<times> nat" where
  "apply_pids now [] st = st"
| "apply_pids now (m # ms) (tasks, applied) =
     (case dict_get tasks (pm_taskkey m) of
        None \<Rightarrow> apply_pids now ms (tasks, applied)
      | Some entry \<Rightarrow>
          if \<not> pid_fence m entry then apply_pids now ms (tasks, applied)
          else apply_pids now ms
                 (dict_set (pm_taskkey m) (entry\<lparr>e_pid := pm_pid m, e_updatedAt := now\<rparr>) tasks, Suc applied))"

definition set_task_pids :: "pid_mark list \<Rightarrow> real \<Rightarrow> run_body option \<Rightarrow> run_body doc_write \<times> nat" where
  "set_task_pids ms now body_opt =
     (case body_opt of
        None \<Rightarrow> (DOC_KEEP, 0)
      | Some body \<Rightarrow>
          (case apply_pids now ms (b_tasks body, 0) of
             (tasks, applied) \<Rightarrow>
               if applied = 0 then (DOC_KEEP, 0)
               else (DOC_PUT (body\<lparr>b_tasks := tasks, b_updatedAt := now\<rparr>), applied)))"

subsection \<open>Completions\<close>

record finish_mark =
  fm_taskkey :: string
  fm_success :: bool
  fm_exit_code :: "int option"
  fm_fail_reason :: "string option"
  fm_task :: TaskSpec
  fm_jitter :: real
  fm_expected_proc :: "string option"
  fm_expected_attempt :: "int option"
  fm_expected_poke :: "int option"
  fm_resources :: "json option"

definition finish_sensor ::
  "bool \<Rightarrow> real \<Rightarrow> TaskSpec \<Rightarrow> real \<Rightarrow> json option \<Rightarrow> task_entry \<Rightarrow> task_entry" where
  "finish_sensor success now task jitter res entry =
     (let entry1 = entry\<lparr>e_proc := None, e_pid := None, pokeCount := Some (poke_count entry + 1)\<rparr>
      in if success
         then entry1\<lparr>e_state := SUCCESS, finishedAt := Some now, exitCode := Some 0,
                resources := (if res \<noteq> None then res else resources entry1), e_updatedAt := now\<rparr>
         else entry1\<lparr>nextPokeAt := Some (now + max 0 (poke_interval task) + max 0 jitter),
                e_updatedAt := now\<rparr>)"

definition finish_plain ::
  "bool \<Rightarrow> int option \<Rightarrow> string option \<Rightarrow> real \<Rightarrow> TaskSpec \<Rightarrow> json option \<Rightarrow> task_entry \<Rightarrow> task_entry" where
  "finish_plain success exit_code fail_reason now task res entry =
     (let entry1 = entry\<lparr>e_proc := None, e_pid := None, exitCode := exit_code,
                     resources := (if res \<noteq> None then res else resources entry)\<rparr>
      in if success
         then entry1\<lparr>e_state := SUCCESS, finishedAt := Some now, failReason := None, e_updatedAt := now\<rparr>
         else if e_attempt entry + 1 < max_attempts task
         then entry1\<lparr>e_attempt := e_attempt entry + 1, e_state := UP_FOR_RETRY, failReason := fail_reason,
                nextRetryAt := Some (now + max 0 (retry_delay task)), e_updatedAt := now\<rparr>
         else entry1\<lparr>e_attempt := e_attempt entry + 1, e_state := FAILED, failReason := fail_reason,
                finishedAt := Some now, nextRetryAt := None, e_updatedAt := now\<rparr>)"

definition finish_fence :: "finish_mark \<Rightarrow> task_entry \<Rightarrow> bool" where
  "finish_fence m entry \<longleftrightarrow>
     e_state entry = RUNNING \<and>
     (fm_expected_proc m = None \<or> e_proc entry = fm_expected_proc m) \<and>
     (case fm_expected_attempt m of None \<Rightarrow> True | Some a \<Rightarrow> e_attempt entry = a) \<and>
     (case fm_expected_poke m of None \<Rightarrow> True | Some n \<Rightarrow> poke_count entry = n)"

definition finish_entry :: "finish_mark \<Rightarrow> real \<Rightarrow> task_entry \<Rightarrow> task_entry" where
  "finish_entry m now entry =
     (if t_type (fm_task m) = SENSOR
      then finish_sensor (fm_success m) now (fm_task m) (fm_jitter m) (fm_resources m) entry
      else finish_plain (fm_success m) (fm_exit_code m) (fm_fail_reason m) now (fm_task m)
             (fm_resources m) entry)"

definition mark_task_finished :: "finish_mark \<Rightarrow> real \<Rightarrow> run_body option \<Rightarrow> run_body doc_write \<times> bool" where
  "mark_task_finished m now body_opt =
     (case body_opt of
        None \<Rightarrow> (DOC_KEEP, False)
      | Some body \<Rightarrow>
          (case dict_get (b_tasks body) (fm_taskkey m) of
             None \<Rightarrow> (DOC_KEEP, False)
           | Some entry \<Rightarrow>
               if \<not> finish_fence m entry then (DOC_KEEP, False)
               else (DOC_PUT ((put_entry (fm_taskkey m) (finish_entry m now entry) body)\<lparr>b_updatedAt := now\<rparr>),
                     True)))"

fun apply_marks :: "real \<Rightarrow> finish_mark list \<Rightarrow> task_entry dict \<times> string list \<Rightarrow> task_entry dict \<times> string list"
where
  "apply_marks now [] st = st"
| "apply_marks now (m # ms) (tasks, applied) =
     (case dict_get tasks (fm_taskkey m) of
        None \<Rightarrow> apply_marks now ms (tasks, applied)
      | Some entry \<Rightarrow>
          if \<not> finish_fence m entry then apply_marks now ms (tasks, applied)
          else apply_marks now ms
                 (dict_set (fm_taskkey m) (finish_entry m now entry) tasks, applied @ [fm_taskkey m]))"

definition mark_tasks_finished ::
  "finish_mark list \<Rightarrow> real \<Rightarrow> run_body option \<Rightarrow> run_body doc_write \<times> string list" where
  "mark_tasks_finished ms now body_opt =
     (case body_opt of
        None \<Rightarrow> (DOC_KEEP, [])
      | Some body \<Rightarrow>
          (case apply_marks now ms (b_tasks body, []) of
             (tasks, applied) \<Rightarrow>
               if applied = [] then (DOC_KEEP, [])
               else (DOC_PUT (body\<lparr>b_tasks := tasks, b_updatedAt := now\<rparr>), applied)))"

subsection \<open>Approval\<close>

datatype approval_result = ApprovalRefused string | ApprovalDone task_state

definition apply_approval ::
  "string \<Rightarrow> bool \<Rightarrow> string \<Rightarrow> real \<Rightarrow> task_state \<Rightarrow> run_body option \<Rightarrow>
   run_body doc_write \<times> approval_result" where
  "apply_approval taskkey approved who now reject_state body_opt =
     (case body_opt of
        None \<Rightarrow> (DOC_KEEP, ApprovalRefused ''no such run'')
      | Some body \<Rightarrow>
          (case dict_get (b_tasks body) taskkey of
             None \<Rightarrow> (DOC_KEEP, ApprovalRefused ''no such task'')
           | Some entry \<Rightarrow>
               if e_state entry \<noteq> RUNNING \<or> \<not> awaitingApproval entry
               then (DOC_KEEP, ApprovalRefused ''task is not awaiting approval'')
               else (let state = (if approved then SUCCESS
                                  else if reject_state = SKIPPED then SKIPPED else FAILED);
                         entry' = entry\<lparr>awaitingApproval := False,
                           approval := Some \<lparr>decision = (if approved then ''approved'' else ''rejected''),
                                             decided_by = who, decided_at = now\<rparr>,
                           finishedAt := Some now, e_state := state, e_updatedAt := now\<rparr>
                     in (DOC_PUT ((put_entry taskkey entry' body)\<lparr>b_updatedAt := now\<rparr>), ApprovalDone state))))"

subsection \<open>Recovery after a crash\<close>

text \<open>\<open>is_pid_alive\<close> asks the operating system and is a parameter.\<close>

definition has_live_process :: "task_entry \<Rightarrow> string \<Rightarrow> string \<Rightarrow> (int \<Rightarrow> bool) \<Rightarrow> bool" where
  "has_live_process entry proc host is_pid_alive =
     (case e_proc entry of
        None \<Rightarrow> False
      | Some ep \<Rightarrow>
          ep = proc \<or>
          (e_host entry = Some host \<and> (case e_pid entry of None \<Rightarrow> False | Some pid \<Rightarrow> is_pid_alive pid)))"

definition reconcile_one :: "task_entry \<Rightarrow> TaskSpec option \<Rightarrow> real \<Rightarrow> task_entry" where
  "reconcile_one entry task now =
     (let entry1 = entry\<lparr>e_proc := None, e_pid := None\<rparr>;
          attempts = (case task of None \<Rightarrow> 1 | Some t \<Rightarrow> max_attempts t)
      in if (case task of None \<Rightarrow> False | Some t \<Rightarrow> t_type t = SENSOR)
         then entry1\<lparr>nextPokeAt := Some now, e_updatedAt := now\<rparr>
         else if e_attempt entry + 1 < attempts
         then entry1\<lparr>e_attempt := e_attempt entry + 1, e_state := UP_FOR_RETRY,
                failReason := Some ''reconciled-crash'', nextRetryAt := Some now, e_updatedAt := now\<rparr>
         else entry1\<lparr>e_attempt := e_attempt entry + 1, e_state := FAILED,
                failReason := Some ''reconciled-crash'', finishedAt := Some now, e_updatedAt := now\<rparr>)"

definition crash_victim :: "string \<Rightarrow> string \<Rightarrow> (int \<Rightarrow> bool) \<Rightarrow> task_entry \<Rightarrow> bool" where
  "crash_victim proc host is_pid_alive entry \<longleftrightarrow>
     e_state entry = RUNNING \<and> \<not> awaitingApproval entry \<and> e_proc entry \<noteq> None \<and>
     \<not> has_live_process entry proc host is_pid_alive"

fun reconcile_entries ::
  "DagSpec \<Rightarrow> real \<Rightarrow> string \<Rightarrow> string \<Rightarrow> (int \<Rightarrow> bool) \<Rightarrow> task_entry dict \<Rightarrow> task_entry dict \<times> nat" where
  "reconcile_entries spec now proc host is_pid_alive [] = ([], 0)"
| "reconcile_entries spec now proc host is_pid_alive ((key, entry) # rest) =
     (case reconcile_entries spec now proc host is_pid_alive rest of
        (rest', n) \<Rightarrow>
          if crash_victim proc host is_pid_alive entry
          then ((key, reconcile_one entry (dict_get (by_id spec) (e_id entry)) now) # rest', Suc n)
          else ((key, entry) # rest', n))"

definition reconcile_body ::
  "DagSpec \<Rightarrow> real \<Rightarrow> string \<Rightarrow> string \<Rightarrow> (int \<Rightarrow> bool) \<Rightarrow> run_body \<Rightarrow> run_body \<times> nat" where
  "reconcile_body spec now proc host is_pid_alive body =
     (case reconcile_entries spec now proc host is_pid_alive (b_tasks body) of
        (tasks, n) \<Rightarrow> (body\<lparr>b_tasks := tasks\<rparr>, n))"

definition reconcile_crashed ::
  "DagSpec \<Rightarrow> real \<Rightarrow> string \<Rightarrow> string \<Rightarrow> (int \<Rightarrow> bool) \<Rightarrow> run_body option \<Rightarrow> run_body doc_write \<times> nat" where
  "reconcile_crashed spec now proc host is_pid_alive body_opt =
     (case body_opt of
        None \<Rightarrow> (DOC_KEEP, 0)
      | Some body \<Rightarrow>
          if is_terminal_run body then (DOC_KEEP, 0)
          else (case reconcile_body spec now proc host is_pid_alive body of
                  (body', n) \<Rightarrow> if n \<noteq> 0 then (DOC_PUT (body'\<lparr>b_updatedAt := now\<rparr>), n) else (DOC_KEEP, 0)))"

definition reconcile_and_plan ::
  "DagSpec \<Rightarrow> real \<Rightarrow> string \<Rightarrow> string \<Rightarrow> (int \<Rightarrow> bool) \<Rightarrow> run_body option \<Rightarrow>
   run_body doc_write \<times> ReconcileAdvanceResult" where
  "reconcile_and_plan spec now proc host is_pid_alive body_opt =
     (let none = \<lparr>reconciled = 0, expansions_needed = False, advance = Some empty_result\<rparr>
      in case body_opt of
           None \<Rightarrow> (DOC_KEEP, none)
         | Some body \<Rightarrow>
             if is_terminal_run body then (DOC_KEEP, none)
             else if is_quiescent spec body now proc [] then (DOC_KEEP, none)
             else (case reconcile_body spec now proc host is_pid_alive body of
                     (working, n) \<Rightarrow>
                       if tasks_awaiting_expansion spec working \<noteq> []
                       then (if n \<noteq> 0 then DOC_PUT (working\<lparr>b_updatedAt := now\<rparr>) else DOC_KEEP,
                             \<lparr>reconciled = n, expansions_needed = True, advance = None\<rparr>)
                       else (case claim_pass spec now proc host (working, empty_result) of
                               (working', adv) \<Rightarrow>
                                 (if \<not> changed adv \<and> n = 0 then DOC_KEEP
                                  else DOC_PUT (working'\<lparr>b_updatedAt := now\<rparr>),
                                  \<lparr>reconciled = n, expansions_needed = False, advance = Some adv\<rparr>))))"

end
