(* ===== verification/DagFacts.thy ===== *)
theory DagFacts
  imports DagRun
begin

text \<open>
  Facts the DAG properties share: instance keys never collide, the entries a dependency check
  reads are disjoint from the entries of the task it is for, so the verdict that
  \<open>_propagate_and_claim\<close> computes once per task is the verdict of every instance, and one advance
  pass is a sequence of single-entry steps (relation \<open>claim_step\<close>) over which invariants are
  proved by induction.
\<close>

subsection \<open>Specifications built from a validated graph\<close>

definition wf_spec :: "DagSpec \<Rightarrow> bool" where
  "wf_spec spec \<longleftrightarrow>
     validate_graph spec = Inr () \<and> by_id spec = dict_of (map (\<lambda>t. (t_id t, t)) (d_tasks spec))"

lemma wf_specD:
  assumes "wf_spec spec"
  shows "ids_ok (d_tasks spec)" and "edges_ok (d_tasks spec)" and "acyclic (dep_edges (d_tasks spec))"
  using assms by (simp_all add: wf_spec_def validate_graph_iff valid_tasks_def)

lemma wf_spec_build: "validate_graph (build name tasks) = Inr () \<Longrightarrow> wf_spec (build name tasks)"
  by (simp add: wf_spec_def build_def)

lemma wf_spec_index: "wf_spec spec \<Longrightarrow> by_id spec = dict_of (map (\<lambda>t. (t_id t, t)) (d_tasks spec))"
  by (simp only: wf_spec_def)

lemma wf_spec_id:
  assumes "wf_spec spec" and "t \<in> set (d_tasks spec)"
  shows "good_id (t_id t)" and "dict_get (by_id spec) (t_id t) = Some t"
  using wf_specD(1) [OF assms(1)] assms(2) by_id_index [OF wf_specD(1) [OF assms(1)] assms(2)]
    wf_spec_index [OF assms(1)]
  by (auto simp: ids_ok_def list_all_iff)

lemma wf_spec_by_id:
  assumes "wf_spec spec" and "dict_get (by_id spec) k = Some t"
  shows "t \<in> set (d_tasks spec)" and "t_id t = k"
proof -
  have get: "dict_get (dict_of (map (\<lambda>t. (t_id t, t)) (d_tasks spec))) k = Some t"
    using assms(2) wf_spec_index [OF assms(1)] by (simp only:)
  show "t \<in> set (d_tasks spec)" "t_id t = k"
    by (rule by_id_mem [OF wf_specD(1) [OF assms(1)] get])+
qed

lemma wf_spec_inj:
  assumes "wf_spec spec" and "t \<in> set (d_tasks spec)" and "u \<in> set (d_tasks spec)" and "t_id t = t_id u"
  shows "t = u"
proof -
  have "Some t = Some u"
    using wf_spec_id(2) [OF assms(1,2)] wf_spec_id(2) [OF assms(1,3)] unfolding assms(4) by (rule trans [OF sym])
  then show ?thesis by (rule option.inject [THEN iffD1])
qed

lemma dep_known:
  assumes "wf_spec spec" and "t \<in> set (d_tasks spec)" and "d \<in> set (depends_on t)"
  obtains u where "u \<in> set (d_tasks spec)" and "t_id u = d" and "dict_get (by_id spec) d = Some u" and "d \<noteq> t_id t"
proof -
  have "d \<in> t_id ` set (d_tasks spec)" and "d \<noteq> t_id t"
    using wf_specD(2) [OF assms(1)] assms(2,3) by (auto simp: edges_ok_def)
  then obtain u where "u \<in> set (d_tasks spec)" "t_id u = d" by blast
  with that wf_spec_id(2) [OF assms(1)] \<open>d \<noteq> t_id t\<close> show thesis by blast
qed

lemma expand_source:
  assumes "wf_spec spec" and "t \<in> set (d_tasks spec)" and "expand t = Some ex"
  shows "from_task ex \<in> set (depends_on t)" and "t_type t = TASK"
    and "\<forall>u \<in> set (d_tasks spec). t_id u = from_task ex \<longrightarrow> expand u = None"
  using wf_specD(2) [OF assms(1)] assms(2,3) by (auto simp: edges_ok_def expand_ok_def)

subsection \<open>Instance keys\<close>

lemma hash_split_inj:
  assumes "a @ CHR ''#'' # x = b @ CHR ''#'' # y" and "CHR ''#'' \<notin> set a" and "CHR ''#'' \<notin> set b"
  shows "a = b" and "x = y"
proof -
  have "takeWhile (\<lambda>c. c \<noteq> CHR ''#'') (a @ CHR ''#'' # x) = a"
    and "takeWhile (\<lambda>c. c \<noteq> CHR ''#'') (b @ CHR ''#'' # y) = b"
    using assms(2,3) by (auto simp: takeWhile_append)
  with assms(1) show "a = b" by simp
  with assms(1) show "x = y" by simp
qed

lemma display_key_inj:
  assumes "task_display_key a i = task_display_key b j" and "good_id a" and "good_id b"
  shows "a = b \<and> i = j"
proof (cases i; cases j)
  fix x y
  assume "i = Some x" "j = Some y"
  then show ?thesis
    using assms hash_split_inj [of a "show_nat x" b "show_nat y"] show_nat_inj [of x y]
    by (auto simp: task_display_key_def good_id_def)
qed (use assms in \<open>auto simp: task_display_key_def good_id_def\<close>)

lemma task_key_inj:
  assumes "wf_spec spec" and "t \<in> set (d_tasks spec)" and "u \<in> set (d_tasks spec)"
    and "task_display_key (t_id t) i = task_display_key (t_id u) j"
  shows "t = u" and "i = j"
  using display_key_inj [OF assms(4) wf_spec_id(1) [OF assms(1,2)] wf_spec_id(1) [OF assms(1,3)]]
    wf_spec_inj [OF assms(1-3)] by blast+

lemma display_key_None [simp]: "task_display_key t None = t"
  by (simp add: task_display_key_def)

lemma instance_key:
  assumes "(key, mi, item) \<in> set (instances_of body task)"
  shows "key = task_display_key (t_id task) mi" and "mi = None \<longleftrightarrow> expand task = None"
  using assms by (auto simp: instances_of_def split: option.splits if_splits)

lemma instances_of_put [simp]: "instances_of (put_entry key e body) task = instances_of body task"
  by (simp add: instances_of_def)

lemma instance_key_ne:
  assumes "(key, mi, item) \<in> set (instances_of body task)" and "good_id (t_id task)" and "good_id d"
    and "d \<noteq> t_id task"
  shows "key \<noteq> task_display_key d j"
  using display_key_inj [of "t_id task" mi d j] instance_key(1) [OF assms(1)] assms(2-4) by auto

subsection \<open>What a dependency check reads\<close>

lemma state_at_put [simp]:
  "state_at (put_entry key e body) k = (if k = key then e_state e else state_at body k)"
  by (simp add: state_at_def)

lemma effective_state_put:
  assumes "\<And>j. key \<noteq> task_display_key d j"
  shows "effective_state spec (put_entry key e body) d = effective_state spec body d"
proof -
  have "d \<noteq> key" "task_display_key d (Some i) \<noteq> key" for i
    using assms [of None] assms [of "Some i"] by auto
  then show ?thesis
    by (auto simp: effective_state_def mapped_group_state_def split: option.splits)
qed

text \<open>An update of an existing entry of another task does not change a verdict.\<close>

lemma deps_verdict_put:
  assumes "\<And>d j. d \<in> set (depends_on task) \<Longrightarrow> key \<noteq> task_display_key d j"
  shows "deps_verdict spec (put_entry key e body) task = deps_verdict spec body task"
proof -
  have keep: "filter (\<lambda>d. dict_get (b_tasks (put_entry key e body)) d \<noteq> None) (depends_on task) =
      filter (\<lambda>d. dict_get (b_tasks body) d \<noteq> None) (depends_on task)"
    using assms [of _ None] by (intro filter_cong) auto
  have eff: "map (effective_state spec (put_entry key e body)) (filter P (depends_on task)) =
      map (effective_state spec body) (filter P (depends_on task))" for P
    using effective_state_put [OF assms] by (intro map_cong) auto
  show ?thesis unfolding deps_verdict_def keep eff ..
qed

lemma own_instance_verdict:
  assumes "wf_spec spec" and "task \<in> set (d_tasks spec)"
    and "(key, mi, item) \<in> set (instances_of body' task)"
  shows "deps_verdict spec (put_entry key e body) task = deps_verdict spec body task"
proof (rule deps_verdict_put)
  fix d j
  assume "d \<in> set (depends_on task)"
  then obtain u where "u \<in> set (d_tasks spec)" "t_id u = d" "d \<noteq> t_id task"
    using dep_known [OF assms(1,2)] by blast
  then show "key \<noteq> task_display_key d j"
    using instance_key_ne [OF assms(3)] wf_spec_id(1) [OF assms(1)] assms(2) by blast
qed

subsection \<open>A pass is a sequence of single-entry steps\<close>

inductive claim_step ::
  "DagSpec \<Rightarrow> real \<Rightarrow> string \<Rightarrow> string \<Rightarrow> run_body \<times> AdvanceResult \<Rightarrow> run_body \<times> AdvanceResult \<Rightarrow> bool"
  for spec now proc host where
  step_instance:
    "task \<in> set (d_tasks spec) \<Longrightarrow> (key, mi, item) \<in> set (instances_of body task) \<Longrightarrow>
     dict_get (b_tasks body) key = Some entry \<Longrightarrow>
     advance_task task key mi item now proc host (deps_verdict spec body task) (entry, result) = (entry', result') \<Longrightarrow>
     claim_step spec now proc host (body, result) (put_entry key entry' body, result')"
| step_placeholder:
    "task \<in> set (d_tasks spec) \<Longrightarrow> expand task = Some ex \<Longrightarrow> dict_get (b_mapped body) (t_id task) = None \<Longrightarrow>
     claim_step spec now proc host (body, result) (propagate_placeholder spec task ex now (body, result))"

abbreviation claim_steps where
  "claim_steps spec now proc host \<equiv> (claim_step spec now proc host)\<^sup>*\<^sup>*"

lemma advance_task_verdict:
  "e_state entry \<noteq> PENDING \<Longrightarrow>
   advance_task task key mi item now proc host v (entry, r) = advance_task task key mi item now proc host v' (entry, r)"
  by (simp add: advance_task_def)

lemma advance_instances_steps:
  assumes "wf_spec spec" and "task \<in> set (d_tasks spec)" and "set insts \<subseteq> set (instances_of body task)"
    and "verdict = None \<or> verdict = Some (deps_verdict spec body task)"
  shows "claim_steps spec now proc host (body, result)
           (advance_instances spec task now proc host verdict insts (body, result))"
  using assms(3,4)
proof (induction insts arbitrary: body result verdict)
  case (Cons inst rest)
  obtain key mi item where inst: "inst = (key, mi, item)" by (cases inst)
  show ?case
  proof (cases "dict_get (b_tasks body) key")
    case None
    then show ?thesis using Cons by (simp add: inst)
  next
    case (Some entry)
    let ?v = "if verdict = None \<and> e_state entry = PENDING then Some (deps_verdict spec body task) else verdict"
    let ?dv = "deps_verdict spec body task"
    obtain entry' result' where a: "advance_task task key mi item now proc host ?dv (entry, result) = (entry', result')"
      by fastforce
    have same: "advance_task task key mi item now proc host (the ?v) (entry, result) = (entry', result')"
    proof (cases "e_state entry = PENDING")
      case True
      then show ?thesis using a Cons.prems(2) by auto
    next
      case False
      then show ?thesis using a advance_task_verdict [OF False] by metis
    qed
    have mem: "(key, mi, item) \<in> set (instances_of body task)" using Cons.prems(1) inst by simp
    have "claim_step spec now proc host (body, result) (put_entry key entry' body, result')"
      by (rule step_instance [OF assms(2) mem Some a])
    moreover have "claim_steps spec now proc host (put_entry key entry' body, result')
        (advance_instances spec task now proc host ?v rest (put_entry key entry' body, result'))"
    proof (rule Cons.IH)
      show "set rest \<subseteq> set (instances_of (put_entry key entry' body) task)"
        using Cons.prems(1) by (simp add: instances_of_put)
      show "?v = None \<or> ?v = Some (deps_verdict spec (put_entry key entry' body) task)"
        using Cons.prems(2) own_instance_verdict [OF assms(1,2) mem] by auto
    qed
    ultimately show ?thesis
      using same by (simp add: inst Some Let_def converse_rtranclp_into_rtranclp)
  qed
qed simp

lemma advance_spec_task_steps:
  assumes "wf_spec spec" and "task \<in> set (d_tasks spec)"
  shows "claim_steps spec now proc host st (advance_spec_task spec now proc host task st)"
proof -
  obtain body result where st: "st = (body, result)" by (cases st)
  have "claim_steps spec now proc host (body, result)
      (advance_instances spec task now proc host None (instances_of body task) (body, result))"
    by (rule advance_instances_steps [OF assms]) simp_all
  then show ?thesis
    using step_placeholder [OF assms(2)] by (auto simp: advance_spec_task_def st split: option.splits)
qed

lemma fold_steps:
  assumes "\<And>x st. x \<in> set xs \<Longrightarrow> R\<^sup>*\<^sup>* st (f x st)"
  shows "R\<^sup>*\<^sup>* st (fold f xs st)"
  using assms by (induction xs arbitrary: st) (auto intro: rtranclp_trans)

lemma propagate_steps:
  "wf_spec spec \<Longrightarrow> claim_steps spec now proc host st (propagate_and_claim spec now proc host st)"
  unfolding propagate_and_claim_def by (intro fold_steps advance_spec_task_steps)

end
