(* ===== verification/DagQuiesce.thy ===== *)
theory DagQuiesce
  imports DagFacts
begin

text \<open>
  The pre-scan \<open>_is_quiescent\<close>: when it answers yes, the full pass and the recovery loop leave the
  document as it is, provided no parked approval gate belongs to a task that is now a sensor.
  Without that proviso the answer is wrong, which a concrete document shows.
\<close>

subsection \<open>Entries the scan calls blocked\<close>

text \<open>No gate that waits for a decision belongs to a task the current spec types as a sensor.\<close>

definition no_retyped_gate :: "DagSpec \<Rightarrow> run_body \<Rightarrow> bool" where
  "no_retyped_gate spec body \<longleftrightarrow>
     list_all (\<lambda>(key, e). awaitingApproval e \<and> e_state e = RUNNING \<longrightarrow>
       (case dict_get (by_id spec) (e_id e) of None \<Rightarrow> True | Some t \<Rightarrow> t_type t \<noteq> SENSOR)) (b_tasks body)"

lemma q_blocked_cases: "q_blocked body task key e = Q_BLOCKED \<or> q_blocked body task key e = Q_ACT"
  by (simp add: q_blocked_def split: option.splits)

lemma q_blocked_key:
  assumes "q_blocked body task key e = Q_BLOCKED"
  obtains mi where "key = task_display_key (t_id task) mi" and "mi = None \<longleftrightarrow> expand task = None"
    and "mi \<noteq> None \<longrightarrow> (\<exists>m i. dict_get (b_mapped body) (t_id task) = Some m \<and> mi = Some i \<and> i < length (m_items m))"
  using assms that [of None] that [of "mapIndex e"]
  by (auto simp: q_blocked_def split: option.splits if_splits)

lemma quiet_entry_cases:
  assumes "entry_quiescence spec body key e now proc \<noteq> Q_ACT"
  obtains (inert) "terminal (e_state e) \<or> e_state e = EXPANDED"
  | (blocked) task where "dict_get (by_id spec) (e_id e) = Some task" and "q_blocked body task key e = Q_BLOCKED"
      and "entry_quiescence spec body key e now proc = Q_BLOCKED" and "\<not> terminal (e_state e)"
      and "e_state e = UP_FOR_RETRY \<and> \<not> retry_due e now \<or>
        e_state e = RUNNING \<and> (awaitingApproval e \<or> e_proc e = Some proc \<or>
          e_proc e = None \<and> t_type task = SENSOR \<and> e_pid e = None \<and> (\<exists>np. nextPokeAt e = Some np \<and> now < np))"
proof (cases "terminal (e_state e) \<or> e_state e = EXPANDED")
  case False
  then obtain task where task: "dict_get (by_id spec) (e_id e) = Some task"
    using assms by (auto simp: entry_quiescence_def split: option.splits)
  have "e_state e = UP_FOR_RETRY \<and> \<not> retry_due e now \<or>
      e_state e = RUNNING \<and> (awaitingApproval e \<or> e_proc e = Some proc \<or>
        e_proc e = None \<and> t_type task = SENSOR \<and> e_pid e = None \<and> (\<exists>np. nextPokeAt e = Some np \<and> now < np))"
    and "entry_quiescence spec body key e now proc = q_blocked body task key e"
    using assms False by (auto simp: entry_quiescence_def task split: if_splits option.splits)
  with False task assms blocked show thesis using q_blocked_cases [of body task key e] by auto
qed (use inert in auto)

lemma quiet_instance:
  assumes "wf_spec spec" and "task \<in> set (d_tasks spec)" and "key = task_display_key (t_id task) mi"
    and "entry_quiescence spec body key e now proc \<noteq> Q_ACT" and "no_retyped_gate spec body"
    and "(key, e) \<in> set (b_tasks body)"
  shows "advance_task task key mi item now proc host v (e, r) = (e, r)"
  using assms(4)
proof (cases rule: quiet_entry_cases)
  case inert
  then show ?thesis by (auto simp: advance_task_def)
next
  case (blocked task')
  obtain mi' where k: "key = task_display_key (t_id task') mi'"
    using q_blocked_key [OF blocked(2)] by metis
  note t' = wf_spec_by_id [OF assms(1) blocked(1)]
  have same: "task' = task"
    using task_key_inj(1) [OF assms(1) t'(1) assms(2), of mi' mi] k assms(3) by metis
  have gate: "t_type task \<noteq> SENSOR" if "awaitingApproval e" "e_state e = RUNNING"
    using assms(5,6) blocked(1) that unfolding same by (auto simp: no_retyped_gate_def list_all_iff)
  from blocked(5) consider (retry) "e_state e = UP_FOR_RETRY" "\<not> retry_due e now"
    | (gate) "e_state e = RUNNING" "awaitingApproval e" | (own) "e_state e = RUNNING" "e_proc e = Some proc"
    | (idle) np where "e_state e = RUNNING" "e_proc e = None" "t_type task = SENSOR" "e_pid e = None"
        "nextPokeAt e = Some np" "now < np"
    unfolding same by blast
  then show ?thesis
    using gate by cases (simp_all add: advance_task_def advance_running_def terminal_def)
qed

lemma quiet_placeholder:
  assumes "wf_spec spec" and "task \<in> set (d_tasks spec)" and "expand task = Some ex"
    and "dict_get (b_mapped body) (t_id task) = None"
    and "\<forall>(key, e) \<in> set (b_tasks body). entry_quiescence spec body key e now proc \<noteq> Q_ACT"
  shows "propagate_placeholder spec task ex now (body, r) = (body, r)"
proof (cases "dict_get (b_tasks body) (t_id task)")
  case None
  then show ?thesis by (simp add: propagate_placeholder_def)
next
  case (Some e)
  have "entry_quiescence spec body (t_id task) e now proc \<noteq> Q_ACT"
    using assms(5) map_of_SomeD [OF Some] by auto
  then have "terminal (e_state e) \<or> e_state e = EXPANDED"
  proof (cases rule: quiet_entry_cases)
    case (blocked task')
    obtain mi where k: "t_id task = task_display_key (t_id task') mi" "mi = None \<longleftrightarrow> expand task' = None"
      "mi \<noteq> None \<longrightarrow> dict_get (b_mapped body) (t_id task') \<noteq> None"
      using q_blocked_key [OF blocked(2)] by (metis option.distinct(1))
    note t' = wf_spec_by_id [OF assms(1) blocked(1)]
    have "task = task'"
      using task_key_inj(1) [OF assms(1,2) t'(1), of None mi] k(1) by simp
    with k(2,3) assms(3,4) show ?thesis by auto
  qed
  then show ?thesis
    using dict_set_get_same [OF Some]
    by (auto simp: propagate_placeholder_def Some resolve_stale_placeholder_def terminal_def Let_def)
qed

subsection \<open>The pass over a quiescent document\<close>

lemma quiescent_propagate:
  assumes "wf_spec spec" and "is_quiescent spec body now proc expansions" and "no_retyped_gate spec body"
  shows "propagate_and_claim spec now proc host (body, r) = (body, r)"
proof -
  have q: "\<forall>(key, e) \<in> set (b_tasks body). entry_quiescence spec body key e now proc \<noteq> Q_ACT"
    using assms(2) by (auto simp: is_quiescent_def list_all_iff)
  have step: "claim_step spec now proc host (body, r) st \<Longrightarrow> st = (body, r)" for st
  proof (erule claim_step.cases, goal_cases)
    case (1 task key mi item body' entry r0 entry' r')
    have mem: "(key, entry) \<in> set (b_tasks body)" using 1 map_of_SomeD by auto
    have "advance_task task key mi item now proc host (deps_verdict spec body task) (entry, r) = (entry, r)"
    proof (rule quiet_instance [OF assms(1) _ _ _ assms(3) mem])
      show "task \<in> set (d_tasks spec)" "key = task_display_key (t_id task) mi"
        using 1 instance_key(1) by auto
      show "entry_quiescence spec body key entry now proc \<noteq> Q_ACT" using q mem by auto
    qed
    then show ?case using 1 dict_set_get_same [of "b_tasks body" key entry] by auto
  next
    case (2 task ex body' r0)
    then show ?case using quiet_placeholder [OF assms(1) _ _ _ q] by auto
  qed
  have "st = (body, r)" if "claim_steps spec now proc host (body, r) st" for st
    using that by (induction rule: rtranclp_induct) (auto dest: step)
  then show ?thesis using propagate_steps [OF assms(1)] by blast
qed

lemma consulted_states_mem:
  assumes "consulted_states body ts = Some states" and "t \<in> set ts"
  shows "\<exists>ss. consulted body t = Some ss \<and> set ss \<subseteq> set states"
  using assms by (induction ts arbitrary: states) (fastforce split: option.splits)+

lemma blocked_consulted:
  assumes "wf_spec spec" and "dict_get (b_tasks body) key = Some e"
    and "dict_get (by_id spec) (e_id e) = Some task" and "q_blocked body task key e = Q_BLOCKED"
  shows "task \<in> set (d_tasks spec)" and "\<exists>ss. consulted body task = Some ss \<and> e_state e \<in> set ss"
proof -
  show "task \<in> set (d_tasks spec)" using wf_spec_by_id [OF assms(1,3)] by simp
  show "\<exists>ss. consulted body task = Some ss \<and> e_state e \<in> set ss"
  proof (cases "expand task")
    case None
    then have "key = t_id task" using assms(4) by (simp add: q_blocked_def split: if_splits)
    with None assms(2) show ?thesis by (simp add: consulted_def instances_of_def map_filter_def)
  next
    case (Some ex)
    then obtain m i where m: "dict_get (b_mapped body) (t_id task) = Some m" "i < length (m_items m)"
      "key = task_display_key (t_id task) (Some i)"
      using assms(4) by (auto simp: q_blocked_def split: option.splits if_splits)
    then have "(key, Some i, Some (m_items m ! i)) \<in> set (instances_of body task)"
      using Some by (auto simp: instances_of_def)
    then have "e_state e \<in> set (map e_state (List.map_filter (\<lambda>(key, _, _). dict_get (b_tasks body) key)
        (instances_of body task)))"
      using assms(2) by (force simp: map_filter_def)
    with Some m(1) show ?thesis by (simp add: consulted_def)
  qed
qed

lemma quiescent_not_terminal:
  assumes "wf_spec spec" and "is_quiescent spec body now proc expansions" and "wf_dict (b_tasks body)"
  shows "maybe_terminalise spec (body, r) = (body, r)"
proof -
  obtain key e where mem: "(key, e) \<in> set (b_tasks body)"
    and b: "entry_quiescence spec body key e now proc = Q_BLOCKED"
    using assms(2) by (auto simp: is_quiescent_def list_ex_iff)
  have get: "dict_get (b_tasks body) key = Some e" using mem assms(3) by simp
  from b have "entry_quiescence spec body key e now proc \<noteq> Q_ACT" by simp
  then obtain task where task: "dict_get (by_id spec) (e_id e) = Some task"
    "q_blocked body task key e = Q_BLOCKED" and nt: "\<not> terminal (e_state e)"
    using b by (cases rule: quiet_entry_cases)
      (auto simp: entry_quiescence_def terminal_def split: option.splits if_splits)
  note c = blocked_consulted [OF assms(1) get task]
  have "\<not> list_all terminal states" if s: "consulted_states body (d_tasks spec) = Some states" for states
    using consulted_states_mem [OF s c(1)] c(2) nt by (auto simp: list_all_iff)
  then show ?thesis by (auto simp: maybe_terminalise_def split: option.splits)
qed

lemma quiescent_expansions:
  assumes "is_quiescent spec body now proc expansions"
  shows "apply_expansions spec expansions now st = st"
proof -
  have "\<forall>(tid, items) \<in> set expansions. items = None"
    using assms by (auto simp: is_quiescent_def list_ex_iff)
  then show ?thesis
    unfolding apply_expansions_def
    by (induction expansions) (auto simp: apply_expansion_def split: prod.splits)
qed

lemma quiescent_full_pass:
  assumes "wf_spec spec" and "is_quiescent spec body now proc expansions" and "wf_dict (b_tasks body)"
    and "no_retyped_gate spec body"
  shows "full_pass spec now proc host expansions body = (body, empty_result)"
  using quiescent_expansions [OF assms(2)] quiescent_propagate [OF assms(1,2,4)]
    quiescent_not_terminal [OF assms(1-3)]
  by (simp add: full_pass_def claim_pass_def)

lemma reconcile_entries_none:
  "\<forall>(key, e) \<in> set tasks. \<not> crash_victim proc host alive e \<Longrightarrow>
   reconcile_entries spec now proc host alive tasks = (tasks, 0)"
  by (induction tasks) auto

lemma quiescent_reconcile:
  assumes "is_quiescent spec body now proc expansions"
  shows "reconcile_body spec now proc host alive body = (body, 0)"
proof -
  have "\<not> crash_victim proc host alive e" if "(key, e) \<in> set (b_tasks body)" for key e
  proof -
    have "entry_quiescence spec body key e now proc \<noteq> Q_ACT"
      using assms that by (auto simp: is_quiescent_def list_all_iff)
    then show ?thesis
      by (cases rule: quiet_entry_cases) (auto simp: crash_victim_def has_live_process_def terminal_def)
  qed
  then have "reconcile_entries spec now proc host alive (b_tasks body) = (b_tasks body, 0)"
    by (intro reconcile_entries_none) auto
  then show ?thesis by (simp add: reconcile_body_def)
qed

end
