(* ===== verification/DagBatch.thy ===== *)
theory DagBatch
  imports DagQuiesce
begin

text \<open>
  Batched writes equal their single forms applied in sequence: an interface (locale
  \<open>fenced_write\<close>) for a write that is fenced on its own task's entry, interpreted on
  \<open>set_task_pid\<close>/\<open>set_task_pids\<close> and on \<open>mark_task_finished\<close>/\<open>mark_tasks_finished\<close>; and the combined
  transform \<open>reconcile_and_plan\<close> equals \<open>reconcile_crashed\<close> followed by \<open>plan_and_claim\<close>.
\<close>

subsection \<open>Fenced single-entry writes\<close>

locale fenced_write =
  fixes key :: "'m \<Rightarrow> string"
    and fence :: "'m \<Rightarrow> task_entry \<Rightarrow> bool"
    and update :: "'m \<Rightarrow> real \<Rightarrow> task_entry \<Rightarrow> task_entry"
    and single :: "'m \<Rightarrow> real \<Rightarrow> run_body option \<Rightarrow> run_body doc_write \<times> bool"
    and batch :: "'m list \<Rightarrow> real \<Rightarrow> run_body option \<Rightarrow> run_body doc_write \<times> 'n"
    and loop :: "real \<Rightarrow> 'm list \<Rightarrow> task_entry dict \<times> 'n \<Rightarrow> task_entry dict \<times> 'n"
    and add :: "'m \<Rightarrow> 'n \<Rightarrow> 'n"
    and zero :: 'n
  assumes single_none: "single m now None = (DOC_KEEP, False)"
    and single_some: "single m now (Some body) =
      (case dict_get (b_tasks body) (key m) of
         None \<Rightarrow> (DOC_KEEP, False)
       | Some e \<Rightarrow> if fence m e
                  then (DOC_PUT ((put_entry (key m) (update m now e) body)\<lparr>b_updatedAt := now\<rparr>), True)
                  else (DOC_KEEP, False))"
    and loop_nil: "loop now [] st = st"
    and loop_cons: "loop now (m # ms) (tasks, n) =
      (case dict_get tasks (key m) of
         None \<Rightarrow> loop now ms (tasks, n)
       | Some e \<Rightarrow> if fence m e then loop now ms (dict_set (key m) (update m now e) tasks, add m n)
                  else loop now ms (tasks, n))"
    and batch_none: "batch ms now None = (DOC_KEEP, zero)"
    and batch_some: "batch ms now (Some body) =
      (case loop now ms (b_tasks body, zero) of (tasks, n) \<Rightarrow>
         if n = zero then (DOC_KEEP, zero) else (DOC_PUT (body\<lparr>b_tasks := tasks, b_updatedAt := now\<rparr>), n))"
    and add_nonzero: "add m n \<noteq> zero"
    and fence_running: "fence m e \<Longrightarrow> e_state e = RUNNING"
begin

definition seq_step :: "real \<Rightarrow> 'm \<Rightarrow> run_body option \<times> 'n \<Rightarrow> run_body option \<times> 'n" where
  "seq_step now m st =
     (written (fst st) (fst (single m now (fst st))),
      if snd (single m now (fst st)) then add m (snd st) else snd st)"

lemma seq_step_Some:
  "seq_step now m (Some body, n) =
     (case dict_get (b_tasks body) (key m) of
        None \<Rightarrow> (Some body, n)
      | Some e \<Rightarrow> if fence m e
                 then (Some ((put_entry (key m) (update m now e) body)\<lparr>b_updatedAt := now\<rparr>), add m n)
                 else (Some body, n))"
  by (simp add: seq_step_def single_some split: option.splits)

lemma loop_zero: "snd (loop now ms (tasks, n)) = zero \<Longrightarrow> n = zero \<and> loop now ms (tasks, n) = (tasks, n)"
proof (induction ms arbitrary: tasks n)
  case Nil
  then show ?case by (simp add: loop_nil)
next
  case (Cons m ms)
  show ?case
  proof (cases "\<exists>e. dict_get tasks (key m) = Some e \<and> fence m e")
    case True
    then obtain e where "dict_get tasks (key m) = Some e" "fence m e" by blast
    then have "snd (loop now ms (dict_set (key m) (update m now e) tasks, add m n)) = zero"
      using Cons.prems by (simp add: loop_cons)
    from Cons.IH [OF this] show ?thesis using add_nonzero by blast
  next
    case False
    then have "loop now (m # ms) (tasks, n) = loop now ms (tasks, n)"
      by (auto simp: loop_cons split: option.splits)
    with Cons show ?thesis by simp
  qed
qed

lemma loop_seq:
  assumes "n \<noteq> zero \<Longrightarrow> b_updatedAt body = now"
  shows "fold (seq_step now) ms (Some body, n) =
    (case loop now ms (b_tasks body, n) of (tasks, n') \<Rightarrow>
       (Some (if n' = zero then body else body\<lparr>b_tasks := tasks, b_updatedAt := now\<rparr>), n'))"
  using assms
proof (induction ms arbitrary: body n)
  case Nil
  then show ?case by (simp add: loop_nil)
next
  case (Cons m ms)
  show ?case
  proof (cases "\<exists>e. dict_get (b_tasks body) (key m) = Some e \<and> fence m e")
    case True
    then obtain e where e: "dict_get (b_tasks body) (key m) = Some e" "fence m e" by blast
    let ?body = "(put_entry (key m) (update m now e) body)\<lparr>b_updatedAt := now\<rparr>"
    have nz: "snd (loop now ms (b_tasks ?body, add m n)) \<noteq> zero"
      using loop_zero add_nonzero by blast
    have "fold (seq_step now) (m # ms) (Some body, n) = fold (seq_step now) ms (Some ?body, add m n)"
      by (simp add: seq_step_Some e)
    also have "\<dots> = (case loop now ms (b_tasks ?body, add m n) of (tasks, n') \<Rightarrow>
       (Some (if n' = zero then ?body else ?body\<lparr>b_tasks := tasks, b_updatedAt := now\<rparr>), n'))"
      by (rule Cons.IH) simp
    finally show ?thesis using nz by (simp add: loop_cons e split_beta)
  next
    case False
    then have "seq_step now m (Some body, n) = (Some body, n)"
      by (auto simp: seq_step_Some split: option.splits)
    moreover have "loop now (m # ms) (b_tasks body, n) = loop now ms (b_tasks body, n)"
      using False by (auto simp: loop_cons split: option.splits)
    ultimately show ?thesis using Cons by simp
  qed
qed

lemma batch_is_sequence:
  "(written (Some body) (fst (batch ms now (Some body))), snd (batch ms now (Some body))) =
   fold (seq_step now) ms (Some body, zero)"
  using loop_seq [of zero body now ms] by (simp add: batch_some split_beta)

lemma single_terminal:
  assumes "dict_get (b_tasks body) k = Some e" and "terminal (e_state e)"
    and "written (Some body) (fst (single m now (Some body))) = Some body'"
  shows "dict_get (b_tasks body') k = Some e"
  using assms fence_running
  by (force simp: single_some terminal_def split: option.splits if_splits)

lemma loop_terminal:
  assumes "dict_get tasks k = Some e" and "terminal (e_state e)"
  shows "dict_get (fst (loop now ms (tasks, n))) k = Some e"
  using assms(1)
proof (induction ms arbitrary: tasks n)
  case Nil
  then show ?case by (simp add: loop_nil)
next
  case (Cons m ms)
  have "key m \<noteq> k" if "dict_get tasks (key m) = Some e'" "fence m e'" for e'
    using that Cons.prems assms(2) fence_running [OF that(2)] by (auto simp: terminal_def)
  with Cons show ?case by (auto simp: loop_cons split: option.splits)
qed

lemma loop_induct:
  assumes "P tasks"
    and "\<And>tasks m e. m \<in> set ms \<Longrightarrow> P tasks \<Longrightarrow> dict_get tasks (key m) = Some e \<Longrightarrow> fence m e \<Longrightarrow>
      P (dict_set (key m) (update m now e) tasks)"
  shows "P (fst (loop now ms (tasks, n)))"
  using assms
proof (induction ms arbitrary: tasks n)
  case Nil
  then show ?case by (simp add: loop_nil)
next
  case (Cons m ms)
  then show ?case by (auto simp: loop_cons split: option.splits)
qed

lemma batch_terminal:
  assumes "dict_get (b_tasks body) k = Some e" and "terminal (e_state e)"
    and "written (Some body) (fst (batch ms now (Some body))) = Some body'"
  shows "dict_get (b_tasks body') k = Some e"
  using assms loop_terminal [OF assms(1,2), of now ms zero]
  by (auto simp: batch_some split: prod.splits if_splits)

end

interpretation pids: fenced_write pm_taskkey pid_fence "\<lambda>m now e. e\<lparr>e_pid := pm_pid m, e_updatedAt := now\<rparr>"
  set_task_pid set_task_pids apply_pids "\<lambda>_ n. Suc n" "0 :: nat"
  by unfold_locales
    (auto simp: set_task_pid_def set_task_pids_def pid_fence_def split: option.splits prod.splits)

interpretation marks: fenced_write fm_taskkey finish_fence finish_entry
  mark_task_finished mark_tasks_finished apply_marks "\<lambda>m ks. ks @ [fm_taskkey m]" "[]"
  by unfold_locales
    (auto simp: mark_task_finished_def mark_tasks_finished_def finish_fence_def split: option.splits prod.splits)

subsection \<open>Reconcile and plan in one write\<close>

text \<open>A pass neither reads nor writes the document's \<open>updatedAt\<close>.\<close>

abbreviation stamp :: "real \<Rightarrow> run_body \<Rightarrow> run_body" where
  "stamp x body \<equiv> body\<lparr>b_updatedAt := x\<rparr>"

lemma stamp_state_at [simp]: "state_at (stamp x body) k = state_at body k"
  by (simp add: state_at_def)

lemma stamp_group [simp]: "mapped_group_state (stamp x body) k = mapped_group_state body k"
  by (simp add: mapped_group_state_def cong: option.case_cong if_cong)

lemma stamp_reads [simp]:
  "effective_state spec (stamp x body) k = effective_state spec body k"
  "instances_of (stamp x body) t = instances_of body t"
  "is_terminal_run (stamp x body) = is_terminal_run body"
  by (simp_all add: effective_state_def instances_of_def is_terminal_run_def)

lemma stamp_await [simp]:
  "consulted (stamp x body) t = consulted body t"
  "awaiting_task spec (stamp x body) t = awaiting_task spec body t"
  by (simp_all add: consulted_def awaiting_task_def cong: option.case_cong if_cong)

lemma stamp_effective: "effective_state spec (stamp x body) = effective_state spec body"
  by (rule ext) simp

lemma stamp_awaiting: "awaiting_task spec (stamp x body) = awaiting_task spec body"
  by (rule ext) simp

lemma stamp_verdict [simp]: "deps_verdict spec (stamp x body) t = deps_verdict spec body t"
  by (simp add: deps_verdict_def stamp_effective)

lemma stamp_entry_quiescence [simp]:
  "entry_quiescence spec (stamp x body) k e now proc = entry_quiescence spec body k e now proc"
proof -
  have "q_blocked (stamp x body) = q_blocked body" by (intro ext) (simp add: q_blocked_def)
  then show ?thesis by (simp add: entry_quiescence_def cong: option.case_cong if_cong)
qed

lemma stamp_quiescence [simp]:
  "tasks_awaiting_expansion spec (stamp x body) = tasks_awaiting_expansion spec body"
  "is_quiescent spec (stamp x body) now proc exps = is_quiescent spec body now proc exps"
  by (simp_all add: tasks_awaiting_expansion_def is_quiescent_def stamp_awaiting)

lemma stamp_consulted_states [simp]: "consulted_states (stamp x body) ts = consulted_states body ts"
  by (induction ts) (auto split: option.splits)

lemma stamp_placeholder:
  "propagate_placeholder spec t ex now (stamp x body, r) = apfst (stamp x) (propagate_placeholder spec t ex now (body, r))"
  by (auto simp: propagate_placeholder_def Let_def split: option.splits verdict.splits prod.splits)

lemma stamp_tasks: "body\<lparr>b_updatedAt := x, b_tasks := ts\<rparr> = stamp x (body\<lparr>b_tasks := ts\<rparr>)" for body :: run_body
  by simp

lemma stamp_instances:
  "advance_instances spec t now proc host v insts (stamp x body, r) =
   apfst (stamp x) (advance_instances spec t now proc host v insts (body, r))"
proof (induction insts arbitrary: v body r)
  case (Cons inst insts)
  obtain key mi item where inst: "inst = (key, mi, item)" by (cases inst)
  show ?case
    using Cons by (auto simp: inst Let_def split_beta stamp_tasks split: option.splits)
qed simp

lemma stamp_task:
  "advance_spec_task spec now proc host t (stamp x body, r) = apfst (stamp x) (advance_spec_task spec now proc host t (body, r))"
  by (auto simp: advance_spec_task_def stamp_placeholder stamp_instances split: option.splits)

lemma stamp_fold:
  "fold (advance_spec_task spec now proc host) ts (stamp x body, r) =
   apfst (stamp x) (fold (advance_spec_task spec now proc host) ts (body, r))"
proof (induction ts arbitrary: body r)
  case (Cons t ts)
  obtain body' r' where "advance_spec_task spec now proc host t (body, r) = (body', r')"
    by (cases "advance_spec_task spec now proc host t (body, r)")
  then show ?case using Cons by (simp add: stamp_task)
qed simp

lemma stamp_terminalise:
  "maybe_terminalise spec (stamp x body, r) = apfst (stamp x) (maybe_terminalise spec (body, r))"
  by (auto simp: maybe_terminalise_def Let_def split: option.splits)

lemma stamp_claim_pass:
  "claim_pass spec now proc host (stamp x body, r) = apfst (stamp x) (claim_pass spec now proc host (body, r))"
proof -
  obtain body' r' where "propagate_and_claim spec now proc host (body, r) = (body', r')"
    by (cases "propagate_and_claim spec now proc host (body, r)")
  then show ?thesis
    by (simp add: claim_pass_def propagate_and_claim_def stamp_fold stamp_terminalise)
qed

definition recovered ::
  "DagSpec \<Rightarrow> real \<Rightarrow> string \<Rightarrow> string \<Rightarrow> (int \<Rightarrow> bool) \<Rightarrow> task_entry \<Rightarrow> task_entry" where
  "recovered spec now proc host alive e =
     (if crash_victim proc host alive e then reconcile_one e (dict_get (by_id spec) (e_id e)) now else e)"

lemma reconcile_entries_map:
  "reconcile_entries spec now proc host alive tasks =
   (map (\<lambda>(k, e). (k, recovered spec now proc host alive e)) tasks,
    length (filter (\<lambda>(k, e). crash_victim proc host alive e) tasks))"
  by (induction tasks) (auto simp: recovered_def)

lemma reconcile_entries_get:
  "dict_get (fst (reconcile_entries spec now proc host alive tasks)) k =
   map_option (recovered spec now proc host alive) (dict_get tasks k)"
  by (simp add: reconcile_entries_map dict_get_map_val)

lemma reconcile_entries_keys:
  "dict_keys (fst (reconcile_entries spec now proc host alive tasks)) = dict_keys tasks"
  by (simp add: reconcile_entries_map case_prod_unfold comp_def)

lemma reconcile_one_keeps [simp]:
  "e_id (reconcile_one e t now) = e_id e" "mapIndex (reconcile_one e t now) = mapIndex e"
  "awaitingApproval (reconcile_one e t now) = awaitingApproval e"
  by (simp_all add: reconcile_one_def Let_def)

lemma reconcile_no_retyped_gate:
  assumes "no_retyped_gate spec body"
  shows "no_retyped_gate spec (fst (reconcile_body spec now proc host alive body))"
proof -
  have "b_tasks (fst (reconcile_body spec now proc host alive body)) =
      fst (reconcile_entries spec now proc host alive (b_tasks body))"
    by (simp add: reconcile_body_def split_beta)
  then show ?thesis
    using assms
    by (fastforce simp: no_retyped_gate_def list_all_iff crash_victim_def reconcile_entries_map recovered_def
        split: if_splits)
qed

lemma reconcile_body_keeps:
  assumes "reconcile_body spec now proc host alive body = (working, n)"
  shows "is_terminal_run working = is_terminal_run body" and "wf_dict (b_tasks working) = wf_dict (b_tasks body)"
    and "n = 0 \<Longrightarrow> working = body"
proof -
  let ?r = "reconcile_entries spec now proc host alive (b_tasks body)"
  have w: "working = body\<lparr>b_tasks := fst ?r\<rparr>" "n = snd ?r"
    using assms by (simp_all add: reconcile_body_def split_beta)
  then show "is_terminal_run working = is_terminal_run body" "wf_dict (b_tasks working) = wf_dict (b_tasks body)"
    by (simp_all add: is_terminal_run_def reconcile_entries_keys)
  have "snd (reconcile_entries spec now proc host alive ts) = 0 \<Longrightarrow> fst (reconcile_entries spec now proc host alive ts) = ts" for ts
    by (induction ts) (auto simp: reconcile_entries_map recovered_def split: if_splits)
  then show "n = 0 \<Longrightarrow> working = body" by (simp add: w)
qed

text \<open>The two-step flow: recover, persist, and claim on what was persisted.\<close>

definition two_step_advance ::
  "DagSpec \<Rightarrow> real \<Rightarrow> string \<Rightarrow> string \<Rightarrow> (int \<Rightarrow> bool) \<Rightarrow> run_body \<Rightarrow> run_body option \<times> nat \<times> AdvanceResult"
where
  "two_step_advance spec now proc host alive body =
     (case reconcile_crashed spec now proc host alive (Some body) of
        (w1, n) \<Rightarrow>
          (let body1 = written (Some body) w1
           in case plan_and_claim spec now proc host [] body1 of
                (w2, adv) \<Rightarrow> (written body1 w2, n, adv)))"

subsection \<open>Steps that report no change\<close>

text \<open>A result that differs at most in the \<open>deferred\<close> flag.\<close>

definition same_but_deferred :: "AdvanceResult \<Rightarrow> AdvanceResult \<Rightarrow> bool" where
  "same_but_deferred r r' \<longleftrightarrow>
     launches r' = launches r \<and> changed r' = changed r \<and> run_terminal r' = run_terminal r"

lemma advance_task_silent:
  assumes "advance_task t key mi item now proc host v (e, r) = (e', r')" and "\<not> changed r'"
  shows "e' = e \<and> same_but_deferred r r'"
  using assms
  by (auto simp: advance_task_def advance_running_def claim_task_def terminalise_task_def claims_full_def
      same_but_deferred_def Let_def split: if_splits verdict.splits)

lemma placeholder_silent:
  assumes "propagate_placeholder spec t ex now (body, r) = (body', r')" and "\<not> changed r'"
  shows "body' = body \<and> r' = r"
  using assms
  by (auto simp: propagate_placeholder_def resolve_stale_placeholder_def terminalise_task_def Let_def
      dict_set_get_same split: if_splits verdict.splits option.splits)

lemma claim_step_silent:
  assumes "claim_step spec now proc host (body, r) (body', r')" and "\<not> changed r'"
  shows "body' = body \<and> same_but_deferred r r'"
  using assms
proof (cases rule: claim_step.cases)
  case (step_instance task key mi item entry entry')
  then show ?thesis
    using advance_task_silent [OF step_instance(5) assms(2)] dict_set_get_same [OF step_instance(4)] by auto
next
  case (step_placeholder task ex)
  then show ?thesis
    using placeholder_silent [of spec task ex now body r body' r'] assms(2)
    by (auto simp: same_but_deferred_def)
qed

lemma claim_steps_silent:
  assumes "claim_steps spec now proc host (body, r) (body', r')" and "\<not> changed r'"
  shows "body' = body \<and> same_but_deferred r r'"
  using assms
proof (induction "(body', r')" arbitrary: body' r' rule: rtranclp_induct)
  case base
  then show ?case by (simp add: same_but_deferred_def)
next
  case (step st)
  obtain body1 r1 where st: "st = (body1, r1)" by (cases st)
  have s: "body' = body1 \<and> same_but_deferred r1 r'"
    using claim_step_silent step.hyps(2) step.prems st by blast
  with step.prems have "\<not> changed r1" by (simp add: same_but_deferred_def)
  with step.hyps(3) st s show ?case by (auto simp: same_but_deferred_def)
qed

lemma claim_pass_silent:
  assumes "wf_spec spec" and "claim_pass spec now proc host (body, r) = (body', r')" and "\<not> changed r'"
  shows "body' = body"
proof -
  obtain body1 r1 where p: "propagate_and_claim spec now proc host (body, r) = (body1, r1)"
    by (cases "propagate_and_claim spec now proc host (body, r)")
  have m: "body' = body1 \<and> changed r1 = changed r'"
    using assms(2,3) by (auto simp: claim_pass_def p maybe_terminalise_def Let_def split: option.splits if_splits)
  then show ?thesis
    using claim_steps_silent propagate_steps [OF assms(1), of now proc host "(body, r)"] p assms(3) by auto
qed

text \<open>One write does what the two did.\<close>

lemma combined_is_two_step:
  assumes "wf_spec spec" and "wf_dict (b_tasks body)" and "no_retyped_gate spec body"
    and "tasks_awaiting_expansion spec (fst (reconcile_body spec now proc host alive body)) = []"
    and "reconcile_and_plan spec now proc host alive (Some body) = (w, res)"
  shows "\<exists>adv. two_step_advance spec now proc host alive body = (written (Some body) w, reconciled res, adv) \<and>
    advance res = Some adv \<and> \<not> expansions_needed res"
proof -
  obtain working n where rb: "reconcile_body spec now proc host alive body = (working, n)"
    by (cases "reconcile_body spec now proc host alive body")
  obtain working' adv where cp: "claim_pass spec now proc host (working, empty_result) = (working', adv)"
    by (cases "claim_pass spec now proc host (working, empty_result)")
  note keeps = reconcile_body_keeps [OF rb]
  have quiet: "claim_pass spec now proc host (working, empty_result) = (working, empty_result)"
    if "is_quiescent spec working now proc []"
    using quiescent_full_pass [OF assms(1) that, of host] keeps(2) assms(2)
      reconcile_no_retyped_gate [OF assms(3), of now proc host alive] rb
    by (simp add: full_pass_def apply_expansions_def)
  have quiet0: "n = 0" if "is_quiescent spec body now proc []"
    using quiescent_reconcile [OF that, of host alive] rb by simp
  consider (idle) "is_terminal_run body \<or> is_quiescent spec body now proc []"
    | (same) "\<not> is_terminal_run body" "\<not> is_quiescent spec body now proc []" "n = 0"
    | (recovered) "\<not> is_terminal_run body" "\<not> is_quiescent spec body now proc []" "n \<noteq> 0" by blast
  then show ?thesis
  proof cases
    case idle
    then have "w = DOC_KEEP" "res = \<lparr>reconciled = 0, expansions_needed = False, advance = Some empty_result\<rparr>"
      using assms(5) by (auto simp: reconcile_and_plan_def Let_def split: if_splits)
    moreover have "reconcile_crashed spec now proc host alive (Some body) = (DOC_KEEP, 0)"
      using idle quiet0 rb by (auto simp: reconcile_crashed_def)
    ultimately show ?thesis using idle by (auto simp: two_step_advance_def plan_and_claim_def)
  next
    case same
    then have "working = body" using keeps(3) by simp
    with same show ?thesis
      using assms(4,5) rb cp
      by (auto simp: reconcile_and_plan_def two_step_advance_def reconcile_crashed_def plan_and_claim_def
          full_pass_def apply_expansions_def Let_def)
  next
    case recovered
    have w: "w = DOC_PUT (stamp now working')" "res = \<lparr>reconciled = n, expansions_needed = False, advance = Some adv\<rparr>"
      using recovered assms(4,5) rb cp by (auto simp: reconcile_and_plan_def Let_def)
    have fp: "full_pass spec now proc host [] (stamp now working) = (stamp now working', adv)"
      using cp by (simp add: full_pass_def apply_expansions_def stamp_claim_pass)
    have "plan_and_claim spec now proc host [] (Some (stamp now working)) =
        (if changed adv then DOC_PUT (stamp now working') else DOC_KEEP, adv)"
      using recovered(1) keeps(1) quiet cp fp
      by (auto simp: plan_and_claim_def empty_result_def)
    then show ?thesis
      using recovered rb w claim_pass_silent [OF assms(1) cp]
      by (auto simp: two_step_advance_def reconcile_crashed_def)
  qed
qed

end
