(* ===== verification/DagSteps.thy ===== *)
theory DagSteps
  imports DagBatch
begin

text \<open>
  The life of one run under a fixed specification as a transition system: its states are the
  stored document and the log of every launch the passes handed to the driver, its steps are the
  document transforms with arbitrary clock readings, owners, expansions and completions.  The
  invariant \<open>run_inv\<close> holds in every reachable state; from it, no attempt of a plain task
  instance is launched twice and no instance is launched more often than its attempts allow.
\<close>

subsection \<open>Well-formed entries\<close>

definition attempts_of :: "TaskSpec \<Rightarrow> int" where
  "attempts_of t = max 1 (max_attempts t)"

definition placeholder :: "TaskSpec \<Rightarrow> task_entry \<Rightarrow> bool" where
  "placeholder t e \<longleftrightarrow> expand t \<noteq> None \<and> mapIndex e = None"

definition claimable :: "task_entry \<Rightarrow> bool" where
  "claimable e \<longleftrightarrow> e_state e = PENDING \<or> e_state e = UP_FOR_RETRY"

definition state_ok :: "mapped_info dict \<Rightarrow> TaskSpec \<Rightarrow> task_entry \<Rightarrow> bool" where
  "state_ok mp t e \<longleftrightarrow>
     0 \<le> e_attempt e \<and> e_attempt e \<le> attempts_of t \<and>
     (case e_state e of
        PENDING \<Rightarrow> e_attempt e = 0 \<and> \<not> awaitingApproval e
      | UP_FOR_RETRY \<Rightarrow> e_attempt e < attempts_of t \<and> \<not> awaitingApproval e \<and> t_type t = TASK \<and> \<not> placeholder t e
      | RUNNING \<Rightarrow> e_attempt e < attempts_of t \<and> \<not> placeholder t e \<and>
          (t_type t = APPROVAL \<longleftrightarrow> awaitingApproval e) \<and> (t_type t = TASK \<longrightarrow> e_proc e \<noteq> None)
      | EXPANDED \<Rightarrow> placeholder t e \<and> dict_get mp (t_id t) \<noteq> None
      | OTHER_STATE _ \<Rightarrow> False
      | _ \<Rightarrow> True)"

definition entry_ok :: "DagSpec \<Rightarrow> mapped_info dict \<Rightarrow> string \<Rightarrow> task_entry \<Rightarrow> bool" where
  "entry_ok spec mp key e \<longleftrightarrow>
     (case dict_get (by_id spec) (e_id e) of
        None \<Rightarrow> False
      | Some t \<Rightarrow>
          key = task_display_key (t_id t) (mapIndex e) \<and>
          (case mapIndex e of
             None \<Rightarrow> True
           | Some i \<Rightarrow> expand t \<noteq> None \<and>
               (case dict_get mp (t_id t) of None \<Rightarrow> False | Some m \<Rightarrow> i < length (m_items m))) \<and>
          state_ok mp t e)"

text \<open>An entry may replace another when its identity stays and it is again well formed.\<close>

lemma entry_ok_update:
  assumes "entry_ok spec mp key e" and "dict_get (by_id spec) (e_id e) = Some t"
    and "e_id e' = e_id e" and "mapIndex e' = mapIndex e" and "state_ok mp t e \<Longrightarrow> state_ok mp t e'"
  shows "entry_ok spec mp key e'"
  using assms by (auto simp: entry_ok_def split: option.splits)

lemma entry_ok_task:
  assumes "wf_spec spec" and "entry_ok spec mp key e" and "t \<in> set (d_tasks spec)"
    and "key = task_display_key (t_id t) mi"
  shows "dict_get (by_id spec) (e_id e) = Some t" and "mapIndex e = mi" and "state_ok mp t e"
proof -
  obtain u where u: "dict_get (by_id spec) (e_id e) = Some u" "key = task_display_key (t_id u) (mapIndex e)"
    "state_ok mp u e"
    using assms(2) by (auto simp: entry_ok_def split: option.splits)
  note k = task_key_inj [OF assms(1) wf_spec_by_id(1) [OF assms(1) u(1)] assms(3)]
  show "dict_get (by_id spec) (e_id e) = Some t" "mapIndex e = mi" "state_ok mp t e"
    using k u assms(4) by metis+
qed

subsection \<open>The invariant\<close>

definition plain_launches :: "LaunchIntent list \<Rightarrow> LaunchIntent list" where
  "plain_launches hist = filter (\<lambda>l. \<not> li_is_sensor l) hist"

definition log_ok :: "DagSpec \<Rightarrow> task_entry dict \<Rightarrow> LaunchIntent list \<Rightarrow> bool" where
  "log_ok spec tasks hist \<longleftrightarrow>
     (\<forall>l \<in> set (plain_launches hist). \<exists>e. dict_get tasks (li_taskkey l) = Some e \<and>
        0 \<le> li_attempt l \<and> li_attempt l \<le> e_attempt e \<and> (li_attempt l = e_attempt e \<longrightarrow> \<not> claimable e) \<and>
        (\<exists>t. dict_get (by_id spec) (e_id e) = Some t \<and> li_attempt l < attempts_of t)) \<and>
     distinct (map (\<lambda>l. (li_taskkey l, li_attempt l)) (plain_launches hist))"

definition run_inv :: "DagSpec \<Rightarrow> run_body \<Rightarrow> LaunchIntent list \<Rightarrow> bool" where
  "run_inv spec body hist \<longleftrightarrow>
     wf_dict (b_tasks body) \<and>
     (\<forall>key e. dict_get (b_tasks body) key = Some e \<longrightarrow> entry_ok spec (b_mapped body) key e) \<and>
     log_ok spec (b_tasks body) hist"

lemma run_inv_entry: "run_inv spec body hist \<Longrightarrow> dict_get (b_tasks body) key = Some e \<Longrightarrow> entry_ok spec (b_mapped body) key e"
  by (simp add: run_inv_def)

text \<open>Replacing one entry: its attempt never falls, and rises when it becomes claimable again.\<close>

definition no_rewind :: "task_entry \<Rightarrow> task_entry \<Rightarrow> bool" where
  "no_rewind e e' \<longleftrightarrow> e_id e' = e_id e \<and> e_attempt e \<le> e_attempt e' \<and> (claimable e' \<longrightarrow> claimable e \<or> e_attempt e < e_attempt e')"

lemma log_ok_put:
  assumes "log_ok spec tasks hist" and "dict_get tasks key = Some e" and "no_rewind e e'"
  shows "log_ok spec (dict_set key e' tasks) hist"
  using assms by (fastforce simp: log_ok_def no_rewind_def)

lemma run_inv_put:
  assumes "run_inv spec body hist" and "dict_get (b_tasks body) key = Some e"
    and "entry_ok spec (b_mapped body) key e'" and "no_rewind e e'"
  shows "run_inv spec (put_entry key e' body) hist"
  using assms log_ok_put [OF _ assms(2,4)] by (auto simp: run_inv_def)

lemma run_inv_launch:
  assumes "run_inv spec body hist" and "dict_get (b_tasks body) key = Some e"
    and "entry_ok spec (b_mapped body) key e'" and "e_attempt e' = e_attempt e" and "e_state e' = RUNNING"
    and "0 \<le> e_attempt e \<and> e_id e' = e_id e" and "li_taskkey l = key" and "li_attempt l = e_attempt e" and "li_is_sensor l \<or> claimable e"
  shows "run_inv spec (put_entry key e' body) (hist @ [l])"
proof -
  have "no_rewind e e'" using assms(4-6) by (simp add: no_rewind_def claimable_def)
  have bound: "\<exists>t. dict_get (by_id spec) (e_id e') = Some t \<and> e_attempt e' < attempts_of t"
    using assms(3,5) by (auto simp: entry_ok_def state_ok_def split: option.splits)
  from run_inv_put [OF assms(1-3) \<open>no_rewind e e'\<close>] have inv: "run_inv spec (put_entry key e' body) hist" .
  have "log_ok spec (dict_set key e' (b_tasks body)) (hist @ [l])"
  proof (cases "li_is_sensor l")
    case True
    then show ?thesis using inv by (simp add: run_inv_def log_ok_def plain_launches_def)
  next
    case False
    have "(key, e_attempt e) \<noteq> (li_taskkey l', li_attempt l')" if "l' \<in> set (plain_launches hist)" for l'
      using assms(1,2,9) False that by (fastforce simp: run_inv_def log_ok_def)
    then have "(li_taskkey l, li_attempt l) \<notin> (\<lambda>l. (li_taskkey l, li_attempt l)) ` set (plain_launches hist)"
      using assms(7,8) by auto
    with inv False show ?thesis
      using assms(4-8) bound by (auto simp: run_inv_def log_ok_def plain_launches_def claimable_def)
  qed
  with inv show ?thesis by (simp add: run_inv_def)
qed

subsection \<open>Passes\<close>

lemma claim_task_inv:
  assumes "run_inv spec body hist" and "dict_get (b_tasks body) key = Some e" and "claimable e"
    and "dict_get (by_id spec) (e_id e) = Some t" and "\<not> placeholder t e"
    and "claim_task t key mi item now proc host (e, r) = (e', r')"
  shows "\<exists>new. launches r' = launches r @ new \<and> run_inv spec (put_entry key e' body) (hist @ new)"
proof -
  have ok: "entry_ok spec (b_mapped body) key e" using run_inv_entry [OF assms(1,2)] .
  then have st: "state_ok (b_mapped body) t e" using assms(4) by (simp add: entry_ok_def)
  have att: "e_attempt e < attempts_of t" "0 \<le> e_attempt e" "\<not> awaitingApproval e"
    using st assms(3) by (auto simp: state_ok_def claimable_def attempts_of_def)
  have same: "put_entry key e body = body" using dict_set_get_same [OF assms(2)] by simp
  consider (gate) "t_type t = APPROVAL" | (full) "t_type t \<noteq> APPROVAL" "fst (claims_full r)"
    | (claim) "t_type t \<noteq> APPROVAL" "\<not> fst (claims_full r)" by blast
  then show ?thesis
  proof cases
    case gate
    then have e': "e' = e\<lparr>e_state := RUNNING, startedAt := Some now, awaitingApproval := True, e_updatedAt := now\<rparr>"
      and r': "launches r' = launches r" using assms(6) by (auto simp: claim_task_def)
    have "entry_ok spec (b_mapped body) key e'"
      using ok assms(4) by (rule entry_ok_update) (use att gate assms(5) in \<open>auto simp: e' state_ok_def placeholder_def\<close>)
    moreover have "no_rewind e e'" by (simp add: e' no_rewind_def claimable_def)
    ultimately show ?thesis using run_inv_put [OF assms(1,2)] r' by auto
  next
    case full
    then show ?thesis using assms(1,6) same by (auto simp: claim_task_def claims_full_def split: if_splits)
  next
    case claim
    let ?l = "\<lparr>li_task_id = t_id t, li_taskkey = key, li_map_index = mi, li_map_item = item,
      li_attempt = e_attempt e, li_is_sensor = (t_type t = SENSOR), li_poke_number = 0\<rparr>"
    have e': "e_id e' = e_id e" "mapIndex e' = mapIndex e" "e_attempt e' = e_attempt e" "e_state e' = RUNNING"
      "e_proc e' = Some proc" "awaitingApproval e' = awaitingApproval e" and r': "launches r' = launches r @ [?l]"
      using claim assms(6) by (auto simp: claim_task_def claims_full_def Let_def split: if_splits)
    have "entry_ok spec (b_mapped body) key e'"
      using ok assms(4) e'(1,2)
      by (rule entry_ok_update) (use att claim assms(5) in \<open>auto simp: e' state_ok_def placeholder_def\<close>)
    then have "run_inv spec (put_entry key e' body) (hist @ [?l])"
      using assms(3) att(2) by (intro run_inv_launch [OF assms(1,2)]) (auto simp: e')
    with r' show ?thesis by blast
  qed
qed

text \<open>A pass that only adds launches to its result, and keeps the invariant while it does.\<close>

definition advances :: "DagSpec \<Rightarrow> run_body \<times> AdvanceResult \<Rightarrow> run_body \<times> AdvanceResult \<Rightarrow> bool" where
  "advances spec st st' \<longleftrightarrow>
     (\<exists>new. launches (snd st') = launches (snd st) @ new \<and>
        (\<forall>hist. run_inv spec (fst st) hist \<longrightarrow> run_inv spec (fst st') (hist @ new)))"

lemma advances_refl [intro]: "advances spec st st"
  by (auto simp: advances_def)

lemma advances_trans: "advances spec a b \<Longrightarrow> advances spec b c \<Longrightarrow> advances spec a c"
  unfolding advances_def by (metis append.assoc)

lemma terminalise_inv:
  assumes "run_inv spec body hist" and "dict_get (b_tasks body) key = Some e" and "terminal s"
    and "terminalise_task (e\<lparr>failReason := fr\<rparr>) s now r = (e', r')"
  shows "launches r' = launches r" and "run_inv spec (put_entry key e' body) hist"
proof -
  have e': "e_id e' = e_id e" "mapIndex e' = mapIndex e" "e_attempt e' = e_attempt e" "e_state e' = s"
    and "launches r' = launches r" using assms(4) by (auto simp: terminalise_task_def)
  then show "launches r' = launches r" by simp
  have ok: "entry_ok spec (b_mapped body) key e" using run_inv_entry [OF assms(1,2)] .
  then obtain t where t: "dict_get (by_id spec) (e_id e) = Some t" by (auto simp: entry_ok_def split: option.splits)
  have "entry_ok spec (b_mapped body) key e'"
    using ok t e'(1,2) by (rule entry_ok_update) (use assms(3) in \<open>auto simp: e' state_ok_def terminal_def\<close>)
  then show "run_inv spec (put_entry key e' body) hist"
    using assms(3) by (intro run_inv_put [OF assms(1,2)]) (auto simp: no_rewind_def claimable_def e' terminal_def)
qed

lemma terminalise_same: "terminalise_task e s now r = terminalise_task (e\<lparr>failReason := failReason e\<rparr>) s now r"
  by simp

lemma advance_running_cases:
  assumes "advance_running t key mi item now proc host (e, r) = (e', r')"
  obtains (keep) "e' = e" "launches r' = launches r"
  | (stop) fr where "terminalise_task (e\<lparr>failReason := fr\<rparr>) FAILED now r = (e', r')"
  | (poke) l where "t_type t = SENSOR" "launches r' = launches r @ [l]" "li_taskkey l = key"
      "li_attempt l = e_attempt e" "li_is_sensor l" "li_task_id l = t_id t" "e_proc e = None"
      "length (launches r) < MAX_CLAIMS_PER_PASS"
      "e' = e\<lparr>e_proc := Some proc, e_host := Some host, e_pid := None, nextPokeAt := None, e_updatedAt := now\<rparr>"
proof (cases "t_type t = SENSOR")
  case False
  then show thesis
    using assms keep stop [of "Some (retyped_reason (t_type t))"]
    by (simp add: advance_running_def split: if_splits)
next
  case sensor: True
  let ?busy = "e_pid e \<noteq> None \<or> e_proc e \<noteq> None"
  let ?later = "case nextPokeAt e of None \<Rightarrow> False | Some np \<Rightarrow> np > now"
  consider "?busy \<or> ?later" | "\<not> ?busy" "\<not> ?later" "sensor_timed_out t e now"
    | "\<not> ?busy" "\<not> ?later" "\<not> sensor_timed_out t e now" "fst (claims_full r)"
    | "\<not> ?busy" "\<not> ?later" "\<not> sensor_timed_out t e now" "\<not> fst (claims_full r)" by blast
  then show thesis
  proof cases
    case 1
    then show thesis using assms sensor keep by (simp add: advance_running_def split: if_splits)
  next
    case 2
    then show thesis using assms sensor stop [of "Some ''sensor timed out''"] by (simp add: advance_running_def)
  next
    case 3
    then have "claims_full r = (True, r\<lparr>deferred := True\<rparr>)" by (simp add: claims_full_def split: if_splits)
    with 3 have "e' = e \<and> r' = r\<lparr>deferred := True\<rparr>" using assms sensor by (simp add: advance_running_def)
    then show thesis using keep by simp
  next
    case 4
    then have "claims_full r = (False, r)" and "length (launches r) < MAX_CLAIMS_PER_PASS"
      by (auto simp: claims_full_def split: if_splits)
    with 4 have "e' = e\<lparr>e_proc := Some proc, e_host := Some host, e_pid := None, nextPokeAt := None, e_updatedAt := now\<rparr>"
      and "launches r' = launches r @ [\<lparr>li_task_id = t_id t, li_taskkey = key, li_map_index = mi,
        li_map_item = item, li_attempt = e_attempt e, li_is_sensor = True, li_poke_number = poke_count e\<rparr>]"
      using assms sensor by (auto simp: advance_running_def)
    then show thesis using poke sensor 4(1) \<open>length (launches r) < MAX_CLAIMS_PER_PASS\<close> by simp
  qed
qed

lemma advance_running_inv:
  assumes "run_inv spec body hist" and "dict_get (b_tasks body) key = Some e" and "e_state e = RUNNING"
    and "dict_get (by_id spec) (e_id e) = Some t"
    and "advance_running t key mi item now proc host (e, r) = (e', r')"
  shows "\<exists>new. launches r' = launches r @ new \<and> run_inv spec (put_entry key e' body) (hist @ new)"
proof -
  have ok: "entry_ok spec (b_mapped body) key e" using run_inv_entry [OF assms(1,2)] .
  then have st: "state_ok (b_mapped body) t e" using assms(4) by (simp add: entry_ok_def)
  have same: "put_entry key e body = body" using dict_set_get_same [OF assms(2)] by simp
  show ?thesis
    using assms(5)
  proof (cases rule: advance_running_cases)
    case keep
    then show ?thesis using assms(1) same by auto
  next
    case stop
    from terminalise_inv [OF assms(1,2) _ stop] show ?thesis by (auto simp: terminal_def)
  next
    case (poke l)
    have "entry_ok spec (b_mapped body) key e'"
      using ok assms(4) by (rule entry_ok_update) (use poke assms(3) in \<open>auto simp: state_ok_def placeholder_def\<close>)
    then show ?thesis
      using poke st assms(3) by (intro exI [of _ "[l]"] conjI run_inv_launch [OF assms(1,2)]) (auto simp: state_ok_def)
  qed
qed

lemma advance_task_cases:
  assumes "advance_task t key mi item now proc host v (e, r) = (e', r')"
  obtains (keep) "e' = e" "r' = r"
  | (running) "e_state e = RUNNING" "advance_running t key mi item now proc host (e, r) = (e', r')"
  | (claim) "claimable e" "e_state e = PENDING \<longrightarrow> v = V_ready" "e_state e = UP_FOR_RETRY \<longrightarrow> retry_due e now"
      "claim_task t key mi item now proc host (e, r) = (e', r')"
  | (stop) s where "s = UPSTREAM_FAILED \<or> s = SKIPPED" "e_state e = PENDING" "terminalise_task e s now r = (e', r')"
proof (cases "e_state e")
  case PENDING
  then show thesis
    using assms keep claim stop [of UPSTREAM_FAILED] stop [of SKIPPED]
    by (cases v) (simp_all add: advance_task_def claimable_def terminal_def)
next
  case RUNNING
  then show thesis using assms running by (simp add: advance_task_def terminal_def)
next
  case UP_FOR_RETRY
  then show thesis
    using assms keep claim by (cases "retry_due e now") (simp_all add: advance_task_def claimable_def terminal_def)
qed (use assms keep in \<open>simp_all add: advance_task_def terminal_def\<close>)

lemma advance_task_inv:
  assumes "wf_spec spec" and "run_inv spec body hist" and "t \<in> set (d_tasks spec)"
    and "(key, mi, item) \<in> set (instances_of body t)" and "dict_get (b_tasks body) key = Some e"
    and "advance_task t key mi item now proc host v (e, r) = (e', r')"
  shows "\<exists>new. launches r' = launches r @ new \<and> run_inv spec (put_entry key e' body) (hist @ new)"
proof -
  have same: "put_entry key e body = body" using dict_set_get_same [OF assms(5)] by simp
  note t = entry_ok_task [OF assms(1) run_inv_entry [OF assms(2,5)] assms(3) instance_key(1) [OF assms(4)]]
  have ph: "\<not> placeholder t e" using t(2) instance_key(2) [OF assms(4)] by (auto simp: placeholder_def)
  show ?thesis
    using assms(6)
  proof (cases rule: advance_task_cases)
    case keep
    then show ?thesis using assms(2) same by auto
  next
    case running
    then show ?thesis using advance_running_inv [OF assms(2,5) _ t(1)] by blast
  next
    case claim
    then show ?thesis using claim_task_inv [OF assms(2,5) _ t(1) ph] by blast
  next
    case (stop s)
    have "terminal s" using stop(1) by (auto simp: terminal_def)
    from terminalise_inv [OF assms(2,5) this stop(3) [unfolded terminalise_same [of e]]] show ?thesis by auto
  qed
qed

lemma placeholder_cases:
  assumes "propagate_placeholder spec t ex now (body, r) = (body', r')"
  obtains (keep) "body' = body" "r' = r"
  | (stop) e fr s e' where "dict_get (b_tasks body) (t_id t) = Some e" "terminal s" "\<not> terminal (e_state e)"
      "terminalise_task (e\<lparr>failReason := fr\<rparr>) s now r = (e', r')" "body' = put_entry (t_id t) e' body"
      "\<not> (e_state e = RUNNING \<and> e_proc e \<noteq> None)"
proof (cases "dict_get (b_tasks body) (t_id t)")
  case None
  then show thesis using assms keep by (simp add: propagate_placeholder_def)
next
  case (Some e)
  define src where "src = effective_state spec body (from_task ex)"
  define dv where "dv = deps_verdict spec body t"
  define st where "st = (\<lambda>s. case terminalise_task e s now r of (e', r') \<Rightarrow> (put_entry (t_id t) e' body, r'))"
  have same: "put_entry (t_id t) e body = body" using dict_set_get_same [OF Some] by simp
  have stop_e: thesis if "st s = (body', r')" "terminal s" "\<not> terminal (e_state e)" "e_state e = PENDING" for s
    using stop [OF Some that(2,3), of "failReason e"] that(1,4)
    by (cases "terminalise_task e s now r") (simp add: st_def)
  show thesis
  proof (cases "e_state e = PENDING")
    case True
    have "propagate_placeholder spec t ex now (body, r) =
        (if src \<in> {FAILED, UPSTREAM_FAILED} then st UPSTREAM_FAILED
         else if src = SKIPPED then st SKIPPED
         else case dv of V_fail \<Rightarrow> st UPSTREAM_FAILED | V_skip \<Rightarrow> st SKIPPED | _ \<Rightarrow> (body, r))"
      using True unfolding propagate_placeholder_def Let_def src_def dv_def st_def
      by (simp add: Some cong: if_cong)
    then have "(body', r') = (if src \<in> {FAILED, UPSTREAM_FAILED} then st UPSTREAM_FAILED
        else if src = SKIPPED then st SKIPPED
        else case dv of V_fail \<Rightarrow> st UPSTREAM_FAILED | V_skip \<Rightarrow> st SKIPPED | _ \<Rightarrow> (body, r))"
      unfolding assms .
    then show thesis
      using keep stop_e [of UPSTREAM_FAILED] stop_e [of SKIPPED] True
      by (cases dv) (auto simp: terminal_def split: if_splits)
  next
    case False
    show thesis
    proof (cases "terminal (e_state e) \<or> e_state e = EXPANDED \<or>
        e_state e = RUNNING \<and> (e_proc e \<noteq> None \<or> awaitingApproval e)")
      case True
      then have "resolve_stale_placeholder now (e, r) = (e, r)" by (auto simp: resolve_stale_placeholder_def)
      then show thesis using assms False same keep by (simp add: propagate_placeholder_def Some)
    next
      case nt: False
      then have res: "resolve_stale_placeholder now (e, r) =
          terminalise_task (e\<lparr>failReason := Some (stale_reason (e_state e))\<rparr>) FAILED now r"
        by (auto simp: resolve_stale_placeholder_def)
      obtain e1 r1 where t1: "terminalise_task (e\<lparr>failReason := Some (stale_reason (e_state e))\<rparr>) FAILED now r = (e1, r1)"
        by fastforce
      have "body' = put_entry (t_id t) e1 body" "r' = r1"
        using assms False res t1 by (auto simp: propagate_placeholder_def Some)
      moreover have "terminal FAILED" "\<not> terminal (e_state e)" "\<not> (e_state e = RUNNING \<and> e_proc e \<noteq> None)"
        using nt by (auto simp: terminal_def)
      ultimately show thesis using stop [OF Some, of FAILED] t1 by blast
    qed
  qed
qed

lemma placeholder_inv:
  assumes "run_inv spec body hist" and "propagate_placeholder spec t ex now (body, r) = (body', r')"
  shows "launches r' = launches r" and "run_inv spec body' hist"
proof -
  have "launches r' = launches r \<and> run_inv spec body' hist"
    using assms(2)
  proof (cases rule: placeholder_cases)
    case keep
    then show ?thesis using assms(1) by simp
  next
    case stop
    from terminalise_inv [OF assms(1) stop(1,2,4)] stop(5) show ?thesis by simp
  qed
  then show "launches r' = launches r" "run_inv spec body' hist" by auto
qed

lemma claim_step_inv:
  assumes "wf_spec spec" and "claim_step spec now proc host st st'"
  shows "advances spec st st'"
  using assms(2)
proof (cases rule: claim_step.cases)
  case (step_instance task key mi item body entry result entry' result')
  have "\<exists>new. launches result' = launches result @ new"
    using step_instance(6)
  proof (cases rule: advance_task_cases)
    case running
    from running(2) show ?thesis by (cases rule: advance_running_cases) (auto simp: terminalise_task_def)
  qed (auto simp: claim_task_def claims_full_def terminalise_task_def Let_def split: if_splits)
  then obtain new where new: "launches result' = launches result @ new" by blast
  have "run_inv spec (put_entry key entry' body) (hist @ new)" if "run_inv spec body hist" for hist
    using advance_task_inv [OF assms(1) that step_instance(3-6)] new by simp
  with new step_instance(1,2) show ?thesis by (auto simp: advances_def)
next
  case (step_placeholder task ex body result)
  obtain body' r' where p: "propagate_placeholder spec task ex now (body, result) = (body', r')" by fastforce
  from p have "launches r' = launches result"
    by (cases rule: placeholder_cases) (auto simp: terminalise_task_def)
  with placeholder_inv(2) [OF _ p] show ?thesis
    unfolding step_placeholder(1,2) p by (auto simp: advances_def)
qed

lemma propagate_inv:
  assumes "wf_spec spec"
  shows "advances spec st (propagate_and_claim spec now proc host st)"
  using propagate_steps [OF assms]
  by (induction rule: rtranclp_induct) (auto intro: advances_trans claim_step_inv [OF assms])

lemma maybe_terminalise_inv: "advances spec st (maybe_terminalise spec st)"
  by (cases st) (auto simp: maybe_terminalise_def advances_def run_inv_def Let_def split: option.splits)

lemma claim_pass_inv: "wf_spec spec \<Longrightarrow> advances spec st (claim_pass spec now proc host st)"
  unfolding claim_pass_def by (rule advances_trans [OF propagate_inv maybe_terminalise_inv])

subsection \<open>Expansion\<close>

lemma entry_ok_mapped_mono:
  assumes "entry_ok spec mp key e" and "\<And>k m. dict_get mp k = Some m \<Longrightarrow> dict_get mp' k = Some m"
  shows "entry_ok spec mp' key e"
proof -
  have "state_ok mp t e \<Longrightarrow> state_ok mp' t e" for t
    using assms(2) by (fastforce simp: state_ok_def split: task_state.splits)
  then show ?thesis using assms by (fastforce simp: entry_ok_def split: option.splits)
qed

lemma instance_entry_ok:
  assumes "wf_spec spec" and "t \<in> set (d_tasks spec)" and "expand t \<noteq> None"
    and "dict_get mp (t_id t) = Some m" and "i < length (m_items m)"
  shows "entry_ok spec mp (task_display_key (t_id t) (Some i)) (instance_entry t now i item)"
  using assms wf_spec_id(2) [OF assms(1,2)]
  by (simp add: entry_ok_def instance_entry_def new_task_entry_def state_ok_def attempts_of_def)

text \<open>A key the document does not have yet can be added; nothing was launched under it.\<close>

lemma run_inv_new:
  assumes "run_inv spec body hist" and "dict_get (b_tasks body) key = None"
    and "entry_ok spec (b_mapped body) key e"
  shows "run_inv spec (put_entry key e body) hist"
  using assms by (fastforce simp: run_inv_def log_ok_def)

lemma add_instances_inv:
  assumes "wf_spec spec" and "t \<in> set (d_tasks spec)" and "expand t \<noteq> None"
    and "dict_get (b_mapped body) (t_id t) = Some m" and "run_inv spec body hist"
    and "i + length items = length (m_items m)"
    and "\<And>j. i \<le> j \<Longrightarrow> dict_get (b_tasks body) (task_display_key (t_id t) (Some j)) = None"
  shows "run_inv spec (add_instances t now i items body) hist"
  using assms(4-)
proof (induction items arbitrary: i body)
  case (Cons item items)
  let ?k = "task_display_key (t_id t) (Some i)"
  let ?b = "put_entry ?k (instance_entry t now i item) body"
  have "run_inv spec ?b hist"
    using Cons.prems instance_entry_ok [OF assms(1-3) Cons.prems(1)] by (intro run_inv_new) auto
  moreover have "dict_get (b_tasks ?b) (task_display_key (t_id t) (Some j)) = None" if "Suc i \<le> j" for j
    using that Cons.prems(4) [of j] task_key_inj(2) [OF assms(1,2,2), of "Some j" "Some i"] by auto
  ultimately show ?case using Cons.IH [of ?b "Suc i"] Cons.prems by simp
qed simp

lemma mapped_key_fresh:
  assumes "wf_spec spec" and "run_inv spec body hist" and "t \<in> set (d_tasks spec)"
    and "dict_get (b_mapped body) (t_id t) = None"
  shows "dict_get (b_tasks body) (task_display_key (t_id t) (Some j)) = None"
proof (rule ccontr)
  assume "dict_get (b_tasks body) (task_display_key (t_id t) (Some j)) \<noteq> None"
  then obtain e where e: "dict_get (b_tasks body) (task_display_key (t_id t) (Some j)) = Some e" by auto
  note ok = run_inv_entry [OF assms(2) e]
  note t = entry_ok_task [OF assms(1) ok assms(3) refl]
  show False using ok t assms(4) by (auto simp: entry_ok_def)
qed

lemma record_mapped_inv:
  assumes "wf_spec spec" and "run_inv spec body hist" and "t \<in> set (d_tasks spec)" and "expand t \<noteq> None"
    and "dict_get (b_mapped body) (t_id t) = None"
  shows "run_inv spec (body\<lparr>b_mapped := dict_set (t_id t) m (b_mapped body)\<rparr>) hist"
proof -
  have "entry_ok spec (dict_set (t_id t) m (b_mapped body)) key e" if "entry_ok spec (b_mapped body) key e" for key e
    using that by (rule entry_ok_mapped_mono) (use assms(5) in auto)
  then show ?thesis using assms(2) by (auto simp: run_inv_def)
qed

lemma mark_expanded_inv:
  assumes "wf_spec spec" and "run_inv spec body hist" and "t \<in> set (d_tasks spec)" and "expand t \<noteq> None"
    and "dict_get (b_mapped body) (t_id t) = Some m" and "dict_get (b_tasks body) (t_id t) = Some ph"
  shows "run_inv spec (put_entry (t_id t) (ph\<lparr>e_state := EXPANDED, e_updatedAt := now\<rparr>) body) hist"
proof -
  note ok = run_inv_entry [OF assms(2,6)]
  note t = entry_ok_task [OF assms(1) ok assms(3), of None, simplified]
  have "entry_ok spec (b_mapped body) (t_id t) (ph\<lparr>e_state := EXPANDED, e_updatedAt := now\<rparr>)"
    using ok t(1) by (rule entry_ok_update) (use t(2) assms(4,5) in \<open>auto simp: state_ok_def placeholder_def\<close>)
  then show ?thesis
    by (intro run_inv_put [OF assms(2,6)]) (auto simp: no_rewind_def claimable_def)
qed

text \<open>The body of an expansion that goes through.\<close>

definition expanded_body :: "TaskSpec \<Rightarrow> json list \<Rightarrow> real \<Rightarrow> run_body \<Rightarrow> run_body" where
  "expanded_body t items now body =
     (let body1 = body\<lparr>b_mapped := dict_set (t_id t) \<lparr>m_items = items, expandedAt = now\<rparr> (b_mapped body)\<rparr>
      in add_instances t now 0 items
           (case dict_get (b_tasks body1) (t_id t) of
              None \<Rightarrow> body1
            | Some ph \<Rightarrow> put_entry (t_id t) (ph\<lparr>e_state := EXPANDED, e_updatedAt := now\<rparr>) body1))"

lemma apply_expansion_cases:
  assumes "wf_spec spec" and "apply_expansion spec now tid items_opt (body, r) = (body', r')"
  obtains (keep) "body' = body" "r' = r"
  | (stop) ph fr e' where "dict_get (b_tasks body) tid = Some ph" "e_state ph = PENDING"
      "terminalise_task (ph\<lparr>failReason := fr\<rparr>) FAILED now r = (e', r')" "body' = put_entry tid e' body"
  | (expanded) t ex items where "t \<in> set (d_tasks spec)" "t_id t = tid" "expand t = Some ex"
      "dict_get (b_mapped body) tid = None" "effective_state spec body (from_task ex) = SUCCESS"
      "length items \<le> MAX_MAPPED_ITEMS" "items_opt = Some items"
      "body' = expanded_body t items now body" "r' = r\<lparr>changed := True\<rparr>"
proof -
  consider "items_opt = None \<or> dict_get (by_id spec) tid = None \<or> expand (the (dict_get (by_id spec) tid)) = None"
    | items t ex where "items_opt = Some items" "dict_get (by_id spec) tid = Some t" "expand t = Some ex"
    by (cases items_opt; cases "dict_get (by_id spec) tid") auto
  then show thesis
  proof cases
    case 1
    then show thesis using assms(2) keep by (auto simp: apply_expansion_def split: option.splits)
  next
    case (2 items t ex)
    note t = wf_spec_by_id [OF assms(1) 2(2)]
    consider "dict_get (b_mapped body) tid \<noteq> None \<or> effective_state spec body (from_task ex) \<noteq> SUCCESS"
      | "dict_get (b_mapped body) tid = None" "effective_state spec body (from_task ex) = SUCCESS"
        "length items > MAX_MAPPED_ITEMS"
      | "dict_get (b_mapped body) tid = None" "effective_state spec body (from_task ex) = SUCCESS"
        "length items \<le> MAX_MAPPED_ITEMS" by force
    then show thesis
    proof cases
      case 1
      then show thesis using assms(2) 2 keep by (auto simp: apply_expansion_def split: if_splits)
    next
      case big: 2
      then show thesis
        using assms(2) 2 keep stop
        by (auto simp: apply_expansion_def split: option.splits if_splits prod.splits)
    next
      case 3
      then have "body' = expanded_body t items now body \<and> r' = r\<lparr>changed := True\<rparr>"
        using assms(2) 2 t(2) by (auto simp: apply_expansion_def expanded_body_def Let_def)
      then show thesis using expanded [OF t 2(3)] 3 2(1) by simp
    qed
  qed
qed

lemma apply_expansion_inv:
  assumes "wf_spec spec"
  shows "advances spec st (apply_expansion spec now tid items_opt st)"
proof -
  obtain body r where st: "st = (body, r)" by (cases st)
  obtain body' r' where a: "apply_expansion spec now tid items_opt (body, r) = (body', r')" by fastforce
  have "launches r' = launches r \<and> (\<forall>hist. run_inv spec body hist \<longrightarrow> run_inv spec body' hist)"
    using assms a
  proof (cases rule: apply_expansion_cases)
    case keep
    then show ?thesis by simp
  next
    case stop
    then have "launches r' = launches r" by (auto simp: terminalise_task_def)
    moreover have "run_inv spec body' hist" if "run_inv spec body hist" for hist
      using terminalise_inv(2) [OF that stop(1) _ stop(3)] stop(4) by (simp add: terminal_def)
    ultimately show ?thesis by blast
  next
    case (expanded t ex items)
    have "run_inv spec body' hist" if inv: "run_inv spec body hist" for hist
    proof -
      let ?m = "\<lparr>m_items = items, expandedAt = now\<rparr>"
      let ?b1 = "body\<lparr>b_mapped := dict_set (t_id t) ?m (b_mapped body)\<rparr>"
      let ?b2 = "case dict_get (b_tasks ?b1) (t_id t) of None \<Rightarrow> ?b1
        | Some ph \<Rightarrow> put_entry (t_id t) (ph\<lparr>e_state := EXPANDED, e_updatedAt := now\<rparr>) ?b1"
      have ex: "expand t \<noteq> None" and none: "dict_get (b_mapped body) (t_id t) = None"
        using expanded by auto
      have b1: "run_inv spec ?b1 hist" by (rule record_mapped_inv [OF assms inv expanded(1) ex none])
      have b2: "run_inv spec ?b2 hist"
        using b1 mark_expanded_inv [OF assms b1 expanded(1) ex, of ?m] by (auto split: option.splits)
      have fresh: "dict_get (b_tasks ?b2) (task_display_key (t_id t) (Some j)) = None" for j
        using mapped_key_fresh [OF assms inv expanded(1) none, of j]
          task_key_inj(2) [OF assms expanded(1,1), of None "Some j"]
        by (auto split: option.splits)
      have "dict_get (b_mapped ?b2) (t_id t) = Some ?m" by (auto split: option.splits)
      then have "run_inv spec (add_instances t now 0 items ?b2) hist"
        by (rule add_instances_inv [OF assms expanded(1) ex _ b2]) (simp, rule fresh)
      then show ?thesis unfolding expanded(8) expanded_body_def Let_def .
    qed
    then show ?thesis using expanded(9) by simp
  qed
  then show ?thesis by (simp add: st a advances_def)
qed

lemma apply_expansions_inv:
  assumes "wf_spec spec"
  shows "advances spec st (apply_expansions spec exps now st)"
  unfolding apply_expansions_def
proof (induction exps arbitrary: st)
  case (Cons x exps)
  show ?case
    using advances_trans [OF apply_expansion_inv [OF assms] Cons] by (cases x) simp
qed (simp add: advances_refl)

lemma full_pass_inv: "wf_spec spec \<Longrightarrow> advances spec (body, empty_result) (full_pass spec now proc host exps body)"
  unfolding full_pass_def by (rule advances_trans [OF apply_expansions_inv claim_pass_inv])

lemma apply_expansions_silent:
  assumes "wf_spec spec" and "apply_expansions spec exps now (body, r) = (body', r')" and "\<not> changed r'"
  shows "body' = body \<and> r' = r"
  using assms(2)
proof (induction exps arbitrary: body r)
  case (Cons x exps)
  obtain tid items where x: "x = (tid, items)" by (cases x)
  obtain body1 r1 where a: "apply_expansion spec now tid items (body, r) = (body1, r1)" by fastforce
  have IH: "body' = body1 \<and> r' = r1"
    using Cons.IH [of body1 r1] Cons.prems by (simp add: apply_expansions_def x a)
  from assms(1) a have "changed r1 \<or> body1 = body \<and> r1 = r"
    by (cases rule: apply_expansion_cases) (auto simp: terminalise_task_def)
  with IH assms(3) show ?case by auto
qed (simp add: apply_expansions_def)

text \<open>A pass that reports no change did nothing and launched nothing.\<close>

lemma full_pass_silent:
  assumes "wf_spec spec" and "full_pass spec now proc host exps body = (body', r')" and "\<not> changed r'"
  shows "body' = body \<and> launches r' = []"
proof -
  obtain body0 r0 where a: "apply_expansions spec exps now (body, empty_result) = (body0, r0)" by fastforce
  obtain body1 r1 where p: "propagate_and_claim spec now proc host (body0, r0) = (body1, r1)" by fastforce
  have m: "body' = body1 \<and> changed r1 = changed r' \<and> launches r1 = launches r'"
    using assms(2,3) by (auto simp: full_pass_def claim_pass_def a p maybe_terminalise_def Let_def
        split: option.splits if_splits)
  then have s: "body1 = body0 \<and> same_but_deferred r0 r1"
    using claim_steps_silent propagate_steps [OF assms(1), of now proc host "(body0, r0)"] p assms(3) by auto
  with m have "body0 = body \<and> r0 = empty_result"
    using apply_expansions_silent [OF assms(1) a] assms(3) by (auto simp: same_but_deferred_def)
  with m s show ?thesis by (simp add: same_but_deferred_def empty_result_def)
qed

subsection \<open>Completions, recovery, decisions\<close>

definition base_id :: "string \<Rightarrow> string" where
  "base_id key = takeWhile (\<lambda>c. c \<noteq> CHR ''#'') key"

lemma base_id_key: "good_id t \<Longrightarrow> base_id (task_display_key t mi) = t"
  by (cases mi) (auto simp: base_id_def task_display_key_def good_id_def takeWhile_append takeWhile_eq_all_conv)

text \<open>A completion names an instance of its own task; a gate never runs a subprocess.\<close>

definition mark_for :: "DagSpec \<Rightarrow> finish_mark \<Rightarrow> bool" where
  "mark_for spec m \<longleftrightarrow>
     fm_task m \<in> set (d_tasks spec) \<and> t_type (fm_task m) \<noteq> APPROVAL \<and> base_id (fm_taskkey m) = t_id (fm_task m)"

lemma run_inv_stamp [simp]: "run_inv spec (stamp x body) hist = run_inv spec body hist"
  by (simp add: run_inv_def)

lemma running_facts:
  assumes "run_inv spec body hist" and "dict_get (b_tasks body) key = Some e" and "e_state e = RUNNING"
  obtains t where "dict_get (by_id spec) (e_id e) = Some t" and "key = task_display_key (t_id t) (mapIndex e)"
    and "e_attempt e < attempts_of t" and "0 \<le> e_attempt e" and "\<not> placeholder t e"
    and "t_type t = APPROVAL \<longleftrightarrow> awaitingApproval e" and "entry_ok spec (b_mapped body) key e"
  using run_inv_entry [OF assms(1,2)] assms(3)
  by (auto simp: entry_ok_def state_ok_def split: option.splits)

lemma finish_entry_keeps [simp]:
  "e_id (finish_entry m now e) = e_id e" "mapIndex (finish_entry m now e) = mapIndex e"
  by (simp_all add: finish_entry_def finish_sensor_def finish_plain_def Let_def)

lemma finish_inv:
  assumes "wf_spec spec" and "run_inv spec body hist" and "dict_get (b_tasks body) (fm_taskkey m) = Some e"
    and "finish_fence m e" and "mark_for spec m"
  shows "run_inv spec (put_entry (fm_taskkey m) (finish_entry m now e) body) hist"
proof -
  have running: "e_state e = RUNNING" using assms(4) by (simp add: finish_fence_def)
  from running_facts [OF assms(2,3) running] obtain t
    where t: "dict_get (by_id spec) (e_id e) = Some t" "fm_taskkey m = task_display_key (t_id t) (mapIndex e)"
      and facts: "e_attempt e < attempts_of t" "0 \<le> e_attempt e" "\<not> placeholder t e"
        "t_type t = APPROVAL \<longleftrightarrow> awaitingApproval e" and ok: "entry_ok spec (b_mapped body) (fm_taskkey m) e" by metis
  have "t_id t = t_id (fm_task m)"
    using base_id_key [OF wf_spec_id(1) [OF assms(1) wf_spec_by_id(1) [OF assms(1) t(1)]]] t(2) assms(5)
    by (simp add: mark_for_def)
  then have tm: "fm_task m = t"
    using wf_spec_inj [OF assms(1)] wf_spec_by_id(1) [OF assms(1) t(1)] assms(5) by (simp add: mark_for_def)
  have ty: "t_type t \<noteq> APPROVAL" using assms(5) tm by (simp add: mark_for_def)
  have ok': "entry_ok spec (b_mapped body) (fm_taskkey m) (finish_entry m now e)"
    using ok t(1) by (rule entry_ok_update)
      (simp, simp, use facts ty running in \<open>cases "t_type t"; auto simp: state_ok_def finish_entry_def finish_sensor_def
         finish_plain_def tm placeholder_def attempts_of_def Let_def\<close>)
  have "no_rewind e (finish_entry m now e)"
    using running by (auto simp: no_rewind_def claimable_def finish_entry_def finish_sensor_def finish_plain_def Let_def)
  from run_inv_put [OF assms(2,3) ok' this] show ?thesis .
qed

lemma pid_inv:
  assumes "run_inv spec body hist" and "dict_get (b_tasks body) key = Some e" and "e_state e = RUNNING"
  shows "run_inv spec (put_entry key (e\<lparr>e_pid := p, e_updatedAt := now\<rparr>) body) hist"
proof -
  from running_facts [OF assms] obtain t where t: "dict_get (by_id spec) (e_id e) = Some t"
    and ok: "entry_ok spec (b_mapped body) key e" by metis
  have "entry_ok spec (b_mapped body) key (e\<lparr>e_pid := p, e_updatedAt := now\<rparr>)"
    using ok t by (rule entry_ok_update) (use assms(3) in \<open>auto simp: state_ok_def placeholder_def\<close>)
  then show ?thesis
    by (intro run_inv_put [OF assms(1,2)]) (auto simp: no_rewind_def claimable_def assms(3))
qed

lemma approval_inv:
  assumes "run_inv spec body hist" and "dict_get (b_tasks body) key = Some e" and "e_state e = RUNNING"
    and "terminal s" and "e_id e' = e_id e" and "mapIndex e' = mapIndex e" and "e_attempt e' = e_attempt e"
    and "e_state e' = s"
  shows "run_inv spec (put_entry key e' body) hist"
proof -
  from running_facts [OF assms(1-3)] obtain t where t: "dict_get (by_id spec) (e_id e) = Some t"
    and ok: "entry_ok spec (b_mapped body) key e" by metis
  have "entry_ok spec (b_mapped body) key e'"
    using ok t assms(5,6) by (rule entry_ok_update) (use assms(4,7,8) in \<open>auto simp: state_ok_def terminal_def\<close>)
  moreover have "no_rewind e e'"
    using assms(4,5,7,8) by (auto simp: no_rewind_def claimable_def terminal_def)
  ultimately show ?thesis by (rule run_inv_put [OF assms(1,2)])
qed

lemma recovered_keeps [simp]:
  "e_id (recovered spec now proc host alive e) = e_id e" "mapIndex (recovered spec now proc host alive e) = mapIndex e"
  by (simp_all add: recovered_def)

lemma recovered_ok:
  assumes "entry_ok spec mp key e"
  shows "entry_ok spec mp key (recovered spec now proc host alive e)"
    and "no_rewind e (recovered spec now proc host alive e)"
proof -
  obtain t where t: "dict_get (by_id spec) (e_id e) = Some t" "state_ok mp t e"
    using assms by (auto simp: entry_ok_def split: option.splits)
  have "state_ok mp t (recovered spec now proc host alive e)"
  proof (cases "crash_victim proc host alive e")
    case True
    then have "e_state e = RUNNING" "\<not> awaitingApproval e" by (auto simp: crash_victim_def)
    with t True show ?thesis
      by (cases "t_type t") (auto simp: state_ok_def recovered_def reconcile_one_def placeholder_def attempts_of_def Let_def)
  qed (use t in \<open>simp add: recovered_def\<close>)
  then show "entry_ok spec mp key (recovered spec now proc host alive e)"
    using entry_ok_update [OF assms t(1)] by simp
  show "no_rewind e (recovered spec now proc host alive e)"
    by (auto simp: no_rewind_def claimable_def recovered_def reconcile_one_def crash_victim_def Let_def)
qed

lemma reconcile_inv:
  assumes "run_inv spec body hist"
  shows "run_inv spec (fst (reconcile_body spec now proc host alive body)) hist"
proof -
  let ?ts = "fst (reconcile_entries spec now proc host alive (b_tasks body))"
  have "\<exists>e'. dict_get ?ts (li_taskkey l) = Some e' \<and> 0 \<le> li_attempt l \<and> li_attempt l \<le> e_attempt e' \<and>
      (li_attempt l = e_attempt e' \<longrightarrow> \<not> claimable e') \<and>
      (\<exists>t. dict_get (by_id spec) (e_id e') = Some t \<and> li_attempt l < attempts_of t)" if l: "l \<in> set (plain_launches hist)" for l
  proof -
    obtain e where e: "dict_get (b_tasks body) (li_taskkey l) = Some e"
      and le: "0 \<le> li_attempt l" "li_attempt l \<le> e_attempt e" "li_attempt l = e_attempt e \<longrightarrow> \<not> claimable e"
        "\<exists>t. dict_get (by_id spec) (e_id e) = Some t \<and> li_attempt l < attempts_of t"
      using assms l unfolding run_inv_def log_ok_def by blast
    let ?e = "recovered spec now proc host alive e"
    have "no_rewind e ?e" by (rule recovered_ok(2) [OF run_inv_entry [OF assms e]])
    then have "li_attempt l \<le> e_attempt ?e" "li_attempt l = e_attempt ?e \<longrightarrow> \<not> claimable ?e"
      using le by (auto simp: no_rewind_def)
    then show ?thesis using e le(1,4) by (simp add: reconcile_entries_get)
  qed
  then have "log_ok spec ?ts hist" using assms by (simp add: run_inv_def log_ok_def)
  moreover have "entry_ok spec (b_mapped body) key e" if "dict_get ?ts key = Some e" for key e
    using that assms recovered_ok(1) by (auto simp: run_inv_def reconcile_entries_get)
  ultimately have "run_inv spec (body\<lparr>b_tasks := ?ts\<rparr>) hist"
    using assms by (simp add: run_inv_def reconcile_entries_keys)
  then show ?thesis by (simp add: reconcile_body_def split_beta)
qed

subsection \<open>Reachable states\<close>

inductive run_step ::
  "DagSpec \<Rightarrow> run_body \<times> LaunchIntent list \<Rightarrow> run_body \<times> LaunchIntent list \<Rightarrow> bool" for spec where
  rs_plan: "plan_and_claim spec now proc host exps (Some body) = (w, res) \<Longrightarrow> written (Some body) w = Some body' \<Longrightarrow>
    run_step spec (body, hist) (body', hist @ launches res)"
| rs_advance: "reconcile_and_plan spec now proc host alive (Some body) = (w, rres) \<Longrightarrow>
    written (Some body) w = Some body' \<Longrightarrow>
    run_step spec (body, hist)
      (body', hist @ (case advance rres of None \<Rightarrow> [] | Some adv \<Rightarrow> launches adv))"
| rs_reconcile: "reconcile_crashed spec now proc host alive (Some body) = (w, n) \<Longrightarrow> written (Some body) w = Some body' \<Longrightarrow>
    run_step spec (body, hist) (body', hist)"
| rs_pids: "set_task_pids pms now (Some body) = (w, n) \<Longrightarrow> written (Some body) w = Some body' \<Longrightarrow>
    run_step spec (body, hist) (body', hist)"
| rs_finish: "mark_tasks_finished fms now (Some body) = (w, ks) \<Longrightarrow> list_all (mark_for spec) fms \<Longrightarrow>
    written (Some body) w = Some body' \<Longrightarrow> run_step spec (body, hist) (body', hist)"
| rs_approval: "apply_approval key approved who now rs (Some body) = (w, ares) \<Longrightarrow> written (Some body) w = Some body' \<Longrightarrow>
    run_step spec (body, hist) (body', hist)"

inductive reachable :: "DagSpec \<Rightarrow> run_body \<Rightarrow> LaunchIntent list \<Rightarrow> bool" for spec where
  reach_new: "reachable spec (new_run_body dag rk rid ld kd now spec) []"
| reach_step: "reachable spec body hist \<Longrightarrow> run_step spec (body, hist) (body', hist') \<Longrightarrow> reachable spec body' hist'"

lemma new_run_inv:
  assumes "wf_spec spec"
  shows "run_inv spec (new_run_body dag rk rid ld kd now spec) []"
proof -
  have dist: "distinct (map t_id (d_tasks spec))" using wf_specD(1) [OF assms] by (simp add: ids_ok_def)
  have "entry_ok spec [] k e" if "dict_get (map (\<lambda>t. (t_id t, new_task_entry t now)) (d_tasks spec)) k = Some e" for k e
  proof -
    from map_of_SomeD [OF that] obtain t where "t \<in> set (d_tasks spec)" "k = t_id t" "e = new_task_entry t now" by auto
    then show ?thesis
      using wf_spec_id(2) [OF assms] by (simp add: entry_ok_def new_task_entry_def state_ok_def attempts_of_def)
  qed
  then show ?thesis
    using dist by (simp add: run_inv_def new_run_body_def comp_def log_ok_def plain_launches_def)
qed

lemma plan_inv:
  assumes "wf_spec spec" and "run_inv spec body hist"
    and "plan_and_claim spec now proc host exps (Some body) = (w, res)" and "written (Some body) w = Some body'"
  shows "run_inv spec body' (hist @ launches res)"
proof (cases "is_terminal_run body \<or> is_quiescent spec body now proc exps")
  case True
  then show ?thesis
    using assms by (auto simp: plan_and_claim_def empty_result_def split: if_splits)
next
  case False
  obtain working r where f: "full_pass spec now proc host exps body = (working, r)" by fastforce
  have inv: "run_inv spec working (hist @ launches r)"
    using full_pass_inv [OF assms(1), of body now proc host exps] assms(2) f
    by (auto simp: advances_def empty_result_def)
  show ?thesis
  proof (cases "changed r")
    case True
    then show ?thesis using False assms(3,4) f inv by (auto simp: plan_and_claim_def)
  next
    case nc: False
    have "launches r = []" using full_pass_silent [OF assms(1) f nc] by simp
    then show ?thesis using False assms(2-4) f nc by (auto simp: plan_and_claim_def)
  qed
qed

lemma advance_inv:
  assumes "wf_spec spec" and "run_inv spec body hist"
    and "reconcile_and_plan spec now proc host alive (Some body) = (w, rres)" and "written (Some body) w = Some body'"
  shows "run_inv spec body' (hist @ (case advance rres of None \<Rightarrow> [] | Some adv \<Rightarrow> launches adv))"
proof (cases "is_terminal_run body \<or> is_quiescent spec body now proc []")
  case True
  then have "w = DOC_KEEP" "advance rres = Some empty_result"
    using assms(3) by (auto simp: reconcile_and_plan_def Let_def split: if_splits)
  then show ?thesis using assms(2,4) by (auto simp: empty_result_def)
next
  case False
  obtain working n where rb: "reconcile_body spec now proc host alive body = (working, n)" by fastforce
  obtain working' adv where cp: "claim_pass spec now proc host (working, empty_result) = (working', adv)" by fastforce
  have inv: "run_inv spec working hist" using reconcile_inv [OF assms(2), of now proc host alive] rb by simp
  have fp: "full_pass spec now proc host [] working = (working', adv)"
    using cp by (simp add: full_pass_def apply_expansions_def)
  have inv': "run_inv spec working' (hist @ launches adv)"
    using claim_pass_inv [OF assms(1), of "(working, empty_result)" now proc host] inv cp
    by (auto simp: advances_def empty_result_def)
  have quiet: "launches adv = []" if "\<not> changed adv" using full_pass_silent [OF assms(1) fp that] by simp
  have keep: "n = 0 \<Longrightarrow> working = body" by (rule reconcile_body_keeps(3) [OF rb])
  show ?thesis
  proof (cases "tasks_awaiting_expansion spec working = []")
    case True
    then have "w = (if \<not> changed adv \<and> n = 0 then DOC_KEEP else DOC_PUT (stamp now working'))"
      "advance rres = Some adv"
      using False assms(3) rb cp by (auto simp: reconcile_and_plan_def Let_def)
    then show ?thesis using assms(2,4) inv' quiet by (auto split: if_splits)
  next
    case aw: False
    then have "w = (if n \<noteq> 0 then DOC_PUT (stamp now working) else DOC_KEEP)" "advance rres = None"
      using False assms(3) rb by (auto simp: reconcile_and_plan_def Let_def)
    then show ?thesis using assms(2,4) inv by (auto split: if_splits)
  qed
qed

lemma run_step_inv:
  assumes "wf_spec spec" and "run_step spec (body, hist) (body', hist')" and "run_inv spec body hist"
  shows "run_inv spec body' hist'"
  using assms(2)
proof (cases rule: run_step.cases)
  case (rs_plan now proc host exps w res)
  then show ?thesis using plan_inv [OF assms(1,3)] by simp
next
  case (rs_advance now proc host alive w rres)
  then show ?thesis using advance_inv [OF assms(1,3)] by simp
next
  case (rs_reconcile now proc host alive w n)
  then show ?thesis
    using assms(3) reconcile_inv [OF assms(3), of now proc host alive]
    by (auto simp: reconcile_crashed_def split: if_splits prod.splits)
next
  case (rs_pids pms now w n)
  have "run_inv spec (body\<lparr>b_tasks := fst (apply_pids now pms (b_tasks body, 0))\<rparr>) hist"
    by (rule pids.loop_induct [where P = "\<lambda>ts. run_inv spec (body\<lparr>b_tasks := ts\<rparr>) hist"])
      (use assms(3) pid_inv [of spec "body\<lparr>b_tasks := _\<rparr>"] in \<open>auto simp: pid_fence_def\<close>)
  then show ?thesis
    using rs_pids assms(3) by (auto simp: set_task_pids_def split: if_splits prod.splits)
next
  case (rs_finish fms now w ks)
  have "run_inv spec (body\<lparr>b_tasks := fst (apply_marks now fms (b_tasks body, []))\<rparr>) hist"
    by (rule marks.loop_induct [where P = "\<lambda>ts. run_inv spec (body\<lparr>b_tasks := ts\<rparr>) hist"])
      (use assms(3) rs_finish(3) finish_inv [OF assms(1), of "body\<lparr>b_tasks := _\<rparr>"] in \<open>auto simp: list_all_iff\<close>)
  then show ?thesis
    using rs_finish assms(3) by (auto simp: mark_tasks_finished_def split: if_splits prod.splits)
next
  case (rs_approval key approved who now rs w ares)
  show ?thesis
  proof (cases "w = DOC_KEEP")
    case True
    then show ?thesis using rs_approval assms(3) by simp
  next
    case False
    then obtain e where e: "dict_get (b_tasks body) key = Some e" "e_state e = RUNNING" "awaitingApproval e"
      using rs_approval(2) by (auto simp: apply_approval_def split: option.splits if_splits)
    let ?s = "if approved then SUCCESS else if rs = SKIPPED then SKIPPED else FAILED"
    let ?e = "e\<lparr>awaitingApproval := False,
      approval := Some \<lparr>decision = (if approved then ''approved'' else ''rejected''), decided_by = who, decided_at = now\<rparr>,
      finishedAt := Some now, e_state := ?s, e_updatedAt := now\<rparr>"
    have "body' = stamp now (put_entry key ?e body)"
      using rs_approval(2,3) e by (auto simp: apply_approval_def Let_def)
    moreover have "run_inv spec (put_entry key ?e body) hist"
      by (rule approval_inv [OF assms(3) e(1,2), of ?s]) (auto simp: terminal_def)
    ultimately show ?thesis using rs_approval(1) by simp
  qed
qed

lemma reachable_inv:
  assumes "wf_spec spec" and "reachable spec body hist"
  shows "run_inv spec body hist"
  using assms(2) by (induction rule: reachable.induct) (auto intro: new_run_inv run_step_inv assms(1))

end
