(* ===== verification/DagPass.thy ===== *)
theory DagPass
  imports DagSteps
begin

text \<open>
  What one claim pass guarantees, proved by induction over its single-entry steps: terminal
  entries stay, at most \<open>MAX_CLAIMS_PER_PASS\<close> instances are launched, each once and under the
  caller's token, and an instance launched from \<open>pending\<close> has every dependency of its task done
  in the document the pass writes.
\<close>

subsection \<open>Documents that keep what is done\<close>

definition body_le :: "run_body \<Rightarrow> run_body \<Rightarrow> bool" where
  "body_le body body' \<longleftrightarrow>
     b_mapped body' = b_mapped body \<and> dict_keys (b_tasks body') = dict_keys (b_tasks body) \<and>
     (\<forall>k e. dict_get (b_tasks body) k = Some e \<and> terminal (e_state e) \<longrightarrow> dict_get (b_tasks body') k = Some e)"

lemma body_le_refl [simp]: "body_le body body"
  by (simp add: body_le_def)

lemma body_le_trans: "body_le a b \<Longrightarrow> body_le b c \<Longrightarrow> body_le a c"
  by (auto simp: body_le_def)

lemma body_le_put:
  assumes "dict_get (b_tasks body) key = Some e" and "terminal (e_state e) \<Longrightarrow> e' = e"
  shows "body_le body (put_entry key e' body)"
proof -
  have "key \<in> set (dict_keys (b_tasks body))"
    using assms(1) by (metis dict_get_None_iff option.distinct(1))
  then have "dict_keys (dict_set key e' (b_tasks body)) = dict_keys (b_tasks body)" by (rule dict_keys_set_same)
  then show ?thesis using assms by (auto simp: body_le_def)
qed

lemma body_le_has: "body_le body body' \<Longrightarrow> (dict_get (b_tasks body') k = None) = (dict_get (b_tasks body) k = None)"
  unfolding dict_get_None_iff body_le_def by simp

lemma body_le_state_at: "body_le body body' \<Longrightarrow> terminal (state_at body k) \<Longrightarrow> state_at body' k = state_at body k"
  by (auto simp: body_le_def state_at_def terminal_def split: option.splits)

lemma body_le_effective:
  assumes "body_le body body'" and "terminal (effective_state spec body d)"
  shows "effective_state spec body' d = effective_state spec body d"
proof (cases "expand (the (dict_get (by_id spec) d)) = None")
  case True
  then show ?thesis using assms body_le_state_at by (simp add: effective_state_def)
next
  case ex: False
  have m: "dict_get (b_mapped body') d = dict_get (b_mapped body) d" using assms(1) by (simp add: body_le_def)
  show ?thesis
  proof (cases "dict_get (b_mapped body) d")
    case None
    then show ?thesis using assms ex body_le_state_at m by (simp add: effective_state_def mapped_group_state_def)
  next
    case (Some mi)
    let ?st = "\<lambda>b. map (\<lambda>i. state_at b (task_display_key d (Some i))) [0..<length (m_items mi)]"
    have "list_all terminal (?st body) \<or> m_items mi = []"
      using assms(2) ex by (auto simp: effective_state_def mapped_group_state_def Some Let_def terminal_def split: if_splits)
    then consider "m_items mi = []" | "?st body' = ?st body"
      using body_le_state_at [OF assms(1)] by (fastforce simp: list_all_iff)
    then show ?thesis
    proof cases
      case 1
      then show ?thesis using ex m by (simp add: effective_state_def mapped_group_state_def Some)
    next
      case 2
      show ?thesis unfolding effective_state_def mapped_group_state_def m Some option.case 2 using ex by simp
    qed
  qed
qed

lemma body_le_verdict:
  assumes "body_le body body'" and "deps_verdict spec body t \<noteq> V_wait"
  shows "deps_verdict spec body' t = deps_verdict spec body t"
proof -
  let ?ds = "filter (\<lambda>d. dict_get (b_tasks body) d \<noteq> None) (depends_on t)"
  have ds: "filter (\<lambda>d. dict_get (b_tasks body') d \<noteq> None) (depends_on t) = ?ds"
    using body_le_has [OF assms(1)] by simp
  have "list_all terminal (map (effective_state spec body) ?ds)"
    using assms(2) by (auto simp: deps_verdict_def Let_def split: if_splits)
  then have eq: "map (effective_state spec body') ?ds = map (effective_state spec body) ?ds"
    using body_le_effective [OF assms(1)] by (intro map_cong) (auto simp: list_all_iff)
  show ?thesis unfolding deps_verdict_def ds eq ..
qed

lemma verdict_ready:
  assumes "deps_verdict spec body t = V_ready" and "d \<in> set (depends_on t)" and "dict_get (b_tasks body) d \<noteq> None"
  shows "terminal (effective_state spec body d)"
    and "t_trigger_rule t = ALL_SUCCESS \<Longrightarrow> effective_state spec body d = SUCCESS"
proof -
  let ?ups = "map (effective_state spec body) (filter (\<lambda>d. dict_get (b_tasks body) d \<noteq> None) (depends_on t))"
  have mem: "effective_state spec body d \<in> set ?ups" using assms(2,3) by auto
  have "list_all terminal ?ups" using assms(1) by (auto simp: deps_verdict_def Let_def split: if_splits)
  with mem show t: "terminal (effective_state spec body d)" by (auto simp: list_all_iff)
  show "effective_state spec body d = SUCCESS" if "t_trigger_rule t = ALL_SUCCESS"
  proof -
    have "\<not> list_ex (\<lambda>s. s \<in> {FAILED, UPSTREAM_FAILED}) ?ups" "\<not> list_ex (\<lambda>s. s = SKIPPED) ?ups"
      using assms(1) that by (auto simp: deps_verdict_def Let_def split: if_splits)
    with mem t show ?thesis by (auto simp: list_ex_iff terminal_def)
  qed
qed

lemma claim_step_le:
  assumes "claim_step spec now proc host (body, r) (body', r')"
  shows "body_le body body'"
  using assms
proof (cases rule: claim_step.cases)
  case (step_instance task key mi item entry entry')
  have "entry' = entry" if "terminal (e_state entry)"
    using step_instance(5) that by (simp add: advance_task_def)
  with step_instance(1,4) show ?thesis using body_le_put by auto
next
  case (step_placeholder task ex)
  from step_placeholder(1) [symmetric] show ?thesis
    by (cases rule: placeholder_cases) (auto intro!: body_le_put)
qed

lemma claim_steps_le:
  assumes "claim_steps spec now proc host (body, r) (body', r')"
  shows "body_le body body'"
  using assms
  by (induction "(body', r')" arbitrary: body' r' rule: rtranclp_induct)
    (auto intro: body_le_trans claim_step_le)

subsection \<open>Launches of one pass\<close>

lemma in_flight_quiet:
  assumes "e_state e = RUNNING" and "e_proc e \<noteq> None"
  shows "advance_task t key mi item now proc host v (e, r) = (e, r)"
  using assms by (auto simp: advance_task_def advance_running_def terminal_def)

lemma claim_task_cases:
  assumes "claim_task t key mi item now proc host (e, r) = (e', r')"
  obtains (gate) "t_type t = APPROVAL" "launches r' = launches r" "e_state e' = RUNNING"
  | (full) "e' = e" "launches r' = launches r"
  | (claim) l where "launches r' = launches r @ [l]" "li_taskkey l = key" "li_task_id l = t_id t"
      "li_attempt l = e_attempt e'" "e_state e' = RUNNING" "e_proc e' = Some proc"
      "length (launches r) < MAX_CLAIMS_PER_PASS"
proof -
  consider "t_type t = APPROVAL" | "t_type t \<noteq> APPROVAL" "fst (claims_full r)"
    | "t_type t \<noteq> APPROVAL" "\<not> fst (claims_full r)" by blast
  then show thesis
  proof cases
    case 1
    then show thesis using assms gate by (auto simp: claim_task_def)
  next
    case 2
    then show thesis using assms full by (auto simp: claim_task_def claims_full_def split: if_splits)
  next
    case 3
    then show thesis
      using assms claim by (auto simp: claim_task_def claims_full_def Let_def split: if_splits)
  qed
qed

text \<open>How one instance may change in a pass.\<close>

lemma instance_cases:
  assumes "advance_task t key mi item now proc host v (e, r) = (e', r')"
  obtains (quiet) "e' = e" "launches r' = launches r"
  | (stop) "terminal (e_state e')" "launches r' = launches r"
  | (gate) "t_type t = APPROVAL" "launches r' = launches r" "e_state e' = RUNNING"
  | (launch) l where "launches r' = launches r @ [l]" "li_taskkey l = key" "li_task_id l = t_id t"
      "li_attempt l = e_attempt e'" "e_state e' = RUNNING" "e_proc e' = Some proc"
      "length (launches r) < MAX_CLAIMS_PER_PASS"
      "claimable e \<and> (e_state e = PENDING \<longrightarrow> v = V_ready) \<or> e_state e = RUNNING \<and> t_type t = SENSOR \<and> e_proc e = None"
  using assms
proof (cases rule: advance_task_cases)
  case keep
  then show thesis using quiet by simp
next
  case running
  from running(2) show thesis
  proof (cases rule: advance_running_cases)
    case keep
    then show thesis using quiet by simp
  next
    case (stop fr)
    then show thesis using that(2) by (auto simp: terminalise_task_def terminal_def)
  next
    case (poke l)
    then show thesis using launch [of l] running(1) by simp
  qed
next
  case claim
  from claim(4) show thesis
  proof (cases rule: claim_task_cases)
    case gate
    then show thesis using that(3) by simp
  next
    case full
    then show thesis using quiet by simp
  next
    case (claim l)
    then show thesis using launch [of l] \<open>claimable e\<close> \<open>e_state e = PENDING \<longrightarrow> v = V_ready\<close> by simp
  qed
next
  case (stop s)
  then show thesis using that(2) by (auto simp: terminalise_task_def terminal_def)
qed

definition pending_at :: "run_body \<Rightarrow> string \<Rightarrow> bool" where
  "pending_at body key = (case dict_get (b_tasks body) key of None \<Rightarrow> False | Some e \<Rightarrow> e_state e = PENDING)"

definition gate_key :: "DagSpec \<Rightarrow> string \<Rightarrow> bool" where
  "gate_key spec key \<longleftrightarrow> (\<exists>t mi. t \<in> set (d_tasks spec) \<and> t_type t = APPROVAL \<and> key = task_display_key (t_id t) mi)"

text \<open>What is true of a launch in the document the pass has reached.\<close>

definition launch_ok :: "DagSpec \<Rightarrow> string \<Rightarrow> run_body \<Rightarrow> run_body \<Rightarrow> LaunchIntent \<Rightarrow> bool" where
  "launch_ok spec proc body0 body l \<longleftrightarrow>
     (\<exists>t e mi. t \<in> set (d_tasks spec) \<and> li_task_id l = t_id t \<and> li_taskkey l = task_display_key (t_id t) mi \<and>
        dict_get (b_tasks body) (li_taskkey l) = Some e \<and> e_state e = RUNNING \<and> e_proc e = Some proc \<and>
        e_attempt e = li_attempt l \<and>
        (pending_at body0 (li_taskkey l) \<longrightarrow> deps_verdict spec body t = V_ready))"

definition pending_moves :: "DagSpec \<Rightarrow> run_body \<Rightarrow> run_body \<Rightarrow> bool" where
  "pending_moves spec body0 body \<longleftrightarrow>
     (\<forall>key e. pending_at body0 key \<and> dict_get (b_tasks body) key = Some e \<longrightarrow>
        e_state e = PENDING \<or> terminal (e_state e) \<or> e_state e = RUNNING \<and> (e_proc e \<noteq> None \<or> gate_key spec key))"

definition pass_inv :: "DagSpec \<Rightarrow> string \<Rightarrow> run_body \<Rightarrow> run_body \<times> AdvanceResult \<Rightarrow> bool" where
  "pass_inv spec proc body0 st \<longleftrightarrow>
     length (launches (snd st)) \<le> MAX_CLAIMS_PER_PASS \<and> distinct (map li_taskkey (launches (snd st))) \<and>
     list_all (launch_ok spec proc body0 (fst st)) (launches (snd st)) \<and> pending_moves spec body0 (fst st)"

lemma launch_ok_put:
  assumes "launch_ok spec proc body0 body l" and "dict_get (b_tasks body) key = Some e"
    and "e_state e = RUNNING \<and> e_proc e \<noteq> None \<Longrightarrow> e' = e" and "terminal (e_state e) \<Longrightarrow> e' = e"
  shows "launch_ok spec proc body0 (put_entry key e' body) l"
proof -
  have le: "body_le body (put_entry key e' body)" using body_le_put [OF assms(2,4)] by simp
  from assms(1) obtain t f mi where f: "t \<in> set (d_tasks spec)" "li_task_id l = t_id t"
    "li_taskkey l = task_display_key (t_id t) mi" "dict_get (b_tasks body) (li_taskkey l) = Some f"
    "e_state f = RUNNING" "e_proc f = Some proc" "e_attempt f = li_attempt l"
    "pending_at body0 (li_taskkey l) \<longrightarrow> deps_verdict spec body t = V_ready"
    unfolding launch_ok_def by blast
  have "dict_get (b_tasks (put_entry key e' body)) (li_taskkey l) = Some f"
    using f(4-6) assms(2,3) by auto
  moreover have "pending_at body0 (li_taskkey l) \<longrightarrow> deps_verdict spec (put_entry key e' body) t = V_ready"
    using f(8) body_le_verdict [OF le, of spec t] by simp
  ultimately show ?thesis using f(1-3,5-7) unfolding launch_ok_def by blast
qed

lemma pass_inv_put:
  assumes "pass_inv spec proc body0 (body, r)" and "dict_get (b_tasks body) key = Some e"
    and "e_state e = RUNNING \<and> e_proc e \<noteq> None \<Longrightarrow> e' = e" and "terminal (e_state e) \<Longrightarrow> e' = e"
    and "launches r' = launches r" and "terminal (e_state e') \<or> e' = e \<or> e_state e' = RUNNING \<and> gate_key spec key"
  shows "pass_inv spec proc body0 (put_entry key e' body, r')"
  using assms launch_ok_put [OF _ assms(2-4)]
  by (auto simp: pass_inv_def list_all_iff pending_moves_def)

lemma pass_inv_launch:
  assumes "pass_inv spec proc body0 (body, r)" and "dict_get (b_tasks body) key = Some e"
    and "\<not> terminal (e_state e)" and "\<not> (e_state e = RUNNING \<and> e_proc e \<noteq> None)"
    and "launches r' = launches r @ [l]" and "li_taskkey l = key" and "length (launches r) < MAX_CLAIMS_PER_PASS"
    and "launch_ok spec proc body0 (put_entry key e' body) l"
  shows "pass_inv spec proc body0 (put_entry key e' body, r')"
proof -
  have old: "launch_ok spec proc body0 (put_entry key e' body) l'" if "l' \<in> set (launches r)" for l'
    using launch_ok_put [OF _ assms(2)] assms(1,3,4) that by (auto simp: pass_inv_def list_all_iff)
  have "li_taskkey l' \<noteq> key" if "l' \<in> set (launches r)" for l'
    using assms(1,2,4) that by (force simp: pass_inv_def list_all_iff launch_ok_def)
  then have "key \<notin> li_taskkey ` set (launches r)" by blast
  moreover have "pending_moves spec body0 (put_entry key e' body)"
    using assms(1,6,8) by (auto simp: pass_inv_def pending_moves_def launch_ok_def)
  ultimately show ?thesis
    using assms(1,5-8) old by (auto simp: pass_inv_def list_all_iff)
qed

lemma pass_inv_instance:
  assumes "wf_spec spec" and "pass_inv spec proc body0 (body, r)" and t: "t \<in> set (d_tasks spec)"
    and inst: "(key, mi, item) \<in> set (instances_of body t)" and e: "dict_get (b_tasks body) key = Some e"
    and a: "advance_task t key mi item now proc host (deps_verdict spec body t) (e, r) = (e', r')"
  shows "pass_inv spec proc body0 (put_entry key e' body, r')"
proof -
  have key: "key = task_display_key (t_id t) mi" by (rule instance_key(1) [OF inst])
  have flight: "e' = e" if "e_state e = RUNNING \<and> e_proc e \<noteq> None"
    using in_flight_quiet [of e t key mi item now proc host _ r] that a by simp
  have done_: "e' = e" if "terminal (e_state e)" using a that by (simp add: advance_task_def)
  from a show ?thesis
  proof (cases rule: instance_cases)
    case quiet
    then show ?thesis using pass_inv_put [OF assms(2) e flight done_] by simp
  next
    case stop
    then show ?thesis using pass_inv_put [OF assms(2) e flight done_] by simp
  next
    case gate
    then have "gate_key spec key" using t key by (auto simp: gate_key_def)
    with gate show ?thesis using pass_inv_put [OF assms(2) e flight done_] by simp
  next
    case (launch l)
    have le: "body_le body (put_entry key e' body)" using body_le_put [OF e done_] by simp
    have ready: "deps_verdict spec body t = V_ready" if p: "pending_at body0 key"
    proof -
      have "e_state e = PENDING \<or> terminal (e_state e) \<or> e_state e = RUNNING \<and> (e_proc e \<noteq> None \<or> gate_key spec key)"
        using assms(2) p e by (auto simp: pass_inv_def pending_moves_def)
      moreover have "t_type t \<noteq> SENSOR" if "gate_key spec key"
        using that task_key_inj(1) [OF assms(1) t] key unfolding gate_key_def by fastforce
      ultimately show ?thesis using launch(8) by (auto simp: claimable_def terminal_def)
    qed
    have "launch_ok spec proc body0 (put_entry key e' body) l"
      using launch(2-6) t key ready body_le_verdict [OF le, of spec t] unfolding launch_ok_def by fastforce
    then show ?thesis
      using launch by (intro pass_inv_launch [OF assms(2) e]) (auto simp: claimable_def terminal_def)
  qed
qed

lemma pass_inv_step:
  assumes "wf_spec spec" and "pass_inv spec proc body0 st" and "claim_step spec now proc host st st'"
  shows "pass_inv spec proc body0 st'"
  using assms(3)
proof (cases rule: claim_step.cases)
  case (step_instance task key mi item body entry result entry' result')
  then show ?thesis using pass_inv_instance [OF assms(1)] assms(2) by simp
next
  case (step_placeholder task ex body result)
  obtain body' r' where p: "propagate_placeholder spec task ex now (body, result) = (body', r')" by fastforce
  from p have "pass_inv spec proc body0 (body', r')"
  proof (cases rule: placeholder_cases)
    case keep
    then show ?thesis using assms(2) step_placeholder(1) by simp
  next
    case (stop e fr s e')
    then show ?thesis
      using pass_inv_put [of spec proc body0 body result "t_id task" e e' r'] assms(2) step_placeholder(1) stop
      by (auto simp: terminalise_task_def)
  qed
  then show ?thesis using step_placeholder(2) p by simp
qed

lemma pass_inv_init: "pass_inv spec proc body (body, empty_result)"
  by (auto simp: pass_inv_def empty_result_def pending_moves_def pending_at_def)

lemma claim_pass_facts:
  assumes "wf_spec spec" and "claim_pass spec now proc host (body, empty_result) = (body', r)"
  shows "pass_inv spec proc body (body', r)" and "body_le body body'"
proof -
  obtain body1 r1 where p: "propagate_and_claim spec now proc host (body, empty_result) = (body1, r1)" by fastforce
  have steps: "claim_steps spec now proc host (body, empty_result) (body1, r1)"
    using propagate_steps [OF assms(1), of now proc host "(body, empty_result)"] p by simp
  have inv: "pass_inv spec proc body (body1, r1)"
    using steps by (induction rule: rtranclp_induct) (auto simp: pass_inv_init intro: pass_inv_step [OF assms(1)])
  have le: "body_le body body1"
    using steps by (rule claim_steps_le)
  have end_: "b_tasks body' = b_tasks body1" "b_mapped body' = b_mapped body1" "launches r = launches r1"
    using assms(2) by (auto simp: claim_pass_def p maybe_terminalise_def Let_def split: option.splits if_splits)
  have le1: "body_le body1 body'" using end_ by (simp add: body_le_def)
  show "body_le body body'" by (rule body_le_trans [OF le le1])
  have "launch_ok spec proc body body' l" if "launch_ok spec proc body body1 l" for l
    using that body_le_verdict [OF le1] unfolding launch_ok_def end_ by (metis verdict.distinct(1))
  then show "pass_inv spec proc body (body', r)"
    using inv end_ by (simp add: pass_inv_def pending_moves_def list_all_iff)
qed

end
