(* ===== verification/DagProgress.thy ===== *)
theory DagProgress
  imports DagPass
begin

text \<open>
  No reachable run is stuck: while a run is not terminal, either something outside the document
  is awaited (a subprocess, an operator, a retry or poke instant, an item list to read), or the
  next pass changes the document.  The proof takes a least unfinished task in the dependency
  order, which the validation of the graph guarantees.
\<close>

subsection \<open>Every task and every instance has its entry\<close>

definition has_entry :: "run_body \<Rightarrow> string \<Rightarrow> bool" where
  "has_entry body k \<longleftrightarrow> dict_get (b_tasks body) k \<noteq> None"

lemma has_entry_put [simp]: "has_entry (put_entry k e body) k' \<longleftrightarrow> k' = k \<or> has_entry body k'"
  by (simp add: has_entry_def)

definition complete_run :: "DagSpec \<Rightarrow> run_body \<Rightarrow> bool" where
  "complete_run spec body \<longleftrightarrow>
     (\<forall>t \<in> set (d_tasks spec). has_entry body (t_id t)) \<and>
     (\<forall>tid m i. dict_get (b_mapped body) tid = Some m \<and> i < length (m_items m) \<longrightarrow>
        has_entry body (task_display_key tid (Some i)))"

lemma complete_mono:
  assumes "complete_run spec body" and "b_mapped body' = b_mapped body"
    and "\<And>k. has_entry body k \<Longrightarrow> has_entry body' k"
  shows "complete_run spec body'"
  using assms unfolding complete_run_def by metis

lemma complete_le: "complete_run spec body \<Longrightarrow> body_le body body' \<Longrightarrow> complete_run spec body'"
  by (rule complete_mono) (auto simp: has_entry_def body_le_has body_le_def [THEN iffD1, THEN conjunct1])

lemma add_instances_mapped: "b_mapped (add_instances t now i items body) = b_mapped body"
  by (induction t now i items body rule: add_instances.induct) auto

lemma add_instances_has:
  "has_entry (add_instances t now i items body) k \<longleftrightarrow>
   has_entry body k \<or> k \<in> (\<lambda>j. task_display_key (t_id t) (Some j)) ` {i..<i + length items}"
proof (induction t now i items body rule: add_instances.induct)
  case (2 task now i item items body)
  have "{i..<i + length (item # items)} = insert i {Suc i..<Suc i + length items}" by auto
  with 2 show ?case by auto
qed simp

lemma expanded_body_complete:
  assumes "complete_run spec body"
  shows "complete_run spec (expanded_body t items now body)"
proof -
  let ?m = "\<lparr>m_items = items, expandedAt = now\<rparr>"
  let ?b1 = "body\<lparr>b_mapped := dict_set (t_id t) ?m (b_mapped body)\<rparr>"
  define b2 where "b2 = (case dict_get (b_tasks ?b1) (t_id t) of None \<Rightarrow> ?b1
    | Some ph \<Rightarrow> put_entry (t_id t) (ph\<lparr>e_state := EXPANDED, e_updatedAt := now\<rparr>) ?b1)"
  have m2: "b_mapped b2 = dict_set (t_id t) ?m (b_mapped body)" by (auto simp: b2_def split: option.splits)
  have h2: "has_entry b2 k" if "has_entry body k" for k
    using that by (auto simp: b2_def has_entry_def split: option.splits)
  have "complete_run spec (add_instances t now 0 items b2)"
    using assms h2 by (auto simp: complete_run_def add_instances_mapped m2 add_instances_has split: if_splits)
  then show ?thesis by (simp only: expanded_body_def b2_def Let_def)
qed

lemma apply_expansions_complete:
  assumes "wf_spec spec" and "complete_run spec (fst st)"
  shows "complete_run spec (fst (apply_expansions spec exps now st))"
  using assms(2) unfolding apply_expansions_def
proof (induction exps arbitrary: st)
  case (Cons x exps)
  obtain tid items where x: "x = (tid, items)" by (cases x)
  obtain body r where st: "st = (body, r)" by (cases st)
  obtain body' r' where a: "apply_expansion spec now tid items (body, r) = (body', r')" by fastforce
  have "complete_run spec body'"
    using assms(1) a
  proof (cases rule: apply_expansion_cases)
    case keep
    then show ?thesis using Cons.prems st by simp
  next
    case stop
    then show ?thesis using complete_mono [of spec body body'] Cons.prems st by simp
  next
    case expanded
    then show ?thesis using expanded_body_complete Cons.prems st by simp
  qed
  then show ?case using Cons.IH [of "(body', r')"] by (simp add: x st a)
qed simp

lemma claim_pass_complete:
  assumes "wf_spec spec" and "complete_run spec body"
  shows "complete_run spec (fst (claim_pass spec now proc host (body, r)))"
proof -
  obtain body1 r1 where p: "propagate_and_claim spec now proc host (body, r) = (body1, r1)" by fastforce
  have "claim_steps spec now proc host (body, r) (body1, r1)"
    using propagate_steps [OF assms(1), of now proc host "(body, r)"] p by simp
  then have "body_le body body1" by (rule claim_steps_le)
  then have "complete_run spec body1" using complete_le assms(2) by blast
  moreover have "b_tasks (fst (maybe_terminalise spec (body1, r1))) = b_tasks body1"
    "b_mapped (fst (maybe_terminalise spec (body1, r1))) = b_mapped body1"
    by (auto simp: maybe_terminalise_def Let_def split: option.splits)
  ultimately show ?thesis
    unfolding claim_pass_def p by - (rule complete_mono, simp_all add: has_entry_def)
qed

lemma full_pass_complete:
  assumes "wf_spec spec" and "complete_run spec body"
  shows "complete_run spec (fst (full_pass spec now proc host exps body))"
proof -
  obtain b0 r0 where "apply_expansions spec exps now (body, empty_result) = (b0, r0)" by fastforce
  then show ?thesis
    using apply_expansions_complete [OF assms(1), of "(body, empty_result)" exps now] assms(2)
      claim_pass_complete [OF assms(1), of b0 now proc host r0]
    by (simp add: full_pass_def)
qed

lemma reconcile_complete:
  "complete_run spec body \<Longrightarrow> complete_run spec (fst (reconcile_body spec now proc host alive body))"
  by (rule complete_mono) (auto simp: reconcile_body_def split_beta has_entry_def reconcile_entries_get)

lemma stamp_complete [simp]: "complete_run spec (stamp x body) = complete_run spec body"
  by (simp add: complete_run_def has_entry_def)

lemma run_step_complete:
  assumes "wf_spec spec" and "run_step spec (body, hist) (body', hist')" and "complete_run spec body"
  shows "complete_run spec body'"
  using assms(2)
proof (cases rule: run_step.cases)
  case (rs_plan now proc host exps w res)
  then show ?thesis
    using assms(3) full_pass_complete [OF assms(1,3), of now proc host exps]
    by (auto simp: plan_and_claim_def split: if_splits prod.splits)
next
  case (rs_advance now proc host alive w rres)
  then show ?thesis
    using assms(3) reconcile_complete [OF assms(3), of now proc host alive]
      claim_pass_complete [OF assms(1) reconcile_complete [OF assms(3), of now proc host alive], of now proc host empty_result]
    by (auto simp: reconcile_and_plan_def Let_def split: if_splits prod.splits)
next
  case (rs_reconcile now proc host alive w n)
  then show ?thesis
    using assms(3) reconcile_complete [OF assms(3), of now proc host alive]
    by (auto simp: reconcile_crashed_def split: if_splits prod.splits)
next
  case (rs_pids pms now w n)
  have "complete_run spec (body\<lparr>b_tasks := fst (apply_pids now pms (b_tasks body, 0))\<rparr>)"
    by (rule pids.loop_induct [where P = "\<lambda>ts. complete_run spec (body\<lparr>b_tasks := ts\<rparr>)"])
      (use assms(3) in \<open>auto simp: complete_run_def has_entry_def\<close>)
  then show ?thesis
    using rs_pids assms(3) by (auto simp: set_task_pids_def split: if_splits prod.splits)
next
  case (rs_finish fms now w ks)
  have "complete_run spec (body\<lparr>b_tasks := fst (apply_marks now fms (b_tasks body, []))\<rparr>)"
    by (rule marks.loop_induct [where P = "\<lambda>ts. complete_run spec (body\<lparr>b_tasks := ts\<rparr>)"])
      (use assms(3) in \<open>auto simp: complete_run_def has_entry_def\<close>)
  then show ?thesis
    using rs_finish assms(3) by (auto simp: mark_tasks_finished_def split: if_splits prod.splits)
next
  case (rs_approval key approved who now rs w ares)
  then have "b_mapped body' = b_mapped body \<and> (\<forall>k. has_entry body k \<longrightarrow> has_entry body' k)"
    by (auto simp: apply_approval_def Let_def has_entry_def split: option.splits if_splits)
  then show ?thesis using complete_mono [OF assms(3)] by blast
qed

lemma reachable_complete:
  assumes "wf_spec spec" and "reachable spec body hist"
  shows "complete_run spec body"
  using assms(2)
proof (induction rule: reachable.induct)
  case (reach_new dag rk rid ld kd now)
  have "distinct (map t_id (d_tasks spec))" using wf_specD(1) [OF assms(1)] by (simp add: ids_ok_def)
  then show ?case
    by (auto simp: complete_run_def new_run_body_def has_entry_def comp_def map_of_eq_None_iff image_image)
next
  case (reach_step body hist body' hist')
  then show ?case using run_step_complete [OF assms(1)] by blast
qed

subsection \<open>What a run may wait for\<close>

text \<open>An entry that something outside the document has to move.\<close>

definition awaited :: "real \<Rightarrow> task_entry \<Rightarrow> bool" where
  "awaited now e \<longleftrightarrow>
     e_state e = RUNNING \<and> (e_proc e \<noteq> None \<or> e_pid e \<noteq> None \<or> awaitingApproval e \<or>
       (case nextPokeAt e of None \<Rightarrow> False | Some np \<Rightarrow> now < np)) \<or>
     e_state e = UP_FOR_RETRY \<and> \<not> retry_due e now"

lemma not_full: "launches r = [] \<Longrightarrow> claims_full r = (False, r)"
  by (simp add: claims_full_def MAX_CLAIMS_PER_PASS_def)

lemma claim_changes: "launches r = [] \<Longrightarrow> changed (snd (claim_task t key mi item now proc host (e, r)))"
  by (simp add: claim_task_def not_full Let_def)

lemma idle_instance:
  assumes "advance_task t key mi item now proc host v (e, r) = (e', r')" and "\<not> changed r'" and "launches r = []"
    and "\<not> awaited now e" and "state_ok mp t e" and "\<not> placeholder t e" and "\<not> terminal (e_state e)"
  shows "v = V_wait"
proof (cases "e_state e")
  case PENDING
  then show ?thesis
    using assms(1,2) claim_changes [OF assms(3), of t key mi item now proc host e]
    by (cases v) (auto simp: advance_task_def terminal_def terminalise_task_def)
next
  case RUNNING
  have sensor: "t_type t = SENSOR"
    using assms(4,5) RUNNING by (cases "t_type t") (auto simp: awaited_def state_ok_def)
  have "changed r'"
    using assms(1,3,4) RUNNING sensor
    by (auto simp: advance_task_def advance_running_def terminal_def awaited_def not_full terminalise_task_def
        split: if_splits)
  with assms(2) show ?thesis by simp
next
  case UP_FOR_RETRY
  then have "retry_due e now" using assms(4) by (simp add: awaited_def)
  with UP_FOR_RETRY show ?thesis
    using assms(1,2) claim_changes [OF assms(3), of t key mi item now proc host e]
    by (auto simp: advance_task_def terminal_def)
next
  case EXPANDED
  then show ?thesis using assms(5,6) by (simp add: state_ok_def)
next
  case (OTHER_STATE x)
  then show ?thesis using assms(5) by (simp add: state_ok_def)
qed (use assms(7) in \<open>simp_all add: terminal_def\<close>)

subsection \<open>Where a silent pass has been\<close>

lemma changed_claim_steps:
  assumes "claim_steps spec now proc host (body, r) (body', r')" and "\<not> changed r'"
  shows "body' = body" and "\<not> changed r" and "launches r' = launches r"
  using claim_steps_silent [OF assms] assms(2) by (auto simp: same_but_deferred_def)

lemma silent_instances:
  assumes "wf_spec spec" and "t \<in> set (d_tasks spec)" and "set insts \<subseteq> set (instances_of body t)"
    and "verdict = None \<or> verdict = Some (deps_verdict spec body t)"
    and "advance_instances spec t now proc host verdict insts (body, r) = (body', r')" and "\<not> changed r'"
    and "(key, mi, item) \<in> set insts" and "dict_get (b_tasks body) key = Some e"
  shows "\<exists>r1 r2. launches r1 = launches r \<and> \<not> changed r2 \<and>
    advance_task t key mi item now proc host (deps_verdict spec body t) (e, r1) = (e, r2)"
  using assms(3-7)
proof (induction insts arbitrary: r verdict)
  case (Cons inst rest)
  obtain k m i where inst: "inst = (k, m, i)" by (cases inst)
  show ?case
  proof (cases "dict_get (b_tasks body) k")
    case None
    then have "(key, mi, item) \<in> set rest" using Cons.prems(5) assms(8) inst by auto
    then show ?thesis using Cons.IH [of verdict r] Cons.prems None by (auto simp: inst)
  next
    case (Some f)
    let ?v = "if verdict = None \<and> e_state f = PENDING then Some (deps_verdict spec body t) else verdict"
    let ?dv = "deps_verdict spec body t"
    obtain f' r1 where a: "advance_task t k m i now proc host ?dv (f, r) = (f', r1)" by fastforce
    have same: "advance_task t k m i now proc host (the ?v) (f, r) = (f', r1)"
      using a advance_task_verdict [of f] Cons.prems(2) by (cases "e_state f = PENDING") (auto, metis)
    have rest: "advance_instances spec t now proc host ?v rest (put_entry k f' body, r1) = (body', r')"
      using Cons.prems(3) same by (simp add: inst Some Let_def)
    have mem: "(k, m, i) \<in> set (instances_of body t)" using Cons.prems(1) inst by simp
    have v: "?v = None \<or> ?v = Some ?dv" using Cons.prems(2) by auto
    have "claim_steps spec now proc host (put_entry k f' body, r1) (body', r')"
      using advance_instances_steps [OF assms(1,2), of rest "put_entry k f' body" ?v now proc host r1]
        Cons.prems(1) v rest own_instance_verdict [OF assms(1,2) mem] by auto
    note s = changed_claim_steps [OF this Cons.prems(4)]
    have eq: "f' = f" "launches r1 = launches r"
      using advance_task_silent [OF a s(2)] by (auto simp: same_but_deferred_def)
    have body: "put_entry k f' body = body" using dict_set_get_same [OF Some] eq by simp
    show ?thesis
    proof (cases "(key, mi, item) = inst")
      case True
      then show ?thesis using a s(2) eq inst Some assms(8) by auto
    next
      case False
      then show ?thesis
        using Cons.IH [of ?v r1] Cons.prems v rest body eq(2) by auto
    qed
  qed
qed simp

lemma silent_tasks:
  assumes "wf_spec spec" and "set ts \<subseteq> set (d_tasks spec)"
    and "fold (advance_spec_task spec now proc host) ts (body, r) = (body', r')" and "\<not> changed r'"
    and "t \<in> set ts"
  shows "\<exists>r1 r2. launches r1 = launches r \<and> \<not> changed r2 \<and> advance_spec_task spec now proc host t (body, r1) = (body, r2)"
  using assms(2,3,5)
proof (induction ts arbitrary: r)
  case (Cons u ts)
  obtain body1 r1 where a: "advance_spec_task spec now proc host u (body, r) = (body1, r1)" by fastforce
  have rest: "fold (advance_spec_task spec now proc host) ts (body1, r1) = (body', r')"
    using Cons.prems(2) a by simp
  have "claim_steps spec now proc host st (advance_spec_task spec now proc host x st)" if "x \<in> set ts" for x st
    by (rule advance_spec_task_steps [OF assms(1)]) (use Cons.prems(1) that in auto)
  then have "claim_steps spec now proc host (body1, r1) (fold (advance_spec_task spec now proc host) ts (body1, r1))"
    by (rule fold_steps)
  with rest have "claim_steps spec now proc host (body1, r1) (body', r')" by simp
  note s = changed_claim_steps [OF this assms(4)]
  have "claim_steps spec now proc host (body, r) (body1, r1)"
    using advance_spec_task_steps [OF assms(1), of u now proc host "(body, r)"] Cons.prems(1) a by simp
  note s1 = changed_claim_steps [OF this s(2)]
  show ?case
  proof (cases "t = u")
    case True
    then show ?thesis using a s(2) s1 by auto
  next
    case False
    then show ?thesis using Cons.IH [of r1] Cons.prems rest s1 by auto
  qed
qed simp

subsection \<open>A least unfinished task\<close>

definition unfinished :: "run_body \<Rightarrow> TaskSpec \<Rightarrow> bool" where
  "unfinished body t \<longleftrightarrow> (case consulted body t of None \<Rightarrow> True | Some ss \<Rightarrow> \<not> list_all terminal ss)"

lemma consulted_states_all:
  assumes "\<forall>t \<in> set ts. \<not> unfinished body t"
  shows "\<exists>states. consulted_states body ts = Some states \<and> list_all terminal states"
  using assms by (induction ts) (auto simp: unfinished_def split: option.splits)

lemma finished_effective:
  assumes "wf_spec spec" and "complete_run spec body" and "u \<in> set (d_tasks spec)" and "\<not> unfinished body u"
  shows "terminal (effective_state spec body (t_id u))"
proof -
  have u: "dict_get (by_id spec) (t_id u) = Some u" using wf_spec_id(2) [OF assms(1,3)] .
  obtain e where e: "dict_get (b_tasks body) (t_id u) = Some e"
    using assms(2,3) by (auto simp: complete_run_def has_entry_def)
  show ?thesis
  proof (cases "expand u = None \<or> dict_get (b_mapped body) (t_id u) = None")
    case True
    then have "terminal (e_state e)"
      using assms(4) e by (auto simp: unfinished_def consulted_def instances_of_def map_filter_def split: if_splits)
    then show ?thesis
      using True u e by (auto simp: effective_state_def mapped_group_state_def state_at_def)
  next
    case False
    then obtain m where m: "dict_get (b_mapped body) (t_id u) = Some m" by auto
    have "terminal (state_at body (task_display_key (t_id u) (Some i)))" if i: "i < length (m_items m)" for i
    proof -
      obtain f where f: "dict_get (b_tasks body) (task_display_key (t_id u) (Some i)) = Some f"
        using assms(2) m i by (fastforce simp: complete_run_def has_entry_def)
      have "(task_display_key (t_id u) (Some i), Some i, Some (m_items m ! i)) \<in> set (instances_of body u)"
        using False m i by (auto simp: instances_of_def)
      then have "e_state f \<in> set (map e_state (List.map_filter (\<lambda>(key, _, _). dict_get (b_tasks body) key)
          (instances_of body u)))" using f by (force simp: map_filter_def)
      then have "terminal (e_state f)"
        using assms(4) False m by (auto simp: unfinished_def consulted_def list_all_iff)
      then show ?thesis using f by (simp add: state_at_def)
    qed
    then have "list_all terminal (map (\<lambda>i. state_at body (task_display_key (t_id u) (Some i))) [0..<length (m_items m)])"
      by (simp add: list_all_iff)
    then show ?thesis
      using False u m by (auto simp: effective_state_def mapped_group_state_def terminal_def Let_def)
  qed
qed

lemma least_unfinished:
  assumes "wf_spec spec" and "t \<in> set (d_tasks spec)" and "unfinished body t"
  obtains u where "u \<in> set (d_tasks spec)" and "unfinished body u"
    and "\<And>v. v \<in> set (d_tasks spec) \<Longrightarrow> t_id v \<in> set (depends_on u) \<Longrightarrow> \<not> unfinished body v"
proof -
  let ?E = "dep_edges (d_tasks spec)" and ?N = "t_id ` {t \<in> set (d_tasks spec). unfinished body t}"
  have "?E \<subseteq> t_id ` set (d_tasks spec) \<times> t_id ` set (d_tasks spec)"
    using wf_specD(2) [OF assms(1)] by (fastforce simp: dep_edges_def edges_ok_def)
  then have "finite ?E" by (rule finite_subset) simp
  then have "wf ?E" using finite_acyclic_wf wf_specD(3) [OF assms(1)] by blast
  moreover have "t_id t \<in> ?N" using assms(2,3) by auto
  ultimately obtain x where x: "x \<in> ?N" and min: "\<And>y. (y, x) \<in> ?E \<Longrightarrow> y \<notin> ?N"
    by (rule wfE_min) blast
  from x obtain u where u: "u \<in> set (d_tasks spec)" "unfinished body u" "x = t_id u" by auto
  have "\<not> unfinished body v" if "v \<in> set (d_tasks spec)" "t_id v \<in> set (depends_on u)" for v
    using min [of "t_id v"] that u by (auto simp: dep_edges_def)
  with u that show thesis by blast
qed

lemma least_verdict:
  assumes "wf_spec spec" and "complete_run spec body" and "u \<in> set (d_tasks spec)"
    and "\<And>v. v \<in> set (d_tasks spec) \<Longrightarrow> t_id v \<in> set (depends_on u) \<Longrightarrow> \<not> unfinished body v"
  shows "d \<in> set (depends_on u) \<Longrightarrow> terminal (effective_state spec body d)" and "deps_verdict spec body u \<noteq> V_wait"
proof -
  show dep: "terminal (effective_state spec body d)" if "d \<in> set (depends_on u)" for d
    using dep_known [OF assms(1,3) that] finished_effective [OF assms(1,2)] assms(4) that by metis
  then have "list_all terminal (map (effective_state spec body)
      (filter (\<lambda>d. dict_get (b_tasks body) d \<noteq> None) (depends_on u)))"
    by (auto simp: list_all_iff)
  then show "deps_verdict spec body u \<noteq> V_wait" by (simp add: deps_verdict_def Let_def)
qed

lemma unfinished_instance:
  assumes "unfinished body u" and "expand u = None \<or> dict_get (b_mapped body) (t_id u) \<noteq> None"
  obtains key mi item e where "(key, mi, item) \<in> set (instances_of body u)"
    and "dict_get (b_tasks body) key = Some e" and "\<not> terminal (e_state e)"
proof -
  have "consulted body u = Some (map e_state (List.map_filter (\<lambda>(key, _, _). dict_get (b_tasks body) key)
      (instances_of body u)))"
    using assms(2) by (auto simp: consulted_def)
  then show thesis
    using assms(1) that by (auto simp: unfinished_def list_all_iff map_filter_def)
qed

lemma stuck_placeholder:
  assumes "propagate_placeholder spec u ex now (body, r) = (body', r')" and "\<not> changed r'"
    and "dict_get (b_tasks body) (t_id u) = Some e" and "e_state e = PENDING"
    and "terminal (effective_state spec body (from_task ex))"
  shows "effective_state spec body (from_task ex) = SUCCESS"
  using assms
  by (cases "effective_state spec body (from_task ex)")
    (auto simp: propagate_placeholder_def terminalise_task_def terminal_def Let_def)

text \<open>With nothing awaited, a silent pass leaves no task unfinished.\<close>

lemma silent_pass_finished:
  assumes "wf_spec spec" and "run_inv spec body hist" and "complete_run spec body" and "\<not> is_terminal_run body"
    and "tasks_awaiting_expansion spec body = []" and "\<forall>(k, e) \<in> set (b_tasks body). \<not> awaited now e"
    and "propagate_and_claim spec now proc host (body, empty_result) = (body1, r1)" and "\<not> changed r1"
    and "t \<in> set (d_tasks spec)"
  shows "\<not> unfinished body t"
proof
  assume "unfinished body t"
  then obtain u where u: "u \<in> set (d_tasks spec)" "unfinished body u"
    and least: "\<And>v. v \<in> set (d_tasks spec) \<Longrightarrow> t_id v \<in> set (depends_on u) \<Longrightarrow> \<not> unfinished body v"
    using least_unfinished [OF assms(1,9)] by blast
  note lv = least_verdict [OF assms(1,3) u(1) least]
  obtain r2 r3 where r2: "launches r2 = []" "\<not> changed r3"
    and adv: "advance_spec_task spec now proc host u (body, r2) = (body, r3)"
    using silent_tasks [OF assms(1) _ assms(7) [unfolded propagate_and_claim_def] assms(8) u(1)]
    by (auto simp: empty_result_def)
  show False
  proof (cases "expand u = None \<or> dict_get (b_mapped body) (t_id u) \<noteq> None")
    case True
    then obtain key mi item e where inst: "(key, mi, item) \<in> set (instances_of body u)"
      and e: "dict_get (b_tasks body) key = Some e" and nt: "\<not> terminal (e_state e)"
      using unfinished_instance [OF u(2)] by blast
    have "advance_instances spec u now proc host None (instances_of body u) (body, r2) = (body, r3)"
      using adv True by (auto simp: advance_spec_task_def split: option.splits if_splits)
    from silent_instances [OF assms(1) u(1) _ _ this r2(2) inst e] obtain r4 r5 where
      a: "launches r4 = []" "\<not> changed r5"
      "advance_task u key mi item now proc host (deps_verdict spec body u) (e, r4) = (e, r5)"
      using r2(1) by auto
    note ok = entry_ok_task [OF assms(1) run_inv_entry [OF assms(2) e] u(1) instance_key(1) [OF inst]]
    have "\<not> awaited now e" using assms(6) map_of_SomeD [OF e] by auto
    moreover have "\<not> placeholder u e" using ok(2) instance_key(2) [OF inst] by (auto simp: placeholder_def)
    ultimately show False using idle_instance [OF a(3,2,1) _ ok(3) _ nt] lv(2) by blast
  next
    case False
    then obtain ex where ex: "expand u = Some ex" and none: "dict_get (b_mapped body) (t_id u) = None" by auto
    obtain e where e: "dict_get (b_tasks body) (t_id u) = Some e"
      using assms(3) u(1) by (auto simp: complete_run_def has_entry_def)
    have nt: "\<not> terminal (e_state e)"
      using u(2) ex none e by (auto simp: unfinished_def consulted_def split: if_splits)
    note ok = entry_ok_task [OF assms(1) run_inv_entry [OF assms(2) e] u(1), of None, simplified]
    have p: "e_state e = PENDING"
      using ok nt none ex by (cases "e_state e") (auto simp: state_ok_def placeholder_def terminal_def)
    have "from_task ex \<in> set (depends_on u)" by (rule expand_source(1) [OF assms(1) u(1) ex])
    then have "effective_state spec body (from_task ex) = SUCCESS"
      using stuck_placeholder [OF _ r2(2) e p lv(1)] adv ex none by (simp add: advance_spec_task_def)
    then have "awaiting_task spec body u \<noteq> []" using ex none e p by (simp add: awaiting_task_def)
    then show False using assms(4,5) u(1) by (auto simp: tasks_awaiting_expansion_def)
  qed
qed

lemma pass_makes_progress:
  assumes "wf_spec spec" and "run_inv spec body hist" and "complete_run spec body" and "\<not> is_terminal_run body"
    and "tasks_awaiting_expansion spec body = []" and "\<forall>(k, e) \<in> set (b_tasks body). \<not> awaited now e"
  shows "changed (snd (claim_pass spec now proc host (body, empty_result)))"
proof (rule ccontr)
  assume nc: "\<not> changed (snd (claim_pass spec now proc host (body, empty_result)))"
  obtain body1 r1 where p: "propagate_and_claim spec now proc host (body, empty_result) = (body1, r1)" by fastforce
  have nc1: "\<not> changed r1"
    using nc by (auto simp: claim_pass_def p maybe_terminalise_def Let_def split: option.splits if_splits)
  have "claim_steps spec now proc host (body, empty_result) (body1, r1)"
    using propagate_steps [OF assms(1), of now proc host "(body, empty_result)"] p by simp
  from changed_claim_steps(1) [OF this nc1] have body1: "body1 = body" .
  obtain states where "consulted_states body (d_tasks spec) = Some states" "list_all terminal states"
    using consulted_states_all [of "d_tasks spec" body] silent_pass_finished [OF assms p nc1] by blast
  moreover have "b_state body \<noteq> run_outcome states"
    using assms(4) by (auto simp: is_terminal_run_def run_outcome_def)
  ultimately show False using nc by (simp add: claim_pass_def p body1 maybe_terminalise_def Let_def)
qed

end
