(* ===== verification/DagFinal.thy ===== *)
theory DagFinal
  imports DagProgress
begin

text \<open>
  Finished work stays finished: an interface (locale \<open>run_transform\<close>) for a change of the document
  that keeps the run invariant and leaves the terminal entries of real instances alone,
  interpreted on every transform of the run document.
\<close>

subsection \<open>Terminal entries\<close>

text \<open>An entry of a task instance, not of a group placeholder, in a terminal state.\<close>

definition final_entry :: "DagSpec \<Rightarrow> task_entry \<Rightarrow> bool" where
  "final_entry spec e \<longleftrightarrow>
     terminal (e_state e) \<and>
     (case dict_get (by_id spec) (e_id e) of None \<Rightarrow> False | Some t \<Rightarrow> \<not> placeholder t e)"

lemma final_terminal: "final_entry spec e \<Longrightarrow> terminal (e_state e)"
  by (simp add: final_entry_def)

lemma add_instances_other:
  assumes "\<And>j. key \<noteq> task_display_key (t_id t) (Some j)"
  shows "dict_get (b_tasks (add_instances t now i items body)) key = dict_get (b_tasks body) key"
  using assms by (induction t now i items body rule: add_instances.induct) auto

lemma expansion_final:
  assumes "wf_spec spec" and "run_inv spec body hist" and "dict_get (b_tasks body) key = Some e"
    and "final_entry spec e" and "apply_expansion spec now tid items_opt (body, r) = (body', r')"
  shows "dict_get (b_tasks body') key = Some e"
  using assms(1,5)
proof (cases rule: apply_expansion_cases)
  case keep
  then show ?thesis using assms(3) by simp
next
  case (stop ph fr e')
  have "key \<noteq> tid" using stop(1,2) assms(3) final_terminal [OF assms(4)] by (auto simp: terminal_def)
  then show ?thesis using stop(4) assms(3) by simp
next
  case (expanded t ex items)
  have none: "dict_get (b_mapped body) (t_id t) = None" using expanded(2,4) by simp
  have inst: "key \<noteq> task_display_key (t_id t) (Some j)" for j
    using mapped_key_fresh [OF assms(1,2) expanded(1) none, of j] assms(3) by auto
  have "key \<noteq> t_id t"
  proof
    assume "key = t_id t"
    then have "dict_get (by_id spec) (e_id e) = Some t" "mapIndex e = None"
      using entry_ok_task [OF assms(1) run_inv_entry [OF assms(2,3)] expanded(1), of None] by simp_all
    then show False using assms(4) expanded(3) by (simp add: final_entry_def placeholder_def)
  qed
  then show ?thesis
    using assms(3) by (simp add: expanded(8) expanded_body_def Let_def add_instances_other [OF inst] split: option.splits)
qed

lemma expansions_final:
  assumes "wf_spec spec" and "run_inv spec body hist" and "dict_get (b_tasks body) key = Some e" and "final_entry spec e"
  shows "dict_get (b_tasks (fst (apply_expansions spec exps now (body, r)))) key = Some e"
  using assms(2,3) unfolding apply_expansions_def
proof (induction exps arbitrary: body r hist)
  case (Cons x exps)
  obtain tid items where x: "x = (tid, items)" by (cases x)
  obtain body' r' where a: "apply_expansion spec now tid items (body, r) = (body', r')" by fastforce
  have "run_inv spec body' (hist @ drop (length (launches r)) (launches r'))"
    using apply_expansion_inv [OF assms(1), of "(body, r)" now tid items] Cons.prems(1) a
    by (auto simp: advances_def)
  with Cons.IH expansion_final [OF assms(1) Cons.prems assms(4) a] show ?case by (simp add: x a)
qed simp

lemma claim_pass_le:
  assumes "wf_spec spec"
  shows "body_le body (fst (claim_pass spec now proc host (body, r)))"
proof -
  obtain body1 r1 where p: "propagate_and_claim spec now proc host (body, r) = (body1, r1)" by fastforce
  have "body_le body body1"
    using claim_steps_le propagate_steps [OF assms, of now proc host "(body, r)"] p by auto
  moreover have "b_tasks (fst (maybe_terminalise spec (body1, r1))) = b_tasks body1"
    "b_mapped (fst (maybe_terminalise spec (body1, r1))) = b_mapped body1"
    by (auto simp: maybe_terminalise_def Let_def split: option.splits)
  ultimately show ?thesis by (simp add: claim_pass_def p body_le_def)
qed

lemma le_final: "body_le body body' \<Longrightarrow> dict_get (b_tasks body) key = Some e \<Longrightarrow> final_entry spec e \<Longrightarrow>
    dict_get (b_tasks body') key = Some e"
  by (simp add: body_le_def final_entry_def)

lemma full_pass_final:
  assumes "wf_spec spec" and "run_inv spec body hist" and "dict_get (b_tasks body) key = Some e" and "final_entry spec e"
  shows "dict_get (b_tasks (fst (full_pass spec now proc host exps body))) key = Some e"
proof -
  obtain b0 r0 where a: "apply_expansions spec exps now (body, empty_result) = (b0, r0)" by fastforce
  have "dict_get (b_tasks b0) key = Some e"
    using expansions_final [OF assms, of exps now empty_result] a by simp
  from le_final [OF claim_pass_le [OF assms(1)] this assms(4)] show ?thesis by (simp add: full_pass_def a)
qed

lemma reconcile_final:
  assumes "dict_get (b_tasks body) key = Some e" and "final_entry spec e"
  shows "dict_get (b_tasks (fst (reconcile_body spec now proc host alive body))) key = Some e"
proof -
  have "recovered spec now proc host alive e = e"
    using final_terminal [OF assms(2)] by (auto simp: recovered_def crash_victim_def terminal_def)
  then show ?thesis using assms(1) by (simp add: reconcile_body_def split_beta reconcile_entries_get)
qed

subsection \<open>The interface of a transform\<close>

text \<open>What a read-modify-write leaves in the store when the document exists.\<close>

definition stored :: "run_body \<Rightarrow> run_body doc_write \<times> 'r \<Rightarrow> run_body" where
  "stored body wr = (case written (Some body) (fst wr) of None \<Rightarrow> body | Some body' \<Rightarrow> body')"

locale run_transform =
  fixes eff :: "DagSpec \<Rightarrow> run_body \<Rightarrow> run_body"
  assumes keeps_inv: "wf_spec spec \<Longrightarrow> run_inv spec body hist \<Longrightarrow> \<exists>new. run_inv spec (eff spec body) (hist @ new)"
    and keeps_final: "wf_spec spec \<Longrightarrow> run_inv spec body hist \<Longrightarrow> dict_get (b_tasks body) key = Some e \<Longrightarrow>
      final_entry spec e \<Longrightarrow> dict_get (b_tasks (eff spec body)) key = Some e"
begin

lemma repeated_inv:
  assumes "wf_spec spec" and "run_inv spec body hist"
  shows "\<exists>new. run_inv spec ((eff spec ^^ n) body) (hist @ new)"
proof (induction n)
  case 0
  then show ?case using assms(2) by (auto intro: exI [of _ "[]"])
next
  case (Suc n)
  then obtain new where "run_inv spec ((eff spec ^^ n) body) (hist @ new)" by blast
  from keeps_inv [OF assms(1) this] show ?case by (metis append.assoc funpow.simps(2) comp_apply)
qed

lemma repeated_final:
  assumes "wf_spec spec" and "run_inv spec body hist" and "dict_get (b_tasks body) key = Some e" and "final_entry spec e"
  shows "dict_get (b_tasks ((eff spec ^^ n) body)) key = Some e"
proof (induction n)
  case (Suc n)
  obtain new where "run_inv spec ((eff spec ^^ n) body) (hist @ new)"
    using repeated_inv [OF assms(1,2)] by blast
  from keeps_final [OF assms(1) this Suc assms(4)] show ?case by simp
qed (use assms(3) in simp)

end

lemma stored_step:
  assumes "run_step spec (body, hist) (stored body wr, hist @ new)" and "wf_spec spec" and "run_inv spec body hist"
  shows "\<exists>new. run_inv spec (stored body wr) (hist @ new)"
  using run_step_inv [OF assms(2,1,3)] by blast

lemma stored_written: "fst wr \<noteq> DOC_DELETE \<Longrightarrow> written (Some body) (fst wr) = Some (stored body wr)"
  by (cases "fst wr") (simp_all add: stored_def)

lemma plan_no_delete: "fst (plan_and_claim spec now proc host exps b) \<noteq> DOC_DELETE"
  by (auto simp: plan_and_claim_def split: option.splits prod.splits)

lemma advance_no_delete: "fst (reconcile_and_plan spec now proc host alive b) \<noteq> DOC_DELETE"
  by (auto simp: reconcile_and_plan_def Let_def split: option.splits prod.splits)

lemma reconcile_no_delete: "fst (reconcile_crashed spec now proc host alive b) \<noteq> DOC_DELETE"
  by (auto simp: reconcile_crashed_def split: option.splits prod.splits)

lemma pids_no_delete: "fst (set_task_pids ms now b) \<noteq> DOC_DELETE"
  by (auto simp: set_task_pids_def split: option.splits prod.splits)

lemma marks_no_delete: "fst (mark_tasks_finished ms now b) \<noteq> DOC_DELETE"
  by (auto simp: mark_tasks_finished_def split: option.splits prod.splits)

lemma approval_no_delete: "fst (apply_approval key ok who now rs b) \<noteq> DOC_DELETE"
  by (auto simp: apply_approval_def Let_def split: option.splits)

lemma stored_plan:
  "stored body (plan_and_claim spec now proc host exps (Some body)) \<in>
     {body, stamp now (fst (full_pass spec now proc host exps body))}"
  by (auto simp: stored_def plan_and_claim_def split: prod.splits)

interpretation plan: run_transform "\<lambda>spec body. stored body (plan_and_claim spec now proc host exps (Some body))"
  for now proc host exps
proof (unfold_locales, goal_cases)
  case (1 spec body hist)
  obtain w res where p: "plan_and_claim spec now proc host exps (Some body) = (w, res)" by fastforce
  show ?case
    using plan_inv [OF 1 p] stored_written [of "(w, res)" body] plan_no_delete [of spec now proc host exps "Some body"] p
    by auto
next
  case (2 spec body hist key e)
  show ?case
    using stored_plan [of body spec now proc host exps] full_pass_final [OF 2, of now proc host exps] 2(3) by auto
qed

interpretation recover: run_transform "\<lambda>spec body. stored body (reconcile_crashed spec now proc host alive (Some body))"
  for now proc host alive
proof (unfold_locales, goal_cases)
  case (1 spec body hist)
  show ?case
    using 1(2) reconcile_inv [OF 1(2), of now proc host alive]
    by (auto simp: stored_def reconcile_crashed_def split: prod.splits intro: exI [of _ "[]"])
next
  case (2 spec body hist key e)
  show ?case
    using 2(3) reconcile_final [OF 2(3,4), of now proc host alive]
    by (auto simp: stored_def reconcile_crashed_def split: prod.splits)
qed

interpretation advance: run_transform "\<lambda>spec body. stored body (reconcile_and_plan spec now proc host alive (Some body))"
  for now proc host alive
proof (unfold_locales, goal_cases)
  case (1 spec body hist)
  obtain w res where p: "reconcile_and_plan spec now proc host alive (Some body) = (w, res)" by fastforce
  show ?case
    using advance_inv [OF 1 p] stored_written [of "(w, res)" body] advance_no_delete [of spec now proc host alive "Some body"] p
    by auto
next
  case (2 spec body hist key e)
  obtain working n where rb: "reconcile_body spec now proc host alive body = (working, n)" by fastforce
  have "dict_get (b_tasks working) key = Some e" using reconcile_final [OF 2(3,4), of now proc host alive] rb by simp
  moreover have "dict_get (b_tasks (fst (claim_pass spec now proc host (working, empty_result)))) key = Some e"
    by (rule le_final [OF claim_pass_le [OF 2(1)] calculation 2(4)])
  ultimately show ?case
    using 2(3) rb by (auto simp: stored_def reconcile_and_plan_def Let_def split: prod.splits)
qed

interpretation stamp_pids: run_transform "\<lambda>spec body. stored body (set_task_pids ms now (Some body))"
  for ms now
proof (unfold_locales, goal_cases)
  case (1 spec body hist)
  have "run_step spec (body, hist) (stored body (set_task_pids ms now (Some body)), hist)"
    by (rule rs_pids [OF prod.collapse [symmetric] stored_written [OF pids_no_delete]])
  from run_step_inv [OF 1(1) this 1(2)] show ?case by (auto intro: exI [of _ "[]"])
next
  case (2 spec body hist key e)
  show ?case
    by (rule pids.batch_terminal [OF 2(3) final_terminal [OF 2(4)] stored_written [OF pids_no_delete]])
qed

text \<open>Completions of instances that belong to the specification.\<close>

definition finish_own :: "finish_mark list \<Rightarrow> real \<Rightarrow> DagSpec \<Rightarrow> run_body \<Rightarrow> run_body" where
  "finish_own ms now spec body = stored body (mark_tasks_finished (filter (mark_for spec) ms) now (Some body))"

interpretation finish: run_transform "finish_own ms now" for ms now
proof (unfold_locales, goal_cases)
  case (1 spec body hist)
  have "run_step spec (body, hist) (finish_own ms now spec body, hist)"
    unfolding finish_own_def
    by (rule rs_finish [OF prod.collapse [symmetric] _ stored_written [OF marks_no_delete]]) (simp add: list_all_iff)
  from run_step_inv [OF 1(1) this 1(2)] show ?case by (auto intro: exI [of _ "[]"])
next
  case (2 spec body hist key e)
  show ?case
    unfolding finish_own_def
    by (rule marks.batch_terminal [OF 2(3) final_terminal [OF 2(4)] stored_written [OF marks_no_delete]])
qed

interpretation decide: run_transform "\<lambda>spec body. stored body (apply_approval taskkey approved who now rs (Some body))"
  for taskkey approved who now rs
proof (unfold_locales, goal_cases)
  case (1 spec body hist)
  have "run_step spec (body, hist) (stored body (apply_approval taskkey approved who now rs (Some body)), hist)"
    by (rule rs_approval [OF prod.collapse [symmetric] stored_written [OF approval_no_delete]])
  from run_step_inv [OF 1(1) this 1(2)] show ?case by (auto intro: exI [of _ "[]"])
next
  case (2 spec body hist key e)
  then show ?case
    using final_terminal [OF 2(4)]
    by (auto simp: stored_def apply_approval_def Let_def terminal_def split: option.splits)
qed

lemma stored_eq: "written (Some body) w = Some body' \<Longrightarrow> stored body (w, res) = body'"
  by (simp add: stored_def)

lemma run_step_final:
  assumes "wf_spec spec" and "run_inv spec body hist" and "run_step spec (body, hist) (body', hist')"
    and "dict_get (b_tasks body) key = Some e" and "final_entry spec e"
  shows "dict_get (b_tasks body') key = Some e"
  using assms(3)
proof (cases rule: run_step.cases)
  case (rs_plan now proc host exps w res)
  then show ?thesis using plan.keeps_final [OF assms(1,2,4,5), of now proc host exps] by (simp add: stored_eq)
next
  case (rs_advance now proc host alive w rres)
  then show ?thesis using advance.keeps_final [OF assms(1,2,4,5), of now proc host alive] by (simp add: stored_eq)
next
  case (rs_reconcile now proc host alive w n)
  then show ?thesis using recover.keeps_final [OF assms(1,2,4,5), of now proc host alive] by (simp add: stored_eq)
next
  case (rs_pids pms now w n)
  then show ?thesis using stamp_pids.keeps_final [OF assms(1,2,4,5), of pms now] by (simp add: stored_eq)
next
  case (rs_finish fms now w ks)
  then show ?thesis
    using finish.keeps_final [OF assms(1,2,4,5), of fms now] by (simp add: finish_own_def list_all_iff stored_eq)
next
  case (rs_approval k approved who now rs w ares)
  then show ?thesis using decide.keeps_final [OF assms(1,2,4,5), of k approved who now rs] by (simp add: stored_eq)
qed

end
