(* ===== verification/StateDocs.thy ===== *)
theory StateDocs
  imports StateLease
begin

text \<open>
  Mutable documents of the filesystem store (\<open>state.py\<close>): one file per key inside one directory
  per namespace, rewritten by a read-modify-write under the document's lock.  The directory is
  modelled file by file, so the listing of keys and documents is a definition too.  What the
  clients of the store rely on is stated in the locale \<open>document_store\<close>: a mutation that returns
  has applied its transform to the current document and stored what it asked for, one that raises
  has stored nothing, and other documents are not touched.
\<close>

subsection \<open>Files and directories\<close>

text \<open>
  A document file holds a body, or nothing the store accepts (corrupt content, another schema
  version).  A namespace directory exists once something was written into it.
\<close>

type_synonym 'b doc_dir = "'b option dict"
type_synonym 'b docs = "string \<Rightarrow> 'b doc_dir option"

datatype 'e doc_error = StoreFailed store_error | UnsupportedValue | Raised 'e

definition read_doc_file :: "io \<Rightarrow> bool \<Rightarrow> 'b option option \<Rightarrow> (store_error, 'b option) result" where
  "read_doc_file env strict f =
     (if \<not> read_ok env then (if strict then Inl DocumentUnreadable else Inr None)
      else (case f of
              None \<Rightarrow> Inr None
            | Some None \<Rightarrow> if strict then Inl DocumentUnreadable else Inr None
            | Some (Some body) \<Rightarrow> Inr (Some body)))"

definition files_of :: "'b docs \<Rightarrow> string \<Rightarrow> 'b doc_dir" where
  "files_of docs ns = (case docs ns of None \<Rightarrow> [] | Some files \<Rightarrow> files)"

subsection \<open>Operations\<close>

definition read_document :: "(string \<Rightarrow> string) \<Rightarrow> io \<Rightarrow> string \<Rightarrow> string \<Rightarrow> 'b docs \<Rightarrow> 'b option" where
  "read_document sha256_hex env namespace key docs =
     (case read_doc_file env False
             (dict_get (files_of docs (fs_safe sha256_hex namespace)) (fs_safe sha256_hex key)) of
        Inl _ \<Rightarrow> None
      | Inr body \<Rightarrow> body)"

text \<open>
  \<open>_mutate_document_sync\<close>.  The transform may raise; \<open>portable\<close> says which bodies the serialiser
  accepts.  A failed write or unlink raises and leaves the file as it was; unlinking a file that is
  not there is not a failure.
\<close>

definition mutate_document ::
  "(string \<Rightarrow> string) \<Rightarrow> ('b \<Rightarrow> bool) \<Rightarrow> io \<Rightarrow> string \<Rightarrow> string \<Rightarrow>
   ('b option \<Rightarrow> ('e, 'b doc_write \<times> 'r) result) \<Rightarrow> 'b docs \<Rightarrow>
   'b docs \<times> ('e doc_error, 'b option \<times> 'r) result" where
  "mutate_document sha256_hex portable env namespace key transform docs =
     (if \<not> lock_ok env then (docs, Inl (StoreFailed StoreOSError))
      else (let nt = fs_safe sha256_hex namespace; kt = fs_safe sha256_hex key;
                files = files_of docs nt; docs1 = docs(nt \<mapsto> files)
            in case read_doc_file env True (dict_get files kt) of
                 Inl e \<Rightarrow> (docs1, Inl (StoreFailed e))
               | Inr current \<Rightarrow>
                   (case transform current of
                      Inl e \<Rightarrow> (docs1, Inl (Raised e))
                    | Inr (DOC_KEEP, r) \<Rightarrow> (docs1, Inr (current, r))
                    | Inr (DOC_DELETE, r) \<Rightarrow>
                        if current = None then (docs1, Inr (None, r))
                        else if write_ok env then (docs1(nt \<mapsto> AList.delete kt files), Inr (None, r))
                        else (docs1, Inl (StoreFailed StoreOSError))
                    | Inr (DOC_PUT body, r) \<Rightarrow>
                        if \<not> portable body then (docs1, Inl UnsupportedValue)
                        else if write_ok env then (docs1(nt \<mapsto> dict_set kt (Some body) files), Inr (Some body, r))
                        else (docs1, Inl (StoreFailed StoreOSError)))))"

definition delete_transform :: "'b option \<Rightarrow> ('e, 'b doc_write \<times> bool) result" where
  "delete_transform current = Inr (DOC_DELETE, current \<noteq> None)"

definition delete_document ::
  "(string \<Rightarrow> string) \<Rightarrow> ('b \<Rightarrow> bool) \<Rightarrow> io \<Rightarrow> string \<Rightarrow> string \<Rightarrow> 'b docs \<Rightarrow>
   'b docs \<times> ('e doc_error, bool) result" where
  "delete_document sha256_hex portable env namespace key docs =
     (case mutate_document sha256_hex portable env namespace key delete_transform docs of
        (docs', r) \<Rightarrow> (docs', bind_result r (\<lambda>(_, existed). Inr existed)))"

text \<open>
  Listings.  \<open>listed\<close> is the outcome of reading the directory, \<open>envs\<close> of reading each file; files
  sort by their names, suffix included.
\<close>

definition list_documents ::
  "(string \<Rightarrow> string) \<Rightarrow> bool \<Rightarrow> (string \<Rightarrow> io) \<Rightarrow> string \<Rightarrow> 'b docs \<Rightarrow> (store_error, 'b list) result" where
  "list_documents sha256_hex listed envs namespace docs =
     (if \<not> listed then Inl StoreOSError
      else (let files = files_of docs (fs_safe sha256_hex namespace)
            in Inr (List.map_filter
                 (\<lambda>t. case read_doc_file (envs t) False (dict_get files t) of Inl _ \<Rightarrow> None | Inr body \<Rightarrow> body)
                 (sort_key (\<lambda>t. t @ ''.doc'') (dict_keys files)))))"

text \<open>Strict UTF-8, which rejects overlong forms, surrogates and values past U+10FFFF.\<close>

abbreviation byte_in :: "nat \<Rightarrow> nat \<Rightarrow> char \<Rightarrow> bool" where
  "byte_in lo hi c \<equiv> lo \<le> code_of c \<and> code_of c \<le> hi"

definition lead3 :: "char \<Rightarrow> char \<Rightarrow> bool" where
  "lead3 a b \<longleftrightarrow> byte_in 225 236 a \<and> byte_in 128 191 b \<or> byte_in 238 239 a \<and> byte_in 128 191 b \<or>
     code_of a = 224 \<and> byte_in 160 191 b \<or> code_of a = 237 \<and> byte_in 128 159 b"

definition lead4 :: "char \<Rightarrow> char \<Rightarrow> bool" where
  "lead4 a b \<longleftrightarrow> byte_in 241 243 a \<and> byte_in 128 191 b \<or> code_of a = 240 \<and> byte_in 144 191 b \<or>
     code_of a = 244 \<and> byte_in 128 143 b"

fun valid_utf8 :: "string \<Rightarrow> bool" where
  "valid_utf8 [] = True"
| "valid_utf8 (a # s) =
     (if code_of a < 128 then valid_utf8 s
      else (case s of
              [] \<Rightarrow> False
            | b # s1 \<Rightarrow>
                if byte_in 194 223 a then byte_in 128 191 b \<and> valid_utf8 s1
                else (case s1 of
                        [] \<Rightarrow> False
                      | c # s2 \<Rightarrow>
                          if lead3 a b then byte_in 128 191 c \<and> valid_utf8 s2
                          else (case s2 of
                                  [] \<Rightarrow> False
                                | d # s3 \<Rightarrow> lead4 a b \<and> byte_in 128 191 c \<and> byte_in 128 191 d \<and> valid_utf8 s3))))"

fun decode_keys :: "string list \<Rightarrow> string list option" where
  "decode_keys [] = Some []"
| "decode_keys (t # ts) =
     (if truncated t then None
      else if \<not> valid_utf8 (unquote t) then None
      else map_option (\<lambda>ks. unquote t # ks) (decode_keys ts))"

definition list_document_keys ::
  "(string \<Rightarrow> string) \<Rightarrow> bool \<Rightarrow> string \<Rightarrow> 'b docs \<Rightarrow> string list option" where
  "list_document_keys sha256_hex listed namespace docs =
     (case docs (fs_safe sha256_hex namespace) of
        None \<Rightarrow> if listed then Some [] else None
      | Some files \<Rightarrow> if listed then map_option sort (decode_keys (dict_keys files)) else None)"

subsection \<open>The store's contract\<close>

text \<open>What the clients of the document store rely on, for one result type of their transforms.\<close>

locale document_store =
  fixes stored :: "'s \<Rightarrow> string \<Rightarrow> string \<Rightarrow> 'b option"
    and mutate :: "'env \<Rightarrow> string \<Rightarrow> string \<Rightarrow> ('b option \<Rightarrow> ('e, 'b doc_write \<times> 'r) result) \<Rightarrow> 's \<Rightarrow>
                   's \<times> ('x, 'b option \<times> 'r) result"
    and apart :: "string \<times> string \<Rightarrow> string \<times> string \<Rightarrow> bool"
  assumes commits: "mutate env ns k f s = (s', Inr (b, r)) \<Longrightarrow>
      \<exists>w. f (stored s ns k) = Inr (w, r) \<and> stored s' ns k = written (stored s ns k) w \<and> b = stored s' ns k"
    and aborts: "mutate env ns k f s = (s', Inl x) \<Longrightarrow> stored s' ns k = stored s ns k"
    and frame: "mutate env ns k f s = (s', y) \<Longrightarrow> apart (ns, k) (ns', k') \<Longrightarrow> stored s' ns' k' = stored s ns' k'"
begin

text \<open>
  The life of one document: operations of its clients, each with the result it got, and anything
  else that leaves the document alone.
\<close>

inductive history ::
  "string \<Rightarrow> string \<Rightarrow> ('a \<Rightarrow> 'b option \<Rightarrow> ('e, 'b doc_write \<times> 'r) result) \<Rightarrow> 's \<Rightarrow>
   ('a \<times> ('x, 'b option \<times> 'r) result) list \<Rightarrow> 's \<Rightarrow> bool"
  for ns k act s
where
  start: "history ns k act s [] s"
| operation: "history ns k act s evs t \<Longrightarrow> mutate env ns k (act a) t = (t', y) \<Longrightarrow>
    history ns k act s (evs @ [(a, y)]) t'"
| elsewhere: "history ns k act s evs t \<Longrightarrow> stored t' ns k = stored t ns k \<Longrightarrow> history ns k act s evs t'"

lemma history_append:
  assumes "history ns k act t evs' u" and "history ns k act s evs t"
  shows "history ns k act s (evs @ evs') u"
  using assms
proof induction
  case (operation evs' t' env a t'' y)
  then show ?case using history.operation [of ns k act s "evs @ evs'" t' env a t'' y] by simp
qed (auto intro: history.elsewhere)

text \<open>A mutation changes its document as its transform says or not at all.\<close>

lemma mutate_cases:
  assumes "mutate env ns k f s = (s', y)"
  obtains (raised) x where "y = Inl x" "stored s' ns k = stored s ns k"
  | (returned) w r where "y = Inr (stored s' ns k, r)" "f (stored s ns k) = Inr (w, r)"
      "stored s' ns k = written (stored s ns k) w"
proof (cases y)
  case (Inl x)
  with assms aborts raised show ?thesis by metis
next
  case (Inr br)
  obtain b r where "y = Inr (b, r)" using Inr by (cases br) auto
  with assms commits returned show ?thesis by metis
qed

text \<open>A relation between the answers so far and the document that every operation keeps holds throughout.\<close>

lemma history_trace:
  assumes "history ns k act s evs t" and "I [] (stored s ns k)"
    and raised: "\<And>evs v a x. I evs v \<Longrightarrow> I (evs @ [(a, Inl x)]) v"
    and returned: "\<And>evs v a w r. I evs v \<Longrightarrow> act a v = Inr (w, r) \<Longrightarrow>
      (a, Inr (written v w, r)) \<in> set all \<Longrightarrow> I (evs @ [(a, Inr (written v w, r))]) (written v w)"
    and "set evs \<subseteq> set all"
  shows "I evs (stored t ns k)"
  using assms(1,5)
proof induction
  case start
  show ?case by (rule assms(2))
next
  case (operation evs t env a t' y)
  then have IH: "I evs (stored t ns k)" by simp
  from operation(2) show ?case
  proof (cases rule: mutate_cases)
    case (raised x)
    then show ?thesis using assms(3) [OF IH] by simp
  next
    case (returned w r)
    then show ?thesis using assms(4) [OF IH returned(2)] operation(4) by simp
  qed
next
  case (elsewhere evs t t')
  then show ?case by simp
qed

text \<open>A property of the document that every operation keeps is an invariant.\<close>

lemma history_invariant:
  assumes "history ns k act s evs t" and "I (stored s ns k)"
    and "\<And>a v w r. I v \<Longrightarrow> act a v = Inr (w, r) \<Longrightarrow> I (written v w)"
  shows "I (stored t ns k)"
  using assms(1)
proof induction
  case start
  show ?case by (rule assms(2))
next
  case (operation evs t env a t' y)
  from operation(2) show ?case
    by (cases rule: mutate_cases) (use operation(3) assms(3) in auto)
next
  case (elsewhere evs t t')
  then show ?case by simp
qed

text \<open>
  First come, first served: when an operation is answered \<open>fresh\<close> only on a document that is not
  taken and leaves it taken, and none frees it, at most one operation is answered so.
\<close>

lemma history_once:
  assumes "history ns k act s evs t"
    and fresh: "\<And>a v w r. act a v = Inr (w, r) \<Longrightarrow> fresh r \<Longrightarrow> \<not> taken v \<and> taken (written v w)"
    and kept: "\<And>a v w r. act a v = Inr (w, r) \<Longrightarrow> taken v \<Longrightarrow> taken (written v w)"
  shows "length (filter (\<lambda>e. case snd e of Inl _ \<Rightarrow> False | Inr (_, r) \<Rightarrow> fresh r) evs) \<le>
           (if taken (stored t ns k) then 1 else 0)"
  using assms(1)
proof induction
  case start
  show ?case by simp
next
  case (operation evs t env a t' y)
  from operation(2) show ?case
  proof (cases rule: mutate_cases)
    case (raised x)
    with operation(3) show ?thesis by simp
  next
    case (returned w r)
    then show ?thesis using operation(3) fresh [OF returned(2)] kept [OF returned(2)] by (auto split: if_splits)
  qed
next
  case (elsewhere evs t t')
  then show ?case by simp
qed

end

subsection \<open>The filesystem store keeps the contract\<close>

text \<open>The body a reader that can read finds; documents with different tokens are different files.\<close>

definition doc_stored :: "(string \<Rightarrow> string) \<Rightarrow> 'b docs \<Rightarrow> string \<Rightarrow> string \<Rightarrow> 'b option" where
  "doc_stored h docs ns k =
     (case dict_get (files_of docs (fs_safe h ns)) (fs_safe h k) of Some (Some body) \<Rightarrow> Some body | _ \<Rightarrow> None)"

definition doc_apart :: "(string \<Rightarrow> string) \<Rightarrow> string \<times> string \<Rightarrow> string \<times> string \<Rightarrow> bool" where
  "doc_apart h p q \<longleftrightarrow> fs_safe h (fst p) \<noteq> fs_safe h (fst q) \<or> fs_safe h (snd p) \<noteq> fs_safe h (snd q)"

lemma read_doc_strict:
  "read_doc_file env True f = Inr current \<Longrightarrow>
     current = (case f of Some (Some body) \<Rightarrow> Some body | _ \<Rightarrow> None) \<and> (f = None \<longleftrightarrow> current = None)"
  by (auto simp: read_doc_file_def split: if_splits option.splits)

lemma files_of_upd [simp]: "files_of (docs(nt \<mapsto> files)) t = (if t = nt then files else files_of docs t)"
  by (simp add: files_of_def)

lemma files_of_same [simp]: "files_of (docs(nt \<mapsto> files_of docs nt)) t = files_of docs t"
  by simp

text \<open>
  What a mutation does to the directory: nothing, answering with the current document when the
  transform kept it; or one file is written or removed.
\<close>

definition put_file :: "string \<Rightarrow> 'b option \<Rightarrow> 'b doc_dir \<Rightarrow> 'b doc_dir" where
  "put_file kt b files =
     (case b of None \<Rightarrow> AList.delete kt files | Some body \<Rightarrow> dict_set kt (Some body) files)"

lemma put_file_get:
  "dict_get (put_file kt b files) t =
     (if t = kt then (case b of None \<Rightarrow> None | Some body \<Rightarrow> Some (Some body)) else dict_get files t)"
  by (simp add: put_file_def delete_conv' split: option.splits)

lemma doc_stored_put:
  "doc_stored h (docs(fs_safe h ns \<mapsto> put_file (fs_safe h k) b (files_of docs (fs_safe h ns)))) ns k = b"
  by (simp add: doc_stored_def put_file_get split: option.splits)

lemma doc_stored_same: "files_of docs' = files_of docs \<Longrightarrow> doc_stored h docs' ns k = doc_stored h docs ns k"
  by (simp add: doc_stored_def)

lemma mutate_document_cases:
  assumes "mutate_document h ok env ns k f docs = (docs', y)"
  obtains (raised) x where "y = Inl x" "files_of docs' = files_of docs"
  | (kept) w r where "y = Inr (doc_stored h docs ns k, r)" "files_of docs' = files_of docs"
      "f (doc_stored h docs ns k) = Inr (w, r)" "written (doc_stored h docs ns k) w = doc_stored h docs ns k"
  | (changed) w r where "y = Inr (written (doc_stored h docs ns k) w, r)"
      "f (doc_stored h docs ns k) = Inr (w, r)"
      "docs' = docs(fs_safe h ns \<mapsto>
         put_file (fs_safe h k) (written (doc_stored h docs ns k) w) (files_of docs (fs_safe h ns)))"
proof (cases "lock_ok env")
  case False
  with assms raised show ?thesis by (auto simp: mutate_document_def)
next
  case True
  let ?f = "dict_get (files_of docs (fs_safe h ns)) (fs_safe h k)"
  let ?same = "docs(fs_safe h ns \<mapsto> files_of docs (fs_safe h ns))"
  have same: "files_of ?same = files_of docs" by (simp add: fun_eq_iff)
  show ?thesis
  proof (cases "read_doc_file env True ?f")
    case (Inl e)
    with assms True have "y = Inl (StoreFailed e)" "docs' = ?same" by (simp_all add: mutate_document_def Let_def)
    with raised same show ?thesis by simp
  next
    case read: (Inr current)
    from read_doc_strict [OF this] have cur: "current = doc_stored h docs ns k" by (simp add: doc_stored_def)
    note eqs = mutate_document_def Let_def
    show ?thesis
    proof (cases "f current")
      case (Inl e)
      with assms True read have "y = Inl (Raised e)" "docs' = ?same" by (simp_all add: eqs)
      with raised same show ?thesis by simp
    next
      case (Inr wr)
      then obtain w r where wr: "f current = Inr (w, r)" by (cases wr) auto
      show ?thesis
      proof (cases w)
        case DOC_KEEP
        with assms True read wr have "y = Inr (current, r)" "docs' = ?same" by (simp_all add: eqs)
        with kept same wr cur DOC_KEEP show ?thesis by simp
      next
        case DOC_DELETE
        with assms True read wr
        have "y = Inr (None, r) \<and> docs' = ?same \<and> current = None \<or> y = Inl (StoreFailed StoreOSError) \<and> docs' = ?same \<or>
          y = Inr (None, r) \<and> docs' = docs(fs_safe h ns \<mapsto> AList.delete (fs_safe h k) (files_of docs (fs_safe h ns)))"
          by (simp add: eqs split: if_splits)
        with kept raised changed same wr cur DOC_DELETE show ?thesis by (auto simp: put_file_def)
      next
        case (DOC_PUT body)
        with assms True read wr
        have "(\<exists>x. y = Inl x \<and> docs' = ?same) \<or>
          y = Inr (Some body, r) \<and> docs' = docs(fs_safe h ns \<mapsto> dict_set (fs_safe h k) (Some body) (files_of docs (fs_safe h ns)))"
          by (auto simp: eqs split: if_splits)
        with raised changed [of w r] same wr cur DOC_PUT show ?thesis by (auto simp: put_file_def)
      qed
    qed
  qed
qed

interpretation fs_docs: document_store "doc_stored h" "mutate_document h ok" "doc_apart h"
  for h :: "string \<Rightarrow> string" and ok :: "'b \<Rightarrow> bool"
proof
  fix env ns k f b r and s s' :: "'b docs"
  assume "mutate_document h ok env ns k f s = (s', Inr (b, r))"
  then show "\<exists>w. f (doc_stored h s ns k) = Inr (w, r) \<and> doc_stored h s' ns k = written (doc_stored h s ns k) w \<and>
          b = doc_stored h s' ns k"
  proof (cases rule: mutate_document_cases)
    case (kept w r')
    then show ?thesis using doc_stored_same [OF kept(2), of h ns k] by auto
  next
    case (changed w r')
    then show ?thesis by (auto simp: doc_stored_put)
  qed simp
next
  fix env ns k f x and s s' :: "'b docs"
  assume "mutate_document h ok env ns k f s = (s', Inl x)"
  then show "doc_stored h s' ns k = doc_stored h s ns k"
    by (cases rule: mutate_document_cases) (simp_all add: doc_stored_def)
next
  fix env ns k f y ns' k' and s s' :: "'b docs"
  assume "mutate_document h ok env ns k f s = (s', y)" and a: "doc_apart h (ns, k) (ns', k')"
  then show "doc_stored h s' ns' k' = doc_stored h s ns' k'"
  proof (cases rule: mutate_document_cases)
    case (changed w r)
    with a show ?thesis by (auto simp: doc_stored_def doc_apart_def put_file_get)
  qed (simp_all add: doc_stored_def)
qed

end
