(* ===== verification/DagDriver.thy ===== *)
theory DagDriver
  imports DagFinal StateDocs
begin

text \<open>
  The DAG driver (\<open>dagrun.py\<close>) as far as it touches a run: the document operations it sends through
  the store (creation, the combined recovery and claim, the claim after expansions, recovery, pid
  stamps, completions, approval decisions), how completions become marks, when a failed completion is
  retried, whether a held lease may still be used, and when a run wants to be advanced again.  The
  lemmas relate a history of such operations, issued by any nodes over a store that may fail, to the
  step relation of the state machine.
\<close>

subsection \<open>Operations on a run document\<close>

definition DAG_RUN_NS_PREFIX :: string where
  "DAG_RUN_NS_PREFIX = ''dagrun/''"

definition run_namespace :: "string \<Rightarrow> string" where
  "run_namespace dag_name = DAG_RUN_NS_PREFIX @ dag_name"

text \<open>The completion of a task, as the reaper hands it over.\<close>

record completion =
  c_taskkey :: string
  c_task_id :: string
  c_success :: bool
  c_exit_code :: "int option"
  c_fail_reason :: "string option"
  c_proc :: "string option"
  c_attempt :: "int option"
  c_poke :: "int option"
  c_resources :: "json option"

text \<open>The mark of one completion; the jitter is drawn for sensors only.\<close>

definition completion_mark :: "TaskSpec \<Rightarrow> real \<Rightarrow> completion \<Rightarrow> finish_mark" where
  "completion_mark task draw c =
     \<lparr>fm_taskkey = c_taskkey c, fm_success = c_success c, fm_exit_code = c_exit_code c,
      fm_fail_reason = c_fail_reason c, fm_task = task,
      fm_jitter = (if t_type task = SENSOR then draw else 0),
      fm_expected_proc = c_proc c, fm_expected_attempt = c_attempt c, fm_expected_poke = c_poke c,
      fm_resources = c_resources c\<rparr>"

text \<open>Completions of tasks that a reload removed are dropped.\<close>

definition flush_marks :: "DagSpec \<Rightarrow> (completion \<times> real) list \<Rightarrow> finish_mark list" where
  "flush_marks spec entries =
     List.map_filter (\<lambda>(c, draw).
       map_option (\<lambda>task. completion_mark task draw c) (dict_get (by_id spec) (c_task_id c))) entries"

datatype run_op =
  CreateDoc string string string "string option" string real
| DoAdvance real string string "int \<Rightarrow> bool"
| ClaimExpanded real string string "json list option dict"
| ReconcileRun real string string "int \<Rightarrow> bool"
| SetPids "pid_mark list" real
| FlushCompletions "(completion \<times> real) list" real
| FinishTask completion real real
| Approve string bool string real

datatype run_answer =
  CreatedRun bool | Advanced ReconcileAdvanceResult | Claimed AdvanceResult | Reconciled nat
| Stamped nat | Finished "string list" | FinishedOne bool | Decided approval_result

definition create_transform ::
  "DagSpec \<Rightarrow> string \<Rightarrow> string \<Rightarrow> string \<Rightarrow> string option \<Rightarrow> string \<Rightarrow> real \<Rightarrow> run_body option \<Rightarrow>
   run_body doc_write \<times> bool" where
  "create_transform spec dag_name run_key run_id logical_iso kd now current =
     (case current of
        Some _ \<Rightarrow> (DOC_KEEP, False)
      | None \<Rightarrow> (DOC_PUT (new_run_body dag_name run_key run_id logical_iso kd now spec), True))"

text \<open>\<open>taskkey.split("#", 1)[0]\<close>; a task that is gone is treated as failing on rejection.\<close>

definition reject_state_of :: "DagSpec \<Rightarrow> string \<Rightarrow> task_state" where
  "reject_state_of spec taskkey =
     (case dict_get (by_id spec) (takeWhile (\<lambda>c. c \<noteq> CHR ''#'') taskkey) of
        None \<Rightarrow> FAILED | Some t \<Rightarrow> on_reject t)"

definition run_write ::
  "DagSpec \<Rightarrow> run_op \<Rightarrow> run_body option \<Rightarrow> run_body doc_write \<times> run_answer" where
  "run_write spec op current =
     (case op of
        CreateDoc dag_name run_key run_id logical_iso kd now \<Rightarrow>
          apsnd CreatedRun (create_transform spec dag_name run_key run_id logical_iso kd now current)
      | DoAdvance now proc host alive \<Rightarrow>
          apsnd Advanced (reconcile_and_plan spec now proc host alive current)
      | ClaimExpanded now proc host exps \<Rightarrow>
          apsnd Claimed (plan_and_claim spec now proc host exps current)
      | ReconcileRun now proc host alive \<Rightarrow>
          apsnd Reconciled (reconcile_crashed spec now proc host alive current)
      | SetPids stamps now \<Rightarrow> apsnd Stamped (set_task_pids stamps now current)
      | FlushCompletions entries now \<Rightarrow>
          apsnd Finished (mark_tasks_finished (flush_marks spec entries) now current)
      | FinishTask c draw now \<Rightarrow>
          (case dict_get (by_id spec) (c_task_id c) of
             None \<Rightarrow> (DOC_KEEP, FinishedOne False)
           | Some task \<Rightarrow> apsnd FinishedOne (mark_task_finished (completion_mark task draw c) now current))
      | Approve taskkey approved who now \<Rightarrow>
          apsnd Decided (apply_approval taskkey approved who now (reject_state_of spec taskkey) current))"

text \<open>The transforms of \<open>dag.py\<close> do not raise; the wrapper only renames the keep sentinel.\<close>

definition run_op_transform ::
  "DagSpec \<Rightarrow> run_op \<Rightarrow> run_body option \<Rightarrow> (unit, run_body doc_write \<times> run_answer) result" where
  "run_op_transform spec op current = Inr (run_write spec op current)"

definition run_mutate ::
  "(string \<Rightarrow> string) \<Rightarrow> (run_body \<Rightarrow> bool) \<Rightarrow> DagSpec \<Rightarrow> io \<Rightarrow> string \<Rightarrow> string \<Rightarrow> run_op \<Rightarrow> run_body docs \<Rightarrow>
   run_body docs \<times> (unit doc_error, run_body option \<times> run_answer) result" where
  "run_mutate h portable spec env dag_name run_key op docs =
     mutate_document h portable env (run_namespace dag_name) run_key (run_op_transform spec op) docs"

subsection \<open>Launches of a history\<close>

text \<open>What a node launches on an answer; on an exception it launches nothing.\<close>

definition answer_launches :: "run_answer \<Rightarrow> LaunchIntent list" where
  "answer_launches r =
     (case r of
        Advanced res \<Rightarrow> (case advance res of None \<Rightarrow> [] | Some adv \<Rightarrow> launches adv)
      | Claimed res \<Rightarrow> launches res
      | _ \<Rightarrow> [])"

definition launched_by :: "('x, run_body option \<times> run_answer) result \<Rightarrow> LaunchIntent list" where
  "launched_by y = (case y of Inl _ \<Rightarrow> [] | Inr (_, r) \<Rightarrow> answer_launches r)"

definition launched :: "('a \<times> ('x, run_body option \<times> run_answer) result) list \<Rightarrow> LaunchIntent list" where
  "launched evs = concat (map (launched_by \<circ> snd) evs)"

text \<open>Completions name an instance of a task that runs as a process.\<close>

definition op_ok :: "DagSpec \<Rightarrow> run_op \<Rightarrow> bool" where
  "op_ok spec op =
     (case op of
        FlushCompletions entries now \<Rightarrow> list_all (mark_for spec) (flush_marks spec entries)
      | FinishTask c draw now \<Rightarrow> list_all (mark_for spec) (flush_marks spec [(c, draw)])
      | _ \<Rightarrow> True)"

lemma flush_one:
  "dict_get (by_id spec) (c_task_id c) = Some task \<Longrightarrow>
   flush_marks spec [(c, draw)] = [completion_mark task draw c]"
  by (simp add: flush_marks_def map_filter_simps)

text \<open>A single completion stores what the batch of it alone stores.\<close>

lemma single_mark_batch:
  "written (Some body) (fst (mark_tasks_finished [m] now (Some body))) =
   written (Some body) (fst (mark_task_finished m now (Some body)))"
  using marks.batch_is_sequence [of body "[m]" now] by (simp add: marks.seq_step_def split_beta)

lemma mark_one_no_delete: "fst (mark_task_finished m now b) \<noteq> DOC_DELETE"
  by (simp add: mark_task_finished_def split: option.split)

lemma launched_snoc: "launched (evs @ [(a, y)]) = launched evs @ launched_by y"
  by (simp add: launched_def)

lemma run_write_on_absent:
  assumes "run_write spec op None = (w, r)"
  shows "answer_launches r = [] \<and>
    (w = DOC_KEEP \<or> (\<exists>d rk rid ld kd now. w = DOC_PUT (new_run_body d rk rid ld kd now spec)))"
  using assms
  by (cases op) (fastforce simp: run_write_def create_transform_def reconcile_and_plan_def plan_and_claim_def
      reconcile_crashed_def set_task_pids_def mark_tasks_finished_def mark_task_finished_def apply_approval_def Let_def
      answer_launches_def empty_result_def split: option.splits)+

lemma run_write_no_delete: "fst (run_write spec op (Some body)) \<noteq> DOC_DELETE"
  using advance_no_delete plan_no_delete reconcile_no_delete pids_no_delete marks_no_delete approval_no_delete
    mark_one_no_delete
  by (cases op) (simp_all add: run_write_def create_transform_def split: option.split)

lemma run_write_step:
  assumes "run_write spec op (Some body) = (w, r)" and "op_ok spec op"
  shows "\<exists>body'. written (Some body) w = Some body' \<and>
    (body' = body \<and> answer_launches r = [] \<or>
     run_step spec (body, hist) (body', hist @ answer_launches r))"
proof -
  have "w \<noteq> DOC_DELETE" using run_write_no_delete [of spec op body] assms(1) by simp
  then obtain body' where body': "written (Some body) w = Some body'" by (cases w) auto
  have "body' = body \<and> answer_launches r = [] \<or>
     run_step spec (body, hist) (body', hist @ answer_launches r)"
  proof (cases op)
    case (CreateDoc d rk rid ld kd now)
    then show ?thesis using assms(1) body' by (auto simp: run_write_def create_transform_def answer_launches_def)
  next
    case (DoAdvance now proc host alive)
    then obtain res where "reconcile_and_plan spec now proc host alive (Some body) = (w, res)" "r = Advanced res"
      using assms(1) by (auto simp: run_write_def apsnd_def map_prod_def split: prod.splits)
    then show ?thesis using rs_advance [OF _ body'] by (simp add: answer_launches_def)
  next
    case (ClaimExpanded now proc host exps)
    then obtain res where "plan_and_claim spec now proc host exps (Some body) = (w, res)" "r = Claimed res"
      using assms(1) by (auto simp: run_write_def apsnd_def map_prod_def split: prod.splits)
    then show ?thesis using rs_plan [OF _ body'] by (simp add: answer_launches_def)
  next
    case (ReconcileRun now proc host alive)
    then obtain res where "reconcile_crashed spec now proc host alive (Some body) = (w, res)" "r = Reconciled res"
      using assms(1) by (auto simp: run_write_def apsnd_def map_prod_def split: prod.splits)
    then show ?thesis using rs_reconcile [OF _ body'] by (simp add: answer_launches_def)
  next
    case (SetPids stamps now)
    then obtain res where "set_task_pids stamps now (Some body) = (w, res)" "r = Stamped res"
      using assms(1) by (auto simp: run_write_def apsnd_def map_prod_def split: prod.splits)
    then show ?thesis using rs_pids [OF _ body'] by (simp add: answer_launches_def)
  next
    case (FlushCompletions entries now)
    then obtain res where "mark_tasks_finished (flush_marks spec entries) now (Some body) = (w, res)" "r = Finished res"
      using assms(1) by (auto simp: run_write_def apsnd_def map_prod_def split: prod.splits)
    then show ?thesis using rs_finish [OF _ _ body'] assms(2) FlushCompletions by (simp add: answer_launches_def op_ok_def)
  next
    case (FinishTask c draw now)
    show ?thesis
    proof (cases "dict_get (by_id spec) (c_task_id c)")
      case None
      then show ?thesis using FinishTask assms(1) body' by (auto simp: run_write_def answer_launches_def)
    next
      case (Some task)
      let ?m = "completion_mark task draw c"
      have w: "w = fst (mark_task_finished ?m now (Some body))" and r: "answer_launches r = []"
        using FinishTask Some assms(1)
        by (auto simp: run_write_def apsnd_def map_prod_def answer_launches_def split: prod.splits)
      have "written (Some body) (fst (mark_tasks_finished [?m] now (Some body))) = Some body'"
        using body' w single_mark_batch by simp
      moreover have "list_all (mark_for spec) [?m]"
        using assms(2) FinishTask flush_one [OF Some] by (simp add: op_ok_def)
      ultimately have "run_step spec (body, hist) (body', hist)"
        by (intro rs_finish [OF prod.collapse [symmetric]])
      then show ?thesis using r by simp
    qed
  next
    case (Approve key approved who now)
    then obtain res where "apply_approval key approved who now (reject_state_of spec key) (Some body) = (w, res)"
        "r = Decided res"
      using assms(1) by (auto simp: run_write_def apsnd_def map_prod_def split: prod.splits)
    then show ?thesis using rs_approval [OF _ body'] by (simp add: answer_launches_def)
  qed
  with body' show ?thesis by blast
qed

text \<open>The document of a history is a reachable state of the run, with the launches it answered.\<close>

definition tracks :: "DagSpec \<Rightarrow> LaunchIntent list \<Rightarrow> run_body option \<Rightarrow> bool" where
  "tracks spec ls v = (case v of None \<Rightarrow> ls = [] | Some body \<Rightarrow> reachable spec body ls)"

lemma tracks_write:
  assumes "tracks spec ls v" and "run_write spec op v = (w, r)" and "op_ok spec op"
  shows "tracks spec (ls @ answer_launches r) (written v w)"
proof (cases v)
  case None
  then show ?thesis
    using run_write_on_absent [of spec op w r] assms reach_new by (fastforce simp: tracks_def)
next
  case (Some body)
  with run_write_step [of spec op body w r ls] assms obtain body' where
    "written v w = Some body'" and
    "body' = body \<and> answer_launches r = [] \<or> run_step spec (body, ls) (body', ls @ answer_launches r)"
    by auto
  then show ?thesis using assms(1) Some reach_step by (auto simp: tracks_def)
qed

lemma history_tracks:
  assumes "fs_docs.history h ok ns rk (run_op_transform spec) docs evs docs'"
    and "doc_stored h docs ns rk = None" and "\<forall>e \<in> set evs. op_ok spec (fst e)"
  shows "tracks spec (launched evs) (doc_stored h docs' ns rk)"
proof (rule fs_docs.history_trace [OF assms(1), where I = "\<lambda>es v. tracks spec (launched es) v" and all = evs])
  show "tracks spec (launched []) (doc_stored h docs ns rk)"
    using assms(2) by (simp add: tracks_def launched_def)
  show "tracks spec (launched (es @ [(a, Inl x)])) v" if "tracks spec (launched es) v" for es v a x
    using that by (simp add: launched_snoc launched_by_def)
  show "tracks spec (launched (es @ [(a, Inr (written v w, r))])) (written v w)"
    if "tracks spec (launched es) v" "run_op_transform spec a v = Inr (w, r)"
      "(a, Inr (written v w, r)) \<in> set evs" for es v a w r
    using tracks_write [OF that(1), of a w r] that(2,3) assms(3)
    by (force simp: launched_snoc launched_by_def run_op_transform_def)
qed simp

end
