(* ===== verification/DagAdvance.thy ===== *)
theory DagAdvance
  imports DagDriver
begin

text \<open>
  One advance of an owned run (\<open>_do_advance\<close> of \<open>dagrun.py\<close>): the combined recovery and claim, the
  second claim when mapped tasks wait for their lists, the launches, the completion of launches that
  failed, the batched pid stamps, and the next wake; and around it the queue of completions to retry
  and the check of the held lease.  Reading an upstream list and starting a process are parameters.
  The lemmas show that an advance is a sequence of document operations, and that it launches exactly
  what its committed claim answered.
\<close>

subsection \<open>Waking, retrying, owning\<close>

definition APPROVAL_POLL_INTERVAL :: real where
  "APPROVAL_POLL_INTERVAL = 5"

definition COMPLETION_RETRY_DELAY :: real where
  "COMPLETION_RETRY_DELAY = 5"

definition COMPLETION_RETRY_MAX_DELAY :: real where
  "COMPLETION_RETRY_MAX_DELAY = 60"

text \<open>The instant an entry wants attention, if any; a retry time of zero reads as none.\<close>

definition wake_of :: "real \<Rightarrow> task_entry \<Rightarrow> real option" where
  "wake_of now e =
     (if e_state e = RUNNING \<and> awaitingApproval e then Some (now + APPROVAL_POLL_INTERVAL)
      else if e_state e = RUNNING \<and> nextPokeAt e \<noteq> None
      then (if e_proc e = None \<and> e_pid e = None then nextPokeAt e else None)
      else if e_state e = UP_FOR_RETRY
      then (case nextRetryAt e of None \<Rightarrow> None | Some t \<Rightarrow> if t = 0 then None else Some t)
      else None)"

definition compute_wake :: "run_body \<Rightarrow> real \<Rightarrow> real" where
  "compute_wake body now =
     fold min (List.map_filter (wake_of now) (map snd (b_tasks body))) (now + 60)"

text \<open>A completion to retry, with its current delay and due time.\<close>

record pending_completion =
  pc_completion :: completion
  pc_delay :: real
  pc_next_try :: real

definition queue_completion ::
  "real \<Rightarrow> completion \<Rightarrow> pending_completion dict \<Rightarrow> pending_completion dict" where
  "queue_completion now c pending =
     (let delay = (case dict_get pending (c_taskkey c) of
                     None \<Rightarrow> COMPLETION_RETRY_DELAY
                   | Some p \<Rightarrow> min (pc_delay p * 2) COMPLETION_RETRY_MAX_DELAY)
      in dict_set (c_taskkey c) \<lparr>pc_completion = c, pc_delay = delay, pc_next_try = now + delay\<rparr> pending)"

text \<open>Whether the lease is usable, and whether it is still held after the check.\<close>

definition lease_usable ::
  "real \<Rightarrow> Lease \<Rightarrow> (unit, Lease option) result \<Rightarrow> bool \<times> bool" where
  "lease_usable now lease observed =
     (if now < l_expires_at lease then (True, True)
      else (case observed of
              Inl _ \<Rightarrow> (False, True)
            | Inr None \<Rightarrow> (False, True)
            | Inr (Some o') \<Rightarrow>
                (False, \<not> (l_holder o' \<noteq> l_holder lease \<or> l_fence o' \<noteq> l_fence lease))))"

subsection \<open>One advance\<close>

text \<open>How starting a task ends: with a process, or without one.\<close>

datatype start_outcome = Started "int option" | StartFailed | LaunchError

text \<open>The surroundings of a pass: its store accesses, its clock readings, and what it calls.\<close>

record pass_env =
  io_advance :: io
  io_claim :: io
  io_pids :: io
  io_finish :: "nat \<Rightarrow> io"
  clock_advance :: real
  clock_claim :: real
  clock_finish :: "nat \<Rightarrow> real"
  clock_pids :: real
  proc_token :: string
  state_host :: string
  pid_alive :: "int \<Rightarrow> bool"
  draw_jitter :: "nat \<Rightarrow> real"
  read_xcom :: "string \<Rightarrow> string \<Rightarrow> string \<Rightarrow> json list option"
  start_task :: "LaunchIntent \<Rightarrow> start_outcome"

definition failed_launch :: "string \<Rightarrow> string \<Rightarrow> LaunchIntent \<Rightarrow> completion" where
  "failed_launch proc reason l =
     \<lparr>c_taskkey = li_taskkey l, c_task_id = li_task_id l, c_success = False, c_exit_code = Some 127,
      c_fail_reason = Some reason, c_proc = Some proc, c_attempt = Some (li_attempt l),
      c_poke = (if li_is_sensor l then Some (li_poke_number l) else None), c_resources = None\<rparr>"

text \<open>
  The launch loop: a started task contributes a pid stamp, a failed one is completed with exit code
  127; a completion the store refuses is queued.
\<close>

fun launch_loop ::
  "(nat \<Rightarrow> completion \<Rightarrow> 's \<Rightarrow> 's \<times> bool) \<Rightarrow> pass_env \<Rightarrow> nat \<Rightarrow> LaunchIntent list \<Rightarrow>
   's \<times> pid_mark list \<times> completion list \<Rightarrow> 's \<times> pid_mark list \<times> completion list" where
  "launch_loop finish pe i [] st = st"
| "launch_loop finish pe i (l # ls) (docs, stamps, queued) =
     launch_loop finish pe (Suc i) ls
       (case start_task pe l of
          Started pid \<Rightarrow>
            (docs, stamps @ [\<lparr>pm_taskkey = li_taskkey l, pm_proc = proc_token pe, pm_pid = pid,
                              pm_attempt = Some (li_attempt l)\<rparr>], queued)
        | StartFailed \<Rightarrow>
            (let c = failed_launch (proc_token pe) ''launch failed'' l
             in case finish i c docs of (docs', ok) \<Rightarrow> (docs', stamps, if ok then queued else queued @ [c]))
        | LaunchError \<Rightarrow>
            (let c = failed_launch (proc_token pe) ''launch error'' l
             in case finish i c docs of (docs', ok) \<Rightarrow> (docs', stamps, if ok then queued else queued @ [c])))"

datatype pass_end = RunGone | RunTerminal run_body | NextWake real

record pass_out =
  po_launched :: "LaunchIntent list"
  po_queued :: "completion list"
  po_end :: pass_end

definition no_launch :: "pass_end \<Rightarrow> pass_out" where
  "no_launch e = \<lparr>po_launched = [], po_queued = [], po_end = e\<rparr>"

definition read_expansions :: "pass_env \<Rightarrow> DagSpec \<Rightarrow> run_body \<Rightarrow> json list option dict" where
  "read_expansions pe spec body =
     dict_of (map (\<lambda>(tid, from_task, key). (tid, read_xcom pe (runId body) from_task key))
       (tasks_awaiting_expansion spec body))"

text \<open>Steps 3 to 5: launches, pid stamps (best effort), the next wake.\<close>

definition launch_claimed ::
  "(run_op \<Rightarrow> io \<Rightarrow> 's \<Rightarrow> 's \<times> ('x, run_body option \<times> run_answer) result) \<Rightarrow> pass_env \<Rightarrow> DagSpec \<Rightarrow>
   real \<Rightarrow> run_body \<Rightarrow> AdvanceResult \<Rightarrow> 's \<Rightarrow> 's \<times> pass_out" where
  "launch_claimed mutate pe spec now body res docs =
     (let finish = (\<lambda>i c docs. case mutate (FinishTask c (draw_jitter pe i) (clock_finish pe i)) (io_finish pe i) docs of
                      (docs', r) \<Rightarrow> (docs', case r of Inl _ \<Rightarrow> False | Inr _ \<Rightarrow> True))
      in case launch_loop finish pe 0 (launches res) (docs, [], []) of
           (docs1, stamps, queued) \<Rightarrow>
             ((if stamps = [] then docs1 else fst (mutate (SetPids stamps (clock_pids pe)) (io_pids pe) docs1)),
              \<lparr>po_launched = launches res, po_queued = queued,
               po_end = (if is_terminal_run body then RunTerminal body
                         else NextWake (if deferred res then now else compute_wake body now))\<rparr>))"

definition do_advance ::
  "(run_op \<Rightarrow> io \<Rightarrow> 's \<Rightarrow> 's \<times> ('x, run_body option \<times> run_answer) result) \<Rightarrow> pass_env \<Rightarrow> DagSpec \<Rightarrow>
   's \<Rightarrow> 's \<times> ('x, pass_out) result" where
  "do_advance mutate pe spec docs =
     (case mutate (DoAdvance (clock_advance pe) (proc_token pe) (state_host pe) (pid_alive pe)) (io_advance pe) docs of
        (docs1, Inl x) \<Rightarrow> (docs1, Inl x)
      | (docs1, Inr (None, _)) \<Rightarrow> (docs1, Inr (no_launch RunGone))
      | (docs1, Inr (Some body, Advanced comb)) \<Rightarrow>
          if is_terminal_run body then (docs1, Inr (no_launch (RunTerminal body)))
          else if expansions_needed comb
          then (case mutate (ClaimExpanded (clock_claim pe) (proc_token pe) (state_host pe) (read_expansions pe spec body))
                       (io_claim pe) docs1 of
                  (docs2, Inl x) \<Rightarrow> (docs2, Inl x)
                | (docs2, Inr (claimed, Claimed res)) \<Rightarrow>
                    apsnd Inr (launch_claimed mutate pe spec (clock_claim pe)
                                 (case claimed of None \<Rightarrow> body | Some b \<Rightarrow> b) res docs2)
                | (docs2, Inr _) \<Rightarrow> (docs2, Inr (no_launch RunGone)))
          else (case advance comb of
                  None \<Rightarrow> (docs1, Inr (no_launch RunGone))
                | Some res \<Rightarrow> apsnd Inr (launch_claimed mutate pe spec (clock_advance pe) body res docs1))
      | (docs1, Inr _) \<Rightarrow> (docs1, Inr (no_launch RunGone)))"

subsection \<open>An advance as document operations\<close>

abbreviation run_store ::
  "(string \<Rightarrow> string) \<Rightarrow> (run_body \<Rightarrow> bool) \<Rightarrow> DagSpec \<Rightarrow> string \<Rightarrow> string \<Rightarrow> run_op \<Rightarrow> io \<Rightarrow> run_body docs \<Rightarrow>
   run_body docs \<times> (unit doc_error, run_body option \<times> run_answer) result" where
  "run_store h portable spec dag_name run_key op env docs \<equiv>
     run_mutate h portable spec env dag_name run_key op docs"

lemma launch_claimed_launches: "po_launched (snd (launch_claimed mutate pe spec now body res docs)) = launches res"
  by (simp add: launch_claimed_def Let_def split: prod.split)

text \<open>
  The launches of an advance are those of its claim: at most two operations lead to the document in
  which they are recorded.
\<close>

lemma do_advance_launching:
  assumes "do_advance mutate pe spec docs = (docs', Inr out)" and "po_launched out \<noteq> []"
  obtains (claimed) docs1 b comb docs2 b2 res where
      "mutate (DoAdvance (clock_advance pe) (proc_token pe) (state_host pe) (pid_alive pe)) (io_advance pe) docs =
        (docs1, Inr (b, Advanced comb))"
      "mutate (ClaimExpanded (clock_claim pe) (proc_token pe) (state_host pe) (read_expansions pe spec (the b)))
        (io_claim pe) docs1 = (docs2, Inr (b2, Claimed res))"
      "po_launched out = launches res"
  | (advanced) docs1 b comb res where
      "mutate (DoAdvance (clock_advance pe) (proc_token pe) (state_host pe) (pid_alive pe)) (io_advance pe) docs =
        (docs1, Inr (b, Advanced comb))"
      "advance comb = Some res" "po_launched out = launches res"
proof -
  let ?op = "DoAdvance (clock_advance pe) (proc_token pe) (state_host pe) (pid_alive pe)"
  obtain docs1 b comb where first: "mutate ?op (io_advance pe) docs = (docs1, Inr (b, Advanced comb))"
    using assms
    by (cases "mutate ?op (io_advance pe) docs")
      (auto simp: do_advance_def no_launch_def split: sum.splits option.splits run_answer.splits)
  then obtain body where b: "b = Some body" and live: "\<not> is_terminal_run body"
    using assms by (cases b) (auto simp: do_advance_def no_launch_def split: if_splits)
  let ?claim = "mutate (ClaimExpanded (clock_claim pe) (proc_token pe) (state_host pe) (read_expansions pe spec body))
     (io_claim pe) docs1"
  show thesis
  proof (cases "expansions_needed comb")
    case True
    obtain docs2 y where second: "?claim = (docs2, y)" by fastforce
    have rest: "(case y of Inl x \<Rightarrow> (docs2, Inl x)
        | Inr (c, Claimed res) \<Rightarrow> apsnd Inr (launch_claimed mutate pe spec (clock_claim pe)
             (case c of None \<Rightarrow> body | Some b' \<Rightarrow> b') res docs2)
        | Inr _ \<Rightarrow> (docs2, Inr (no_launch RunGone))) = (docs', Inr out)"
      using assms(1) first b live True second by (simp add: do_advance_def split: sum.split)
    obtain c res where y: "y = Inr (c, Claimed res)"
      using rest assms(2) by (auto simp: no_launch_def split: sum.splits run_answer.splits)
    then have "launch_claimed mutate pe spec (clock_claim pe) (case c of None \<Rightarrow> body | Some b' \<Rightarrow> b') res docs2 = (docs', out)"
      using rest by (auto simp: apsnd_def map_prod_def split: prod.splits)
    then have "po_launched out = launches res" using launch_claimed_launches by (metis snd_conv)
    then show thesis using claimed [OF first] second y b by simp
  next
    case False
    then obtain res where res: "advance comb = Some res"
      using assms first b live by (cases "advance comb") (auto simp: do_advance_def no_launch_def)
    then have "launch_claimed mutate pe spec (clock_advance pe) body res docs1 = (docs', out)"
      using assms(1) first b live False by (auto simp: do_advance_def apsnd_def map_prod_def split: prod.splits)
    then have "po_launched out = launches res" using launch_claimed_launches by (metis snd_conv)
    then show thesis by (rule advanced [OF first res])
  qed
qed

lemma advance_claims:
  assumes "do_advance (run_store h ok spec dag rk) pe spec docs = (docs', Inr out)"
  shows "\<exists>evs docs_c. fs_docs.history h ok (run_namespace dag) rk (run_op_transform spec) docs evs docs_c \<and>
    (\<forall>e \<in> set evs. op_ok spec (fst e)) \<and> (\<exists>before. launched evs = before @ po_launched out)"
proof (cases "po_launched out = []")
  case True
  then show ?thesis
    using fs_docs.history.start by (intro exI [of _ "[]"] exI [of _ docs]) (auto simp: launched_def)
next
  case False
  have op: "fs_docs.history h ok (run_namespace dag) rk (run_op_transform spec) docs (evs @ [(op, y)]) t'"
    if "fs_docs.history h ok (run_namespace dag) rk (run_op_transform spec) docs evs t"
      and "run_store h ok spec dag rk op env t = (t', y)" for evs t op env t' y
    using fs_docs.history.operation [OF that(1)] that(2) by (simp add: run_mutate_def)
  from assms False show ?thesis
  proof (cases rule: do_advance_launching)
    case (claimed docs1 b comb docs2 b2 res)
    from op [OF op [OF fs_docs.history.start claimed(1)] claimed(2)] show ?thesis
      using claimed(3) by (intro exI conjI) (assumption, auto simp: op_ok_def launched_def launched_by_def answer_launches_def)
  next
    case (advanced docs1 b comb res)
    from op [OF fs_docs.history.start advanced(1)] show ?thesis
      using advanced(2,3)
      by (intro exI conjI) (assumption, auto simp: op_ok_def launched_def launched_by_def answer_launches_def)
  qed
qed

end
