(* ===== verification/DagProps.thy ===== *)
theory DagProps
  imports DagFinal
begin

text \<open>
  The properties of the DAG tier, each with the concrete document that shows its hypotheses hold
  together where it has any.
\<close>

subsection \<open>A two-task DAG\<close>

definition plain_task :: "string \<Rightarrow> string list \<Rightarrow> TaskSpec" where
  "plain_task tid deps =
     \<lparr>t_id = tid, t_type = TASK, depends_on = deps, t_trigger_rule = ALL_SUCCESS, max_attempts = 2,
      retry_delay = 5, expand = None, poke_interval = 30, poke_timeout = 3600, poke_jitter = 0,
      on_reject = FAILED\<rparr>"

definition etl :: DagSpec where
  "etl = build ''etl'' [plain_task ''a'' [], plain_task ''b'' [''a'']]"

definition etl_run :: run_body where
  "etl_run = new_run_body ''etl'' ''k'' ''r'' None ''scheduled'' 100 etl"

lemma validate_etl: "validate_graph etl = Inr ()"
  by code_simp

lemma wf_etl: "wf_spec etl"
  unfolding etl_def by (rule wf_spec_build) (use validate_etl in \<open>simp add: etl_def\<close>)

text \<open>What is stored after the first pass of this node, and what that pass launched.\<close>

definition etl_pass :: "run_body doc_write \<times> AdvanceResult" where
  "etl_pass = plan_and_claim etl 101 ''p'' ''h'' [] (Some etl_run)"

definition etl_claimed :: run_body where
  "etl_claimed = stored etl_run etl_pass"

lemma etl_reachable: "reachable etl etl_claimed (launches (snd etl_pass))"
proof -
  have "reachable etl etl_run []" unfolding etl_run_def by (rule reach_new)
  moreover have "run_step etl (etl_run, []) (etl_claimed, [] @ launches (snd etl_pass))"
    unfolding etl_claimed_def etl_pass_def
    by (rule rs_plan [OF prod.collapse [symmetric] stored_written [OF plan_no_delete]])
  ultimately show ?thesis using reach_step by fastforce
qed

lemma etl_claimed_entry: "map (\<lambda>(k, e). (k, e_state e, e_proc e)) (b_tasks etl_claimed) =
    [(''a'', RUNNING, Some ''p''), (''b'', PENDING, None)]"
  by code_simp

text \<open>One task alone, in flight under this node's token.\<close>

definition solo :: DagSpec where
  "solo = build ''solo'' [plain_task ''a'' []]"

definition solo_claimed :: run_body where
  "solo_claimed = stored (new_run_body ''solo'' ''k'' ''r'' None ''manual'' 100 solo)
     (plan_and_claim solo 101 ''p'' ''h'' [] (Some (new_run_body ''solo'' ''k'' ''r'' None ''manual'' 100 solo)))"

lemma wf_solo: "wf_spec solo"
  unfolding solo_def by (rule wf_spec_build) code_simp

subsection \<open>The graph check\<close>

text \<open>
  C21. The graph check accepts a DAG exactly when its task ids are distinct, non-empty and free of
  separators and control characters, every dependency names another task, every mapped task is a
  plain task over a direct unmapped dependency, and the dependency relation has no cycle (Kahn's
  loop over the deduplicated edges terminates and decides acyclicity).
\<close>

theorem validate_graph_exact:
  "validate_graph spec = Inr () \<longleftrightarrow>
   ids_ok (d_tasks spec) \<and> edges_ok (d_tasks spec) \<and> acyclic (dep_edges (d_tasks spec))"
  using validate_graph_iff by (simp add: valid_tasks_def)

subsection \<open>The pre-scan\<close>

text \<open>
  C22. When the quiescence pre-scan answers yes, the full pass it skips changes nothing, launches
  nothing and does not finish the run, and the recovery loop recovers nothing, as long as no
  parked approval gate belongs to a task that the specification now types as a sensor.
\<close>

theorem quiescent_pass_is_noop:
  assumes "wf_spec spec" and "wf_dict (b_tasks body)" and "no_retyped_gate spec body"
    and "is_quiescent spec body now proc expansions"
  shows "full_pass spec now proc host expansions body = (body, empty_result) \<and>
    reconcile_body spec now proc host is_pid_alive body = (body, 0)"
  using quiescent_full_pass [OF assms(1,4,2,3)] quiescent_reconcile [OF assms(4)] by simp

theorem quiescent_pass_is_noop_witness:
  "is_quiescent solo solo_claimed 200 ''p'' [] \<and>
   full_pass solo 200 ''p'' ''h'' [] solo_claimed = (solo_claimed, empty_result) \<and>
   reconcile_body solo 200 ''p'' ''h'' (\<lambda>_. False) solo_claimed = (solo_claimed, 0)"
proof -
  have d: "wf_dict (b_tasks solo_claimed)" and g: "no_retyped_gate solo solo_claimed"
    and q: "is_quiescent solo solo_claimed 200 ''p'' []" by code_simp+
  from quiescent_pass_is_noop [OF wf_solo d g q] q show ?thesis by blast
qed

text \<open>A gate that a reload turned into a sensor while it waited for a decision.\<close>

definition sensor_spec :: DagSpec where
  "sensor_spec = build ''gate'' [(plain_task ''g'' [])\<lparr>t_type := SENSOR\<rparr>]"

definition parked_gate :: run_body where
  "parked_gate =
     (let spec = build ''gate'' [(plain_task ''g'' [])\<lparr>t_type := APPROVAL\<rparr>];
          body = new_run_body ''gate'' ''k'' ''r'' None ''manual'' 100 spec
      in stored body (plan_and_claim spec 101 ''p'' ''h'' [] (Some body)))"

text \<open>
  The pre-scan is not exact for such a document: it answers yes, and yet the pass it skips
  would launch a poke of the sensor.
\<close>

theorem quiescence_wrong_on_retyped_gate:
  "is_quiescent sensor_spec parked_gate 200 ''p'' [] \<and>
   fst (plan_and_claim sensor_spec 200 ''p'' ''h'' [] (Some parked_gate)) = DOC_KEEP \<and>
   changed (snd (full_pass sensor_spec 200 ''p'' ''h'' [] parked_gate)) \<and>
   map li_taskkey (launches (snd (full_pass sensor_spec 200 ''p'' ''h'' [] parked_gate))) = [''g'']"
  by code_simp

subsection \<open>One write instead of several\<close>

text \<open>
  Reconciling and claiming in one write leaves the same document, the same recovery count and
  the same claim result as recovering in a first write and claiming in a second, whenever no
  mapped task waits for its item list.
\<close>

theorem reconcile_and_plan_is_two_writes:
  assumes "wf_spec spec" and "wf_dict (b_tasks body)" and "no_retyped_gate spec body"
    and "tasks_awaiting_expansion spec (fst (reconcile_body spec now proc host is_pid_alive body)) = []"
    and "reconcile_and_plan spec now proc host is_pid_alive (Some body) = (w, res)"
  shows "\<exists>adv. two_step_advance spec now proc host is_pid_alive body =
      (written (Some body) w, reconciled res, adv) \<and> advance res = Some adv \<and> \<not> expansions_needed res"
  by (rule combined_is_two_step [OF assms])

text \<open>Another node takes the run over: the first task's owner is dead, so its attempt is retried.\<close>

theorem reconcile_and_plan_is_two_writes_witness:
  "\<exists>w res adv. reconcile_and_plan etl 300 ''q'' ''h2'' (\<lambda>_. False) (Some etl_claimed) = (w, res) \<and>
     reconciled res = 1 \<and>
     two_step_advance etl 300 ''q'' ''h2'' (\<lambda>_. False) etl_claimed =
       (written (Some etl_claimed) w, reconciled res, adv) \<and> advance res = Some adv \<and> \<not> expansions_needed res"
proof -
  have d: "wf_dict (b_tasks etl_claimed)" and g: "no_retyped_gate etl etl_claimed"
    and aw: "tasks_awaiting_expansion etl (fst (reconcile_body etl 300 ''q'' ''h2'' (\<lambda>_. False) etl_claimed)) = []"
    and n: "reconciled (snd (reconcile_and_plan etl 300 ''q'' ''h2'' (\<lambda>_. False) (Some etl_claimed))) = 1"
    by code_simp+
  from reconcile_and_plan_is_two_writes [OF wf_etl d g aw prod.collapse [symmetric]] n
  show ?thesis by (metis prod.collapse)
qed

text \<open>
  Recording the pids of a whole batch in one write stores the same document and counts the
  same applied entries as recording them one write at a time, in order.
\<close>

theorem set_task_pids_is_sequence:
  "(written (Some body) (fst (set_task_pids ms now (Some body))), snd (set_task_pids ms now (Some body))) =
   fold (\<lambda>m (b, n). (written b (fst (set_task_pid m now b)), if snd (set_task_pid m now b) then Suc n else n))
     ms (Some body, 0)"
proof -
  have "pids.seq_step now =
      (\<lambda>m (b, n). (written b (fst (set_task_pid m now b)), if snd (set_task_pid m now b) then Suc n else n))"
    by (intro ext) (simp add: pids.seq_step_def split_beta)
  then show ?thesis using pids.batch_is_sequence [of body ms now] by simp
qed

text \<open>
  Terminalising a whole batch of completions in one write stores the same document and
  reports the same applied keys as the single completions one write at a time, in order.
\<close>

theorem mark_tasks_finished_is_sequence:
  "(written (Some body) (fst (mark_tasks_finished ms now (Some body))),
    snd (mark_tasks_finished ms now (Some body))) =
   fold (\<lambda>m (b, ks). (written b (fst (mark_task_finished m now b)),
                       if snd (mark_task_finished m now b) then ks @ [fm_taskkey m] else ks))
     ms (Some body, [])"
proof -
  have "marks.seq_step now =
      (\<lambda>m (b, ks). (written b (fst (mark_task_finished m now b)),
                     if snd (mark_task_finished m now b) then ks @ [fm_taskkey m] else ks))"
    by (intro ext) (simp add: marks.seq_step_def split_beta)
  then show ?thesis using marks.batch_is_sequence [of body ms now] by simp
qed

subsection \<open>Launches over the life of a run\<close>

text \<open>
  C2. In every state a run can reach, by any interleaving of passes, recoveries, pid writes,
  completions and approval decisions of any owners, no attempt of a plain task instance has been
  launched twice.
\<close>

theorem each_attempt_launched_once:
  assumes "wf_spec spec" and "reachable spec body hist"
  shows "distinct (map (\<lambda>l. (li_taskkey l, li_attempt l)) (filter (\<lambda>l. \<not> li_is_sensor l) hist))"
  using reachable_inv [OF assms] by (simp add: run_inv_def log_ok_def plain_launches_def)

theorem each_attempt_launched_once_witness:
  "map (\<lambda>l. (li_taskkey l, li_attempt l)) (launches (snd etl_pass)) = [(''a'', 0)] \<and>
   distinct (map (\<lambda>l. (li_taskkey l, li_attempt l)) (filter (\<lambda>l. \<not> li_is_sensor l) (launches (snd etl_pass))))"
proof -
  have "map (\<lambda>l. (li_taskkey l, li_attempt l)) (launches (snd etl_pass)) = [(''a'', 0)]" by code_simp
  with each_attempt_launched_once [OF wf_etl etl_reachable] show ?thesis by blast
qed

lemma distinct_bounded_length:
  assumes "distinct (map f xs)" and "\<forall>x \<in> set xs. 0 \<le> f x \<and> f x < (n :: int)"
  shows "int (length xs) \<le> max 0 n"
proof -
  have "set (map f xs) \<subseteq> {0..<n}" using assms(2) by auto
  then have "card (set (map f xs)) \<le> card {0..<n}" by (intro card_mono) auto
  then show ?thesis using distinct_card [OF assms(1)] by simp
qed

text \<open>
  Over the life of a run an instance of a plain task is launched at most as often as its
  attempts allow (at least once when the configured number is below one).
\<close>

theorem launches_within_attempts:
  assumes "wf_spec spec" and "reachable spec body hist" and "dict_get (b_tasks body) key = Some e"
    and "dict_get (by_id spec) (e_id e) = Some t"
  shows "int (length (filter (\<lambda>l. \<not> li_is_sensor l \<and> li_taskkey l = key) hist)) \<le> max 1 (max_attempts t)"
proof -
  let ?ls = "filter (\<lambda>l. \<not> li_is_sensor l \<and> li_taskkey l = key) hist"
  have log: "log_ok spec (b_tasks body) hist" using reachable_inv [OF assms(1,2)] by (simp add: run_inv_def)
  have "\<forall>l \<in> set ?ls. 0 \<le> li_attempt l \<and> li_attempt l < attempts_of t"
    using log assms(3,4) by (fastforce simp: log_ok_def plain_launches_def)
  moreover have "distinct (map li_attempt ?ls)"
  proof -
    have "?ls = filter (\<lambda>l. li_taskkey l = key) (plain_launches hist)"
      by (simp add: plain_launches_def filter_filter conj_commute)
    moreover have "distinct (map (\<lambda>l. (li_taskkey l, li_attempt l)) (plain_launches hist))"
      using log by (simp add: log_ok_def)
    ultimately have "distinct (map (\<lambda>l. (li_taskkey l, li_attempt l)) ?ls)" by (simp add: distinct_map_filter)
    then show ?thesis by (auto simp: distinct_map inj_on_def)
  qed
  ultimately show ?thesis using distinct_bounded_length [of li_attempt ?ls "attempts_of t"] by (simp add: attempts_of_def)
qed

theorem launches_within_attempts_witness:
  "int (length (filter (\<lambda>l. \<not> li_is_sensor l \<and> li_taskkey l = ''a'') (launches (snd etl_pass)))) \<le> max 1 2"
proof -
  have e: "dict_get (b_tasks etl_claimed) ''a'' = Some (the (dict_get (b_tasks etl_claimed) ''a''))" by code_simp
  have t: "dict_get (by_id etl) (e_id (the (dict_get (b_tasks etl_claimed) ''a''))) = Some (plain_task ''a'' [])"
    by code_simp
  from launches_within_attempts [OF wf_etl etl_reachable e t] show ?thesis by (simp add: plain_task_def)
qed

subsection \<open>One pass\<close>

text \<open>
  C30. One claim pass launches at most 32 instances, no instance twice, and every launched instance
  is \<open>running\<close> under the caller's token, at the launched attempt, in the document it writes.
\<close>

theorem pass_launches_bounded:
  assumes "wf_spec spec" and "claim_pass spec now proc host (body, empty_result) = (body', res)"
  shows "length (launches res) \<le> 32 \<and> distinct (map li_taskkey (launches res)) \<and>
    list_all (\<lambda>l. case dict_get (b_tasks body') (li_taskkey l) of None \<Rightarrow> False
      | Some e \<Rightarrow> e_state e = RUNNING \<and> e_proc e = Some proc \<and> e_attempt e = li_attempt l) (launches res)"
  using claim_pass_facts(1) [OF assms]
  by (auto simp: pass_inv_def launch_ok_def list_all_iff MAX_CLAIMS_PER_PASS_def split: option.splits)

theorem pass_launches_bounded_witness:
  "length (launches (snd (claim_pass etl 101 ''p'' ''h'' (etl_run, empty_result)))) \<le> 32 \<and>
   distinct (map li_taskkey (launches (snd (claim_pass etl 101 ''p'' ''h'' (etl_run, empty_result)))))"
  using pass_launches_bounded [OF wf_etl prod.collapse [symmetric], of 101 "''p''" "''h''" etl_run] by blast

text \<open>
  C29. An instance that a pass launches out of \<open>pending\<close> belongs to a task whose dependencies (those
  that are part of the run) are all terminal in the document the pass writes, and all successful
  when the task's trigger rule is \<open>all_success\<close>.
\<close>

theorem launched_dependencies_done:
  assumes "wf_spec spec" and "claim_pass spec now proc host (body, empty_result) = (body', res)"
    and "l \<in> set (launches res)" and "pending_at body (li_taskkey l)"
  shows "\<exists>t. dict_get (by_id spec) (li_task_id l) = Some t \<and>
    (\<forall>d \<in> set (depends_on t). dict_get (b_tasks body') d \<noteq> None \<longrightarrow>
       terminal (effective_state spec body' d) \<and>
       (t_trigger_rule t = ALL_SUCCESS \<longrightarrow> effective_state spec body' d = SUCCESS))"
proof -
  have "launch_ok spec proc body body' l"
    using claim_pass_facts(1) [OF assms(1,2)] assms(3) by (auto simp: pass_inv_def list_all_iff)
  then obtain t where t: "t \<in> set (d_tasks spec)" "li_task_id l = t_id t" "deps_verdict spec body' t = V_ready"
    using assms(4) unfolding launch_ok_def by blast
  then show ?thesis using verdict_ready [OF t(3)] wf_spec_id(2) [OF assms(1) t(1)] by auto
qed

definition success_mark :: "TaskSpec \<Rightarrow> finish_mark" where
  "success_mark t = \<lparr>fm_taskkey = t_id t, fm_success = True, fm_exit_code = Some 0, fm_fail_reason = None,
     fm_task = t, fm_jitter = 0, fm_expected_proc = Some ''p'', fm_expected_attempt = Some 0,
     fm_expected_poke = None, fm_resources = None\<rparr>"

text \<open>The first task has succeeded.\<close>

definition etl_half :: run_body where
  "etl_half = stored etl_claimed (mark_tasks_finished [success_mark (plain_task ''a'' [])] 110 (Some etl_claimed))"

theorem launched_dependencies_done_witness:
  "\<exists>t. dict_get (by_id etl) ''b'' = Some t \<and>
    (\<forall>d \<in> set (depends_on t). dict_get (b_tasks (fst (claim_pass etl 111 ''p'' ''h'' (etl_half, empty_result)))) d \<noteq> None \<longrightarrow>
       terminal (effective_state etl (fst (claim_pass etl 111 ''p'' ''h'' (etl_half, empty_result))) d) \<and>
       (t_trigger_rule t = ALL_SUCCESS \<longrightarrow>
          effective_state etl (fst (claim_pass etl 111 ''p'' ''h'' (etl_half, empty_result))) d = SUCCESS))"
proof -
  let ?r = "claim_pass etl 111 ''p'' ''h'' (etl_half, empty_result)"
  have l: "hd (launches (snd ?r)) \<in> set (launches (snd ?r))" by (rule hd_in_set) code_simp
  have p: "pending_at etl_half (li_taskkey (hd (launches (snd ?r))))" by code_simp
  have k: "li_task_id (hd (launches (snd ?r))) = ''b''" by code_simp
  from launched_dependencies_done [OF wf_etl prod.collapse [symmetric] l p] show ?thesis unfolding k .
qed

subsection \<open>Progress and finality\<close>

text \<open>
  C4. No reachable run is stuck: when the run is not terminal, no mapped task waits for its item
  list and no entry waits for a subprocess, an operator, a retry instant or a poke instant, the
  next pass changes the document.
\<close>

theorem run_never_stuck:
  assumes "wf_spec spec" and "reachable spec body hist" and "\<not> is_terminal_run body"
    and "tasks_awaiting_expansion spec body = []" and "\<forall>(k, e) \<in> set (b_tasks body). \<not> awaited now e"
  shows "changed (snd (full_pass spec now proc host [] body))"
  using pass_makes_progress [OF assms(1) reachable_inv [OF assms(1,2)] reachable_complete [OF assms(1,2)] assms(3-5)]
  by (simp add: full_pass_def apply_expansions_def)

theorem run_never_stuck_witness:
  "\<not> is_terminal_run etl_half \<and> changed (snd (full_pass etl 111 ''p'' ''h'' [] etl_half))"
proof -
  have m: "list_all (mark_for etl) [success_mark (plain_task ''a'' [])]" by code_simp
  have "run_step etl (etl_claimed, launches (snd etl_pass)) (etl_half, launches (snd etl_pass))"
    unfolding etl_half_def
    by (rule rs_finish [OF prod.collapse [symmetric] m stored_written [OF marks_no_delete]])
  then have r: "reachable etl etl_half (launches (snd etl_pass))" by (rule reach_step [OF etl_reachable])
  have t: "\<not> is_terminal_run etl_half" and aw: "tasks_awaiting_expansion etl etl_half = []"
    and "list_all (\<lambda>(k, e). \<not> awaited 111 e) (b_tasks etl_half)" by code_simp+
  then have "\<forall>(k, e) \<in> set (b_tasks etl_half). \<not> awaited 111 e" by (simp add: list_all_iff)
  with run_never_stuck [OF wf_etl r t aw] t show ?thesis by blast
qed

text \<open>
  C28. A task instance that is finished (success, failed, skipped, upstream failed) keeps its whole
  entry under every step of the run: no pass, recovery, late pid, late or duplicate completion or
  approval decision reopens or rewrites it.
\<close>

theorem finished_instance_is_final:
  assumes "wf_spec spec" and "reachable spec body hist" and "(run_step spec)\<^sup>*\<^sup>* (body, hist) (body', hist')"
    and "dict_get (b_tasks body) key = Some e" and "final_entry spec e"
  shows "dict_get (b_tasks body') key = Some e"
proof -
  have "reachable spec body' hist' \<and> dict_get (b_tasks body') key = Some e"
    using assms(3)
  proof (induction "(body', hist')" arbitrary: body' hist' rule: rtranclp_induct)
    case base
    then show ?case using assms(2,4) by simp
  next
    case (step st)
    obtain b h where st: "st = (b, h)" by (cases st)
    then have "reachable spec b h" "dict_get (b_tasks b) key = Some e" using step.hyps(3) by auto
    then show ?case
      using run_step_final [OF assms(1) reachable_inv [OF assms(1)] _ _ assms(5)] reach_step step.hyps(2) st by blast
  qed
  then show ?thesis by blast
qed

text \<open>The duplicate of a completion leaves the finished entry alone.\<close>

theorem finished_instance_is_final_witness:
  "dict_get (b_tasks (finish_own [success_mark (plain_task ''a'' [])] 120 etl etl_half)) ''a'' =
   dict_get (b_tasks etl_half) ''a''"
proof -
  have m: "list_all (mark_for etl) [success_mark (plain_task ''a'' [])]" by code_simp
  have "run_step etl (etl_claimed, launches (snd etl_pass)) (etl_half, launches (snd etl_pass))"
    unfolding etl_half_def
    by (rule rs_finish [OF prod.collapse [symmetric] m stored_written [OF marks_no_delete]])
  then have r: "reachable etl etl_half (launches (snd etl_pass))" by (rule reach_step [OF etl_reachable])
  have "run_step etl (etl_half, launches (snd etl_pass))
      (finish_own [success_mark (plain_task ''a'' [])] 120 etl etl_half, launches (snd etl_pass))"
    unfolding finish_own_def
    by (rule rs_finish [OF prod.collapse [symmetric] _ stored_written [OF marks_no_delete]]) (simp add: list_all_iff)
  note s = r_into_rtranclp [of "run_step etl", OF this]
  have e: "dict_get (b_tasks etl_half) ''a'' = Some (the (dict_get (b_tasks etl_half) ''a''))" by code_simp
  have f: "final_entry etl (the (dict_get (b_tasks etl_half) ''a''))" by code_simp
  from finished_instance_is_final [OF wf_etl r s e f] e show ?thesis by simp
qed

subsection \<open>Fan-out\<close>

lemma expansions_mapped:
  assumes "wf_spec spec" and "dict_get (b_mapped body) tid = Some m"
  shows "dict_get (b_mapped (fst (apply_expansions spec exps now (body, r)))) tid = Some m"
  using assms(2) unfolding apply_expansions_def
proof (induction exps arbitrary: body r)
  case (Cons x exps)
  obtain k items where x: "x = (k, items)" by (cases x)
  obtain body' r' where a: "apply_expansion spec now k items (body, r) = (body', r')" by fastforce
  from assms(1) a have "dict_get (b_mapped body') tid = Some m"
    by (cases rule: apply_expansion_cases)
      (use Cons.prems in \<open>auto simp: expanded_body_def Let_def add_instances_mapped split: option.splits\<close>)
  then show ?case using Cons.IH by (simp add: x a)
qed simp

lemma full_pass_mapped:
  assumes "wf_spec spec" and "dict_get (b_mapped body) tid = Some m"
  shows "dict_get (b_mapped (fst (full_pass spec now proc host exps body))) tid = Some m"
proof -
  obtain b0 r0 where a: "apply_expansions spec exps now (body, empty_result) = (b0, r0)" by fastforce
  have "dict_get (b_mapped b0) tid = Some m" using expansions_mapped [OF assms, of exps now empty_result] a by simp
  then show ?thesis using claim_pass_le [OF assms(1), of b0 now proc host r0] by (simp add: full_pass_def a body_le_def)
qed

text \<open>
  The item list of a mapped task is recorded once: no step of the run, in particular no later
  pass with another pre-read list, changes it, so a resumed run has the same instances.
\<close>

theorem fan_out_recorded_once:
  assumes "wf_spec spec" and "run_step spec (body, hist) (body', hist')" and "dict_get (b_mapped body) tid = Some m"
  shows "dict_get (b_mapped body') tid = Some m"
  using assms(2)
proof (cases rule: run_step.cases)
  case (rs_plan now proc host exps w res)
  then have "body' = body \<or> body' = stamp now (fst (full_pass spec now proc host exps body))"
    using stored_plan [of body spec now proc host exps] by (auto simp: stored_eq)
  then show ?thesis using assms(3) full_pass_mapped [OF assms(1,3), of now proc host exps] by auto
next
  case (rs_advance now proc host alive w rres)
  obtain working n where rb: "reconcile_body spec now proc host alive body = (working, n)" by fastforce
  have wm: "b_mapped working = b_mapped body" using rb by (auto simp: reconcile_body_def split: prod.splits)
  have "b_mapped (fst (claim_pass spec now proc host (working, empty_result))) = b_mapped working"
    using claim_pass_le [OF assms(1), of working now proc host empty_result] by (simp add: body_le_def)
  then show ?thesis
    using rs_advance assms(3) rb wm by (auto simp: reconcile_and_plan_def Let_def split: if_splits prod.splits)
next
  case (rs_reconcile now proc host alive w n)
  then show ?thesis
    using assms(3) by (auto simp: reconcile_crashed_def reconcile_body_def split: if_splits prod.splits)
next
  case (rs_pids pms now w n)
  then show ?thesis using assms(3) by (auto simp: set_task_pids_def split: if_splits prod.splits)
next
  case (rs_finish fms now w ks)
  then show ?thesis using assms(3) by (auto simp: mark_tasks_finished_def split: if_splits prod.splits)
next
  case (rs_approval key approved who now rs w ares)
  then show ?thesis using assms(3) by (auto simp: apply_approval_def Let_def split: option.splits if_splits)
qed

text \<open>A fan-out over one item, whose source has succeeded.\<close>

definition fan :: DagSpec where
  "fan = build ''fan'' [plain_task ''a'' [],
     (plain_task ''m'' [''a''])\<lparr>expand := Some \<lparr>from_task = ''a'', ex_key = ''k''\<rparr>\<rparr>]"

definition fan_run :: run_body where
  "fan_run =
     (let b0 = new_run_body ''fan'' ''k'' ''r'' None ''manual'' 100 fan;
          b1 = stored b0 (plan_and_claim fan 101 ''p'' ''h'' [] (Some b0))
      in stored b1 (mark_tasks_finished [success_mark (plain_task ''a'' [])] 110 (Some b1)))"

definition fan_out :: run_body where
  "fan_out = stored fan_run (plan_and_claim fan 111 ''p'' ''h'' [(''m'', Some [JNum 7])] (Some fan_run))"

lemma wf_fan: "wf_spec fan"
  unfolding fan_def by (rule wf_spec_build) code_simp

theorem fan_out_recorded_once_witness:
  "map_option m_items (dict_get (b_mapped fan_out) ''m'') = Some [JNum 7] \<and>
   dict_get (b_mapped (stored fan_out
     (plan_and_claim fan 112 ''p'' ''h'' [(''m'', Some [JNum 1, JNum 2])] (Some fan_out)))) ''m'' =
   dict_get (b_mapped fan_out) ''m''"
proof -
  have m: "map_option m_items (dict_get (b_mapped fan_out) ''m'') = Some [JNum 7]" by code_simp
  then obtain info where info: "dict_get (b_mapped fan_out) ''m'' = Some info" by auto
  have "run_step fan (fan_out, []) (stored fan_out (plan_and_claim fan 112 ''p'' ''h'' [(''m'', Some [JNum 1, JNum 2])]
      (Some fan_out)), [] @ launches (snd (plan_and_claim fan 112 ''p'' ''h'' [(''m'', Some [JNum 1, JNum 2])] (Some fan_out))))"
    by (rule rs_plan [OF prod.collapse [symmetric] stored_written [OF plan_no_delete]])
  from fan_out_recorded_once [OF wf_fan this info] m info show ?thesis by simp
qed

subsection \<open>A reload that stops mapping a task\<close>

lemma expanded_step:
  assumes "wf_spec spec" and "t \<in> set (d_tasks spec)" and "expand t = None"
    and "dict_get (b_tasks body) (t_id t) = Some e" and "e_state e = EXPANDED"
    and "claim_step spec now proc host (body, r) (body', r')"
  shows "dict_get (b_tasks body') (t_id t) = Some e"
  using assms(6)
proof (cases rule: claim_step.cases)
  case (step_instance task key mi item entry entry')
  then show ?thesis using assms(4,5) by (cases "key = t_id t") (auto simp: advance_task_def)
next
  case (step_placeholder task ex)
  have ne: "t_id task \<noteq> t_id t" using wf_spec_inj [OF assms(1) step_placeholder(2) assms(2)] step_placeholder(3) assms(3) by auto
  from step_placeholder(1) [symmetric] show ?thesis
    by (cases rule: placeholder_cases) (use assms(4) ne in auto)
qed

lemma claim_step_run:
  assumes "claim_step spec now proc host (body, r) (body', r')"
  shows "b_state body' = b_state body \<and> run_terminal r' = run_terminal r"
  using assms
proof (cases rule: claim_step.cases)
  case (step_instance task key mi item entry entry')
  have "run_terminal r' = run_terminal r"
    using step_instance(5)
    by (auto simp: advance_task_def advance_running_def claim_task_def claims_full_def terminalise_task_def Let_def
        split: if_splits verdict.splits)
  then show ?thesis using step_instance(1) by simp
next
  case (step_placeholder task ex)
  from step_placeholder(1) [symmetric] show ?thesis
    by (cases rule: placeholder_cases) (auto simp: terminalise_task_def)
qed

text \<open>
  When a reload drops \<open>expand\<close> from a task whose group placeholder is already marked expanded,
  no pass ever moves that entry again and none finishes the run, whatever has become of the
  instances.
\<close>

theorem unmapped_placeholder_wedges_run:
  assumes "wf_spec spec" and "t \<in> set (d_tasks spec)" and "expand t = None"
    and "dict_get (b_tasks body) (t_id t) = Some e" and "e_state e = EXPANDED"
    and "claim_pass spec now proc host (body, empty_result) = (body', res)"
  shows "dict_get (b_tasks body') (t_id t) = Some e \<and> b_state body' = b_state body \<and> \<not> run_terminal res"
proof -
  obtain body1 r1 where p: "propagate_and_claim spec now proc host (body, empty_result) = (body1, r1)" by fastforce
  have steps: "claim_steps spec now proc host (body, empty_result) (body1, r1)"
    using propagate_steps [OF assms(1), of now proc host "(body, empty_result)"] p by simp
  have e: "dict_get (b_tasks body1) (t_id t) = Some e \<and> b_state body1 = b_state body \<and> \<not> run_terminal r1"
    using steps
  proof (induction "(body1, r1)" arbitrary: body1 r1 rule: rtranclp_induct)
    case base
    then show ?case using assms(4) by (simp add: empty_result_def)
  next
    case (step st)
    obtain b r where st: "st = (b, r)" by (cases st)
    show ?case
      using step.hyps st expanded_step [OF assms(1-3) _ assms(5)] claim_step_run by metis
  qed
  have "consulted_states body1 (d_tasks spec) = Some states \<Longrightarrow> \<not> list_all terminal states" for states
    using consulted_states_mem [OF _ assms(2), of body1 states] e assms(3,5)
    by (auto simp: consulted_def instances_of_def map_filter_def list_all_iff terminal_def)
  then have "(body', res) = (body1, r1)"
    using assms(6) by (auto simp: claim_pass_def p maybe_terminalise_def split: option.splits)
  with e show ?thesis by simp
qed

definition fan_unmapped :: DagSpec where
  "fan_unmapped = build ''fan'' [plain_task ''a'' [], plain_task ''m'' [''a'']]"

text \<open>The one instance has succeeded as well.\<close>

definition fan_finished :: run_body where
  "fan_finished = stored fan_out
     (mark_tasks_finished [(success_mark (plain_task ''m'' [''a'']))\<lparr>fm_taskkey := ''m#0''\<rparr>] 120 (Some fan_out))"

theorem unmapped_placeholder_wedges_run_witness:
  "map (\<lambda>(k, e). (k, e_state e)) (b_tasks fan_finished) = [(''a'', SUCCESS), (''m'', EXPANDED), (''m#0'', SUCCESS)] \<and>
   run_terminal (snd (claim_pass fan 130 ''p'' ''h'' (fan_finished, empty_result))) \<and>
   \<not> run_terminal (snd (claim_pass fan_unmapped 130 ''p'' ''h'' (fan_finished, empty_result)))"
proof -
  have wf: "wf_spec fan_unmapped" unfolding fan_unmapped_def by (rule wf_spec_build) code_simp
  have t: "plain_task ''m'' [''a''] \<in> set (d_tasks fan_unmapped)" by (simp add: fan_unmapped_def build_def)
  have x: "expand (plain_task ''m'' [''a'']) = None" by (simp add: plain_task_def)
  have e: "dict_get (b_tasks fan_finished) (t_id (plain_task ''m'' [''a''])) =
      Some (the (dict_get (b_tasks fan_finished) ''m''))" by code_simp
  have st: "e_state (the (dict_get (b_tasks fan_finished) ''m'')) = EXPANDED" by code_simp
  have "map (\<lambda>(k, e). (k, e_state e)) (b_tasks fan_finished) = [(''a'', SUCCESS), (''m'', EXPANDED), (''m#0'', SUCCESS)]"
    by code_simp
  moreover have "run_terminal (snd (claim_pass fan 130 ''p'' ''h'' (fan_finished, empty_result)))" by code_simp
  ultimately show ?thesis
    using unmapped_placeholder_wedges_run [OF wf t x e st prod.collapse [symmetric], of 130 "''p''" "''h''"] by blast
qed

end
