(* ===== verification/DriverProps.thy ===== *)
theory DriverProps
  imports DagAdvance DagProps
begin

text \<open>
  Properties of the DAG driver over the document store: what is launched across nodes, the retry
  queue, the lease check and the next wake.
\<close>

subsection \<open>Launches across nodes\<close>

text \<open>
  C3. Over the filesystem store, whichever nodes work on a run and whichever of their store accesses
  fail, no attempt of a plain task instance is launched twice: not among all the claims answered so
  far, nor by the next advance of any node.
\<close>

theorem run_launches_once_across_nodes:
  assumes "wf_spec spec"
    and "fs_docs.history h ok (run_namespace dag) rk (run_op_transform spec) docs evs docs1"
    and "doc_stored h docs (run_namespace dag) rk = None" and "\<forall>e \<in> set evs. op_ok spec (fst e)"
    and "do_advance (run_store h ok spec dag rk) pe spec docs1 = (docs2, y)"
  shows "distinct (map (\<lambda>l. (li_taskkey l, li_attempt l))
    (filter (\<lambda>l. \<not> li_is_sensor l) (launched evs @ (case y of Inl x \<Rightarrow> [] | Inr out \<Rightarrow> po_launched out))))"
proof -
  have once: "distinct (map (\<lambda>l. (li_taskkey l, li_attempt l)) (filter (\<lambda>l. \<not> li_is_sensor l) ls))"
    if "tracks spec ls v" for ls v
    using that reachable_inv [OF assms(1)]
    by (cases v) (auto simp: tracks_def run_inv_def log_ok_def plain_launches_def)
  show ?thesis
  proof (cases y)
    case (Inl x)
    then show ?thesis using once [OF history_tracks [OF assms(2-4)]] by simp
  next
    case (Inr out)
    from advance_claims [of h ok spec dag rk pe docs1 docs2 out] assms(5) Inr
    obtain evs' docs_c before where
      "fs_docs.history h ok (run_namespace dag) rk (run_op_transform spec) docs1 evs' docs_c"
      and ok: "\<forall>e \<in> set evs'. op_ok spec (fst e)" and "launched evs' = before @ po_launched out"
      by blast
    moreover from this(1) assms(2)
    have "fs_docs.history h ok (run_namespace dag) rk (run_op_transform spec) docs (evs @ evs') docs_c"
      by (rule fs_docs.history_append)
    from history_tracks [OF this assms(3)] assms(4) ok
    have "tracks spec (launched (evs @ evs')) (doc_stored h docs_c (run_namespace dag) rk)" by auto
    moreover have "launched (evs @ evs') = launched evs @ before @ po_launched out"
      using calculation(3) by (simp add: launched_def)
    ultimately show ?thesis
      using once [of "launched evs @ before @ po_launched out"] Inr by simp blast
  qed
qed

definition good_io :: io where
  "good_io = \<lparr>lock_ok = True, read_ok = True, write_ok = True, clock = 100, file_clock = 100\<rparr>"

definition sample_pass :: pass_env where
  "sample_pass =
     \<lparr>io_advance = good_io, io_claim = good_io, io_pids = good_io, io_finish = (\<lambda>_. good_io),
      clock_advance = 101, clock_claim = 101, clock_finish = (\<lambda>_. 102), clock_pids = 102,
      proc_token = ''p'', state_host = ''h'', pid_alive = (\<lambda>_. True), draw_jitter = (\<lambda>_. 0),
      read_xcom = (\<lambda>_ _ _. None), start_task = (\<lambda>_. Started (Some 7))\<rparr>"

definition created :: "run_body docs \<times> (unit doc_error, run_body option \<times> run_answer) result" where
  "created = run_store id (\<lambda>_. True) etl ''etl'' ''k''
     (CreateDoc ''etl'' ''k'' ''r'' None ''scheduled'' 100) good_io (\<lambda>_. None)"

definition first_advance :: "run_body docs \<times> (unit doc_error, pass_out) result" where
  "first_advance = do_advance (run_store id (\<lambda>_. True) etl ''etl'' ''k'') sample_pass etl (fst created)"

theorem run_launches_once_across_nodes_witness:
  "(case snd first_advance of Inl x \<Rightarrow> [] | Inr out \<Rightarrow> map (\<lambda>l. (li_taskkey l, li_attempt l)) (po_launched out)) =
     [(''a'', 0)] \<and>
   distinct (map (\<lambda>l. (li_taskkey l, li_attempt l)) (filter (\<lambda>l. \<not> li_is_sensor l)
     (case snd first_advance of Inl x \<Rightarrow> [] | Inr out \<Rightarrow> po_launched out)))"
proof
  show "(case snd first_advance of Inl x \<Rightarrow> [] | Inr out \<Rightarrow> map (\<lambda>l. (li_taskkey l, li_attempt l)) (po_launched out)) =
     [(''a'', 0)]"
    by code_simp
  let ?op = "CreateDoc ''etl'' ''k'' ''r'' None ''scheduled'' 100"
  have "fs_docs.history id (\<lambda>_. True) (run_namespace ''etl'') ''k'' (run_op_transform etl) (\<lambda>_. None)
      ([] @ [(?op, snd created)]) (fst created)"
    by (rule fs_docs.history.operation [OF fs_docs.history.start, where env = good_io])
      (simp add: created_def run_mutate_def)
  moreover have "do_advance (run_store id (\<lambda>_. True) etl ''etl'' ''k'') sample_pass etl (fst created) =
      (fst first_advance, snd first_advance)"
    by (simp add: first_advance_def)
  ultimately show "distinct (map (\<lambda>l. (li_taskkey l, li_attempt l)) (filter (\<lambda>l. \<not> li_is_sensor l)
     (case snd first_advance of Inl x \<Rightarrow> [] | Inr out \<Rightarrow> po_launched out)))"
    using run_launches_once_across_nodes [OF wf_etl, of id "\<lambda>_. True" "''etl''" "''k''" "\<lambda>_. None"]
    by (fastforce simp: doc_stored_def files_of_def op_ok_def)
qed

end
