(* ===== verification/JobState.thy ===== *)
theory JobState
  imports StateDocs JsonValues
begin

text \<open>
  The job-facing primitives of \<open>jobstate.py\<close> over the document store: scopes, size and portability
  checks, key/value pairs, cursors and idempotency claims.  A stored body is a JSON object; a
  failure a job can provoke is a \<open>JobStateError\<close> with its HTTP status, everything else is the
  store's own error.  Clock readings taken by \<open>_now()\<close> are arguments.
\<close>

subsection \<open>Errors, scopes and values\<close>

datatype job_raise = JobStateError int | TypeError

datatype job_error = Job job_raise | Store "job_raise doc_error"

definition lift_doc :: "(job_raise doc_error, 'a) result \<Rightarrow> (job_error, 'a) result" where
  "lift_doc r =
     (case r of
        Inl (Raised e) \<Rightarrow> Inl (Job e)
      | Inl e \<Rightarrow> Inl (Store e)
      | Inr x \<Rightarrow> Inr x)"

text \<open>\<open>scope.strip()\<close> on ASCII text.\<close>

definition strip :: "string \<Rightarrow> string" where
  "strip s = rev (dropWhile is_space (rev (dropWhile is_space s)))"

definition require_scope :: "string \<Rightarrow> (job_error, string) result" where
  "require_scope scope =
     (if scope = [] \<or> strip scope = [] then Inl (Job (JobStateError 400))
      else if scope \<noteq> strip scope then Inl (Job (JobStateError 400))
      else Inr scope)"

definition STORE_WRAPPER_DEPTH :: nat where
  "STORE_WRAPPER_DEPTH = 2"

definition as_stored :: "json \<Rightarrow> json" where
  "as_stored v = ((\<lambda>w. JObject [(''data'', w)]) ^^ STORE_WRAPPER_DEPTH) v"

text \<open>\<open>size_of\<close> is the length of the serialised value (\<open>orjson\<close> or the standard library).\<close>

definition check_size :: "(json \<Rightarrow> nat) \<Rightarrow> json \<Rightarrow> nat \<Rightarrow> (job_error, unit) result" where
  "check_size size_of v max_bytes =
     (if \<not> ensure_portable (as_stored v) 0 then Inl (Job (JobStateError 400))
      else if max_bytes > 0 \<and> size_of v > max_bytes then Inl (Job (JobStateError 413))
      else Inr ())"

text \<open>What the store's serialiser accepts: the body in its record wrapper.\<close>

definition doc_portable :: "body \<Rightarrow> bool" where
  "doc_portable body =
     ensure_portable (JObject [(''schemaVersion'', JString ''v1''), (''data'', JObject body)]) 0"

subsection \<open>Key/value pairs\<close>

definition kv_get ::
  "(string \<Rightarrow> string) \<Rightarrow> io \<Rightarrow> string \<Rightarrow> string \<Rightarrow> body docs \<Rightarrow> (job_error, body option) result" where
  "kv_get h env scope key docs =
     bind_result (require_scope scope) (\<lambda>sc. Inr (read_document h env (''kv/'' @ sc) key docs))"

definition kv_body :: "string \<Rightarrow> json \<Rightarrow> real \<Rightarrow> body" where
  "kv_body key v now = [(''key'', JString key), (''value'', v), (''updatedAt'', JNum now)]"

definition put_transform :: "body \<Rightarrow> body option \<Rightarrow> (job_raise, body doc_write \<times> unit) result" where
  "put_transform body current = Inr (DOC_PUT body, ())"

definition kv_set ::
  "(string \<Rightarrow> string) \<Rightarrow> (json \<Rightarrow> nat) \<Rightarrow> io \<Rightarrow> real \<Rightarrow> string \<Rightarrow> string \<Rightarrow> json \<Rightarrow> nat \<Rightarrow> body docs \<Rightarrow>
   body docs \<times> (job_error, body) result" where
  "kv_set h size_of env now scope key v max_bytes docs =
     (case bind_result (check_size size_of v max_bytes) (\<lambda>_. require_scope scope) of
        Inl e \<Rightarrow> (docs, Inl e)
      | Inr sc \<Rightarrow>
          (case mutate_document h doc_portable env (''kv/'' @ sc) key (put_transform (kv_body key v now)) docs of
             (docs', r) \<Rightarrow> (docs', bind_result (lift_doc r) (\<lambda>_. Inr (kv_body key v now)))))"

definition kv_delete ::
  "(string \<Rightarrow> string) \<Rightarrow> io \<Rightarrow> string \<Rightarrow> string \<Rightarrow> body docs \<Rightarrow> body docs \<times> (job_error, bool) result" where
  "kv_delete h env scope key docs =
     (case require_scope scope of
        Inl e \<Rightarrow> (docs, Inl e)
      | Inr sc \<Rightarrow>
          (case delete_document h doc_portable env (''kv/'' @ sc) key docs of (docs', r) \<Rightarrow> (docs', lift_doc r)))"

text \<open>Bodies sort by \<open>str(b.get("key", ""))\<close>; \<open>str_of\<close> is \<open>str\<close> on values that are not strings.\<close>

definition key_text :: "(json \<Rightarrow> string) \<Rightarrow> body \<Rightarrow> string" where
  "key_text str_of b =
     (case dict_get b ''key'' of None \<Rightarrow> [] | Some (JString s) \<Rightarrow> s | Some v \<Rightarrow> str_of v)"

definition kv_list ::
  "(string \<Rightarrow> string) \<Rightarrow> (json \<Rightarrow> string) \<Rightarrow> bool \<Rightarrow> (string \<Rightarrow> io) \<Rightarrow> string \<Rightarrow> body docs \<Rightarrow>
   (job_error, body list) result" where
  "kv_list h str_of listed envs scope docs =
     bind_result (require_scope scope) (\<lambda>sc.
       case list_documents h listed envs (''kv/'' @ sc) docs of
         Inl e \<Rightarrow> Inl (Store (StoreFailed e))
       | Inr bodies \<Rightarrow> Inr (sort_key (key_text str_of) bodies))"

subsection \<open>Cursors\<close>

definition cursor_get ::
  "(string \<Rightarrow> string) \<Rightarrow> io \<Rightarrow> string \<Rightarrow> string \<Rightarrow> body docs \<Rightarrow> (job_error, body option) result" where
  "cursor_get h env scope name docs =
     bind_result (require_scope scope) (\<lambda>sc. Inr (read_document h env (''cursor/'' @ sc) name docs))"

text \<open>\<open>current.get("value") if current else None\<close>: a missing value reads as null.\<close>

definition cursor_value :: "body option \<Rightarrow> json" where
  "cursor_value current =
     (case current of
        None \<Rightarrow> JNull
      | Some b \<Rightarrow> (case dict_get b ''value'' of None \<Rightarrow> JNull | Some v \<Rightarrow> v))"

definition advance_transform ::
  "string \<Rightarrow> json \<Rightarrow> bool \<Rightarrow> real \<Rightarrow> body option \<Rightarrow> (job_raise, body doc_write \<times> (json \<times> bool)) result" where
  "advance_transform name v force now current =
     (let cur = cursor_value current
      in bind_result
           (if force \<or> cur = JNull then Inr v
            else (case py_gt v cur of
                    None \<Rightarrow> Inl (JobStateError 409)
                  | Some gt \<Rightarrow> Inr (if gt then v else cur)))
           (\<lambda>new. if \<not> (current = None \<or> \<not> py_eq new cur) then Inr (DOC_KEEP, (cur, False))
                  else Inr (DOC_PUT [(''name'', JString name), (''value'', new), (''updatedAt'', JNum now)],
                            (new, True))))"

definition cursor_advance ::
  "(string \<Rightarrow> string) \<Rightarrow> (json \<Rightarrow> nat) \<Rightarrow> io \<Rightarrow> real \<Rightarrow> string \<Rightarrow> string \<Rightarrow> json \<Rightarrow> bool \<Rightarrow> nat \<Rightarrow> body docs \<Rightarrow>
   body docs \<times> (job_error, json \<times> bool) result" where
  "cursor_advance h size_of env now scope name v force max_bytes docs =
     (case bind_result (check_size size_of v max_bytes) (\<lambda>_. require_scope scope) of
        Inl e \<Rightarrow> (docs, Inl e)
      | Inr sc \<Rightarrow>
          (case mutate_document h doc_portable env (''cursor/'' @ sc) name (advance_transform name v force now) docs of
             (docs', r) \<Rightarrow> (docs', bind_result (lift_doc r) (\<lambda>(_, res). Inr res))))"

subsection \<open>Idempotency claims\<close>

definition claim_transform ::
  "string \<Rightarrow> real \<Rightarrow> real \<Rightarrow> body option \<Rightarrow> (job_raise, body doc_write \<times> (bool \<times> json)) result" where
  "claim_transform key ttl now current =
     (let win = Inr (DOC_PUT ([(''key'', JString key), (''claimedAt'', JNum now)] @
                       (if ttl > 0 then [(''expiresAt'', JNum (now + ttl))] else [])), (True, JNum now))
      in case current of
           None \<Rightarrow> win
         | Some b \<Rightarrow>
             (let lose = Inr (DOC_KEEP, (False, case dict_get b ''claimedAt'' of None \<Rightarrow> JNull | Some v \<Rightarrow> v))
              in case dict_get b ''expiresAt'' of
                   None \<Rightarrow> lose
                 | Some expires \<Rightarrow>
                     if expires = JNull then lose
                     else (case num_of expires of
                             None \<Rightarrow> Inl TypeError
                           | Some e \<Rightarrow> if e > now then lose else win)))"

definition idempotency_claim ::
  "(string \<Rightarrow> string) \<Rightarrow> io \<Rightarrow> real \<Rightarrow> string \<Rightarrow> string \<Rightarrow> real \<Rightarrow> body docs \<Rightarrow>
   body docs \<times> (job_error, bool \<times> json) result" where
  "idempotency_claim h env now scope key ttl docs =
     (case require_scope scope of
        Inl e \<Rightarrow> (docs, Inl e)
      | Inr sc \<Rightarrow>
          (case mutate_document h doc_portable env (''idem/'' @ sc) key (claim_transform key ttl now) docs of
             (docs', r) \<Rightarrow> (docs', bind_result (lift_doc r) (\<lambda>(_, res). Inr res))))"

definition idempotency_release ::
  "(string \<Rightarrow> string) \<Rightarrow> io \<Rightarrow> string \<Rightarrow> string \<Rightarrow> body docs \<Rightarrow> body docs \<times> (job_error, bool) result" where
  "idempotency_release h env scope key docs =
     (case require_scope scope of
        Inl e \<Rightarrow> (docs, Inl e)
      | Inr sc \<Rightarrow>
          (case delete_document h doc_portable env (''idem/'' @ sc) key docs of (docs', r) \<Rightarrow> (docs', lift_doc r)))"

subsection \<open>Facts shared by the primitives\<close>

lemma require_scope_Inr: "require_scope scope = Inr sc \<Longrightarrow> sc = scope"
  by (auto simp: require_scope_def split: if_splits)

lemma lift_doc_Inr [simp]: "lift_doc r = Inr x \<longleftrightarrow> r = Inr x"
  by (auto simp: lift_doc_def split: sum.splits doc_error.splits)

text \<open>
  A value that passed the pre-flight check passes the serialiser wherever it is stored one level
  below the body.
\<close>

lemma check_size_portable:
  assumes "check_size size_of v max_bytes = Inr ()"
  shows "ensure_portable v 2"
  using assms
  by (auto simp: check_size_def as_stored_def STORE_WRAPPER_DEPTH_def numeral_2_eq_2 split: if_splits)

lemma doc_portable_iff: "doc_portable b \<longleftrightarrow> list_all (\<lambda>kv. ensure_portable (snd kv) 2) b"
  by (simp add: doc_portable_def MAX_DEPTH_def numeral_2_eq_2)

text \<open>What each wrapper does with a store that answers.\<close>

lemma cursor_advance_cases:
  assumes "cursor_advance h size_of env now scope name v force mb docs = (docs', y)"
  obtains (refused) e where "docs' = docs" "y = Inl e"
  | (asked) z where
      "mutate_document h doc_portable env (''cursor/'' @ scope) name (advance_transform name v force now) docs = (docs', z)"
      "y = bind_result (lift_doc z) (\<lambda>(_, res). Inr res)"
proof (cases "bind_result (check_size size_of v mb) (\<lambda>_. require_scope scope)")
  case (Inl e)
  with assms refused show ?thesis by (auto simp: cursor_advance_def)
next
  case (Inr sc)
  then have sc: "sc = scope" by (auto simp: bind_result_Inr dest: require_scope_Inr)
  obtain d z where
    m: "mutate_document h doc_portable env (''cursor/'' @ scope) name (advance_transform name v force now) docs = (d, z)"
    by (metis surj_pair)
  with assms Inr sc have "docs' = d" "y = bind_result (lift_doc z) (\<lambda>(_, res). Inr res)"
    by (simp_all add: cursor_advance_def)
  with m asked show ?thesis by simp
qed

lemma idempotency_claim_cases:
  assumes "idempotency_claim h env now scope key ttl docs = (docs', y)"
  obtains (refused) e where "docs' = docs" "y = Inl e"
  | (asked) z where
      "mutate_document h doc_portable env (''idem/'' @ scope) key (claim_transform key ttl now) docs = (docs', z)"
      "y = bind_result (lift_doc z) (\<lambda>(_, res). Inr res)"
proof (cases "require_scope scope")
  case (Inl e)
  with assms refused show ?thesis by (auto simp: idempotency_claim_def)
next
  case (Inr sc)
  obtain d z where
    m: "mutate_document h doc_portable env (''idem/'' @ scope) key (claim_transform key ttl now) docs = (d, z)"
    by (metis surj_pair)
  with assms Inr require_scope_Inr [OF Inr] have "docs' = d" "y = bind_result (lift_doc z) (\<lambda>(_, res). Inr res)"
    by (simp_all add: idempotency_claim_def)
  with m asked show ?thesis by simp
qed

subsection \<open>Cursor histories\<close>

text \<open>
  Any number of nodes advancing one cursor, each advance with its outcome, and anything that
  leaves the cursor's document alone in between.
\<close>

inductive cursor_history ::
  "(string \<Rightarrow> string) \<Rightarrow> (json \<Rightarrow> nat) \<Rightarrow> string \<Rightarrow> string \<Rightarrow> body docs \<Rightarrow>
   (json \<times> (job_error, json \<times> bool) result) list \<Rightarrow> body docs \<Rightarrow> bool"
  for h size_of scope name s
where
  start: "cursor_history h size_of scope name s [] s"
| advance: "cursor_history h size_of scope name s evs t \<Longrightarrow>
    cursor_advance h size_of env now scope name v False max_bytes t = (t', y) \<Longrightarrow>
    cursor_history h size_of scope name s (evs @ [(v, y)]) t'"
| elsewhere: "cursor_history h size_of scope name s evs t \<Longrightarrow>
    doc_stored h t' (''cursor/'' @ scope) name = doc_stored h t (''cursor/'' @ scope) name \<Longrightarrow>
    cursor_history h size_of scope name s evs t'"

definition cursor_now :: "(string \<Rightarrow> string) \<Rightarrow> string \<Rightarrow> string \<Rightarrow> body docs \<Rightarrow> json" where
  "cursor_now h scope name docs = cursor_value (doc_stored h docs (''cursor/'' @ scope) name)"

text \<open>The values of the advances that returned.\<close>

definition advanced_to :: "(json \<times> (job_error, json \<times> bool) result) list \<Rightarrow> real set" where
  "advanced_to evs = {a. \<exists>e \<in> set evs. (\<exists>r. snd e = Inr r) \<and> num_of (fst e) = Some a}"

abbreviation numeric_or_null :: "json \<Rightarrow> bool" where
  "numeric_or_null v \<equiv> v = JNull \<or> num_of v \<noteq> None"

lemma num_of_JNull [simp]: "num_of JNull = None"
  by (simp add: num_of_def)

lemma advance_number:
  assumes "advance_transform name v False now current = Inr (w, r)" and "num_of v = Some a"
    and "numeric_or_null (cursor_value current)"
  shows "num_of (cursor_value (written current w)) =
           Some (case num_of (cursor_value current) of None \<Rightarrow> a | Some c \<Rightarrow> max c a)"
proof (cases "cursor_value current = JNull")
  case True
  have "\<not> py_eq v JNull" using num_py_eq [OF assms(2), of JNull] by simp
  with True assms(1,2) show ?thesis by (auto simp: advance_transform_def cursor_value_def [of "Some _"])
next
  case False
  with assms(3) obtain c where c: "num_of (cursor_value current) = Some c" by auto
  have gt: "py_gt v (cursor_value current) = Some (a > c)" by (rule num_py_gt [OF assms(2) c])
  have "py_eq v (cursor_value current) \<longleftrightarrow> c = a" and "py_eq (cursor_value current) (cursor_value current)"
    using num_py_eq [OF assms(2)] num_py_eq [OF c] c by auto
  moreover have "current \<noteq> None" using False by (cases current) (auto simp: cursor_value_def)
  ultimately show ?thesis using assms(1,2) False gt c
    by (auto simp: advance_transform_def cursor_value_def [of "Some _"] max_def split: if_splits)
qed

lemma advanced_to_simps [simp]:
  "advanced_to [] = {}"
  "advanced_to (evs @ [(v, Inl e)]) = advanced_to evs"
  "advanced_to (evs @ [(v, Inr r)]) = set_option (num_of v) \<union> advanced_to evs"
  by (auto simp: advanced_to_def)

lemma finite_advanced_to: "finite (advanced_to evs)"
proof -
  have "advanced_to evs \<subseteq> (\<lambda>e. the (num_of (fst e))) ` set evs" by (force simp: advanced_to_def)
  then show ?thesis using finite_surj by blast
qed

lemma Max_insert_option:
  "finite S \<Longrightarrow> (case (if S = {} then None else Some (Max S)) of None \<Rightarrow> a | Some c \<Rightarrow> max c a) = Max (insert (a :: real) S)"
  by (auto simp: max.commute)

lemma cursor_history_max:
  assumes "cursor_history h size_of scope name s evs t"
    and "numeric_or_null (cursor_now h scope name s)" and "\<forall>e \<in> set evs. num_of (fst e) \<noteq> None"
  defines "S \<equiv> set_option (num_of (cursor_now h scope name s)) \<union> advanced_to evs"
  shows "numeric_or_null (cursor_now h scope name t) \<and>
         num_of (cursor_now h scope name t) = (if S = {} then None else Some (Max S))"
  using assms(1,3) unfolding S_def
proof (induction)
  case start
  then show ?case using assms(2) by auto
next
  case (advance evs t env now v mb t' y)
  let ?S = "set_option (num_of (cursor_now h scope name s)) \<union> advanced_to evs"
  have IH: "numeric_or_null (cursor_now h scope name t)"
    "num_of (cursor_now h scope name t) = (if ?S = {} then None else Some (Max ?S))"
    using advance by auto
  obtain a where a: "num_of v = Some a" using advance.prems by auto
  have fin: "finite ?S" by (simp add: finite_advanced_to)
  from advance(2) show ?case
  proof (cases rule: cursor_advance_cases)
    case (refused e)
    with IH show ?thesis by simp
  next
    case (asked z)
    from asked(1) show ?thesis
    proof (cases rule: fs_docs.mutate_cases)
      case (raised x)
      with IH asked(2) show ?thesis
        by (auto simp: cursor_now_def lift_doc_def split: doc_error.splits)
    next
      case (returned w r)
      have y: "y = Inr r" using asked(2) returned(1) by (simp add: lift_doc_def)
      have "num_of (cursor_now h scope name t') =
          Some (case num_of (cursor_now h scope name t) of None \<Rightarrow> a | Some c \<Rightarrow> max c a)"
        using advance_number [OF returned(2) a] IH(1) returned(3) by (simp add: cursor_now_def)
      also have "\<dots> = Some (Max (insert a ?S))" unfolding IH(2) Max_insert_option [OF fin] ..
      finally show ?thesis using y a by simp
    qed
  qed
next
  case (elsewhere evs t t')
  have same: "cursor_now h scope name t' = cursor_now h scope name t" unfolding cursor_now_def elsewhere(2) ..
  from elsewhere(3) [OF elsewhere(4)] show ?case unfolding same .
qed

subsection \<open>Claim histories\<close>

text \<open>
  Callers claiming and releasing one key.  A claim carries the clock reading, the requested window and
  the outcome; a release its outcome, which is \<open>Inr True\<close> when there was a claim to drop.
\<close>

datatype claim_event =
  Claimed real real "(job_error, bool \<times> json) result"
| Released "(job_error, bool) result"

inductive claim_history ::
  "(string \<Rightarrow> string) \<Rightarrow> string \<Rightarrow> string \<Rightarrow> body docs \<Rightarrow> claim_event list \<Rightarrow> body docs \<Rightarrow> bool"
  for h scope key s
where
  start: "claim_history h scope key s [] s"
| claim: "claim_history h scope key s evs t \<Longrightarrow> idempotency_claim h env now scope key ttl t = (t', y) \<Longrightarrow>
    claim_history h scope key s (evs @ [Claimed now ttl y]) t'"
| release: "claim_history h scope key s evs t \<Longrightarrow> idempotency_release h env scope key t = (t', z) \<Longrightarrow>
    claim_history h scope key s (evs @ [Released z]) t'"
| elsewhere: "claim_history h scope key s evs t \<Longrightarrow>
    doc_stored h t' (''idem/'' @ scope) key = doc_stored h t (''idem/'' @ scope) key \<Longrightarrow>
    claim_history h scope key s evs t'"

definition won :: "(job_error, bool \<times> json) result \<Rightarrow> bool" where
  "won y = (case y of Inl _ \<Rightarrow> False | Inr (fresh, _) \<Rightarrow> fresh)"

primrec winning :: "claim_event \<Rightarrow> bool" where
  "winning (Claimed now ttl y) = won y"
| "winning (Released z) = False"

primrec dropping :: "claim_event \<Rightarrow> bool" where
  "dropping (Claimed now ttl y) = False"
| "dropping (Released z) = (z = Inr True)"

primrec unbounded :: "claim_event \<Rightarrow> bool" where
  "unbounded (Claimed now ttl y) = (ttl \<le> 0)"
| "unbounded (Released z) = True"

text \<open>
  The document guards a claim made at \<open>now\<close> for \<open>ttl\<close>: it is claimed for good, or at least up to the
  end of that window.
\<close>

definition guards :: "real \<Rightarrow> real \<Rightarrow> body option \<Rightarrow> bool" where
  "guards now ttl v =
     (case v of
        None \<Rightarrow> False
      | Some b \<Rightarrow>
          (case dict_get b ''expiresAt'' of
             None \<Rightarrow> True
           | Some x \<Rightarrow> x = JNull \<or> 0 < ttl \<and> (\<exists>e. num_of x = Some e \<and> now + ttl \<le> e)))"

lemma claim_wins:
  assumes "claim_transform key ttl now v = Inr (w, (True, c))"
  shows "guards now ttl (written v w)"
  using assms
  by (auto simp: claim_transform_def guards_def num_of_def Let_def split: option.splits if_splits)

lemma claim_guarded:
  assumes "claim_transform key ttl' now' v = Inr (w, r)" and "guards now ttl v"
  shows "guards now ttl (written v w)" and "fst r \<Longrightarrow> 0 < ttl \<and> now + ttl \<le> now'"
  using assms
  by (auto simp: claim_transform_def guards_def num_of_def Let_def split: option.splits if_splits)

lemma claim_step:
  assumes "idempotency_claim h env now scope key ttl t = (t', y)"
  shows "doc_stored h t' (''idem/'' @ scope) key = doc_stored h t (''idem/'' @ scope) key \<and> \<not> won y \<or>
    (\<exists>w r. y = Inr r \<and> claim_transform key ttl now (doc_stored h t (''idem/'' @ scope) key) = Inr (w, r) \<and>
       doc_stored h t' (''idem/'' @ scope) key = written (doc_stored h t (''idem/'' @ scope) key) w)"
  using assms
proof (cases rule: idempotency_claim_cases)
  case (refused e)
  then show ?thesis by (simp add: won_def)
next
  case (asked z)
  from asked(1) show ?thesis
  proof (cases rule: fs_docs.mutate_cases)
    case (raised x)
    then show ?thesis using asked(2) by (auto simp: won_def lift_doc_def split: doc_error.splits)
  next
    case (returned w r)
    moreover have "y = Inr r" using asked(2) returned(1) by (simp add: lift_doc_def)
    ultimately show ?thesis by blast
  qed
qed

lemma release_step:
  assumes "idempotency_release h env scope key t = (t', z)" and "z \<noteq> Inr True"
  shows "doc_stored h t' (''idem/'' @ scope) key = doc_stored h t (''idem/'' @ scope) key"
proof (cases "require_scope scope")
  case (Inl e)
  then show ?thesis using assms(1) by (simp add: idempotency_release_def)
next
  case (Inr sc)
  obtain x where m: "mutate_document h doc_portable env (''idem/'' @ scope) key delete_transform t = (t', x)"
    and z: "z = lift_doc (bind_result x (\<lambda>(_, existed). Inr existed))"
    using assms(1) Inr require_scope_Inr [OF Inr]
    by (auto simp: idempotency_release_def delete_document_def split: prod.splits)
  from m show ?thesis
  proof (cases rule: fs_docs.mutate_cases)
    case (returned w r)
    then show ?thesis using z assms(2) by (auto simp: delete_transform_def lift_doc_def)
  qed simp
qed

text \<open>The claims won since the last release.\<close>

definition standing :: "claim_event list \<Rightarrow> claim_event list" where
  "standing evs = filter winning (takeWhile (\<lambda>e. \<not> dropping e) (rev evs))"

lemma standing_simps [simp]: "standing [] = []"
  "standing (evs @ [e]) = (if dropping e then [] else if winning e then e # standing evs else standing evs)"
  by (simp_all add: standing_def)

lemma standing_split:
  assumes "winning e" "\<forall>x \<in> set mid. \<not> dropping x"
  shows "e \<in> set (standing (pre @ e # mid))"
proof -
  have "\<not> dropping e" using assms(1) by (cases e) simp_all
  then have "takeWhile (\<lambda>e. \<not> dropping e) (rev (pre @ e # mid)) = rev mid @ e # takeWhile (\<lambda>e. \<not> dropping e) (rev pre)"
    using assms(2) by (subst rev_append, subst rev.simps(2), subst append_assoc, subst takeWhile_append2) simp_all
  then show ?thesis using assms(1) by (simp add: standing_def)
qed

text \<open>Every standing win is guarded by the document, so the next win comes after its window.\<close>

lemma claim_history_guarded:
  assumes "claim_history h scope key s evs t" and "Claimed now ttl y \<in> set (standing evs)"
  shows "guards now ttl (doc_stored h t (''idem/'' @ scope) key)"
  using assms
proof (induction arbitrary: now ttl y)
  case (claim evs t env n l t' x)
  from claim_step [OF claim(2)] show ?case
  proof (elim disjE conjE exE)
    assume "doc_stored h t' (''idem/'' @ scope) key = doc_stored h t (''idem/'' @ scope) key" "\<not> won x"
    with claim show ?thesis by simp
  next
    fix w r
    assume x: "x = Inr r" and c: "claim_transform key l n (doc_stored h t (''idem/'' @ scope) key) = Inr (w, r)"
      and t': "doc_stored h t' (''idem/'' @ scope) key = written (doc_stored h t (''idem/'' @ scope) key) w"
    from claim(4) consider "Claimed now ttl y \<in> set (standing evs)" | "now = n" "ttl = l" "won x"
      by (auto split: if_splits)
    then show ?thesis
    proof cases
      case 1
      then show ?thesis unfolding t' using claim(3) claim_guarded(1) [OF c] by blast
    next
      case 2
      then show ?thesis unfolding t' using c x by (cases r) (auto simp: won_def intro: claim_wins)
    qed
  qed
next
  case (release evs t env t' z)
  then have "z \<noteq> Inr True" by auto
  then show ?case using release release_step [OF release(2)] by simp
qed simp_all

lemma claim_after_window:
  assumes "claim_history h scope key s evs t" "idempotency_claim h env now' scope key ttl' t = (t', y')" "won y'"
    and "Claimed now ttl y \<in> set (standing evs)"
  shows "0 < ttl \<and> now + ttl \<le> now'"
  using claim_step [OF assms(2)] assms(3) claim_guarded(2) claim_history_guarded [OF assms(1,4)]
  by (auto simp: won_def)

text \<open>The two consequences, by induction on the history.\<close>

lemma claim_history_windows:
  assumes "claim_history h scope key s evs t"
    and "evs = pre @ Claimed now ttl y # mid @ Claimed now' ttl' y' # post" "won y" "won y'" "\<forall>e \<in> set mid. \<not> dropping e"
  shows "0 < ttl \<and> now + ttl \<le> now'"
  using assms
proof (induction arbitrary: post)
  case (claim evs t env n l t' x)
  show ?case
  proof (cases post rule: rev_cases)
    case Nil
    then have "evs = pre @ Claimed now ttl y # mid" "n = now'" "x = y'" using claim(4) by auto
    then show ?thesis using claim_after_window [OF claim(1,2)] standing_split [of "Claimed now ttl y" mid pre] claim(5-7) by simp
  next
    case (snoc post1 e)
    then show ?thesis using claim(3) [of post1] claim(4-7) by auto
  qed
next
  case (release evs t env t' z)
  then obtain post1 where "post = post1 @ [Released z]" by (cases post rule: rev_cases) auto
  then show ?case using release(3) [of post1] release(4-7) by auto
qed simp_all

lemma claim_history_wins:
  assumes "claim_history h scope key s evs t" and "\<forall>e \<in> set evs. unbounded e"
  shows "length (filter winning evs) \<le> length (filter dropping evs) + (if standing evs = [] then 0 else 1)"
  using assms
proof induction
  case (claim evs t env n l t' x)
  have "standing evs = []" if "won x"
  proof (rule ccontr)
    assume "standing evs \<noteq> []"
    then obtain e where e: "e \<in> set (standing evs)" by (cases "standing evs") auto
    then have "winning e" "unbounded e" using claim(4) by (auto simp: standing_def dest: set_takeWhileD)
    then show False using e by (cases e) (auto dest: claim_after_window [OF claim(1,2) that])
  qed
  then show ?case using claim(3,4) by auto
qed (auto split: if_splits)

end
