(* ===== verification/StateRecords.thy ===== *)
theory StateRecords
  imports StateDocs JsonValues
begin

text \<open>
  Append-only record streams of the filesystem store (\<open>state.py\<close>): one directory per stream, one
  immutable file per record whose name orders it.  Modelled are record names, reading with
  quarantine, windowed listing, the folded maximum with its memo, both prunes and the append that
  runs them every few calls.
\<close>

subsection \<open>Record names\<close>

definition pad :: "nat \<Rightarrow> string \<Rightarrow> string" where
  "pad width s = replicate (width - length s) CHR ''0'' @ s"

text \<open>\<open>"{:020.6f}-{}-{:012d}"\<close>; the clock enters with its six decimals, as microseconds.\<close>

definition rec_id :: "nat \<Rightarrow> string \<Rightarrow> nat \<Rightarrow> string" where
  "rec_id micros inst seqno =
     pad 20 (show_nat (micros div 1000000) @ ''.'' @ pad 6 (show_nat (micros mod 1000000))) @
     ''-'' @ inst @ ''-'' @ pad 12 (show_nat seqno)"

subsection \<open>Streams\<close>

text \<open>
  What a record file holds: the data of a record of this schema, a record of another schema
  version, or content that is no record.
\<close>

datatype rec_file = RecData body | RecOtherVersion | RecInvalid

type_synonym rec_dir = "rec_file dict"

text \<open>
  Reading one record.  Invalid content is moved to quarantine when the rename succeeds; the
  environment failing and another schema version leave the file, and fail a strict reader.
\<close>

definition read_record :: "io \<Rightarrow> bool \<Rightarrow> string \<Rightarrow> rec_dir \<Rightarrow> rec_dir \<times> (store_error, body option) result" where
  "read_record env strict name files =
     (case dict_get files name of
        None \<Rightarrow> (files, Inr None)
      | Some f \<Rightarrow>
          if \<not> read_ok env then (files, if strict then Inl StoreOSError else Inr None)
          else (case f of
                  RecInvalid \<Rightarrow> (if write_ok env then AList.delete name files else files, Inr None)
                | RecOtherVersion \<Rightarrow> (files, if strict then Inl DocumentUnreadable else Inr None)
                | RecData d \<Rightarrow> (files, Inr (Some d))))"

definition reached :: "nat option \<Rightarrow> nat \<Rightarrow> bool" where
  "reached bound n = (case bound of None \<Rightarrow> False | Some m \<Rightarrow> m \<le> n)"

fun list_loop ::
  "(string \<Rightarrow> io) \<Rightarrow> bool \<Rightarrow> nat option \<Rightarrow> (body \<Rightarrow> bool) option \<Rightarrow> nat option \<Rightarrow> nat \<Rightarrow> body list \<Rightarrow>
   string list \<Rightarrow> rec_dir \<Rightarrow> rec_dir \<times> (store_error, body list) result" where
  "list_loop envs strict limit predicate max_matches considered out [] files = (files, Inr out)"
| "list_loop envs strict limit predicate max_matches considered out (name # names) files =
     (if reached limit considered then (files, Inr out)
      else (case read_record (envs name) strict name files of
              (files', Inl e) \<Rightarrow> (files', Inl e)
            | (files', Inr None) \<Rightarrow>
                list_loop envs strict limit predicate max_matches considered out names files'
            | (files', Inr (Some data)) \<Rightarrow>
                if (case predicate of None \<Rightarrow> False | Some p \<Rightarrow> \<not> p data)
                then list_loop envs strict limit predicate max_matches (considered + 1) out names files'
                else if reached max_matches (length (out @ [data])) then (files', Inr (out @ [data]))
                else list_loop envs strict limit predicate max_matches (considered + 1) (out @ [data]) names files'))"

text \<open>
  What a process keeps: the directories, the countdown to the next prune of each stream, and for
  the folded maximum of a stream (by its token) and field the newest file name it covered with the
  value found, with a counter of wipes per token.
\<close>

record rec_store =
  rs_streams :: "string \<Rightarrow> rec_dir option"
  rs_countdown :: "string \<Rightarrow> int"
  rs_memo :: "string \<times> string \<Rightarrow> (string \<times> json option) option"
  rs_gen :: "string \<Rightarrow> nat"

definition rec_files :: "(string \<Rightarrow> string) \<Rightarrow> string \<Rightarrow> rec_store \<Rightarrow> rec_dir" where
  "rec_files h stream st = (case rs_streams st (fs_safe h stream) of None \<Rightarrow> [] | Some files \<Rightarrow> files)"

definition put_files :: "(string \<Rightarrow> string) \<Rightarrow> string \<Rightarrow> rec_dir \<Rightarrow> rec_store \<Rightarrow> rec_store" where
  "put_files h stream files st = st\<lparr>rs_streams := (rs_streams st)(fs_safe h stream \<mapsto> files)\<rparr>"

text \<open>\<open>listed\<close> tells whether the directory can be read; a missing one is an empty stream.\<close>

definition list_sync ::
  "(string \<Rightarrow> string) \<Rightarrow> bool \<Rightarrow> (string \<Rightarrow> io) \<Rightarrow> string \<Rightarrow> nat option \<Rightarrow> bool \<Rightarrow> bool \<Rightarrow>
   (body \<Rightarrow> bool) option \<Rightarrow> nat option \<Rightarrow> rec_store \<Rightarrow> rec_store \<times> (store_error, body list) result" where
  "list_sync h listed envs stream limit newest_first strict predicate max_matches st =
     (case rs_streams st (fs_safe h stream) of
        None \<Rightarrow> (st, Inr [])
      | Some files \<Rightarrow>
          if \<not> listed then (st, Inl StoreOSError)
          else (let names = sort (dict_keys files)
                in case list_loop envs strict limit predicate max_matches 0 []
                          (if newest_first then rev names else names) files of
                     (files', r) \<Rightarrow> (put_files h stream files' st, r)))"

subsection \<open>Pruning\<close>

text \<open>Unlinking a list of files; one that cannot be unlinked stays.\<close>

fun unlink_all :: "(string \<Rightarrow> io) \<Rightarrow> string list \<Rightarrow> rec_dir \<Rightarrow> rec_dir \<times> nat" where
  "unlink_all envs [] files = (files, 0)"
| "unlink_all envs (name # names) files =
     (if write_ok (envs name) \<and> name \<in> set (dict_keys files)
      then (case unlink_all envs names (AList.delete name files) of (files', n) \<Rightarrow> (files', n + 1))
      else unlink_all envs names files)"

definition oldest_beyond :: "int \<Rightarrow> string list \<Rightarrow> string list" where
  "oldest_beyond keep names = (if keep \<le> 0 then names else take (length names - nat keep) names)"

definition derive_max_invalidate :: "string \<Rightarrow> rec_store \<Rightarrow> rec_store" where
  "derive_max_invalidate token st =
     st\<lparr>rs_gen := (rs_gen st)(token := rs_gen st token + 1),
        rs_memo := (\<lambda>key. if fst key = token then None else rs_memo st key)\<rparr>"

definition prune_sync ::
  "(string \<Rightarrow> string) \<Rightarrow> bool \<Rightarrow> (string \<Rightarrow> io) \<Rightarrow> string \<Rightarrow> int \<Rightarrow> rec_store \<Rightarrow>
   rec_store \<times> (store_error, nat) result" where
  "prune_sync h listed envs stream keep st =
     (case rs_streams st (fs_safe h stream) of
        None \<Rightarrow> (st, Inr 0)
      | Some files \<Rightarrow>
          if \<not> listed then (st, Inl StoreOSError)
          else (case unlink_all envs (oldest_beyond keep (sort (dict_keys files))) files of
                  (files', n) \<Rightarrow>
                    (let st1 = put_files h stream files' st
                     in (if keep \<le> 0 then derive_max_invalidate (fs_safe h stream) st1 else st1, Inr n))))"

text \<open>The name a readable record goes by: only a string classifies it.\<close>

definition key_of :: "string \<Rightarrow> (store_error, body option) result \<Rightarrow> string option" where
  "key_of fld r =
     (case r of
        Inr (Some data) \<Rightarrow> (case dict_get data fld of Some (JString v) \<Rightarrow> Some v | _ \<Rightarrow> None)
      | _ \<Rightarrow> None)"

fun latest_by_loop ::
  "(string \<Rightarrow> io) \<Rightarrow> string \<Rightarrow> string set \<Rightarrow> string list \<Rightarrow> rec_dir \<Rightarrow> rec_dir \<times> nat" where
  "latest_by_loop envs fld seen [] files = (files, 0)"
| "latest_by_loop envs fld seen (name # names) files =
     (case read_record (envs name) False name files of
        (files1, r) \<Rightarrow>
          (case key_of fld r of
             None \<Rightarrow> latest_by_loop envs fld seen names files1
           | Some v \<Rightarrow>
               if v \<in> seen
               then (if write_ok (envs name)
                     then (case latest_by_loop envs fld seen names (AList.delete name files1) of
                             (files', n) \<Rightarrow> (files', n + 1))
                     else latest_by_loop envs fld seen names files1)
               else latest_by_loop envs fld (insert v seen) names files1))"

definition prune_latest_by_sync ::
  "(string \<Rightarrow> string) \<Rightarrow> bool \<Rightarrow> (string \<Rightarrow> io) \<Rightarrow> string \<Rightarrow> string \<Rightarrow> rec_store \<Rightarrow>
   rec_store \<times> (store_error, nat) result" where
  "prune_latest_by_sync h listed envs stream fld st =
     (case rs_streams st (fs_safe h stream) of
        None \<Rightarrow> (st, Inr 0)
      | Some files \<Rightarrow>
          if \<not> listed then (st, Inl StoreOSError)
          else (case latest_by_loop envs fld {} (rev (sort (dict_keys files))) files of
                  (files', n) \<Rightarrow> (put_files h stream files' st, Inr n)))"

subsection \<open>Appending\<close>

definition PRUNE_EVERY_APPENDS :: int where
  "PRUNE_EVERY_APPENDS = 8"

definition append_prune_due :: "string \<Rightarrow> rec_store \<Rightarrow> rec_store \<times> bool" where
  "append_prune_due stream st =
     (let left = rs_countdown st stream
      in if left \<le> 0
         then (st\<lparr>rs_countdown := (rs_countdown st)(stream := PRUNE_EVERY_APPENDS - 1)\<rparr>, True)
         else (st\<lparr>rs_countdown := (rs_countdown st)(stream := left - 1)\<rparr>, False))"

datatype append_error = AppendFailed | AppendUnsupported

definition rec_portable :: "body \<Rightarrow> bool" where
  "rec_portable data =
     ensure_portable (JObject [(''schemaVersion'', JString ''v1''), (''data'', JObject data)]) 0"

text \<open>The prune folded into an append: an \<open>OSError\<close> ends it and is only logged.\<close>

definition folded_prune ::
  "(string \<Rightarrow> string) \<Rightarrow> bool \<Rightarrow> (string \<Rightarrow> io) \<Rightarrow> string \<Rightarrow> int option \<Rightarrow> string option \<Rightarrow> rec_store \<Rightarrow> rec_store" where
  "folded_prune h listed envs stream prune_keep prune_latest_by st =
     (case (case prune_keep of
              Some k \<Rightarrow> if k > 0 then prune_sync h listed envs stream k st else (st, Inr 0)
            | None \<Rightarrow> (st, Inr 0)) of
        (st1, Inl e) \<Rightarrow> st1
      | (st1, Inr _) \<Rightarrow>
          (case prune_latest_by of
             Some fld \<Rightarrow> if fld = [] then st1 else fst (prune_latest_by_sync h listed envs stream fld st1)
           | None \<Rightarrow> st1))"

definition append_sync ::
  "(string \<Rightarrow> string) \<Rightarrow> io \<Rightarrow> bool \<Rightarrow> (string \<Rightarrow> io) \<Rightarrow> nat \<Rightarrow> string \<Rightarrow> nat \<Rightarrow> string \<Rightarrow> body \<Rightarrow>
   int option \<Rightarrow> string option \<Rightarrow> rec_store \<Rightarrow> rec_store \<times> (append_error, string) result" where
  "append_sync h env listed envs micros inst seqno stream data prune_keep prune_latest_by st =
     (if \<not> lock_ok env then (st, Inl AppendFailed)
      else (let files = rec_files h stream st; st0 = put_files h stream files st; rid = rec_id micros inst seqno
            in if \<not> rec_portable data then (st0, Inl AppendUnsupported)
               else if \<not> write_ok env then (st0, Inl AppendFailed)
               else (let st1 = put_files h stream (dict_set (rid @ ''.json'') (RecData data) files) st0
                     in if (case prune_keep of None \<Rightarrow> False | Some k \<Rightarrow> k > 0) \<or>
                           (case prune_latest_by of None \<Rightarrow> False | Some fld \<Rightarrow> fld \<noteq> [])
                        then (case append_prune_due stream st1 of
                                (st2, due) \<Rightarrow>
                                  (if due then folded_prune h listed envs stream prune_keep prune_latest_by st2
                                   else st2, Inr rid))
                        else (st1, Inr rid))))"

subsection \<open>The folded maximum\<close>

fun fold_max ::
  "(string \<Rightarrow> io) \<Rightarrow> string \<Rightarrow> json option \<Rightarrow> string list \<Rightarrow> rec_dir \<Rightarrow>
   rec_dir \<times> (store_error, json option) result" where
  "fold_max envs fld best [] files = (files, Inr best)"
| "fold_max envs fld best (name # names) files =
     (case read_record (envs name) True name files of
        (files1, Inl e) \<Rightarrow> (files1, Inl e)
      | (files1, Inr None) \<Rightarrow> fold_max envs fld best names files1
      | (files1, Inr (Some data)) \<Rightarrow>
          (case dict_get data fld of
             None \<Rightarrow> fold_max envs fld best names files1
           | Some v \<Rightarrow>
               (case best of
                  None \<Rightarrow> fold_max envs fld (Some v) names files1
                | Some b \<Rightarrow>
                    (case py_gt v b of
                       Some True \<Rightarrow> fold_max envs fld (Some v) names files1
                     | _ \<Rightarrow> fold_max envs fld best names files1))))"

text \<open>Which names to read, from which value on.\<close>

definition derive_plan ::
  "(string \<times> json option) option \<Rightarrow> string list \<Rightarrow> string list \<times> json option" where
  "derive_plan cached listing =
     (case cached of
        None \<Rightarrow> (listing, None)
      | Some (watermark, best) \<Rightarrow>
          (let newer = filter (\<lambda>n. n > watermark) listing
           in if watermark \<in> set listing \<or> newer \<noteq> [] then (newer, best) else (listing, None)))"

text \<open>
  The scan up to the write-back: the value, and what the write-back needs, namely the wipe counter
  seen before the scan and the newest name listed (nothing when the stream was empty).
\<close>

definition derive_scan ::
  "(string \<Rightarrow> string) \<Rightarrow> bool \<Rightarrow> (string \<Rightarrow> io) \<Rightarrow> string \<Rightarrow> string \<Rightarrow> rec_store \<Rightarrow>
   rec_store \<times> (store_error, json option \<times> (nat \<times> string) option) result" where
  "derive_scan h listed envs stream fld st =
     (let token = fs_safe h stream
      in if rs_streams st token \<noteq> None \<and> \<not> listed then (st, Inl StoreOSError)
         else (let files = rec_files h stream st; listing = dict_keys files
               in if listing = [] then (st\<lparr>rs_memo := (rs_memo st)((token, fld) := None)\<rparr>, Inr (None, None))
                  else (case derive_plan (rs_memo st (token, fld)) listing of
                          (to_scan, best) \<Rightarrow>
                            (case fold_max envs fld best (sort to_scan) files of
                               (files', r) \<Rightarrow>
                                 (put_files h stream files' st,
                                  bind_result r (\<lambda>b. Inr (b, Some (rs_gen st token, Max (set listing)))))))))"

definition derive_commit ::
  "(string \<Rightarrow> string) \<Rightarrow> string \<Rightarrow> string \<Rightarrow> json option \<Rightarrow> nat \<times> string \<Rightarrow> rec_store \<Rightarrow> rec_store" where
  "derive_commit h stream fld best back st =
     (let token = fs_safe h stream
      in if rs_gen st token = fst back then st\<lparr>rs_memo := (rs_memo st)((token, fld) \<mapsto> (snd back, best))\<rparr> else st)"

definition derive_max_sync ::
  "(string \<Rightarrow> string) \<Rightarrow> bool \<Rightarrow> (string \<Rightarrow> io) \<Rightarrow> string \<Rightarrow> string \<Rightarrow> rec_store \<Rightarrow>
   rec_store \<times> (store_error, json option) result" where
  "derive_max_sync h listed envs stream fld st =
     (case derive_scan h listed envs stream fld st of
        (st1, Inl e) \<Rightarrow> (st1, Inl e)
      | (st1, Inr (best, None)) \<Rightarrow> (st1, Inr best)
      | (st1, Inr (best, Some back)) \<Rightarrow> (derive_commit h stream fld best back st1, Inr best))"

end
