(* ===== verification/StateRecordNames.thy ===== *)
theory StateRecordNames
  imports StateRecords
begin

text \<open>
  Record names sort as they were made: by clock reading, and within one reading of one process by
  sequence number.  This is what listing, pruning and the folded maximum rely on.
\<close>

subsection \<open>Fixed-width decimals\<close>

lemma less_append_same_length:
  "length s = length t \<Longrightarrow> (s @ u < t @ (v :: 'a :: linorder list)) \<longleftrightarrow> s < t \<or> s = t \<and> u < v"
  by (induction s t rule: list_induct2) auto

lemma digits_value_shift: "digits_value a s = a * 10 ^ length s + digits_value 0 s"
proof (induction s arbitrary: a)
  case (Cons c s)
  show ?case using Cons [of "10 * a + (int (code_of c) - 48)"] Cons [of "int (code_of c) - 48"]
    by (simp add: algebra_simps)
qed simp

lemma digits_value_bound: "list_all is_digit s \<Longrightarrow> digits_value 0 s < 10 ^ length s"
proof (induction s)
  case (Cons c s)
  then have d: "int (code_of c) - 48 \<le> 9" and "digits_value 0 s < 10 ^ length s" by (auto simp: is_digit_def)
  moreover from d have "(int (code_of c) - 48) * 10 ^ length s \<le> 9 * 10 ^ length s" by (rule mult_right_mono) simp
  ultimately show ?case using digits_value_shift [of "int (code_of c) - 48" s]
    by (simp only: digits_value.simps list.size power_Suc mult_zero_right add_0 add_Suc_right add_0_right power_add)
qed simp

lemma digits_less:
  assumes "length s = length t" "list_all is_digit s" "list_all is_digit t" "digits_value 0 s < digits_value 0 t"
  shows "s < t"
  using assms
proof (induction s t rule: list_induct2)
  case (Cons c s d t)
  let ?c = "int (code_of c) - 48" and ?d = "int (code_of d) - 48"
  have v: "?c * 10 ^ length s + digits_value 0 s < ?d * 10 ^ length t + digits_value 0 t"
    using Cons.prems(3) digits_value_shift [of ?c s] digits_value_shift [of ?d t] by simp
  have b: "digits_value 0 t < 10 ^ length t" "0 \<le> digits_value 0 s"
    using Cons.prems digits_value_bound digits_value_nonneg by auto
  show ?case
  proof (cases "code_of d < code_of c")
    case True
    then have "?d + 1 \<le> ?c" by simp
    then have "(?d + 1) * 10 ^ length t \<le> ?c * 10 ^ length t" by (rule mult_right_mono) simp
    with v b Cons.hyps have False by (simp add: algebra_simps)
    then show ?thesis ..
  next
    case False
    show ?thesis
    proof (cases "c = d")
      case True
      then show ?thesis using Cons v by auto
    next
      case ne: False
      then have "code_of c \<noteq> code_of d" by simp
      with False have "code_of c < code_of d" by linarith
      then show ?thesis by (simp add: less_char_def)
    qed
  qed
qed simp

lemma show_nat_length: "n < 10 ^ w \<Longrightarrow> 0 < w \<Longrightarrow> length (show_nat n) \<le> w"
proof (induction n arbitrary: w rule: show_nat.induct)
  case (1 n)
  show ?case
  proof (cases "n < 10")
    case True
    then show ?thesis using 1(3) by (subst show_nat.simps) simp
  next
    case False
    with 1(2) have "1 < w" by (cases w; cases "w - 1") auto
    with False 1(2) have "n div 10 < 10 ^ (w - 1)" by (cases w) (auto simp: less_mult_imp_div_less mult.commute)
    with 1(1) [OF False, of "w - 1"] False \<open>1 < w\<close> show ?thesis by (subst show_nat.simps) simp
  qed
qed

definition fixed :: "nat \<Rightarrow> nat \<Rightarrow> string" where
  "fixed w n = pad w (show_nat n)"

lemma digits_value_zeros: "digits_value 0 (replicate k CHR ''0'' @ s) = digits_value 0 s"
  by (induction k) auto

lemma fixed_facts:
  assumes "n < 10 ^ w" "0 < w"
  shows "length (fixed w n) = w" "list_all is_digit (fixed w n)" "digits_value 0 (fixed w n) = int n"
proof -
  show "length (fixed w n) = w" using show_nat_length [OF assms] by (simp add: fixed_def pad_def)
  show "list_all is_digit (fixed w n)"
    using show_nat_digits [of n] by (auto simp: fixed_def pad_def list_all_iff is_digit_def)
  show "digits_value 0 (fixed w n) = int n"
    by (simp add: fixed_def pad_def digits_value_zeros digits_value_show_nat)
qed

lemma fixed_less: "m < n \<Longrightarrow> n < 10 ^ w \<Longrightarrow> 0 < w \<Longrightarrow> fixed w m < fixed w n"
  by (rule digits_less) (simp_all add: fixed_facts)

subsection \<open>Record identifiers\<close>

lemma stamp_eq:
  "pad 20 (show_nat (us div 1000000) @ ''.'' @ pad 6 (show_nat (us mod 1000000))) =
   fixed 13 (us div 1000000) @ ''.'' @ fixed 6 (us mod 1000000)"
  if "us div 1000000 < 10 ^ 13"
proof -
  have "length (pad 6 (show_nat (us mod 1000000))) = 6"
    using fixed_facts(1) [of "us mod 1000000" 6] by (simp add: fixed_def)
  then show ?thesis using show_nat_length [OF that] by (simp add: fixed_def pad_def)
qed

text \<open>A later clock reading, or the same one with a later sequence number, gives a later name.\<close>

lemma rec_id_less:
  assumes "us < us' \<or> us = us' \<and> inst = inst' \<and> n < n'" and "us' < 10 ^ 19" and "n' < 10 ^ 12"
  shows "rec_id us inst n < rec_id us' inst' n'"
proof -
  let ?stamp = "\<lambda>u. fixed 13 (u div 1000000) @ ''.'' @ fixed 6 (u mod 1000000)"
  have q: "us' div 1000000 < 10 ^ 13" "us div 1000000 < 10 ^ 13"
    using assms(1,2) by (auto simp: less_mult_imp_div_less)
  have id: "rec_id u i k = ?stamp u @ ''-'' @ i @ ''-'' @ fixed 12 k" if "u div 1000000 < 10 ^ 13" for u i k
    using stamp_eq [OF that] by (simp add: rec_id_def fixed_def)
  have len: "length (fixed 13 (us div 1000000)) = length (fixed 13 (us' div 1000000))"
    "length (?stamp us) = length (?stamp us')"
    using fixed_facts(1) q fixed_facts(1) [of _ 6] by simp_all
  from assms(1) show ?thesis
  proof
    assume lt: "us < us'"
    have "?stamp us < ?stamp us'"
    proof (cases "us div 1000000 = us' div 1000000")
      case True
      with lt have "us mod 1000000 < us' mod 1000000" by (metis div_mult_mod_eq nat_add_left_cancel_less)
      with True show ?thesis by (simp add: less_append_same_length fixed_less)
    next
      case False
      with lt have "us div 1000000 < us' div 1000000" by (meson div_le_mono le_neq_implies_less less_imp_le)
      then show ?thesis using q len(1) by (simp add: less_append_same_length fixed_less)
    qed
    then show ?thesis unfolding id [OF q(1)] id [OF q(2)] less_append_same_length [OF len(2)] ..
  next
    assume "us = us' \<and> inst = inst' \<and> n < n'"
    then show ?thesis unfolding id [OF q(1)] id [OF q(2)]
      using fixed_less [OF _ assms(3), of n] by (simp add: less_append_same_length del: append.simps)
  qed
qed

end
