(* ===== verification/StateDerive.thy ===== *)
theory StateDerive
  imports StateRecordNames
begin

text \<open>
  The folded maximum of a stream.  The memo lets a read look only at names above the newest one it
  saw; the wipe counter keeps a read that was under way during a wipe from storing what it found.
  The lemmas follow the memo, and the reads under way, through every operation on the stream, for
  fields whose values are numbers and record names that only grow.
\<close>

subsection \<open>Operations that only remove files\<close>

abbreviation shrinks :: "rec_dir \<Rightarrow> rec_dir \<Rightarrow> bool" where
  "shrinks files files' \<equiv> map_of files' \<subseteq>\<^sub>m map_of files"

lemma shrinks_delete [simp]: "shrinks files (AList.delete name files)"
  by (auto simp: delete_conv map_le_def)

lemma read_record_shrinks: "read_record env strict name files = (files', r) \<Longrightarrow> shrinks files files'"
  by (auto simp: read_record_def split: option.splits rec_file.splits if_splits)

lemma unlink_all_shrinks: "unlink_all envs names files = (files', n) \<Longrightarrow> shrinks files files'"
proof (induction names arbitrary: files n)
  case (Cons name names)
  show ?case
  proof (cases "write_ok (envs name) \<and> name \<in> set (dict_keys files)")
    case True
    with Cons.prems obtain m where "unlink_all envs names (AList.delete name files) = (files', m)"
      by (auto split: prod.splits)
    from Cons.IH [OF this] show ?thesis by (rule map_le_trans) simp
  next
    case False
    with Cons.prems have "unlink_all envs names files = (files', n)" by (auto split: if_splits)
    then show ?thesis by (rule Cons.IH)
  qed
qed simp

lemma list_loop_shrinks:
  "list_loop envs strict limit p m c out names files = (files', r) \<Longrightarrow> shrinks files files'"
proof (induction envs strict limit p m c out names files rule: list_loop.induct)
  case (2 envs strict limit p m c out name names files)
  obtain f1 y where rd: "read_record (envs name) strict name files = (f1, y)" by fastforce
  note s1 = read_record_shrinks [OF rd]
  show ?case
  proof (cases "reached limit c")
    case True
    with 2(4) show ?thesis by simp
  next
    case False
    show ?thesis
    proof (cases y)
      case (Inl e)
      with 2(4) False rd s1 show ?thesis by simp
    next
      case (Inr o1)
      show ?thesis
      proof (cases o1)
        case None
        with 2(4) False rd Inr have "list_loop envs strict limit p m c out names f1 = (files', r)" by simp
        with 2(1) False rd Inr None s1 show ?thesis by (metis map_le_trans)
      next
        case (Some d)
        with 2(2,3,4) False rd Inr s1 show ?thesis by (auto split: if_splits intro: map_le_trans)
      qed
    qed
  qed
qed simp

lemma latest_by_shrinks: "latest_by_loop envs fld seen names files = (files', n) \<Longrightarrow> shrinks files files'"
proof (induction names arbitrary: seen files n)
  case (Cons name names)
  obtain f1 y where rd: "read_record (envs name) False name files = (f1, y)" by fastforce
  note s1 = read_record_shrinks [OF rd]
  have del: "shrinks files (AList.delete name f1)" by (rule map_le_trans [OF shrinks_delete s1])
  from Cons.prems rd consider
    (same) seen' where "latest_by_loop envs fld seen' names f1 = (files', n)"
  | (gone) m where "latest_by_loop envs fld seen names (AList.delete name f1) = (files', m)"
    by (auto split: option.splits if_splits prod.splits)
  then show ?case
    by cases (use Cons.IH s1 del map_le_trans in blast)+
qed simp

subsection \<open>One fold\<close>

definition field_in :: "string \<Rightarrow> rec_dir \<Rightarrow> string \<Rightarrow> json \<Rightarrow> bool" where
  "field_in fld files name v \<longleftrightarrow> (\<exists>d. dict_get files name = Some (RecData d) \<and> dict_get d fld = Some v)"

definition rank :: "json \<Rightarrow> real" where
  "rank v = the (num_of v)"

definition below :: "json \<Rightarrow> json option \<Rightarrow> bool" where
  "below v best \<longleftrightarrow> (\<exists>b. best = Some b \<and> rank v \<le> rank b)"

definition numeric :: "json \<Rightarrow> bool" where
  "numeric v \<longleftrightarrow> num_of v \<noteq> None"

lemma numeric_gt: "numeric v \<Longrightarrow> numeric b \<Longrightarrow> py_gt v b = Some (rank v > rank b)"
  by (auto simp: numeric_def rank_def num_py_gt)

lemma field_in_shrinks: "shrinks files files' \<Longrightarrow> field_in fld files' n v \<Longrightarrow> field_in fld files n v"
  by (auto simp: field_in_def map_le_def) (metis domI)

text \<open>A strict read that returns has read every record of the schema among its names.\<close>

lemma read_strict_data:
  assumes "read_record env True name files = (files', Inr r)"
  shows "r = (case dict_get files name of Some (RecData d) \<Rightarrow> Some d | _ \<Rightarrow> None)"
    and "field_in fld files' n v \<longleftrightarrow> field_in fld files n v"
  using assms
  by (auto simp: read_record_def field_in_def delete_conv' split: option.splits rec_file.splits if_splits)

text \<open>One step of the fold.\<close>

definition better :: "json option \<Rightarrow> json \<Rightarrow> json option" where
  "better best v = (case best of None \<Rightarrow> Some v | Some b \<Rightarrow> if py_gt v b = Some True then Some v else best)"

lemma fold_max_step:
  "fold_max envs fld best (name # names) files =
     (case read_record (envs name) True name files of
        (files1, Inl e) \<Rightarrow> (files1, Inl e)
      | (files1, Inr r) \<Rightarrow>
          fold_max envs fld (case r of None \<Rightarrow> best
             | Some d \<Rightarrow> (case dict_get d fld of None \<Rightarrow> best | Some v \<Rightarrow> better best v)) names files1)"
  by (auto simp: better_def split: prod.splits sum.splits option.splits bool.splits)

lemma better_facts:
  assumes "numeric v" "pred_option numeric best"
  shows "below v (better best v)" "below u best \<Longrightarrow> below u (better best v)"
    "pred_option numeric (better best v)" "better best v = best \<or> better best v = Some v"
  using assms by (auto simp: better_def below_def numeric_gt split: option.splits)

lemma fold_max_facts:
  assumes "fold_max envs fld best names files = (files', Inr r)"
    and num0: "\<forall>n v. field_in fld files n v \<longrightarrow> numeric v" and "pred_option numeric best"
  shows "shrinks files files'"
    and "\<And>n v. field_in fld files' n v \<longleftrightarrow> field_in fld files n v"
    and "\<And>v. below v best \<Longrightarrow> below v r"
    and "\<And>n v. n \<in> set names \<Longrightarrow> field_in fld files n v \<Longrightarrow> below v r"
    and "r = best \<or> (\<exists>n b. n \<in> set names \<and> r = Some b \<and> field_in fld files n b)"
    and "pred_option numeric r"
proof -
  have "shrinks files files' \<and> (\<forall>n v. field_in fld files' n v \<longleftrightarrow> field_in fld files n v) \<and>
    (\<forall>v. below v best \<longrightarrow> below v r) \<and> (\<forall>n v. n \<in> set names \<and> field_in fld files n v \<longrightarrow> below v r) \<and>
    (r = best \<or> (\<exists>n b. n \<in> set names \<and> r = Some b \<and> field_in fld files n b)) \<and> pred_option numeric r"
    using assms(1) num0 assms(3)
  proof (induction names arbitrary: best files)
    case (Cons name names)
    obtain f1 y where rd: "read_record (envs name) True name files = (f1, y)" by fastforce
    with Cons.prems(1) obtain o1 where y: "y = Inr o1" by (cases y) (auto simp: fold_max_step simp del: fold_max.simps)
    let ?b = "case o1 of None \<Rightarrow> best
       | Some d \<Rightarrow> (case dict_get d fld of None \<Rightarrow> best | Some v \<Rightarrow> better best v)"
    note rd' = rd [unfolded y]
    note o1 = read_strict_data(1) [OF rd'] and same = read_strict_data(2) [OF rd']
    have step: "fold_max envs fld ?b names f1 = (files', Inr r)"
      using Cons.prems(1) rd y by (simp add: fold_max_step del: fold_max.simps)
    have here: "?b = best \<and> (\<nexists>v. field_in fld files name v) \<or>
        (\<exists>v. field_in fld files name v \<and> (\<forall>u. field_in fld files name u \<longrightarrow> u = v) \<and> ?b = better best v)"
      unfolding o1 by (auto simp: field_in_def split: option.splits rec_file.splits)
    have b: "pred_option numeric ?b" "\<And>v. below v best \<Longrightarrow> below v ?b"
      "\<And>v. field_in fld files name v \<Longrightarrow> below v ?b" "?b = best \<or> (\<exists>v. ?b = Some v \<and> field_in fld files name v)"
      using here better_facts [OF Cons.prems(2) [rule_format] Cons.prems(3)] Cons.prems(3) by (metis (no_types, lifting))+
    have num: "\<forall>n v. field_in fld f1 n v \<longrightarrow> numeric v" using Cons.prems(2) same by blast
    note IH = Cons.IH [OF step num b(1), unfolded same]
    have "shrinks files files'" using IH read_record_shrinks [OF rd] by (blast intro: map_le_trans)
    moreover have "\<forall>n v. n \<in> set (name # names) \<and> field_in fld files n v \<longrightarrow> below v r"
      using IH b(3) by auto
    moreover have "r = best \<or> (\<exists>n b. n \<in> set (name # names) \<and> r = Some b \<and> field_in fld files n b)"
      using IH b(4) by (metis list.set_intros)
    ultimately show ?case using IH b(2) by blast
  qed auto
  then show "shrinks files files'"
    and "\<And>n v. field_in fld files' n v \<longleftrightarrow> field_in fld files n v"
    and "\<And>v. below v best \<Longrightarrow> below v r"
    and "\<And>n v. n \<in> set names \<Longrightarrow> field_in fld files n v \<Longrightarrow> below v r"
    and "r = best \<or> (\<exists>n b. n \<in> set names \<and> r = Some b \<and> field_in fld files n b)"
    and "pred_option numeric r" by blast+
qed

subsection \<open>What a memo entry promises\<close>

text \<open>
  \<open>ever\<close> is the names and field values written since the last wipe, \<open>newest\<close> bounds all names so far.  An
  entry covers every record up to its name, and its value was written since the last wipe.
\<close>

definition folded ::
  "string \<Rightarrow> rec_dir \<Rightarrow> (string \<times> json) set \<Rightarrow> string \<Rightarrow> string \<times> json option \<Rightarrow> bool" where
  "folded fld files ever newest entry \<longleftrightarrow>
     fst entry \<le> newest \<and> pred_option numeric (snd entry) \<and>
     (\<forall>n v. n \<le> fst entry \<and> field_in fld files n v \<longrightarrow> below v (snd entry)) \<and>
     (\<forall>b. snd entry = Some b \<longrightarrow> (\<exists>n. (n, b) \<in> ever))"

definition dir_inv :: "string \<Rightarrow> rec_dir \<Rightarrow> (string \<times> json) set \<Rightarrow> string \<Rightarrow> bool" where
  "dir_inv fld files ever newest \<longleftrightarrow>
     (\<forall>n \<in> set (dict_keys files). n \<le> newest) \<and> (\<forall>n v. field_in fld files n v \<longrightarrow> (n, v) \<in> ever) \<and>
     (\<forall>n v. (n, v) \<in> ever \<longrightarrow> numeric v)"

lemma shrinks_keys: "shrinks files files' \<Longrightarrow> set (dict_keys files') \<subseteq> set (dict_keys files)"
  by (metis dom_map_of_conv_image_fst image_set map_le_implies_dom_le)

lemma folded_shrinks: "shrinks files files' \<Longrightarrow> folded fld files ever newest e \<Longrightarrow> folded fld files' ever newest e"
  using field_in_shrinks by (fastforce simp: folded_def)

lemma dir_inv_shrinks: "shrinks files files' \<Longrightarrow> dir_inv fld files ever newest \<Longrightarrow> dir_inv fld files' ever newest"
  using field_in_shrinks shrinks_keys unfolding dir_inv_def by (metis subsetD)

definition written_value :: "string \<Rightarrow> string \<Rightarrow> body \<Rightarrow> (string \<times> json) set" where
  "written_value fld name data = (case dict_get data fld of None \<Rightarrow> {} | Some v \<Rightarrow> {(name, v)})"

lemma field_in_set:
  "field_in fld (dict_set name (RecData d) files) n v \<longleftrightarrow>
     (if n = name then dict_get d fld = Some v else field_in fld files n v)"
  by (simp add: field_in_def)

lemma folded_append:
  assumes "newest < name" "folded fld files ever newest e"
  shows "folded fld (dict_set name (RecData d) files) (ever \<union> written_value fld name d) name e"
  using assms unfolding folded_def by (auto simp: field_in_set split: if_splits)

lemma dir_inv_append:
  assumes "newest < name" "dir_inv fld files ever newest" "\<And>v. dict_get d fld = Some v \<Longrightarrow> numeric v"
  shows "dir_inv fld (dict_set name (RecData d) files) (ever \<union> written_value fld name d) name"
  using assms unfolding dir_inv_def
  by (auto simp: field_in_set written_value_def dict_keys_set less_imp_le split: if_splits option.splits)

text \<open>A scan yields an entry that covers the whole directory.\<close>

lemma derive_plan_cases:
  assumes "derive_plan cached listing = (scan, best)"
  shows "(\<exists>wm. cached = Some (wm, best) \<and> scan = filter (\<lambda>n. n > wm) listing) \<or> scan = listing \<and> best = None"
  using assms by (auto simp: derive_plan_def Let_def split: option.splits if_splits)

lemma derive_scan_entry:
  assumes "derive_scan h listed envs stream fld st = (st', Inr (best, Some (g, wm)))"
    and inv: "dir_inv fld (rec_files h stream st) ever newest"
    and memo: "\<And>e. rs_memo st (fs_safe h stream, fld) = Some e \<Longrightarrow> folded fld (rec_files h stream st) ever newest e"
  shows "g = rs_gen st (fs_safe h stream)"
    and "folded fld (rec_files h stream st') ever newest (wm, best)"
    and "field_in fld (rec_files h stream st) n v \<Longrightarrow> below v best"
proof -
  let ?files = "rec_files h stream st" and ?cached = "rs_memo st (fs_safe h stream, fld)"
  have ne: "?files \<noteq> []" using assms(1) by (auto simp: derive_scan_def Let_def split: if_splits prod.splits)
  obtain scan b0 where plan: "derive_plan ?cached (dict_keys ?files) = (scan, b0)" by fastforce
  obtain files' r where fold: "fold_max envs fld b0 (sort scan) ?files = (files', r)" by fastforce
  with assms(1) ne plan have r: "r = Inr best" and st': "st' = put_files h stream files' st"
    and g: "g = rs_gen st (fs_safe h stream)" and wm: "wm = Max (set (dict_keys ?files))"
    by (auto simp: derive_scan_def Let_def bind_result_Inr split: if_splits)
  have num: "\<forall>n v. field_in fld ?files n v \<longrightarrow> numeric v" using inv unfolding dir_inv_def by blast
  from derive_plan_cases [OF plan]
  have b0: "pred_option numeric b0 \<and> (\<forall>b. b0 = Some b \<longrightarrow> (\<exists>n. (n, b) \<in> ever)) \<and>
    (\<forall>n v. n \<in> set (dict_keys ?files) \<and> n \<notin> set scan \<and> field_in fld ?files n v \<longrightarrow> below v b0)"
  proof
    assume "\<exists>wm. ?cached = Some (wm, b0) \<and> scan = filter (\<lambda>n. n > wm) (dict_keys ?files)"
    then obtain wm0 where c: "?cached = Some (wm0, b0)" and sc: "set scan = {n \<in> set (dict_keys ?files). n > wm0}"
      by auto
    from memo [OF c] show ?thesis unfolding folded_def sc by (metis (no_types, lifting) fst_conv mem_Collect_eq not_le snd_conv)
  qed auto
  note facts = fold_max_facts [OF fold [unfolded r] num conjunct1 [OF b0]]
  have dom: "n \<in> set (dict_keys ?files)" if "field_in fld ?files n v" for n v
    using that dict_get_None_iff [of ?files n] by (auto simp: field_in_def)
  show all: "below v best" if "field_in fld ?files n v" for n v
  proof (cases "n \<in> set scan")
    case True
    then show ?thesis using facts(4) [of n v] that by simp
  next
    case False
    then have "below v b0" using b0 dom [OF that] that by blast
    then show ?thesis by (rule facts(3))
  qed
  have "wm \<le> newest" using inv ne unfolding wm dir_inv_def by (simp add: image_iff)
  moreover have "\<exists>n. (n, b) \<in> ever" if "best = Some b" for b
    using facts(5) b0 inv that unfolding dir_inv_def by (metis (no_types, lifting) option.inject)
  moreover have "rec_files h stream st' = files'" by (simp add: st' rec_files_def put_files_def)
  ultimately show "folded fld (rec_files h stream st') ever newest (wm, best)"
    using facts(2,6) all by (auto simp: folded_def)
  show "g = rs_gen st (fs_safe h stream)" by (rule g)
qed

subsection \<open>The stream's clients\<close>

text \<open>
  Everything one process does to a stream, with scans and their write-backs as separate steps:
  \<open>ds_pending\<close> are the scans whose write-back is still to come.
\<close>

record derive_sys =
  ds_store :: rec_store
  ds_ever :: "(string \<times> json) set"
  ds_newest :: string
  ds_pending :: "(json option \<times> nat \<times> string) set"

definition derive_init :: "(string \<Rightarrow> string) \<Rightarrow> string \<Rightarrow> string \<Rightarrow> derive_sys \<Rightarrow> bool" where
  "derive_init h stream fld s \<longleftrightarrow>
     rec_files h stream (ds_store s) = [] \<and> rs_memo (ds_store s) (fs_safe h stream, fld) = None \<and>
     ds_ever s = {} \<and> ds_pending s = {}"

text \<open>After a wipe only what survived it counts as written.\<close>

definition wiped :: "(string \<Rightarrow> string) \<Rightarrow> string \<Rightarrow> string \<Rightarrow> rec_store \<Rightarrow> derive_sys \<Rightarrow> derive_sys" where
  "wiped h stream fld st s =
     s\<lparr>ds_store := st,
       ds_ever := (if rs_gen st (fs_safe h stream) = rs_gen (ds_store s) (fs_safe h stream) then ds_ever s
                   else {(n, v). field_in fld (rec_files h stream st) n v})\<rparr>"

inductive derive_step ::
  "(string \<Rightarrow> string) \<Rightarrow> string \<Rightarrow> string \<Rightarrow> derive_sys \<Rightarrow> derive_sys \<Rightarrow> bool"
  for h stream fld
where
  append: "append_sync h env listed envs us inst k stream data keep latest (ds_store s) = (st, Inr rid) \<Longrightarrow>
    ds_newest s < rid @ ''.json'' \<Longrightarrow> (\<And>v. dict_get data fld = Some v \<Longrightarrow> numeric v) \<Longrightarrow>
    derive_step h stream fld s (s\<lparr>ds_store := st, ds_newest := rid @ ''.json'',
      ds_ever := ds_ever s \<union> written_value fld (rid @ ''.json'') data\<rparr>)"
| append_fails: "append_sync h env listed envs us inst k stream data keep latest (ds_store s) = (st, Inl e) \<Longrightarrow>
    derive_step h stream fld s (s\<lparr>ds_store := st\<rparr>)"
| prune: "prune_sync h listed envs stream n (ds_store s) = (st, r) \<Longrightarrow>
    derive_step h stream fld s (wiped h stream fld st s)"
| prune_latest: "prune_latest_by_sync h listed envs stream key (ds_store s) = (st, r') \<Longrightarrow>
    derive_step h stream fld s (s\<lparr>ds_store := st\<rparr>)"
| list_records: "list_sync h listed envs stream limit newest_first strict p m (ds_store s) = (st, l) \<Longrightarrow>
    derive_step h stream fld s (s\<lparr>ds_store := st\<rparr>)"
| scan: "derive_scan h listed envs stream fld (ds_store s) = (st, Inr (best, Some back)) \<Longrightarrow>
    derive_step h stream fld s (s\<lparr>ds_store := st, ds_pending := insert (best, back) (ds_pending s)\<rparr>)"
| scan_empty: "derive_scan h listed envs stream fld (ds_store s) = (st, Inr (best, None)) \<Longrightarrow>
    derive_step h stream fld s (s\<lparr>ds_store := st\<rparr>)"
| scan_fails: "derive_scan h listed envs stream fld (ds_store s) = (st, Inl x) \<Longrightarrow>
    derive_step h stream fld s (s\<lparr>ds_store := st\<rparr>)"
| commit: "(best, back) \<in> ds_pending s \<Longrightarrow>
    derive_step h stream fld s (s\<lparr>ds_store := derive_commit h stream fld best back (ds_store s)\<rparr>)"

definition derive_inv :: "(string \<Rightarrow> string) \<Rightarrow> string \<Rightarrow> string \<Rightarrow> derive_sys \<Rightarrow> bool" where
  "derive_inv h stream fld s \<longleftrightarrow>
     dir_inv fld (rec_files h stream (ds_store s)) (ds_ever s) (ds_newest s) \<and>
     (\<forall>e. rs_memo (ds_store s) (fs_safe h stream, fld) = Some e \<longrightarrow>
        folded fld (rec_files h stream (ds_store s)) (ds_ever s) (ds_newest s) e) \<and>
     (\<forall>b g wm. (b, g, wm) \<in> ds_pending s \<longrightarrow> g \<le> rs_gen (ds_store s) (fs_safe h stream)) \<and>
     (\<forall>b wm. (b, rs_gen (ds_store s) (fs_safe h stream), wm) \<in> ds_pending s \<longrightarrow>
        folded fld (rec_files h stream (ds_store s)) (ds_ever s) (ds_newest s) (wm, b))"

text \<open>How the operations act on the directory, the memo and the wipe counter of their stream.\<close>

lemma put_files_simps [simp]:
  "rec_files h stream (put_files h stream files st) = files"
  "rs_memo (put_files h stream files st) = rs_memo st" "rs_gen (put_files h stream files st) = rs_gen st"
  by (simp_all add: rec_files_def put_files_def)

lemma invalidate_simps [simp]:
  "rec_files h stream (derive_max_invalidate token st) = rec_files h stream st"
  "rs_memo (derive_max_invalidate token st) (token, fld) = None"
  "rs_gen (derive_max_invalidate token st) token = Suc (rs_gen st token)"
  by (simp_all add: rec_files_def derive_max_invalidate_def)

definition quiet :: "(string \<Rightarrow> string) \<Rightarrow> string \<Rightarrow> string \<Rightarrow> rec_store \<Rightarrow> rec_store \<Rightarrow> bool" where
  "quiet h stream fld st st' \<longleftrightarrow>
     shrinks (rec_files h stream st) (rec_files h stream st') \<and>
     (rs_memo st' (fs_safe h stream, fld) = rs_memo st (fs_safe h stream, fld) \<or>
      rs_memo st' (fs_safe h stream, fld) = None) \<and>
     rs_gen st' (fs_safe h stream) = rs_gen st (fs_safe h stream)"

lemma quiet_refl [simp]: "quiet h stream fld st st"
  by (simp add: quiet_def)

lemma quiet_trans: "quiet h stream fld a b \<Longrightarrow> quiet h stream fld b c \<Longrightarrow> quiet h stream fld a c"
  by (auto simp: quiet_def intro: map_le_trans)

lemma rec_files_Some: "rs_streams st (fs_safe h stream) = Some files \<Longrightarrow> rec_files h stream st = files"
  by (simp add: rec_files_def)

lemma quiet_put: "shrinks (rec_files h stream st) files \<Longrightarrow> quiet h stream fld st (put_files h stream files st)"
  by (simp add: quiet_def)

lemma list_sync_quiet: "list_sync h listed envs stream l nf strict p m st = (st', r) \<Longrightarrow> quiet h stream fld st st'"
  by (auto simp: list_sync_def Let_def rec_files_Some split: option.splits if_splits prod.splits
      intro!: quiet_put list_loop_shrinks)

lemma prune_latest_quiet: "prune_latest_by_sync h listed envs stream key st = (st', r) \<Longrightarrow> quiet h stream fld st st'"
  by (auto simp: prune_latest_by_sync_def rec_files_Some split: option.splits if_splits prod.splits
      intro!: quiet_put latest_by_shrinks)

lemma prune_quiet: "prune_sync h listed envs stream n st = (st', r) \<Longrightarrow> 0 < n \<Longrightarrow> quiet h stream fld st st'"
  by (auto simp: prune_sync_def Let_def rec_files_Some split: option.splits if_splits prod.splits
      intro!: quiet_put unlink_all_shrinks)

lemma due_quiet: "append_prune_due stream' st = (st', due) \<Longrightarrow> quiet h stream fld st st'"
  by (auto simp: append_prune_due_def Let_def quiet_def rec_files_def split: if_splits)

lemma folded_prune_quiet: "quiet h stream fld st (folded_prune h listed envs stream keep latest st)"
proof -
  obtain st1 r where first: "(case keep of Some k \<Rightarrow> if k > 0 then prune_sync h listed envs stream k st else (st, Inr 0)
      | None \<Rightarrow> (st, Inr 0)) = (st1, r)" by fastforce
  then have q1: "quiet h stream fld st st1" by (auto split: option.splits if_splits intro: prune_quiet)
  obtain st2 r2 where second: "prune_latest_by_sync h listed envs stream (the latest) st1 = (st2, r2)" by fastforce
  note q2 = quiet_trans [OF q1 prune_latest_quiet [OF second]]
  show ?thesis unfolding folded_prune_def first
    using q1 q2 second by (auto split: sum.splits option.splits)
qed

lemma fold_max_shrinks: "fold_max envs fld best names files = (files', r) \<Longrightarrow> shrinks files files'"
proof (induction names arbitrary: best files)
  case (Cons name names)
  obtain f1 y where rd: "read_record (envs name) True name files = (f1, y)" by fastforce
  note s1 = read_record_shrinks [OF rd]
  from Cons.prems rd consider "files' = f1" | best' where "fold_max envs fld best' names f1 = (files', r)"
    by (auto simp: fold_max_step simp del: fold_max.simps split: sum.splits)
  then show ?case by cases (use s1 Cons.IH in \<open>auto intro: map_le_trans\<close>)
qed simp

lemma scan_quiet:
  assumes "derive_scan h listed envs stream fld st = (st', r)"
  shows "quiet h stream fld st st'"
proof -
  obtain scan b0 where
    plan: "derive_plan (rs_memo st (fs_safe h stream, fld)) (dict_keys (rec_files h stream st)) = (scan, b0)"
    by fastforce
  obtain files' y where fold: "fold_max envs fld b0 (sort scan) (rec_files h stream st) = (files', y)" by fastforce
  have "st' = st \<or> st' = st\<lparr>rs_memo := (rs_memo st)((fs_safe h stream, fld) := None)\<rparr> \<or> st' = put_files h stream files' st"
    using assms plan fold by (auto simp: derive_scan_def Let_def split: if_splits)
  then show ?thesis
  proof (elim disjE)
    assume "st' = put_files h stream files' st"
    then show ?thesis using quiet_put [OF fold_max_shrinks [OF fold]] by simp
  qed (simp_all add: quiet_def rec_files_def)
qed

subsection \<open>The invariant of the stream\<close>

lemma derive_inv_quiet:
  assumes "derive_inv h stream fld s" and q: "quiet h stream fld (ds_store s) st"
  shows "derive_inv h stream fld (s\<lparr>ds_store := st\<rparr>)"
proof -
  from q have sh: "shrinks (rec_files h stream (ds_store s)) (rec_files h stream st)"
    and g: "rs_gen st (fs_safe h stream) = rs_gen (ds_store s) (fs_safe h stream)"
    and m: "\<And>e. rs_memo st (fs_safe h stream, fld) = Some e \<Longrightarrow> rs_memo (ds_store s) (fs_safe h stream, fld) = Some e"
    by (auto simp: quiet_def)
  show ?thesis using assms(1) unfolding derive_inv_def
    by (auto simp: g dest!: m intro: dir_inv_shrinks [OF sh] folded_shrinks [OF sh])
qed

lemma append_sync_cases:
  assumes "append_sync h env listed envs us inst k stream data keep latest st = (st', r)"
  obtains (failed) e where "r = Inl e" "quiet h stream fld st st'"
  | (appended) st1 where "r = Inr (rec_id us inst k)" "quiet h stream fld st1 st'"
      "st1 = put_files h stream (dict_set (rec_id us inst k @ ''.json'') (RecData data) (rec_files h stream st))
               (put_files h stream (rec_files h stream st) st)"
proof -
  let ?st0 = "put_files h stream (rec_files h stream st) st"
  let ?st1 = "put_files h stream (dict_set (rec_id us inst k @ ''.json'') (RecData data) (rec_files h stream st)) ?st0"
  have q0: "quiet h stream fld st ?st0" by (simp add: quiet_put)
  consider "lock_ok env \<and> rec_portable data \<and> write_ok env" | "\<not> (lock_ok env \<and> rec_portable data \<and> write_ok env)" by blast
  then show ?thesis
  proof cases
    case 1
    obtain st2 due where d: "append_prune_due stream ?st1 = (st2, due)" by fastforce
    have "r = Inr (rec_id us inst k)" and
      "st' = ?st1 \<or> st' = st2 \<or> st' = folded_prune h listed envs stream keep latest st2"
      using assms 1 d by (auto simp: append_sync_def Let_def split: if_splits)
    moreover have "quiet h stream fld ?st1 st2" by (rule due_quiet [OF d])
    moreover have "quiet h stream fld ?st1 (folded_prune h listed envs stream keep latest st2)"
      by (rule quiet_trans [OF due_quiet [OF d] folded_prune_quiet])
    ultimately show ?thesis using appended [OF _ _ refl] by auto
  next
    case 2
    then show ?thesis using assms failed q0 by (auto simp: append_sync_def Let_def split: if_splits)
  qed
qed

lemma derive_inv_append:
  assumes "derive_inv h stream fld s" and "ds_newest s < name" and "\<And>v. dict_get data fld = Some v \<Longrightarrow> numeric v"
    and "rec_files h stream st = dict_set name (RecData data) (rec_files h stream (ds_store s))"
    and "rs_memo st (fs_safe h stream, fld) = rs_memo (ds_store s) (fs_safe h stream, fld)"
    and "rs_gen st (fs_safe h stream) = rs_gen (ds_store s) (fs_safe h stream)"
  shows "derive_inv h stream fld (s\<lparr>ds_store := st, ds_newest := name,
      ds_ever := ds_ever s \<union> written_value fld name data\<rparr>)"
  using assms(1,3) folded_append [OF assms(2)] dir_inv_append [OF assms(2)]
  unfolding derive_inv_def by (simp add: assms(4-6))

lemma derive_inv_wiped:
  assumes inv: "derive_inv h stream fld s"
    and sh: "shrinks (rec_files h stream (ds_store s)) (rec_files h stream st)"
    and "rs_memo st (fs_safe h stream, fld) = None"
    and "rs_gen st (fs_safe h stream) = Suc (rs_gen (ds_store s) (fs_safe h stream))"
  shows "derive_inv h stream fld (wiped h stream fld st s)"
proof -
  have "dir_inv fld (rec_files h stream st) (ds_ever s) (ds_newest s)"
    using inv dir_inv_shrinks [OF sh] by (simp add: derive_inv_def)
  then have "dir_inv fld (rec_files h stream st) {(n, v). field_in fld (rec_files h stream st) n v} (ds_newest s)"
    unfolding dir_inv_def by blast
  moreover have "g \<le> rs_gen (ds_store s) (fs_safe h stream)" if "(b, g, wm) \<in> ds_pending s" for b g wm
    using inv that unfolding derive_inv_def by blast
  ultimately show ?thesis using assms(3,4)
    by (auto simp: derive_inv_def wiped_def le_Suc_eq) (metis not_less_eq_eq order_refl)
qed

lemma prune_wipe:
  assumes "prune_sync h listed envs stream n st = (st', r)"
  shows "quiet h stream fld st st' \<or>
    shrinks (rec_files h stream st) (rec_files h stream st') \<and> rs_memo st' (fs_safe h stream, fld) = None \<and>
    rs_gen st' (fs_safe h stream) = Suc (rs_gen st (fs_safe h stream))"
proof (cases "0 < n")
  case True
  with assms prune_quiet show ?thesis by blast
next
  case False
  with assms show ?thesis
    by (auto simp: prune_sync_def Let_def rec_files_Some split: option.splits if_splits prod.splits
        intro!: unlink_all_shrinks)
qed

lemma derive_inv_step:
  assumes "derive_step h stream fld s s'" and inv: "derive_inv h stream fld s"
  shows "derive_inv h stream fld s'"
  using assms(1)
proof cases
  case (append env listed envs us inst k data keep latest st rid)
  from append(2) show ?thesis
  proof (cases rule: append_sync_cases [where fld = fld])
    case (appended st1)
    have "derive_inv h stream fld (s\<lparr>ds_store := st1, ds_newest := rid @ ''.json'',
        ds_ever := ds_ever s \<union> written_value fld (rid @ ''.json'') data\<rparr>)"
      by (rule derive_inv_append [OF inv append(3,4)]) (use appended(1,3) in simp_all)
    from derive_inv_quiet [OF this, of st] appended(2)
    have "derive_inv h stream fld (s\<lparr>ds_newest := rid @ ''.json'',
        ds_ever := ds_ever s \<union> written_value fld (rid @ ''.json'') data, ds_store := st\<rparr>)" by simp
    then show ?thesis unfolding append(1) by (cases s) simp
  qed simp
next
  case (append_fails env listed envs us inst k data keep latest st e)
  from append_fails(2) show ?thesis
    by (cases rule: append_sync_cases [where fld = fld]) (use append_fails(1) derive_inv_quiet [OF inv] in auto)
next
  case (prune listed envs n st r)
  from prune_wipe [OF prune(2)] show ?thesis
  proof
    assume q: "quiet h stream fld (ds_store s) st"
    then have "wiped h stream fld st s = s\<lparr>ds_store := st\<rparr>" by (simp add: wiped_def quiet_def)
    with derive_inv_quiet [OF inv q] prune(1) show ?thesis by simp
  qed (use prune(1) derive_inv_wiped [OF inv] in blast)
next
  case (scan listed envs st best bk)
  obtain g wm where bk: "bk = (g, wm)" by fastforce
  have memo: "\<And>e. rs_memo (ds_store s) (fs_safe h stream, fld) = Some e \<Longrightarrow>
      folded fld (rec_files h stream (ds_store s)) (ds_ever s) (ds_newest s) e"
    and dir: "dir_inv fld (rec_files h stream (ds_store s)) (ds_ever s) (ds_newest s)"
    using inv by (auto simp: derive_inv_def)
  note entry = derive_scan_entry(1,2) [OF scan(2) [unfolded bk] dir memo]
  have q: "rs_gen st (fs_safe h stream) = rs_gen (ds_store s) (fs_safe h stream)"
    using scan_quiet [OF scan(2)] by (simp add: quiet_def)
  from derive_inv_quiet [OF inv scan_quiet [OF scan(2)]] show ?thesis
    unfolding scan(1) bk derive_inv_def using entry q by auto
next
  case (commit best bk)
  obtain g wm where bk: "bk = (g, wm)" by fastforce
  show ?thesis
  proof (cases "rs_gen (ds_store s) (fs_safe h stream) = g")
    case True
    with inv commit(2) bk have "folded fld (rec_files h stream (ds_store s)) (ds_ever s) (ds_newest s) (wm, best)"
      by (auto simp: derive_inv_def)
    with True inv show ?thesis unfolding commit(1) bk
      by (auto simp: derive_inv_def derive_commit_def Let_def rec_files_def)
  next
    case False
    with inv show ?thesis unfolding commit(1) bk by (simp add: derive_commit_def Let_def)
  qed
qed (use derive_inv_quiet [OF inv] in \<open>auto dest: prune_latest_quiet list_sync_quiet scan_quiet\<close>)

definition derive_reachable :: "(string \<Rightarrow> string) \<Rightarrow> string \<Rightarrow> string \<Rightarrow> derive_sys \<Rightarrow> bool" where
  "derive_reachable h stream fld s \<longleftrightarrow> (\<exists>s0. derive_init h stream fld s0 \<and> (derive_step h stream fld)\<^sup>*\<^sup>* s0 s)"

lemma derive_reachable_inv: "derive_reachable h stream fld s \<Longrightarrow> derive_inv h stream fld s"
proof -
  assume "derive_reachable h stream fld s"
  then obtain s0 where "derive_init h stream fld s0" and r: "(derive_step h stream fld)\<^sup>*\<^sup>* s0 s"
    by (auto simp: derive_reachable_def)
  then have "derive_inv h stream fld s0" by (simp add: derive_init_def derive_inv_def dir_inv_def field_in_def)
  with r show ?thesis by (induction rule: rtranclp_induct) (auto intro: derive_inv_step)
qed

lemma derive_max_bounds:
  assumes "derive_inv h stream fld s"
    and "derive_max_sync h listed envs stream fld (ds_store s) = (st, Inr r)"
  shows "field_in fld (rec_files h stream (ds_store s)) n v \<Longrightarrow> below v r"
    and "r = Some b \<Longrightarrow> \<exists>n. (n, b) \<in> ds_ever s"
proof -
  have memo: "\<And>e. rs_memo (ds_store s) (fs_safe h stream, fld) = Some e \<Longrightarrow>
      folded fld (rec_files h stream (ds_store s)) (ds_ever s) (ds_newest s) e"
    and dir: "dir_inv fld (rec_files h stream (ds_store s)) (ds_ever s) (ds_newest s)"
    using assms(1) by (auto simp: derive_inv_def)
  from assms(2) consider (entry) st1 g wm where
      "derive_scan h listed envs stream fld (ds_store s) = (st1, Inr (r, Some (g, wm)))"
    | (empty) st1 where "derive_scan h listed envs stream fld (ds_store s) = (st1, Inr (r, None))"
    by (auto simp: derive_max_sync_def split: prod.splits sum.splits option.splits)
  then have "(\<forall>n v. field_in fld (rec_files h stream (ds_store s)) n v \<longrightarrow> below v r) \<and>
      (\<forall>b. r = Some b \<longrightarrow> (\<exists>n. (n, b) \<in> ds_ever s))"
  proof cases
    case entry
    have "below v r" if "field_in fld (rec_files h stream (ds_store s)) n v" for n v
      using derive_scan_entry(3) [OF entry dir memo that] .
    with derive_scan_entry(2) [OF entry dir memo] show ?thesis by (simp add: folded_def)
  next
    case empty
    then have "rec_files h stream (ds_store s) = []" "r = None"
      by (auto simp: derive_scan_def Let_def bind_result_Inr split: if_splits prod.splits)
    then show ?thesis by (simp add: field_in_def)
  qed
  then show "field_in fld (rec_files h stream (ds_store s)) n v \<Longrightarrow> below v r"
    and "r = Some b \<Longrightarrow> \<exists>n. (n, b) \<in> ds_ever s" by blast+
qed

end
