(* ===== verification/StateListing.thy ===== *)
theory StateListing
  imports StateDerive
begin

text \<open>
  What a listing returns and what a prune leaves, against one reference view of a stream: the data
  of its readable records from newest to oldest.
\<close>

subsection \<open>The reference view\<close>

definition data_of :: "rec_dir \<Rightarrow> string \<Rightarrow> body option" where
  "data_of files n = (case dict_get files n of Some (RecData d) \<Rightarrow> Some d | _ \<Rightarrow> None)"

definition newest_first :: "rec_dir \<Rightarrow> body list" where
  "newest_first files = List.map_filter (data_of files) (rev (sort (dict_keys files)))"

text \<open>An input and output in which everything succeeds.\<close>

definition io_ok :: "io \<Rightarrow> bool" where
  "io_ok env \<longleftrightarrow> lock_ok env \<and> read_ok env \<and> write_ok env"

lemma data_of_delete: "data_of (AList.delete n files) m = (if m = n then None else data_of files m)"
  by (simp add: data_of_def delete_conv')

lemma read_record_data:
  assumes "read_record env strict name files = (files', r)"
  shows "data_of files' n = data_of files n" and "r = Inr (Some d) \<Longrightarrow> data_of files name = Some d"
    and "r = Inr None \<Longrightarrow> read_ok env \<Longrightarrow> data_of files name = None"
    and "\<not> strict \<Longrightarrow> \<exists>x. r = Inr x" and "wf_dict files \<Longrightarrow> wf_dict files'"
  using assms
  by (auto simp: read_record_def data_of_def delete_conv' distinct_delete
      split: option.splits rec_file.splits if_splits)

subsection \<open>Listing\<close>

text \<open>The window, the filter and the early stop, as list functions.\<close>

definition matched :: "(body \<Rightarrow> bool) option \<Rightarrow> body \<Rightarrow> bool" where
  "matched predicate d = (case predicate of None \<Rightarrow> True | Some p \<Rightarrow> p d)"

definition window :: "nat option \<Rightarrow> body list \<Rightarrow> body list" where
  "window limit ds = (case limit of None \<Rightarrow> ds | Some l \<Rightarrow> take l ds)"

definition listing :: "nat option \<Rightarrow> (body \<Rightarrow> bool) option \<Rightarrow> nat option \<Rightarrow> body list \<Rightarrow> body list" where
  "listing limit predicate max_matches ds =
     (let found = filter (matched predicate) (window limit ds)
      in case max_matches of None \<Rightarrow> found | Some k \<Rightarrow> take (max 1 k) found)"

lemma map_filter_step:
  "List.map_filter f (x # xs) = (case f x of None \<Rightarrow> List.map_filter f xs | Some y \<Rightarrow> y # List.map_filter f xs)"
  by (simp add: List.map_filter_def split: option.splits)

lemma map_filter_cong: "(\<And>x. x \<in> set xs \<Longrightarrow> f x = g x) \<Longrightarrow> List.map_filter f xs = List.map_filter g xs"
  by (induction xs) (auto simp: List.map_filter_def)

lemma map_filter_Nil [simp]: "List.map_filter f [] = []"
  by (simp add: List.map_filter_def)

lemma list_loop_listing:
  assumes "\<And>n. read_ok (envs n)"
    and "list_loop envs False limit p m c out names files = (files', r)"
    and "\<not> reached m (length out) \<or> out = []"
  shows "r = Inr (out @ (let found = filter (matched p) (window (map_option (\<lambda>l. l - c) limit)
                                  (List.map_filter (data_of files) names))
                         in case m of None \<Rightarrow> found | Some k \<Rightarrow> take (max 1 (k - length out)) found))"
  using assms(2,3)
proof (induction names arbitrary: c out files)
  case Nil
  then show ?case by (auto simp: window_def split: option.splits)
next
  case (Cons name names)
  obtain f1 y where rd: "read_record (envs name) False name files = (f1, y)" by fastforce
  obtain x where y: "y = Inr x" using read_record_data(4) [OF rd] by auto
  have same: "List.map_filter (data_of f1) names = List.map_filter (data_of files) names"
    using read_record_data(1) [OF rd] by (auto intro: map_filter_cong)
  show ?case
  proof (cases "reached limit c")
    case True
    then obtain l where "limit = Some l" "l \<le> c" by (auto simp: reached_def split: option.splits)
    with Cons.prems True show ?thesis by (auto simp: window_def split: option.splits)
  next
    case False
    show ?thesis
    proof (cases x)
      case None
      with read_record_data(3) [OF rd] assms(1) y have "data_of files name = None" by simp
      moreover have step: "list_loop envs False limit p m c out names f1 = (files', r)"
        using Cons.prems(1) False rd y None by simp
      ultimately show ?thesis using Cons.IH [OF step Cons.prems(2)] same by (simp add: map_filter_step)
    next
      case (Some d)
      with read_record_data(2) [OF rd] y have d: "data_of files name = Some d" by simp
      have win: "window (map_option (\<lambda>l. l - c) limit) (d # ds) = d # window (map_option (\<lambda>l. l - (c + 1)) limit) ds" for ds
        using False by (auto simp: window_def reached_def split: option.splits) (metis Suc_diff_Suc not_le take_Suc_Cons)
      show ?thesis
      proof (cases "matched p d")
        case False
        then have "list_loop envs False limit p m (c + 1) out names f1 = (files', r)"
          using Cons.prems(1) \<open>\<not> reached limit c\<close> rd y Some by (auto simp: matched_def split: option.splits)
        from Cons.IH [OF this Cons.prems(2)] show ?thesis
          using False d same win by (simp add: map_filter_step)
      next
        case match: True
        show ?thesis
        proof (cases "reached m (length (out @ [d]))")
          case True
          then have "r = Inr (out @ [d])"
            using Cons.prems(1) match \<open>\<not> reached limit c\<close> rd y Some by (auto simp: matched_def split: option.splits)
          moreover obtain k where "m = Some k" "k \<le> Suc (length out)" using True by (auto simp: reached_def split: option.splits)
          moreover have "max 1 (k - length out) = 1" if "k \<le> Suc (length out)" using that by auto
          ultimately show ?thesis using match d win by (simp add: map_filter_step)
        next
          case go: False
          then have step: "list_loop envs False limit p m (c + 1) (out @ [d]) names f1 = (files', r)"
            using Cons.prems(1) match \<open>\<not> reached limit c\<close> rd y Some by (auto simp: matched_def split: option.splits)
          have "max (Suc 0) (k - length out) = Suc (max (Suc 0) (k - Suc (length out)))" if "m = Some k" for k
            using go that by (auto simp: reached_def)
          with Cons.IH [OF step] go show ?thesis using match d same win by (auto simp: map_filter_step Let_def split: option.splits)
        qed
      qed
    qed
  qed
qed

lemma list_sync_listing:
  assumes "\<And>n. read_ok (envs n)"
  shows "snd (list_sync h True envs stream limit nf False p m st) =
           Inr (listing limit p m ((if nf then id else rev) (newest_first (rec_files h stream st))))"
proof (cases "rs_streams st (fs_safe h stream)")
  case None
  then show ?thesis
    by (auto simp: list_sync_def rec_files_def newest_first_def listing_def window_def split: option.splits)
next
  case (Some files)
  let ?names = "if nf then rev (sort (dict_keys files)) else sort (dict_keys files)"
  obtain files' r where l: "list_loop envs False limit p m 0 [] ?names files = (files', r)" by fastforce
  have "List.map_filter (data_of files) ?names = (if nf then id else rev) (newest_first files)"
    by (auto simp: newest_first_def List.map_filter_def rev_map rev_filter)
  with list_loop_listing [OF assms l] have "r = Inr (listing limit p m ((if nf then id else rev) (newest_first files)))"
    by (simp add: listing_def option.map_ident cong: option.case_cong)
  then show ?thesis using Some l rec_files_Some [OF Some] by (simp add: list_sync_def Let_def)
qed

lemma listing_first: "listing None (Some p) (Some 1) ds = (case find p ds of None \<Rightarrow> [] | Some d \<Rightarrow> [d])"
proof -
  have "take 1 (filter p ds) = (case find p ds of None \<Rightarrow> [] | Some d \<Rightarrow> [d])" by (induction ds) auto
  moreover have "matched (Some p) = p" by (auto simp: matched_def)
  ultimately show ?thesis by (simp add: listing_def window_def)
qed

subsection \<open>Pruning by name\<close>

text \<open>For a value not seen yet, the newest record that carries it stays the newest.\<close>

abbreviation carries :: "string \<Rightarrow> string \<Rightarrow> body \<Rightarrow> bool" where
  "carries fld v d \<equiv> dict_get d fld = Some (JString v)"

lemma key_of_Some: "key_of fld r = Some v \<longleftrightarrow> (\<exists>d. r = Inr (Some d) \<and> carries fld v d)"
  by (auto simp: key_of_def split: sum.splits option.splits json.splits)

lemma latest_by_outside:
  "latest_by_loop envs fld seen names files = (files', k) \<Longrightarrow> n \<notin> set names \<Longrightarrow> data_of files' n = data_of files n"
proof (induction names arbitrary: seen files k)
  case (Cons name names)
  obtain f1 y where rd: "read_record (envs name) False name files = (f1, y)" by fastforce
  from Cons.prems(1) rd consider
    seen' where "latest_by_loop envs fld seen' names f1 = (files', k)"
  | m where "latest_by_loop envs fld seen names (AList.delete name f1) = (files', m)"
    by (auto split: option.splits if_splits prod.splits)
  then show ?case
    by cases (use Cons.IH Cons.prems(2) read_record_data(1) [OF rd] in \<open>auto simp: data_of_delete\<close>)
qed simp

lemma latest_by_keeps_newest:
  assumes "latest_by_loop envs fld seen names files = (files', k)" and "distinct names" and "v \<notin> seen"
  shows "find (carries fld v) (List.map_filter (data_of files') names) =
         find (carries fld v) (List.map_filter (data_of files) names)"
  using assms
proof (induction names arbitrary: seen files k)
  case (Cons name names)
  obtain f1 y where rd: "read_record (envs name) False name files = (f1, y)" by fastforce
  note rdd = read_record_data [OF rd]
  have f1: "List.map_filter (data_of f1) names = List.map_filter (data_of files) names"
    using rdd(1) by (auto intro: map_filter_cong)
  have del: "List.map_filter (data_of (AList.delete name f1)) names = List.map_filter (data_of files) names"
    using rdd(1) Cons.prems(2) by (auto simp: data_of_delete intro!: map_filter_cong)
  show ?case
  proof (cases "key_of fld y")
    case None
    then have l: "latest_by_loop envs fld seen names f1 = (files', k)" using Cons.prems(1) rd by simp
    have "data_of files' name = data_of files name" using latest_by_outside [OF l] Cons.prems(2) rdd(1) by simp
    with Cons.IH [OF l _ Cons.prems(3)] Cons.prems(2) f1 show ?thesis
      by (simp add: map_filter_step split: option.splits)
  next
    case (Some u)
    then obtain d where d: "data_of files name = Some d" "carries fld u d"
      using rdd(2) by (auto simp: key_of_Some)
    show ?thesis
    proof (cases "u \<in> seen")
      case True
      with Cons.prems(3) d have nv: "\<not> carries fld v d" by auto
      have rest: "find (carries fld v) (List.map_filter (data_of files') names) =
          find (carries fld v) (List.map_filter (data_of files) names)"
        using Cons.prems rd Some True Cons.IH f1 del by (auto split: if_splits prod.splits)
      have "shrinks files files'" by (rule latest_by_shrinks [OF Cons.prems(1)])
      then have "data_of files' name = None \<or> data_of files' name = Some d"
        using d(1) unfolding data_of_def map_le_def by (auto split: option.splits rec_file.splits) (metis domI option.inject rec_file.inject)
      with rest d(1) nv show ?thesis by (auto simp: map_filter_step)
    next
      case False
      then have l: "latest_by_loop envs fld (insert u seen) names f1 = (files', k)" using Cons.prems(1) rd Some by simp
      have "data_of files' name = Some d" using latest_by_outside [OF l] Cons.prems(2) rdd(1) d(1) by simp
      with Cons.IH [OF l] Cons.prems(2,3) f1 d show ?thesis by (auto simp: map_filter_step)
    qed
  qed
qed simp

lemma latest_by_wf: "latest_by_loop envs fld seen names files = (files', k) \<Longrightarrow> wf_dict files \<Longrightarrow> wf_dict files'"
proof (induction names arbitrary: seen files k)
  case (Cons name names)
  obtain f1 y where rd: "read_record (envs name) False name files = (f1, y)" by fastforce
  from Cons.prems(1) rd consider
    seen' where "latest_by_loop envs fld seen' names f1 = (files', k)"
  | m where "latest_by_loop envs fld seen names (AList.delete name f1) = (files', m)"
    by (auto split: option.splits if_splits prod.splits)
  then show ?case
    by cases (use Cons.IH read_record_data(5) [OF rd Cons.prems(2)] in \<open>auto intro: distinct_delete\<close>)
qed simp

text \<open>A smaller directory is read off the names of a larger one.\<close>

lemma newest_first_names:
  assumes "wf_dict files'" "wf_dict files" "set (dict_keys files') \<subseteq> set (dict_keys files)"
  shows "newest_first files' = List.map_filter (data_of files') (rev (sort (dict_keys files)))"
proof -
  have "sort (dict_keys files') = filter (\<lambda>n. n \<in> set (dict_keys files')) (sort (dict_keys files))"
    using assms by (intro sorted_distinct_set_unique) (auto simp: sorted_filter [where f = id, simplified])
  moreover have "List.map_filter f (rev (filter P xs)) = List.map_filter f (rev xs)"
    if "\<And>x. \<not> P x \<Longrightarrow> f x = None" for f P and xs :: "string list"
    using that by (induction xs) (auto simp: List.map_filter_def)
  moreover have "data_of files' n = None" if "n \<notin> set (dict_keys files')" for n
    using that dict_get_None_iff [of files' n] by (simp add: data_of_def)
  ultimately show ?thesis unfolding newest_first_def by metis
qed

lemma prune_latest_keeps_newest:
  assumes "prune_latest_by_sync h listed envs stream fld st = (st', r)" and "wf_dict (rec_files h stream st)"
  shows "find (carries fld v) (newest_first (rec_files h stream st')) =
         find (carries fld v) (newest_first (rec_files h stream st))"
    and "wf_dict (rec_files h stream st')"
proof -
  let ?files = "rec_files h stream st"
  have "find (carries fld v) (newest_first (rec_files h stream st')) = find (carries fld v) (newest_first ?files) \<and>
    wf_dict (rec_files h stream st')"
  proof (cases "st' = st")
    case True
    with assms(2) show ?thesis by simp
  next
    case False
    with assms(1) obtain files' k where loop:
      "latest_by_loop envs fld {} (rev (sort (dict_keys ?files))) ?files = (files', k)"
      and st': "st' = put_files h stream files' st"
      by (auto simp: prune_latest_by_sync_def rec_files_Some split: option.splits if_splits prod.splits)
    have wf: "wf_dict files'" by (rule latest_by_wf [OF loop assms(2)])
    have keys: "set (dict_keys files') \<subseteq> set (dict_keys ?files)"
      by (rule shrinks_keys [OF latest_by_shrinks [OF loop]])
    have "find (carries fld v) (newest_first files') = find (carries fld v) (newest_first ?files)"
      unfolding newest_first_names [OF wf assms(2) keys] unfolding newest_first_def
      using latest_by_keeps_newest [OF loop] assms(2) by simp
    with wf show ?thesis by (simp add: st')
  qed
  then show "find (carries fld v) (newest_first (rec_files h stream st')) =
      find (carries fld v) (newest_first (rec_files h stream st))" and "wf_dict (rec_files h stream st')" by simp_all
qed

text \<open>A record written under the newest name is the newest.\<close>

lemma newest_first_append:
  assumes "wf_dict files" "\<forall>n \<in> set (dict_keys files). n < name"
  shows "newest_first (dict_set name (RecData d) files) = d # newest_first files"
proof -
  have fresh: "name \<notin> set (dict_keys files)" using assms(2) by blast
  have "sort (dict_keys files @ [name]) = sort (dict_keys files) @ [name]"
    using assms fresh by (intro sorted_distinct_set_unique) (auto simp: sorted_append less_imp_le)
  moreover have "List.map_filter (data_of (dict_set name (RecData d) files)) ns = List.map_filter (data_of files) ns"
    if "name \<notin> set ns" for ns
    using that by (intro map_filter_cong) (auto simp: data_of_def)
  ultimately show ?thesis using fresh
    by (simp add: newest_first_def dict_keys_set map_filter_step) (simp add: data_of_def)
qed

subsection \<open>Pruning by count\<close>

lemma unlink_all_ok:
  assumes "\<And>n. write_ok (envs n)" "wf_dict files" "distinct names" "set names \<subseteq> set (dict_keys files)"
    and "unlink_all envs names files = (files', k)"
  shows "set (dict_keys files') = set (dict_keys files) - set names" "wf_dict files'"
proof -
  have "set (dict_keys files') = set (dict_keys files) - set names \<and> wf_dict files'"
    using assms(2-)
  proof (induction names arbitrary: files k)
    case (Cons name names)
    let ?f = "AList.delete name files"
    from Cons.prems(4) assms(1) Cons.prems(3) obtain m where "unlink_all envs names ?f = (files', m)"
      by (auto split: prod.splits if_splits)
    moreover have "wf_dict ?f" "set (dict_keys ?f) = set (dict_keys files) - {name}"
      using Cons.prems(1) by (auto simp: distinct_delete delete_keys distinct_removeAll)
    moreover have "set names \<subseteq> set (dict_keys files) - {name}" "distinct names" using Cons.prems(2,3) by auto
    ultimately have "set (dict_keys files') = set (dict_keys files) - {name} - set names \<and> wf_dict files'"
      using Cons.IH [of ?f m] by simp
    then show ?case by (simp only: set_simps) blast
  qed auto
  then show "set (dict_keys files') = set (dict_keys files) - set names" "wf_dict files'" by simp_all
qed

lemma prune_keeps_count:
  assumes "\<And>n. write_ok (envs n)" "wf_dict (rec_files h stream st)" "0 < keep"
    and "prune_sync h True envs stream keep st = (st', r)"
  shows "length (rec_files h stream st') = min (nat keep) (length (rec_files h stream st))"
    and "wf_dict (rec_files h stream st')"
proof -
  let ?files = "rec_files h stream st"
  have "length (rec_files h stream st') = min (nat keep) (length ?files) \<and> wf_dict (rec_files h stream st')"
  proof (cases "rs_streams st (fs_safe h stream)")
    case None
    with assms(4) show ?thesis by (simp add: prune_sync_def rec_files_def)
  next
    case (Some files)
    note f = rec_files_Some [OF Some]
    let ?del = "take (length files - nat keep) (sort (dict_keys files))"
    obtain files' k where u: "unlink_all envs ?del files = (files', k)" by fastforce
    have d: "distinct ?del" "set ?del \<subseteq> set (dict_keys files)"
      using assms(2) f by (auto dest: in_set_takeD)
    note res = unlink_all_ok [OF assms(1) assms(2) [unfolded f] d u]
    have st': "rec_files h stream st' = files'"
      using assms(3,4) Some u by (auto simp: prune_sync_def oldest_beyond_def)
    have "length files' = card (set (dict_keys files'))" using res(2) by (metis distinct_card length_map)
    also have "\<dots> = card (set (dict_keys files)) - card (set ?del)"
      unfolding res(1) using d(2) by (simp add: card_Diff_subset)
    also have "card (set (dict_keys files)) = length files"
      using assms(2) unfolding f by (metis distinct_card length_map)
    also have "card (set ?del) = length files - nat keep" using distinct_card [OF d(1)] by simp
    finally show ?thesis using st' res(2) f by (simp add: min_def)
  qed
  then show "length (rec_files h stream st') = min (nat keep) (length ?files)" "wf_dict (rec_files h stream st')"
    by simp_all
qed

end
