(* ===== verification/JobArtifacts.thy ===== *)
theory JobArtifacts
  imports JobState StateListing
begin

text \<open>
  The named artifact store of \<open>jobstate.py\<close>: payloads in the content-addressed blob store of
  \<open>state.py\<close>, and one record per publish in the scope's stream, where the newest record of a name
  is the current version.
\<close>

subsection \<open>Blobs\<close>

type_synonym blobs = "string \<Rightarrow> string option"

datatype blob_error = InvalidDigest | BlobOSError

definition valid_digest :: "string \<Rightarrow> bool" where
  "valid_digest digest \<longleftrightarrow> \<not> (length digest \<noteq> 64 \<or>
     list_ex (\<lambda>c. c \<notin> set ''0123456789abcdef'') digest)"

definition put_blob ::
  "(string \<Rightarrow> string) \<Rightarrow> io \<Rightarrow> string \<Rightarrow> blobs \<Rightarrow> blobs \<times> (blob_error, string) result" where
  "put_blob sha256_hex env data blobs =
     (let digest = sha256_hex data
      in if \<not> valid_digest digest then (blobs, Inl InvalidDigest)
         else if blobs digest \<noteq> None then (blobs, Inr digest)
         else if write_ok env then (blobs(digest \<mapsto> data), Inr digest)
         else (blobs, Inl BlobOSError))"

definition get_blob :: "io \<Rightarrow> string \<Rightarrow> blobs \<Rightarrow> (blob_error, string option) result" where
  "get_blob env digest blobs =
     (if \<not> valid_digest digest then Inl InvalidDigest
      else if blobs digest = None then Inr None
      else if read_ok env then Inr (blobs digest) else Inl BlobOSError)"

subsection \<open>Publishing and reading\<close>

record art_store =
  as_recs :: rec_store
  as_blobs :: blobs

datatype artifact_error = ArtifactJob job_error | ArtifactBlob blob_error | ArtifactAppend append_error
  | ArtifactStore store_error

definition artifact_record :: "string \<Rightarrow> string \<Rightarrow> nat \<Rightarrow> real \<Rightarrow> body \<Rightarrow> body" where
  "artifact_record name digest bytes now meta =
     [(''name'', JString name), (''sha256'', JString digest), (''size'', JInt (int bytes)), (''at'', JNum now)] @
     (if meta \<noteq> [] then [(''meta'', JObject meta)] else [])"

text \<open>
  The inputs and outputs are those of the blob write, of the append and of the prune folded into
  it; \<open>micros\<close>, \<open>inst\<close> and \<open>seqno\<close> make the record's name.
\<close>

record publish_io =
  pio_blob :: io
  pio_append :: io
  pio_listed :: bool
  pio_prune :: "string \<Rightarrow> io"
  pio_micros :: nat
  pio_inst :: string
  pio_seq :: nat

definition artifact_put ::
  "(string \<Rightarrow> string) \<Rightarrow> publish_io \<Rightarrow> real \<Rightarrow> string \<Rightarrow> string \<Rightarrow> string \<Rightarrow> nat \<Rightarrow> body \<Rightarrow> art_store \<Rightarrow>
   art_store \<times> (artifact_error, body) result" where
  "artifact_put h pio now scope name data max_bytes meta st =
     (if max_bytes > 0 \<and> length data > max_bytes then (st, Inl (ArtifactJob (Job (JobStateError 413))))
      else (case require_scope scope of
              Inl e \<Rightarrow> (st, Inl (ArtifactJob e))
            | Inr sc \<Rightarrow>
                (case put_blob h (pio_blob pio) data (as_blobs st) of
                   (blobs, Inl e) \<Rightarrow> (st\<lparr>as_blobs := blobs\<rparr>, Inl (ArtifactBlob e))
                 | (blobs, Inr digest) \<Rightarrow>
                     (let rec = artifact_record name digest (length data) now meta
                      in case append_sync h (pio_append pio) (pio_listed pio) (pio_prune pio) (pio_micros pio)
                                (pio_inst pio) (pio_seq pio) (''artifacts/'' @ sc) rec None (Some ''name'') (as_recs st) of
                           (recs, Inl e) \<Rightarrow> (\<lparr>as_recs = recs, as_blobs = blobs\<rparr>, Inl (ArtifactAppend e))
                         | (recs, Inr _) \<Rightarrow> (\<lparr>as_recs = recs, as_blobs = blobs\<rparr>, Inr rec)))))"

definition artifact_get_record ::
  "(string \<Rightarrow> string) \<Rightarrow> bool \<Rightarrow> (string \<Rightarrow> io) \<Rightarrow> string \<Rightarrow> string \<Rightarrow> bool \<Rightarrow> art_store \<Rightarrow>
   art_store \<times> (artifact_error, body option) result" where
  "artifact_get_record h listed envs scope name strict st =
     (case require_scope scope of
        Inl e \<Rightarrow> (st, Inl (ArtifactJob e))
      | Inr sc \<Rightarrow>
          (case list_sync h listed envs (''artifacts/'' @ sc) None True strict
                  (Some (\<lambda>r. dict_get r ''name'' = Some (JString name))) (Some 1) (as_recs st) of
             (recs, Inl e) \<Rightarrow> (st\<lparr>as_recs := recs\<rparr>, Inl (ArtifactStore e))
           | (recs, Inr found) \<Rightarrow>
               (st\<lparr>as_recs := recs\<rparr>, Inr (case found of [] \<Rightarrow> None | r # _ \<Rightarrow> Some r))))"

text \<open>
  \<open>str(digest)\<close> of a digest that is not a string is never a digest; \<open>str_of\<close> stands for it.  A
  falsy digest (missing, null, empty) counts as a missing blob.
\<close>

definition digest_of :: "(json \<Rightarrow> string) \<Rightarrow> body \<Rightarrow> string option" where
  "digest_of str_of r =
     (case dict_get r ''sha256'' of
        None \<Rightarrow> None
      | Some (JString s) \<Rightarrow> if s = [] then None else Some s
      | Some v \<Rightarrow> if v \<in> {JNull, JBool False, JInt 0, JNum 0, JArray [], JObject []} then None else Some (str_of v))"

definition artifact_get ::
  "(string \<Rightarrow> string) \<Rightarrow> (json \<Rightarrow> string) \<Rightarrow> bool \<Rightarrow> (string \<Rightarrow> io) \<Rightarrow> io \<Rightarrow> string \<Rightarrow> string \<Rightarrow> bool \<Rightarrow>
   int option \<Rightarrow> art_store \<Rightarrow> art_store \<times> (artifact_error, (body \<times> string) option) result" where
  "artifact_get h str_of listed envs env scope name strict max_bytes st =
     (case artifact_get_record h listed envs scope name strict st of
        (st1, Inl e) \<Rightarrow> (st1, Inl e)
      | (st1, Inr None) \<Rightarrow> (st1, Inr None)
      | (st1, Inr (Some r)) \<Rightarrow>
          if (case (max_bytes, dict_get r ''size'') of
                (Some mb, Some (JInt n)) \<Rightarrow> n > mb
              | (Some mb, Some (JBool b)) \<Rightarrow> (if b then 1 else 0) > mb
              | _ \<Rightarrow> False)
          then (st1, Inl (ArtifactJob (Job (JobStateError 413))))
          else (case (case digest_of str_of r of None \<Rightarrow> Inr None | Some d \<Rightarrow> get_blob env d (as_blobs st1)) of
                  Inl e \<Rightarrow> (st1, Inl (ArtifactBlob e))
                | Inr None \<Rightarrow> (st1, Inl (ArtifactJob (Job (JobStateError 410))))
                | Inr (Some data) \<Rightarrow> (st1, Inr (Some (r, data)))))"

text \<open>The newest record of each name, in the order of the names.\<close>

definition first_per_name :: "body list \<Rightarrow> body dict" where
  "first_per_name rs =
     fold (\<lambda>r seen. case dict_get r ''name'' of
             Some (JString n) \<Rightarrow> if n \<in> set (dict_keys seen) then seen else dict_set n r seen
           | _ \<Rightarrow> seen) rs []"

definition artifact_list ::
  "(string \<Rightarrow> string) \<Rightarrow> bool \<Rightarrow> (string \<Rightarrow> io) \<Rightarrow> string \<Rightarrow> art_store \<Rightarrow>
   art_store \<times> (artifact_error, body list) result" where
  "artifact_list h listed envs scope st =
     (case require_scope scope of
        Inl e \<Rightarrow> (st, Inl (ArtifactJob e))
      | Inr sc \<Rightarrow>
          (case list_sync h listed envs (''artifacts/'' @ sc) None True False None None (as_recs st) of
             (recs, Inl e) \<Rightarrow> (st\<lparr>as_recs := recs\<rparr>, Inl (ArtifactStore e))
           | (recs, Inr rs) \<Rightarrow>
               (st\<lparr>as_recs := recs\<rparr>,
                Inr (map (\<lambda>n. the (dict_get (first_per_name rs) n)) (sort (dict_keys (first_per_name rs)))))))"

text \<open>The digests the records of some scopes still name; an unreadable record fails a strict call.\<close>

definition string_digest :: "body \<Rightarrow> string option" where
  "string_digest r = (case dict_get r ''sha256'' of Some (JString d) \<Rightarrow> Some d | _ \<Rightarrow> None)"

fun referenced_blob_digests ::
  "(string \<Rightarrow> string) \<Rightarrow> (string \<Rightarrow> bool) \<Rightarrow> (string \<Rightarrow> io) \<Rightarrow> string list \<Rightarrow> bool \<Rightarrow> art_store \<Rightarrow>
   art_store \<times> (artifact_error, string set) result" where
  "referenced_blob_digests h listed envs [] strict st = (st, Inr {})"
| "referenced_blob_digests h listed envs (scope # scopes) strict st =
     (case list_sync h (listed scope) envs (''artifacts/'' @ scope) None False strict None None (as_recs st) of
        (recs, Inl e) \<Rightarrow> (st\<lparr>as_recs := recs\<rparr>, Inl (ArtifactStore e))
      | (recs, Inr rs) \<Rightarrow>
          (case referenced_blob_digests h listed envs scopes strict (st\<lparr>as_recs := recs\<rparr>) of
             (st', r) \<Rightarrow>
               (st', bind_result r (\<lambda>ds. Inr (set (List.map_filter string_digest rs) \<union> ds)))))"

subsection \<open>The current version of each name\<close>

definition art_files :: "(string \<Rightarrow> string) \<Rightarrow> string \<Rightarrow> art_store \<Rightarrow> rec_dir" where
  "art_files h scope st = rec_files h (''artifacts/'' @ scope) (as_recs st)"

definition current_version :: "(string \<Rightarrow> string) \<Rightarrow> string \<Rightarrow> string \<Rightarrow> art_store \<Rightarrow> body option" where
  "current_version h scope name st = find (carries ''name'' name) (newest_first (art_files h scope st))"

lemma append_named_newest:
  assumes "append_sync h env listed envs us inst k stream rec None (Some fld) st = (st', Inr rid)"
    and "wf_dict (rec_files h stream st)" and "fld \<noteq> []"
    and "\<forall>n \<in> set (dict_keys (rec_files h stream st)). n < rec_id us inst k @ ''.json''"
  shows "find (carries fld v) (newest_first (rec_files h stream st')) =
         find (carries fld v) (rec # newest_first (rec_files h stream st))"
    and "wf_dict (rec_files h stream st')"
proof -
  let ?files = "dict_set (rec_id us inst k @ ''.json'') (RecData rec) (rec_files h stream st)"
  let ?st1 = "put_files h stream ?files (put_files h stream (rec_files h stream st) st)"
  obtain st2 due where d: "append_prune_due stream ?st1 = (st2, due)" by fastforce
  have f2: "rec_files h stream st2 = ?files"
    using d by (auto simp: append_prune_due_def Let_def rec_files_def put_files_def split: if_splits)
  have wf: "wf_dict ?files" using assms(2) by simp
  have st': "st' = st2 \<or> st' = fst (prune_latest_by_sync h listed envs stream fld st2)"
    using assms(1,3) d by (auto simp: append_sync_def Let_def folded_prune_def split: if_splits)
  have new: "newest_first ?files = rec # newest_first (rec_files h stream st)"
    by (rule newest_first_append [OF assms(2,4)])
  obtain st3 r where p: "prune_latest_by_sync h listed envs stream fld st2 = (st3, r)" by fastforce
  note keeps = prune_latest_keeps_newest [OF p, unfolded f2, OF wf]
  show "find (carries fld v) (newest_first (rec_files h stream st')) =
      find (carries fld v) (rec # newest_first (rec_files h stream st))"
    using st' f2 new keeps(1) [of v] p by auto
  show "wf_dict (rec_files h stream st')" using st' f2 wf keeps(2) p by auto
qed

lemma artifact_put_Inr:
  assumes "artifact_put h pio now scope name data mb meta st = (st', Inr r)"
  obtains blobs recs rid where "put_blob h (pio_blob pio) data (as_blobs st) = (blobs, Inr (h data))"
    "r = artifact_record name (h data) (length data) now meta" "require_scope scope = Inr scope"
    "append_sync h (pio_append pio) (pio_listed pio) (pio_prune pio) (pio_micros pio) (pio_inst pio) (pio_seq pio)
       (''artifacts/'' @ scope) r None (Some ''name'') (as_recs st) = (recs, Inr rid)"
    "st' = \<lparr>as_recs = recs, as_blobs = blobs\<rparr>"
proof -
  from assms obtain sc where sc: "require_scope scope = Inr sc"
    by (auto simp: artifact_put_def split: if_splits sum.splits)
  note scope = require_scope_Inr [OF sc]
  obtain blobs y where pb: "put_blob h (pio_blob pio) data (as_blobs st) = (blobs, y)" by fastforce
  with assms sc obtain digest where y: "y = Inr digest"
    by (auto simp: artifact_put_def split: if_splits sum.splits)
  have dg: "digest = h data" using pb y by (auto simp: put_blob_def Let_def split: if_splits)
  let ?r = "artifact_record name (h data) (length data) now meta"
  obtain recs z where ap: "append_sync h (pio_append pio) (pio_listed pio) (pio_prune pio) (pio_micros pio)
      (pio_inst pio) (pio_seq pio) (''artifacts/'' @ scope) ?r None (Some ''name'') (as_recs st) = (recs, z)" by fastforce
  with assms sc scope pb y dg obtain rid where z: "z = Inr rid" and "r = ?r" "st' = \<lparr>as_recs = recs, as_blobs = blobs\<rparr>"
    by (auto simp: artifact_put_def Let_def split: if_splits sum.splits)
  with pb y dg sc scope ap that show ?thesis by simp
qed

text \<open>Publishing makes the new record the current version of its name and leaves the others.\<close>

lemma artifact_put_version:
  assumes "artifact_put h pio now scope name data mb meta st = (st', Inr r)"
    and "wf_dict (art_files h scope st)"
    and "\<forall>n \<in> set (dict_keys (art_files h scope st)). n < rec_id (pio_micros pio) (pio_inst pio) (pio_seq pio) @ ''.json''"
  shows "current_version h scope name st' = Some r"
    and "name' \<noteq> name \<Longrightarrow> current_version h scope name' st' = current_version h scope name' st"
proof -
  from assms(1) obtain recs rid where
    r: "r = artifact_record name (h data) (length data) now meta" and
    ap: "append_sync h (pio_append pio) (pio_listed pio) (pio_prune pio) (pio_micros pio) (pio_inst pio) (pio_seq pio)
      (''artifacts/'' @ scope) r None (Some ''name'') (as_recs st) = (recs, Inr rid)" and st': "as_recs st' = recs"
    by (auto elim: artifact_put_Inr)
  note newest = append_named_newest(1) [OF ap assms(2) [unfolded art_files_def] _ assms(3) [unfolded art_files_def], simplified]
  have "carries ''name'' n r \<longleftrightarrow> n = name" for n by (auto simp: r artifact_record_def)
  then show "current_version h scope name st' = Some r"
    and "name' \<noteq> name \<Longrightarrow> current_version h scope name' st' = current_version h scope name' st"
    using newest by (simp_all add: current_version_def art_files_def st' split: if_splits)
qed

lemma artifact_get_record_version:
  assumes "\<And>n. read_ok (envs n)" and "require_scope scope = Inr scope"
  shows "snd (artifact_get_record h True envs scope name False st) = Inr (current_version h scope name st)"
    and "as_blobs (fst (artifact_get_record h True envs scope name False st)) = as_blobs st"
proof -
  let ?p = "Some (\<lambda>r. dict_get r ''name'' = Some (JString name))"
  obtain recs y where l: "list_sync h True envs (''artifacts/'' @ scope) None True False ?p (Some 1) (as_recs st) = (recs, y)"
    by fastforce
  have "y = Inr (case current_version h scope name st of None \<Rightarrow> [] | Some d \<Rightarrow> [d])"
    using list_sync_listing [where envs = envs and h = h and stream = "''artifacts/'' @ scope" and limit = None and nf = True
        and p = ?p and m = "Some 1" and st = "as_recs st", OF assms(1)] l
    by (simp add: listing_first [simplified] current_version_def art_files_def)
  with l assms(2) show "snd (artifact_get_record h True envs scope name False st) = Inr (current_version h scope name st)"
    and "as_blobs (fst (artifact_get_record h True envs scope name False st)) = as_blobs st"
    by (auto simp: artifact_get_record_def split: option.splits)
qed

end
