(* ===== verification/StateProps.thy ===== *)
theory StateProps
  imports JobArtifacts
begin

text \<open>
  What the durable store and the job-facing primitives promise: names do not collide, leases
  exclude and fence, documents change atomically, cursors only grow, claims are won once per
  window, record streams keep what their readers need.
\<close>

subsection \<open>Samples\<close>

text \<open>A digest function of the right shape, and input and output without faults.\<close>

definition some_digest :: "string \<Rightarrow> string" where
  "some_digest s = (if s \<in> {''payload'', ''Job A'', ''kv/report''} then ''1a'' else ''2b'') @ replicate 62 CHR ''0''"

definition good_io :: "real \<Rightarrow> io" where
  "good_io t = \<lparr>lock_ok = True, read_ok = True, write_ok = True, clock = t, file_clock = t\<rparr>"

lemma good_io_simps [simp]:
  "lock_ok (good_io t)" "read_ok (good_io t)" "write_ok (good_io t)" "clock (good_io t) = t"
  by (simp_all add: good_io_def)

lemma some_digest_shape: "is_hexdigest (some_digest s)"
  by (auto simp: some_digest_def is_hexdigest_def is_digit_def list_all_iff)

subsection \<open>Names\<close>

text \<open>
  File tokens are injective even on a file system that ignores case: two non-empty names whose
  tokens agree up to case are equal, unless their SHA-256 prefixes collide.
\<close>

theorem file_tokens_injective:
  assumes "lower (fs_safe h n) = lower (fs_safe h m)" and "n \<noteq> []" and "m \<noteq> []"
    and "\<And>x. is_hexdigest (h x)" and "take 32 (h n) = take 32 (h m) \<longrightarrow> n = m"
  shows "n = m"
  using fs_safe_lower_inj [OF assms] .

theorem file_tokens_injective_witness: "lower (fs_safe some_digest ''Job A'') \<noteq> lower (fs_safe some_digest ''job a'')"
proof
  assume same: "lower (fs_safe some_digest ''Job A'') = lower (fs_safe some_digest ''job a'')"
  have "take 32 (some_digest ''Job A'') \<noteq> take 32 (some_digest ''job a'')" by code_simp
  then have "''Job A'' = ''job a''"
    by (intro file_tokens_injective [OF same _ _ some_digest_shape]) simp_all
  then show False by simp
qed

text \<open>
  The one exception the encoder itself makes: the empty name and the name \<open>_\<close> share a token, so
  the encoding is not injective on all names.
\<close>

theorem empty_name_collides: "fs_safe h [] = fs_safe h ''_''"
proof -
  have "natural_token [] = ''_''" "natural_token ''_'' = ''_''" "\<not> FS_SAFE_MAX < length ''_''" by code_simp+
  then show ?thesis by (simp add: fs_safe_natural)
qed

text \<open>
  Listing the keys of a namespace returns exactly the keys stored in it, sorted, as long as no
  token was truncated: what the encoder wrote, the directory listing decodes.
\<close>

theorem document_keys_round_trip:
  assumes "docs (fs_safe h ns) = Some files" and "dict_keys files = map (fs_safe h) ks"
    and "\<forall>k \<in> set ks. k \<noteq> [] \<and> valid_utf8 k \<and> length (natural_token k) \<le> FS_SAFE_MAX"
  shows "list_document_keys h True ns docs = Some (sort ks)"
proof -
  have "decode_keys (map (fs_safe h) ks) = Some ks"
    using assms(3)
    by (induction ks) (simp_all add: fs_safe_natural natural_not_truncated unquote_natural(1) not_less [symmetric])
  with assms(1,2) show ?thesis by (simp add: list_document_keys_def)
qed

definition two_keys :: "body docs" where
  "two_keys = (\<lambda>t. if t = ''kv%2Fjob'' then Some [(''b'', Some []), (''%41%2Fx'', Some [])] else None)"

theorem document_keys_round_trip_witness:
  "list_document_keys some_digest True ''kv/job'' two_keys = Some [''A/x'', ''b'']"
proof -
  have "two_keys (fs_safe some_digest ''kv/job'') = Some [(''b'', Some []), (''%41%2Fx'', Some [])]" by code_simp
  moreover have "dict_keys [(''b'', Some [] :: body option), (''%41%2Fx'', Some [])] = map (fs_safe some_digest) [''b'', ''A/x'']"
    by code_simp
  moreover have "\<forall>k \<in> set [''b'', ''A/x'']. k \<noteq> [] \<and> valid_utf8 k \<and> length (natural_token k) \<le> FS_SAFE_MAX" by code_simp
  moreover have "sort [''b'', ''A/x''] = [''A/x'', ''b'']" by code_simp
  ultimately show ?thesis using document_keys_round_trip [of two_keys some_digest "''kv/job''" _ "[''b'', ''A/x'']"] by simp
qed

subsection \<open>Leases\<close>

definition holds :: "lease_sys \<Rightarrow> string \<Rightarrow> bool" where
  "holds s a \<longleftrightarrow> (case s_held s a of None \<Rightarrow> False | Some g \<Rightarrow> s_now s < l_expires_at g)"

text \<open>
  C35. On a common clock two holders never hold a lease at once: in every state reached by acquires,
  renewals, releases and garbage collection, with reads and writes failing at will, at most one
  holder has a lease in hand that has not run out.
\<close>

theorem lease_mutual_exclusion:
  assumes "lease_reachable False h eph name s" and "a \<noteq> b"
  shows "\<not> (holds s a \<and> holds s b)"
proof
  assume both: "holds s a \<and> holds s b"
  then obtain g g' where held: "s_held s a = Some g" "s_held s b = Some g'"
    and valid: "s_now s < l_expires_at g" "s_now s < l_expires_at g'"
    by (auto simp: holds_def split: option.splits)
  from reachable_exclusive [OF assms(1)] held valid have "g = g'" "l_holder g = a" "l_holder g' = b"
    unfolding excl_inv_def by (metis lease_file.inject option.inject)+
  with assms(2) show False by simp
qed

text \<open>A run: \<open>a\<close> takes the lease for ten seconds, lets it run out, and \<open>b\<close> takes it over.\<close>

definition lease_start :: lease_sys where
  "lease_start = \<lparr>s_dir = (\<lambda>_. LeaseAbsent), s_now = 0, s_held = (\<lambda>_. None), s_grants = []\<rparr>"

definition take_lease :: "string \<Rightarrow> real \<Rightarrow> lease_sys \<Rightarrow> lease_sys" where
  "take_lease who t s =
     (case acquire_sync some_digest (good_io t) ''slot'' who 10 (s_dir s) of
        (dir, r) \<Rightarrow> granted (case r of Inl _ \<Rightarrow> None | Inr l \<Rightarrow> l) (s\<lparr>s_dir := dir, s_now := t\<rparr>))"

definition taken_over :: lease_sys where
  "taken_over = take_lease ''b'' 20 (take_lease ''a'' 5 lease_start)"

lemma take_lease_step:
  assumes "skew \<or> s_now s \<le> t"
  shows "lease_step skew some_digest eph ''slot'' s (take_lease who t s)"
proof -
  obtain dir r where a: "acquire_sync some_digest (good_io t) ''slot'' who 10 (s_dir s) = (dir, r)" by fastforce
  then obtain l where "r = Inr l" by (auto simp: acquire_sync_def Let_def split: prod.splits)
  with a lease_step.acquire [OF _ a [unfolded \<open>r = Inr l\<close>], of skew eph] assms show ?thesis by (simp add: take_lease_def)
qed

lemma taken_over_reachable: "lease_reachable skew some_digest eph ''slot'' taken_over"
proof -
  have "lease_init some_digest ''slot'' lease_start" by (simp add: lease_init_def lease_start_def)
  moreover have "s_now lease_start \<le> 5" "s_now (take_lease ''a'' 5 lease_start) \<le> 20" by code_simp+
  then have "(lease_step skew some_digest eph ''slot'')\<^sup>*\<^sup>* lease_start taken_over"
    unfolding taken_over_def by (meson converse_rtranclp_into_rtranclp r_into_rtranclp take_lease_step)
  ultimately show ?thesis by (auto simp: lease_reachable_def)
qed

theorem lease_mutual_exclusion_witness:
  "holds taken_over ''b'' \<and> s_held taken_over ''a'' \<noteq> None \<and> \<not> holds taken_over ''a''"
proof -
  have "holds taken_over ''b''" "s_held taken_over ''a'' \<noteq> None" by code_simp+
  moreover have "\<not> (holds taken_over ''a'' \<and> holds taken_over ''b'')"
    by (rule lease_mutual_exclusion [OF taken_over_reachable [of False "[]"]]) simp
  ultimately show ?thesis by blast
qed

text \<open>
  C36. Fencing needs no clocks: in the order in which the leases of a name that is not ephemeral were given
  out the fence never falls, and two leases with the same fence belong to the same holder, whatever the
  clocks of the nodes say.  The garbage collector deletes expired leases of ephemeral names (those of DAG
  runs), whose fences start again at 1.
\<close>

theorem lease_fences_grow:
  assumes "lease_reachable skew h eph name s" and "\<not> ephemeral h eph name"
  shows "sorted_wrt (\<lambda>newer older. l_fence older \<le> l_fence newer \<and>
           (l_fence older = l_fence newer \<longrightarrow> l_holder older = l_holder newer)) (s_grants s)"
  using reachable_fence_inv [OF assms] by (simp add: fence_inv_def)

theorem lease_fences_grow_witness:
  "map l_fence (s_grants taken_over) = [2, 1] \<and> sorted_wrt (\<lambda>newer older. l_fence older \<le> l_fence newer) (s_grants taken_over)"
proof -
  have "map l_fence (s_grants taken_over) = [2, 1]" by code_simp
  moreover have "\<not> ephemeral some_digest [] ''slot''" by (simp add: ephemeral_def)
  from sorted_wrt_mono_rel [OF _ lease_fences_grow [OF taken_over_reachable [of True "[]"] this]]
  have "sorted_wrt (\<lambda>newer older. l_fence older \<le> l_fence newer) (s_grants taken_over)" by simp
  ultimately show ?thesis ..
qed

subsection \<open>Documents\<close>

text \<open>
  C38. A document mutation refines an atomic update of one entry of a map: when it returns, the
  transform was applied to the stored document, its verdict is what is stored now and what is
  reported; when it raises, the document is as before; documents under other tokens never change.
\<close>

theorem mutate_document_refines:
  assumes "mutate_document h ok env ns k f docs = (docs', y)"
  shows "(case y of
            Inl _ \<Rightarrow> doc_stored h docs' ns k = doc_stored h docs ns k
          | Inr (b, r) \<Rightarrow> \<exists>w. f (doc_stored h docs ns k) = Inr (w, r) \<and>
              doc_stored h docs' ns k = written (doc_stored h docs ns k) w \<and> b = doc_stored h docs' ns k) \<and>
         (\<forall>ns' k'. fs_safe h ns \<noteq> fs_safe h ns' \<or> fs_safe h k \<noteq> fs_safe h k' \<longrightarrow>
            doc_stored h docs' ns' k' = doc_stored h docs ns' k')"
proof
  show "\<forall>ns' k'. fs_safe h ns \<noteq> fs_safe h ns' \<or> fs_safe h k \<noteq> fs_safe h k' \<longrightarrow>
      doc_stored h docs' ns' k' = doc_stored h docs ns' k'"
    using fs_docs.frame [OF assms] by (simp add: doc_apart_def)
  from assms show "case y of
      Inl _ \<Rightarrow> doc_stored h docs' ns k = doc_stored h docs ns k
    | Inr (b, r) \<Rightarrow> \<exists>w. f (doc_stored h docs ns k) = Inr (w, r) \<and>
        doc_stored h docs' ns k = written (doc_stored h docs ns k) w \<and> b = doc_stored h docs' ns k"
    by (cases rule: fs_docs.mutate_cases) auto
qed

theorem mutate_document_refines_witness:
  "doc_stored some_digest (fst (mutate_document some_digest doc_portable (good_io 0) ''kv/job'' ''b''
     (put_transform [(''value'', JInt 1)]) two_keys)) ''kv/job'' ''b'' = Some [(''value'', JInt 1)]"
proof -
  obtain docs' y where m: "mutate_document some_digest doc_portable (good_io 0) ''kv/job'' ''b''
     (put_transform [(''value'', JInt 1)]) two_keys = (docs', y)" by fastforce
  have "case snd (mutate_document some_digest doc_portable (good_io 0) ''kv/job'' ''b''
     (put_transform [(''value'', JInt 1)]) two_keys) of Inl _ \<Rightarrow> False | Inr _ \<Rightarrow> True" by code_simp
  with m obtain b r where "y = Inr (b, r)" by (auto split: sum.splits)
  with mutate_document_refines [OF m] m show ?thesis by (auto simp: put_transform_def)
qed

subsection \<open>Job-facing primitives\<close>

text \<open>
  Scopes isolate: setting a key in one scope never changes what any key of another scope reads,
  unless the SHA-256 prefixes of the two namespaces collide.
\<close>

theorem kv_scopes_isolated:
  assumes "kv_set h size_of env now scope key v mb docs = (docs', r)" and "scope \<noteq> scope'"
    and "\<And>x. is_hexdigest (h x)"
    and "take 32 (h (''kv/'' @ scope)) = take 32 (h (''kv/'' @ scope')) \<longrightarrow> scope = scope'"
  shows "kv_get h env' scope' key' docs' = kv_get h env' scope' key' docs"
proof -
  have "fs_safe h (''kv/'' @ scope) \<noteq> fs_safe h (''kv/'' @ scope')"
    using fs_safe_lower_inj [of h "''kv/'' @ scope" "''kv/'' @ scope'"] assms(2-4) by auto
  moreover have "docs' = docs \<or> (\<exists>y. mutate_document h doc_portable env (''kv/'' @ scope) key
      (put_transform (kv_body key v now)) docs = (docs', y))"
    using assms(1) require_scope_Inr [of scope] by (auto simp: kv_set_def bind_result_Inr split: sum.splits prod.splits)
  ultimately have "files_of docs' (fs_safe h (''kv/'' @ scope')) = files_of docs (fs_safe h (''kv/'' @ scope'))"
    by (auto elim!: mutate_document_cases)
  then show ?thesis using require_scope_Inr [of scope']
    by (cases "require_scope scope'") (auto simp: kv_get_def read_document_def)
qed

theorem kv_scopes_isolated_witness:
  "kv_get some_digest (good_io 1) ''report'' ''k''
     (fst (kv_set some_digest (\<lambda>_. 1) (good_io 0) 0 ''backup'' ''k'' (JInt 7) 0 (\<lambda>_. None))) =
   kv_get some_digest (good_io 1) ''report'' ''k'' (\<lambda>_. None)"
proof -
  have "take 32 (some_digest ''kv/backup'') \<noteq> take 32 (some_digest ''kv/report'')" by code_simp
  then show ?thesis
    by (intro kv_scopes_isolated [OF prod.collapse [symmetric] _ some_digest_shape]) simp_all
qed

text \<open>
  A key that was set reads back as the body that was reported, holding the value; and a value
  that passed the pre-flight check is never refused by the store's serialiser.
\<close>

theorem kv_set_then_get:
  assumes "kv_set h size_of env now scope key v mb docs = (docs', r)" and "read_ok env'"
  shows "(\<forall>b. r = Inr b \<longrightarrow> kv_get h env' scope key docs' = Inr (Some b) \<and> dict_get b ''value'' = Some v) \<and>
         r \<noteq> Inl (Store UnsupportedValue)"
proof (cases "bind_result (check_size size_of v mb) (\<lambda>_. require_scope scope)")
  case (Inl e)
  moreover have "e \<noteq> Store UnsupportedValue"
    using Inl by (cases "check_size size_of v mb") (auto simp: check_size_def require_scope_def split: if_splits)
  ultimately show ?thesis using assms(1) by (auto simp: kv_set_def)
next
  case (Inr sc)
  then have check: "check_size size_of v mb = Inr ()" and sc: "require_scope scope = Inr scope" "sc = scope"
    using require_scope_Inr by (auto simp: bind_result_Inr)
  let ?b = "kv_body key v now"
  obtain d y where m: "mutate_document h doc_portable env (''kv/'' @ scope) key (put_transform ?b) docs = (d, y)"
    by (metis surj_pair)
  have res: "docs' = d" "r = bind_result (lift_doc y) (\<lambda>_. Inr ?b)" using assms(1) Inr sc m by (simp_all add: kv_set_def)
  have "doc_portable ?b" using check_size_portable [OF check] by (simp add: doc_portable_iff kv_body_def)
  then have "y \<noteq> Inl UnsupportedValue" using m
    by (auto simp: mutate_document_def put_transform_def Let_def split: if_splits sum.splits)
  then have "r \<noteq> Inl (Store UnsupportedValue)" using res(2) by (auto simp: lift_doc_def split: sum.splits doc_error.splits)
  moreover have "kv_get h env' scope key docs' = Inr (Some ?b)" if "r = Inr b" for b
  proof -
    from that res obtain br where "y = Inr br" by (auto simp: lift_doc_def split: sum.splits doc_error.splits)
    with m have "doc_stored h docs' (''kv/'' @ scope) key = Some ?b"
      by (cases rule: fs_docs.mutate_cases) (auto simp: put_transform_def res)
    then show ?thesis using assms(2) sc
      by (auto simp: kv_get_def read_document_def read_doc_file_def doc_stored_def split: option.splits)
  qed
  moreover have "b = ?b" if "r = Inr b" for b using that res(2) by (auto simp: bind_result_Inr)
  ultimately show ?thesis by (auto simp: kv_body_def)
qed

theorem kv_set_then_get_witness:
  "kv_get some_digest (good_io 1) ''backup'' ''k''
     (fst (kv_set some_digest (\<lambda>_. 1) (good_io 0) 0 ''backup'' ''k'' (JInt 7) 0 (\<lambda>_. None))) =
   Inr (Some (kv_body ''k'' (JInt 7) 0))"
proof -
  have "snd (kv_set some_digest (\<lambda>_. 1) (good_io 0) 0 ''backup'' ''k'' (JInt 7) 0 (\<lambda>_. None)) =
      Inr (kv_body ''k'' (JInt 7) 0)" by code_simp
  then show ?thesis using kv_set_then_get [OF prod.collapse [symmetric] good_io_simps(2)] by blast
qed

end
