(* ===== verification/JobProps.thy ===== *)
theory JobProps
  imports StateProps
begin

text \<open>
  Properties of cursors, idempotency claims, record streams and artifacts, with the samples that
  witness them.
\<close>

subsection \<open>Cursors and claims\<close>

text \<open>
  A cursor advanced by any number of nodes with numbers ends at the largest value among its
  start and the advances that returned, in whatever order they took the lock and however many
  failed: it converges and never regresses.
\<close>

theorem cursor_converges_to_maximum:
  assumes "cursor_history h size_of scope name s evs t"
    and "cursor_now h scope name s = JNull \<or> num_of (cursor_now h scope name s) \<noteq> None"
    and "\<forall>e \<in> set evs. num_of (fst e) \<noteq> None"
    and "S = set_option (num_of (cursor_now h scope name s)) \<union> advanced_to evs"
  shows "num_of (cursor_now h scope name t) = (if S = {} then None else Some (Max S))"
  using cursor_history_max [OF assms(1-3)] assms(4) by simp

definition advance_sample :: "json \<Rightarrow> body docs \<Rightarrow> body docs \<times> (job_error, json \<times> bool) result" where
  "advance_sample v docs = cursor_advance some_digest (\<lambda>_. 1) (good_io 0) 0 ''etl'' ''rows'' v False 0 docs"

lemma advance_sample_history:
  assumes "cursor_history some_digest (\<lambda>_. 1) ''etl'' ''rows'' s evs t"
  shows "cursor_history some_digest (\<lambda>_. 1) ''etl'' ''rows'' s (evs @ [(v, snd (advance_sample v t))]) (fst (advance_sample v t))"
  by (rule cursor_history.advance [OF assms]) (simp add: advance_sample_def)

definition cursor_t1 :: "body docs" where
  "cursor_t1 = fst (advance_sample (JInt 9) (\<lambda>_. None))"

theorem cursor_converges_to_maximum_witness:
  "num_of (cursor_now some_digest ''etl'' ''rows'' (fst (advance_sample (JInt 4) cursor_t1))) = Some 9"
proof -
  let ?evs = "[] @ [(JInt 9, snd (advance_sample (JInt 9) (\<lambda>_. None)))] @ [(JInt 4, snd (advance_sample (JInt 4) cursor_t1))]"
  have hist: "cursor_history some_digest (\<lambda>_. 1) ''etl'' ''rows'' (\<lambda>_. None) ?evs (fst (advance_sample (JInt 4) cursor_t1))"
    unfolding cursor_t1_def append_assoc [symmetric]
    by (intro advance_sample_history cursor_history.start)
  have c: "cursor_now some_digest ''etl'' ''rows'' (\<lambda>_. None) = JNull" by code_simp
  have "snd (advance_sample (JInt 9) (\<lambda>_. None)) = Inr (JInt 9, True)"
    "snd (advance_sample (JInt 4) cursor_t1) = Inr (JInt 9, False)" by code_simp+
  then have adv: "advanced_to ?evs = {9, 4}" by (auto simp: advanced_to_def num_of_def)
  have "num_of (cursor_now some_digest ''etl'' ''rows'' (fst (advance_sample (JInt 4) cursor_t1))) =
      (if {9, 4} = ({} :: real set) then None else Some (Max {9, 4}))"
    by (rule cursor_converges_to_maximum [OF hist]) (unfold c adv, simp_all add: num_of_def)
  then show ?thesis by simp
qed

text \<open>
  C39. A key is won once per window.  Of two winning claims with no successful release between them, the
  earlier one asked for a positive window and the later one read the clock at or after its end.  When no
  claim asks for a window, the winners are at most one more than the releases that dropped a claim, so a
  permanent key has one winner until it is released, whatever fails, whoever claims and whoever releases.
\<close>

theorem claim_won_once_per_window:
  assumes "claim_history h scope key s evs t"
  shows "(\<forall>pre now ttl y mid now' ttl' y' post.
            evs = pre @ Claimed now ttl y # mid @ Claimed now' ttl' y' # post \<and> won y \<and> won y' \<and> (\<forall>e \<in> set mid. \<not> dropping e) \<longrightarrow>
            0 < ttl \<and> now + ttl \<le> now') \<and>
         ((\<forall>e \<in> set evs. unbounded e) \<longrightarrow> length (filter winning evs) \<le> length (filter dropping evs) + 1)"
proof (rule conjI; intro allI impI)
  show "0 < ttl \<and> now + ttl \<le> now'"
    if "evs = pre @ Claimed now ttl y # mid @ Claimed now' ttl' y' # post \<and> won y \<and> won y' \<and> (\<forall>e \<in> set mid. \<not> dropping e)"
    for pre now ttl y mid now' ttl' y' post
    using that by (elim conjE) (rule claim_history_windows [OF assms])
  show "length (filter winning evs) \<le> length (filter dropping evs) + 1" if "\<forall>e \<in> set evs. unbounded e"
    using claim_history_wins [OF assms that] by (auto split: if_splits)
qed

definition claim_sample :: "body docs \<Rightarrow> body docs \<times> (job_error, bool \<times> json) result" where
  "claim_sample docs = idempotency_claim some_digest (good_io 0) 100 ''etl'' ''batch'' 0 docs"

definition release_sample :: "body docs \<Rightarrow> body docs \<times> (job_error, bool) result" where
  "release_sample docs = idempotency_release some_digest (good_io 0) ''etl'' ''batch'' docs"

abbreviation sample_history :: "claim_event list \<Rightarrow> body docs \<Rightarrow> bool" where
  "sample_history \<equiv> claim_history some_digest ''etl'' ''batch'' (\<lambda>_. None)"

lemma sample_history_steps:
  assumes "sample_history evs t"
  shows "sample_history (evs @ [Claimed 100 0 (snd (claim_sample t))]) (fst (claim_sample t))"
    "sample_history (evs @ [Released (snd (release_sample t))]) (fst (release_sample t))"
  by (rule claim_history.claim [OF assms, where env = "good_io 0"], simp add: claim_sample_def)
    (rule claim_history.release [OF assms, where env = "good_io 0"], simp add: release_sample_def)

definition sample_t1 :: "body docs" where
  "sample_t1 = fst (claim_sample (\<lambda>_. None))"

text \<open>Claimed, lost, released, won again: two winners and one release.\<close>

theorem claim_won_once_per_window_witness:
  "won (snd (claim_sample (\<lambda>_. None))) \<and> \<not> won (snd (claim_sample sample_t1)) \<and>
   snd (release_sample sample_t1) = Inr True \<and> won (snd (claim_sample (fst (release_sample sample_t1))))"
proof -
  have w: "won (snd (claim_sample (\<lambda>_. None)))" "snd (release_sample sample_t1) = Inr True"
    "won (snd (claim_sample (fst (release_sample sample_t1))))" by code_simp+
  have "sample_history ([] @ [Claimed 100 0 (snd (claim_sample (\<lambda>_. None)))]) sample_t1"
    unfolding sample_t1_def by (intro sample_history_steps claim_history.start)
  from claim_won_once_per_window [OF sample_history_steps(1) [OF this]] w(1)
  have "\<not> won (snd (claim_sample sample_t1))" by (auto split: if_splits)
  then show ?thesis using w by blast
qed

subsection \<open>Record streams\<close>

lemma digit_chars: "char_of (48 :: nat) = CHR ''0''" "char_of (49 :: nat) = CHR ''1''" "char_of (50 :: nat) = CHR ''2''"
  "char_of (53 :: nat) = CHR ''5''"
  by code_simp+

lemma zeros: "replicate 5 c = [c, c, c, c, c]" "replicate 6 c = [c, c, c, c, c, c]"
  "replicate 9 c = [c, c, c, c, c, c, c, c, c]" "replicate 11 c = [c, c, c, c, c, c, c, c, c, c, c]"
  "replicate 12 c = [c, c, c, c, c, c, c, c, c, c, c, c]"
  by (simp_all add: numeral_eq_Suc)

text \<open>
  Record names sort by time: a later clock reading, and under one reading of one process a later
  sequence number, gives a lexicographically larger name, up to the year 318857 and a trillion
  records of a process.
\<close>

theorem record_names_chronological:
  assumes "us < us' \<or> us = us' \<and> inst = inst' \<and> n < n'" and "us' < 10 ^ 19" and "n' < 10 ^ 12"
  shows "rec_id us inst n < rec_id us' inst' n'"
  using rec_id_less [OF assms] .

theorem record_names_chronological_witness:
  "rec_id 999999999999 ''n1'' 99 < rec_id 1000000000000 ''n0'' 100 \<and>
   rec_id 1000000000000 ''n0'' 100 = ''0000001000000.000000-n0-000000000100''"
proof -
  have "rec_id 999999999999 ''n1'' 99 < rec_id 1000000000000 ''n0'' 100"
    by (rule record_names_chronological) simp_all
  moreover have "rec_id 1000000000000 ''n0'' 100 = ''0000001000000.000000-n0-000000000100''"
    by (simp add: rec_id_def pad_def show_nat.simps digit_chars zeros)
  ultimately show ?thesis ..
qed

text \<open>
  Listing a readable stream is the declarative window: the first \<open>limit\<close> readable records in the
  requested direction, filtered by the predicate, cut after \<open>max_matches\<close> of them; the early stop and
  the quarantining of bad files along the way do not show.
\<close>

theorem list_records_is_window:
  assumes "\<forall>n. read_ok (envs n)"
  shows "snd (list_sync h True envs stream limit nf False p m st) =
           Inr (listing limit p m ((if nf then id else rev) (newest_first (rec_files h stream st))))"
  by (rule list_sync_listing) (use assms in simp)

definition rec_dir_sample :: rec_dir where
  "rec_dir_sample = [(''2.json'', RecData [(''name'', JString ''b'')]), (''3.json'', RecInvalid),
     (''1.json'', RecData [(''name'', JString ''a'')])]"

definition rec_store_sample :: rec_store where
  "rec_store_sample = \<lparr>rs_streams = (\<lambda>t. if t = ''runs%2Fjob'' then Some rec_dir_sample else None),
     rs_countdown = (\<lambda>_. 0), rs_memo = (\<lambda>_. None), rs_gen = (\<lambda>_. 0)\<rparr>"

theorem list_records_is_window_witness:
  "snd (list_sync some_digest True (\<lambda>_. good_io 0) ''runs/job'' (Some 1) True False None None rec_store_sample) =
   Inr [[(''name'', JString ''b'')]]"
proof -
  have "listing (Some 1) None None (newest_first (rec_files some_digest ''runs/job'' rec_store_sample)) =
      [[(''name'', JString ''b'')]]" by code_simp
  moreover have "\<forall>n :: string. read_ok (good_io 0)" by simp
  ultimately show ?thesis using list_records_is_window [of "\<lambda>_. good_io 0" some_digest "''runs/job''" "Some 1" True None None rec_store_sample]
    by simp
qed

text \<open>
  The folded maximum: whatever appends, prunes, wipes, listings and scans a process ran before,
  with scans and their write-backs interleaved, a read returns a value that no surviving record
  exceeds and that was written since the last wipe (numeric fields, growing record names).
\<close>

theorem derive_max_covers:
  assumes "derive_reachable h stream fld s"
    and "derive_max_sync h listed envs stream fld (ds_store s) = (st, Inr r)"
  shows "(\<forall>n v. field_in fld (rec_files h stream (ds_store s)) n v \<longrightarrow> (\<exists>b. r = Some b \<and> rank v \<le> rank b)) \<and>
         (\<forall>b. r = Some b \<longrightarrow> (\<exists>n. (n, b) \<in> ds_ever s))"
  using derive_max_bounds [OF derive_reachable_inv [OF assms(1)] assms(2)] by (auto simp: below_def)

text \<open>A process that appends two records, reads the maximum, prunes to one record and appends again.\<close>

definition ds_start :: derive_sys where
  "ds_start = \<lparr>ds_store = \<lparr>rs_streams = (\<lambda>_. None), rs_countdown = (\<lambda>_. 0), rs_memo = (\<lambda>_. None), rs_gen = (\<lambda>_. 0)\<rparr>,
     ds_ever = {}, ds_newest = [], ds_pending = {}\<rparr>"

definition with_record :: "string \<Rightarrow> int \<Rightarrow> rec_store \<Rightarrow> rec_store" where
  "with_record rid v st =
     put_files some_digest ''runs/job''
       (dict_set (rid @ ''.json'') (RecData [(''epoch'', JInt v)]) (rec_files some_digest ''runs/job'' st))
       (put_files some_digest ''runs/job'' (rec_files some_digest ''runs/job'' st) st)"

definition ds_append :: "string \<Rightarrow> int \<Rightarrow> derive_sys \<Rightarrow> derive_sys" where
  "ds_append rid v s =
     s\<lparr>ds_store := with_record rid v (ds_store s), ds_newest := rid @ ''.json'',
       ds_ever := ds_ever s \<union> written_value ''epoch'' (rid @ ''.json'') [(''epoch'', JInt v)]\<rparr>"

lemma append_sample:
  assumes "rec_id us ''n'' 1 = rid" and "INT_MIN \<le> v \<and> v \<le> INT_MAX"
  shows "append_sync some_digest (good_io 0) True (\<lambda>_. good_io 0) us ''n'' 1 ''runs/job'' [(''epoch'', JInt v)] None None st =
    (with_record rid v st, Inr rid)"
  using assms by (simp add: append_sync_def Let_def rec_portable_def MAX_DEPTH_def with_record_def)

lemma ds_append_step:
  assumes "rec_id us ''n'' 1 = rid" and "INT_MIN \<le> v \<and> v \<le> INT_MAX" and "ds_newest s < rid @ ''.json''"
  shows "derive_step some_digest ''runs/job'' ''epoch'' s (ds_append rid v s)"
  unfolding ds_append_def
  by (rule derive_step.append [OF append_sample [OF assms(1,2)] assms(3)]) (simp add: numeric_def num_of_def)

definition id_one :: string where
  "id_one = ''0000000000001.000000-n-000000000001''"

definition id_two :: string where
  "id_two = ''0000000000002.000000-n-000000000001''"

lemma ids: "rec_id 1000000 ''n'' 1 = id_one" "rec_id 2000000 ''n'' 1 = id_two"
  by (simp_all add: rec_id_def pad_def show_nat.simps id_one_def id_two_def digit_chars zeros)

definition ds_two :: derive_sys where
  "ds_two = ds_append id_two 5 (ds_append id_one 9 ds_start)"

lemma ds_two_reachable: "derive_reachable some_digest ''runs/job'' ''epoch'' ds_two"
proof -
  have init: "derive_init some_digest ''runs/job'' ''epoch'' ds_start"
    by (simp add: derive_init_def ds_start_def rec_files_def)
  have b: "INT_MIN \<le> 9 \<and> 9 \<le> INT_MAX" "INT_MIN \<le> 5 \<and> 5 \<le> INT_MAX" by (simp_all add: INT_MIN_def INT_MAX_def)
  have "ds_newest ds_start < id_one @ ''.json''" "ds_newest (ds_append id_one 9 ds_start) < id_two @ ''.json''"
    by (simp_all add: ds_start_def ds_append_def id_one_def id_two_def less_char_def)
  from ds_append_step [OF ids(1) b(1) this(1)] ds_append_step [OF ids(2) b(2) this(2)]
  have "(derive_step some_digest ''runs/job'' ''epoch'')\<^sup>*\<^sup>* ds_start ds_two"
    unfolding ds_two_def by (meson converse_rtranclp_into_rtranclp r_into_rtranclp)
  with init show ?thesis by (auto simp: derive_reachable_def)
qed

theorem derive_max_covers_witness:
  "snd (derive_max_sync some_digest True (\<lambda>_. good_io 0) ''runs/job'' ''epoch'' (ds_store ds_two)) = Inr (Some (JInt 9)) \<and>
   (\<exists>n. (n, JInt 9) \<in> ds_ever ds_two)"
proof -
  have r: "snd (derive_max_sync some_digest True (\<lambda>_. good_io 0) ''runs/job'' ''epoch'' (ds_store ds_two)) =
      Inr (Some (JInt 9))" by code_simp
  then obtain st where "derive_max_sync some_digest True (\<lambda>_. good_io 0) ''runs/job'' ''epoch'' (ds_store ds_two) =
      (st, Inr (Some (JInt 9)))" by (metis prod.collapse)
  from derive_max_covers [OF ds_two_reachable this] r show ?thesis by blast
qed

text \<open>
  The memo relies on record names only growing.  A record whose name sorts below the newest one
  already folded (a node whose clock is behind, a write that lands late) is never read: after
  it, the maximum is still the old value although a larger one is stored.
\<close>

definition id_late :: string where
  "id_late = ''0000000000001.500000-n-000000000001''"

definition folded_two :: rec_store where
  "folded_two = fst (derive_max_sync some_digest True (\<lambda>_. good_io 0) ''runs/job'' ''epoch'' (ds_store ds_two))"

lemma id_late_made: "rec_id 1500000 ''n'' 1 = id_late"
  by (simp add: rec_id_def pad_def show_nat.simps id_late_def digit_chars zeros)

theorem late_record_missed:
  "\<exists>st. append_sync some_digest (good_io 0) True (\<lambda>_. good_io 0) 1500000 ''n'' 1 ''runs/job'' [(''epoch'', JInt 20)] None None
           folded_two = (st, Inr id_late) \<and>
        field_in ''epoch'' (rec_files some_digest ''runs/job'' st) (id_late @ ''.json'') (JInt 20) \<and>
        snd (derive_max_sync some_digest True (\<lambda>_. good_io 0) ''runs/job'' ''epoch'' st) = Inr (Some (JInt 9))"
proof (intro exI conjI)
  show "append_sync some_digest (good_io 0) True (\<lambda>_. good_io 0) 1500000 ''n'' 1 ''runs/job'' [(''epoch'', JInt 20)] None None
      folded_two = (with_record id_late 20 folded_two, Inr id_late)"
    by (rule append_sample [OF id_late_made]) (simp add: INT_MIN_def INT_MAX_def)
  show "field_in ''epoch'' (rec_files some_digest ''runs/job'' (with_record id_late 20 folded_two)) (id_late @ ''.json'') (JInt 20)"
    by (simp add: with_record_def field_in_def)
  show "snd (derive_max_sync some_digest True (\<lambda>_. good_io 0) ''runs/job'' ''epoch'' (with_record id_late 20 folded_two)) =
      Inr (Some (JInt 9))" by code_simp
qed

text \<open>A stream fed only by appends that carry a bound, when nothing fails.\<close>

inductive bounded_stream :: "(string \<Rightarrow> string) \<Rightarrow> string \<Rightarrow> int \<Rightarrow> rec_store \<Rightarrow> bool" for h stream keep where
  fresh: "rec_files h stream st = [] \<Longrightarrow> rs_countdown st stream = 0 \<Longrightarrow> bounded_stream h stream keep st"
| append: "bounded_stream h stream keep st \<Longrightarrow> (\<And>n. write_ok (envs n)) \<Longrightarrow>
    append_sync h env True envs us inst n stream data (Some keep) None st = (st', r) \<Longrightarrow>
    bounded_stream h stream keep st'"

lemma append_bound:
  assumes "append_sync h env True envs us inst n stream data (Some keep) None st = (st', r)" and "0 < keep"
    and "\<And>n. write_ok (envs n)" and "wf_dict (rec_files h stream st)" and "0 \<le> rs_countdown st stream"
    and "int (length (rec_files h stream st)) \<le> keep + 7 - rs_countdown st stream" and "rs_countdown st stream \<le> 7"
  shows "wf_dict (rec_files h stream st') \<and> 0 \<le> rs_countdown st' stream \<and> rs_countdown st' stream \<le> 7 \<and>
         int (length (rec_files h stream st')) \<le> keep + 7 - rs_countdown st' stream"
proof (cases "lock_ok env \<and> rec_portable data \<and> write_ok env")
  case False
  then have "st' = st \<or> st' = put_files h stream (rec_files h stream st) st"
    using assms(1) by (auto simp: append_sync_def Let_def split: if_splits)
  then show ?thesis using assms(4-7) by (auto simp: put_files_def rec_files_def)
next
  case True
  let ?files = "dict_set (rec_id us inst n @ ''.json'') (RecData data) (rec_files h stream st)"
  let ?st1 = "put_files h stream ?files (put_files h stream (rec_files h stream st) st)"
  have count: "rs_countdown ?st1 stream = rs_countdown st stream" by (simp add: put_files_def)
  have len: "length ?files \<le> Suc (length (rec_files h stream st))"
    using dict_keys_set [of "rec_id us inst n @ ''.json''" "RecData data" "rec_files h stream st"]
    by (metis length_append_singleton length_map le_SucI le_refl)
  show ?thesis
  proof (cases "rs_countdown st stream \<le> 0")
    case due: True
    let ?st2 = "?st1\<lparr>rs_countdown := (rs_countdown ?st1)(stream := PRUNE_EVERY_APPENDS - 1)\<rparr>"
    have files2: "rec_files h stream ?st2 = ?files" by (simp add: rec_files_def put_files_def)
    obtain st3 x where p: "prune_sync h True envs stream keep ?st2 = (st3, x)" by fastforce
    have "st' = st3"
      using assms(1,2) True due count p
      by (auto simp: append_sync_def Let_def append_prune_due_def folded_prune_def split: sum.splits)
    moreover have "rs_countdown st3 = rs_countdown ?st2"
      using p assms(2) by (auto simp: prune_sync_def Let_def put_files_def split: option.splits if_splits prod.splits)
    moreover have "length (rec_files h stream st3) \<le> nat keep" "wf_dict (rec_files h stream st3)"
      using prune_keeps_count [OF assms(3) _ assms(2) p, unfolded files2] assms(4) by simp_all
    ultimately show ?thesis using assms(2) by (simp add: PRUNE_EVERY_APPENDS_def)
  next
    case False
    then have "st' = ?st1\<lparr>rs_countdown := (rs_countdown ?st1)(stream := rs_countdown st stream - 1)\<rparr>"
      using assms(1,2) True count by (auto simp: append_sync_def Let_def append_prune_due_def)
    then have "rec_files h stream st' = ?files" "rs_countdown st' stream = rs_countdown st stream - 1"
      by (simp_all add: rec_files_def put_files_def)
    with len False assms(4-7) show ?thesis by simp
  qed
qed

text \<open>
  Folding the prune into every eighth append keeps the bound within seven: after any number of
  appends with \<open>prune_keep = keep\<close>, failed ones included, the stream holds at most \<open>keep + 7\<close> records.
\<close>

theorem append_keeps_stream_bounded:
  assumes "bounded_stream h stream keep st" and "0 < keep"
  shows "int (length (rec_files h stream st)) \<le> keep + 7"
proof -
  from assms(1) have "wf_dict (rec_files h stream st) \<and> 0 \<le> rs_countdown st stream \<and> rs_countdown st stream \<le> 7 \<and>
      int (length (rec_files h stream st)) \<le> keep + 7 - rs_countdown st stream"
  proof induction
    case (fresh st)
    with assms(2) show ?case by simp
  next
    case (append st envs env us inst n data st' r)
    then show ?case using append_bound [OF append(3) assms(2)] by blast
  qed
  then show ?thesis by simp
qed

theorem append_keeps_stream_bounded_witness:
  "int (length (rec_files some_digest ''runs/job''
     (fst (append_sync some_digest (good_io 0) True (\<lambda>_. good_io 0) 1000000 ''n'' 1 ''runs/job'' [] (Some 1) None
        (ds_store ds_start))))) \<le> 1 + 7"
proof (rule append_keeps_stream_bounded [OF bounded_stream.append [OF _ _ prod.collapse [symmetric]]])
  show "bounded_stream some_digest ''runs/job'' 1 (ds_store ds_start)"
    by (rule bounded_stream.fresh) (simp_all add: ds_start_def rec_files_def)
qed simp_all

subsection \<open>Artifacts\<close>

definition content_addressed :: "(string \<Rightarrow> string) \<Rightarrow> blobs \<Rightarrow> bool" where
  "content_addressed h blobs \<longleftrightarrow> (\<forall>d x. blobs d = Some x \<longrightarrow> h x = d)"

text \<open>
  C40. What was published is what is read back: after a publish that returned, reading the name
  gives the reported record and the published bytes, every other name of the scope keeps its current
  version, and the blob store stays content-addressed (no SHA-256 collision with a stored blob, a
  record name newer than the stream's).
\<close>

theorem artifact_get_after_put:
  assumes "artifact_put h pio now scope name data mb meta st = (st', Inr r)"
    and "wf_dict (art_files h scope st)"
    and "\<forall>n \<in> set (dict_keys (art_files h scope st)). n < rec_id (pio_micros pio) (pio_inst pio) (pio_seq pio) @ ''.json''"
    and "content_addressed h (as_blobs st)" and "\<forall>x. as_blobs st (h data) = Some x \<and> h x = h data \<longrightarrow> x = data"
    and "\<forall>n. read_ok (envs n)" and "read_ok env"
  shows "snd (artifact_get h str_of True envs env scope name False None st') = Inr (Some (r, data)) \<and>
         (\<forall>name'. name' \<noteq> name \<longrightarrow> current_version h scope name' st' = current_version h scope name' st) \<and>
         content_addressed h (as_blobs st')"
proof -
  obtain blobs where pb: "put_blob h (pio_blob pio) data (as_blobs st) = (blobs, Inr (h data))"
    and r: "r = artifact_record name (h data) (length data) now meta" and sc: "require_scope scope = Inr scope"
    and st': "as_blobs st' = blobs" by (rule artifact_put_Inr [OF assms(1)]) simp
  note version = artifact_put_version [OF assms(1-3)]
  from pb have put: "as_blobs st (h data) \<noteq> None \<and> blobs = as_blobs st \<or> blobs = (as_blobs st)(h data \<mapsto> data)"
    and vd: "valid_digest (h data)" by (auto simp: put_blob_def Let_def split: if_splits)
  have blob: "blobs (h data) = Some data" "content_addressed h blobs"
    using put assms(4,5) unfolding content_addressed_def by (metis fun_upd_apply not_None_eq option.inject)+
  have ne: "h data \<noteq> []" using vd by (auto simp: valid_digest_def)
  have get: "snd (artifact_get_record h True envs scope name False st') = Inr (Some r)"
    "as_blobs (fst (artifact_get_record h True envs scope name False st')) = blobs"
    unfolding version(1) [symmetric] st' [symmetric]
    by (rule artifact_get_record_version; use assms(6) sc in simp)+
  obtain st1 where got: "artifact_get_record h True envs scope name False st' = (st1, Inr (Some r))" "as_blobs st1 = blobs"
    using get by (cases "artifact_get_record h True envs scope name False st'") simp
  have "digest_of str_of r = Some (h data)" using ne by (simp add: r artifact_record_def digest_of_def)
  then have "snd (artifact_get h str_of True envs env scope name False None st') = Inr (Some (r, data))"
    using got blob vd assms(7) by (simp add: artifact_get_def get_blob_def)
  then show ?thesis using version(2) blob(2) st' by blast
qed

definition publish_sample :: publish_io where
  "publish_sample = \<lparr>pio_blob = good_io 0, pio_append = good_io 0, pio_listed = True, pio_prune = (\<lambda>_. good_io 0),
     pio_micros = 1000000, pio_inst = ''n'', pio_seq = 1\<rparr>"

definition empty_artifacts :: art_store where
  "empty_artifacts = \<lparr>as_recs = ds_store ds_start, as_blobs = (\<lambda>_. None)\<rparr>"

lemma append_sync_ok:
  assumes "lock_ok env" "write_ok env" "rec_portable data"
  shows "snd (append_sync h env listed envs us inst n stream data keep latest st) = Inr (rec_id us inst n)"
  using assms by (simp add: append_sync_def Let_def split: prod.splits)

theorem artifact_get_after_put_witness:
  "\<exists>st' r. artifact_put some_digest publish_sample 0 ''etl'' ''rows'' ''x'' 0 [] empty_artifacts = (st', Inr r) \<and>
     snd (artifact_get some_digest (\<lambda>_. []) True (\<lambda>_. good_io 0) (good_io 0) ''etl'' ''rows'' False None st') =
       Inr (Some (r, ''x''))"
proof -
  have sc: "require_scope ''etl'' = Inr ''etl''" and vd: "valid_digest (some_digest ''x'')"
    and port: "rec_portable (artifact_record ''rows'' (some_digest ''x'') 1 0 [])" by code_simp+
  obtain recs where ap: "append_sync some_digest (good_io 0) True (\<lambda>_. good_io 0) 1000000 ''n'' 1 ''artifacts/etl''
      (artifact_record ''rows'' (some_digest ''x'') 1 0 []) None (Some ''name'') (ds_store ds_start) =
      (recs, Inr (rec_id 1000000 ''n'' 1))"
    using append_sync_ok [OF _ _ port] by (metis good_io_simps(1,3) prod.collapse)
  then have put: "\<exists>st'. artifact_put some_digest publish_sample 0 ''etl'' ''rows'' ''x'' 0 [] empty_artifacts =
      (st', Inr (artifact_record ''rows'' (some_digest ''x'') 1 0 []))"
    using sc vd by (simp add: artifact_put_def publish_sample_def empty_artifacts_def put_blob_def Let_def)
  then obtain st' where p: "artifact_put some_digest publish_sample 0 ''etl'' ''rows'' ''x'' 0 [] empty_artifacts =
      (st', Inr (artifact_record ''rows'' (some_digest ''x'') 1 0 []))" by blast
  have files: "art_files some_digest ''etl'' empty_artifacts = []"
    by (simp add: art_files_def empty_artifacts_def ds_start_def rec_files_def)
  have "snd (artifact_get some_digest (\<lambda>_. []) True (\<lambda>_. good_io 0) (good_io 0) ''etl'' ''rows'' False None st') =
      Inr (Some (artifact_record ''rows'' (some_digest ''x'') 1 0 [], ''x''))"
    using artifact_get_after_put [OF p, of "\<lambda>_. good_io 0" "good_io 0" "\<lambda>_. []"] files
    by (simp add: content_addressed_def empty_artifacts_def)
  with p show ?thesis by blast
qed

end
