(* ===== verification/GossipParse.thy ===== *)
theory GossipParse
  imports JsonValues
begin

text \<open>
  The parsers that \<open>cluster.py\<close> applies to a peer's \<open>/peer\<close> response, which is untrusted input:
  \<open>_parse_members\<close>, \<open>_parse_str_list\<close>, \<open>_finite_number\<close>, \<open>_parse_job_summaries\<close>,
  \<open>_parse_node_stats\<close> and its header form, and \<open>_aged_job_summaries\<close>.  Where a Python operation
  they use raises on some JSON value, the model says so: \<open>float\<close> of an integer beyond the range of a
  double, and the membership test in a frozenset with an unhashable value.
\<close>

datatype parse_raise = FloatOverflow | UnhashableType

subsection \<open>Access to untrusted values\<close>

text \<open>\<open>d.get(k)\<close>: an absent key and a null read alike.\<close>

definition get_or_null :: "json dict \<Rightarrow> string \<Rightarrow> json" where
  "get_or_null d k = (case dict_get d k of None \<Rightarrow> JNull | Some v \<Rightarrow> v)"

text \<open>\<open>s.isprintable()\<close> on ASCII text.\<close>

definition isprintable :: "string \<Rightarrow> bool" where
  "isprintable s \<longleftrightarrow> list_all (\<lambda>c. 32 \<le> code_of c \<and> code_of c \<le> 126) s"

definition MAX_PEER_FIELD_LEN :: nat where
  "MAX_PEER_FIELD_LEN = 256"

definition MAX_MEMBER_ENTRIES :: nat where
  "MAX_MEMBER_ENTRIES = 4096"

definition MAX_REBOOT_JOB_NAME_LEN :: nat where
  "MAX_REBOOT_JOB_NAME_LEN = 128"

definition MAX_ADVERTISED_REBOOT_JOBS :: nat where
  "MAX_ADVERTISED_REBOOT_JOBS = 512"

definition MAX_JOB_SUMMARY_NAME_LEN :: nat where
  "MAX_JOB_SUMMARY_NAME_LEN = 128"

definition MAX_ADVERTISED_JOB_SUMMARIES :: nat where
  "MAX_ADVERTISED_JOB_SUMMARIES = 512"

definition MAX_JOB_SUMMARY_TS_LEN :: nat where
  "MAX_JOB_SUMMARY_TS_LEN = 64"

definition SUMMARY_OUTCOMES :: "string list" where
  "SUMMARY_OUTCOMES = [''success'', ''failure'', ''cancelled'']"

definition MAX_NODE_STATS_HEADER_LEN :: nat where
  "MAX_NODE_STATS_HEADER_LEN = 1024"

subsection \<open>Members and name sets\<close>

type_synonym member = "string \<times> string \<times> bool"

definition too_long :: "nat option \<Rightarrow> string \<Rightarrow> bool" where
  "too_long max_len s = (case max_len of None \<Rightarrow> False | Some n \<Rightarrow> n < length s)"

definition parse_member :: "nat option \<Rightarrow> json \<Rightarrow> member option" where
  "parse_member max_len entry =
     (case entry of
        JObject d \<Rightarrow>
          (case (get_or_null d ''node_name'', get_or_null d ''instance_id'', get_or_null d ''agreed'') of
             (JString name, JString instance_id, JBool agreed) \<Rightarrow>
               if too_long max_len name \<or> too_long max_len instance_id then None
               else if \<not> (isprintable name \<and> isprintable instance_id) then None
               else Some (name, instance_id, agreed)
           | _ \<Rightarrow> None)
      | _ \<Rightarrow> None)"

text \<open>The loop stops once \<open>max_items\<close> entries have been kept.\<close>

definition reached_cap :: "nat option \<Rightarrow> nat \<Rightarrow> bool" where
  "reached_cap max_items n = (case max_items of None \<Rightarrow> False | Some k \<Rightarrow> k \<le> n)"

fun members_loop :: "nat option \<Rightarrow> nat option \<Rightarrow> member list \<Rightarrow> json list \<Rightarrow> member list" where
  "members_loop max_len max_items members [] = members"
| "members_loop max_len max_items members (entry # rest) =
     (case parse_member max_len entry of
        None \<Rightarrow> members_loop max_len max_items members rest
      | Some m \<Rightarrow>
          if reached_cap max_items (length (members @ [m])) then members @ [m]
          else members_loop max_len max_items (members @ [m]) rest)"

definition parse_members :: "nat option \<Rightarrow> nat option \<Rightarrow> json \<Rightarrow> member list" where
  "parse_members max_len max_items raw =
     (case raw of JArray entries \<Rightarrow> members_loop max_len max_items [] entries | _ \<Rightarrow> [])"

fun str_loop :: "nat option \<Rightarrow> nat option \<Rightarrow> string set \<Rightarrow> json list \<Rightarrow> string set" where
  "str_loop max_len max_items acc [] = acc"
| "str_loop max_len max_items acc (item # rest) =
     (case item of
        JString s \<Rightarrow>
          if too_long max_len s \<or> \<not> isprintable s then str_loop max_len max_items acc rest
          else if reached_cap max_items (card (insert s acc)) then insert s acc
          else str_loop max_len max_items (insert s acc) rest
      | _ \<Rightarrow> str_loop max_len max_items acc rest)"

definition parse_str_list :: "nat option \<Rightarrow> nat option \<Rightarrow> json \<Rightarrow> string set" where
  "parse_str_list max_len max_items raw =
     (case raw of JArray items \<Rightarrow> str_loop max_len max_items {} items | _ \<Rightarrow> {})"

subsection \<open>Numbers\<close>

text \<open>
  \<open>float(i)\<close> raises when the nearest double would be out of range; that starts half a unit in the
  last place above the largest finite one.
\<close>

definition float_overflows :: "int \<Rightarrow> bool" where
  "float_overflows i \<longleftrightarrow> 2 ^ 1024 - 2 ^ 970 \<le> \<bar>i\<bar>"

text \<open>Floats of the model are finite, so that \<open>math.isfinite\<close> holds of what \<open>float\<close> returns.\<close>

definition finite_number :: "json \<Rightarrow> (parse_raise, real option) result" where
  "finite_number value =
     (case value of
        JInt i \<Rightarrow> if float_overflows i then Inl FloatOverflow else Inr (Some (of_int i))
      | JNum r \<Rightarrow> Inr (Some r)
      | _ \<Rightarrow> Inr None)"

definition number_or_null :: "real option \<Rightarrow> json" where
  "number_or_null r = (case r of None \<Rightarrow> JNull | Some x \<Rightarrow> JNum x)"

subsection \<open>Job summaries\<close>

text \<open>\<open>outcome in _SUMMARY_OUTCOMES\<close> hashes the value, which raises for a list or an object.\<close>

definition known_outcome :: "json \<Rightarrow> (parse_raise, bool) result" where
  "known_outcome outcome =
     (case outcome of
        JArray vs \<Rightarrow> Inl UnhashableType
      | JObject d \<Rightarrow> Inl UnhashableType
      | JString s \<Rightarrow> Inr (s \<in> set SUMMARY_OUTCOMES)
      | _ \<Rightarrow> Inr False)"

definition printable_stamp :: "json \<Rightarrow> bool" where
  "printable_stamp v =
     (case v of JString s \<Rightarrow> length s \<le> MAX_JOB_SUMMARY_TS_LEN \<and> isprintable s | _ \<Rightarrow> False)"

definition parse_last :: "json \<Rightarrow> (parse_raise, json) result" where
  "parse_last v =
     (case v of
        JObject d \<Rightarrow>
          bind_result (known_outcome (get_or_null d ''outcome'')) (\<lambda>known.
            if known \<and> printable_stamp (get_or_null d ''finished_at'')
            then bind_result (finite_number (get_or_null d ''duration'')) (\<lambda>duration.
                   Inr (JObject
                     [(''outcome'', get_or_null d ''outcome''),
                      (''finished_at'', get_or_null d ''finished_at''),
                      (''duration'', number_or_null duration),
                      (''exit_code'', (case get_or_null d ''exit_code'' of JInt i \<Rightarrow> JInt i | _ \<Rightarrow> JNull))]))
            else Inr JNull)
      | _ \<Rightarrow> Inr JNull)"

definition parse_summary :: "json dict \<Rightarrow> (parse_raise, json) result" where
  "parse_summary entry =
     bind_result (finite_number (get_or_null entry ''scheduled_in'')) (\<lambda>scheduled.
       bind_result (parse_last (get_or_null entry ''last'')) (\<lambda>last_run.
         Inr (JObject
           [(''running'', JBool (get_or_null entry ''running'' = JBool True)),
            (''enabled'', JBool (get_or_null entry ''enabled'' \<noteq> JBool False)),
            (''scheduled_in'', number_or_null scheduled),
            (''last'', last_run)])))"

definition summary_name_ok :: "string \<Rightarrow> bool" where
  "summary_name_ok name \<longleftrightarrow>
     name \<noteq> [] \<and> length name \<le> MAX_JOB_SUMMARY_NAME_LEN \<and> isprintable name"

fun summaries_loop :: "json dict \<Rightarrow> json dict \<Rightarrow> (parse_raise, json dict) result" where
  "summaries_loop acc [] = Inr acc"
| "summaries_loop acc ((name, entry) # rest) =
     (case entry of
        JObject d \<Rightarrow>
          if summary_name_ok name
          then bind_result (parse_summary d) (\<lambda>summary.
                 let acc' = dict_set name summary acc
                 in if MAX_ADVERTISED_JOB_SUMMARIES \<le> length acc' then Inr acc'
                    else summaries_loop acc' rest)
          else summaries_loop acc rest
      | _ \<Rightarrow> summaries_loop acc rest)"

definition parse_job_summaries :: "json \<Rightarrow> (parse_raise, json dict option) result" where
  "parse_job_summaries raw =
     (case raw of
        JObject d \<Rightarrow> bind_result (summaries_loop [] d) (\<lambda>r. Inr (Some r))
      | _ \<Rightarrow> Inr None)"

text \<open>The countdowns of a stored snapshot, aged to the present.\<close>

definition age_summary :: "real \<Rightarrow> json \<Rightarrow> json" where
  "age_summary elapsed entry =
     (case entry of
        JObject d \<Rightarrow>
          (case get_or_null d ''scheduled_in'' of
             JInt i \<Rightarrow> JObject (dict_set ''scheduled_in'' (JNum (max 0 (of_int i - elapsed))) d)
           | JNum r \<Rightarrow> JObject (dict_set ''scheduled_in'' (JNum (max 0 (r - elapsed))) d)
           | _ \<Rightarrow> entry)
      | _ \<Rightarrow> entry)"

definition aged_job_summaries ::
  "json dict option \<Rightarrow> real option \<Rightarrow> real \<Rightarrow> json dict option" where
  "aged_job_summaries jobs taken_at now =
     (case (jobs, taken_at) of
        (Some js, Some t) \<Rightarrow>
          if now - t \<le> 0 then jobs
          else Some (map (\<lambda>(name, entry). (name, age_summary (now - t) entry)) js)
      | _ \<Rightarrow> jobs)"

subsection \<open>Node statistics\<close>

definition NODE_STATS_FIELDS :: "string list" where
  "NODE_STATS_FIELDS =
     [''cpu_percent'', ''cpu_count'', ''mem_percent'', ''mem_used_bytes'', ''mem_total_bytes'',
      ''proc_rss_bytes'', ''proc_cpu_percent'']"

text \<open>\<open>int(x)\<close> of a float rounds towards zero.\<close>

definition py_trunc :: "real \<Rightarrow> int" where
  "py_trunc r = (if 0 \<le> r then \<lfloor>r\<rfloor> else \<lceil>r\<rceil>)"

fun stats_loop :: "json dict \<Rightarrow> json dict \<Rightarrow> string list \<Rightarrow> (parse_raise, json dict) result" where
  "stats_loop raw acc [] = Inr acc"
| "stats_loop raw acc (f # fs) =
     bind_result (finite_number (get_or_null raw f)) (\<lambda>value.
       case value of
         None \<Rightarrow> stats_loop raw acc fs
       | Some r \<Rightarrow>
           stats_loop raw (dict_set f (if f = ''cpu_count'' then JInt (py_trunc r) else JNum r) acc) fs)"

definition parse_node_stats :: "json \<Rightarrow> (parse_raise, json dict option) result" where
  "parse_node_stats raw =
     (case raw of
        JObject d \<Rightarrow>
          bind_result (stats_loop d [] NODE_STATS_FIELDS) (\<lambda>r. Inr (if r = [] then None else Some r))
      | _ \<Rightarrow> Inr None)"

text \<open>
  A header or body text is given by its length and by what \<open>json.loads\<close> makes of it, \<open>None\<close> for
  text that does not parse.
\<close>

record json_text =
  text_length :: nat
  parsed :: "json option"

definition parse_node_stats_header :: "json_text option \<Rightarrow> (parse_raise, json dict option) result" where
  "parse_node_stats_header raw =
     (case raw of
        None \<Rightarrow> Inr None
      | Some t \<Rightarrow>
          if text_length t > MAX_NODE_STATS_HEADER_LEN then Inr None
          else (case parsed t of None \<Rightarrow> Inr None | Some d \<Rightarrow> parse_node_stats d))"

subsection \<open>What the parsers keep\<close>

lemma members_loop_filter:
  "members_loop max_len None acc es = acc @ List.map_filter (parse_member max_len) es"
  by (induction es arbitrary: acc) (auto simp: reached_cap_def map_filter_simps split: option.splits)

lemma members_loop_bounded:
  "length acc < n \<Longrightarrow> length (members_loop max_len (Some n) acc es) \<le> n"
  by (induction es arbitrary: acc) (auto simp: reached_cap_def split: option.splits)

lemma members_loop_prefix:
  "length acc + length es < n \<Longrightarrow>
   members_loop max_len (Some n) acc es = acc @ List.map_filter (parse_member max_len) es"
  by (induction es arbitrary: acc) (auto simp: reached_cap_def map_filter_simps split: option.splits)

lemma parse_member_good:
  "parse_member (Some n) e = Some (name, inst, ag) \<Longrightarrow>
   length name \<le> n \<and> length inst \<le> n \<and> isprintable name \<and> isprintable inst"
  by (auto simp: parse_member_def too_long_def split: json.splits if_splits)

lemma str_loop_finite: "finite acc \<Longrightarrow> finite (str_loop max_len max_items acc es)"
  by (induction es arbitrary: acc) (auto split: json.splits)

lemma str_loop_bounded:
  "finite acc \<Longrightarrow> card acc < n \<Longrightarrow> card (str_loop max_len (Some n) acc es) \<le> n"
  by (induction es arbitrary: acc)
    (auto simp: reached_cap_def card_insert_if not_le split: json.splits)

text \<open>A well-formed list that fits within the caps is read back whole.\<close>

lemma str_loop_all:
  assumes "finite acc" and "card acc + length ss < n"
    and "\<forall>s \<in> set ss. length s \<le> m \<and> isprintable s"
  shows "str_loop (Some m) (Some n) acc (map JString ss) = acc \<union> set ss"
  using assms
proof (induction ss arbitrary: acc)
  case (Cons s ss)
  then have "card (insert s acc) + length ss < n"
    by (simp add: card_insert_if)
  then have "str_loop (Some m) (Some n) (insert s acc) (map JString ss) = insert s acc \<union> set ss"
    using Cons by simp
  with Cons.prems \<open>card (insert s acc) + length ss < n\<close> show ?case
    by (auto simp: reached_cap_def too_long_def)
qed simp

subsection \<open>Where the parsers raise\<close>

text \<open>Within the 64-bit window that the body parser enforces, \<open>float\<close> does not overflow.\<close>

lemma window_no_overflow:
  assumes "INT_MIN \<le> i" and "i \<le> INT_MAX"
  shows "\<not> float_overflows i"
proof -
  have "(2 :: int) ^ 64 < 2 ^ 1024 - 2 ^ 970"
    by (simp only: power_numeral) simp
  moreover have "\<bar>i\<bar> \<le> 2 ^ 64" using assms by (auto simp: INT_MIN_def INT_MAX_def)
  ultimately show ?thesis by (simp add: float_overflows_def)
qed

lemma finite_number_portable:
  "ensure_portable v d \<Longrightarrow> \<exists>r. finite_number v = Inr r"
  using window_no_overflow by (cases v) (auto simp: finite_number_def)

end
