(* ===== verification/ClusterView.thy ===== *)
theory ClusterView
  imports GossipParse
begin

text \<open>
  The peer table of one node (\<open>PeerState\<close> and \<open>ClusterView\<close> of \<open>cluster.py\<close>): what a node last
  observed of each configured peer, the two operations by which a poll updates an entry, and the
  list of members a node reports.  The lemmas are about the drift debounce: how the streak of
  mismatched rounds and the status follow from the sequence of polls.
\<close>

subsection \<open>State\<close>

datatype status =
  STATUS_UNKNOWN | STATUS_SELF | STATUS_AGREED | STATUS_SYNCING | STATUS_DRIFTED
| STATUS_UNREACHABLE | STATUS_UNTRUSTED | STATUS_CONFLICT

definition STALE_STATUSES :: "status set" where
  "STALE_STATUSES = {STATUS_UNKNOWN, STATUS_UNREACHABLE, STATUS_UNTRUSTED}"

definition SCHEME_VERSION :: string where
  "SCHEME_VERSION = ''v1''"

text \<open>The texts of \<open>last_error\<close>, by what they report.\<close>

datatype peer_error = DuplicateNodeName string | SchemeMismatch string | PollFailure string

record PeerState =
  host :: string
  status :: status
  job_set_id :: "string option"
  node_name :: "string option"
  instance_id :: "string option"
  self_confirmed :: bool
  last_seen :: "real option"
  last_error :: "peer_error option"
  mismatch_streak :: nat
  members :: "member list option"
  reports_members :: bool
  declared_size :: "int option"
  declared_distribution :: "string option"
  declared_elect_leader :: "bool option"
  ran_reboot_jobs :: "string set option"
  mutual_agreeing :: "string set option"
  quorate_vouched :: "string set option"
  job_summaries :: "json dict option"
  job_summaries_truncated :: bool
  job_summaries_at :: "real option"
  node_stats :: "json dict option"
  node_stats_at :: "real option"

definition new_peer :: "string \<Rightarrow> PeerState" where
  "new_peer h =
     \<lparr>host = h, status = STATUS_UNKNOWN, job_set_id = None, node_name = None, instance_id = None,
      self_confirmed = False, last_seen = None, last_error = None, mismatch_streak = 0,
      members = None, reports_members = True, declared_size = None, declared_distribution = None,
      declared_elect_leader = None, ran_reboot_jobs = None, mutual_agreeing = None,
      quorate_vouched = None, job_summaries = None, job_summaries_truncated = False,
      job_summaries_at = None, node_stats = None, node_stats_at = None\<rparr>"

definition fresh_node_stats :: "PeerState \<Rightarrow> real \<Rightarrow> real \<Rightarrow> json dict option" where
  "fresh_node_stats p now max_age =
     (case (node_stats p, node_stats_at p) of
        (Some s, Some t) \<Rightarrow> if now - t > max_age then None else Some s
      | _ \<Rightarrow> None)"

record ClusterView =
  drift_after :: nat
  peers :: "PeerState dict"

definition new_view :: "string list \<Rightarrow> nat \<Rightarrow> ClusterView" where
  "new_view hosts drift = \<lparr>drift_after = drift, peers = dict_of (map (\<lambda>h. (h, new_peer h)) hosts)\<rparr>"

subsection \<open>Recording a poll\<close>

text \<open>The validated content of a \<open>/peer\<close> response, the keyword arguments of \<open>record_success\<close>.\<close>

record observation =
  peer_name :: "string option"
  peer_id :: "string option"
  peer_scheme :: "string option"
  peer_instance :: "string option"
  peer_members :: "member list option"
  peer_reports_members :: bool
  peer_ran_reboot_jobs :: "string set option"
  peer_size :: "int option"
  peer_distribution :: "string option"
  peer_elect_leader :: "bool option"
  peer_mutual_agreeing :: "string set option"
  peer_quorate_vouched :: "string set option"
  peer_job_summaries :: "json dict option"
  peer_job_summaries_truncated :: bool
  peer_job_summaries_at :: "real option"

text \<open>The fields every successful poll overwrites, before the status is decided.\<close>

definition absorb :: "observation \<Rightarrow> real \<Rightarrow> json dict option \<Rightarrow> PeerState \<Rightarrow> PeerState" where
  "absorb obs now stats p =
     (let p1 = p\<lparr>last_seen := Some now, last_error := None, job_set_id := peer_id obs,
                 node_name := peer_name obs, instance_id := peer_instance obs,
                 members := peer_members obs\<rparr>;
          p2 = (case peer_job_summaries obs of
                  None \<Rightarrow> p1
                | Some js \<Rightarrow> p1\<lparr>job_summaries := Some js,
                                job_summaries_truncated := peer_job_summaries_truncated obs,
                                job_summaries_at := (case peer_job_summaries_at obs of
                                                       None \<Rightarrow> Some now | Some t \<Rightarrow> Some t)\<rparr>);
          p3 = (case stats of
                  None \<Rightarrow> p2 | Some s \<Rightarrow> p2\<lparr>node_stats := Some s, node_stats_at := Some now\<rparr>)
      in p3\<lparr>reports_members := peer_reports_members obs,
            ran_reboot_jobs := peer_ran_reboot_jobs obs, declared_size := peer_size obs,
            mutual_agreeing := peer_mutual_agreeing obs,
            quorate_vouched := peer_quorate_vouched obs,
            declared_distribution := peer_distribution obs,
            declared_elect_leader := peer_elect_leader obs, self_confirmed := False\<rparr>)"

definition judge ::
  "nat \<Rightarrow> observation \<Rightarrow> string \<Rightarrow> string \<Rightarrow> string option \<Rightarrow> PeerState \<Rightarrow> PeerState" where
  "judge drift obs my_id my_name my_instance p =
     (if peer_name obs = Some my_name
      then if peer_instance obs \<noteq> None \<and> peer_instance obs \<noteq> my_instance
           then p\<lparr>status := STATUS_CONFLICT, last_error := Some (DuplicateNodeName my_name)\<rparr>
           else p\<lparr>status := STATUS_SELF, self_confirmed := True, mismatch_streak := 0\<rparr>
      else if peer_scheme obs \<noteq> None \<and> peer_scheme obs \<noteq> Some SCHEME_VERSION
      then p\<lparr>status := STATUS_DRIFTED, last_error := Some (SchemeMismatch (the (peer_scheme obs)))\<rparr>
      else if peer_id obs = Some my_id
      then p\<lparr>status := STATUS_AGREED, mismatch_streak := 0\<rparr>
      else let streak = mismatch_streak p + 1
           in p\<lparr>mismatch_streak := streak,
                status := (if drift \<le> streak then STATUS_DRIFTED else STATUS_SYNCING)\<rparr>)"

definition peer_success ::
  "nat \<Rightarrow> observation \<Rightarrow> string \<Rightarrow> real \<Rightarrow> string \<Rightarrow> string option \<Rightarrow> json dict option \<Rightarrow>
   PeerState \<Rightarrow> PeerState" where
  "peer_success drift obs my_id now my_name my_instance stats p =
     judge drift obs my_id my_name my_instance (absorb obs now stats p)"

definition peer_failure :: "string \<Rightarrow> bool \<Rightarrow> PeerState \<Rightarrow> PeerState" where
  "peer_failure error untrusted p =
     p\<lparr>last_error := Some (PollFailure error),
       status := (if self_confirmed p then STATUS_SELF
                  else if untrusted then STATUS_UNTRUSTED else STATUS_UNREACHABLE),
       members := None, ran_reboot_jobs := None, mutual_agreeing := None,
       quorate_vouched := None, reports_members := False\<rparr>"

text \<open>\<open>self.peers[host]\<close> raises \<open>KeyError\<close> on an unknown host.\<close>

definition update_peer ::
  "(PeerState \<Rightarrow> PeerState) \<Rightarrow> string \<Rightarrow> ClusterView \<Rightarrow> (string, ClusterView) result" where
  "update_peer f h v =
     (case dict_get (peers v) h of
        None \<Rightarrow> Inl h
      | Some p \<Rightarrow> Inr (v\<lparr>peers := dict_set h (f p) (peers v)\<rparr>))"

definition record_success ::
  "string \<Rightarrow> observation \<Rightarrow> string \<Rightarrow> real \<Rightarrow> string \<Rightarrow> string option \<Rightarrow> json dict option \<Rightarrow>
   ClusterView \<Rightarrow> (string, ClusterView) result" where
  "record_success h obs my_id now my_name my_instance stats v =
     update_peer (peer_success (drift_after v) obs my_id now my_name my_instance stats) h v"

definition record_failure ::
  "string \<Rightarrow> string \<Rightarrow> bool \<Rightarrow> ClusterView \<Rightarrow> (string, ClusterView) result" where
  "record_failure h error untrusted v = update_peer (peer_failure error untrusted) h v"

subsection \<open>What a node reports\<close>

text \<open>An entry of the \<open>members\<close> list; the instance may be null.\<close>

definition member_json :: "string \<Rightarrow> string option \<Rightarrow> bool \<Rightarrow> json" where
  "member_json name inst agreed =
     JObject [(''node_name'', JString name),
              (''instance_id'', (case inst of None \<Rightarrow> JNull | Some i \<Rightarrow> JString i)),
              (''agreed'', JBool agreed)]"

definition peer_member :: "PeerState \<Rightarrow> json option" where
  "peer_member p =
     (if status p \<in> STALE_STATUSES then None
      else (case node_name p of
              None \<Rightarrow> None
            | Some name \<Rightarrow> Some (member_json name (instance_id p) (status p = STATUS_AGREED))))"

definition local_members :: "string \<Rightarrow> string \<Rightarrow> ClusterView \<Rightarrow> json list" where
  "local_members my_name my_instance v =
     member_json my_name (Some my_instance) True #
       List.map_filter peer_member (map snd (peers v))"

definition peer_sees_me_agreed :: "member list option \<Rightarrow> string \<Rightarrow> bool" where
  "peer_sees_me_agreed ms my_instance =
     (case ms of
        None \<Rightarrow> False
      | Some xs \<Rightarrow> list_ex (\<lambda>(name, inst, agreed). agreed \<and> inst = my_instance) xs)"

subsection \<open>Projections after a poll\<close>

named_theorems poll_simps \<open>fields of a peer entry after a poll\<close>

lemma absorb_fields [poll_simps]:
  "status (absorb obs now stats p) = status p"
  "node_name (absorb obs now stats p) = peer_name obs"
  "instance_id (absorb obs now stats p) = peer_instance obs"
  "mismatch_streak (absorb obs now stats p) = mismatch_streak p"
  "members (absorb obs now stats p) = peer_members obs"
  "reports_members (absorb obs now stats p) = peer_reports_members obs"
  "declared_size (absorb obs now stats p) = peer_size obs"
  "declared_distribution (absorb obs now stats p) = peer_distribution obs"
  "declared_elect_leader (absorb obs now stats p) = peer_elect_leader obs"
  "mutual_agreeing (absorb obs now stats p) = peer_mutual_agreeing obs"
  "quorate_vouched (absorb obs now stats p) = peer_quorate_vouched obs"
  "job_set_id (absorb obs now stats p) = peer_id obs"
  "ran_reboot_jobs (absorb obs now stats p) = peer_ran_reboot_jobs obs"
  by (simp_all add: absorb_def Let_def split: option.splits)

lemma judge_keeps [poll_simps]:
  "node_name (judge d obs my nm ins p) = node_name p"
  "instance_id (judge d obs my nm ins p) = instance_id p"
  "members (judge d obs my nm ins p) = members p"
  "reports_members (judge d obs my nm ins p) = reports_members p"
  "declared_size (judge d obs my nm ins p) = declared_size p"
  "declared_distribution (judge d obs my nm ins p) = declared_distribution p"
  "declared_elect_leader (judge d obs my nm ins p) = declared_elect_leader p"
  "mutual_agreeing (judge d obs my nm ins p) = mutual_agreeing p"
  "quorate_vouched (judge d obs my nm ins p) = quorate_vouched p"
  "job_set_id (judge d obs my nm ins p) = job_set_id p"
  "ran_reboot_jobs (judge d obs my nm ins p) = ran_reboot_jobs p"
  by (simp_all add: judge_def Let_def)

lemma judge_agreed:
  "status (judge d obs my nm ins p) = STATUS_AGREED \<longleftrightarrow>
     peer_name obs \<noteq> Some nm \<and> peer_scheme obs \<in> {None, Some SCHEME_VERSION} \<and> peer_id obs = Some my"
  by (auto simp: judge_def Let_def)

end
