(* ===== verification/ClusterManager.thy ===== *)
theory ClusterManager
  imports ClusterView Election
begin

text \<open>
  The gossip backend of one node (\<open>ClusterManager\<close> of \<open>cluster.py\<close>): the derivations that turn the
  peer table into a live set, the names a node may elect, the conflicts that close the leader gate,
  the leader and the owner of a job, and the gate of the scheduler (\<open>_cluster_allows\<close> of
  \<open>cron.py\<close>) that asks them.  The memoisation of the derivations is transparent and not modelled;
  sets are sorted where the code sorts them.
\<close>

subsection \<open>State\<close>

text \<open>
  \<open>live_job_set_id\<close> is what \<open>get_job_set_id()\<close> returns now; \<open>config_peers\<close> are the configured hosts.
\<close>

record Manager =
  my_name :: string
  my_instance :: string
  distribution :: string
  elects_leader :: bool
  config_peers :: "string list"
  live_job_set_id :: string
  view :: ClusterView
  poll_rounds :: nat
  my_ran_reboot_jobs :: "string set"
  ran_jobs_job_set_id :: "string option"
  observation_cache :: "(string \<times> observation) dict"

abbreviation table :: "Manager \<Rightarrow> PeerState list" where
  "table m \<equiv> map snd (peers (view m))"

definition new_manager ::
  "string \<Rightarrow> string \<Rightarrow> string \<Rightarrow> bool \<Rightarrow> string list \<Rightarrow> nat \<Rightarrow> string \<Rightarrow> Manager" where
  "new_manager name inst distr elect hosts drift job_set =
     \<lparr>my_name = name, my_instance = inst, distribution = distr, elects_leader = elect,
      config_peers = hosts, live_job_set_id = job_set, view = new_view hosts drift,
      poll_rounds = 0, my_ran_reboot_jobs = {}, ran_jobs_job_set_id = None,
      observation_cache = []\<rparr>"

subsection \<open>Cluster size and live set\<close>

fun duplicate_instances :: "string set \<Rightarrow> PeerState list \<Rightarrow> nat" where
  "duplicate_instances seen [] = 0"
| "duplicate_instances seen (p # ps) =
     (if status p = STATUS_SELF then duplicate_instances seen ps
      else (case instance_id p of
              None \<Rightarrow> duplicate_instances seen ps
            | Some i \<Rightarrow>
                if i \<in> seen then duplicate_instances seen ps + 1
                else duplicate_instances (insert i seen) ps))"

definition self_listed :: "Manager \<Rightarrow> nat" where
  "self_listed m = length (filter (\<lambda>p. status p = STATUS_SELF) (table m))"

definition cluster_size :: "Manager \<Rightarrow> nat" where
  "cluster_size m =
     length (config_peers m) + 1 - self_listed m - duplicate_instances {} (table m)"

definition quorum :: "Manager \<Rightarrow> nat" where
  "quorum m = quorum_size (cluster_size m)"

text \<open>Whether a peer counts towards the live set, before the deduplication by instance.\<close>

definition counts :: "Manager \<Rightarrow> PeerState \<Rightarrow> bool" where
  "counts m p \<longleftrightarrow>
     status p = STATUS_AGREED \<and> node_name p \<noteq> None \<and>
     (peer_sees_me_agreed (members p) (my_instance m) \<or> \<not> reports_members p) \<and>
     \<not> (declared_size p \<noteq> None \<and> declared_size p \<noteq> Some (int (cluster_size m))) \<and>
     \<not> (declared_distribution p \<noteq> None \<and> declared_distribution p \<noteq> Some (distribution m)) \<and>
     \<not> (declared_elect_leader p \<noteq> None \<and> declared_elect_leader p \<noteq> Some (elects_leader m))"

fun agreeing_loop :: "Manager \<Rightarrow> string set \<Rightarrow> PeerState list \<Rightarrow> PeerState list" where
  "agreeing_loop m seen [] = []"
| "agreeing_loop m seen (p # ps) =
     (if \<not> counts m p then agreeing_loop m seen ps
      else (case instance_id p of
              None \<Rightarrow> p # agreeing_loop m seen ps
            | Some i \<Rightarrow>
                if i \<in> seen then agreeing_loop m seen ps
                else p # agreeing_loop m (insert i seen) ps))"

definition agreeing_peers :: "Manager \<Rightarrow> PeerState list" where
  "agreeing_peers m = agreeing_loop m {} (table m)"

text \<open>\<open>peer.node_name\<close> where it is truthy: present and not empty.\<close>

definition truthy_name :: "PeerState \<Rightarrow> string option" where
  "truthy_name p = (case node_name p of None \<Rightarrow> None | Some n \<Rightarrow> if n = [] then None else Some n)"

definition agreeing_peer_names :: "Manager \<Rightarrow> string list" where
  "agreeing_peer_names m = List.map_filter truthy_name (agreeing_peers m)"

subsection \<open>Electable names\<close>

definition or_empty :: "'a set option \<Rightarrow> 'a set" where
  "or_empty s = (case s of None \<Rightarrow> {} | Some x \<Rightarrow> x)"

definition direct_names :: "Manager \<Rightarrow> string set" where
  "direct_names m = insert (my_name m) (set (agreeing_peer_names m))"

text \<open>The agreeing peers that report a two-way edge into \<open>n\<close>.\<close>

definition witnesses :: "Manager \<Rightarrow> string \<Rightarrow> string set" where
  "witnesses m n =
     set (List.map_filter node_name
       (filter (\<lambda>p. n \<in> or_empty (mutual_agreeing p)) (agreeing_peers m)))"

definition reported_names :: "(PeerState \<Rightarrow> string set option) \<Rightarrow> Manager \<Rightarrow> string set" where
  "reported_names f m = \<Union> (set (map (\<lambda>p. or_empty (f p)) (agreeing_peers m)))"

definition bridge_candidates :: "Manager \<Rightarrow> string list" where
  "bridge_candidates m =
     sorted_list_of_set
       (Set.filter (\<lambda>n. n \<notin> direct_names m \<and> quorum m \<le> card (witnesses m n) + 1)
         (reported_names mutual_agreeing m))"

definition eligible_candidates :: "Manager \<Rightarrow> string list" where
  "eligible_candidates m =
     List.map_filter truthy_name
       (filter (\<lambda>p. quorum m \<le> card (or_empty (mutual_agreeing p)) + 1) (agreeing_peers m)) @
     bridge_candidates m"

definition unconfirmed_contenders :: "Manager \<Rightarrow> string list" where
  "unconfirmed_contenders m =
     sorted_list_of_set
       (Set.filter (\<lambda>n. n \<noteq> [] \<and> n \<notin> direct_names m \<union> set (eligible_candidates m))
         (reported_names quorate_vouched m))"

definition available_contenders :: "Manager \<Rightarrow> string list" where
  "available_contenders m =
     sorted_list_of_set
       (Set.filter (\<lambda>n. n \<noteq> [] \<and> n \<notin> direct_names m) (reported_names mutual_agreeing m))"

subsection \<open>Conflicts\<close>

text \<open>Peers whose identity was observed this round, this node's own address excluded.\<close>

definition observed :: "Manager \<Rightarrow> PeerState list" where
  "observed m = filter (\<lambda>p. \<not> (status p \<in> STALE_STATUSES \<or> status p = STATUS_SELF)) (table m)"

definition identity :: "PeerState \<Rightarrow> string" where
  "identity p =
     (case instance_id p of
        None \<Rightarrow> ''host:'' @ host p
      | Some i \<Rightarrow> if i = [] then ''host:'' @ host p else i)"

definition first_party :: "Manager \<Rightarrow> string \<Rightarrow> string set" where
  "first_party m n =
     (if n = my_name m then {my_instance m} else {}) \<union>
     set (map identity (filter (\<lambda>p. node_name p = Some n) (observed m)))"

definition or_none :: "'a list option \<Rightarrow> 'a list" where
  "or_none ms = (case ms of None \<Rightarrow> [] | Some xs \<Rightarrow> xs)"

definition reporters :: "Manager \<Rightarrow> string \<Rightarrow> string \<Rightarrow> string set" where
  "reporters m n i =
     set (map host
       (filter (\<lambda>p. list_ex (\<lambda>(name, inst, agreed). name = n \<and> inst = i) (or_none (members p)))
         (observed m)))"

definition transitive_instances :: "Manager \<Rightarrow> string \<Rightarrow> string set" where
  "transitive_instances m n =
     set (map (\<lambda>(name, inst, agreed). inst)
       (filter (\<lambda>(name, inst, agreed). name = n) (concat (map (or_none \<circ> members) (observed m)))))"

definition credible :: "Manager \<Rightarrow> string \<Rightarrow> string set" where
  "credible m n =
     first_party m n \<union> Set.filter (\<lambda>i. 2 \<le> card (reporters m n i)) (transitive_instances m n)"

definition known_names :: "Manager \<Rightarrow> string set" where
  "known_names m =
     insert (my_name m) (set (List.map_filter node_name (observed m)) \<union>
       set (map fst (concat (map (or_none \<circ> members) (observed m)))))"

definition conflict_names :: "Manager \<Rightarrow> string list" where
  "conflict_names m =
     sorted_list_of_set (Set.filter (\<lambda>n. 2 \<le> card (credible m n)) (known_names m))"

definition conflicting_sizes :: "Manager \<Rightarrow> int list" where
  "conflicting_sizes m =
     sorted_list_of_set
       (Set.filter (\<lambda>s. s \<noteq> int (cluster_size m))
         (set (List.map_filter declared_size
           (filter (\<lambda>p. status p = STATUS_AGREED) (table m)))))"

text \<open>The descriptors \<open>field theirs != ours\<close>, as values.\<close>

datatype policy_conflict = DistributionDiffers string string | ElectLeaderDiffers bool bool

definition policy_conflicts_of :: "Manager \<Rightarrow> PeerState \<Rightarrow> policy_conflict list" where
  "policy_conflicts_of m p =
     (case declared_distribution p of
        Some d \<Rightarrow> if d \<noteq> distribution m then [DistributionDiffers d (distribution m)] else []
      | None \<Rightarrow> []) @
     (case declared_elect_leader p of
        Some e \<Rightarrow> if e \<noteq> elects_leader m then [ElectLeaderDiffers e (elects_leader m)] else []
      | None \<Rightarrow> [])"

definition conflicting_policies :: "Manager \<Rightarrow> policy_conflict list" where
  "conflicting_policies m =
     remdups (concat (map (policy_conflicts_of m)
       (filter (\<lambda>p. status p = STATUS_AGREED) (table m))))"

definition has_conflict :: "Manager \<Rightarrow> bool" where
  "has_conflict m \<longleftrightarrow>
     conflict_names m \<noteq> [] \<or> conflicting_sizes m \<noteq> [] \<or> conflicting_policies m \<noteq> []"

subsection \<open>Leader\<close>

definition leader_name :: "Manager \<Rightarrow> string option" where
  "leader_name m =
     elect_leader (my_name m) (agreeing_peer_names m) (cluster_size m)
       (Some (eligible_candidates m))"

definition is_leader :: "Manager \<Rightarrow> bool" where
  "is_leader m \<longleftrightarrow> leader_name m = Some (my_name m)"

definition is_quorate :: "Manager \<Rightarrow> bool" where
  "is_quorate m \<longleftrightarrow> leader_name m \<noteq> None"

definition SETTLE_ROUNDS :: nat where
  "SETTLE_ROUNDS = 3"

definition view_settled :: "Manager \<Rightarrow> bool" where
  "view_settled m \<longleftrightarrow>
     (if list_ex (\<lambda>p. status p = STATUS_UNKNOWN) (table m) then False
      else if SETTLE_ROUNDS \<le> poll_rounds m then True
      else \<not> list_ex (\<lambda>p. status p = STATUS_AGREED \<and> reports_members p \<and>
                 \<not> list_ex (\<lambda>(name, inst, agreed). inst = my_instance m) (or_none (members p)))
             (table m))"

definition available_leader_name :: "Manager \<Rightarrow> string" where
  "available_leader_name m =
     elect_available_leader (my_name m) (agreeing_peer_names m @ available_contenders m)"

definition cedes_to_lower_instance :: "Manager \<Rightarrow> (string \<Rightarrow> string set \<Rightarrow> bool) \<Rightarrow> bool" where
  "cedes_to_lower_instance m owns_for =
     list_ex (\<lambda>p. status p \<notin> STALE_STATUSES \<and> node_name p = Some (my_name m) \<and>
                  (case instance_id p of
                     None \<Rightarrow> False
                   | Some i \<Rightarrow> i \<noteq> [] \<and> i < my_instance m) \<and>
                  owns_for (my_name m) (or_empty (mutual_agreeing p)))
       (table m)"

definition is_available_leader :: "Manager \<Rightarrow> bool" where
  "is_available_leader m \<longleftrightarrow>
     (if \<not> view_settled m then False
      else if available_leader_name m \<noteq> my_name m then False
      else \<not> cedes_to_lower_instance m
             (\<lambda>name seen. elect_available_leader name (sorted_list_of_set seen) = name))"

subsection \<open>Owner of a job\<close>

definition spread_owner_set :: "Manager \<Rightarrow> bool \<times> string list \<times> string list" where
  "spread_owner_set m =
     (let live_count = 1 + length (agreeing_peer_names m);
          names = my_name m # eligible_candidates m @ unconfirmed_contenders m
      in (quorum_size (cluster_size m) \<le> live_count, names, names))"

definition job_owner ::
  "(string \<Rightarrow> int list) \<Rightarrow> Manager \<Rightarrow> string \<Rightarrow> (owner_error, string option) result" where
  "job_owner sha256 m job =
     (case spread_owner_set m of
        (quorate, names, name_bytes) \<Rightarrow>
          if \<not> quorate then Inr None
          else bind_result (hrw_owner_bytes sha256 job names name_bytes) (\<lambda>n. Inr (Some n)))"

definition is_job_owner ::
  "(string \<Rightarrow> int list) \<Rightarrow> Manager \<Rightarrow> string \<Rightarrow> (owner_error, bool) result" where
  "is_job_owner sha256 m job =
     bind_result (job_owner sha256 m job) (\<lambda>n. Inr (n = Some (my_name m)))"

definition available_owner_members :: "Manager \<Rightarrow> string list \<times> string list" where
  "available_owner_members m =
     (let names = my_name m # agreeing_peer_names m @ available_contenders m in (names, names))"

definition available_job_owner ::
  "(string \<Rightarrow> int list) \<Rightarrow> Manager \<Rightarrow> string \<Rightarrow> (owner_error, string) result" where
  "available_job_owner sha256 m job =
     (case available_owner_members m of
        (names, name_bytes) \<Rightarrow> hrw_owner_bytes sha256 job names name_bytes)"

definition is_available_job_owner ::
  "(string \<Rightarrow> int list) \<Rightarrow> Manager \<Rightarrow> string \<Rightarrow> (owner_error, bool) result" where
  "is_available_job_owner sha256 m job =
     (if \<not> view_settled m then Inr False
      else bind_result (available_job_owner sha256 m job) (\<lambda>n.
        if n \<noteq> my_name m then Inr False
        else Inr (\<not> cedes_to_lower_instance m
               (\<lambda>name seen.
                  elect_available_job_owner sha256 job name (sorted_list_of_set seen) = Inr name))))"

subsection \<open>The gate of the scheduler\<close>

text \<open>An exception of the backend closes the gate.\<close>

definition or_closed :: "('e, bool) result \<Rightarrow> bool" where
  "or_closed r = (case r of Inl e \<Rightarrow> False | Inr b \<Rightarrow> b)"

definition cluster_allows ::
  "(string \<Rightarrow> int list) \<Rightarrow> bool \<Rightarrow> Manager option \<Rightarrow> cluster_policy \<Rightarrow> string \<Rightarrow> bool" where
  "cluster_allows sha256 elect_leader_configured mgr policy job =
     (if \<not> elect_leader_configured then True
      else if policy = EveryNode then True
      else (case mgr of
              None \<Rightarrow> policy = PreferLeader
            | Some m \<Rightarrow>
                if distribution m = ''spread''
                then if policy = PreferLeader then or_closed (is_available_job_owner sha256 m job)
                     else if has_conflict m then False
                     else or_closed (is_job_owner sha256 m job)
                else if policy = PreferLeader then is_available_leader m
                else if has_conflict m then False
                else is_leader m))"

definition cluster_owner_moved :: "(string \<Rightarrow> int list) \<Rightarrow> Manager option \<Rightarrow> string \<Rightarrow> bool" where
  "cluster_owner_moved sha256 mgr job =
     (case mgr of
        None \<Rightarrow> False
      | Some m \<Rightarrow>
          if has_conflict m then False
          else if \<not> is_quorate m then False
          else if \<not> view_settled m then False
          else if distribution m = ''spread''
          then (case is_available_job_owner sha256 m job of Inl e \<Rightarrow> False | Inr b \<Rightarrow> \<not> b)
          else \<not> is_available_leader m)"

end
