(* ===== verification/Gossip.thy ===== *)
theory Gossip
  imports ClusterManager
begin

text \<open>
  The gossip exchange of \<open>cluster.py\<close>: the \<open>/peer\<close> body a node serves (\<open>_peer_payload\<close>), what a
  poller makes of a response (\<open>_observe_peer\<close>: network failures, a conditional 304 that replays the
  cached observation, oversized, unparseable and malformed bodies, and the validated observation),
  and the set of \<open>@reboot\<close> jobs known to have run (\<open>advertised_ran_jobs\<close>, \<open>mark_reboot_ran\<close>,
  \<open>_handle_reboot_ran\<close>, \<open>_reconcile_job_set_id\<close>).  The lemmas show that a body served by a node reads
  back as that node's own view, and that a 304 has the effect of the body it stands for.
\<close>

subsection \<open>The reboot-ran set\<close>

definition reconcile_job_set_id :: "string \<Rightarrow> Manager \<Rightarrow> Manager" where
  "reconcile_job_set_id my_id m =
     (if ran_jobs_job_set_id m \<noteq> None \<and> ran_jobs_job_set_id m \<noteq> Some my_id
      then m\<lparr>my_ran_reboot_jobs := {}, ran_jobs_job_set_id := Some my_id\<rparr>
      else m\<lparr>ran_jobs_job_set_id := Some my_id\<rparr>)"

definition advertised_ran_jobs :: "Manager \<Rightarrow> string set" where
  "advertised_ran_jobs m =
     (if ran_jobs_job_set_id m \<in> {None, Some (live_job_set_id m)} then my_ran_reboot_jobs m else {}) \<union>
     \<Union> (set (map (\<lambda>p. or_empty (ran_reboot_jobs p))
       (filter (\<lambda>p. status p = STATUS_AGREED \<and> job_set_id p = Some (live_job_set_id m)) (table m))))"

definition reboot_ran :: "Manager \<Rightarrow> string \<Rightarrow> bool" where
  "reboot_ran m job \<longleftrightarrow> job \<in> advertised_ran_jobs m"

text \<open>The local half of \<open>mark_reboot_ran\<close>; the push to the peers is best effort.\<close>

definition mark_reboot_ran :: "string \<Rightarrow> Manager \<Rightarrow> Manager" where
  "mark_reboot_ran job m =
     (let m' = reconcile_job_set_id (live_job_set_id m) m
      in m'\<lparr>my_ran_reboot_jobs := insert job (my_ran_reboot_jobs m')\<rparr>)"

text \<open>The names a push or a \<open>/peer\<close> body carries.\<close>

definition advertised_names :: "Manager \<Rightarrow> string list" where
  "advertised_names m =
     take MAX_ADVERTISED_REBOOT_JOBS (sorted_list_of_set (advertised_ran_jobs m))"

text \<open>Receiving a push: the status code of the reply and the new state.\<close>

datatype push_body = PushTimeout | PushTooLarge | PushUnparseable | PushJson json

definition handle_reboot_ran :: "push_body \<Rightarrow> Manager \<Rightarrow> nat \<times> Manager" where
  "handle_reboot_ran b m =
     (case b of
        PushTimeout \<Rightarrow> (408, m)
      | PushTooLarge \<Rightarrow> (413, m)
      | PushUnparseable \<Rightarrow> (400, m)
      | PushJson data \<Rightarrow>
          (204, case data of
             JObject d \<Rightarrow>
               if get_or_null d ''job_set_id'' = JString (live_job_set_id m)
               then let m1 = reconcile_job_set_id (live_job_set_id m) m;
                        jobs = my_ran_reboot_jobs m1 \<union>
                          parse_str_list (Some MAX_REBOOT_JOB_NAME_LEN)
                            (Some MAX_ADVERTISED_REBOOT_JOBS) (get_or_null d ''names'')
                    in m1\<lparr>my_ran_reboot_jobs :=
                         (if MAX_ADVERTISED_REBOOT_JOBS < card jobs
                          then set (take MAX_ADVERTISED_REBOOT_JOBS (sorted_list_of_set jobs))
                          else jobs)\<rparr>
               else m
           | _ \<Rightarrow> m))"

subsection \<open>The body a node serves\<close>

text \<open>The scheduler's snapshot, when a provider is installed.\<close>

definition advertised_job_summaries :: "json dict option \<Rightarrow> json dict \<times> bool" where
  "advertised_job_summaries provider =
     (case provider of
        None \<Rightarrow> ([], False)
      | Some summaries \<Rightarrow>
          let names = sort (filter (\<lambda>n. length n \<le> MAX_JOB_SUMMARY_NAME_LEN) (dict_keys summaries))
          in (map (\<lambda>n. (n, get_or_null summaries n)) (take MAX_ADVERTISED_JOB_SUMMARIES names),
              MAX_ADVERTISED_JOB_SUMMARIES < length names \<or> length names < length summaries))"

definition peer_payload :: "json dict option \<Rightarrow> Manager \<Rightarrow> json dict" where
  "peer_payload provider m =
     [(''node_name'', JString (my_name m)),
      (''job_set_id'', JString (live_job_set_id m)),
      (''scheme_version'', JString SCHEME_VERSION),
      (''instance_id'', JString (my_instance m)),
      (''cluster_size'', JInt (int (cluster_size m))),
      (''distribution'', JString (distribution m)),
      (''elect_leader'', JBool (elects_leader m)),
      (''members'', JArray (local_members (my_name m) (my_instance m) (view m))),
      (''ran_reboot_jobs'', JArray (map JString (advertised_names m))),
      (''mutual_agreeing'', JArray (map JString (sort (agreeing_peer_names m)))),
      (''quorate_vouched'', JArray (map JString (sort (eligible_candidates m)))),
      (''job_summaries'', JObject (fst (advertised_job_summaries provider))),
      (''job_summaries_truncated'', JBool (snd (advertised_job_summaries provider)))]"

subsection \<open>Observing a response\<close>

text \<open>
  A body arrives with the node-statistics header, whether it was cut off at the size limit, what the
  JSON parser makes of it, and its tag.
\<close>

datatype response =
  SSLError string
| NetworkError string
| NotModified "json_text option"
| Body "json_text option" bool "json option" "string option"

definition MAX_PEER_ETAG_LEN :: nat where
  "MAX_PEER_ETAG_LEN = 128"

text \<open>Why a body is refused.\<close>

datatype malformed =
  FieldNotString string | FieldTooLong string | BadClusterSize | BadElectLeader

definition malformed_text :: "malformed \<Rightarrow> string" where
  "malformed_text e =
     (case e of
        FieldNotString k \<Rightarrow> ''malformed /peer response: '' @ k @ '' is not a string''
      | FieldTooLong k \<Rightarrow> ''malformed /peer response: '' @ k @ '' is over 256 chars or contains control characters''
      | BadClusterSize \<Rightarrow> ''malformed /peer response: cluster_size is not a positive integer''
      | BadElectLeader \<Rightarrow> ''malformed /peer response: elect_leader is not a boolean'')"

definition check_field :: "json dict \<Rightarrow> string \<Rightarrow> (malformed, string option) result" where
  "check_field d key =
     (case get_or_null d key of
        JNull \<Rightarrow> Inr None
      | JString s \<Rightarrow>
          if MAX_PEER_FIELD_LEN < length s \<or> \<not> isprintable s then Inl (FieldTooLong key)
          else Inr (Some s)
      | _ \<Rightarrow> Inl (FieldNotString key))"

definition check_size_field :: "json dict \<Rightarrow> (malformed, int option) result" where
  "check_size_field d =
     (case get_or_null d ''cluster_size'' of
        JNull \<Rightarrow> Inr None
      | JInt i \<Rightarrow> if i < 1 then Inl BadClusterSize else Inr (Some i)
      | _ \<Rightarrow> Inl BadClusterSize)"

definition check_elect_field :: "json dict \<Rightarrow> (malformed, bool option) result" where
  "check_elect_field d =
     (case get_or_null d ''elect_leader'' of
        JNull \<Rightarrow> Inr None
      | JBool b \<Rightarrow> Inr (Some b)
      | _ \<Rightarrow> Inl BadElectLeader)"

definition name_set :: "json dict \<Rightarrow> string \<Rightarrow> string set option" where
  "name_set d key =
     Some (parse_str_list (Some MAX_PEER_FIELD_LEN) (Some MAX_MEMBER_ENTRIES) (get_or_null d key))"

text \<open>The validated observation, with the summaries already parsed.\<close>

definition observation_of ::
  "json dict \<Rightarrow> real \<Rightarrow> json dict option \<Rightarrow> (malformed, observation) result" where
  "observation_of d now summaries =
     bind_result (check_field d ''node_name'') (\<lambda>name.
     bind_result (check_field d ''job_set_id'') (\<lambda>job_set.
     bind_result (check_field d ''scheme_version'') (\<lambda>scheme.
     bind_result (check_field d ''instance_id'') (\<lambda>inst.
     bind_result (check_field d ''distribution'') (\<lambda>distr.
     bind_result (check_size_field d) (\<lambda>size.
     bind_result (check_elect_field d) (\<lambda>elect.
       Inr \<lparr>peer_name = name, peer_id = job_set, peer_scheme = scheme, peer_instance = inst,
            peer_members = Some (parse_members (Some MAX_PEER_FIELD_LEN) (Some MAX_MEMBER_ENTRIES)
                                   (get_or_null d ''members'')),
            peer_reports_members = (case get_or_null d ''members'' of JArray ms \<Rightarrow> True | _ \<Rightarrow> False),
            peer_ran_reboot_jobs =
              Some (parse_str_list (Some MAX_REBOOT_JOB_NAME_LEN) (Some MAX_ADVERTISED_REBOOT_JOBS)
                      (get_or_null d ''ran_reboot_jobs'')),
            peer_size = size, peer_distribution = distr, peer_elect_leader = elect,
            peer_mutual_agreeing = name_set d ''mutual_agreeing'',
            peer_quorate_vouched = name_set d ''quorate_vouched'',
            peer_job_summaries = summaries,
            peer_job_summaries_truncated =
              (get_or_null d ''job_summaries_truncated'' = JBool True),
            peer_job_summaries_at = Some now\<rparr>)))))))"

datatype observe_raise = UnknownHost string | ParserRaised parse_raise

definition on_view ::
  "(ClusterView \<Rightarrow> (string, ClusterView) result) \<Rightarrow> Manager \<Rightarrow> (observe_raise, Manager) result" where
  "on_view f m =
     (case f (view m) of Inl h \<Rightarrow> Inl (UnknownHost h) | Inr v \<Rightarrow> Inr (m\<lparr>view := v\<rparr>))"

definition lift_parse :: "(parse_raise, 'a) result \<Rightarrow> (observe_raise, 'a) result" where
  "lift_parse r = (case r of Inl e \<Rightarrow> Inl (ParserRaised e) | Inr x \<Rightarrow> Inr x)"

abbreviation fail_poll :: "string \<Rightarrow> string \<Rightarrow> bool \<Rightarrow> Manager \<Rightarrow> (observe_raise, Manager) result" where
  "fail_poll h error untrusted m \<equiv> on_view (record_failure h error untrusted) m"

definition accept ::
  "string \<Rightarrow> observation \<Rightarrow> real \<Rightarrow> json dict option \<Rightarrow> Manager \<Rightarrow> (observe_raise, Manager) result" where
  "accept h obs now stats m =
     on_view (record_success h obs (live_job_set_id m) now (my_name m) (Some (my_instance m)) stats) m"

definition remember :: "string \<Rightarrow> string option \<Rightarrow> observation \<Rightarrow> Manager \<Rightarrow> Manager" where
  "remember h etag obs m =
     (case etag of
        Some t \<Rightarrow>
          if length t \<le> MAX_PEER_ETAG_LEN \<and> isprintable t
          then m\<lparr>observation_cache := dict_set h (t, obs) (observation_cache m)\<rparr>
          else m\<lparr>observation_cache := AList.delete h (observation_cache m)\<rparr>
      | None \<Rightarrow> m\<lparr>observation_cache := AList.delete h (observation_cache m)\<rparr>)"

text \<open>
  The validations run before the parser of the summaries, so that its exception is only met by a body
  that passed them; an exception leaves the manager as it was.
\<close>

definition absorb_body ::
  "string \<Rightarrow> real \<Rightarrow> json dict option \<Rightarrow> json dict \<Rightarrow> string option \<Rightarrow> Manager \<Rightarrow>
   (observe_raise, Manager) result" where
  "absorb_body h now stats d etag m =
     (case observation_of d now None of
        Inl e \<Rightarrow> fail_poll h (malformed_text e) False m
      | Inr obs0 \<Rightarrow>
          bind_result (lift_parse (parse_job_summaries (get_or_null d ''job_summaries''))) (\<lambda>js.
            let obs = obs0\<lparr>peer_job_summaries := js\<rparr>
            in bind_result (accept h obs now stats m) (\<lambda>m'. Inr (remember h etag obs m'))))"

definition observe_peer :: "string \<Rightarrow> real \<Rightarrow> response \<Rightarrow> Manager \<Rightarrow> (observe_raise, Manager) result" where
  "observe_peer h now resp m =
     (case resp of
        SSLError ex \<Rightarrow> fail_poll h ex True m
      | NetworkError ex \<Rightarrow> fail_poll h ex False m
      | NotModified header \<Rightarrow>
          bind_result (lift_parse (parse_node_stats_header header)) (\<lambda>stats.
            case dict_get (observation_cache m) h of
              None \<Rightarrow> fail_poll h ''unsolicited 304 to an unconditional /peer poll'' False m
            | Some (tag, obs) \<Rightarrow> accept h obs now stats m)
      | Body header too_large data etag \<Rightarrow>
          bind_result (lift_parse (parse_node_stats_header header)) (\<lambda>stats.
            if too_large then fail_poll h ''oversized /peer response (> 262144 bytes)'' False m
            else (case data of
                    None \<Rightarrow> fail_poll h ''invalid JSON in /peer response'' False m
                  | Some (JObject d) \<Rightarrow> absorb_body h now stats d etag m
                  | Some _ \<Rightarrow> fail_poll h ''malformed /peer response (not a JSON object)'' False m)))"

text \<open>
  One round: every configured peer is polled with the id read at its start, an exception of one poll
  is logged and leaves that peer's entry as it was, and the round is counted.
\<close>

definition poll_one :: "(string \<Rightarrow> real \<times> response) \<Rightarrow> string \<Rightarrow> Manager \<Rightarrow> Manager" where
  "poll_one net h m =
     (case observe_peer h (fst (net h)) (snd (net h)) m of Inl e \<Rightarrow> m | Inr m' \<Rightarrow> m')"

definition poll_all :: "(string \<Rightarrow> real \<times> response) \<Rightarrow> Manager \<Rightarrow> Manager" where
  "poll_all net m =
     (let m1 = reconcile_job_set_id (live_job_set_id m) m
      in if config_peers m1 = [] then m1
         else let m2 = fold (poll_one net) (config_peers m1) m1
              in m2\<lparr>poll_rounds := poll_rounds m2 + 1\<rparr>)"

end
