(* ===== verification/GossipFacts.thy ===== *)
theory GossipFacts
  imports Gossip
begin

text \<open>
  What a node's \<open>/peer\<close> body says after the trip through the parsers of the poller, and how the
  live set of a node comes out of its peer table.
\<close>

subsection \<open>Reading a payload\<close>

definition field_ok :: "string \<Rightarrow> bool" where
  "field_ok s \<longleftrightarrow> length s \<le> MAX_PEER_FIELD_LEN \<and> isprintable s"

lemma parse_member_json:
  "parse_member (Some MAX_PEER_FIELD_LEN) (member_json name inst ag) =
     (case inst of
        None \<Rightarrow> None
      | Some i \<Rightarrow> if field_ok name \<and> field_ok i then Some (name, i, ag) else None)"
  by (auto simp: parse_member_def member_json_def get_or_null_def too_long_def field_ok_def
      split: option.splits)

lemma set_map_filter: "set (List.map_filter f xs) = {y. \<exists>x \<in> set xs. f x = Some y}"
  by (induction xs) (auto simp: map_filter_simps split: option.splits)

lemma length_map_filter_le: "length (List.map_filter f xs) \<le> length xs"
  by (induction xs) (auto simp: map_filter_simps split: option.splits)

definition reported_members :: "Manager \<Rightarrow> member list" where
  "reported_members m =
     parse_members (Some MAX_PEER_FIELD_LEN) (Some MAX_MEMBER_ENTRIES)
       (JArray (local_members (my_name m) (my_instance m) (view m)))"

lemma reported_members_iff:
  assumes "length (table m) + 1 < MAX_MEMBER_ENTRIES"
  shows "(name, i, ag) \<in> set (reported_members m) \<longleftrightarrow>
    field_ok name \<and> field_ok i \<and>
    ((name, i, ag) = (my_name m, my_instance m, True) \<or>
     (\<exists>q \<in> set (table m). status q \<notin> STALE_STATUSES \<and> node_name q = Some name \<and>
        instance_id q = Some i \<and> ag = (status q = STATUS_AGREED)))"
    (is "_ \<longleftrightarrow> ?rhs")
proof -
  have "length (local_members (my_name m) (my_instance m) (view m)) < MAX_MEMBER_ENTRIES"
    using assms length_map_filter_le [of peer_member "table m"]
    by (simp add: local_members_def)
  then have "reported_members m = List.map_filter (parse_member (Some MAX_PEER_FIELD_LEN))
      (local_members (my_name m) (my_instance m) (view m))"
    using members_loop_prefix [of "[]" _ MAX_MEMBER_ENTRIES]
    by (simp add: reported_members_def parse_members_def)
  then show ?thesis
    by (fastforce simp: local_members_def set_map_filter peer_member_def parse_member_json
        split: option.splits if_splits)
qed

lemma payload_fields:
  "get_or_null (peer_payload prov m) ''node_name'' = JString (my_name m)"
  "get_or_null (peer_payload prov m) ''job_set_id'' = JString (live_job_set_id m)"
  "get_or_null (peer_payload prov m) ''scheme_version'' = JString SCHEME_VERSION"
  "get_or_null (peer_payload prov m) ''instance_id'' = JString (my_instance m)"
  "get_or_null (peer_payload prov m) ''cluster_size'' = JInt (int (cluster_size m))"
  "get_or_null (peer_payload prov m) ''distribution'' = JString (distribution m)"
  "get_or_null (peer_payload prov m) ''elect_leader'' = JBool (elects_leader m)"
  "get_or_null (peer_payload prov m) ''members'' =
     JArray (local_members (my_name m) (my_instance m) (view m))"
  "get_or_null (peer_payload prov m) ''ran_reboot_jobs'' = JArray (map JString (advertised_names m))"
  "get_or_null (peer_payload prov m) ''mutual_agreeing'' =
     JArray (map JString (sort (agreeing_peer_names m)))"
  "get_or_null (peer_payload prov m) ''quorate_vouched'' =
     JArray (map JString (sort (eligible_candidates m)))"
  "get_or_null (peer_payload prov m) ''job_summaries'' =
     JObject (fst (advertised_job_summaries prov))"
  "get_or_null (peer_payload prov m) ''job_summaries_truncated'' =
     JBool (snd (advertised_job_summaries prov))"
  by (simp_all add: peer_payload_def get_or_null_def)

text \<open>A node whose own texts fit the limits is understood by every poller.\<close>

definition presentable :: "Manager \<Rightarrow> bool" where
  "presentable m \<longleftrightarrow>
     field_ok (my_name m) \<and> field_ok (live_job_set_id m) \<and> field_ok (my_instance m) \<and>
     field_ok (distribution m) \<and> 1 \<le> cluster_size m"

lemma scheme_ok: "field_ok SCHEME_VERSION"
  by (simp add: field_ok_def SCHEME_VERSION_def MAX_PEER_FIELD_LEN_def isprintable_def)

lemma check_field_string:
  "get_or_null d key = JString s \<Longrightarrow>
   check_field d key = (if field_ok s then Inr (Some s) else Inl (FieldTooLong key))"
  by (auto simp: check_field_def field_ok_def)

definition payload_observation :: "Manager \<Rightarrow> bool \<Rightarrow> real \<Rightarrow> json dict option \<Rightarrow> observation" where
  "payload_observation m trunc now js =
     \<lparr>peer_name = Some (my_name m), peer_id = Some (live_job_set_id m),
      peer_scheme = Some SCHEME_VERSION, peer_instance = Some (my_instance m),
      peer_members = Some (reported_members m), peer_reports_members = True,
      peer_ran_reboot_jobs =
        Some (parse_str_list (Some MAX_REBOOT_JOB_NAME_LEN) (Some MAX_ADVERTISED_REBOOT_JOBS)
                (JArray (map JString (advertised_names m)))),
      peer_size = Some (int (cluster_size m)), peer_distribution = Some (distribution m),
      peer_elect_leader = Some (elects_leader m),
      peer_mutual_agreeing =
        Some (parse_str_list (Some MAX_PEER_FIELD_LEN) (Some MAX_MEMBER_ENTRIES)
                (JArray (map JString (sort (agreeing_peer_names m))))),
      peer_quorate_vouched =
        Some (parse_str_list (Some MAX_PEER_FIELD_LEN) (Some MAX_MEMBER_ENTRIES)
                (JArray (map JString (sort (eligible_candidates m))))),
      peer_job_summaries = js, peer_job_summaries_truncated = trunc,
      peer_job_summaries_at = Some now\<rparr>"

lemma observation_of_payload_Inr:
  "observation_of (peer_payload prov m) now js = Inr obs \<longleftrightarrow>
     presentable m \<and> obs = payload_observation m (snd (advertised_job_summaries prov)) now js"
  by (auto simp: observation_of_def payload_fields check_field_string check_size_field_def
      check_elect_field_def scheme_ok presentable_def payload_observation_def name_set_def
      reported_members_def bind_result_Inr split: if_splits)

subsection \<open>Recording a response\<close>

lemma remember_view [simp]: "view (remember h etag obs m) = view m"
  by (simp add: remember_def split: option.split)

lemma accept_entry:
  assumes "accept h obs now stats m = Inr m'"
  obtains p where "dict_get (peers (view m)) h = Some p"
    and "m' = m\<lparr>view := (view m)\<lparr>peers := dict_set h (peer_success (drift_after (view m)) obs
               (live_job_set_id m) now (my_name m) (Some (my_instance m)) stats p) (peers (view m))\<rparr>\<rparr>"
  using assms
  by (cases "dict_get (peers (view m)) h")
    (auto simp: accept_def on_view_def record_success_def update_peer_def)

lemma absorb_body_Inr:
  assumes "observation_of d now None = Inr obs"
    and "absorb_body h now stats d etag m = Inr m'"
  obtains js m1 where "parse_job_summaries (get_or_null d ''job_summaries'') = Inr js"
    and "accept h (obs\<lparr>peer_job_summaries := js\<rparr>) now stats m = Inr m1"
    and "m' = remember h etag (obs\<lparr>peer_job_summaries := js\<rparr>) m1"
  using assms
  by (cases "parse_job_summaries (get_or_null d ''job_summaries'')")
    (auto simp: absorb_body_def lift_parse_def Let_def bind_result_Inr)

subsection \<open>The live set\<close>

lemma agreeing_loop_subset: "p \<in> set (agreeing_loop m seen ps) \<Longrightarrow> p \<in> set ps \<and> counts m p"
  by (induction ps arbitrary: seen) (auto split: if_splits option.splits)

lemma agreeing_loop_new:
  "p \<in> set (agreeing_loop m seen ps) \<Longrightarrow> instance_id p = Some i \<Longrightarrow> i \<notin> seen"
  by (induction ps arbitrary: seen) (fastforce split: if_splits option.splits)+

lemma agreeing_loop_complete:
  "p \<in> set ps \<Longrightarrow> counts m p \<Longrightarrow> instance_id p = Some i \<Longrightarrow> i \<notin> seen \<Longrightarrow>
   \<exists>q \<in> set (agreeing_loop m seen ps). instance_id q = Some i"
proof (induction ps arbitrary: seen)
  case (Cons a ps)
  have IH: "\<exists>q \<in> set (agreeing_loop m s ps). instance_id q = Some i" if "p \<in> set ps" "i \<notin> s" for s
    using Cons.IH [OF that(1) Cons.prems(2,3) that(2)] .
  show ?case
  proof (cases "p = a")
    case True
    with Cons.prems show ?thesis by simp
  next
    case False
    then have "p \<in> set ps" using Cons.prems by simp
    with IH Cons.prems show ?thesis
      by (cases "instance_id a = Some i") (auto split: option.splits)
  qed
qed simp

lemma agreeing_loop_distinct:
  "\<forall>p \<in> set ps. counts m p \<longrightarrow> instance_id p \<noteq> None \<Longrightarrow>
   distinct (map instance_id (agreeing_loop m seen ps))"
proof (induction ps arbitrary: seen)
  case (Cons a ps)
  then show ?case
    using agreeing_loop_new [of _ m "insert (the (instance_id a)) seen" ps "the (instance_id a)"]
    by (auto split: option.splits)
qed simp

lemma agreeing_loop_length: "length (agreeing_loop m seen ps) \<le> length ps"
  by (induction ps arbitrary: seen) (auto split: option.splits intro: le_SucI)

lemma agreeing_names_length: "length (agreeing_peer_names m) \<le> length (table m)"
  unfolding agreeing_peer_names_def agreeing_peers_def
  using length_map_filter_le agreeing_loop_length le_trans by blast

lemma is_quorate_iff: "is_quorate m \<longleftrightarrow> quorum m \<le> length (agreeing_peer_names m) + 1"
  by (auto simp: is_quorate_def leader_name_def elect_leader_def quorum_def)

lemma leader_name_quorate:
  "is_quorate m \<Longrightarrow> leader_name m = Some (lowest (my_name m) (eligible_candidates m))"
  by (auto simp: is_quorate_def leader_name_def elect_leader_def split: if_splits)

lemma leader_name_not_quorate: "\<not> is_quorate m \<Longrightarrow> leader_name m = None"
  by (simp add: is_quorate_def)

lemma job_owner_eq:
  "job_owner sha256 m job =
     Inr (if is_quorate m
          then Some (max_by (hrw_key sha256 job) (my_name m)
                      (eligible_candidates m @ unconfirmed_contenders m))
          else None)"
  by (auto simp: job_owner_def spread_owner_set_def Let_def hrw_owner_bytes_eq is_quorate_iff quorum_def)

lemma is_job_owner_eq:
  "is_job_owner sha256 m job =
     Inr (is_quorate m \<and> max_by (hrw_key sha256 job) (my_name m)
            (eligible_candidates m @ unconfirmed_contenders m) = my_name m)"
  by (simp add: is_job_owner_def job_owner_eq)

lemma available_job_owner_eq:
  "available_job_owner sha256 m job =
     Inr (max_by (hrw_key sha256 job) (my_name m) (agreeing_peer_names m @ available_contenders m))"
  by (simp add: available_job_owner_def available_owner_members_def Let_def hrw_owner_bytes_eq)

end
