(* ===== verification/Converged.thy ===== *)
theory Converged
  imports GossipFacts
begin

text \<open>
  A cluster whose gossip has converged: every entry that a node holds as agreed shows what another
  node of the cluster would answer now.  Nodes may be unable to reach each other in any pattern; only
  the information must be current.  The section shows that agreement is then symmetric, that the
  reported sets are the live sets and the confirmed names of the peers, and interprets the contracts
  of agreement and election on the managers of such a cluster.
\<close>

subsection \<open>Converged clusters\<close>

text \<open>The entry holds what a poll of \<open>m'\<close> reads, as far as the election uses it.\<close>

definition mirrors :: "Manager \<Rightarrow> PeerState \<Rightarrow> bool" where
  "mirrors m' p \<longleftrightarrow>
     (case observation_of (peer_payload None m') 0 None of
        Inl e \<Rightarrow> False
      | Inr obs \<Rightarrow>
          node_name p = peer_name obs \<and> instance_id p = peer_instance obs \<and>
          members p = peer_members obs \<and> reports_members p = peer_reports_members obs \<and>
          declared_size p = peer_size obs \<and> declared_distribution p = peer_distribution obs \<and>
          declared_elect_leader p = peer_elect_leader obs \<and>
          mutual_agreeing p = peer_mutual_agreeing obs \<and>
          quorate_vouched p = peer_quorate_vouched obs)"

definition converged :: "Manager list \<Rightarrow> bool" where
  "converged ms \<longleftrightarrow>
     distinct (map my_name ms) \<and> distinct (map my_instance ms) \<and> length ms < MAX_MEMBER_ENTRIES \<and>
     list_all (\<lambda>m.
       my_name m \<noteq> [] \<and> length (table m) + 1 < MAX_MEMBER_ENTRIES \<and> cluster_size m = length ms \<and>
       list_all (\<lambda>p. status p = STATUS_AGREED \<longrightarrow>
           list_ex (\<lambda>m'. my_name m' \<noteq> my_name m \<and> mirrors m' p) ms) (table m)) ms"

lemma mirrors_iff:
  "mirrors m' p \<longleftrightarrow>
     presentable m' \<and> node_name p = Some (my_name m') \<and> instance_id p = Some (my_instance m') \<and>
     members p = Some (reported_members m') \<and> reports_members p \<and>
     declared_size p = Some (int (cluster_size m')) \<and>
     declared_distribution p = Some (distribution m') \<and>
     declared_elect_leader p = Some (elects_leader m') \<and>
     mutual_agreeing p = Some (parse_str_list (Some MAX_PEER_FIELD_LEN) (Some MAX_MEMBER_ENTRIES)
        (JArray (map JString (sort (agreeing_peer_names m'))))) \<and>
     quorate_vouched p = Some (parse_str_list (Some MAX_PEER_FIELD_LEN) (Some MAX_MEMBER_ENTRIES)
        (JArray (map JString (sort (eligible_candidates m')))))"
proof (cases "observation_of (peer_payload None m') 0 None")
  case (Inl e)
  moreover from this have "\<not> presentable m'"
    using observation_of_payload_Inr [of None m' 0 None] by fastforce
  ultimately show ?thesis by (simp add: mirrors_def)
next
  case (Inr obs)
  then have "presentable m'" and "obs = payload_observation m' (snd (advertised_job_summaries None)) 0 None"
    using observation_of_payload_Inr [of None m' 0 None] by auto
  then show ?thesis by (simp add: mirrors_def Inr payload_observation_def)
qed

lemma mirrorsD:
  assumes "mirrors m' p"
  shows "node_name p = Some (my_name m')" and "instance_id p = Some (my_instance m')"
    and "field_ok (my_name m')" and "field_ok (my_instance m')"
    and "members p = Some (reported_members m')" and "reports_members p"
  using assms by (simp_all add: mirrors_iff presentable_def)

text \<open>Polling a node leaves an entry that mirrors it.\<close>

lemma success_mirrors:
  "presentable m' \<Longrightarrow>
   mirrors m' (peer_success d (payload_observation m' tr t js) my_id now nm inst stats p)"
  unfolding mirrors_iff peer_success_def poll_simps payload_observation_def by simp

lemma poll_mirrors:
  assumes "observe_peer h now (Body None False (Some (JObject (peer_payload prov m'))) etag) m = Inr m2"
    and "presentable m'"
  shows "\<exists>p. dict_get (peers (view m2)) h = Some p \<and> mirrors m' p"
proof -
  let ?obs = "payload_observation m' (snd (advertised_job_summaries prov)) now"
  have obs: "observation_of (peer_payload prov m') now None = Inr (?obs None)"
    using assms(2) observation_of_payload_Inr by fastforce
  have "absorb_body h now None (peer_payload prov m') etag m = Inr m2"
    using assms(1) by (simp add: observe_peer_def parse_node_stats_header_def lift_parse_def)
  from absorb_body_Inr [OF obs this] obtain js m1 where
    m1: "accept h ((?obs None)\<lparr>peer_job_summaries := js\<rparr>) now None m = Inr m1"
    and m2: "m2 = remember h etag ((?obs None)\<lparr>peer_job_summaries := js\<rparr>) m1" .
  have js: "(?obs None)\<lparr>peer_job_summaries := js\<rparr> = ?obs js"
    by (simp add: payload_observation_def)
  from accept_entry [OF m1 [unfolded js]] show ?thesis
    using success_mirrors [OF assms(2)] m2 by fastforce
qed

subsection \<open>Agreement between managers\<close>

definition agrees :: "Manager \<Rightarrow> Manager \<Rightarrow> bool" where
  "agrees m m' \<longleftrightarrow> (\<exists>p \<in> set (table m). counts m p \<and> mirrors m' p)"

lemma convergedD:
  assumes "converged ms" and "m \<in> set ms"
  shows "my_name m \<noteq> []" and "length (table m) + 1 < MAX_MEMBER_ENTRIES"
    and "cluster_size m = length ms"
    and "\<And>p. p \<in> set (table m) \<Longrightarrow> status p = STATUS_AGREED \<Longrightarrow>
           \<exists>m' \<in> set ms. my_name m' \<noteq> my_name m \<and> mirrors m' p"
  using assms by (auto simp: converged_def list_all_iff list_ex_iff)

lemma same_name: "converged ms \<Longrightarrow> m \<in> set ms \<Longrightarrow> m' \<in> set ms \<Longrightarrow> my_name m = my_name m' \<Longrightarrow> m = m'"
  by (auto simp: converged_def distinct_map inj_on_def)

lemma same_instance:
  "converged ms \<Longrightarrow> m \<in> set ms \<Longrightarrow> m' \<in> set ms \<Longrightarrow> my_instance m = my_instance m' \<Longrightarrow> m = m'"
  by (auto simp: converged_def distinct_map inj_on_def)

lemma counted_mirrors:
  assumes "converged ms" and "m \<in> set ms" and "p \<in> set (table m)" and "counts m p"
  obtains m' where "m' \<in> set ms" and "m' \<noteq> m" and "mirrors m' p" and "agrees m m'"
  using convergedD(4) [OF assms(1,2,3)] assms(3,4) unfolding counts_def agrees_def by blast

lemma mirrored_once:
  "converged ms \<Longrightarrow> m \<in> set ms \<Longrightarrow> m' \<in> set ms \<Longrightarrow> mirrors m p \<Longrightarrow> mirrors m' p \<Longrightarrow> m = m'"
  using same_name by (metis mirrorsD(1) option.inject)

lemma agrees_sym:
  assumes conv: "converged ms" and m: "m \<in> set ms" and m': "m' \<in> set ms" and "agrees m m'"
  shows "agrees m' m"
proof -
  from \<open>agrees m m'\<close> obtain p where p: "p \<in> set (table m)" "counts m p" "mirrors m' p"
    by (auto simp: agrees_def)
  then have "m \<noteq> m'"
    using counted_mirrors [OF conv m p(1,2)] mirrored_once [OF conv _ m' _ p(3)] by metis
  from p have "\<exists>nm. (nm, my_instance m, True) \<in> set (reported_members m')"
    by (auto simp: counts_def mirrors_iff peer_sees_me_agreed_def list_ex_iff)
  then obtain q where q: "q \<in> set (table m')" "status q = STATUS_AGREED"
      "instance_id q = Some (my_instance m)" "node_name q \<noteq> None"
    using reported_members_iff [OF convergedD(2) [OF conv m']] same_instance [OF conv m m'] \<open>m \<noteq> m'\<close>
    by auto
  then obtain m'' where "m'' \<in> set ms" "mirrors m'' q" using convergedD(4) [OF conv m'] by blast
  then have mq: "mirrors m q" using q(3) same_instance [OF conv m] by (metis mirrorsD(2) option.inject)
  have "status p = STATUS_AGREED" using p(2) by (simp add: counts_def)
  then have "(my_name m', my_instance m', True) \<in> set (reported_members m)"
    unfolding reported_members_iff [OF convergedD(2) [OF conv m]]
    using mirrorsD(1-4) [OF p(3)]
    by (intro conjI disjI2 bexI [OF _ p(1)]) (simp_all add: STALE_STATUSES_def)
  then have "counts m' q"
    using p mq q convergedD(3) [OF conv m] convergedD(3) [OF conv m']
    by (auto simp: counts_def mirrors_iff peer_sees_me_agreed_def list_ex_iff)
  with q mq show ?thesis by (auto simp: agrees_def)
qed

lemma agreeing_peers_mirror:
  assumes "converged ms" and "m \<in> set ms" and "p \<in> set (agreeing_peers m)"
  obtains m' where "m' \<in> set ms" and "m' \<noteq> m" and "mirrors m' p" and "agrees m m'"
  using assms counted_mirrors agreeing_loop_subset unfolding agreeing_peers_def by metis

lemma agreeing_names_eq:
  assumes conv: "converged ms" and m: "m \<in> set ms"
  shows "set (agreeing_peer_names m) = my_name ` {m' \<in> set ms. agrees m m'}" (is "?L = ?R")
proof
  show "?L \<subseteq> ?R"
  proof
    fix n assume "n \<in> ?L"
    then obtain p where "p \<in> set (agreeing_peers m)" and "truthy_name p = Some n"
      by (auto simp: agreeing_peer_names_def set_map_filter)
    moreover obtain m' where "m' \<in> set ms" "mirrors m' p" "agrees m m'"
      using agreeing_peers_mirror [OF conv m calculation(1)] .
    ultimately show "n \<in> ?R"
      using mirrorsD(1) by (fastforce simp: truthy_name_def split: if_splits)
  qed
  show "?R \<subseteq> ?L"
  proof
    fix n assume "n \<in> ?R"
    then obtain m' p where m': "m' \<in> set ms" "n = my_name m'"
      and p: "p \<in> set (table m)" "counts m p" "mirrors m' p"
      by (auto simp: agrees_def)
    from agreeing_loop_complete [OF p(1,2) mirrorsD(2) [OF p(3)], of "{}"]
    obtain q where q: "q \<in> set (agreeing_peers m)" "instance_id q = Some (my_instance m')"
      by (auto simp: agreeing_peers_def)
    obtain m'' where "m'' \<in> set ms" "mirrors m'' q" using agreeing_peers_mirror [OF conv m q(1)] .
    with q(2) same_instance [OF conv m'(1)] have "mirrors m' q" by (metis mirrorsD(2) option.inject)
    then have "truthy_name q = Some n"
      using m' convergedD(1) [OF conv m'(1)] mirrorsD(1) by (fastforce simp: truthy_name_def)
    with q show "n \<in> ?L" by (auto simp: agreeing_peer_names_def set_map_filter)
  qed
qed

lemma map_filter_Some: "\<forall>x \<in> set xs. f x = Some (g x) \<Longrightarrow> List.map_filter f xs = map g xs"
  by (induction xs) (auto simp: map_filter_simps)

lemma agreeing_names_map:
  assumes "converged ms" and "m \<in> set ms"
  shows "agreeing_peer_names m = map (the \<circ> node_name) (agreeing_peers m)"
proof -
  have "truthy_name p = Some ((the \<circ> node_name) p)" if p: "p \<in> set (agreeing_peers m)" for p
  proof -
    obtain m' where "m' \<in> set ms" "mirrors m' p" using agreeing_peers_mirror [OF assms p] .
    then show ?thesis
      using convergedD(1) [OF assms(1)] mirrorsD(1) by (fastforce simp: truthy_name_def)
  qed
  then show ?thesis unfolding agreeing_peer_names_def by (intro map_filter_Some) blast
qed

lemma agreeing_names_distinct:
  assumes conv: "converged ms" and m: "m \<in> set ms"
  shows "distinct (agreeing_peer_names m)"
proof -
  have "instance_id p \<noteq> None" if p: "p \<in> set (table m)" "counts m p" for p
  proof -
    obtain m' where "mirrors m' p" using counted_mirrors [OF conv m p] .
    then show ?thesis by (simp add: mirrorsD(2))
  qed
  then have "\<forall>p \<in> set (table m). counts m p \<longrightarrow> instance_id p \<noteq> None" by blast
  then have d: "distinct (map instance_id (agreeing_peers m))"
    unfolding agreeing_peers_def by (rule agreeing_loop_distinct)
  have "instance_id p = instance_id q"
    if pq: "p \<in> set (agreeing_peers m)" "q \<in> set (agreeing_peers m)"
      and eq: "the (node_name p) = the (node_name q)" for p q
  proof -
    obtain a where a: "a \<in> set ms" "mirrors a p" using agreeing_peers_mirror [OF conv m pq(1)] .
    obtain b where b: "b \<in> set ms" "mirrors b q" using agreeing_peers_mirror [OF conv m pq(2)] .
    have "my_name a = my_name b" using mirrorsD(1) [OF a(2)] mirrorsD(1) [OF b(2)] eq by simp
    then have "a = b" by (rule same_name [OF conv a(1) b(1)])
    with mirrorsD(2) [OF a(2)] mirrorsD(2) [OF b(2)] show ?thesis by simp
  qed
  then have "inj_on (the \<circ> node_name) (set (agreeing_peers m))"
    using d unfolding distinct_map inj_on_def comp_apply by blast
  then show ?thesis
    using d by (simp add: agreeing_names_map [OF conv m] distinct_map)
qed

subsection \<open>What the peers report\<close>

lemma presentable_names:
  assumes "converged ms" and "m \<in> set ms" and "n \<in> set (agreeing_peer_names m)"
  shows "field_ok n"
proof -
  obtain m' p where "m' \<in> set ms" "mirrors m' p" "n = my_name m'"
    using assms agreeing_names_eq [OF assms(1,2)] by (auto simp: agrees_def)
  then show ?thesis using mirrorsD(3) by blast
qed

lemma parse_names:
  assumes "\<forall>n \<in> set ns. field_ok n" and "length ns < MAX_MEMBER_ENTRIES"
  shows "parse_str_list (Some MAX_PEER_FIELD_LEN) (Some MAX_MEMBER_ENTRIES)
    (JArray (map JString (sort ns))) = set ns"
  using str_loop_all [of "{}" "sort ns" MAX_MEMBER_ENTRIES MAX_PEER_FIELD_LEN] assms
  by (simp add: parse_str_list_def field_ok_def)

lemma reported_mutual:
  assumes conv: "converged ms" and m': "m' \<in> set ms" and "mirrors m' p"
  shows "mutual_agreeing p = Some (set (agreeing_peer_names m'))"
proof -
  have "length (agreeing_peer_names m') < MAX_MEMBER_ENTRIES"
    using agreeing_names_length [of m'] convergedD(2) [OF conv m'] by simp
  then show ?thesis
    using parse_names [of "agreeing_peer_names m'"] presentable_names [OF conv m'] assms(3)
    by (simp add: mirrors_iff)
qed

lemma card_agreeing:
  assumes "converged ms" and "m \<in> set ms"
  shows "card (set (agreeing_peer_names m)) = length (agreeing_peer_names m)"
  using agreeing_names_distinct [OF assms] by (rule distinct_card)

end
