(* ===== verification/ClusterElection.thy ===== *)
theory ClusterElection
  imports Converged
begin

text \<open>
  The elections of a converged cluster.  The names of its nodes with their two-way agreements satisfy
  the contract \<open>agreement\<close>; the candidates of the three elections (the leader, the owner of a job
  under \<open>spread\<close>, the quorum-less owner of \<open>PreferLeader\<close>) are computed in terms of it, and with them
  the contracts \<open>election\<close> and \<open>complete_election\<close> are interpreted.
\<close>

subsection \<open>Agreement by name\<close>

definition nodes :: "Manager list \<Rightarrow> string set" where
  "nodes ms = (if converged ms then set (map my_name ms) else {})"

definition edge :: "Manager list \<Rightarrow> string \<Rightarrow> string \<Rightarrow> bool" where
  "edge ms a b \<longleftrightarrow>
     converged ms \<and>
     (\<exists>m \<in> set ms. \<exists>m' \<in> set ms. my_name m = a \<and> my_name m' = b \<and> agrees m m')"

lemma agrees_other:
  assumes "converged ms" and "m \<in> set ms" and "m' \<in> set ms" and "agrees m m'"
  shows "m \<noteq> m'"
proof -
  obtain p where p: "p \<in> set (table m)" "counts m p" "mirrors m' p"
    using assms(4) by (auto simp: agrees_def)
  obtain m'' where "m'' \<in> set ms" "m'' \<noteq> m" "mirrors m'' p"
    using counted_mirrors [OF assms(1,2) p(1,2)] .
  then show ?thesis using mirrored_once [OF assms(1) _ assms(3) _ p(3)] by metis
qed

interpretation conv: agreement "nodes ms" "edge ms" for ms
proof
  show "finite (nodes ms)" by (simp add: nodes_def)
  show "edge ms b a" if "edge ms a b" for a b
    using that agrees_sym [of ms] by (auto simp: edge_def)
  show "\<not> edge ms a a" for a
    using agrees_other [of ms] same_name [of ms] by (auto simp: edge_def)
  show "b \<in> nodes ms" if "edge ms a b" for a b
    using that by (auto simp: edge_def nodes_def)
qed

lemma edges_of:
  assumes "converged ms" and "m \<in> set ms"
  shows "{b. edge ms (my_name m) b} = set (agreeing_peer_names m)"
proof -
  have "edge ms (my_name m) b \<longleftrightarrow> (\<exists>m' \<in> set ms. my_name m' = b \<and> agrees m m')" for b
    unfolding edge_def using assms same_name [OF assms] by metis
  then have "{b. edge ms (my_name m) b} = my_name ` {m' \<in> set ms. agrees m m'}" by auto
  then show ?thesis by (simp only: agreeing_names_eq [OF assms])
qed

lemma edge_iff:
  "converged ms \<Longrightarrow> m \<in> set ms \<Longrightarrow> edge ms (my_name m) b \<longleftrightarrow> b \<in> set (agreeing_peer_names m)"
  using edges_of by blast

lemma card_nodes: "converged ms \<Longrightarrow> card (nodes ms) = length ms"
  using distinct_card [of "map my_name ms"] by (simp add: nodes_def converged_def)

lemma quorum_eq: "converged ms \<Longrightarrow> m \<in> set ms \<Longrightarrow> quorum m = quorum_size (card (nodes ms))"
  by (simp add: quorum_def convergedD(3) card_nodes)

lemma quorate_eq:
  "converged ms \<Longrightarrow> m \<in> set ms \<Longrightarrow> conv.quorate ms (my_name m) \<longleftrightarrow> is_quorate m"
  by (simp add: conv.quorate_def conv.card_live is_quorate_iff quorum_eq edges_of card_agreeing)

lemma name_node:
  assumes "a \<in> nodes ms"
  obtains m where "converged ms" and "m \<in> set ms" and "my_name m = a"
  using assms by (auto simp: nodes_def split: if_splits)

lemma node_field_ok: "edge ms a b \<Longrightarrow> field_ok b"
proof -
  assume e: "edge ms a b"
  then obtain m where "converged ms" "m \<in> set ms" "my_name m = a" by (auto simp: edge_def)
  with e show "field_ok b" using presentable_names edge_iff by blast
qed

lemma node_truthy: "converged ms \<Longrightarrow> a \<in> nodes ms \<Longrightarrow> a \<noteq> []"
  using convergedD(1) by (auto simp: nodes_def)

subsection \<open>Reports of the agreeing peers\<close>

lemma agreeing_names_peers:
  assumes "converged ms" and "m \<in> set ms"
  shows "set (agreeing_peer_names m) = (the \<circ> node_name) ` set (agreeing_peers m)"
  by (simp add: agreeing_names_map [OF assms])

text \<open>Each agreeing entry stands for the node it names.\<close>

lemma peer_entry:
  assumes conv: "converged ms" and m: "m \<in> set ms" and p: "p \<in> set (agreeing_peers m)"
  obtains m' where "m' \<in> set ms" and "mirrors m' p" and "edge ms (my_name m) (my_name m')"
    and "node_name p = Some (my_name m')"
    and "or_empty (mutual_agreeing p) = {b. edge ms (my_name m') b}"
proof -
  obtain m' where m': "m' \<in> set ms" "mirrors m' p" "agrees m m'"
    using agreeing_peers_mirror [OF conv m p] .
  then have "or_empty (mutual_agreeing p) = {b. edge ms (my_name m') b}"
    using reported_mutual [OF conv m'(1,2)] edges_of [OF conv m'(1)] by (simp add: or_empty_def)
  moreover have "edge ms (my_name m) (my_name m')" using conv m m' by (auto simp: edge_def)
  ultimately show thesis using m' mirrorsD(1) [OF m'(2)] by (intro that)
qed

lemma edge_entry:
  assumes conv: "converged ms" and m: "m \<in> set ms" and "edge ms (my_name m) b"
  obtains m' p where "m' \<in> set ms" and "my_name m' = b" and "p \<in> set (agreeing_peers m)"
    and "mirrors m' p"
proof -
  have "b \<in> (the \<circ> node_name) ` set (agreeing_peers m)"
    using assms(3) edge_iff [OF conv m] agreeing_names_peers [OF conv m] by blast
  then obtain p where p: "p \<in> set (agreeing_peers m)" "b = the (node_name p)" by auto
  obtain m' where "m' \<in> set ms" "mirrors m' p" using agreeing_peers_mirror [OF conv m p(1)] .
  with p show thesis using mirrorsD(1) by (intro that [of m' p]) auto
qed

lemma witnesses_eq:
  assumes conv: "converged ms" and m: "m \<in> set ms"
  shows "witnesses m n = {w. edge ms (my_name m) w \<and> edge ms w n}"
proof (intro equalityI subsetI)
  fix w assume "w \<in> witnesses m n"
  then obtain p where p: "p \<in> set (agreeing_peers m)" "node_name p = Some w"
      "n \<in> or_empty (mutual_agreeing p)"
    by (auto simp: witnesses_def set_map_filter)
  then show "w \<in> {w. edge ms (my_name m) w \<and> edge ms w n}"
    using peer_entry [OF conv m p(1)] by (metis mem_Collect_eq option.inject)
next
  fix w assume w: "w \<in> {w. edge ms (my_name m) w \<and> edge ms w n}"
  then obtain m' p where "m' \<in> set ms" "my_name m' = w" "p \<in> set (agreeing_peers m)" "mirrors m' p"
    using edge_entry [OF conv m] by blast
  moreover from this have "n \<in> or_empty (mutual_agreeing p)"
    using w reported_mutual [OF conv] edge_iff [OF conv] by (auto simp: or_empty_def)
  ultimately show "w \<in> witnesses m n"
    using mirrorsD(1) by (auto simp: witnesses_def set_map_filter)
qed

lemma reported_mutual_names:
  assumes conv: "converged ms" and m: "m \<in> set ms"
  shows "reported_names mutual_agreeing m = {n. \<exists>w. edge ms (my_name m) w \<and> edge ms w n}"
proof -
  have "n \<in> reported_names mutual_agreeing m \<longleftrightarrow> witnesses m n \<noteq> {}" for n
  proof -
    have "(\<exists>p \<in> set (agreeing_peers m). n \<in> or_empty (mutual_agreeing p)) \<longleftrightarrow>
      (\<exists>w. \<exists>p \<in> set (agreeing_peers m). n \<in> or_empty (mutual_agreeing p) \<and> node_name p = Some w)"
      using peer_entry [OF conv m] by metis
    then show ?thesis by (auto simp: reported_names_def witnesses_def set_map_filter)
  qed
  then show ?thesis using witnesses_eq [OF conv m] by blast
qed

lemma finite_reported: "converged ms \<Longrightarrow> m \<in> set ms \<Longrightarrow> finite (reported_names mutual_agreeing m)"
  using conv.edge_nodes conv.finite_members
  by (auto simp: reported_mutual_names intro: finite_subset [of _ "nodes ms"])

subsection \<open>Candidates\<close>

lemma direct_eq:
  "converged ms \<Longrightarrow> m \<in> set ms \<Longrightarrow> direct_names m = conv.live ms (my_name m)"
  by (auto simp: direct_names_def conv.live_def edge_iff)

lemma bridge_eq:
  assumes "converged ms" and "m \<in> set ms"
  shows "set (bridge_candidates m) =
    {n. n \<notin> conv.live ms (my_name m) \<and> (\<exists>w. edge ms (my_name m) w \<and> edge ms w n) \<and>
        quorum m \<le> card {w. edge ms (my_name m) w \<and> edge ms w n} + 1}"
  using finite_reported [OF assms]
  by (auto simp: bridge_candidates_def reported_mutual_names [OF assms] direct_eq [OF assms]
      witnesses_eq [OF assms] Set.filter_eq)

text \<open>A node confirmed across a bridge has a quorum: its witnesses are among its own agreements.\<close>

lemma bridge_quorate:
  assumes conv: "converged ms" and m: "m \<in> set ms" and n: "n \<in> set (bridge_candidates m)"
  shows "conv.quorate ms n"
proof -
  have "card {w. edge ms (my_name m) w \<and> edge ms w n} \<le> card {w. edge ms n w}"
    using conv.edge_sym conv.finite_live [of ms n]
    by (intro card_mono) (auto simp: conv.live_def)
  then show ?thesis
    using n by (auto simp: bridge_eq [OF conv m] conv.quorate_def conv.card_live quorum_eq [OF conv m])
qed

lemma direct_part:
  assumes conv: "converged ms" and m: "m \<in> set ms"
  shows "List.map_filter truthy_name
      (filter (\<lambda>p. quorum m \<le> card (or_empty (mutual_agreeing p)) + 1) (agreeing_peers m)) =
    filter (conv.quorate ms) (agreeing_peer_names m)"
proof -
  have "truthy_name p = Some (the (node_name p)) \<and>
      (quorum m \<le> card (or_empty (mutual_agreeing p)) + 1 \<longleftrightarrow> conv.quorate ms (the (node_name p)))"
    if p: "p \<in> set (agreeing_peers m)" for p
  proof -
    obtain m' where "m' \<in> set ms" "node_name p = Some (my_name m')"
        "or_empty (mutual_agreeing p) = {b. edge ms (my_name m') b}"
      using peer_entry [OF conv m p] .
    then show ?thesis
      using convergedD(1) [OF conv] quorum_eq [OF conv m]
      by (simp add: truthy_name_def conv.quorate_def conv.card_live)
  qed
  then have "\<forall>p \<in> set (agreeing_peers m). truthy_name p = Some ((the \<circ> node_name) p)"
    and "filter (\<lambda>p. quorum m \<le> card (or_empty (mutual_agreeing p)) + 1) (agreeing_peers m) =
      filter (\<lambda>p. conv.quorate ms ((the \<circ> node_name) p)) (agreeing_peers m)"
    by (auto intro: filter_cong)
  then show ?thesis
    by (simp add: agreeing_names_map [OF conv m] filter_map comp_def
        map_filter_Some [where g = "\<lambda>p. the (node_name p)"])
qed

lemma eligible_list:
  assumes "converged ms" and "m \<in> set ms"
  shows "eligible_candidates m = filter (conv.quorate ms) (agreeing_peer_names m) @ bridge_candidates m"
  unfolding eligible_candidates_def direct_part [OF assms] ..

lemma eligible_eq:
  assumes "converged ms" and "m \<in> set ms"
  shows "set (eligible_candidates m) =
    {n. edge ms (my_name m) n \<and> conv.quorate ms n} \<union> set (bridge_candidates m)"
  using edge_iff [OF assms] by (auto simp: eligible_list [OF assms])

lemma eligible_quorate:
  assumes "converged ms" and "m \<in> set ms" and "n \<in> set (eligible_candidates m)"
  shows "n \<in> nodes ms \<and> conv.quorate ms n"
proof (cases "n \<in> set (bridge_candidates m)")
  case True
  then show ?thesis
    using bridge_quorate [OF assms(1,2)] conv.edge_nodes by (auto simp: bridge_eq [OF assms(1,2)])
next
  case False
  then show ?thesis
    using assms(3) conv.edge_nodes by (auto simp: eligible_eq [OF assms(1,2)])
qed

lemma eligible_distinct:
  assumes "converged ms" and "m \<in> set ms"
  shows "distinct (eligible_candidates m)"
proof -
  have "set (agreeing_peer_names m) \<inter> set (bridge_candidates m) = {}"
    using edge_iff [OF assms] by (auto simp: bridge_eq [OF assms] conv.live_def)
  moreover have "distinct (bridge_candidates m)" by (simp add: bridge_candidates_def)
  ultimately show ?thesis
    using agreeing_names_distinct [OF assms]
    by (auto simp: eligible_list [OF assms])
qed

lemma vouched_eq:
  assumes conv: "converged ms" and m: "m \<in> set ms" and "mirrors m p"
  shows "quorate_vouched p = Some (set (eligible_candidates m))"
proof -
  have "length (eligible_candidates m) = card (set (eligible_candidates m))"
    using eligible_distinct [OF conv m] by (simp add: distinct_card)
  also have "\<dots> \<le> card (nodes ms)"
    using eligible_quorate [OF conv m] conv.finite_members by (intro card_mono) auto
  also have "\<dots> < MAX_MEMBER_ENTRIES" using conv card_nodes by (simp add: converged_def)
  finally have "length (eligible_candidates m) < MAX_MEMBER_ENTRIES" .
  moreover have "\<forall>n \<in> set (eligible_candidates m). field_ok n"
    using node_field_ok by (auto simp: eligible_eq [OF conv m] bridge_eq [OF conv m])
  ultimately show ?thesis
    using parse_names [of "eligible_candidates m"] assms(3) by (simp add: mirrors_iff)
qed

lemma reported_vouched_names:
  assumes conv: "converged ms" and m: "m \<in> set ms"
  shows "reported_names quorate_vouched m =
    {n. \<exists>m' \<in> set ms. edge ms (my_name m) (my_name m') \<and> n \<in> set (eligible_candidates m')}"
proof (intro equalityI subsetI)
  fix n assume "n \<in> reported_names quorate_vouched m"
  then obtain p where p: "p \<in> set (agreeing_peers m)" "n \<in> or_empty (quorate_vouched p)"
    by (auto simp: reported_names_def)
  obtain m' where "m' \<in> set ms" "mirrors m' p" "edge ms (my_name m) (my_name m')"
    using peer_entry [OF conv m p(1)] .
  then show "n \<in> {n. \<exists>m' \<in> set ms. edge ms (my_name m) (my_name m') \<and> n \<in> set (eligible_candidates m')}"
    using p(2) vouched_eq [OF conv] by (auto simp: or_empty_def)
next
  fix n assume "n \<in> {n. \<exists>m' \<in> set ms. edge ms (my_name m) (my_name m') \<and> n \<in> set (eligible_candidates m')}"
  then obtain w where w: "w \<in> set ms" "edge ms (my_name m) (my_name w)" "n \<in> set (eligible_candidates w)"
    by blast
  then obtain m' p where "m' \<in> set ms" "my_name m' = my_name w" and p: "p \<in> set (agreeing_peers m)" "mirrors m' p"
    using edge_entry [OF conv m] by blast
  then have "m' = w" using same_name [OF conv _ w(1)] by blast
  then have "or_empty (quorate_vouched p) = set (eligible_candidates w)"
    using vouched_eq [OF conv w(1)] p(2) by (simp add: or_empty_def)
  then show "n \<in> reported_names quorate_vouched m"
    using w(3) p(1) by (auto simp: reported_names_def)
qed

text \<open>What a node may elect as the owner of a job: quorate nodes only, and all it can share a job with.\<close>

lemma spread_candidates_sound:
  assumes "converged ms" and "m \<in> set ms"
    and "n \<in> set (eligible_candidates m @ unconfirmed_contenders m)"
  shows "n \<in> nodes ms \<and> conv.quorate ms n"
proof (cases "n \<in> set (eligible_candidates m)")
  case False
  then have "n \<in> set (unconfirmed_contenders m)" using assms(3) by simp
  then have "n \<in> reported_names quorate_vouched m"
    unfolding unconfirmed_contenders_def by (metis (lifting) Set.filter_eq mem_Collect_eq
      set_sorted_list_of_set sorted_list_of_set.fold_insort_key.infinite empty_iff empty_set)
  then show ?thesis
    using eligible_quorate [OF assms(1)] by (auto simp: reported_vouched_names [OF assms(1,2)])
qed (use eligible_quorate [OF assms(1,2)] in blast)

lemma finite_vouched:
  assumes "converged ms" and "m \<in> set ms"
  shows "finite (reported_names quorate_vouched m)"
  using eligible_quorate [OF assms(1)] conv.finite_members
  by (auto simp: reported_vouched_names [OF assms] intro!: finite_subset [of _ "nodes ms"])

lemma spread_candidates_complete:
  assumes conv: "converged ms" and m: "m \<in> set ms" and m': "m' \<in> set ms" and "m \<noteq> m'"
    and q: "conv.quorate ms (my_name m)" "conv.quorate ms (my_name m')"
  shows "my_name m' \<in> set (eligible_candidates m @ unconfirmed_contenders m)"
proof (cases "edge ms (my_name m) (my_name m')")
  case True
  then show ?thesis using q by (simp add: eligible_eq [OF conv m])
next
  case False
  have ne: "my_name m \<noteq> my_name m'" using same_name [OF conv m m'] \<open>m \<noteq> m'\<close> by blast
  moreover have "my_name m \<in> nodes ms" "my_name m' \<in> nodes ms" using conv m m' by (auto simp: nodes_def)
  ultimately obtain w where w: "edge ms (my_name m) w" "edge ms w (my_name m')"
    using conv.quorate_linked q False by blast
  then obtain mw where mw: "mw \<in> set ms" "my_name mw = w"
    using conv.edge_nodes name_node by metis
  then have "my_name m' \<in> set (eligible_candidates mw)" using w q by (simp add: eligible_eq [OF conv])
  then have "my_name m' \<in> reported_names quorate_vouched m"
    using mw w by (auto simp: reported_vouched_names [OF conv m])
  moreover have "my_name m' \<notin> direct_names m"
    using False ne by (auto simp: direct_eq [OF conv m] conv.live_def)
  ultimately show ?thesis
    using convergedD(1) [OF conv m'] finite_vouched [OF conv m]
    by (auto simp: unconfirmed_contenders_def)
qed

lemma shared_eq:
  assumes "converged ms" and "a \<in> set ms" and "b \<in> set ms"
  shows "{w. edge ms (my_name a) w \<and> edge ms w (my_name b)} =
    set (agreeing_peer_names a) \<inter> set (agreeing_peer_names b)"
  using edge_iff [OF assms(1,2)] edge_iff [OF assms(1,3)] conv.edge_sym [of ms] by blast

text \<open>Two quorate nodes confirm each other when they agree or share a quorum less one of peers.\<close>

lemma bridged_eligible:
  assumes conv: "converged ms" and a: "a \<in> set ms" and b: "b \<in> set ms" and "my_name a \<noteq> my_name b"
    and q: "conv.quorate ms (my_name a)" "conv.quorate ms (my_name b)"
    and linked: "\<not> (\<not> edge ms (my_name a) (my_name b) \<and>
      card {w. edge ms (my_name a) w \<and> edge ms w (my_name b)} + 1 < quorum_size (length ms))"
  shows "my_name b \<in> set (eligible_candidates a) \<and> my_name a \<in> set (eligible_candidates b)"
proof (cases "edge ms (my_name a) (my_name b)")
  case True
  then show ?thesis
    using q conv.edge_sym by (simp add: eligible_eq [OF conv a] eligible_eq [OF conv b])
next
  case False
  let ?S = "{w. edge ms (my_name a) w \<and> edge ms w (my_name b)}"
  have sym: "{w. edge ms (my_name b) w \<and> edge ms w (my_name a)} = ?S"
    using conv.edge_sym [of ms] by blast
  have "my_name b \<notin> conv.live ms (my_name a)" "my_name a \<notin> conv.live ms (my_name b)"
    using False conv.edge_sym [of ms] assms(4) by (auto simp: conv.live_def)
  moreover have "?S \<noteq> {}"
    using conv.quorate_linked [of "my_name a" ms "my_name b"] False q assms(4) a b conv
    by (auto simp: nodes_def)
  moreover have "quorum a \<le> card ?S + 1" "quorum b \<le> card ?S + 1"
    using linked False by (simp_all add: quorum_eq [OF conv a] quorum_eq [OF conv b] card_nodes [OF conv])
  ultimately show ?thesis
    using sym by (auto simp: eligible_eq [OF conv a] eligible_eq [OF conv b] bridge_eq [OF conv a]
        bridge_eq [OF conv b])
qed

subsection \<open>The elections of a cluster\<close>

text \<open>The candidates of the node with a given name.\<close>

definition candidates_of :: "(Manager \<Rightarrow> string list) \<Rightarrow> Manager list \<Rightarrow> string \<Rightarrow> string list" where
  "candidates_of f ms a = (case find (\<lambda>m. my_name m = a) ms of None \<Rightarrow> [] | Some m \<Rightarrow> f m)"

lemma find_name:
  assumes "converged ms" and "m \<in> set ms"
  shows "find (\<lambda>m'. my_name m' = my_name m) ms = Some m"
proof -
  obtain m' where "find (\<lambda>m'. my_name m' = my_name m) ms = Some m'"
    using assms(2) by (cases "find (\<lambda>m'. my_name m' = my_name m) ms") (auto simp: find_None_iff)
  moreover from this have "m' \<in> set ms" "my_name m' = my_name m"
    by (auto simp: find_Some_iff)
  ultimately show ?thesis using same_name [OF assms(1) _ assms(2)] by blast
qed

lemma candidates_of_name [simp]:
  "converged ms \<Longrightarrow> m \<in> set ms \<Longrightarrow> candidates_of f ms (my_name m) = f m"
  by (simp add: candidates_of_def find_name)

interpretation single: election lowest "(<)" "nodes ms" "conv.quorate ms"
    "candidates_of eligible_candidates ms" for ms
proof
  fix a b assume "a \<in> nodes ms" and b: "b \<in> set (candidates_of eligible_candidates ms a)"
  then obtain m where "converged ms" "m \<in> set ms" "my_name m = a" using name_node by blast
  with b show "b \<in> nodes ms \<and> conv.quorate ms b" using eligible_quorate by auto
qed (rule conv.finite_members)

abbreviation spread_candidates :: "Manager \<Rightarrow> string list" where
  "spread_candidates m \<equiv> eligible_candidates m @ unconfirmed_contenders m"

interpretation spread: complete_election "max_by (hrw_key sha256 job)"
    "\<lambda>a b. hrw_key sha256 job b < hrw_key sha256 job a" "nodes ms" "conv.quorate ms"
    "candidates_of spread_candidates ms" for sha256 job ms
proof
  fix a b assume "a \<in> nodes ms"
  then obtain m where m: "converged ms" "m \<in> set ms" "my_name m = a" using name_node by blast
  show "b \<in> nodes ms \<and> conv.quorate ms b" if "b \<in> set (candidates_of spread_candidates ms a)"
    using spread_candidates_sound [OF m(1,2)] that m by auto
  assume "b \<in> nodes ms" "conv.quorate ms a" "conv.quorate ms b" "a \<noteq> b"
  then show "b \<in> set (candidates_of spread_candidates ms a)"
    using spread_candidates_complete [OF m(1,2)] m name_node by (metis candidates_of_name)
qed (rule conv.finite_members)

subsection \<open>Quorum-less candidates\<close>

lemma available_eq:
  assumes "converged ms" and "m \<in> set ms"
  shows "set (agreeing_peer_names m @ available_contenders m) =
    {n. n \<noteq> my_name m \<and> (edge ms (my_name m) n \<or> (\<exists>w. edge ms (my_name m) w \<and> edge ms w n))}"
proof -
  have "set (available_contenders m) =
    {n. n \<notin> conv.live ms (my_name m) \<and> (\<exists>w. edge ms (my_name m) w \<and> edge ms w n)}"
    using finite_reported [OF assms] node_truthy [OF assms(1)] conv.edge_nodes
    by (auto simp: available_contenders_def reported_mutual_names [OF assms] direct_eq [OF assms])
  then show ?thesis
    using edge_iff [OF assms] conv.edge_irrefl [of ms "my_name m"] by (auto simp: conv.live_def)
qed

abbreviation available_candidates :: "Manager \<Rightarrow> string list" where
  "available_candidates m \<equiv> agreeing_peer_names m @ available_contenders m"

lemma available_linked:
  assumes "converged ms" and "a \<in> set ms" and "b \<in> set ms" and "my_name a \<noteq> my_name b"
    and "edge ms (my_name a) (my_name b) \<or> edge ms (my_name a) w \<and> edge ms w (my_name b)"
  shows "my_name b \<in> set (available_candidates a) \<and> my_name a \<in> set (available_candidates b)"
  using assms(4,5) conv.edge_sym [of ms "my_name a"] conv.edge_sym [of ms w "my_name b"]
  unfolding available_eq [OF assms(1,2)] available_eq [OF assms(1,3)] by auto

lemma available_sound:
  assumes "a \<in> nodes ms" and "b \<in> set (candidates_of available_candidates ms a)"
  shows "b \<in> nodes ms"
proof -
  obtain m where m: "converged ms" "m \<in> set ms" "my_name m = a" using assms(1) name_node by blast
  then have "b \<in> set (available_candidates m)" using assms(2) by auto
  then show ?thesis using available_eq [OF m(1,2)] conv.edge_nodes by blast
qed

interpretation preferred: election lowest "(<)" "nodes ms" "\<lambda>_. True"
    "candidates_of available_candidates ms" for ms
  by unfold_locales (use conv.finite_members available_sound in auto)

interpretation preferred_spread: election "max_by (hrw_key sha256 job)"
    "\<lambda>a b. hrw_key sha256 job b < hrw_key sha256 job a" "nodes ms" "\<lambda>_. True"
    "candidates_of available_candidates ms" for sha256 job ms
  by unfold_locales (use conv.finite_members available_sound in auto)

end
