(* ===== verification/ClusterExample.thy ===== *)
theory ClusterExample
  imports ClusterElection
begin

text \<open>
  A concrete converged cluster of three nodes in a chain: \<open>c\<close> agrees with \<open>a\<close> and with \<open>b\<close>, which
  cannot reach each other.  Every node is quorate, and \<open>a\<close> and \<open>b\<close> know of each other only across the
  bridge \<open>c\<close>.  The distribution mode is a parameter.
\<close>

definition entry ::
  "string \<Rightarrow> string \<Rightarrow> string \<Rightarrow> string \<Rightarrow> member list \<Rightarrow> string set \<Rightarrow> string set \<Rightarrow> PeerState" where
  "entry h distr n i mems mutual vouched =
     (new_peer h)\<lparr>status := STATUS_AGREED, job_set_id := Some ''j'', node_name := Some n,
        instance_id := Some i, members := Some mems, declared_size := Some 3,
        declared_distribution := Some distr, declared_elect_leader := Some True,
        ran_reboot_jobs := Some {}, mutual_agreeing := Some mutual, quorate_vouched := Some vouched\<rparr>"

definition chain_node :: "string \<Rightarrow> string \<Rightarrow> string \<Rightarrow> PeerState dict \<Rightarrow> Manager" where
  "chain_node distr n i es =
     (new_manager n i distr True (map fst es) 3 ''j'')\<lparr>view := \<lparr>drift_after = 3, peers = es\<rparr>\<rparr>"

definition seen_c :: "string \<Rightarrow> PeerState" where
  "seen_c distr = entry ''hc'' distr ''c'' ''3''
     [(''c'', ''3'', True), (''a'', ''1'', True), (''b'', ''2'', True)] {''a'', ''b''} {''a'', ''b''}"

definition node_a :: "string \<Rightarrow> Manager" where
  "node_a distr = chain_node distr ''a'' ''1''
     [(''hb'', peer_failure ''down'' False (new_peer ''hb'')), (''hc'', seen_c distr)]"

definition node_b :: "string \<Rightarrow> Manager" where
  "node_b distr = chain_node distr ''b'' ''2''
     [(''ha'', peer_failure ''down'' False (new_peer ''ha'')), (''hc'', seen_c distr)]"

definition node_c :: "string \<Rightarrow> Manager" where
  "node_c distr = chain_node distr ''c'' ''3''
     [(''ha'', entry ''ha'' distr ''a'' ''1'' [(''a'', ''1'', True), (''c'', ''3'', True)] {''c''} {''b'', ''c''}),
      (''hb'', entry ''hb'' distr ''b'' ''2'' [(''b'', ''2'', True), (''c'', ''3'', True)] {''c''} {''a'', ''c''})]"

lemmas chain_defs = node_a_def node_b_def node_c_def chain_node_def new_manager_def

lemma entry_fields [simp]:
  "status (entry h d n i ms mu vo) = STATUS_AGREED" "node_name (entry h d n i ms mu vo) = Some n"
  "instance_id (entry h d n i ms mu vo) = Some i" "members (entry h d n i ms mu vo) = Some ms"
  "reports_members (entry h d n i ms mu vo)" "declared_size (entry h d n i ms mu vo) = Some 3"
  "declared_distribution (entry h d n i ms mu vo) = Some d" "host (entry h d n i ms mu vo) = h"
  "declared_elect_leader (entry h d n i ms mu vo) = Some True"
  "mutual_agreeing (entry h d n i ms mu vo) = Some mu" "quorate_vouched (entry h d n i ms mu vo) = Some vo"
  by (simp_all add: entry_def new_peer_def)

lemma down_fields [simp]:
  "status (peer_failure e False (new_peer h)) = STATUS_UNREACHABLE"
  "instance_id (peer_failure e False (new_peer h)) = None"
  by (simp_all add: new_peer_def peer_failure_def)

lemma chain_views [simp]:
  "peers (view (node_a d)) = [(''hb'', peer_failure ''down'' False (new_peer ''hb'')), (''hc'', seen_c d)]"
  "peers (view (node_b d)) = [(''ha'', peer_failure ''down'' False (new_peer ''ha'')), (''hc'', seen_c d)]"
  "peers (view (node_c d)) =
     [(''ha'', entry ''ha'' d ''a'' ''1'' [(''a'', ''1'', True), (''c'', ''3'', True)] {''c''} {''b'', ''c''}),
      (''hb'', entry ''hb'' d ''b'' ''2'' [(''b'', ''2'', True), (''c'', ''3'', True)] {''c''} {''a'', ''c''})]"
  "length (config_peers (node_a d)) = 2" "length (config_peers (node_b d)) = 2" "length (config_peers (node_c d)) = 2"
  by (simp_all add: chain_defs)

lemma chain_id [simp]:
  "my_name (node_a d) = ''a''" "my_name (node_b d) = ''b''" "my_name (node_c d) = ''c''"
  "my_instance (node_a d) = ''1''" "my_instance (node_b d) = ''2''" "my_instance (node_c d) = ''3''"
  "distribution (node_a d) = d" "distribution (node_b d) = d" "distribution (node_c d) = d"
  "elects_leader (node_a d)" "elects_leader (node_b d)" "elects_leader (node_c d)"
  "live_job_set_id (node_a d) = ''j''" "live_job_set_id (node_b d) = ''j''" "live_job_set_id (node_c d) = ''j''"
  by (simp_all add: chain_defs)

lemma chain_sizes [simp]:
  "cluster_size (node_a d) = 3" "cluster_size (node_b d) = 3" "cluster_size (node_c d) = 3"
  "quorum (node_a d) = 2" "quorum (node_b d) = 2" "quorum (node_c d) = 2"
  by (simp_all add: cluster_size_def self_listed_def seen_c_def quorum_def quorum_size_def)

lemma chain_agreeing [simp]:
  "agreeing_peers (node_a d) = [seen_c d]" "agreeing_peers (node_b d) = [seen_c d]"
  "agreeing_peers (node_c d) = map snd (peers (view (node_c d)))"
  by (simp_all add: agreeing_peers_def counts_def peer_sees_me_agreed_def seen_c_def)

lemma chain_names [simp]:
  "agreeing_peer_names (node_a d) = [''c'']" "agreeing_peer_names (node_b d) = [''c'']"
  "agreeing_peer_names (node_c d) = [''a'', ''b'']"
  by (simp_all add: agreeing_peer_names_def truthy_name_def map_filter_simps seen_c_def)

lemma chain_eligible [simp]:
  "eligible_candidates (node_a d) = [''c'', ''b'']" "eligible_candidates (node_b d) = [''c'', ''a'']"
  "eligible_candidates (node_c d) = [''a'', ''b'']"
  by (simp_all add: eligible_candidates_def bridge_candidates_def reported_names_def witnesses_def
      direct_names_def or_empty_def seen_c_def truthy_name_def map_filter_simps conj_disj_distribR Collect_disj_eq Collect_conv_if)

lemma chain_members [simp]:
  "reported_members (node_a d) = [(''a'', ''1'', True), (''c'', ''3'', True)]"
  "reported_members (node_b d) = [(''b'', ''2'', True), (''c'', ''3'', True)]"
  "reported_members (node_c d) = [(''c'', ''3'', True), (''a'', ''1'', True), (''b'', ''2'', True)]"
  by (simp_all add: reported_members_def parse_members_def local_members_def reached_cap_def seen_c_def
     peer_member_def STALE_STATUSES_def map_filter_simps parse_member_json field_ok_def isprintable_def MAX_PEER_FIELD_LEN_def
     MAX_MEMBER_ENTRIES_def parse_member_json [unfolded MAX_PEER_FIELD_LEN_def])

subsection \<open>The chain has converged\<close>

lemma chain_presentable:
  "field_ok d \<Longrightarrow> presentable (node_a d)" "field_ok d \<Longrightarrow> presentable (node_b d)" "field_ok d \<Longrightarrow> presentable (node_c d)"
  by (simp_all add: presentable_def field_ok_def isprintable_def MAX_PEER_FIELD_LEN_def)

lemma chain_mirrors:
  assumes "field_ok d"
  shows "mirrors (node_c d) (seen_c d)"
    "mirrors (node_a d) (entry ''ha'' d ''a'' ''1'' [(''a'', ''1'', True), (''c'', ''3'', True)] {''c''} {''b'', ''c''})"
    "mirrors (node_b d) (entry ''hb'' d ''b'' ''2'' [(''b'', ''2'', True), (''c'', ''3'', True)] {''c''} {''a'', ''c''})"
  using chain_presentable [OF assms]
  by (auto simp: mirrors_iff seen_c_def parse_names field_ok_def isprintable_def MAX_PEER_FIELD_LEN_def MAX_MEMBER_ENTRIES_def
     parse_names [unfolded MAX_PEER_FIELD_LEN_def MAX_MEMBER_ENTRIES_def] simp del: sort_key_simps insort_key.simps)

lemma chain_converged: "field_ok d \<Longrightarrow> converged [node_a d, node_b d, node_c d]"
  using chain_mirrors [of d] by (simp add: converged_def MAX_MEMBER_ENTRIES_def)

lemma chain_quorate: "is_quorate (node_a d)"
  by (simp add: is_quorate_iff)

lemma chain_no_conflict: "\<not> has_conflict (node_a ''spread'')" "\<not> has_conflict (node_b ''spread'')" "\<not> has_conflict (node_c ''spread'')"
  by code_simp+

end
