(* ===== verification/ClusterProps.thy ===== *)
theory ClusterProps
  imports ClusterExample
begin

text \<open>
  Properties of the gossip cluster: who runs a leader-gated job in a converged cluster, how
  membership changes move jobs, what survives the trip through \<open>/peer\<close>, how polls move the
  status of a peer, and two responses that escape the parsers.
\<close>

subsection \<open>Who runs a job\<close>

lemma allows_spread_leader:
  assumes "converged ms" and "m \<in> set ms" and "distribution m = ''spread''"
  shows "cluster_allows sha256 True (Some m) Leader job \<longleftrightarrow>
    \<not> has_conflict m \<and> conv.quorate ms (my_name m) \<and>
    max_by (hrw_key sha256 job) (my_name m) (candidates_of spread_candidates ms (my_name m)) = my_name m"
  using assms by (simp add: cluster_allows_def is_job_owner_eq or_closed_def quorate_eq)

lemma allows_single_leader:
  assumes "converged ms" and "m \<in> set ms" and "distribution m \<noteq> ''spread''"
  shows "cluster_allows sha256 True (Some m) Leader job \<longleftrightarrow>
    \<not> has_conflict m \<and> conv.quorate ms (my_name m) \<and>
    lowest (my_name m) (candidates_of eligible_candidates ms (my_name m)) = my_name m"
proof (cases "is_quorate m")
  case True
  with assms show ?thesis
    by (simp add: cluster_allows_def is_leader_def leader_name_quorate quorate_eq)
next
  case False
  with assms show ?thesis
    by (simp add: cluster_allows_def is_leader_def leader_name_not_quorate quorate_eq)
qed

lemma node_names:
  "converged ms \<Longrightarrow> m \<in> set ms \<Longrightarrow> my_name m \<in> nodes ms"
  by (simp add: nodes_def)

text \<open>
  C5. In a converged cluster with per-job ownership, however its nodes can reach each other, at most
  one node runs a given leader-gated job; and as soon as one node is quorate and no node sees a
  conflict, exactly one does.
\<close>

theorem spread_job_runs_once:
  assumes "converged ms" and "\<forall>m \<in> set ms. distribution m = ''spread''"
  shows "card {m \<in> set ms. cluster_allows sha256 True (Some m) Leader job} \<le> 1 \<and>
    ((\<exists>m \<in> set ms. is_quorate m) \<and> (\<forall>m \<in> set ms. \<not> has_conflict m) \<longrightarrow>
       (\<exists>m \<in> set ms. cluster_allows sha256 True (Some m) Leader job))"
proof (intro conjI impI)
  have "a = b" if a: "a \<in> set ms" "cluster_allows sha256 True (Some a) Leader job"
      and b: "b \<in> set ms" "cluster_allows sha256 True (Some b) Leader job" for a b
  proof -
    note wins = allows_spread_leader [OF assms(1), THEN iffD1]
    have "my_name a = my_name b"
      using wins [OF a(1) _ a(2)] wins [OF b(1) _ b(2)] a(1) b(1) assms(2) node_names [OF assms(1)]
        spread.unique_winner [of "my_name a" ms sha256 job "my_name b"] by blast
    then show ?thesis using same_name [OF assms(1) a(1) b(1)] by blast
  qed
  then show "card {m \<in> set ms. cluster_allows sha256 True (Some m) Leader job} \<le> 1"
    by (simp add: card_le_Suc0_iff_eq)
next
  assume h: "(\<exists>m \<in> set ms. is_quorate m) \<and> (\<forall>m \<in> set ms. \<not> has_conflict m)"
  then obtain a where "a \<in> nodes ms" "conv.quorate ms a"
    using quorate_eq [OF assms(1)] node_names [OF assms(1)] by blast
  from spread.somebody_wins [OF this, of sha256 job] obtain w where
    w: "w \<in> nodes ms" "conv.quorate ms w"
      "max_by (hrw_key sha256 job) w (candidates_of spread_candidates ms w) = w" by blast
  from name_node [OF w(1)] obtain m where "m \<in> set ms" "my_name m = w" .
  moreover from this have "cluster_allows sha256 True (Some m) Leader job"
    using w h assms(2) by (subst allows_spread_leader [OF assms(1)]) auto
  ultimately show "\<exists>m \<in> set ms. cluster_allows sha256 True (Some m) Leader job" by blast
qed

theorem spread_job_runs_once_witness:
  "card {m \<in> {node_a ''spread'', node_b ''spread'', node_c ''spread''}.
       cluster_allows (map of_char) True (Some m) Leader ''job''} \<le> 1 \<and>
   (\<exists>m. m \<in> {node_a ''spread'', node_b ''spread'', node_c ''spread''} \<and>
      cluster_allows (map of_char) True (Some m) Leader ''job'')"
  using spread_job_runs_once
    [of "[node_a ''spread'', node_b ''spread'', node_c ''spread'']" "map of_char" "''job''"]
    chain_converged [of "''spread''"] chain_quorate [of "''spread''"] chain_no_conflict
  by (auto simp: field_ok_def isprintable_def MAX_PEER_FIELD_LEN_def)

text \<open>
  C6. In a converged cluster with a single leader, a quorate node and no conflict guarantee that a
  leader runs; two nodes lead at once only when they do not agree with each other and share fewer
  than a quorum less one of agreeing peers.
\<close>

theorem single_leader_unless_thin_bridge:
  assumes "converged ms" and "\<forall>m \<in> set ms. distribution m \<noteq> ''spread''"
  shows "((\<exists>m \<in> set ms. is_quorate m) \<and> (\<forall>m \<in> set ms. \<not> has_conflict m) \<longrightarrow>
       (\<exists>m \<in> set ms. cluster_allows sha256 True (Some m) Leader job)) \<and>
    (\<forall>a \<in> set ms. \<forall>b \<in> set ms. a \<noteq> b \<and> cluster_allows sha256 True (Some a) Leader job \<and>
       cluster_allows sha256 True (Some b) Leader job \<longrightarrow>
       my_name b \<notin> set (agreeing_peer_names a) \<and>
       card (set (agreeing_peer_names a) \<inter> set (agreeing_peer_names b)) + 1 < quorum_size (length ms))"
proof (intro conjI impI ballI)
  assume h: "(\<exists>m \<in> set ms. is_quorate m) \<and> (\<forall>m \<in> set ms. \<not> has_conflict m)"
  then obtain a where "a \<in> nodes ms" "conv.quorate ms a"
    using quorate_eq [OF assms(1)] node_names [OF assms(1)] by blast
  from single.somebody_wins [OF this] obtain w where
    w: "w \<in> nodes ms" "conv.quorate ms w"
      "lowest w (candidates_of eligible_candidates ms w) = w" by blast
  from name_node [OF w(1)] obtain m where "m \<in> set ms" "my_name m = w" .
  moreover from this have "cluster_allows sha256 True (Some m) Leader job"
    using w h assms(2) by (subst allows_single_leader [OF assms(1)]) auto
  ultimately show "\<exists>m \<in> set ms. cluster_allows sha256 True (Some m) Leader job" by blast
next
  fix a b assume a: "a \<in> set ms" and b: "b \<in> set ms"
    and two: "a \<noteq> b \<and> cluster_allows sha256 True (Some a) Leader job \<and>
       cluster_allows sha256 True (Some b) Leader job"
  then have ne: "my_name a \<noteq> my_name b" using same_name [OF assms(1)] by blast
  have qa: "conv.quorate ms (my_name a)" "lowest (my_name a) (eligible_candidates a) = my_name a"
    using two a assms allows_single_leader [OF assms(1) a] by simp_all
  have qb: "conv.quorate ms (my_name b)" "lowest (my_name b) (eligible_candidates b) = my_name b"
    using two b assms allows_single_leader [OF assms(1) b] by simp_all
  have "\<not> (my_name b \<in> set (eligible_candidates a) \<and> my_name a \<in> set (eligible_candidates b))"
    using leader.not_both_self [OF ne] qa(2) qb(2) by blast
  then have "\<not> edge ms (my_name a) (my_name b) \<and>
      card {w. edge ms (my_name a) w \<and> edge ms w (my_name b)} + 1 < quorum_size (length ms)"
    using bridged_eligible [OF assms(1) a b ne qa(1) qb(1)] by blast
  then show "my_name b \<notin> set (agreeing_peer_names a)"
    and "card (set (agreeing_peer_names a) \<inter> set (agreeing_peer_names b)) + 1 < quorum_size (length ms)"
    using edge_iff [OF assms(1) a] shared_eq [OF assms(1) a b] by simp_all
qed

theorem single_leader_unless_thin_bridge_witness:
  "is_quorate (node_a ''single-leader'') \<and>
   \<not> (cluster_allows (map of_char) True (Some (node_a ''single-leader'')) Leader ''job'' \<and>
      cluster_allows (map of_char) True (Some (node_b ''single-leader'')) Leader ''job'')"
proof -
  have "converged [node_a ''single-leader'', node_b ''single-leader'', node_c ''single-leader'']"
    by (rule chain_converged) (simp add: field_ok_def isprintable_def MAX_PEER_FIELD_LEN_def)
  moreover have "node_a ''single-leader'' \<noteq> node_b ''single-leader''"
  proof
    assume "node_a ''single-leader'' = node_b ''single-leader''"
    then have "my_name (node_a ''single-leader'') = my_name (node_b ''single-leader'')" by (rule arg_cong)
    then show False by simp
  qed
  ultimately show ?thesis
    using single_leader_unless_thin_bridge
      [of "[node_a ''single-leader'', node_b ''single-leader'', node_c ''single-leader'']" "map of_char" "''job''"]
      chain_quorate [of "''single-leader''"]
    by (simp add: quorum_size_def)
qed

text \<open>
  In a converged cluster a node that stands down does so for a node that runs: the leader it names
  and the owner it names for a job are quorate members of the cluster.
\<close>

theorem elected_node_is_quorate:
  assumes "converged ms" and "m \<in> set ms"
    and "leader_name m = Some l \<or> job_owner sha256 m job = Inr (Some l)"
  shows "\<exists>m' \<in> set ms. my_name m' = l \<and> is_quorate m'"
proof -
  have "is_quorate m"
  proof (rule ccontr)
    assume "\<not> is_quorate m"
    then show False using assms(3) by (auto simp: leader_name_not_quorate job_owner_eq)
  qed
  then have "conv.quorate ms (my_name m)" and "my_name m \<in> nodes ms"
    using quorate_eq [OF assms(1,2)] node_names [OF assms(1,2)] by simp_all
  note runs = single.choice_runs [OF this(2,1)] spread.choice_runs [OF this(2,1), of sha256 job]
  have "l = lowest (my_name m) (eligible_candidates m) \<or>
      l = max_by (hrw_key sha256 job) (my_name m) (spread_candidates m)"
    using assms(3) \<open>is_quorate m\<close> by (auto simp: leader_name_quorate job_owner_eq)
  then have "l \<in> nodes ms" and "conv.quorate ms l"
    using runs assms(1,2) by auto
  from name_node [OF this(1)] obtain m' where "m' \<in> set ms" "my_name m' = l" .
  with \<open>conv.quorate ms l\<close> show ?thesis using quorate_eq [OF assms(1)] by blast
qed

theorem elected_node_is_quorate_witness:
  "\<exists>m. m \<in> {node_a ''spread'', node_b ''spread'', node_c ''spread''} \<and> my_name m = ''a'' \<and> is_quorate m"
proof -
  have "converged [node_a ''spread'', node_b ''spread'', node_c ''spread'']"
    by (rule chain_converged) (simp add: field_ok_def isprintable_def MAX_PEER_FIELD_LEN_def)
  moreover have "leader_name (node_b ''spread'') = Some ''a''" by code_simp
  ultimately show ?thesis
    using elected_node_is_quorate
      [of "[node_a ''spread'', node_b ''spread'', node_c ''spread'']" "node_b ''spread''" "''a''"]
    by auto
qed

text \<open>
  No other process bears the node's name: an entry with that name is stale, or the node lists itself and
  the entry shows its own instance.
\<close>

definition no_twin :: "Manager \<Rightarrow> bool" where
  "no_twin m \<longleftrightarrow>
     (\<forall>p \<in> set (table m). node_name p = Some (my_name m) \<and> status p \<notin> STALE_STATUSES \<longrightarrow>
        instance_id p = Some (my_instance m))"

lemma allows_prefer:
  assumes "converged ms" and "m \<in> set ms" and "view_settled m"
    and "no_twin m"
  shows "cluster_allows sha256 True (Some m) PreferLeader job \<longleftrightarrow>
    (if distribution m = ''spread''
     then max_by (hrw_key sha256 job) (my_name m) (candidates_of available_candidates ms (my_name m)) = my_name m
     else lowest (my_name m) (candidates_of available_candidates ms (my_name m)) = my_name m)"
proof -
  have "\<not> cedes_to_lower_instance m f" for f
    using assms(4) by (auto simp: cedes_to_lower_instance_def no_twin_def list_ex_iff)
  then show ?thesis
    using assms(1-3)
    by (simp add: cluster_allows_def is_available_job_owner_def available_job_owner_eq or_closed_def
        is_available_leader_def available_leader_name_def elect_available_leader_def)
qed

text \<open>
  C7. \<open>PreferLeader\<close> never skips a job in a converged cluster that runs under one distribution, whose views
  have settled and in which no two processes share a name (a node may list itself among its peers): some
  node always runs it, quorum or not; and two nodes run it only when no agreeing peer connects them.
\<close>

theorem prefer_leader_never_skipped:
  assumes "converged ms" and "ms \<noteq> []"
    and "\<forall>m \<in> set ms. view_settled m \<and> no_twin m"
    and "\<forall>m \<in> set ms. distribution m = d"
  shows "(\<exists>m \<in> set ms. cluster_allows sha256 True (Some m) PreferLeader job) \<and>
    (\<forall>a \<in> set ms. \<forall>b \<in> set ms. a \<noteq> b \<and> cluster_allows sha256 True (Some a) PreferLeader job \<and>
       cluster_allows sha256 True (Some b) PreferLeader job \<longrightarrow>
       my_name b \<notin> set (agreeing_peer_names a) \<and>
       set (agreeing_peer_names a) \<inter> set (agreeing_peer_names b) = {})"
proof (intro conjI ballI impI)
  obtain a where "a \<in> nodes ms" using assms(1,2) by (cases ms) (auto simp: nodes_def)
  with preferred.somebody_wins preferred_spread.somebody_wins [of a ms sha256 job]
  obtain w where w: "w \<in> nodes ms"
    "if d = ''spread'' then max_by (hrw_key sha256 job) w (candidates_of available_candidates ms w) = w
     else lowest w (candidates_of available_candidates ms w) = w"
    by (cases "d = ''spread''") auto
  from name_node [OF w(1)] obtain m where m: "m \<in> set ms" "my_name m = w" .
  then have "cluster_allows sha256 True (Some m) PreferLeader job"
    using w(2) assms(3,4) by (subst allows_prefer [OF assms(1)]) auto
  with m show "\<exists>m \<in> set ms. cluster_allows sha256 True (Some m) PreferLeader job" by blast
next
  fix a b assume a: "a \<in> set ms" and b: "b \<in> set ms"
    and two: "a \<noteq> b \<and> cluster_allows sha256 True (Some a) PreferLeader job \<and>
       cluster_allows sha256 True (Some b) PreferLeader job"
  then have ne: "my_name a \<noteq> my_name b" using same_name [OF assms(1)] by blast
  have "\<not> (my_name b \<in> set (available_candidates a) \<and> my_name a \<in> set (available_candidates b))"
  proof -
    have allows_a: "if d = ''spread'' then max_by (hrw_key sha256 job) (my_name a) (available_candidates a) = my_name a
        else lowest (my_name a) (available_candidates a) = my_name a"
      using two a assms(1,3,4) allows_prefer [OF assms(1) a] by auto
    have allows_b: "if d = ''spread'' then max_by (hrw_key sha256 job) (my_name b) (available_candidates b) = my_name b
        else lowest (my_name b) (available_candidates b) = my_name b"
      using two b assms(1,3,4) allows_prefer [OF assms(1) b] by auto
    show ?thesis
    proof
      assume "my_name b \<in> set (available_candidates a) \<and> my_name a \<in> set (available_candidates b)"
      then show False
        using allows_a allows_b leader.not_both_self [OF ne, of "available_candidates a" "available_candidates b"]
          owner.not_both_self [OF ne, of "available_candidates a" "available_candidates b" sha256 job]
        by (cases "d = ''spread''") simp_all
    qed
  qed
  then have "\<not> edge ms (my_name a) (my_name b)"
    and "{w. edge ms (my_name a) w \<and> edge ms w (my_name b)} = {}"
    using available_linked [OF assms(1) a b ne] by blast+
  then show "my_name b \<notin> set (agreeing_peer_names a)"
    and "set (agreeing_peer_names a) \<inter> set (agreeing_peer_names b) = {}"
    using edge_iff [OF assms(1) a] unfolding shared_eq [OF assms(1) a b] by simp_all
qed

theorem prefer_leader_never_skipped_witness:
  "\<exists>m. m \<in> {node_a ''spread'', node_b ''spread'', node_c ''spread''} \<and>
     cluster_allows (map of_char) True (Some m) PreferLeader ''job''"
proof -
  have "converged [node_a ''spread'', node_b ''spread'', node_c ''spread'']"
    by (rule chain_converged) (simp add: field_ok_def isprintable_def MAX_PEER_FIELD_LEN_def)
  moreover have "view_settled (node_a ''spread'')" "view_settled (node_b ''spread'')"
    "view_settled (node_c ''spread'')"
    by code_simp+
  ultimately show ?thesis
    using prefer_leader_never_skipped
      [of "[node_a ''spread'', node_b ''spread'', node_c ''spread'']" "''spread''" "map of_char" "''job''"]
    by (auto simp: no_twin_def seen_c_def peer_failure_def new_peer_def)
qed

end
