(* ===== verification/GossipProps.thy ===== *)
theory GossipProps
  imports ClusterExample
begin

text \<open>
  Properties of rendezvous ownership, of the gossip exchange and of the peer table: membership
  changes, the trip of a body through the parsers, the conditional 304, the drift debounce, the
  \<open>@reboot\<close> marks, and the responses that escape the parsers.
\<close>

subsection \<open>Membership changes\<close>

text \<open>
  Rendezvous ownership moves only what it must: when a node leaves, every job it did not own keeps
  its owner, and when a node joins, a job keeps its owner or goes to the newcomer.  The variant over
  pre-encoded names gives the same owner.
\<close>

theorem rendezvous_moves_only_own_share:
  assumes "hrw_owner sha256 job names = Inr owner" and "others \<noteq> []"
  shows "(set others = set names - {x} \<and> owner \<noteq> x \<longrightarrow> hrw_owner sha256 job others = Inr owner) \<and>
    (set others = insert x (set names) \<longrightarrow> hrw_owner sha256 job others \<in> {Inr owner, Inr x}) \<and>
    hrw_owner_bytes sha256 job names names = Inr owner"
proof -
  obtain n ns where ms: "names = n # ns" using assms(1) by (cases names) (auto simp: hrw_owner_def)
  obtain k ks where os: "others = k # ks" using assms(2) by (cases others) auto
  have own: "max_by (hrw_key sha256 job) n ns = owner" using assms(1) ms by simp
  have "max_by (hrw_key sha256 job) k ks = owner"
    if "set others = set names - {x}" "owner \<noteq> x"
    using owner.pick_leave [of sha256 job n ns x k ks] own that ms os by simp
  moreover have "max_by (hrw_key sha256 job) k ks \<in> {owner, x}" if "set others = insert x (set names)"
    using owner.pick_join [of k ks x n ns sha256 job] own that ms os by simp
  ultimately show ?thesis using assms(1) os by (auto simp: hrw_owner_bytes_eq)
qed

theorem rendezvous_moves_only_own_share_witness:
  "hrw_owner (map of_char) ''job'' [''a'', ''b'', ''c''] = Inr ''c'' \<and>
   hrw_owner (map of_char) ''job'' [''c'', ''b''] = Inr ''c''"
proof -
  have "hrw_owner (map of_char) ''job'' [''a'', ''b'', ''c''] = Inr ''c''" by code_simp
  with rendezvous_moves_only_own_share
    [of "map of_char" "''job''" "[''a'', ''b'', ''c'']" "''c''" "[''c'', ''b'']" "''a''"]
  show ?thesis by auto
qed

subsection \<open>The exchange\<close>

text \<open>
  C31. A poll reads the peer as it is: after a body that a node served has been absorbed, the entry
  shows its name and instance, exactly its mutual live set and its confirmed names, and it attests
  this node if and only if the peer holds an agreed entry for it.
\<close>

theorem poll_reads_the_peer:
  assumes "observe_peer h now (Body None False (Some (JObject (peer_payload prov m'))) etag) m = Inr m2"
    and "presentable m'" and "length (table m') + 1 < MAX_MEMBER_ENTRIES"
    and "length (eligible_candidates m') < MAX_MEMBER_ENTRIES"
    and "\<forall>n \<in> set (agreeing_peer_names m') \<union> set (eligible_candidates m'). field_ok n"
    and "my_instance m \<noteq> my_instance m'" and "field_ok (my_instance m)"
  shows "\<exists>p. dict_get (peers (view m2)) h = Some p \<and> node_name p = Some (my_name m') \<and>
    instance_id p = Some (my_instance m') \<and>
    mutual_agreeing p = Some (set (agreeing_peer_names m')) \<and>
    quorate_vouched p = Some (set (eligible_candidates m')) \<and>
    (peer_sees_me_agreed (members p) (my_instance m) \<longleftrightarrow>
       (\<exists>q \<in> set (table m'). status q = STATUS_AGREED \<and> instance_id q = Some (my_instance m) \<and>
          (\<exists>n. node_name q = Some n \<and> field_ok n)))"
proof -
  obtain p where p: "dict_get (peers (view m2)) h = Some p" "mirrors m' p"
    using poll_mirrors [OF assms(1,2)] by blast
  have "mutual_agreeing p = Some (set (agreeing_peer_names m'))"
    and "quorate_vouched p = Some (set (eligible_candidates m'))"
    using p(2) assms(3-5) agreeing_names_length [of m'] by (simp_all add: mirrors_iff parse_names)
  moreover have "peer_sees_me_agreed (members p) (my_instance m) \<longleftrightarrow>
      (\<exists>n. (n, my_instance m, True) \<in> set (reported_members m'))"
    by (auto simp: peer_sees_me_agreed_def mirrorsD(5) [OF p(2)] list_ex_iff)
  moreover have "(\<exists>n. (n, my_instance m, True) \<in> set (reported_members m')) \<longleftrightarrow>
      (\<exists>q \<in> set (table m'). status q = STATUS_AGREED \<and> instance_id q = Some (my_instance m) \<and>
          (\<exists>n. node_name q = Some n \<and> field_ok n))"
    using reported_members_iff [OF assms(3), of _ "my_instance m" True] assms(6,7)
    by (fastforce simp: STALE_STATUSES_def)
  ultimately show ?thesis using p mirrorsD(1,2) [OF p(2)] by blast
qed

definition fresh_poller :: Manager where
  "fresh_poller = new_manager ''x'' ''9'' ''spread'' True [''hc''] 3 ''j''"

theorem poll_reads_the_peer_witness:
  "\<exists>m2 p. observe_peer ''hc'' 5 (Body None False (Some (JObject (peer_payload None (node_c ''spread'')))) None)
       fresh_poller = Inr m2 \<and>
     dict_get (peers (view m2)) ''hc'' = Some p \<and> mutual_agreeing p = Some {''a'', ''b''} \<and>
     \<not> peer_sees_me_agreed (members p) ''9''"
proof -
  let ?d = "peer_payload None (node_c ''spread'')"
  have ok: "field_ok ''spread''" "field_ok ''9''" "field_ok ''a''" "field_ok ''b''"
    by (simp_all add: field_ok_def isprintable_def MAX_PEER_FIELD_LEN_def)
  have "observation_of ?d 5 None = Inr (payload_observation (node_c ''spread'') False 5 None)"
    by (simp add: observation_of_payload_Inr chain_presentable ok advertised_job_summaries_def)
  then obtain m2 where m2: "observe_peer ''hc'' 5 (Body None False (Some (JObject ?d)) None) fresh_poller = Inr m2"
    by (auto simp: observe_peer_def parse_node_stats_header_def lift_parse_def absorb_body_def payload_fields
        advertised_job_summaries_def parse_job_summaries_def accept_def on_view_def record_success_def
        update_peer_def fresh_poller_def new_manager_def new_view_def Let_def)
  have "my_instance fresh_poller = ''9''" by (simp add: fresh_poller_def new_manager_def)
  with poll_reads_the_peer [OF m2] chain_presentable ok show ?thesis
    using m2 by (fastforce simp: MAX_MEMBER_ENTRIES_def)
qed

text \<open>The entry of a host, without the age of its job summaries.\<close>

definition entry_but_age :: "string \<Rightarrow> Manager \<Rightarrow> PeerState option" where
  "entry_but_age h m = map_option (\<lambda>p. p\<lparr>job_summaries_at := None\<rparr>) (dict_get (peers (view m)) h)"

lemma accept_age:
  assumes "accept h obs now stats m = Inr a" and "accept h obs' now stats m = Inr b"
    and "obs\<lparr>peer_job_summaries_at := None\<rparr> = obs'\<lparr>peer_job_summaries_at := None\<rparr>"
  shows "entry_but_age h' a = entry_but_age h' b"
proof -
  obtain t where obs: "obs' = obs\<lparr>peer_job_summaries_at := t\<rparr>"
    using assms(3) by (metis (no_types, lifting) observation.surjective observation.update_convs(15))
  have same: "(peer_success d (obs\<lparr>peer_job_summaries_at := t\<rparr>) j now n i stats p)\<lparr>job_summaries_at := None\<rparr> =
      (peer_success d obs j now n i stats p)\<lparr>job_summaries_at := None\<rparr>" for d j n i p
    by (simp add: peer_success_def judge_def absorb_def Let_def split: option.splits)
  obtain p where p: "dict_get (peers (view m)) h = Some p"
    and a: "a = m\<lparr>view := (view m)\<lparr>peers := dict_set h (peer_success (drift_after (view m)) obs
               (live_job_set_id m) now (my_name m) (Some (my_instance m)) stats p) (peers (view m))\<rparr>\<rparr>"
    using accept_entry [OF assms(1)] .
  obtain q where q: "dict_get (peers (view m)) h = Some q"
    and b: "b = m\<lparr>view := (view m)\<lparr>peers := dict_set h (peer_success (drift_after (view m)) obs'
               (live_job_set_id m) now (my_name m) (Some (my_instance m)) stats q) (peers (view m))\<rparr>\<rparr>"
    using accept_entry [OF assms(2)] .
  show ?thesis using p q by (simp add: entry_but_age_def a b obs same)
qed

text \<open>
  A 304 stands for the body it confirms: when the cached observation of a host came from a body,
  a conditional answer moves every entry of the table exactly as receiving that body again would,
  except that the job summaries keep the time they were taken at.
\<close>

theorem not_modified_replays_body:
  assumes "observe_peer h t (Body hdr False (Some (JObject d)) (Some tag)) m = Inr m1"
    and "observation_of d t None = Inr obs"
    and "dict_get (observation_cache m2) h = dict_get (observation_cache m1) h"
    and "length tag \<le> MAX_PEER_ETAG_LEN \<and> isprintable tag"
    and "observe_peer h now (NotModified hdr') m2 = Inr a"
    and "observe_peer h now (Body hdr' False (Some (JObject d)) (Some tag)) m2 = Inr b"
  shows "entry_but_age h' a = entry_but_age h' b"
proof -
  obtain stats0 where "absorb_body h t stats0 d (Some tag) m = Inr m1"
    using assms(1) by (auto simp: observe_peer_def bind_result_Inr)
  from absorb_body_Inr [OF assms(2) this] obtain js m0 where
    js: "parse_job_summaries (get_or_null d ''job_summaries'') = Inr js"
    and "m1 = remember h (Some tag) (obs\<lparr>peer_job_summaries := js\<rparr>) m0" .
  then have cached: "dict_get (observation_cache m2) h = Some (tag, obs\<lparr>peer_job_summaries := js\<rparr>)"
    using assms(3,4) by (simp add: remember_def)
  obtain stats where st: "lift_parse (parse_node_stats_header hdr') = Inr stats"
    and a: "accept h (obs\<lparr>peer_job_summaries := js\<rparr>) now stats m2 = Inr a"
    using assms(5) cached by (auto simp: observe_peer_def bind_result_Inr)
  have later: "observation_of d now None = Inr (obs\<lparr>peer_job_summaries_at := Some now\<rparr>)"
    using assms(2) by (auto simp: observation_of_def bind_result_Inr)
  have "absorb_body h now stats d (Some tag) m2 = Inr b"
    using assms(6) st by (simp add: observe_peer_def)
  from absorb_body_Inr [OF later this] obtain js' m3 where
    js': "parse_job_summaries (get_or_null d ''job_summaries'') = Inr js'"
    and m3: "accept h (obs\<lparr>peer_job_summaries_at := Some now, peer_job_summaries := js'\<rparr>) now stats m2 = Inr m3"
    and "b = remember h (Some tag) (obs\<lparr>peer_job_summaries_at := Some now, peer_job_summaries := js'\<rparr>) m3" .
  then have "entry_but_age h' b = entry_but_age h' m3" by (simp add: entry_but_age_def)
  moreover have "js' = js" using js js' by simp
  ultimately show ?thesis using accept_age [OF a m3] by simp
qed

lemmas observe_simps = observe_peer_def parse_node_stats_header_def lift_parse_def absorb_body_def
  observation_of_def check_field_def check_size_field_def check_elect_field_def name_set_def
  parse_job_summaries_def accept_def on_view_def record_success_def update_peer_def remember_def
  Let_def get_or_null_def parse_members_def parse_str_list_def

text \<open>A poller after it absorbed an empty object tagged \<open>t\<close>.\<close>

definition after_body :: Manager where
  "after_body = (case observe_peer ''hc'' 5 (Body None False (Some (JObject [])) (Some ''t'')) fresh_poller of
     Inl e \<Rightarrow> fresh_poller | Inr m \<Rightarrow> m)"

theorem not_modified_replays_body_witness:
  "\<exists>a b. observe_peer ''hc'' 9 (NotModified None) after_body = Inr a \<and>
     observe_peer ''hc'' 9 (Body None False (Some (JObject [])) (Some ''t'')) after_body = Inr b \<and>
     entry_but_age ''hc'' a = entry_but_age ''hc'' b"
proof -
  have tag: "length ''t'' \<le> MAX_PEER_ETAG_LEN \<and> isprintable ''t''"
    by (simp add: MAX_PEER_ETAG_LEN_def isprintable_def)
  have body: "observe_peer ''hc'' 5 (Body None False (Some (JObject [])) (Some ''t'')) fresh_poller = Inr after_body"
    by (simp add: after_body_def observe_simps fresh_poller_def new_manager_def new_view_def)
  have parts: "\<exists>p obs. dict_get (peers (view after_body)) ''hc'' = Some p \<and>
      dict_get (observation_cache after_body) ''hc'' = Some (''t'', obs)"
    using tag by (simp add: after_body_def observe_simps fresh_poller_def new_manager_def new_view_def)
  then obtain a where a: "observe_peer ''hc'' 9 (NotModified None) after_body = Inr a"
    by (auto simp: observe_simps)
  obtain b where b: "observe_peer ''hc'' 9 (Body None False (Some (JObject [])) (Some ''t'')) after_body = Inr b"
    using parts by (auto simp: observe_simps)
  obtain obs where "observation_of [] 5 None = Inr obs" by (simp add: observe_simps)
  from not_modified_replays_body [OF body this refl tag a b] a b show ?thesis by blast
qed

subsection \<open>The drift debounce\<close>

text \<open>One poll of a peer, by its outcome.\<close>

datatype poll = PollSuccess observation real "json dict option" | PollFailed string bool

definition poll_entry :: "nat \<Rightarrow> string \<Rightarrow> string \<Rightarrow> string \<Rightarrow> poll \<Rightarrow> PeerState \<Rightarrow> PeerState" where
  "poll_entry drift my_id nm inst e p =
     (case e of
        PollSuccess obs now stats \<Rightarrow> peer_success drift obs my_id now nm (Some inst) stats p
      | PollFailed err untrusted \<Rightarrow> peer_failure err untrusted p)"

text \<open>A poll that found another job set, under a comparable scheme, at another node.\<close>

definition mismatches :: "string \<Rightarrow> string \<Rightarrow> poll \<Rightarrow> bool" where
  "mismatches my_id nm e =
     (case e of
        PollSuccess obs now stats \<Rightarrow>
          peer_name obs \<noteq> Some nm \<and> peer_scheme obs \<in> {None, Some SCHEME_VERSION} \<and> peer_id obs \<noteq> Some my_id
      | PollFailed err untrusted \<Rightarrow> False)"

text \<open>A poll that found agreement, or this node itself.\<close>

definition confirms :: "string \<Rightarrow> string \<Rightarrow> string \<Rightarrow> poll \<Rightarrow> bool" where
  "confirms my_id nm inst e =
     (case e of
        PollSuccess obs now stats \<Rightarrow>
          if peer_name obs = Some nm then peer_instance obs \<in> {None, Some inst}
          else peer_scheme obs \<in> {None, Some SCHEME_VERSION} \<and> peer_id obs = Some my_id
      | PollFailed err untrusted \<Rightarrow> False)"

definition streak_since_agreement :: "string \<Rightarrow> string \<Rightarrow> string \<Rightarrow> poll list \<Rightarrow> nat" where
  "streak_since_agreement my_id nm inst es =
     length (filter (mismatches my_id nm) (takeWhile (\<lambda>e. \<not> confirms my_id nm inst e) (rev es)))"

lemma poll_entry_streak:
  "mismatch_streak (poll_entry d my nm inst e p) =
     (if confirms my nm inst e then 0
      else if mismatches my nm e then mismatch_streak p + 1 else mismatch_streak p)"
  by (auto simp: poll_entry_def peer_success_def peer_failure_def judge_def Let_def confirms_def
      mismatches_def poll_simps split: poll.split)

lemma streak_of_polls:
  "mismatch_streak (fold (poll_entry d my nm inst) es (new_peer h)) = streak_since_agreement my nm inst es"
  by (induction es rule: rev_induct)
    (simp_all add: poll_entry_streak streak_since_agreement_def new_peer_def)

text \<open>
  Drift is debounced over reachable rounds: when a poll finds another job set, the peer is
  labelled drifted exactly when it is at least the \<open>driftAfter\<close>-th such poll since the last agreement;
  failed polls, conflicts and foreign schemes in between neither count nor reset.
\<close>

theorem drift_is_debounced:
  assumes "mismatches my nm e"
  shows "status (fold (poll_entry d my nm inst) (es @ [e]) (new_peer h)) =
    (if d \<le> streak_since_agreement my nm inst es + 1 then STATUS_DRIFTED else STATUS_SYNCING)"
proof -
  obtain obs now stats where "e = PollSuccess obs now stats"
    using assms by (cases e) (auto simp: mismatches_def)
  with assms show ?thesis
    by (auto simp: streak_of_polls poll_entry_def peer_success_def judge_def Let_def
        mismatches_def poll_simps)
qed

definition answer :: "string \<Rightarrow> observation" where
  "answer job_set = (payload_observation (node_a ''spread'') False 0 None)\<lparr>peer_id := Some job_set\<rparr>"

theorem drift_is_debounced_witness:
  "status (fold (poll_entry 2 ''j'' ''x'' ''9'')
     [PollSuccess (answer ''j'') 0 None, PollSuccess (answer ''k'') 1 None, PollFailed ''down'' False,
      PollSuccess (answer ''k'') 3 None] (new_peer ''ha'')) = STATUS_DRIFTED"
  using drift_is_debounced [of "''j''" "''x''" "PollSuccess (answer ''k'') 3 None" 2 "''9''"
      "[PollSuccess (answer ''j'') 0 None, PollSuccess (answer ''k'') 1 None, PollFailed ''down'' False]" "''ha''"]
  by (simp add: mismatches_def confirms_def streak_since_agreement_def answer_def
      payload_observation_def)

subsection \<open>One-shots that already ran\<close>

lemma reconcile_fields [simp]:
  "ran_jobs_job_set_id (reconcile_job_set_id i m) = Some i"
  "live_job_set_id (reconcile_job_set_id i m) = live_job_set_id m"
  "view (reconcile_job_set_id i m) = view m"
  by (simp_all add: reconcile_job_set_id_def)

lemma reconcile_subset: "my_ran_reboot_jobs (reconcile_job_set_id i m) \<subseteq> my_ran_reboot_jobs m"
  by (simp add: reconcile_job_set_id_def)

text \<open>
  A recorded \<open>@reboot\<close> run is known at once and only under the job set it was recorded for: after a
  reload to another job set, this node reports the job as run only when a peer that agreed on the new
  set does; and pushes from peers never grow the persistent record beyond its cap.
\<close>

theorem reboot_marks_scoped_to_job_set:
  assumes "new_id \<noteq> live_job_set_id m"
  shows "reboot_ran (mark_reboot_ran job m) job \<and>
    (reboot_ran (mark_reboot_ran job m \<lparr>live_job_set_id := new_id\<rparr>) job \<longrightarrow>
       (\<exists>p \<in> set (table m). status p = STATUS_AGREED \<and> job_set_id p = Some new_id \<and>
          job \<in> or_empty (ran_reboot_jobs p))) \<and>
    (finite (my_ran_reboot_jobs m) \<and> card (my_ran_reboot_jobs m) \<le> MAX_ADVERTISED_REBOOT_JOBS \<longrightarrow>
       card (my_ran_reboot_jobs (snd (handle_reboot_ran push m))) \<le> MAX_ADVERTISED_REBOOT_JOBS)"
proof (intro conjI impI)
  show "reboot_ran (mark_reboot_ran job m) job"
    by (simp add: reboot_ran_def advertised_ran_jobs_def mark_reboot_ran_def Let_def)
  show "\<exists>p \<in> set (table m). status p = STATUS_AGREED \<and> job_set_id p = Some new_id \<and>
      job \<in> or_empty (ran_reboot_jobs p)"
    if "reboot_ran (mark_reboot_ran job m \<lparr>live_job_set_id := new_id\<rparr>) job"
    using that assms by (auto simp: reboot_ran_def advertised_ran_jobs_def mark_reboot_ran_def Let_def)
next
  assume small: "finite (my_ran_reboot_jobs m) \<and> card (my_ran_reboot_jobs m) \<le> MAX_ADVERTISED_REBOOT_JOBS"
  have "card (set (take n (sorted_list_of_set A))) \<le> n" for n and A :: "string set"
    by (rule le_trans [OF card_length]) simp
  then show "card (my_ran_reboot_jobs (snd (handle_reboot_ran push m))) \<le> MAX_ADVERTISED_REBOOT_JOBS"
    using small by (auto simp: handle_reboot_ran_def Let_def not_less split: push_body.split json.split)
qed

theorem reboot_marks_scoped_to_job_set_witness:
  "\<not> reboot_ran (mark_reboot_ran ''boot'' (node_a ''spread'') \<lparr>live_job_set_id := ''k''\<rparr>) ''boot''"
  using reboot_marks_scoped_to_job_set [of "''k''" "node_a ''spread''" "''boot''" PushTimeout]
  by (auto simp: seen_c_def entry_def peer_failure_def new_peer_def)

subsection \<open>Responses that escape the parsers\<close>

definition huge_statistic :: json_text where
  "huge_statistic = \<lparr>text_length = 420, parsed = Some (JObject [(''cpu_percent'', JInt (10 ^ 400))])\<rparr>"

definition unhashable_outcome :: "json dict" where
  "unhashable_outcome =
     [(''job_summaries'', JObject [(''nightly'', JObject [(''last'', JObject [(''outcome'', JArray [])])])])]"

lemma huge_overflows: "float_overflows (10 ^ 400)"
proof -
  have "(2 :: int) ^ 1024 - 2 ^ 970 \<le> 10 ^ 400" by (simp only: power_numeral) simp
  then show ?thesis by (simp add: float_overflows_def)
qed

text \<open>Headers and summaries that the parsers raise on.\<close>

definition bad_header :: "json_text option \<Rightarrow> bool" where
  "bad_header header =
     (case header of
        None \<Rightarrow> False
      | Some t \<Rightarrow>
          text_length t \<le> MAX_NODE_STATS_HEADER_LEN \<and>
          (case parsed t of
             Some (JObject d) \<Rightarrow>
               list_ex (\<lambda>f. case get_or_null d f of JInt i \<Rightarrow> float_overflows i | _ \<Rightarrow> False) NODE_STATS_FIELDS
           | _ \<Rightarrow> False))"

definition bad_outcome :: "json \<Rightarrow> bool" where
  "bad_outcome v = (case v of JArray _ \<Rightarrow> True | JObject _ \<Rightarrow> True | _ \<Rightarrow> False)"

definition bad_summary :: "string \<times> json \<Rightarrow> bool" where
  "bad_summary kv =
     (case snd kv of
        JObject e \<Rightarrow>
          summary_name_ok (fst kv) \<and>
          (case get_or_null e ''last'' of JObject l \<Rightarrow> bad_outcome (get_or_null l ''outcome'') | _ \<Rightarrow> False)
      | _ \<Rightarrow> False)"

lemma stats_loop_raises:
  "(\<exists>x. stats_loop d acc fs = Inl x) \<longleftrightarrow> list_ex (\<lambda>f. case get_or_null d f of JInt i \<Rightarrow> float_overflows i | _ \<Rightarrow> False) fs"
  by (induction fs arbitrary: acc) (auto simp: finite_number_def split: json.split)

lemma header_raises: "(\<exists>x. parse_node_stats_header header = Inl x) \<longleftrightarrow> bad_header header"
proof -
  have "(\<exists>x. parse_node_stats (JObject d) = Inl x) \<longleftrightarrow>
      list_ex (\<lambda>f. case get_or_null d f of JInt i \<Rightarrow> float_overflows i | _ \<Rightarrow> False) NODE_STATS_FIELDS" for d
    using stats_loop_raises [of d "[]" NODE_STATS_FIELDS] by (cases "stats_loop d [] NODE_STATS_FIELDS") (simp_all add: parse_node_stats_def)
  moreover have "parse_node_stats v = Inr None" if "\<And>d. v \<noteq> JObject d" for v
    using that by (simp add: parse_node_stats_def split: json.split)
  ultimately show ?thesis
    by (auto simp: parse_node_stats_header_def bad_header_def split: option.split json.split)
qed

lemma summary_raises: "bad_summary (name, JObject e) \<Longrightarrow> \<exists>x. parse_summary e = Inl x"
  by (cases "finite_number (get_or_null e ''scheduled_in'')")
    (auto simp: bad_summary_def bad_outcome_def parse_summary_def parse_last_def known_outcome_def split: json.splits)

lemma dict_set_length: "length (dict_set k v d) \<le> Suc (length d)"
  by (induction d) auto

lemma summaries_loop_raises:
  assumes "list_ex bad_summary js" "length acc + length js \<le> MAX_ADVERTISED_JOB_SUMMARIES"
  shows "\<exists>x. summaries_loop acc js = Inl x"
  using assms
proof (induction js arbitrary: acc)
  case (Cons kv js)
  obtain name v where kv: "kv = (name, v)" by fastforce
  have grow: "length (dict_set name y acc) \<le> Suc (length acc)" for y by (rule dict_set_length)
  show ?case
  proof (cases "bad_summary kv")
    case True
    then obtain e where "v = JObject e" "summary_name_ok name" "\<exists>x. parse_summary e = Inl x"
      using summary_raises by (auto simp: kv bad_summary_def split: json.splits)
    then show ?thesis by (auto simp: kv)
  next
    case False
    have js: "list_ex bad_summary js" "1 \<le> length js" using False Cons.prems(1) by (cases js; simp)+
    have room: "length (dict_set name y acc) + length js \<le> MAX_ADVERTISED_JOB_SUMMARIES"
      "\<not> MAX_ADVERTISED_JOB_SUMMARIES \<le> length (dict_set name y acc)" "length acc + length js \<le> MAX_ADVERTISED_JOB_SUMMARIES" for y
      using Cons.prems(2) grow [of y] js(2) by simp_all
    have "\<exists>x. summaries_loop acc js = Inl x" "\<exists>x. summaries_loop (dict_set name y acc) js = Inl x" for y
      using Cons.IH [OF js(1)] room by blast+
    then show ?thesis using room(2) by (auto simp: kv bind_result_def Let_def split: json.split sum.split)
  qed
qed simp

text \<open>Integers that a JSON body may hold do not overflow, so that outcomes are all that is left to raise.\<close>

lemma portable_member: "ensure_portable (JObject d) k \<Longrightarrow> \<exists>k'. ensure_portable (get_or_null d f) k'"
  by (fastforce simp: get_or_null_def list_all_iff split: if_splits option.splits dest: map_of_SomeD)

lemma summary_returns:
  assumes "ensure_portable (JObject e) k" "\<not> bad_summary (name, JObject e)" "summary_name_ok name"
  shows "\<exists>y. parse_summary e = Inr y"
proof -
  have n: "\<exists>r. finite_number (get_or_null d f) = Inr r" if "ensure_portable (JObject d) k'" for d f k'
    using portable_member [OF that, of f] finite_number_portable by blast
  have "\<exists>y. parse_last (get_or_null e ''last'') = Inr y"
  proof (cases "get_or_null e ''last''")
    case (JObject l)
    then obtain k' where "ensure_portable (JObject l) k'" using portable_member [OF assms(1), of "''last''"] by auto
    from n [OF this, of "''duration''"] JObject assms(2,3) show ?thesis
      by (auto simp: parse_last_def known_outcome_def bad_summary_def bad_outcome_def split: json.splits)
  qed (simp_all add: parse_last_def)
  then show ?thesis using n [OF assms(1), of "''scheduled_in''"] by (auto simp: parse_summary_def)
qed

lemma summaries_loop_returns:
  assumes "\<not> list_ex bad_summary js" "list_all (\<lambda>kv. ensure_portable (snd kv) k) js"
  shows "\<exists>y. summaries_loop acc js = Inr y"
  using assms
proof (induction js arbitrary: acc)
  case (Cons kv js)
  obtain name v where kv: "kv = (name, v)" by fastforce
  have rest: "\<exists>y. summaries_loop acc js = Inr y" for acc using Cons by simp
  show ?case
  proof (cases v)
    case (JObject e)
    then have "summary_name_ok name \<Longrightarrow> \<exists>y. parse_summary e = Inr y"
      using Cons.prems summary_returns [of e k name] by (simp add: kv del: ensure_portable.simps)
    then show ?thesis using rest JObject by (auto simp: kv Let_def)
  qed (use rest in \<open>simp_all add: kv\<close>)
qed simp



end
