(* ===== verification/FsElection.thy ===== *)
theory FsElection
  imports Leadership StateRecords
begin

text \<open>
  Leader election over the lease of a shared mount (\<open>backends/filesystem.py\<close>).  A renew round
  (\<open>_renew_once\<close>) awaits several store operations; it is modelled as a machine whose phase is the
  operation it awaits and whose \<open>after_\<close> functions are the code between two awaits, so that the rounds
  of different nodes interleave.  Readings of \<open>_monotonic()\<close> and \<open>_wallclock()\<close> are arguments.
\<close>

subsection \<open>State and live reads\<close>

definition SKEW_SECONDS :: real where
  "SKEW_SECONDS = 1"

definition MIN_USABLE_TTL :: real where
  "MIN_USABLE_TTL = 3"

definition OPS_PER_CYCLE :: real where
  "OPS_PER_CYCLE = 4"

definition UNKNOWN_HOLDER :: string where
  "UNKNOWN_HOLDER = ''<unknown holder>''"

definition REBOOT_RAN_STREAM :: string where
  "REBOOT_RAN_STREAM = ''cluster/reboot-ran''"

definition REBOOT_RAN_KEEP :: nat where
  "REBOOT_RAN_KEEP = 512"

definition REBOOT_RAN_REFRESH :: real where
  "REBOOT_RAN_REFRESH = 60"

text \<open>\<open>holder.rsplit("#", 1)[0]\<close>: what stands before the last hash sign, or the whole text.\<close>

definition before_last_hash :: "string \<Rightarrow> string" where
  "before_last_hash s =
     (if CHR ''#'' \<in> set s then rev (tl (dropWhile (\<lambda>c. c \<noteq> CHR ''#'') (rev s))) else s)"

definition display_name :: "string option \<Rightarrow> string option" where
  "display_name holder =
     (case holder of
        None \<Rightarrow> None
      | Some s \<Rightarrow> Some (if before_last_hash s = [] then UNKNOWN_HOLDER else before_last_hash s))"

record FsBackend = LeaseBackend +
  election_name :: string
  holder_token :: string
  fs_ttl :: real
  fs_leader_flag :: bool
  lease_lost :: bool
  fs_lease :: "Lease option"
  fs_holder :: "string option"
  lease_deadline :: "real option"
  lease_deadline_mono :: "real option"
  quorum_deadline_mono :: "real option"
  observed_fence :: "int option"
  reboot_refresh_next :: real
  reboot_warn_next :: real
  reboot_ran_synced :: bool
  reboot_persisted :: "string set"
  reboot_persisted_job_set_id :: "string option"

text \<open>The constructor; \<open>token\<close> is the random suffix that makes the holder string unique.\<close>

definition new_fs_backend :: "string \<Rightarrow> string \<Rightarrow> string \<Rightarrow> real \<Rightarrow> FsBackend" where
  "new_fs_backend name token election_id ttl =
     \<lparr>lb_node_name = name, lb_reboot_ran = {}, lb_reboot_ran_job_set_id = None,
      lb_reboot_ran_local = {}, lb_reboot_ran_local_job_set_id = None,
      election_name = election_id, holder_token = name @ ''#'' @ token, fs_ttl = ttl,
      fs_leader_flag = False, lease_lost = False, fs_lease = None, fs_holder = None,
      lease_deadline = None, lease_deadline_mono = None, quorum_deadline_mono = None,
      observed_fence = None, reboot_refresh_next = 0, reboot_warn_next = 0,
      reboot_ran_synced = False, reboot_persisted = {}, reboot_persisted_job_set_id = None\<rparr>"

definition renew_period :: "real \<Rightarrow> real" where
  "renew_period ttl = max 1 (ttl / 3)"

definition round_deadline :: "real \<Rightarrow> real" where
  "round_deadline ttl = max 1 (ttl - renew_period ttl - SKEW_SECONDS)"

definition op_timeout :: "real \<Rightarrow> real \<Rightarrow> real" where
  "op_timeout connect_timeout ttl = min connect_timeout (max (1 / 2) (round_deadline ttl / OPS_PER_CYCLE))"

definition before_deadline :: "real \<Rightarrow> real option \<Rightarrow> bool" where
  "before_deadline mt deadline = (case deadline of None \<Rightarrow> False | Some d \<Rightarrow> mt < d)"

definition fs_is_leader :: "real \<Rightarrow> FsBackend \<Rightarrow> bool" where
  "fs_is_leader mt b =
     (if \<not> fs_leader_flag b \<or> lease_deadline_mono b = None \<or> lease_lost b then False
      else before_deadline mt (lease_deadline_mono b))"

definition fs_self_demoted :: "real \<Rightarrow> FsBackend \<Rightarrow> bool" where
  "fs_self_demoted mt b \<longleftrightarrow> fs_leader_flag b \<and> \<not> fs_is_leader mt b"

definition fs_is_quorate :: "real \<Rightarrow> FsBackend \<Rightarrow> bool" where
  "fs_is_quorate mt b = before_deadline mt (quorum_deadline_mono b)"

definition fs_leader_name :: "real \<Rightarrow> FsBackend \<Rightarrow> string option" where
  "fs_leader_name mt b = (if \<not> fs_is_quorate mt b then None else fs_holder b)"

definition fs_reads :: "real \<Rightarrow> FsBackend \<Rightarrow> lease_reads" where
  "fs_reads mt b =
     \<lparr>lr_node_name = lb_node_name b, lr_is_leader = fs_is_leader mt b,
      lr_leader_name = fs_leader_name mt b, lr_is_quorate = fs_is_quorate mt b,
      lr_self_demoted = fs_self_demoted mt b\<rparr>"

subsection \<open>The reboot-ran set of the store\<close>

definition note_persisted :: "string \<Rightarrow> string set \<Rightarrow> FsBackend \<Rightarrow> FsBackend" where
  "note_persisted job_set_id jobs b =
     (let b' = (if reboot_persisted_job_set_id b \<noteq> Some job_set_id
                then b\<lparr>reboot_persisted := {}, reboot_persisted_job_set_id := Some job_set_id\<rparr> else b)
      in b'\<lparr>reboot_persisted := reboot_persisted b' \<union> jobs\<rparr>)"

text \<open>The jobs that the listed records mark under the live job set.\<close>

definition marked_job :: "string \<Rightarrow> body \<Rightarrow> string option" where
  "marked_job live rec =
     (case dict_get rec ''job'' of
        Some (JString job) \<Rightarrow> if dict_get rec ''jobSetId'' = Some (JString live) then Some job else None
      | _ \<Rightarrow> None)"

definition ran_jobs :: "string \<Rightarrow> body list \<Rightarrow> string set" where
  "ran_jobs live records = set (List.map_filter (marked_job live) records)"

definition refresh_reboot_ran :: "real \<Rightarrow> string \<Rightarrow> body list \<Rightarrow> FsBackend \<Rightarrow> FsBackend" where
  "refresh_reboot_ran mt live records b =
     (let jobs = ran_jobs live records
      in (note_persisted live jobs (observe_reboot_ran live (Some live) jobs b))
           \<lparr>reboot_ran_synced := True, reboot_refresh_next := mt + REBOOT_RAN_REFRESH,
            reboot_warn_next := 0\<rparr>)"

definition leaderish :: "FsBackend \<Rightarrow> bool" where
  "leaderish b \<longleftrightarrow> fs_leader_flag b \<or> fs_lease b \<noteq> None"

definition refresh_due :: "real \<Rightarrow> FsBackend \<Rightarrow> bool" where
  "refresh_due mt b \<longleftrightarrow> leaderish b \<and> \<not> reboot_ran_synced b \<or> mt \<ge> reboot_refresh_next b"

text \<open>What a failed re-read changes: the throttle of a follower, the warning throttle of a holder.\<close>

definition refresh_failed :: "real \<Rightarrow> FsBackend \<Rightarrow> FsBackend" where
  "refresh_failed mt b =
     (if reboot_ran_synced b then b
      else if \<not> leaderish b then b\<lparr>reboot_refresh_next := mt + REBOOT_RAN_REFRESH\<rparr>
      else if mt \<ge> reboot_warn_next b then b\<lparr>reboot_warn_next := mt + REBOOT_RAN_REFRESH\<rparr>
      else b)"

text \<open>
  The input and output of one append: the store's own arguments, and whether the answer arrives
  before the operation is timed out (a timed-out append may have landed).
\<close>

record append_io =
  ai_env :: io
  ai_listed :: bool
  ai_envs :: "string \<Rightarrow> io"
  ai_micros :: nat
  ai_inst :: string
  ai_seqno :: nat
  ai_answered :: bool

definition append_mark ::
  "(string \<Rightarrow> string) \<Rightarrow> append_io \<Rightarrow> string \<Rightarrow> string \<Rightarrow> rec_store \<Rightarrow> rec_store \<times> bool" where
  "append_mark h a live job st =
     (case append_sync h (ai_env a) (ai_listed a) (ai_envs a) (ai_micros a) (ai_inst a) (ai_seqno a)
             REBOOT_RAN_STREAM [(''jobSetId'', JString live), (''job'', JString job)] None None st of
        (st', r) \<Rightarrow> (st', ai_answered a \<and> \<not> isl r))"

fun persist_loop ::
  "(string \<Rightarrow> string) \<Rightarrow> (string \<Rightarrow> append_io) \<Rightarrow> string \<Rightarrow> string list \<Rightarrow> FsBackend \<Rightarrow> rec_store \<Rightarrow>
   FsBackend \<times> rec_store \<times> bool" where
  "persist_loop h ios live [] b st = (b, st, True)"
| "persist_loop h ios live (job # jobs) b st =
     (case append_mark h (ios job) live job st of
        (st', False) \<Rightarrow> (b, st', False)
      | (st', True) \<Rightarrow>
          persist_loop h ios live jobs (b\<lparr>reboot_persisted := insert job (reboot_persisted b)\<rparr>) st')"

text \<open>
  Appends the local marks that the store does not carry yet and prunes the stream; an append that
  fails ends it (the caller suppresses the error), a failing prune is ignored.
\<close>

definition persist_reboot_ran ::
  "(string \<Rightarrow> string) \<Rightarrow> (string \<Rightarrow> append_io) \<Rightarrow> bool \<Rightarrow> (string \<Rightarrow> io) \<Rightarrow> string \<Rightarrow> FsBackend \<Rightarrow> rec_store \<Rightarrow>
   FsBackend \<times> rec_store" where
  "persist_reboot_ran h ios listed envs live b st =
     (let b1 = reconcile_local_reboot_ran live b;
          b2 = (if reboot_persisted_job_set_id b1 \<noteq> Some live
                then b1\<lparr>reboot_persisted := {}, reboot_persisted_job_set_id := Some live\<rparr> else b1);
          missing = lb_reboot_ran_local b2 - reboot_persisted b2
      in if missing = {} then (b2, st)
         else (case persist_loop h ios live (sorted_list_of_set missing) b2 st of
                 (b3, st3, False) \<Rightarrow> (b3, st3)
               | (b3, st3, True) \<Rightarrow>
                   (b3, fst (prune_sync h listed envs REBOOT_RAN_STREAM (int REBOOT_RAN_KEEP) st3))))"

text \<open>
  The maintenance pass: \<open>listing\<close> is the answer of \<open>list_records\<close> (an \<open>OSError\<close> or a timeout is
  \<open>None\<close>), \<open>mt\<close> the reading before it and \<open>mt'\<close> the one after it.
\<close>

definition maintain_refresh ::
  "real \<Rightarrow> real \<Rightarrow> string \<Rightarrow> body list option \<Rightarrow> FsBackend \<Rightarrow> FsBackend" where
  "maintain_refresh mt mt' live listing b =
     (if refresh_due mt b
      then (case listing of
              Some records \<Rightarrow> refresh_reboot_ran mt' live records b
            | None \<Rightarrow> refresh_failed mt' b)
      else b)"

definition list_marks ::
  "(string \<Rightarrow> string) \<Rightarrow> bool \<Rightarrow> (string \<Rightarrow> io) \<Rightarrow> bool \<Rightarrow> rec_store \<Rightarrow> rec_store \<times> body list option" where
  "list_marks h listed envs answered st =
     (case list_sync h listed envs REBOOT_RAN_STREAM (Some REBOOT_RAN_KEEP) True False None None st of
        (st', Inr records) \<Rightarrow> (st', if answered then Some records else None)
      | (st', Inl e) \<Rightarrow> (st', None))"

definition fs_reboot_ran :: "string \<Rightarrow> string \<Rightarrow> FsBackend \<Rightarrow> FsBackend \<times> (reboot_unknown, bool) result" where
  "fs_reboot_ran live job b =
     (case base_reboot_ran live job b of
        (b', True) \<Rightarrow> (b', Inr True)
      | (b', False) \<Rightarrow>
          if fs_leader_flag b' \<and> \<not> reboot_ran_synced b' then (b', Inl RebootRanUnknownError)
          else (b', Inr False))"

definition fs_mark_reboot_ran ::
  "(string \<Rightarrow> string) \<Rightarrow> (string \<Rightarrow> append_io) \<Rightarrow> bool \<Rightarrow> (string \<Rightarrow> io) \<Rightarrow> string \<Rightarrow> string \<Rightarrow>
   FsBackend \<Rightarrow> rec_store \<Rightarrow> FsBackend \<times> rec_store" where
  "fs_mark_reboot_ran h ios listed envs live job b st =
     (let b1 = reconcile_local_reboot_ran live b
      in persist_reboot_ran h ios listed envs live
           (b1\<lparr>lb_reboot_ran_local := insert job (lb_reboot_ran_local b1)\<rparr>) st)"

subsection \<open>The renew round\<close>

definition apply_round ::
  "string option \<Rightarrow> bool \<Rightarrow> real \<Rightarrow> int \<Rightarrow> real \<Rightarrow> real option \<Rightarrow> FsBackend \<Rightarrow> FsBackend" where
  "apply_round holder leads expires_at fence mt lease_mono b =
     (let b1 = b\<lparr>quorum_deadline_mono := Some (mt + fs_ttl b),
                 fs_holder := Some (case holder of Some n \<Rightarrow> n | None \<Rightarrow> UNKNOWN_HOLDER),
                 fs_leader_flag := leads, lease_lost := False, observed_fence := Some fence,
                 lease_deadline := (if expires_at > 0 then Some expires_at else None)\<rparr>
      in if leads
         then b1\<lparr>lease_deadline_mono :=
                   Some ((case lease_mono of Some m \<Rightarrow> m | None \<Rightarrow> mt) + fs_ttl b - SKEW_SECONDS)\<rparr>
         else b1\<lparr>lease_deadline_mono := None, fs_lease := None\<rparr>)"

definition apply_lease :: "Lease \<Rightarrow> bool \<Rightarrow> real \<Rightarrow> real option \<Rightarrow> FsBackend \<Rightarrow> FsBackend" where
  "apply_lease l leads mt lease_mono b =
     apply_round (display_name (Some (l_holder l))) leads (l_expires_at l) (l_fence l) mt lease_mono b"

text \<open>
  What a round awaits.  \<open>Maintaining (Some (l, m))\<close> is the maintenance before leadership is applied with
  the lease \<open>l\<close> anchored at \<open>m\<close>; \<open>Maintaining None\<close> the maintenance that ends a round.
\<close>

datatype fs_phase =
    Idle
  | Renewing bool real
  | Reading bool
  | Acquiring bool real
  | Confirming
  | Maintaining "(Lease \<times> real) option"
  | Applying "(Lease \<times> real) option"
  | Stopped

datatype 'a answer = TimedOut | Failed | Answer 'a

definition start_round :: "real \<Rightarrow> FsBackend \<Rightarrow> fs_phase" where
  "start_round mt b =
     (if fs_lease b \<noteq> None then Renewing (fs_is_leader mt b) mt else Reading (fs_is_leader mt b))"

definition after_renew ::
  "real \<Rightarrow> bool \<Rightarrow> real \<Rightarrow> Lease option answer \<Rightarrow> FsBackend \<Rightarrow> FsBackend \<times> fs_phase" where
  "after_renew mt was_leader lease_mono ans b =
     (case ans of
        Answer (Some renewed) \<Rightarrow>
          (let b1 = b\<lparr>fs_lease := Some renewed\<rparr>
           in if \<not> fs_is_leader mt b1
              then (b1\<lparr>reboot_ran_synced := False\<rparr>, Maintaining (Some (renewed, lease_mono)))
              else (apply_lease renewed True mt (Some lease_mono) b1, Maintaining None))
      | Answer None \<Rightarrow> (b\<lparr>lease_lost := True, fs_lease := None\<rparr>, Reading was_leader)
      | _ \<Rightarrow> (b, Idle))"

definition after_read ::
  "real \<Rightarrow> real \<Rightarrow> bool \<Rightarrow> Lease option answer \<Rightarrow> FsBackend \<Rightarrow> FsBackend \<times> fs_phase" where
  "after_read mt now_wall was_leader ans b =
     (case ans of
        Answer seen \<Rightarrow>
          (case seen of
             Some l \<Rightarrow>
               if l_holder l = holder_token b
               then ((apply_lease l False mt None b)\<lparr>fs_lease := Some l\<rparr>, Maintaining None)
               else if l_expires_at l > now_wall - SKEW_SECONDS
               then (apply_lease l False mt None b, Maintaining None)
               else (b, Acquiring was_leader mt)
           | None \<Rightarrow> (b, Acquiring was_leader mt))
      | _ \<Rightarrow> (b, Idle))"

definition after_acquire ::
  "real \<Rightarrow> bool \<Rightarrow> real \<Rightarrow> Lease option answer \<Rightarrow> FsBackend \<Rightarrow> FsBackend \<times> fs_phase" where
  "after_acquire mt was_leader lease_mono ans b =
     (case ans of
        Answer (Some acquired) \<Rightarrow>
          (let b1 = b\<lparr>fs_lease := Some acquired\<rparr>
           in if \<not> was_leader \<or> \<not> fs_is_leader mt b1
              then (b1\<lparr>reboot_ran_synced := False\<rparr>, Maintaining (Some (acquired, lease_mono)))
              else (apply_lease acquired True mt (Some lease_mono) b1, Maintaining None))
      | Answer None \<Rightarrow> (b, Confirming)
      | _ \<Rightarrow> (b, Idle))"

definition after_confirm :: "real \<Rightarrow> Lease option answer \<Rightarrow> FsBackend \<Rightarrow> FsBackend \<times> fs_phase" where
  "after_confirm mt ans b =
     (case ans of
        Answer (Some l) \<Rightarrow>
          (let b1 = apply_lease l False mt None b
           in (if l_holder l = holder_token b then b1\<lparr>fs_lease := Some l\<rparr> else b1, Maintaining None))
      | _ \<Rightarrow> (b, Idle))"

definition after_maintain :: "real \<Rightarrow> (Lease \<times> real) option \<Rightarrow> FsBackend \<Rightarrow> FsBackend \<times> fs_phase" where
  "after_maintain mt gain b =
     (case gain of
        Some (l, lease_mono) \<Rightarrow> (apply_lease l True mt (Some lease_mono) b, Idle)
      | None \<Rightarrow> (b, Idle))"

text \<open>\<open>stop\<close>: what it changes before the best-effort release.\<close>

definition fs_stop :: "FsBackend \<Rightarrow> FsBackend" where
  "fs_stop b = b\<lparr>fs_lease := None, fs_leader_flag := False\<rparr>"

end
