(* ===== verification/FsLeaders.thy ===== *)
theory FsLeaders
  imports FsElection
begin

text \<open>
  The nodes that elect over one lease, as a transition system in real time.  All monotonic clocks
  advance with real time (only differences of their readings are used), every wall clock reading is
  within \<open>\<delta>\<close> of it.  Store operations take effect at any moment between request and answer, a timed-out
  one at any later moment, and the rounds of the nodes interleave with them.  The invariant: the
  deadline up to which a node calls itself leader is backed by a lease of its own on the mount that
  expires later by the skew margin.
\<close>

subsection \<open>System\<close>

text \<open>
  Nodes go by their holder strings.  \<open>y_live\<close> is a node's live job set; \<open>y_gained\<close> and \<open>y_listed\<close>
  record when the lease of the current leadership was seen granted, and the last completed listing of
  the marks.
\<close>

record fs_sys =
  y_now :: real
  y_dir :: lease_dir
  y_recs :: rec_store
  y_node :: "string \<Rightarrow> FsBackend"
  y_phase :: "string \<Rightarrow> fs_phase"
  y_answer :: "string \<Rightarrow> Lease option answer option"
  y_live :: "string \<Rightarrow> string"
  y_gained :: "string \<Rightarrow> real"
  y_listed :: "string \<Rightarrow> (real \<times> string \<times> body list) option"

definition near :: "real \<Rightarrow> real \<Rightarrow> real \<Rightarrow> bool" where
  "near \<delta> now reading \<longleftrightarrow> \<bar>reading - now\<bar> \<le> \<delta>"

definition put_node :: "string \<Rightarrow> FsBackend \<times> fs_phase \<Rightarrow> fs_sys \<Rightarrow> fs_sys" where
  "put_node p r s =
     s\<lparr>y_node := (y_node s)(p := fst r), y_phase := (y_phase s)(p := snd r),
       y_answer := (y_answer s)(p := None)\<rparr>"

text \<open>A node whose answer brings a new leadership notes the time.\<close>

definition note_gain :: "string \<Rightarrow> fs_sys \<Rightarrow> fs_sys" where
  "note_gain p s =
     (case y_phase s p of
        Maintaining (Some _) \<Rightarrow> s\<lparr>y_gained := (y_gained s)(p := y_now s)\<rparr>
      | _ \<Rightarrow> s)"

text \<open>The code that runs when the awaited answer arrives.\<close>

definition resume :: "real \<Rightarrow> real \<Rightarrow> fs_phase \<Rightarrow> Lease option answer \<Rightarrow> FsBackend \<Rightarrow> FsBackend \<times> fs_phase" where
  "resume mt now_wall phase ans b =
     (case phase of
        Renewing was m \<Rightarrow> after_renew mt was m ans b
      | Reading was \<Rightarrow> after_read mt now_wall was ans b
      | Acquiring was m \<Rightarrow> after_acquire mt was m ans b
      | Confirming \<Rightarrow> after_confirm mt ans b
      | _ \<Rightarrow> (b, phase))"

definition asking :: "fs_phase \<Rightarrow> bool" where
  "asking phase \<longleftrightarrow>
     (case phase of Renewing _ _ \<Rightarrow> True | Reading _ \<Rightarrow> True | Acquiring _ _ \<Rightarrow> True | Confirming \<Rightarrow> True | _ \<Rightarrow> False)"

definition waiting :: "fs_phase \<Rightarrow> bool" where
  "waiting phase \<longleftrightarrow> (case phase of Idle \<Rightarrow> False | Stopped \<Rightarrow> False | _ \<Rightarrow> True)"

text \<open>
  One step.  A stray operation is a timed-out acquire or renew that lands late.  Other components
  change other leases and any record; a collection of expired leases may run.
\<close>

inductive fs_step ::
  "(string \<Rightarrow> string) \<Rightarrow> real \<Rightarrow> string list \<Rightarrow> string \<Rightarrow> fs_sys \<Rightarrow> fs_sys \<Rightarrow> bool"
  for h \<delta> eph name
where
  begin_round: "y_phase s p = Idle \<Longrightarrow>
    fs_step h \<delta> eph name s (put_node p (y_node s p, start_round (y_now s) (y_node s p)) s)"
| land_renew: "y_phase s p = Renewing was m \<Longrightarrow> y_answer s p = None \<Longrightarrow> near \<delta> (y_now s) (clock env) \<Longrightarrow>
    fs_lease (y_node s p) = Some l \<Longrightarrow> renew_sync h env l (fs_ttl (y_node s p)) (y_dir s) = (dir, r) \<Longrightarrow>
    ans = (case r of Inr x \<Rightarrow> Answer x | Inl e \<Rightarrow> Failed) \<Longrightarrow>
    fs_step h \<delta> eph name s (s\<lparr>y_dir := dir, y_answer := (y_answer s)(p := Some ans)\<rparr>)"
| land_acquire: "y_phase s p = Acquiring was m \<Longrightarrow> y_answer s p = None \<Longrightarrow> near \<delta> (y_now s) (clock env) \<Longrightarrow>
    acquire_sync h env name (holder_token (y_node s p)) (fs_ttl (y_node s p)) (y_dir s) = (dir, r) \<Longrightarrow>
    ans = (case r of Inr x \<Rightarrow> Answer x | Inl e \<Rightarrow> Failed) \<Longrightarrow>
    fs_step h \<delta> eph name s (s\<lparr>y_dir := dir, y_answer := (y_answer s)(p := Some ans)\<rparr>)"
| land_read: "y_phase s p = Reading was \<or> y_phase s p = Confirming \<Longrightarrow> y_answer s p = None \<Longrightarrow>
    ans = Answer (read_lease h env name (y_dir s)) \<Longrightarrow>
    fs_step h \<delta> eph name s (s\<lparr>y_answer := (y_answer s)(p := Some ans)\<rparr>)"
| time_out: "asking (y_phase s p) \<Longrightarrow>
    fs_step h \<delta> eph name s (s\<lparr>y_answer := (y_answer s)(p := Some TimedOut)\<rparr>)"
| stray: "near \<delta> (y_now s) (clock env) \<Longrightarrow>
    acquire_sync h env name (holder_token (y_node s p)) (fs_ttl (y_node s p)) (y_dir s) = (dir, r) \<or>
    l_name l = name \<and> l_holder l = holder_token (y_node s p) \<and>
      renew_sync h env l (fs_ttl (y_node s p)) (y_dir s) = (dir, r) \<Longrightarrow>
    fs_step h \<delta> eph name s (s\<lparr>y_dir := dir\<rparr>)"
| resume_round: "y_answer s p = Some ans \<Longrightarrow>
    fs_step h \<delta> eph name s
      (note_gain p (put_node p (resume (y_now s) now_wall (y_phase s p) ans (y_node s p)) s))"
| maintain: "y_phase s p = Maintaining gain \<Longrightarrow> mt \<le> y_now s \<Longrightarrow>
    (if refresh_due mt (y_node s p) then list_marks h listed envs answered (y_recs s) else (y_recs s, None)) =
      (recs, listing) \<Longrightarrow>
    b1 = maintain_refresh mt (y_now s) (y_live s p) listing (y_node s p) \<Longrightarrow>
    persist_reboot_ran h ios listed' envs' (y_live s p) b1 recs = (b2, recs') \<Longrightarrow>
    fs_step h \<delta> eph name s
      ((put_node p (b2, Applying gain) s)
         \<lparr>y_recs := recs',
          y_listed := (case listing of
                         Some l \<Rightarrow> (y_listed s)(p \<mapsto> (y_now s, y_live s p, l))
                       | None \<Rightarrow> y_listed s)\<rparr>)"
| apply_gain: "y_phase s p = Applying gain \<Longrightarrow>
    fs_step h \<delta> eph name s (put_node p (after_maintain (y_now s) gain (y_node s p)) s)"
| abandon_round: "waiting (y_phase s p) \<Longrightarrow>
    fs_step h \<delta> eph name s (put_node p (y_node s p, Idle) s)"
| mark: "fs_mark_reboot_ran h ios listed envs (y_live s p) job (y_node s p) (y_recs s) = (b, recs) \<Longrightarrow>
    fs_step h \<delta> eph name s (s\<lparr>y_node := (y_node s)(p := b), y_recs := recs\<rparr>)"
| ask: "fst (fs_reboot_ran (y_live s p) job (y_node s p)) = b \<Longrightarrow>
    fs_step h \<delta> eph name s (s\<lparr>y_node := (y_node s)(p := b)\<rparr>)"
| reload: "fs_step h \<delta> eph name s (s\<lparr>y_live := (y_live s)(p := live)\<rparr>)"
| stop: "fs_step h \<delta> eph name s (put_node p (fs_stop (y_node s p), Stopped) s)"
| release: "y_phase s p = Stopped \<Longrightarrow> l_name l = name \<Longrightarrow> l_holder l = holder_token (y_node s p) \<Longrightarrow>
    release_sync h env l (y_dir s) = (dir, r) \<Longrightarrow>
    fs_step h \<delta> eph name s (s\<lparr>y_dir := dir\<rparr>)"
| collect: "near \<delta> (y_now s) reading \<Longrightarrow> cutoff \<le> reading \<Longrightarrow>
    gc_leases_sync envs cutoff dry_run eph listing (y_dir s) = (dir, n) \<Longrightarrow>
    fs_step h \<delta> eph name s (s\<lparr>y_dir := dir\<rparr>)"
| elsewhere: "dir (fs_safe h name) = y_dir s (fs_safe h name) \<Longrightarrow>
    fs_step h \<delta> eph name s (s\<lparr>y_dir := dir, y_recs := recs\<rparr>)"
| tick: "y_now s \<le> t \<Longrightarrow> fs_step h \<delta> eph name s (s\<lparr>y_now := t\<rparr>)"


definition fs_init :: "(string \<Rightarrow> string) \<Rightarrow> string \<Rightarrow> fs_sys \<Rightarrow> bool" where
  "fs_init h name s \<longleftrightarrow>
     y_dir s (fs_safe h name) = LeaseAbsent \<and> inj (\<lambda>p. holder_token (y_node s p)) \<and>
     (\<forall>p. \<exists>nm token ttl. y_node s p = new_fs_backend nm token name ttl) \<and>
     y_phase s = (\<lambda>_. Idle) \<and> y_answer s = (\<lambda>_. None) \<and> (\<forall>p. y_gained s p \<le> y_now s)"

definition fs_reachable :: "(string \<Rightarrow> string) \<Rightarrow> real \<Rightarrow> string list \<Rightarrow> string \<Rightarrow> fs_sys \<Rightarrow> bool" where
  "fs_reachable h \<delta> eph name s \<longleftrightarrow> (\<exists>s0. fs_init h name s0 \<and> (fs_step h \<delta> eph name)\<^sup>*\<^sup>* s0 s)"

lemma fs_reachable_induct [consumes 1, case_names init step]:
  assumes "fs_reachable h \<delta> eph name s"
    and "\<And>s. fs_init h name s \<Longrightarrow> P s"
    and "\<And>s s'. P s \<Longrightarrow> fs_step h \<delta> eph name s s' \<Longrightarrow> P s'"
  shows "P s"
proof -
  obtain s0 where "fs_init h name s0" "(fs_step h \<delta> eph name)\<^sup>*\<^sup>* s0 s"
    using assms(1) by (auto simp: fs_reachable_def)
  from this(2,1) show ?thesis by (induction rule: rtranclp_induct) (auto intro: assms)
qed

subsection \<open>Promises of a node\<close>

text \<open>The deadlines up to which a node leads, or will lead once a granted answer is applied.\<close>

fun phase_anchor :: "fs_phase \<Rightarrow> Lease option answer option \<Rightarrow> real option" where
  "phase_anchor (Renewing was m) (Some (Answer (Some l))) = Some m"
| "phase_anchor (Acquiring was m) (Some (Answer (Some l))) = Some m"
| "phase_anchor (Maintaining (Some (l, m))) ans = Some m"
| "phase_anchor (Applying (Some (l, m))) ans = Some m"
| "phase_anchor _ _ = None"

lemma phase_anchor_gain [simp]:
  "phase_anchor (Maintaining g) ans = map_option snd g" "phase_anchor (Applying g) ans = map_option snd g"
  by (cases g; auto)+

definition promised :: "FsBackend \<Rightarrow> fs_phase \<Rightarrow> Lease option answer option \<Rightarrow> real \<Rightarrow> bool" where
  "promised b phase ans d \<longleftrightarrow>
     fs_leader_flag b \<and> \<not> lease_lost b \<and> lease_deadline_mono b = Some d \<or>
     (\<exists>m. phase_anchor phase ans = Some m \<and> d = m + fs_ttl b - SKEW_SECONDS)"

definition file_backs :: "real \<Rightarrow> lease_file \<Rightarrow> string \<Rightarrow> real \<Rightarrow> bool" where
  "file_backs \<delta> f holder d \<longleftrightarrow>
     (\<exists>c m. f = LeaseFile (Some c) m \<and> l_holder c = holder \<and> d + SKEW_SECONDS - \<delta> \<le> l_expires_at c)"

definition kept_promises :: "real \<Rightarrow> real \<Rightarrow> lease_file \<Rightarrow> FsBackend \<Rightarrow> fs_phase \<Rightarrow> Lease option answer option \<Rightarrow> bool" where
  "kept_promises \<delta> now f b phase ans \<longleftrightarrow>
     (\<forall>d. promised b phase ans d \<longrightarrow>
        d \<le> now + fs_ttl b - SKEW_SECONDS \<and> (now < d \<longrightarrow> file_backs \<delta> f (holder_token b) d))"

text \<open>The request of a round was anchored before now, and a node keeps only its own leases.\<close>

fun sent_at :: "fs_phase \<Rightarrow> real option" where
  "sent_at (Renewing was m) = Some m"
| "sent_at (Acquiring was m) = Some m"
| "sent_at _ = None"

definition own_lease :: "string \<Rightarrow> FsBackend \<Rightarrow> Lease \<Rightarrow> bool" where
  "own_lease name b l \<longleftrightarrow> l_name l = name \<and> l_holder l = holder_token b"

definition tidy :: "string \<Rightarrow> real \<Rightarrow> FsBackend \<Rightarrow> fs_phase \<Rightarrow> Lease option answer option \<Rightarrow> bool" where
  "tidy name now b phase ans \<longleftrightarrow>
     (\<forall>m. sent_at phase = Some m \<longrightarrow> m \<le> now) \<and>
     (\<forall>l. fs_lease b = Some l \<longrightarrow> own_lease name b l) \<and>
     (\<forall>l. ans = Some (Answer (Some l)) \<longrightarrow>
        l_name l = name \<and> (sent_at phase \<noteq> None \<longrightarrow> l_holder l = holder_token b)) \<and>
     (phase = Stopped \<longrightarrow> \<not> fs_leader_flag b)"

definition named_file :: "string \<Rightarrow> lease_file \<Rightarrow> bool" where
  "named_file name f \<longleftrightarrow> (\<forall>c m. f = LeaseFile (Some c) m \<longrightarrow> l_name c = name)"

lemma named_file_written: "named_file name (LeaseFile (Some l) m) \<longleftrightarrow> l_name l = name"
  and named_file_absent: "named_file name LeaseAbsent"
  by (simp_all add: named_file_def)

definition fs_inv :: "(string \<Rightarrow> string) \<Rightarrow> real \<Rightarrow> string \<Rightarrow> fs_sys \<Rightarrow> bool" where
  "fs_inv h \<delta> name s \<longleftrightarrow>
     named_file name (y_dir s (fs_safe h name)) \<and> inj (\<lambda>p. holder_token (y_node s p)) \<and>
     (\<forall>p. kept_promises \<delta> (y_now s) (y_dir s (fs_safe h name)) (y_node s p) (y_phase s p) (y_answer s p) \<and>
          tidy name (y_now s) (y_node s p) (y_phase s p) (y_answer s p))"

subsection \<open>What an operation does to the file\<close>

definition lease_write ::
  "real \<Rightarrow> real \<Rightarrow> string \<Rightarrow> string \<Rightarrow> real \<Rightarrow> lease_file \<Rightarrow> lease_file \<Rightarrow> bool" where
  "lease_write \<delta> now name who ttl f f' \<longleftrightarrow>
     f' = f \<or>
     (\<forall>c m. f = LeaseFile (Some c) m \<longrightarrow> l_holder c = who \<or> l_expires_at c \<le> now + \<delta>) \<and>
     (\<exists>c' m'. f' = LeaseFile (Some c') m' \<and> l_holder c' = who \<and> l_name c' = name \<and>
              now - \<delta> + ttl \<le> l_expires_at c')"

definition granted_write :: "real \<Rightarrow> real \<Rightarrow> string \<Rightarrow> string \<Rightarrow> real \<Rightarrow> Lease \<Rightarrow> lease_file \<Rightarrow> bool" where
  "granted_write \<delta> now name who ttl l f' \<longleftrightarrow>
     l_name l = name \<and> l_holder l = who \<and>
     (\<exists>m. f' = LeaseFile (Some l) m) \<and> now - \<delta> + ttl \<le> l_expires_at l"

lemma acquire_sync_write:
  assumes "near \<delta> now (clock env)" and "acquire_sync h env name who ttl dir = (dir', r)"
  shows "lease_write \<delta> now name who ttl (dir (fs_safe h name)) (dir' (fs_safe h name))"
    and "r = Inr (Some l) \<Longrightarrow> granted_write \<delta> now name who ttl l (dir' (fs_safe h name))"
proof -
  obtain f' r' where op: "acquire_file env name who ttl (dir (fs_safe h name)) = (f', r')" by fastforce
  have near: "clock env \<le> now + \<delta>" "now - \<delta> \<le> clock env" using assms(1) by (auto simp: near_def)
  show "lease_write \<delta> now name who ttl (dir (fs_safe h name)) (dir' (fs_safe h name))"
    using assms(2) op near
    by (cases rule: acquire_file_cases [OF op])
      (auto simp: acquire_sync_def lease_write_def Let_def split: if_splits)
  show "granted_write \<delta> now name who ttl l (dir' (fs_safe h name))" if "r = Inr (Some l)"
    using assms(2) op near that
    by (cases rule: acquire_file_cases [OF op])
      (auto simp: acquire_sync_def granted_write_def Let_def split: if_splits)
qed

lemma renew_sync_write:
  assumes "near \<delta> now (clock env)" and "renew_sync h env l0 ttl dir = (dir', r)"
    and "l_name l0 = name" and "l_holder l0 = who"
  shows "lease_write \<delta> now name who ttl (dir (fs_safe h name)) (dir' (fs_safe h name))"
    and "r = Inr (Some l) \<Longrightarrow> granted_write \<delta> now name who ttl l (dir' (fs_safe h name))"
proof -
  obtain f' r' where op: "renew_file env l0 ttl (dir (fs_safe h name)) = (f', r')" by fastforce
  have near: "now - \<delta> \<le> clock env" using assms(1) by (auto simp: near_def)
  show "lease_write \<delta> now name who ttl (dir (fs_safe h name)) (dir' (fs_safe h name))"
    using assms(2-4) op near
    by (cases rule: renew_file_cases [OF op])
      (auto simp: renew_sync_def lease_write_def Let_def split: if_splits)
  show "granted_write \<delta> now name who ttl l (dir' (fs_safe h name))" if "r = Inr (Some l)"
    using assms(2-4) op near that
    by (cases rule: renew_file_cases [OF op])
      (auto simp: renew_sync_def granted_write_def Let_def split: if_splits)
qed

text \<open>
  A write keeps every promise: the writer's own lease is only moved on, and a lease that another
  node may take over has expired on the taker's clock, hence after the deadline of its holder.
\<close>

lemma kept_promises_file:
  assumes "kept_promises \<delta> now f b phase ans"
    and "\<And>d. now < d \<Longrightarrow> d \<le> now + fs_ttl b - SKEW_SECONDS \<Longrightarrow> file_backs \<delta> f (holder_token b) d \<Longrightarrow>
           file_backs \<delta> f' (holder_token b) d"
  shows "kept_promises \<delta> now f' b phase ans"
  using assms by (auto simp: kept_promises_def)

lemma kept_promises_write:
  assumes "kept_promises \<delta> now f b phase ans" and "lease_write \<delta> now name who ttl f f'"
    and "2 * \<delta> \<le> SKEW_SECONDS" and "who = holder_token b \<Longrightarrow> ttl = fs_ttl b"
  shows "kept_promises \<delta> now f' b phase ans"
proof (rule kept_promises_file [OF assms(1)])
  fix d
  assume d: "now < d" "d \<le> now + fs_ttl b - SKEW_SECONDS" "file_backs \<delta> f (holder_token b) d"
  show "file_backs \<delta> f' (holder_token b) d"
  proof (cases "f' = f")
    case False
    with assms(2) obtain c' m' where f': "f' = LeaseFile (Some c') m'" "l_holder c' = who"
      "now - \<delta> + ttl \<le> l_expires_at c'"
      and old: "\<forall>c m. f = LeaseFile (Some c) m \<longrightarrow> l_holder c = who \<or> l_expires_at c \<le> now + \<delta>"
      by (auto simp: lease_write_def)
    have "who = holder_token b" using d old assms(3) by (auto simp: file_backs_def)
    then show ?thesis using f' d(2) assms(4) by (auto simp: file_backs_def)
  qed (use d in simp)
qed

lemma kept_promises_release:
  assumes "kept_promises \<delta> now f b phase ans" and "holder_token b \<noteq> l_holder l"
  shows "kept_promises \<delta> now (release_file env l f) b phase ans"
  by (rule kept_promises_file [OF assms(1)])
    (use release_file_cases [of env l f] assms(2) in \<open>auto simp: file_backs_def\<close>)

lemma kept_promises_gc:
  assumes "kept_promises \<delta> now f b phase ans" and "2 * \<delta> \<le> SKEW_SECONDS" and "cutoff \<le> now + \<delta>"
    and "f' = f \<or> (\<exists>l m. f = LeaseFile (Some l) m \<and> l_expires_at l < cutoff)"
  shows "kept_promises \<delta> now f' b phase ans"
  by (rule kept_promises_file [OF assms(1)]) (use assms(2-4) in \<open>auto simp: file_backs_def\<close>)

lemma kept_promises_later:
  "kept_promises \<delta> now f b phase ans \<Longrightarrow> now \<le> t \<Longrightarrow> kept_promises \<delta> t f b phase ans"
  by (force simp: kept_promises_def)

subsection \<open>What a node does\<close>

text \<open>Only these fields matter to the promises.\<close>

definition lease_core :: "FsBackend \<Rightarrow> string \<times> real \<times> bool \<times> bool \<times> Lease option \<times> real option" where
  "lease_core b =
     (holder_token b, fs_ttl b, fs_leader_flag b, lease_lost b, fs_lease b, lease_deadline_mono b)"

lemma core_promises: "lease_core b' = lease_core b \<Longrightarrow> kept_promises \<delta> now f b' phase ans = kept_promises \<delta> now f b phase ans"
  by (simp add: lease_core_def kept_promises_def promised_def)

lemma core_tidy: "lease_core b' = lease_core b \<Longrightarrow> tidy name now b' phase ans = tidy name now b phase ans"
  by (simp add: lease_core_def tidy_def own_lease_def)

lemma core_reconcile [simp]: "lease_core (reconcile_local_reboot_ran live b) = lease_core b"
  "lease_core (reconcile_observed_reboot_ran live b) = lease_core b"
  by (simp_all add: lease_core_def reconcile_local_reboot_ran_def reconcile_observed_reboot_ran_def)

lemma core_refresh [simp]: "lease_core (maintain_refresh mt mt' live listing b) = lease_core b"
  by (simp add: lease_core_def maintain_refresh_def refresh_reboot_ran_def refresh_failed_def
      note_persisted_def observe_reboot_ran_def Let_def split: option.split)

lemma core_persist_loop:
  "persist_loop h ios live jobs b st = (b', st', ok) \<Longrightarrow> lease_core b' = lease_core b"
proof (induction jobs arbitrary: b st)
  case (Cons job jobs)
  obtain st1 fine where "append_mark h (ios job) live job st = (st1, fine)" by fastforce
  with Cons show ?case by (cases fine) (auto simp: lease_core_def)
qed simp

lemma core_persist:
  assumes "persist_reboot_ran h ios listed envs live b st = (b', st')"
  shows "lease_core b' = lease_core b"
proof -
  have "lease_core (reconcile_local_reboot_ran live b) = lease_core b" by simp
  with assms show ?thesis
    by (auto simp: persist_reboot_ran_def Let_def lease_core_def split: if_splits prod.splits bool.splits
        dest!: core_persist_loop)
qed

lemma core_mark:
  assumes "fs_mark_reboot_ran h ios listed envs live job b st = (b', st')"
  shows "lease_core b' = lease_core b"
proof -
  have "lease_core (reconcile_local_reboot_ran live b) = lease_core b" by simp
  with assms show ?thesis
    by (auto simp: fs_mark_reboot_ran_def Let_def lease_core_def dest!: core_persist)
qed

lemma core_ask [simp]: "lease_core (fst (fs_reboot_ran live job b)) = lease_core b"
  by (simp add: fs_reboot_ran_def base_reboot_ran_def Let_def split: bool.split)

lemma apply_lease_simps [simp]:
  "holder_token (apply_lease l leads mt m b) = holder_token b"
  "fs_ttl (apply_lease l leads mt m b) = fs_ttl b"
  "fs_leader_flag (apply_lease l leads mt m b) = leads"
  "\<not> lease_lost (apply_lease l leads mt m b)"
  "fs_lease (apply_lease l leads mt m b) = (if leads then fs_lease b else None)"
  "lease_deadline_mono (apply_lease l True mt (Some a) b) = Some (a + fs_ttl b - SKEW_SECONDS)"
  by (simp_all add: apply_lease_def apply_round_def Let_def)

lemmas after_defs = after_renew_def after_read_def after_acquire_def after_confirm_def

lemma resume_token [simp]:
  "holder_token (fst (resume mt wall phase ans b)) = holder_token b"
  "fs_ttl (fst (resume mt wall phase ans b)) = fs_ttl b"
  by (auto simp: resume_def after_defs Let_def split: fs_phase.split answer.split option.split)

text \<open>The code between two awaits turns the promise of a granted answer into the same promise.\<close>

lemma resume_promises:
  assumes "promised (fst (resume mt wall phase ans b)) (snd (resume mt wall phase ans b)) None d"
  shows "promised b phase (Some ans) d"
  using assms
  by (auto simp: resume_def after_defs promised_def Let_def
      split: fs_phase.splits answer.splits option.splits if_splits)

lemma resume_tidy:
  assumes "tidy name mt b phase (Some ans)"
  shows "tidy name mt (fst (resume mt wall phase ans b)) (snd (resume mt wall phase ans b)) None"
  using assms
  by (auto simp: resume_def after_defs tidy_def own_lease_def Let_def
      split: fs_phase.splits answer.splits option.splits if_splits)

lemma kept_promises_sub:
  assumes "kept_promises \<delta> now f b phase ans"
    and "\<And>d. promised b' phase' ans' d \<Longrightarrow> promised b phase ans d"
    and "holder_token b' = holder_token b" and "fs_ttl b' = fs_ttl b"
  shows "kept_promises \<delta> now f b' phase' ans'"
  using assms by (auto simp: kept_promises_def)

text \<open>A granted answer is a new promise, backed by what the grant wrote.\<close>

lemma kept_promises_granted:
  assumes "kept_promises \<delta> now f b phase ans" and "sent_at phase = Some m" and "m \<le> now"
    and "\<And>l. ans' = Answer (Some l) \<Longrightarrow> granted_write \<delta> now name (holder_token b) (fs_ttl b) l f"
  shows "kept_promises \<delta> now f b phase (Some ans')"
proof -
  have anchor: "phase_anchor phase (Some ans') = Some a \<Longrightarrow> a = m \<and> (\<exists>l. ans' = Answer (Some l))" for a
    using assms(2) by (cases phase; cases ans') (auto split: option.splits elim: phase_anchor.elims)
  have "d \<le> now + fs_ttl b - SKEW_SECONDS \<and> (now < d \<longrightarrow> file_backs \<delta> f (holder_token b) d)"
    if "promised b phase (Some ans') d" for d
  proof (cases "fs_leader_flag b \<and> \<not> lease_lost b \<and> lease_deadline_mono b = Some d")
    case True
    then show ?thesis using assms(1) by (auto simp: kept_promises_def promised_def)
  next
    case False
    with that anchor obtain l where "d = m + fs_ttl b - SKEW_SECONDS" "ans' = Answer (Some l)"
      by (auto simp: promised_def)
    with assms(3) assms(4) [of l] show ?thesis by (auto simp: granted_write_def file_backs_def)
  qed
  then show ?thesis by (simp add: kept_promises_def)
qed

subsection \<open>The invariant\<close>

lemma fs_inv_init: "fs_init h name s \<Longrightarrow> fs_inv h \<delta> name s"
proof -
  assume init: "fs_init h name s"
  have "kept_promises \<delta> (y_now s) f (y_node s p) Idle None \<and> tidy name (y_now s) (y_node s p) Idle None" for f p
  proof -
    obtain nm token ttl where "y_node s p = new_fs_backend nm token name ttl"
      using init unfolding fs_init_def by metis
    then show ?thesis by (simp add: kept_promises_def promised_def tidy_def new_fs_backend_def)
  qed
  with init show ?thesis by (auto simp: fs_inv_def fs_init_def named_file_def)
qed

lemma fs_inv_named: "fs_inv h \<delta> name s \<Longrightarrow> named_file name (y_dir s (fs_safe h name))"
  by (simp add: fs_inv_def)

text \<open>A step that changes one node and nothing else.\<close>

lemma fs_inv_node:
  assumes "fs_inv h \<delta> name s" and "y_now s' = y_now s"
    and "y_dir s' (fs_safe h name) = y_dir s (fs_safe h name)"
    and "\<And>q. q \<noteq> p \<Longrightarrow> y_node s' q = y_node s q \<and> y_phase s' q = y_phase s q \<and> y_answer s' q = y_answer s q"
    and "holder_token (y_node s' p) = holder_token (y_node s p)"
    and "kept_promises \<delta> (y_now s) (y_dir s (fs_safe h name)) (y_node s p) (y_phase s p) (y_answer s p) \<Longrightarrow>
         tidy name (y_now s) (y_node s p) (y_phase s p) (y_answer s p) \<Longrightarrow>
         kept_promises \<delta> (y_now s) (y_dir s (fs_safe h name)) (y_node s' p) (y_phase s' p) (y_answer s' p) \<and>
         tidy name (y_now s) (y_node s' p) (y_phase s' p) (y_answer s' p)"
  shows "fs_inv h \<delta> name s'"
proof -
  have tokens: "(\<lambda>q. holder_token (y_node s' q)) = (\<lambda>q. holder_token (y_node s q))"
    using assms(4,5) by (metis (full_types))
  have "kept_promises \<delta> (y_now s) (y_dir s (fs_safe h name)) (y_node s' q) (y_phase s' q) (y_answer s' q) \<and>
        tidy name (y_now s) (y_node s' q) (y_phase s' q) (y_answer s' q)" for q
    using assms(1,4,6) by (cases "q = p") (auto simp: fs_inv_def)
  with assms(1-3) tokens show ?thesis by (auto simp: fs_inv_def)
qed

text \<open>A step that changes the file of the lease and at most the answer of one node.\<close>

lemma fs_inv_write:
  assumes inv: "fs_inv h \<delta> name s" and skew: "2 * \<delta> \<le> SKEW_SECONDS"
    and same: "y_now s' = y_now s" "y_node s' = y_node s" "y_phase s' = y_phase s"
    and wr: "lease_write \<delta> (y_now s) name (holder_token (y_node s p)) (fs_ttl (y_node s p))
                  (y_dir s (fs_safe h name)) (y_dir s' (fs_safe h name))"
    and others: "\<And>q. q \<noteq> p \<Longrightarrow> y_answer s' q = y_answer s q"
    and answer: "y_answer s' p = y_answer s p \<or>
      (\<exists>m ans. y_answer s' p = Some ans \<and> sent_at (y_phase s p) = Some m \<and>
        (\<forall>l. ans = Answer (Some l) \<longrightarrow>
           granted_write \<delta> (y_now s) name (holder_token (y_node s p)) (fs_ttl (y_node s p)) l
             (y_dir s' (fs_safe h name))))"
  shows "fs_inv h \<delta> name s'"
proof -
  let ?f' = "y_dir s' (fs_safe h name)"
  have inj: "inj (\<lambda>p. holder_token (y_node s p))" using inv by (simp add: fs_inv_def)
  have kept: "kept_promises \<delta> (y_now s) ?f' (y_node s q) (y_phase s q) (y_answer s q)" for q
  proof (rule kept_promises_write [OF _ wr skew])
    show "kept_promises \<delta> (y_now s) (y_dir s (fs_safe h name)) (y_node s q) (y_phase s q) (y_answer s q)"
      using inv by (simp add: fs_inv_def)
    show "fs_ttl (y_node s p) = fs_ttl (y_node s q)" if "holder_token (y_node s p) = holder_token (y_node s q)"
      using injD [OF inj that] by simp
  qed
  have tidy: "tidy name (y_now s) (y_node s q) (y_phase s q) (y_answer s q)" for q
    using inv by (simp add: fs_inv_def)
  have "kept_promises \<delta> (y_now s) ?f' (y_node s q) (y_phase s q) (y_answer s' q) \<and>
        tidy name (y_now s) (y_node s q) (y_phase s q) (y_answer s' q)" for q
  proof (cases "y_answer s' q = y_answer s q")
    case False
    with others have q: "q = p" by blast
    with False answer obtain m ans where ans: "y_answer s' p = Some ans" "sent_at (y_phase s p) = Some m"
      "\<And>l. ans = Answer (Some l) \<Longrightarrow>
         granted_write \<delta> (y_now s) name (holder_token (y_node s p)) (fs_ttl (y_node s p)) l ?f'" by blast
    have "m \<le> y_now s" using tidy [of p] ans(2) by (simp add: tidy_def)
    from kept_promises_granted [OF kept ans(2) this ans(3)] tidy [of p] ans
    show ?thesis unfolding q by (auto simp: tidy_def granted_write_def)
  qed (use kept tidy in simp)
  moreover have "named_file name ?f'"
    using wr inv by (auto simp: fs_inv_def lease_write_def named_file_def)
  ultimately show ?thesis using inj same by (simp add: fs_inv_def)
qed

text \<open>The steps of the nodes, and those of the store.\<close>

lemma core_token: "lease_core b' = lease_core b \<Longrightarrow> holder_token b' = holder_token b"
  by (simp add: lease_core_def)

lemma promised_mono_answer:
  "promised b phase None d \<Longrightarrow> promised b phase ans d"
  by (cases phase) (auto simp: promised_def)

lemma fs_inv_core:
  assumes "fs_inv h \<delta> name s" and "lease_core b = lease_core (y_node s p)"
  shows "fs_inv h \<delta> name (s\<lparr>y_node := (y_node s)(p := b), y_recs := recs\<rparr>)"
    and "fs_inv h \<delta> name (s\<lparr>y_node := (y_node s)(p := b)\<rparr>)"
  by (rule fs_inv_node [OF assms(1), of _ p];
      simp add: core_token [OF assms(2)] core_promises [OF assms(2)] core_tidy [OF assms(2)])+

lemma fs_inv_resume:
  assumes "fs_inv h \<delta> name s" and "y_answer s p = Some ans"
  shows "fs_inv h \<delta> name (note_gain p (put_node p (resume (y_now s) wall (y_phase s p) ans (y_node s p)) s))"
proof -
  let ?r = "resume (y_now s) wall (y_phase s p) ans (y_node s p)"
  have "fs_inv h \<delta> name (put_node p ?r s)"
  proof (rule fs_inv_node [OF assms(1), of _ p])
    assume kept: "kept_promises \<delta> (y_now s) (y_dir s (fs_safe h name)) (y_node s p) (y_phase s p) (y_answer s p)"
      and tidy: "tidy name (y_now s) (y_node s p) (y_phase s p) (y_answer s p)"
    have "kept_promises \<delta> (y_now s) (y_dir s (fs_safe h name)) (fst ?r) (snd ?r) None"
      by (rule kept_promises_sub [OF kept]) (use resume_promises assms(2) in auto)
    moreover have "tidy name (y_now s) (fst ?r) (snd ?r) None"
      using tidy assms(2) by (auto intro: resume_tidy)
    ultimately show "kept_promises \<delta> (y_now s) (y_dir s (fs_safe h name)) (y_node (put_node p ?r s) p)
        (y_phase (put_node p ?r s) p) (y_answer (put_node p ?r s) p) \<and>
      tidy name (y_now s) (y_node (put_node p ?r s) p) (y_phase (put_node p ?r s) p) (y_answer (put_node p ?r s) p)"
      by (simp add: put_node_def)
  qed (simp_all add: put_node_def)
  then show ?thesis
    by (auto simp: note_gain_def fs_inv_def split: fs_phase.split option.split)
qed

text \<open>A new phase that promises nothing beyond the old one.\<close>

lemma fs_inv_put:
  assumes "fs_inv h \<delta> name s" and "holder_token b = holder_token (y_node s p)"
    and "fs_ttl b = fs_ttl (y_node s p)"
    and "\<And>d. promised b phase None d \<Longrightarrow> promised (y_node s p) (y_phase s p) (y_answer s p) d"
    and "tidy name (y_now s) (y_node s p) (y_phase s p) (y_answer s p) \<Longrightarrow> tidy name (y_now s) b phase None"
  shows "fs_inv h \<delta> name (put_node p (b, phase) s)"
  by (rule fs_inv_node [OF assms(1), of _ p])
    (use assms in \<open>auto simp: put_node_def intro: kept_promises_sub\<close>)

lemma fs_inv_extra [simp]:
  "fs_inv h \<delta> name (s\<lparr>y_recs := recs\<rparr>) = fs_inv h \<delta> name s"
  "fs_inv h \<delta> name (s\<lparr>y_listed := ls\<rparr>) = fs_inv h \<delta> name s"
  "fs_inv h \<delta> name (s\<lparr>y_live := lv\<rparr>) = fs_inv h \<delta> name s"
  by (simp_all add: fs_inv_def)

lemma fs_inv_maintain:
  assumes "fs_inv h \<delta> name s" and "y_phase s p = Maintaining gain" and "lease_core b = lease_core (y_node s p)"
  shows "fs_inv h \<delta> name (put_node p (b, Applying gain) s)"
proof (rule fs_inv_put [OF assms(1)])
  show "holder_token b = holder_token (y_node s p)" "fs_ttl b = fs_ttl (y_node s p)"
    using assms(3) by (simp_all add: lease_core_def)
  show "promised (y_node s p) (y_phase s p) (y_answer s p) d" if "promised b (Applying gain) None d" for d
    using that assms(2,3) by (auto simp: promised_def lease_core_def)
  show "tidy name (y_now s) b (Applying gain) None" if "tidy name (y_now s) (y_node s p) (y_phase s p) (y_answer s p)"
    using that assms(3) by (auto simp: tidy_def lease_core_def own_lease_def)
qed

lemma fs_inv_apply:
  assumes "fs_inv h \<delta> name s" and "y_phase s p = Applying gain"
  shows "fs_inv h \<delta> name (put_node p (after_maintain (y_now s) gain (y_node s p)) s)"
proof -
  obtain b phase where r: "after_maintain (y_now s) gain (y_node s p) = (b, phase)" by fastforce
  show ?thesis unfolding r
    by (rule fs_inv_put [OF assms(1)])
      (use r assms(2) in \<open>auto simp: after_maintain_def promised_def tidy_def own_lease_def split: option.splits\<close>)
qed

lemma fs_inv_release:
  assumes inv: "fs_inv h \<delta> name s" and stopped: "y_phase s p = Stopped" and l: "l_name l = name"
    "l_holder l = holder_token (y_node s p)" and op: "release_sync h env l (y_dir s) = (dir, r)"
  shows "fs_inv h \<delta> name (s\<lparr>y_dir := dir\<rparr>)"
proof (cases "lock_ok env")
  case True
  let ?f = "y_dir s (fs_safe h name)"
  have f': "dir (fs_safe h name) = release_file env l ?f"
    using op True l by (auto simp: release_sync_def Let_def)
  have "kept_promises \<delta> (y_now s) (release_file env l ?f) (y_node s q) (y_phase s q) (y_answer s q)" for q
  proof (cases "q = p")
    case True
    have "\<not> fs_leader_flag (y_node s p)" using inv stopped by (auto simp: fs_inv_def tidy_def)
    with True stopped show ?thesis by (simp add: kept_promises_def promised_def)
  next
    case False
    have "inj (\<lambda>p. holder_token (y_node s p))" using inv by (simp add: fs_inv_def)
    with False l(2) have "holder_token (y_node s q) \<noteq> l_holder l" by (metis injD)
    with inv show ?thesis by (simp add: fs_inv_def kept_promises_release)
  qed
  moreover have "named_file name (release_file env l ?f)"
    using release_file_cases [of env l ?f] fs_inv_named [OF inv] l(1)
    by (elim disjE conjE) (simp_all add: named_file_written)
  ultimately show ?thesis using inv f' by (simp add: fs_inv_def)
next
  case False
  with op have "dir = y_dir s" by (simp add: release_sync_def)
  with inv show ?thesis by (simp add: fs_inv_def)
qed

lemma fs_inv_collect:
  assumes inv: "fs_inv h \<delta> name s" and skew: "2 * \<delta> \<le> SKEW_SECONDS"
    and c: "near \<delta> (y_now s) reading" "cutoff \<le> reading"
    and op: "gc_leases_sync envs cutoff dry_run eph listing (y_dir s) = (dir, n)"
  shows "fs_inv h \<delta> name (s\<lparr>y_dir := dir\<rparr>)"
proof -
  let ?f = "y_dir s (fs_safe h name)"
  have f': "dir (fs_safe h name) = ?f \<or>
      dir (fs_safe h name) = LeaseAbsent \<and> (\<exists>l m. ?f = LeaseFile (Some l) m \<and> l_expires_at l < cutoff)"
    using gc_leases_file [OF op, of "fs_safe h name"] by blast
  have "kept_promises \<delta> (y_now s) (dir (fs_safe h name)) (y_node s q) (y_phase s q) (y_answer s q)" for q
  proof -
    have "kept_promises \<delta> (y_now s) ?f (y_node s q) (y_phase s q) (y_answer s q)" using inv by (simp add: fs_inv_def)
    moreover have "cutoff \<le> y_now s + \<delta>" using c by (simp add: near_def)
    moreover have "dir (fs_safe h name) = ?f \<or> (\<exists>l m. ?f = LeaseFile (Some l) m \<and> l_expires_at l < cutoff)"
      using f' by blast
    ultimately show ?thesis by (rule kept_promises_gc [OF _ skew])
  qed
  moreover have "named_file name (dir (fs_safe h name))"
    using fs_inv_named [OF inv] f' by (elim disjE conjE) (simp_all only: named_file_absent)
  ultimately show ?thesis using inv by (simp add: fs_inv_def)
qed

lemma fs_inv_step:
  assumes "fs_inv h \<delta> name s" and "fs_step h \<delta> eph name s s'" and "2 * \<delta> \<le> SKEW_SECONDS"
  shows "fs_inv h \<delta> name s'"
  using assms(2)
proof cases
  case (begin_round p)
  show ?thesis unfolding begin_round(1)
    by (rule fs_inv_put [OF assms(1)])
      (use begin_round(2) in \<open>auto simp: start_round_def promised_def tidy_def own_lease_def split: if_splits\<close>)
next
  case (land_renew p was m env l dir r ans)
  have own: "l_name l = name" "l_holder l = holder_token (y_node s p)"
    using assms(1) land_renew(5) by (auto simp: fs_inv_def tidy_def own_lease_def)
  note op = renew_sync_write [OF land_renew(4,6) own]
  show ?thesis unfolding land_renew(1)
    by (rule fs_inv_write [OF assms(1,3), of _ p])
      (use land_renew op in \<open>auto split: sum.splits\<close>)
next
  case (land_acquire p was m env dir r ans)
  note op = acquire_sync_write [OF land_acquire(4,5)]
  show ?thesis unfolding land_acquire(1)
    by (rule fs_inv_write [OF assms(1,3), of _ p])
      (use land_acquire op in \<open>auto split: sum.splits\<close>)
next
  case (land_read p was ans env)
  have named: "l_name l = name" if "read_lease h env name (y_dir s) = Some l" for l
    using that fs_inv_named [OF assms(1)]
    by (auto simp: read_lease_def read_lease_file_def named_file_def
        split: if_splits option.splits lease_file.splits sum.splits)
  show ?thesis unfolding land_read(1)
    by (rule fs_inv_node [OF assms(1), of _ p])
      (use land_read named in \<open>auto simp: tidy_def kept_promises_def promised_def\<close>)
next
  case (time_out p)
  show ?thesis unfolding time_out(1)
    by (rule fs_inv_node [OF assms(1), of _ p])
      (use time_out in \<open>auto simp: asking_def tidy_def kept_promises_def promised_def split: fs_phase.splits\<close>)
next
  case (stray env p dir r l)
  have "lease_write \<delta> (y_now s) name (holder_token (y_node s p)) (fs_ttl (y_node s p))
          (y_dir s (fs_safe h name)) (dir (fs_safe h name))"
    using stray(3) acquire_sync_write(1) [OF stray(2)] renew_sync_write(1) [OF stray(2)] by blast
  then show ?thesis unfolding stray(1) by (intro fs_inv_write [OF assms(1,3), of _ p]) auto
next
  case (resume_round p ans wall)
  then show ?thesis using fs_inv_resume [OF assms(1)] by simp
next
  case (maintain p gain mt listed envs answered recs listing b1 ios listed' envs' b2 recs')
  then have "lease_core b2 = lease_core (y_node s p)" by (simp add: core_persist)
  then show ?thesis using fs_inv_maintain [OF assms(1) maintain(2)] maintain(1)
    by (simp add: put_node_def fs_inv_def)
next
  case (apply_gain p gain)
  then show ?thesis using fs_inv_apply [OF assms(1)] by simp
next
  case (abandon_round p)
  show ?thesis unfolding abandon_round(1)
    by (rule fs_inv_put [OF assms(1)]) (auto simp: promised_def tidy_def own_lease_def)
next
  case (mark ios listed envs p job b recs)
  then show ?thesis using fs_inv_core(1) [OF assms(1) core_mark [OF mark(2)]] by simp
next
  case (ask p job b)
  then show ?thesis using fs_inv_core(2) [OF assms(1), of b p] by auto
next
  case (reload p live)
  then show ?thesis using assms(1) by simp
next
  case (stop p)
  show ?thesis unfolding stop
    by (rule fs_inv_put [OF assms(1)]) (auto simp: promised_def tidy_def own_lease_def fs_stop_def)
next
  case (release p l env dir r)
  then show ?thesis using fs_inv_release [OF assms(1)] by blast
next
  case (collect reading cutoff envs dry_run listing dir n)
  then show ?thesis using fs_inv_collect [OF assms(1,3)] by blast
next
  case (elsewhere dir recs)
  then show ?thesis using assms(1) by (simp add: fs_inv_def)
next
  case (tick t)
  then show ?thesis using assms(1) kept_promises_later by (fastforce simp: fs_inv_def tidy_def)
qed

lemma fs_reachable_inv:
  assumes "fs_reachable h \<delta> eph name s" and "2 * \<delta> \<le> SKEW_SECONDS"
  shows "fs_inv h \<delta> name s"
  using assms(1) by (induction rule: fs_reachable_induct) (auto intro: fs_inv_init fs_inv_step assms(2))

text \<open>A node that leads is named by the lease on the mount.\<close>

lemma leader_holds_lease:
  assumes "fs_inv h \<delta> name s" and "fs_is_leader (y_now s) (y_node s p)"
  shows "\<exists>c m. y_dir s (fs_safe h name) = LeaseFile (Some c) m \<and> l_holder c = holder_token (y_node s p)"
proof -
  obtain d where "promised (y_node s p) (y_phase s p) (y_answer s p) d" "y_now s < d"
    using assms(2) by (auto simp: fs_is_leader_def before_deadline_def promised_def split: if_splits option.splits)
  moreover have "kept_promises \<delta> (y_now s) (y_dir s (fs_safe h name)) (y_node s p) (y_phase s p) (y_answer s p)"
    using assms(1) by (simp add: fs_inv_def)
  ultimately have "file_backs \<delta> (y_dir s (fs_safe h name)) (holder_token (y_node s p)) d"
    by (simp add: kept_promises_def)
  then show ?thesis by (auto simp: file_backs_def)
qed

text \<open>The mount as a fenced backend.\<close>

definition holder_on_mount :: "(string \<Rightarrow> string) \<Rightarrow> string \<Rightarrow> fs_sys \<Rightarrow> string option" where
  "holder_on_mount h name s =
     (case y_dir s (fs_safe h name) of LeaseFile (Some c) _ \<Rightarrow> Some (l_holder c) | _ \<Rightarrow> None)"

interpretation mount: single_holder "fs_inv h \<delta> name" "\<lambda>s p. fs_is_leader (y_now s) (y_node s p)"
  "\<lambda>s p. holder_token (y_node s p)" "holder_on_mount h name" for h \<delta> name
proof
  show "holder_on_mount h name s = Some (holder_token (y_node s p))"
    if "fs_inv h \<delta> name s" and "fs_is_leader (y_now s) (y_node s p)" for s p
    using leader_holds_lease [OF that] by (auto simp: holder_on_mount_def)
  show "p = q" if "fs_inv h \<delta> name s" and "holder_token (y_node s p) = holder_token (y_node s q)" for s p q
    using that by (auto simp: fs_inv_def inj_def)
qed

end
