(* ===== verification/FsReboot.thy ===== *)
theory FsReboot
  imports FsLeaders
begin

text \<open>
  What stands behind a leader's answer that a one-shot has not run: a listing of the marks completed
  after the lease of its leadership was granted; and a campaign that meets no live holder and a
  healthy store ends in leadership, which also gives concrete runs of the system.
\<close>

subsection \<open>Marks that were read\<close>

definition keeps_marks :: "FsBackend \<Rightarrow> FsBackend \<Rightarrow> bool" where
  "keeps_marks b b' \<longleftrightarrow>
     (reboot_ran_synced b' \<longrightarrow> reboot_ran_synced b) \<and>
     (\<forall>i. lb_reboot_ran_job_set_id b' = Some i \<longrightarrow>
        lb_reboot_ran_job_set_id b = Some i \<and> lb_reboot_ran b' = lb_reboot_ran b)"

definition marks_read :: "real \<Rightarrow> (real \<times> string \<times> body list) option \<Rightarrow> FsBackend \<Rightarrow> bool" where
  "marks_read gained listed b \<longleftrightarrow>
     (reboot_ran_synced b \<longrightarrow>
        (\<exists>t live recs. listed = Some (t, live, recs) \<and> gained \<le> t \<and>
           (\<forall>i. lb_reboot_ran_job_set_id b = Some i \<longrightarrow> i = live \<and> lb_reboot_ran b = ran_jobs live recs)))"

definition reboot_inv :: "fs_sys \<Rightarrow> bool" where
  "reboot_inv s \<longleftrightarrow>
     (\<forall>p. y_gained s p \<le> y_now s \<and> (y_answer s p \<noteq> None \<longrightarrow> asking (y_phase s p)) \<and>
          marks_read (y_gained s p) (y_listed s p) (y_node s p))"

lemma keeps_marks_refl [simp]: "keeps_marks b b"
  by (simp add: keeps_marks_def)

lemma keeps_marks_trans: "keeps_marks b b' \<Longrightarrow> keeps_marks b' b'' \<Longrightarrow> keeps_marks b b''"
  by (auto simp: keeps_marks_def)

lemma keeps_marks_reconcile [simp]:
  "keeps_marks b (reconcile_local_reboot_ran live b)" "keeps_marks b (reconcile_observed_reboot_ran live b)"
  by (auto simp: keeps_marks_def reconcile_local_reboot_ran_def reconcile_observed_reboot_ran_def)

lemma keeps_marks_persist_loop:
  "persist_loop h ios live jobs b st = (b', st', ok) \<Longrightarrow> keeps_marks b b'"
proof (induction jobs arbitrary: b st)
  case (Cons job jobs)
  obtain st1 fine where step: "append_mark h (ios job) live job st = (st1, fine)" by fastforce
  show ?case
  proof (cases fine)
    case True
    with Cons.prems step Cons.IH have "keeps_marks (b\<lparr>reboot_persisted := insert job (reboot_persisted b)\<rparr>) b'"
      by simp
    then show ?thesis by (simp add: keeps_marks_def)
  qed (use Cons.prems step in simp)
qed simp

lemma keeps_marks_persist:
  assumes "persist_reboot_ran h ios listed envs live b st = (b', st')"
  shows "keeps_marks b b'"
proof -
  let ?b1 = "reconcile_local_reboot_ran live b"
  let ?b2 = "if reboot_persisted_job_set_id ?b1 \<noteq> Some live
             then ?b1\<lparr>reboot_persisted := {}, reboot_persisted_job_set_id := Some live\<rparr> else ?b1"
  have "keeps_marks b ?b1" by simp
  then have b2: "keeps_marks b ?b2" by (simp add: keeps_marks_def)
  show ?thesis
  proof (cases "lb_reboot_ran_local ?b2 - reboot_persisted ?b2 = {}")
    case True
    with assms b2 show ?thesis by (simp add: persist_reboot_ran_def Let_def)
  next
    case False
    obtain b3 st3 ok where loop:
      "persist_loop h ios live (sorted_list_of_set (lb_reboot_ran_local ?b2 - reboot_persisted ?b2)) ?b2 st = (b3, st3, ok)"
      using prod_cases3 by blast
    with assms False have "b' = b3" by (cases ok) (simp_all add: persist_reboot_ran_def Let_def)
    with keeps_marks_trans [OF b2 keeps_marks_persist_loop [OF loop]] show ?thesis by simp
  qed
qed

lemma keeps_marks_mark:
  assumes "fs_mark_reboot_ran h ios listed envs live job b st = (b', st')"
  shows "keeps_marks b b'"
proof -
  have "keeps_marks b (reconcile_local_reboot_ran live b)" by simp
  then show ?thesis using assms keeps_marks_persist
    by (fastforce simp: fs_mark_reboot_ran_def Let_def keeps_marks_def)
qed

lemma keeps_marks_ask: "keeps_marks b (fst (fs_reboot_ran live job b))"
proof -
  have "keeps_marks b (reconcile_observed_reboot_ran live (reconcile_local_reboot_ran live b))"
    by (rule keeps_marks_trans [of _ "reconcile_local_reboot_ran live b"]) simp_all
  then show ?thesis by (simp add: fs_reboot_ran_def base_reboot_ran_def Let_def split: bool.split)
qed

lemma keeps_marks_apply [simp]: "keeps_marks b (apply_lease l leads mt m b)"
  by (simp add: keeps_marks_def apply_lease_def apply_round_def Let_def)

lemma keeps_marks_resume: "keeps_marks b (fst (resume mt wall phase ans b))"
  by (auto simp: resume_def after_defs keeps_marks_def apply_lease_def apply_round_def Let_def
      split: fs_phase.split answer.split option.split)

lemma resume_gain_unsynced:
  assumes "asking phase" and "snd (resume mt wall phase ans b) = Maintaining (Some g)"
  shows "\<not> reboot_ran_synced (fst (resume mt wall phase ans b))"
  using assms
  by (auto simp: asking_def resume_def after_defs Let_def
      split: fs_phase.splits answer.splits option.splits if_splits)

lemma asking_simps [simp]: "asking (Renewing was m)" "asking (Reading was)" "asking (Acquiring was m)" "asking Confirming"
  by (simp_all add: asking_def)

lemma marks_read_keeps: "marks_read g l b \<Longrightarrow> keeps_marks b b' \<Longrightarrow> marks_read g l b'"
  by (force simp: marks_read_def keeps_marks_def)

lemma marks_read_refresh:
  assumes "marks_read g l b" and "g \<le> now" and "listing \<noteq> None \<Longrightarrow> refresh_due mt b"
  shows "marks_read g (case listing of Some r \<Rightarrow> Some (now, live, r) | None \<Rightarrow> l)
           (maintain_refresh mt now live listing b)"
proof (cases listing)
  case None
  then have "keeps_marks b (maintain_refresh mt now live listing b)"
    by (simp add: maintain_refresh_def refresh_failed_def keeps_marks_def)
  with assms(1) None show ?thesis by (auto intro: marks_read_keeps)
next
  case (Some r)
  then show ?thesis using assms(2,3)
    by (auto simp: marks_read_def maintain_refresh_def refresh_reboot_ran_def note_persisted_def
        observe_reboot_ran_def Let_def)
qed

text \<open>A step of one node that keeps the marks, the listing and the time of the gain.\<close>

lemma reboot_inv_node:
  assumes "reboot_inv s" and "y_now s' = y_now s" and "y_gained s' = y_gained s" and "y_listed s' = y_listed s"
    and "\<And>q. keeps_marks (y_node s q) (y_node s' q)"
    and "\<And>q. y_answer s' q \<noteq> None \<Longrightarrow> asking (y_phase s' q)"
  shows "reboot_inv s'"
  using assms by (auto simp: reboot_inv_def intro: marks_read_keeps)

lemma keeps_marks_put:
  "keeps_marks (y_node s p) b \<Longrightarrow> keeps_marks (y_node s q) (((y_node s)(p := b)) q)"
  by simp

lemma reboot_inv_resume:
  assumes inv: "reboot_inv s" and ans: "y_answer s p = Some ans"
  shows "reboot_inv (note_gain p (put_node p (resume (y_now s) wall (y_phase s p) ans (y_node s p)) s))"
proof -
  let ?r = "resume (y_now s) wall (y_phase s p) ans (y_node s p)"
  let ?s = "put_node p ?r s"
  have asks: "asking (y_phase s p)" using inv ans by (auto simp: reboot_inv_def)
  have put: "reboot_inv ?s"
    by (rule reboot_inv_node [OF inv])
      (use inv in \<open>auto simp: put_node_def reboot_inv_def keeps_marks_resume\<close>)
  show ?thesis
  proof (cases "\<exists>g. y_phase ?s p = Maintaining (Some g)")
    case True
    then obtain g where g: "snd ?r = Maintaining (Some g)" by (auto simp: put_node_def)
    have "note_gain p ?s = ?s\<lparr>y_gained := (y_gained s)(p := y_now s)\<rparr>"
      using g by (simp add: note_gain_def put_node_def)
    moreover have "marks_read t l (y_node ?s p)" for t l
      using resume_gain_unsynced [OF asks g] by (simp add: marks_read_def put_node_def)
    ultimately show ?thesis using inv by (simp add: reboot_inv_def put_node_def)
  next
    case False
    then have "note_gain p ?s = ?s" by (auto simp: note_gain_def split: fs_phase.split option.split)
    with put show ?thesis by simp
  qed
qed

lemma reboot_inv_maintain:
  assumes inv: "reboot_inv s" and "listing \<noteq> None \<Longrightarrow> refresh_due mt (y_node s p)"
    and "persist_reboot_ran h ios listed envs (y_live s p)
           (maintain_refresh mt (y_now s) (y_live s p) listing (y_node s p)) recs = (b, recs')"
  shows "reboot_inv ((put_node p (b, Applying gain) s)
    \<lparr>y_recs := recs',
     y_listed := (case listing of Some l \<Rightarrow> (y_listed s)(p \<mapsto> (y_now s, y_live s p, l)) | None \<Rightarrow> y_listed s)\<rparr>)"
proof -
  have "marks_read (y_gained s p) (y_listed s p) (y_node s p)" "y_gained s p \<le> y_now s"
    using inv by (simp_all add: reboot_inv_def)
  from marks_read_keeps [OF marks_read_refresh [OF this assms(2)] keeps_marks_persist [OF assms(3)]]
  have "marks_read (y_gained s p)
      (case listing of Some r \<Rightarrow> Some (y_now s, y_live s p, r) | None \<Rightarrow> y_listed s p) b" .
  with inv show ?thesis by (auto simp: reboot_inv_def put_node_def split: option.splits)
qed

lemma reboot_inv_init: "fs_init h name s \<Longrightarrow> reboot_inv s"
proof -
  assume init: "fs_init h name s"
  have "\<not> reboot_ran_synced (y_node s p)" for p
  proof -
    obtain nm token ttl where "y_node s p = new_fs_backend nm token name ttl"
      using init unfolding fs_init_def by metis
    then show ?thesis by (simp add: new_fs_backend_def)
  qed
  with init show ?thesis by (simp add: reboot_inv_def marks_read_def fs_init_def)
qed

lemma reboot_inv_step:
  assumes inv: "reboot_inv s" and step: "fs_step h \<delta> eph name s s'"
  shows "reboot_inv s'"
proof -
  have answered: "\<And>q. y_answer s q \<noteq> None \<Longrightarrow> asking (y_phase s q)" using inv by (auto simp: reboot_inv_def)
  from step show ?thesis
  proof cases
    case (resume_round p ans wall)
    then show ?thesis using reboot_inv_resume [OF inv] by simp
  next
    case (maintain p gain mt listed envs answered recs listing b1 ios listed' envs' b2 recs')
    from maintain(4) have "listing \<noteq> None \<Longrightarrow> refresh_due mt (y_node s p)" by (auto split: if_splits)
    from reboot_inv_maintain [OF inv this] maintain(5,6) show ?thesis unfolding maintain(1) by blast
  next
    case (apply_gain p gain)
    have "keeps_marks (y_node s p) (fst (after_maintain (y_now s) gain (y_node s p)))"
      by (simp add: after_maintain_def split: option.split)
    with apply_gain show ?thesis
      by (intro reboot_inv_node [OF inv]) (use answered in \<open>auto simp: put_node_def\<close>)
  next
    case (mark ios listed envs p job b recs)
    with keeps_marks_mark [OF mark(2)] show ?thesis
      by (intro reboot_inv_node [OF inv]) (use answered in auto)
  next
    case (ask p job b)
    with keeps_marks_ask show ?thesis
      by (intro reboot_inv_node [OF inv]) (use answered in auto)
  next
    case (stop p)
    then show ?thesis
      by (intro reboot_inv_node [OF inv]) (use answered in \<open>auto simp: put_node_def fs_stop_def keeps_marks_def\<close>)
  next
    case (tick t)
    then show ?thesis using inv by (auto simp: reboot_inv_def intro: order_trans)
  qed (use answered in \<open>auto simp: put_node_def intro!: reboot_inv_node [OF inv] split: if_splits\<close>)
qed

lemma fs_reachable_reboot: "fs_reachable h \<delta> eph name s \<Longrightarrow> reboot_inv s"
  by (induction rule: fs_reachable_induct) (auto intro: reboot_inv_init reboot_inv_step)

subsection \<open>A campaign\<close>

lemma persist_nothing:
  assumes "persist_reboot_ran h ios listed envs live b st = (b', st')" and "lb_reboot_ran_local b = {}"
  shows "reboot_ran_synced b' = reboot_ran_synced b" "lb_reboot_ran_job_set_id b' = lb_reboot_ran_job_set_id b"
    "lb_reboot_ran b' = lb_reboot_ran b" "lb_reboot_ran_local b' = {}"
  using assms by (auto simp: persist_reboot_ran_def reconcile_local_reboot_ran_def Let_def split: if_splits)

text \<open>An empty stream of marks reads as an empty listing.\<close>

definition unmarked :: "(string \<Rightarrow> string) \<Rightarrow> string \<Rightarrow> fs_sys \<Rightarrow> bool" where
  "unmarked h p s \<longleftrightarrow>
     rs_streams (y_recs s) (fs_safe h REBOOT_RAN_STREAM) = None \<and> lb_reboot_ran_local (y_node s p) = {}"

definition read_nothing :: "string \<Rightarrow> fs_sys \<Rightarrow> bool" where
  "read_nothing p s \<longleftrightarrow>
     reboot_ran_synced (y_node s p) \<and> lb_reboot_ran_job_set_id (y_node s p) = Some (y_live s p) \<and>
     lb_reboot_ran (y_node s p) = {} \<and> lb_reboot_ran_local (y_node s p) = {}"

lemma maintain_possible:
  assumes phase: "y_phase s p = Maintaining gain"
  obtains b s' where "fs_step h \<delta> eph name s s'" and "lease_core b = lease_core (y_node s p)"
    and "y_node s' = (y_node s)(p := b)" and "y_phase s' = (y_phase s)(p := Applying gain)"
    and "y_answer s' = (y_answer s)(p := None)" and "y_dir s' = y_dir s" and "y_now s' = y_now s"
    and "unmarked h p s \<and> refresh_due (y_now s) (y_node s p) \<longrightarrow> read_nothing p s'"
proof -
  obtain recs listing where l:
    "(if refresh_due (y_now s) (y_node s p) then list_marks h True envs True (y_recs s) else (y_recs s, None)) =
      (recs, listing)" by fastforce
  let ?b1 = "maintain_refresh (y_now s) (y_now s) (y_live s p) listing (y_node s p)"
  obtain b recs' where b: "persist_reboot_ran h ios False envs (y_live s p) ?b1 recs = (b, recs')" by fastforce
  have core: "lease_core b = lease_core (y_node s p)" using core_persist [OF b] by simp
  have marks: "reboot_ran_synced b \<and> lb_reboot_ran_job_set_id b = Some (y_live s p) \<and>
      lb_reboot_ran b = {} \<and> lb_reboot_ran_local b = {}"
    if "unmarked h p s" and due: "refresh_due (y_now s) (y_node s p)"
  proof -
    have "listing = Some []" using that l by (auto simp: list_marks_def list_sync_def unmarked_def)
    with due have b1: "?b1 = refresh_reboot_ran (y_now s) (y_live s p) [] (y_node s p)"
      by (simp add: maintain_refresh_def)
    have "reboot_ran_synced ?b1" "lb_reboot_ran_job_set_id ?b1 = Some (y_live s p)" "lb_reboot_ran ?b1 = {}"
      "lb_reboot_ran_local ?b1 = {}"
      using that(1) unfolding b1
      by (auto simp: refresh_reboot_ran_def note_persisted_def observe_reboot_ran_def ran_jobs_def
          map_filter_def unmarked_def Let_def)
    with persist_nothing [OF b] show ?thesis by simp
  qed
  from fs_step.maintain [OF phase order_refl l refl b] core show thesis
    by (rule that) (simp_all add: put_node_def read_nothing_def marks)
qed

text \<open>
  A node that sees no lease and whose acquire is granted ends its round as the leader, and no other
  node is touched.
\<close>

lemma campaign_wins:
  assumes idle: "y_phase s p = Idle" "fs_lease (y_node s p) = None" "\<not> fs_leader_flag (y_node s p)"
    and unseen: "read_lease h renv name (y_dir s) = None"
    and won: "near \<delta> (y_now s) (clock env)"
      "acquire_sync h env name (holder_token (y_node s p)) (fs_ttl (y_node s p)) (y_dir s) = (dir, Inr (Some l))"
    and ttl: "SKEW_SECONDS < fs_ttl (y_node s p)"
  obtains s' where "(fs_step h \<delta> eph name)\<^sup>*\<^sup>* s s'" and "fs_is_leader (y_now s) (y_node s' p)"
    and "unmarked h p s \<Longrightarrow> read_nothing p s'" and "y_now s' = y_now s" and "y_dir s' = dir" and "y_phase s' p = Idle"
    and "\<And>q. q \<noteq> p \<Longrightarrow> y_node s' q = y_node s q \<and> y_phase s' q = y_phase s q"
    and "lease_deadline_mono (y_node s' p) = Some (y_now s + fs_ttl (y_node s p) - SKEW_SECONDS)"
proof -
  let ?b = "y_node s p" and ?now = "y_now s"
  let ?s1 = "put_node p (?b, Reading False) s"
  let ?s2 = "?s1\<lparr>y_answer := (y_answer ?s1)(p := Some (Answer None))\<rparr>"
  let ?s3 = "put_node p (?b, Acquiring False ?now) ?s2"
  let ?s4 = "?s3\<lparr>y_dir := dir, y_answer := (y_answer ?s3)(p := Some (Answer (Some l)))\<rparr>"
  let ?b5 = "?b\<lparr>fs_lease := Some l, reboot_ran_synced := False\<rparr>"
  let ?s5 = "(put_node p (?b5, Maintaining (Some (l, ?now))) ?s4)\<lparr>y_gained := (y_gained s)(p := ?now)\<rparr>"
  have lead: "\<not> fs_is_leader ?now ?b" using idle(3) by (simp add: fs_is_leader_def)
  have 1: "fs_step h \<delta> eph name s ?s1"
    using fs_step.begin_round [OF idle(1), of h \<delta> eph name] idle(2) lead by (simp add: start_round_def)
  have 2: "fs_step h \<delta> eph name ?s1 ?s2"
    by (rule fs_step.land_read [where env = renv and was = False]) (use unseen in \<open>auto simp: put_node_def\<close>)
  have 3: "fs_step h \<delta> eph name ?s2 ?s3"
    using fs_step.resume_round [of ?s2 p "Answer None" h \<delta> eph name 0]
    by (simp add: put_node_def resume_def after_read_def note_gain_def)
  have 4: "fs_step h \<delta> eph name ?s3 ?s4"
    by (rule fs_step.land_acquire [where was = False and m = ?now and env = env and r = "Inr (Some l)"])
      (use won in \<open>auto simp: put_node_def\<close>)
  have 5: "fs_step h \<delta> eph name ?s4 ?s5"
    using fs_step.resume_round [of ?s4 p "Answer (Some l)" h \<delta> eph name 0]
    by (simp add: put_node_def resume_def after_acquire_def note_gain_def Let_def)
  have phase: "y_phase ?s5 p = Maintaining (Some (l, ?now))" by (simp add: put_node_def)
  obtain b s6 where 6: "fs_step h \<delta> eph name ?s5 s6" "lease_core b = lease_core (y_node ?s5 p)"
    "y_node s6 = (y_node ?s5)(p := b)" "y_phase s6 = (y_phase ?s5)(p := Applying (Some (l, ?now)))"
    "y_answer s6 = (y_answer ?s5)(p := None)" "y_dir s6 = y_dir ?s5" "y_now s6 = y_now ?s5"
    "unmarked h p ?s5 \<and> refresh_due (y_now ?s5) (y_node ?s5 p) \<longrightarrow> read_nothing p s6"
    using maintain_possible [OF phase, of h \<delta> eph name] .
  let ?s7 = "put_node p (apply_lease l True ?now (Some ?now) b, Idle) s6"
  have 7: "fs_step h \<delta> eph name s6 ?s7"
    using fs_step.apply_gain [of s6 p "Some (l, ?now)" h \<delta> eph name] 6(3,4,7)
    by (simp add: after_maintain_def put_node_def)
  have b: "fs_ttl b = fs_ttl ?b" using 6(2) by (simp add: lease_core_def put_node_def)
  show thesis
  proof (rule that [of ?s7])
    show "(fs_step h \<delta> eph name)\<^sup>*\<^sup>* s ?s7"
      using 1 2 3 4 5 6(1) 7 by (meson rtranclp.rtrancl_into_rtrancl rtranclp.rtrancl_refl)
    show "fs_is_leader ?now (y_node ?s7 p)"
      using ttl by (simp add: put_node_def fs_is_leader_def before_deadline_def b)
    show "read_nothing p ?s7" if "unmarked h p s"
    proof -
      have "unmarked h p ?s5" "refresh_due (y_now ?s5) (y_node ?s5 p)"
        using that by (simp_all add: unmarked_def put_node_def refresh_due_def leaderish_def)
      with 6(8) have "read_nothing p s6" by blast
      then show ?thesis using 6(3)
        by (simp add: read_nothing_def put_node_def apply_lease_def apply_round_def Let_def)
    qed
  qed (use 6 b in \<open>auto simp: put_node_def\<close>)
qed

end
