(* ===== verification/LeaseProps.thy ===== *)
theory LeaseProps
  imports FsReboot
begin

text \<open>
  Properties of the election over a shared mount: who may run a leader-gated job, what stands behind
  the answer that a one-shot has not run, how the periods fit the lease, and how much clock skew the
  election really tolerates.
\<close>

subsection \<open>A run of the system\<close>

definition no_digest :: "string \<Rightarrow> string" where
  "no_digest s = replicate 64 CHR ''0''"

definition mount_io :: "bool \<Rightarrow> real \<Rightarrow> io" where
  "mount_io readable t = \<lparr>lock_ok = True, read_ok = readable, write_ok = True, clock = t, file_clock = t\<rparr>"

definition empty_mount :: fs_sys where
  "empty_mount =
     \<lparr>y_now = 0, y_dir = (\<lambda>_. LeaseAbsent),
      y_recs = \<lparr>rs_streams = (\<lambda>_. None), rs_countdown = (\<lambda>_. 0), rs_memo = (\<lambda>_. None), rs_gen = (\<lambda>_. 0)\<rparr>,
      y_node = (\<lambda>p. new_fs_backend p ''t'' ''e'' 10), y_phase = (\<lambda>_. Idle), y_answer = (\<lambda>_. None),
      y_live = (\<lambda>_. ''j''), y_gained = (\<lambda>_. 0), y_listed = (\<lambda>_. None)\<rparr>"

lemma empty_mount_init: "fs_init no_digest ''e'' empty_mount"
  by (auto simp: fs_init_def empty_mount_def new_fs_backend_def inj_def)

definition first_lease :: "real \<Rightarrow> Lease" where
  "first_lease t = \<lparr>l_name = ''e'', l_holder = ''a#t'', l_fence = 1, l_expires_at = t + 10\<rparr>"

definition held_dir :: "real \<Rightarrow> lease_dir" where
  "held_dir t = (\<lambda>_. LeaseAbsent)(fs_safe no_digest ''e'' := LeaseFile (Some (first_lease t)) t)"

text \<open>Node \<open>a\<close> wins the empty mount, its wall clock reading \<open>t\<close>.\<close>

lemma first_campaign:
  assumes "near \<delta> 0 t"
  obtains s where "fs_reachable no_digest \<delta> [] ''e'' s" and "fs_is_leader 0 (y_node s ''a'')"
    and "read_nothing ''a'' s" and "y_now s = 0" and "y_dir s = held_dir t" and "y_phase s ''a'' = Idle"
    and "\<And>q. q \<noteq> ''a'' \<Longrightarrow> y_node s q = new_fs_backend q ''t'' ''e'' 10 \<and> y_phase s q = Idle"
    and "lease_deadline_mono (y_node s ''a'') = Some 9"
proof -
  let ?s = empty_mount
  have won: "acquire_sync no_digest (mount_io True t) ''e'' (holder_token (y_node ?s ''a'')) (fs_ttl (y_node ?s ''a''))
      (y_dir ?s) = (held_dir t, Inr (Some (first_lease t)))"
    by (simp add: acquire_sync_def acquire_file_def read_lease_file_def write_lease_file_def empty_mount_def
        mount_io_def new_fs_backend_def held_dir_def first_lease_def next_fence_def Let_def)
  obtain s where s: "(fs_step no_digest \<delta> [] ''e'')\<^sup>*\<^sup>* ?s s" "fs_is_leader (y_now ?s) (y_node s ''a'')"
    "unmarked no_digest ''a'' ?s \<Longrightarrow> read_nothing ''a'' s" "y_now s = y_now ?s" "y_dir s = held_dir t"
    "y_phase s ''a'' = Idle" "\<And>q. q \<noteq> ''a'' \<Longrightarrow> y_node s q = y_node ?s q \<and> y_phase s q = y_phase ?s q"
    "lease_deadline_mono (y_node s ''a'') = Some (y_now ?s + fs_ttl (y_node ?s ''a'') - SKEW_SECONDS)"
  proof (rule campaign_wins [of ?s "''a''" no_digest "mount_io True t" "''e''" \<delta> "mount_io True t" "held_dir t" "first_lease t" "[]"])
    show "acquire_sync no_digest (mount_io True t) ''e'' (holder_token (y_node ?s ''a'')) (fs_ttl (y_node ?s ''a''))
      (y_dir ?s) = (held_dir t, Inr (Some (first_lease t)))" by (rule won)
  qed (use assms in \<open>simp_all add: empty_mount_def new_fs_backend_def read_lease_def read_lease_file_def
      mount_io_def SKEW_SECONDS_def\<close>)
  show thesis
  proof (rule that [of s])
    show "fs_reachable no_digest \<delta> [] ''e'' s" using s(1) empty_mount_init by (auto simp: fs_reachable_def)
    show "read_nothing ''a'' s" by (rule s(3)) (simp add: unmarked_def empty_mount_def new_fs_backend_def)
  qed (use s in \<open>simp_all add: empty_mount_def new_fs_backend_def SKEW_SECONDS_def\<close>)
qed

subsection \<open>One leader\<close>

text \<open>
  C8. Over a shared mount two nodes never pass the gate of a \<open>Leader\<close> job at the same time, however
  their rounds, timeouts, late writes, restarts, releases and lease collections interleave, as long as
  no two wall clocks differ by more than the holder's margin of one second.
\<close>

theorem mount_has_one_leader:
  assumes "fs_reachable h \<delta> eph name s" and "2 * \<delta> \<le> SKEW_SECONDS" and "p \<noteq> q"
  shows "\<not> (lease_allows True (Some (fs_reads (y_now s) (y_node s p))) Leader \<and>
             lease_allows True (Some (fs_reads (y_now s) (y_node s q))) Leader)"
  using mount.one_leader [OF fs_reachable_inv [OF assms(1,2)], of p q] assms(3)
  by (auto simp: lease_allows_def lb_has_conflict_def fs_reads_def)

theorem mount_has_one_leader_witness:
  "\<exists>s. fs_reachable no_digest (1/2) [] ''e'' s \<and>
       lease_allows True (Some (fs_reads (y_now s) (y_node s ''a''))) Leader \<and>
       \<not> lease_allows True (Some (fs_reads (y_now s) (y_node s ''b''))) Leader"
proof -
  obtain s where s: "fs_reachable no_digest (1/2) [] ''e'' s" "fs_is_leader 0 (y_node s ''a'')" "y_now s = 0"
    by (rule first_campaign [of "1/2" 0]) (auto simp: near_def)
  then have "lease_allows True (Some (fs_reads (y_now s) (y_node s ''a''))) Leader"
    by (simp add: lease_allows_def lb_has_conflict_def fs_reads_def)
  moreover have "2 * (1 / 2) \<le> SKEW_SECONDS" by (simp add: SKEW_SECONDS_def)
  ultimately show ?thesis using s(1) mount_has_one_leader [OF s(1), of "''a''" "''b''"] by auto
qed

text \<open>
  One second is all the skew there is room for.  A challenger skips its own margin when its look at the
  lease fails and the locked acquire that follows does not: with clocks that are a second and a half
  apart, less than the two margins together, two nodes lead at once.
\<close>

lemma failed_read_skips_margin:
  "\<exists>s. fs_reachable no_digest (3/4) [] ''e'' s \<and>
       lease_allows True (Some (fs_reads (y_now s) (y_node s ''a''))) Leader \<and>
       lease_allows True (Some (fs_reads (y_now s) (y_node s ''b''))) Leader"
proof -
  let ?h = no_digest and ?d = "3/4 :: real"
  obtain s where s: "fs_reachable ?h ?d [] ''e'' s" "fs_is_leader 0 (y_node s ''a'')" "y_now s = 0"
    "y_dir s = held_dir (- (3/4))"
    "\<And>q. q \<noteq> ''a'' \<Longrightarrow> y_node s q = new_fs_backend q ''t'' ''e'' 10 \<and> y_phase s q = Idle"
    "lease_deadline_mono (y_node s ''a'') = Some 9"
    by (rule first_campaign [of ?d "- (3/4)"]) (auto simp: near_def)
  let ?s = "s\<lparr>y_now := 17/2\<rparr>"
  have tick: "fs_step ?h ?d [] ''e'' s ?s" using fs_step.tick [of s "17/2"] s(3) by simp
  have b: "y_node ?s ''b'' = new_fs_backend ''b'' ''t'' ''e'' 10" "y_phase ?s ''b'' = Idle"
    using s(5) [of "''b''"] by simp_all
  obtain dir l where won: "acquire_sync ?h (mount_io True (37/4)) ''e'' (holder_token (y_node ?s ''b''))
      (fs_ttl (y_node ?s ''b'')) (y_dir ?s) = (dir, Inr (Some l))"
    by (simp add: acquire_sync_def acquire_file_def read_lease_file_def write_lease_file_def s(4) b(1)
        mount_io_def new_fs_backend_def held_dir_def first_lease_def Let_def)
  obtain s' where s': "(fs_step ?h ?d [] ''e'')\<^sup>*\<^sup>* ?s s'" "fs_is_leader (y_now ?s) (y_node s' ''b'')"
    "y_now s' = y_now ?s" "\<And>q. q \<noteq> ''b'' \<Longrightarrow> y_node s' q = y_node ?s q \<and> y_phase s' q = y_phase ?s q"
  proof (rule campaign_wins [of ?s "''b''" ?h "mount_io False 0" "''e''" ?d "mount_io True (37/4)" dir l "[]"])
    show "acquire_sync ?h (mount_io True (37/4)) ''e'' (holder_token (y_node ?s ''b''))
      (fs_ttl (y_node ?s ''b'')) (y_dir ?s) = (dir, Inr (Some l))" by (rule won)
  qed (use b in \<open>simp_all add: new_fs_backend_def read_lease_def read_lease_file_def near_def mount_io_def SKEW_SECONDS_def\<close>)
  have "fs_reachable ?h ?d [] ''e'' s'"
    using s(1) tick s'(1) unfolding fs_reachable_def
    by (meson converse_rtranclp_into_rtranclp rtranclp_trans)
  moreover have "fs_is_leader (y_now s') (y_node s' ''a'')"
    using s(2,6) s'(3) s'(4) [of "''a''"] by (simp add: fs_is_leader_def before_deadline_def split: if_splits)
  ultimately show ?thesis using s'(2) [folded s'(3)]
    by (intro exI [of _ s']) (simp add: lease_allows_def lb_has_conflict_def fs_reads_def)
qed

subsection \<open>One-shots\<close>

text \<open>
  C11. When a node that holds the lease, or believes to, answers that an \<open>@reboot\<close> one-shot has not run,
  and its cache of marks was read under the job set that is live now, it has completed a listing of the
  marks since the lease of its leadership was granted, and that listing holds no mark of the job under
  the live job set.  (After a reload that changed the job set, back to an earlier one included, the cache
  is dropped and until the next listing the answer speaks only of local marks.)
\<close>

theorem leader_asks_the_store_first:
  assumes "fs_reachable h \<delta> eph name s" and "fs_leader_flag (y_node s p)"
    and "lb_reboot_ran_job_set_id (y_node s p) = Some (y_live s p)"
    and "snd (fs_reboot_ran (y_live s p) job (y_node s p)) = Inr False"
  shows "\<exists>t recs. y_listed s p = Some (t, y_live s p, recs) \<and> y_gained s p \<le> t \<and>
           job \<notin> ran_jobs (y_live s p) recs"
proof -
  let ?b = "y_node s p"
  have ans: "\<not> snd (base_reboot_ran (y_live s p) job ?b)"
    using assms(4) by (auto simp: fs_reboot_ran_def split: prod.splits bool.splits)
  have kept: "fs_leader_flag (fst (base_reboot_ran (y_live s p) job ?b))"
    "reboot_ran_synced (fst (base_reboot_ran (y_live s p) job ?b)) = reboot_ran_synced ?b"
    using assms(2) by (simp_all add: base_reboot_ran_def reconcile_local_reboot_ran_def
        reconcile_observed_reboot_ran_def Let_def)
  have "reboot_ran_synced ?b"
    using assms(4) ans kept by (auto simp: fs_reboot_ran_def split: prod.splits bool.splits if_splits)
  moreover have "marks_read (y_gained s p) (y_listed s p) ?b"
    using fs_reachable_reboot [OF assms(1)] by (simp add: reboot_inv_def)
  ultimately obtain t recs where "y_listed s p = Some (t, y_live s p, recs)" "y_gained s p \<le> t"
    "lb_reboot_ran ?b = ran_jobs (y_live s p) recs"
    using assms(3) by (auto simp: marks_read_def)
  with ans assms(3) show ?thesis by (auto simp: base_reboot_ran_scoped)
qed

theorem leader_asks_the_store_first_witness:
  "\<exists>s t recs. fs_reachable no_digest (1/2) [] ''e'' s \<and> fs_leader_flag (y_node s ''a'') \<and>
     snd (fs_reboot_ran (y_live s ''a'') ''boot'' (y_node s ''a'')) = Inr False \<and>
     y_listed s ''a'' = Some (t, y_live s ''a'', recs) \<and> y_gained s ''a'' \<le> t \<and>
     ''boot'' \<notin> ran_jobs (y_live s ''a'') recs"
proof -
  obtain s where s: "fs_reachable no_digest (1/2) [] ''e'' s" "fs_is_leader 0 (y_node s ''a'')"
    "read_nothing ''a'' s"
    by (rule first_campaign [of "1/2" 0]) (auto simp: near_def)
  have flag: "fs_leader_flag (y_node s ''a'')" using s(2) by (auto simp: fs_is_leader_def split: if_splits)
  have id: "lb_reboot_ran_job_set_id (y_node s ''a'') = Some (y_live s ''a'')"
    using s(3) by (simp add: read_nothing_def)
  have ans: "snd (fs_reboot_ran (y_live s ''a'') ''boot'' (y_node s ''a'')) = Inr False"
    using s(3) by (simp add: fs_reboot_ran_def base_reboot_ran_def reconcile_local_reboot_ran_def
        reconcile_observed_reboot_ran_def read_nothing_def Let_def)
  from leader_asks_the_store_first [OF s(1) flag id ans] s(1) flag ans show ?thesis by blast
qed

text \<open>
  The case the condition leaves out: a reload that changes the job set drops the cache but not the synced
  flag, so a leader without a local mark answers that the one-shot has not run whatever the store holds
  under the job set that has become live.
\<close>

lemma reload_answers_unread:
  assumes "reboot_ran_synced b" and "lb_reboot_ran_job_set_id b \<noteq> Some live" and "lb_reboot_ran_local_job_set_id b \<noteq> Some live"
  shows "snd (fs_reboot_ran live job b) = Inr False"
  using assms by (simp add: fs_reboot_ran_def base_reboot_ran_def reconcile_local_reboot_ran_def
      reconcile_observed_reboot_ran_def Let_def)

subsection \<open>Periods\<close>

text \<open>
  From the smallest ttl on, a round and the sleep after it fit between a renewal and the deadline it
  gives, so that the next renewal is sent in time; the four operations of a round fit its deadline from
  a ttl of four and a half seconds on.
\<close>

lemma round_fits_lease:
  assumes "MIN_USABLE_TTL \<le> ttl"
  shows "round_deadline ttl + renew_period ttl \<le> ttl - SKEW_SECONDS"
    and "9/2 \<le> ttl \<Longrightarrow> OPS_PER_CYCLE * op_timeout connect_timeout ttl \<le> round_deadline ttl"
  using assms
  by (auto simp: MIN_USABLE_TTL_def round_deadline_def renew_period_def SKEW_SECONDS_def OPS_PER_CYCLE_def
      op_timeout_def max_def min_def)

text \<open>Below that, they do not: at the smallest ttl they may take twice the deadline.\<close>

lemma operations_exceed_round:
  "OPS_PER_CYCLE * op_timeout 5 MIN_USABLE_TTL = 2 * round_deadline MIN_USABLE_TTL"
  by (simp add: MIN_USABLE_TTL_def round_deadline_def renew_period_def SKEW_SECONDS_def OPS_PER_CYCLE_def
      op_timeout_def)

end
