(* ===== verification/K8sElection.thy ===== *)
theory K8sElection
  imports Leadership
begin

text \<open>
  Leader election over a Kubernetes \<open>Lease\<close> object (\<open>backends/kubernetes.py\<close>): the pure helpers that
  read an observed lease, decide what to do and build the object to write, the node's record of what it
  observed, and the code of a renew round around its two requests.  A \<open>Lease\<close> is its decoded form;
  times written into it are instants in microseconds, the precision of a \<open>MicroTime\<close>.  Readings of the
  monotonic and the wall clock are arguments.
\<close>

subsection \<open>Leases\<close>

definition K8S_SKEW_SECONDS :: real where
  "K8S_SKEW_SECONDS = 1"

definition K8S_UNKNOWN_HOLDER :: string where
  "K8S_UNKNOWN_HOLDER = ''<unknown holder>''"

datatype lease_action = ACTION_CREATE | ACTION_ACQUIRE | ACTION_RENEW | ACTION_WAIT

text \<open>What is written, with the resource version a replace is conditional on; and what is stored.\<close>

record lease_body =
  lb_holder :: "string option"
  lb_duration :: int
  lb_acquire :: "int option"
  lb_renew :: "int option"
  lb_transitions :: int
  lb_annotations :: "stored_text dict option"
  lb_version :: "nat option"

record lease_obj =
  o_holder :: "string option"
  o_duration :: "int option"
  o_acquire :: "int option"
  o_renew :: "int option"
  o_transitions :: "int option"
  o_annotations :: "stored_text dict option"
  o_version :: nat

record LeaseState =
  ls_holder :: "string option"
  ls_renew_time :: "int option"
  ls_acquire_time :: "int option"
  ls_duration :: "int option"
  ls_transitions :: int
  ls_version :: nat
  ls_annotations :: "stored_text dict"

definition parse_lease :: "lease_obj \<Rightarrow> LeaseState" where
  "parse_lease obj =
     \<lparr>ls_holder = o_holder obj, ls_renew_time = o_renew obj, ls_acquire_time = o_acquire obj,
      ls_duration = o_duration obj,
      ls_transitions = (case o_transitions obj of Some n \<Rightarrow> n | None \<Rightarrow> 0),
      ls_version = o_version obj,
      ls_annotations = (case o_annotations obj of Some d \<Rightarrow> d | None \<Rightarrow> [])\<rparr>"

text \<open>\<open>raw.rpartition("#")[0] or raw\<close>.\<close>

definition display_holder :: "string option \<Rightarrow> string option" where
  "display_holder raw =
     (case raw of
        None \<Rightarrow> None
      | Some s \<Rightarrow>
          (let name = (if CHR ''#'' \<in> set s then rev (tl (dropWhile (\<lambda>c. c \<noteq> CHR ''#'') (rev s))) else [])
           in Some (if name = [] then s else name)))"

definition lease_is_expired :: "LeaseState \<Rightarrow> real \<Rightarrow> real option \<Rightarrow> bool" where
  "lease_is_expired state now observed_at =
     (case ls_duration state of
        None \<Rightarrow> True
      | Some d \<Rightarrow>
          if d = 0 then True
          else (case observed_at of None \<Rightarrow> True | Some t \<Rightarrow> now \<ge> t + real_of_int d))"

definition deadline_passed :: "real \<Rightarrow> real option \<Rightarrow> int \<Rightarrow> bool" where
  "deadline_passed now anchor duration =
     (case anchor of
        None \<Rightarrow> True
      | Some t \<Rightarrow> if duration = 0 then True else now \<ge> t + real_of_int duration)"

definition no_holder :: "string option \<Rightarrow> bool" where
  "no_holder h \<longleftrightarrow> h = None \<or> h = Some []"

definition decide_lease_action ::
  "LeaseState option \<Rightarrow> string \<Rightarrow> real \<Rightarrow> real option \<Rightarrow> string option \<Rightarrow> real option \<Rightarrow> int \<Rightarrow> lease_action" where
  "decide_lease_action state identity now observed_at last_holder last_observed_at duration =
     (case state of
        None \<Rightarrow>
          if \<not> no_holder last_holder \<and> last_holder \<noteq> Some identity \<and>
             \<not> deadline_passed now last_observed_at duration
          then ACTION_WAIT else ACTION_CREATE
      | Some st \<Rightarrow>
          if ls_holder st = Some identity then ACTION_RENEW
          else if no_holder (ls_holder st) \<or> lease_is_expired st now observed_at then ACTION_ACQUIRE
          else ACTION_WAIT)"

definition build_lease_body ::
  "string \<Rightarrow> int \<Rightarrow> int \<Rightarrow> LeaseState option \<Rightarrow> lease_action \<Rightarrow> stored_text dict option \<Rightarrow> lease_body" where
  "build_lease_body identity now duration state action annotations =
     (let (acquire_time, transitions) =
            (case (action, state) of
               (ACTION_RENEW, Some st) \<Rightarrow>
                 ((case ls_acquire_time st of Some t \<Rightarrow> t | None \<Rightarrow> now), ls_transitions st)
             | (ACTION_ACQUIRE, Some st) \<Rightarrow> (now, ls_transitions st + 1)
             | _ \<Rightarrow> (now, 0))
      in \<lparr>lb_holder = Some identity, lb_duration = duration, lb_acquire = Some acquire_time,
          lb_renew = Some now, lb_transitions = transitions,
          lb_annotations = (if annotations = Some [] then None else annotations),
          lb_version = (if action = ACTION_CREATE then None else map_option ls_version state)\<rparr>)"

definition plan_lease_write ::
  "lease_obj option \<Rightarrow> string \<Rightarrow> int \<Rightarrow> int \<Rightarrow> real option \<Rightarrow> real \<Rightarrow> stored_text dict option \<Rightarrow>
   string option \<Rightarrow> real option \<Rightarrow> lease_action \<times> lease_body option \<times> LeaseState option" where
  "plan_lease_write obj identity now duration observed_at mt annotations last_holder last_observed_at =
     (let state = map_option parse_lease obj;
          action = decide_lease_action state identity mt observed_at last_holder last_observed_at duration
      in if action = ACTION_WAIT then (action, None, state)
         else (action, Some (build_lease_body identity now duration state action annotations), state))"

subsection \<open>The state of a node\<close>

record K8sBackend = LeaseBackend +
  kb_display_identity :: string
  kb_identity :: string
  kb_lease_duration :: int
  kb_leader_flag :: bool
  kb_holder :: "string option"
  kb_leader_until_mono :: "real option"
  kb_last_contact_mono :: "real option"
  kb_observed_holder :: "string option"
  kb_observed_renew :: "int option"
  kb_observed_at :: "real option"

definition new_k8s_backend :: "string \<Rightarrow> string \<Rightarrow> string \<Rightarrow> int \<Rightarrow> K8sBackend" where
  "new_k8s_backend name display instance_id duration =
     \<lparr>lb_node_name = name, lb_reboot_ran = {}, lb_reboot_ran_job_set_id = None,
      lb_reboot_ran_local = {}, lb_reboot_ran_local_job_set_id = None,
      kb_display_identity = display, kb_identity = display @ ''#'' @ instance_id,
      kb_lease_duration = duration, kb_leader_flag = False, kb_holder = None,
      kb_leader_until_mono = None, kb_last_contact_mono = None, kb_observed_holder = None,
      kb_observed_renew = None, kb_observed_at = None\<rparr>"

definition k8s_is_leader :: "real \<Rightarrow> K8sBackend \<Rightarrow> bool" where
  "k8s_is_leader mt b =
     (if \<not> kb_leader_flag b then False
      else (case kb_leader_until_mono b of None \<Rightarrow> False | Some d \<Rightarrow> mt < d))"

definition k8s_self_demoted :: "real \<Rightarrow> K8sBackend \<Rightarrow> bool" where
  "k8s_self_demoted mt b \<longleftrightarrow> kb_leader_flag b \<and> \<not> k8s_is_leader mt b"

definition k8s_is_quorate :: "real \<Rightarrow> K8sBackend \<Rightarrow> bool" where
  "k8s_is_quorate mt b =
     (case kb_last_contact_mono b of None \<Rightarrow> False | Some t \<Rightarrow> mt < t + real_of_int (kb_lease_duration b))"

definition k8s_leader_name :: "real \<Rightarrow> K8sBackend \<Rightarrow> string option" where
  "k8s_leader_name mt b = (if \<not> k8s_is_quorate mt b then None else kb_holder b)"

definition k8s_reads :: "real \<Rightarrow> K8sBackend \<Rightarrow> lease_reads" where
  "k8s_reads mt b =
     \<lparr>lr_node_name = lb_node_name b, lr_is_leader = k8s_is_leader mt b,
      lr_leader_name = k8s_leader_name mt b, lr_is_quorate = k8s_is_quorate mt b,
      lr_self_demoted = k8s_self_demoted mt b\<rparr>"

subsection \<open>The renew round\<close>

definition track_observation :: "LeaseState option \<Rightarrow> real \<Rightarrow> K8sBackend \<Rightarrow> K8sBackend" where
  "track_observation state mt b =
     (case state of
        None \<Rightarrow> b
      | Some st \<Rightarrow>
          if ls_holder st \<noteq> kb_observed_holder b \<or> ls_renew_time st \<noteq> kb_observed_renew b
          then b\<lparr>kb_observed_holder := ls_holder st, kb_observed_renew := ls_renew_time st,
                 kb_observed_at := Some mt\<rparr>
          else b)"

definition k8s_apply_round :: "lease_action \<Rightarrow> bool \<Rightarrow> LeaseState option \<Rightarrow> real \<Rightarrow> K8sBackend \<Rightarrow> K8sBackend" where
  "k8s_apply_round action write_ok state mt b =
     (let b1 = b\<lparr>kb_last_contact_mono := Some mt\<rparr>
      in if action = ACTION_WAIT
         then b1\<lparr>kb_leader_flag := False,
                 kb_holder := display_holder (case state of Some st \<Rightarrow> ls_holder st | None \<Rightarrow> kb_observed_holder b)\<rparr>
         else if write_ok
         then b1\<lparr>kb_leader_flag := True, kb_holder := Some (kb_display_identity b),
                 kb_leader_until_mono := Some (mt + real_of_int (kb_lease_duration b) - K8S_SKEW_SECONDS)\<rparr>
         else b1\<lparr>kb_leader_flag := False,
                 kb_holder :=
                   (let seen = (case state of Some st \<Rightarrow> display_holder (ls_holder st) | None \<Rightarrow> None);
                        known = (if seen = None \<and> kb_observed_holder b \<noteq> None
                                 then display_holder (kb_observed_holder b) else seen)
                    in Some (case known of Some n \<Rightarrow> n | None \<Rightarrow> K8S_UNKNOWN_HOLDER))\<rparr>)"

text \<open>The stored marks of an observed lease, folded into the cache and carried into the next write.\<close>

definition fold_annotations ::
  "string \<Rightarrow> stored_text dict \<Rightarrow> K8sBackend \<Rightarrow> K8sBackend \<times> stored_text dict option" where
  "fold_annotations live annotations b =
     (case decode_reboot_ran (dict_get annotations REBOOT_RAN_KEY) of
        (stored_id, jobs) \<Rightarrow> reboot_ran_annotation live (Some annotations) (observe_reboot_ran live stored_id jobs b))"

text \<open>The round between the answer of the read and the write: \<open>now\<close> is the wall clock, \<open>mt\<close> the monotonic one.\<close>

definition plan_round ::
  "string \<Rightarrow> int \<Rightarrow> real \<Rightarrow> lease_obj option \<Rightarrow> K8sBackend \<Rightarrow>
   K8sBackend \<times> lease_action \<times> lease_body option \<times> LeaseState option" where
  "plan_round live now mt obj b =
     (let state = map_option parse_lease obj;
          b1 = track_observation state mt b;
          (b2, annotations) = fold_annotations live (case state of Some st \<Rightarrow> ls_annotations st | None \<Rightarrow> []) b1
      in (b2, plan_lease_write obj (kb_identity b2) now (kb_lease_duration b2) (kb_observed_at b2) mt annotations
                (kb_observed_holder b) (kb_observed_at b)))"

text \<open>What a graceful stop writes: the lease without a holder, the marks carried over.\<close>

definition plan_release :: "string \<Rightarrow> lease_obj option \<Rightarrow> K8sBackend \<Rightarrow> K8sBackend \<times> lease_body option" where
  "plan_release live obj b =
     (case obj of
        None \<Rightarrow> (b, None)
      | Some ob \<Rightarrow>
          (let state = parse_lease ob
           in if ls_holder state \<noteq> Some (kb_identity b) then (b, None)
              else (case fold_annotations live (ls_annotations state) b of
                      (b', annotations) \<Rightarrow>
                        (b', Some \<lparr>lb_holder = None, lb_duration = kb_lease_duration b, lb_acquire = None,
                                   lb_renew = None, lb_transitions = ls_transitions state,
                                   lb_annotations = annotations, lb_version = Some (ls_version state)\<rparr>))))"

subsection \<open>Decisions\<close>

text \<open>What a node that writes may rely on: it holds the lease, or no one does, or it has watched the record.\<close>

lemma decide_take_over:
  assumes "decide_lease_action (Some st) identity now seen last_holder last_at d \<noteq> ACTION_WAIT"
    and "ls_holder st \<noteq> Some identity" and "\<not> no_holder (ls_holder st)"
  shows "lease_is_expired st now seen"
  using assms by (auto simp: decide_lease_action_def split: if_splits)

text \<open>A deferring or defeated node names a holder whenever one was seen, so \<open>PreferLeader\<close> work stays there.\<close>

lemma apply_round_names_holder:
  assumes "k8s_apply_round action write_ok state mt b = b'"
    and "action = ACTION_WAIT \<Longrightarrow> (case state of Some st \<Rightarrow> ls_holder st | None \<Rightarrow> kb_observed_holder b) \<noteq> None"
  shows "kb_holder b' \<noteq> None"
  using assms by (auto simp: k8s_apply_round_def display_holder_def Let_def split: option.splits if_splits)

end
