(* ===== verification/K8sLeaders.thy ===== *)
theory K8sLeaders
  imports K8sElection
begin

text \<open>
  The nodes that elect over one \<open>Lease\<close> object, as a transition system in real time.  Of the API server
  only its documented optimistic concurrency is used: a create is accepted when no object exists, a
  replace when it carries the version of the stored object, and an accepted write gets a new version.
  Monotonic clocks advance with real time, wall clocks are arbitrary.  Requests reach the server at any
  later moment or never, and anyone may delete the object.  Two ghosts record what the election cannot
  stand: that the object was deleted, and that a holder has written a renew time of its own again, which
  an observer takes for silence.  The invariant as long as neither happened: a leader's deadline ends before its last
  write plus the lease duration, and a node that takes over has watched that write for the whole duration.
\<close>

subsection \<open>System\<close>

datatype k8s_phase =
    KIdle
  | KObserving
  | KWriting lease_action "LeaseState option" real lease_body
  | KReleasing
  | KClosing
  | KStopped

text \<open>
  \<open>k_written\<close> is the time of the last accepted write, \<open>k_stamps\<close> every pair of holder and renew time ever
  written, \<open>k_flight\<close> the writes sent so far, with the node that sent them; \<open>k_deleted\<close> and \<open>k_repeated\<close> are
  the ghosts.
\<close>

record k8s_sys =
  k_now :: real
  k_obj :: "lease_obj option"
  k_version :: nat
  k_written :: real
  k_stamps :: "(string option \<times> int option) set"
  k_flight :: "(string \<times> bool \<times> lease_body) set"
  k_node :: "string \<Rightarrow> K8sBackend"
  k_phase :: "string \<Rightarrow> k8s_phase"
  k_seen :: "string \<Rightarrow> lease_obj option option"
  k_answer :: "string \<Rightarrow> bool option"
  k_live :: "string \<Rightarrow> string"
  k_deleted :: bool
  k_repeated :: bool

definition accepts :: "lease_obj option \<Rightarrow> bool \<Rightarrow> lease_body \<Rightarrow> bool" where
  "accepts obj create body \<longleftrightarrow>
     (if create then obj = None else (\<exists>ob. obj = Some ob \<and> lb_version body = Some (o_version ob)))"

definition stored_as :: "nat \<Rightarrow> lease_body \<Rightarrow> lease_obj" where
  "stored_as version body =
     \<lparr>o_holder = lb_holder body, o_duration = Some (lb_duration body), o_acquire = lb_acquire body,
      o_renew = lb_renew body, o_transitions = Some (lb_transitions body),
      o_annotations = lb_annotations body, o_version = version\<rparr>"

definition accept :: "lease_body \<Rightarrow> k8s_sys \<Rightarrow> k8s_sys" where
  "accept body s =
     s\<lparr>k_obj := Some (stored_as (k_version s + 1) body), k_version := k_version s + 1, k_written := k_now s,
       k_stamps := insert (lb_holder body, lb_renew body) (k_stamps s),
       k_repeated := (k_repeated s \<or> lb_holder body \<noteq> None \<and> (lb_holder body, lb_renew body) \<in> k_stamps s)\<rparr>"

definition put_k8s :: "string \<Rightarrow> K8sBackend \<Rightarrow> k8s_phase \<Rightarrow> k8s_sys \<Rightarrow> k8s_sys" where
  "put_k8s p b phase s =
     s\<lparr>k_node := (k_node s)(p := b), k_phase := (k_phase s)(p := phase),
       k_seen := (k_seen s)(p := None), k_answer := (k_answer s)(p := None)\<rparr>"

lemma put_k8s_simps [simp]:
  "k_now (put_k8s p b phase s) = k_now s" "k_obj (put_k8s p b phase s) = k_obj s"
  "k_version (put_k8s p b phase s) = k_version s" "k_written (put_k8s p b phase s) = k_written s"
  "k_stamps (put_k8s p b phase s) = k_stamps s" "k_flight (put_k8s p b phase s) = k_flight s"
  "k_node (put_k8s p b phase s) = (k_node s)(p := b)" "k_phase (put_k8s p b phase s) = (k_phase s)(p := phase)"
  "k_seen (put_k8s p b phase s) = (k_seen s)(p := None)" "k_answer (put_k8s p b phase s) = (k_answer s)(p := None)"
  "k_deleted (put_k8s p b phase s) = k_deleted s" "k_repeated (put_k8s p b phase s) = k_repeated s"
  by (simp_all add: put_k8s_def)

definition send :: "string \<Rightarrow> bool \<Rightarrow> lease_body \<Rightarrow> k8s_sys \<Rightarrow> k8s_sys" where
  "send p create body s = s\<lparr>k_flight := insert (p, create, body) (k_flight s)\<rparr>"

text \<open>
  One step.  A read returns the object stored at some moment before its answer is used; the clocks are
  read when it is used.  Writes that were sent may land late (\<open>stray\<close>).
\<close>

inductive k8s_step :: "k8s_sys \<Rightarrow> k8s_sys \<Rightarrow> bool" where
  begin_round: "k_phase s p = KIdle \<Longrightarrow> k8s_step s (put_k8s p (k_node s p) KObserving s)"
| read_lands: "k_phase s p \<in> {KObserving, KReleasing} \<Longrightarrow> k8s_step s (s\<lparr>k_seen := (k_seen s)(p := Some (k_obj s))\<rparr>)"
| wait: "k_phase s p = KObserving \<Longrightarrow> k_seen s p = Some obj \<Longrightarrow>
    plan_round (k_live s p) now (k_now s) obj (k_node s p) = (b, action, None, state) \<Longrightarrow>
    k8s_step s (put_k8s p (k8s_apply_round action False state (k_now s) b) KIdle s)"
| observe: "k_phase s p = KObserving \<Longrightarrow> k_seen s p = Some obj \<Longrightarrow>
    plan_round (k_live s p) now (k_now s) obj (k_node s p) = (b, action, Some body, state) \<Longrightarrow>
    k8s_step s (send p (action = ACTION_CREATE) body (put_k8s p b (KWriting action state (k_now s) body) s))"
| write_lands: "k_phase s p = KWriting action state mt body \<Longrightarrow> k_answer s p = None \<Longrightarrow>
    accepts (k_obj s) (action = ACTION_CREATE) body \<Longrightarrow>
    k8s_step s ((accept body s)\<lparr>k_answer := (k_answer s)(p := Some True)\<rparr>)"
| write_refused: "k_phase s p = KWriting action state mt body \<Longrightarrow> k_answer s p = None \<Longrightarrow>
    \<not> accepts (k_obj s) (action = ACTION_CREATE) body \<Longrightarrow>
    k8s_step s (s\<lparr>k_answer := (k_answer s)(p := Some False)\<rparr>)"
| stray: "(p, create, body) \<in> k_flight s \<Longrightarrow> accepts (k_obj s) create body \<Longrightarrow> k8s_step s (accept body s)"
| delete: "k8s_step s (s\<lparr>k_obj := None, k_deleted := True\<rparr>)"
| apply_write: "k_phase s p = KWriting action state mt body \<Longrightarrow> k_answer s p = Some ok \<Longrightarrow>
    k8s_step s (put_k8s p (k8s_apply_round action ok state mt (k_node s p)) KIdle s)"
| abandon_round: "k_phase s p \<in> {KObserving} \<union> {KWriting a st mt bo | a st mt bo. True} \<Longrightarrow>
    k8s_step s (put_k8s p (k_node s p) KIdle s)"
| mark: "b = reconcile_local_reboot_ran (k_live s p) (k_node s p) \<Longrightarrow>
    k8s_step s (s\<lparr>k_node := (k_node s)(p := b\<lparr>lb_reboot_ran_local := insert job (lb_reboot_ran_local b)\<rparr>)\<rparr>)"
| reload: "k8s_step s (s\<lparr>k_live := (k_live s)(p := live)\<rparr>)"
| stop: "k_phase s p \<notin> {KReleasing, KClosing, KStopped} \<Longrightarrow> k8s_step s (put_k8s p (k_node s p) KReleasing s)"
| release: "k_phase s p = KReleasing \<Longrightarrow> k_seen s p = Some obj \<Longrightarrow>
    plan_release (k_live s p) obj (k_node s p) = (b, Some body) \<Longrightarrow>
    k8s_step s (send p False body (put_k8s p b KClosing s))"
| close: "k_phase s p \<in> {KReleasing, KClosing} \<Longrightarrow>
    k8s_step s (put_k8s p ((k_node s p)\<lparr>kb_leader_flag := False\<rparr>) KStopped s)"
| tick: "k_now s \<le> t \<Longrightarrow> k8s_step s (s\<lparr>k_now := t\<rparr>)"

definition k8s_init :: "k8s_sys \<Rightarrow> bool" where
  "k8s_init s \<longleftrightarrow>
     k_obj s = None \<and> k_flight s = {} \<and> k_stamps s = {} \<and> k_written s \<le> k_now s \<and>
     inj (\<lambda>p. kb_identity (k_node s p)) \<and>
     (\<forall>p. \<exists>nm display token d. k_node s p = new_k8s_backend nm display token d) \<and>
     k_phase s = (\<lambda>_. KIdle) \<and> k_seen s = (\<lambda>_. None) \<and> k_answer s = (\<lambda>_. None) \<and>
     \<not> k_deleted s \<and> \<not> k_repeated s"

definition k8s_reachable :: "k8s_sys \<Rightarrow> bool" where
  "k8s_reachable s \<longleftrightarrow> (\<exists>s0. k8s_init s0 \<and> k8s_step\<^sup>*\<^sup>* s0 s)"

lemma k8s_reachable_induct [consumes 1, case_names init step]:
  assumes "k8s_reachable s" and "\<And>s. k8s_init s \<Longrightarrow> P s" and "\<And>s s'. P s \<Longrightarrow> k8s_step s s' \<Longrightarrow> P s'"
  shows "P s"
proof -
  obtain s0 where "k8s_init s0" "k8s_step\<^sup>*\<^sup>* s0 s" using assms(1) by (auto simp: k8s_reachable_def)
  from this(2,1) show ?thesis by (induction rule: rtranclp_induct) (auto intro: assms)
qed

subsection \<open>The invariant\<close>

definition serving :: "k8s_phase \<Rightarrow> bool" where
  "serving phase \<longleftrightarrow> phase \<notin> {KReleasing, KClosing, KStopped}"

text \<open>The deadlines up to which a node leads, or will lead once an accepted write is applied.\<close>

definition kpromised :: "K8sBackend \<Rightarrow> k8s_phase \<Rightarrow> bool option \<Rightarrow> real \<Rightarrow> bool" where
  "kpromised b phase ans d \<longleftrightarrow>
     kb_leader_flag b \<and> kb_leader_until_mono b = Some d \<or>
     (\<exists>a st mt body. phase = KWriting a st mt body \<and> ans = Some True \<and>
        d = mt + real_of_int (kb_lease_duration b) - K8S_SKEW_SECONDS)"

definition backed :: "k8s_sys \<Rightarrow> string \<Rightarrow> real \<Rightarrow> bool" where
  "backed s p d \<longleftrightarrow>
     (\<exists>ob. k_obj s = Some ob \<and> o_holder ob = Some (kb_identity (k_node s p)) \<and>
        o_duration ob = Some (kb_lease_duration (k_node s p)) \<and>
        d \<le> k_written s + real_of_int (kb_lease_duration (k_node s p)) - K8S_SKEW_SECONDS)"

definition promises_kept :: "k8s_sys \<Rightarrow> string \<Rightarrow> bool" where
  "promises_kept s p \<longleftrightarrow>
     (serving (k_phase s p) \<longrightarrow>
        (\<forall>d. kpromised (k_node s p) (k_phase s p) (k_answer s p) d \<and> k_now s < d \<longrightarrow> backed s p d))"

text \<open>Whoever may still replace the stored object has watched it for its duration, or owns it.\<close>

definition lawful :: "k8s_sys \<Rightarrow> string \<Rightarrow> bool" where
  "lawful s p \<longleftrightarrow>
     (\<forall>ob h d. k_obj s = Some ob \<and> o_holder ob = Some h \<and> h \<noteq> [] \<and> h \<noteq> kb_identity (k_node s p) \<and>
        o_duration ob = Some d \<longrightarrow> d = 0 \<or> k_written s + real_of_int d \<le> k_now s)"

definition flight_ok :: "k8s_sys \<Rightarrow> string \<Rightarrow> bool \<Rightarrow> lease_body \<Rightarrow> bool" where
  "flight_ok s p create body \<longleftrightarrow>
     (\<forall>v. lb_version body = Some v \<longrightarrow> v \<le> k_version s) \<and>
     (if lb_holder body = None
      then \<not> create \<and> \<not> serving (k_phase s p) \<and>
        (\<forall>ob. k_obj s = Some ob \<and> accepts (k_obj s) create body \<longrightarrow> o_holder ob = Some (kb_identity (k_node s p)))
      else lb_holder body = Some (kb_identity (k_node s p)) \<and> lb_duration body = kb_lease_duration (k_node s p) \<and>
        (accepts (k_obj s) create body \<longrightarrow> lawful s p))"

definition watched :: "k8s_sys \<Rightarrow> K8sBackend \<Rightarrow> bool" where
  "watched s b \<longleftrightarrow>
     (kb_observed_holder b \<noteq> None \<longrightarrow>
        (kb_observed_holder b, kb_observed_renew b) \<in> k_stamps s \<and>
        (\<forall>ob. k_obj s = Some ob \<and> (o_holder ob, o_renew ob) = (kb_observed_holder b, kb_observed_renew b) \<longrightarrow>
           (\<exists>t. kb_observed_at b = Some t \<and> k_written s \<le> t)))"

definition seen_ok :: "k8s_sys \<Rightarrow> lease_obj option option \<Rightarrow> bool" where
  "seen_ok s seen \<longleftrightarrow>
     (\<forall>ob. seen = Some (Some ob) \<longrightarrow>
        o_version ob \<le> k_version s \<and> (o_version ob = k_version s \<longrightarrow> k_obj s = Some ob) \<and>
        (o_holder ob \<noteq> None \<longrightarrow> (o_holder ob, o_renew ob) \<in> k_stamps s))"

definition writing_ok :: "k8s_sys \<Rightarrow> string \<Rightarrow> bool" where
  "writing_ok s p \<longleftrightarrow>
     (\<forall>a st mt body. k_phase s p = KWriting a st mt body \<longrightarrow>
        mt \<le> k_now s \<and> (p, a = ACTION_CREATE, body) \<in> k_flight s \<and> lb_holder body \<noteq> None)"

definition obj_ok :: "k8s_sys \<Rightarrow> bool" where
  "obj_ok s \<longleftrightarrow>
     k_written s \<le> k_now s \<and>
     (\<forall>ob. k_obj s = Some ob \<longrightarrow>
        o_version ob = k_version s \<and> (o_holder ob \<noteq> None \<longrightarrow> (o_holder ob, o_renew ob) \<in> k_stamps s))"

definition k8s_inv :: "k8s_sys \<Rightarrow> bool" where
  "k8s_inv s \<longleftrightarrow>
     obj_ok s \<and> inj (\<lambda>p. kb_identity (k_node s p)) \<and> (\<forall>p. kb_identity (k_node s p) \<noteq> []) \<and>
     (\<forall>p. promises_kept s p \<and> watched s (k_node s p) \<and> seen_ok s (k_seen s p) \<and> writing_ok s p) \<and>
     (\<forall>p create body. (p, create, body) \<in> k_flight s \<longrightarrow> flight_ok s p create body)"

text \<open>What the parts of the invariant look at.\<close>

definition k8s_core :: "K8sBackend \<Rightarrow> string \<times> int \<times> bool \<times> real option" where
  "k8s_core b = (kb_identity b, kb_lease_duration b, kb_leader_flag b, kb_leader_until_mono b)"

definition observation_core :: "K8sBackend \<Rightarrow> string option \<times> int option \<times> real option" where
  "observation_core b = (kb_observed_holder b, kb_observed_renew b, kb_observed_at b)"

lemma parts_same:
  assumes "k_now s' = k_now s" and "k_obj s' = k_obj s" and "k_version s' = k_version s"
    and "k_written s' = k_written s" and "k_stamps s' = k_stamps s" and "k_flight s' = k_flight s"
    and "\<And>q. k8s_core (k_node s' q) = k8s_core (k_node s q)" and "k_phase s' = k_phase s"
  shows "backed s' p d = backed s p d" "watched s' b = watched s b" "seen_ok s' x = seen_ok s x"
    "flight_ok s' p c bo = flight_ok s p c bo" "writing_ok s' p = writing_ok s p" "obj_ok s' = obj_ok s"
  using assms
  by (simp_all add: backed_def watched_def seen_ok_def flight_ok_def writing_ok_def obj_ok_def lawful_def k8s_core_def)

lemma k8s_inv_parts:
  assumes "k8s_inv s" and "k_now s' = k_now s" and "k_obj s' = k_obj s" and "k_version s' = k_version s"
    and "k_written s' = k_written s" and "k_stamps s' = k_stamps s" and "k_flight s' = k_flight s"
    and "\<And>q. k8s_core (k_node s' q) = k8s_core (k_node s q)" and "k_phase s' = k_phase s"
    and "\<And>q. observation_core (k_node s' q) = observation_core (k_node s q)"
    and "\<And>p. seen_ok s (k_seen s' p)"
    and "\<And>p. k_answer s' p = Some True \<Longrightarrow> k_answer s p = Some True"
  shows "k8s_inv s'"
proof -
  have "promises_kept s' p" if "promises_kept s p" for p
    using that assms(2,8,9,12) parts_same(1) [OF assms(2-9)]
    by (auto simp: promises_kept_def kpromised_def k8s_core_def)
  moreover have "watched s (k_node s' p) = watched s (k_node s p)" for p
    using assms(10) by (simp add: watched_def observation_core_def)
  moreover have "(\<lambda>p. kb_identity (k_node s' p)) = (\<lambda>p. kb_identity (k_node s p))"
    using assms(8) by (simp add: k8s_core_def)
  ultimately show ?thesis using assms(1,7,11) parts_same [OF assms(2-9)] by (auto simp: k8s_inv_def fun_eq_iff)
qed

subsection \<open>Accepted writes\<close>

lemma accept_simps [simp]:
  "k_now (accept body s) = k_now s" "k_node (accept body s) = k_node s" "k_phase (accept body s) = k_phase s"
  "k_answer (accept body s) = k_answer s" "k_seen (accept body s) = k_seen s" "k_flight (accept body s) = k_flight s"
  "k_written (accept body s) = k_now s" "k_version (accept body s) = k_version s + 1"
  "k_obj (accept body s) = Some (stored_as (k_version s + 1) body)"
  "k_stamps (accept body s) = insert (lb_holder body, lb_renew body) (k_stamps s)"
  "k_deleted (accept body s) = k_deleted s"
  "k_repeated (accept body s) \<longleftrightarrow> k_repeated s \<or> lb_holder body \<noteq> None \<and> (lb_holder body, lb_renew body) \<in> k_stamps s"
  by (simp_all add: accept_def)

lemma stored_as_simps [simp]:
  "o_holder (stored_as v body) = lb_holder body" "o_duration (stored_as v body) = Some (lb_duration body)"
  "o_renew (stored_as v body) = lb_renew body" "o_version (stored_as v body) = v"
  by (simp_all add: stored_as_def)

lemma accept_obj_ok: "obj_ok s \<Longrightarrow> obj_ok (accept body s)"
  by (simp add: obj_ok_def)

lemma accept_seen_ok: "seen_ok s seen \<Longrightarrow> seen_ok (accept body s) seen"
  by (auto simp: seen_ok_def)

lemma accept_watched:
  "watched s b \<Longrightarrow> lb_holder body = None \<or> (lb_holder body, lb_renew body) \<notin> k_stamps s \<Longrightarrow>
   watched (accept body s) b"
  by (auto simp: watched_def)

lemma accept_flight_ok: "flight_ok s q create' body' \<Longrightarrow> flight_ok (accept body s) q create' body'"
  by (force simp: flight_ok_def accepts_def)

lemma accept_writing_ok: "writing_ok s p \<Longrightarrow> writing_ok (accept body s) p"
  by (simp add: writing_ok_def)

text \<open>The write backs the writer, and whoever loses the lease to it has stopped leading.\<close>

lemma accept_backs_writer:
  assumes "flight_ok s p create body" and "lb_holder body \<noteq> None"
    and "d \<le> k_now s + real_of_int (kb_lease_duration (k_node s p)) - K8S_SKEW_SECONDS"
  shows "backed (accept body s) p d"
  using assms by (simp add: flight_ok_def backed_def)

lemma accept_keeps_backed:
  assumes inv: "k8s_inv s" and fl: "flight_ok s p create body" and acc: "accepts (k_obj s) create body"
    and d: "serving (k_phase s q)" "kpromised (k_node s q) (k_phase s q) (k_answer s q) d" "k_now s < d"
  shows "backed (accept body s) q d"
proof -
  have "backed s q d" using inv d by (simp add: k8s_inv_def promises_kept_def)
  then obtain ob where ob: "k_obj s = Some ob" "o_holder ob = Some (kb_identity (k_node s q))"
    "o_duration ob = Some (kb_lease_duration (k_node s q))"
    "d \<le> k_written s + real_of_int (kb_lease_duration (k_node s q)) - K8S_SKEW_SECONDS"
    by (auto simp: backed_def)
  have old: "k_written s \<le> k_now s" using inv by (simp add: k8s_inv_def obj_ok_def)
  have inj: "inj (\<lambda>p. kb_identity (k_node s p))" using inv by (simp add: k8s_inv_def)
  show ?thesis
  proof (cases "lb_holder body = None")
    case True
    with fl acc ob(1,2) have "kb_identity (k_node s q) = kb_identity (k_node s p)" "\<not> serving (k_phase s p)"
      by (auto simp: flight_ok_def)
    with d(1) injD [OF inj] show ?thesis by blast
  next
    case False
    have "q = p"
    proof (rule ccontr)
      assume "q \<noteq> p"
      with inj have "kb_identity (k_node s q) \<noteq> kb_identity (k_node s p)" by (auto dest: injD)
      moreover have "lawful s p" using fl acc False by (simp add: flight_ok_def)
      moreover have "kb_identity (k_node s q) \<noteq> []" using inv by (simp add: k8s_inv_def)
      ultimately have "kb_lease_duration (k_node s q) = 0 \<or>
          k_written s + real_of_int (kb_lease_duration (k_node s q)) \<le> k_now s"
        using ob by (auto simp: lawful_def)
      with ob(4) old d(3) show False by (auto simp: K8S_SKEW_SECONDS_def)
    qed
    with accept_backs_writer [OF fl False, of d] ob(4) old show ?thesis by simp
  qed
qed

lemma k8s_inv_accept:
  assumes inv: "k8s_inv s" and fl: "(p, create, body) \<in> k_flight s" and acc: "accepts (k_obj s) create body"
    and fresh: "lb_holder body = None \<or> (lb_holder body, lb_renew body) \<notin> k_stamps s"
  shows "k8s_inv (accept body s)"
proof -
  have ok: "flight_ok s p create body" using inv fl by (simp add: k8s_inv_def)
  have "promises_kept (accept body s) q" for q
    using accept_keeps_backed [OF inv ok acc] by (simp add: promises_kept_def)
  with inv fresh show ?thesis
    by (simp add: k8s_inv_def accept_obj_ok accept_seen_ok accept_watched accept_flight_ok accept_writing_ok)
qed

text \<open>The answer of an accepted write is a promise the write backs.\<close>

lemma k8s_inv_written:
  assumes inv: "k8s_inv s" and phase: "k_phase s p = KWriting action state mt body"
    and acc: "accepts (k_obj s) (action = ACTION_CREATE) body" and fresh: "(lb_holder body, lb_renew body) \<notin> k_stamps s"
  shows "k8s_inv ((accept body s)\<lparr>k_answer := (k_answer s)(p := Some True)\<rparr>)" (is "k8s_inv ?s")
proof -
  have w: "mt \<le> k_now s" "(p, action = ACTION_CREATE, body) \<in> k_flight s" "lb_holder body \<noteq> None"
    using inv phase by (auto simp: k8s_inv_def writing_ok_def)
  have ok: "flight_ok s p (action = ACTION_CREATE) body" using inv w(2) by (simp add: k8s_inv_def)
  have inv': "k8s_inv (accept body s)" using k8s_inv_accept [OF inv w(2) acc] fresh by simp
  have same: "backed ?s q d = backed (accept body s) q d" "watched ?s b = watched (accept body s) b"
    "seen_ok ?s x = seen_ok (accept body s) x" "flight_ok ?s q c bo = flight_ok (accept body s) q c bo"
    "writing_ok ?s q = writing_ok (accept body s) q" "obj_ok ?s = obj_ok (accept body s)" for q d b x c bo
    by (rule parts_same; simp)+
  have "promises_kept ?s q" for q
  proof (cases "q = p")
    case True
    have "backed (accept body s) p d"
      if "kpromised (k_node s p) (k_phase s p) (Some True) d" "k_now s < d" "serving (k_phase s p)" for d
    proof (cases "kb_leader_flag (k_node s p) \<and> kb_leader_until_mono (k_node s p) = Some d")
      case True
      with inv' that(2,3) show ?thesis by (simp add: k8s_inv_def promises_kept_def kpromised_def)
    next
      case False
      with that(1) phase have "d = mt + real_of_int (kb_lease_duration (k_node s p)) - K8S_SKEW_SECONDS"
        by (auto simp: kpromised_def)
      with w(1) show ?thesis by (intro accept_backs_writer [OF ok w(3)]) simp
    qed
    with True show ?thesis by (simp add: promises_kept_def same)
  next
    case False
    with inv' show ?thesis by (simp add: k8s_inv_def promises_kept_def same)
  qed
  with inv' show ?thesis by (simp add: k8s_inv_def same)
qed

subsection \<open>Steps of a node\<close>

lemma fold_annotations_core:
  assumes "fold_annotations live annotations b = (b', r)"
  shows "k8s_core b' = k8s_core b" "observation_core b' = observation_core b"
  using assms by (auto simp: fold_annotations_def reboot_ran_annotation_def reconcile_local_reboot_ran_def
      observe_reboot_ran_def k8s_core_def observation_core_def Let_def split: prod.splits if_splits)

lemma watched_core: "observation_core b' = observation_core b \<Longrightarrow> watched s b' = watched s b"
  by (simp add: observation_core_def watched_def)

text \<open>
  A new state and phase of one node, with the writes it sends: it promises nothing new, and what it
  sends is lawful.
\<close>

lemma k8s_inv_put:
  assumes inv: "k8s_inv s"
    and core: "kb_identity b = kb_identity (k_node s p)" "kb_lease_duration b = kb_lease_duration (k_node s p)"
    and prom: "\<And>d. serving phase \<Longrightarrow> kpromised b phase None d \<Longrightarrow>
                 serving (k_phase s p) \<and> kpromised (k_node s p) (k_phase s p) (k_answer s p) d"
    and watch: "watched s b"
    and stopped: "\<not> serving (k_phase s p) \<Longrightarrow> \<not> serving phase"
    and sent: "\<And>create body. (p, create, body) \<in> F \<Longrightarrow>
                 flight_ok (s\<lparr>k_phase := (k_phase s)(p := phase)\<rparr>) p create body"
    and only: "\<And>q create body. (q, create, body) \<in> F \<Longrightarrow> q = p"
    and writing: "\<And>a st mt body. phase = KWriting a st mt body \<Longrightarrow>
                    mt \<le> k_now s \<and> (p, a = ACTION_CREATE, body) \<in> F \<and> lb_holder body \<noteq> None"
  shows "k8s_inv ((put_k8s p b phase s)\<lparr>k_flight := F \<union> k_flight s\<rparr>)" (is "k8s_inv ?s")
proof -
  have ids: "kb_identity (k_node (put_k8s p b phase s) q) = kb_identity (k_node s q)"
    "kb_lease_duration (k_node (put_k8s p b phase s) q) = kb_lease_duration (k_node s q)" for q
    using core by simp_all
  have law: "lawful ?s q = lawful s q" "backed ?s q d = backed s q d" for q d
    using core by (cases "q = p"; simp add: lawful_def backed_def)+
  have "promises_kept ?s q" for q
    using inv prom by (cases "q = p") (auto simp: k8s_inv_def promises_kept_def law)
  moreover have "watched ?s (k_node ?s q) \<and> seen_ok ?s (k_seen ?s q)" for q
    using inv watch by (cases "q = p") (auto simp: k8s_inv_def watched_def seen_ok_def)
  moreover have "writing_ok ?s q" for q
    using inv writing by (cases "q = p") (auto simp: k8s_inv_def writing_ok_def)
  moreover have "flight_ok ?s q create body" if fl: "(q, create, body) \<in> F \<union> k_flight s" for q create body
  proof (cases "(q, create, body) \<in> F")
    case True
    with only have q: "q = p" by blast
    from sent [of create body] True have "flight_ok (s\<lparr>k_phase := (k_phase s)(p := phase)\<rparr>) p create body"
      unfolding q by simp
    then show ?thesis unfolding q by (auto simp: flight_ok_def lawful_def core split: if_splits)
  next
    case False
    with fl inv have "flight_ok s q create body" by (auto simp: k8s_inv_def)
    moreover have "\<not> serving (k_phase s q) \<Longrightarrow> \<not> serving (k_phase ?s q)" using stopped by auto
    ultimately show ?thesis by (auto simp: flight_ok_def law core)
  qed
  moreover have "inj (\<lambda>q. kb_identity (k_node ?s q)) \<and> (\<forall>q. kb_identity (k_node ?s q) \<noteq> [])"
  proof -
    have "(\<lambda>q. kb_identity (k_node ?s q)) = (\<lambda>q. kb_identity (k_node s q))" using core by auto
    then show ?thesis using inv by (simp add: k8s_inv_def fun_eq_iff)
  qed
  moreover have "obj_ok ?s" using inv by (simp add: k8s_inv_def obj_ok_def)
  ultimately show ?thesis unfolding k8s_inv_def by simp
qed

lemma k8s_inv_put_only:
  assumes "k8s_inv s" and "kb_identity b = kb_identity (k_node s p)"
    and "kb_lease_duration b = kb_lease_duration (k_node s p)"
    and "\<And>d. serving phase \<Longrightarrow> kpromised b phase None d \<Longrightarrow>
           serving (k_phase s p) \<and> kpromised (k_node s p) (k_phase s p) (k_answer s p) d"
    and "watched s b" and "\<not> serving (k_phase s p) \<Longrightarrow> \<not> serving phase"
    and "\<And>a st mt body. phase \<noteq> KWriting a st mt body"
  shows "k8s_inv (put_k8s p b phase s)"
proof -
  have "k8s_inv ((put_k8s p b phase s)\<lparr>k_flight := {} \<union> k_flight s\<rparr>)"
    by (rule k8s_inv_put [OF assms(1-3)]) (use assms(4-7) in auto)
  then show ?thesis by (simp add: put_k8s_def)
qed

text \<open>What planning a round does to the observation, and what it sends.\<close>

lemma track_core: "k8s_core (track_observation st mt b) = k8s_core b"
  by (simp add: track_observation_def k8s_core_def split: option.split)

lemma watched_track:
  assumes "watched s b" and "seen_ok s (Some obj)" and "obj_ok s"
  shows "watched s (track_observation (map_option parse_lease obj) (k_now s) b)"
  using assms by (cases obj) (auto simp: watched_def seen_ok_def obj_ok_def track_observation_def parse_lease_def)

lemma track_observed:
  "track_observation (Some st) mt b = b' \<Longrightarrow>
   kb_observed_holder b' = ls_holder st \<and> kb_observed_renew b' = ls_renew_time st"
  by (auto simp: track_observation_def split: if_splits)

lemma plan_round_node:
  assumes "plan_round live now mt obj b = (b', action, w, state)"
  shows "k8s_core b' = k8s_core b"
    and "observation_core b' = observation_core (track_observation (map_option parse_lease obj) mt b)"
    and "state = map_option parse_lease obj"
proof -
  let ?st = "map_option parse_lease obj"
  obtain b2 ann where fold: "fold_annotations live (case ?st of Some st \<Rightarrow> ls_annotations st | None \<Rightarrow> [])
      (track_observation ?st mt b) = (b2, ann)" by fastforce
  with assms have b': "b' = b2" and st: "state = ?st"
    by (auto simp: plan_round_def plan_lease_write_def Let_def split: if_splits)
  show "k8s_core b' = k8s_core b" using fold_annotations_core(1) [OF fold] b' by (simp add: track_core)
  show "observation_core b' = observation_core (track_observation ?st mt b)"
    using fold_annotations_core(2) [OF fold] b' by simp
  show "state = ?st" by (rule st)
qed

lemma plan_round_body:
  assumes "plan_round live now mt obj b = (b', action, Some body, state)"
  shows "lb_holder body = Some (kb_identity b)" and "lb_duration body = kb_lease_duration b"
    and "obj = None \<Longrightarrow> action = ACTION_CREATE"
    and "obj = Some ob \<Longrightarrow> action \<noteq> ACTION_CREATE \<and> lb_version body = Some (o_version ob)"
    and "obj = Some ob \<Longrightarrow> o_holder ob = Some (kb_identity b) \<or> no_holder (o_holder ob) \<or>
           lease_is_expired (parse_lease ob) mt (kb_observed_at b')"
    and "lb_version body = None \<or> obj \<noteq> None"
proof -
  note core = plan_round_node [OF assms]
  have ids: "kb_identity b' = kb_identity b" "kb_lease_duration b' = kb_lease_duration b"
    using core(1) by (simp_all add: k8s_core_def)
  obtain ann where plan: "plan_lease_write obj (kb_identity b') now (kb_lease_duration b') (kb_observed_at b') mt ann
      (kb_observed_holder b) (kb_observed_at b) = (action, Some body, state)"
    using assms by (auto simp: plan_round_def Let_def split: prod.splits)
  show "lb_holder body = Some (kb_identity b)" "lb_duration body = kb_lease_duration b"
    using plan ids by (auto simp: plan_lease_write_def build_lease_body_def Let_def split: if_splits prod.splits)
  show "action = ACTION_CREATE" if "obj = None"
    using plan that by (auto simp: plan_lease_write_def decide_lease_action_def Let_def split: if_splits)
  show "action \<noteq> ACTION_CREATE \<and> lb_version body = Some (o_version ob)" if "obj = Some ob"
    using plan that by (auto simp: plan_lease_write_def decide_lease_action_def build_lease_body_def parse_lease_def Let_def
        split: if_splits prod.splits)
  show "o_holder ob = Some (kb_identity b) \<or> no_holder (o_holder ob) \<or>
      lease_is_expired (parse_lease ob) mt (kb_observed_at b')" if "obj = Some ob"
    using plan that ids by (auto simp: plan_lease_write_def decide_lease_action_def Let_def parse_lease_def split: if_splits)
  show "lb_version body = None \<or> obj \<noteq> None"
    using plan by (cases obj) (auto simp: plan_lease_write_def build_lease_body_def Let_def split: if_splits prod.splits)
qed

lemma plan_round_flight:
  assumes inv: "k8s_inv s" and seen: "k_seen s p = Some obj"
    and plan: "plan_round live now (k_now s) obj (k_node s p) = (b, action, Some body, state)"
  shows "flight_ok (s\<lparr>k_phase := (k_phase s)(p := phase)\<rparr>) p (action = ACTION_CREATE) body"
proof -
  note body = plan_round_body [OF plan] and node = plan_round_node [OF plan]
  have ok: "watched s (k_node s p)" "seen_ok s (Some obj)" "obj_ok s"
    using inv seen by (auto simp: k8s_inv_def simp flip: seen)
  have law: "lawful s p" if acc: "accepts (k_obj s) (action = ACTION_CREATE) body"
  proof -
    have "d = 0 \<or> k_written s + real_of_int d \<le> k_now s"
      if ob: "k_obj s = Some ob" "o_holder ob = Some h" "h \<noteq> []" "h \<noteq> kb_identity (k_node s p)" "o_duration ob = Some d"
      for ob h d
    proof -
      obtain ob' where ob': "obj = Some ob'" "lb_version body = Some (o_version ob')"
        using acc ob(1) body(3,4) by (cases obj) (auto simp: accepts_def)
      with acc ob(1) body(4) ok(2,3) have same: "ob' = ob"
        by (auto simp: accepts_def seen_ok_def obj_ok_def split: if_splits)
      with ob' body(5) ob(2-4) have exp: "lease_is_expired (parse_lease ob) (k_now s) (kb_observed_at b)"
        by (auto simp: no_holder_def)
      have "watched s b"
        using watched_track [OF ok(1,2,3)] watched_core [OF node(2)] by simp
      moreover have "kb_observed_holder b = o_holder ob" "kb_observed_renew b = o_renew ob"
        using node(2) ob'(1) same track_observed [OF refl, of "parse_lease ob" "k_now s" "k_node s p"]
        by (simp_all add: observation_core_def parse_lease_def)
      ultimately obtain t where "kb_observed_at b = Some t" "k_written s \<le> t"
        using ob(1,2) by (auto simp: watched_def)
      with exp ob(5) show ?thesis by (auto simp: lease_is_expired_def parse_lease_def split: if_splits)
    qed
    then show ?thesis by (auto simp: lawful_def)
  qed
  have "v \<le> k_version s" if "lb_version body = Some v" for v
    using that body(3,4,6) ok(2) by (cases obj) (auto simp: seen_ok_def)
  with body(1,2) law show ?thesis by (auto simp: flight_ok_def lawful_def)
qed

lemma plan_release_flight:
  assumes inv: "k8s_inv s" and seen: "k_seen s p = Some obj" and "\<not> serving phase"
    and plan: "plan_release live obj (k_node s p) = (b, Some body)"
  shows "flight_ok (s\<lparr>k_phase := (k_phase s)(p := phase)\<rparr>) p False body"
    and "k8s_core b = k8s_core (k_node s p)" and "observation_core b = observation_core (k_node s p)"
proof -
  have ok: "seen_ok s (Some obj)" "obj_ok s" using inv seen by (auto simp: k8s_inv_def simp flip: seen)
  obtain ob where ob: "obj = Some ob" "o_holder ob = Some (kb_identity (k_node s p))" "lb_holder body = None"
    "lb_version body = Some (o_version ob)"
    using plan by (auto simp: plan_release_def parse_lease_def Let_def split: option.splits if_splits prod.splits)
  with ok assms(3) show "flight_ok (s\<lparr>k_phase := (k_phase s)(p := phase)\<rparr>) p False body"
    by (auto simp: flight_ok_def accepts_def seen_ok_def obj_ok_def)
  show "k8s_core b = k8s_core (k_node s p)" "observation_core b = observation_core (k_node s p)"
    using plan by (auto simp: plan_release_def Let_def split: option.splits if_splits prod.splits
        dest: fold_annotations_core)
qed

subsection \<open>The invariant holds\<close>

lemma k8s_inv_init: "k8s_init s \<Longrightarrow> k8s_inv s"
proof -
  assume init: "k8s_init s"
  have "kb_identity (k_node s p) \<noteq> [] \<and> \<not> kb_leader_flag (k_node s p) \<and> kb_observed_holder (k_node s p) = None" for p
  proof -
    obtain nm display token d where "k_node s p = new_k8s_backend nm display token d"
      using init unfolding k8s_init_def by metis
    then show ?thesis by (simp add: new_k8s_backend_def)
  qed
  with init show ?thesis
    by (simp add: k8s_inv_def k8s_init_def obj_ok_def promises_kept_def kpromised_def watched_def seen_ok_def
        writing_ok_def)
qed

lemma apply_round_simps [simp]:
  "kb_identity (k8s_apply_round a ok st mt b) = kb_identity b"
  "kb_lease_duration (k8s_apply_round a ok st mt b) = kb_lease_duration b"
  "observation_core (k8s_apply_round a ok st mt b) = observation_core b"
  "\<not> ok \<Longrightarrow> \<not> kb_leader_flag (k8s_apply_round a ok st mt b)"
  by (simp_all add: k8s_apply_round_def observation_core_def Let_def)

lemma apply_round_until:
  "kb_leader_flag (k8s_apply_round a ok st mt b) \<Longrightarrow>
   ok \<and> kb_leader_until_mono (k8s_apply_round a ok st mt b) =
     Some (mt + real_of_int (kb_lease_duration b) - K8S_SKEW_SECONDS)"
  by (auto simp: k8s_apply_round_def Let_def split: if_splits)

lemma k8s_inv_observe:
  assumes inv: "k8s_inv s" and phase: "k_phase s p = KObserving" and seen: "k_seen s p = Some obj"
    and plan: "plan_round live now (k_now s) obj (k_node s p) = (b, action, Some body, state)"
  shows "k8s_inv (send p (action = ACTION_CREATE) body (put_k8s p b (KWriting action state (k_now s) body) s))"
proof -
  note node = plan_round_node [OF plan]
  have ok: "watched s (k_node s p)" "seen_ok s (Some obj)" "obj_ok s"
    using inv seen by (auto simp: k8s_inv_def simp flip: seen)
  have "watched s b" using watched_track [OF ok] watched_core [OF node(2)] by simp
  then have "k8s_inv ((put_k8s p b (KWriting action state (k_now s) body) s)
      \<lparr>k_flight := {(p, action = ACTION_CREATE, body)} \<union> k_flight s\<rparr>)"
    by (intro k8s_inv_put [OF inv])
      (use node(1) phase plan_round_flight [OF inv seen plan] plan_round_body(1) [OF plan]
        in \<open>auto simp: k8s_core_def serving_def kpromised_def\<close>)
  then show ?thesis by (simp add: send_def)
qed

definition undisturbed :: "k8s_sys \<Rightarrow> bool" where
  "undisturbed s \<longleftrightarrow> \<not> k_deleted s \<and> \<not> k_repeated s"

lemma undisturbed_before: "k8s_step s s' \<Longrightarrow> undisturbed s' \<Longrightarrow> undisturbed s"
  by (induction rule: k8s_step.induct) (auto simp: undisturbed_def send_def)

lemma k8s_inv_step:
  assumes inv: "k8s_inv s" and step: "k8s_step s s'" and und: "undisturbed s'"
  shows "k8s_inv s'"
proof -
  have watch: "watched s (k_node s p)" for p using inv by (simp add: k8s_inv_def)
  from step show ?thesis
  proof cases
    case (begin_round p)
    then show ?thesis
      by (auto intro!: k8s_inv_put_only [OF inv] watch simp: serving_def kpromised_def)
  next
    case (read_lands p)
    have "seen_ok s (Some (k_obj s))" using inv by (auto simp: k8s_inv_def seen_ok_def obj_ok_def)
    moreover have "seen_ok s (k_seen s q)" for q using inv by (simp add: k8s_inv_def)
    ultimately show ?thesis unfolding read_lands(1) by (intro k8s_inv_parts [OF inv]) auto
  next
    case (wait p obj now b action state)
    note node = plan_round_node [OF wait(4)]
    have "seen_ok s (Some obj)" "obj_ok s" using inv wait(3) by (auto simp: k8s_inv_def simp flip: wait(3))
    with watch have "watched s b" using watched_track watched_core [OF node(2)] by simp
    then have "watched s (k8s_apply_round action False state (k_now s) b)" using watched_core apply_round_simps(3) by blast
    with node(1) wait show ?thesis
      by (auto intro!: k8s_inv_put_only [OF inv] simp: serving_def kpromised_def k8s_core_def)
  next
    case (observe p obj now b action body state)
    then show ?thesis using k8s_inv_observe [OF inv] by blast
  next
    case (write_lands p action state mt body)
    have "lb_holder body \<noteq> None" using inv write_lands(2) by (simp add: k8s_inv_def writing_ok_def)
    with und write_lands show ?thesis using k8s_inv_written [OF inv] by (auto simp: undisturbed_def)
  next
    case (write_refused p action state mt body)
    have "seen_ok s (k_seen s q)" for q using inv by (simp add: k8s_inv_def)
    then show ?thesis unfolding write_refused(1) by (intro k8s_inv_parts [OF inv]) (auto split: if_splits)
  next
    case (stray p create body)
    with und show ?thesis using k8s_inv_accept [OF inv stray(2,3)] by (auto simp: undisturbed_def)
  next
    case delete
    with und show ?thesis by (simp add: undisturbed_def)
  next
    case (apply_write p action state mt body ok)
    have "watched s (k8s_apply_round action ok state mt (k_node s p))" using watch watched_core apply_round_simps(3) by blast
    moreover have "kpromised (k_node s p) (k_phase s p) (k_answer s p) d"
      if "kpromised (k8s_apply_round action ok state mt (k_node s p)) KIdle None d" for d
    proof -
      from that have "kb_leader_flag (k8s_apply_round action ok state mt (k_node s p))"
        "kb_leader_until_mono (k8s_apply_round action ok state mt (k_node s p)) = Some d" by (simp_all add: kpromised_def)
      with apply_round_until [OF this(1)] apply_write(2,3) show ?thesis by (simp add: kpromised_def)
    qed
    ultimately show ?thesis unfolding apply_write(1)
      by (intro k8s_inv_put_only [OF inv]) (use apply_write(2) in \<open>auto simp: serving_def\<close>)
  next
    case (abandon_round p)
    then show ?thesis
      by (auto intro!: k8s_inv_put_only [OF inv] watch simp: serving_def kpromised_def)
  next
    case (mark b p job)
    have "k8s_core (k_node s' q) = k8s_core (k_node s q)" "observation_core (k_node s' q) = observation_core (k_node s q)" for q
      unfolding mark by (simp_all add: reconcile_local_reboot_ran_def k8s_core_def observation_core_def)
    moreover have "seen_ok s (k_seen s q)" for q using inv by (simp add: k8s_inv_def)
    ultimately show ?thesis by (intro k8s_inv_parts [OF inv]) (auto simp: mark)
  next
    case (reload p live)
    have "seen_ok s (k_seen s q)" for q using inv by (simp add: k8s_inv_def)
    then show ?thesis unfolding reload by (intro k8s_inv_parts [OF inv]) auto
  next
    case (stop p)
    then show ?thesis
      by (auto intro!: k8s_inv_put_only [OF inv] watch simp: serving_def kpromised_def)
  next
    case (release p obj b body)
    have ns: "\<not> serving KClosing" by (simp add: serving_def)
    note rel = plan_release_flight [OF inv release(3) ns release(4)]
    have "watched s b" using watch watched_core [OF rel(3)] by simp
    then have "k8s_inv ((put_k8s p b KClosing s)\<lparr>k_flight := {(p, False, body)} \<union> k_flight s\<rparr>)"
      by (intro k8s_inv_put [OF inv]) (use rel(1,2) in \<open>auto simp: k8s_core_def serving_def\<close>)
    then show ?thesis unfolding release(1) by (simp add: send_def)
  next
    case (close p)
    have "watched s ((k_node s p)\<lparr>kb_leader_flag := False\<rparr>)" using watch [of p] by (simp add: watched_def)
    with close show ?thesis by (auto intro!: k8s_inv_put_only [OF inv] simp: serving_def)
  next
    case (tick t)
    have "backed s' p d = backed s p d" for p d unfolding tick by (simp add: backed_def)
    then have "promises_kept s' p" if "promises_kept s p" for p
      using that tick by (auto simp: promises_kept_def)
    moreover have "flight_ok s' p create body" if "flight_ok s p create body" for p create body
      using that order_trans [OF _ tick(2)] unfolding tick(1) by (auto simp: flight_ok_def lawful_def)
    moreover have "writing_ok s' p" if "writing_ok s p" for p
      using that order_trans [OF _ tick(2)] unfolding tick(1) by (simp add: writing_ok_def)
    moreover have "obj_ok s'" if "obj_ok s"
      using that order_trans [OF _ tick(2)] unfolding tick(1) by (simp add: obj_ok_def)
    moreover have "watched s' b = watched s b" "seen_ok s' x = seen_ok s x" for b x
      unfolding tick(1) by (simp_all add: watched_def seen_ok_def)
    moreover have "k_node s' = k_node s" "k_seen s' = k_seen s" "k_flight s' = k_flight s" by (simp_all add: tick(1))
    ultimately show ?thesis using inv unfolding k8s_inv_def by simp
  qed
qed

lemma k8s_reachable_inv: "k8s_reachable s \<Longrightarrow> undisturbed s \<Longrightarrow> k8s_inv s"
  by (induction rule: k8s_reachable_induct) (auto intro: k8s_inv_init k8s_inv_step dest: undisturbed_before)

lemma k8s_leader_holds_lease:
  assumes "k8s_inv s" and "serving (k_phase s p)" and "k8s_is_leader (k_now s) (k_node s p)"
  shows "\<exists>ob. k_obj s = Some ob \<and> o_holder ob = Some (kb_identity (k_node s p))"
proof -
  obtain d where "kpromised (k_node s p) (k_phase s p) (k_answer s p) d" "k_now s < d"
    using assms(3) by (auto simp: k8s_is_leader_def kpromised_def split: if_splits option.splits)
  with assms(1,2) have "backed s p d" by (simp add: k8s_inv_def promises_kept_def)
  then show ?thesis by (auto simp: backed_def)
qed

text \<open>The lease object as a fenced backend, among the nodes that serve.\<close>

interpretation lease_object: single_holder k8s_inv
  "\<lambda>s p. serving (k_phase s p) \<and> k8s_is_leader (k_now s) (k_node s p)"
  "\<lambda>s p. kb_identity (k_node s p)" "\<lambda>s. Option.bind (k_obj s) o_holder"
proof
  show "Option.bind (k_obj s) o_holder = Some (kb_identity (k_node s p))"
    if "k8s_inv s" and "serving (k_phase s p) \<and> k8s_is_leader (k_now s) (k_node s p)" for s p
    using k8s_leader_holds_lease [OF that(1), of p] that(2) by auto
  show "p = q" if "k8s_inv s" and "kb_identity (k_node s p) = kb_identity (k_node s q)" for s p q
    using that by (auto simp: k8s_inv_def inj_def)
qed

end
