(* ===== verification/K8sProps.thy ===== *)
theory K8sProps
  imports K8sLeaders
begin

text \<open>
  Properties of the election over a Kubernetes \<open>Lease\<close>: one leader among the serving nodes, whatever
  their wall clocks say, and the window that a graceful stop opens.
\<close>

subsection \<open>A run of the system\<close>

definition empty_cluster :: k8s_sys where
  "empty_cluster =
     \<lparr>k_now = 0, k_obj = None, k_version = 0, k_written = 0, k_stamps = {}, k_flight = {},
      k_node = (\<lambda>p. new_k8s_backend p p ''t'' 15), k_phase = (\<lambda>_. KIdle), k_seen = (\<lambda>_. None),
      k_answer = (\<lambda>_. None), k_live = (\<lambda>_. ''j''), k_deleted = False, k_repeated = False\<rparr>"

lemma empty_cluster_init: "k8s_init empty_cluster"
  by (auto simp: k8s_init_def empty_cluster_def new_k8s_backend_def inj_def)

text \<open>A round in which the write is accepted.\<close>

lemma k8s_round_wins:
  assumes idle: "k_phase s p = KIdle"
    and plan: "plan_round (k_live s p) now (k_now s) (k_obj s) (k_node s p) = (b, action, Some body, state)"
    and acc: "accepts (k_obj s) (action = ACTION_CREATE) body"
  obtains s' where "k8s_step\<^sup>*\<^sup>* s s'" and "k_now s' = k_now s"
    and "k_node s' = (k_node s)(p := k8s_apply_round action True state (k_now s) b)"
    and "k_phase s' = (k_phase s)(p := KIdle)" and "k_obj s' = Some (stored_as (k_version s + 1) body)"
    and "k_version s' = k_version s + 1" and "k_live s' = k_live s"
    and "k_stamps s' = insert (lb_holder body, lb_renew body) (k_stamps s)" and "k_deleted s' = k_deleted s"
    and "k_repeated s' \<longleftrightarrow> k_repeated s \<or> lb_holder body \<noteq> None \<and> (lb_holder body, lb_renew body) \<in> k_stamps s"
proof -
  let ?s1 = "put_k8s p (k_node s p) KObserving s"
  let ?s2 = "?s1\<lparr>k_seen := (k_seen ?s1)(p := Some (k_obj s))\<rparr>"
  let ?s3 = "send p (action = ACTION_CREATE) body (put_k8s p b (KWriting action state (k_now s) body) ?s2)"
  let ?s4 = "(accept body ?s3)\<lparr>k_answer := (k_answer ?s3)(p := Some True)\<rparr>"
  let ?s5 = "put_k8s p (k8s_apply_round action True state (k_now s) b) KIdle ?s4"
  have 1: "k8s_step s ?s1" by (rule k8s_step.begin_round [OF idle])
  have 2: "k8s_step ?s1 ?s2" using k8s_step.read_lands [of ?s1 p] by simp
  have 3: "k8s_step ?s2 ?s3"
    using k8s_step.observe [of ?s2 p "k_obj s" now b action body state] plan by (simp add: put_k8s_def)
  have 4: "k8s_step ?s3 ?s4"
    by (rule k8s_step.write_lands [where action = action and state = state and mt = "k_now s"])
      (use acc in \<open>auto simp: send_def\<close>)
  have 5: "k8s_step ?s4 ?s5"
    using k8s_step.apply_write [of ?s4 p action state "k_now s" body True] by (simp add: send_def accept_def put_k8s_def)
  show thesis
  proof (rule that [of ?s5])
    show "k8s_step\<^sup>*\<^sup>* s ?s5"
      using 1 2 3 4 5 by (meson rtranclp.rtrancl_into_rtrancl rtranclp.rtrancl_refl)
    show "k_live ?s5 = k_live s" by (simp add: put_k8s_def accept_def send_def)
  qed (simp_all add: send_def fun_upd_twist)
qed

definition first_body :: lease_body where
  "first_body = \<lparr>lb_holder = Some ''a#t'', lb_duration = 15, lb_acquire = Some 7, lb_renew = Some 7,
     lb_transitions = 0, lb_annotations = None, lb_version = None\<rparr>"

lemma first_plan:
  "\<exists>b. plan_round ''j'' 7 0 None (new_k8s_backend ''a'' ''a'' ''t'' 15) = (b, ACTION_CREATE, Some first_body, None) \<and>
       kb_leader_flag b = False \<and> kb_lease_duration b = 15 \<and> kb_identity b = ''a#t'' \<and> lb_reboot_ran b = {} \<and>
       lb_reboot_ran_local b = {}"
  by (simp add: plan_round_def track_observation_def fold_annotations_def decode_reboot_ran_def
      reboot_ran_annotation_def reconcile_local_reboot_ran_def observe_reboot_ran_def plan_lease_write_def
      decide_lease_action_def build_lease_body_def new_k8s_backend_def no_holder_def first_body_def Let_def)

lemma first_round:
  obtains s where "k8s_reachable s" and "k_now s = 0" and "k8s_is_leader 0 (k_node s ''a'')"
    and "k_phase s = (\<lambda>_. KIdle)" and "k_obj s = Some (stored_as 1 first_body)" and "k_version s = 1"
    and "k_stamps s = {(Some ''a#t'', Some 7)}" and "k_live s = (\<lambda>_. ''j'')"
    and "\<And>q. q \<noteq> ''a'' \<Longrightarrow> k_node s q = new_k8s_backend q q ''t'' 15"
    and "kb_identity (k_node s ''a'') = ''a#t''" and "undisturbed s"
proof -
  let ?s = empty_cluster
  obtain b where b: "plan_round ''j'' 7 0 None (new_k8s_backend ''a'' ''a'' ''t'' 15) = (b, ACTION_CREATE, Some first_body, None)"
    "kb_lease_duration b = 15" "kb_identity b = ''a#t''" using first_plan by blast
  obtain s where s: "k8s_step\<^sup>*\<^sup>* ?s s" "k_now s = k_now ?s"
    "k_node s = (k_node ?s)(''a'' := k8s_apply_round ACTION_CREATE True None (k_now ?s) b)"
    "k_phase s = (k_phase ?s)(''a'' := KIdle)" "k_obj s = Some (stored_as (k_version ?s + 1) first_body)"
    "k_version s = k_version ?s + 1" "k_live s = k_live ?s"
    "k_stamps s = insert (lb_holder first_body, lb_renew first_body) (k_stamps ?s)" "k_deleted s = k_deleted ?s"
    "k_repeated s \<longleftrightarrow> k_repeated ?s \<or> lb_holder first_body \<noteq> None \<and> (lb_holder first_body, lb_renew first_body) \<in> k_stamps ?s"
    by (rule k8s_round_wins [of ?s "''a''" 7 b ACTION_CREATE first_body None])
      (use b in \<open>simp_all add: empty_cluster_def accepts_def\<close>)
  show thesis
  proof (rule that [of s])
    show "k8s_reachable s" using s(1) empty_cluster_init by (auto simp: k8s_reachable_def)
    show "k8s_is_leader 0 (k_node s ''a'')"
      using s(3) b by (simp add: k8s_is_leader_def k8s_apply_round_def K8S_SKEW_SECONDS_def empty_cluster_def Let_def)
  qed (use s b in \<open>simp_all add: empty_cluster_def first_body_def fun_eq_iff undisturbed_def\<close>)
qed

subsection \<open>One leader\<close>

text \<open>
  C9. Over a Kubernetes lease two nodes that have not been told to stop pass the gate of a \<open>Leader\<close> job at
  the same time only after the lease object was deleted from outside, or after a holder stamped two of its
  writes with the same renew time (its wall clock stood still or was set back); their requests may
  interleave in any way, and otherwise their wall clocks are arbitrary.
\<close>

theorem lease_object_has_one_leader:
  assumes "k8s_reachable s" and "p \<noteq> q" and "serving (k_phase s p)" and "serving (k_phase s q)"
  shows "lease_allows True (Some (k8s_reads (k_now s) (k_node s p))) Leader \<and>
         lease_allows True (Some (k8s_reads (k_now s) (k_node s q))) Leader \<longrightarrow> k_deleted s \<or> k_repeated s"
  using lease_object.one_leader [OF k8s_reachable_inv [OF assms(1)], of p q] assms(2-4)
  by (auto simp: lease_allows_def lb_has_conflict_def k8s_reads_def undisturbed_def)

theorem lease_object_has_one_leader_witness:
  "\<exists>s. k8s_reachable s \<and> lease_allows True (Some (k8s_reads (k_now s) (k_node s ''a''))) Leader \<and>
       \<not> lease_allows True (Some (k8s_reads (k_now s) (k_node s ''b''))) Leader"
proof -
  obtain s where s: "k8s_reachable s" "k_now s = 0" "k8s_is_leader 0 (k_node s ''a'')" "k_phase s = (\<lambda>_. KIdle)" "undisturbed s"
    using first_round by metis
  then have "lease_allows True (Some (k8s_reads (k_now s) (k_node s ''a''))) Leader"
    by (simp add: lease_allows_def lb_has_conflict_def k8s_reads_def)
  with lease_object_has_one_leader [OF s(1), of "''a''" "''b''"] s(1,4,5) show ?thesis
    by (auto simp: serving_def undisturbed_def)
qed

text \<open>
  A node that stops hands the lease back while it still calls itself leader: \<open>stop\<close> clears the flag only
  after the release and the closing of the transport, and until then two nodes pass the gate.
\<close>

lemma release_before_demotion:
  "\<exists>s. k8s_reachable s \<and> undisturbed s \<and> lease_allows True (Some (k8s_reads (k_now s) (k_node s ''a''))) Leader \<and>
       lease_allows True (Some (k8s_reads (k_now s) (k_node s ''b''))) Leader"
proof -
  obtain s where s: "k8s_reachable s" "k_now s = 0" "k8s_is_leader 0 (k_node s ''a'')" "k_phase s = (\<lambda>_. KIdle)"
    "k_obj s = Some (stored_as 1 first_body)" "k_version s = 1" "k_stamps s = {(Some ''a#t'', Some 7)}"
    "k_live s = (\<lambda>_. ''j'')" "\<And>q. q \<noteq> ''a'' \<Longrightarrow> k_node s q = new_k8s_backend q q ''t'' 15"
    "kb_identity (k_node s ''a'') = ''a#t''" "undisturbed s"
    by (rule first_round) blast
  let ?a = "k_node s ''a''"
  let ?s1 = "put_k8s ''a'' ?a KReleasing s"
  let ?s2 = "?s1\<lparr>k_seen := (k_seen ?s1)(''a'' := Some (k_obj s))\<rparr>"
  obtain b body where rel: "plan_release ''j'' (k_obj s) ?a = (b, Some body)" "lb_holder body = None"
    "lb_version body = Some 1" "k8s_core b = k8s_core ?a"
  proof -
    obtain b ann where fold: "fold_annotations ''j'' [] ?a = (b, ann)" by fastforce
    with s(5,10) fold_annotations_core [OF fold] that show ?thesis
      by (simp add: plan_release_def parse_lease_def stored_as_def first_body_def Let_def)
  qed
  let ?s3 = "send ''a'' False body (put_k8s ''a'' b KClosing ?s2)"
  let ?s4 = "accept body ?s3"
  have 1: "k8s_step s ?s1" using k8s_step.stop [of s "''a''"] s(4) by simp
  have 2: "k8s_step ?s1 ?s2" using k8s_step.read_lands [of ?s1 "''a''"] by simp
  have 3: "k8s_step ?s2 ?s3"
    using k8s_step.release [of ?s2 "''a''" "k_obj s" b body] rel(1) s(8) by (simp add: put_k8s_def)
  have 4: "k8s_step ?s3 ?s4"
    by (rule k8s_step.stray [of "''a''" False]) (use rel s(5) in \<open>auto simp: send_def accepts_def\<close>)
  have s4: "k_now ?s4 = 0" "k_version ?s4 = 2" "k_stamps ?s4 = {(None, lb_renew body), (Some ''a#t'', Some 7)}"
    "k_obj ?s4 = Some (stored_as 2 body)" "k_live ?s4 = k_live s" "k_phase ?s4 ''b'' = KIdle"
    "k_node ?s4 = (k_node s)(''a'' := b)"
    using s rel(2) by (simp_all add: send_def accept_def put_k8s_def numeral_2_eq_2)
  let ?b = "new_k8s_backend ''b'' ''b'' ''t'' 15"
  obtain c body' st where plan: "plan_round ''j'' 9 0 (Some (stored_as 2 body)) ?b = (c, ACTION_ACQUIRE, Some body', st)"
    "lb_holder body' = Some ''b#t''" "lb_version body' = Some 2" "kb_lease_duration c = 15"
  proof -
    obtain c ann where fold: "fold_annotations ''j'' (ls_annotations (parse_lease (stored_as 2 body)))
        (track_observation (Some (parse_lease (stored_as 2 body))) 0 ?b) = (c, ann)" by fastforce
    have "k8s_core c = k8s_core ?b" using fold_annotations_core(1) [OF fold] by (simp add: track_core)
    then have c: "kb_identity c = ''b#t''" "kb_lease_duration c = 15"
      by (simp_all add: k8s_core_def new_k8s_backend_def)
    have free: "ls_holder (parse_lease (stored_as 2 body)) = None" "ls_version (parse_lease (stored_as 2 body)) = 2"
      using rel(2) by (simp_all add: parse_lease_def)
    show ?thesis
      by (rule that [of c "build_lease_body ''b#t'' 9 15 (Some (parse_lease (stored_as 2 body))) ACTION_ACQUIRE ann"])
        (use fold c free in \<open>simp_all add: plan_round_def plan_lease_write_def decide_lease_action_def
          build_lease_body_def no_holder_def Let_def\<close>)
  qed
  obtain s5 where s5: "k8s_step\<^sup>*\<^sup>* ?s4 s5" "k_now s5 = k_now ?s4"
    "k_node s5 = (k_node ?s4)(''b'' := k8s_apply_round ACTION_ACQUIRE True st (k_now ?s4) c)" "k_deleted s5 = k_deleted ?s4"
    "k_repeated s5 \<longleftrightarrow> k_repeated ?s4 \<or> lb_holder body' \<noteq> None \<and> (lb_holder body', lb_renew body') \<in> k_stamps ?s4"
  proof (rule k8s_round_wins [of ?s4 "''b''" 9 c ACTION_ACQUIRE body' st])
    show "plan_round (k_live ?s4 ''b'') 9 (k_now ?s4) (k_obj ?s4) (k_node ?s4 ''b'') = (c, ACTION_ACQUIRE, Some body', st)"
      unfolding s4(1,4,5,7) using plan(1) s(8,9) by simp
    show "accepts (k_obj ?s4) (ACTION_ACQUIRE = ACTION_CREATE) body'"
      unfolding s4(4) using plan(3) by (simp add: accepts_def)
    show "k_phase ?s4 ''b'' = KIdle" by (rule s4(6))
  qed
  have "k8s_step\<^sup>*\<^sup>* s s5" using 1 2 3 4 s5(1) by (meson converse_rtranclp_into_rtranclp)
  then have "k8s_reachable s5" using s(1) by (auto simp: k8s_reachable_def)
  moreover have "undisturbed s5"
    using s(7,11) s5(4,5) plan(2) rel(2) by (simp add: undisturbed_def send_def accept_def put_k8s_def)
  moreover have "k8s_is_leader 0 b" using s(3) rel(4) by (simp add: k8s_is_leader_def k8s_core_def split: if_splits)
  ultimately show ?thesis using s5(2,3) s4 plan(4)
    by (intro exI [of _ s5]) (simp add: lease_allows_def lb_has_conflict_def k8s_reads_def k8s_is_leader_def
        k8s_apply_round_def K8S_SKEW_SECONDS_def Let_def)
qed


text \<open>
  A lease that is deleted under a leader lets a node that has never seen it create it anew: both lead until
  the old leader looks again.
\<close>

lemma deleted_lease_doubles:
  "\<exists>s. k8s_reachable s \<and> \<not> k_repeated s \<and> (\<forall>p. serving (k_phase s p)) \<and>
       lease_allows True (Some (k8s_reads (k_now s) (k_node s ''a''))) Leader \<and>
       lease_allows True (Some (k8s_reads (k_now s) (k_node s ''b''))) Leader"
proof -
  obtain s where s: "k8s_reachable s" "k_now s = 0" "k8s_is_leader 0 (k_node s ''a'')" "k_phase s = (\<lambda>_. KIdle)"
    "k_stamps s = {(Some ''a#t'', Some 7)}" "k_live s = (\<lambda>_. ''j'')"
    "\<And>q. q \<noteq> ''a'' \<Longrightarrow> k_node s q = new_k8s_backend q q ''t'' 15" "undisturbed s"
    by (rule first_round) blast
  let ?s1 = "s\<lparr>k_obj := None, k_deleted := True\<rparr>"
  obtain b body where plan: "plan_round ''j'' 7 0 None (new_k8s_backend ''b'' ''b'' ''t'' 15) = (b, ACTION_CREATE, Some body, None)"
    "lb_holder body = Some ''b#t''" "kb_lease_duration b = 15" "kb_identity b = ''b#t''"
    by (simp add: plan_round_def track_observation_def fold_annotations_def decode_reboot_ran_def
        reboot_ran_annotation_def reconcile_local_reboot_ran_def observe_reboot_ran_def plan_lease_write_def
        decide_lease_action_def build_lease_body_def new_k8s_backend_def no_holder_def Let_def)
  obtain s2 where s2: "k8s_step\<^sup>*\<^sup>* ?s1 s2" "k_now s2 = k_now ?s1"
    "k_node s2 = (k_node ?s1)(''b'' := k8s_apply_round ACTION_CREATE True None (k_now ?s1) b)"
    "k_phase s2 = (k_phase ?s1)(''b'' := KIdle)"
    "k_repeated s2 \<longleftrightarrow> k_repeated ?s1 \<or> lb_holder body \<noteq> None \<and> (lb_holder body, lb_renew body) \<in> k_stamps ?s1"
    by (rule k8s_round_wins [of ?s1 "''b''" 7 b ACTION_CREATE body None])
      (use s(2,4,6,7) plan(1) in \<open>simp_all add: accepts_def\<close>)
  have "k8s_step s ?s1" by (rule k8s_step.delete)
  then have "k8s_reachable s2" using s(1) s2(1) unfolding k8s_reachable_def by (meson converse_rtranclp_into_rtranclp rtranclp_trans)
  moreover have "\<not> k_repeated s2" using s2(5) s(5,8) plan(2) by (simp add: undisturbed_def)
  moreover have "\<forall>p. serving (k_phase s2 p)" using s2(4) s(4) by (simp add: serving_def)
  ultimately show ?thesis using s(2,3) s2(2,3) plan(3)
    by (intro exI [of _ s2]) (simp add: lease_allows_def lb_has_conflict_def k8s_reads_def k8s_is_leader_def
        k8s_apply_round_def K8S_SKEW_SECONDS_def Let_def)
qed

end
