(* ===== verification/EtcdElection.thy ===== *)
theory EtcdElection
  imports Leadership
begin

text \<open>
  Leader election over one etcd key (\<open>backends/etcd.py\<close>): the transactions a node sends, what it reads out
  of the answers, the live state of a node, and the code of a renew round and of a reboot-ran update
  between their requests.  Requests and responses are in decoded form: a value is a name at the election
  key and the JSON text of the marks at the sibling key.  Readings of the monotonic clock are arguments.
\<close>

subsection \<open>Requests and responses\<close>

definition ETCD_SKEW_SECONDS :: real where "ETCD_SKEW_SECONDS = 1"

definition ETCD_MIN_USABLE_TTL :: int where "ETCD_MIN_USABLE_TTL = 3"

definition ETCD_POSTS_PER_CYCLE :: nat where "ETCD_POSTS_PER_CYCLE = 5"

definition REBOOT_RAN_CAS_ATTEMPTS :: nat where "REBOOT_RAN_CAS_ATTEMPTS = 3"

definition ETCD_REBOOT_RAN_REFRESH :: real where "ETCD_REBOOT_RAN_REFRESH = 60"

definition ETCD_UNKNOWN_HOLDER :: string where "ETCD_UNKNOWN_HOLDER = ''<unknown holder>''"

datatype etcd_value = NameValue string | MarksValue stored_text

datatype etcd_compare = CreateRevision string nat | ModRevision string nat

datatype etcd_op = PutOp string etcd_value "string option" | RangeOp string

record etcd_txn =
  tx_compare :: etcd_compare
  tx_success :: "etcd_op list"
  tx_failure :: "etcd_op list"

definition build_campaign_txn :: "string \<Rightarrow> string \<Rightarrow> string \<Rightarrow> etcd_txn" where
  "build_campaign_txn key identity lease_id =
     \<lparr>tx_compare = CreateRevision key 0, tx_success = [PutOp key (NameValue identity) (Some lease_id)],
      tx_failure = [RangeOp key]\<rparr>"

definition build_reboot_ran_cas_txn :: "string \<Rightarrow> stored_text \<Rightarrow> nat \<Rightarrow> etcd_txn" where
  "build_reboot_ran_cas_txn key v mod_revision =
     \<lparr>tx_compare = ModRevision key mod_revision, tx_success = [PutOp key (MarksValue v) None], tx_failure = []\<rparr>"

record etcd_kv =
  kv_value :: "etcd_value option"
  kv_lease :: "string option"
  kv_mod_revision :: nat

text \<open>An entry of \<open>responses\<close> is the key-value list of a range response, or another response.\<close>

record txn_response =
  tr_succeeded :: bool
  tr_responses :: "etcd_kv list option list"

fun txn_holder :: "etcd_kv list option list \<Rightarrow> string option" where
  "txn_holder [] = None"
| "txn_holder (Some (kv # kvs) # rs) =
     (case kv_value kv of Some (NameValue n) \<Rightarrow> Some n | _ \<Rightarrow> txn_holder rs)"
| "txn_holder (_ # rs) = txn_holder rs"

definition holder_from_txn_response :: "txn_response \<Rightarrow> string \<Rightarrow> string option" where
  "holder_from_txn_response resp identity =
     (if tr_succeeded resp then Some identity else txn_holder (tr_responses resp))"

fun txn_bound :: "etcd_kv list option list \<Rightarrow> string \<Rightarrow> bool" where
  "txn_bound [] l = False"
| "txn_bound (Some (kv # kvs) # rs) l = (kv_lease kv = Some l)"
| "txn_bound (_ # rs) l = txn_bound rs l"

definition campaign_won :: "txn_response \<Rightarrow> string \<Rightarrow> bool" where
  "campaign_won resp my_lease_id = (if tr_succeeded resp then True else txn_bound (tr_responses resp) my_lease_id)"

subsection \<open>The state of a node\<close>

record EtcdBackend = LeaseBackend +
  eb_endpoints :: "string list"
  eb_authenticates :: bool
  eb_election_name :: string
  eb_identity :: string
  eb_ttl :: int
  eb_connect_timeout :: int
  eb_effective_ttl :: int
  eb_ttl_collapsed :: bool
  eb_endpoint_offset :: nat
  eb_leader_flag :: bool
  eb_lease_lost :: bool
  eb_reboot_ran_synced :: bool
  eb_reboot_ran_warned :: bool
  eb_reboot_refresh_next :: real
  eb_holder :: "string option"
  eb_lease_id :: "string option"
  eb_lease_deadline_mono :: "real option"
  eb_quorum_deadline_mono :: "real option"

definition new_etcd_backend :: "string \<Rightarrow> string list \<Rightarrow> bool \<Rightarrow> string \<Rightarrow> int \<Rightarrow> int \<Rightarrow> EtcdBackend" where
  "new_etcd_backend name urls auth election_id ttl connect_timeout =
     \<lparr>lb_node_name = name, lb_reboot_ran = {}, lb_reboot_ran_job_set_id = None,
      lb_reboot_ran_local = {}, lb_reboot_ran_local_job_set_id = None,
      eb_endpoints = urls, eb_authenticates = auth, eb_election_name = election_id, eb_identity = name, eb_ttl = ttl,
      eb_connect_timeout = connect_timeout, eb_effective_ttl = ttl, eb_ttl_collapsed = False,
      eb_endpoint_offset = 0, eb_leader_flag = False, eb_lease_lost = False, eb_reboot_ran_synced = False,
      eb_reboot_ran_warned = False, eb_reboot_refresh_next = 0, eb_holder = None, eb_lease_id = None,
      eb_lease_deadline_mono = None, eb_quorum_deadline_mono = None\<rparr>"

definition eb_reboot_ran_key :: "EtcdBackend \<Rightarrow> string" where
  "eb_reboot_ran_key b = eb_election_name b @ ''/reboot-ran''"

definition etcd_renew_period :: "EtcdBackend \<Rightarrow> real" where
  "etcd_renew_period b = max 1 (real_of_int (eb_effective_ttl b) / 3)"

definition etcd_round_deadline :: "EtcdBackend \<Rightarrow> real" where
  "etcd_round_deadline b = max 1 (real_of_int (eb_effective_ttl b) - etcd_renew_period b - ETCD_SKEW_SECONDS)"

definition etcd_request_timeout :: "EtcdBackend \<Rightarrow> real" where
  "etcd_request_timeout b =
     min (real_of_int (eb_connect_timeout b)) (etcd_round_deadline b / real ETCD_POSTS_PER_CYCLE)"

definition endpoint_is_https :: "string \<Rightarrow> bool" where
  "endpoint_is_https endpoint = prefix ''https://'' (lower endpoint)"

text \<open>The endpoints a request tries, in order.\<close>

definition probe_order :: "EtcdBackend \<Rightarrow> string list" where
  "probe_order b =
     (let endpoints = (if eb_authenticates b then filter endpoint_is_https (eb_endpoints b) else eb_endpoints b)
      in if length endpoints > 1
         then (let off = eb_endpoint_offset b mod length endpoints in drop off endpoints @ take off endpoints)
         else endpoints)"

definition etcd_is_leader :: "real \<Rightarrow> EtcdBackend \<Rightarrow> bool" where
  "etcd_is_leader mt b =
     (case eb_lease_deadline_mono b of
        None \<Rightarrow> False
      | Some d \<Rightarrow> if \<not> eb_leader_flag b \<or> eb_lease_lost b then False else mt < d)"

definition etcd_self_demoted :: "real \<Rightarrow> EtcdBackend \<Rightarrow> bool" where
  "etcd_self_demoted mt b \<longleftrightarrow> eb_leader_flag b \<and> \<not> etcd_is_leader mt b"

definition etcd_is_quorate :: "real \<Rightarrow> EtcdBackend \<Rightarrow> bool" where
  "etcd_is_quorate mt b = (case eb_quorum_deadline_mono b of None \<Rightarrow> False | Some d \<Rightarrow> mt < d)"

definition etcd_leader_name :: "real \<Rightarrow> EtcdBackend \<Rightarrow> string option" where
  "etcd_leader_name mt b = (if \<not> etcd_is_quorate mt b then None else eb_holder b)"

definition etcd_reads :: "real \<Rightarrow> EtcdBackend \<Rightarrow> lease_reads" where
  "etcd_reads mt b =
     \<lparr>lr_node_name = lb_node_name b, lr_is_leader = etcd_is_leader mt b,
      lr_leader_name = etcd_leader_name mt b, lr_is_quorate = etcd_is_quorate mt b,
      lr_self_demoted = etcd_self_demoted mt b\<rparr>"

definition narrow_effective_ttl :: "int \<Rightarrow> EtcdBackend \<Rightarrow> EtcdBackend" where
  "narrow_effective_ttl ttl b =
     (let effective = max 1 (min (eb_ttl b) ttl); usable = effective \<ge> ETCD_MIN_USABLE_TTL
      in b\<lparr>eb_ttl_collapsed := \<not> usable, eb_effective_ttl := effective\<rparr>)"

definition etcd_apply_round ::
  "string option \<Rightarrow> bool \<Rightarrow> real \<Rightarrow> real \<Rightarrow> EtcdBackend \<Rightarrow> EtcdBackend" where
  "etcd_apply_round holder leads mt lease_mono b =
     (let b1 = b\<lparr>eb_quorum_deadline_mono := Some (mt + real_of_int (eb_effective_ttl b)),
                 eb_holder := (if holder = None \<and> \<not> leads
                               then Some (name_or (eb_holder b) ETCD_UNKNOWN_HOLDER) else holder),
                 eb_leader_flag := leads, eb_lease_lost := False\<rparr>
      in if leads
         then b1\<lparr>eb_lease_deadline_mono := Some (lease_mono + real_of_int (eb_effective_ttl b) - ETCD_SKEW_SECONDS)\<rparr>
         else b1)"

subsection \<open>The marks of one-shots\<close>

text \<open>
  One pass of the compare-and-swap loop between the answer of its read and its write: the marks read are
  folded into the cache, and the value to write, if the store misses a mark, is guarded by the revision read.
\<close>

definition fold_marks :: "string \<Rightarrow> real \<Rightarrow> etcd_kv option \<Rightarrow> EtcdBackend \<Rightarrow> EtcdBackend" where
  "fold_marks live mt kv b =
     (case decode_reboot_ran (case Option.bind kv kv_value of Some (MarksValue t) \<Rightarrow> Some t | _ \<Rightarrow> None) of
        (stored_id, stored) \<Rightarrow>
          (observe_reboot_ran live stored_id stored b)
            \<lparr>eb_reboot_ran_synced := True, eb_reboot_ran_warned := False,
             eb_reboot_refresh_next := mt + ETCD_REBOOT_RAN_REFRESH\<rparr>)"

definition read_revision :: "etcd_kv option \<Rightarrow> nat" where
  "read_revision kv =
     (case kv of Some e \<Rightarrow> if kv_value e \<noteq> None then kv_mod_revision e else 0 | None \<Rightarrow> 0)"

definition marks_write :: "string \<Rightarrow> etcd_kv option \<Rightarrow> EtcdBackend \<Rightarrow> etcd_txn option" where
  "marks_write live kv b =
     (let combined = lb_reboot_ran b \<union> lb_reboot_ran_local b
      in if combined - lb_reboot_ran b = {} then None
         else Some (build_reboot_ran_cas_txn (eb_reboot_ran_key b) (encode_reboot_ran live combined) (read_revision kv)))"

text \<open>Where a compare-and-swap loop stands; the number is that of the attempts left, this one included.\<close>

datatype cas_phase = CasRead nat | CasWrite nat etcd_txn | CasDone

definition after_range ::
  "string \<Rightarrow> real \<Rightarrow> nat \<Rightarrow> etcd_kv option \<Rightarrow> EtcdBackend \<Rightarrow> EtcdBackend \<times> cas_phase" where
  "after_range live mt n kv b =
     (let b1 = fold_marks live mt kv b
      in (b1, case marks_write live kv b1 of None \<Rightarrow> CasDone | Some t \<Rightarrow> CasWrite n t))"

definition after_cas :: "nat \<Rightarrow> bool \<Rightarrow> cas_phase" where
  "after_cas n succeeded = (if succeeded then CasDone else if n > 1 then CasRead (n - 1) else CasDone)"

text \<open>Whether the sync of a round reads the key at all, and what a sync that fails changes.\<close>

definition sync_due :: "string \<Rightarrow> bool \<Rightarrow> real \<Rightarrow> EtcdBackend \<Rightarrow> EtcdBackend \<times> bool" where
  "sync_due live leaderish mt b =
     (let b' = reconcile_observed_reboot_ran live (reconcile_local_reboot_ran live b);
          unpersisted = lb_reboot_ran_local b' - lb_reboot_ran b'
      in (b', \<not> (\<not> (leaderish \<and> \<not> eb_reboot_ran_synced b') \<and> unpersisted = {} \<and> mt < eb_reboot_refresh_next b')))"

definition sync_failed :: "real \<Rightarrow> EtcdBackend \<Rightarrow> EtcdBackend" where
  "sync_failed mt b =
     (if eb_leader_flag b \<and> \<not> eb_reboot_ran_synced b then b\<lparr>eb_reboot_ran_warned := True\<rparr>
      else if \<not> eb_reboot_ran_synced b then b\<lparr>eb_reboot_refresh_next := mt + ETCD_REBOOT_RAN_REFRESH\<rparr>
      else b)"

definition etcd_reboot_ran :: "string \<Rightarrow> string \<Rightarrow> EtcdBackend \<Rightarrow> EtcdBackend \<times> (reboot_unknown, bool) result" where
  "etcd_reboot_ran live job b =
     (case base_reboot_ran live job b of
        (b', True) \<Rightarrow> (b', Inr True)
      | (b', False) \<Rightarrow>
          if eb_leader_flag b' \<and> \<not> eb_reboot_ran_synced b' then (b', Inl RebootRanUnknownError)
          else (b', Inr False))"

text \<open>\<open>mark_reboot_ran\<close>: the local mark; the eager persist is a compare-and-swap loop of its own.\<close>

definition etcd_mark :: "string \<Rightarrow> string \<Rightarrow> EtcdBackend \<Rightarrow> EtcdBackend \<times> cas_phase" where
  "etcd_mark live job b =
     (let b1 = reconcile_local_reboot_ran live b
      in (b1\<lparr>lb_reboot_ran_local := insert job (lb_reboot_ran_local b1)\<rparr>, CasRead REBOOT_RAN_CAS_ATTEMPTS))"

subsection \<open>The renew round\<close>

text \<open>
  What a round awaits: the answer of the keepalive or the grant sent after the given reading, of the
  campaign, or of a sync.  The sync of a node that gains leadership carries what is applied after it: the
  holder, the reading at which the campaign was answered and the anchor of the fence.
\<close>

datatype etcd_phase =
    EtcdIdle
  | Keepalive real
  | Granting real
  | Campaign real
  | Syncing "(string option \<times> real \<times> real) option" cas_phase
  | Revoking
  | EtcdStopped

definition etcd_start_round :: "real \<Rightarrow> EtcdBackend \<Rightarrow> EtcdBackend \<times> etcd_phase" where
  "etcd_start_round mt b =
     (let b1 = b\<lparr>eb_endpoint_offset := eb_endpoint_offset b + 1\<rparr>;
          b2 = (if \<not> etcd_is_quorate mt b1 \<and> eb_effective_ttl b1 < eb_ttl b1
                then b1\<lparr>eb_effective_ttl := eb_ttl b1\<rparr> else b1)
      in (b2, if eb_lease_id b2 \<noteq> None then Keepalive mt else Granting mt))"

definition after_keepalive :: "real \<Rightarrow> real \<Rightarrow> int option \<Rightarrow> EtcdBackend \<Rightarrow> EtcdBackend \<times> etcd_phase" where
  "after_keepalive mt lease_mono ttl b =
     (case ttl of
        Some t \<Rightarrow>
          if t \<le> 0
          then (b\<lparr>eb_lease_id := None, eb_lease_lost := True, eb_reboot_ran_synced := False\<rparr>, Granting mt)
          else (narrow_effective_ttl t b, Campaign lease_mono)
      | None \<Rightarrow> (b\<lparr>eb_lease_id := None, eb_lease_lost := True, eb_reboot_ran_synced := False\<rparr>, Granting mt))"

definition after_grant :: "real \<Rightarrow> string option \<Rightarrow> int option \<Rightarrow> EtcdBackend \<Rightarrow> EtcdBackend \<times> etcd_phase" where
  "after_grant lease_mono lease_id granted b =
     (let b1 = b\<lparr>eb_lease_id := lease_id\<rparr>;
          b2 = (case granted of Some t \<Rightarrow> narrow_effective_ttl t b1 | None \<Rightarrow> b1)
      in (b2, if lease_id = None then EtcdIdle else Campaign lease_mono))"

definition finish_sync :: "(string option \<times> real \<times> real) option \<Rightarrow> EtcdBackend \<Rightarrow> EtcdBackend" where
  "finish_sync gain b =
     (case gain of
        Some (holder, mt, lease_mono) \<Rightarrow> etcd_apply_round holder True mt lease_mono b
      | None \<Rightarrow> b)"

definition start_sync ::
  "string \<Rightarrow> bool \<Rightarrow> (string option \<times> real \<times> real) option \<Rightarrow> real \<Rightarrow> EtcdBackend \<Rightarrow> EtcdBackend \<times> etcd_phase" where
  "start_sync live leaderish gain mt b =
     (case sync_due live leaderish mt b of
        (b', True) \<Rightarrow> (b', Syncing gain (CasRead REBOOT_RAN_CAS_ATTEMPTS))
      | (b', False) \<Rightarrow> (finish_sync gain b', EtcdIdle))"

definition after_campaign ::
  "string \<Rightarrow> real \<Rightarrow> real \<Rightarrow> string \<Rightarrow> txn_response \<Rightarrow> EtcdBackend \<Rightarrow> EtcdBackend \<times> etcd_phase" where
  "after_campaign live mt lease_mono lease_id resp b =
     (let holder = holder_from_txn_response resp (eb_identity b); won = campaign_won resp lease_id
      in if won \<and> \<not> eb_leader_flag b
         then start_sync live True (Some (holder, mt, lease_mono)) mt (b\<lparr>eb_reboot_ran_synced := False\<rparr>)
         else (let b1 = etcd_apply_round holder won mt lease_mono b
               in start_sync live (eb_leader_flag b1) None mt b1))"

text \<open>\<open>stop\<close>: what it changes once the revocation of the lease was answered or given up.\<close>

definition etcd_stop :: "EtcdBackend \<Rightarrow> EtcdBackend" where
  "etcd_stop b = b\<lparr>eb_lease_id := None, eb_leader_flag := False\<rparr>"

end
