(* ===== verification/EtcdLeaders.thy ===== *)
theory EtcdLeaders
  imports EtcdElection
begin

text \<open>
  The nodes that elect over one etcd key, as a transition system in real time.  Of etcd only its documented
  behaviour is used: transactions are atomic and compare revisions, a key bound to a lease is deleted with
  it, a put under a lease that is gone is refused, lease ids are never reused, a lease lives at least the
  time to live answered at its grant or keepalive, counted from when etcd processed that request, and a
  keepalive never brings its end forward.  Requests reach etcd at any later moment, several times or never.
\<close>

subsection \<open>The store\<close>

record etcd_entry =
  en_value :: etcd_value
  en_lease :: "string option"
  en_create :: nat
  en_mod :: nat

record etcd_store =
  st_kv :: "string \<rightharpoonup> etcd_entry"
  st_rev :: nat
  st_leases :: "string \<rightharpoonup> real"
  st_ids :: "string set"

definition kv_of :: "etcd_entry \<Rightarrow> etcd_kv" where
  "kv_of en = \<lparr>kv_value = Some (en_value en), kv_lease = en_lease en, kv_mod_revision = en_mod en\<rparr>"

definition range_of :: "etcd_store \<Rightarrow> string \<Rightarrow> etcd_kv list" where
  "range_of st key = (case st_kv st key of None \<Rightarrow> [] | Some en \<Rightarrow> [kv_of en])"

definition compare_holds :: "etcd_store \<Rightarrow> etcd_compare \<Rightarrow> bool" where
  "compare_holds st c =
     (case c of
        CreateRevision key n \<Rightarrow> n = (case st_kv st key of None \<Rightarrow> 0 | Some en \<Rightarrow> en_create en)
      | ModRevision key n \<Rightarrow> n = (case st_kv st key of None \<Rightarrow> 0 | Some en \<Rightarrow> en_mod en))"

definition put_kv :: "string \<Rightarrow> etcd_value \<Rightarrow> string option \<Rightarrow> etcd_store \<Rightarrow> etcd_store" where
  "put_kv key v lease st =
     st\<lparr>st_kv := (st_kv st)(key \<mapsto> \<lparr>en_value = v, en_lease = lease,
          en_create = (case st_kv st key of None \<Rightarrow> Suc (st_rev st) | Some en \<Rightarrow> en_create en), en_mod = Suc (st_rev st)\<rparr>),
        st_rev := Suc (st_rev st)\<rparr>"

fun run_ops :: "etcd_op list \<Rightarrow> etcd_store \<Rightarrow> (etcd_store \<times> etcd_kv list option list) option" where
  "run_ops [] st = Some (st, [])"
| "run_ops (PutOp key v lease # ops) st =
     (if \<exists>l. lease = Some l \<and> st_leases st l = None then None
      else map_option (apsnd (Cons None)) (run_ops ops (put_kv key v lease st)))"
| "run_ops (RangeOp key # ops) st = map_option (apsnd (Cons (Some (range_of st key)))) (run_ops ops st)"

definition run_txn :: "etcd_txn \<Rightarrow> etcd_store \<Rightarrow> (etcd_store \<times> txn_response) option" where
  "run_txn t st =
     (let ok = compare_holds st (tx_compare t)
      in map_option (apsnd (\<lambda>rs. \<lparr>tr_succeeded = ok, tr_responses = rs\<rparr>))
           (run_ops (if ok then tx_success t else tx_failure t) st))"

definition drop_lease :: "string \<Rightarrow> etcd_store \<Rightarrow> etcd_store" where
  "drop_lease l st =
     st\<lparr>st_leases := (st_leases st)(l := None), st_rev := Suc (st_rev st),
        st_kv := (\<lambda>key. case st_kv st key of
                    Some en \<Rightarrow> if en_lease en = Some l then None else Some en | None \<Rightarrow> None)\<rparr>"

definition extend_lease :: "string \<Rightarrow> real \<Rightarrow> etcd_store \<Rightarrow> etcd_store" where
  "extend_lease l till st =
     st\<lparr>st_leases := (st_leases st)(l := map_option (\<lambda>e. max e till) (st_leases st l))\<rparr>"

definition add_lease :: "string \<Rightarrow> real \<Rightarrow> etcd_store \<Rightarrow> etcd_store" where
  "add_lease l till st = st\<lparr>st_leases := (st_leases st)(l \<mapsto> till), st_ids := insert l (st_ids st)\<rparr>"

subsection \<open>System\<close>

datatype etcd_answer =
    TtlAnswer "int option"
  | GrantAnswer "string option" "int option"
  | TxnAnswer txn_response
  | RangeAnswer "etcd_kv option"

text \<open>
  \<open>e_owner\<close> is the node that was told of a lease, \<open>e_sent\<close> the transactions sent so far, \<open>e_revokes\<close> the
  leases whose revocation was sent, \<open>e_task\<close> the eager persist tasks of a node with the answers they wait for.
\<close>

record etcd_sys =
  e_now :: real
  e_store :: etcd_store
  e_owner :: "string \<rightharpoonup> string"
  e_sent :: "etcd_txn set"
  e_revokes :: "string set"
  e_node :: "string \<Rightarrow> EtcdBackend"
  e_phase :: "string \<Rightarrow> etcd_phase"
  e_answer :: "string \<Rightarrow> etcd_answer option"
  e_task :: "string \<Rightarrow> nat \<Rightarrow> cas_phase \<times> etcd_answer option"
  e_live :: "string \<Rightarrow> string"

text \<open>The transactions that a node in a phase has just sent.\<close>

definition sends :: "EtcdBackend \<Rightarrow> etcd_phase \<Rightarrow> etcd_txn set" where
  "sends b phase =
     (case phase of
        Campaign a \<Rightarrow>
          (case eb_lease_id b of
             Some l \<Rightarrow> {build_campaign_txn (eb_election_name b) (eb_identity b) l} | None \<Rightarrow> {})
      | Syncing gain (CasWrite n t) \<Rightarrow> {t}
      | _ \<Rightarrow> {})"

definition put_etcd :: "string \<Rightarrow> EtcdBackend \<times> etcd_phase \<Rightarrow> etcd_sys \<Rightarrow> etcd_sys" where
  "put_etcd p x s =
     s\<lparr>e_node := (e_node s)(p := fst x), e_phase := (e_phase s)(p := snd x), e_answer := (e_answer s)(p := None),
       e_sent := sends (fst x) (snd x) \<union> e_sent s\<rparr>"

definition put_task :: "string \<Rightarrow> nat \<Rightarrow> EtcdBackend \<times> cas_phase \<Rightarrow> etcd_sys \<Rightarrow> etcd_sys" where
  "put_task p i x s =
     s\<lparr>e_node := (e_node s)(p := fst x), e_task := (e_task s)(p := (e_task s p)(i := (snd x, None))),
       e_sent := (case snd x of CasWrite n t \<Rightarrow> {t} | _ \<Rightarrow> {}) \<union> e_sent s\<rparr>"

definition reply :: "string \<Rightarrow> etcd_store \<Rightarrow> etcd_answer \<Rightarrow> etcd_sys \<Rightarrow> etcd_sys" where
  "reply p st ans s = s\<lparr>e_store := st, e_answer := (e_answer s)(p := Some ans)\<rparr>"

definition reply_task :: "string \<Rightarrow> nat \<Rightarrow> etcd_store \<Rightarrow> etcd_answer \<Rightarrow> etcd_sys \<Rightarrow> etcd_sys" where
  "reply_task p i st ans s =
     s\<lparr>e_store := st, e_task := (e_task s)(p := (e_task s p)(i := (fst (e_task s p i), Some ans)))\<rparr>"

definition first_kv :: "etcd_kv list \<Rightarrow> etcd_kv option" where
  "first_kv kvs = (case kvs of [] \<Rightarrow> None | kv # _ \<Rightarrow> Some kv)"

text \<open>A sync goes on with its loop, or ends and the round with it.\<close>

definition go_on :: "(string option \<times> real \<times> real) option \<Rightarrow> EtcdBackend \<times> cas_phase \<Rightarrow> EtcdBackend \<times> etcd_phase" where
  "go_on gain x = (if snd x = CasDone then (finish_sync gain (fst x), EtcdIdle) else (fst x, Syncing gain (snd x)))"

inductive etcd_step :: "etcd_sys \<Rightarrow> etcd_sys \<Rightarrow> bool" where
  start: "e_phase s p = EtcdIdle \<Longrightarrow> etcd_step s (put_etcd p (etcd_start_round (e_now s) (e_node s p)) s)"
| keepalive_lands: "e_phase s p = Keepalive a \<Longrightarrow> e_answer s p = None \<Longrightarrow> eb_lease_id (e_node s p) = Some l \<Longrightarrow>
    st_leases (e_store s) l \<noteq> None \<Longrightarrow> 0 < t \<Longrightarrow>
    etcd_step s (reply p (extend_lease l (e_now s + real_of_int t) (e_store s)) (TtlAnswer (Some t)) s)"
| keepalive_gone: "e_phase s p = Keepalive a \<Longrightarrow> e_answer s p = None \<Longrightarrow> eb_lease_id (e_node s p) = Some l \<Longrightarrow>
    st_leases (e_store s) l = None \<Longrightarrow> etcd_step s (reply p (e_store s) (TtlAnswer (Some 0)) s)"
| keepalive_answered: "e_phase s p = Keepalive a \<Longrightarrow> e_answer s p = Some (TtlAnswer ttl) \<Longrightarrow>
    etcd_step s (put_etcd p (after_keepalive (e_now s) a ttl (e_node s p)) s)"
| grant_lands: "e_phase s p = Granting a \<Longrightarrow> e_answer s p = None \<Longrightarrow> l \<notin> st_ids (e_store s) \<Longrightarrow>
    etcd_step s ((reply p (add_lease l (e_now s + real_of_int t) (e_store s)) (GrantAnswer (Some l) (Some t)) s)
      \<lparr>e_owner := (e_owner s)(l \<mapsto> p)\<rparr>)"
| grant_answered: "e_phase s p = Granting a \<Longrightarrow> e_answer s p = Some (GrantAnswer l t) \<Longrightarrow>
    etcd_step s (put_etcd p (after_grant a l t (e_node s p)) s)"
| campaign_lands: "e_phase s p = Campaign a \<Longrightarrow> e_answer s p = None \<Longrightarrow> eb_lease_id (e_node s p) = Some l \<Longrightarrow>
    run_txn (build_campaign_txn (eb_election_name (e_node s p)) (eb_identity (e_node s p)) l) (e_store s) = Some (st, r) \<Longrightarrow>
    etcd_step s (reply p st (TxnAnswer r) s)"
| campaign_answered: "e_phase s p = Campaign a \<Longrightarrow> e_answer s p = Some (TxnAnswer r) \<Longrightarrow> eb_lease_id (e_node s p) = Some l \<Longrightarrow>
    etcd_step s (put_etcd p (after_campaign (e_live s p) (e_now s) a l r (e_node s p)) s)"
| range_lands: "e_phase s p = Syncing gain (CasRead n) \<Longrightarrow> e_answer s p = None \<Longrightarrow>
    etcd_step s (reply p (e_store s) (RangeAnswer (first_kv (range_of (e_store s) (eb_reboot_ran_key (e_node s p))))) s)"
| range_answered: "e_phase s p = Syncing gain (CasRead n) \<Longrightarrow> e_answer s p = Some (RangeAnswer kv) \<Longrightarrow>
    etcd_step s (put_etcd p (go_on gain (after_range (e_live s p) (e_now s) n kv (e_node s p))) s)"
| cas_lands: "e_phase s p = Syncing gain (CasWrite n t) \<Longrightarrow> e_answer s p = None \<Longrightarrow>
    run_txn t (e_store s) = Some (st, r) \<Longrightarrow> etcd_step s (reply p st (TxnAnswer r) s)"
| cas_answered: "e_phase s p = Syncing gain (CasWrite n t) \<Longrightarrow> e_answer s p = Some (TxnAnswer r) \<Longrightarrow>
    etcd_step s (put_etcd p (go_on gain (e_node s p, after_cas n (tr_succeeded r))) s)"
| sync_fails: "e_phase s p = Syncing gain c \<Longrightarrow>
    etcd_step s (put_etcd p (finish_sync gain (sync_failed (e_now s) (e_node s p)), EtcdIdle) s)"
| abandon: "e_phase s p \<notin> {EtcdIdle, Revoking, EtcdStopped} \<Longrightarrow> etcd_step s (put_etcd p (e_node s p, EtcdIdle) s)"
| mark: "fst (e_task s p i) = CasDone \<Longrightarrow> etcd_step s (put_task p i (etcd_mark (e_live s p) job (e_node s p)) s)"
| task_range_lands: "e_task s p i = (CasRead n, None) \<Longrightarrow>
    etcd_step s (reply_task p i (e_store s) (RangeAnswer (first_kv (range_of (e_store s) (eb_reboot_ran_key (e_node s p))))) s)"
| task_range_answered: "e_task s p i = (CasRead n, Some (RangeAnswer kv)) \<Longrightarrow>
    etcd_step s (put_task p i (after_range (e_live s p) (e_now s) n kv (e_node s p)) s)"
| task_cas_lands: "e_task s p i = (CasWrite n t, None) \<Longrightarrow> run_txn t (e_store s) = Some (st, r) \<Longrightarrow>
    etcd_step s (reply_task p i st (TxnAnswer r) s)"
| task_cas_answered: "e_task s p i = (CasWrite n t, Some (TxnAnswer r)) \<Longrightarrow>
    etcd_step s (put_task p i (e_node s p, after_cas n (tr_succeeded r)) s)"
| task_fails: "etcd_step s (put_task p i (e_node s p, CasDone) s)"
| stray_txn: "t \<in> e_sent s \<Longrightarrow> run_txn t (e_store s) = Some (st, r) \<Longrightarrow> etcd_step s (s\<lparr>e_store := st\<rparr>)"
| stray_keepalive: "0 < t \<Longrightarrow> etcd_step s (s\<lparr>e_store := extend_lease l (e_now s + real_of_int t) (e_store s)\<rparr>)"
| stray_grant: "l \<notin> st_ids (e_store s) \<Longrightarrow> etcd_step s (s\<lparr>e_store := add_lease l till (e_store s)\<rparr>)"
| expire: "st_leases (e_store s) l = Some till \<Longrightarrow> till \<le> e_now s \<Longrightarrow> etcd_step s (s\<lparr>e_store := drop_lease l (e_store s)\<rparr>)"
| stop: "e_phase s p \<notin> {Revoking, EtcdStopped} \<Longrightarrow>
    etcd_step s ((put_etcd p (e_node s p, Revoking) s)\<lparr>e_revokes := set_option (eb_lease_id (e_node s p)) \<union> e_revokes s\<rparr>)"
| revoke_lands: "l \<in> e_revokes s \<Longrightarrow> etcd_step s (s\<lparr>e_store := drop_lease l (e_store s)\<rparr>)"
| close: "e_phase s p = Revoking \<Longrightarrow> etcd_step s (put_etcd p (etcd_stop (e_node s p), EtcdStopped) s)"
| reload: "etcd_step s (s\<lparr>e_live := (e_live s)(p := live)\<rparr>)"
| tick: "e_now s \<le> t \<Longrightarrow> etcd_step s (s\<lparr>e_now := t\<rparr>)"

definition etcd_init :: "string \<Rightarrow> etcd_sys \<Rightarrow> bool" where
  "etcd_init name s \<longleftrightarrow>
     st_kv (e_store s) = Map.empty \<and> st_leases (e_store s) = Map.empty \<and> e_owner s = Map.empty \<and>
     e_sent s = {} \<and> e_revokes s = {} \<and>
     (\<forall>p. \<exists>nm urls auth ttl ct. e_node s p = new_etcd_backend nm urls auth name ttl ct) \<and>
     e_phase s = (\<lambda>_. EtcdIdle) \<and> e_answer s = (\<lambda>_. None) \<and> e_task s = (\<lambda>_ _. (CasDone, None))"

definition etcd_reachable :: "string \<Rightarrow> etcd_sys \<Rightarrow> bool" where
  "etcd_reachable name s \<longleftrightarrow> (\<exists>s0. etcd_init name s0 \<and> etcd_step\<^sup>*\<^sup>* s0 s)"

subsection \<open>The invariant\<close>

definition electing :: "etcd_phase \<Rightarrow> bool" where
  "electing phase \<longleftrightarrow> phase \<notin> {Revoking, EtcdStopped}"

text \<open>A fence that ends before the lease does; and one whose lease also holds the election key.\<close>

definition lease_covers :: "etcd_sys \<Rightarrow> string \<Rightarrow> real \<Rightarrow> bool" where
  "lease_covers s l d \<longleftrightarrow> d \<le> e_now s \<or> (\<exists>till. st_leases (e_store s) l = Some till \<and> d \<le> till)"

definition holds_key :: "string \<Rightarrow> etcd_sys \<Rightarrow> string \<Rightarrow> bool" where
  "holds_key name s l \<longleftrightarrow> (\<exists>en. st_kv (e_store s) name = Some en \<and> en_lease en = Some l)"

definition key_covered :: "string \<Rightarrow> etcd_sys \<Rightarrow> string \<Rightarrow> real \<Rightarrow> bool" where
  "key_covered name s l d \<longleftrightarrow> d \<le> e_now s \<or> lease_covers s l d \<and> holds_key name s l"

definition fence_at :: "int \<Rightarrow> real \<Rightarrow> real" where
  "fence_at effective a = a + real_of_int effective - ETCD_SKEW_SECONDS"

definition narrowed :: "EtcdBackend \<Rightarrow> int \<Rightarrow> int" where
  "narrowed b t = max 1 (min (eb_ttl b) t)"

text \<open>A node that may call itself leader, and what the phase of its round promises.\<close>

definition fence_backed :: "string \<Rightarrow> etcd_sys \<Rightarrow> EtcdBackend \<Rightarrow> bool" where
  "fence_backed name s b \<longleftrightarrow>
     (\<forall>d. eb_leader_flag b \<and> \<not> eb_lease_lost b \<and> eb_lease_deadline_mono b = Some d \<longrightarrow>
        d \<le> e_now s \<or> (\<exists>l. eb_lease_id b = Some l \<and> key_covered name s l d))"

definition phase_ok :: "string \<Rightarrow> etcd_sys \<Rightarrow> string \<Rightarrow> EtcdBackend \<Rightarrow> etcd_phase \<Rightarrow> etcd_answer option \<Rightarrow> bool" where
  "phase_ok name s p b phase ans =
     (case phase of
        Keepalive a \<Rightarrow> a \<le> e_now s \<and>
          (\<exists>l. eb_lease_id b = Some l \<and>
             (\<forall>t. ans = Some (TtlAnswer (Some t)) \<and> 0 < t \<longrightarrow> lease_covers s l (fence_at (narrowed b t) a)))
      | Granting a \<Rightarrow> a \<le> e_now s \<and> eb_lease_id b = None \<and>
          (\<forall>lo to. ans = Some (GrantAnswer lo to) \<longrightarrow>
             (\<exists>l t. lo = Some l \<and> to = Some t \<and> e_owner s l = Some p \<and> lease_covers s l (fence_at (narrowed b t) a)))
      | Campaign a \<Rightarrow>
          (\<exists>l. eb_lease_id b = Some l \<and> lease_covers s l (fence_at (eb_effective_ttl b) a) \<and>
             (\<forall>r. ans = Some (TxnAnswer r) \<and> campaign_won r l \<longrightarrow> key_covered name s l (fence_at (eb_effective_ttl b) a)))
      | Syncing (Some (h, mt, a)) c \<Rightarrow>
          (\<exists>l. eb_lease_id b = Some l \<and> key_covered name s l (fence_at (eb_effective_ttl b) a))
      | _ \<Rightarrow> True)"

definition sent_ok :: "string \<Rightarrow> etcd_txn \<Rightarrow> bool" where
  "sent_ok name t \<longleftrightarrow>
     (\<exists>i l. t = build_campaign_txn name i l) \<or> (\<exists>v n. t = build_reboot_ran_cas_txn (name @ ''/reboot-ran'') v n)"

definition elector_ok :: "string \<Rightarrow> etcd_sys \<Rightarrow> string \<Rightarrow> EtcdBackend \<Rightarrow> etcd_phase \<Rightarrow> etcd_answer option \<Rightarrow> bool" where
  "elector_ok name s p b phase ans \<longleftrightarrow>
     eb_election_name b = name \<and> (\<forall>l. eb_lease_id b = Some l \<longrightarrow> e_owner s l = Some p) \<and>
     (electing phase \<longrightarrow> fence_backed name s b \<and> phase_ok name s p b phase ans) \<and>
     (\<forall>gain n t. phase = Syncing gain (CasWrite n t) \<longrightarrow> sent_ok name t)"

definition tasks_ok :: "string \<Rightarrow> (nat \<Rightarrow> cas_phase \<times> etcd_answer option) \<Rightarrow> bool" where
  "tasks_ok name tasks \<longleftrightarrow> (\<forall>i n t ans. tasks i = (CasWrite n t, ans) \<longrightarrow> sent_ok name t)"

definition etcd_inv :: "string \<Rightarrow> etcd_sys \<Rightarrow> bool" where
  "etcd_inv name s \<longleftrightarrow>
     (\<forall>p. elector_ok name s p (e_node s p) (e_phase s p) (e_answer s p) \<and> tasks_ok name (e_task s p)) \<and>
     dom (e_owner s) \<subseteq> st_ids (e_store s) \<and> dom (st_leases (e_store s)) \<subseteq> st_ids (e_store s) \<and>
     (\<forall>key en. st_kv (e_store s) key = Some en \<longrightarrow> 0 < en_create en) \<and> (\<forall>t \<in> e_sent s. sent_ok name t) \<and>
     (\<forall>l \<in> e_revokes s. \<exists>p. e_owner s l = Some p \<and> \<not> electing (e_phase s p))"


text \<open>What the invariant looks at.\<close>

definition etcd_core :: "EtcdBackend \<Rightarrow> string \<times> int \<times> int \<times> bool \<times> bool \<times> string option \<times> real option" where
  "etcd_core b = (eb_election_name b, eb_ttl b, eb_effective_ttl b, eb_leader_flag b, eb_lease_lost b, eb_lease_id b,
     eb_lease_deadline_mono b)"

lemma elector_ok_core:
  assumes "etcd_core b' = etcd_core b"
  shows "elector_ok name s p b' phase ans = elector_ok name s p b phase ans"
  using assms
  by (simp add: elector_ok_def fence_backed_def phase_ok_def narrowed_def etcd_core_def split: etcd_phase.split option.split)

lemma elector_ok_cong:
  assumes "e_now s' = e_now s" "e_store s' = e_store s" "e_owner s' = e_owner s"
  shows "elector_ok name s' = elector_ok name s"
proof -
  have "lease_covers s' = lease_covers s" "key_covered name s' = key_covered name s"
    using assms by (auto simp: lease_covers_def key_covered_def holds_key_def fun_eq_iff)
  then show ?thesis
    using assms by (simp add: fun_eq_iff elector_ok_def fence_backed_def phase_ok_def split: etcd_phase.split option.split)
qed

lemma sends_ok: "elector_ok name s p b phase ans \<Longrightarrow> t \<in> sends b phase \<Longrightarrow> sent_ok name t"
  by (auto simp: elector_ok_def sends_def sent_ok_def split: etcd_phase.splits cas_phase.splits option.splits)

text \<open>A change of the clock and the store that takes nothing from the leases of a node.\<close>

definition keeps_leases :: "string \<Rightarrow> etcd_sys \<Rightarrow> etcd_sys \<Rightarrow> string \<Rightarrow> bool" where
  "keeps_leases name s s' p \<longleftrightarrow>
     e_now s \<le> e_now s' \<and>
     (\<forall>l. e_owner s l = Some p \<longrightarrow> e_owner s' l = Some p \<and>
        (electing (e_phase s p) \<longrightarrow>
           (\<forall>d. (lease_covers s l d \<longrightarrow> lease_covers s' l d) \<and> (key_covered name s l d \<longrightarrow> key_covered name s' l d))))"

lemma phase_ok_keeps:
  assumes "keeps_leases name s s' p" "electing (e_phase s p)" "\<forall>l. eb_lease_id b = Some l \<longrightarrow> e_owner s l = Some p"
    and "phase_ok name s p b phase ans"
  shows "phase_ok name s' p b phase ans"
proof -
  have k: "e_now s \<le> e_now s'" "\<And>l. e_owner s l = Some p \<Longrightarrow> e_owner s' l = Some p"
    "\<And>l d. e_owner s l = Some p \<Longrightarrow> lease_covers s l d \<Longrightarrow> lease_covers s' l d"
    "\<And>l d. e_owner s l = Some p \<Longrightarrow> key_covered name s l d \<Longrightarrow> key_covered name s' l d"
    using assms(1,2) by (auto simp: keeps_leases_def)
  show ?thesis
  proof (cases phase)
    case (Keepalive a)
    then show ?thesis using assms(3,4) k by (auto simp: phase_ok_def)
  next
    case (Granting a)
    then show ?thesis using assms(3,4) k by (fastforce simp: phase_ok_def)
  next
    case (Campaign a)
    then show ?thesis using assms(3,4) k by (auto simp: phase_ok_def)
  next
    case (Syncing gain c)
    then show ?thesis using assms(3,4) k by (auto simp: phase_ok_def split: option.splits)
  qed (simp_all add: phase_ok_def)
qed

lemma elector_ok_keeps:
  assumes k: "keeps_leases name s s' p" and ok: "elector_ok name s p b phase ans" and e: "electing phase \<Longrightarrow> electing (e_phase s p)"
  shows "elector_ok name s' p b phase ans"
proof -
  have own: "\<forall>l. eb_lease_id b = Some l \<longrightarrow> e_owner s l = Some p" using ok by (simp add: elector_ok_def)
  have "fence_backed name s' b" if "electing phase"
    unfolding fence_backed_def
  proof (intro allI impI)
    fix d assume d: "eb_leader_flag b \<and> \<not> eb_lease_lost b \<and> eb_lease_deadline_mono b = Some d"
    with ok that consider "d \<le> e_now s" | l where "eb_lease_id b = Some l" "key_covered name s l d"
      by (auto simp: elector_ok_def fence_backed_def)
    then show "d \<le> e_now s' \<or> (\<exists>l. eb_lease_id b = Some l \<and> key_covered name s' l d)"
      using k own e [OF that] by cases (auto simp: keeps_leases_def)
  qed
  moreover have "phase_ok name s' p b phase ans" if "electing phase"
    using phase_ok_keeps [OF k e [OF that] own] ok that by (simp add: elector_ok_def)
  ultimately show ?thesis using ok own k by (auto simp: elector_ok_def keeps_leases_def)
qed

text \<open>The shape of every step: the clock and the store keep what others have, one node or its answer changes.\<close>

lemma etcd_inv_by:
  assumes inv: "etcd_inv name s" and keep: "\<And>q. keeps_leases name s s' q"
    and node: "\<And>q. e_node s' q = e_node s q \<and> e_phase s' q = e_phase s q \<and> e_answer s' q = e_answer s q \<or>
      elector_ok name s' q (e_node s' q) (e_phase s' q) (e_answer s' q)"
    and tasks: "\<And>q. tasks_ok name (e_task s' q)"
    and ids: "dom (e_owner s') \<subseteq> st_ids (e_store s')" "dom (st_leases (e_store s')) \<subseteq> st_ids (e_store s')"
    and created: "\<And>key en. st_kv (e_store s') key = Some en \<Longrightarrow> 0 < en_create en"
    and sent: "\<And>t. t \<in> e_sent s' \<Longrightarrow> sent_ok name t"
    and rev: "\<And>l. l \<in> e_revokes s' \<Longrightarrow> \<exists>p. e_owner s' l = Some p \<and> \<not> electing (e_phase s' p)"
  shows "etcd_inv name s'"
proof -
  have "elector_ok name s' q (e_node s' q) (e_phase s' q) (e_answer s' q)" for q
    using node [of q] elector_ok_keeps [OF keep [of q]] inv by (auto simp: etcd_inv_def)
  then show ?thesis using tasks ids created sent rev by (simp add: etcd_inv_def)
qed

lemma etcd_inv_put:
  assumes inv: "etcd_inv name s" and ok: "elector_ok name s p (fst x) (snd x) None" and e: "electing (snd x) \<longrightarrow> electing (e_phase s p)"
  shows "etcd_inv name (put_etcd p x s)"
proof -
  let ?s = "put_etcd p x s"
  have same: "e_now ?s = e_now s" "e_store ?s = e_store s" "e_owner ?s = e_owner s" by (simp_all add: put_etcd_def)
  have cov: "lease_covers ?s = lease_covers s" "key_covered name ?s = key_covered name s"
    using same by (auto simp: lease_covers_def key_covered_def holds_key_def fun_eq_iff)
  show ?thesis
  proof (rule etcd_inv_by [OF inv])
    show "keeps_leases name s ?s q" for q using cov same by (simp add: keeps_leases_def)
    show "e_node ?s q = e_node s q \<and> e_phase ?s q = e_phase s q \<and> e_answer ?s q = e_answer s q \<or>
        elector_ok name ?s q (e_node ?s q) (e_phase ?s q) (e_answer ?s q)" for q
      using ok unfolding elector_ok_cong [OF same] by (simp add: put_etcd_def)
    show "sent_ok name t" if "t \<in> e_sent ?s" for t
      using that inv sends_ok [OF ok] by (auto simp: put_etcd_def etcd_inv_def)
    show "\<exists>q. e_owner ?s l = Some q \<and> \<not> electing (e_phase ?s q)" if "l \<in> e_revokes ?s" for l
      using that inv e by (fastforce simp: put_etcd_def etcd_inv_def)
  qed (use inv in \<open>simp_all add: etcd_inv_def put_etcd_def\<close>)
qed

lemma etcd_inv_put_task:
  assumes inv: "etcd_inv name s" and core: "etcd_core (fst x) = etcd_core (e_node s p)"
    and sent: "\<And>n t. snd x = CasWrite n t \<Longrightarrow> sent_ok name t"
  shows "etcd_inv name (put_task p i x s)"
proof -
  let ?s = "put_task p i x s"
  have same: "e_now ?s = e_now s" "e_store ?s = e_store s" "e_owner ?s = e_owner s" by (simp_all add: put_task_def)
  have cov: "lease_covers ?s = lease_covers s" "key_covered name ?s = key_covered name s"
    using same by (auto simp: lease_covers_def key_covered_def holds_key_def fun_eq_iff)
  show ?thesis
  proof (rule etcd_inv_by [OF inv])
    show "keeps_leases name s ?s q" for q using cov same by (simp add: keeps_leases_def)
    show "e_node ?s q = e_node s q \<and> e_phase ?s q = e_phase s q \<and> e_answer ?s q = e_answer s q \<or>
        elector_ok name ?s q (e_node ?s q) (e_phase ?s q) (e_answer ?s q)" for q
      using inv unfolding elector_ok_cong [OF same] by (auto simp: put_task_def etcd_inv_def elector_ok_core [OF core])
    show "tasks_ok name (e_task ?s q)" for q
      using inv sent by (auto simp: put_task_def etcd_inv_def tasks_ok_def)
    show "sent_ok name t" if "t \<in> e_sent ?s" for t
      using that inv sent by (auto simp: put_task_def etcd_inv_def split: cas_phase.splits)
  qed (use inv in \<open>simp_all add: etcd_inv_def put_task_def\<close>)
qed


subsection \<open>Steps of etcd\<close>

lemma run_txn_campaign:
  assumes "run_txn (build_campaign_txn name i l) st = Some (st', r)"
  obtains en where "st_kv st name = Some en" "0 < en_create en" "st' = st" "campaign_won r l \<longleftrightarrow> en_lease en = Some l"
  | en where "st_kv st name = Some en" "en_create en = 0"
  | "st_kv st name = None" "st' = put_kv name (NameValue i) (Some l) st" "st_leases st l \<noteq> None"
proof (cases "st_kv st name")
  case None
  then have "compare_holds st (CreateRevision name 0)" by (simp add: compare_holds_def)
  then show ?thesis using that(3) assms None by (auto simp: run_txn_def build_campaign_txn_def Let_def split: if_splits)
next
  case (Some en)
  show ?thesis
  proof (cases "en_create en = 0")
    case False
    then have "\<not> compare_holds st (CreateRevision name 0)" using Some by (simp add: compare_holds_def)
    then show ?thesis using that(1) [OF Some] assms Some False
      by (auto simp: run_txn_def build_campaign_txn_def range_of_def kv_of_def campaign_won_def)
  qed (use that(2) Some in blast)
qed

lemma run_txn_cas:
  assumes "run_txn (build_reboot_ran_cas_txn key v n) st = Some (st', r)"
  shows "st' = (if compare_holds st (ModRevision key n) then put_kv key (MarksValue v) None st else st)"
    and "tr_succeeded r = compare_holds st (ModRevision key n)"
  using assms by (auto simp: run_txn_def build_reboot_ran_cas_txn_def Let_def split: if_splits)

lemma put_kv_simps [simp]:
  "st_leases (put_kv key v l st) = st_leases st" "st_ids (put_kv key v l st) = st_ids st"
  "key' \<noteq> key \<Longrightarrow> st_kv (put_kv key v l st) key' = st_kv st key'"
  by (simp_all add: put_kv_def)

lemma run_txn_store:
  assumes t: "sent_ok name t" and run: "run_txn t st = Some (st', r)"
    and created: "\<And>key en. st_kv st key = Some en \<Longrightarrow> 0 < en_create en"
  shows "st_leases st' = st_leases st" "st_ids st' = st_ids st" "st_kv st name \<noteq> None \<Longrightarrow> st_kv st' name = st_kv st name"
    "\<And>key en. st_kv st' key = Some en \<Longrightarrow> 0 < en_create en"
proof -
  have "(\<exists>key v l. st' = put_kv key v l st \<and> (key = name \<longrightarrow> st_kv st name = None)) \<or> st' = st"
    using t unfolding sent_ok_def
  proof (elim disjE exE)
    fix i l assume "t = build_campaign_txn name i l"
    with run have run': "run_txn (build_campaign_txn name i l) st = Some (st', r)" by simp
    show ?thesis by (rule run_txn_campaign [OF run']) (use created in \<open>force+\<close>)
  next
    fix v n assume "t = build_reboot_ran_cas_txn (name @ ''/reboot-ran'') v n"
    with run have run': "run_txn (build_reboot_ran_cas_txn (name @ ''/reboot-ran'') v n) st = Some (st', r)" by simp
    have "name @ ''/reboot-ran'' \<noteq> name" by simp
    with run_txn_cas(1) [OF run'] show ?thesis by metis
  qed
  then show "st_leases st' = st_leases st" "st_ids st' = st_ids st" "st_kv st name \<noteq> None \<Longrightarrow> st_kv st' name = st_kv st name"
    "\<And>key en. st_kv st' key = Some en \<Longrightarrow> 0 < en_create en"
    using created by (auto simp: put_kv_def split: if_splits option.splits)
qed

lemma keeps_same_store:
  assumes "e_now s' = e_now s" "e_owner s \<subseteq>\<^sub>m e_owner s'"
    and "\<And>l till. st_leases (e_store s) l = Some till \<Longrightarrow> \<exists>till'. st_leases (e_store s') l = Some till' \<and> till \<le> till'"
    and "\<And>l. holds_key name s l \<Longrightarrow> holds_key name s' l"
  shows "keeps_leases name s s' p"
proof -
  have "lease_covers s' l d" if "lease_covers s l d" for l d
    using that assms(1) assms(3) [of l] unfolding lease_covers_def by (metis order_trans)
  then show ?thesis using assms(1,2,4) by (auto simp: keeps_leases_def key_covered_def map_le_def dom_def)
qed

lemma keeps_txn:
  assumes inv: "etcd_inv name s" and t: "sent_ok name t" and run: "run_txn t (e_store s) = Some (st, r)"
    and s': "e_now s' = e_now s" "e_owner s' = e_owner s" "e_store s' = st"
  shows "keeps_leases name s s' p"
proof (rule keeps_same_store)
  note st = run_txn_store [OF t run]
  have created: "\<And>key en. st_kv (e_store s) key = Some en \<Longrightarrow> 0 < en_create en" using inv by (simp add: etcd_inv_def)
  show "\<exists>till'. st_leases (e_store s') l = Some till' \<and> till \<le> till'" if "st_leases (e_store s) l = Some till" for l till
    using that st(1) [OF created] s'(3) by simp
  show "holds_key name s' l" if "holds_key name s l" for l
    using that st(3) [OF created] s'(3) by (auto simp: holds_key_def)
qed (use s' in simp_all)

lemma keeps_extend: "e_now s' = e_now s \<Longrightarrow> e_owner s' = e_owner s \<Longrightarrow> e_store s' = extend_lease l till (e_store s) \<Longrightarrow> keeps_leases name s s' p"
  by (rule keeps_same_store) (auto simp: extend_lease_def holds_key_def)

lemma keeps_add:
  "e_now s' = e_now s \<Longrightarrow> e_owner s \<subseteq>\<^sub>m e_owner s' \<Longrightarrow> e_store s' = add_lease l till (e_store s) \<Longrightarrow>
   st_leases (e_store s) l = None \<Longrightarrow> keeps_leases name s s' p"
  by (rule keeps_same_store) (auto simp: add_lease_def holds_key_def)

lemma keeps_drop:
  assumes s': "s' = s\<lparr>e_store := drop_lease l (e_store s)\<rparr>"
    and over: "(\<forall>till. st_leases (e_store s) l = Some till \<longrightarrow> till \<le> e_now s) \<or> \<not> (e_owner s l = Some p \<and> electing (e_phase s p))"
  shows "keeps_leases name s s' p"
proof -
  have other: "lease_covers s' l' d = lease_covers s l' d" "holds_key name s' l' = holds_key name s l'" if "l' \<noteq> l" for l' d
    using that unfolding s' by (auto simp: lease_covers_def holds_key_def drop_lease_def split: option.splits)
  have ended: "d \<le> e_now s'" if "lease_covers s l d" "\<forall>till. st_leases (e_store s) l = Some till \<longrightarrow> till \<le> e_now s" for d
    using that unfolding s' lease_covers_def by force
  show ?thesis unfolding keeps_leases_def
  proof (intro conjI allI impI)
    fix l' d assume own: "e_owner s l' = Some p" and e: "electing (e_phase s p)"
    show "lease_covers s' l' d" if "lease_covers s l' d"
      using that other ended over own e by (cases "l' = l") (auto simp: lease_covers_def)
    show "key_covered name s' l' d" if "key_covered name s l' d"
      using that other ended over own e unfolding s' by (cases "l' = l") (auto simp: key_covered_def)
  qed (simp_all add: s')
qed

end
