(* ===== verification/EtcdRounds.thy ===== *)
theory EtcdRounds
  imports EtcdLeaders
begin

text \<open>
  Every piece of a renew round, and every step of the system, keeps_leases the invariant of the etcd election;
  so the election key is a fenced backend among the nodes that are not stopping.
\<close>

subsection \<open>The pieces of a round\<close>

lemma narrow_core [simp]:
  "eb_effective_ttl (narrow_effective_ttl t b) = narrowed b t" "eb_leader_flag (narrow_effective_ttl t b) = eb_leader_flag b"
  "eb_lease_lost (narrow_effective_ttl t b) = eb_lease_lost b" "eb_lease_id (narrow_effective_ttl t b) = eb_lease_id b"
  "eb_lease_deadline_mono (narrow_effective_ttl t b) = eb_lease_deadline_mono b"
  "eb_election_name (narrow_effective_ttl t b) = eb_election_name b" "eb_ttl (narrow_effective_ttl t b) = eb_ttl b"
  by (simp_all add: narrow_effective_ttl_def narrowed_def Let_def)

lemma reconcile_core [simp]:
  "etcd_core (reconcile_local_reboot_ran live b) = etcd_core b" "etcd_core (reconcile_observed_reboot_ran live b) = etcd_core b"
  by (simp_all add: reconcile_local_reboot_ran_def reconcile_observed_reboot_ran_def etcd_core_def)

lemma marks_core [simp]:
  "etcd_core (fold_marks live mt kv b) = etcd_core b" "etcd_core (fst (after_range live mt n kv b)) = etcd_core b"
  "etcd_core (sync_failed mt b) = etcd_core b" "etcd_core (fst (sync_due live leaderish mt b)) = etcd_core b"
  "etcd_core (fst (etcd_mark live job b)) = etcd_core b"
proof -
  show fold: "etcd_core (fold_marks live mt kv b) = etcd_core b"
    by (simp add: fold_marks_def observe_reboot_ran_def etcd_core_def split: prod.split)
  show "etcd_core (fst (after_range live mt n kv b)) = etcd_core b" by (simp add: after_range_def fold Let_def)
  show "etcd_core (sync_failed mt b) = etcd_core b" by (simp add: sync_failed_def etcd_core_def)
  show "etcd_core (fst (sync_due live leaderish mt b)) = etcd_core b" by (simp add: sync_due_def Let_def)
  have "etcd_core (reconcile_local_reboot_ran live b) = etcd_core b" by simp
  then show "etcd_core (fst (etcd_mark live job b)) = etcd_core b" by (simp add: etcd_mark_def etcd_core_def Let_def)
qed

lemma start_round_ok:
  assumes "elector_ok name s p b EtcdIdle ans"
  shows "elector_ok name s p (fst (etcd_start_round (e_now s) b)) (snd (etcd_start_round (e_now s) b)) None"
  using assms
  by (auto simp: elector_ok_def etcd_start_round_def phase_ok_def fence_backed_def electing_def Let_def)

lemma after_keepalive_ok:
  assumes "elector_ok name s p b (Keepalive a) (Some (TtlAnswer ttl))"
  shows "elector_ok name s p (fst (after_keepalive (e_now s) a ttl b)) (snd (after_keepalive (e_now s) a ttl b)) None"
  using assms
  by (auto simp: elector_ok_def after_keepalive_def phase_ok_def fence_backed_def electing_def split: option.split)

lemma after_grant_ok:
  assumes "elector_ok name s p b (Granting a) (Some (GrantAnswer l t))"
  shows "elector_ok name s p (fst (after_grant a l t b)) (snd (after_grant a l t b)) None"
  using assms
  by (auto simp: elector_ok_def after_grant_def phase_ok_def fence_backed_def electing_def narrowed_def Let_def)

lemma finish_sync_ok:
  assumes "elector_ok name s p b (Syncing gain c) ans" "etcd_core b' = etcd_core b"
  shows "elector_ok name s p (finish_sync gain b') EtcdIdle None"
proof -
  have "elector_ok name s p b' (Syncing gain c) ans" using assms(1) elector_ok_core [OF assms(2)] by simp
  then show ?thesis
    by (auto simp: elector_ok_def finish_sync_def etcd_apply_round_def phase_ok_def fence_backed_def electing_def fence_at_def
        Let_def split: option.split)
qed

lemma start_sync_ok:
  assumes "elector_ok name s p b (Syncing gain (CasRead n)) ans"
  shows "elector_ok name s p (fst (start_sync live leaderish gain mt b)) (snd (start_sync live leaderish gain mt b)) None"
proof -
  obtain b' due where due: "sync_due live leaderish mt b = (b', due)" by fastforce
  then have core: "etcd_core b' = etcd_core b" using marks_core(4) [of live leaderish mt b] by simp
  have "elector_ok name s p b' (Syncing gain (CasRead m)) None" for m
    unfolding elector_ok_core [OF core] using assms by (auto simp: elector_ok_def phase_ok_def electing_def split: option.split)
  then show ?thesis using finish_sync_ok [OF assms core] due by (cases due) (simp_all add: start_sync_def)
qed

lemma after_campaign_ok:
  assumes ok: "elector_ok name s p b (Campaign a) (Some (TxnAnswer r))" and l: "eb_lease_id b = Some l"
  shows "elector_ok name s p (fst (after_campaign live (e_now s) a l r b)) (snd (after_campaign live (e_now s) a l r b)) None"
proof -
  let ?h = "holder_from_txn_response r (eb_identity b)"
  have "elector_ok name s p (b\<lparr>eb_reboot_ran_synced := False\<rparr>) (Syncing (Some (?h, e_now s, a)) (CasRead 0)) None"
    if "campaign_won r l"
    using ok l that by (auto simp: elector_ok_def phase_ok_def fence_backed_def electing_def)
  moreover have "elector_ok name s p (etcd_apply_round ?h (campaign_won r l) (e_now s) a b) (Syncing None (CasRead 0)) None"
    using ok l
    by (auto simp: elector_ok_def phase_ok_def fence_backed_def electing_def etcd_apply_round_def fence_at_def Let_def)
  ultimately show ?thesis by (auto simp: after_campaign_def Let_def intro: start_sync_ok)
qed

lemma after_range_sends:
  assumes "snd (after_range live mt n kv b) = CasWrite m t"
  shows "sent_ok (eb_election_name b) t"
proof -
  have "eb_election_name (fold_marks live mt kv b) = eb_election_name b"
    using marks_core(1) [of live mt kv b] by (simp add: etcd_core_def)
  then show ?thesis using assms
    by (auto simp: after_range_def marks_write_def sent_ok_def eb_reboot_ran_key_def Let_def split: option.splits if_splits)
qed

lemma after_cas_not_write [simp]: "after_cas n ok \<noteq> CasWrite m t"
  by (simp add: after_cas_def)

lemma go_on_ok:
  assumes ok: "elector_ok name s p b (Syncing gain c) ans" and core: "etcd_core (fst x) = etcd_core b"
    and sent: "\<And>n t. snd x = CasWrite n t \<Longrightarrow> sent_ok name t"
  shows "elector_ok name s p (fst (go_on gain x)) (snd (go_on gain x)) None"
proof (cases "snd x = CasDone")
  case True
  then show ?thesis using finish_sync_ok [OF ok core] by (simp add: go_on_def)
next
  case False
  have "elector_ok name s p (fst x) (Syncing gain c) ans" using ok elector_ok_core [OF core] by simp
  then have "elector_ok name s p (fst x) (Syncing gain (snd x)) None"
    using sent by (auto simp: elector_ok_def phase_ok_def electing_def split: option.splits)
  then show ?thesis using False by (simp add: go_on_def)
qed


subsection \<open>The steps of the system\<close>

lemma etcd_invD:
  assumes "etcd_inv name s"
  shows "elector_ok name s p (e_node s p) (e_phase s p) (e_answer s p)" "tasks_ok name (e_task s p)"
    "eb_election_name (e_node s p) = name"
  using assms by (simp_all add: etcd_inv_def elector_ok_def)

lemma etcd_inv_reply:
  assumes inv: "etcd_inv name s" and keep: "\<And>q. keeps_leases name s (reply p st ans s) q"
    and ok: "elector_ok name (reply p st ans s) p (e_node s p) (e_phase s p) (Some ans)"
    and ids: "st_ids st = st_ids (e_store s)" "dom (st_leases st) = dom (st_leases (e_store s))"
    and created: "\<And>key en. st_kv st key = Some en \<Longrightarrow> 0 < en_create en"
  shows "etcd_inv name (reply p st ans s)"
  by (rule etcd_inv_by [OF inv keep]) (use inv ok ids created in \<open>auto simp: reply_def etcd_inv_def\<close>)

lemma etcd_inv_store:
  assumes inv: "etcd_inv name s" and keep: "\<And>q. keeps_leases name s (s\<lparr>e_store := st\<rparr>) q"
    and ids: "st_ids (e_store s) \<subseteq> st_ids st" "dom (st_leases st) \<subseteq> st_ids st"
    and created: "\<And>key en. st_kv st key = Some en \<Longrightarrow> 0 < en_create en"
  shows "etcd_inv name (s\<lparr>e_store := st\<rparr>)"
  by (rule etcd_inv_by [OF inv keep]) (use inv ids created in \<open>auto simp: etcd_inv_def\<close>)

lemma etcd_inv_txn:
  assumes inv: "etcd_inv name s" and t: "sent_ok name t" and run: "run_txn t (e_store s) = Some (st, r)"
  shows "etcd_inv name (s\<lparr>e_store := st\<rparr>)"
    and "elector_ok name (reply p st (TxnAnswer r) s) p (e_node s p) (e_phase s p) (Some (TxnAnswer r)) \<Longrightarrow>
      etcd_inv name (reply p st (TxnAnswer r) s)"
proof -
  have created: "\<And>key en. st_kv (e_store s) key = Some en \<Longrightarrow> 0 < en_create en" using inv by (simp add: etcd_inv_def)
  note st = run_txn_store [OF t run created]
  show "etcd_inv name (s\<lparr>e_store := st\<rparr>)"
    by (rule etcd_inv_store [OF inv keeps_txn [OF inv t run]]) (use st inv in \<open>auto simp: etcd_inv_def\<close>)
  show "etcd_inv name (reply p st (TxnAnswer r) s)"
    if "elector_ok name (reply p st (TxnAnswer r) s) p (e_node s p) (e_phase s p) (Some (TxnAnswer r))"
    by (rule etcd_inv_reply [OF inv keeps_txn [OF inv t run] that]) (use st in \<open>auto simp: reply_def\<close>)
qed

lemma etcd_inv_task_reply:
  assumes "etcd_inv name (s\<lparr>e_store := st\<rparr>)"
  shows "etcd_inv name (reply_task p i st ans s)"
proof (rule etcd_inv_by [OF assms])
  show "tasks_ok name (e_task (reply_task p i st ans s) q)" for q
    using etcd_invD(2) [OF assms, of q] by (auto simp: tasks_ok_def reply_task_def) (metis prod.collapse)
qed (use assms in \<open>auto simp: etcd_inv_def reply_task_def keeps_leases_def lease_covers_def key_covered_def holds_key_def\<close>)

lemma etcd_inv_tick:
  assumes inv: "etcd_inv name s" and t: "e_now s \<le> t"
  shows "etcd_inv name (s\<lparr>e_now := t\<rparr>)"
proof (rule etcd_inv_by [OF inv])
  show "keeps_leases name s (s\<lparr>e_now := t\<rparr>) q" for q
    using t by (auto simp: keeps_leases_def lease_covers_def key_covered_def holds_key_def)
qed (use inv in \<open>simp_all add: etcd_inv_def\<close>)

lemma etcd_inv_drop:
  assumes inv: "etcd_inv name s"
    and over: "(\<forall>till. st_leases (e_store s) l = Some till \<longrightarrow> till \<le> e_now s) \<or>
      (\<exists>p. e_owner s l = Some p \<and> \<not> electing (e_phase s p))"
  shows "etcd_inv name (s\<lparr>e_store := drop_lease l (e_store s)\<rparr>)"
proof (rule etcd_inv_store [OF inv])
  show "keeps_leases name s (s\<lparr>e_store := drop_lease l (e_store s)\<rparr>) q" for q
    by (rule keeps_drop [OF refl]) (use over in auto)
  show "0 < en_create en" if "st_kv (drop_lease l (e_store s)) key = Some en" for key en
    using that inv by (auto simp: drop_lease_def etcd_inv_def split: option.splits if_splits)
qed (use inv in \<open>auto simp: drop_lease_def etcd_inv_def dom_def split: if_splits\<close>)

lemma keepalive_lands_ok:
  assumes inv: "etcd_inv name s" and ph: "e_phase s p = Keepalive a" and l: "eb_lease_id (e_node s p) = Some l"
    and alive: "st_leases (e_store s) l \<noteq> None" and t: "0 < t"
  shows "etcd_inv name (reply p (extend_lease l (e_now s + real_of_int t) (e_store s)) (TtlAnswer (Some t)) s)"
    (is "etcd_inv name ?s")
proof (rule etcd_inv_reply [OF inv])
  show keep: "keeps_leases name s ?s q" for q by (rule keeps_extend) (simp_all add: reply_def)
  have a: "a \<le> e_now s" using etcd_invD(1) [OF inv, of p] ph by (simp add: elector_ok_def phase_ok_def electing_def)
  obtain till where till: "st_leases (e_store s) l = Some till" using alive by auto
  have "narrowed (e_node s p) t \<le> t" using t by (auto simp: narrowed_def)
  then have "fence_at (narrowed (e_node s p) t) a \<le> e_now s + real_of_int t"
    using a by (simp add: fence_at_def ETCD_SKEW_SECONDS_def)
  then have "lease_covers ?s l (fence_at (narrowed (e_node s p) t) a)"
    using till by (auto simp: lease_covers_def reply_def extend_lease_def le_max_iff_disj)
  moreover have "elector_ok name ?s p (e_node s p) (Keepalive a) (e_answer s p)"
    using elector_ok_keeps [OF keep etcd_invD(1) [OF inv, of p]] ph by simp
  ultimately show "elector_ok name ?s p (e_node s p) (e_phase s p) (Some (TtlAnswer (Some t)))"
    using l ph by (simp add: elector_ok_def phase_ok_def)
qed (use inv alive in \<open>auto simp: extend_lease_def etcd_inv_def dom_def\<close>)

lemma grant_lands_ok:
  assumes inv: "etcd_inv name s" and ph: "e_phase s p = Granting a" and fresh: "l \<notin> st_ids (e_store s)"
  shows "etcd_inv name ((reply p (add_lease l (e_now s + real_of_int t) (e_store s)) (GrantAnswer (Some l) (Some t)) s)
    \<lparr>e_owner := (e_owner s)(l \<mapsto> p)\<rparr>)" (is "etcd_inv name ?s")
proof (rule etcd_inv_by [OF inv])
  have new: "st_leases (e_store s) l = None" "e_owner s l = None" using inv fresh by (auto simp: etcd_inv_def)
  show keep: "keeps_leases name s ?s q" for q
    by (rule keeps_add) (use new in \<open>auto simp: reply_def map_le_def\<close>)
  have a: "a \<le> e_now s" using etcd_invD(1) [OF inv, of p] ph by (simp add: elector_ok_def phase_ok_def electing_def)
  then have "lease_covers ?s l (fence_at (narrowed (e_node s p) t) a)"
    by (cases "1 \<le> t") (auto simp: lease_covers_def reply_def add_lease_def fence_at_def ETCD_SKEW_SECONDS_def narrowed_def)
  moreover have "elector_ok name ?s p (e_node s p) (Granting a) (e_answer s p)"
    using elector_ok_keeps [OF keep etcd_invD(1) [OF inv, of p]] ph by simp
  ultimately have "elector_ok name ?s p (e_node s p) (Granting a) (Some (GrantAnswer (Some l) (Some t)))"
    by (simp add: elector_ok_def phase_ok_def)
  then show "e_node ?s q = e_node s q \<and> e_phase ?s q = e_phase s q \<and> e_answer ?s q = e_answer s q \<or>
      elector_ok name ?s q (e_node ?s q) (e_phase ?s q) (e_answer ?s q)" for q
    using ph by (simp add: reply_def)
  show "\<exists>q. e_owner ?s k = Some q \<and> \<not> electing (e_phase ?s q)" if "k \<in> e_revokes ?s" for k
    using that inv new by (force simp: etcd_inv_def reply_def)
qed (use inv in \<open>auto simp: etcd_inv_def reply_def add_lease_def\<close>)

lemma campaign_lands_ok:
  assumes inv: "etcd_inv name s" and ph: "e_phase s p = Campaign a" and l: "eb_lease_id (e_node s p) = Some l"
    and run: "run_txn (build_campaign_txn name i l) (e_store s) = Some (st, r)"
  shows "etcd_inv name (reply p st (TxnAnswer r) s)" (is "etcd_inv name ?s")
proof (rule etcd_inv_txn(2) [OF inv _ run])
  show t: "sent_ok name (build_campaign_txn name i l)" by (auto simp: sent_ok_def)
  have keep: "keeps_leases name s ?s p" by (rule keeps_txn [OF inv t run]) (simp_all add: reply_def)
  have "\<And>en. st_kv (e_store s) name = Some en \<Longrightarrow> en_create en \<noteq> 0" using inv by (auto simp: etcd_inv_def)
  then have "holds_key name ?s l" if "campaign_won r l"
    using that by (cases rule: run_txn_campaign [OF run]) (auto simp: holds_key_def reply_def put_kv_def)
  moreover have "elector_ok name ?s p (e_node s p) (Campaign a) (e_answer s p)"
    using elector_ok_keeps [OF keep etcd_invD(1) [OF inv, of p]] ph by simp
  ultimately show "elector_ok name ?s p (e_node s p) (e_phase s p) (Some (TxnAnswer r))"
    using l ph by (auto simp: elector_ok_def phase_ok_def key_covered_def electing_def)
qed


text \<open>An answer that changes nothing in the store.\<close>

lemma etcd_inv_told:
  assumes inv: "etcd_inv name s" and ok: "elector_ok name s p (e_node s p) (e_phase s p) (Some ans)"
  shows "etcd_inv name (reply p (e_store s) ans s)"
proof (rule etcd_inv_reply [OF inv])
  show "elector_ok name (reply p (e_store s) ans s) p (e_node s p) (e_phase s p) (Some ans)"
    using ok by (subst elector_ok_cong [where s = s]) (simp_all add: reply_def)
qed (use inv in \<open>auto simp: keeps_leases_def reply_def lease_covers_def key_covered_def holds_key_def etcd_inv_def\<close>)

lemma stop_ok:
  assumes inv: "etcd_inv name s"
  shows "etcd_inv name ((put_etcd p (e_node s p, Revoking) s)
    \<lparr>e_revokes := set_option (eb_lease_id (e_node s p)) \<union> e_revokes s\<rparr>)" (is "etcd_inv name ?t")
proof -
  let ?s = "put_etcd p (e_node s p, Revoking) s"
  have "elector_ok name s p (e_node s p) Revoking None"
    using etcd_invD(1) [OF inv, of p] by (simp add: elector_ok_def electing_def)
  then have put: "etcd_inv name ?s" by (auto intro!: etcd_inv_put [OF inv] simp: electing_def)
  have own: "\<And>l. eb_lease_id (e_node s p) = Some l \<Longrightarrow> e_owner s l = Some p"
    using etcd_invD(1) [OF inv, of p] by (simp add: elector_ok_def)
  show ?thesis
  proof (rule etcd_inv_by [OF put])
    show "\<exists>q. e_owner ?t l = Some q \<and> \<not> electing (e_phase ?t q)" if "l \<in> e_revokes ?t" for l
      using that own inv by (fastforce simp: put_etcd_def electing_def etcd_inv_def)
  qed (use put in \<open>auto simp: etcd_inv_def keeps_leases_def lease_covers_def key_covered_def holds_key_def\<close>)
qed

lemma etcd_inv_step:
  assumes inv: "etcd_inv name s" and step: "etcd_step s s'"
  shows "etcd_inv name s'"
proof -
  note ok = etcd_invD(1) [OF inv] and tasks = etcd_invD(2) [OF inv] and names = etcd_invD(3) [OF inv]
  have same: "etcd_inv name (s\<lparr>e_store := e_store s\<rparr>)" using inv by simp
  from step show ?thesis
  proof cases
    case (start p)
    then show ?thesis using start_round_ok [of name s p] ok [of p] by (auto intro!: etcd_inv_put [OF inv] simp: electing_def)
  next
    case (keepalive_lands p a l t)
    then show ?thesis using keepalive_lands_ok [OF inv] by simp
  next
    case (keepalive_gone p a l)
    have "elector_ok name s p (e_node s p) (e_phase s p) (Some (TtlAnswer (Some 0)))"
      using ok [of p] keepalive_gone(2) by (auto simp: elector_ok_def phase_ok_def)
    then show ?thesis unfolding keepalive_gone(1) by (rule etcd_inv_told [OF inv])
  next
    case (keepalive_answered p a ttl)
    then show ?thesis using after_keepalive_ok [of name s p "e_node s p" a ttl] ok [of p]
      by (auto intro!: etcd_inv_put [OF inv] simp: electing_def)
  next
    case (grant_lands p a l t)
    then show ?thesis using grant_lands_ok [OF inv] by simp
  next
    case (grant_answered p a l t)
    then show ?thesis using after_grant_ok [of name s p "e_node s p" a l t] ok [of p]
      by (auto intro!: etcd_inv_put [OF inv] simp: electing_def)
  next
    case (campaign_lands p a l st r)
    then show ?thesis using campaign_lands_ok [OF inv] names by simp
  next
    case (campaign_answered p a r l)
    then show ?thesis using after_campaign_ok [of name s p "e_node s p" a r l] ok [of p]
      by (auto intro!: etcd_inv_put [OF inv] simp: electing_def)
  next
    case (range_lands p gain n)
    have "elector_ok name s p (e_node s p) (e_phase s p) (Some ans)" for ans
      using ok [of p] range_lands(2) by (auto simp: elector_ok_def phase_ok_def split: option.splits)
    then show ?thesis unfolding range_lands(1) by (rule etcd_inv_told [OF inv])
  next
    case (range_answered p gain n kv)
    have "sent_ok name t" if "snd (after_range (e_live s p) (e_now s) n kv (e_node s p)) = CasWrite m t" for m t
      using after_range_sends [OF that] names by simp
    then show ?thesis using ok [of p] range_answered
      by (auto intro!: etcd_inv_put [OF inv] go_on_ok [of name s p "e_node s p" gain "CasRead n"] simp: electing_def)
  next
    case (cas_lands p gain n t st r)
    have t: "sent_ok name t" using ok [of p] cas_lands(2) by (simp add: elector_ok_def)
    have keep: "keeps_leases name s (reply p st (TxnAnswer r) s) p"
      by (rule keeps_txn [OF inv t cas_lands(4)]) (simp_all add: reply_def)
    have "elector_ok name (reply p st (TxnAnswer r) s) p (e_node s p) (e_phase s p) (Some (TxnAnswer r))"
      using elector_ok_keeps [OF keep ok [of p]] cas_lands(2) by (simp add: elector_ok_def phase_ok_def split: option.splits)
    then show ?thesis unfolding cas_lands(1) by (rule etcd_inv_txn(2) [OF inv t cas_lands(4)])
  next
    case (cas_answered p gain n t r)
    then show ?thesis using ok [of p]
      by (auto intro!: etcd_inv_put [OF inv] go_on_ok [of name s p "e_node s p" gain "CasWrite n t"] simp: electing_def)
  next
    case (sync_fails p gain c)
    then show ?thesis using finish_sync_ok [of name s p "e_node s p" gain c] ok [of p]
      by (auto intro!: etcd_inv_put [OF inv] simp: electing_def)
  next
    case (abandon p)
    then have "elector_ok name s p (e_node s p) EtcdIdle None" using ok [of p] by (auto simp: elector_ok_def phase_ok_def electing_def)
    then show ?thesis using abandon by (auto intro!: etcd_inv_put [OF inv] simp: electing_def)
  next
    case (mark p i job)
    have "snd (etcd_mark live job b) \<noteq> CasWrite n t" for live b n t by (simp add: etcd_mark_def Let_def)
    then show ?thesis unfolding mark(1) by (intro etcd_inv_put_task [OF inv]) simp_all
  next
    case (task_range_lands p i n)
    then show ?thesis using etcd_inv_task_reply [OF same] by simp
  next
    case (task_range_answered p i n kv)
    have "sent_ok name t" if "snd (after_range (e_live s p) (e_now s) n kv (e_node s p)) = CasWrite m t" for m t
      using after_range_sends [OF that] names by simp
    then show ?thesis unfolding task_range_answered(1) by (intro etcd_inv_put_task [OF inv]) simp_all
  next
    case (task_cas_lands p i n t st r)
    have "sent_ok name t" using tasks [of p] task_cas_lands(2) by (auto simp: tasks_ok_def)
    then show ?thesis unfolding task_cas_lands(1) by (intro etcd_inv_task_reply etcd_inv_txn(1) [OF inv _ task_cas_lands(3)])
  next
    case (task_cas_answered p i n t r)
    then show ?thesis by (auto intro!: etcd_inv_put_task [OF inv])
  next
    case (task_fails p i)
    then show ?thesis by (auto intro!: etcd_inv_put_task [OF inv])
  next
    case (stray_txn t st r)
    then have "sent_ok name t" using inv by (simp add: etcd_inv_def)
    then show ?thesis unfolding stray_txn(1) by (rule etcd_inv_txn(1) [OF inv _ stray_txn(3)])
  next
    case (stray_keepalive t l)
    show ?thesis unfolding stray_keepalive(1)
    proof (rule etcd_inv_store [OF inv])
      show "keeps_leases name s (s\<lparr>e_store := extend_lease l (e_now s + real_of_int t) (e_store s)\<rparr>) q" for q
        by (rule keeps_extend) simp_all
    qed (use inv in \<open>auto simp: extend_lease_def etcd_inv_def dom_def split: if_splits\<close>)
  next
    case (stray_grant l till)
    then have "st_leases (e_store s) l = None" using inv by (auto simp: etcd_inv_def)
    then have keep: "keeps_leases name s (s\<lparr>e_store := add_lease l till (e_store s)\<rparr>) q" for q
      by (intro keeps_add) simp_all
    show ?thesis unfolding stray_grant(1)
      by (rule etcd_inv_store [OF inv keep]) (use inv in \<open>auto simp: add_lease_def etcd_inv_def\<close>)
  next
    case (expire l till)
    then show ?thesis by (auto intro!: etcd_inv_drop [OF inv])
  next
    case (stop p)
    then show ?thesis using stop_ok [OF inv] by simp
  next
    case (revoke_lands l)
    then have "\<exists>p. e_owner s l = Some p \<and> \<not> electing (e_phase s p)" using inv by (simp add: etcd_inv_def)
    then show ?thesis unfolding revoke_lands(1) by (intro etcd_inv_drop [OF inv] disjI2)
  next
    case (close p)
    then have "elector_ok name s p (etcd_stop (e_node s p)) EtcdStopped None"
      using ok [of p] by (simp add: elector_ok_def etcd_stop_def electing_def)
    then show ?thesis unfolding close(1) by (auto intro!: etcd_inv_put [OF inv] simp: electing_def)
  next
    case (reload p live)
    show ?thesis unfolding reload
      by (rule etcd_inv_by [OF inv]) (use inv in \<open>auto simp: etcd_inv_def keeps_leases_def lease_covers_def key_covered_def holds_key_def\<close>)
  next
    case (tick t)
    then show ?thesis using etcd_inv_tick [OF inv] by simp
  qed
qed


lemma etcd_inv_init: "etcd_init name s \<Longrightarrow> etcd_inv name s"
  unfolding etcd_init_def etcd_inv_def
proof (intro conjI allI, goal_cases)
  case (1 p)
  then obtain nm urls auth ttl ct where "e_node s p = new_etcd_backend nm urls auth name ttl ct" by blast
  with 1 show ?case by (simp add: elector_ok_def fence_backed_def phase_ok_def new_etcd_backend_def)
qed (auto simp: tasks_ok_def)

lemma etcd_reachable_inv:
  assumes "etcd_reachable name s"
  shows "etcd_inv name s"
proof -
  obtain s0 where "etcd_init name s0" "etcd_step\<^sup>*\<^sup>* s0 s" using assms by (auto simp: etcd_reachable_def)
  from this(2,1) show ?thesis by (induction rule: rtranclp_induct) (auto intro: etcd_inv_init etcd_inv_step)
qed

lemma etcd_leader_holds_key:
  assumes "etcd_inv name s" and "electing (e_phase s p)" and "etcd_is_leader (e_now s) (e_node s p)"
  shows "\<exists>en l. st_kv (e_store s) name = Some en \<and> en_lease en = Some l \<and> eb_lease_id (e_node s p) = Some l \<and> e_owner s l = Some p"
  using etcd_invD(1) [OF assms(1), of p] assms(2,3)
  by (auto simp: etcd_is_leader_def elector_ok_def fence_backed_def key_covered_def holds_key_def split: option.splits if_splits)

text \<open>The election key as a fenced backend: the identity is the lease, not the name of the node.\<close>

interpretation election_key: single_holder "etcd_inv name"
  "\<lambda>s p. electing (e_phase s p) \<and> etcd_is_leader (e_now s) (e_node s p)"
  "\<lambda>s p. the (eb_lease_id (e_node s p))" "\<lambda>s. Option.bind (st_kv (e_store s) name) en_lease" for name
proof
  show "Option.bind (st_kv (e_store s) name) en_lease = Some (the (eb_lease_id (e_node s p)))"
    if "etcd_inv name s" and "electing (e_phase s p) \<and> etcd_is_leader (e_now s) (e_node s p)" for s p
    using etcd_leader_holds_key [OF that(1), of p] that(2) by auto
  show "p = q" if "etcd_inv name s" and "electing (e_phase s p) \<and> etcd_is_leader (e_now s) (e_node s p)"
    and "electing (e_phase s q) \<and> etcd_is_leader (e_now s) (e_node s q)"
    and "the (eb_lease_id (e_node s p)) = the (eb_lease_id (e_node s q))" for s p q
    using etcd_leader_holds_key [OF that(1), of p] etcd_leader_holds_key [OF that(1), of q] that(2-4) by auto
qed

end
