(* ===== verification/EtcdMarks.thy ===== *)
theory EtcdMarks
  imports EtcdRounds
begin

text \<open>
  The set of one-shots that have run, kept at a key of its own by compare-and-swap: under one job set the
  stored set only grows, however the rounds and the eager writes of the nodes interleave.
\<close>

subsection \<open>The stored set\<close>

definition marks_key :: "string \<Rightarrow> string" where
  "marks_key name = name @ ''/reboot-ran''"

definition kv_marks :: "string \<Rightarrow> etcd_kv option \<Rightarrow> string set" where
  "kv_marks j kv =
     (case decode_reboot_ran (case Option.bind kv kv_value of Some (MarksValue t) \<Rightarrow> Some t | _ \<Rightarrow> None) of
        (i, jobs) \<Rightarrow> if i = Some j then jobs else {})"

definition stored_kv :: "string \<Rightarrow> etcd_store \<Rightarrow> etcd_kv option" where
  "stored_kv name st = first_kv (range_of st (marks_key name))"

definition stored_marks :: "string \<Rightarrow> string \<Rightarrow> etcd_sys \<Rightarrow> string set" where
  "stored_marks j name s = kv_marks j (stored_kv name (e_store s))"

definition text_marks :: "string \<Rightarrow> stored_text \<Rightarrow> string set" where
  "text_marks j t = (case decode_reboot_ran (Some t) of (i, jobs) \<Rightarrow> if i = Some j then jobs else {})"

text \<open>A read or a write is sound against a store when, with the revision still current, it misses no mark.\<close>

definition kv_ok :: "string \<Rightarrow> string \<Rightarrow> etcd_store \<Rightarrow> etcd_kv option \<Rightarrow> bool" where
  "kv_ok j name st kv \<longleftrightarrow>
     read_revision kv \<le> st_rev st \<and>
     (read_revision kv = read_revision (stored_kv name st) \<longrightarrow> kv_marks j (stored_kv name st) \<subseteq> kv_marks j kv)"

definition cas_ok :: "string \<Rightarrow> string \<Rightarrow> etcd_store \<Rightarrow> etcd_txn \<Rightarrow> bool" where
  "cas_ok j name st t \<longleftrightarrow>
     (\<forall>v n. t = build_reboot_ran_cas_txn (marks_key name) v n \<longrightarrow>
        n \<le> st_rev st \<and> (n = read_revision (stored_kv name st) \<longrightarrow> kv_marks j (stored_kv name st) \<subseteq> text_marks j v))"

definition store_ok :: "string \<Rightarrow> etcd_store \<Rightarrow> bool" where
  "store_ok name st \<longleftrightarrow>
     (\<forall>en. st_kv st (marks_key name) = Some en \<longrightarrow> en_lease en = None \<and> 0 < en_mod en \<and> en_mod en \<le> st_rev st)"

lemma cas_txn_inject [simp]:
  "build_reboot_ran_cas_txn key v n = build_reboot_ran_cas_txn key v' n' \<longleftrightarrow> v = v' \<and> n = n'"
  by (auto simp: build_reboot_ran_cas_txn_def)

lemma campaign_not_cas [simp]:
  "build_campaign_txn key i l \<noteq> build_reboot_ran_cas_txn key' v n" "build_reboot_ran_cas_txn key' v n \<noteq> build_campaign_txn key i l"
  by (simp_all add: build_campaign_txn_def build_reboot_ran_cas_txn_def)

text \<open>The two ways in which a store may move.\<close>

definition store_move :: "string \<Rightarrow> etcd_txn set \<Rightarrow> etcd_store \<Rightarrow> etcd_store \<Rightarrow> bool" where
  "store_move name sent st st' \<longleftrightarrow>
     st_kv st' (marks_key name) = st_kv st (marks_key name) \<and> st_rev st \<le> st_rev st' \<or>
     (\<exists>v n. build_reboot_ran_cas_txn (marks_key name) v n \<in> sent \<and> n = read_revision (stored_kv name st) \<and>
        st' = put_kv (marks_key name) (MarksValue v) None st)"

lemma stored_kv_None [simp]: "st_kv st (marks_key name) = None \<Longrightarrow> stored_kv name st = None"
  by (simp add: stored_kv_def first_kv_def range_of_def)

lemma stored_kv_Some [simp]: "st_kv st (marks_key name) = Some en \<Longrightarrow> stored_kv name st = Some (kv_of en)"
  by (simp add: stored_kv_def first_kv_def range_of_def)

lemma stored_kv_cong: "st_kv st' (marks_key name) = st_kv st (marks_key name) \<Longrightarrow> stored_kv name st' = stored_kv name st"
  by (simp add: stored_kv_def range_of_def)

lemma stored_kv_put [simp]:
  "stored_kv name (put_kv (marks_key name) (MarksValue v) None st) =
     Some \<lparr>kv_value = Some (MarksValue v), kv_lease = None, kv_mod_revision = Suc (st_rev st)\<rparr>"
  by (simp add: stored_kv_def first_kv_def range_of_def put_kv_def kv_of_def)

lemma kv_marks_text [simp]: "kv_marks j (Some \<lparr>kv_value = Some (MarksValue v), kv_lease = l, kv_mod_revision = n\<rparr>) = text_marks j v"
  by (simp add: kv_marks_def text_marks_def)

lemma move_keeps:
  assumes move: "store_move name sent st st'" and ok: "store_ok name st" and sent: "\<And>t. t \<in> sent \<Longrightarrow> cas_ok j name st t"
  shows "store_ok name st'" "kv_ok j name st kv \<Longrightarrow> kv_ok j name st' kv" "cas_ok j name st t \<Longrightarrow> cas_ok j name st' t"
    "kv_marks j (stored_kv name st) \<subseteq> kv_marks j (stored_kv name st')"
proof -
  consider (same) "st_kv st' (marks_key name) = st_kv st (marks_key name)" "st_rev st \<le> st_rev st'"
    | (put) v n where "build_reboot_ran_cas_txn (marks_key name) v n \<in> sent" "n = read_revision (stored_kv name st)"
        "st' = put_kv (marks_key name) (MarksValue v) None st"
    using move by (auto simp: store_move_def)
  then have "store_ok name st' \<and> (kv_ok j name st kv \<longrightarrow> kv_ok j name st' kv) \<and> (cas_ok j name st t \<longrightarrow> cas_ok j name st' t) \<and>
    kv_marks j (stored_kv name st) \<subseteq> kv_marks j (stored_kv name st')"
  proof cases
    case same
    then show ?thesis using ok stored_kv_cong [OF same(1)] by (auto simp: store_ok_def kv_ok_def cas_ok_def)
  next
    case put
    have new: "read_revision (stored_kv name st') = Suc (st_rev st)" "st_rev st' = Suc (st_rev st)"
      unfolding put(3) by (simp add: read_revision_def, simp add: put_kv_def)
    have "store_ok name st'" unfolding put(3) by (simp add: store_ok_def put_kv_def)
    moreover have "kv_marks j (stored_kv name st) \<subseteq> kv_marks j (stored_kv name st')"
      using sent [OF put(1)] put(2) unfolding put(3) by (simp add: cas_ok_def)
    ultimately show ?thesis by (auto simp: kv_ok_def cas_ok_def new)
  qed
  then show "store_ok name st'" "kv_ok j name st kv \<Longrightarrow> kv_ok j name st' kv" "cas_ok j name st t \<Longrightarrow> cas_ok j name st' t"
    "kv_marks j (stored_kv name st) \<subseteq> kv_marks j (stored_kv name st')" by blast+
qed

subsection \<open>The invariant\<close>

definition marks_inv :: "string \<Rightarrow> string \<Rightarrow> etcd_sys \<Rightarrow> bool" where
  "marks_inv j name s \<longleftrightarrow>
     etcd_inv name s \<and> e_live s = (\<lambda>_. j) \<and> (\<forall>p. finite (lb_reboot_ran_local (e_node s p))) \<and>
     store_ok name (e_store s) \<and>
     (\<forall>p kv. e_answer s p = Some (RangeAnswer kv) \<longrightarrow> kv_ok j name (e_store s) kv) \<and>
     (\<forall>p i kv. snd (e_task s p i) = Some (RangeAnswer kv) \<longrightarrow> kv_ok j name (e_store s) kv) \<and>
     (\<forall>t \<in> e_sent s. cas_ok j name (e_store s) t) \<and>
     (\<forall>p gain n t. e_phase s p = Syncing gain (CasWrite n t) \<longrightarrow> t \<in> e_sent s) \<and>
     (\<forall>p i n t. fst (e_task s p i) = CasWrite n t \<longrightarrow> t \<in> e_sent s)"

lemma txn_move:
  assumes t: "sent_ok name t" "t \<in> sent" and run: "run_txn t st = Some (st', r)"
  shows "store_move name sent st st'"
  using t(1) unfolding sent_ok_def
proof (elim disjE exE)
  fix i l assume "t = build_campaign_txn name i l"
  with run have run': "run_txn (build_campaign_txn name i l) st = Some (st', r)" by simp
  have "st' = st \<or> (\<exists>v l. st' = put_kv name v l st)"
    using run' by (auto simp: run_txn_def build_campaign_txn_def Let_def split: if_splits)
  moreover have "marks_key name \<noteq> name" by (simp add: marks_key_def)
  ultimately show ?thesis by (auto simp: store_move_def put_kv_def)
next
  fix v n assume cas: "t = build_reboot_ran_cas_txn (name @ ''/reboot-ran'') v n"
  with run have run': "run_txn (build_reboot_ran_cas_txn (marks_key name) v n) st = Some (st', r)" by (simp add: marks_key_def)
  have "n = read_revision (stored_kv name st)" if "compare_holds st (ModRevision (marks_key name) n)"
    using that by (cases "st_kv st (marks_key name)") (simp_all add: compare_holds_def read_revision_def kv_of_def)
  then show ?thesis using run_txn_cas(1) [OF run'] t(2) cas
    by (auto simp: store_move_def marks_key_def)
qed

lemma drop_move: "store_ok name st \<Longrightarrow> store_move name sent st (drop_lease l st)"
  by (auto simp: store_move_def drop_lease_def store_ok_def split: option.split)

lemma lease_move: "store_move name sent st (extend_lease l till st)" "store_move name sent st (add_lease l till st)"
  by (simp_all add: store_move_def extend_lease_def add_lease_def)

lemma move_refl [simp]: "store_move name sent st st"
  by (simp add: store_move_def)

lemma finite_kv_marks: "finite (kv_marks j kv)"
proof -
  have "finite (snd (decode_reboot_ran raw))" for raw
    by (auto simp: decode_reboot_ran_def string_items_def split: option.split stored_text.split json.split)
  then show ?thesis by (auto simp: kv_marks_def split: prod.split) (metis snd_conv)
qed

text \<open>What a node writes after a sound read is sound.\<close>

lemma after_range_cas_ok:
  assumes "kv_ok j name st kv" and "eb_election_name b = name" and fin: "finite (lb_reboot_ran_local b)"
    and "snd (after_range j mt n kv b) = CasWrite m t"
  shows "cas_ok j name st t"
proof -
  let ?b = "fold_marks j mt kv b"
  have ran: "lb_reboot_ran ?b = kv_marks j kv" "lb_reboot_ran_local ?b = lb_reboot_ran_local b"
    "eb_reboot_ran_key ?b = marks_key name"
    using assms(2) by (auto simp: fold_marks_def kv_marks_def observe_reboot_ran_def eb_reboot_ran_key_def marks_key_def split: prod.split)
  have "text_marks j (encode_reboot_ran j (kv_marks j kv \<union> lb_reboot_ran_local b)) = kv_marks j kv \<union> lb_reboot_ran_local b"
    using fin finite_kv_marks by (simp add: text_marks_def decode_encode_reboot_ran)
  moreover have "t = build_reboot_ran_cas_txn (marks_key name) (encode_reboot_ran j (kv_marks j kv \<union> lb_reboot_ran_local b)) (read_revision kv)"
    using assms(4) ran by (auto simp: after_range_def marks_write_def Let_def split: option.splits if_splits)
  ultimately show ?thesis using assms(1) by (auto simp: cas_ok_def kv_ok_def build_reboot_ran_cas_txn_def)
qed


lemma stored_kv_ok: "store_ok name st \<Longrightarrow> kv_ok j name st (stored_kv name st)"
  by (cases "st_kv st (marks_key name)") (auto simp: kv_ok_def store_ok_def read_revision_def kv_of_def)

lemma marks_inv_by:
  assumes inv: "marks_inv j name s" and einv: "etcd_inv name s'" and live: "e_live s' = e_live s"
    and move: "store_move name (e_sent s) (e_store s) (e_store s')"
    and local: "\<And>p. finite (lb_reboot_ran_local (e_node s' p))"
    and answer: "\<And>p kv. e_answer s' p = Some (RangeAnswer kv) \<Longrightarrow> e_answer s p = Some (RangeAnswer kv) \<or> kv = stored_kv name (e_store s)"
    and task: "\<And>p i kv. snd (e_task s' p i) = Some (RangeAnswer kv) \<Longrightarrow>
      snd (e_task s p i) = Some (RangeAnswer kv) \<or> kv = stored_kv name (e_store s)"
    and sent: "\<And>t. t \<in> e_sent s' \<Longrightarrow> t \<in> e_sent s \<or> cas_ok j name (e_store s) t" "e_sent s \<subseteq> e_sent s'"
    and phase: "\<And>p gain n t. e_phase s' p = Syncing gain (CasWrite n t) \<Longrightarrow> e_phase s p = Syncing gain (CasWrite n t) \<or> t \<in> e_sent s'"
    and tphase: "\<And>p i n t. fst (e_task s' p i) = CasWrite n t \<Longrightarrow> fst (e_task s p i) = CasWrite n t \<or> t \<in> e_sent s'"
  shows "marks_inv j name s' \<and> stored_marks j name s \<subseteq> stored_marks j name s'"
proof -
  have ok: "store_ok name (e_store s)" and cas: "\<And>t. t \<in> e_sent s \<Longrightarrow> cas_ok j name (e_store s) t"
    using inv by (auto simp: marks_inv_def)
  note keep = move_keeps [OF move ok cas]
  have "kv_ok j name (e_store s') kv" if "e_answer s' p = Some (RangeAnswer kv)" for p kv
    using answer [OF that] keep(2) stored_kv_ok [OF ok] inv by (auto simp: marks_inv_def)
  moreover have "kv_ok j name (e_store s') kv" if "snd (e_task s' p i) = Some (RangeAnswer kv)" for p i kv
    using task [OF that] keep(2) stored_kv_ok [OF ok] inv by (auto simp: marks_inv_def)
  moreover have "cas_ok j name (e_store s') t" if "t \<in> e_sent s'" for t using sent(1) [OF that] keep(3) cas by blast
  moreover have "t \<in> e_sent s'" if "e_phase s' p = Syncing gain (CasWrite n t)" for p gain n t
    using phase [OF that] sent(2) inv unfolding marks_inv_def by blast
  moreover have "t \<in> e_sent s'" if "fst (e_task s' p i) = CasWrite n t" for p i n t
    using tphase [OF that] sent(2) inv unfolding marks_inv_def by blast
  ultimately show ?thesis using inv einv live local keep(1,4) by (simp add: marks_inv_def stored_marks_def)
qed


text \<open>Local marks stay finite, and only a sync or a task writes marks.\<close>

lemma local_same [simp]:
  "lb_reboot_ran_local (fold_marks live mt kv b) = lb_reboot_ran_local b"
  "lb_reboot_ran_local (fst (after_range live mt n kv b)) = lb_reboot_ran_local b"
  "lb_reboot_ran_local (sync_failed mt b) = lb_reboot_ran_local b"
  "lb_reboot_ran_local (finish_sync gain b) = lb_reboot_ran_local b"
  "lb_reboot_ran_local (etcd_apply_round h w mt a b) = lb_reboot_ran_local b"
  "lb_reboot_ran_local (narrow_effective_ttl t b) = lb_reboot_ran_local b"
  "lb_reboot_ran_local (fst (etcd_start_round mt b)) = lb_reboot_ran_local b"
  "lb_reboot_ran_local (fst (after_keepalive mt a ttl b)) = lb_reboot_ran_local b"
  "lb_reboot_ran_local (fst (after_grant a l to b)) = lb_reboot_ran_local b"
  "lb_reboot_ran_local (etcd_stop b) = lb_reboot_ran_local b"
proof -
  show fold: "lb_reboot_ran_local (fold_marks live mt kv b) = lb_reboot_ran_local b"
    by (simp add: fold_marks_def observe_reboot_ran_def split: prod.split)
  show narrow: "lb_reboot_ran_local (narrow_effective_ttl t b) = lb_reboot_ran_local b" for t b
    by (simp add: narrow_effective_ttl_def Let_def)
  show apply_round: "lb_reboot_ran_local (etcd_apply_round h w mt a b) = lb_reboot_ran_local b" for h w mt a
    by (simp add: etcd_apply_round_def Let_def)
  show "lb_reboot_ran_local (finish_sync gain b) = lb_reboot_ran_local b"
    by (simp add: finish_sync_def apply_round split: option.split)
qed (simp_all add: after_range_def sync_failed_def etcd_start_round_def after_keepalive_def after_grant_def etcd_stop_def
    fold_marks_def observe_reboot_ran_def narrow_effective_ttl_def Let_def split: option.split prod.split)

lemma finite_local:
  assumes "finite (lb_reboot_ran_local b)"
  shows "finite (lb_reboot_ran_local (fst (etcd_mark live job b)))"
    "finite (lb_reboot_ran_local (fst (start_sync live leaderish gain mt b)))"
    "finite (lb_reboot_ran_local (fst (after_campaign live mt a l r b)))"
proof -
  have sync: "finite (lb_reboot_ran_local (fst (start_sync live leaderish gain mt b)))"
    if "finite (lb_reboot_ran_local b)" for live leaderish gain mt b
    using that by (auto simp: start_sync_def sync_due_def reconcile_local_reboot_ran_def reconcile_observed_reboot_ran_def Let_def
        split: prod.split bool.split)
  show "finite (lb_reboot_ran_local (fst (etcd_mark live job b)))"
    using assms by (simp add: etcd_mark_def reconcile_local_reboot_ran_def Let_def)
  show "finite (lb_reboot_ran_local (fst (start_sync live leaderish gain mt b)))" by (rule sync [OF assms])
  show "finite (lb_reboot_ran_local (fst (after_campaign live mt a l r b)))"
    using assms by (auto simp: after_campaign_def Let_def intro!: sync)
qed

lemma no_write [simp]:
  "snd (etcd_start_round mt b) \<noteq> Syncing gain (CasWrite n t)" "snd (after_keepalive mt a ttl b) \<noteq> Syncing gain (CasWrite n t)"
  "snd (after_grant a l to b) \<noteq> Syncing gain (CasWrite n t)" "snd (after_campaign live mt a l' r b) \<noteq> Syncing gain (CasWrite n t)"
  by (auto simp: etcd_start_round_def after_keepalive_def after_grant_def after_campaign_def start_sync_def Let_def
      split: option.split prod.split bool.split)

lemma marks_put:
  assumes inv: "marks_inv j name s" and einv: "etcd_inv name (put_etcd p x s)" and fin: "finite (lb_reboot_ran_local (fst x))"
    and cas: "\<And>gain n t. snd x = Syncing gain (CasWrite n t) \<Longrightarrow> cas_ok j name (e_store s) t"
  shows "marks_inv j name (put_etcd p x s) \<and> stored_marks j name s \<subseteq> stored_marks j name (put_etcd p x s)"
proof (rule marks_inv_by [OF inv einv])
  show "t \<in> e_sent s \<or> cas_ok j name (e_store s) t" if "t \<in> e_sent (put_etcd p x s)" for t
    using that cas by (auto simp: put_etcd_def sends_def cas_ok_def split: etcd_phase.splits cas_phase.splits option.splits)
qed (use inv fin in \<open>auto simp: put_etcd_def marks_inv_def sends_def split: if_splits\<close>)

lemma marks_put_task:
  assumes inv: "marks_inv j name s" and einv: "etcd_inv name (put_task p i x s)" and fin: "finite (lb_reboot_ran_local (fst x))"
    and cas: "\<And>n t. snd x = CasWrite n t \<Longrightarrow> cas_ok j name (e_store s) t"
  shows "marks_inv j name (put_task p i x s) \<and> stored_marks j name s \<subseteq> stored_marks j name (put_task p i x s)"
  by (rule marks_inv_by [OF inv einv])
    (use inv fin cas in \<open>auto simp: put_task_def marks_inv_def split: if_splits cas_phase.splits\<close>)

lemma marks_store:
  assumes inv: "marks_inv j name s" and einv: "etcd_inv name s'" and same: "e_live s' = e_live s" "e_node s' = e_node s"
      "e_phase s' = e_phase s" "e_sent s' = e_sent s" "\<And>p i. fst (e_task s' p i) = fst (e_task s p i)"
    and move: "store_move name (e_sent s) (e_store s) (e_store s')"
    and answer: "\<And>p kv. e_answer s' p = Some (RangeAnswer kv) \<Longrightarrow> e_answer s p = Some (RangeAnswer kv) \<or> kv = stored_kv name (e_store s)"
    and task: "\<And>p i kv. snd (e_task s' p i) = Some (RangeAnswer kv) \<Longrightarrow>
      snd (e_task s p i) = Some (RangeAnswer kv) \<or> kv = stored_kv name (e_store s)"
  shows "marks_inv j name s' \<and> stored_marks j name s \<subseteq> stored_marks j name s'"
  by (rule marks_inv_by [OF inv einv same(1) move]) (use inv same answer task in \<open>auto simp: marks_inv_def\<close>)

lemma marks_step:
  assumes inv: "marks_inv j name s" and step: "etcd_step s s'" and live: "e_live s' = e_live s"
  shows "marks_inv j name s' \<and> stored_marks j name s \<subseteq> stored_marks j name s'"
proof -
  have einv: "etcd_inv name s" using inv by (simp add: marks_inv_def)
  have einv': "etcd_inv name s'" by (rule etcd_inv_step [OF einv step])
  have j: "e_live s p = j" and fin: "finite (lb_reboot_ran_local (e_node s p))"
    and key: "eb_reboot_ran_key (e_node s p) = marks_key name" "eb_election_name (e_node s p) = name" for p
    using inv etcd_invD(3) [OF einv] by (auto simp: marks_inv_def eb_reboot_ran_key_def marks_key_def)
  have sent: "sent_ok name t" if "t \<in> e_sent s" for t using einv that by (simp add: etcd_inv_def)
  have ok: "store_ok name (e_store s)" using inv by (simp add: marks_inv_def)
  have phase: "\<And>p gain n t. e_phase s p = Syncing gain (CasWrite n t) \<Longrightarrow> t \<in> e_sent s"
    and task: "\<And>p i n t. fst (e_task s p i) = CasWrite n t \<Longrightarrow> t \<in> e_sent s"
    and kv: "\<And>p kv. e_answer s p = Some (RangeAnswer kv) \<Longrightarrow> kv_ok j name (e_store s) kv"
    and tkv: "\<And>p i kv. snd (e_task s p i) = Some (RangeAnswer kv) \<Longrightarrow> kv_ok j name (e_store s) kv"
    using inv unfolding marks_inv_def by blast+
  note put = marks_put [OF inv] and put_task = marks_put_task [OF inv] and store = marks_store [OF inv einv']
  from step show ?thesis
  proof cases
    case (campaign_lands p a l st r)
    have "sent_ok name (build_campaign_txn name (eb_identity (e_node s p)) l)" by (auto simp: sent_ok_def)
    then have "store_move name (insert (build_campaign_txn name (eb_identity (e_node s p)) l) (e_sent s)) (e_store s) st"
      by (rule txn_move [OF _ _ campaign_lands(5) [unfolded key]]) simp
    then have "store_move name (e_sent s) (e_store s) st" by (auto simp: store_move_def)
    then show ?thesis by (intro store) (auto simp: campaign_lands(1) reply_def split: if_splits)
  next
    case (range_answered p gain n kv)
    have "cas_ok j name (e_store s) t" if "snd (go_on gain (after_range (e_live s p) (e_now s) n kv (e_node s p))) = Syncing gain' (CasWrite m t)"
      for gain' m t
      using that after_range_cas_ok [OF kv [OF range_answered(3)] key(2) fin] j by (auto simp: go_on_def split: if_splits)
    then show ?thesis using einv' unfolding range_answered(1) by (intro put) (simp_all add: go_on_def fin)
  next
    case (task_range_answered p i n kv)
    have "cas_ok j name (e_store s) t" if "snd (after_range (e_live s p) (e_now s) n kv (e_node s p)) = CasWrite m t" for m t
      using that after_range_cas_ok [OF tkv [of p i kv] key(2) fin] j task_range_answered(2) by simp
    then show ?thesis using einv' unfolding task_range_answered(1) by (intro put_task) (simp_all add: fin)
  next
    case (cas_lands p gain n t st r)
    have t: "t \<in> e_sent s" by (rule phase [OF cas_lands(2)])
    show ?thesis using txn_move [OF sent [OF t] t cas_lands(4)]
      by (intro store) (auto simp: cas_lands(1) reply_def split: if_splits)
  next
    case (task_cas_lands p i n t st r)
    have t: "t \<in> e_sent s" using task [of p i n t] task_cas_lands(2) by simp
    show ?thesis using txn_move [OF sent [OF t] t task_cas_lands(3)]
      by (intro store) (auto simp: task_cas_lands(1) reply_task_def split: if_splits)
  next
    case (stray_txn t st r)
    then show ?thesis using txn_move [OF sent _ stray_txn(3)] by (intro store) auto
  next
    case (campaign_answered p a r l)
    show ?thesis using einv' unfolding campaign_answered(1) by (intro put) (simp_all add: finite_local fin)
  next
    case (mark p i job)
    have "snd (etcd_mark live job b) \<noteq> CasWrite n t" for live b n t by (simp add: etcd_mark_def Let_def)
    then show ?thesis using einv' unfolding mark(1) by (intro put_task) (simp_all add: finite_local fin)
  next
    case (range_lands p gain n)
    then show ?thesis by (intro store) (auto simp: reply_def key stored_kv_def split: if_splits)
  next
    case (task_range_lands p i n)
    then show ?thesis by (intro store) (auto simp: reply_task_def key stored_kv_def split: if_splits)
  next
    case (stop p)
    then show ?thesis by (intro marks_inv_by [OF inv einv' live]) (auto simp: put_etcd_def sends_def fin split: if_splits)
  next
    case (start p)
    show ?thesis using einv' unfolding start(1) by (intro put) (simp_all add: fin)
  next
    case (keepalive_answered p a ttl)
    show ?thesis using einv' unfolding keepalive_answered(1) by (intro put) (simp_all add: fin)
  next
    case (grant_answered p a l t)
    show ?thesis using einv' unfolding grant_answered(1) by (intro put) (simp_all add: fin)
  next
    case (cas_answered p gain n t r)
    show ?thesis using einv' unfolding cas_answered(1) by (intro put) (auto simp: go_on_def fin split: if_splits)
  next
    case (sync_fails p gain c)
    show ?thesis using einv' unfolding sync_fails(1) by (intro put) (simp_all add: fin)
  next
    case (abandon p)
    show ?thesis using einv' unfolding abandon(1) by (intro put) (simp_all add: fin)
  next
    case (close p)
    show ?thesis using einv' unfolding close(1) by (intro put) (simp_all add: fin)
  next
    case (task_cas_answered p i n t r)
    show ?thesis using einv' unfolding task_cas_answered(1) by (intro put_task) (simp_all add: fin)
  next
    case (task_fails p i)
    show ?thesis using einv' unfolding task_fails(1) by (intro put_task) (simp_all add: fin)
  qed (use live drop_move [OF ok] lease_move in \<open>(intro store; force simp: reply_def split: if_splits)+\<close>)
qed

subsection \<open>Executions under one job set\<close>

definition steady :: "etcd_sys \<Rightarrow> etcd_sys \<Rightarrow> bool" where
  "steady s s' \<longleftrightarrow> etcd_step s s' \<and> e_live s' = e_live s"

lemma marks_inv_init: "etcd_init name s \<Longrightarrow> e_live s = (\<lambda>_. j) \<Longrightarrow> marks_inv j name s"
  using etcd_inv_init [of name s]
  by (auto simp: marks_inv_def etcd_init_def store_ok_def new_etcd_backend_def) (metis LeaseBackend.select_convs(4) finite.emptyI)

lemma marks_grow:
  assumes "steady\<^sup>*\<^sup>* s s'" "marks_inv j name s"
  shows "marks_inv j name s' \<and> stored_marks j name s \<subseteq> stored_marks j name s'"
  using assms
proof (induction rule: rtranclp_induct)
  case (step s1 s2)
  then show ?case using marks_step [of j name s1 s2] by (auto simp: steady_def)
qed simp

end
