(* ===== verification/EtcdProps.thy ===== *)
theory EtcdProps
  imports EtcdMarks
begin

text \<open>
  Properties of the election over etcd: one leader among the nodes that are not stopping, marks of one-shots
  that no concurrent writer loses, a cadence that fits into the lease, and three windows the code leaves open.
\<close>

subsection \<open>A run of the system\<close>

definition etcd_cluster :: etcd_sys where
  "etcd_cluster =
     \<lparr>e_now = 0, e_store = \<lparr>st_kv = Map.empty, st_rev = 1, st_leases = Map.empty, st_ids = {}\<rparr>, e_owner = Map.empty,
      e_sent = {}, e_revokes = {}, e_node = (\<lambda>p. new_etcd_backend ''n'' [''https://h:2379''] False ''e'' 15 10),
      e_phase = (\<lambda>_. EtcdIdle), e_answer = (\<lambda>_. None), e_task = (\<lambda>_ _. (CasDone, None)), e_live = (\<lambda>_. ''j'')\<rparr>"

lemma etcd_cluster_init: "etcd_init ''e'' etcd_cluster"
  by (auto simp: etcd_init_def etcd_cluster_def) blast

lemma run_free_campaign:
  assumes "st_kv st name = None" "st_leases st l \<noteq> None"
  shows "run_txn (build_campaign_txn name i l) st =
    Some (put_kv name (NameValue i) (Some l) st, \<lparr>tr_succeeded = True, tr_responses = [None]\<rparr>)"
  using assms by (simp add: run_txn_def build_campaign_txn_def compare_holds_def)

text \<open>A round that wins a free key.\<close>

lemma etcd_wins:
  assumes idle: "e_phase s p = EtcdIdle" and b: "eb_lease_id (e_node s p) = None" "\<not> eb_leader_flag (e_node s p)"
      "3 \<le> eb_ttl (e_node s p)" "eb_election_name (e_node s p) = name"
    and free: "st_kv (e_store s) name = None" "l \<notin> st_ids (e_store s)"
  obtains s' where "etcd_step\<^sup>*\<^sup>* s s'" "e_now s' = e_now s" "etcd_is_leader (e_now s) (e_node s' p)"
    "eb_lease_id (e_node s' p) = Some l" "e_phase s' = (e_phase s)(p := EtcdIdle)" "\<And>q. q \<noteq> p \<Longrightarrow> e_node s' q = e_node s q"
    "st_ids (e_store s') = insert l (st_ids (e_store s))" "e_revokes s' = e_revokes s" "eb_election_name (e_node s' p) = name"
    "\<And>en. st_kv (e_store s') name = Some en \<Longrightarrow> en_lease en = Some l"
proof -
  let ?t = "eb_ttl (e_node s p)" and ?r = "\<lparr>tr_succeeded = True, tr_responses = [None]\<rparr>"
  let ?b1 = "fst (etcd_start_round (e_now s) (e_node s p))"
  let ?s1 = "put_etcd p (etcd_start_round (e_now s) (e_node s p)) s"
  let ?s2 = "(reply p (add_lease l (e_now s + real_of_int ?t) (e_store s)) (GrantAnswer (Some l) (Some ?t)) ?s1)
      \<lparr>e_owner := (e_owner ?s1)(l \<mapsto> p)\<rparr>"
  let ?x3 = "after_grant (e_now s) (Some l) (Some ?t) ?b1"
  let ?s3 = "put_etcd p ?x3 ?s2"
  let ?st = "put_kv name (NameValue (eb_identity (fst ?x3))) (Some l) (e_store ?s2)"
  let ?s4 = "reply p ?st (TxnAnswer ?r) ?s3"
  let ?x5 = "after_campaign (e_live s p) (e_now s) (e_now s) l ?r (fst ?x3)"
  let ?s5 = "put_etcd p ?x5 ?s4"
  let ?g = "Some (Some (eb_identity (fst ?x3)), e_now s, e_now s)"
  let ?b6 = "finish_sync ?g (sync_failed (e_now s) (fst ?x5))"
  let ?s6 = "put_etcd p (?b6, EtcdIdle) ?s5"
  have ph1: "snd (etcd_start_round (e_now s) (e_node s p)) = Granting (e_now s)" using b(1) by (simp add: etcd_start_round_def Let_def)
  have b1: "eb_leader_flag ?b1 = False" "eb_ttl ?b1 = ?t" "eb_election_name ?b1 = name"
    using b by (simp_all add: etcd_start_round_def Let_def)
  have x3: "snd ?x3 = Campaign (e_now s)" "eb_lease_id (fst ?x3) = Some l" "eb_leader_flag (fst ?x3) = False"
    "eb_election_name (fst ?x3) = name" "eb_effective_ttl (fst ?x3) = ?t"
    using b(3) b1 by (simp_all add: after_grant_def narrowed_def Let_def)
  obtain b5 where b5: "?x5 = (b5, Syncing ?g (CasRead REBOOT_RAN_CAS_ATTEMPTS))"
      "etcd_core b5 = etcd_core (fst ?x3)"
  proof -
    let ?b = "(fst ?x3)\<lparr>eb_reboot_ran_synced := False\<rparr>"
    have "snd (sync_due (e_live s p) True (e_now s) ?b)"
      by (simp add: sync_due_def reconcile_local_reboot_ran_def reconcile_observed_reboot_ran_def Let_def)
    then obtain b' where due: "sync_due (e_live s p) True (e_now s) ?b = (b', True)" by (metis prod.collapse)
    then have "etcd_core b' = etcd_core ?b" using marks_core(4) [of "e_live s p" True "e_now s" ?b] by simp
    then show ?thesis using that [of b'] due x3(3)
      by (simp add: after_campaign_def campaign_won_def holder_from_txn_response_def start_sync_def etcd_core_def)
  qed
  have b6: "etcd_is_leader (e_now s) ?b6" "eb_lease_id ?b6 = Some l" "eb_election_name ?b6 = name"
  proof -
    have "etcd_core (sync_failed (e_now s) (fst ?x5)) = etcd_core (fst ?x3)" using b5 by simp
    then show "etcd_is_leader (e_now s) ?b6" "eb_lease_id ?b6 = Some l" "eb_election_name ?b6 = name"
      using x3 b(3) by (simp_all add: finish_sync_def etcd_apply_round_def etcd_is_leader_def etcd_core_def ETCD_SKEW_SECONDS_def Let_def)
  qed
  have 1: "etcd_step s ?s1" by (rule etcd_step.start [OF idle])
  have 2: "etcd_step ?s1 ?s2"
    using etcd_step.grant_lands [of ?s1 p "e_now s" l ?t] ph1 free(2) by (simp add: put_etcd_def)
  have 3: "etcd_step ?s2 ?s3"
    using etcd_step.grant_answered [of ?s2 p "e_now s" "Some l" "Some ?t"] ph1 by (simp add: put_etcd_def reply_def)
  have "run_txn (build_campaign_txn name (eb_identity (fst ?x3)) l) (e_store ?s3) = Some (?st, ?r)"
    using run_free_campaign [of "e_store ?s2" name l] free(1) by (simp add: put_etcd_def reply_def add_lease_def)
  then have 4: "etcd_step ?s3 ?s4"
    using etcd_step.campaign_lands [of ?s3 p "e_now s" l ?st ?r] x3 by (simp add: put_etcd_def)
  have 5: "etcd_step ?s4 ?s5"
    using etcd_step.campaign_answered [of ?s4 p "e_now s" ?r l] x3 by (simp add: put_etcd_def reply_def)
  have 6: "etcd_step ?s5 ?s6"
    using etcd_step.sync_fails [of ?s5 p ?g "CasRead REBOOT_RAN_CAS_ATTEMPTS"] b5(1) by (simp add: put_etcd_def reply_def)
  show thesis
  proof (rule that [of ?s6])
    show "etcd_step\<^sup>*\<^sup>* s ?s6" using 1 2 3 4 5 6 by (meson rtranclp.rtrancl_into_rtrancl rtranclp.rtrancl_refl)
    show "en_lease en = Some l" if "st_kv (e_store ?s6) name = Some en" for en
      using that by (auto simp: put_etcd_def reply_def put_kv_def)
  qed (use b6 in \<open>simp_all add: put_etcd_def reply_def add_lease_def\<close>)
qed


lemma first_etcd_leader:
  obtains s where "etcd_reachable ''e'' s" "e_now s = 0" "etcd_is_leader 0 (e_node s ''a'')" "eb_lease_id (e_node s ''a'') = Some ''1''"
    "e_phase s = (\<lambda>_. EtcdIdle)" "e_node s ''b'' = e_node etcd_cluster ''b''" "st_ids (e_store s) = {''1''}"
    "\<And>en. st_kv (e_store s) ''e'' = Some en \<Longrightarrow> en_lease en = Some ''1''"
proof (rule etcd_wins [of etcd_cluster "''a''" "''e''" "''1''"])
  fix s assume s: "etcd_step\<^sup>*\<^sup>* etcd_cluster s" "e_now s = e_now etcd_cluster" "etcd_is_leader (e_now etcd_cluster) (e_node s ''a'')"
    "eb_lease_id (e_node s ''a'') = Some ''1''" "e_phase s = (e_phase etcd_cluster)(''a'' := EtcdIdle)"
    "\<And>q. q \<noteq> ''a'' \<Longrightarrow> e_node s q = e_node etcd_cluster q"
    "st_ids (e_store s) = insert ''1'' (st_ids (e_store etcd_cluster))"
    "\<And>en. st_kv (e_store s) ''e'' = Some en \<Longrightarrow> en_lease en = Some ''1''"
  have "etcd_reachable ''e'' s" using s(1) etcd_cluster_init by (auto simp: etcd_reachable_def)
  moreover have "e_phase s = (\<lambda>_. EtcdIdle)" using s(5) by (auto simp: etcd_cluster_def)
  moreover have "st_ids (e_store s) = {''1''}" "e_now s = 0" using s(7,2) by (simp_all add: etcd_cluster_def)
  ultimately show thesis using that s(3,4,6,8) s(2) by simp
qed (simp_all add: etcd_cluster_def new_etcd_backend_def)

subsection \<open>One leader\<close>

text \<open>
  C10. Over etcd two nodes that have not been told to stop never pass the gate of a \<open>Leader\<close> job at the same
  time, however their requests interleave, land late or twice, or are given up, and even when they were
  given the same node name: the fence is the lease that holds the election key.
\<close>

theorem election_key_has_one_leader:
  assumes "etcd_reachable name s" and "p \<noteq> q" and "electing (e_phase s p)" and "electing (e_phase s q)"
  shows "\<not> (lease_allows True (Some (etcd_reads (e_now s) (e_node s p))) Leader \<and>
             lease_allows True (Some (etcd_reads (e_now s) (e_node s q))) Leader)"
  using election_key.one_leader [OF etcd_reachable_inv [OF assms(1)], of p q] assms(2-4)
  by (auto simp: lease_allows_def lb_has_conflict_def etcd_reads_def)

theorem election_key_has_one_leader_witness:
  "\<exists>s. etcd_reachable ''e'' s \<and> lease_allows True (Some (etcd_reads (e_now s) (e_node s ''a''))) Leader \<and>
       \<not> lease_allows True (Some (etcd_reads (e_now s) (e_node s ''b''))) Leader"
proof -
  obtain s where s: "etcd_reachable ''e'' s" "e_now s = 0" "etcd_is_leader 0 (e_node s ''a'')" "e_phase s = (\<lambda>_. EtcdIdle)"
    using first_etcd_leader by metis
  then have "lease_allows True (Some (etcd_reads (e_now s) (e_node s ''a''))) Leader"
    by (simp add: lease_allows_def lb_has_conflict_def etcd_reads_def)
  with election_key_has_one_leader [OF s(1), of "''a''" "''b''"] s(1,4) show ?thesis by (auto simp: electing_def)
qed

text \<open>
  \<open>stop\<close> clears the leader flag only after the revocation of the lease was answered, and etcd frees the key
  as soon as it processes it: until then two nodes pass the gate.
\<close>

lemma revoke_before_demotion:
  "\<exists>s. etcd_reachable ''e'' s \<and> lease_allows True (Some (etcd_reads (e_now s) (e_node s ''a''))) Leader \<and>
       lease_allows True (Some (etcd_reads (e_now s) (e_node s ''b''))) Leader"
proof -
  obtain s where s: "etcd_reachable ''e'' s" "e_now s = 0" "etcd_is_leader 0 (e_node s ''a'')" "eb_lease_id (e_node s ''a'') = Some ''1''"
    "e_phase s = (\<lambda>_. EtcdIdle)" "e_node s ''b'' = e_node etcd_cluster ''b''" "st_ids (e_store s) = {''1''}"
    "\<And>en. st_kv (e_store s) ''e'' = Some en \<Longrightarrow> en_lease en = Some ''1''"
    by (rule first_etcd_leader) blast
  let ?s1 = "(put_etcd ''a'' (e_node s ''a'', Revoking) s)\<lparr>e_revokes := {''1''} \<union> e_revokes s\<rparr>"
  let ?s2 = "?s1\<lparr>e_store := drop_lease ''1'' (e_store ?s1)\<rparr>"
  have 1: "etcd_step s ?s1" using etcd_step.stop [of s "''a''"] s(4,5) by simp
  have 2: "etcd_step ?s1 ?s2" by (rule etcd_step.revoke_lands) simp
  have free: "st_kv (e_store ?s2) ''e'' = None" using s(8) by (auto simp: drop_lease_def put_etcd_def split: option.split)
  obtain s3 where s3: "etcd_step\<^sup>*\<^sup>* ?s2 s3" "e_now s3 = 0" "etcd_is_leader 0 (e_node s3 ''b'')" "e_node s3 ''a'' = e_node s ''a''"
    by (rule etcd_wins [of ?s2 "''b''" "''e''" "''2''"])
      (use free s(2,5,6,7) in \<open>auto simp: put_etcd_def drop_lease_def etcd_cluster_def new_etcd_backend_def\<close>)
  have "etcd_reachable ''e'' s3"
    using s(1) 1 2 s3(1) unfolding etcd_reachable_def by (meson rtranclp.rtrancl_into_rtrancl rtranclp_trans)
  then show ?thesis using s(3) s3 by (auto simp: lease_allows_def lb_has_conflict_def etcd_reads_def intro!: exI [of _ s3])
qed


subsection \<open>Marks of one-shots\<close>

text \<open>
  C37. No writer loses a mark.  While the job set stays the same, a compare-and-swap write of the marks that
  etcd accepted stays stored, together with everything stored before it, whatever other nodes read, write,
  retry, repeat or give up in the meantime.
\<close>

theorem etcd_marks_survive:
  assumes "etcd_init name s0" and "e_live s0 = (\<lambda>_. j)" and "steady\<^sup>*\<^sup>* s0 s"
    and "e_task s p i = (CasWrite n (build_reboot_ran_cas_txn (marks_key name) v m), None)"
    and "run_txn (build_reboot_ran_cas_txn (marks_key name) v m) (e_store s) = Some (st, r)" and "tr_succeeded r"
    and "steady\<^sup>*\<^sup>* (reply_task p i st (TxnAnswer r) s) s'"
  shows "stored_marks j name s \<union> text_marks j v \<subseteq> stored_marks j name s'"
proof -
  let ?s = "reply_task p i st (TxnAnswer r) s"
  have inv: "marks_inv j name s" using marks_grow [OF assms(3)] marks_inv_init [OF assms(1,2)] by blast
  have "etcd_step s ?s" by (rule etcd_step.task_cas_lands [OF assms(4,5)])
  then have landed: "marks_inv j name ?s \<and> stored_marks j name s \<subseteq> stored_marks j name ?s"
    by (rule marks_step [OF inv]) (simp add: reply_task_def)
  have "st = put_kv (marks_key name) (MarksValue v) None (e_store s)"
    using run_txn_cas [OF assms(5)] assms(6) by simp
  then have "stored_marks j name ?s = text_marks j v" by (simp add: stored_marks_def reply_task_def)
  with landed marks_grow [OF assms(7)] show ?thesis by blast
qed

definition mark_txn :: etcd_txn where
  "mark_txn = build_reboot_ran_cas_txn (marks_key ''e'') (encode_reboot_ran ''j'' {''k''}) 0"

text \<open>Node \<open>a\<close> marks the job \<open>k\<close>, finds nothing stored, and sends its write.\<close>

lemma mark_sent:
  obtains s where "steady\<^sup>*\<^sup>* etcd_cluster s" "e_task s ''a'' 0 = (CasWrite 3 mark_txn, None)" "e_store s = e_store etcd_cluster"
proof -
  let ?b = "e_node etcd_cluster ''a''"
  let ?s1 = "put_task ''a'' 0 (etcd_mark ''j'' ''k'' ?b) etcd_cluster"
  let ?s2 = "reply_task ''a'' 0 (e_store ?s1) (RangeAnswer None) ?s1"
  let ?s3 = "put_task ''a'' 0 (after_range ''j'' 0 3 None (e_node ?s2 ''a'')) ?s2"
  have 1: "steady etcd_cluster ?s1"
    using etcd_step.mark [of etcd_cluster "''a''" 0 "''k''"] by (simp add: steady_def put_task_def etcd_cluster_def)
  have t1: "e_task ?s1 ''a'' 0 = (CasRead 3, None)" by (simp add: put_task_def etcd_mark_def REBOOT_RAN_CAS_ATTEMPTS_def Let_def)
  have "first_kv (range_of (e_store ?s1) key) = None" for key
    by (simp add: put_task_def etcd_cluster_def range_of_def first_kv_def)
  then have 2: "steady ?s1 ?s2" using etcd_step.task_range_lands [OF t1] by (simp add: steady_def reply_task_def)
  have t2: "e_task ?s2 ''a'' 0 = (CasRead 3, Some (RangeAnswer None))" using t1 by (simp add: reply_task_def)
  have now: "e_live ?s2 ''a'' = ''j''" "e_now ?s2 = 0" by (simp_all add: reply_task_def put_task_def etcd_cluster_def)
  have 3: "steady ?s2 ?s3"
    using etcd_step.task_range_answered [OF t2] now by (simp add: steady_def put_task_def)
  have "snd (after_range ''j'' 0 3 None (e_node ?s2 ''a'')) = CasWrite 3 mark_txn"
    by (simp add: after_range_def fold_marks_def decode_reboot_ran_def observe_reboot_ran_def marks_write_def mark_txn_def
        reply_task_def put_task_def etcd_mark_def etcd_cluster_def new_etcd_backend_def reconcile_local_reboot_ran_def
        eb_reboot_ran_key_def marks_key_def read_revision_def Let_def)
  then have "e_task ?s3 ''a'' 0 = (CasWrite 3 mark_txn, None)" by (simp add: put_task_def)
  moreover have "e_store ?s3 = e_store etcd_cluster" by (simp add: put_task_def reply_task_def)
  ultimately show thesis using that [of ?s3] 1 2 3 by (meson rtranclp.rtrancl_into_rtrancl rtranclp.rtrancl_refl)
qed

theorem etcd_marks_survive_witness: "\<exists>s. steady\<^sup>*\<^sup>* etcd_cluster s \<and> ''k'' \<in> stored_marks ''j'' ''e'' s"
proof -
  let ?v = "encode_reboot_ran ''j'' {''k''}" and ?r = "\<lparr>tr_succeeded = True, tr_responses = [None]\<rparr>"
  obtain s where s: "steady\<^sup>*\<^sup>* etcd_cluster s" "e_task s ''a'' 0 = (CasWrite 3 mark_txn, None)" "e_store s = e_store etcd_cluster"
    by (rule mark_sent)
  let ?st = "put_kv (marks_key ''e'') (MarksValue ?v) None (e_store s)"
  let ?s = "reply_task ''a'' 0 ?st (TxnAnswer ?r) s"
  have run: "run_txn mark_txn (e_store s) = Some (?st, ?r)"
    unfolding s(3) by (simp add: mark_txn_def run_txn_def build_reboot_ran_cas_txn_def compare_holds_def etcd_cluster_def)
  have step: "steady s ?s" using etcd_step.task_cas_lands [OF s(2) run] by (simp add: steady_def reply_task_def)
  have "stored_marks ''j'' ''e'' s \<union> text_marks ''j'' ?v \<subseteq> stored_marks ''j'' ''e'' ?s"
    by (rule etcd_marks_survive [OF etcd_cluster_init _ s(1) s(2) [unfolded mark_txn_def] run [unfolded mark_txn_def]])
      (simp_all add: etcd_cluster_def)
  moreover have "''k'' \<in> text_marks ''j'' ?v" by (simp add: text_marks_def decode_encode_reboot_ran)
  ultimately show ?thesis using s(1) step by (meson rtranclp.rtrancl_into_rtrancl subsetD UnI2)
qed

subsection \<open>Stale marks\<close>

text \<open>
  A holder that lost its lease clears the synced flag and keeps_leases the leader flag.  A read of the marks by an
  eager write sets the synced flag again, before the lease is regained; the round that regains it is then no
  gain, skips the read, and the node answers that a one-shot has not run although another leader may have
  run and marked it in between.
\<close>

lemma regain_answers_stale_marks:
  assumes lead: "eb_leader_flag b" and scope: "lb_reboot_ran_local_job_set_id b = Some live"
    and "b1 = fst (after_keepalive t0 a0 (Some 0) b)"
    and "b2 = fst (after_range live t1 n kv b1)" and "b3 = fst (etcd_start_round t2 b2)"
    and "b4 = fst (after_grant t2 (Some l) (Some ttl) b3)" and won: "campaign_won r l"
    and "x = after_campaign live t3 t2 l r b4" and soon: "t3 < t1 + ETCD_REBOOT_RAN_REFRESH"
    and read: "lb_reboot_ran_local b \<subseteq> kv_marks live kv" "job \<notin> kv_marks live kv"
  shows "snd x = EtcdIdle \<and> eb_leader_flag (fst x) \<and> \<not> eb_lease_lost (fst x) \<and> snd (etcd_reboot_ran live job (fst x)) = Inr False"
proof -
  have b2: "lb_reboot_ran b2 = kv_marks live kv" "lb_reboot_ran_job_set_id b2 = Some live" "lb_reboot_ran_local b2 = lb_reboot_ran_local b"
    "lb_reboot_ran_local_job_set_id b2 = Some live" "eb_reboot_ran_synced b2" "eb_reboot_refresh_next b2 = t1 + ETCD_REBOOT_RAN_REFRESH"
    "eb_leader_flag b2"
    using assms(1-4) by (auto simp: after_keepalive_def after_range_def fold_marks_def kv_marks_def observe_reboot_ran_def Let_def split: prod.split)
  have keep: "lb_reboot_ran b4 = lb_reboot_ran b2" "lb_reboot_ran_job_set_id b4 = lb_reboot_ran_job_set_id b2"
    "lb_reboot_ran_local b4 = lb_reboot_ran_local b2" "lb_reboot_ran_local_job_set_id b4 = lb_reboot_ran_local_job_set_id b2"
    "eb_reboot_ran_synced b4 = eb_reboot_ran_synced b2" "eb_reboot_refresh_next b4 = eb_reboot_refresh_next b2" "eb_leader_flag b4 = eb_leader_flag b2"
    unfolding assms(5,6) by (simp_all add: etcd_start_round_def after_grant_def narrow_effective_ttl_def Let_def)
  let ?b5 = "etcd_apply_round (holder_from_txn_response r (eb_identity b4)) True t3 t2 b4"
  have "sync_due live True t3 ?b5 = (?b5, False)"
    using b2 keep read(1) soon
    by (auto simp: sync_due_def etcd_apply_round_def reconcile_local_reboot_ran_def reconcile_observed_reboot_ran_def Let_def)
  moreover have "eb_leader_flag ?b5" by (simp add: etcd_apply_round_def Let_def)
  ultimately have x: "x = (?b5, EtcdIdle)"
    unfolding assms(8) using won b2 keep by (simp add: after_campaign_def start_sync_def finish_sync_def Let_def)
  show ?thesis unfolding x using b2 keep read
    by (auto simp: etcd_reboot_ran_def base_reboot_ran_def etcd_apply_round_def reconcile_local_reboot_ran_def
        reconcile_observed_reboot_ran_def Let_def)
qed

text \<open>
  A compare-and-swap loop does not drop its own marks when a reload changes the job set while it awaits the
  read: the marks of the old configuration are written under the new job set.
\<close>

lemma reload_republishes_marks:
  assumes "lb_reboot_ran_local_job_set_id b = Some old" and "old \<noteq> live" and job: "job \<in> lb_reboot_ran_local b"
    and "finite (lb_reboot_ran_local b)" and "job \<notin> kv_marks live kv"
  shows "\<exists>v m. snd (after_range live mt n kv b) = CasWrite n (build_reboot_ran_cas_txn (eb_reboot_ran_key b) v m) \<and> job \<in> text_marks live v"
proof -
  let ?b = "fold_marks live mt kv b"
  have ran: "lb_reboot_ran ?b = kv_marks live kv" "eb_reboot_ran_key ?b = eb_reboot_ran_key b"
    by (auto simp: fold_marks_def kv_marks_def observe_reboot_ran_def eb_reboot_ran_key_def split: prod.split)
  have "finite (kv_marks live kv)" by (rule finite_kv_marks)
  then have "text_marks live (encode_reboot_ran live (kv_marks live kv \<union> lb_reboot_ran_local b)) = kv_marks live kv \<union> lb_reboot_ran_local b"
    using assms(4) by (simp add: text_marks_def decode_encode_reboot_ran)
  then show ?thesis using job assms(5) ran by (auto simp: after_range_def marks_write_def Let_def)
qed

subsection \<open>Cadence\<close>

text \<open>
  With a usable lease a round and the pause after it fit into the fence, and the requests of a round into
  the round.
\<close>

lemma cadence_fits:
  "eb_effective_ttl b \<ge> ETCD_MIN_USABLE_TTL \<Longrightarrow>
     etcd_round_deadline b + etcd_renew_period b \<le> real_of_int (eb_effective_ttl b) - ETCD_SKEW_SECONDS"
  "real ETCD_POSTS_PER_CYCLE * etcd_request_timeout b \<le> etcd_round_deadline b"
proof -
  show "etcd_round_deadline b + etcd_renew_period b \<le> real_of_int (eb_effective_ttl b) - ETCD_SKEW_SECONDS"
    if "eb_effective_ttl b \<ge> ETCD_MIN_USABLE_TTL"
    using that by (auto simp: etcd_round_deadline_def etcd_renew_period_def ETCD_MIN_USABLE_TTL_def ETCD_SKEW_SECONDS_def)
  have "etcd_request_timeout b \<le> etcd_round_deadline b / 5" by (simp add: etcd_request_timeout_def ETCD_POSTS_PER_CYCLE_def)
  then show "real ETCD_POSTS_PER_CYCLE * etcd_request_timeout b \<le> etcd_round_deadline b" by (simp add: ETCD_POSTS_PER_CYCLE_def)
qed

text \<open>Every eligible endpoint is tried once, and with credentials none that is not encrypted.\<close>

lemma probe_order_eligible:
  fixes b :: EtcdBackend
  defines "eligible \<equiv> (if eb_authenticates b then filter endpoint_is_https (eb_endpoints b) else eb_endpoints b)"
  shows "set (probe_order b) = set eligible \<and> length (probe_order b) = length eligible"
proof -
  have "set (drop n xs @ take n xs) = set xs \<and> length (drop n xs @ take n xs) = length xs" for n and xs :: "string list"
    by (metis append_take_drop_id length_append set_append sup_commute add.commute)
  then show ?thesis unfolding eligible_def probe_order_def Let_def by (simp split: if_splits)
qed

end
