(* ===== verification/Redact.thy ===== *)
theory Redact
  imports Prelude
begin

text \<open>
  Secret scrubbing of archived output (\<open>redact.py\<close>).  The regular expressions are values of the type
  \<open>rx\<close>; their semantics is that of a backtracking matcher: all ends of a match from a position, in the
  order in which Python's engine tries them.  A pattern keeps what precedes and follows the secret.
\<close>

subsection \<open>Regular expressions\<close>

datatype rx =
  Empty | One "char \<Rightarrow> bool" | Seq rx rx | Alt rx rx | Star rx | Ahead rx | NotBehind "char \<Rightarrow> bool" | Boundary

primrec star_ends :: "(nat \<Rightarrow> nat list) \<Rightarrow> nat \<Rightarrow> nat \<Rightarrow> nat list" where
  "star_ends f 0 i = [i]"
| "star_ends f (Suc n) i = concat (map (star_ends f n) (filter (\<lambda>j. i < j) (f i))) @ [i]"

definition is_word_char :: "char \<Rightarrow> bool" where
  "is_word_char c \<longleftrightarrow> is_digit c \<or> (65 \<le> code_of c \<and> code_of c \<le> 90) \<or> (97 \<le> code_of c \<and> code_of c \<le> 122) \<or> c = CHR ''_''"

definition at_boundary :: "string \<Rightarrow> nat \<Rightarrow> bool" where
  "at_boundary s i \<longleftrightarrow>
     (0 < i \<and> i \<le> length s \<and> is_word_char (s ! (i - 1))) \<noteq> (i < length s \<and> is_word_char (s ! i))"

primrec ends_of :: "rx \<Rightarrow> string \<Rightarrow> nat \<Rightarrow> nat list" where
  "ends_of Empty s i = [i]"
| "ends_of (One p) s i = (if i < length s \<and> p (s ! i) then [Suc i] else [])"
| "ends_of (Seq a b) s i = concat (map (ends_of b s) (ends_of a s i))"
| "ends_of (Alt a b) s i = ends_of a s i @ ends_of b s i"
| "ends_of (Star a) s i = star_ends (ends_of a s) (length s - i) i"
| "ends_of (Ahead a) s i = (if ends_of a s i = [] then [] else [i])"
| "ends_of (NotBehind p) s i = (if 0 < i \<and> p (s ! (i - 1)) then [] else [i])"
| "ends_of Boundary s i = (if at_boundary s i then [i] else [])"

primrec word :: "string \<Rightarrow> rx" where
  "word [] = Empty"
| "word (c # cs) = Seq (One (\<lambda>x. x = c)) (word cs)"

text \<open>A literal under \<open>(?i)\<close>, and alternatives of such literals.\<close>

primrec any_case :: "string \<Rightarrow> rx" where
  "any_case [] = Empty"
| "any_case (c # cs) = Seq (One (\<lambda>x. lower_char x = c)) (any_case cs)"

primrec times :: "nat \<Rightarrow> rx \<Rightarrow> rx" where
  "times 0 r = Empty"
| "times (Suc n) r = Seq r (times n r)"

primrec up_to :: "nat \<Rightarrow> rx \<Rightarrow> rx" where
  "up_to 0 r = Empty"
| "up_to (Suc n) r = Alt (Seq r (up_to n r)) Empty"

definition at_least :: "nat \<Rightarrow> rx \<Rightarrow> rx" where
  "at_least n r = Seq (times n r) (Star r)"

definition maybe :: "rx \<Rightarrow> rx" where
  "maybe r = Alt r Empty"

fun alts :: "rx list \<Rightarrow> rx" where
  "alts [] = Empty"
| "alts [r] = r"
| "alts (r # rs) = Alt r (alts rs)"

fun seqs :: "rx list \<Rightarrow> rx" where
  "seqs [] = Empty"
| "seqs (r # rs) = Seq r (seqs rs)"

definition is_alpha :: "char \<Rightarrow> bool" where
  "is_alpha c \<longleftrightarrow> (65 \<le> code_of c \<and> code_of c \<le> 90) \<or> (97 \<le> code_of c \<and> code_of c \<le> 122)"

definition is_upper :: "char \<Rightarrow> bool" where
  "is_upper c \<longleftrightarrow> 65 \<le> code_of c \<and> code_of c \<le> 90"

definition is_alnum :: "char \<Rightarrow> bool" where
  "is_alnum c \<longleftrightarrow> is_alpha c \<or> is_digit c"

subsection \<open>Patterns\<close>

record pattern =
  pt_keep :: rx
  pt_secret :: rx
  pt_after :: rx
  pt_gate :: "string option"

definition whole :: "rx \<Rightarrow> string \<Rightarrow> pattern" where
  "whole r gate = \<lparr>pt_keep = Empty, pt_secret = r, pt_after = Empty, pt_gate = Some gate\<rparr>"

definition dash_or_bar :: rx where
  "dash_or_bar = maybe (One (\<lambda>c. c = CHR ''_'' \<or> c = CHR ''-''))"

definition secret_keys :: rx where
  "secret_keys = alts [any_case ''password'', any_case ''passwd'', any_case ''pwd'', any_case ''secret'', any_case ''token'',
     seqs [any_case ''api'', dash_or_bar, any_case ''key''], any_case ''apikey'',
     seqs [any_case ''access'', dash_or_bar, any_case ''key''], seqs [any_case ''secret'', dash_or_bar, any_case ''key''],
     seqs [any_case ''auth'', dash_or_bar, any_case ''token''], any_case ''credential'',
     seqs [any_case ''private'', dash_or_bar, any_case ''key''], seqs [any_case ''rediscli'', dash_or_bar, any_case ''auth'']]"

definition blanks :: rx where
  "blanks = Star (One is_space)"

definition quoted :: "char \<Rightarrow> rx" where
  "quoted q = seqs [One (\<lambda>c. c = q),
     Star (Alt (One (\<lambda>c. c \<noteq> q \<and> c \<noteq> CHR 0x5C)) (Seq (One (\<lambda>c. c = CHR 0x5C)) (One (\<lambda>c. c \<noteq> CHR 0x0A)))), One (\<lambda>c. c = q)]"

definition is_closer :: "char \<Rightarrow> bool" where
  "is_closer c \<longleftrightarrow> c \<in> {CHR '','', CHR 0x7D, CHR 0x5D}"

definition key_value :: pattern where
  "key_value = \<lparr>
     pt_keep = seqs [Ahead (One (\<lambda>c. lower_char c \<in> set ''pstacr'')), secret_keys, maybe (One (\<lambda>c. lower_char c = CHR ''s'')),
       maybe (One (\<lambda>c. c = CHR 0x22 \<or> c = CHR 0x27)), blanks, One (\<lambda>c. c = CHR ''='' \<or> c = CHR '':''), blanks],
     pt_secret = alts [quoted CHR 0x22, quoted CHR 0x27,
       Seq (at_least 1 (One (\<lambda>c. \<not> is_space c \<and> \<not> is_closer c))) (Ahead (Seq blanks (One is_closer))),
       at_least 1 (One (\<lambda>c. c \<noteq> CHR 0x0D \<and> c \<noteq> CHR 0x0A))],
     pt_after = Empty, pt_gate = None\<rparr>"

definition is_scheme_char :: "char \<Rightarrow> bool" where
  "is_scheme_char c \<longleftrightarrow> is_alnum c \<or> c \<in> {CHR ''+'', CHR ''.'', CHR ''-''}"

definition url_password :: pattern where
  "url_password = \<lparr>
     pt_keep = seqs [NotBehind is_scheme_char, One is_alpha, up_to 31 (One is_scheme_char), word ''://'',
       Star (One (\<lambda>c. c \<notin> {CHR '':'', CHR ''/'', CHR ''@''} \<and> \<not> is_space c)), One (\<lambda>c. c = CHR '':'')],
     pt_secret = at_least 1 (One (\<lambda>c. c \<notin> {CHR ''@'', CHR ''/''} \<and> \<not> is_space c)),
     pt_after = One (\<lambda>c. c = CHR ''@''), pt_gate = Some ''://''\<rparr>"

definition bearer_token :: pattern where
  "bearer_token = \<lparr>pt_keep = Seq (any_case ''bearer'') (at_least 1 (One is_space)),
     pt_secret = at_least 8 (One (\<lambda>c. is_alnum c \<or> c \<in> {CHR ''.'', CHR ''_'', CHR ''-''})), pt_after = Empty, pt_gate = None\<rparr>"

definition basic_auth :: pattern where
  "basic_auth = \<lparr>
     pt_keep = seqs [any_case ''authorization'',
       Alt (seqs [blanks, One (\<lambda>c. c = CHR '':''), blanks]) (at_least 1 (One is_space)), any_case ''basic'', at_least 1 (One is_space)],
     pt_secret = at_least 8 (One (\<lambda>c. is_alnum c \<or> c \<in> {CHR ''+'', CHR ''/'', CHR ''=''})), pt_after = Empty, pt_gate = None\<rparr>"

definition pem_marker :: "string \<Rightarrow> rx" where
  "pem_marker kind = seqs [word ''-----'', any_case kind, word '' '',
     Star (One (\<lambda>c. is_alnum c \<or> c = CHR '' '')), any_case ''private key'', word ''-----'']"

definition PATTERNS :: "pattern list" where
  "PATTERNS = [key_value, url_password, bearer_token, basic_auth,
     whole (Seq (word ''AKIA'') (times 16 (One (\<lambda>c. is_digit c \<or> is_upper c)))) ''AKIA'',
     whole (seqs [Boundary, word ''xox'', One (\<lambda>c. c \<in> set ''baprs''), word ''-'',
       at_least 8 (One (\<lambda>c. is_alnum c \<or> c = CHR ''-''))]) ''xox'',
     whole (seqs [Boundary, word ''gh'', One (\<lambda>c. c \<in> set ''posur''), word ''_'', at_least 20 (One is_alnum)]) ''gh'',
     whole (seqs [Boundary, word ''github_pat_'', at_least 20 (One (\<lambda>c. is_alnum c \<or> c = CHR ''_''))]) ''github_pat_'',
     whole (seqs [Boundary, word ''sk-'', at_least 16 (One (\<lambda>c. is_alnum c \<or> c \<in> {CHR ''_'', CHR ''-''}))]) ''sk-'',
     whole (seqs [Boundary, One (\<lambda>c. c \<in> set ''sr''), word ''k_'', Alt (word ''live'') (word ''test''), word ''_'',
       at_least 16 (One is_alnum)]) ''k_'',
     whole (seqs [Boundary, word ''eyJ'', at_least 6 (One (\<lambda>c. is_alnum c \<or> c \<in> {CHR ''_'', CHR ''-''})), word ''.'',
       at_least 4 (One (\<lambda>c. is_alnum c \<or> c \<in> {CHR ''_'', CHR ''-''})), word ''.'',
       at_least 4 (One (\<lambda>c. is_alnum c \<or> c \<in> {CHR ''_'', CHR ''-''}))]) ''eyJ'',
     whole (Seq (pem_marker ''begin'') (Star (One (\<lambda>c. c \<noteq> CHR 0x0A)))) ''-----'']"

subsection \<open>Substitution\<close>

definition REDACTED :: string where
  "REDACTED = ''***REDACTED***''"

text \<open>The first match from a position: where the secret starts, where it ends, where the match ends.\<close>

definition match_at :: "pattern \<Rightarrow> string \<Rightarrow> nat \<Rightarrow> (nat \<times> nat \<times> nat) option" where
  "match_at p s i =
     (case concat (map (\<lambda>j. concat (map (\<lambda>k. map (\<lambda>l. (j, k, l)) (ends_of (pt_after p) s k)) (ends_of (pt_secret p) s j)))
             (ends_of (pt_keep p) s i)) of
        [] \<Rightarrow> None | m # _ \<Rightarrow> Some m)"

definition slice :: "string \<Rightarrow> nat \<Rightarrow> nat \<Rightarrow> string" where
  "slice s i j = take (j - i) (drop i s)"

function sub_from :: "pattern \<Rightarrow> string \<Rightarrow> nat \<Rightarrow> string" where
  "sub_from p s i =
     (if i > length s then []
      else (case match_at p s i of
              Some (j, k, l) \<Rightarrow>
                if l > i then slice s i j @ REDACTED @ slice s k l @ sub_from p s l
                else slice s i j @ REDACTED @ slice s k l @ slice s i (Suc i) @ sub_from p s (Suc i)
            | None \<Rightarrow> slice s i (Suc i) @ sub_from p s (Suc i)))"
  by pat_completeness auto
termination
  by (relation "measure (\<lambda>(p, s, i). Suc (length s) - i)") auto

declare sub_from.simps [simp del]

fun contains :: "string \<Rightarrow> string \<Rightarrow> bool" where
  "contains w [] \<longleftrightarrow> w = []"
| "contains w (c # cs) \<longleftrightarrow> prefix w (c # cs) \<or> contains w cs"

definition gate_open :: "pattern \<Rightarrow> string \<Rightarrow> bool" where
  "gate_open p s = (case pt_gate p of None \<Rightarrow> True | Some w \<Rightarrow> contains w s)"

fun apply_patterns :: "pattern list \<Rightarrow> string \<Rightarrow> string" where
  "apply_patterns [] s = s"
| "apply_patterns (p # ps) s = apply_patterns ps (if gate_open p s then sub_from p s 0 else s)"

definition redact_secrets :: "string \<Rightarrow> string" where
  "redact_secrets s = apply_patterns PATTERNS s"

subsection \<open>PEM blocks\<close>

text \<open>The leftmost match of a marker at or after a position: start and end.\<close>

definition search :: "rx \<Rightarrow> string \<Rightarrow> nat \<Rightarrow> (nat \<times> nat) option" where
  "search r s i = (case find (\<lambda>j. ends_of r s j \<noteq> []) [i..<Suc (length s)] of
     None \<Rightarrow> None | Some j \<Rightarrow> Some (j, hd (ends_of r s j)))"

definition PEM_BEGIN :: rx where "PEM_BEGIN = pem_marker ''begin''"

definition PEM_END :: rx where "PEM_END = pem_marker ''end''"

function pem_walk :: "string \<Rightarrow> bool \<Rightarrow> nat \<Rightarrow> bool" where
  "pem_walk line in_pem pos =
     (case search (if in_pem then PEM_END else PEM_BEGIN) line pos of
        None \<Rightarrow> in_pem
      | Some (j, e) \<Rightarrow> if e > pos \<and> e \<le> length line then pem_walk line (\<not> in_pem) e else \<not> in_pem)"
  by pat_completeness auto
termination
  by (relation "measure (\<lambda>(line, in_pem, pos). length line - pos)") auto

declare pem_walk.simps [simp del]

definition pem_state_after :: "string \<Rightarrow> bool \<Rightarrow> bool" where
  "pem_state_after line in_pem = (if \<not> contains ''-----'' line then in_pem else pem_walk line in_pem 0)"

fun starts_mid_pem :: "string list \<Rightarrow> bool" where
  "starts_mid_pem [] = False"
| "starts_mid_pem (line # lines) =
     (if \<not> contains ''-----'' line then starts_mid_pem lines
      else (case (search PEM_BEGIN line 0, search PEM_END line 0) of
              (None, None) \<Rightarrow> starts_mid_pem lines
            | (None, Some e) \<Rightarrow> True
            | (Some b, None) \<Rightarrow> False
            | (Some b, Some e) \<Rightarrow> fst e < fst b))"

fun redact_from :: "bool \<Rightarrow> string list \<Rightarrow> string list" where
  "redact_from in_pem [] = []"
| "redact_from in_pem (line # lines) =
     (if in_pem then REDACTED else redact_secrets line) # redact_from (pem_state_after line in_pem) lines"

definition redact_lines :: "string list \<Rightarrow> string list" where
  "redact_lines lines = redact_from (starts_mid_pem lines) lines"

end
