(* ===== verification/Spec2Isabelle.thy ===== *)
theory Spec2Isabelle
  imports CronProps CrontabProps ZoneProps ScheduleProps CatchUpProps RetryProps SlotProps DriverProps JobProps ClusterProps GossipProps LeaseProps K8sProps
    EtcdProps RedactProps
begin

text \<open>
  \<^bold>\<open>Cronstable: a verification development.\<close>

  Cronstable is a cron replacement: a scheduler that runs jobs and DAGs of tasks on one node or on a
  cluster of nodes which share nothing, a gossip network, or a state store.  Its parts, all in the
  Python package \<open>src/cronstable\<close>, and their interaction:

  \<^item> \<open>cronexpr.py\<close> parses cron expressions and finds the next and the previous matching instant;
    \<open>crontabs.py\<close> imports classic crontab files.
  \<^item> \<open>cron.py\<close> is the scheduler: an index of next fires, passes that plan and launch what is due, catch-up of
    fires missed while no process ran, retry ladders that survive a restart or move to another node, and
    cluster-wide concurrency slots.
  \<^item> \<open>dag.py\<close> is the pure state machine of a DAG run: the run is one document, every change of it a
    read-modify-write transform; \<open>dagrun.py\<close> is the driver that sends these transforms through the
    store, launches what a committed transform claimed and reports completions.
  \<^item> \<open>state.py\<close> is the durable store on a (possibly shared) file system: leases, documents, record
    streams and blobs; \<open>jobstate.py\<close> builds on it what a job may use (key/value pairs, cursors,
    idempotency claims, artifacts).
  \<^item> Who runs a job in a cluster is decided by \<open>cluster.py\<close>, the gossip backend, in which nodes poll each
    other's \<open>/peer\<close> and elect a leader or an owner per job, or behind the seam \<open>leadership.py\<close> by a lease on
    a shared mount, a Kubernetes \<open>Lease\<close> or an etcd key (\<open>backends/\<close>); \<open>cron.py\<close> asks it before it runs a job.
  \<^item> \<open>redact.py\<close> scrubs secrets from output before it is archived.

  \<^bold>\<open>Theories, and the sources they model.\<close>

  \<^item> \<open>Prelude\<close>: results of code that may raise, insertion-ordered dictionaries, the string primitives
    of Python that the sources use.  \<open>Calendar\<close>: the part of \<open>datetime\<close> and \<open>calendar\<close> the engine
    computes with.  \<open>JsonValues\<close>: JSON values, Python's comparison of them, \<open>_json.ensure_portable\<close>.
  \<^item> \<open>CronMatch\<close>, \<open>CronSearch\<close>, \<open>CronParse\<close> model \<open>cronexpr.py\<close>: class \<open>CronTab\<close> is the record
    \<open>crontab\<close>; the parser returns an error constructor for each \<open>raise ValueError\<close>; the searches are
    the loops of \<open>_next_civil\<close> and \<open>_prev_civil\<close>.  \<open>CronNext\<close>, \<open>CronPrev\<close>, \<open>CronParseFacts\<close> hold their
    lemmas, \<open>CronProps\<close> the properties.  \<open>Instants\<close> models aware datetimes over zones that are parameters,
    \<open>CronZone\<close> the aware branches of \<open>next\<close> and \<open>occurrences\<close>; \<open>CronZoneFacts\<close>, \<open>ZoneProps\<close>.
    \<open>CrontabFile\<close> models \<open>crontabs.py\<close>; \<open>CrontabProps\<close>.
  \<^item> \<open>Schedule\<close> models the next-fire index of \<open>cron.py\<close> and the passes over it (\<open>_ensure_seeded\<close> to
    \<open>_launch_plan\<close>), \<open>CatchUp\<close> the catch-up of missed fires (\<open>_missed_occurrences\<close> to \<open>_run_catch_up\<close>),
    \<open>Retry\<close> and \<open>RetryClaim\<close> launching, finishing and the retry ladder with its records, claims and
    rehydration, \<open>Slots\<close> the cluster slots.  \<open>ScheduleFacts\<close>, \<open>SchedulePasses\<close>, \<open>LadderMachine\<close> (an abstract
    ladder over all nodes), \<open>RetryLadder\<close> (the refinement to it) hold lemmas; \<open>ScheduleProps\<close>,
    \<open>CatchUpProps\<close>, \<open>RetryProps\<close>, \<open>SlotProps\<close> the properties.
  \<^item> \<open>DagGraph\<close> (\<open>validate_graph\<close>, Kahn's loop), \<open>DagRun\<close> (the run document and every transform) model
    \<open>dag.py\<close>.  \<open>DagFacts\<close>, \<open>DagQuiesce\<close>, \<open>DagBatch\<close>, \<open>DagPass\<close>, \<open>DagSteps\<close>, \<open>DagProgress\<close>,
    \<open>DagFinal\<close> hold the lemmas, \<open>DagProps\<close> the properties.  \<open>DagDriver\<close> and \<open>DagAdvance\<close> model the part
    of \<open>dagrun.py\<close> that changes a run, over the documents of \<open>StateDocs\<close>; \<open>DriverProps\<close> composes the two.
  \<^item> \<open>StateNames\<close> (file tokens), \<open>StateLease\<close> (leases), \<open>StateDocs\<close> (documents), \<open>StateRecords\<close> (record
    streams) model \<open>state.py\<close>; \<open>JobState\<close> and \<open>JobArtifacts\<close> model \<open>jobstate.py\<close> and the blob store.
    \<open>StateRecordNames\<close>, \<open>StateDerive\<close>, \<open>StateListing\<close> hold lemmas on streams; \<open>StateProps\<close> and \<open>JobProps\<close>
    the properties.
  \<^item> \<open>Election\<close> (\<open>quorum_size\<close>, \<open>elect_leader\<close>, \<open>hrw_owner\<close>), \<open>GossipParse\<close> (the parsers of a peer's
    response), \<open>ClusterView\<close> (\<open>PeerState\<close>, \<open>ClusterView\<close>), \<open>ClusterManager\<close> (the derivations of
    \<open>ClusterManager\<close> and the gate \<open>_cluster_allows\<close> of \<open>cron.py\<close>), \<open>Gossip\<close> (the body a node serves and
    the poll of a peer) model \<open>cluster.py\<close>.  \<open>GossipFacts\<close>, \<open>Converged\<close>, \<open>ClusterElection\<close> hold the
    lemmas, \<open>ClusterExample\<close> a concrete cluster, \<open>ClusterProps\<close> and \<open>GossipProps\<close> the properties.
  \<^item> \<open>Leadership\<close> models \<open>leadership.py\<close>; \<open>FsElection\<close>, \<open>K8sElection\<close> and \<open>EtcdElection\<close> the node code of the three
    backends, a round being its pieces between two requests.  \<open>FsLeaders\<close>, \<open>FsReboot\<close>, \<open>K8sLeaders\<close>,
    \<open>EtcdLeaders\<close>, \<open>EtcdRounds\<close>, \<open>EtcdMarks\<close> let any nodes and requests interleave in real time and hold the
    invariants; \<open>LeaseProps\<close>, \<open>K8sProps\<close>, \<open>EtcdProps\<close> the properties.
  \<^item> \<open>Redact\<close> models \<open>redact.py\<close> with the semantics of a backtracking matcher; \<open>RedactProps\<close>.

  \<^bold>\<open>What the lemmas show.\<close>

  \<^item> Cron: an accepted expression has non-empty time, month and day-of-month fields in range; the searches terminate and return
    the nearest matching second in their direction or report that none is left before the year
    horizon; the aware search terminates in every zone and returns the next instant to which a matching label
    resolves where clocks spring by exactly one hour; a hashed expression equals its resolved text; a crontab that
    is written parses to the jobs that are meant.
  \<^item> Scheduler: the heap refines one machine per job, no slot fires twice, a reload keeps pending fires;
    catch-up owes exactly the fires missed in zones of that kind and forfeits none on failures; no attempt of
    a ladder is launched twice across nodes on a shared store where no record lands too late, and a restart
    resumes it; a slot excludes overlap within leases.
  \<^item> DAG: the graph check accepts exactly the acyclic, closed, well-named graphs.  The life of a run is
    the step relation \<open>run_step\<close> with \<open>reachable\<close>; its invariant gives that no attempt is launched
    twice, that launches respect dependencies and budgets, that finished entries stay, and that a
    reachable run is never stuck.  The optimised routines (quiescence pre-scan, batched writes, the
    combined recovery and claim) equal the plain ones.
  \<^item> Driver: a history of document operations by any nodes, over a store whose accesses may fail, is
    followed by \<open>reachable\<close>; so no attempt is launched twice across nodes.
  \<^item> Store: distinct names get distinct files; leases exclude each other on a common clock and fence
    whatever the clocks (names that are not ephemeral); a document mutation refines an atomic update of one entry; cursors converge,
    claims are won once per window until released, listings and memoised maxima agree with the records.
  \<^item> Cluster: in a converged cluster, reachable in any pattern, a job under \<open>spread\<close> runs at most once
    and on some node when there is a quorate one; a single leader is doubled only across a bridge that
    is too thin to be seen; what a node serves is what a poller reads; polls debounce drift.
  \<^item> Lease backends: over a mount, a \<open>Lease\<close> or an etcd key two nodes never lead at once (until one is told to
    stop; over a \<open>Lease\<close> also until it is deleted or a holder repeats a renew time), and marks of one-shots are read back or kept as the code promises.  Where the code leaves a window
    open, a lemma exhibits it.
  \<^item> Redaction: the prefilter changes nothing, and the lines of a private key block are replaced, markers
    being read in the order of their positions.

  \<^bold>\<open>Interfaces.\<close>  Contracts between components are locales, interpreted on the model's own definitions:
  \<open>search_direction\<close> (forward and backward search), \<open>fire_walk\<close> (searches that walk a schedule), \<open>fenced_write\<close>
  (batched writes), \<open>run_transform\<close> (every transform of the run document), \<open>document_store\<close> (what clients of
  the store rely on, provided by \<open>mutate_document\<close>), \<open>single_holder\<close> (provided by the three lease backends and
  by the cluster slots), \<open>quorum_system\<close>, \<open>selector\<close>, \<open>election\<close>, \<open>complete_election\<close> and \<open>agreement\<close>
  (the elections, provided by majorities, names, rendezvous hashing and converged clusters).

  \<^bold>\<open>Conventions and bounds.\<close>  Strings are lists of ASCII characters; names in file tokens are the
  bytes of their encoding.  Clock readings and durations, floats in the source, are reals; instants of the
  scheduler are microseconds.  SHA-256, the data of time zones, the texts of timestamps and the digest of a
  job are parameters.  The outcome of each lock, read and write of a store operation is a field of the record
  \<open>io\<close>, so that the fail-closed branches are branches of the model.  Launching a process, reading an
  upstream list and probing a pid are parameters.  Servers (the Kubernetes API, etcd) enter by their documented
  behaviour only, as rules of the step relations.  No definition takes fuel: loops are total functions with a
  measure, the searches bounded by the horizons \<open>YEAR_HORIZON\<close> and \<open>YEAR_FLOOR\<close> of the source, Kahn's loop by
  the tasks not yet released; only the loops of the aware search (\<open>next_loop\<close>, \<open>yield_loop\<close>) are partial
  functions into \<open>option\<close>, and that they return is a theorem.

  \<^bold>\<open>Not modelled.\<close>  The aware branch of \<open>prev\<close>; worker threads, topology probing, migration and inventory of
  the store, and its sweeps of streams, locks and blobs; transports, credentials and TLS of the backends, the
  HTTP servers and sessions; memoisation inside the cluster manager, whose cached values are the derivations
  modelled here; schedule firing, adoption and garbage collection of DAG runs; the asyncio loop of the
  scheduler, its web, pause and SLA duties and the archive of runs; the configuration schema; fingerprints; job
  processes, reporters, command lines and user interfaces, which are input and output.
\<close>

end
